(* ===== verification/Prelude.thy ===== *)
theory Prelude
  imports Main "HOL-Library.Word" "HOL-Library.Monad_Syntax"
begin

text \<open>
  Shared vocabulary of the development: the machine types of the C and C++ sources, signed
  arithmetic with undefined overflow, little-endian values of byte arrays, and the facts on lists,
  sums and congruences that the component theories use.

  \<^item> Unsigned integers whose wrap-around matters (\<^verbatim>\<open>uint8_t\<close>, \<^verbatim>\<open>uint64_t\<close>)
    are \<open>8 word\<close> and \<open>64 word\<close>.
  \<^item> Signed integers (\<^verbatim>\<open>int32_t\<close>, \<^verbatim>\<open>int64_t\<close>), whose overflow is undefined
    behaviour in C, are \<open>int\<close> values guarded by \<open>cint\<close>: an operation whose mathematical result
    does not fit yields \<open>None\<close>. A theorem with conclusion \<open>f x = Some y\<close> therefore also says
    that no intermediate result of \<open>f\<close> overflowed.
  \<^item> A shift to the right of a signed value is the arithmetic shift every supported compiler
    implements (division rounding down), a shift to the left is a multiplication, checked like
    one. The one left shift of the sources that leaves its type, in \<^verbatim>\<open>fe_tobytes\<close>, is modelled in both readings
    (\<open>Field_Bytes\<close>).
\<close>

type_synonym u8 = "8 word"
type_synonym u32 = "32 word"
type_synonym u64 = "64 word"
type_synonym bytes = "8 word list"

named_theorems machine_simps \<open>rewriting of checked machine arithmetic\<close>
named_theorems limb_simps \<open>rewriting of limb values\<close>


section \<open>Signed machine arithmetic\<close>

definition cint :: "nat \<Rightarrow> int \<Rightarrow> int option" where
  "cint W x = (if - (2 ^ (W - 1)) \<le> x \<and> x < 2 ^ (W - 1) then Some x else None)"

lemma cint_Some [machine_simps]:
  "- (2 ^ (W - 1)) \<le> x \<Longrightarrow> x < 2 ^ (W - 1) \<Longrightarrow> cint W x = Some x"
  by (simp add: cint_def)

lemma cint_SomeD: "cint W x = Some y \<Longrightarrow> y = x"
  by (simp add: cint_def split: if_splits)

lemma cint_abs_Some: "\<bar>x\<bar> < 2 ^ (W - 1) \<Longrightarrow> cint W x = Some x"
  by (auto simp: cint_def)

lemma cint_bounds: "cint W x = Some y \<Longrightarrow> - (2 ^ (W - 1)) \<le> x \<and> x < 2 ^ (W - 1)"
  by (simp add: cint_def split: if_splits)


section \<open>Reading arrays\<close>

text \<open>Reading past the end of an array is undefined in C: the read is an option.\<close>

definition idx :: "'a list \<Rightarrow> nat \<Rightarrow> 'a option" where
  "idx xs i = (if i < length xs then Some (xs ! i) else None)"

lemma idx_Some [simp]: "i < length xs \<Longrightarrow> idx xs i = Some (xs ! i)"
  by (simp add: idx_def)

lemma idx_None [simp]: "length xs \<le> i \<Longrightarrow> idx xs i = None"
  by (simp add: idx_def)


section \<open>Little-endian values\<close>

text \<open>The number a byte array stands for: \<open>s[0] + 256 s[1] + 256\<^sup>2 s[2] + \<dots>\<close>.\<close>

fun le_value :: "bytes \<Rightarrow> int" where
  "le_value [] = 0"
| "le_value (b # bs) = uint b + 256 * le_value bs"

lemma le_value_nonneg [simp]: "0 \<le> le_value bs"
  by (induction bs) auto

lemma le_value_upper: "le_value bs < 256 ^ length bs"
proof (induction bs)
  case Nil
  then show ?case by simp
next
  case (Cons b bs)
  have "uint b < 256" using uint_lt2p [of b] by simp
  moreover have "256 * (le_value bs + 1) \<le> 256 * 256 ^ length bs"
    using Cons.IH by (intro mult_left_mono) auto
  ultimately show ?case by simp
qed

lemma le_value_append: "le_value (xs @ ys) = le_value xs + 256 ^ length xs * le_value ys"
  by (induction xs) (auto simp: algebra_simps)

lemma le_value_inj:
  "length xs = length ys \<Longrightarrow> le_value xs = le_value ys \<Longrightarrow> xs = ys"
proof (induction xs ys rule: list_induct2)
  case Nil
  then show ?case by simp
next
  case (Cons x xs y ys)
  have x: "uint x < 256" and y: "uint y < 256"
    using uint_lt2p [of x] uint_lt2p [of y] by simp_all
  have "uint x = (uint x + 256 * le_value xs) mod 256" using x by simp
  also have "\<dots> = (uint y + 256 * le_value ys) mod 256" using Cons.prems by simp
  also have "\<dots> = uint y" using y by simp
  finally have "uint x = uint y" .
  then have "x = y" by (rule word_uint_eqI)
  with Cons show ?case by simp
qed


section \<open>Lists, sums and congruences\<close>

lemma lists_length_Suc:
  "length xs = Suc n \<longleftrightarrow> (\<exists>y ys. xs = y # ys \<and> length ys = n)"
  by (cases xs) auto

text \<open>A list of known length as a list of variables.\<close>

lemmas list_of_length = lists_length_Suc eval_nat_numeral ex_simps

lemma mod_eqI: "(M :: int) dvd x - y \<Longrightarrow> x mod M = y mod M"
  by (simp add: mod_eq_dvd_iff)

lemma mod_eqD: "x mod M = y mod M \<Longrightarrow> (M :: int) dvd x - y"
  by (simp add: mod_eq_dvd_iff)

lemma mod_unique:
  "(x :: int) mod M = y mod M \<Longrightarrow> 0 \<le> y \<Longrightarrow> y < M \<Longrightarrow> y = x mod M"
  by simp

lemma abs_mult_le:
  "\<bar>x\<bar> \<le> (a :: int) \<Longrightarrow> \<bar>y\<bar> \<le> b \<Longrightarrow> \<bar>x * y\<bar> \<le> a * b"
  by (simp add: abs_mult mult_mono)

lemma sum_update:
  fixes g :: "nat \<Rightarrow> int"
  assumes "i < n" and "n \<le> length s"
  shows "(\<Sum>k<n. s[i := x] ! k * g k) = (\<Sum>k<n. s ! k * g k) + (x - s ! i) * g i"
proof -
  have "(\<Sum>k<n. s[i := x] ! k * g k) = (\<Sum>k<n. s ! k * g k + (if k = i then (x - s ! i) * g i else 0))"
    using assms by (intro sum.cong) (auto simp: algebra_simps)
  also have "\<dots> = (\<Sum>k<n. s ! k * g k) + (x - s ! i) * g i"
    using assms by (simp add: sum.distrib)
  finally show ?thesis .
qed

lemma sum_update_out:
  fixes g :: "nat \<Rightarrow> int"
  assumes "n \<le> i"
  shows "(\<Sum>k<n. s[i := x] ! k * g k) = (\<Sum>k<n. s ! k * g k)"
  using assms by (intro sum.cong) auto

lemma div_bounds:
  fixes x B :: int
  assumes "0 < B"
  shows "B * (x div B) \<le> x" and "x < B * (x div B) + B"
  using pos_mod_bound [OF assms, of x] pos_mod_sign [OF assms, of x] minus_mod_eq_mult_div [of x B]
  by linarith+

lemma shift_sign:
  "- B \<le> x \<Longrightarrow> x < B \<Longrightarrow> x div B = (if x < 0 then - 1 else (0 :: int))"
  by (auto intro!: int_div_pos_eq [of x B "- 1" "x + B"])

text \<open>Traversals whose every check succeeds.\<close>

lemma those_map_Some:
  "(\<And>x. x \<in> set xs \<Longrightarrow> f x = Some (g x)) \<Longrightarrow> those (map f xs) = Some (map g xs)"
  by (induction xs) auto

lemma those_map2_Some:
  assumes "\<And>i. i < length xs \<Longrightarrow> i < length ys \<Longrightarrow> f (xs ! i) (ys ! i) = Some (g (xs ! i) (ys ! i))"
  shows "those (map2 f xs ys) = Some (map2 g xs ys)"
  by (rule those_map_Some) (auto simp: set_zip assms)

end
