(* ===== verification/Limbs.thy ===== *)
theory Limbs
  imports Prelude
begin

text \<open>
  Multi-limb integers and their carry chains. The field and scalar routines of
  \<^verbatim>\<open>src/src/crypto/crypto-ops.c\<close> keep a number in local variables (ten limbs \<open>h0 \<dots> h9\<close>, or
  up to twenty-four limbs \<open>s0 \<dots> s23\<close>) and reduce it by long straight-line sequences of a few
  statement forms. This theory gives

  \<^item> the statement forms as a datatype \<open>limb_step\<close> with their checked execution \<open>limb_exec\<close>
    and \<open>limb_run\<close> (\<open>None\<close> on a signed overflow);
  \<^item> an interval analysis \<open>limb_bounds\<close> of such sequences, proved sound: where it succeeds,
    the sequence runs without overflow and ends within the computed intervals;
  \<^item> the locale \<open>limb_system\<close>: given limb weights and a modulus whose laws make every allowed
    statement value preserving, a whole sequence preserves the value modulo the modulus.
\<close>

section \<open>Statements and their execution\<close>

text \<open>
  The statement forms, as the source writes them:
  \<^item> \<open>Carry i w r j m\<close>: \<^verbatim>\<open>carry = (s_i + r) >> w; s_j += carry * m; s_i -= carry << w;\<close>
    (the factor \<open>m\<close> is 1, or 19 for the wrap of the top limb of a field element);
  \<^item> \<open>Chop i w\<close>: \<^verbatim>\<open>carry = s_i >> w; s_i -= carry << w;\<close>
  \<^item> \<open>Fold k j [m0, m1, \<dots>]\<close>: \<^verbatim>\<open>s_j += s_k * m0; s_(j+1) += s_k * m1; \<dots>\<close>, where a negative
    factor \<open>- m\<close> stands for \<^verbatim>\<open>s_j -= s_k * m\<close>;
  \<^item> \<open>Zero k\<close>: \<^verbatim>\<open>s_k = 0;\<close>
\<close>

datatype limb_step =
    Carry nat nat int nat int
  | Chop nat nat
  | Fold nat nat "int list"
  | Zero nat

fun fold_into :: "nat \<Rightarrow> int \<Rightarrow> nat \<Rightarrow> int list \<Rightarrow> int list \<Rightarrow> int list option" where
  "fold_into W x j [] s = Some s"
| "fold_into W x j (m # ms) s =
     do { p \<leftarrow> cint W (x * \<bar>m\<bar>);
          u \<leftarrow> cint W (if 0 \<le> m then s ! j + p else s ! j - p);
          fold_into W x (Suc j) ms (s[j := u]) }"

fun limb_exec :: "nat \<Rightarrow> limb_step \<Rightarrow> int list \<Rightarrow> int list option" where
  "limb_exec W (Carry i w r j m) s =
     (if i < length s \<and> j < length s \<and> i \<noteq> j then
        do { t \<leftarrow> cint W (s ! i + r);
             let c = t div 2 ^ w;
             p \<leftarrow> cint W (c * m);
             u \<leftarrow> cint W (s ! j + p);
             q \<leftarrow> cint W (c * 2 ^ w);
             v \<leftarrow> cint W (s ! i - q);
             Some (s[j := u, i := v]) }
      else None)"
| "limb_exec W (Chop i w) s =
     (if i < length s then
        do { let c = s ! i div 2 ^ w;
             q \<leftarrow> cint W (c * 2 ^ w);
             v \<leftarrow> cint W (s ! i - q);
             Some (s[i := v]) }
      else None)"
| "limb_exec W (Fold k j ms) s =
     (if k < length s \<and> j + length ms \<le> k then fold_into W (s ! k) j ms s else None)"
| "limb_exec W (Zero k) s = (if k < length s then Some (s[k := 0]) else None)"

fun limb_run :: "nat \<Rightarrow> limb_step list \<Rightarrow> int list \<Rightarrow> int list option" where
  "limb_run W [] s = Some s"
| "limb_run W (st # sts) s = do { s' \<leftarrow> limb_exec W st s; limb_run W sts s' }"

lemma limb_run_append:
  "limb_run W (xs @ ys) s = do { s' \<leftarrow> limb_run W xs s; limb_run W ys s' }"
  by (induction xs arbitrary: s) (auto split: bind_splits)

lemma fold_into_length: "fold_into W x j ms s = Some s' \<Longrightarrow> length s' = length s"
  by (induction W x j ms s rule: fold_into.induct) (auto split: bind_splits)

lemma limb_exec_length: "limb_exec W st s = Some s' \<Longrightarrow> length s' = length s"
  by (cases st) (auto split: if_splits bind_splits simp: Let_def dest: fold_into_length)

lemma limb_run_length: "limb_run W sts s = Some s' \<Longrightarrow> length s' = length s"
  by (induction sts arbitrary: s) (auto split: bind_splits dest: limb_exec_length)


section \<open>Interval analysis\<close>

type_synonym interval = "int \<times> int"

text \<open>The bound \<open>B\<close> is \<open>2 ^ (W - 1)\<close>: values of the type lie in \<open>-B \<dots> B - 1\<close>.\<close>

definition fits :: "int \<Rightarrow> interval \<Rightarrow> bool" where
  "fits B iv = (- B \<le> fst iv \<and> snd iv < B)"

fun fold_bound :: "int \<Rightarrow> interval \<Rightarrow> nat \<Rightarrow> int list \<Rightarrow> interval list \<Rightarrow> interval list option" where
  "fold_bound B x j [] b = Some b"
| "fold_bound B x j (m # ms) b =
     (let a = \<bar>m\<bar>; pl = fst x * a; ph = snd x * a; y = b ! j;
          u = (if 0 \<le> m then (fst y + pl, snd y + ph) else (fst y - ph, snd y - pl))
      in if fits B (pl, ph) \<and> fits B u then fold_bound B x (Suc j) ms (b[j := u]) else None)"

fun limb_bound :: "int \<Rightarrow> limb_step \<Rightarrow> interval list \<Rightarrow> interval list option" where
  "limb_bound B (Carry i w r j m) b =
     (if i < length b \<and> j < length b \<and> i \<noteq> j \<and> 0 \<le> m then
        let x = b ! i; y = b ! j;
            cl = drop_bit w (fst x + r); ch = drop_bit w (snd x + r);
            pl = cl * m; ph = ch * m;
            u = (fst y + pl, snd y + ph); v = (- r, 2 ^ w - 1 - r)
        in if fits B (fst x + r, snd x + r) \<and> fits B (pl, ph) \<and> fits B u
              \<and> fits B (cl * 2 ^ w, ch * 2 ^ w) \<and> fits B v
           then Some (b[j := u, i := v]) else None
      else None)"
| "limb_bound B (Chop i w) b =
     (if i < length b then
        let x = b ! i; cl = drop_bit w (fst x); ch = drop_bit w (snd x)
        in if fits B (cl * 2 ^ w, ch * 2 ^ w) \<and> 2 ^ w \<le> B
           then Some (b[i := (0, 2 ^ w - 1)]) else None
      else None)"
| "limb_bound B (Fold k j ms) b =
     (if k < length b \<and> j + length ms \<le> k then fold_bound B (b ! k) j ms b else None)"
| "limb_bound B (Zero k) b = (if k < length b then Some (b[k := (0, 0)]) else None)"

fun limb_bounds :: "int \<Rightarrow> limb_step list \<Rightarrow> interval list \<Rightarrow> interval list option" where
  "limb_bounds B [] b = Some b"
| "limb_bounds B (st # sts) b =
     (case limb_bound B st b of None \<Rightarrow> None | Some b' \<Rightarrow> limb_bounds B sts b')"

definition inside :: "int \<Rightarrow> interval \<Rightarrow> bool" where
  "inside x iv \<longleftrightarrow> fst iv \<le> x \<and> x \<le> snd iv"

definition within :: "int list \<Rightarrow> interval list \<Rightarrow> bool" where
  "within s b \<longleftrightarrow> list_all2 inside s b"

lemma within_length: "within s b \<Longrightarrow> length s = length b"
  by (simp add: within_def list_all2_lengthD)

lemma within_nth: "within s b \<Longrightarrow> i < length b \<Longrightarrow> inside (s ! i) (b ! i)"
  by (simp add: within_def list_all2_conv_all_nth)

lemma within_update: "within s b \<Longrightarrow> inside x iv \<Longrightarrow> within (s[i := x]) (b[i := iv])"
  by (simp add: within_def list_all2_update_cong)

lemma within_Nil [simp]: "within [] []"
  by (simp add: within_def)

lemma within_Cons [simp]: "within (x # s) (iv # b) \<longleftrightarrow> inside x iv \<and> within s b"
  by (simp add: within_def)

lemma within_append: "within s b \<Longrightarrow> within s' b' \<Longrightarrow> within (s @ s') (b @ b')"
  by (simp add: within_def list_all2_appendI)

lemma within_mono:
  assumes "within s b" and "list_all2 (\<lambda>x y. fst y \<le> fst x \<and> snd x \<le> snd y) b c"
  shows "within s c"
  using assms unfolding within_def inside_def list_all2_conv_all_nth by (metis order.trans)

lemma inside_abs: "\<bar>x\<bar> \<le> B \<Longrightarrow> inside x (- B, B)"
  by (auto simp: inside_def abs_le_iff)

lemma within_abs:
  "length s = n \<Longrightarrow> (\<And>i. i < n \<Longrightarrow> \<bar>s ! i\<bar> \<le> B) \<Longrightarrow> within s (replicate n (- B, B))"
  by (simp add: within_def list_all2_conv_all_nth inside_abs)

lemma inside_zero [simp]: "inside 0 (0, 0)"
  by (simp add: inside_def)

lemma fits_cint:
  "fits (2 ^ (W - 1)) iv \<Longrightarrow> inside x iv \<Longrightarrow> cint W x = Some x"
  by (auto simp: fits_def inside_def cint_def)

lemma inside_add: "inside x a \<Longrightarrow> inside y b \<Longrightarrow> inside (x + y) (fst a + fst b, snd a + snd b)"
  by (auto simp: inside_def)

lemma inside_diff: "inside x a \<Longrightarrow> inside y b \<Longrightarrow> inside (x - y) (fst a - snd b, snd a - fst b)"
  by (auto simp: inside_def)

lemma inside_scale: "inside x a \<Longrightarrow> 0 \<le> m \<Longrightarrow> inside (x * m) (fst a * m, snd a * m)"
  by (auto simp: inside_def intro: mult_right_mono)

lemma inside_shift:
  "inside x a \<Longrightarrow> inside (x div 2 ^ w) (drop_bit w (fst a), drop_bit w (snd a))"
  by (auto simp: inside_def drop_bit_eq_div intro: zdiv_mono1)

lemma inside_offset: "inside x a \<Longrightarrow> inside (x + r) (fst a + r, snd a + r)"
  by (simp add: inside_def)

lemma carry_rest:
  "inside (x - (x + r) div 2 ^ w * 2 ^ w) (- r, 2 ^ w - 1 - r)" for x r :: int
proof -
  have "x - (x + r) div 2 ^ w * 2 ^ w = (x + r) mod 2 ^ w - r"
    by (simp add: minus_div_mult_eq_mod [symmetric])
  moreover have "0 \<le> (x + r) mod 2 ^ w" and "(x + r) mod 2 ^ w < 2 ^ w"
    by simp_all
  ultimately show ?thesis by (auto simp: inside_def)
qed

lemmas inside_rules = inside_add inside_diff inside_scale inside_shift inside_offset carry_rest

lemma fold_bound_sound:
  assumes "fold_bound (2 ^ (W - 1)) iv j ms b = Some b'" and "inside x iv" and "within s b"
    and "j + length ms \<le> length b"
  shows "\<exists>s'. fold_into W x j ms s = Some s' \<and> within s' b'"
  using assms
proof (induction ms arbitrary: j s b)
  case Nil
  then show ?case by simp
next
  case (Cons m ms)
  let ?B = "2 ^ (W - 1) :: int" and ?a = "\<bar>m\<bar>"
  let ?p = "(fst iv * ?a, snd iv * ?a)"
  let ?u = "if 0 \<le> m then (fst (b ! j) + fst ?p, snd (b ! j) + snd ?p)
            else (fst (b ! j) - snd ?p, snd (b ! j) - fst ?p)"
  let ?v = "if 0 \<le> m then s ! j + x * ?a else s ! j - x * ?a"
  from Cons.prems(1) have fit: "fits ?B ?p" "fits ?B ?u"
    and rest: "fold_bound ?B iv (Suc j) ms (b[j := ?u]) = Some b'"
    by (auto simp: Let_def split: if_splits)
  have p: "inside (x * ?a) ?p"
    using Cons.prems(2) by (intro inside_scale) auto
  have y: "inside (s ! j) (b ! j)"
    using Cons.prems(3,4) by (intro within_nth) auto
  have u: "inside ?v ?u"
    using inside_add [OF y p] inside_diff [OF y p] by (cases "0 \<le> m") auto
  have "within (s[j := ?v]) (b[j := ?u])"
    using Cons.prems(3) u by (rule within_update)
  with rest Cons.prems(2,4) obtain s' where
    "fold_into W x (Suc j) ms (s[j := ?v]) = Some s'" "within s' b'"
    using Cons.IH [of "Suc j" "b[j := ?u]" "s[j := ?v]"] by auto
  with fits_cint [OF fit(1) p] fits_cint [OF fit(2) u] show ?case
    by (cases "0 \<le> m") auto
qed

lemma carry_sound:
  assumes "limb_bound (2 ^ (W - 1)) (Carry i w r j m) b = Some b'" and "within s b"
  shows "\<exists>s'. limb_exec W (Carry i w r j m) s = Some s' \<and> within s' b'"
proof -
  let ?B = "2 ^ (W - 1) :: int"
  let ?t = "(fst (b ! i) + r, snd (b ! i) + r)"
  let ?c = "(drop_bit w (fst ?t), drop_bit w (snd ?t))"
  let ?p = "(fst ?c * m, snd ?c * m)" and ?q = "(fst ?c * 2 ^ w, snd ?c * 2 ^ w)"
  let ?u = "(fst (b ! j) + fst ?p, snd (b ! j) + snd ?p)" and ?v = "(- r, 2 ^ w - 1 - r)"
  let ?C = "(s ! i + r) div 2 ^ w"
  from assms(1) have ij: "i < length b" "j < length b" "i \<noteq> j" "0 \<le> m"
    and fit: "fits ?B ?t" "fits ?B ?p" "fits ?B ?u" "fits ?B ?q" "fits ?B ?v"
    and b': "b' = b[j := ?u, i := ?v]"
    by (auto simp: Let_def split: if_splits)
  note len = within_length [OF assms(2)]
  have x: "inside (s ! i) (b ! i)" and y: "inside (s ! j) (b ! j)"
    using assms(2) ij by (auto intro: within_nth)
  have t: "inside (s ! i + r) ?t" using x by (rule inside_offset)
  have c: "inside ?C ?c" using t by (rule inside_shift)
  have p: "inside (?C * m) ?p" using c ij(4) by (rule inside_scale)
  have q: "inside (?C * 2 ^ w) ?q" using c by (rule inside_scale) simp
  have u: "inside (s ! j + ?C * m) ?u" using y p by (rule inside_add)
  have v: "inside (s ! i - ?C * 2 ^ w) ?v" by (rule carry_rest)
  have "limb_exec W (Carry i w r j m) s = Some (s[j := s ! j + ?C * m, i := s ! i - ?C * 2 ^ w])"
    using ij len fits_cint [OF fit(1) t] fits_cint [OF fit(2) p] fits_cint [OF fit(3) u]
      fits_cint [OF fit(4) q] fits_cint [OF fit(5) v] by (simp add: Let_def)
  moreover have "within (s[j := s ! j + ?C * m, i := s ! i - ?C * 2 ^ w]) b'"
    unfolding b' by (intro within_update assms(2) u v)
  ultimately show ?thesis by blast
qed

lemma chop_sound:
  assumes "limb_bound (2 ^ (W - 1)) (Chop i w) b = Some b'" and "within s b"
  shows "\<exists>s'. limb_exec W (Chop i w) s = Some s' \<and> within s' b'"
proof -
  let ?c = "(drop_bit w (fst (b ! i)), drop_bit w (snd (b ! i)))"
  let ?C = "s ! i div 2 ^ w" and ?v = "(0, 2 ^ w - 1) :: interval"
  from assms(1) have i: "i < length b"
    and fit: "fits (2 ^ (W - 1)) (fst ?c * 2 ^ w, snd ?c * 2 ^ w)" "2 ^ w \<le> (2 ^ (W - 1) :: int)"
    and b': "b' = b[i := ?v]"
    by (auto simp: Let_def split: if_splits)
  note len = within_length [OF assms(2)]
  have c: "inside ?C ?c" using within_nth [OF assms(2) i] by (rule inside_shift)
  have q: "inside (?C * 2 ^ w) (fst ?c * 2 ^ w, snd ?c * 2 ^ w)" using c by (rule inside_scale) simp
  have v: "inside (s ! i - ?C * 2 ^ w) ?v" using carry_rest [of "s ! i" 0 w] by simp
  have "cint W (s ! i - ?C * 2 ^ w) = Some (s ! i - ?C * 2 ^ w)"
  proof (rule cint_Some)
    have "0 \<le> s ! i - ?C * 2 ^ w" and "s ! i - ?C * 2 ^ w < 2 ^ w"
      using v by (simp_all add: inside_def)
    then show "- (2 ^ (W - 1)) \<le> s ! i - ?C * 2 ^ w" and "s ! i - ?C * 2 ^ w < 2 ^ (W - 1)"
      using fit(2) by linarith+
  qed
  then have "limb_exec W (Chop i w) s = Some (s[i := s ! i - ?C * 2 ^ w])"
    using i len fits_cint [OF fit(1) q] by (simp add: Let_def)
  then show ?thesis using within_update [OF assms(2) v] b' by blast
qed

lemma limb_bound_sound:
  assumes "limb_bound (2 ^ (W - 1)) st b = Some b'" and "within s b"
  shows "\<exists>s'. limb_exec W st s = Some s' \<and> within s' b'"
proof (cases st)
  case (Carry i w r j m)
  with assms show ?thesis by (auto intro!: carry_sound simp del: limb_exec.simps limb_bound.simps)
next
  case (Chop i w)
  with assms show ?thesis by (auto intro!: chop_sound simp del: limb_exec.simps limb_bound.simps)
next
  case (Fold k j ms)
  with assms fold_bound_sound [of W "b ! k" j ms b b' "s ! k" s] show ?thesis
    by (auto split: if_splits intro: within_nth dest: within_length)
next
  case (Zero k)
  with assms within_update [of s b 0 "(0, 0)" k] show ?thesis
    by (auto split: if_splits simp: inside_def dest: within_length)
qed

theorem limb_bounds_sound:
  assumes "limb_bounds (2 ^ (W - 1)) sts b = Some b'" and "within s b"
  shows "\<exists>s'. limb_run W sts s = Some s' \<and> within s' b'"
  using assms
proof (induction sts arbitrary: s b)
  case Nil
  then show ?case by simp
next
  case (Cons st sts)
  then obtain b1 where b1: "limb_bound (2 ^ (W - 1)) st b = Some b1"
    and rest: "limb_bounds (2 ^ (W - 1)) sts b1 = Some b'"
    by (auto split: option.splits)
  from limb_bound_sound [OF b1 Cons.prems(2)] obtain s1
    where "limb_exec W st s = Some s1" "within s1 b1" by blast
  with Cons.IH [OF rest] show ?case by auto
qed


section \<open>Values modulo a number\<close>

definition limb_val :: "(nat \<Rightarrow> int) \<Rightarrow> nat \<Rightarrow> int list \<Rightarrow> int" where
  "limb_val wt n s = (\<Sum>k<n. s ! k * wt k)"

lemma limb_val_Suc: "limb_val wt (Suc n) s = limb_val wt n s + s ! n * wt n"
  by (simp add: limb_val_def)

lemma limb_val_append: "n \<le> length s \<Longrightarrow> limb_val wt n (s @ t) = limb_val wt n s"
  unfolding limb_val_def by (intro sum.cong) (auto simp: nth_append)

text \<open>
  The limbs that carry the value are the first \<open>n\<close>. A \<open>Fold\<close> of limb \<open>n - 1\<close> retires it,
  a \<open>Zero\<close> of limb \<open>n\<close> brings it back; the other statements work on live limbs.
\<close>

fun limb_live :: "(limb_step \<Rightarrow> bool) \<Rightarrow> limb_step list \<Rightarrow> nat \<Rightarrow> nat option" where
  "limb_live ok [] n = Some n"
| "limb_live ok (Carry i w r j m # sts) n =
     (if ok (Carry i w r j m) \<and> i < n \<and> j < n then limb_live ok sts n else None)"
| "limb_live ok (Chop i w # sts) n = None"
| "limb_live ok (Fold k j ms # sts) n =
     (if ok (Fold k j ms) \<and> n = Suc k then limb_live ok sts k else None)"
| "limb_live ok (Zero k # sts) n = (if n = k then limb_live ok sts (Suc k) else None)"

lemma fold_into_val:
  assumes "fold_into W x j ms s = Some s'" and "j + length ms \<le> n" and "n \<le> length s"
  shows "limb_val wt n s' = limb_val wt n s + x * (\<Sum>t<length ms. ms ! t * wt (j + t))"
  using assms
proof (induction ms arbitrary: j s)
  case Nil
  then show ?case by simp
next
  case (Cons m ms)
  let ?v = "if 0 \<le> m then s ! j + x * \<bar>m\<bar> else s ! j - x * \<bar>m\<bar>"
  have v: "?v = s ! j + x * m" by simp
  from Cons.prems(1) have rest: "fold_into W x (Suc j) ms (s[j := s ! j + x * m]) = Some s'"
    unfolding v [symmetric] by (auto split: bind_splits if_splits dest!: cint_SomeD)
  have "limb_val wt n s' = limb_val wt n (s[j := s ! j + x * m])
      + x * (\<Sum>t<length ms. ms ! t * wt (Suc j + t))"
    using Cons.prems(2,3) by (intro Cons.IH [OF rest]) auto
  also have "limb_val wt n (s[j := s ! j + x * m]) = limb_val wt n s + x * m * wt j"
    using Cons.prems(2,3) by (simp add: limb_val_def sum_update)
  finally show ?case
    by (simp del: sum.lessThan_Suc add: sum.lessThan_Suc_shift distrib_left mult.assoc)
qed

lemma carry_val:
  assumes "limb_exec W (Carry i w r j m) s = Some s'" and "i < n" "j < n" and "n \<le> length s"
  shows "limb_val wt n s' = limb_val wt n s + (s ! i + r) div 2 ^ w * (m * wt j - 2 ^ w * wt i)"
proof -
  let ?C = "(s ! i + r) div 2 ^ w"
  from assms(1) have ij: "i \<noteq> j" and s': "s' = s[j := s ! j + ?C * m, i := s ! i - ?C * 2 ^ w]"
    by (auto split: if_splits bind_splits simp: Let_def dest!: cint_SomeD)
  have "limb_val wt n s' = limb_val wt n (s[j := s ! j + ?C * m])
      + (s ! i - ?C * 2 ^ w - s[j := s ! j + ?C * m] ! i) * wt i"
    unfolding limb_val_def s' using assms(2-4) by (intro sum_update) auto
  also have "limb_val wt n (s[j := s ! j + ?C * m]) = limb_val wt n s + ?C * m * wt j"
    unfolding limb_val_def using assms(3,4) by (subst sum_update) auto
  also have "s[j := s ! j + ?C * m] ! i = s ! i"
    using ij by simp
  finally show ?thesis by (simp add: algebra_simps)
qed

locale limb_system =
  fixes wt :: "nat \<Rightarrow> int" and M :: int and ok :: "limb_step \<Rightarrow> bool"
  assumes carry_law: "ok (Carry i w r j m) \<Longrightarrow> M dvd m * wt j - 2 ^ w * wt i"
    and fold_law: "ok (Fold k j ms) \<Longrightarrow> M dvd (\<Sum>t<length ms. ms ! t * wt (j + t)) - wt k"
begin

lemma carry_preserves:
  assumes "limb_exec W (Carry i w r j m) s = Some s'" and "ok (Carry i w r j m)"
    and "i < n" "j < n" and "n \<le> length s"
  shows "limb_val wt n s' mod M = limb_val wt n s mod M"
  using carry_val [OF assms(1,3-5), of wt] carry_law [OF assms(2)]
  by (intro mod_eqI) simp

lemma fold_preserves:
  assumes "limb_exec W (Fold k j ms) s = Some s'" and "ok (Fold k j ms)" and "Suc k \<le> length s"
  shows "limb_val wt k s' mod M = limb_val wt (Suc k) s mod M"
proof -
  let ?f = "\<Sum>t<length ms. ms ! t * wt (j + t)"
  from assms(1) have "fold_into W (s ! k) j ms s = Some s'" and "j + length ms \<le> k"
    by (auto split: if_splits)
  then have "limb_val wt k s' = limb_val wt k s + s ! k * ?f"
    using assms(3) by (intro fold_into_val) auto
  moreover have "limb_val wt (Suc k) s = limb_val wt k s + s ! k * wt k"
    by (simp add: limb_val_def)
  ultimately have "limb_val wt k s' - limb_val wt (Suc k) s = s ! k * (?f - wt k)"
    by (simp add: algebra_simps)
  then show ?thesis
    using fold_law [OF assms(2)] by (intro mod_eqI) simp
qed

theorem run_preserves:
  assumes "limb_run W sts s = Some s'" and "limb_live ok sts n = Some n'" and "n \<le> length s"
  shows "limb_val wt n' s' mod M = limb_val wt n s mod M"
  using assms
proof (induction sts arbitrary: s n)
  case Nil
  then show ?case by simp
next
  case (Cons st sts)
  from Cons.prems(1) obtain s1 where s1: "limb_exec W st s = Some s1"
    and run: "limb_run W sts s1 = Some s'" by (auto split: bind_splits)
  note len = limb_exec_length [OF s1]
  show ?case
  proof (cases st)
    case (Carry i w r j m)
    with Cons.prems(2) have live: "ok (Carry i w r j m)" "i < n" "j < n" "limb_live ok sts n = Some n'"
      by (auto split: if_splits)
    with Cons.IH [OF run live(4)] carry_preserves s1 Carry Cons.prems(3) len show ?thesis
      by (metis (no_types, lifting))
  next
    case (Chop i w)
    with Cons.prems(2) show ?thesis by simp
  next
    case (Fold k j ms)
    with Cons.prems(2) have live: "ok (Fold k j ms)" "n = Suc k" "limb_live ok sts k = Some n'"
      by (auto split: if_splits)
    then have "limb_val wt k s1 mod M = limb_val wt n s mod M"
      using fold_preserves [of W k j ms s s1] s1 Fold Cons.prems(3) by simp
    with Cons.IH [OF run live(3)] Cons.prems(3) live(2) len show ?thesis by simp
  next
    case (Zero k)
    with Cons.prems(2) have live: "n = k" "limb_live ok sts (Suc k) = Some n'"
      by (auto split: if_splits)
    from s1 Zero have "s1 = s[k := 0]" and k: "k < length s" by (auto split: if_splits)
    then have "limb_val wt (Suc k) s1 = limb_val wt n s"
      using live(1) by (simp add: limb_val_def sum_update_out)
    with Cons.IH [OF run live(2)] k len show ?thesis by simp
  qed
qed

end


section \<open>Sums of products\<close>

text \<open>
  \<open>sop W c [(x0, y0), (x1, y1), \<dots>]\<close> is the checked value of the C expression
  \<^verbatim>\<open>c + x0 * y0 + x1 * y1 + \<dots>\<close>, evaluated from left to right.
\<close>

fun sop :: "nat \<Rightarrow> int \<Rightarrow> (int \<times> int) list \<Rightarrow> int option" where
  "sop W c [] = Some c"
| "sop W c ((x, y) # ps) =
     do { p \<leftarrow> cint W (x * y);
          t \<leftarrow> cint W (c + p);
          sop W t ps }"

definition sum_prods :: "(int \<times> int) list \<Rightarrow> int" where
  "sum_prods ps = (\<Sum>p\<leftarrow>ps. fst p * snd p)"

lemma sum_prods_simps [simp]:
  "sum_prods [] = 0" "sum_prods ((x, y) # ps) = x * y + sum_prods ps"
  by (simp_all add: sum_prods_def)

definition pair_bounded :: "int \<times> int \<Rightarrow> int \<times> int \<Rightarrow> bool" where
  "pair_bounded p q \<longleftrightarrow> \<bar>fst p\<bar> \<le> fst q \<and> \<bar>snd p\<bar> \<le> snd q"

lemma sop_exact:
  assumes "list_all2 pair_bounded ps qs" and "\<bar>c\<bar> + sum_prods qs < 2 ^ (W - 1)"
  shows "sop W c ps = Some (c + sum_prods ps) \<and> \<bar>c + sum_prods ps\<bar> \<le> \<bar>c\<bar> + sum_prods qs"
  using assms
proof (induction ps qs arbitrary: c rule: list_all2_induct)
  case Nil
  then show ?case by simp
next
  case (Cons p ps q qs)
  obtain x y X Y where p: "p = (x, y)" and q: "q = (X, Y)" by fastforce
  from Cons.hyps(1) have xy: "\<bar>x * y\<bar> \<le> X * Y"
    unfolding p q pair_bounded_def by (simp add: abs_mult_le)
  have "0 \<le> sum_prods qs"
    using Cons.hyps(2)
    by (induction rule: list_all2_induct) (auto simp: pair_bounded_def split: prod.splits)
  with Cons.prems xy have small: "\<bar>x * y\<bar> < 2 ^ (W - 1)" "\<bar>c + x * y\<bar> < 2 ^ (W - 1)"
    unfolding p q by auto
  have "\<bar>c + x * y\<bar> + sum_prods qs < 2 ^ (W - 1)"
    using Cons.prems xy unfolding q by simp
  from Cons.IH [OF this] show ?case
    using small xy unfolding p q by (auto simp: cint_abs_Some)
qed

end
