(* ===== verification/Crypto_Bytes.thy ===== *)
theory Crypto_Bytes
  imports Prelude
begin

text \<open>
  Little-endian loads of \<^verbatim>\<open>src/src/crypto/crypto-ops.c\<close> and the digit arithmetic behind the
  packing and unpacking of limbs: a load at a byte offset, shifted and masked, is a digit of the
  number the array stands for, and writing all digits gives the number back.
\<close>

unbundle bit_operations_syntax

section \<open>The loads of the source\<close>

definition load_3 :: "bytes \<Rightarrow> nat \<Rightarrow> u64" where
  "load_3 s k = ucast (s ! k) OR push_bit 8 (ucast (s ! (k + 1))) OR push_bit 16 (ucast (s ! (k + 2)))"

definition load_4 :: "bytes \<Rightarrow> nat \<Rightarrow> u64" where
  "load_4 s k = ucast (s ! k) OR push_bit 8 (ucast (s ! (k + 1))) OR push_bit 16 (ucast (s ! (k + 2)))
     OR push_bit 24 (ucast (s ! (k + 3)))"


section \<open>Bytes of a number\<close>

fun le_bytes :: "nat \<Rightarrow> int \<Rightarrow> bytes" where
  "le_bytes 0 v = []"
| "le_bytes (Suc n) v = word_of_int v # le_bytes n (v div 256)"

lemma le_bytes_length [simp]: "length (le_bytes n v) = n"
  by (induction n arbitrary: v) auto

lemma le_value_le_bytes: "le_value (le_bytes n v) = v mod 256 ^ n"
proof (induction n arbitrary: v)
  case 0
  then show ?case by simp
next
  case (Suc n)
  have "v mod (256 * 256 ^ n) = 256 * (v div 256 mod 256 ^ n) + v mod 256"
    by (rule zmod_zmult2_eq) simp
  with Suc show ?case by (simp add: uint_word_of_int)
qed

lemma le_bytes_le_value [simp]: "le_bytes (length bs) (le_value bs) = bs"
  by (rule le_value_inj) (simp_all add: le_value_le_bytes le_value_upper)

text \<open>A byte array is determined by its length and its number.\<close>

lemma le_bytes_eqI:
  "\<exists>r. m = Some r \<and> length r = n \<and> le_value r = v \<Longrightarrow> m = Some (le_bytes n v)"
  by auto

lemma le_bytes_nth: "k < n \<Longrightarrow> le_bytes n v ! k = word_of_int (v div 256 ^ k)"
proof (induction n arbitrary: v k)
  case 0
  then show ?case by simp
next
  case (Suc n)
  then show ?case
    by (cases k) (simp_all add: zdiv_zmult2_eq)
qed

text \<open>A run of bytes inside an array, as a slice of its number.\<close>

lemma le_value_slice:
  assumes "k + n \<le> length s"
  shows "le_value (take n (drop k s)) = le_value s div 256 ^ k mod 256 ^ n"
proof -
  let ?a = "take k s" and ?m = "take n (drop k s)" and ?z = "drop n (drop k s)"
  have s: "s = ?a @ ?m @ ?z" by (simp only: append_take_drop_id)
  have len: "length ?a = k" "length ?m = n" using assms by simp_all
  have "le_value s = le_value ?a + 256 ^ k * (le_value ?m + 256 ^ n * le_value ?z)"
    by (subst s) (simp only: le_value_append len)
  moreover have "le_value ?a < 256 ^ k" using le_value_upper [of ?a] len by simp
  ultimately have "le_value s div 256 ^ k = le_value ?m + 256 ^ n * le_value ?z"
    by (simp add: div_add1_eq)
  moreover have "le_value ?m < 256 ^ n" using le_value_upper [of ?m] len by simp
  ultimately show ?thesis by simp
qed


section \<open>Loads as slices\<close>

text \<open>An OR of a low part and bits above it is a sum.\<close>

lemma int_or_shift:
  fixes x y :: int
  assumes "0 \<le> x" and "x < 2 ^ n"
  shows "x OR 2 ^ n * y = x + 2 ^ n * y"
proof -
  have x: "take_bit n x = x" using assms by (simp add: take_bit_int_eq_self)
  have "take_bit n x AND push_bit n y = 0" by (auto simp: bit_eq_iff bit_simps)
  then have "x AND push_bit n y = 0" by (simp only: x)
  then have "x OR push_bit n y = x + push_bit n y" by (simp add: disjunctive_add_eq_or)
  then show ?thesis by (simp add: push_bit_eq_mult mult.commute)
qed

lemma uint_u8_u64 [simp]: "uint (ucast (b :: u8) :: u64) = uint b"
  by (simp add: uint_up_ucast is_up)

lemma uint_or_push_bit:
  fixes a :: u64 and b :: u8
  assumes "uint a < 2 ^ n" and "n + 8 \<le> 64"
  shows "uint (a OR push_bit n (ucast b)) = uint a + 2 ^ n * uint b"
    and "uint a + 2 ^ n * uint b < 2 ^ (n + 8)"
proof -
  have b: "uint b < 2 ^ 8" using uint_lt2p [of b] by simp
  have "uint a + 2 ^ n * uint b < 2 ^ n * (uint b + 1)"
    using assms(1) by (simp add: distrib_left)
  also have "\<dots> \<le> 2 ^ n * (2 ^ 8 :: int)" using b by (intro mult_left_mono) auto
  finally show ub: "uint a + 2 ^ n * uint b < 2 ^ (n + 8)"
    by (simp add: power_add)
  also have "(2 :: int) ^ (n + 8) \<le> 2 ^ 64" using assms(2) by (intro power_increasing) auto
  finally have ub64: "uint a + 2 ^ n * uint b < 2 ^ 64" .
  have "uint (push_bit n (ucast b :: u64)) = take_bit 64 (push_bit n (uint b))"
    by (simp only: unsigned_push_bit_eq uint_u8_u64 len_num0 len_bit0 len_num1 mult_1_right) simp
  also have "push_bit n (uint b) = 2 ^ n * uint b"
    by (simp add: push_bit_eq_mult)
  also have "take_bit 64 (2 ^ n * uint b) = 2 ^ n * uint b"
  proof (rule take_bit_int_eq_self)
    show "2 ^ n * uint b < 2 ^ 64" using ub64 uint_ge_0 [of a] by linarith
  qed simp
  finally have "uint (push_bit n (ucast b :: u64)) = 2 ^ n * uint b" .
  then show "uint (a OR push_bit n (ucast b)) = uint a + 2 ^ n * uint b"
    using assms(1) by (simp add: unsigned_or_eq int_or_shift)
qed

lemma uint_load_3:
  assumes "k + 3 \<le> length s"
  shows "uint (load_3 s k) = le_value s div 256 ^ k mod 256 ^ 3"
proof -
  let ?a = "s ! k" and ?b = "s ! (k + 1)" and ?c = "s ! (k + 2)"
  let ?w = "ucast ?a :: u64"
  have 0: "uint ?w < 2 ^ 8" using uint_lt2p [of ?a] by simp
  note 1 = uint_or_push_bit [OF 0, of ?b]
  note 2 = uint_or_push_bit [of "?w OR push_bit 8 (ucast ?b)" 16 ?c]
  have "uint (load_3 s k) = le_value [?a, ?b, ?c]"
    using 1 2 by (simp add: load_3_def or.assoc)
  also have "[?a, ?b, ?c] = take 3 (drop k s)"
    using assms by (auto simp: list_eq_iff_nth_eq less_Suc_eq eval_nat_numeral)
  finally show ?thesis using assms by (simp add: le_value_slice)
qed

lemma uint_load_4:
  assumes "k + 4 \<le> length s"
  shows "uint (load_4 s k) = le_value s div 256 ^ k mod 256 ^ 4"
proof -
  let ?a = "s ! k" and ?b = "s ! (k + 1)" and ?c = "s ! (k + 2)" and ?d = "s ! (k + 3)"
  let ?w = "ucast ?a :: u64"
  have 0: "uint ?w < 2 ^ 8" using uint_lt2p [of ?a] by simp
  note 1 = uint_or_push_bit [OF 0, of ?b]
  note 2 = uint_or_push_bit [of "?w OR push_bit 8 (ucast ?b)" 16 ?c]
  note 3 = uint_or_push_bit [of "?w OR push_bit 8 (ucast ?b) OR push_bit 16 (ucast ?c)" 24 ?d]
  have "uint (load_4 s k) = le_value [?a, ?b, ?c, ?d]"
    using 1 2 3 by (simp add: load_4_def or.assoc)
  also have "[?a, ?b, ?c, ?d] = take 4 (drop k s)"
    using assms by (auto simp: list_eq_iff_nth_eq less_Suc_eq eval_nat_numeral)
  finally show ?thesis using assms by (simp add: le_value_slice)
qed


section \<open>Shifted and masked loads as digits\<close>

text \<open>The conversion of an \<^verbatim>\<open>uint64_t\<close> to an \<^verbatim>\<open>int64_t\<close> is \<open>sint\<close>.\<close>

lemma sint_small:
  assumes "uint (w :: u64) < 2 ^ 63"
  shows "sint w = uint w"
proof -
  have "- (2 ^ 63) \<le> (0 :: int)" by simp
  then have "- (2 ^ 63) \<le> uint w" using uint_ge_0 [of w] by (rule order.trans)
  with assms have "signed_take_bit 63 (uint w) = uint w" by (rule signed_take_bit_int_eq_self [rotated])
  then show ?thesis by (simp add: sint_uint)
qed

lemma take_bit_u64 [simp]: "take_bit 64 (uint (w :: u64)) = uint w"
  using uint_lt2p [of w] by (intro take_bit_int_eq_self) simp_all

lemma mask21: "(2097151 :: u64) = mask 21"
  by (simp add: mask_eq_exp_minus_1)

lemma sint_masked:
  "sint (2097151 AND drop_bit h w :: u64) = take_bit 21 (drop_bit h (uint w))"
proof -
  have u: "uint (2097151 AND drop_bit h w :: u64) = take_bit 21 (drop_bit h (uint w))"
    by (simp only: mask21 and.commute [of "mask 21"] flip: take_bit_eq_mask)
      (simp add: unsigned_take_bit_eq unsigned_drop_bit_eq)
  have "take_bit 21 (drop_bit h (uint w)) < 2 ^ 21" by (rule take_bit_int_less_exp)
  also have "\<dots> < (2 :: int) ^ 63" by simp
  finally show ?thesis by (simp only: u sint_small)
qed

lemma sint_shifted:
  assumes "0 < h"
  shows "sint (drop_bit h w :: u64) = drop_bit h (uint w)"
proof -
  have u: "uint (drop_bit h w) = drop_bit h (uint w)"
    by (simp add: unsigned_drop_bit_eq)
  have "drop_bit h (uint w) * 2 ^ h \<le> uint w"
    by (simp add: drop_bit_eq_div minus_mod_eq_div_mult [symmetric])
  moreover have "uint w < 2 ^ 64" using uint_lt2p [of w] by simp
  moreover have "drop_bit h (uint w) * 2 \<le> drop_bit h (uint w) * 2 ^ h"
    using assms by (intro mult_left_mono self_le_power) (auto simp: drop_bit_eq_div pos_imp_zdiv_nonneg_iff)
  ultimately have "drop_bit h (uint w) * 2 < 2 ^ 64" by linarith
  then have "uint (drop_bit h w) < 2 ^ 63" unfolding u by simp
  then show ?thesis by (simp only: u sint_small)
qed

lemma pow256: "(256 :: int) ^ k = 2 ^ (8 * k)"
  by (simp add: power_mult)

lemma slice_slice:
  fixes v :: int
  assumes "m + h \<le> n"
  shows "take_bit m (drop_bit h (take_bit n (drop_bit k v))) = take_bit m (drop_bit (k + h) v)"
proof (rule bit_eqI)
  fix i
  show "bit (take_bit m (drop_bit h (take_bit n (drop_bit k v)))) i
      = bit (take_bit m (drop_bit (k + h) v)) i"
    using assms by (auto simp: bit_take_bit_iff bit_drop_bit_eq add.assoc)
qed

lemma le_bytes_map: "le_bytes n v = map (\<lambda>k. word_of_int (drop_bit (8 * k) v)) [0..<n]"
  by (rule nth_equalityI) (simp_all add: le_bytes_nth pow256 drop_bit_eq_div)

lemma load_3_bits: "k + 3 \<le> length s \<Longrightarrow> uint (load_3 s k) = take_bit 24 (drop_bit (8 * k) (le_value s))"
  by (simp add: uint_load_3 pow256 take_bit_eq_mod drop_bit_eq_div)

lemma load_4_bits: "k + 4 \<le> length s \<Longrightarrow> uint (load_4 s k) = take_bit 32 (drop_bit (8 * k) (le_value s))"
  by (simp add: uint_load_4 pow256 take_bit_eq_mod drop_bit_eq_div)

lemma load_3_limb:
  assumes "k + 3 \<le> length s" and "h \<le> 3"
  shows "sint (2097151 AND drop_bit h (load_3 s k)) = take_bit 21 (drop_bit (8 * k + h) (le_value s))"
  using assms
  by (simp only: sint_masked load_3_bits) (rule slice_slice, simp)

lemma load_4_limb:
  assumes "k + 4 \<le> length s" and "h \<le> 11"
  shows "sint (2097151 AND drop_bit h (load_4 s k)) = take_bit 21 (drop_bit (8 * k + h) (le_value s))"
  using assms
  by (simp only: sint_masked load_4_bits) (rule slice_slice, simp)

lemma zdiv_upper: "x < b * c \<Longrightarrow> 0 < b \<Longrightarrow> x div b < c" for x b c :: int
proof -
  assume "x < b * c" "0 < b"
  moreover have "b * (x div b) \<le> x" using \<open>0 < b\<close> by (simp add: minus_mod_eq_mult_div [symmetric])
  ultimately have "b * (x div b) < b * c" by linarith
  then show ?thesis using \<open>0 < b\<close> by simp
qed

lemma load_4_top:
  assumes "k + 4 = length s" and "0 < h"
  shows "sint (drop_bit h (load_4 s k)) = drop_bit (8 * k + h) (le_value s)"
proof -
  have "le_value s < 2 ^ (8 * k + 32)"
    using le_value_upper [of s] by (simp add: assms(1) [symmetric] pow256)
  then have "drop_bit (8 * k) (le_value s) < 2 ^ 32"
    by (simp add: drop_bit_eq_div power_add zdiv_upper)
  then have "uint (load_4 s k) = drop_bit (8 * k) (le_value s)"
    using assms(1) by (simp add: load_4_bits take_bit_int_eq_self)
  then show ?thesis using assms(2) by (simp add: sint_shifted add.commute)
qed


section \<open>Digits\<close>

text \<open>A number is the sum of its base \<open>2 ^ w\<close> digits.\<close>

lemma digits_sum:
  fixes v :: int
  shows "(\<Sum>i<n. take_bit w (drop_bit (w * i) v) * 2 ^ (w * i)) = take_bit (w * n) v"
proof (induction n)
  case 0
  then show ?case by simp
next
  case (Suc n)
  have "take_bit (w * Suc n) v = v mod (2 ^ (w * n) * 2 ^ w)"
    by (simp add: take_bit_eq_mod power_add [symmetric] add.commute)
  also have "\<dots> = 2 ^ (w * n) * (v div 2 ^ (w * n) mod 2 ^ w) + v mod 2 ^ (w * n)"
    by (rule zmod_zmult2_eq) simp
  finally show ?case
    using Suc.IH by (simp add: take_bit_eq_mod drop_bit_eq_div mult.commute)
qed

text \<open>The digits of a sum of digits, with any top digit \<open>y\<close>.\<close>

lemma digits_div:
  fixes x :: "nat \<Rightarrow> int"
  assumes "0 < B" and "\<And>k. k < n \<Longrightarrow> 0 \<le> x k \<and> x k < B" and "i \<le> n"
  shows "((\<Sum>k<n. x k * B ^ k) + y * B ^ n) div B ^ i = (\<Sum>k<n - i. x (k + i) * B ^ k) + y * B ^ (n - i)"
  using assms(2,3)
proof (induction i arbitrary: x n)
  case 0
  then show ?case by simp
next
  case (Suc i)
  then obtain m where n: "n = Suc m" and i: "i \<le> m" by (cases n) auto
  let ?t = "(\<Sum>k<m. x (Suc k) * B ^ k) + y * B ^ m"
  have "(\<Sum>k<n. x k * B ^ k) + y * B ^ n = x 0 + B * ?t"
    unfolding n by (simp add: sum.lessThan_Suc_shift sum_distrib_left algebra_simps del: sum.lessThan_Suc)
  moreover have "x 0 div B = 0" using Suc.prems(1) [of 0] n by simp
  ultimately have "((\<Sum>k<n. x k * B ^ k) + y * B ^ n) div B ^ Suc i = ?t div B ^ i"
    using assms(1) by (simp add: zdiv_zmult2_eq)
  also have "\<dots> = (\<Sum>k<m - i. x (Suc (k + i)) * B ^ k) + y * B ^ (m - i)"
    using Suc.prems(1) n i by (intro Suc.IH) auto
  finally show ?case by (simp add: n)
qed

lemma digits_nth:
  fixes x :: "nat \<Rightarrow> int"
  assumes "0 < B" and "\<And>k. k < n \<Longrightarrow> 0 \<le> x k \<and> x k < B" and "i < n"
  shows "((\<Sum>k<n. x k * B ^ k) + y * B ^ n) div B ^ i mod B = x i"
proof -
  obtain m where m: "n - i = Suc m" using assms(3) by (cases "n - i") auto
  have "((\<Sum>k<n. x k * B ^ k) + y * B ^ n) div B ^ i
      = x i + B * ((\<Sum>k<m. x (Suc k + i) * B ^ k) + y * B ^ m)"
    using assms by (subst digits_div)
      (auto simp: m sum.lessThan_Suc_shift sum_distrib_left algebra_simps simp del: sum.lessThan_Suc)
  then show ?thesis using assms(2) [OF assms(3)] by simp
qed


section \<open>Packing\<close>

text \<open>
  The stores \<^verbatim>\<open>s[i] = x >> m\<close> and \<^verbatim>\<open>s[i] = (x >> m) | (y << n)\<close> into an
  \<^verbatim>\<open>unsigned char\<close> keep the low eight bits.
\<close>

definition out1 :: "int \<Rightarrow> nat \<Rightarrow> u8" where
  "out1 x m = word_of_int (drop_bit m x)"

definition out2 :: "int \<Rightarrow> nat \<Rightarrow> int \<Rightarrow> nat \<Rightarrow> u8" where
  "out2 x m y n = word_of_int (drop_bit m x OR push_bit n y)"

lemma word8_eqI: "take_bit 8 a = take_bit 8 b \<Longrightarrow> (word_of_int a :: u8) = word_of_int b"
  by (simp add: word_of_int_eq_iff)

text \<open>Where the limbs are consecutive digits of \<open>v\<close>, a store writes a byte of \<open>v\<close>.\<close>

lemma out1_byte:
  assumes "x = take_bit w (drop_bit p v)" and "p + m = 8 * k" and "m + 8 \<le> w"
  shows "out1 x m = word_of_int (drop_bit (8 * k) v)"
  unfolding out1_def assms(1)
proof (rule word8_eqI)
  show "take_bit 8 (drop_bit m (take_bit w (drop_bit p v))) = take_bit 8 (drop_bit (8 * k) v)"
    unfolding assms(2) [symmetric] using assms(3) by (intro slice_slice) simp
qed

lemma out1_top_byte:
  assumes "x = drop_bit p v" and "p + m = 8 * k"
  shows "out1 x m = word_of_int (drop_bit (8 * k) v)"
  using assms by (simp add: out1_def add.commute)

lemma out2_low:
  assumes "x = take_bit w (drop_bit p v)" and "take_bit 8 y = take_bit 8 (drop_bit (p + w) v)"
    and "p + m = 8 * k" and "m + n = w" and "n < 8"
  shows "out2 x m y n = word_of_int (drop_bit (8 * k) v)"
  unfolding out2_def
proof (rule word8_eqI, rule bit_eqI)
  fix i
  have y: "bit y j = bit v (p + (w + j))" if "j < 8" for j
    using arg_cong [OF assms(2), of "\<lambda>z. bit z j"] that
    by (simp add: bit_take_bit_iff bit_drop_bit_eq add.assoc)
  show "bit (take_bit 8 (drop_bit m x OR push_bit n y)) i = bit (take_bit 8 (drop_bit (8 * k) v)) i"
  proof (cases "n \<le> i \<and> i < 8")
    case True
    then have "p + (w + (i - n)) = p + (m + i)" and "i - n < 8" using assms(4) by linarith+
    with y [of "i - n"] have "bit y (i - n) = bit v (p + (m + i))" by (simp only:)
    with True show ?thesis
      unfolding assms(1) assms(3) [symmetric] using assms(4,5)
      by (auto simp: bit_take_bit_iff bit_drop_bit_eq bit_or_iff bit_push_bit_iff add.assoc)
  next
    case False
    then show ?thesis
      unfolding assms(1) assms(3) [symmetric] using assms(4,5)
      by (auto simp: bit_take_bit_iff bit_drop_bit_eq bit_or_iff bit_push_bit_iff add.assoc)
  qed
qed

lemma out2_byte:
  assumes "x = take_bit w (drop_bit p v)" and "y = take_bit u (drop_bit q v)" and "q = p + w"
    and "p + m = 8 * k" and "m + n = w" and "n < 8" and "8 \<le> u"
  shows "out2 x m y n = word_of_int (drop_bit (8 * k) v)"
  by (rule out2_low [OF assms(1) _ assms(4-6)]) (use assms(2,3,7) in \<open>simp add: min_def\<close>)

lemma out2_top_byte:
  assumes "x = take_bit w (drop_bit p v)" and "y = drop_bit q v" and "q = p + w"
    and "p + m = 8 * k" and "m + n = w" and "n < 8"
  shows "out2 x m y n = word_of_int (drop_bit (8 * k) v)"
  by (rule out2_low [OF assms(1) _ assms(4-6)]) (simp add: assms(2,3))


section \<open>The zero check\<close>

text \<open>\<^verbatim>\<open>(((int) (s[0] | s[1] | \<dots> | s[31]) - 1) >> 8) + 1\<close>\<close>

definition bytes_nonzero :: "bytes \<Rightarrow> int" where
  "bytes_nonzero s = (uint (fold (\<lambda>i acc. acc OR s ! i) [1..<32] (s ! 0)) - 1) div 2 ^ 8 + 1"

lemma fold_or_zero:
  "fold (\<lambda>i acc. acc OR s ! i) is a = (0 :: u8) \<longleftrightarrow> a = 0 \<and> (\<forall>i\<in>set is. s ! i = 0)"
  by (induction "is" arbitrary: a) (auto simp: or_eq_0_iff)

lemma le_value_zero: "le_value s = 0 \<longleftrightarrow> (\<forall>i<length s. s ! i = 0)"
proof (induction s)
  case Nil
  then show ?case by simp
next
  case (Cons b s)
  have "uint b + 256 * le_value s = 0 \<longleftrightarrow> uint b = 0 \<and> le_value s = 0"
    using uint_ge_0 [of b] le_value_nonneg [of s] by linarith
  with Cons show ?case by (auto simp: less_Suc_eq_0_disj uint_0_iff)
qed

lemma bytes_nonzero_correct:
  assumes "length s = 32"
  shows "bytes_nonzero s = (if le_value s = 0 then 0 else 1)"
proof -
  let ?o = "fold (\<lambda>i acc. acc OR s ! i) [1..<32] (s ! 0)"
  have "?o = 0 \<longleftrightarrow> le_value s = 0"
    unfolding fold_or_zero le_value_zero assms by (auto simp: not_less_eq_eq Suc_le_eq)
  moreover have "(uint ?o - 1) div 2 ^ 8 = (if uint ?o - 1 < 0 then - 1 else 0)"
    using uint_lt2p [of ?o] order.trans [OF _ uint_ge_0 [of ?o], of "- 255"]
    by (intro shift_sign) simp_all
  moreover have "uint ?o - 1 < 0 \<longleftrightarrow> ?o = 0"
    unfolding uint_0_iff [symmetric] using uint_ge_0 [of ?o] by linarith
  ultimately show ?thesis by (simp add: bytes_nonzero_def)
qed



section \<open>Changing a byte\<close>

lemma le_value_update:
  "k < length s \<Longrightarrow> le_value (s[k := b]) = le_value s + 256 ^ k * (uint b - uint (s ! k))"
proof (induction s arbitrary: k)
  case Nil
  then show ?case by simp
next
  case (Cons c s)
  show ?case
  proof (cases k)
    case (Suc j)
    then have "le_value (s[j := b]) = le_value s + 256 ^ j * (uint b - uint (s ! j))"
      using Cons by simp
    then show ?thesis by (simp only: Suc list_update.simps nat.case le_value.simps nth_Cons_Suc power_Suc)
      (simp only: distrib_left mult.assoc add.assoc)
  qed simp
qed

lemma uint_flip_top:
  assumes "uint (w :: u8) < 2 ^ 7" and "n = 0 \<or> n = 1"
  shows "uint (w XOR word_of_int (push_bit 7 n)) = uint w + 2 ^ 7 * n"
  using assms(2)
proof
  assume n: "n = 1"
  have w: "take_bit 7 (uint w) = uint w" using assms(1) by (simp add: take_bit_int_eq_self)
  have "take_bit 7 (uint w) AND push_bit 7 a = 0" for a by (auto simp: bit_eq_iff bit_simps)
  then have "uint w AND push_bit 7 1 = 0" by (simp only: w)
  then have "uint w XOR push_bit 7 1 = uint w + push_bit 7 1" by (simp add: disjunctive_add_eq_xor)
  moreover have "uint (word_of_int (push_bit 7 1) :: u8) = push_bit 7 1" by simp
  ultimately show ?thesis unfolding n by (simp only: unsigned_xor_eq) simp
qed simp

end
