(* ===== verification/Scalar.thy ===== *)
theory Scalar
  imports Limbs Crypto_Bytes
begin

text \<open>
  Arithmetic modulo the group order \<open>l = 2\<^sup>2\<^sup>5\<^sup>2 + 27742317777372353535851937790883648493\<close>, the
  \<^verbatim>\<open>sc_*\<close> functions of \<^verbatim>\<open>src/src/crypto/crypto-ops.c\<close>. A scalar is an array of 32 bytes,
  little-endian. Every function unpacks its arguments into limbs of 21 bits, combines them and
  reduces the result by carry chains (theory \<open>Limbs\<close>) to twelve canonical limbs, packed again.
  The newer functions write the multiplication \<^verbatim>\<open>carry << 21\<close> as a product with an
  \<^verbatim>\<open>uint64_t\<close>, whose conversion back gives the same number when it fits, as it is shown to.

  The theorems say that each function returns, without any signed overflow on the way, the
  canonical residue (less than \<open>l\<close>) of the number its comment promises, for all arguments.
\<close>

unbundle bit_operations_syntax

section \<open>Unpacking and packing\<close>

definition limb3 :: "bytes \<Rightarrow> nat \<Rightarrow> nat \<Rightarrow> int" where
  "limb3 s k h = sint (2097151 AND drop_bit h (load_3 s k))"

definition limb4 :: "bytes \<Rightarrow> nat \<Rightarrow> nat \<Rightarrow> int" where
  "limb4 s k h = sint (2097151 AND drop_bit h (load_4 s k))"

definition sc_load12 :: "bytes \<Rightarrow> int list" where
  "sc_load12 s =
     [limb3 s 0 0, limb4 s 2 5, limb3 s 5 2, limb4 s 7 7, limb4 s 10 4, limb3 s 13 1,
      limb4 s 15 6, limb3 s 18 3, limb3 s 21 0, limb4 s 23 5, limb3 s 26 2,
      sint (drop_bit 7 (load_4 s 28))]"

definition sc_load24 :: "bytes \<Rightarrow> int list" where
  "sc_load24 s =
     [limb3 s 0 0, limb4 s 2 5, limb3 s 5 2, limb4 s 7 7, limb4 s 10 4, limb3 s 13 1,
      limb4 s 15 6, limb3 s 18 3, limb3 s 21 0, limb4 s 23 5, limb3 s 26 2, limb4 s 28 7,
      limb4 s 31 4, limb3 s 34 1, limb4 s 36 6, limb3 s 39 3, limb3 s 42 0, limb4 s 44 5,
      limb3 s 47 2, limb4 s 49 7, limb4 s 52 4, limb3 s 55 1, limb4 s 57 6,
      sint (drop_bit 3 (load_4 s 60))]"

definition sc_store :: "int list \<Rightarrow> bytes" where
  "sc_store s =
     [out1 (s!0) 0, out1 (s!0) 8, out2 (s!0) 16 (s!1) 5, out1 (s!1) 3, out1 (s!1) 11,
      out2 (s!1) 19 (s!2) 2, out1 (s!2) 6, out2 (s!2) 14 (s!3) 7, out1 (s!3) 1, out1 (s!3) 9,
      out2 (s!3) 17 (s!4) 4, out1 (s!4) 4, out1 (s!4) 12, out2 (s!4) 20 (s!5) 1, out1 (s!5) 7,
      out2 (s!5) 15 (s!6) 6, out1 (s!6) 2, out1 (s!6) 10, out2 (s!6) 18 (s!7) 3, out1 (s!7) 5,
      out1 (s!7) 13, out1 (s!8) 0, out1 (s!8) 8, out2 (s!8) 16 (s!9) 5, out1 (s!9) 3,
      out1 (s!9) 11, out2 (s!9) 19 (s!10) 2, out1 (s!10) 6, out2 (s!10) 14 (s!11) 7,
      out1 (s!11) 1, out1 (s!11) 9, out1 (s!11) 17]"


section \<open>Carry chains\<close>

text \<open>
  \<^verbatim>\<open>carry_i = (s_i + (1<<20)) >> 21; s_(i+1) += carry_i; s_i -= carry_i << 21;\<close>, the same without
  rounding, and the six statements \<^verbatim>\<open>s_(k-12) += s_k * 666643; \<dots> s_(k-7) -= s_k * 683901;\<close>.
\<close>

definition sc_round :: "nat \<Rightarrow> limb_step" where
  "sc_round i = Carry i 21 (2 ^ 20) (i + 1) 1"

definition sc_floor :: "nat \<Rightarrow> limb_step" where
  "sc_floor i = Carry i 21 0 (i + 1) 1"

definition sc_coeffs :: "int list" where
  "sc_coeffs = [666643, 470296, 654183, - 997805, 136657, - 683901]"

definition sc_fold :: "nat \<Rightarrow> limb_step" where
  "sc_fold k = Fold k (k - 12) sc_coeffs"

text \<open>The chain of \<^verbatim>\<open>sc_reduce32\<close>, \<^verbatim>\<open>sc_add\<close> and \<^verbatim>\<open>sc_sub\<close> up to the final passes.\<close>

definition sc_short_pre :: "limb_step list" where
  "sc_short_pre =
     map sc_round [0, 2, 4, 6, 8, 10] @ map sc_round [1, 3, 5, 7, 9, 11] @ [sc_fold 12, Zero 12]"

definition sc_reduce_pre :: "limb_step list" where
  "sc_reduce_pre =
     map sc_fold [23, 22, 21, 20, 19, 18]
     @ map sc_round [6, 8, 10, 12, 14, 16] @ map sc_round [7, 9, 11, 13, 15]
     @ map sc_fold [17, 16, 15, 14, 13, 12] @ [Zero 12]
     @ map sc_round [0, 2, 4, 6, 8, 10] @ map sc_round [1, 3, 5, 7, 9, 11]
     @ [sc_fold 12, Zero 12]"

text \<open>After a product, two passes over all limbs come first.\<close>

definition sc_wide_pre :: "limb_step list" where
  "sc_wide_pre =
     map sc_round [0, 2, 4, 6, 8, 10, 12, 14, 16, 18, 20, 22]
     @ map sc_round [1, 3, 5, 7, 9, 11, 13, 15, 17, 19, 21]"

text \<open>The final passes, common to all functions.\<close>

definition sc_tail :: "limb_step list" where
  "sc_tail =
     map sc_floor [0, 1, 2, 3, 4, 5, 6, 7, 8, 9, 10, 11] @ [sc_fold 12]
     @ map sc_floor [0, 1, 2, 3, 4, 5, 6, 7, 8, 9, 10]"


text \<open>The whole chains of the three functions that multiply, each written out in the source.\<close>

definition sc_mul_chain :: "limb_step list" where
  "sc_mul_chain = (sc_wide_pre @ sc_reduce_pre) @ sc_tail"

definition sc_muladd_chain :: "limb_step list" where
  "sc_muladd_chain = (sc_wide_pre @ sc_reduce_pre) @ sc_tail"

definition sc_mulsub_chain :: "limb_step list" where
  "sc_mulsub_chain = (sc_wide_pre @ sc_reduce_pre) @ sc_tail"


section \<open>The functions\<close>

definition sc_0 :: bytes where
  "sc_0 = replicate 32 0"

definition sc_reduce :: "bytes \<Rightarrow> bytes option" where
  "sc_reduce s =
     (if length s < 64 then None
      else do { r \<leftarrow> limb_run 64 (sc_reduce_pre @ sc_tail) (sc_load24 s);
                Some (sc_store r @ drop 32 s) })"

definition sc_reduce32 :: "bytes \<Rightarrow> bytes option" where
  "sc_reduce32 s =
     (if length s < 32 then None
      else do { r \<leftarrow> limb_run 64 (sc_short_pre @ sc_tail) (sc_load12 s @ [0]);
                Some (sc_store r @ drop 32 s) })"

definition sc_add :: "bytes \<Rightarrow> bytes \<Rightarrow> bytes option" where
  "sc_add a b =
     (if length a < 32 \<or> length b < 32 then None
      else do { s \<leftarrow> those (map2 (\<lambda>x y. cint 64 (x + y)) (sc_load12 a) (sc_load12 b));
                r \<leftarrow> limb_run 64 (sc_short_pre @ sc_tail) (s @ [0]);
                Some (sc_store r) })"

definition sc_sub :: "bytes \<Rightarrow> bytes \<Rightarrow> bytes option" where
  "sc_sub a b =
     (if length a < 32 \<or> length b < 32 then None
      else do { s \<leftarrow> those (map2 (\<lambda>x y. cint 64 (x - y)) (sc_load12 a) (sc_load12 b));
                r \<leftarrow> limb_run 64 (sc_short_pre @ sc_tail) (s @ [0]);
                Some (sc_store r) })"

text \<open>
  The products of column \<open>k\<close>: \<^verbatim>\<open>a0*bk + a1*b(k-1) + \<dots>\<close> over the indices of twelve limbs, in
  the order of the source.
\<close>

definition sc_col :: "int list \<Rightarrow> int list \<Rightarrow> nat \<Rightarrow> (int \<times> int) list" where
  "sc_col a b k = map (\<lambda>i. (a ! i, b ! (k - i))) [k - 11..<Suc (min k 11)]"

definition sc_mul_cols :: "int list \<Rightarrow> int list \<Rightarrow> int list option" where
  "sc_mul_cols a b =
     do { s \<leftarrow> those (map (\<lambda>k. sop 64 0 (sc_col a b k)) [0..<23]);
          Some (s @ [0]) }"

definition sc_muladd_cols :: "int list \<Rightarrow> int list \<Rightarrow> int list \<Rightarrow> int list option" where
  "sc_muladd_cols a b c =
     do { s \<leftarrow> those (map (\<lambda>k. sop 64 (if k < 12 then c ! k else 0) (sc_col a b k)) [0..<23]);
          Some (s @ [0]) }"

definition sc_mulsub_cols :: "int list \<Rightarrow> int list \<Rightarrow> int list \<Rightarrow> int list option" where
  "sc_mulsub_cols a b c =
     do { s \<leftarrow> those (map (\<lambda>k. do { t \<leftarrow> sop 64 0 (sc_col a b k);
                                    cint 64 ((if k < 12 then c ! k else 0) - t) }) [0..<23]);
          Some (s @ [0]) }"

definition sc_mul :: "bytes \<Rightarrow> bytes \<Rightarrow> bytes option" where
  "sc_mul a b =
     (if length a < 32 \<or> length b < 32 then None
      else do { s \<leftarrow> sc_mul_cols (sc_load12 a) (sc_load12 b);
                r \<leftarrow> limb_run 64 sc_mul_chain s;
                Some (sc_store r) })"

definition sc_muladd :: "bytes \<Rightarrow> bytes \<Rightarrow> bytes \<Rightarrow> bytes option" where
  "sc_muladd a b c =
     (if length a < 32 \<or> length b < 32 \<or> length c < 32 then None
      else do { s \<leftarrow> sc_muladd_cols (sc_load12 a) (sc_load12 b) (sc_load12 c);
                r \<leftarrow> limb_run 64 sc_muladd_chain s;
                Some (sc_store r) })"

definition sc_mulsub :: "bytes \<Rightarrow> bytes \<Rightarrow> bytes \<Rightarrow> bytes option" where
  "sc_mulsub a b c =
     (if length a < 32 \<or> length b < 32 \<or> length c < 32 then None
      else do { s \<leftarrow> sc_mulsub_cols (sc_load12 a) (sc_load12 b) (sc_load12 c);
                r \<leftarrow> limb_run 64 sc_mulsub_chain s;
                Some (sc_store r) })"


section \<open>Values of limbs\<close>

definition sc_l :: int where
  "sc_l = 2 ^ 252 + 27742317777372353535851937790883648493"

definition sc_wt :: "nat \<Rightarrow> int" where
  "sc_wt k = 2 ^ (21 * k)"

lemma sc_wt_pow: "sc_wt k = (2 ^ 21) ^ k"
  by (simp add: sc_wt_def power_mult)

lemma sc_wt_Suc: "sc_wt (Suc k) = 2 ^ 21 * sc_wt k"
  by (simp add: sc_wt_def power_add)

text \<open>A list of digits of \<open>v\<close>, the last one carrying the rest of \<open>v\<close>.\<close>

definition sc_digit :: "int \<Rightarrow> nat \<Rightarrow> int" where
  "sc_digit v i = take_bit 21 (drop_bit (21 * i) v)"

lemma sc_digit_bounds: "0 \<le> sc_digit v i" "sc_digit v i < 2 ^ 21"
  using take_bit_int_less_exp [of 21 "drop_bit (21 * i) v"] by (simp_all add: sc_digit_def)

lemma sc_digits_val:
  assumes "s = map (sc_digit v) [0..<n] @ [drop_bit (21 * n) v]"
  shows "limb_val sc_wt (Suc n) s = v"
proof -
  have "limb_val sc_wt (Suc n) s
      = (\<Sum>k<n. sc_digit v k * sc_wt k) + drop_bit (21 * n) v * sc_wt n"
    unfolding limb_val_def assms by (simp add: nth_append)
  also have "\<dots> = take_bit (21 * n) v + drop_bit (21 * n) v * 2 ^ (21 * n)"
    using digits_sum [of 21 v n] by (simp add: sc_digit_def sc_wt_def)
  also have "\<dots> = v"
    unfolding take_bit_eq_mod drop_bit_eq_div by (rule mod_div_mult_eq)
  finally show ?thesis .
qed

lemma limb3_digit: "k + 3 \<le> length s \<Longrightarrow> h \<le> 3 \<Longrightarrow> 8 * k + h = 21 * i \<Longrightarrow> limb3 s k h = sc_digit (le_value s) i"
  unfolding limb3_def sc_digit_def by (simp only: load_3_limb)

lemma limb4_digit: "k + 4 \<le> length s \<Longrightarrow> h \<le> 11 \<Longrightarrow> 8 * k + h = 21 * i \<Longrightarrow> limb4 s k h = sc_digit (le_value s) i"
  unfolding limb4_def sc_digit_def by (simp only: load_4_limb)

lemma upt_explicit:
  "[0..<11] = [0, 1, 2, 3, 4, 5, 6, 7, 8, 9, 10 :: nat]"
  "[0..<12] = [0, 1, 2, 3, 4, 5, 6, 7, 8, 9, 10, 11 :: nat]"
  "[0..<23] = [0, 1, 2, 3, 4, 5, 6, 7, 8, 9, 10, 11, 12, 13, 14, 15, 16, 17, 18, 19, 20, 21, 22 :: nat]"
  "[0..<32] = [0, 1, 2, 3, 4, 5, 6, 7, 8, 9, 10, 11, 12, 13, 14, 15, 16, 17, 18, 19, 20, 21, 22, 23,
     24, 25, 26, 27, 28, 29, 30, 31 :: nat]"
  by (simp_all add: upt_rec)

lemma sc_load12_digits:
  assumes "length s = 32"
  shows "sc_load12 s = map (sc_digit (le_value s)) [0..<11] @ [drop_bit (21 * 11) (le_value s)]"
proof -
  have top: "sint (drop_bit 7 (load_4 s 28)) = drop_bit (21 * 11) (le_value s)"
    using load_4_top [of 28 s 7] assms by simp
  show ?thesis
    unfolding sc_load12_def upt_explicit list.map append.simps list.inject
    using assms by (intro conjI refl top limb3_digit limb4_digit) simp_all
qed

lemma sc_load24_digits:
  assumes "length s = 64"
  shows "sc_load24 s = map (sc_digit (le_value s)) [0..<23] @ [drop_bit (21 * 23) (le_value s)]"
proof -
  have top: "sint (drop_bit 3 (load_4 s 60)) = drop_bit (21 * 23) (le_value s)"
    using load_4_top [of 60 s 3] assms by simp
  show ?thesis
    unfolding sc_load24_def upt_explicit list.map append.simps list.inject
    using assms by (intro conjI refl top limb3_digit limb4_digit) simp_all
qed

lemma drop_bit_upper: "0 \<le> v \<Longrightarrow> v < 2 ^ (n + m) \<Longrightarrow> drop_bit n v < (2 :: int) ^ m"
  by (simp add: drop_bit_eq_div power_add zdiv_upper)

lemma sc_digit_inside: "inside (sc_digit v i) (0, 2 ^ 21 - 1)"
  using sc_digit_bounds [of v i] by (simp add: inside_def)

lemma within_digits:
  assumes "0 \<le> v" and "v < 2 ^ (21 * n + m)"
  shows "within (map (sc_digit v) [0..<n] @ [drop_bit (21 * n) v])
    (replicate n (0, 2 ^ 21 - 1) @ [(0, 2 ^ m - 1)])"
proof (rule within_append)
  show "within (map (sc_digit v) [0..<n]) (replicate n (0, 2 ^ 21 - 1))"
    by (simp add: within_def list_all2_conv_all_nth sc_digit_inside [simplified])
  show "within [drop_bit (21 * n) v] [(0, 2 ^ m - 1)]"
    using assms drop_bit_upper [of v "21 * n" m] by (simp add: inside_def)
qed

lemma le_value_32: "length s = 32 \<Longrightarrow> le_value s < 2 ^ 256"
  using le_value_upper [of s] by (simp add: pow256)

lemma sc_load12_correct:
  assumes "length s = 32"
  shows "limb_val sc_wt 12 (sc_load12 s) = le_value s"
    and "within (sc_load12 s) (replicate 11 (0, 2 ^ 21 - 1) @ [(0, 2 ^ 25 - 1)])"
    and "length (sc_load12 s) = 12"
proof -
  show "limb_val sc_wt 12 (sc_load12 s) = le_value s"
    using sc_digits_val [OF sc_load12_digits [OF assms]] by simp
  show "within (sc_load12 s) (replicate 11 (0, 2 ^ 21 - 1) @ [(0, 2 ^ 25 - 1)])"
    unfolding sc_load12_digits [OF assms]
    by (rule within_digits) (use le_value_32 [OF assms] in simp_all)
qed (simp add: sc_load12_def)

lemma sc_load24_correct:
  assumes "length s = 64"
  shows "limb_val sc_wt 24 (sc_load24 s) = le_value s"
    and "within (sc_load24 s) (replicate 23 (0, 2 ^ 21 - 1) @ [(0, 2 ^ 29 - 1)])"
proof -
  show "limb_val sc_wt 24 (sc_load24 s) = le_value s"
    using sc_digits_val [OF sc_load24_digits [OF assms]] by simp
  have "le_value s < 2 ^ 512" using le_value_upper [of s] assms by (simp add: pow256)
  then show "within (sc_load24 s) (replicate 23 (0, 2 ^ 21 - 1) @ [(0, 2 ^ 29 - 1)])"
    unfolding sc_load24_digits [OF assms] by (intro within_digits) simp_all
qed


section \<open>Packing\<close>

definition sc_canonical :: "int list \<Rightarrow> bool" where
  "sc_canonical s \<longleftrightarrow> 12 \<le> length s \<and> (\<forall>i<11. 0 \<le> s ! i \<and> s ! i < 2 ^ 21) \<and> 0 \<le> s ! 11 \<and> s ! 11 < 2 ^ 25"

lemma sc_val_12: "limb_val sc_wt 12 s = (\<Sum>k<11. s ! k * (2 ^ 21) ^ k) + s ! 11 * (2 ^ 21) ^ 11"
proof -
  have "limb_val sc_wt 12 s = (\<Sum>k<Suc 11. s ! k * sc_wt k)"
    by (simp only: limb_val_def) simp
  then show ?thesis by (simp only: sum.lessThan_Suc sc_wt_pow)
qed

lemma sc_canonical_digits:
  assumes "sc_canonical s"
  defines "v \<equiv> limb_val sc_wt 12 s"
  shows "i < 11 \<Longrightarrow> s ! i = take_bit 21 (drop_bit (21 * i) v)"
    and "s ! 11 = drop_bit (21 * 11) v"
proof -
  have d: "\<And>k. k < 11 \<Longrightarrow> 0 \<le> s ! k \<and> s ! k < 2 ^ 21"
    using assms(1) by (simp add: sc_canonical_def)
  have B: "(2 :: int) ^ (21 * i) = (2 ^ 21) ^ i" for i by (rule power_mult)
  show "s ! i = take_bit 21 (drop_bit (21 * i) v)" if "i < 11"
    unfolding v_def sc_val_12 take_bit_eq_mod drop_bit_eq_div B
    by (rule digits_nth [symmetric, OF _ d that]) simp_all
  have "v div (2 ^ 21) ^ 11 = s ! 11"
    unfolding v_def sc_val_12 using digits_div [of "2 ^ 21" 11 "(!) s" 11 "s ! 11", OF _ d] by simp
  then show "s ! 11 = drop_bit (21 * 11) v"
    unfolding drop_bit_eq_div B ..
qed

lemma sc_store_bytes:
  assumes "sc_canonical s"
  shows "sc_store s = le_bytes 32 (limb_val sc_wt 12 s)"
proof -
  let ?v = "limb_val sc_wt 12 s"
  note d = sc_canonical_digits [OF assms]
  have s: "s ! 0 = take_bit 21 (drop_bit 0 ?v)" "s ! 1 = take_bit 21 (drop_bit 21 ?v)"
    "s ! 2 = take_bit 21 (drop_bit 42 ?v)" "s ! 3 = take_bit 21 (drop_bit 63 ?v)"
    "s ! 4 = take_bit 21 (drop_bit 84 ?v)" "s ! 5 = take_bit 21 (drop_bit 105 ?v)"
    "s ! 6 = take_bit 21 (drop_bit 126 ?v)" "s ! 7 = take_bit 21 (drop_bit 147 ?v)"
    "s ! 8 = take_bit 21 (drop_bit 168 ?v)" "s ! 9 = take_bit 21 (drop_bit 189 ?v)"
    "s ! 10 = take_bit 21 (drop_bit 210 ?v)" "s ! 11 = drop_bit 231 ?v"
    using d(1) [of 0] d(1) [of 1] d(1) [of 2] d(1) [of 3] d(1) [of 4] d(1) [of 5] d(1) [of 6]
      d(1) [of 7] d(1) [of 8] d(1) [of 9] d(1) [of 10] d(2) by simp_all
  have "sc_store s = map (\<lambda>k. word_of_int (drop_bit (8 * k) ?v)) [0, 1, 2, 3, 4, 5, 6, 7, 8, 9, 10,
      11, 12, 13, 14, 15, 16, 17, 18, 19, 20, 21, 22, 23, 24, 25, 26, 27, 28, 29, 30, 31]"
    unfolding sc_store_def list.map list.inject
    by (intro conjI refl)
      ((rule out1_byte, rule s, simp, simp) | (rule out1_top_byte, rule s, simp)
        | (rule out2_byte, rule s, rule s, simp, simp, simp, simp, simp)
        | (rule out2_top_byte, rule s, rule s, simp, simp, simp, simp))+
  also have "\<dots> = le_bytes 32 ?v"
    unfolding le_bytes_map upt_explicit ..
  finally show ?thesis .
qed


section \<open>The chains reduce\<close>

fun sc_ok :: "limb_step \<Rightarrow> bool" where
  "sc_ok (Carry i w r j m) = (w = 21 \<and> j = Suc i \<and> m = 1)"
| "sc_ok (Chop i w) = False"
| "sc_ok (Fold k j ms) = (k = j + 12 \<and> ms = sc_coeffs)"
| "sc_ok (Zero k) = True"

fun sc_carry_ok :: "limb_step \<Rightarrow> bool" where
  "sc_carry_ok (Carry i w r j m) = (w = 21 \<and> j = Suc i \<and> m = 1)"
| "sc_carry_ok (Chop i w) = False"
| "sc_carry_ok (Fold k j ms) = False"
| "sc_carry_ok (Zero k) = False"

lemma sc_coeffs_value: "(\<Sum>t<length sc_coeffs. sc_coeffs ! t * sc_wt (j + t)) = sc_wt j * (2 ^ 252 - sc_l)"
proof -
  have "(\<Sum>t<length sc_coeffs. sc_coeffs ! t * sc_wt (j + t)) = sc_wt j * (\<Sum>t<6. sc_coeffs ! t * sc_wt t)"
    by (simp only: sum_distrib_left)
      (rule sum.cong, simp_all add: sc_coeffs_def sc_wt_def power_add distrib_left mult.left_commute)
  also have "(\<Sum>t<6. sc_coeffs ! t * sc_wt t) = 2 ^ 252 - sc_l"
    by (simp add: sc_coeffs_def sc_wt_def sc_l_def eval_nat_numeral)
  finally show ?thesis .
qed

text \<open>Modulo \<open>l\<close> all statements keep the value; the carries keep it exactly (modulus 0).\<close>

interpretation sc: limb_system sc_wt sc_l sc_ok
proof
  fix i w j :: nat and r m :: int
  assume "sc_ok (Carry i w r j m)"
  then show "sc_l dvd m * sc_wt j - 2 ^ w * sc_wt i" by (simp add: sc_wt_Suc)
next
  fix k j :: nat and ms :: "int list"
  assume "sc_ok (Fold k j ms)"
  then have k: "k = j + 12" and ms: "ms = sc_coeffs" by simp_all
  have "sc_wt k = sc_wt j * 2 ^ 252" unfolding k by (simp add: sc_wt_def power_add)
  then have "(\<Sum>t<length ms. ms ! t * sc_wt (j + t)) - sc_wt k = sc_wt j * - sc_l"
    unfolding ms sc_coeffs_value by (simp add: algebra_simps)
  then show "sc_l dvd (\<Sum>t<length ms. ms ! t * sc_wt (j + t)) - sc_wt k" by simp
qed

interpretation sc_exact: limb_system sc_wt 0 sc_carry_ok
  by unfold_locales (auto simp: sc_wt_Suc)

text \<open>A pass of floor carries leaves digits behind.\<close>

lemma floor_pass_digits:
  assumes "limb_run W (map sc_floor [0..<n]) s = Some s'" and "i < n"
  shows "0 \<le> s' ! i \<and> s' ! i < 2 ^ 21"
  using assms
proof (induction n arbitrary: s')
  case 0
  then show ?case by simp
next
  case (Suc n)
  from Suc.prems(1) obtain t where t: "limb_run W (map sc_floor [0..<n]) s = Some t"
    and e: "limb_exec W (sc_floor n) t = Some s'"
    by (auto simp: limb_run_append simp del: limb_exec.simps split: bind_splits)
  let ?C = "t ! n div 2 ^ 21"
  from e have n: "Suc n < length t" and s': "s' = t[Suc n := t ! Suc n + ?C, n := t ! n - ?C * 2 ^ 21]"
    by (auto simp: sc_floor_def Let_def split: if_splits bind_splits dest!: cint_SomeD)
  show ?case
  proof (cases "i = n")
    case True
    have "t ! n - ?C * 2 ^ 21 = t ! n mod 2 ^ 21" by (rule minus_div_mult_eq_mod)
    then show ?thesis unfolding s' True using n by simp
  next
    case False
    with Suc.prems(2) have "i < n" by simp
    then show ?thesis unfolding s' using Suc.IH [OF t] by simp
  qed
qed

lemma sc_floors: "sc_floor n = Carry n 21 0 (Suc n) 1"
  by (simp add: sc_floor_def)

lemma floor_live: "n \<le> m \<Longrightarrow> limb_live sc_carry_ok (map sc_floor [0..<n]) (Suc m) = Some (Suc m)"
proof -
  assume "n \<le> m"
  then have "limb_live sc_carry_ok (map sc_floor xs) (Suc m) = Some (Suc m)" if "set xs \<subseteq> {..<n}" for xs
    using that by (induction xs) (auto simp: sc_floors)
  from this [of "[0..<n]"] show ?thesis by (simp add: atLeast0LessThan)
qed

lemma floor_pass_value:
  assumes "limb_run W (map sc_floor [0..<n]) s = Some s'" and "Suc n \<le> length s"
  shows "limb_val sc_wt (Suc n) s' = limb_val sc_wt (Suc n) s"
  using sc_exact.run_preserves [OF assms(1) floor_live [of n n] assms(2)] by simp


lemma sc_tail_split:
  "sc_tail = map sc_floor [0..<12] @ [sc_fold 12] @ map sc_floor [0..<11]"
  unfolding sc_tail_def upt_explicit ..

text \<open>
  The final passes: from a value in \<open>(-2\<^sup>2\<^sup>5\<^sup>2, 2\<^sup>2\<^sup>5\<^sup>2)\<close> the first pass leaves the top limb at
  \<open>0\<close> or \<open>- 1\<close>, folding it adds \<open>l\<close> to a negative value, and the second pass yields digits.
\<close>

lemma digit_sum_upper:
  assumes "\<And>k. k < n \<Longrightarrow> 0 \<le> s ! k \<and> s ! k < 2 ^ 21"
  shows "0 \<le> limb_val sc_wt n s" and "limb_val sc_wt n s < sc_wt n"
proof -
  show "0 \<le> limb_val sc_wt n s"
    unfolding limb_val_def using assms by (intro sum_nonneg) (auto simp: sc_wt_def)
  show "limb_val sc_wt n s < sc_wt n"
    using assms
  proof (induction n)
    case 0
    then show ?case by (simp add: limb_val_def sc_wt_def)
  next
    case (Suc n)
    have "s ! n * sc_wt n \<le> (2 ^ 21 - 1) * sc_wt n"
      using Suc.prems [of n] by (intro mult_right_mono) (auto simp: sc_wt_def)
    moreover have "limb_val sc_wt n s < sc_wt n" using Suc by simp
    ultimately show ?case by (simp add: limb_val_def sc_wt_Suc)
  qed
qed

lemma sc_tail_correct:
  assumes run: "limb_run 64 sc_tail s = Some r" and len: "13 \<le> length s"
    and lo: "- (2 ^ 252) \<le> limb_val sc_wt 13 s" and hi: "limb_val sc_wt 13 s < 2 ^ 252"
  shows "limb_val sc_wt 12 r = limb_val sc_wt 13 s mod sc_l" and "sc_canonical r"
proof -
  let ?v = "limb_val sc_wt 13 s"
  from run obtain t u where t: "limb_run 64 (map sc_floor [0..<12]) s = Some t"
    and u: "limb_exec 64 (sc_fold 12) t = Some u"
    and r: "limb_run 64 (map sc_floor [0..<11]) u = Some r"
    unfolding sc_tail_split limb_run_append limb_run.simps
    by (auto simp del: limb_exec.simps split: bind_splits)
  note lens = limb_run_length [OF t] limb_exec_length [OF u] limb_run_length [OF r]
  have W12: "sc_wt 12 = 2 ^ 252" by (simp add: sc_wt_def)
  have vt: "limb_val sc_wt 13 t = ?v"
    using floor_pass_value [OF t] len by simp
  have Suc12: "limb_val sc_wt 13 t = limb_val sc_wt 12 t + t ! 12 * 2 ^ 252"
    using limb_val_Suc [of sc_wt 12 t] unfolding W12 by simp
  note n0 = digit_sum_upper [of 12 t, OF floor_pass_digits [OF t]]
  have top: "t ! 12 = (if ?v < 0 then - 1 else 0)"
    using n0 vt Suc12 lo hi unfolding W12 by (simp split: if_splits)
  from u have "fold_into 64 (t ! 12) 0 sc_coeffs t = Some u"
    by (simp add: sc_fold_def split: if_splits)
  then have "limb_val sc_wt 12 u
      = limb_val sc_wt 12 t + t ! 12 * (\<Sum>k<length sc_coeffs. sc_coeffs ! k * sc_wt (0 + k))"
    by (rule fold_into_val) (use len lens in \<open>simp_all add: sc_coeffs_def\<close>)
  also have "(\<Sum>k<length sc_coeffs. sc_coeffs ! k * sc_wt (0 + k)) = 2 ^ 252 - sc_l"
    unfolding sc_coeffs_value by (simp add: sc_wt_def)
  finally have vu: "limb_val sc_wt 12 u = ?v - t ! 12 * sc_l"
    using vt Suc12 by (simp add: algebra_simps)
  have vr: "limb_val sc_wt 12 r = ?v - t ! 12 * sc_l"
    using floor_pass_value [OF r] vu len lens by simp
  have range: "0 \<le> ?v - t ! 12 * sc_l" "?v - t ! 12 * sc_l < sc_l"
    using top lo hi by (auto simp: sc_l_def split: if_splits)
  have "(?v - t ! 12 * sc_l) mod sc_l = ?v mod sc_l"
    by (intro mod_eqI) simp
  with range vr show "limb_val sc_wt 12 r = ?v mod sc_l" by simp
  note d = floor_pass_digits [OF r]
  note n1 = digit_sum_upper [of 11 r, OF d]
  have "limb_val sc_wt 12 r = limb_val sc_wt 11 r + r ! 11 * 2 ^ 231"
    using limb_val_Suc [of sc_wt 11 r] by (simp add: sc_wt_def)
  with n1 range vr have "0 \<le> r ! 11 \<and> r ! 11 < 2 ^ 25"
    unfolding sc_wt_def sc_l_def by simp
  with d len lens show "sc_canonical r" by (simp add: sc_canonical_def)
qed


text \<open>
  What the interval analysis has to certify of a chain: it is value preserving down to thirteen
  limbs, it and the final passes do not overflow from the given intervals, and the value before
  the final passes is in range.
\<close>

definition ivals_lo :: "interval list \<Rightarrow> int" where
  "ivals_lo b = (\<Sum>k\<leftarrow>[0..<13]. fst (b ! k) * sc_wt k)"

definition ivals_hi :: "interval list \<Rightarrow> int" where
  "ivals_hi b = (\<Sum>k\<leftarrow>[0..<13]. snd (b ! k) * sc_wt k)"

definition sc_chain_ok :: "limb_step list \<Rightarrow> nat \<Rightarrow> interval list \<Rightarrow> bool" where
  "sc_chain_ok pre n b =
     (13 \<le> length b \<and> n \<le> length b \<and> limb_live sc_ok pre n = Some 13 \<and>
      (case limb_bounds (2 ^ 63) pre b of None \<Rightarrow> False
       | Some b1 \<Rightarrow> limb_bounds (2 ^ 63) sc_tail b1 \<noteq> None
                   \<and> - (2 ^ 252) \<le> ivals_lo b1 \<and> ivals_hi b1 < 2 ^ 252))"

lemma within_val:
  assumes "within s b" and "13 \<le> length b"
  shows "ivals_lo b \<le> limb_val sc_wt 13 s" and "limb_val sc_wt 13 s \<le> ivals_hi b"
proof -
  have s: "(\<Sum>k\<leftarrow>[0..<13]. f k) = (\<Sum>k<13. f k)" for f :: "nat \<Rightarrow> int"
    by (simp add: interv_sum_list_conv_sum_set_nat atLeast0LessThan)
  have "inside (s ! k) (b ! k)" if "k < 13" for k
    using assms that by (intro within_nth) auto
  then show "ivals_lo b \<le> limb_val sc_wt 13 s" and "limb_val sc_wt 13 s \<le> ivals_hi b"
    unfolding ivals_lo_def ivals_hi_def limb_val_def s
    by (auto intro!: sum_mono mult_right_mono simp: inside_def sc_wt_def)
qed

lemma sc_chain_correct:
  assumes ok: "sc_chain_ok pre n b" and "within s b"
  shows "\<exists>r. limb_run 64 (pre @ sc_tail) s = Some r \<and> sc_canonical r
    \<and> limb_val sc_wt 12 r = limb_val sc_wt n s mod sc_l"
proof -
  from ok obtain b1 where len: "13 \<le> length b" "n \<le> length b"
    and live: "limb_live sc_ok pre n = Some 13"
    and b1: "limb_bounds (2 ^ (64 - 1)) pre b = Some b1"
    and tail: "limb_bounds (2 ^ (64 - 1)) sc_tail b1 \<noteq> None"
    and range: "- (2 ^ 252) \<le> ivals_lo b1" "ivals_hi b1 < 2 ^ 252"
    unfolding sc_chain_ok_def by (auto split: option.splits)
  from limb_bounds_sound [OF b1 assms(2)] obtain t
    where t: "limb_run 64 pre s = Some t" and wt: "within t b1" by blast
  from tail limb_bounds_sound [of 64 sc_tail b1 _ t, OF _ wt] obtain r
    where r: "limb_run 64 sc_tail t = Some r" by (auto simp: not_None_eq)
  have lt: "13 \<le> length t" "n \<le> length s"
    using limb_run_length [OF t] within_length [OF assms(2)] len by simp_all
  have v: "limb_val sc_wt 13 t mod sc_l = limb_val sc_wt n s mod sc_l"
    by (rule sc.run_preserves [OF t live lt(2)])
  have "13 \<le> length b1" using within_length [OF wt] lt by simp
  from within_val [OF wt this] range
  have "- (2 ^ 252) \<le> limb_val sc_wt 13 t" "limb_val sc_wt 13 t < 2 ^ 252"
    by (blast intro: order.trans order.strict_trans1)+
  from sc_tail_correct [OF r lt(1) this] v have "limb_val sc_wt 12 r = limb_val sc_wt n s mod sc_l"
    and "sc_canonical r" by simp_all
  moreover have "limb_run 64 (pre @ sc_tail) s = Some r"
    using t r by (simp add: limb_run_append)
  ultimately show ?thesis by blast
qed

lemma sc_store_value:
  assumes "sc_canonical r" and "limb_val sc_wt 12 r = v mod sc_l"
  shows "le_value (sc_store r) = v mod sc_l" and "length (sc_store r) = 32"
proof -
  have "0 \<le> v mod sc_l" "v mod sc_l < sc_l" by (simp_all add: sc_l_def)
  moreover have "sc_l < 256 ^ 32" by (simp add: sc_l_def)
  ultimately show "le_value (sc_store r) = v mod sc_l"
    using assms by (simp add: sc_store_bytes le_value_le_bytes)
qed (simp add: sc_store_def)


section \<open>Certified intervals\<close>

lemma sc_short_ok: "sc_chain_ok sc_short_pre 13 (replicate 12 (- (2 ^ 26), 2 ^ 26) @ [(0, 0)])"
  by code_simp

lemma sc_reduce_ok: "sc_chain_ok sc_reduce_pre 24 (replicate 23 (0, 2 ^ 21 - 1) @ [(0, 2 ^ 29 - 1)])"
  by code_simp

lemma sc_wide_ok: "sc_chain_ok (sc_wide_pre @ sc_reduce_pre) 24 (replicate 23 (- (2 ^ 54), 2 ^ 54) @ [(0, 0)])"
  by code_simp


section \<open>Correctness of the functions\<close>

lemma limb_val_zero: "length s = n \<Longrightarrow> limb_val wt (Suc n) (s @ [0]) = limb_val wt n s"
  by (auto simp: limb_val_Suc limb_val_append)

lemma limb_val_map2_add:
  "n \<le> length a \<Longrightarrow> n \<le> length b \<Longrightarrow> limb_val wt n (map2 (+) a b) = limb_val wt n a + limb_val wt n b"
  by (simp add: limb_val_def distrib_right sum.distrib)

lemma limb_val_map2_diff:
  "n \<le> length a \<Longrightarrow> n \<le> length b \<Longrightarrow> limb_val wt n (map2 (-) a b) = limb_val wt n a - limb_val wt n b"
  by (simp add: limb_val_def left_diff_distrib sum_subtractf)

lemma sc_limb_bounds:
  assumes "length s = 32" and "i < 12"
  shows "0 \<le> sc_load12 s ! i" and "sc_load12 s ! i < 2 ^ 25"
proof -
  have "inside (sc_load12 s ! i) ((replicate 11 (0, 2 ^ 21 - 1) @ [(0, 2 ^ 25 - 1)]) ! i)"
    using assms sc_load12_correct(2) by (intro within_nth) auto
  then show "0 \<le> sc_load12 s ! i" and "sc_load12 s ! i < 2 ^ 25"
    using assms(2) by (auto simp: inside_def nth_append split: if_splits)
qed

lemma sc_short_run:
  assumes "length s = 12" and "\<And>i. i < 12 \<Longrightarrow> \<bar>s ! i\<bar> \<le> 2 ^ 26"
  shows "\<exists>r. limb_run 64 (sc_short_pre @ sc_tail) (s @ [0]) = Some r \<and> sc_canonical r
    \<and> limb_val sc_wt 12 r = limb_val sc_wt 12 s mod sc_l"
proof -
  have "within (s @ [0]) (replicate 12 (- (2 ^ 26), 2 ^ 26) @ [(0, 0)])"
    using assms by (intro within_append within_abs) simp_all
  from sc_chain_correct [OF sc_short_ok this] show ?thesis
    using limb_val_zero [of s 12 sc_wt] assms(1) by simp
qed

lemma sc_wide_run:
  assumes "length s = 23" and "\<And>i. i < 23 \<Longrightarrow> \<bar>s ! i\<bar> \<le> 2 ^ 54"
  shows "\<exists>r. limb_run 64 ((sc_wide_pre @ sc_reduce_pre) @ sc_tail) (s @ [0]) = Some r \<and> sc_canonical r
    \<and> limb_val sc_wt 12 r = limb_val sc_wt 23 s mod sc_l"
proof -
  have "within (s @ [0]) (replicate 23 (- (2 ^ 54), 2 ^ 54) @ [(0, 0)])"
    using assms by (intro within_append within_abs) simp_all
  from sc_chain_correct [OF sc_wide_ok this] show ?thesis
    using limb_val_zero [of s 23 sc_wt] assms(1) by simp
qed

lemma sc_reduce32_correct:
  assumes "length s = 32"
  shows "\<exists>r. sc_reduce32 s = Some r \<and> length r = 32 \<and> le_value r = le_value s mod sc_l"
proof -
  have "\<bar>sc_load12 s ! i\<bar> \<le> 2 ^ 26" if "i < 12" for i
    using sc_limb_bounds [OF assms that] by simp
  from sc_short_run [OF sc_load12_correct(3) [OF assms] this] obtain r
    where "limb_run 64 (sc_short_pre @ sc_tail) (sc_load12 s @ [0]) = Some r" and "sc_canonical r"
      and "limb_val sc_wt 12 r = le_value s mod sc_l"
    unfolding sc_load12_correct(1) [OF assms] by blast
  then show ?thesis
    using assms sc_store_value [of r] by (simp add: sc_reduce32_def)
qed

lemma sc_reduce_correct:
  assumes "length s = 64"
  shows "\<exists>r. sc_reduce s = Some r \<and> length r = 64 \<and> le_value (take 32 r) = le_value s mod sc_l
    \<and> drop 32 r = drop 32 s"
proof -
  from sc_chain_correct [OF sc_reduce_ok sc_load24_correct(2) [OF assms]] obtain r
    where "limb_run 64 (sc_reduce_pre @ sc_tail) (sc_load24 s) = Some r" and "sc_canonical r"
      and "limb_val sc_wt 12 r = le_value s mod sc_l"
    unfolding sc_load24_correct(1) [OF assms] by blast
  then show ?thesis
    using assms sc_store_value [of r] by (simp add: sc_reduce_def)
qed

lemma sc_add_correct:
  assumes "length a = 32" and "length b = 32"
  shows "\<exists>r. sc_add a b = Some r \<and> length r = 32 \<and> le_value r = (le_value a + le_value b) mod sc_l"
proof -
  let ?s = "map2 (+) (sc_load12 a) (sc_load12 b)"
  note len = sc_load12_correct(3) [OF assms(1)] sc_load12_correct(3) [OF assms(2)]
  have b: "\<bar>sc_load12 a ! i + sc_load12 b ! i\<bar> \<le> 2 ^ 26" if "i < 12" for i
    using sc_limb_bounds [OF assms(1) that] sc_limb_bounds [OF assms(2) that] by simp
  have s: "those (map2 (\<lambda>x y. cint 64 (x + y)) (sc_load12 a) (sc_load12 b)) = Some ?s"
  proof (rule those_map2_Some, rule cint_abs_Some)
    fix i
    assume "i < length (sc_load12 a)"
    with b [of i] len show "\<bar>sc_load12 a ! i + sc_load12 b ! i\<bar> < 2 ^ (64 - 1)" by simp
  qed
  have v: "limb_val sc_wt 12 ?s = le_value a + le_value b"
    using limb_val_map2_add len sc_load12_correct(1) assms by simp
  have "length ?s = 12" and "\<And>i. i < 12 \<Longrightarrow> \<bar>?s ! i\<bar> \<le> 2 ^ 26" using len b by simp_all
  from sc_short_run [OF this, unfolded v] s assms sc_store_value show ?thesis
    by (fastforce simp: sc_add_def)
qed

lemma sc_sub_correct:
  assumes "length a = 32" and "length b = 32"
  shows "\<exists>r. sc_sub a b = Some r \<and> length r = 32 \<and> le_value r = (le_value a - le_value b) mod sc_l"
proof -
  let ?s = "map2 (-) (sc_load12 a) (sc_load12 b)"
  note len = sc_load12_correct(3) [OF assms(1)] sc_load12_correct(3) [OF assms(2)]
  have b: "\<bar>sc_load12 a ! i - sc_load12 b ! i\<bar> \<le> 2 ^ 26" if "i < 12" for i
    using sc_limb_bounds [OF assms(1) that] sc_limb_bounds [OF assms(2) that] by simp
  have s: "those (map2 (\<lambda>x y. cint 64 (x - y)) (sc_load12 a) (sc_load12 b)) = Some ?s"
  proof (rule those_map2_Some, rule cint_abs_Some)
    fix i
    assume "i < length (sc_load12 a)"
    with b [of i] len show "\<bar>sc_load12 a ! i - sc_load12 b ! i\<bar> < 2 ^ (64 - 1)" by simp
  qed
  have v: "limb_val sc_wt 12 ?s = le_value a - le_value b"
    using limb_val_map2_diff len sc_load12_correct(1) assms by simp
  have "length ?s = 12" and "\<And>i. i < 12 \<Longrightarrow> \<bar>?s ! i\<bar> \<le> 2 ^ 26" using len b by simp_all
  from sc_short_run [OF this, unfolded v] s assms sc_store_value show ?thesis
    by (fastforce simp: sc_sub_def)
qed


text \<open>The columns of a product are the coefficients of the product of two polynomials.\<close>

definition sc_conv :: "int list \<Rightarrow> int list \<Rightarrow> nat \<Rightarrow> int" where
  "sc_conv a b k = sum_prods (sc_col a b k)"

lemma sc_conv_sum:
  assumes "k < 23"
  shows "sc_conv a b k
    = (\<Sum>i\<le>k. (if i < 12 then a ! i else 0) * (if k - i < 12 then b ! (k - i) else 0))"
proof -
  have "sc_conv a b k = (\<Sum>i\<in>{k - 11..<Suc (min k 11)}. a ! i * b ! (k - i))"
    by (simp add: sc_conv_def sc_col_def sum_prods_def comp_def interv_sum_list_conv_sum_set_nat
        del: upt_Suc)
  also have "\<dots> = (\<Sum>i\<in>{k - 11..<Suc (min k 11)}.
      (if i < 12 then a ! i else 0) * (if k - i < 12 then b ! (k - i) else 0))"
    by (rule sum.cong) auto
  also have "\<dots> = (\<Sum>i\<le>k. (if i < 12 then a ! i else 0) * (if k - i < 12 then b ! (k - i) else 0))"
    by (rule sum.mono_neutral_left) auto
  finally show ?thesis .
qed

lemma limb_val_as_poly:
  "limb_val sc_wt 12 a = (\<Sum>i\<le>11. (if i < 12 then a ! i else 0) * (2 ^ 21) ^ i)"
proof -
  have "{..<12 :: nat} = {..11}" by auto
  then show ?thesis
    unfolding limb_val_def sc_wt_pow by (intro sum.cong) auto
qed

lemma sc_conv_value:
  "(\<Sum>k<23. sc_conv a b k * sc_wt k) = limb_val sc_wt 12 a * limb_val sc_wt 12 b"
proof -
  let ?a = "\<lambda>i. if i < 12 then a ! i else 0" and ?b = "\<lambda>i. if i < 12 then b ! i else 0"
  have "{..<23 :: nat} = {..11 + 11}" by auto
  then have "(\<Sum>k<23. sc_conv a b k * sc_wt k) = (\<Sum>r\<le>11 + 11. (\<Sum>i\<le>r. ?a i * ?b (r - i)) * (2 ^ 21) ^ r)"
    by (intro sum.cong) (auto simp: sc_conv_sum sc_wt_pow simp del: sum.atMost_Suc)
  also have "\<dots> = (\<Sum>i\<le>11. ?a i * (2 ^ 21) ^ i) * (\<Sum>j\<le>11. ?b j * (2 ^ 21) ^ j)"
    by (rule polynomial_product [symmetric]) auto
  finally show ?thesis unfolding limb_val_as_poly .
qed

lemma sc_col_length: "length (sc_col a b k) \<le> 12"
  by (simp add: sc_col_def del: upt_Suc)

lemma sc_col_bounded:
  assumes "\<And>i. i < 12 \<Longrightarrow> \<bar>a ! i\<bar> \<le> 2 ^ 25" and "\<And>i. i < 12 \<Longrightarrow> \<bar>b ! i\<bar> \<le> 2 ^ 25"
    and "k < 23" and "\<bar>c\<bar> \<le> 2 ^ 25"
  shows "sop 64 c (sc_col a b k) = Some (c + sc_conv a b k)" and "\<bar>sc_conv a b k\<bar> \<le> 12 * 2 ^ 50"
proof -
  let ?q = "replicate (length (sc_col a b k)) (2 ^ 25, 2 ^ 25) :: (int \<times> int) list"
  have b: "list_all2 pair_bounded (sc_col a b k) ?q"
    using assms(1-3) by (auto simp: list_all2_conv_all_nth sc_col_def pair_bounded_def simp del: upt_Suc)
  have "sum_prods ?q = int (length (sc_col a b k)) * 2 ^ 50"
    by (simp add: sum_prods_def sum_list_replicate)
  then have q: "sum_prods ?q \<le> 12 * 2 ^ 50"
    using sc_col_length [of a b k] by simp
  then have "\<bar>c\<bar> + sum_prods ?q < 2 ^ (64 - 1)" using assms(4) by simp
  from sop_exact [OF b this] show "sop 64 c (sc_col a b k) = Some (c + sc_conv a b k)"
    by (simp add: sc_conv_def)
  have "\<bar>0 :: int\<bar> + sum_prods ?q < 2 ^ (64 - 1)" using q by simp
  from sop_exact [OF b this] q show "\<bar>sc_conv a b k\<bar> \<le> 12 * 2 ^ 50"
    by (simp add: sc_conv_def)
qed


lemma sc_load12_abs: "length s = 32 \<Longrightarrow> i < 12 \<Longrightarrow> \<bar>sc_load12 s ! i\<bar> \<le> 2 ^ 25"
  using sc_limb_bounds [of s i] by simp

lemma sc_cols_value:
  "limb_val sc_wt 23 (map (sc_conv a b) [0..<23]) = limb_val sc_wt 12 a * limb_val sc_wt 12 b"
  by (subst sc_conv_value [symmetric], subst limb_val_def, rule sum.cong) (auto simp del: upt_Suc)

lemma sc_col_loads:
  assumes "length a = 32" and "length b = 32" and "k < 23" and "\<bar>c\<bar> \<le> 2 ^ 25"
  shows "sop 64 c (sc_col (sc_load12 a) (sc_load12 b) k) = Some (c + sc_conv (sc_load12 a) (sc_load12 b) k)"
    and "\<bar>sc_conv (sc_load12 a) (sc_load12 b) k\<bar> \<le> 12 * 2 ^ 50"
  using sc_col_bounded [of "sc_load12 a" "sc_load12 b" k c] sc_load12_abs assms by blast+

lemma limb_val_head:
  "(\<Sum>k<23. (if k < 12 then c ! k else 0) * sc_wt k) = limb_val sc_wt 12 c"
proof -
  have "(\<Sum>k<23. (if k < 12 then c ! k else 0) * sc_wt k) = (\<Sum>k<12. (if k < 12 then c ! k else 0) * sc_wt k)"
    by (rule sum.mono_neutral_right) auto
  then show ?thesis by (simp add: limb_val_def)
qed

lemma sc_mul_correct:
  assumes "length a = 32" and "length b = 32"
  shows "\<exists>r. sc_mul a b = Some r \<and> length r = 32 \<and> le_value r = (le_value a * le_value b) mod sc_l"
proof -
  let ?a = "sc_load12 a" and ?b = "sc_load12 b"
  let ?s = "map (sc_conv ?a ?b) [0..<23]"
  note col = sc_col_loads [OF assms(1,2)]
  have "those (map (\<lambda>k. sop 64 0 (sc_col ?a ?b k)) [0..<23]) = Some ?s"
    by (rule those_map_Some) (use col(1) [of _ 0] in auto)
  then have s: "sc_mul_cols ?a ?b = Some (?s @ [0])" by (simp add: sc_mul_cols_def)
  have v: "limb_val sc_wt 23 ?s = le_value a * le_value b"
    using sc_cols_value [of ?a ?b] sc_load12_correct(1) assms by simp
  have "\<bar>?s ! i\<bar> \<le> 2 ^ 54" if "i < 23" for i
    using col(2) [OF that, of 0] that by (simp del: upt_Suc)
  then have "length ?s = 23" and "\<And>i. i < 23 \<Longrightarrow> \<bar>?s ! i\<bar> \<le> 2 ^ 54" by simp_all
  from sc_wide_run [OF this, unfolded v] s assms sc_store_value show ?thesis
    by (fastforce simp: sc_mul_def sc_mul_chain_def)
qed

lemma sc_muladd_correct:
  assumes "length a = 32" and "length b = 32" and "length c = 32"
  shows "\<exists>r. sc_muladd a b c = Some r \<and> length r = 32
    \<and> le_value r = (le_value a * le_value b + le_value c) mod sc_l"
proof -
  let ?a = "sc_load12 a" and ?b = "sc_load12 b" and ?c = "\<lambda>k. if k < 12 then sc_load12 c ! k else 0"
  let ?s = "map (\<lambda>k. ?c k + sc_conv ?a ?b k) [0..<23]"
  have c: "\<bar>?c k\<bar> \<le> 2 ^ 25" for k using sc_load12_abs [OF assms(3)] by simp
  note col = sc_col_loads [OF assms(1,2) _ c]
  have "those (map (\<lambda>k. sop 64 (?c k) (sc_col ?a ?b k)) [0..<23]) = Some ?s"
    by (rule those_map_Some) (use col(1) in auto)
  then have s: "sc_muladd_cols ?a ?b (sc_load12 c) = Some (?s @ [0])" by (simp add: sc_muladd_cols_def)
  have "limb_val sc_wt 23 ?s = (\<Sum>k<23. ?c k * sc_wt k) + (\<Sum>k<23. sc_conv ?a ?b k * sc_wt k)"
    unfolding limb_val_def sum.distrib [symmetric]
    by (intro sum.cong) (auto simp: distrib_right simp del: upt_Suc)
  then have v: "limb_val sc_wt 23 ?s = le_value a * le_value b + le_value c"
    unfolding limb_val_head sc_conv_value using sc_load12_correct(1) assms by simp
  have "\<bar>?c i + sc_conv ?a ?b i\<bar> \<le> 2 ^ 54" if "i < 23" for i
    using col(2) [OF that] c [of i] by (simp add: abs_le_iff split: if_splits)
  then have "length ?s = 23" and "\<And>i. i < 23 \<Longrightarrow> \<bar>?s ! i\<bar> \<le> 2 ^ 54"
    by (simp_all del: upt_Suc split del: if_split cong: if_cong)
  from sc_wide_run [OF this, unfolded v] s assms sc_store_value show ?thesis
    by (fastforce simp: sc_muladd_def sc_muladd_chain_def)
qed

lemma sc_mulsub_correct:
  assumes "length a = 32" and "length b = 32" and "length c = 32"
  shows "\<exists>r. sc_mulsub a b c = Some r \<and> length r = 32
    \<and> le_value r = (le_value c - le_value a * le_value b) mod sc_l"
proof -
  let ?a = "sc_load12 a" and ?b = "sc_load12 b" and ?c = "\<lambda>k. if k < 12 then sc_load12 c ! k else 0"
  let ?s = "map (\<lambda>k. ?c k - sc_conv ?a ?b k) [0..<23]"
  have c: "\<bar>?c k\<bar> \<le> 2 ^ 25" for k using sc_load12_abs [OF assms(3)] by simp
  note col = sc_col_loads [OF assms(1,2), where c = 0, simplified]
  have small: "\<bar>?c i - sc_conv ?a ?b i\<bar> \<le> 2 ^ 54" if "i < 23" for i
    using col(2) [OF that] c [of i] by (simp add: abs_le_iff split: if_splits)
  have "those (map (\<lambda>k. do { t \<leftarrow> sop 64 0 (sc_col ?a ?b k); cint 64 (?c k - t) }) [0..<23]) = Some ?s"
  proof (rule those_map_Some)
    fix k
    assume "k \<in> set [0..<23 :: nat]"
    then have k: "k < 23" by simp
    have "cint 64 (?c k - sc_conv ?a ?b k) = Some (?c k - sc_conv ?a ?b k)"
      using small [OF k] by (intro cint_abs_Some) simp
    with col(1) [OF k]
    show "do { t \<leftarrow> sop 64 0 (sc_col ?a ?b k); cint 64 (?c k - t) } = Some (?c k - sc_conv ?a ?b k)"
      by simp
  qed
  then have s: "sc_mulsub_cols ?a ?b (sc_load12 c) = Some (?s @ [0])" by (simp add: sc_mulsub_cols_def)
  have "limb_val sc_wt 23 ?s = (\<Sum>k<23. ?c k * sc_wt k) - (\<Sum>k<23. sc_conv ?a ?b k * sc_wt k)"
    unfolding limb_val_def sum_subtractf [symmetric]
    by (intro sum.cong) (auto simp: left_diff_distrib simp del: upt_Suc)
  then have v: "limb_val sc_wt 23 ?s = le_value c - le_value a * le_value b"
    unfolding limb_val_head sc_conv_value using sc_load12_correct(1) assms by simp
  have "length ?s = 23" and "\<And>i. i < 23 \<Longrightarrow> \<bar>?s ! i\<bar> \<le> 2 ^ 54"
    using small by (simp_all del: upt_Suc split del: if_split cong: if_cong)
  from sc_wide_run [OF this, unfolded v] s assms sc_store_value show ?thesis
    by (fastforce simp: sc_mulsub_def sc_mulsub_chain_def)
qed

end
