(* ===== verification/Power_Chain.thy ===== *)
theory Power_Chain
  imports Prelude
begin

text \<open>
  Addition chains. \<^verbatim>\<open>sc_invert\<close>, \<^verbatim>\<open>fe_invert\<close> and \<^verbatim>\<open>fe_divpowm1\<close> compute a fixed power by a
  long sequence of multiplications and repeated squarings, any of which could overflow. The
  locale \<open>power_chain\<close> states what such a sequence needs of its multiplication and squaring and
  gives the rules that walk through it statement by statement.
\<close>

text \<open>The loop \<^verbatim>\<open>for (i = 0; i < n; ++i) sq(t, t);\<close>\<close>

fun sq_times :: "('a \<Rightarrow> 'a option) \<Rightarrow> nat \<Rightarrow> 'a \<Rightarrow> 'a option" where
  "sq_times sq 0 t = Some t"
| "sq_times sq (Suc n) t = do { t \<leftarrow> sq t; sq_times sq n t }"

text \<open>
  \<open>rep e a\<close>: \<open>a\<close> may be used as the \<open>e\<close>-th power; \<open>fin e a\<close>: \<open>a\<close> is the \<open>e\<close>-th power as a
  multiplication leaves it.
\<close>

locale power_chain =
  fixes mul :: "'a \<Rightarrow> 'a \<Rightarrow> 'a option" and sq :: "'a \<Rightarrow> 'a option"
    and rep fin :: "nat \<Rightarrow> 'a \<Rightarrow> bool"
  assumes mul_law: "rep e a \<Longrightarrow> rep f b \<Longrightarrow> \<exists>r. mul a b = Some r \<and> fin (e + f) r"
    and sq_law: "rep e a \<Longrightarrow> \<exists>r. sq a = Some r \<and> fin (2 * e) r"
    and fin_rep: "fin e a \<Longrightarrow> rep e a"
begin

lemma mul_step:
  assumes "rep e a" and "rep f b" and "\<And>r. rep (e + f) r \<Longrightarrow> \<exists>q. k r = Some q \<and> P q"
  shows "\<exists>q. mul a b \<bind> k = Some q \<and> P q"
  using mul_law [OF assms(1,2)] assms(3) fin_rep by (metis bind.bind_lunit)

lemma sq_step:
  assumes "rep e a" and "\<And>r. rep (2 * e) r \<Longrightarrow> \<exists>q. k r = Some q \<and> P q"
  shows "\<exists>q. sq a \<bind> k = Some q \<and> P q"
  using sq_law [OF assms(1)] assms(2) fin_rep by (metis bind.bind_lunit)

lemma sq_times_rep: "rep e a \<Longrightarrow> \<exists>r. sq_times sq n a = Some r \<and> rep (2 ^ n * e) r"
proof (induction n arbitrary: a e)
  case 0
  then show ?case by simp
next
  case (Suc n)
  from sq_law [OF Suc.prems] obtain b where "sq a = Some b" and b: "rep (2 * e) b"
    using fin_rep by blast
  with Suc.IH [OF b] show ?case by (simp add: mult_ac)
qed

lemma sq_times_step:
  assumes "rep e a" and "\<And>r. rep (2 ^ n * e) r \<Longrightarrow> \<exists>q. k r = Some q \<and> P q"
  shows "\<exists>q. sq_times sq n a \<bind> k = Some q \<and> P q"
  using sq_times_rep [OF assms(1), of n] assms(2) by (metis bind.bind_lunit)

lemma mul_last:
  assumes "rep e a" and "rep f b" and "e + f = g"
  shows "\<exists>r. mul a b = Some r \<and> fin g r"
  using mul_law [OF assms(1,2)] assms(3) by blast

end

end
