(* ===== verification/Scalar_Ops.thy ===== *)
theory Scalar_Ops
  imports Scalar Power_Chain
begin

text \<open>
  The scalar predicates and the inversion built on \<open>sc_mul\<close> in \<^verbatim>\<open>src/src/crypto/crypto-ops.c\<close>:
  \<^verbatim>\<open>sc_check\<close> and \<^verbatim>\<open>sc_isnonzero\<close> decide, without branching, whether a scalar is canonical
  and whether it is zero; \<^verbatim>\<open>sc_invert\<close> raises a scalar to the power \<open>l - 2\<close> by an addition chain.
\<close>

unbundle bit_operations_syntax

section \<open>Definitions\<close>

definition signum :: "int \<Rightarrow> int option" where
  "signum a = do { n \<leftarrow> cint 64 (- a); cint 64 (a div 2 ^ 63 - n div 2 ^ 63) }"

definition sc_check_words :: "int list" where
  "sc_check_words = [1559614444, 1477600026, 2734136534, 350157278, 0, 0, 0, 268435456]"

definition sc_check :: "bytes \<Rightarrow> int option" where
  "sc_check s =
     (if length s < 32 then None
      else do { g \<leftarrow> those (map (\<lambda>k. do { d \<leftarrow> cint 64 (sc_check_words ! k - sint (load_4 s (4 * k)));
                                          signum d }) [0..<8]);
                t \<leftarrow> sop 64 0 (map (\<lambda>k. (g ! k, 2 ^ k)) [0..<8]);
                Some (t div 2 ^ 8) })"

definition sc_isnonzero :: "bytes \<Rightarrow> int option" where
  "sc_isnonzero s =
     (if length s < 32 then None
      else Some (bytes_nonzero s))"

definition sc_sqmul :: "bytes \<Rightarrow> nat \<Rightarrow> bytes \<Rightarrow> bytes option" where
  "sc_sqmul s n a = do { s \<leftarrow> sq_times (\<lambda>s. sc_mul s s) n s; sc_mul s a }"

definition sc_invert :: "bytes \<Rightarrow> bytes option" where
  "sc_invert s = do {
     x10 \<leftarrow> sc_mul s s;
     x11 \<leftarrow> sc_mul s x10;
     x100 \<leftarrow> sc_mul s x11;
     x1000 \<leftarrow> sc_mul x100 x100;
     x1010 \<leftarrow> sc_mul x10 x1000;
     x1011 \<leftarrow> sc_mul s x1010;
     x10000 \<leftarrow> sc_mul x1000 x1000;
     x10110 \<leftarrow> sc_mul x1011 x1011;
     x100000 \<leftarrow> sc_mul x1010 x10110;
     x100110 \<leftarrow> sc_mul x10000 x10110;
     x1000000 \<leftarrow> sc_mul x100000 x100000;
     x1010000 \<leftarrow> sc_mul x10000 x1000000;
     x1010011 \<leftarrow> sc_mul x11 x1010000;
     x1100011 \<leftarrow> sc_mul x10000 x1010011;
     x1100111 \<leftarrow> sc_mul x100 x1100011;
     x1101011 \<leftarrow> sc_mul x100 x1100111;
     x10010011 \<leftarrow> sc_mul x1000000 x1010011;
     x10010111 \<leftarrow> sc_mul x100 x10010011;
     x10111101 \<leftarrow> sc_mul x100110 x10010111;
     x11010011 \<leftarrow> sc_mul x10110 x10111101;
     x11100111 \<leftarrow> sc_mul x1010000 x10010111;
     x11101011 \<leftarrow> sc_mul x100 x11100111;
     x11110101 \<leftarrow> sc_mul x1010 x11101011;
     r \<leftarrow> sc_mul x1011 x11110101;
     r \<leftarrow> sc_sqmul r 126 x1010011;
     r \<leftarrow> sc_sqmul r 9 x10;
     r \<leftarrow> sc_mul r x11110101;
     r \<leftarrow> sc_sqmul r 7 x1100111;
     r \<leftarrow> sc_sqmul r 9 x11110101;
     r \<leftarrow> sc_sqmul r 11 x10111101;
     r \<leftarrow> sc_sqmul r 8 x11100111;
     r \<leftarrow> sc_sqmul r 9 x1101011;
     r \<leftarrow> sc_sqmul r 6 x1011;
     r \<leftarrow> sc_sqmul r 14 x10010011;
     r \<leftarrow> sc_sqmul r 10 x1100011;
     r \<leftarrow> sc_sqmul r 9 x10010111;
     r \<leftarrow> sc_sqmul r 10 x11110101;
     r \<leftarrow> sc_sqmul r 8 x11010011;
     sc_sqmul r 8 x11101011 }"


section \<open>The canonicity check\<close>

lemma signum_sgn:
  assumes "\<bar>a\<bar> < 2 ^ 63"
  shows "signum a = Some (sgn a)"
proof -
  have "a div 2 ^ 63 = (if a < 0 then - 1 else 0)" and "(- a) div 2 ^ 63 = (if 0 < a then - 1 else 0)"
    using shift_sign [of "2 ^ 63" a] shift_sign [of "2 ^ 63" "- a"] assms by (simp_all add: abs_less_iff)
  then show ?thesis using assms by (simp add: signum_def cint_def sgn_if abs_less_iff)
qed

text \<open>
  The number with digits \<open>ds\<close> in base \<open>B\<close>. Where the digits are smaller than the base, its
  sign is the sign of its leading digit, whatever the base.
\<close>

fun horner :: "int \<Rightarrow> int list \<Rightarrow> int" where
  "horner B [] = 0"
| "horner B (d # ds) = d + B * horner B ds"

lemma sgn_leading:
  assumes "\<bar>d\<bar> < B"
  shows "sgn (d + B * v) = (if v = 0 then sgn d else sgn (v :: int))"
proof -
  have B: "0 < B" using assms by linarith
  consider "v = 0" | "1 \<le> v" | "v \<le> - 1" by linarith
  then show ?thesis
  proof cases
    case 2
    then have "B * 1 \<le> B * v" using B by (intro mult_left_mono) auto
    then have "0 < d + B * v" using assms by linarith
    with 2 show ?thesis by simp
  next
    case 3
    then have "B * v \<le> B * - 1" using B by (intro mult_left_mono) auto
    then have "d + B * v < 0" using assms by linarith
    with 3 show ?thesis by simp
  qed simp
qed

lemma sgn_horner:
  "list_all (\<lambda>d. \<bar>d\<bar> < B) ds \<Longrightarrow> 2 \<le> B \<Longrightarrow> sgn (horner 2 (map sgn ds)) = sgn (horner B ds)"
proof (induction ds)
  case Nil
  then show ?case by simp
next
  case (Cons d ds)
  have d: "\<bar>sgn d\<bar> < 2" by (simp add: sgn_if)
  have "sgn (horner 2 (map sgn (d # ds)))
      = (if horner 2 (map sgn ds) = 0 then sgn (sgn d) else sgn (horner 2 (map sgn ds)))"
    using sgn_leading [OF d] by simp
  moreover have "horner 2 (map sgn ds) = 0 \<longleftrightarrow> horner B ds = 0"
    using Cons by (metis list.pred_inject(2) sgn_0_0)
  ultimately show ?case using Cons sgn_leading [of d B "horner B ds"] by simp
qed

lemma horner_sum: "horner B ds = (\<Sum>k<length ds. ds ! k * B ^ k)"
proof (induction ds)
  case Nil
  then show ?case by simp
next
  case (Cons d ds)
  then show ?case
    by (simp add: sum.lessThan_Suc_shift sum_distrib_left algebra_simps del: sum.lessThan_Suc)
qed

lemma horner_sgn_bound: "\<bar>horner 2 (map sgn ds)\<bar> < 2 ^ length ds"
proof (induction ds)
  case Nil
  then show ?case by simp
next
  case (Cons d ds)
  have "\<bar>sgn d\<bar> \<le> 1" by (simp add: sgn_if)
  moreover have "2 * \<bar>horner 2 (map sgn ds)\<bar> \<le> 2 * 2 ^ length ds - 2" using Cons by simp
  ultimately show ?case
    unfolding horner.simps list.map list.size(4) add_Suc_right add_0_right power_Suc by linarith
qed


lemma sc_check_value:
  assumes "length s = 32"
  shows "horner (2 ^ 32) (map (\<lambda>k. sc_check_words ! k - sint (load_4 s (4 * k))) [0..<8])
    = sc_l - 1 - le_value s"
    and "k < 8 \<Longrightarrow> 0 \<le> sint (load_4 s (4 * k)) \<and> sint (load_4 s (4 * k)) < 2 ^ 32"
proof -
  let ?d = "\<lambda>k. take_bit 32 (drop_bit (32 * k) (le_value s))"
  have word: "sint (load_4 s (4 * k)) = ?d k" if "k < 8" for k
    using load_4_bits [of "4 * k" s] sint_small [of "load_4 s (4 * k)"]
      take_bit_int_less_exp [of 32 "drop_bit (32 * k) (le_value s)"] that assms by simp
  show "0 \<le> sint (load_4 s (4 * k)) \<and> sint (load_4 s (4 * k)) < 2 ^ 32" if "k < 8"
    unfolding word [OF that] using take_bit_int_less_exp [of 32] by simp
  let ?c = "\<lambda>k. sc_check_words ! k"
  have "horner (2 ^ 32) (map (\<lambda>k. ?c k - sint (load_4 s (4 * k))) [0..<8])
      = (\<Sum>k<8. (?c k - ?d k) * (2 ^ 32) ^ k)"
    by (simp only: horner_sum length_map length_upt) (simp add: word del: upt_Suc)
  also have "\<dots> = (\<Sum>k<8. ?c k * (2 ^ 32) ^ k) - (\<Sum>k<8. ?d k * (2 ^ 32) ^ k)"
    by (simp only: left_diff_distrib sum_subtractf)
  also have "(\<Sum>k<8. ?d k * (2 ^ 32) ^ k) = le_value s"
    using digits_sum [of 32 "le_value s" 8] le_value_32 [OF assms]
    by (simp add: take_bit_int_eq_self power_mult)
  also have "(\<Sum>k<8. ?c k * (2 ^ 32) ^ k) = sc_l - 1"
    by (simp add: sc_check_words_def sc_l_def eval_nat_numeral)
  finally show "horner (2 ^ 32) (map (\<lambda>k. sc_check_words ! k - sint (load_4 s (4 * k))) [0..<8])
    = sc_l - 1 - le_value s" .
qed

lemma sop_pow2: "sop 64 c (map (\<lambda>k. (g ! k, 2 ^ k)) [0..<n]) = Some (c + (\<Sum>k<n. g ! k * 2 ^ k))"
  if "\<And>k. k < n \<Longrightarrow> \<bar>g ! k\<bar> \<le> 1" and "\<bar>c\<bar> + (2 ^ n - 1) < 2 ^ 63"
proof -
  let ?ps = "map (\<lambda>k. (g ! k, 2 ^ k)) [0..<n]" and ?qs = "map (\<lambda>k. (1, 2 ^ k)) [0..<n] :: (int \<times> int) list"
  have "list_all2 pair_bounded ?ps ?qs"
    using that(1) by (simp add: list_all2_conv_all_nth pair_bounded_def)
  moreover have "sum_prods ?qs = 2 ^ n - 1"
    by (induction n) (simp_all add: sum_prods_def)
  moreover have "sum_prods ?ps = (\<Sum>k<n. g ! k * 2 ^ k)"
    by (simp add: sum_prods_def comp_def interv_sum_list_conv_sum_set_nat atLeast0LessThan)
  ultimately show ?thesis using sop_exact [of ?ps ?qs c 64] that(2) by simp
qed

lemma sc_check_correct:
  assumes "length s = 32"
  shows "sc_check s = Some (if le_value s < sc_l then 0 else - 1)"
proof -
  let ?d = "\<lambda>k. sc_check_words ! k - sint (load_4 s (4 * k))"
  let ?ds = "map ?d [0..<8]"
  let ?t = "horner 2 (map sgn ?ds)"
  have c: "0 \<le> sc_check_words ! k \<and> sc_check_words ! k < 2 ^ 32" if "k < 8" for k
    using that by (auto simp: sc_check_words_def eval_nat_numeral less_Suc_eq)
  have d: "\<bar>?d k\<bar> < 2 ^ 32" if "k < 8" for k
    using c [OF that] sc_check_value(2) [OF assms that] by (simp add: abs_less_iff)
  have g: "those (map (\<lambda>k. do { d \<leftarrow> cint 64 (?d k); signum d }) [0..<8]) = Some (map sgn ?ds)"
  proof -
    have "those (map (\<lambda>k. do { d \<leftarrow> cint 64 (?d k); signum d }) [0..<8])
        = Some (map (\<lambda>k. sgn (?d k)) [0..<8])"
    proof (rule those_map_Some)
      fix k
      assume "k \<in> set [0..<8 :: nat]"
      then have small: "\<bar>?d k\<bar> < 2 ^ 32" by (intro d) simp
      then have "cint 64 (?d k) = Some (?d k)" by (intro cint_abs_Some) simp
      with small signum_sgn [of "?d k"] show "do { d \<leftarrow> cint 64 (?d k); signum d } = Some (sgn (?d k))"
        by simp
    qed
    then show ?thesis by (simp only: map_map comp_def)
  qed
  have "sop 64 0 (map (\<lambda>k. (map sgn ?ds ! k, 2 ^ k)) [0..<8]) = Some (0 + (\<Sum>k<8. map sgn ?ds ! k * 2 ^ k))"
    by (rule sop_pow2) (simp_all add: sgn_if del: upt_Suc)
  then have "sc_check s = Some (?t div 2 ^ 8)"
    using assms g by (simp add: sc_check_def horner_sum [of 2] del: upt_Suc)
  moreover have "sgn ?t = sgn (sc_l - 1 - le_value s)"
    using sgn_horner [of "2 ^ 32" ?ds] d sc_check_value(1) [OF assms] by (simp add: list_all_length del: upt_Suc)
  moreover have "?t div 2 ^ 8 = (if ?t < 0 then - 1 else 0)"
    using horner_sgn_bound [of ?ds] by (intro shift_sign) (simp_all del: upt_Suc add: abs_less_iff)
  ultimately show ?thesis by (auto simp: sgn_if split: if_splits)
qed


section \<open>The zero check\<close>

lemma sc_isnonzero_correct:
  "length s = 32 \<Longrightarrow> sc_isnonzero s = Some (if le_value s = 0 then 0 else 1)"
  by (simp add: sc_isnonzero_def bytes_nonzero_correct)


section \<open>Inversion\<close>

definition sc_pow :: "int \<Rightarrow> nat \<Rightarrow> bytes \<Rightarrow> bool" where
  "sc_pow x e r \<longleftrightarrow> length r = 32 \<and> le_value r mod sc_l = x ^ e mod sc_l"

definition sc_pow_canonical :: "int \<Rightarrow> nat \<Rightarrow> bytes \<Rightarrow> bool" where
  "sc_pow_canonical x e r \<longleftrightarrow> length r = 32 \<and> le_value r = x ^ e mod sc_l"

lemma sc_mul_pow:
  assumes "sc_pow x e a" and "sc_pow x f b"
  shows "\<exists>r. sc_mul a b = Some r \<and> sc_pow_canonical x (e + f) r"
proof -
  obtain r where r: "sc_mul a b = Some r" "length r = 32" "le_value r = le_value a * le_value b mod sc_l"
    using sc_mul_correct [of a b] assms by (auto simp: sc_pow_def)
  have "le_value a * le_value b mod sc_l = x ^ e * x ^ f mod sc_l"
    using assms by (metis sc_pow_def mod_mult_cong)
  with r show ?thesis by (auto simp: sc_pow_canonical_def power_add)
qed

interpretation sc_chain: power_chain sc_mul "\<lambda>s. sc_mul s s" "sc_pow x" "sc_pow_canonical x" for x
proof
  fix e a
  show "\<exists>r. sc_mul a a = Some r \<and> sc_pow_canonical x (2 * e) r" if "sc_pow x e a"
    using sc_mul_pow [OF that that] by (simp add: mult_2)
  show "sc_pow x e a" if "sc_pow_canonical x e a"
    using that by (simp add: sc_pow_canonical_def sc_pow_def)
qed (rule sc_mul_pow)

lemma sc_sqmul_pow:
  assumes "sc_pow x e a" and "sc_pow x f b"
  shows "\<exists>r. sc_sqmul a n b = Some r \<and> sc_pow_canonical x (2 ^ n * e + f) r"
  unfolding sc_sqmul_def
  by (rule sc_chain.sq_times_step [OF assms(1)]) (erule sc_mul_pow, rule assms(2))

lemma sc_sqmul_step:
  assumes "sc_pow x e a" and "sc_pow x f b"
    and "\<And>r. sc_pow x (2 ^ n * e + f) r \<Longrightarrow> \<exists>q. k r = Some q \<and> P q"
  shows "\<exists>q. sc_sqmul a n b \<bind> k = Some q \<and> P q"
  using sc_sqmul_pow [OF assms(1,2), of n] assms(3) sc_chain.fin_rep by fastforce

lemma sc_sqmul_last:
  assumes "sc_pow x e a" and "sc_pow x f b" and "2 ^ n * e + f = g"
  shows "\<exists>r. sc_sqmul a n b = Some r \<and> sc_pow_canonical x g r"
  using sc_sqmul_pow [OF assms(1,2), of n] assms(3) by simp

lemma sc_invert_correct:
  assumes "length s = 32"
  shows "\<exists>r. sc_invert s = Some r \<and> length r = 32 \<and> le_value r = le_value s ^ nat (sc_l - 2) mod sc_l"
proof -
  have s: "sc_pow (le_value s) 1 s" using assms by (simp add: sc_pow_def)
  show ?thesis
    unfolding sc_invert_def sc_pow_canonical_def [symmetric]
    by (rule sc_chain.mul_step [OF s s],
        (rule sc_chain.mul_step sc_sqmul_step, (assumption | rule s), (assumption | rule s))+,
        rule sc_sqmul_last, assumption, assumption, simp add: sc_l_def)
qed



section \<open>Properties\<close>

text \<open>
  Arguments are byte arrays of the size the callers pass; every result is the canonical residue,
  below \<open>l\<close>, of the number the function promises.
\<close>

text \<open>
  \<^verbatim>\<open>sc_mul\<close> never overflows and stores the residue of the product \<open>a b\<close> modulo \<open>l\<close>.
\<close>

theorem sc_mul_residue:
  assumes "length a = 32" and "length b = 32"
  shows "sc_mul a b = Some (le_bytes 32 (le_value a * le_value b mod sc_l))"
  by (rule le_bytes_eqI, rule sc_mul_correct) (use assms in simp_all)

theorem sc_mul_residue_witness:
  "sc_mul (le_bytes 32 (2 ^ 252)) (le_bytes 32 16) = Some (le_bytes 32 (2 ^ 256 mod sc_l))"
  using sc_mul_residue [of "le_bytes 32 (2 ^ 252)" "le_bytes 32 16"] by (simp add: le_value_le_bytes)

text \<open>
  \<^verbatim>\<open>sc_muladd\<close> never overflows and stores the residue of \<open>a b + c\<close> modulo \<open>l\<close>.
\<close>

theorem sc_muladd_residue:
  assumes "length a = 32" and "length b = 32" and "length c = 32"
  shows "sc_muladd a b c = Some (le_bytes 32 ((le_value a * le_value b + le_value c) mod sc_l))"
  by (rule le_bytes_eqI, rule sc_muladd_correct) (use assms in simp_all)

theorem sc_muladd_residue_witness:
  "sc_muladd (le_bytes 32 (2 ^ 252)) (le_bytes 32 3) (le_bytes 32 5) = Some (le_bytes 32 ((3 * 2 ^ 252 + 5) mod sc_l))"
  using sc_muladd_residue [of "le_bytes 32 (2 ^ 252)" "le_bytes 32 3" "le_bytes 32 5"]
  by (simp add: le_value_le_bytes)

text \<open>
  \<^verbatim>\<open>sc_mulsub\<close> never overflows and stores the residue of \<open>c - a b\<close> modulo \<open>l\<close>, also where the difference is negative.
\<close>

theorem sc_mulsub_residue:
  assumes "length a = 32" and "length b = 32" and "length c = 32"
  shows "sc_mulsub a b c = Some (le_bytes 32 ((le_value c - le_value a * le_value b) mod sc_l))"
  by (rule le_bytes_eqI, rule sc_mulsub_correct) (use assms in simp_all)

theorem sc_mulsub_residue_witness:
  "sc_mulsub (le_bytes 32 2) (le_bytes 32 3) (le_bytes 32 5) = Some (le_bytes 32 (sc_l - 1))"
  using sc_mulsub_residue [of "le_bytes 32 2" "le_bytes 32 3" "le_bytes 32 5"]
  by (simp add: le_value_le_bytes sc_l_def)

text \<open>
  \<^verbatim>\<open>sc_reduce\<close> overwrites the first 32 of 64 bytes by the residue of the 512-bit number modulo \<open>l\<close> and leaves the rest.
\<close>

theorem sc_reduce_residue:
  assumes "length s = 64"
  shows "sc_reduce s = Some (le_bytes 32 (le_value s mod sc_l) @ drop 32 s)"
proof -
  obtain r where r: "sc_reduce s = Some r" "length r = 64" "le_value (take 32 r) = le_value s mod sc_l"
    "drop 32 r = drop 32 s"
    using sc_reduce_correct [OF assms] by blast
  have "take 32 r = le_bytes 32 (le_value s mod sc_l)"
    using le_bytes_le_value [of "take 32 r"] r(2,3) by simp
  then show ?thesis using r(1,4) append_take_drop_id [of 32 r] by simp
qed

theorem sc_reduce_residue_witness:
  "sc_reduce (replicate 64 255) = Some (le_bytes 32 ((2 ^ 512 - 1) mod sc_l) @ replicate 32 255)"
proof -
  have "le_value (replicate 64 255) = 2 ^ 512 - 1" by code_simp
  then show ?thesis using sc_reduce_residue [of "replicate 64 255"] by simp
qed

text \<open>
  \<^verbatim>\<open>sc_reduce32\<close> replaces a 256-bit number by its residue modulo \<open>l\<close>.
\<close>

theorem sc_reduce32_residue:
  assumes "length s = 32"
  shows "sc_reduce32 s = Some (le_bytes 32 (le_value s mod sc_l))"
  by (rule le_bytes_eqI, rule sc_reduce32_correct) (rule assms)

theorem sc_reduce32_residue_witness:
  "sc_reduce32 (le_bytes 32 sc_l) = Some (le_bytes 32 0)"
  using sc_reduce32_residue [of "le_bytes 32 sc_l"] by (simp add: le_value_le_bytes sc_l_def)

text \<open>
  \<^verbatim>\<open>sc_add\<close> and \<^verbatim>\<open>sc_sub\<close> store the residues of sum and difference modulo \<open>l\<close>; adding what was subtracted gives the reduced argument back.
\<close>

theorem sc_add_sub_residue:
  assumes "length a = 32" and "length b = 32"
  shows "sc_add a b = Some (le_bytes 32 ((le_value a + le_value b) mod sc_l))
    \<and> sc_sub a b = Some (le_bytes 32 ((le_value a - le_value b) mod sc_l))
    \<and> (do { d \<leftarrow> sc_sub a b; sc_add d b }) = sc_reduce32 a"
proof -
  have *: "le_value (le_bytes 32 (x mod sc_l)) = x mod sc_l" for x
    using pos_mod_bound [of sc_l x] pos_mod_sign [of sc_l x] by (simp add: le_value_le_bytes sc_l_def)
  have add: "length a = 32 \<Longrightarrow> sc_add a b = Some (le_bytes 32 ((le_value a + le_value b) mod sc_l))" for a
    by (rule le_bytes_eqI, rule sc_add_correct) (use assms in simp_all)
  have sub: "sc_sub a b = Some (le_bytes 32 ((le_value a - le_value b) mod sc_l))"
    by (rule le_bytes_eqI, rule sc_sub_correct) (use assms in simp_all)
  have red: "sc_reduce32 a = Some (le_bytes 32 (le_value a mod sc_l))"
    by (rule le_bytes_eqI, rule sc_reduce32_correct) (rule assms(1))
  show ?thesis
    using add [OF assms(1)] sub add [of "le_bytes 32 ((le_value a - le_value b) mod sc_l)"] red
    by (simp add: * mod_simps)
qed

theorem sc_add_sub_residue_witness:
  "sc_sub (le_bytes 32 3) (le_bytes 32 5) = Some (le_bytes 32 (sc_l - 2))"
  using sc_add_sub_residue [of "le_bytes 32 3" "le_bytes 32 5"] by (simp add: le_value_le_bytes sc_l_def)

text \<open>
  \<^verbatim>\<open>sc_check\<close> returns 0 exactly on the canonical scalars, those below \<open>l\<close>, and -1 on all others.
\<close>

theorem sc_check_decides:
  assumes "length s = 32"
  shows "sc_check s = Some (if le_value s < sc_l then 0 else - 1)"
  by (rule sc_check_correct) (rule assms)

theorem sc_check_decides_witness:
  "sc_check (le_bytes 32 (sc_l - 1)) = Some 0 \<and> sc_check (le_bytes 32 sc_l) = Some (- 1)"
  using sc_check_decides [of "le_bytes 32 (sc_l - 1)"] sc_check_decides [of "le_bytes 32 sc_l"]
  by (simp add: le_value_le_bytes sc_l_def)

text \<open>
  \<^verbatim>\<open>sc_invert\<close> computes the power \<open>l - 2\<close> modulo \<open>l\<close> by its chain of 24 multiplications and 14 runs of squarings, without overflow.
\<close>

theorem sc_invert_power:
  assumes "length s = 32"
  shows "sc_invert s = Some (le_bytes 32 (le_value s ^ nat (sc_l - 2) mod sc_l))"
  by (rule le_bytes_eqI, rule sc_invert_correct) (rule assms)

theorem sc_invert_power_witness: "sc_invert (le_bytes 32 1) = Some (le_bytes 32 1)"
  using sc_invert_power [of "le_bytes 32 1"] by (simp add: le_value_le_bytes sc_l_def)

end
