(* ===== verification/Primality.thy ===== *)
theory Primality
  imports Main
begin

text \<open>
  Prime numbers, Fermat's little theorem and the criterion of Pocklington, in the form in which the
  certificate of \<open>2\<^sup>2\<^sup>5\<^sup>5 - 19\<close> uses it: a number \<open>n = F R + 1\<close> with a prime \<open>F\<close> of at least a third of its
  length and an element of order \<open>F\<close> modulo \<open>n\<close>.
\<close>

section \<open>Primes\<close>

definition is_prime :: "nat \<Rightarrow> bool" where
  "is_prime p \<longleftrightarrow> 1 < p \<and> (\<forall>m. m dvd p \<longrightarrow> m = 1 \<or> m = p)"

lemma is_prime_gt_1: "is_prime p \<Longrightarrow> 1 < p"
  by (simp add: is_prime_def)

lemma is_prime_coprime: "is_prime p \<Longrightarrow> \<not> p dvd k \<Longrightarrow> coprime p k"
  by (metis is_prime_def coprime_iff_gcd_eq_1 gcd_dvd1 gcd_dvd2)

lemma is_prime_dvd_mult: "is_prime p \<Longrightarrow> p dvd a * b \<Longrightarrow> p dvd a \<or> p dvd b"
  using is_prime_coprime coprime_dvd_mult_right_iff by blast

lemma prime_divisor: "1 < n \<Longrightarrow> \<exists>p. is_prime p \<and> p dvd n"
proof (induction n rule: less_induct)
  case (less n)
  show ?case
  proof (cases "is_prime n")
    case False
    then obtain m where m: "m dvd n" "m \<noteq> 1" "m \<noteq> n" using less.prems by (auto simp: is_prime_def)
    then have "1 < m" "m < n" using less.prems
      by (metis dvd_0_left_iff less_one nat_neq_iff not_less_zero, metis dvd_imp_le nat_less_le less_trans zero_less_one less.prems)
    with less.IH m(1) show ?thesis by (meson dvd_trans)
  qed (auto intro: dvd_refl)
qed

lemma prime_dvd_choose:
  assumes "is_prime p" and "0 < k" and "k < p"
  shows "p dvd p choose k"
proof -
  have "k * (p choose k) = p * (p - 1 choose (k - 1))" by (rule times_binomial_minus1_eq [OF assms(2)])
  then have "p dvd k * (p choose k)" by simp
  moreover have "\<not> p dvd k" using assms(2,3) by (auto dest: dvd_imp_le)
  ultimately show ?thesis using is_prime_dvd_mult [OF assms(1)] by blast
qed

lemma freshman:
  fixes x :: nat
  assumes "is_prime p"
  shows "(x + 1) ^ p mod p = (x ^ p + 1) mod p"
proof -
  have p: "1 < p" using assms by (rule is_prime_gt_1)
  have "(x + 1) ^ p = (\<Sum>k\<le>p. (p choose k) * x ^ k)"
    using binomial_ring [of x 1 p] by simp
  also have "{..p} = insert 0 (insert p {0<..<p})" using p by auto
  also have "(\<Sum>k\<in>insert 0 (insert p {0<..<p}). (p choose k) * x ^ k) = 1 + x ^ p + (\<Sum>k\<in>{0<..<p}. (p choose k) * x ^ k)"
    using p by simp
  finally have "(x + 1) ^ p = x ^ p + 1 + (\<Sum>k\<in>{0<..<p}. (p choose k) * x ^ k)" by simp
  moreover have "p dvd (\<Sum>k\<in>{0<..<p}. (p choose k) * x ^ k)"
    using prime_dvd_choose [OF assms] by (intro dvd_sum) (simp add: dvd_mult2)
  ultimately show ?thesis by auto
qed

lemma fermat_nat: "is_prime p \<Longrightarrow> x ^ p mod p = x mod p" for x :: nat
proof (induction x)
  case 0
  then show ?case using is_prime_gt_1 [of p] by (simp add: power_0_left)
next
  case (Suc x)
  then show ?case using freshman [of p x] by (simp add: mod_Suc_eq) (metis mod_Suc_eq)
qed

lemma fermat:
  fixes x :: int
  assumes "is_prime p" and "\<not> int p dvd x"
  shows "x ^ (p - 1) mod int p = 1"
proof -
  define n where "n = nat (x mod int p)"
  have p: "1 < p" using assms(1) by (rule is_prime_gt_1)
  have n: "int n = x mod int p" using p by (simp add: n_def)
  have "int p dvd int n * (int n ^ (p - 1) - 1)"
  proof -
    have "int (n ^ p mod p) = int (n mod p)" using fermat_nat [OF assms(1)] by simp
    then have "int n ^ p mod int p = int n mod int p" by (simp add: zmod_int)
    then have "int p dvd int n ^ p - int n" by (simp add: mod_eq_dvd_iff)
    moreover have "int n ^ p = int n * int n ^ (p - 1)" using p by (metis power_minus_mult mult.commute zero_less_one less_trans)
    ultimately show ?thesis by (simp add: right_diff_distrib)
  qed
  moreover have "coprime (int p) (int n)"
  proof -
    have "\<not> p dvd n"
    proof
      assume "p dvd n"
      then have "int p dvd int n" by simp
      then have "int p dvd x" unfolding n by (simp add: dvd_mod_iff)
      with assms(2) show False ..
    qed
    then show ?thesis using is_prime_coprime [OF assms(1)] by simp
  qed
  ultimately have "int p dvd int n ^ (p - 1) - 1" by (simp add: coprime_dvd_mult_right_iff)
  then have "int n ^ (p - 1) mod int p = 1 mod int p" by (simp add: mod_eq_dvd_iff)
  then show ?thesis unfolding n using p by (simp add: power_mod)
qed


section \<open>The criterion\<close>

text \<open>An exponent coprime to the order acts injectively.\<close>

lemma power_one_coprime:
  fixes g :: int
  assumes "g ^ a mod m = 1 mod m" and "g ^ b mod m = 1 mod m" and "coprime a b" and "0 < a"
  shows "g mod m = 1 mod m"
proof -
  obtain x y where xy: "a * x = b * y + 1" using bezout_nat [of a b] assms(3,4) by auto
  have "g ^ (a * x) mod m = 1 mod m" "g ^ (b * y) mod m = 1 mod m"
    using assms(1,2) by (simp_all add: power_mult) (metis power_mod power_one)+
  then have "(g ^ (b * y) * g) mod m = 1 mod m" using xy by (simp add: mult.commute)
  then show ?thesis using \<open>g ^ (b * y) mod m = 1 mod m\<close> by (metis mod_mult_left_eq mult_1)
qed

lemma order_divides:
  assumes "is_prime F" and "is_prime d" and "int d dvd n"
    and "g ^ F mod n = 1" and "(g - 1) * y mod n = 1"
  shows "F dvd d - 1"
proof (rule ccontr)
  assume nd: "\<not> F dvd d - 1"
  have d: "\<not> int d dvd x" if "x mod int d = 1 mod int d" for x
  proof
    assume "int d dvd x"
    moreover have "int d dvd x - 1" using that by (simp only: mod_eq_dvd_iff)
    ultimately have "int d dvd 1" using dvd_diff [of "int d" x "x - 1"] by simp
    then show False using is_prime_gt_1 [OF assms(2)] by simp
  qed
  have down: "x mod int d = z mod int d" if "x mod n = z mod n" for x z
    using that assms(3) by (metis mod_mod_cancel)
  have n1: "1 mod n = 1" using assms(4) by (metis mod_mod_trivial)
  have g: "g ^ F mod int d = 1 mod int d" using down [of "g ^ F" 1] assms(4) n1 by simp
  have y: "(g - 1) * y mod int d = 1 mod int d" using down [of "(g - 1) * y" 1] assms(5) n1 by simp
  have "\<not> int d dvd g"
  proof
    assume "int d dvd g"
    moreover have "g dvd g ^ F" using is_prime_gt_1 [OF assms(1)] by (simp add: dvd_power)
    ultimately have "int d dvd g ^ F" by (rule dvd_trans)
    with d [OF g] show False ..
  qed
  from fermat [OF assms(2) this] have "g ^ (d - 1) mod int d = 1 mod int d" using is_prime_gt_1 [OF assms(2)] by simp
  moreover have "coprime F (d - 1)" by (rule is_prime_coprime [OF assms(1) nd])
  moreover have "0 < F" using is_prime_gt_1 [OF assms(1)] by simp
  ultimately have "g mod int d = 1 mod int d" using power_one_coprime [OF g] by blast
  then have "int d dvd g - 1" by (simp add: mod_eq_dvd_iff)
  then have "int d dvd (g - 1) * y" by simp
  with d [OF y] show False ..
qed

theorem pocklington:
  assumes F: "is_prime F" and n: "n = F * R + 1" and R: "R < F * F" "R div F + 1 < R mod F"
    and g: "g ^ F mod int n = 1" and y: "(g - 1) * y mod int n = 1"
  shows "is_prime n"
proof (rule ccontr)
  assume np: "\<not> is_prime n"
  have F1: "1 < F" by (rule is_prime_gt_1 [OF F])
  have "0 < R" using R(2) by (cases R) auto
  then have n1: "1 < n" using n F1 by simp
  from prime_divisor [OF n1] obtain d where d: "is_prime d" "d dvd n" by blast
  then obtain v where v: "n = d * v" by blast
  from order_divides [OF F d(1) _ g y] d(2) have "F dvd d - 1" by simp
  then obtain a where "d - 1 = F * a" by blast
  then have a: "d = a * F + 1" using is_prime_gt_1 [OF d(1)] by (simp add: mult.commute)
  have "v mod F = 1"
  proof -
    have "n mod F = 1" using n F1 by (simp only: mod_mult_self4) (simp add: mod_Suc)
    moreover have "n mod F = v mod F" unfolding v a by (simp add: distrib_right) (metis mod_mult_self3 add.commute mult.commute mult.assoc)
    ultimately show ?thesis by simp
  qed
  moreover define b where "b = v div F"
  ultimately have b: "v = b * F + 1" using div_mult_mod_eq [of v F] by simp
  have "a \<noteq> 0" using a is_prime_gt_1 [OF d(1)] by auto
  moreover have "b \<noteq> 0"
  proof
    assume "b = 0"
    then have "n = d" using v b by simp
    with np d(1) show False by simp
  qed
  ultimately have ab: "1 \<le> a" "1 \<le> b" by simp_all
  have "F * R = F * (a * b * F + (a + b))" using n v unfolding a b by (simp add: algebra_simps)
  then have Rab: "R = a * b * F + (a + b)" using F1 by simp
  have le: "a + b \<le> a * b + 1"
  proof -
    obtain a' b' where "a = Suc a'" "b = Suc b'" using ab by (metis Suc_le_D One_nat_def)
    then show ?thesis by simp
  qed
  show False
  proof (cases "a + b < F")
    case True
    then have "R div F = a * b" "R mod F = a + b" unfolding Rab by simp_all
    with R(2) le show False by simp
  next
    case False
    then have "F - 1 \<le> a * b" using le by simp
    then have "(F - 1) * F + F \<le> R" unfolding Rab using False by (intro add_mono mult_le_mono) simp_all
    then show False using R(1) F1 by (simp add: diff_mult_distrib)
  qed
qed

text \<open>Trial division, for the small prime at the bottom.\<close>

lemma is_prime_trial:
  assumes "1 < n" and "n < k * k" and "list_all (\<lambda>m. n mod m \<noteq> 0) [2..<k]"
  shows "is_prime n"
proof (rule ccontr)
  assume np: "\<not> is_prime n"
  obtain a b where ab: "n = a * b" "a \<noteq> 1" "b \<noteq> 1"
    using np assms(1) by (auto simp: is_prime_def elim!: dvdE)
  have no: "\<not> (2 \<le> m \<and> m < k)" if "m dvd n" for m
  proof
    assume "2 \<le> m \<and> m < k"
    then have "m \<in> set [2..<k]" by simp
    with assms(3) have "n mod m \<noteq> 0" by (auto simp: list_all_iff)
    with that show False by (simp add: dvd_eq_mod_eq_0)
  qed
  have "a \<noteq> 0" "b \<noteq> 0" using ab(1) assms(1) by (auto intro!: Nat.gr0I)
  then have "k \<le> a" "k \<le> b" using no [of a] no [of b] ab by auto
  then have "k * k \<le> n" unfolding ab(1) by (rule mult_le_mono)
  with assms(2) show False by simp
qed

end
