(* ===== verification/Octal.thy ===== *)
theory Octal
  imports Main
begin

text \<open>
  Arithmetic on long natural numbers by rewriting, in octal digits: \<open>o3 (o5 oz)\<close> is \<open>3 + 8 * 5\<close>. Every
  rule is an equation between numbers, so a result reached by rewriting with \<open>octal_simps\<close> is a theorem
  about \<open>+\<close> and \<open>*\<close>. The last section reduces numbers modulo \<open>2\<^sup>2\<^sup>5\<^sup>5 - 19\<close>: 255 bits are 85 digits.
\<close>

named_theorems octal_simps \<open>evaluation of octal numbers\<close>

section \<open>Digits\<close>

definition oz :: nat where "oz = 0"
definition o0 :: "nat \<Rightarrow> nat" where "o0 r = 8 * r"
definition o1 :: "nat \<Rightarrow> nat" where "o1 r = 1 + 8 * r"
definition o2 :: "nat \<Rightarrow> nat" where "o2 r = 2 + 8 * r"
definition o3 :: "nat \<Rightarrow> nat" where "o3 r = 3 + 8 * r"
definition o4 :: "nat \<Rightarrow> nat" where "o4 r = 4 + 8 * r"
definition o5 :: "nat \<Rightarrow> nat" where "o5 r = 5 + 8 * r"
definition o6 :: "nat \<Rightarrow> nat" where "o6 r = 6 + 8 * r"
definition o7 :: "nat \<Rightarrow> nat" where "o7 r = 7 + 8 * r"

lemmas digit_defs = oz_def o0_def o1_def o2_def o3_def o4_def o5_def o6_def o7_def

definition oadd :: "nat \<Rightarrow> nat \<Rightarrow> nat" where
  "oadd x y = x + y"

definition oaddc :: "nat \<Rightarrow> nat \<Rightarrow> nat" where
  "oaddc x y = x + y + 1"

lemma oadd_rules [octal_simps]:
    "oadd (o0 x) (o0 y) = o0 (oadd x y)" "oaddc (o0 x) (o0 y) = o1 (oadd x y)" "oadd (o0 x) (o1 y) = o1 (oadd x y)"
    "oaddc (o0 x) (o1 y) = o2 (oadd x y)" "oadd (o0 x) (o2 y) = o2 (oadd x y)" "oaddc (o0 x) (o2 y) = o3 (oadd x y)"
    "oadd (o0 x) (o3 y) = o3 (oadd x y)" "oaddc (o0 x) (o3 y) = o4 (oadd x y)" "oadd (o0 x) (o4 y) = o4 (oadd x y)"
    "oaddc (o0 x) (o4 y) = o5 (oadd x y)" "oadd (o0 x) (o5 y) = o5 (oadd x y)" "oaddc (o0 x) (o5 y) = o6 (oadd x y)"
    "oadd (o0 x) (o6 y) = o6 (oadd x y)" "oaddc (o0 x) (o6 y) = o7 (oadd x y)" "oadd (o0 x) (o7 y) = o7 (oadd x y)"
    "oaddc (o0 x) (o7 y) = o0 (oaddc x y)" "oadd (o1 x) (o0 y) = o1 (oadd x y)" "oaddc (o1 x) (o0 y) = o2 (oadd x y)"
    "oadd (o1 x) (o1 y) = o2 (oadd x y)" "oaddc (o1 x) (o1 y) = o3 (oadd x y)" "oadd (o1 x) (o2 y) = o3 (oadd x y)"
    "oaddc (o1 x) (o2 y) = o4 (oadd x y)" "oadd (o1 x) (o3 y) = o4 (oadd x y)" "oaddc (o1 x) (o3 y) = o5 (oadd x y)"
    "oadd (o1 x) (o4 y) = o5 (oadd x y)" "oaddc (o1 x) (o4 y) = o6 (oadd x y)" "oadd (o1 x) (o5 y) = o6 (oadd x y)"
    "oaddc (o1 x) (o5 y) = o7 (oadd x y)" "oadd (o1 x) (o6 y) = o7 (oadd x y)" "oaddc (o1 x) (o6 y) = o0 (oaddc x y)"
    "oadd (o1 x) (o7 y) = o0 (oaddc x y)" "oaddc (o1 x) (o7 y) = o1 (oaddc x y)" "oadd (o2 x) (o0 y) = o2 (oadd x y)"
    "oaddc (o2 x) (o0 y) = o3 (oadd x y)" "oadd (o2 x) (o1 y) = o3 (oadd x y)" "oaddc (o2 x) (o1 y) = o4 (oadd x y)"
    "oadd (o2 x) (o2 y) = o4 (oadd x y)" "oaddc (o2 x) (o2 y) = o5 (oadd x y)" "oadd (o2 x) (o3 y) = o5 (oadd x y)"
    "oaddc (o2 x) (o3 y) = o6 (oadd x y)" "oadd (o2 x) (o4 y) = o6 (oadd x y)" "oaddc (o2 x) (o4 y) = o7 (oadd x y)"
    "oadd (o2 x) (o5 y) = o7 (oadd x y)" "oaddc (o2 x) (o5 y) = o0 (oaddc x y)" "oadd (o2 x) (o6 y) = o0 (oaddc x y)"
    "oaddc (o2 x) (o6 y) = o1 (oaddc x y)" "oadd (o2 x) (o7 y) = o1 (oaddc x y)" "oaddc (o2 x) (o7 y) = o2 (oaddc x y)"
    "oadd (o3 x) (o0 y) = o3 (oadd x y)" "oaddc (o3 x) (o0 y) = o4 (oadd x y)" "oadd (o3 x) (o1 y) = o4 (oadd x y)"
    "oaddc (o3 x) (o1 y) = o5 (oadd x y)" "oadd (o3 x) (o2 y) = o5 (oadd x y)" "oaddc (o3 x) (o2 y) = o6 (oadd x y)"
    "oadd (o3 x) (o3 y) = o6 (oadd x y)" "oaddc (o3 x) (o3 y) = o7 (oadd x y)" "oadd (o3 x) (o4 y) = o7 (oadd x y)"
    "oaddc (o3 x) (o4 y) = o0 (oaddc x y)" "oadd (o3 x) (o5 y) = o0 (oaddc x y)" "oaddc (o3 x) (o5 y) = o1 (oaddc x y)"
    "oadd (o3 x) (o6 y) = o1 (oaddc x y)" "oaddc (o3 x) (o6 y) = o2 (oaddc x y)" "oadd (o3 x) (o7 y) = o2 (oaddc x y)"
    "oaddc (o3 x) (o7 y) = o3 (oaddc x y)" "oadd (o4 x) (o0 y) = o4 (oadd x y)" "oaddc (o4 x) (o0 y) = o5 (oadd x y)"
    "oadd (o4 x) (o1 y) = o5 (oadd x y)" "oaddc (o4 x) (o1 y) = o6 (oadd x y)" "oadd (o4 x) (o2 y) = o6 (oadd x y)"
    "oaddc (o4 x) (o2 y) = o7 (oadd x y)" "oadd (o4 x) (o3 y) = o7 (oadd x y)" "oaddc (o4 x) (o3 y) = o0 (oaddc x y)"
    "oadd (o4 x) (o4 y) = o0 (oaddc x y)" "oaddc (o4 x) (o4 y) = o1 (oaddc x y)" "oadd (o4 x) (o5 y) = o1 (oaddc x y)"
    "oaddc (o4 x) (o5 y) = o2 (oaddc x y)" "oadd (o4 x) (o6 y) = o2 (oaddc x y)" "oaddc (o4 x) (o6 y) = o3 (oaddc x y)"
    "oadd (o4 x) (o7 y) = o3 (oaddc x y)" "oaddc (o4 x) (o7 y) = o4 (oaddc x y)" "oadd (o5 x) (o0 y) = o5 (oadd x y)"
    "oaddc (o5 x) (o0 y) = o6 (oadd x y)" "oadd (o5 x) (o1 y) = o6 (oadd x y)" "oaddc (o5 x) (o1 y) = o7 (oadd x y)"
    "oadd (o5 x) (o2 y) = o7 (oadd x y)" "oaddc (o5 x) (o2 y) = o0 (oaddc x y)" "oadd (o5 x) (o3 y) = o0 (oaddc x y)"
    "oaddc (o5 x) (o3 y) = o1 (oaddc x y)" "oadd (o5 x) (o4 y) = o1 (oaddc x y)" "oaddc (o5 x) (o4 y) = o2 (oaddc x y)"
    "oadd (o5 x) (o5 y) = o2 (oaddc x y)" "oaddc (o5 x) (o5 y) = o3 (oaddc x y)" "oadd (o5 x) (o6 y) = o3 (oaddc x y)"
    "oaddc (o5 x) (o6 y) = o4 (oaddc x y)" "oadd (o5 x) (o7 y) = o4 (oaddc x y)" "oaddc (o5 x) (o7 y) = o5 (oaddc x y)"
    "oadd (o6 x) (o0 y) = o6 (oadd x y)" "oaddc (o6 x) (o0 y) = o7 (oadd x y)" "oadd (o6 x) (o1 y) = o7 (oadd x y)"
    "oaddc (o6 x) (o1 y) = o0 (oaddc x y)" "oadd (o6 x) (o2 y) = o0 (oaddc x y)" "oaddc (o6 x) (o2 y) = o1 (oaddc x y)"
    "oadd (o6 x) (o3 y) = o1 (oaddc x y)" "oaddc (o6 x) (o3 y) = o2 (oaddc x y)" "oadd (o6 x) (o4 y) = o2 (oaddc x y)"
    "oaddc (o6 x) (o4 y) = o3 (oaddc x y)" "oadd (o6 x) (o5 y) = o3 (oaddc x y)" "oaddc (o6 x) (o5 y) = o4 (oaddc x y)"
    "oadd (o6 x) (o6 y) = o4 (oaddc x y)" "oaddc (o6 x) (o6 y) = o5 (oaddc x y)" "oadd (o6 x) (o7 y) = o5 (oaddc x y)"
    "oaddc (o6 x) (o7 y) = o6 (oaddc x y)" "oadd (o7 x) (o0 y) = o7 (oadd x y)" "oaddc (o7 x) (o0 y) = o0 (oaddc x y)"
    "oadd (o7 x) (o1 y) = o0 (oaddc x y)" "oaddc (o7 x) (o1 y) = o1 (oaddc x y)" "oadd (o7 x) (o2 y) = o1 (oaddc x y)"
    "oaddc (o7 x) (o2 y) = o2 (oaddc x y)" "oadd (o7 x) (o3 y) = o2 (oaddc x y)" "oaddc (o7 x) (o3 y) = o3 (oaddc x y)"
    "oadd (o7 x) (o4 y) = o3 (oaddc x y)" "oaddc (o7 x) (o4 y) = o4 (oaddc x y)" "oadd (o7 x) (o5 y) = o4 (oaddc x y)"
    "oaddc (o7 x) (o5 y) = o5 (oaddc x y)" "oadd (o7 x) (o6 y) = o5 (oaddc x y)" "oaddc (o7 x) (o6 y) = o6 (oaddc x y)"
    "oadd (o7 x) (o7 y) = o6 (oaddc x y)" "oaddc (o7 x) (o7 y) = o7 (oaddc x y)" "oadd oz (o0 y) = o0 y"
    "oadd (o0 y) oz = o0 y" "oaddc oz (o0 y) = o1 y" "oaddc (o0 y) oz = o1 y"
    "oadd oz (o1 y) = o1 y" "oadd (o1 y) oz = o1 y" "oaddc oz (o1 y) = o2 y"
    "oaddc (o1 y) oz = o2 y" "oadd oz (o2 y) = o2 y" "oadd (o2 y) oz = o2 y"
    "oaddc oz (o2 y) = o3 y" "oaddc (o2 y) oz = o3 y" "oadd oz (o3 y) = o3 y"
    "oadd (o3 y) oz = o3 y" "oaddc oz (o3 y) = o4 y" "oaddc (o3 y) oz = o4 y"
    "oadd oz (o4 y) = o4 y" "oadd (o4 y) oz = o4 y" "oaddc oz (o4 y) = o5 y"
    "oaddc (o4 y) oz = o5 y" "oadd oz (o5 y) = o5 y" "oadd (o5 y) oz = o5 y"
    "oaddc oz (o5 y) = o6 y" "oaddc (o5 y) oz = o6 y" "oadd oz (o6 y) = o6 y"
    "oadd (o6 y) oz = o6 y" "oaddc oz (o6 y) = o7 y" "oaddc (o6 y) oz = o7 y"
    "oadd oz (o7 y) = o7 y" "oadd (o7 y) oz = o7 y" "oaddc oz (o7 y) = o0 (oaddc oz y)"
    "oaddc (o7 y) oz = o0 (oaddc y oz)" "oadd oz oz = oz" "oaddc oz oz = o1 oz"
  by (simp_all add: oadd_def oaddc_def digit_defs)

text \<open>Comparing digits from the lowest one.\<close>

lemma digit_mod: "o0 x mod 8 = 0" "o0 x div 8 = x" "o1 x mod 8 = 1" "o1 x div 8 = x" "o2 x mod 8 = 2" "o2 x div 8 = x" "o3 x mod 8 = 3" "o3 x div 8 = x" "o4 x mod 8 = 4" "o4 x div 8 = x" "o5 x mod 8 = 5" "o5 x div 8 = x" "o6 x mod 8 = 6" "o6 x div 8 = x" "o7 x mod 8 = 7" "o7 x div 8 = x"
  by (simp_all add: digit_defs, presburger+)

lemma digit_eq_rules [octal_simps]:
    "(o0 x = o0 y) = (x = y)" "(o0 x = o1 y) = False" "(o0 x = o2 y) = False" "(o0 x = o3 y) = False"
    "(o0 x = o4 y) = False" "(o0 x = o5 y) = False" "(o0 x = o6 y) = False" "(o0 x = o7 y) = False"
    "(o1 x = o0 y) = False" "(o1 x = o1 y) = (x = y)" "(o1 x = o2 y) = False" "(o1 x = o3 y) = False"
    "(o1 x = o4 y) = False" "(o1 x = o5 y) = False" "(o1 x = o6 y) = False" "(o1 x = o7 y) = False"
    "(o2 x = o0 y) = False" "(o2 x = o1 y) = False" "(o2 x = o2 y) = (x = y)" "(o2 x = o3 y) = False"
    "(o2 x = o4 y) = False" "(o2 x = o5 y) = False" "(o2 x = o6 y) = False" "(o2 x = o7 y) = False"
    "(o3 x = o0 y) = False" "(o3 x = o1 y) = False" "(o3 x = o2 y) = False" "(o3 x = o3 y) = (x = y)"
    "(o3 x = o4 y) = False" "(o3 x = o5 y) = False" "(o3 x = o6 y) = False" "(o3 x = o7 y) = False"
    "(o4 x = o0 y) = False" "(o4 x = o1 y) = False" "(o4 x = o2 y) = False" "(o4 x = o3 y) = False"
    "(o4 x = o4 y) = (x = y)" "(o4 x = o5 y) = False" "(o4 x = o6 y) = False" "(o4 x = o7 y) = False"
    "(o5 x = o0 y) = False" "(o5 x = o1 y) = False" "(o5 x = o2 y) = False" "(o5 x = o3 y) = False"
    "(o5 x = o4 y) = False" "(o5 x = o5 y) = (x = y)" "(o5 x = o6 y) = False" "(o5 x = o7 y) = False"
    "(o6 x = o0 y) = False" "(o6 x = o1 y) = False" "(o6 x = o2 y) = False" "(o6 x = o3 y) = False"
    "(o6 x = o4 y) = False" "(o6 x = o5 y) = False" "(o6 x = o6 y) = (x = y)" "(o6 x = o7 y) = False"
    "(o7 x = o0 y) = False" "(o7 x = o1 y) = False" "(o7 x = o2 y) = False" "(o7 x = o3 y) = False"
    "(o7 x = o4 y) = False" "(o7 x = o5 y) = False" "(o7 x = o6 y) = False" "(o7 x = o7 y) = (x = y)"
    "(oz = o0 y) = (oz = y)" "(o0 x = oz) = (x = oz)" "(oz = o1 y) = False" "(o1 x = oz) = False"
    "(oz = o2 y) = False" "(o2 x = oz) = False" "(oz = o3 y) = False" "(o3 x = oz) = False"
    "(oz = o4 y) = False" "(o4 x = oz) = False" "(oz = o5 y) = False" "(o5 x = oz) = False"
    "(oz = o6 y) = False" "(o6 x = oz) = False" "(oz = o7 y) = False" "(o7 x = oz) = False"
    "(oz = oz) = True"
  by (simp_all add: digit_defs) presburger+

text \<open>Reading a numeral.\<close>

fun onum :: "num \<Rightarrow> nat" where
  "onum num.One = o1 oz"
| "onum (num.Bit0 num.One) = o2 oz"
| "onum (num.Bit1 num.One) = o3 oz"
| "onum (num.Bit0 (num.Bit0 num.One)) = o4 oz"
| "onum (num.Bit1 (num.Bit0 num.One)) = o5 oz"
| "onum (num.Bit0 (num.Bit1 num.One)) = o6 oz"
| "onum (num.Bit1 (num.Bit1 num.One)) = o7 oz"
| "onum (num.Bit0 (num.Bit0 (num.Bit0 n))) = o0 (onum n)"
| "onum (num.Bit1 (num.Bit0 (num.Bit0 n))) = o1 (onum n)"
| "onum (num.Bit0 (num.Bit1 (num.Bit0 n))) = o2 (onum n)"
| "onum (num.Bit1 (num.Bit1 (num.Bit0 n))) = o3 (onum n)"
| "onum (num.Bit0 (num.Bit0 (num.Bit1 n))) = o4 (onum n)"
| "onum (num.Bit1 (num.Bit0 (num.Bit1 n))) = o5 (onum n)"
| "onum (num.Bit0 (num.Bit1 (num.Bit1 n))) = o6 (onum n)"
| "onum (num.Bit1 (num.Bit1 (num.Bit1 n))) = o7 (onum n)"

lemma onum_numeral: "onum n = numeral n"
  by (induction n rule: onum.induct) (simp_all add: digit_defs numeral.simps num_eq_iff nat_of_num_add)

declare onum.simps [octal_simps]


section \<open>Products\<close>

text \<open>The multiples of the first factor are at hand for the digits of the second one.\<close>

definition omultiple :: "nat \<Rightarrow> nat \<Rightarrow> nat \<Rightarrow> nat \<Rightarrow> nat \<Rightarrow> nat \<Rightarrow> nat \<Rightarrow> nat \<Rightarrow> nat" where
  "omultiple m1 m2 m3 m4 m5 m6 m7 d = (0 # [m1, m2, m3, m4, m5, m6, m7]) ! d"

function omulw :: "nat \<Rightarrow> nat \<Rightarrow> nat \<Rightarrow> nat \<Rightarrow> nat \<Rightarrow> nat \<Rightarrow> nat \<Rightarrow> nat \<Rightarrow> nat" where
  "omulw m1 m2 m3 m4 m5 m6 m7 y = (if y = 0 then 0 else omultiple m1 m2 m3 m4 m5 m6 m7 (y mod 8) + 8 * omulw m1 m2 m3 m4 m5 m6 m7 (y div 8))"
  by pat_completeness auto
termination by (relation "measure (\<lambda>(m1, m2, m3, m4, m5, m6, m7, y). y)") auto

declare omulw.simps [simp del]

lemma omulw_rules [octal_simps]:
    "omulw m1 m2 m3 m4 m5 m6 m7 oz = oz"
    "omulw m1 m2 m3 m4 m5 m6 m7 (o0 y) = o0 (omulw m1 m2 m3 m4 m5 m6 m7 y)"
    "omulw m1 m2 m3 m4 m5 m6 m7 (o1 y) = oadd m1 (o0 (omulw m1 m2 m3 m4 m5 m6 m7 y))"
    "omulw m1 m2 m3 m4 m5 m6 m7 (o2 y) = oadd m2 (o0 (omulw m1 m2 m3 m4 m5 m6 m7 y))"
    "omulw m1 m2 m3 m4 m5 m6 m7 (o3 y) = oadd m3 (o0 (omulw m1 m2 m3 m4 m5 m6 m7 y))"
    "omulw m1 m2 m3 m4 m5 m6 m7 (o4 y) = oadd m4 (o0 (omulw m1 m2 m3 m4 m5 m6 m7 y))"
    "omulw m1 m2 m3 m4 m5 m6 m7 (o5 y) = oadd m5 (o0 (omulw m1 m2 m3 m4 m5 m6 m7 y))"
    "omulw m1 m2 m3 m4 m5 m6 m7 (o6 y) = oadd m6 (o0 (omulw m1 m2 m3 m4 m5 m6 m7 y))"
    "omulw m1 m2 m3 m4 m5 m6 m7 (o7 y) = oadd m7 (o0 (omulw m1 m2 m3 m4 m5 m6 m7 y))"
  unfolding omulw.simps [of _ _ _ _ _ _ _ oz] omulw.simps [of _ _ _ _ _ _ _ "o0 y"] omulw.simps [of _ _ _ _ _ _ _ "o1 y"] omulw.simps [of _ _ _ _ _ _ _ "o2 y"] omulw.simps [of _ _ _ _ _ _ _ "o3 y"] omulw.simps [of _ _ _ _ _ _ _ "o4 y"] omulw.simps [of _ _ _ _ _ _ _ "o5 y"] omulw.simps [of _ _ _ _ _ _ _ "o6 y"] omulw.simps [of _ _ _ _ _ _ _ "o7 y"] digit_mod
  by (simp_all add: oadd_def omultiple_def digit_defs omulw.simps [of _ _ _ _ _ _ _ 0])

definition omul :: "nat \<Rightarrow> nat \<Rightarrow> nat" where
  "omul x y = x * y"

lemma omulw_val: "omulw x (2 * x) (3 * x) (4 * x) (5 * x) (6 * x) (7 * x) y = x * y"
proof (induction y rule: less_induct)
  case (less y)
  show ?case
  proof (cases "y = 0")
    case False
    have d: "y mod 8 < 8" by simp
    have m: "omultiple x (2 * x) (3 * x) (4 * x) (5 * x) (6 * x) (7 * x) k = k * x" if "k < 8" for k
      using that unfolding omultiple_def less_Suc_eq numeral_nat by auto
    have "omulw x (2 * x) (3 * x) (4 * x) (5 * x) (6 * x) (7 * x) y = (y mod 8) * x + 8 * (x * (y div 8))"
      using False less.IH [of "y div 8"] by (subst omulw.simps) (simp add: m [OF d])
    also have "\<dots> = x * (y mod 8 + 8 * (y div 8))" by (simp only: distrib_left mult.commute mult.left_commute)
    finally show ?thesis by (simp only: mod_mult_div_eq)
  qed (simp add: omulw.simps)
qed

definition omul4 :: "nat \<Rightarrow> nat \<Rightarrow> nat \<Rightarrow> nat \<Rightarrow> nat \<Rightarrow> nat" where
  "omul4 x x2 x3 x4 y = omulw x x2 x3 x4 (oadd x4 x) (oadd x3 x3) (oadd x4 x3) y"

definition omul2 :: "nat \<Rightarrow> nat \<Rightarrow> nat \<Rightarrow> nat" where
  "omul2 x x2 y = omul4 x x2 (oadd x2 x) (oadd x2 x2) y"

lemma omul_rule: "omul x y = omul2 x (oadd x x) y"
proof -
  have "x + x = 2 * x" "2 * x + x = 3 * x" "2 * x + 2 * x = 4 * x" "4 * x + x = 5 * x" "3 * x + 3 * x = 6 * x"
    "4 * x + 3 * x = 7 * x" by simp_all
  then show ?thesis by (simp only: omul_def omul2_def omul4_def oadd_def omulw_val)
qed

declare omul_rule [octal_simps] omul2_def [octal_simps] omul4_def [octal_simps]


section \<open>Residues modulo \<open>2\<^sup>2\<^sup>5\<^sup>5 - 19\<close>\<close>

definition olow :: "nat \<Rightarrow> nat \<Rightarrow> nat" where
  "olow n x = x mod 8 ^ n"

definition ohigh :: "nat \<Rightarrow> nat \<Rightarrow> nat" where
  "ohigh n x = x div 8 ^ n"

definition ocompl :: "nat \<Rightarrow> nat \<Rightarrow> nat" where
  "ocompl n x = (8 ^ n - 1) - x mod 8 ^ n"

lemma mod_digit: "k < 8 \<Longrightarrow> (k + 8 * x) mod (8 * m) = k + 8 * (x mod m)" "(k :: nat) < 8 \<Longrightarrow> (k + 8 * x) div (8 * m) = x div m"
  by (simp_all add: mod_mult2_eq div_mult2_eq)

lemma compl_digit: "k < 8 \<Longrightarrow> 8 * m - 1 - (k + 8 * (x mod m)) = (7 - k) + 8 * ((m - 1) - x mod m)" if "0 < (m :: nat)"
  using mod_less_divisor [OF that, of x] by linarith

lemma cut_rules [octal_simps]:
  "olow 0 x = oz" "olow (Suc n) oz = oz" "ohigh 0 x = x" "ohigh (Suc n) oz = oz" "ocompl 0 x = oz"
  "olow (Suc n) (o0 x) = o0 (olow n x)" "olow (Suc n) (o1 x) = o1 (olow n x)" "olow (Suc n) (o2 x) = o2 (olow n x)"
    "olow (Suc n) (o3 x) = o3 (olow n x)" "olow (Suc n) (o4 x) = o4 (olow n x)" "olow (Suc n) (o5 x) = o5 (olow n x)"
    "olow (Suc n) (o6 x) = o6 (olow n x)" "olow (Suc n) (o7 x) = o7 (olow n x)"
  "ohigh (Suc n) (o0 x) = ohigh n x" "ohigh (Suc n) (o1 x) = ohigh n x" "ohigh (Suc n) (o2 x) = ohigh n x"
    "ohigh (Suc n) (o3 x) = ohigh n x" "ohigh (Suc n) (o4 x) = ohigh n x" "ohigh (Suc n) (o5 x) = ohigh n x"
    "ohigh (Suc n) (o6 x) = ohigh n x" "ohigh (Suc n) (o7 x) = ohigh n x"
  "ocompl (Suc n) (o0 x) = o7 (ocompl n x)" "ocompl (Suc n) (o1 x) = o6 (ocompl n x)" "ocompl (Suc n) (o2 x) = o5 (ocompl n x)"
    "ocompl (Suc n) (o3 x) = o4 (ocompl n x)" "ocompl (Suc n) (o4 x) = o3 (ocompl n x)" "ocompl (Suc n) (o5 x) = o2 (ocompl n x)"
    "ocompl (Suc n) (o6 x) = o1 (ocompl n x)" "ocompl (Suc n) (o7 x) = o0 (ocompl n x)"
  "ocompl (Suc n) oz = o7 (ocompl n oz)"
proof -
  show "olow 0 x = oz" "olow (Suc n) oz = oz" "ohigh 0 x = x" "ohigh (Suc n) oz = oz" "ocompl 0 x = oz"
    by (simp_all add: olow_def ohigh_def ocompl_def digit_defs)
  have l: "olow (Suc n) (k + 8 * x) = k + 8 * olow n x" and h: "ohigh (Suc n) (k + 8 * x) = ohigh n x" if "k < 8" for k
    using that by (simp_all add: olow_def ohigh_def mod_digit)
  show "olow (Suc n) (o0 x) = o0 (olow n x)" "olow (Suc n) (o1 x) = o1 (olow n x)" "olow (Suc n) (o2 x) = o2 (olow n x)"
    "olow (Suc n) (o3 x) = o3 (olow n x)" "olow (Suc n) (o4 x) = o4 (olow n x)" "olow (Suc n) (o5 x) = o5 (olow n x)"
    "olow (Suc n) (o6 x) = o6 (olow n x)" "olow (Suc n) (o7 x) = o7 (olow n x)"
    using l [of 0] l [of 1] l [of 2] l [of 3] l [of 4] l [of 5] l [of 6] l [of 7] by (simp_all add: digit_defs)
  show "ohigh (Suc n) (o0 x) = ohigh n x" "ohigh (Suc n) (o1 x) = ohigh n x" "ohigh (Suc n) (o2 x) = ohigh n x"
    "ohigh (Suc n) (o3 x) = ohigh n x" "ohigh (Suc n) (o4 x) = ohigh n x" "ohigh (Suc n) (o5 x) = ohigh n x"
    "ohigh (Suc n) (o6 x) = ohigh n x" "ohigh (Suc n) (o7 x) = ohigh n x"
    using h [of 0] h [of 1] h [of 2] h [of 3] h [of 4] h [of 5] h [of 6] h [of 7] by (simp_all add: digit_defs)
  have c: "ocompl (Suc n) (k + 8 * x) = (7 - k) + 8 * ocompl n x" if "k < 8" for k
    using compl_digit [of "8 ^ n" k x] that by (simp add: ocompl_def mod_digit)
  show "ocompl (Suc n) (o0 x) = o7 (ocompl n x)" "ocompl (Suc n) (o1 x) = o6 (ocompl n x)" "ocompl (Suc n) (o2 x) = o5 (ocompl n x)"
    "ocompl (Suc n) (o3 x) = o4 (ocompl n x)" "ocompl (Suc n) (o4 x) = o3 (ocompl n x)" "ocompl (Suc n) (o5 x) = o2 (ocompl n x)"
    "ocompl (Suc n) (o6 x) = o1 (ocompl n x)" "ocompl (Suc n) (o7 x) = o0 (ocompl n x)"
    using c [of 0] c [of 1] c [of 2] c [of 3] c [of 4] c [of 5] c [of 6] c [of 7] by (simp_all add: digit_defs)
  show "ocompl (Suc n) oz = o7 (ocompl n oz)" using compl_digit [of "8 ^ n" 0 0] by (simp add: ocompl_def digit_defs)
qed

definition t85 :: nat where "t85 = 85"
definition t86 :: nat where "t86 = 86"

lemma t85_Suc [octal_simps]:
  "t85 = Suc (Suc (Suc (Suc (Suc (Suc (Suc (Suc (Suc (Suc (Suc (Suc (Suc (Suc (Suc (Suc (Suc (Suc (Suc (Suc (Suc (Suc (Suc (Suc (Suc (Suc (Suc (Suc (Suc (Suc (Suc (Suc (Suc (Suc (Suc (Suc (Suc (Suc (Suc (Suc (Suc (Suc (Suc (Suc (Suc (Suc (Suc (Suc (Suc (Suc (Suc (Suc (Suc (Suc (Suc (Suc (Suc (Suc (Suc (Suc (Suc (Suc (Suc (Suc (Suc (Suc (Suc (Suc (Suc (Suc (Suc (Suc (Suc (Suc (Suc (Suc (Suc (Suc (Suc (Suc (Suc (Suc (Suc (Suc (Suc (0)))))))))))))))))))))))))))))))))))))))))))))))))))))))))))))))))))))))))))))))))))))"
  "t86 = Suc (Suc (Suc (Suc (Suc (Suc (Suc (Suc (Suc (Suc (Suc (Suc (Suc (Suc (Suc (Suc (Suc (Suc (Suc (Suc (Suc (Suc (Suc (Suc (Suc (Suc (Suc (Suc (Suc (Suc (Suc (Suc (Suc (Suc (Suc (Suc (Suc (Suc (Suc (Suc (Suc (Suc (Suc (Suc (Suc (Suc (Suc (Suc (Suc (Suc (Suc (Suc (Suc (Suc (Suc (Suc (Suc (Suc (Suc (Suc (Suc (Suc (Suc (Suc (Suc (Suc (Suc (Suc (Suc (Suc (Suc (Suc (Suc (Suc (Suc (Suc (Suc (Suc (Suc (Suc (Suc (Suc (Suc (Suc (Suc (Suc (0))))))))))))))))))))))))))))))))))))))))))))))))))))))))))))))))))))))))))))))))))))))"
  by (simp_all add: t85_def t86_def)

lemma octal_numeral [octal_simps]: "numeral n = onum n"
  by (simp add: onum_numeral)

text \<open>The part above bit 255 is folded back with the factor 19.\<close>

definition o19a :: "nat \<Rightarrow> nat \<Rightarrow> nat" where
  "o19a x x2 = oadd (oadd x x2) (o0 x2)"

definition o19 :: "nat \<Rightarrow> nat" where
  "o19 x = o19a x (oadd x x)"

definition ofold :: "nat \<Rightarrow> nat" where
  "ofold x = oadd (olow t85 x) (o19 (ohigh t85 x))"

definition ored :: "nat \<Rightarrow> nat" where
  "ored x = ofold (ofold x)"

text \<open>A difference, for a subtrahend of at most 86 digits: \<open>8\<^sup>8\<^sup>6 - 1\<close> is 151 modulo the prime.\<close>

definition oprime :: nat where
  "oprime = 2 ^ 255 - 19"

lemma oprime_numeral [octal_simps]:
  "oprime = 57896044618658097711785492504343953926634992332820282019728792003956564819949"
  by (simp add: oprime_def)

definition osub :: "nat \<Rightarrow> nat \<Rightarrow> nat" where
  "osub x y = oadd x (oadd (ocompl t86 y) 57896044618658097711785492504343953926634992332820282019728792003956564819798)"

text \<open>Equal reduced numbers, and a reduced number that is not zero.\<close>

definition oeq :: "nat \<Rightarrow> nat \<Rightarrow> bool" where
  "oeq x y \<longleftrightarrow> x = y \<or> oadd x oprime = y \<or> x = oadd y oprime"

definition ononzero :: "nat \<Rightarrow> bool" where
  "ononzero x \<longleftrightarrow> \<not> (oz = x) \<and> \<not> (oprime = x) \<and> ohigh t85 x = oz"

declare o19a_def [octal_simps] o19_def [octal_simps] ofold_def [octal_simps] ored_def [octal_simps]
  osub_def [octal_simps] oeq_def [octal_simps] ononzero_def [octal_simps] simp_thms [octal_simps]

end
