(* ===== verification/Prime_Check.thy ===== *)
theory Prime_Check
  imports Primality Octal
begin

text \<open>
  Modular powers of long numbers by rewriting, with the arithmetic of \<open>Octal\<close>. A reduction may be any function
  that keeps the residue, stated by the locale \<open>reduction\<close>; two are given, for the modulus \<open>2\<^sup>2\<^sup>5\<^sup>5 - 19\<close> and
  for any other one.
\<close>

section \<open>Reductions\<close>

locale reduction =
  fixes red :: "nat \<Rightarrow> nat option" and n :: nat
  assumes red_mod: "red x = Some y \<Longrightarrow> y mod n = x mod n"

definition red19 :: "nat \<Rightarrow> nat option" where
  "red19 x = Some (ored x)"

lemma ofold_mod: "ofold x mod oprime = x mod oprime"
proof -
  have "x = ofold x + oprime * ohigh t85 x"
  proof -
    have p: "8 ^ 85 = oprime + 19" by (simp add: oprime_def)
    have "x = olow t85 x + (oprime + 19) * ohigh t85 x"
      unfolding p [symmetric] by (simp add: olow_def ohigh_def t85_def)
    then show ?thesis by (simp add: ofold_def o19_def o19a_def oadd_def o0_def algebra_simps)
  qed
  then show ?thesis by (metis mod_mult_self2)
qed

interpretation red19: reduction red19 oprime
  by unfold_locales (auto simp: red19_def ored_def ofold_mod)

text \<open>
  For any \<open>n\<close>: a quotient \<open>q\<close> is estimated with the reciprocal \<open>mu\<close> of \<open>n\<close>; it is right if adding \<open>q\<close> times
  the complement of \<open>n\<close> leaves \<open>q\<close> above digit \<open>w\<close>, and then the part below is the remainder.
\<close>

definition red_check :: "nat \<Rightarrow> nat \<Rightarrow> nat \<Rightarrow> nat option" where
  "red_check w q s = (if ohigh w s = q then Some (olow w s) else None)"

definition red_quot :: "nat \<Rightarrow> nat \<Rightarrow> nat \<Rightarrow> nat \<Rightarrow> nat option" where
  "red_quot w n' x q = red_check w q (oadd x (omul q n'))"

definition red_any :: "nat \<Rightarrow> nat \<Rightarrow> nat \<Rightarrow> nat \<Rightarrow> nat \<Rightarrow> nat \<Rightarrow> nat option" where
  "red_any w n' a b mu x = red_quot w n' x (ohigh b (omul (ohigh a x) mu))"

lemma red_any_reduction:
  assumes "n' + n = 8 ^ w"
  shows "reduction (red_any w n' a b mu) n"
proof
  fix x y
  assume r: "red_any w n' a b mu x = Some y"
  define q where "q = ohigh b (omul (ohigh a x) mu)"
  let ?s = "x + q * n'"
  from r have y: "ohigh w ?s = q" "y = olow w ?s"
    by (auto simp: q_def red_any_def red_quot_def red_check_def oadd_def omul_def split: if_splits)
  have "?s = y + 8 ^ w * q" using y by (simp add: olow_def ohigh_def) (metis mod_mult_div_eq)
  then have "x + q * n' = y + (n' + n) * q" by (simp only: assms)
  then have "x = y + n * q" by (simp add: algebra_simps)
  then show "y mod n = x mod n" by simp
qed


text \<open>The number of digits to cut at, in unary.\<close>

fun tdouble :: "nat \<Rightarrow> nat" where
  "tdouble 0 = 0"
| "tdouble (Suc k) = Suc (Suc (tdouble k))"

fun tnum :: "num \<Rightarrow> nat" where
  "tnum num.One = Suc 0"
| "tnum (num.Bit0 n) = tdouble (tnum n)"
| "tnum (num.Bit1 n) = Suc (tdouble (tnum n))"

definition cut_at :: "int \<Rightarrow> nat" where
  "cut_at x = nat x"

lemma cut_at_numeral: "cut_at (numeral n) = tnum n"
proof -
  have d: "tdouble k = 2 * k" for k by (induction k) simp_all
  have "tnum n = numeral n" by (induction n) (simp_all add: d numeral_Bit0 numeral_Bit1)
  then show ?thesis by (simp add: cut_at_def)
qed


section \<open>Powers\<close>

text \<open>Digits of an exponent below its leading one, the highest first.\<close>

fun digits_of_num :: "num \<Rightarrow> bool list \<Rightarrow> bool list" where
  "digits_of_num num.One bs = bs"
| "digits_of_num (num.Bit0 n) bs = digits_of_num n (False # bs)"
| "digits_of_num (num.Bit1 n) bs = digits_of_num n (True # bs)"

definition digits_of :: "int \<Rightarrow> bool list" where
  "digits_of x = digits_of_num (num_of_nat (nat x)) []"

lemma digits_of_numeral: "digits_of (numeral n) = digits_of_num n []"
  by (simp add: digits_of_def num_of_nat_numeral_eq)

text \<open>Squarings and multiplications by \<open>g\<close> along the digits of an exponent.\<close>

fun pow_run :: "(nat \<Rightarrow> nat option) \<Rightarrow> nat \<Rightarrow> bool list \<Rightarrow> nat option \<Rightarrow> nat option"
  and pow_digit :: "(nat \<Rightarrow> nat option) \<Rightarrow> nat \<Rightarrow> bool \<Rightarrow> bool list \<Rightarrow> nat option \<Rightarrow> nat option" where
  "pow_run red g bs None = None"
| "pow_run red g [] (Some x) = Some x"
| "pow_run red g (b # bs) (Some x) = pow_digit red g b bs (red (omul x x))"
| "pow_digit red g b bs None = None"
| "pow_digit red g True bs (Some x) = pow_run red g bs (red (omul g x))"
| "pow_digit red g False bs (Some x) = pow_run red g bs (Some x)"

text \<open>The result is compared with a given number.\<close>

fun is_number :: "nat option \<Rightarrow> nat \<Rightarrow> bool" where
  "is_number None y = False"
| "is_number (Some x) y = (x = y)"

lemma is_numberD: "is_number m y \<Longrightarrow> m = Some y"
  by (cases m) auto

fun exponent :: "nat \<Rightarrow> bool list \<Rightarrow> nat" where
  "exponent e [] = e"
| "exponent e (b # bs) = exponent (2 * e + of_bool b) bs"

lemmas power_simps = red19_def red_check_def red_quot_def red_any_def
  cut_at_numeral tnum.simps tdouble.simps digits_of_numeral digits_of_num.simps pow_run.simps pow_digit.simps is_number.simps if_True if_False octal_simps

context reduction
begin

lemma red_mul:
  assumes "red (omul x y) = Some z" and "x mod n = a mod n" and "y mod n = b mod n"
  shows "z mod n = a * b mod n"
  using red_mod [OF assms(1)] assms(2,3) by (simp add: omul_def) (metis mod_mult_eq)

lemma pow_run_power:
  "pow_run red g bs m = Some y \<Longrightarrow> m = Some x \<Longrightarrow> x mod n = g ^ e mod n \<Longrightarrow> y mod n = g ^ exponent e bs mod n"
proof (induction bs arbitrary: m x e)
  case (Cons b bs)
  from Cons.prems(1,2) obtain z where z: "red (omul x x) = Some z" by (cases "red (omul x x)") auto
  have sq: "z mod n = g ^ (2 * e) mod n"
    using red_mul [OF z Cons.prems(3) Cons.prems(3)] by (simp only: mult_2 power_add)
  show ?case
  proof (cases b)
    case True
    with Cons.prems(1,2) z have r: "pow_run red g bs (red (omul g z)) = Some y" by simp
    then obtain u where u: "red (omul g z) = Some u" by (cases "red (omul g z)") auto
    have "u mod n = g ^ (2 * e + 1) mod n" using red_mul [OF u refl sq] by simp
    with Cons.IH [OF r u] True show ?thesis by simp
  next
    case False
    with Cons.prems(1,2) z have "pow_run red g bs (Some z) = Some y" by simp
    from Cons.IH [OF this refl sq] False show ?thesis by simp
  qed
qed simp

lemma pow_step:
  assumes "is_number (pow_run red g (digits_of k) (Some x)) y" and "x mod n = g ^ e mod n"
  shows "y mod n = g ^ exponent e (digits_of k) mod n"
  by (rule pow_run_power [OF is_numberD [OF assms(1)] refl assms(2)])

lemma product_step:
  assumes "is_number (red (omul x y)) z"
  shows "z mod n = x * y mod n"
  using red_mod [OF is_numberD [OF assms]] by (simp add: omul_def)

end

text \<open>The criterion on natural numbers, the two conditions given as congruences.\<close>

lemma pocklington_check:
  assumes "is_prime F" and "n = F * R + 1" and "R < F * F" "R div F + 1 < R mod F"
    and e: "F' = F" and g: "x mod n = g ^ F' mod n" and x: "x mod n = 1"
    and y: "x mod n = (g - 1) * y mod n" and "0 < g"
  shows "is_prime n"
proof (rule pocklington [OF assms(1-4), of "int g" "int y"])
  show "int g ^ F mod int n = 1" using g x e by (metis of_nat_1 of_nat_power zmod_int)
  have "(int g - 1) * int y = int ((g - 1) * y)" using \<open>0 < g\<close> by (simp add: of_nat_diff)
  then show "(int g - 1) * int y mod int n = 1" using x y by (metis of_nat_1 zmod_int)
qed

end
