(* ===== verification/Prime_25519.thy ===== *)
theory Prime_25519
  imports Prime_Check
begin

text \<open>
  \<open>2\<^sup>2\<^sup>5\<^sup>5 - 19\<close> is prime: a chain of certificates in the form of the criterion of Pocklington.
\<close>

lemma prime_d: "is_prime 991"
  by (rule is_prime_trial [where k = 32]) (simp_all add: upt_rec)

section \<open>24 bits\<close>

definition red_c :: "nat \<Rightarrow> nat option" where
  "red_c = red_any (cut_at 9) 125643595 (cut_at 7) (cut_at 11) 2101016920"

interpretation red_c: reduction red_c "8574133"
  unfolding red_c_def by (rule red_any_reduction) (simp add: cut_at_def)

lemma c_run0: "is_number (pow_run red_c 3435729 (digits_of 991) (Some 3435729)) 8574134"
  by (simp only: red_c_def power_simps)

lemma c_inverse: "is_number (red_c (omul 3435728 1014251)) 8574134"
  by (simp only: red_c_def power_simps)

theorem prime_c: "is_prime 8574133"
proof (rule pocklington_check [OF prime_d, where R = 8652 and g = 3435729 and y = 1014251])
  note p0 = red_c.pow_step [OF c_run0, of 1, simplified power_one_right, OF refl]
  show "8574134 mod 8574133 = 3435729 ^ exponent 1 (digits_of 991) mod (8574133 :: nat)"
    using p0 .
  show "exponent 1 (digits_of 991) = 991" by (simp add: digits_of_numeral)
  show "8574134 mod 8574133 = (3435729 - 1) * 1014251 mod (8574133 :: nat)"
    using red_c.product_step [OF c_inverse] by simp
qed simp_all


section \<open>51 bits\<close>

definition red_f :: "nat \<Rightarrow> nat option" where
  "red_f = red_any (cut_at 18) 16094878940095221 (cut_at 16) (cut_at 20) 169062383543243602"

interpretation red_f: reduction red_f "1919519569386763"
  unfolding red_f_def by (rule red_any_reduction) (simp add: cut_at_def)

lemma f_run0: "is_number (pow_run red_f 1059928654987441 (digits_of 8574133) (Some 1059928654987441)) 1919519569386764"
  by (simp only: red_f_def power_simps)

lemma f_inverse: "is_number (red_f (omul 1059928654987440 1290547218147893)) 1919519569386764"
  by (simp only: red_f_def power_simps)

theorem prime_f: "is_prime 1919519569386763"
proof (rule pocklington_check [OF prime_c, where R = 223873314 and g = 1059928654987441 and y = 1290547218147893])
  note p0 = red_f.pow_step [OF f_run0, of 1, simplified power_one_right, OF refl]
  show "1919519569386764 mod 1919519569386763 = 1059928654987441 ^ exponent 1 (digits_of 8574133) mod (1919519569386763 :: nat)"
    using p0 .
  show "exponent 1 (digits_of 8574133) = 8574133" by (simp add: digits_of_numeral)
  show "1919519569386764 mod 1919519569386763 = (1059928654987441 - 1) * 1290547218147893 mod (1919519569386763 :: nat)"
    using red_f.product_step [OF f_inverse] by simp
qed simp_all


section \<open>116 bits\<close>

definition red_r :: "nat \<Rightarrow> nat option" where
  "red_r = red_any (cut_at 40) 1253782293305134445631056213736479775 (cut_at 38) (cut_at 42) 23418790026534365412250746821118394954"

interpretation red_r: reduction red_r "75445702479781427272750846543864801"
  unfolding red_r_def by (rule red_any_reduction) (simp add: cut_at_def)

lemma r_run0: "is_number (pow_run red_r 56747016255153332959347766392083459 (digits_of 1919519569386763) (Some 56747016255153332959347766392083459)) 75445702479781427272750846543864802"
  by (simp only: red_r_def power_simps)

lemma r_inverse: "is_number (red_r (omul 56747016255153332959347766392083458 74602835786463724888147869570305675)) 75445702479781427272750846543864802"
  by (simp only: red_r_def power_simps)

theorem prime_r: "is_prime 75445702479781427272750846543864801"
proof (rule pocklington_check [OF prime_f, where R = 39304471641247389600 and g = 56747016255153332959347766392083459 and y = 74602835786463724888147869570305675])
  note p0 = red_r.pow_step [OF r_run0, of 1, simplified power_one_right, OF refl]
  show "75445702479781427272750846543864802 mod 75445702479781427272750846543864801 = 56747016255153332959347766392083459 ^ exponent 1 (digits_of 1919519569386763) mod (75445702479781427272750846543864801 :: nat)"
    using p0 .
  show "exponent 1 (digits_of 1919519569386763) = 1919519569386763" by (simp add: digits_of_numeral)
  show "75445702479781427272750846543864802 mod 75445702479781427272750846543864801 = (56747016255153332959347766392083459 - 1) * 74602835786463724888147869570305675 mod (75445702479781427272750846543864801 :: nat)"
    using red_r.product_step [OF r_inverse] by simp
qed simp_all


section \<open>236 bits\<close>

definition red_q :: "nat \<Rightarrow> nat option" where
  "red_q = red_any (cut_at 80) 1692788852045822971281066274305855727151316930460153060459743040538278869 (cut_at 78) (cut_at 82) 42152631492596705536876128764977629107890537144686016210234965525736194048"

interpretation red_q: reduction red_q "74058212732561358302231226437062788676166966415465897661863160754340907"
  unfolding red_q_def by (rule red_any_reduction) (simp add: cut_at_def)

lemma q_run0: "is_number (pow_run red_q 69490809710348678725736597923071784769591275419387514694139338586948360 (digits_of 1950225699) (Some 69490809710348678725736597923071784769591275419387514694139338586948360)) 33462177856732312977482458949185793226312159699037618458221659049652557"
  by (simp only: red_q_def power_simps)

lemma q_run1: "is_number (pow_run red_q 69490809710348678725736597923071784769591275419387514694139338586948360 (digits_of 1869622082) (Some 33462177856732312977482458949185793226312159699037618458221659049652557)) 53527649568209001782109899888253346421370061626086870202323502455126844"
  by (simp only: red_q_def power_simps)

lemma q_run2: "is_number (pow_run red_q 69490809710348678725736597923071784769591275419387514694139338586948360 (digits_of 2090582940) (Some 53527649568209001782109899888253346421370061626086870202323502455126844)) 70779221516830014532028755164764554906423245664872226016442655510776673"
  by (simp only: red_q_def power_simps)

lemma q_run3: "is_number (pow_run red_q 69490809710348678725736597923071784769591275419387514694139338586948360 (digits_of 56304609) (Some 70779221516830014532028755164764554906423245664872226016442655510776673)) 74058212732561358302231226437062788676166966415465897661863160754340908"
  by (simp only: red_q_def power_simps)

lemma q_inverse: "is_number (red_q (omul 69490809710348678725736597923071784769591275419387514694139338586948359 70463328703800545008217672123162676565183935400628861884889913886334520)) 74058212732561358302231226437062788676166966415465897661863160754340908"
  by (simp only: red_q_def power_simps)

theorem prime_q: "is_prime 74058212732561358302231226437062788676166966415465897661863160754340907"
proof (rule pocklington_check [OF prime_r, where R = 981609426360740691344999861639072106 and g = 69490809710348678725736597923071784769591275419387514694139338586948360 and y = 70463328703800545008217672123162676565183935400628861884889913886334520])
  note p0 = red_q.pow_step [OF q_run0, of 1, simplified power_one_right, OF refl]
  note p1 = red_q.pow_step [OF q_run1 p0]
  note p2 = red_q.pow_step [OF q_run2 p1]
  note p3 = red_q.pow_step [OF q_run3 p2]
  show "74058212732561358302231226437062788676166966415465897661863160754340908 mod 74058212732561358302231226437062788676166966415465897661863160754340907 = 69490809710348678725736597923071784769591275419387514694139338586948360 ^ exponent (exponent (exponent (exponent 1 (digits_of 1950225699)) (digits_of 1869622082)) (digits_of 2090582940)) (digits_of 56304609) mod (74058212732561358302231226437062788676166966415465897661863160754340907 :: nat)"
    using p3 .
  show "exponent (exponent (exponent (exponent 1 (digits_of 1950225699)) (digits_of 1869622082)) (digits_of 2090582940)) (digits_of 56304609) = 75445702479781427272750846543864801" by (simp add: digits_of_numeral)
  show "74058212732561358302231226437062788676166966415465897661863160754340908 mod 74058212732561358302231226437062788676166966415465897661863160754340907 = (69490809710348678725736597923071784769591275419387514694139338586948360 - 1) * 70463328703800545008217672123162676565183935400628861884889913886334520 mod (74058212732561358302231226437062788676166966415465897661863160754340907 :: nat)"
    using red_q.product_step [OF q_inverse] by simp
qed simp_all


section \<open>255 bits\<close>

lemma p_run0: "is_number (pow_run red19 1999453 (digits_of 1546407636594457118) (Some 1999453)) 34664247783971308669920175506339727168966582583255421716441442450953862334855"
  by (simp only: power_simps)

lemma p_run1: "is_number (pow_run red19 1999453 (digits_of 1610135365240277431) (Some 34664247783971308669920175506339727168966582583255421716441442450953862334855)) 5335438533324841642528717248205311587594315014824438569961502746862149418234"
  by (simp only: power_simps)

lemma p_run2: "is_number (pow_run red19 1999453 (digits_of 2133353998234911579) (Some 5335438533324841642528717248205311587594315014824438569961502746862149418234)) 7186201376485031860484166418512849651114759648334076163558982524799972497133"
  by (simp only: power_simps)

lemma p_run3: "is_number (pow_run red19 1999453 (digits_of 69810783092081707) (Some 7186201376485031860484166418512849651114759648334076163558982524799972497133)) 57896044618658097711785492504343953926634992332820282019728792003956564819950"
  by (simp only: power_simps)

lemma p_inverse: "is_number (red19 (omul 1999452 43307773260665248896171545686355313497245315135165197794612338610366044534704)) 57896044618658097711785492504343953926634992332820282019728792003956564819950"
  by (simp only: power_simps)

theorem prime_p: "is_prime 57896044618658097711785492504343953926634992332820282019728792003956564819949"
proof (rule pocklington_check [OF prime_q, where R = 781764 and g = 1999453 and y = 43307773260665248896171545686355313497245315135165197794612338610366044534704])
  note p0 = red19.pow_step [OF p_run0, of 1, simplified power_one_right, OF refl]
  note p1 = red19.pow_step [OF p_run1 p0]
  note p2 = red19.pow_step [OF p_run2 p1]
  note p3 = red19.pow_step [OF p_run3 p2]
  show "57896044618658097711785492504343953926634992332820282019728792003956564819950 mod 57896044618658097711785492504343953926634992332820282019728792003956564819949 = 1999453 ^ exponent (exponent (exponent (exponent 1 (digits_of 1546407636594457118)) (digits_of 1610135365240277431)) (digits_of 2133353998234911579)) (digits_of 69810783092081707) mod (57896044618658097711785492504343953926634992332820282019728792003956564819949 :: nat)"
    using p3 [unfolded oprime_numeral] .
  show "exponent (exponent (exponent (exponent 1 (digits_of 1546407636594457118)) (digits_of 1610135365240277431)) (digits_of 2133353998234911579)) (digits_of 69810783092081707) = 74058212732561358302231226437062788676166966415465897661863160754340907" by (simp add: digits_of_numeral)
  show "57896044618658097711785492504343953926634992332820282019728792003956564819950 mod 57896044618658097711785492504343953926634992332820282019728792003956564819949 = (1999453 - 1) * 43307773260665248896171545686355313497245315135165197794612338610366044534704 mod (57896044618658097711785492504343953926634992332820282019728792003956564819949 :: nat)"
    using red19.product_step [OF p_inverse, unfolded oprime_numeral] by simp
qed simp_all

end
