(* ===== verification/Field.thy ===== *)
theory Field
  imports Limbs
begin

text \<open>
  Arithmetic modulo \<open>p = 2\<^sup>2\<^sup>5\<^sup>5 - 19\<close>, the \<^verbatim>\<open>fe_*\<close> functions of
  \<^verbatim>\<open>src/src/crypto/crypto-ops.c\<close>. A field element \<^verbatim>\<open>fe\<close> is an array of ten \<^verbatim>\<open>int32_t\<close> limbs
  of alternately 26 and 25 bits, limb \<open>i\<close> of weight \<open>2\<close> to the power \<open>\<lceil>25.5 i\<rceil>\<close>; limbs may be
  negative and may exceed their nominal size.

  \<open>fe_rep b f v\<close> says that \<open>f\<close> has ten limbs bounded by \<open>2 b\<close> (even limbs) and \<open>b\<close> (odd limbs)
  and stands for \<open>v\<close> modulo \<open>p\<close>. Every operation, given arguments within the bounds that its
  comment states as a precondition, does not overflow, meets the bounds the comment states as a
  postcondition, and computes the right residue.
\<close>

type_synonym fe = "int list"

section \<open>Addition, subtraction, negation, copying\<close>

definition fe_0 :: fe where
  "fe_0 = [0, 0, 0, 0, 0, 0, 0, 0, 0, 0]"

definition fe_1 :: fe where
  "fe_1 = [1, 0, 0, 0, 0, 0, 0, 0, 0, 0]"

definition fe_load :: "fe \<Rightarrow> int list option" where
  "fe_load f = those (map (idx f) [0..<10])"

definition fe_add :: "fe \<Rightarrow> fe \<Rightarrow> fe option" where
  "fe_add f g = do { f \<leftarrow> fe_load f; g \<leftarrow> fe_load g; those (map2 (\<lambda>x y. cint 32 (x + y)) f g) }"

definition fe_sub :: "fe \<Rightarrow> fe \<Rightarrow> fe option" where
  "fe_sub f g = do { f \<leftarrow> fe_load f; g \<leftarrow> fe_load g; those (map2 (\<lambda>x y. cint 32 (x - y)) f g) }"

definition fe_neg :: "fe \<Rightarrow> fe option" where
  "fe_neg f = do { f \<leftarrow> fe_load f; those (map (\<lambda>x. cint 32 (- x)) f) }"

definition fe_copy :: "fe \<Rightarrow> fe option" where
  "fe_copy f = fe_load f"

text \<open>
  \<^verbatim>\<open>fe_cmov(f, g, b)\<close>: the mask \<^verbatim>\<open>-b\<close> of the \<^verbatim>\<open>unsigned int\<close> \<open>b\<close> is applied to the
  exclusive-or of the limbs, as 32-bit words. The \<^verbatim>\<open>assert\<close> fails unless \<open>b\<close> is 0 or 1.
\<close>

unbundle bit_operations_syntax

definition cmov_limb :: "u32 \<Rightarrow> int \<Rightarrow> int \<Rightarrow> int" where
  "cmov_limb b x y =
     (let f0 = word_of_int x :: u32; g0 = word_of_int y; x0 = (f0 XOR g0) AND (- b)
      in sint (f0 XOR x0))"

definition fe_cmov :: "fe \<Rightarrow> fe \<Rightarrow> u32 \<Rightarrow> fe option" where
  "fe_cmov f g b =
     do { f \<leftarrow> fe_load f; g \<leftarrow> fe_load g;
          if ((b - 1) AND NOT b) OR ((b - 2) AND NOT (b - 1)) = - 1
          then Some (map2 (cmov_limb b) f g) else None }"


section \<open>Multiplication\<close>

text \<open>
  The 32-bit precomputations \<^verbatim>\<open>g1_19 = 19 * g1, \<dots>, g9_19 = 19 * g9\<close> and \<^verbatim>\<open>f1_2 = 2 * f1\<close>, \<dots>,
  \<^verbatim>\<open>f9_2 = 2 * f9\<close> (odd limbs). There is no \<^verbatim>\<open>g0_19\<close>.
\<close>

definition fe_x19 :: "int list \<Rightarrow> int list option" where
  "fe_x19 g = those (map (\<lambda>j. if j = 0 then Some 0 else cint 32 (19 * g ! j)) [0..<10])"

definition fe_x2 :: "int list \<Rightarrow> int list option" where
  "fe_x2 f = those (map (\<lambda>i. if odd i then cint 32 (2 * f ! i) else Some (f ! i)) [0..<10])"

text \<open>
  The products of column \<open>k\<close> in source order: \<^verbatim>\<open>f_i\<close> times the limb \<open>j\<close> of \<open>g\<close> with
  \<open>i + j = k\<close> modulo 10, from the doubled \<open>f\<close> where both indices are odd and from the
  19-fold \<open>g\<close> where \<open>i + j\<close> wraps.
\<close>

definition fe_mul_col :: "int list \<Rightarrow> int list \<Rightarrow> int list \<Rightarrow> int list \<Rightarrow> nat \<Rightarrow> (int \<times> int) list" where
  "fe_mul_col f f2 g g19 k =
     map (\<lambda>i. let j = (k + 10 - i) mod 10
              in (if odd i \<and> odd j then f2 ! i else f ! i, if k < i then g19 ! j else g ! j)) [0..<10]"

text \<open>
  The carries \<^verbatim>\<open>carry_i = (h_i + (1<<25)) >> 26\<close> of even and \<^verbatim>\<open>(h_i + (1<<24)) >> 25\<close> of odd
  limbs; limb 9 wraps to limb 0 with factor 19.
\<close>

definition fe_width :: "nat \<Rightarrow> nat" where
  "fe_width i = (if even i then 26 else 25)"

definition fe_carry :: "nat \<Rightarrow> limb_step" where
  "fe_carry i = (if i = 9 then Carry 9 25 (2 ^ 24) 0 19
                 else Carry i (fe_width i) (2 ^ (fe_width i - 1)) (i + 1) 1)"

definition fe_mul_chain :: "limb_step list" where
  "fe_mul_chain = map fe_carry [0, 4, 1, 5, 2, 6, 3, 7, 4, 8, 9, 0]"

text \<open>The final stores narrow \<^verbatim>\<open>int64_t\<close> limbs to \<^verbatim>\<open>int32_t\<close>.\<close>

definition fe_store :: "int list \<Rightarrow> fe option" where
  "fe_store h = those (map (cint 32) h)"

definition fe_mul :: "fe \<Rightarrow> fe \<Rightarrow> fe option" where
  "fe_mul f g =
     do { f \<leftarrow> fe_load f; g \<leftarrow> fe_load g;
          g19 \<leftarrow> fe_x19 g; f2 \<leftarrow> fe_x2 f;
          h \<leftarrow> those (map (\<lambda>k. sop 64 0 (fe_mul_col f f2 g g19 k)) [0..<10]);
          h \<leftarrow> limb_run 64 fe_mul_chain h;
          fe_store h }"


section \<open>Squaring\<close>

text \<open>
  The precomputations of \<^verbatim>\<open>fe_sq\<close>: \<^verbatim>\<open>f0_2 \<dots> f7_2\<close> and \<^verbatim>\<open>f5_38, f6_19, f7_38, f8_19, f9_38\<close>
  (entries 5 to 9 of the second list).
\<close>

definition fe_sq_dbl :: "int list \<Rightarrow> int list option" where
  "fe_sq_dbl f = those (map (\<lambda>i. cint 32 (2 * f ! i)) [0..<8])"

definition fe_sq_m :: "int list \<Rightarrow> int list option" where
  "fe_sq_m f =
     those (map (\<lambda>i. if i < 5 then Some 0 else cint 32 ((if even i then 19 else 38) * f ! i)) [0..<10])"

definition fe_sq_cols :: "int list \<Rightarrow> int list \<Rightarrow> int list \<Rightarrow> (int \<times> int) list list" where
  "fe_sq_cols f d m =
     [[(f!0, f!0), (d!1, m!9), (d!2, m!8), (d!3, m!7), (d!4, m!6), (f!5, m!5)],
      [(d!0, f!1), (f!2, m!9), (d!3, m!8), (f!4, m!7), (d!5, m!6)],
      [(d!0, f!2), (d!1, f!1), (d!3, m!9), (d!4, m!8), (d!5, m!7), (f!6, m!6)],
      [(d!0, f!3), (d!1, f!2), (f!4, m!9), (d!5, m!8), (f!6, m!7)],
      [(d!0, f!4), (d!1, d!3), (f!2, f!2), (d!5, m!9), (d!6, m!8), (f!7, m!7)],
      [(d!0, f!5), (d!1, f!4), (d!2, f!3), (f!6, m!9), (d!7, m!8)],
      [(d!0, f!6), (d!1, d!5), (d!2, f!4), (d!3, f!3), (d!7, m!9), (f!8, m!8)],
      [(d!0, f!7), (d!1, f!6), (d!2, f!5), (d!3, f!4), (f!8, m!9)],
      [(d!0, f!8), (d!1, d!7), (d!2, f!6), (d!3, d!5), (f!4, f!4), (f!9, m!9)],
      [(d!0, f!9), (d!1, f!8), (d!2, f!7), (d!3, f!6), (d!4, f!5)]]"

definition fe_sq :: "fe \<Rightarrow> fe option" where
  "fe_sq f =
     do { f \<leftarrow> fe_load f;
          d \<leftarrow> fe_sq_dbl f; m \<leftarrow> fe_sq_m f;
          h \<leftarrow> those (map (sop 64 0) (fe_sq_cols f d m));
          h \<leftarrow> limb_run 64 fe_mul_chain h;
          fe_store h }"

definition fe_sq2 :: "fe \<Rightarrow> fe option" where
  "fe_sq2 f =
     do { f \<leftarrow> fe_load f;
          d \<leftarrow> fe_sq_dbl f; m \<leftarrow> fe_sq_m f;
          h \<leftarrow> those (map (sop 64 0) (fe_sq_cols f d m));
          h \<leftarrow> those (map (\<lambda>x. cint 64 (x + x)) h);
          h \<leftarrow> limb_run 64 fe_mul_chain h;
          fe_store h }"


section \<open>Values and bounds\<close>

definition fe_p :: int where
  "fe_p = 2 ^ 255 - 19"

definition fe_wt :: "nat \<Rightarrow> int" where
  "fe_wt i = 2 ^ ((51 * i + 1) div 2)"

definition fe_val :: "fe \<Rightarrow> int" where
  "fe_val f = limb_val fe_wt 10 f"

definition fe_scale :: "nat \<Rightarrow> int" where
  "fe_scale i = (if even i then 2 else 1)"

definition fe_bounded :: "int \<Rightarrow> fe \<Rightarrow> bool" where
  "fe_bounded b f \<longleftrightarrow> length f = 10 \<and> (\<forall>i<10. \<bar>f ! i\<bar> \<le> b * fe_scale i)"

definition fe_rep :: "int \<Rightarrow> fe \<Rightarrow> int \<Rightarrow> bool" where
  "fe_rep b f v \<longleftrightarrow> fe_bounded b f \<and> fe_val f mod fe_p = v mod fe_p"

text \<open>
  The bounds of the comments on odd limbs: \<open>1.65 \<cdot> 2\<^sup>2\<^sup>5\<close> for the arguments of a product,
  \<open>1.01 \<cdot> 2\<^sup>2\<^sup>4\<close> for its result.
\<close>

definition fe_loose :: int where
  "fe_loose = 55364812"

definition fe_tight :: int where
  "fe_tight = 16945438"

lemma fe_bounded_code [code]:
  "fe_bounded b f = (length f = 10 \<and> list_all (\<lambda>i. \<bar>f ! i\<bar> \<le> b * fe_scale i) [0..<10])"
  by (auto simp: fe_bounded_def list_all_iff)

lemma fe_bounded_length: "fe_bounded b f \<Longrightarrow> length f = 10"
  by (simp add: fe_bounded_def)

lemma fe_bounded_nth: "fe_bounded b f \<Longrightarrow> i < 10 \<Longrightarrow> \<bar>f ! i\<bar> \<le> b * fe_scale i"
  by (simp add: fe_bounded_def)

lemma fe_bounded_abs: "fe_bounded b f \<Longrightarrow> i < 10 \<Longrightarrow> \<bar>f ! i\<bar> \<le> 2 * b"
  using fe_bounded_nth [of b f i] by (auto simp: fe_scale_def split: if_splits)

lemma fe_bounded_mono: "fe_bounded b f \<Longrightarrow> b \<le> c \<Longrightarrow> fe_bounded c f"
  by (auto simp: fe_bounded_def fe_scale_def intro: order.trans)

lemma fe_rep_mono: "fe_rep b f v \<Longrightarrow> b \<le> c \<Longrightarrow> fe_rep c f v"
  by (auto simp: fe_rep_def intro: fe_bounded_mono)

lemma fe_load_Some:
  assumes "length f = 10"
  shows "fe_load f = Some f"
proof -
  have "those (map (idx f) [0..<10]) = Some (map ((!) f) [0..<10])"
    by (rule those_map_Some) (simp add: assms)
  then show ?thesis using map_nth [of f] assms by (simp add: fe_load_def del: upt_Suc)
qed

lemma fe_val_sum: "fe_val f = (\<Sum>k<10. f ! k * fe_wt k)"
  by (simp add: fe_val_def limb_val_def)



section \<open>Linear operations\<close>

lemma fe_rep_0: "fe_rep 0 fe_0 0"
  by (simp add: fe_rep_def fe_bounded_def fe_val_sum fe_0_def eval_nat_numeral less_Suc_eq all_conj_distrib)

lemma fe_rep_1: "fe_rep 1 fe_1 1"
  by (auto simp: fe_rep_def fe_bounded_def fe_val_sum fe_1_def fe_wt_def fe_scale_def eval_nat_numeral less_Suc_eq)

lemma fe_linear2:
  assumes "fe_rep b f x" and "fe_rep c g y" and "2 * (b + c) < 2 ^ 31"
    and op: "\<And>u v. \<bar>op u v\<bar> \<le> \<bar>u\<bar> + \<bar>v\<bar>" "\<And>u v w. op u v * w = op (u * w) (v * w)"
    and op_sum: "\<And>u v. (\<Sum>k<10. op (u k) (v k)) = op (\<Sum>k<(10 :: nat). u k) (\<Sum>k<10. v k)"
    and op_mod: "op (fe_val f) (fe_val g) mod fe_p = op x y mod fe_p"
  shows "\<exists>h. those (map2 (\<lambda>x y. cint 32 (op x y)) f g) = Some h \<and> fe_rep (b + c) h (op x y)"
proof -
  let ?h = "map2 op f g"
  have f: "fe_bounded b f" and g: "fe_bounded c g" using assms(1,2) by (simp_all add: fe_rep_def)
  note len = f [THEN fe_bounded_length] g [THEN fe_bounded_length]
  have bound: "\<bar>op (f ! i) (g ! i)\<bar> \<le> (b + c) * fe_scale i" if "i < 10" for i
    using op(1) [of "f ! i" "g ! i"] fe_bounded_nth [OF f that] fe_bounded_nth [OF g that]
    by (simp add: distrib_right)
  have h: "fe_bounded (b + c) ?h" using bound len by (simp add: fe_bounded_def)
  have "those (map2 (\<lambda>x y. cint 32 (op x y)) f g) = Some ?h"
  proof (rule those_map2_Some)
    fix i
    assume "i < length f" and "i < length g"
    then have "i < 10" using len by simp
    then have "\<bar>op (f ! i) (g ! i)\<bar> \<le> 2 * (b + c)" using fe_bounded_abs [OF h] len by simp
    then show "cint 32 (op (f ! i) (g ! i)) = Some (op (f ! i) (g ! i))"
      using assms(3) by (intro cint_abs_Some) simp
  qed
  moreover have "fe_val ?h = op (fe_val f) (fe_val g)"
    using len by (simp add: fe_val_sum op(2) op_sum)
  ultimately show ?thesis using h op_mod by (simp add: fe_rep_def)
qed

lemma fe_rep_load: "fe_rep b f x \<Longrightarrow> fe_load f = Some f"
  by (auto simp: fe_rep_def intro: fe_load_Some fe_bounded_length)

lemma fe_add_rep:
  assumes "fe_rep b f x" and "fe_rep c g y" and "2 * (b + c) < 2 ^ 31"
  shows "\<exists>h. fe_add f g = Some h \<and> fe_rep (b + c) h (x + y)"
proof -
  have "(fe_val f + fe_val g) mod fe_p = (x + y) mod fe_p"
    using assms(1,2) by (intro mod_add_cong) (simp_all add: fe_rep_def)
  then have "\<exists>h. those (map2 (\<lambda>x y. cint 32 (x + y)) f g) = Some h \<and> fe_rep (b + c) h (x + y)"
    by (intro fe_linear2 assms) (simp_all add: distrib_right sum.distrib)
  then show ?thesis using fe_rep_load assms(1,2) by (simp add: fe_add_def)
qed

lemma fe_sub_rep:
  assumes "fe_rep b f x" and "fe_rep c g y" and "2 * (b + c) < 2 ^ 31"
  shows "\<exists>h. fe_sub f g = Some h \<and> fe_rep (b + c) h (x - y)"
proof -
  have "(fe_val f - fe_val g) mod fe_p = (x - y) mod fe_p"
    using assms(1,2) by (intro mod_diff_cong) (simp_all add: fe_rep_def)
  then have "\<exists>h. those (map2 (\<lambda>x y. cint 32 (x - y)) f g) = Some h \<and> fe_rep (b + c) h (x - y)"
    by (intro fe_linear2 assms) (simp_all add: left_diff_distrib sum_subtractf)
  then show ?thesis using fe_rep_load assms(1,2) by (simp add: fe_sub_def)
qed

lemma fe_neg_rep:
  assumes "fe_rep b f x" and "2 * b < 2 ^ 31"
  shows "\<exists>h. fe_neg f = Some h \<and> fe_rep b h (- x)"
proof -
  have f: "fe_bounded b f" using assms(1) by (simp add: fe_rep_def)
  note len = fe_bounded_length [OF f]
  have "those (map (\<lambda>x. cint 32 (- x)) f) = Some (map uminus f)"
  proof (rule those_map_Some)
    fix v
    assume "v \<in> set f"
    then obtain i where "i < 10" and "v = f ! i" using len by (metis in_set_conv_nth)
    then have "\<bar>v\<bar> \<le> 2 * b" using fe_bounded_abs [OF f] by simp
    then show "cint 32 (- v) = Some (- v)" using assms(2) by (intro cint_abs_Some) simp
  qed
  moreover have "fe_bounded b (map uminus f)" using f by (simp add: fe_bounded_def)
  moreover have "fe_val (map uminus f) = - fe_val f" using len by (simp add: fe_val_sum sum_negf)
  moreover have "(- fe_val f) mod fe_p = (- x) mod fe_p"
    using assms(1) by (metis fe_rep_def mod_minus_eq)
  ultimately show ?thesis using fe_rep_load [OF assms(1)] by (simp add: fe_neg_def fe_rep_def)
qed

lemma fe_copy_rep: "fe_rep b f x \<Longrightarrow> fe_copy f = Some f"
  by (simp add: fe_copy_def fe_rep_load)



section \<open>The value of a product\<close>

definition fe_coef :: "nat \<Rightarrow> nat \<Rightarrow> int" where
  "fe_coef i j = (if odd i \<and> odd j then 2 else 1) * (if 10 \<le> i + j then 19 else 1)"

definition fe_conv :: "int list \<Rightarrow> int list \<Rightarrow> nat \<Rightarrow> int" where
  "fe_conv f g k = (\<Sum>i<10. let j = (k + 10 - i) mod 10 in fe_coef i j * f ! i * g ! j)"

lemma fe_wt_even: "fe_wt (2 * a) = (2 ^ 51) ^ a"
proof -
  have "(51 * (2 * a) + 1) div 2 = 51 * a" by presburger
  then show ?thesis by (simp only: fe_wt_def power_mult)
qed

lemma fe_wt_odd: "fe_wt (2 * a + 1) = 2 ^ 26 * (2 ^ 51) ^ a"
proof -
  have "(51 * (2 * a + 1) + 1) div 2 = 26 + 51 * a" by presburger
  then show ?thesis by (simp only: fe_wt_def power_mult power_add)
qed

lemma fe_wt_add: "fe_wt i * fe_wt j = (if odd i \<and> odd j then 2 else 1) * fe_wt (i + j)"
proof -
  obtain a b where ab: "i = 2 * a \<or> i = 2 * a + 1" "j = 2 * b \<or> j = 2 * b + 1"
    by (metis evenE oddE)
  have s: "2 * a + 1 + (2 * b + 1) = 2 * (a + b + 1)" "2 * a + 1 + 2 * b = 2 * (a + b) + 1"
    "2 * a + (2 * b + 1) = 2 * (a + b) + 1" "2 * a + 2 * b = 2 * (a + b)" by simp_all
  have q: "(2 ^ 26 * x) * (2 ^ 26 * y) = 2 * (x * y * (2 ^ 51 :: int))" for x y by simp
  from ab show ?thesis
    by (elim disjE; simp only: s fe_wt_even fe_wt_odd q power_add power_one_right)
      simp_all
qed

lemma fe_wt_wrap: "fe_wt (n + 10) = 2 ^ 255 * fe_wt n"
proof -
  have "(51 * (n + 10) + 1) div 2 = 255 + (51 * n + 1) div 2" by presburger
  then show ?thesis by (simp only: fe_wt_def power_add)
qed

lemma fe_wt_mul:
  assumes "i < 10" and "j < 10"
  shows "fe_p dvd fe_coef i j * fe_wt ((i + j) mod 10) - fe_wt i * fe_wt j"
proof (cases "i + j < 10")
  case True
  then show ?thesis by (simp add: fe_wt_add fe_coef_def)
next
  case False
  let ?c = "if odd i \<and> odd j then 2 else 1 :: int"
  have "fe_wt (i + j) = 2 ^ 255 * fe_wt ((i + j) mod 10)"
    using fe_wt_wrap [of "i + j - 10"] False assms by (simp add: mod_if)
  then have "fe_coef i j * fe_wt ((i + j) mod 10) - fe_wt i * fe_wt j
      = ?c * fe_wt ((i + j) mod 10) * (19 - 2 ^ 255)"
    using False unfolding fe_wt_add fe_coef_def by (simp add: algebra_simps)
  also have "19 - 2 ^ 255 = - fe_p" by (simp add: fe_p_def)
  finally show ?thesis by simp
qed

lemma fe_conv_value: "(\<Sum>k<10. fe_conv f g k * fe_wt k) mod fe_p = fe_val f * fe_val g mod fe_p"
proof -
  let ?F = "\<lambda>i j. fe_coef i j * f ! i * g ! j"
  have "(\<Sum>k<10. fe_conv f g k * fe_wt k) = (\<Sum>k<10. \<Sum>i<10. ?F i ((k + 10 - i) mod 10) * fe_wt k)"
    by (simp add: fe_conv_def Let_def sum_distrib_right)
  also have "\<dots> = (\<Sum>i<10. \<Sum>k<10. ?F i ((k + 10 - i) mod 10) * fe_wt k)"
    by (rule sum.swap)
  also have "\<dots> = (\<Sum>i<10. \<Sum>j<10. ?F i j * fe_wt ((i + j) mod 10))"
  proof (rule sum.cong [OF refl])
    fix i :: nat
    assume i: "i \<in> {..<10}"
    show "(\<Sum>k<10. ?F i ((k + 10 - i) mod 10) * fe_wt k) = (\<Sum>j<10. ?F i j * fe_wt ((i + j) mod 10))"
    proof (rule sum.reindex_bij_witness [where i = "\<lambda>j. (i + j) mod 10" and j = "\<lambda>k. (k + 10 - i) mod 10"])
      show "(i + (k + 10 - i) mod 10) mod 10 = k" if "k \<in> {..<10}" for k
        using i that by (auto simp: mod_if)
      then show "?F i ((k + 10 - i) mod 10) * fe_wt ((i + (k + 10 - i) mod 10) mod 10)
          = ?F i ((k + 10 - i) mod 10) * fe_wt k" if "k \<in> {..<10}" for k
        using that by simp
      show "((i + j) mod 10 + 10 - i) mod 10 = j" if "j \<in> {..<10}" for j
        using i that by (auto simp: mod_if)
    qed auto
  qed
  finally have conv: "(\<Sum>k<10. fe_conv f g k * fe_wt k) = (\<Sum>i<10. \<Sum>j<10. ?F i j * fe_wt ((i + j) mod 10))" .
  have "fe_p dvd (\<Sum>i<10. \<Sum>j<10. f ! i * g ! j * (fe_coef i j * fe_wt ((i + j) mod 10) - fe_wt i * fe_wt j))"
    by (intro dvd_sum dvd_mult fe_wt_mul) auto
  moreover have "(\<Sum>i<10. \<Sum>j<10. f ! i * g ! j * (fe_coef i j * fe_wt ((i + j) mod 10) - fe_wt i * fe_wt j))
      = (\<Sum>k<10. fe_conv f g k * fe_wt k) - fe_val f * fe_val g"
    unfolding conv fe_val_sum sum_product sum_subtractf [symmetric]
    by (intro sum.cong refl) (simp add: algebra_simps)
  ultimately show ?thesis by (intro mod_eqI) simp
qed

lemma fe_conv_limbs: "limb_val fe_wt 10 (map (fe_conv f g) [0..<10]) mod fe_p = fe_val f * fe_val g mod fe_p"
proof -
  have "limb_val fe_wt 10 (map (fe_conv f g) [0..<10]) = (\<Sum>k<10. fe_conv f g k * fe_wt k)"
    unfolding limb_val_def by (intro sum.cong) (simp_all del: upt_Suc)
  then show ?thesis by (simp add: fe_conv_value)
qed


section \<open>The carry chain\<close>

definition fe_ok :: "limb_step \<Rightarrow> bool" where
  "fe_ok st = list_ex (\<lambda>i. st = fe_carry i) [0..<10]"

interpretation fe_limbs: limb_system fe_wt fe_p fe_ok
proof unfold_locales
  fix i w r j m
  assume "fe_ok (Carry i w r j m)"
  then obtain k where k: "k < 10" and st: "Carry i w r j m = fe_carry k" by (auto simp: fe_ok_def list_ex_iff)
  have "list_all (\<lambda>k. case fe_carry k of Carry i w r j m \<Rightarrow> (m * fe_wt j - 2 ^ w * fe_wt i) mod fe_p = 0
      | _ \<Rightarrow> True) [0..<10]"
    by code_simp
  then show "fe_p dvd m * fe_wt j - 2 ^ w * fe_wt i"
    using k st [symmetric] by (auto simp: list_all_iff dvd_eq_mod_eq_0 split: limb_step.splits)
next
  fix k j ms
  assume "fe_ok (Fold k j ms)"
  then show "fe_p dvd (\<Sum>t<length ms. ms ! t * fe_wt (j + t)) - fe_wt k"
    by (auto simp: fe_ok_def list_ex_iff fe_carry_def split: if_splits)
qed


text \<open>
  The certificate of a chain on ten limbs: it runs without overflow from the intervals \<open>b\<close>, ends
  within the tight bounds, and consists of lawful carries.
\<close>

definition fe_chain_ok :: "limb_step list \<Rightarrow> interval list \<Rightarrow> bool" where
  "fe_chain_ok sts b =
     (length b = 10 \<and> limb_live fe_ok sts 10 = Some 10 \<and>
      (case limb_bounds (2 ^ 63) sts b of None \<Rightarrow> False
       | Some b1 \<Rightarrow> length b1 = 10 \<and>
           list_all (\<lambda>i. - (fe_tight * fe_scale i) \<le> fst (b1 ! i) \<and> snd (b1 ! i) \<le> fe_tight * fe_scale i) [0..<10]))"

lemma fe_chain_correct:
  assumes ok: "fe_chain_ok sts b" and "within s b"
  shows "\<exists>r. (limb_run 64 sts s \<bind> fe_store) = Some r \<and> fe_rep fe_tight r (limb_val fe_wt 10 s)"
proof -
  from ok obtain b1 where len: "length b = 10" "length b1 = 10"
    and live: "limb_live fe_ok sts 10 = Some 10"
    and b1: "limb_bounds (2 ^ (64 - 1)) sts b = Some b1"
    and tight: "\<And>i. i < 10 \<Longrightarrow> - (fe_tight * fe_scale i) \<le> fst (b1 ! i) \<and> snd (b1 ! i) \<le> fe_tight * fe_scale i"
    unfolding fe_chain_ok_def by (auto simp: list_all_iff split: option.splits)
  from limb_bounds_sound [OF b1 assms(2)] obtain r
    where r: "limb_run 64 sts s = Some r" and wr: "within r b1" by blast
  have lr: "length r = 10" using within_length [OF wr] len by simp
  have bound: "\<bar>r ! i\<bar> \<le> fe_tight * fe_scale i" if "i < 10" for i
    using within_nth [OF wr, of i] tight [OF that] that len(2) by (auto simp: inside_def abs_le_iff)
  then have fb: "fe_bounded fe_tight r" using lr by (simp add: fe_bounded_def)
  have "fe_store r = Some (map id r)"
    unfolding fe_store_def
  proof (rule those_map_Some)
    fix v
    assume "v \<in> set r"
    then obtain i where "i < 10" and "v = r ! i" using lr by (metis in_set_conv_nth)
    then have "\<bar>v\<bar> \<le> 2 * fe_tight" using fe_bounded_abs [OF fb] by simp
    then show "cint 32 v = Some (id v)" by (intro cint_abs_Some [THEN trans]) (simp_all add: fe_tight_def)
  qed
  moreover have "limb_val fe_wt 10 r mod fe_p = limb_val fe_wt 10 s mod fe_p"
    using fe_limbs.run_preserves [OF r live] within_length [OF assms(2)] len by simp
  ultimately show ?thesis using r fb by (simp add: fe_rep_def fe_val_def)
qed

lemma fe_mul_chain_ok: "fe_chain_ok fe_mul_chain (replicate 10 (- (2 ^ 62), 2 ^ 62))"
  by code_simp

lemma fe_mul_chain_run:
  assumes "length h = 10" and "\<And>i. i < 10 \<Longrightarrow> \<bar>h ! i\<bar> \<le> 2 ^ 62"
  shows "\<exists>r. (limb_run 64 fe_mul_chain h \<bind> fe_store) = Some r \<and> fe_rep fe_tight r (limb_val fe_wt 10 h)"
  by (rule fe_chain_correct [OF fe_mul_chain_ok within_abs]) (use assms in auto)


section \<open>Products\<close>

lemma fe_scaled:
  assumes "\<bar>x\<bar> \<le> c * fe_scale i" and "c * 2 * k < 2 ^ 31" and "0 < k" and "0 \<le> c"
  shows "cint 32 (k * x) = Some (k * x)"
proof -
  have "\<bar>x\<bar> \<le> c * 2" using assms(1,4) by (auto simp: fe_scale_def split: if_splits)
  then have "\<bar>k * x\<bar> \<le> k * (c * 2)" using assms(3) by (simp add: abs_mult)
  then show ?thesis using assms(2) by (intro cint_abs_Some) (simp add: mult_ac)
qed

definition fe_b :: "int list" where
  "fe_b = map (\<lambda>i. fe_loose * fe_scale i) [0..<10]"

definition fe_b2 :: "int list" where
  "fe_b2 = replicate 10 (2 * fe_loose)"

definition fe_b19 :: "int list" where
  "fe_b19 = map (\<lambda>i. 19 * (fe_loose * fe_scale i)) [0..<10]"

lemma fe_mul_col_bounds: "k < 10 \<Longrightarrow> sum_prods (fe_mul_col fe_b fe_b2 fe_b fe_b19 k) \<le> 2 ^ 61"
proof -
  have "list_all (\<lambda>k. sum_prods (fe_mul_col fe_b fe_b2 fe_b fe_b19 k) \<le> 2 ^ 61) [0..<10]"
    by code_simp
  then show "k < 10 \<Longrightarrow> sum_prods (fe_mul_col fe_b fe_b2 fe_b fe_b19 k) \<le> 2 ^ 61"
    by (simp add: list_all_iff)
qed

lemma fe_mul_col_exact:
  assumes "k < 10"
    and "\<And>i. i < 10 \<Longrightarrow> f2 ! i = (if odd i then 2 * f ! i else f ! i)"
    and "\<And>j. 0 < j \<Longrightarrow> j < 10 \<Longrightarrow> g19 ! j = 19 * g ! j"
  shows "sum_prods (fe_mul_col f f2 g g19 k) = fe_conv f g k"
proof -
  have "sum_prods (fe_mul_col f f2 g g19 k) = (\<Sum>i<10. let j = (k + 10 - i) mod 10 in
      (if odd i \<and> odd j then f2 ! i else f ! i) * (if k < i then g19 ! j else g ! j))"
    by (simp add: sum_prods_def fe_mul_col_def comp_def interv_sum_list_conv_sum_set_nat
        atLeast0LessThan Let_def del: upt_Suc)
  also have "\<dots> = fe_conv f g k"
    unfolding fe_conv_def
  proof (rule sum.cong [OF refl])
    fix i :: nat
    assume "i \<in> {..<10}"
    then have i: "i < 10" by simp
    let ?j = "(k + 10 - i) mod 10"
    have wrap: "k < i \<longleftrightarrow> 10 \<le> i + ?j" and pos: "k < i \<Longrightarrow> 0 < ?j" and j: "?j < 10"
      using assms(1) i by (auto simp: mod_if)
    show "(let j = ?j in (if odd i \<and> odd j then f2 ! i else f ! i) * (if k < i then g19 ! j else g ! j))
        = (let j = ?j in fe_coef i j * f ! i * g ! j)"
      using assms(2) [OF i] assms(3) [OF pos j] wrap by (simp add: Let_def fe_coef_def)
  qed
  finally show ?thesis .
qed

lemma fe_x19_Some:
  assumes "fe_bounded fe_loose g"
  shows "fe_x19 g = Some (map (\<lambda>j. if j = 0 then 0 else 19 * g ! j) [0..<10])"
  unfolding fe_x19_def
proof (rule those_map_Some)
  fix j
  assume "j \<in> set [0..<10 :: nat]"
  then have "cint 32 (19 * g ! j) = Some (19 * g ! j)"
    using fe_bounded_nth [OF assms, of j] by (intro fe_scaled) (auto simp: fe_loose_def)
  then show "(if j = 0 then Some 0 else cint 32 (19 * g ! j)) = Some (if j = 0 then 0 else 19 * g ! j)"
    by simp
qed

lemma fe_x2_Some:
  assumes "fe_bounded fe_loose f"
  shows "fe_x2 f = Some (map (\<lambda>i. if odd i then 2 * f ! i else f ! i) [0..<10])"
  unfolding fe_x2_def
proof (rule those_map_Some)
  fix i
  assume "i \<in> set [0..<10 :: nat]"
  then have "cint 32 (2 * f ! i) = Some (2 * f ! i)"
    using fe_bounded_nth [OF assms, of i] by (intro fe_scaled) (auto simp: fe_loose_def)
  then show "(if odd i then cint 32 (2 * f ! i) else Some (f ! i)) = Some (if odd i then 2 * f ! i else f ! i)"
    by simp
qed

lemma fe_mul_col_pairs:
  assumes "\<And>i. i < 10 \<Longrightarrow> \<bar>f ! i\<bar> \<le> F ! i" and "\<And>i. i < 10 \<Longrightarrow> \<bar>f2 ! i\<bar> \<le> F2 ! i"
    and "\<And>i. i < 10 \<Longrightarrow> \<bar>g ! i\<bar> \<le> G ! i" and "\<And>i. i < 10 \<Longrightarrow> \<bar>g19 ! i\<bar> \<le> G19 ! i"
  shows "list_all2 pair_bounded (fe_mul_col f f2 g g19 k) (fe_mul_col F F2 G G19 k)"
  using assms by (simp add: fe_mul_col_def list_all2_conv_all_nth pair_bounded_def Let_def del: upt_Suc)

lemma fe_mul_columns:
  assumes bf: "fe_bounded fe_loose f" and bg: "fe_bounded fe_loose g"
  shows "fe_mul f g = (limb_run 64 fe_mul_chain (map (fe_conv f g) [0..<10]) \<bind> fe_store)"
    and "k < 10 \<Longrightarrow> \<bar>fe_conv f g k\<bar> \<le> 2 ^ 62"
proof -
  let ?f2 = "map (\<lambda>i. if odd i then 2 * f ! i else f ! i) [0..<10]"
  let ?g19 = "map (\<lambda>j. if j = 0 then 0 else 19 * g ! j) [0..<10]"
  note nf = fe_bounded_nth [OF bf] and ng = fe_bounded_nth [OF bg]
  have pairs: "list_all2 pair_bounded (fe_mul_col f ?f2 g ?g19 k) (fe_mul_col fe_b fe_b2 fe_b fe_b19 k)" for k
  proof (rule fe_mul_col_pairs)
    fix i :: nat
    assume i: "i < 10"
    show "\<bar>f ! i\<bar> \<le> fe_b ! i" and "\<bar>g ! i\<bar> \<le> fe_b ! i"
      using nf [OF i] ng [OF i] i by (simp_all add: fe_b_def del: upt_Suc)
    show "\<bar>?f2 ! i\<bar> \<le> fe_b2 ! i"
      using nf [OF i] i by (simp add: fe_b2_def fe_scale_def del: upt_Suc split: if_splits)
    show "\<bar>?g19 ! i\<bar> \<le> fe_b19 ! i"
      using ng [OF i] i by (simp add: fe_b19_def fe_loose_def fe_scale_def abs_mult del: upt_Suc split: if_splits)
  qed
  have col: "sop 64 0 (fe_mul_col f ?f2 g ?g19 k) = Some (fe_conv f g k) \<and> \<bar>fe_conv f g k\<bar> \<le> 2 ^ 62"
    if "k < 10" for k
  proof -
    have "sum_prods (fe_mul_col f ?f2 g ?g19 k) = fe_conv f g k"
      by (rule fe_mul_col_exact [OF that]) (simp_all del: upt_Suc cong: if_cong)
    then show ?thesis
      using sop_exact [OF pairs [of k], of 0 64] fe_mul_col_bounds [OF that] by simp
  qed
  show "\<bar>fe_conv f g k\<bar> \<le> 2 ^ 62" if "k < 10" using col [OF that] by simp
  have "those (map (\<lambda>k. sop 64 0 (fe_mul_col f ?f2 g ?g19 k)) [0..<10]) = Some (map (fe_conv f g) [0..<10])"
    using col by (intro those_map_Some) auto
  then show "fe_mul f g = (limb_run 64 fe_mul_chain (map (fe_conv f g) [0..<10]) \<bind> fe_store)"
    using fe_load_Some [OF fe_bounded_length [OF bf]] fe_load_Some [OF fe_bounded_length [OF bg]]
      fe_x19_Some [OF bg] fe_x2_Some [OF bf] by (simp add: fe_mul_def del: upt_Suc)
qed

lemma fe_mul_rep:
  assumes f: "fe_rep b f x" "b \<le> fe_loose" and g: "fe_rep c g y" "c \<le> fe_loose"
  shows "\<exists>h. fe_mul f g = Some h \<and> fe_rep fe_tight h (x * y)"
proof -
  let ?h = "map (fe_conv f g) [0..<10]"
  have bf: "fe_bounded fe_loose f" and bg: "fe_bounded fe_loose g"
    using f g by (auto simp: fe_rep_def intro: fe_bounded_mono)
  have "\<exists>r. (limb_run 64 fe_mul_chain ?h \<bind> fe_store) = Some r \<and> fe_rep fe_tight r (limb_val fe_wt 10 ?h)"
    using fe_mul_columns(2) [OF bf bg] by (intro fe_mul_chain_run) (simp_all del: upt_Suc)
  moreover have "limb_val fe_wt 10 ?h mod fe_p = x * y mod fe_p"
    unfolding fe_conv_limbs using f(1) g(1) by (intro mod_mult_cong) (simp_all add: fe_rep_def)
  ultimately show ?thesis
    unfolding fe_mul_columns(1) [OF bf bg] by (auto simp: fe_rep_def)
qed


section \<open>Squares\<close>

definition fe_dbl :: "int list \<Rightarrow> int list" where
  "fe_dbl f = map (\<lambda>i. 2 * f ! i) [0..<8]"

definition fe_m :: "int list \<Rightarrow> int list" where
  "fe_m f = map (\<lambda>i. if i < 5 then 0 else (if even i then 19 else 38) * f ! i) [0..<10]"

lemma upt_10: "[0..<10] = [0, 1, 2, 3, 4, 5, 6, 7, 8, 9 :: nat]" and upt_8: "[0..<8] = [0, 1, 2, 3, 4, 5, 6, 7 :: nat]"
  by (simp_all add: upt_rec)

lemma fe_sq_dbl_Some:
  assumes "fe_bounded fe_loose f"
  shows "fe_sq_dbl f = Some (fe_dbl f)"
  unfolding fe_sq_dbl_def fe_dbl_def
proof (rule those_map_Some)
  fix i
  assume "i \<in> set [0..<8 :: nat]"
  then show "cint 32 (2 * f ! i) = Some (2 * f ! i)"
    using fe_bounded_nth [OF assms, of i] by (intro fe_scaled) (auto simp: fe_loose_def)
qed

lemma fe_sq_m_Some:
  assumes "fe_bounded fe_loose f"
  shows "fe_sq_m f = Some (fe_m f)"
  unfolding fe_sq_m_def fe_m_def
proof (rule those_map_Some)
  fix i
  assume "i \<in> set [0..<10 :: nat]"
  then have n: "\<bar>f ! i\<bar> \<le> fe_loose * fe_scale i" using fe_bounded_nth [OF assms, of i] by auto
  have "cint 32 ((if even i then 19 else 38) * f ! i) = Some ((if even i then 19 else 38) * f ! i)"
    using n by (intro cint_abs_Some) (simp add: abs_mult fe_scale_def fe_loose_def split: if_splits)
  then show "(if i < 5 then Some 0 else cint 32 ((if even i then 19 else 38) * f ! i))
      = Some (if i < 5 then 0 else (if even i then 19 else 38) * f ! i)" by simp
qed

lemma fe_conv_list:
  "fe_conv f g k = (\<Sum>i\<leftarrow>[0..<10]. let j = (k + 10 - i) mod 10 in fe_coef i j * f ! i * g ! j)"
  by (simp add: fe_conv_def interv_sum_list_conv_sum_set_nat atLeast0LessThan Let_def)

lemma fe_sq_cols_exact:
  "map sum_prods (fe_sq_cols f (fe_dbl f) (fe_m f)) = map (fe_conv f f) [0..<10]"
  unfolding fe_sq_cols_def fe_dbl_def fe_m_def fe_conv_list upt_10 upt_8
  by (simp add: fe_coef_def Let_def) (simp add: numeral_2_eq_2)

text \<open>The bounds of the columns, with every limb at its maximum.\<close>

lemma fe_sq_cols_bounds:
  "k < 10 \<Longrightarrow> sum_prods (fe_sq_cols fe_b (fe_dbl fe_b) (fe_m fe_b) ! k) \<le> 2 ^ 61"
proof -
  have "list_all (\<lambda>k. sum_prods (fe_sq_cols fe_b (fe_dbl fe_b) (fe_m fe_b) ! k) \<le> 2 ^ 61) [0..<10]"
    by code_simp
  then show "k < 10 \<Longrightarrow> sum_prods (fe_sq_cols fe_b (fe_dbl fe_b) (fe_m fe_b) ! k) \<le> 2 ^ 61"
    by (simp add: list_all_iff)
qed

lemma fe_sq_cols_pairs:
  assumes "\<And>i. i < 10 \<Longrightarrow> \<bar>f ! i\<bar> \<le> F ! i" and "\<And>i. i < 8 \<Longrightarrow> \<bar>d ! i\<bar> \<le> D ! i"
    and "\<And>i. i < 10 \<Longrightarrow> \<bar>m ! i\<bar> \<le> M ! i"
  shows "list_all2 (list_all2 pair_bounded) (fe_sq_cols f d m) (fe_sq_cols F D M)"
  by (simp add: fe_sq_cols_def pair_bounded_def assms)

lemma fe_sq_cols_sop:
  assumes "fe_bounded fe_loose f"
  shows "those (map (sop 64 0) (fe_sq_cols f (fe_dbl f) (fe_m f))) = Some (map (fe_conv f f) [0..<10])"
    and "k < 10 \<Longrightarrow> \<bar>fe_conv f f k\<bar> \<le> 2 ^ 61"
proof -
  let ?C = "fe_sq_cols f (fe_dbl f) (fe_m f)" and ?B = "fe_sq_cols fe_b (fe_dbl fe_b) (fe_m fe_b)"
  note n = fe_bounded_nth [OF assms]
  have f: "\<bar>f ! i\<bar> \<le> fe_b ! i" if "i < 10" for i
    using n [OF that] that by (simp add: fe_b_def del: upt_Suc)
  have len: "length ?C = 10" "length ?B = 10" by (simp_all add: fe_sq_cols_def)
  have pairs: "list_all2 (list_all2 pair_bounded) ?C ?B"
    by (rule fe_sq_cols_pairs)
      (use f in \<open>auto simp: fe_dbl_def fe_m_def abs_mult simp del: upt_Suc\<close>)
  have ex: "sum_prods (?C ! k) = fe_conv f f k" if "k < 10" for k
    using fe_sq_cols_exact [of f] that len by (metis (no_types, lifting) diff_zero length_upt nth_map nth_upt plus_nat.add_0)
  have col: "sop 64 0 (?C ! k) = Some (fe_conv f f k) \<and> \<bar>fe_conv f f k\<bar> \<le> 2 ^ 61" if "k < 10" for k
    using sop_exact [of "?C ! k" "?B ! k" 0 64] list_all2_nthD [OF pairs, of k] len that
      fe_sq_cols_bounds [OF that] ex [OF that] by simp
  show "\<bar>fe_conv f f k\<bar> \<le> 2 ^ 61" if "k < 10" using col [OF that] by simp
  have "those (map (\<lambda>k. sop 64 0 (?C ! k)) [0..<10]) = Some (map (fe_conv f f) [0..<10])"
    using col by (intro those_map_Some) simp
  moreover have "map (\<lambda>k. sop 64 0 (?C ! k)) [0..<10] = map (sop 64 0) ?C"
    using len(1) by (intro nth_equalityI) (simp_all del: upt_Suc)
  ultimately show "those (map (sop 64 0) ?C) = Some (map (fe_conv f f) [0..<10])" by simp
qed

lemma fe_sq_rep:
  assumes "fe_rep b f x" and "b \<le> fe_loose"
  shows "\<exists>h. fe_sq f = Some h \<and> fe_rep fe_tight h (x * x)"
proof -
  let ?h = "map (fe_conv f f) [0..<10]"
  have bf: "fe_bounded fe_loose f" using assms by (auto simp: fe_rep_def intro: fe_bounded_mono)
  have "\<exists>r. (limb_run 64 fe_mul_chain ?h \<bind> fe_store) = Some r \<and> fe_rep fe_tight r (limb_val fe_wt 10 ?h)"
    using fe_sq_cols_sop(2) [OF bf] by (intro fe_mul_chain_run) (force simp del: upt_Suc)+
  moreover have "limb_val fe_wt 10 ?h mod fe_p = x * x mod fe_p"
    unfolding fe_conv_limbs using assms(1) by (intro mod_mult_cong) (simp_all add: fe_rep_def)
  ultimately show ?thesis
    using fe_rep_load [OF assms(1)] fe_sq_dbl_Some [OF bf] fe_sq_m_Some [OF bf] fe_sq_cols_sop(1) [OF bf]
    by (auto simp: fe_sq_def fe_rep_def simp del: upt_Suc)
qed

lemma fe_sq2_rep:
  assumes "fe_rep b f x" and "b \<le> fe_loose"
  shows "\<exists>h. fe_sq2 f = Some h \<and> fe_rep fe_tight h (2 * (x * x))"
proof -
  let ?h = "map (fe_conv f f) [0..<10]" and ?k = "map (\<lambda>k. fe_conv f f k + fe_conv f f k) [0..<10]"
  have bf: "fe_bounded fe_loose f" using assms by (auto simp: fe_rep_def intro: fe_bounded_mono)
  have small: "\<bar>fe_conv f f k + fe_conv f f k\<bar> \<le> 2 ^ 62" if "k < 10" for k
    using fe_sq_cols_sop(2) [OF bf that] by simp
  have "those (map (\<lambda>k. cint 64 (fe_conv f f k + fe_conv f f k)) [0..<10]) = Some ?k"
    by (rule those_map_Some, rule cint_abs_Some) (use small in force)
  then have k: "those (map (\<lambda>x. cint 64 (x + x)) ?h) = Some ?k" by (simp only: map_map comp_def)
  have "\<exists>r. (limb_run 64 fe_mul_chain ?k \<bind> fe_store) = Some r \<and> fe_rep fe_tight r (limb_val fe_wt 10 ?k)"
    using small by (intro fe_mul_chain_run) (simp_all del: upt_Suc)
  moreover have "limb_val fe_wt 10 ?k = 2 * limb_val fe_wt 10 ?h"
    unfolding limb_val_def sum_distrib_left by (intro sum.cong) (simp_all add: algebra_simps del: upt_Suc)
  moreover have "limb_val fe_wt 10 ?h mod fe_p = x * x mod fe_p"
    unfolding fe_conv_limbs using assms(1) by (intro mod_mult_cong) (simp_all add: fe_rep_def)
  then have "2 * limb_val fe_wt 10 ?h mod fe_p = 2 * (x * x) mod fe_p"
    by (intro mod_mult_cong) simp_all
  ultimately show ?thesis
    using fe_rep_load [OF assms(1)] fe_sq_dbl_Some [OF bf] fe_sq_m_Some [OF bf] fe_sq_cols_sop(1) [OF bf] k
    by (auto simp: fe_sq2_def fe_rep_def simp del: upt_Suc)
qed


text \<open>
  Both squaring and multiplication reduce to the same columns and the same chain, so that
  squaring computes limb by limb what a multiplication of the element by itself does.
\<close>

lemma fe_sq_columns:
  assumes "fe_bounded fe_loose f"
  shows "fe_sq f = (limb_run 64 fe_mul_chain (map (fe_conv f f) [0..<10]) \<bind> fe_store)"
  using fe_load_Some [OF fe_bounded_length [OF assms]] fe_sq_dbl_Some [OF assms] fe_sq_m_Some [OF assms]
    fe_sq_cols_sop(1) [OF assms] by (simp add: fe_sq_def del: upt_Suc)

lemma fe_rep_self: "fe_bounded b f \<Longrightarrow> fe_rep b f (fe_val f)"
  by (simp add: fe_rep_def)

end
