(* ===== verification/Field_Ops.thy ===== *)
theory Field_Ops
  imports Field Power_Chain
begin

text \<open>
  Field operations composed of the basic ones: the conditional move, \<^verbatim>\<open>fe_invert\<close> (the power
  \<open>p - 2\<close>) and \<^verbatim>\<open>fe_divpowm1\<close> (the square root candidate \<open>u v\<^sup>3 (u v\<^sup>7)\<^bsup>(p - 5) / 8\<^esup>\<close>) of
  \<^verbatim>\<open>src/src/crypto/crypto-ops.c\<close>, and the rules by which the group operations use the field.
\<close>

unbundle bit_operations_syntax

section \<open>Definitions\<close>

definition fe_invert :: "fe \<Rightarrow> fe option" where
  "fe_invert z = do {
     t0 \<leftarrow> fe_sq z;
     t1 \<leftarrow> fe_sq t0;
     t1 \<leftarrow> fe_sq t1;
     t1 \<leftarrow> fe_mul z t1;
     t0 \<leftarrow> fe_mul t0 t1;
     t2 \<leftarrow> fe_sq t0;
     t1 \<leftarrow> fe_mul t1 t2;
     t2 \<leftarrow> fe_sq t1;
     t2 \<leftarrow> sq_times fe_sq 4 t2;
     t1 \<leftarrow> fe_mul t2 t1;
     t2 \<leftarrow> fe_sq t1;
     t2 \<leftarrow> sq_times fe_sq 9 t2;
     t2 \<leftarrow> fe_mul t2 t1;
     t3 \<leftarrow> fe_sq t2;
     t3 \<leftarrow> sq_times fe_sq 19 t3;
     t2 \<leftarrow> fe_mul t3 t2;
     t2 \<leftarrow> fe_sq t2;
     t2 \<leftarrow> sq_times fe_sq 9 t2;
     t1 \<leftarrow> fe_mul t2 t1;
     t2 \<leftarrow> fe_sq t1;
     t2 \<leftarrow> sq_times fe_sq 49 t2;
     t2 \<leftarrow> fe_mul t2 t1;
     t3 \<leftarrow> fe_sq t2;
     t3 \<leftarrow> sq_times fe_sq 99 t3;
     t2 \<leftarrow> fe_mul t3 t2;
     t2 \<leftarrow> fe_sq t2;
     t2 \<leftarrow> sq_times fe_sq 49 t2;
     t1 \<leftarrow> fe_mul t2 t1;
     t1 \<leftarrow> fe_sq t1;
     t1 \<leftarrow> sq_times fe_sq 4 t1;
     fe_mul t1 t0 }"

text \<open>The part of \<^verbatim>\<open>fe_divpowm1\<close> from \<^verbatim>\<open>fe_pow22523.c\<close>: the power \<open>(p - 5) / 8\<close> of \<^verbatim>\<open>uv7\<close>.\<close>

definition fe_pow22523 :: "fe \<Rightarrow> fe option" where
  "fe_pow22523 uv7 = do {
     t0 \<leftarrow> fe_sq uv7;
     t1 \<leftarrow> fe_sq t0;
     t1 \<leftarrow> fe_sq t1;
     t1 \<leftarrow> fe_mul uv7 t1;
     t0 \<leftarrow> fe_mul t0 t1;
     t0 \<leftarrow> fe_sq t0;
     t0 \<leftarrow> fe_mul t1 t0;
     t1 \<leftarrow> fe_sq t0;
     t1 \<leftarrow> sq_times fe_sq 4 t1;
     t0 \<leftarrow> fe_mul t1 t0;
     t1 \<leftarrow> fe_sq t0;
     t1 \<leftarrow> sq_times fe_sq 9 t1;
     t1 \<leftarrow> fe_mul t1 t0;
     t2 \<leftarrow> fe_sq t1;
     t2 \<leftarrow> sq_times fe_sq 19 t2;
     t1 \<leftarrow> fe_mul t2 t1;
     t1 \<leftarrow> sq_times fe_sq 10 t1;
     t0 \<leftarrow> fe_mul t1 t0;
     t1 \<leftarrow> fe_sq t0;
     t1 \<leftarrow> sq_times fe_sq 49 t1;
     t1 \<leftarrow> fe_mul t1 t0;
     t2 \<leftarrow> fe_sq t1;
     t2 \<leftarrow> sq_times fe_sq 99 t2;
     t1 \<leftarrow> fe_mul t2 t1;
     t1 \<leftarrow> sq_times fe_sq 50 t1;
     t0 \<leftarrow> fe_mul t1 t0;
     t0 \<leftarrow> fe_sq t0;
     t0 \<leftarrow> fe_sq t0;
     fe_mul t0 uv7 }"

definition fe_divpowm1 :: "fe \<Rightarrow> fe \<Rightarrow> fe option" where
  "fe_divpowm1 u v = do {
     v3 \<leftarrow> fe_sq v;
     v3 \<leftarrow> fe_mul v3 v;
     uv7 \<leftarrow> fe_sq v3;
     uv7 \<leftarrow> fe_mul uv7 v;
     uv7 \<leftarrow> fe_mul uv7 u;
     t0 \<leftarrow> fe_pow22523 uv7;
     t0 \<leftarrow> fe_mul t0 v3;
     fe_mul t0 u }"


section \<open>The conditional move\<close>

lemma cmov_limb_0:
  assumes "- (2 ^ 31) \<le> x" and "x < 2 ^ 31"
  shows "cmov_limb 0 x y = x"
  using assms by (simp add: cmov_limb_def Let_def signed_of_int signed_take_bit_int_eq_self)

lemma cmov_limb_1:
  assumes "- (2 ^ 31) \<le> y" and "y < 2 ^ 31"
  shows "cmov_limb 1 x y = y"
  using assms by (simp add: cmov_limb_def Let_def signed_of_int signed_take_bit_int_eq_self xor.assoc [symmetric])

lemma fe_cmov_select:
  assumes f: "fe_bounded b f" and g: "fe_bounded c g" and "2 * b < 2 ^ 31" and "2 * c < 2 ^ 31"
  shows "fe_cmov f g 0 = Some f" and "fe_cmov f g 1 = Some g"
proof -
  note len = f [THEN fe_bounded_length] g [THEN fe_bounded_length]
  have "map2 (cmov_limb 0) f g = f"
  proof (rule nth_equalityI)
    fix i
    assume "i < length (map2 (cmov_limb 0) f g)"
    then show "map2 (cmov_limb 0) f g ! i = f ! i"
      using fe_bounded_abs [OF f, of i] len assms(3) by (simp add: cmov_limb_0 abs_le_iff)
  qed (simp add: len)
  then show "fe_cmov f g 0 = Some f"
    using fe_load_Some [OF len(1)] fe_load_Some [OF len(2)] by (simp add: fe_cmov_def)
  have "map2 (cmov_limb 1) f g = g"
  proof (rule nth_equalityI)
    fix i
    assume "i < length (map2 (cmov_limb 1) f g)"
    then show "map2 (cmov_limb 1) f g ! i = g ! i"
      using fe_bounded_abs [OF g, of i] len assms(4) by (simp add: cmov_limb_1 abs_le_iff)
  qed (simp add: len)
  then show "fe_cmov f g 1 = Some g"
    using fe_load_Some [OF len(1)] fe_load_Some [OF len(2)] by (simp add: fe_cmov_def)
qed


section \<open>Rules for straight-line code over the field\<close>

lemma fe_add_step:
  assumes "fe_rep b f x" and "fe_rep c g y" and "2 * (b + c) < 2 ^ 31"
    and "\<And>h. fe_rep (b + c) h (x + y) \<Longrightarrow> \<exists>q. k h = Some q \<and> P q"
  shows "\<exists>q. fe_add f g \<bind> k = Some q \<and> P q"
  using fe_add_rep [OF assms(1-3)] assms(4) by auto

lemma fe_sub_step:
  assumes "fe_rep b f x" and "fe_rep c g y" and "2 * (b + c) < 2 ^ 31"
    and "\<And>h. fe_rep (b + c) h (x - y) \<Longrightarrow> \<exists>q. k h = Some q \<and> P q"
  shows "\<exists>q. fe_sub f g \<bind> k = Some q \<and> P q"
  using fe_sub_rep [OF assms(1-3)] assms(4) by auto

lemma fe_neg_step:
  assumes "fe_rep b f x" and "2 * b < 2 ^ 31" and "\<And>h. fe_rep b h (- x) \<Longrightarrow> \<exists>q. k h = Some q \<and> P q"
  shows "\<exists>q. fe_neg f \<bind> k = Some q \<and> P q"
  using fe_neg_rep [OF assms(1,2)] assms(3) by auto

lemma fe_copy_step:
  assumes "fe_rep b f x" and "\<exists>q. k f = Some q \<and> P q"
  shows "\<exists>q. fe_copy f \<bind> k = Some q \<and> P q"
  using fe_copy_rep [OF assms(1)] assms(2) by auto

lemma fe_mul_step:
  assumes "fe_rep b f x" and "fe_rep c g y" and "b \<le> fe_loose" and "c \<le> fe_loose"
    and "\<And>h. fe_rep fe_tight h (x * y) \<Longrightarrow> \<exists>q. k h = Some q \<and> P q"
  shows "\<exists>q. fe_mul f g \<bind> k = Some q \<and> P q"
  using fe_mul_rep [OF assms(1,3,2,4)] assms(5) by auto

lemma fe_sq_step:
  assumes "fe_rep b f x" and "b \<le> fe_loose"
    and "\<And>h. fe_rep fe_tight h (x * x) \<Longrightarrow> \<exists>q. k h = Some q \<and> P q"
  shows "\<exists>q. fe_sq f \<bind> k = Some q \<and> P q"
  using fe_sq_rep [OF assms(1,2)] assms(3) by auto

lemma fe_sq2_step:
  assumes "fe_rep b f x" and "b \<le> fe_loose"
    and "\<And>h. fe_rep fe_tight h (2 * (x * x)) \<Longrightarrow> \<exists>q. k h = Some q \<and> P q"
  shows "\<exists>q. fe_sq2 f \<bind> k = Some q \<and> P q"
  using fe_sq2_rep [OF assms(1,2)] assms(3) by auto

lemmas fe_steps = fe_add_step fe_sub_step fe_neg_step fe_copy_step fe_mul_step fe_sq_step fe_sq2_step


section \<open>Powers\<close>

interpretation fe_chain: power_chain fe_mul fe_sq "\<lambda>e f. fe_rep fe_loose f (x ^ e)" "\<lambda>e f. fe_rep fe_tight f (x ^ e)"
  for x
proof
  fix e f a b
  show "\<exists>r. fe_mul a b = Some r \<and> fe_rep fe_tight r (x ^ (e + f))"
    if "fe_rep fe_loose a (x ^ e)" "fe_rep fe_loose b (x ^ f)"
    using fe_mul_rep [OF that(1) _ that(2)] by (simp add: power_add)
  show "\<exists>r. fe_sq a = Some r \<and> fe_rep fe_tight r (x ^ (2 * e))" if "fe_rep fe_loose a (x ^ e)"
    using fe_sq_rep [OF that] by (simp add: mult_2 power_add)
  show "fe_rep fe_loose a (x ^ e)" if "fe_rep fe_tight a (x ^ e)"
    using that by (rule fe_rep_mono) (simp add: fe_tight_def fe_loose_def)
qed

lemma fe_invert_rep:
  assumes "fe_rep b z x" and "b \<le> fe_loose"
  shows "\<exists>h. fe_invert z = Some h \<and> fe_rep fe_tight h (x ^ nat (fe_p - 2))"
proof -
  have z: "fe_rep fe_loose z (x ^ 1)" using fe_rep_mono [OF assms] by simp
  show ?thesis
    unfolding fe_invert_def
    by (rule fe_chain.sq_step [OF z],
        ((rule fe_chain.sq_step fe_chain.sq_times_step, assumption)
         | (rule fe_chain.mul_step, (assumption | rule z), (assumption | rule z)))+,
        rule fe_chain.mul_last, assumption, assumption, simp add: fe_p_def)
qed

lemma fe_pow22523_rep:
  assumes "fe_rep b z x" and "b \<le> fe_loose"
  shows "\<exists>h. fe_pow22523 z = Some h \<and> fe_rep fe_tight h (x ^ nat ((fe_p - 5) div 8))"
proof -
  have z: "fe_rep fe_loose z (x ^ 1)" using fe_rep_mono [OF assms] by simp
  show ?thesis
    unfolding fe_pow22523_def
    by (rule fe_chain.sq_step [OF z],
        ((rule fe_chain.sq_step fe_chain.sq_times_step, assumption)
         | (rule fe_chain.mul_step, (assumption | rule z), (assumption | rule z)))+,
        rule fe_chain.mul_last, assumption, rule z, simp add: fe_p_def)
qed


lemma fe_divpowm1_rep:
  assumes u: "fe_rep b u x" "b \<le> fe_loose" and v: "fe_rep c v y" "c \<le> fe_loose"
  shows "\<exists>r. fe_divpowm1 u v = Some r
    \<and> fe_rep fe_tight r (x * y ^ 3 * (x * y ^ 7) ^ nat ((fe_p - 5) div 8))"
proof -
  have tl: "fe_tight \<le> fe_loose" by (simp add: fe_tight_def fe_loose_def)
  let ?P = "\<lambda>r. fe_rep fe_tight r (x * y ^ 3 * (x * y ^ 7) ^ nat ((fe_p - 5) div 8))"
  have pow: "\<exists>q. (fe_pow22523 h \<bind> k) = Some q \<and> ?P q"
    if "fe_rep fe_tight h (x * y ^ 7)"
      and "\<And>t. fe_rep fe_tight t ((x * y ^ 7) ^ nat ((fe_p - 5) div 8)) \<Longrightarrow> \<exists>q. k t = Some q \<and> ?P q" for h k
    using fe_pow22523_rep [OF that(1) tl] that(2) by auto
  have last: "\<exists>r. fe_mul t u = Some r \<and> ?P r"
    if "fe_rep fe_tight t ((x * y ^ 7) ^ nat ((fe_p - 5) div 8) * (y * y * y))" for t
    using fe_mul_rep [OF that tl u] by (simp add: power3_eq_cube mult_ac)
  show ?thesis
    unfolding fe_divpowm1_def
    apply (rule fe_sq_step [OF v])
    apply (rule fe_mul_step [OF _ v(1) tl v(2)], assumption)
    apply (rule fe_sq_step [OF _ tl], assumption)
    apply (rule fe_mul_step [OF _ v(1) tl v(2)], assumption)
    apply (rule fe_mul_step [OF _ u(1) tl u(2)], assumption)
    apply (rule pow, simp add: eval_nat_numeral mult_ac)
    apply (rule fe_mul_step [OF _ _ tl tl], assumption, assumption)
    apply (rule last, assumption)
    done
qed

end
