(* ===== verification/Field_Bytes.thy ===== *)
theory Field_Bytes
  imports Field_Ops Crypto_Bytes
begin

text \<open>
  Field elements as 32 bytes: \<^verbatim>\<open>fe_frombytes\<close>, \<^verbatim>\<open>fe_tobytes\<close>, \<^verbatim>\<open>fe_isnegative\<close> and
  \<^verbatim>\<open>fe_isnonzero\<close> of \<^verbatim>\<open>src/src/crypto/crypto-ops.c\<close>. Reading ignores the top bit; writing
  gives the canonical residue, whatever representation the limbs hold.
\<close>

unbundle bit_operations_syntax

section \<open>Definitions\<close>

definition fe_load10 :: "bytes \<Rightarrow> int list" where
  "fe_load10 s =
     [sint (load_4 s 0), sint (push_bit 6 (load_3 s 4)), sint (push_bit 5 (load_3 s 7)),
      sint (push_bit 3 (load_3 s 10)), sint (push_bit 2 (load_3 s 13)), sint (load_4 s 16),
      sint (push_bit 7 (load_3 s 20)), sint (push_bit 5 (load_3 s 23)),
      sint (push_bit 4 (load_3 s 26)), sint (push_bit 2 (load_3 s 29 AND 8388607))]"

definition fe_frombytes_chain :: "limb_step list" where
  "fe_frombytes_chain = map fe_carry [9, 1, 3, 5, 7, 0, 2, 4, 6, 8]"

definition fe_frombytes :: "bytes \<Rightarrow> fe option" where
  "fe_frombytes s =
     (if length s < 32 then None
      else do { h \<leftarrow> limb_run 64 fe_frombytes_chain (fe_load10 s); fe_store h })"

text \<open>
  \<^verbatim>\<open>q = (19 * h9 + (1 << 24)) >> 25; q = (h0 + q) >> 26; q = (h1 + q) >> 25; \<dots> q = (h9 + q) >> 25;\<close>
\<close>

fun fe_q_loop :: "int list \<Rightarrow> nat list \<Rightarrow> int \<Rightarrow> int option" where
  "fe_q_loop h [] q = Some q"
| "fe_q_loop h (i # is) q =
     do { t \<leftarrow> cint 32 (h ! i + q); fe_q_loop h is (t div 2 ^ fe_width i) }"

definition fe_q :: "int list \<Rightarrow> int option" where
  "fe_q h =
     do { a \<leftarrow> cint 32 (19 * h ! 9);
          b \<leftarrow> cint 32 (a + 2 ^ 24);
          fe_q_loop h [0, 1, 2, 3, 4, 5, 6, 7, 8, 9] (b div 2 ^ 25) }"

definition fe_floor :: "nat \<Rightarrow> limb_step" where
  "fe_floor i = Carry i (fe_width i) 0 (i + 1) 1"

definition fe_tobytes_chain :: "limb_step list" where
  "fe_tobytes_chain = map fe_floor [0, 1, 2, 3, 4, 5, 6, 7, 8] @ [Chop 9 25]"

text \<open>
  The left shifts of limbs into the next byte. Shifting a bit into or past the sign of an \<^verbatim>\<open>int32_t\<close> is undefined in C11, and two's
  complement in C++20 and in the documentation of the compilers in use: both readings are arguments of \<open>fe_pack\<close>,
  \<open>fe_tobytes\<close> is the code with the second one. It is the only place where these readings differ.
\<close>

definition shl_wraps :: "int \<Rightarrow> nat \<Rightarrow> int option" where
  "shl_wraps x n = Some (signed_take_bit 31 (push_bit n x))"

definition shl_checked :: "int \<Rightarrow> nat \<Rightarrow> int option" where
  "shl_checked x n = cint 32 (push_bit n x)"

definition out_or :: "int \<Rightarrow> nat \<Rightarrow> int \<Rightarrow> u8" where
  "out_or x m y = word_of_int (drop_bit m x OR y)"

definition fe_pack :: "(int \<Rightarrow> nat \<Rightarrow> int option) \<Rightarrow> int list \<Rightarrow> bytes option" where
  "fe_pack shl h = do {
     h1 \<leftarrow> shl (h!1) 2;
     h2 \<leftarrow> shl (h!2) 3;
     h3 \<leftarrow> shl (h!3) 5;
     h4 \<leftarrow> shl (h!4) 6;
     h6 \<leftarrow> shl (h!6) 1;
     h7 \<leftarrow> shl (h!7) 3;
     h8 \<leftarrow> shl (h!8) 4;
     h9 \<leftarrow> shl (h!9) 6;
     Some
     [out1 (h!0) 0, out1 (h!0) 8, out1 (h!0) 16, out_or (h!0) 24 h1, out1 (h!1) 6,
      out1 (h!1) 14, out_or (h!1) 22 h2, out1 (h!2) 5, out1 (h!2) 13, out_or (h!2) 21 h3,
      out1 (h!3) 3, out1 (h!3) 11, out_or (h!3) 19 h4, out1 (h!4) 2, out1 (h!4) 10,
      out1 (h!4) 18, out1 (h!5) 0, out1 (h!5) 8, out1 (h!5) 16, out_or (h!5) 24 h6,
      out1 (h!6) 7, out1 (h!6) 15, out_or (h!6) 23 h7, out1 (h!7) 5, out1 (h!7) 13,
      out_or (h!7) 21 h8, out1 (h!8) 4, out1 (h!8) 12, out_or (h!8) 20 h9, out1 (h!9) 2,
      out1 (h!9) 10, out1 (h!9) 18] }"

definition fe_tobytes_by :: "(int \<Rightarrow> nat \<Rightarrow> int option) \<Rightarrow> fe \<Rightarrow> bytes option" where
  "fe_tobytes_by shl h =
     do { h \<leftarrow> fe_load h;
          q \<leftarrow> fe_q h;
          m \<leftarrow> cint 32 (19 * q);
          h0 \<leftarrow> cint 32 (h ! 0 + m);
          h \<leftarrow> limb_run 32 fe_tobytes_chain (h[0 := h0]);
          fe_pack shl h }"

definition fe_tobytes :: "fe \<Rightarrow> bytes option" where
  "fe_tobytes h = fe_tobytes_by shl_wraps h"

definition fe_isnegative :: "fe \<Rightarrow> int option" where
  "fe_isnegative f = do { s \<leftarrow> fe_tobytes f; Some (uint (s ! 0 AND 1)) }"

definition fe_isnonzero :: "fe \<Rightarrow> int option" where
  "fe_isnonzero f =
     do { s \<leftarrow> fe_tobytes f;
          Some (bytes_nonzero s) }"


section \<open>Reading\<close>

lemma sint_push_load_3:
  assumes "k + 3 \<le> length s" and "n \<le> 8"
  shows "sint (push_bit n (load_3 s k)) = le_value (take 3 (drop k s)) * 2 ^ n"
    and "0 \<le> le_value (take 3 (drop k s)) * 2 ^ n" "le_value (take 3 (drop k s)) * 2 ^ n < 2 ^ (24 + n)"
proof -
  let ?x = "le_value (take 3 (drop k s))"
  have x: "uint (load_3 s k) = ?x" using assms by (simp add: uint_load_3 le_value_slice)
  have ub: "?x < 2 ^ 24" using le_value_upper [of "take 3 (drop k s)"] assms by simp
  then have m: "?x * 2 ^ n < 2 ^ 24 * 2 ^ n" by simp
  then show "?x * 2 ^ n < 2 ^ (24 + n)" by (simp add: power_add)
  show "0 \<le> ?x * 2 ^ n" by simp
  have "(2 :: int) ^ 24 * 2 ^ n \<le> 2 ^ 24 * 2 ^ 8" using assms(2) by (intro mult_left_mono power_increasing) auto
  with m have small: "?x * 2 ^ n < 2 ^ 24 * 2 ^ 8" by (rule order.strict_trans2)
  have "uint (push_bit n (load_3 s k)) = take_bit 64 (?x * 2 ^ n)"
    by (simp only: unsigned_push_bit_eq x) (simp add: push_bit_eq_mult)
  also have "\<dots> = ?x * 2 ^ n" using small by (intro take_bit_int_eq_self) simp_all
  finally show "sint (push_bit n (load_3 s k)) = ?x * 2 ^ n" using small sint_small by simp
qed

lemma sint_load_4:
  assumes "k + 4 \<le> length s"
  shows "sint (load_4 s k) = le_value (take 4 (drop k s))" "le_value (take 4 (drop k s)) < 2 ^ 32"
proof -
  let ?x = "le_value (take 4 (drop k s))"
  show ub: "?x < 2 ^ 32" using le_value_upper [of "take 4 (drop k s)"] assms by simp
  have x: "uint (load_4 s k) = ?x" using assms by (simp add: uint_load_4 le_value_slice)
  then show "sint (load_4 s k) = ?x" using ub sint_small [of "load_4 s k"] by simp
qed

lemma sint_load_3_masked:
  assumes "k + 3 \<le> length s"
  shows "sint (push_bit 2 (load_3 s k AND 8388607)) = take_bit 23 (le_value (take 3 (drop k s))) * 2 ^ 2"
proof -
  let ?x = "take_bit 23 (le_value (take 3 (drop k s)))"
  have m: "(8388607 :: u64) = mask 23" by (simp add: mask_eq_exp_minus_1)
  have x: "uint (load_3 s k AND 8388607) = ?x"
    unfolding m take_bit_eq_mask [symmetric]
    using assms by (simp add: unsigned_take_bit_eq uint_load_3 le_value_slice)
  have small: "?x < 2 ^ 23" by (rule take_bit_int_less_exp)
  have "uint (push_bit 2 (load_3 s k AND 8388607)) = take_bit 64 (?x * 2 ^ 2)"
    by (simp only: unsigned_push_bit_eq x) (simp add: push_bit_eq_mult)
  also have "\<dots> = ?x * 2 ^ 2" using small by (intro take_bit_int_eq_self) simp_all
  finally show ?thesis using small sint_small by simp
qed

lemma le_value_split: "k + n \<le> length s \<Longrightarrow>
  le_value (drop k s) = le_value (take n (drop k s)) + 256 ^ n * le_value (drop (k + n) s)"
  using le_value_append [of "take n (drop k s)" "drop n (drop k s)"]
  by (simp only: append_take_drop_id) (simp add: add.commute min_def)

lemma fe_val_limbs:
  "limb_val fe_wt 10 s = s!0 + 2 ^ 26 * s!1 + 2 ^ 51 * s!2 + 2 ^ 77 * s!3 + 2 ^ 102 * s!4 + 2 ^ 128 * s!5
     + 2 ^ 153 * s!6 + 2 ^ 179 * s!7 + 2 ^ 204 * s!8 + 2 ^ 230 * s!9"
proof -
  have "limb_val fe_wt 10 s = (\<Sum>k\<leftarrow>[0..<10]. s ! k * fe_wt k)"
    by (simp add: limb_val_def interv_sum_list_conv_sum_set_nat atLeast0LessThan)
  then show ?thesis unfolding upt_10 by (simp add: fe_wt_def)
qed

lemma fe_load10_value:
  assumes "length s = 32"
  shows "limb_val fe_wt 10 (fe_load10 s) = le_value s mod 2 ^ 255"
proof -
  define D Q where "D k = le_value (drop k s)" and "Q k n = le_value (take n (drop k s))" for k n
  have sp: "k + n \<le> 32 \<Longrightarrow> D k = Q k n + 256 ^ n * D (k + n)" for k n
    unfolding D_def Q_def using le_value_split [of k n s] assms by simp
  have D: "D 0 = le_value s" "D 32 = 0" using assms by (simp_all add: D_def)
  let ?A = "Q 0 4 + 2 ^ 32 * Q 4 3 + 2 ^ 56 * Q 7 3 + 2 ^ 80 * Q 10 3 + 2 ^ 104 * Q 13 3
      + 2 ^ 128 * Q 16 4 + 2 ^ 160 * Q 20 3 + 2 ^ 184 * Q 23 3 + 2 ^ 208 * Q 26 3"
  have s: "le_value s = ?A + 2 ^ 232 * Q 29 3"
    using sp [of 0 4] sp [of 4 3] sp [of 7 3] sp [of 10 3] sp [of 13 3] sp [of 16 4] sp [of 20 3]
      sp [of 23 3] sp [of 26 3] sp [of 29 3] D by simp
  have q: "k + 3 \<le> 32 \<Longrightarrow> n \<le> 8 \<Longrightarrow> sint (push_bit n (load_3 s k)) = Q k 3 * 2 ^ n"
    "k + 4 \<le> 32 \<Longrightarrow> sint (load_4 s k) = Q k 4"
    "k + 3 \<le> 32 \<Longrightarrow> sint (push_bit 2 (load_3 s k AND 8388607)) = take_bit 23 (Q k 3) * 2 ^ 2" for k n
    using assms by (simp_all only: Q_def sint_push_load_3 sint_load_4 sint_load_3_masked)
  have l: "fe_load10 s = [Q 0 4, Q 4 3 * 2 ^ 6, Q 7 3 * 2 ^ 5, Q 10 3 * 2 ^ 3, Q 13 3 * 2 ^ 2, Q 16 4,
      Q 20 3 * 2 ^ 7, Q 23 3 * 2 ^ 5, Q 26 3 * 2 ^ 4, take_bit 23 (Q 29 3) * 2 ^ 2]"
    unfolding fe_load10_def by (intro arg_cong2 [of _ _ _ _ Cons] refl q) simp_all
  have "limb_val fe_wt 10 (fe_load10 s) = ?A + 2 ^ 232 * take_bit 23 (Q 29 3)"
    unfolding l fe_val_limbs by simp
  also have "\<dots> = le_value s mod 2 ^ 255"
  proof -
    have Q: "0 \<le> Q k n" "Q k n < 256 ^ n" if "k + n \<le> 32" for k n
      using le_value_upper [of "take n (drop k s)"] that assms by (simp_all add: Q_def)
    have A: "0 \<le> ?A \<and> ?A < 2 ^ 232"
      using Q [of 0 4] Q [of 4 3] Q [of 7 3] Q [of 10 3] Q [of 13 3] Q [of 16 4] Q [of 20 3] Q [of 23 3]
        Q [of 26 3] by simp
    have "(?A + 2 ^ 232 * Q 29 3) mod (2 ^ 232 * 2 ^ 23)
        = 2 ^ 232 * ((?A + 2 ^ 232 * Q 29 3) div 2 ^ 232 mod 2 ^ 23) + (?A + 2 ^ 232 * Q 29 3) mod 2 ^ 232"
      by (rule zmod_zmult2_eq) simp
    also have "(?A + 2 ^ 232 * Q 29 3) div 2 ^ 232 = Q 29 3" using A by simp
    also have "(?A + 2 ^ 232 * Q 29 3) mod 2 ^ 232 = ?A" using A by simp
    finally show ?thesis unfolding s by (simp add: take_bit_eq_mod)
  qed
  finally show ?thesis .
qed

lemma fe_load10_within:
  assumes "length s = 32"
  shows "within (fe_load10 s) [(0, 2 ^ 32 - 1), (0, 2 ^ 30 - 1), (0, 2 ^ 29 - 1), (0, 2 ^ 27 - 1), (0, 2 ^ 26 - 1),
    (0, 2 ^ 32 - 1), (0, 2 ^ 31 - 1), (0, 2 ^ 29 - 1), (0, 2 ^ 28 - 1), (0, 2 ^ 25 - 1)]"
proof -
  have l4: "inside (sint (load_4 s k)) (0, 2 ^ 32 - 1)" if "k + 4 \<le> 32" for k
    using sint_load_4 [of k s] that assms by (simp add: inside_def)
  have l3: "inside (sint (push_bit n (load_3 s k))) (0, 2 ^ m - 1)" if "k + 3 \<le> 32" "n \<le> 8" "m = 24 + n" for k n m
    using sint_push_load_3 [of k s n] that assms by (simp add: inside_def)
  have l9: "inside (sint (push_bit 2 (load_3 s 29 AND 8388607))) (0, 2 ^ 25 - 1)"
    using sint_load_3_masked [of 29 s] take_bit_int_less_exp [of 23 "le_value (take 3 (drop 29 s))"] assms
    by (simp add: inside_def)
  show ?thesis
    unfolding fe_load10_def within_Cons by (intro conjI l4 l3 l9 within_Nil) simp_all
qed

lemma fe_frombytes_chain_ok:
  "fe_chain_ok fe_frombytes_chain [(0, 2 ^ 32 - 1), (0, 2 ^ 30 - 1), (0, 2 ^ 29 - 1), (0, 2 ^ 27 - 1), (0, 2 ^ 26 - 1),
    (0, 2 ^ 32 - 1), (0, 2 ^ 31 - 1), (0, 2 ^ 29 - 1), (0, 2 ^ 28 - 1), (0, 2 ^ 25 - 1)]"
  by code_simp

lemma fe_frombytes_rep:
  assumes "length s = 32"
  shows "\<exists>h. fe_frombytes s = Some h \<and> fe_rep fe_tight h (le_value s mod 2 ^ 255)"
  using fe_chain_correct [OF fe_frombytes_chain_ok fe_load10_within [OF assms]] assms
  by (simp add: fe_frombytes_def fe_load10_value)


section \<open>The quotient\<close>

lemma fe_wt_Suc: "fe_wt (Suc k) = 2 ^ fe_width k * fe_wt k"
proof -
  have "fe_wt k * fe_wt 1 = (if odd k then 2 else 1) * fe_wt (Suc k)" using fe_wt_add [of k 1] by simp
  moreover have "fe_wt 1 = 2 ^ 26" by (simp add: fe_wt_def)
  ultimately show ?thesis by (simp add: fe_width_def split: if_splits)
qed

lemma fe_wt_pos [simp]: "0 < fe_wt k"
  by (simp add: fe_wt_def)

lemma shift_small:
  assumes "\<bar>x\<bar> \<le> 2 ^ 28" and "25 \<le> w"
  shows "\<bar>x div 2 ^ w\<bar> \<le> (2 :: int) ^ 26"
proof -
  have w: "(2 :: int) ^ 25 \<le> 2 ^ w" using assms(2) by (intro power_increasing) auto
  then have p: "(0 :: int) < 2 ^ w" by simp
  have "x div 2 ^ w < 2 ^ 3 + 1"
    using w assms(1) by (intro zdiv_upper p) (simp add: abs_le_iff)
  moreover have "(- (2 ^ 3)) \<le> x div 2 ^ w"
  proof -
    have "(- 8 * 2 ^ w) div 2 ^ w \<le> x div 2 ^ w"
      using w assms(1) by (intro zdiv_mono1 p) (simp add: abs_le_iff)
    moreover have "(- 8 * 2 ^ w) div 2 ^ w = (- 8 :: int)" by (rule nonzero_mult_div_cancel_right) simp
    ultimately show ?thesis by simp
  qed
  ultimately show ?thesis by simp
qed

lemma fe_q_loop_value:
  assumes "\<And>i. i < 10 \<Longrightarrow> \<bar>h ! i\<bar> \<le> 2 ^ 27" and "k \<le> 10"
    and "q = (limb_val fe_wt k h + c) div fe_wt k" and "\<bar>q\<bar> \<le> 2 ^ 26"
  shows "fe_q_loop h [k..<10] q = Some ((limb_val fe_wt 10 h + c) div fe_wt 10)
    \<and> \<bar>(limb_val fe_wt 10 h + c) div fe_wt 10\<bar> \<le> 2 ^ 26"
  using assms(2-4)
proof (induction k arbitrary: q rule: inc_induct)
  case base
  then show ?case by simp
next
  case (step k)
  let ?t = "h ! k + q" and ?w = "fe_width k"
  have small: "\<bar>?t\<bar> \<le> 2 ^ 28" using assms(1) [of k] step by (simp add: abs_le_iff)
  then have "cint 32 ?t = Some ?t" by (intro cint_abs_Some) simp
  moreover have "?t div 2 ^ ?w = (limb_val fe_wt (Suc k) h + c) div fe_wt (Suc k)"
  proof -
    have "limb_val fe_wt (Suc k) h + c = (limb_val fe_wt k h + c) + h ! k * fe_wt k"
      by (simp add: limb_val_Suc)
    then have "(limb_val fe_wt (Suc k) h + c) div fe_wt k = ?t"
      unfolding step.prems(1)
      using div_mult_self1 [of "fe_wt k" "limb_val fe_wt k h + c" "h ! k"] fe_wt_pos [of k]
      by (simp add: add_ac)
    then show ?thesis unfolding fe_wt_Suc by (simp add: mult.commute [of "2 ^ ?w"] zdiv_zmult2_eq)
  qed
  moreover have "\<bar>?t div 2 ^ ?w\<bar> \<le> 2 ^ 26" using small by (rule shift_small) (simp add: fe_width_def)
  moreover have "[k..<10] = k # [Suc k..<10]" using step by (simp add: upt_conv_Cons)
  ultimately show ?case using step.IH by simp
qed

text \<open>The basic claim of the source: the loop computes \<open>\<lfloor>h / p\<rfloor>\<close>.\<close>

lemma fe_quotient_range:
  fixes L h9 Q r C :: int
  assumes "L + 2 ^ 230 * h9 = (2 ^ 255 - 19) * Q + r" and "0 \<le> r" "r < 2 ^ 255 - 19"
    and "L \<le> 2 ^ 231" "- (2 ^ 231) \<le> L" "h9 \<le> 2 ^ 27" "- (2 ^ 27) \<le> h9"
    and "2 ^ 25 * C \<le> 19 * h9 + 2 ^ 24" "19 * h9 + 2 ^ 24 < 2 ^ 25 * C + 2 ^ 25"
  shows "0 \<le> r + C - 19 * Q" and "r + C - 19 * Q < 2 ^ 255"
  using assms by simp_all

lemma fe_quotient:
  assumes "\<bar>L\<bar> \<le> 2 ^ 231" and "\<bar>h9\<bar> \<le> 2 ^ 27"
  shows "(L + 2 ^ 230 * h9 + (19 * h9 + 2 ^ 24) div 2 ^ 25) div 2 ^ 255 = (L + 2 ^ 230 * h9) div fe_p"
proof -
  let ?H = "L + 2 ^ 230 * h9" and ?c = "(19 * h9 + 2 ^ 24) div 2 ^ 25"
  let ?Q = "?H div fe_p" and ?r = "?H mod fe_p"
  have H: "?H = (2 ^ 255 - 19) * ?Q + ?r" by (simp only: fe_p_def mult_div_mod_eq)
  have r: "0 \<le> ?r" "?r < 2 ^ 255 - 19" by (simp_all add: fe_p_def)
  have c: "2 ^ 25 * ?c \<le> 19 * h9 + 2 ^ 24" "19 * h9 + 2 ^ 24 < 2 ^ 25 * ?c + 2 ^ 25"
    by (rule div_bounds, simp)+
  have b: "L \<le> 2 ^ 231" "- (2 ^ 231) \<le> L" "h9 \<le> 2 ^ 27" "- (2 ^ 27) \<le> h9"
    using assms by (simp_all add: abs_le_iff)
  note D = fe_quotient_range [OF H r b c]
  have "?H + ?c = 2 ^ 255 * ?Q + (?r + ?c - 19 * ?Q)"
    using H by (simp only: left_diff_distrib)
  then show ?thesis using D by (intro int_div_pos_eq)
qed

lemma fe_q_correct:
  assumes "fe_bounded fe_loose h"
  shows "\<exists>q. fe_q h = Some q \<and> q = fe_val h div fe_p \<and> \<bar>q\<bar> \<le> 2 ^ 26"
proof -
  let ?L = "limb_val fe_wt 9 h" and ?c = "(19 * h ! 9 + 2 ^ 24) div 2 ^ 25"
  have b: "\<bar>h ! i\<bar> \<le> 2 ^ 27" if "i < 10" for i
    using fe_bounded_abs [OF assms that] by (simp add: fe_loose_def)
  have c: "\<bar>?c\<bar> \<le> 2 ^ 26" using div_bounds [of "2 ^ 25" "19 * h ! 9 + 2 ^ 24"] b [of 9] by (simp add: abs_le_iff)
  have v: "fe_val h = ?L + 2 ^ 230 * h ! 9"
  proof -
    have "fe_val h = limb_val fe_wt (Suc 9) h" by (simp add: fe_val_def)
    then show ?thesis by (simp only: limb_val_Suc) (simp add: fe_wt_def)
  qed
  have L: "\<bar>?L\<bar> \<le> 2 ^ 231"
  proof -
    have n: "\<bar>h ! i\<bar> \<le> fe_loose * fe_scale i" if "i < 10" for i using fe_bounded_nth [OF assms that] .
    have "?L = h!0 + 2 ^ 26 * h!1 + 2 ^ 51 * h!2 + 2 ^ 77 * h!3 + 2 ^ 102 * h!4 + 2 ^ 128 * h!5
       + 2 ^ 153 * h!6 + 2 ^ 179 * h!7 + 2 ^ 204 * h!8"
      using v fe_val_limbs [of h] unfolding fe_val_def by linarith
    then show ?thesis
      using n [of 0] n [of 1] n [of 2] n [of 3] n [of 4] n [of 5] n [of 6] n [of 7] n [of 8]
      by (simp add: fe_loose_def fe_scale_def abs_le_iff)
  qed
  have "fe_q_loop h [0..<10] ?c = Some ((limb_val fe_wt 10 h + ?c) div fe_wt 10)
      \<and> \<bar>(limb_val fe_wt 10 h + ?c) div fe_wt 10\<bar> \<le> 2 ^ 26"
    by (rule fe_q_loop_value) (use b c in \<open>simp_all add: limb_val_def fe_wt_def\<close>)
  moreover have "(limb_val fe_wt 10 h + ?c) div fe_wt 10 = fe_val h div fe_p"
    using fe_quotient [OF L b [of 9]] v by (simp add: fe_val_def fe_wt_def)
  moreover have "fe_q h = fe_q_loop h [0..<10] ?c"
  proof -
    have "cint 32 (19 * h ! 9) = Some (19 * h ! 9)" and "cint 32 (19 * h ! 9 + 2 ^ 24) = Some (19 * h ! 9 + 2 ^ 24)"
      using fe_bounded_abs [OF assms, of 9] by (auto intro!: cint_abs_Some simp: fe_loose_def abs_le_iff abs_less_iff)
    then show ?thesis unfolding fe_q_def upt_10 by simp
  qed
  ultimately show ?thesis by simp
qed


section \<open>Digits\<close>

definition fe_canonical :: "int list \<Rightarrow> bool" where
  "fe_canonical h \<longleftrightarrow> length h = 10 \<and> (\<forall>i<10. 0 \<le> h ! i \<and> h ! i < 2 ^ fe_width i)"

lemma fe_low:
  assumes "fe_canonical h" and "k \<le> 10"
  shows "0 \<le> limb_val fe_wt k h \<and> limb_val fe_wt k h < fe_wt k"
  using assms(2)
proof (induction k)
  case 0
  then show ?case by (simp add: limb_val_def)
next
  case (Suc k)
  then have d: "0 \<le> h ! k" "h ! k < 2 ^ fe_width k" using assms(1) by (auto simp: fe_canonical_def)
  have "(h ! k + 1) * fe_wt k \<le> 2 ^ fe_width k * fe_wt k"
    using d(2) by (intro mult_right_mono) (simp_all add: less_imp_le)
  with Suc d(1) show ?case by (simp add: limb_val_Suc fe_wt_Suc distrib_right)
qed

lemma fe_high: "k \<le> 10 \<Longrightarrow> \<exists>z. limb_val fe_wt 10 h = limb_val fe_wt k h + fe_wt k * z"
proof (induction k rule: inc_induct)
  case base
  then show ?case by (auto intro: exI [of _ 0])
next
  case (step k)
  then obtain z where "limb_val fe_wt 10 h = limb_val fe_wt (Suc k) h + fe_wt (Suc k) * z" by blast
  then have "limb_val fe_wt 10 h = limb_val fe_wt k h + fe_wt k * (h ! k + 2 ^ fe_width k * z)"
    by (simp add: limb_val_Suc fe_wt_Suc algebra_simps)
  then show ?case by blast
qed

lemma fe_digit:
  assumes "fe_canonical h" and "k < 10" and "2 ^ e = fe_wt k"
  shows "h ! k = take_bit (fe_width k) (drop_bit e (limb_val fe_wt 10 h))"
proof -
  obtain z where "limb_val fe_wt 10 h = limb_val fe_wt (Suc k) h + fe_wt (Suc k) * z"
    using fe_high [of "Suc k" h] assms(2) by auto
  then have "limb_val fe_wt 10 h = limb_val fe_wt k h + fe_wt k * (h ! k + 2 ^ fe_width k * z)"
    by (simp add: limb_val_Suc fe_wt_Suc algebra_simps)
  then have "limb_val fe_wt 10 h div fe_wt k = h ! k + 2 ^ fe_width k * z"
    using fe_low [OF assms(1), of k] assms(2) by simp
  then show ?thesis
    using assms by (simp add: take_bit_eq_mod drop_bit_eq_div fe_canonical_def)
qed

text \<open>The bytes without a bound on the shifts.\<close>

definition fe_digits :: "int list \<Rightarrow> bytes" where
  "fe_digits h =
     [out1 (h!0) 0, out1 (h!0) 8, out1 (h!0) 16, out2 (h!0) 24 (h!1) 2, out1 (h!1) 6,
      out1 (h!1) 14, out2 (h!1) 22 (h!2) 3, out1 (h!2) 5, out1 (h!2) 13, out2 (h!2) 21 (h!3) 5,
      out1 (h!3) 3, out1 (h!3) 11, out2 (h!3) 19 (h!4) 6, out1 (h!4) 2, out1 (h!4) 10,
      out1 (h!4) 18, out1 (h!5) 0, out1 (h!5) 8, out1 (h!5) 16, out2 (h!5) 24 (h!6) 1,
      out1 (h!6) 7, out1 (h!6) 15, out2 (h!6) 23 (h!7) 3, out1 (h!7) 5, out1 (h!7) 13,
      out2 (h!7) 21 (h!8) 4, out1 (h!8) 4, out1 (h!8) 12, out2 (h!8) 20 (h!9) 6, out1 (h!9) 2,
      out1 (h!9) 10, out1 (h!9) 18]"

lemma fe_digits_bytes:
  assumes "fe_canonical h"
  shows "fe_digits h = le_bytes 32 (limb_val fe_wt 10 h)"
proof -
  let ?v = "limb_val fe_wt 10 h"
  note d = fe_digit [OF assms]
  have h: "h ! 0 = take_bit 26 (drop_bit 0 ?v)" "h ! 1 = take_bit 25 (drop_bit 26 ?v)"
    "h ! 2 = take_bit 26 (drop_bit 51 ?v)" "h ! 3 = take_bit 25 (drop_bit 77 ?v)"
    "h ! 4 = take_bit 26 (drop_bit 102 ?v)" "h ! 5 = take_bit 25 (drop_bit 128 ?v)"
    "h ! 6 = take_bit 26 (drop_bit 153 ?v)" "h ! 7 = take_bit 25 (drop_bit 179 ?v)"
    "h ! 8 = take_bit 26 (drop_bit 204 ?v)"
    using d [of 0 0] d [of 1 26] d [of 2 51] d [of 3 77] d [of 4 102] d [of 5 128] d [of 6 153] d [of 7 179]
      d [of 8 204] by (simp_all add: fe_wt_def fe_width_def)
  have "?v < 2 ^ (230 + 25)" and "0 \<le> ?v" using fe_low [OF assms, of 10] by (simp_all add: fe_wt_def)
  then have "drop_bit 230 ?v < 2 ^ 25" by (simp only: drop_bit_eq_div power_add zdiv_upper) simp
  then have "take_bit 25 (drop_bit 230 ?v) = drop_bit 230 ?v" using \<open>0 \<le> ?v\<close> by (simp add: take_bit_int_eq_self)
  then have h9: "h ! 9 = drop_bit 230 ?v" using d [of 9 230] by (simp add: fe_wt_def fe_width_def)
  note h = h h9
  have "fe_digits h = map (\<lambda>k. word_of_int (drop_bit (8 * k) ?v)) [0, 1, 2, 3, 4, 5, 6, 7, 8, 9, 10,
      11, 12, 13, 14, 15, 16, 17, 18, 19, 20, 21, 22, 23, 24, 25, 26, 27, 28, 29, 30, 31]"
    unfolding fe_digits_def list.map list.inject
    by (intro conjI refl)
      ((rule out1_byte, rule h, simp, simp) | (rule out1_top_byte, rule h, simp)
        | (rule out2_byte, rule h, rule h, simp, simp, simp, simp, simp)
        | (rule out2_top_byte, rule h, rule h, simp, simp, simp, simp))+
  also have "\<dots> = le_bytes 32 ?v"
    unfolding le_bytes_map by (simp add: upt_rec)
  finally show ?thesis .
qed



lemma out_or_wraps: "out_or x m (signed_take_bit 31 (push_bit n y)) = out2 x m y n"
  unfolding out_or_def out2_def by (rule bit_word_eqI) (auto simp: bit_simps min_def)

lemma out_or_exact: "out_or x m (push_bit n y) = out2 x m y n"
  by (simp add: out_or_def out2_def)

lemma fe_pack_wraps: "fe_canonical h \<Longrightarrow> fe_pack shl_wraps h = Some (le_bytes 32 (limb_val fe_wt 10 h))"
  unfolding fe_pack_def shl_wraps_def bind.bind_lunit out_or_wraps fe_digits_def [symmetric] by (simp only: fe_digits_bytes)

text \<open>Of the eight shifts one can overflow, the one of \<open>h4\<close>, and it does exactly if bit 127 of the number is set.\<close>

lemma shl_checked_small:
  assumes "0 \<le> x" and "x < 2 ^ w" and "w + n \<le> 31"
  shows "shl_checked x n = Some (push_bit n x)"
proof -
  have "x * 2 ^ n < 2 ^ w * 2 ^ n" using assms(2) by simp
  also have "(2 :: int) ^ w * 2 ^ n \<le> 2 ^ 31" unfolding power_add [symmetric] using assms(3) by (intro power_increasing) simp_all
  finally have "x * 2 ^ n < 2 ^ 31" .
  moreover have "0 \<le> x * 2 ^ n" using assms(1) by simp
  ultimately show ?thesis unfolding shl_checked_def push_bit_eq_mult by (intro cint_Some) simp_all
qed

lemma fe_pack_checked:
  assumes "fe_canonical h"
  shows "fe_pack shl_checked h = (if bit (limb_val fe_wt 10 h) 127 then None else Some (le_bytes 32 (limb_val fe_wt 10 h)))"
proof -
  let ?v = "limb_val fe_wt 10 h"
  have d: "0 \<le> h ! i" "h ! i < 2 ^ fe_width i" if "i < 10" for i using assms that by (simp_all add: fe_canonical_def)
  have s: "shl_checked (h!1) 2 = Some (push_bit 2 (h!1))" "shl_checked (h!2) 3 = Some (push_bit 3 (h!2))"
    "shl_checked (h!3) 5 = Some (push_bit 5 (h!3))" "shl_checked (h!6) 1 = Some (push_bit 1 (h!6))"
    "shl_checked (h!7) 3 = Some (push_bit 3 (h!7))" "shl_checked (h!8) 4 = Some (push_bit 4 (h!8))"
    "shl_checked (h!9) 6 = Some (push_bit 6 (h!9))"
    by (rule shl_checked_small [OF d]; simp add: fe_width_def)+
  have "h ! 4 = take_bit 26 (drop_bit 102 ?v)" using fe_digit [OF assms, of 4 102] by (simp add: fe_wt_def fe_width_def)
  then have b: "bit ?v 127 \<longleftrightarrow> bit (h ! 4) 25" by (simp add: bit_take_bit_iff bit_drop_bit_eq)
  have w: "h ! 4 < 2 ^ 26" "0 \<le> h ! 4" using d [of 4] by (simp_all add: fe_width_def)
  have "bit (h ! 4) 25 \<longleftrightarrow> 2 ^ 25 \<le> h ! 4"
  proof -
    have "h ! 4 div 2 ^ 25 < 2" using w by simp
    moreover have "0 \<le> h ! 4 div 2 ^ 25" using w by simp
    ultimately have "h ! 4 div 2 ^ 25 = 0 \<or> h ! 4 div 2 ^ 25 = 1" by linarith
    then have "odd (h ! 4 div 2 ^ 25) \<longleftrightarrow> h ! 4 div 2 ^ 25 = 1" by auto
    also have "\<dots> \<longleftrightarrow> 2 ^ 25 \<le> h ! 4" using w by auto
    finally show ?thesis by (simp only: bit_iff_odd)
  qed
  then have "shl_checked (h!4) 6 = (if bit ?v 127 then None else Some (push_bit 6 (h!4)))"
    using b w by (auto simp: shl_checked_def push_bit_eq_mult cint_def)
  then show ?thesis
    unfolding fe_pack_def s bind.bind_lunit out_or_exact
    by (cases "bit ?v 127") (simp_all only: if_True if_False bind.bind_lzero bind.bind_lunit out_or_exact fe_digits_def [symmetric] fe_digits_bytes [OF assms])
qed


section \<open>Writing\<close>

definition fe_floor_ok :: "limb_step \<Rightarrow> bool" where
  "fe_floor_ok st = list_ex (\<lambda>i. st = fe_floor i) [0..<9]"

interpretation fe_exact: limb_system fe_wt 0 fe_floor_ok
  by unfold_locales (auto simp: fe_floor_ok_def list_ex_iff fe_floor_def fe_wt_Suc simp del: upt_Suc)

definition fe_tobytes_in :: "interval list" where
  "fe_tobytes_in = (- (2 ^ 27 + 19 * 2 ^ 26), 2 ^ 27 + 19 * 2 ^ 26) # replicate 9 (- (2 ^ 27), 2 ^ 27)"

definition fe_tobytes_out :: "interval list" where
  "fe_tobytes_out = map (\<lambda>i. (0, 2 ^ fe_width i - 1)) [0..<10]"

lemma fe_tobytes_bounds: "limb_bounds (2 ^ 31) fe_tobytes_chain fe_tobytes_in = Some fe_tobytes_out"
  by code_simp

lemma fe_floor_live: "limb_live fe_floor_ok (map fe_floor [0, 1, 2, 3, 4, 5, 6, 7, 8]) 10 = Some 10"
  by code_simp

lemma within_canonical: "within h fe_tobytes_out \<Longrightarrow> fe_canonical h"
  by (auto simp: within_def list_all2_conv_all_nth fe_tobytes_out_def fe_canonical_def inside_def
      simp del: upt_Suc)

lemma fe_tobytes_run:
  assumes "within s fe_tobytes_in"
  shows "\<exists>r. limb_run 32 fe_tobytes_chain s = Some r \<and> fe_canonical r
    \<and> limb_val fe_wt 10 r = limb_val fe_wt 10 s mod 2 ^ 255"
proof -
  from limb_bounds_sound [of 32 fe_tobytes_chain fe_tobytes_in] fe_tobytes_bounds assms obtain r
    where r: "limb_run 32 fe_tobytes_chain s = Some r" and "within r fe_tobytes_out" by fastforce
  then have can: "fe_canonical r" by (simp add: within_canonical)
  from r obtain t where t: "limb_run 32 (map fe_floor [0, 1, 2, 3, 4, 5, 6, 7, 8]) s = Some t"
    and c: "limb_exec 32 (Chop 9 25) t = Some r"
    unfolding fe_tobytes_chain_def limb_run_append by (auto split: bind_splits simp del: limb_exec.simps)
  have ls: "length s = 10" using within_length [OF assms] by (simp add: fe_tobytes_in_def)
  have lt: "length t = 10" using limb_run_length [OF t] ls by simp
  have vt: "limb_val fe_wt 10 t = limb_val fe_wt 10 s"
    using fe_exact.run_preserves [OF t fe_floor_live] ls by simp
  let ?k = "t ! 9 div 2 ^ 25"
  from c have "r = t[9 := t ! 9 - ?k * 2 ^ 25]"
    by (auto split: if_splits bind_splits simp: Let_def dest!: cint_SomeD)
  then have "limb_val fe_wt 10 r = limb_val fe_wt 10 t - ?k * 2 ^ 255"
    using lt by (simp add: limb_val_def sum_update) (simp add: fe_wt_def)
  then have "limb_val fe_wt 10 r mod 2 ^ 255 = limb_val fe_wt 10 s mod 2 ^ 255"
    unfolding vt by (intro mod_eqI) simp
  moreover have "limb_val fe_wt 10 r mod 2 ^ 255 = limb_val fe_wt 10 r"
    using fe_low [OF can, of 10] by (simp add: fe_wt_def)
  ultimately show ?thesis using r can by simp
qed

lemma fe_tobytes_packs:
  assumes "fe_rep b h x" and "b \<le> fe_loose"
  obtains r where "\<And>shl. fe_tobytes_by shl h = fe_pack shl r" and "fe_canonical r" and "limb_val fe_wt 10 r = x mod fe_p"
proof -
  have bh: "fe_bounded fe_loose h" using assms by (auto simp: fe_rep_def intro: fe_bounded_mono)
  obtain q where q: "fe_q h = Some q" "q = fe_val h div fe_p" "\<bar>q\<bar> \<le> 2 ^ 26"
    using fe_q_correct [OF bh] by blast
  have len: "length h = 10" using fe_bounded_length [OF bh] .
  have n: "\<bar>h ! i\<bar> \<le> 2 ^ 27" if "i < 10" for i
    using fe_bounded_abs [OF bh that] by (simp add: fe_loose_def)
  let ?s = "h[0 := h ! 0 + 19 * q]"
  have c1: "cint 32 (19 * q) = Some (19 * q)" and c2: "cint 32 (h ! 0 + 19 * q) = Some (h ! 0 + 19 * q)"
    using q(3) n [of 0] by (auto intro!: cint_abs_Some simp: abs_le_iff abs_less_iff)
  have w: "within ?s fe_tobytes_in"
  proof -
    have "inside (?s ! i) (fe_tobytes_in ! i)" if "i < 10" for i
      using n [OF that] n [of 0] q(3) that len
      by (cases i) (auto simp: inside_def fe_tobytes_in_def abs_le_iff)
    then show ?thesis using len by (simp add: within_def list_all2_conv_all_nth fe_tobytes_in_def)
  qed
  from fe_tobytes_run [OF w] obtain r where r: "limb_run 32 fe_tobytes_chain ?s = Some r" "fe_canonical r"
    and v: "limb_val fe_wt 10 r = limb_val fe_wt 10 ?s mod 2 ^ 255" by blast
  have "limb_val fe_wt 10 ?s = fe_val h + 19 * q"
    using len by (simp add: fe_val_def limb_val_def sum_update) (simp add: fe_wt_def)
  also have "\<dots> = fe_val h mod fe_p + q * 2 ^ 255"
    using mult_div_mod_eq [of fe_p "fe_val h"] 
    unfolding q(2) fe_p_def left_diff_distrib mult.commute [of _ "2 ^ 255"] by linarith
  finally have "limb_val fe_wt 10 r = fe_val h mod fe_p mod 2 ^ 255" unfolding v by simp
  also have "\<dots> = fe_val h mod fe_p"
    using pos_mod_bound [of fe_p "fe_val h"] pos_mod_sign [of fe_p "fe_val h"]
    by (intro mod_pos_pos_trivial) (simp_all add: fe_p_def)
  also have "\<dots> = x mod fe_p" using assms(1) by (simp add: fe_rep_def)
  finally have "limb_val fe_wt 10 r = x mod fe_p" .
  moreover have "fe_tobytes_by shl h = fe_pack shl r" for shl
    using fe_rep_load [OF assms(1)] q(1) c1 c2 r(1) by (simp add: fe_tobytes_by_def)
  ultimately show ?thesis using that r(2) by blast
qed

lemma fe_tobytes_correct:
  assumes "fe_rep b h x" and "b \<le> fe_loose"
  shows "fe_tobytes h = Some (le_bytes 32 (x mod fe_p))"
  using fe_tobytes_packs [OF assms] fe_pack_wraps unfolding fe_tobytes_def by metis


lemma fe_p_bound: "0 \<le> x mod fe_p" "x mod fe_p < 256 ^ 32"
proof -
  have "x mod fe_p < fe_p" "0 \<le> x mod fe_p" by (simp_all add: fe_p_def)
  then show "0 \<le> x mod fe_p" "x mod fe_p < 256 ^ 32" by (simp_all add: fe_p_def)
qed

lemma fe_isnegative_correct:
  assumes "fe_rep b f x" and "b \<le> fe_loose"
  shows "fe_isnegative f = Some (x mod fe_p mod 2)"
proof -
  have "le_bytes 32 (x mod fe_p) ! 0 = word_of_int (x mod fe_p)"
    using le_bytes_nth [of 0 32 "x mod fe_p"] by simp
  moreover have "uint (word_of_int (x mod fe_p) AND 1 :: u8) = x mod fe_p mod 2"
    by (simp add: and_one_eq word_mod_def uint_word_of_int) (simp add: mod_mod_cancel)
  ultimately show ?thesis using fe_tobytes_correct [OF assms] by (simp add: fe_isnegative_def)
qed

lemma fe_isnonzero_correct:
  assumes "fe_rep b f x" and "b \<le> fe_loose"
  shows "fe_isnonzero f = Some (if fe_p dvd x then 0 else 1)"
proof -
  have "le_value (le_bytes 32 (x mod fe_p)) = x mod fe_p"
    using fe_p_bound [of x] by (simp add: le_value_le_bytes)
  then show ?thesis
    using fe_tobytes_correct [OF assms] bytes_nonzero_correct [of "le_bytes 32 (x mod fe_p)"]
    by (simp add: fe_isnonzero_def dvd_eq_mod_eq_0)
qed



section \<open>Properties\<close>

text \<open>
  C29 (fe_mul_residue). With both arguments within the bounds of its precondition, \<^verbatim>\<open>fe_mul\<close> does not
  overflow in any of its 32-bit precomputations, 64-bit columns, carries and stores; its result
  meets the postcondition and is the product modulo \<open>p\<close>.
\<close>

theorem fe_mul_residue:
  assumes "fe_bounded fe_loose f" and "fe_bounded fe_loose g"
  shows "\<exists>h. fe_mul f g = Some h \<and> fe_bounded fe_tight h \<and> fe_val h mod fe_p = fe_val f * fe_val g mod fe_p"
  using fe_mul_rep [OF fe_rep_self [OF assms(1)] _ fe_rep_self [OF assms(2)]] by (auto simp: fe_rep_def)

theorem fe_mul_residue_witness:
  "\<exists>h. fe_mul (replicate 10 fe_loose) (replicate 10 (- fe_loose)) = Some h \<and> fe_bounded fe_tight h
    \<and> fe_val h mod fe_p = fe_val (replicate 10 fe_loose) * fe_val (replicate 10 (- fe_loose)) mod fe_p"
proof -
  have "fe_bounded fe_loose (replicate 10 fe_loose)" and "fe_bounded fe_loose (replicate 10 (- fe_loose))"
    by code_simp+
  then show ?thesis by (rule fe_mul_residue)
qed

text \<open>
  \<^verbatim>\<open>fe_sq\<close>, with its own table of 55 products, returns limb for limb what
  \<^verbatim>\<open>fe_mul\<close> returns on equal arguments.
\<close>

theorem fe_sq_is_mul:
  assumes "fe_bounded fe_loose f"
  shows "fe_sq f = fe_mul f f"
  using fe_sq_columns [OF assms] fe_mul_columns(1) [OF assms assms] by simp

theorem fe_sq_is_mul_witness: "fe_sq (replicate 10 fe_loose) = fe_mul (replicate 10 fe_loose) (replicate 10 fe_loose)"
proof -
  have "fe_bounded fe_loose (replicate 10 fe_loose)" by code_simp
  then show ?thesis by (rule fe_sq_is_mul)
qed

text \<open>
  \<^verbatim>\<open>fe_invert\<close> computes the power \<open>p - 2\<close>, and \<^verbatim>\<open>fe_divpowm1\<close> the square
  root candidate \<open>u v\<^sup>3 (u v\<^sup>7)\<close> to the power \<open>(p - 5) / 8\<close>, without overflow.
\<close>

theorem fe_invert_power:
  assumes "fe_bounded fe_loose u" and "fe_bounded fe_loose v"
  shows "(\<exists>h. fe_invert u = Some h \<and> fe_bounded fe_tight h \<and> fe_val h mod fe_p = fe_val u ^ nat (fe_p - 2) mod fe_p)
    \<and> (\<exists>h. fe_divpowm1 u v = Some h \<and> fe_bounded fe_tight h \<and> fe_val h mod fe_p
        = fe_val u * fe_val v ^ 3 * (fe_val u * fe_val v ^ 7) ^ nat ((fe_p - 5) div 8) mod fe_p)"
  using fe_invert_rep [OF fe_rep_self [OF assms(1)]]
    fe_divpowm1_rep [OF fe_rep_self [OF assms(1)] _ fe_rep_self [OF assms(2)]] by (auto simp: fe_rep_def)

theorem fe_invert_power_witness:
  "\<exists>h. fe_invert fe_1 = Some h \<and> fe_bounded fe_tight h \<and> fe_val h mod fe_p = fe_val fe_1 ^ nat (fe_p - 2) mod fe_p"
proof -
  have "fe_bounded fe_loose fe_1" by code_simp
  from fe_invert_power [OF this this] show ?thesis by blast
qed

text \<open>
  C30 (fe_tobytes_canonical). \<^verbatim>\<open>fe_tobytes\<close> writes the residue between 0 and \<open>p - 1\<close>, whatever
  representation the limbs hold, also for limbs up to the bound of a product's arguments. Nothing in it overflows but one left
  shift, \<^verbatim>\<open>h4 << 6\<close>, exactly if bit 127 of the residue is set: where C leaves that undefined the result is right for
  the other residues, where the shift is two's complement it is right for all.
\<close>

theorem fe_tobytes_canonical:
  assumes "fe_bounded fe_loose h"
  shows "fe_tobytes h = Some (le_bytes 32 (fe_val h mod fe_p))
    \<and> fe_tobytes_by shl_checked h = (if bit (fe_val h mod fe_p) 127 then None else Some (le_bytes 32 (fe_val h mod fe_p)))"
  using fe_tobytes_correct [OF fe_rep_self [OF assms] order.refl]
    fe_tobytes_packs [OF fe_rep_self [OF assms] order.refl] fe_pack_checked by metis

theorem fe_tobytes_canonical_witness:
  "fe_tobytes [-1, 0, 0, 0, 0, 0, 0, 0, 0, 0] = Some (le_bytes 32 (2 ^ 255 - 20))
    \<and> fe_tobytes_by shl_checked [-1, 0, 0, 0, 0, 0, 0, 0, 0, 0] = None"
proof -
  have "fe_bounded fe_loose [-1, 0, 0, 0, 0, 0, 0, 0, 0, 0]" by code_simp
  moreover have "fe_val [-1, 0, 0, 0, 0, 0, 0, 0, 0, 0] mod fe_p = 2 ^ 255 - 20"
    unfolding fe_val_def fe_val_limbs by (simp add: fe_p_def)
  moreover have "bit (2 ^ 255 - 20 :: int) 127" by (simp add: bit_iff_odd)
  ultimately show ?thesis using fe_tobytes_canonical [of "[-1, 0, 0, 0, 0, 0, 0, 0, 0, 0]"] by simp
qed

text \<open>
  Reading 32 bytes ignores the top bit and writing them back gives the
  canonical residue; the predicates \<^verbatim>\<open>fe_isnegative\<close> and \<^verbatim>\<open>fe_isnonzero\<close> decide parity and zero of
  that residue.
\<close>

theorem fe_bytes_roundtrip:
  assumes "length s = 32"
  shows "\<exists>h. fe_frombytes s = Some h \<and> fe_bounded fe_tight h
    \<and> fe_tobytes h = Some (le_bytes 32 (le_value s mod 2 ^ 255 mod fe_p))
    \<and> fe_isnegative h = Some (le_value s mod 2 ^ 255 mod fe_p mod 2)
    \<and> fe_isnonzero h = Some (if le_value s mod 2 ^ 255 mod fe_p = 0 then 0 else 1)"
proof -
  obtain h where h: "fe_frombytes s = Some h" "fe_rep fe_tight h (le_value s mod 2 ^ 255)"
    using fe_frombytes_rep [OF assms] by blast
  have tl: "fe_tight \<le> fe_loose" by (simp add: fe_tight_def fe_loose_def)
  have "fe_bounded fe_tight h" using h(2) by (simp only: fe_rep_def)
  with h(1) show ?thesis
    using fe_tobytes_correct [OF h(2) tl] fe_isnegative_correct [OF h(2) tl]
      fe_isnonzero_correct [OF h(2) tl, unfolded dvd_eq_mod_eq_0] by blast
qed

theorem fe_bytes_roundtrip_witness:
  "\<exists>h. fe_frombytes (le_bytes 32 (2 ^ 255 - 18)) = Some h \<and> fe_tobytes h = Some (le_bytes 32 1)
    \<and> fe_isnegative h = Some 1 \<and> fe_isnonzero h = Some 1"
proof -
  have v: "le_value (le_bytes 32 (2 ^ 255 - 18)) mod 2 ^ 255 mod fe_p = 1"
    unfolding le_value_le_bytes fe_p_def by simp
  have "length (le_bytes 32 (2 ^ 255 - 18)) = 32" by simp
  from fe_bytes_roundtrip [OF this, unfolded v] show ?thesis by auto
qed

end
