(* ===== verification/Group.thy ===== *)
theory Group
  imports Field_Bytes
begin

text \<open>
  Points of the curve \<open>-x\<^sup>2 + y\<^sup>2 = 1 + d x\<^sup>2 y\<^sup>2\<close> and their formulas, the \<^verbatim>\<open>ge_*\<close> functions of
  \<^verbatim>\<open>src/src/crypto/crypto-ops.c\<close> that add, double and convert points. The four
  representations of \<^verbatim>\<open>src/src/crypto/crypto-ops.h\<close> are records of field elements.

  The relations \<open>p2_pt\<close>, \<open>p3_pt\<close>, \<open>p1p1_pt\<close>, \<open>cached_pt\<close> and \<open>precomp_pt\<close> say which affine
  point \<open>(x, y)\<close> modulo \<open>p\<close> a record stands for, with limbs within the bounds the field
  operations need. Each operation is shown to run without overflow and to stand for the result
  of the affine Edwards addition law, written without division.
\<close>

section \<open>Representations and constants\<close>

record ge_p2 =
  p2_X :: fe
  p2_Y :: fe
  p2_Z :: fe

record ge_p3 =
  p3_X :: fe
  p3_Y :: fe
  p3_Z :: fe
  p3_T :: fe

record ge_p1p1 =
  p1_X :: fe
  p1_Y :: fe
  p1_Z :: fe
  p1_T :: fe

record ge_precomp =
  pc_yplusx :: fe
  pc_yminusx :: fe
  pc_xy2d :: fe

record ge_cached =
  ca_YplusX :: fe
  ca_YminusX :: fe
  ca_Z :: fe
  ca_T2d :: fe

definition fe_d :: fe where
  "fe_d = [-10913610, 13857413, -15372611, 6949391, 114729, -8787816, -6275908, -3247719, -18696448, -12055116]"

definition fe_sqrtm1 :: fe where
  "fe_sqrtm1 = [-32595792, -7943725, 9377950, 3500415, 12389472, -272473, -25146209, -2005654, 326686, 11406482]"

definition fe_d2 :: fe where
  "fe_d2 = [-21827239, -5839606, -30745221, 13898782, 229458, 15978800, -12551817, -6495438, 29715968, 9444199]"


section \<open>Operations\<close>

text \<open>
  In the source the fields of the result double as temporaries; here each assignment binds a
  fresh name, primed where the source overwrites a field.
\<close>

definition ge_add :: "ge_p3 \<Rightarrow> ge_cached \<Rightarrow> ge_p1p1 option" where
  "ge_add p q = do {
     rX \<leftarrow> fe_add (p3_Y p) (p3_X p);
     rY \<leftarrow> fe_sub (p3_Y p) (p3_X p);
     rZ \<leftarrow> fe_mul rX (ca_YplusX q);
     rY \<leftarrow> fe_mul rY (ca_YminusX q);
     rT \<leftarrow> fe_mul (ca_T2d q) (p3_T p);
     rX \<leftarrow> fe_mul (p3_Z p) (ca_Z q);
     t0 \<leftarrow> fe_add rX rX;
     rX \<leftarrow> fe_sub rZ rY;
     rY \<leftarrow> fe_add rZ rY;
     rZ \<leftarrow> fe_add t0 rT;
     rT \<leftarrow> fe_sub t0 rT;
     Some \<lparr>p1_X = rX, p1_Y = rY, p1_Z = rZ, p1_T = rT\<rparr> }"

definition ge_sub :: "ge_p3 \<Rightarrow> ge_cached \<Rightarrow> ge_p1p1 option" where
  "ge_sub p q = do {
     rX \<leftarrow> fe_add (p3_Y p) (p3_X p);
     rY \<leftarrow> fe_sub (p3_Y p) (p3_X p);
     rZ \<leftarrow> fe_mul rX (ca_YminusX q);
     rY \<leftarrow> fe_mul rY (ca_YplusX q);
     rT \<leftarrow> fe_mul (ca_T2d q) (p3_T p);
     rX \<leftarrow> fe_mul (p3_Z p) (ca_Z q);
     t0 \<leftarrow> fe_add rX rX;
     rX \<leftarrow> fe_sub rZ rY;
     rY \<leftarrow> fe_add rZ rY;
     rZ \<leftarrow> fe_sub t0 rT;
     rT \<leftarrow> fe_add t0 rT;
     Some \<lparr>p1_X = rX, p1_Y = rY, p1_Z = rZ, p1_T = rT\<rparr> }"

definition ge_madd :: "ge_p3 \<Rightarrow> ge_precomp \<Rightarrow> ge_p1p1 option" where
  "ge_madd p q = do {
     rX \<leftarrow> fe_add (p3_Y p) (p3_X p);
     rY \<leftarrow> fe_sub (p3_Y p) (p3_X p);
     rZ \<leftarrow> fe_mul rX (pc_yplusx q);
     rY \<leftarrow> fe_mul rY (pc_yminusx q);
     rT \<leftarrow> fe_mul (pc_xy2d q) (p3_T p);
     t0 \<leftarrow> fe_add (p3_Z p) (p3_Z p);
     rX \<leftarrow> fe_sub rZ rY;
     rY \<leftarrow> fe_add rZ rY;
     rZ \<leftarrow> fe_add t0 rT;
     rT \<leftarrow> fe_sub t0 rT;
     Some \<lparr>p1_X = rX, p1_Y = rY, p1_Z = rZ, p1_T = rT\<rparr> }"

definition ge_msub :: "ge_p3 \<Rightarrow> ge_precomp \<Rightarrow> ge_p1p1 option" where
  "ge_msub p q = do {
     rX \<leftarrow> fe_add (p3_Y p) (p3_X p);
     rY \<leftarrow> fe_sub (p3_Y p) (p3_X p);
     rZ \<leftarrow> fe_mul rX (pc_yminusx q);
     rY \<leftarrow> fe_mul rY (pc_yplusx q);
     rT \<leftarrow> fe_mul (pc_xy2d q) (p3_T p);
     t0 \<leftarrow> fe_add (p3_Z p) (p3_Z p);
     rX \<leftarrow> fe_sub rZ rY;
     rY \<leftarrow> fe_add rZ rY;
     rZ \<leftarrow> fe_sub t0 rT;
     rT \<leftarrow> fe_add t0 rT;
     Some \<lparr>p1_X = rX, p1_Y = rY, p1_Z = rZ, p1_T = rT\<rparr> }"

definition ge_p1p1_to_p2 :: "ge_p1p1 \<Rightarrow> ge_p2 option" where
  "ge_p1p1_to_p2 p = do {
     rX \<leftarrow> fe_mul (p1_X p) (p1_T p);
     rY \<leftarrow> fe_mul (p1_Y p) (p1_Z p);
     rZ \<leftarrow> fe_mul (p1_Z p) (p1_T p);
     Some \<lparr>p2_X = rX, p2_Y = rY, p2_Z = rZ\<rparr> }"

definition ge_p1p1_to_p3 :: "ge_p1p1 \<Rightarrow> ge_p3 option" where
  "ge_p1p1_to_p3 p = do {
     rX \<leftarrow> fe_mul (p1_X p) (p1_T p);
     rY \<leftarrow> fe_mul (p1_Y p) (p1_Z p);
     rZ \<leftarrow> fe_mul (p1_Z p) (p1_T p);
     rT \<leftarrow> fe_mul (p1_X p) (p1_Y p);
     Some \<lparr>p3_X = rX, p3_Y = rY, p3_Z = rZ, p3_T = rT\<rparr> }"

definition ge_p2_0 :: ge_p2 where
  "ge_p2_0 = \<lparr>p2_X = fe_0, p2_Y = fe_1, p2_Z = fe_1\<rparr>"

definition ge_p2_dbl :: "ge_p2 \<Rightarrow> ge_p1p1 option" where
  "ge_p2_dbl p = do {
     rX \<leftarrow> fe_sq (p2_X p);
     rZ \<leftarrow> fe_sq (p2_Y p);
     rT \<leftarrow> fe_sq2 (p2_Z p);
     rY \<leftarrow> fe_add (p2_X p) (p2_Y p);
     t0 \<leftarrow> fe_sq rY;
     rY \<leftarrow> fe_add rZ rX;
     rZ \<leftarrow> fe_sub rZ rX;
     rX \<leftarrow> fe_sub t0 rY;
     rT \<leftarrow> fe_sub rT rZ;
     Some \<lparr>p1_X = rX, p1_Y = rY, p1_Z = rZ, p1_T = rT\<rparr> }"

definition ge_p3_0 :: ge_p3 where
  "ge_p3_0 = \<lparr>p3_X = fe_0, p3_Y = fe_1, p3_Z = fe_1, p3_T = fe_0\<rparr>"

definition ge_p3_to_p2 :: "ge_p3 \<Rightarrow> ge_p2 option" where
  "ge_p3_to_p2 p = do {
     rX \<leftarrow> fe_copy (p3_X p);
     rY \<leftarrow> fe_copy (p3_Y p);
     rZ \<leftarrow> fe_copy (p3_Z p);
     Some \<lparr>p2_X = rX, p2_Y = rY, p2_Z = rZ\<rparr> }"

definition ge_p3_dbl :: "ge_p3 \<Rightarrow> ge_p1p1 option" where
  "ge_p3_dbl p = do { q \<leftarrow> ge_p3_to_p2 p; ge_p2_dbl q }"

definition ge_p3_to_cached :: "ge_p3 \<Rightarrow> ge_cached option" where
  "ge_p3_to_cached p = do {
     rp \<leftarrow> fe_add (p3_Y p) (p3_X p);
     rm \<leftarrow> fe_sub (p3_Y p) (p3_X p);
     rZ \<leftarrow> fe_copy (p3_Z p);
     rT \<leftarrow> fe_mul (p3_T p) fe_d2;
     Some \<lparr>ca_YplusX = rp, ca_YminusX = rm, ca_Z = rZ, ca_T2d = rT\<rparr> }"

definition ge_precomp_0 :: ge_precomp where
  "ge_precomp_0 = \<lparr>pc_yplusx = fe_1, pc_yminusx = fe_1, pc_xy2d = fe_0\<rparr>"

definition ge_cached_0 :: ge_cached where
  "ge_cached_0 = \<lparr>ca_YplusX = fe_1, ca_YminusX = fe_1, ca_Z = fe_1, ca_T2d = fe_0\<rparr>"

definition ge_mul8 :: "ge_p2 \<Rightarrow> ge_p1p1 option" where
  "ge_mul8 t = do {
     r \<leftarrow> ge_p2_dbl t;
     u \<leftarrow> ge_p1p1_to_p2 r;
     r \<leftarrow> ge_p2_dbl u;
     u \<leftarrow> ge_p1p1_to_p2 r;
     ge_p2_dbl u }"

definition ge_mul8_p3 :: "ge_p3 \<Rightarrow> ge_p3 option" where
  "ge_mul8_p3 t = do {
     p2 \<leftarrow> ge_p3_to_p2 t;
     p1 \<leftarrow> ge_p2_dbl p2;
     p2 \<leftarrow> ge_p1p1_to_p2 p1;
     p1 \<leftarrow> ge_p2_dbl p2;
     p2 \<leftarrow> ge_p1p1_to_p2 p1;
     p1 \<leftarrow> ge_p2_dbl p2;
     ge_p1p1_to_p3 p1 }"

definition ge_p2_to_p3 :: "ge_p2 \<Rightarrow> ge_p3 option" where
  "ge_p2_to_p3 t = do {
     rX \<leftarrow> fe_copy (p2_X t);
     rY \<leftarrow> fe_copy (p2_Y t);
     rZ \<leftarrow> fe_copy (p2_Z t);
     rT \<leftarrow> fe_invert (p2_Z t);
     rT \<leftarrow> fe_mul rT (p2_Y t);
     rT \<leftarrow> fe_mul rT (p2_X t);
     Some \<lparr>p3_X = rX, p3_Y = rY, p3_Z = rZ, p3_T = rT\<rparr> }"

definition fe_inv2 :: fe where
  "fe_inv2 = [10, 0, 0, 0, 0, 0, 0, 0, 0, -16777216]"

definition ge_cached_to_p2 :: "ge_cached \<Rightarrow> ge_p2 option" where
  "ge_cached_to_p2 c = do {
     rX \<leftarrow> fe_sub (ca_YplusX c) (ca_YminusX c);
     rX \<leftarrow> fe_mul rX fe_inv2;
     rY \<leftarrow> fe_add (ca_YplusX c) (ca_YminusX c);
     rY \<leftarrow> fe_mul rY fe_inv2;
     rZ \<leftarrow> fe_copy (ca_Z c);
     Some \<lparr>p2_X = rX, p2_Y = rY, p2_Z = rZ\<rparr> }"

definition ge_p3_to_precomp :: "ge_p3 \<Rightarrow> ge_precomp option" where
  "ge_p3_to_precomp p = do {
     recip \<leftarrow> fe_invert (p3_Z p);
     x \<leftarrow> fe_mul (p3_X p) recip;
     y \<leftarrow> fe_mul (p3_Y p) recip;
     rm \<leftarrow> fe_sub y x;
     rp \<leftarrow> fe_add y x;
     rxy \<leftarrow> fe_mul x y;
     rxy \<leftarrow> fe_mul rxy fe_d2;
     Some \<lparr>pc_yplusx = rp, pc_yminusx = rm, pc_xy2d = rxy\<rparr> }"

text \<open>\<^verbatim>\<open>ge_tobytes\<close> and \<^verbatim>\<open>ge_p3_tobytes\<close>: the sign of \<open>x\<close> goes to the top bit.\<close>

unbundle bit_operations_syntax

definition ge_encode :: "fe \<Rightarrow> fe \<Rightarrow> fe \<Rightarrow> bytes option" where
  "ge_encode hX hY hZ = do {
     recip \<leftarrow> fe_invert hZ;
     x \<leftarrow> fe_mul hX recip;
     y \<leftarrow> fe_mul hY recip;
     s \<leftarrow> fe_tobytes y;
     n \<leftarrow> fe_isnegative x;
     Some (s[31 := s ! 31 XOR word_of_int (push_bit 7 n)]) }"

definition ge_tobytes :: "ge_p2 \<Rightarrow> bytes option" where
  "ge_tobytes h = ge_encode (p2_X h) (p2_Y h) (p2_Z h)"

definition ge_p3_tobytes :: "ge_p3 \<Rightarrow> bytes option" where
  "ge_p3_tobytes h = ge_encode (p3_X h) (p3_Y h) (p3_Z h)"


section \<open>Points\<close>

definition cong :: "int \<Rightarrow> int \<Rightarrow> bool" where
  "cong x y \<longleftrightarrow> x mod fe_p = y mod fe_p"

definition ed_d :: int where
  "ed_d = fe_val fe_d"

definition on_curve :: "int \<Rightarrow> int \<Rightarrow> bool" where
  "on_curve x y \<longleftrightarrow> cong (y * y - x * x) (1 + ed_d * x * x * y * y)"

text \<open>\<open>(x3, y3)\<close> is the sum of two affine points.\<close>

definition ed_sum :: "int \<Rightarrow> int \<Rightarrow> int \<Rightarrow> int \<Rightarrow> int \<Rightarrow> int \<Rightarrow> bool" where
  "ed_sum x1 y1 x2 y2 x3 y3 \<longleftrightarrow>
     cong (x3 * (1 + ed_d * x1 * x2 * y1 * y2)) (x1 * y2 + x2 * y1) \<and>
     cong (y3 * (1 - ed_d * x1 * x2 * y1 * y2)) (y1 * y2 + x1 * x2)"

definition p2_pt :: "int \<Rightarrow> ge_p2 \<Rightarrow> int \<Rightarrow> int \<Rightarrow> int \<Rightarrow> bool" where
  "p2_pt b P x y z \<longleftrightarrow> fe_rep b (p2_X P) (x * z) \<and> fe_rep b (p2_Y P) (y * z) \<and> fe_rep b (p2_Z P) z"

definition p3_pt :: "int \<Rightarrow> ge_p3 \<Rightarrow> int \<Rightarrow> int \<Rightarrow> int \<Rightarrow> bool" where
  "p3_pt b P x y z \<longleftrightarrow> fe_rep b (p3_X P) (x * z) \<and> fe_rep b (p3_Y P) (y * z) \<and> fe_rep b (p3_Z P) z
     \<and> fe_rep b (p3_T P) (x * y * z)"

definition p1p1_pt :: "int \<Rightarrow> ge_p1p1 \<Rightarrow> int \<Rightarrow> int \<Rightarrow> int \<Rightarrow> int \<Rightarrow> bool" where
  "p1p1_pt b P x y u w \<longleftrightarrow> fe_rep b (p1_X P) (x * u) \<and> fe_rep b (p1_Z P) u
     \<and> fe_rep b (p1_Y P) (y * w) \<and> fe_rep b (p1_T P) w"

definition cached_pt :: "int \<Rightarrow> ge_cached \<Rightarrow> int \<Rightarrow> int \<Rightarrow> int \<Rightarrow> bool" where
  "cached_pt b P x y z \<longleftrightarrow> fe_rep b (ca_YplusX P) ((y + x) * z) \<and> fe_rep b (ca_YminusX P) ((y - x) * z)
     \<and> fe_rep b (ca_Z P) z \<and> fe_rep b (ca_T2d P) (2 * ed_d * x * y * z)"

definition precomp_pt :: "int \<Rightarrow> ge_precomp \<Rightarrow> int \<Rightarrow> int \<Rightarrow> bool" where
  "precomp_pt b P x y \<longleftrightarrow> fe_rep b (pc_yplusx P) (y + x) \<and> fe_rep b (pc_yminusx P) (y - x)
     \<and> fe_rep b (pc_xy2d P) (2 * ed_d * x * y)"



section \<open>Congruences\<close>

lemma cong_refl [simp, intro]: "cong x x"
  by (simp add: cong_def)

lemma cong_sym: "cong x y \<Longrightarrow> cong y x"
  by (simp add: cong_def)

lemma cong_trans: "cong x y \<Longrightarrow> cong y z \<Longrightarrow> cong x z"
  by (simp add: cong_def)

lemma cong_mult: "cong a b \<Longrightarrow> cong c d \<Longrightarrow> cong (a * c) (b * d)"
  unfolding cong_def by (rule mod_mult_cong)

lemma cong_add: "cong a b \<Longrightarrow> cong c d \<Longrightarrow> cong (a + c) (b + d)"
  unfolding cong_def by (rule mod_add_cong)

lemma cong_diff: "cong a b \<Longrightarrow> cong c d \<Longrightarrow> cong (a - c) (b - d)"
  unfolding cong_def by (rule mod_diff_cong)

lemma cong_scale: "cong a b \<Longrightarrow> x = k * a \<Longrightarrow> y = k * b \<Longrightarrow> cong x y"
  using cong_mult [of k k a b] by simp

lemma cong_power: "cong a b \<Longrightarrow> cong (a ^ n) (b ^ n)"
  by (induction n) (auto intro: cong_mult)

lemma fe_rep_conv: "fe_rep b f v \<Longrightarrow> b \<le> c \<Longrightarrow> cong v w \<Longrightarrow> fe_rep c f w"
  by (auto simp: fe_rep_def cong_def intro: fe_bounded_mono)

lemma fe_rep_eq: "fe_rep b f v \<Longrightarrow> b \<le> c \<Longrightarrow> v = w \<Longrightarrow> fe_rep c f w"
  by (auto intro: fe_rep_mono)

lemma fe_rep_scale:
  "fe_rep b f v \<Longrightarrow> cong p q \<Longrightarrow> b \<le> c \<Longrightarrow> v = k * p \<Longrightarrow> w = k * q \<Longrightarrow> fe_rep c f w"
  by (blast intro: fe_rep_conv cong_scale)

text \<open>
  The limb bounds along a formula are sums of \<open>fe_tight\<close>; three of them still fit a product.
\<close>

lemmas fe_bound_simps = fe_tight_def fe_loose_def

lemma ed_sumD:
  assumes "ed_sum x1 y1 x2 y2 x3 y3"
  shows "cong (x1 * y2 + x2 * y1) (x3 * (1 + ed_d * x1 * x2 * y1 * y2))"
    and "cong (y1 * y2 + x1 * x2) (y3 * (1 - ed_d * x1 * x2 * y1 * y2))"
  using assms by (simp_all add: ed_sum_def cong_sym)


section \<open>Additions\<close>

lemma ge_add_pt:
  assumes "p3_pt fe_tight P x1 y1 z1" and "cached_pt (2 * fe_tight) Q x2 y2 z2"
    and s: "ed_sum x1 y1 x2 y2 x3 y3"
  shows "\<exists>R. ge_add P Q = Some R \<and> p1p1_pt (3 * fe_tight) R x3 y3
    (2 * z1 * z2 * (1 + ed_d * x1 * x2 * y1 * y2)) (2 * z1 * z2 * (1 - ed_d * x1 * x2 * y1 * y2))"
  using assms(1,2) unfolding ge_add_def p3_pt_def cached_pt_def
  apply (elim conjE)
  apply ((rule fe_add_step fe_sub_step, assumption, assumption, simp add: fe_bound_simps)
    | (rule fe_mul_step, assumption, assumption, simp add: fe_bound_simps, simp add: fe_bound_simps))+
  apply (simp add: p1p1_pt_def)
  apply (intro conjI)
     apply (erule fe_rep_scale [OF _ ed_sumD(1) [OF s], where k = "2 * z1 * z2"]; simp add: fe_bound_simps algebra_simps)
    apply (erule fe_rep_eq; simp add: fe_bound_simps algebra_simps)
   apply (erule fe_rep_scale [OF _ ed_sumD(2) [OF s], where k = "2 * z1 * z2"]; simp add: fe_bound_simps algebra_simps)
  apply (erule fe_rep_eq; simp add: fe_bound_simps algebra_simps)
  done

lemma ge_sub_pt:
  assumes "p3_pt fe_tight P x1 y1 z1" and "cached_pt (2 * fe_tight) Q x2 y2 z2"
    and s: "ed_sum x1 y1 (- x2) y2 x3 y3"
  shows "\<exists>R. ge_sub P Q = Some R \<and> p1p1_pt (3 * fe_tight) R x3 y3
    (2 * z1 * z2 * (1 + ed_d * x1 * (- x2) * y1 * y2)) (2 * z1 * z2 * (1 - ed_d * x1 * (- x2) * y1 * y2))"
  using assms(1,2) unfolding ge_sub_def p3_pt_def cached_pt_def
  apply (elim conjE)
  apply ((rule fe_add_step fe_sub_step, assumption, assumption, simp add: fe_bound_simps)
    | (rule fe_mul_step, assumption, assumption, simp add: fe_bound_simps, simp add: fe_bound_simps))+
  apply (simp add: p1p1_pt_def)
  apply (intro conjI)
     apply (erule fe_rep_scale [OF _ ed_sumD(1) [OF s], where k = "2 * z1 * z2"]; simp add: fe_bound_simps algebra_simps)
    apply (erule fe_rep_eq; simp add: fe_bound_simps algebra_simps)
   apply (erule fe_rep_scale [OF _ ed_sumD(2) [OF s], where k = "2 * z1 * z2"]; simp add: fe_bound_simps algebra_simps)
  apply (erule fe_rep_eq; simp add: fe_bound_simps algebra_simps)
  done

lemma ge_madd_pt:
  assumes "p3_pt fe_tight P x1 y1 z1" and "precomp_pt (2 * fe_tight) Q x2 y2"
    and s: "ed_sum x1 y1 x2 y2 x3 y3"
  shows "\<exists>R. ge_madd P Q = Some R \<and> p1p1_pt (3 * fe_tight) R x3 y3
    (2 * z1 * (1 + ed_d * x1 * x2 * y1 * y2)) (2 * z1 * (1 - ed_d * x1 * x2 * y1 * y2))"
  using assms(1,2) unfolding ge_madd_def p3_pt_def precomp_pt_def
  apply (elim conjE)
  apply ((rule fe_add_step fe_sub_step, assumption, assumption, simp add: fe_bound_simps)
    | (rule fe_mul_step, assumption, assumption, simp add: fe_bound_simps, simp add: fe_bound_simps))+
  apply (simp add: p1p1_pt_def)
  apply (intro conjI)
     apply (erule fe_rep_scale [OF _ ed_sumD(1) [OF s], where k = "2 * z1"]; simp add: fe_bound_simps algebra_simps)
    apply (erule fe_rep_eq; simp add: fe_bound_simps algebra_simps)
   apply (erule fe_rep_scale [OF _ ed_sumD(2) [OF s], where k = "2 * z1"]; simp add: fe_bound_simps algebra_simps)
  apply (erule fe_rep_eq; simp add: fe_bound_simps algebra_simps)
  done

lemma ge_msub_pt:
  assumes "p3_pt fe_tight P x1 y1 z1" and "precomp_pt (2 * fe_tight) Q x2 y2"
    and s: "ed_sum x1 y1 (- x2) y2 x3 y3"
  shows "\<exists>R. ge_msub P Q = Some R \<and> p1p1_pt (3 * fe_tight) R x3 y3
    (2 * z1 * (1 + ed_d * x1 * (- x2) * y1 * y2)) (2 * z1 * (1 - ed_d * x1 * (- x2) * y1 * y2))"
  using assms(1,2) unfolding ge_msub_def p3_pt_def precomp_pt_def
  apply (elim conjE)
  apply ((rule fe_add_step fe_sub_step, assumption, assumption, simp add: fe_bound_simps)
    | (rule fe_mul_step, assumption, assumption, simp add: fe_bound_simps, simp add: fe_bound_simps))+
  apply (simp add: p1p1_pt_def)
  apply (intro conjI)
     apply (erule fe_rep_scale [OF _ ed_sumD(1) [OF s], where k = "2 * z1"]; simp add: fe_bound_simps algebra_simps)
    apply (erule fe_rep_eq; simp add: fe_bound_simps algebra_simps)
   apply (erule fe_rep_scale [OF _ ed_sumD(2) [OF s], where k = "2 * z1"]; simp add: fe_bound_simps algebra_simps)
  apply (erule fe_rep_eq; simp add: fe_bound_simps algebra_simps)
  done


section \<open>Doubling and conversions\<close>

text \<open>Doubling also accepts sums in \<open>Y\<close> and \<open>Z\<close>, as the hash to the curve returns them.\<close>

lemma ge_p2_dbl_wide:
  assumes P: "fe_rep fe_tight (p2_X P) (x * z)" "fe_rep (2 * fe_tight + 1) (p2_Y P) (y * z)" "fe_rep (2 * fe_tight + 1) (p2_Z P) z"
    and c: "on_curve x y" and s: "ed_sum x y x y x3 y3"
  shows "\<exists>R. ge_p2_dbl P = Some R \<and> p1p1_pt (3 * fe_tight) R x3 y3
    (z * z * (1 + ed_d * x * x * y * y)) (z * z * (1 - ed_d * x * x * y * y))"
proof -
  have c2: "cong (2 - (y * y - x * x)) (1 - ed_d * x * x * y * y)"
    using cong_diff [OF cong_refl [of 2] c [unfolded on_curve_def]] by (simp add: algebra_simps)
  from P show ?thesis
    unfolding ge_p2_dbl_def
    apply -
    apply ((rule fe_add_step fe_sub_step, assumption, assumption, simp add: fe_bound_simps)
      | (rule fe_sq_step fe_sq2_step, assumption, simp add: fe_bound_simps))+
    apply (simp add: p1p1_pt_def)
    apply (intro conjI)
       apply (erule fe_rep_scale [OF _ ed_sumD(1) [OF s], where k = "z * z"]; simp add: fe_bound_simps algebra_simps)
      apply (erule fe_rep_scale [OF _ c [unfolded on_curve_def], where k = "z * z"]; simp add: fe_bound_simps algebra_simps)
     apply (erule fe_rep_scale [OF _ ed_sumD(2) [OF s], where k = "z * z"]; simp add: fe_bound_simps algebra_simps)
    apply (erule fe_rep_scale [OF _ c2, where k = "z * z"]; simp add: fe_bound_simps algebra_simps)
    done
qed

lemma ge_p2_dbl_pt:
  assumes "p2_pt fe_tight P x y z" and "on_curve x y" and "ed_sum x y x y x3 y3"
  shows "\<exists>R. ge_p2_dbl P = Some R \<and> p1p1_pt (3 * fe_tight) R x3 y3
    (z * z * (1 + ed_d * x * x * y * y)) (z * z * (1 - ed_d * x * x * y * y))"
  using assms(1) by (intro ge_p2_dbl_wide [OF _ _ _ assms(2,3)]) (auto simp: p2_pt_def fe_bound_simps elim: fe_rep_mono)

lemma ge_p1p1_to_p2_pt:
  assumes "p1p1_pt (3 * fe_tight) P x y u w"
  shows "\<exists>R. ge_p1p1_to_p2 P = Some R \<and> p2_pt fe_tight R x y (u * w)"
  using assms unfolding ge_p1p1_to_p2_def p1p1_pt_def
  apply (elim conjE)
  apply (rule fe_mul_step, assumption, assumption, simp add: fe_bound_simps, simp add: fe_bound_simps)+
  apply (simp add: p2_pt_def mult_ac)
  done

lemma ge_p1p1_to_p3_pt:
  assumes "p1p1_pt (3 * fe_tight) P x y u w"
  shows "\<exists>R. ge_p1p1_to_p3 P = Some R \<and> p3_pt fe_tight R x y (u * w)"
  using assms unfolding ge_p1p1_to_p3_def p1p1_pt_def
  apply (elim conjE)
  apply (rule fe_mul_step, assumption, assumption, simp add: fe_bound_simps, simp add: fe_bound_simps)+
  apply (simp add: p3_pt_def mult_ac)
  done

lemma ge_p3_to_p2_pt:
  assumes "p3_pt b P x y z"
  shows "\<exists>R. ge_p3_to_p2 P = Some R \<and> p2_pt b R x y z"
  using assms by (auto simp: ge_p3_to_p2_def p3_pt_def p2_pt_def fe_copy_rep)

lemma ge_p3_dbl_pt:
  assumes "p3_pt fe_tight P x y z" and "on_curve x y" and "ed_sum x y x y x3 y3"
  shows "\<exists>R. ge_p3_dbl P = Some R \<and> p1p1_pt (3 * fe_tight) R x3 y3
    (z * z * (1 + ed_d * x * x * y * y)) (z * z * (1 - ed_d * x * x * y * y))"
  using ge_p3_to_p2_pt [OF assms(1)] ge_p2_dbl_pt [OF _ assms(2,3)] by (auto simp: ge_p3_dbl_def)

lemma ed_d_value: "fe_rep fe_tight fe_d ed_d" "fe_rep fe_tight fe_d2 (2 * ed_d)"
proof -
  have "fe_bounded fe_tight fe_d" "fe_bounded fe_tight fe_d2"
    by code_simp+
  moreover have "fe_val fe_d2 mod fe_p = 2 * fe_val fe_d mod fe_p"
    unfolding fe_val_def fe_val_limbs by (simp add: fe_d_def fe_d2_def fe_p_def)
  ultimately show "fe_rep fe_tight fe_d ed_d" "fe_rep fe_tight fe_d2 (2 * ed_d)"
    by (simp_all add: fe_rep_def ed_d_def)
qed

lemma ge_p3_to_cached_pt:
  assumes "p3_pt fe_tight P x y z"
  shows "\<exists>R. ge_p3_to_cached P = Some R \<and> cached_pt (2 * fe_tight) R x y z"
  using assms ed_d_value(2) unfolding ge_p3_to_cached_def p3_pt_def
  apply (elim conjE)
  apply ((rule fe_add_step fe_sub_step, assumption, assumption, simp add: fe_bound_simps)
    | (rule fe_copy_step, assumption)
    | (rule fe_mul_step, assumption, assumption, simp add: fe_bound_simps, simp add: fe_bound_simps))+
  apply (simp add: cached_pt_def)
  apply (intro conjI)
     apply (erule fe_rep_eq; simp add: fe_bound_simps algebra_simps)+
  done



section \<open>Conversions through an inverse\<close>

lemma fe_p_pos: "0 < fe_p" "nat (fe_p - 1) = Suc (nat (fe_p - 2))"
  by (simp_all add: fe_p_def)

text \<open>\<^verbatim>\<open>fe_invert\<close> gives an inverse of \<open>z\<close> where Fermat's theorem holds at \<open>z\<close>.\<close>

lemma fermat_inverse:
  assumes "cong (z ^ nat (fe_p - 1)) 1"
  shows "cong (x * z * z ^ nat (fe_p - 2)) x"
  using cong_mult [OF cong_refl [of x] assms] by (simp add: fe_p_pos(2) mult.assoc)

lemma ge_p2_to_p3_pt:
  assumes "p2_pt fe_tight P x y z" and "cong (z ^ nat (fe_p - 1)) 1"
  shows "\<exists>R. ge_p2_to_p3 P = Some R \<and> p3_pt fe_tight R x y z"
proof -
  have i: "\<exists>q. (fe_invert (p2_Z P) \<bind> k) = Some q \<and> Q q"
    if "fe_rep fe_tight (p2_Z P) z" and "\<And>h. fe_rep fe_tight h (z ^ nat (fe_p - 2)) \<Longrightarrow> \<exists>q. k h = Some q \<and> Q q"
    for k :: "fe \<Rightarrow> ge_p3 option" and Q
    using fe_invert_rep [OF that(1)] that(2) by (auto simp: fe_bound_simps)
  have c: "cong (z ^ nat (fe_p - 2) * (y * z) * (x * z)) (x * y * z)"
    using fermat_inverse [OF assms(2), of "x * y * z"] by (simp add: mult_ac)
  from assms(1) show ?thesis
    unfolding ge_p2_to_p3_def p2_pt_def
    apply (elim conjE)
    apply (rule fe_copy_step, assumption)+
    apply (rule i, assumption)
    apply (rule fe_mul_step, assumption, assumption, simp add: fe_bound_simps, simp add: fe_bound_simps)+
    apply (simp add: p3_pt_def)
    apply (erule fe_rep_conv [OF _ order.refl c])
    done
qed

text \<open>The affine coordinates that \<^verbatim>\<open>ge_tobytes\<close> computes.\<close>

lemma ge_encode_bytes:
  assumes "fe_rep fe_tight hX (x * z)" "fe_rep fe_tight hY (y * z)" "fe_rep fe_tight hZ z"
    and z: "cong (z ^ nat (fe_p - 1)) 1"
  shows "\<exists>s. ge_encode hX hY hZ = Some s \<and> length s = 32
    \<and> le_value s = y mod fe_p + 2 ^ 255 * (x mod fe_p mod 2)"
proof -
  let ?i = "z ^ nat (fe_p - 2)"
  have tl: "fe_tight \<le> fe_loose" by (simp add: fe_bound_simps)
  obtain r where r: "fe_invert hZ = Some r" "fe_rep fe_tight r ?i"
    using fe_invert_rep [OF assms(3) tl] by blast
  obtain a where a: "fe_mul hX r = Some a" "fe_rep fe_tight a (x * z * ?i)"
    using fe_mul_rep [OF assms(1) tl r(2) tl] by blast
  obtain b where b: "fe_mul hY r = Some b" "fe_rep fe_tight b (y * z * ?i)"
    using fe_mul_rep [OF assms(2) tl r(2) tl] by blast
  have xy: "fe_rep fe_tight a x" "fe_rep fe_tight b y"
    using fe_rep_conv [OF a(2) order.refl fermat_inverse [OF z]] fe_rep_conv [OF b(2) order.refl fermat_inverse [OF z]]
    by simp_all
  let ?s = "le_bytes 32 (y mod fe_p)" and ?n = "x mod fe_p mod 2"
  let ?t = "?s[31 := ?s ! 31 XOR word_of_int (push_bit 7 ?n)]"
  have "ge_encode hX hY hZ = Some ?t"
    using r a b fe_tobytes_correct [OF xy(2) tl] fe_isnegative_correct [OF xy(1) tl] by (simp add: ge_encode_def)
  moreover have "le_value ?t = y mod fe_p + 2 ^ 255 * ?n"
  proof -
    have y: "0 \<le> y mod fe_p" "y mod fe_p < 256 ^ 31 * 2 ^ 7"
      using pos_mod_bound [OF fe_p_pos(1), of y] fe_p_pos(1) by (simp_all add: fe_p_def)
    have "y mod fe_p div 256 ^ 31 < 2 ^ 7" "0 \<le> y mod fe_p div 256 ^ 31"
      using zdiv_upper [OF y(2)] y(1) by (simp_all add: pos_imp_zdiv_nonneg_iff)
    then have top: "uint (?s ! 31) < 2 ^ 7"
      using le_bytes_nth [of 31 32 "y mod fe_p"] by (simp add: uint_word_of_int)
    have n: "?n = 0 \<or> ?n = 1" by linarith
    have "le_value ?t = le_value ?s + 256 ^ 31 * (2 ^ 7 * ?n)"
      using le_value_update [of 31 ?s] uint_flip_top [OF top n] by simp
    also have "le_value ?s = y mod fe_p" using fe_p_bound [of y] by (simp add: le_value_le_bytes)
    finally show ?thesis by simp
  qed
  ultimately show ?thesis by auto
qed

end
