(* ===== verification/Group_Law.thy ===== *)
theory Group_Law
  imports Group
begin

text \<open>
  The point operations as operations of an abstract group. \<open>curve_group pt\<close> says that \<open>pt\<close> maps
  the elements of an abelian group to points of the curve so that the group operation is the
  Edwards addition law with invertible denominators: the theorem on complete twisted Edwards
  curves that \<^verbatim>\<open>src/src/crypto/crypto-ops.c\<close> relies on. Under it every formula of \<open>Group\<close> computes
  a group operation, whatever projective scaling its arguments carry.
\<close>

section \<open>Invertible residues\<close>

definition fe_unit :: "int \<Rightarrow> bool" where
  "fe_unit z \<longleftrightarrow> (\<exists>i. cong (z * i) 1)"

lemma fe_unit_1 [simp]: "fe_unit 1"
  unfolding fe_unit_def by (rule exI [of _ 1]) simp

lemma fe_unit_2 [simp]: "fe_unit 2"
  unfolding fe_unit_def by (rule exI [of _ "2 ^ 254 - 9"]) (simp add: cong_def fe_p_def)

lemma fe_unit_mult: "fe_unit x \<Longrightarrow> fe_unit y \<Longrightarrow> fe_unit (x * y)"
proof -
  assume "fe_unit x" "fe_unit y"
  then obtain i j where "cong (x * i) 1" "cong (y * j) 1" by (auto simp: fe_unit_def)
  then have "cong (x * y * (i * j)) 1" using cong_mult [of "x * i" 1 "y * j" 1] by (simp add: mult_ac)
  then show ?thesis by (auto simp: fe_unit_def)
qed

lemmas fe_unit_intros = fe_unit_mult fe_unit_1 fe_unit_2


section \<open>Groups of points\<close>

definition curve_group :: "('g :: ab_group_add \<Rightarrow> int \<times> int) \<Rightarrow> bool" where
  "curve_group pt \<longleftrightarrow>
     (let x = \<lambda>g. fst (pt g); y = \<lambda>g. snd (pt g) in
      cong (x 0) 0 \<and> cong (y 0) 1 \<and>
      (\<forall>g. on_curve (x g) (y g)) \<and>
      (\<forall>g. cong (x (- g)) (- x g) \<and> cong (y (- g)) (y g)) \<and>
      (\<forall>g h. ed_sum (x g) (y g) (x h) (y h) (x (g + h)) (y (g + h))
        \<and> fe_unit (1 + ed_d * x g * x h * y g * y h) \<and> fe_unit (1 - ed_d * x g * x h * y g * y h)))"

lemma curve_groupD:
  assumes "curve_group pt"
  shows "cong (fst (pt 0)) 0" "cong (snd (pt 0)) 1" "on_curve (fst (pt g)) (snd (pt g))"
    "cong (fst (pt (- g))) (- fst (pt g))" "cong (snd (pt (- g))) (snd (pt g))"
    "ed_sum (fst (pt g)) (snd (pt g)) (fst (pt h)) (snd (pt h)) (fst (pt (g + h))) (snd (pt (g + h)))"
    "fe_unit (1 + ed_d * fst (pt g) * fst (pt h) * snd (pt g) * snd (pt h))"
    "fe_unit (1 - ed_d * fst (pt g) * fst (pt h) * snd (pt g) * snd (pt h))"
  using assms by (simp_all add: curve_group_def Let_def)

definition p2_is :: "('g :: ab_group_add \<Rightarrow> int \<times> int) \<Rightarrow> ge_p2 \<Rightarrow> 'g \<Rightarrow> bool" where
  "p2_is pt P g \<longleftrightarrow> (\<exists>z. fe_unit z \<and> p2_pt fe_tight P (fst (pt g)) (snd (pt g)) z)"

definition p3_is :: "('g :: ab_group_add \<Rightarrow> int \<times> int) \<Rightarrow> ge_p3 \<Rightarrow> 'g \<Rightarrow> bool" where
  "p3_is pt P g \<longleftrightarrow> (\<exists>z. fe_unit z \<and> p3_pt fe_tight P (fst (pt g)) (snd (pt g)) z)"

definition p1p1_is :: "('g :: ab_group_add \<Rightarrow> int \<times> int) \<Rightarrow> ge_p1p1 \<Rightarrow> 'g \<Rightarrow> bool" where
  "p1p1_is pt P g \<longleftrightarrow> (\<exists>u w. fe_unit u \<and> fe_unit w \<and> p1p1_pt (3 * fe_tight) P (fst (pt g)) (snd (pt g)) u w)"

definition cached_is :: "('g :: ab_group_add \<Rightarrow> int \<times> int) \<Rightarrow> ge_cached \<Rightarrow> 'g \<Rightarrow> bool" where
  "cached_is pt P g \<longleftrightarrow> (\<exists>z. fe_unit z \<and> cached_pt (2 * fe_tight) P (fst (pt g)) (snd (pt g)) z)"

definition precomp_is :: "('g :: ab_group_add \<Rightarrow> int \<times> int) \<Rightarrow> ge_precomp \<Rightarrow> 'g \<Rightarrow> bool" where
  "precomp_is pt P g \<longleftrightarrow> precomp_pt (2 * fe_tight) P (fst (pt g)) (snd (pt g))"

lemma ed_sum_cong:
  assumes "ed_sum x1 y1 x2 y2 x3 y3" and "cong x2' x2" and "cong y2' y2"
  shows "ed_sum x1 y1 x2' y2' x3 y3"
proof -
  have "cong (x3 * (1 + ed_d * x1 * x2' * y1 * y2')) (x3 * (1 + ed_d * x1 * x2 * y1 * y2))"
    "cong (y3 * (1 - ed_d * x1 * x2' * y1 * y2')) (y3 * (1 - ed_d * x1 * x2 * y1 * y2))"
    "cong (x1 * y2 + x2 * y1) (x1 * y2' + x2' * y1)" "cong (y1 * y2 + x1 * x2) (y1 * y2' + x1 * x2')"
    by (intro cong_mult cong_add cong_diff cong_refl assms(2,3) assms(2,3) [THEN cong_sym])+
  with assms(1) show ?thesis unfolding ed_sum_def by (blast intro: cong_trans)
qed


section \<open>Operations on group elements\<close>

lemma p1p1_isI:
  assumes "\<exists>R. m = Some R \<and> p1p1_pt (3 * fe_tight) R (fst (pt g)) (snd (pt g)) u w" and "fe_unit u" and "fe_unit w"
  shows "\<exists>R. m = Some R \<and> p1p1_is pt R g"
  using assms by (auto simp: p1p1_is_def)

lemma ge_add_is:
  assumes "curve_group pt" and "p3_is pt P g" and "cached_is pt Q h"
  shows "\<exists>R. ge_add P Q = Some R \<and> p1p1_is pt R (g + h)"
proof -
  note cg = curve_groupD [OF assms(1)]
  from assms(2,3) obtain z z' where z: "fe_unit z" "fe_unit z'"
    and pt: "p3_pt fe_tight P (fst (pt g)) (snd (pt g)) z"
      "cached_pt (2 * fe_tight) Q (fst (pt h)) (snd (pt h)) z'"
    by (auto simp: p3_is_def cached_is_def)
  show ?thesis
    by (rule p1p1_isI, rule ge_add_pt [OF pt cg(6) [of g h]]) (intro fe_unit_intros z cg(7,8))+
qed

lemma ge_madd_is:
  assumes "curve_group pt" and "p3_is pt P g" and "precomp_is pt Q h"
  shows "\<exists>R. ge_madd P Q = Some R \<and> p1p1_is pt R (g + h)"
proof -
  note cg = curve_groupD [OF assms(1)]
  from assms(2) obtain z where z: "fe_unit z" and pt: "p3_pt fe_tight P (fst (pt g)) (snd (pt g)) z"
    by (auto simp: p3_is_def)
  show ?thesis
    by (rule p1p1_isI, rule ge_madd_pt [OF pt assms(3) [unfolded precomp_is_def] cg(6) [of g h]])
      (intro fe_unit_intros z cg(7,8))+
qed

text \<open>Subtracting \<open>h\<close> adds the mirrored point.\<close>

lemma ed_sum_minus:
  assumes "curve_group pt"
  shows "ed_sum (fst (pt g)) (snd (pt g)) (- fst (pt h)) (snd (pt h)) (fst (pt (g - h))) (snd (pt (g - h)))"
proof -
  note cg = curve_groupD [OF assms]
  have "ed_sum (fst (pt g)) (snd (pt g)) (fst (pt (- h))) (snd (pt (- h))) (fst (pt (g - h))) (snd (pt (g - h)))"
    using cg(6) [of g "- h"] by simp
  then show ?thesis by (rule ed_sum_cong) (rule cong_sym [OF cg(4)], rule cong_sym [OF cg(5)])
qed

lemma fe_unit_minus:
  assumes "curve_group pt"
  shows "fe_unit (1 + ed_d * fst (pt g) * (- fst (pt h)) * snd (pt g) * snd (pt h))"
    and "fe_unit (1 - ed_d * fst (pt g) * (- fst (pt h)) * snd (pt g) * snd (pt h))"
  using curve_groupD(7,8) [OF assms, of g h] by simp_all

lemma ge_sub_is:
  assumes "curve_group pt" and "p3_is pt P g" and "cached_is pt Q h"
  shows "\<exists>R. ge_sub P Q = Some R \<and> p1p1_is pt R (g - h)"
proof -
  from assms(2,3) obtain z z' where z: "fe_unit z" "fe_unit z'"
    and pt: "p3_pt fe_tight P (fst (pt g)) (snd (pt g)) z"
      "cached_pt (2 * fe_tight) Q (fst (pt h)) (snd (pt h)) z'"
    by (auto simp: p3_is_def cached_is_def)
  show ?thesis
    by (rule p1p1_isI, rule ge_sub_pt [OF pt ed_sum_minus [OF assms(1)]])
      (intro fe_unit_intros z fe_unit_minus [OF assms(1)])+
qed

lemma ge_msub_is:
  assumes "curve_group pt" and "p3_is pt P g" and "precomp_is pt Q h"
  shows "\<exists>R. ge_msub P Q = Some R \<and> p1p1_is pt R (g - h)"
proof -
  from assms(2) obtain z where z: "fe_unit z" and pt: "p3_pt fe_tight P (fst (pt g)) (snd (pt g)) z"
    by (auto simp: p3_is_def)
  show ?thesis
    by (rule p1p1_isI, rule ge_msub_pt [OF pt assms(3) [unfolded precomp_is_def] ed_sum_minus [OF assms(1)]])
      (intro fe_unit_intros z fe_unit_minus [OF assms(1)])+
qed

lemma ge_p2_dbl_is:
  assumes "curve_group pt" and "p2_is pt P g"
  shows "\<exists>R. ge_p2_dbl P = Some R \<and> p1p1_is pt R (g + g)"
proof -
  note cg = curve_groupD [OF assms(1)]
  from assms(2) obtain z where z: "fe_unit z" and pt: "p2_pt fe_tight P (fst (pt g)) (snd (pt g)) z"
    by (auto simp: p2_is_def)
  show ?thesis
    by (rule p1p1_isI, rule ge_p2_dbl_pt [OF pt cg(3) cg(6) [of g g]]) (intro fe_unit_intros z cg(7,8))+
qed

lemma ge_p1p1_to_p2_is:
  assumes "p1p1_is pt P g"
  shows "\<exists>R. ge_p1p1_to_p2 P = Some R \<and> p2_is pt R g"
  using assms by (auto simp: p1p1_is_def p2_is_def dest!: ge_p1p1_to_p2_pt intro: fe_unit_mult)

lemma ge_p1p1_to_p3_is:
  assumes "p1p1_is pt P g"
  shows "\<exists>R. ge_p1p1_to_p3 P = Some R \<and> p3_is pt R g"
  using assms by (auto simp: p1p1_is_def p3_is_def dest!: ge_p1p1_to_p3_pt intro: fe_unit_mult)

lemma ge_p3_to_p2_is: "p3_is pt P g \<Longrightarrow> \<exists>R. ge_p3_to_p2 P = Some R \<and> p2_is pt R g"
  using ge_p3_to_p2_pt unfolding p3_is_def p2_is_def by blast

lemma ge_p3_to_cached_is: "p3_is pt P g \<Longrightarrow> \<exists>R. ge_p3_to_cached P = Some R \<and> cached_is pt R g"
  using ge_p3_to_cached_pt unfolding p3_is_def cached_is_def by blast

lemma ge_p3_dbl_is:
  assumes "curve_group pt" and "p3_is pt P g"
  shows "\<exists>R. ge_p3_dbl P = Some R \<and> p1p1_is pt R (g + g)"
  using ge_p3_to_p2_is [OF assms(2)] ge_p2_dbl_is [OF assms(1)] by (auto simp: ge_p3_dbl_def)

text \<open>The neutral elements.\<close>

lemma fe_rep_consts: "cong v 0 \<Longrightarrow> 0 \<le> b \<Longrightarrow> fe_rep b fe_0 v" "cong v 1 \<Longrightarrow> 1 \<le> b \<Longrightarrow> fe_rep b fe_1 v"
  using fe_rep_conv [OF fe_rep_0] fe_rep_conv [OF fe_rep_1] cong_sym by blast+

lemma neutral_is:
  assumes "curve_group pt"
  shows "p2_is pt ge_p2_0 0" "p3_is pt ge_p3_0 0" "cached_is pt ge_cached_0 0" "precomp_is pt ge_precomp_0 0"
proof -
  let ?x = "fst (pt 0)" and ?y = "snd (pt 0)"
  note cg = curve_groupD [OF assms]
  have c: "cong (?x * 1) 0" "cong (?y * 1) 1" "cong (?x * ?y * 1) 0" "cong ((?y + ?x) * 1) 1" "cong ((?y - ?x) * 1) 1"
    "cong (2 * ed_d * ?x * ?y * 1) 0"
    using cg(1,2) cong_mult [OF cg(1,2)] cong_add [OF cg(2,1)] cong_diff [OF cg(2,1)]
      cong_mult [OF cong_refl [of "2 * ed_d"] cong_mult [OF cg(1,2)]] by (simp_all add: mult.assoc)
  have b: "0 \<le> fe_tight" "1 \<le> fe_tight" by (simp_all add: fe_tight_def)
  note r = fe_rep_consts(1) [OF c(1)] fe_rep_consts(2) [OF c(2)] fe_rep_consts(1) [OF c(3)]
    fe_rep_consts(2) [OF c(4)] fe_rep_consts(2) [OF c(5)] fe_rep_consts(1) [OF c(6)] fe_rep_consts(2) [OF cong_refl]
  have "p2_pt fe_tight ge_p2_0 ?x ?y 1" "p3_pt fe_tight ge_p3_0 ?x ?y 1"
    "cached_pt (2 * fe_tight) ge_cached_0 ?x ?y 1" "precomp_pt (2 * fe_tight) ge_precomp_0 ?x ?y"
    using r b by (simp_all add: p2_pt_def p3_pt_def cached_pt_def precomp_pt_def ge_p2_0_def ge_p3_0_def
        ge_cached_0_def ge_precomp_0_def)
  then show "p2_is pt ge_p2_0 0" "p3_is pt ge_p3_0 0" "cached_is pt ge_cached_0 0" "precomp_is pt ge_precomp_0 0"
    unfolding p2_is_def p3_is_def cached_is_def precomp_is_def using fe_unit_1 by blast+
qed



section \<open>Integer multiples\<close>

fun nmul :: "nat \<Rightarrow> 'g :: ab_group_add \<Rightarrow> 'g" where
  "nmul 0 g = 0"
| "nmul (Suc n) g = g + nmul n g"

definition zmul :: "int \<Rightarrow> 'g :: ab_group_add \<Rightarrow> 'g" where
  "zmul k g = (if 0 \<le> k then nmul (nat k) g else - nmul (nat (- k)) g)"

lemma nmul_add: "nmul (m + n) g = nmul m g + nmul n g"
  by (induction m) (simp_all add: add.assoc)

lemma zmul_diff: "zmul (int m - int n) g = nmul m g - nmul n g"
proof (cases "n \<le> m")
  case True
  then have m: "nmul m g = nmul (m - n) g + nmul n g" by (simp flip: nmul_add)
  have d: "int m - int n = int (m - n)" using True by simp
  have "zmul (int m - int n) g = nmul (m - n) g" unfolding d by (simp add: zmul_def)
  then show ?thesis unfolding m by simp
next
  case False
  then have "nmul n g = nmul (n - m) g + nmul m g" by (simp flip: nmul_add)
  moreover have "nat (int n - int m) = n - m" by simp
  ultimately show ?thesis using False by (simp add: zmul_def)
qed

lemma int_as_diff: obtains m n where "k = int m - int n"
  by (metis int_diff_cases)

lemma zmul_add: "zmul (a + b) g = zmul a g + zmul b g"
proof -
  obtain m n m' n' where a: "a = int m - int n" and b: "b = int m' - int n'" by (metis int_as_diff)
  have "a + b = int (m + m') - int (n + n')" by (simp add: a b)
  then have "zmul (a + b) g = nmul (m + m') g - nmul (n + n') g" by (simp only: zmul_diff)
  then show ?thesis by (simp add: a b zmul_diff nmul_add)
qed

lemma zmul_0 [simp]: "zmul 0 g = 0" and zmul_1 [simp]: "zmul 1 g = g"
  by (simp_all add: zmul_def)

lemma zmul_minus: "zmul (- a) g = - zmul a g"
proof -
  have "zmul a g + zmul (- a) g = 0" using zmul_add [of a "- a" g] by simp
  then show ?thesis by (simp add: minus_unique)
qed

lemma zmul_sub: "zmul (a - b) g = zmul a g - zmul b g"
  using zmul_add [of a "- b" g] by (simp add: zmul_minus)

lemma zmul_double: "zmul a g + zmul a g = zmul (2 * a) g"
  using zmul_add [of a a g] by (simp only: mult_2)

text \<open>Multiplication by the cofactor.\<close>

lemma ge_mul8_is:
  assumes "curve_group pt" and "p2_is pt P g"
  shows "\<exists>R. ge_mul8 P = Some R \<and> p1p1_is pt R (zmul 8 g)"
proof -
  have d: "\<exists>r. ge_p2_dbl s = Some r \<and> p1p1_is pt r (zmul (2 * w) g)" if "p2_is pt s (zmul w g)" for s w
    using ge_p2_dbl_is [OF assms(1) that] by (simp add: zmul_double)
  from d [of P 1] assms(2) obtain r1 where r1: "ge_p2_dbl P = Some r1" "p1p1_is pt r1 (zmul 2 g)" by auto
  from ge_p1p1_to_p2_is [OF r1(2)] obtain s1 where s1: "ge_p1p1_to_p2 r1 = Some s1" "p2_is pt s1 (zmul 2 g)" by blast
  from d [OF s1(2)] obtain r2 where r2: "ge_p2_dbl s1 = Some r2" "p1p1_is pt r2 (zmul 4 g)" by auto
  from ge_p1p1_to_p2_is [OF r2(2)] obtain s2 where s2: "ge_p1p1_to_p2 r2 = Some s2" "p2_is pt s2 (zmul 4 g)" by blast
  from d [OF s2(2)] r1(1) s1(1) r2(1) s2(1) show ?thesis by (simp add: ge_mul8_def)
qed

lemma ge_mul8_p3_is:
  assumes "curve_group pt" and "p3_is pt Q g"
  shows "\<exists>R. ge_mul8_p3 Q = Some R \<and> p3_is pt R (zmul 8 g)"
proof -
  from ge_p3_to_p2_is [OF assms(2)] obtain s where s: "ge_p3_to_p2 Q = Some s" "p2_is pt s g" by blast
  from ge_mul8_is [OF assms(1) s(2)] obtain r where r: "ge_mul8 s = Some r" "p1p1_is pt r (zmul 8 g)" by blast
  have "ge_mul8_p3 Q = ge_p1p1_to_p3 r"
    using s(1) r(1) by (auto simp: ge_mul8_p3_def ge_mul8_def bind_eq_Some_conv)
  with ge_p1p1_to_p3_is [OF r(2)] show ?thesis by simp
qed

end
