(* ===== verification/Prime_Field.thy ===== *)
theory Prime_Field
  imports Prime_25519 Group_Law
begin

text \<open>
  The field of residues modulo \<open>fe_p\<close> as a type of class \<open>field\<close>. The congruences of \<open>Group\<close> are
  equations of it between images of integers.
\<close>

section \<open>The type\<close>

lemma fe_p_prime: "is_prime (nat fe_p)"
  using prime_p by (simp add: fe_p_def)

typedef fq = "{x :: int. 0 \<le> x \<and> x < fe_p}"
  morphisms residue Abs_fq
  by (rule exI [of _ 0]) (simp add: fe_p_def)

setup_lifting type_definition_fq

lift_definition fq :: "int \<Rightarrow> fq" is "\<lambda>x. x mod fe_p"
  by (simp add: fe_p_def)

lemma residue_fq [simp]: "residue (fq x) = x mod fe_p"
  by (rule fq.rep_eq)

lemma residue_range: "0 \<le> residue a" "residue a < fe_p"
  using residue [of a] by simp_all

lemma fq_residue [simp]: "fq (residue a) = a"
  using residue_range [of a] by transfer simp

lemma fq_eq: "fq x = fq y \<longleftrightarrow> cong x y"
  by transfer (simp add: cong_def)

lemma fq_cases [cases type: fq]: obtains x where "a = fq x"
  by (metis fq_residue)

instantiation fq :: comm_ring_1
begin

definition zero_fq_def: "0 = fq 0"
definition one_fq_def: "1 = fq 1"
definition plus_fq_def: "a + b = fq (residue a + residue b)"
definition times_fq_def: "a * b = fq (residue a * residue b)"
definition uminus_fq_def: "- a = fq (- residue a)"
definition minus_fq_def: "a - b = fq (residue a - residue b)"

lemma fq_ops:
  "fq x + fq y = fq (x + y)" "fq x * fq y = fq (x * y)" "- fq x = fq (- x)" "fq x - fq y = fq (x - y)"
  by (simp_all add: plus_fq_def times_fq_def uminus_fq_def minus_fq_def fq_eq cong_def mod_simps)

instance
proof
  fix a b c :: fq
  obtain x y z where "a = fq x" "b = fq y" "c = fq z" by (metis fq_residue)
  note abc = this zero_fq_def one_fq_def fq_ops
  show "a * b * c = a * (b * c)" "a * b = b * a" "1 * a = a" "a + b + c = a + (b + c)" "a + b = b + a" "0 + a = a"
    "- a + a = 0" "a - b = a + - b" "(a + b) * c = a * c + b * c"
    by (simp_all add: abc algebra_simps)
  show "(0 :: fq) \<noteq> 1" by (simp add: zero_fq_def one_fq_def fq_eq cong_def fe_p_def)
qed

end

lemma of_int_fq: "(of_int x :: fq) = fq x"
proof (cases x rule: int_cases2)
  have n: "(of_nat n :: fq) = fq (int n)" for n
    by (induction n) (simp_all add: zero_fq_def one_fq_def fq_ops add.commute)
  case (nonneg n)
  then show ?thesis by (simp add: n)
next
  have n: "(of_nat n :: fq) = fq (int n)" for n
    by (induction n) (simp_all add: zero_fq_def one_fq_def fq_ops add.commute)
  case (nonpos n)
  then show ?thesis by (simp add: n fq_ops)
qed

text \<open>The images of integers; \<open>of_int\<close> and its laws carry every computation.\<close>

lemma cong_iff: "cong x y \<longleftrightarrow> (of_int x :: fq) = of_int y"
  by (simp add: of_int_fq fq_eq)

lemma residue_of_int [simp]: "residue (of_int x) = x mod fe_p"
  by (simp add: of_int_fq)

lemma of_int_residue [simp]: "of_int (residue a) = a"
  by (simp add: of_int_fq)

lemma fq_zero_iff: "(of_int x :: fq) = 0 \<longleftrightarrow> fe_p dvd x"
  using cong_iff [of x 0] by (simp add: cong_def dvd_eq_mod_eq_0)

lemma fq_fermat:
  fixes a :: fq
  assumes "a \<noteq> 0"
  shows "a ^ nat (fe_p - 1) = 1"
proof -
  have p: "int (nat fe_p) = fe_p" "nat fe_p - 1 = nat (fe_p - 1)" by (simp_all add: fe_p_def)
  have "\<not> int (nat fe_p) dvd residue a"
    using assms fq_zero_iff [of "residue a"] p(1) by simp
  from fermat [OF fe_p_prime this] have "residue a ^ nat (fe_p - 1) mod fe_p = 1" unfolding p .
  then have "cong (residue a ^ nat (fe_p - 1)) 1" by (simp add: cong_def fe_p_def)
  then show ?thesis by (simp add: cong_iff)
qed

instantiation fq :: field
begin

definition inverse_fq_def: "inverse (a :: fq) = a ^ nat (fe_p - 2)"

definition divide_fq_def: "a div (b :: fq) = a * inverse b"

instance
proof
  fix a b :: fq
  show "a \<noteq> 0 \<Longrightarrow> inverse a * a = 1"
    using fq_fermat [of a] by (simp add: inverse_fq_def fe_p_pos(2) mult.commute)
  show "a div b = a * inverse b" by (rule divide_fq_def)
  show "inverse (0 :: fq) = 0" by (simp add: inverse_fq_def fe_p_def)
qed

end

lemma fe_unit_iff: "fe_unit z \<longleftrightarrow> (of_int z :: fq) \<noteq> 0"
proof
  assume "fe_unit z"
  then show "(of_int z :: fq) \<noteq> 0" by (auto simp: fe_unit_def cong_iff)
next
  assume z: "(of_int z :: fq) \<noteq> 0"
  then have "(of_int (z * residue (inverse (of_int z))) :: fq) = of_int 1" by simp
  then show "fe_unit z" unfolding fe_unit_def cong_iff by blast
qed

lemma fermat_cong: "fe_unit z \<Longrightarrow> cong (z ^ nat (fe_p - 1)) 1"
  by (simp add: cong_iff fe_unit_iff fq_fermat)

lemma on_curve_iff:
  "on_curve x y \<longleftrightarrow> (of_int y)\<^sup>2 - (of_int x)\<^sup>2 = 1 + of_int ed_d * (of_int x)\<^sup>2 * (of_int y :: fq)\<^sup>2"
  by (simp add: on_curve_def cong_iff power2_eq_square mult_ac)

lemma ed_sum_iff:
  "ed_sum x1 y1 x2 y2 x3 y3 \<longleftrightarrow>
     of_int x3 * (1 + of_int ed_d * of_int x1 * of_int x2 * of_int y1 * of_int y2) = of_int x1 * of_int y2 + of_int x2 * (of_int y1 :: fq) \<and>
     of_int y3 * (1 - of_int ed_d * of_int x1 * of_int x2 * of_int y1 * of_int y2) = of_int y1 * of_int y2 + of_int x1 * (of_int x2 :: fq)"
  by (simp add: ed_sum_def cong_iff)

end
