(* ===== verification/Edwards_Group.thy ===== *)
theory Edwards_Group
  imports Prime_Field
begin

text \<open>
  The group that \<^verbatim>\<open>src/src/crypto/crypto-ops.c\<close> computes in: the points of
  \<open>y\<^sup>2 - x\<^sup>2 = 1 + d x\<^sup>2 y\<^sup>2\<close> over the field of \<open>Prime_Field\<close>, as a type of class \<open>ab_group_add\<close>. The
  addition law has no exceptional case because \<open>- 1\<close> is a square and \<open>d\<close> is not.
\<close>

section \<open>Squares\<close>

definition ed_dd :: fq where
  "ed_dd = of_int ed_d"

definition ed_i :: fq where
  "ed_i = of_int (fe_val fe_sqrtm1)"

lemma ed_i_sq: "ed_i * ed_i = - 1"
proof -
  have "cong (fe_val fe_sqrtm1 * fe_val fe_sqrtm1) (- 1)"
    unfolding cong_def fe_val_def fe_val_limbs by (simp add: fe_sqrtm1_def fe_p_def)
  then show ?thesis by (simp add: cong_iff ed_i_def)
qed

lemma fq_of_int_nonzero: "\<not> fe_p dvd x \<Longrightarrow> (of_int x :: fq) \<noteq> 0"
  by (simp add: fq_zero_iff)

lemma fq_two: "(2 :: fq) \<noteq> 0" "(1 :: fq) \<noteq> - 1"
proof -
  show two: "(2 :: fq) \<noteq> 0" using fq_of_int_nonzero [of 2] by (simp add: fe_p_def)
  show "(1 :: fq) \<noteq> - 1"
  proof
    assume "(1 :: fq) = - 1"
    then have "1 + 1 = - 1 + (1 :: fq)" by (rule arg_cong)
    with two show False by simp
  qed
qed

text \<open>There is no element of order eight, as \<open>p - 1\<close> is four times an odd number.\<close>

lemma fq_no_order8: "j ^ 4 \<noteq> (- 1 :: fq)"
proof
  assume j: "j ^ 4 = - 1"
  then have "j \<noteq> 0" by auto
  from fq_fermat [OF this] have "j ^ (4 * (2 * nat (2 ^ 252 - 3) + 1)) = 1" by (simp add: fe_p_def)
  then have "(j ^ 4) ^ (2 * nat (2 ^ 252 - 3) + 1) = 1" by (simp only: power_mult)
  then have "(- 1 :: fq) ^ (2 * nat (2 ^ 252 - 3) + 1) = 1" unfolding j .
  then have "(- 1 :: fq) = 1" by (simp only: power_add power_mult) simp
  with fq_two(2) show False by simp
qed

lemma fq_two_nonsquare: "w * w \<noteq> (2 :: fq)"
proof
  assume w: "w * w = 2"
  then have w0: "w \<noteq> 0" using fq_two(1) by auto
  define j where "j = (1 + ed_i) / w"
  have "j * j * (w * w) = (1 + ed_i) * (1 + ed_i)" using w0 by (simp add: j_def)
  also have "\<dots> = 2 * ed_i" using ed_i_sq by (simp add: algebra_simps)
  finally have "j * j = ed_i" unfolding w using fq_two(1) by simp
  then have "j ^ 4 = - 1" using ed_i_sq by (simp add: power4_eq_xxxx mult.assoc)
  with fq_no_order8 show False by blast
qed

text \<open>\<open>d\<close> is twice a square.\<close>

definition ed_half :: int where
  "ed_half = 30152228160694284937144285544751646460505239448795619900082871953631125353365"

lemma ed_dd_half: "ed_dd = 2 * of_int ed_half * of_int ed_half"
proof -
  have "cong ed_d (2 * ed_half * ed_half)"
    unfolding cong_def ed_d_def fe_val_def fe_val_limbs by (simp add: fe_d_def fe_p_def ed_half_def)
  then show ?thesis by (simp add: cong_iff ed_dd_def)
qed

lemma ed_dd_nonsquare: "t * t \<noteq> ed_dd"
proof
  assume t: "t * t = ed_dd"
  have h: "(of_int ed_half :: fq) \<noteq> 0" by (rule fq_of_int_nonzero) (simp add: ed_half_def fe_p_def)
  have "(t / of_int ed_half) * (t / of_int ed_half) = 2"
    using h t by (simp add: ed_dd_half)
  with fq_two_nonsquare show False by blast
qed

lemma ed_dd_nonsquare_ratio:
  assumes "u * u = ed_dd * (w * w)"
  shows "u = 0 \<and> w = 0"
proof (cases "w = 0")
  case True
  then show ?thesis using assms by simp
next
  case False
  then have "(u / w) * (u / w) = ed_dd" using assms by simp
  with ed_dd_nonsquare show ?thesis by blast
qed


section \<open>Completeness of the addition law\<close>

definition ed_on :: "fq \<Rightarrow> fq \<Rightarrow> bool" where
  "ed_on x y \<longleftrightarrow> y\<^sup>2 - x\<^sup>2 = 1 + ed_dd * x\<^sup>2 * y\<^sup>2"

lemma ed_complete:
  assumes "ed_on x1 y1" and "ed_on x2 y2"
  shows "(ed_dd * x1 * x2 * y1 * y2)\<^sup>2 \<noteq> 1"
proof
  define e where "e = ed_dd * x1 * x2 * y1 * y2"
  assume "(ed_dd * x1 * x2 * y1 * y2)\<^sup>2 = 1"
  then have e: "e * e = 1" by (simp add: e_def power2_eq_square)
  note c = assms [unfolded ed_on_def]
  have plus: "(ed_i * x1 + e * y1) * (ed_i * x1 + e * y1) = ed_dd * ((x1 * y1 * (ed_i * x2 + y2)) * (x1 * y1 * (ed_i * x2 + y2)))"
    using c e ed_i_sq e_def by algebra
  have minus: "(ed_i * x1 - e * y1) * (ed_i * x1 - e * y1) = ed_dd * ((x1 * y1 * (ed_i * x2 - y2)) * (x1 * y1 * (ed_i * x2 - y2)))"
    using c e ed_i_sq e_def by algebra
  have "x1 * y1 \<noteq> 0" "y2 \<noteq> 0" using e by (auto simp: e_def)
  moreover have "x1 * y1 * (ed_i * x2 + y2) = 0" "x1 * y1 * (ed_i * x2 - y2) = 0"
    using ed_dd_nonsquare_ratio [OF plus] ed_dd_nonsquare_ratio [OF minus] by simp_all
  ultimately have "ed_i * x2 + y2 = 0" "ed_i * x2 - y2 = 0" by auto
  then have "(ed_i * x2 + y2) - (ed_i * x2 - y2) = 0" by simp
  then have "2 * y2 = 0" by simp
  with \<open>y2 \<noteq> 0\<close> fq_two(1) show False by simp
qed

lemma ed_denominators:
  assumes "ed_on x1 y1" and "ed_on x2 y2"
  shows "1 + ed_dd * x1 * x2 * y1 * y2 \<noteq> 0" "1 - ed_dd * x1 * x2 * y1 * y2 \<noteq> 0"
proof -
  let ?t = "ed_dd * x1 * x2 * y1 * y2"
  have "(1 + ?t) * (1 - ?t) = 1 - ?t\<^sup>2" by (simp add: power2_eq_square algebra_simps)
  moreover have "?t\<^sup>2 \<noteq> 1" by (rule ed_complete [OF assms])
  ultimately have "(1 + ?t) * (1 - ?t) \<noteq> 0" by simp
  then show "1 + ?t \<noteq> 0" "1 - ?t \<noteq> 0" by auto
qed

definition ed_x :: "fq \<Rightarrow> fq \<Rightarrow> fq \<Rightarrow> fq \<Rightarrow> fq" where
  "ed_x x1 y1 x2 y2 = (x1 * y2 + x2 * y1) / (1 + ed_dd * x1 * x2 * y1 * y2)"

definition ed_y :: "fq \<Rightarrow> fq \<Rightarrow> fq \<Rightarrow> fq \<Rightarrow> fq" where
  "ed_y x1 y1 x2 y2 = (y1 * y2 + x1 * x2) / (1 - ed_dd * x1 * x2 * y1 * y2)"

lemma ed_on_sum:
  assumes "ed_on x1 y1" and "ed_on x2 y2"
  shows "ed_on (ed_x x1 y1 x2 y2) (ed_y x1 y1 x2 y2)"
proof -
  note n = ed_denominators [OF assms]
  define x where "x = ed_x x1 y1 x2 y2"
  define y where "y = ed_y x1 y1 x2 y2"
  let ?D = "1 + ed_dd * x1 * x2 * y1 * y2" and ?E = "1 - ed_dd * x1 * x2 * y1 * y2"
  have x: "x * ?D = x1 * y2 + x2 * y1" and y: "y * ?E = y1 * y2 + x1 * x2"
    using n by (simp_all add: x_def y_def ed_x_def ed_y_def)
  have "((y * ?E) * ?D)\<^sup>2 - ((x * ?D) * ?E)\<^sup>2 = (?D * ?E)\<^sup>2 + ed_dd * (x * ?D)\<^sup>2 * (y * ?E)\<^sup>2"
    unfolding x y using assms [unfolded ed_on_def] by algebra
  then have "(?D * ?E)\<^sup>2 * (y\<^sup>2 - x\<^sup>2 - (1 + ed_dd * x\<^sup>2 * y\<^sup>2)) = 0"
    by (simp only: power_mult_distrib) (simp add: algebra_simps)
  then show ?thesis using n by (simp add: ed_on_def x_def y_def)
qed


section \<open>The type of points\<close>

typedef ed_point = "{(x, y). ed_on x y}"
  morphisms coords Abs_ed_point
  by (rule exI [of _ "(0, 1)"]) (simp add: ed_on_def)

definition px :: "ed_point \<Rightarrow> fq" where
  "px P = fst (coords P)"

definition py :: "ed_point \<Rightarrow> fq" where
  "py P = snd (coords P)"

lemma ed_on_point: "ed_on (px P) (py P)"
  using coords [of P] by (simp add: px_def py_def split: prod.splits)

lemma ed_point_eqI: "px P = px Q \<Longrightarrow> py P = py Q \<Longrightarrow> P = Q"
  by (simp add: px_def py_def coords_inject [symmetric] prod_eq_iff)

definition ed_point :: "fq \<Rightarrow> fq \<Rightarrow> ed_point" where
  "ed_point x y = Abs_ed_point (x, y)"

lemma ed_point_coords [simp]: "ed_on x y \<Longrightarrow> px (ed_point x y) = x" "ed_on x y \<Longrightarrow> py (ed_point x y) = y"
  by (simp_all add: ed_point_def px_def py_def Abs_ed_point_inverse)

instantiation ed_point :: ab_group_add
begin

definition zero_ed_point_def: "0 = ed_point 0 1"
definition plus_ed_point_def: "P + Q = ed_point (ed_x (px P) (py P) (px Q) (py Q)) (ed_y (px P) (py P) (px Q) (py Q))"
definition uminus_ed_point_def: "- P = ed_point (- px P) (py P)"
definition minus_ed_point_def: "P - Q = P + - (Q :: ed_point)"

lemma zero_coords [simp]: "px 0 = 0" "py 0 = 1"
  by (simp_all add: zero_ed_point_def ed_on_def)

lemma plus_coords: "px (P + Q) = ed_x (px P) (py P) (px Q) (py Q)" "py (P + Q) = ed_y (px P) (py P) (px Q) (py Q)"
  by (simp_all add: plus_ed_point_def ed_on_sum ed_on_point)

lemma uminus_coords [simp]: "px (- P) = - px P" "py (- P) = py P"
  using ed_on_point [of P] by (simp_all add: uminus_ed_point_def ed_on_def)

text \<open>The sum as equations without division.\<close>

lemma plus_coords_eq:
  "px (P + Q) * (1 + ed_dd * px P * px Q * py P * py Q) = px P * py Q + px Q * py P"
  "py (P + Q) * (1 - ed_dd * px P * px Q * py P * py Q) = py P * py Q + px P * px Q"
  using ed_denominators [OF ed_on_point ed_on_point, of P Q] by (simp_all add: plus_coords ed_x_def ed_y_def)

lemma plus_unique:
  assumes "x * (1 + ed_dd * px P * px Q * py P * py Q) = px P * py Q + px Q * py P"
    and "y * (1 - ed_dd * px P * px Q * py P * py Q) = py P * py Q + px P * px Q"
  shows "px (P + Q) = x" "py (P + Q) = y"
  using plus_coords_eq [of P Q] assms ed_denominators [OF ed_on_point ed_on_point, of P Q]
  by (metis mult_right_cancel)+

text \<open>The sum of three points over a common denominator.\<close>

lemma plus3_left:
  fixes P Q R :: ed_point
  defines "d1 \<equiv> 1 + ed_dd * px P * px Q * py P * py Q" and "d2 \<equiv> 1 - ed_dd * px P * px Q * py P * py Q"
    and "n1 \<equiv> px P * py Q + px Q * py P" and "n2 \<equiv> py P * py Q + px P * px Q"
  shows "px (P + Q + R) * (d1 * d2 + ed_dd * n1 * n2 * px R * py R) = n1 * d2 * py R + px R * n2 * d1"
    and "py (P + Q + R) * (d1 * d2 - ed_dd * n1 * n2 * px R * py R) = n2 * d1 * py R + n1 * d2 * px R"
    and "d1 * d2 + ed_dd * n1 * n2 * px R * py R \<noteq> 0" "d1 * d2 - ed_dd * n1 * n2 * px R * py R \<noteq> 0"
proof -
  let ?x = "px (P + Q)" and ?y = "py (P + Q)"
  have n: "?x * d1 = n1" "?y * d2 = n2"
    using plus_coords_eq [of P Q] by (simp_all add: d1_def d2_def n1_def n2_def)
  have A: "d1 * d2 + ed_dd * n1 * n2 * px R * py R = d1 * d2 * (1 + ed_dd * ?x * px R * ?y * py R)"
    "d1 * d2 - ed_dd * n1 * n2 * px R * py R = d1 * d2 * (1 - ed_dd * ?x * px R * ?y * py R)"
    unfolding n [symmetric] by (simp_all add: algebra_simps)
  note nz = ed_denominators [OF ed_on_point ed_on_point]
  show "d1 * d2 + ed_dd * n1 * n2 * px R * py R \<noteq> 0" "d1 * d2 - ed_dd * n1 * n2 * px R * py R \<noteq> 0"
    unfolding A using nz [of P Q] nz [of "P + Q" R] by (simp_all add: d1_def d2_def)
  have "px (P + Q + R) * (d1 * d2 * (1 + ed_dd * ?x * px R * ?y * py R)) = d1 * d2 * (?x * py R + px R * ?y)"
    "py (P + Q + R) * (d1 * d2 * (1 - ed_dd * ?x * px R * ?y * py R)) = d1 * d2 * (?y * py R + ?x * px R)"
    using plus_coords_eq [of "P + Q" R] by (simp_all add: mult_ac)
  then show "px (P + Q + R) * (d1 * d2 + ed_dd * n1 * n2 * px R * py R) = n1 * d2 * py R + px R * n2 * d1"
    "py (P + Q + R) * (d1 * d2 - ed_dd * n1 * n2 * px R * py R) = n2 * d1 * py R + n1 * d2 * px R"
    unfolding A n [symmetric] by (simp_all add: algebra_simps)
qed

lemma plus_commute: "P + Q = Q + (P :: ed_point)"
  by (rule ed_point_eqI) (simp_all add: plus_coords ed_x_def ed_y_def ac_simps)

lemma assoc_identities:
  fixes x1 x2 x3 y1 y2 y3 d :: fq
  assumes "y1\<^sup>2 - x1\<^sup>2 = 1 + d * x1\<^sup>2 * y1\<^sup>2" "y2\<^sup>2 - x2\<^sup>2 = 1 + d * x2\<^sup>2 * y2\<^sup>2" "y3\<^sup>2 - x3\<^sup>2 = 1 + d * x3\<^sup>2 * y3\<^sup>2"
  defines "d1 \<equiv> 1 + d * x1 * x2 * y1 * y2" and "d2 \<equiv> 1 - d * x1 * x2 * y1 * y2"
    and "n1 \<equiv> x1 * y2 + x2 * y1" and "n2 \<equiv> y1 * y2 + x1 * x2"
    and "e1 \<equiv> 1 + d * x2 * x3 * y2 * y3" and "e2 \<equiv> 1 - d * x2 * x3 * y2 * y3"
    and "m1 \<equiv> x2 * y3 + x3 * y2" and "m2 \<equiv> y2 * y3 + x2 * x3"
  shows "(n1 * d2 * y3 + x3 * n2 * d1) * (e1 * e2 + d * m1 * m2 * x1 * y1) = (m1 * e2 * y1 + x1 * m2 * e1) * (d1 * d2 + d * n1 * n2 * x3 * y3)"
    and "(n2 * d1 * y3 + n1 * d2 * x3) * (e1 * e2 - d * m1 * m2 * x1 * y1) = (m2 * e1 * y1 + m1 * e2 * x1) * (d1 * d2 - d * n1 * n2 * x3 * y3)"
  unfolding d1_def d2_def n1_def n2_def e1_def e2_def m1_def m2_def using assms(1-3) by algebra+

lemma cross_cancel:
  fixes u v a b p q :: fq
  shows "u * a = p \<Longrightarrow> v * b = q \<Longrightarrow> p * b = q * a \<Longrightarrow> a \<noteq> 0 \<Longrightarrow> b \<noteq> 0 \<Longrightarrow> u = v"
  by (metis mult.assoc mult.commute mult_right_cancel)

lemma plus_assoc: "P + Q + R = P + (Q + (R :: ed_point))"
proof -
  have c: "P + (Q + R) = Q + R + P" by (rule plus_commute)
  note L = plus3_left [of P Q R] and M = plus3_left [of Q R P]
  note id = assoc_identities [OF ed_on_point [unfolded ed_on_def] ed_on_point [unfolded ed_on_def] ed_on_point [unfolded ed_on_def], of P Q R]
  show ?thesis unfolding c
    by (rule ed_point_eqI)
      (rule cross_cancel [OF L(1) M(1) _ L(3) M(3)], use id(1) in \<open>simp add: ac_simps\<close>,
       rule cross_cancel [OF L(2) M(2) _ L(4) M(4)], use id(2) in \<open>simp add: ac_simps\<close>)
qed

instance
proof
  fix P Q R :: ed_point
  show "P + Q + R = P + (Q + R)" by (rule plus_assoc)
  show "P + Q = Q + P" by (rule plus_commute)
  show "0 + P = P" by (rule ed_point_eqI) (simp_all add: plus_coords ed_x_def ed_y_def)
  show "- P + P = 0"
  proof -
    have on: "(py P)\<^sup>2 - (px P)\<^sup>2 = 1 + ed_dd * (px P)\<^sup>2 * (py P)\<^sup>2"
      using ed_on_point [of P] by (simp add: ed_on_def)
    have "0 * (1 + ed_dd * px (- P) * px P * py (- P) * py P) = px (- P) * py P + px P * py (- P)" by simp
    moreover have "1 * (1 - ed_dd * px (- P) * px P * py (- P) * py P) = py (- P) * py P + px (- P) * px P"
      using on by (simp add: power2_eq_square algebra_simps)
    ultimately show ?thesis using plus_unique by (intro ed_point_eqI) (simp_all only: zero_coords)
  qed
  show "P - Q = P + - Q" by (rule minus_ed_point_def)
qed

end


section \<open>The group as the code sees it\<close>

definition ed_coords :: "ed_point \<Rightarrow> int \<times> int" where
  "ed_coords P = (residue (px P), residue (py P))"

lemma fst_ed_coords [simp]: "fst (ed_coords P) = residue (px P)"
  by (simp add: ed_coords_def)

lemma snd_ed_coords [simp]: "snd (ed_coords P) = residue (py P)"
  by (simp add: ed_coords_def)

lemma ed_group: "curve_group ed_coords"
proof -
  note nz = ed_denominators [OF ed_on_point ed_on_point]
  show ?thesis
    unfolding curve_group_def Let_def
    using ed_on_point plus_coords_eq nz
    by (simp add: cong_iff on_curve_iff ed_sum_iff fe_unit_iff ed_dd_def [symmetric] ed_on_def)
qed

end
