(* ===== verification/Point_Decode.thy ===== *)
theory Point_Decode
  imports Edwards_Group
begin

text \<open>
  Points as 32 bytes and back: \<^verbatim>\<open>ge_frombytes_vartime\<close> of \<^verbatim>\<open>src/src/crypto/crypto-ops.c\<close>, the inverse
  of \<^verbatim>\<open>ge_p3_tobytes\<close>. It accepts exactly the encodings of curve points.
\<close>

unbundle bit_operations_syntax

section \<open>Definitions\<close>

datatype decoded = Not_a_point | Point ge_p3

text \<open>The limbs of a number of 255 bits that is at least \<open>p\<close>.\<close>

definition fe_noncanonical :: "int list \<Rightarrow> bool" where
  "fe_noncanonical h \<longleftrightarrow>
     h ! 9 = 33554428 \<and> h ! 8 = 268435440 \<and> h ! 7 = 536870880 \<and> h ! 6 = 2147483520 \<and>
     h ! 5 = 4294967295 \<and> h ! 4 = 67108860 \<and> h ! 3 = 134217720 \<and> h ! 2 = 536870880 \<and>
     h ! 1 = 1073741760 \<and> h ! 0 \<ge> 4294967277"

text \<open>The checks of a square root candidate \<open>X\<close> of \<open>u / v\<close>: it stays, is multiplied by \<open>i\<close>, or there is none.\<close>

definition ge_root :: "fe \<Rightarrow> fe \<Rightarrow> fe \<Rightarrow> fe option option" where
  "ge_root u v X = do {
     vxx \<leftarrow> fe_sq X;
     vxx \<leftarrow> fe_mul vxx v;
     check \<leftarrow> fe_sub vxx u;
     nz \<leftarrow> fe_isnonzero check;
     if nz \<noteq> 0 then do {
       check \<leftarrow> fe_add vxx u;
       nz \<leftarrow> fe_isnonzero check;
       if nz \<noteq> 0 then Some None
       else do { X \<leftarrow> fe_mul X fe_sqrtm1; Some (Some X) } }
     else Some (Some X) }"

text \<open>The choice of the root by the sign bit.\<close>

definition ge_sign :: "bytes \<Rightarrow> fe \<Rightarrow> fe option option" where
  "ge_sign s X = do {
     neg \<leftarrow> fe_isnegative X;
     if neg \<noteq> uint (drop_bit 7 (s ! 31)) then do {
       nz \<leftarrow> fe_isnonzero X;
       if nz = 0 then Some None
       else do { X \<leftarrow> fe_neg X; Some (Some X) } }
     else Some (Some X) }"

definition ge_frombytes_vartime :: "bytes \<Rightarrow> decoded option" where
  "ge_frombytes_vartime s =
     (if length s < 32 then None
      else if fe_noncanonical (fe_load10 s) then Some Not_a_point
      else do {
        h \<leftarrow> limb_run 64 fe_frombytes_chain (fe_load10 s);
        Y \<leftarrow> fe_store h;
        u \<leftarrow> fe_sq Y;
        v \<leftarrow> fe_mul u fe_d;
        u \<leftarrow> fe_sub u fe_1;
        v \<leftarrow> fe_add v fe_1;
        X \<leftarrow> fe_divpowm1 u v;
        root \<leftarrow> ge_root u v X;
        case root of
          None \<Rightarrow> Some Not_a_point
        | Some X \<Rightarrow> do {
            signed \<leftarrow> ge_sign s X;
            case signed of
              None \<Rightarrow> Some Not_a_point
            | Some X \<Rightarrow> do {
                T \<leftarrow> fe_mul X Y;
                Some (Point \<lparr>p3_X = X, p3_Y = Y, p3_Z = fe_1, p3_T = T\<rparr>) } } })"


section \<open>Limbs and elements of the field\<close>

definition fe_of :: "int \<Rightarrow> fe \<Rightarrow> fq \<Rightarrow> bool" where
  "fe_of b f a \<longleftrightarrow> fe_rep b f (residue a)"

lemma fe_of_of_int: "fe_of b f (of_int x) \<longleftrightarrow> fe_rep b f x"
  by (simp add: fe_of_def fe_rep_def)

lemma fe_of_cong: "fe_rep b f x \<Longrightarrow> of_int x = a \<Longrightarrow> fe_of b f a"
  by (auto simp: fe_of_of_int)

lemma fe_of_mono: "fe_of b f a \<Longrightarrow> b \<le> c \<Longrightarrow> fe_of c f a"
  unfolding fe_of_def by (rule fe_rep_mono)

lemma fe_of_consts: "fe_of fe_tight fe_0 0" "fe_of fe_tight fe_1 1" "fe_of fe_tight fe_sqrtm1 ed_i" "fe_of fe_tight fe_d ed_dd"
proof -
  show "fe_of fe_tight fe_0 0" "fe_of fe_tight fe_1 1"
    using fe_rep_consts [OF cong_refl, of fe_tight] fe_of_of_int [of fe_tight fe_0 0] fe_of_of_int [of fe_tight fe_1 1]
    by (simp_all add: fe_tight_def)
  have "fe_rep fe_tight fe_sqrtm1 (fe_val fe_sqrtm1)" unfolding fe_rep_def by code_simp
  then show "fe_of fe_tight fe_sqrtm1 ed_i" by (rule fe_of_cong) (simp add: ed_i_def)
  show "fe_of fe_tight fe_d ed_dd" using ed_d_value(1) by (rule fe_of_cong) (simp add: ed_dd_def)
qed

lemma fe_of_add: "fe_of b f x \<Longrightarrow> fe_of c g y \<Longrightarrow> 2 * (b + c) < 2 ^ 31 \<Longrightarrow> \<exists>h. fe_add f g = Some h \<and> fe_of (b + c) h (x + y)"
  using fe_add_rep [of b f "residue x" c g "residue y"] by (force simp: fe_of_def intro: fe_of_cong [unfolded fe_of_def])

lemma fe_of_sub: "fe_of b f x \<Longrightarrow> fe_of c g y \<Longrightarrow> 2 * (b + c) < 2 ^ 31 \<Longrightarrow> \<exists>h. fe_sub f g = Some h \<and> fe_of (b + c) h (x - y)"
  using fe_sub_rep [of b f "residue x" c g "residue y"] by (force simp: fe_of_def intro: fe_of_cong [unfolded fe_of_def])

lemma fe_of_neg: "fe_of b f x \<Longrightarrow> 2 * b < 2 ^ 31 \<Longrightarrow> \<exists>h. fe_neg f = Some h \<and> fe_of b h (- x)"
  using fe_neg_rep [of b f "residue x"] by (force simp: fe_of_def intro: fe_of_cong [unfolded fe_of_def])

lemma fe_of_mul: "fe_of b f x \<Longrightarrow> fe_of c g y \<Longrightarrow> b \<le> fe_loose \<Longrightarrow> c \<le> fe_loose \<Longrightarrow> \<exists>h. fe_mul f g = Some h \<and> fe_of fe_tight h (x * y)"
  using fe_mul_rep [of b f "residue x" c g "residue y"] by (force simp: fe_of_def intro: fe_of_cong [unfolded fe_of_def])

lemma fe_of_sq: "fe_of b f x \<Longrightarrow> b \<le> fe_loose \<Longrightarrow> \<exists>h. fe_sq f = Some h \<and> fe_of fe_tight h (x * x)"
  using fe_sq_rep [of b f "residue x"] by (force simp: fe_of_def intro: fe_of_cong [unfolded fe_of_def])

lemma fe_of_sq2: "fe_of b f x \<Longrightarrow> b \<le> fe_loose \<Longrightarrow> \<exists>h. fe_sq2 f = Some h \<and> fe_of fe_tight h (2 * (x * x))"
  using fe_sq2_rep [of b f "residue x"] by (force simp: fe_of_def intro: fe_of_cong [unfolded fe_of_def])

lemma fe_of_divpowm1:
  "fe_of b u x \<Longrightarrow> b \<le> fe_loose \<Longrightarrow> fe_of c v y \<Longrightarrow> c \<le> fe_loose \<Longrightarrow>
    \<exists>r. fe_divpowm1 u v = Some r \<and> fe_of fe_tight r (x * y ^ 3 * (x * y ^ 7) ^ nat ((fe_p - 5) div 8))"
  using fe_divpowm1_rep [of b u "residue x" c v "residue y"] by (force simp: fe_of_def intro: fe_of_cong [unfolded fe_of_def])

lemma fe_of_isnonzero: "fe_of b f a \<Longrightarrow> b \<le> fe_loose \<Longrightarrow> fe_isnonzero f = Some (if a = 0 then 0 else 1)"
  using fe_isnonzero_correct [of b f "residue a"] fq_zero_iff [of "residue a"] by (simp add: fe_of_def)

lemma fe_of_isnegative: "fe_of b f a \<Longrightarrow> b \<le> fe_loose \<Longrightarrow> fe_isnegative f = Some (residue a mod 2)"
  using fe_isnegative_correct [of b f "residue a"] residue_range [of a] by (simp add: fe_of_def)


section \<open>Canonical numbers\<close>

definition load10_max :: "int list" where
  "load10_max = [4294967295, 1073741760, 536870880, 134217720, 67108860, 4294967295, 2147483520, 536870880, 268435440, 33554428]"

lemma fe_load10_le:
  assumes "length s = 32" and "i < 10"
  shows "fe_load10 s ! i \<le> load10_max ! i"
proof -
  have l4: "sint (load_4 s k) \<le> 4294967295" if "k + 4 \<le> 32" for k
    using sint_load_4 [of k s] that assms(1) by simp
  have l3: "sint (push_bit n (load_3 s k)) \<le> 16777215 * 2 ^ n" if "k + 3 \<le> 32" "n \<le> 8" for k n
  proof -
    have "le_value (take 3 (drop k s)) \<le> 16777215" using le_value_upper [of "take 3 (drop k s)"] that assms(1) by simp
    then show ?thesis using sint_push_load_3(1) [of k s n] that assms(1) by simp
  qed
  have l9: "sint (push_bit 2 (load_3 s 29 AND 8388607)) \<le> 33554428"
    using sint_load_3_masked [of 29 s] take_bit_int_less_exp [of 23 "le_value (take 3 (drop 29 s))"] assms(1) by simp
  have "list_all2 (\<le>) (fe_load10 s) load10_max"
    unfolding fe_load10_def load10_max_def
    using l4 [of 0] l4 [of 16] l3 [of 4 6] l3 [of 7 5] l3 [of 10 3] l3 [of 13 2] l3 [of 20 7] l3 [of 23 5] l3 [of 26 4] l9
    by simp
  then show ?thesis using assms(2) by (simp add: list_all2_conv_all_nth load10_max_def)
qed

lemma fe_noncanonical_iff:
  assumes "length s = 32"
  shows "fe_noncanonical (fe_load10 s) \<longleftrightarrow> fe_p \<le> le_value s mod 2 ^ 255"
proof -
  define h where "h = (\<lambda>i. fe_load10 s ! i)"
  have v: "le_value s mod 2 ^ 255 = h 0 + 2 ^ 26 * h 1 + 2 ^ 51 * h 2 + 2 ^ 77 * h 3 + 2 ^ 102 * h 4 + 2 ^ 128 * h 5
     + 2 ^ 153 * h 6 + 2 ^ 179 * h 7 + 2 ^ 204 * h 8 + 2 ^ 230 * h 9"
    using fe_load10_value [OF assms] by (simp only: fe_val_limbs h_def)
  have le: "h 0 \<le> 4294967295" "h 1 \<le> 1073741760" "h 2 \<le> 536870880" "h 3 \<le> 134217720" "h 4 \<le> 67108860"
    "h 5 \<le> 4294967295" "h 6 \<le> 2147483520" "h 7 \<le> 536870880" "h 8 \<le> 268435440" "h 9 \<le> 33554428"
    using fe_load10_le [OF assms, of 0] fe_load10_le [OF assms, of 1] fe_load10_le [OF assms, of 2]
      fe_load10_le [OF assms, of 3] fe_load10_le [OF assms, of 4] fe_load10_le [OF assms, of 5]
      fe_load10_le [OF assms, of 6] fe_load10_le [OF assms, of 7] fe_load10_le [OF assms, of 8]
      fe_load10_le [OF assms, of 9] by (simp_all add: h_def load10_max_def)
  show ?thesis
  proof
    assume "fe_noncanonical (fe_load10 s)"
    then show "fe_p \<le> le_value s mod 2 ^ 255" unfolding v by (simp add: fe_noncanonical_def h_def fe_p_def)
  next
    assume "fe_p \<le> le_value s mod 2 ^ 255"
    then have "2 ^ 255 - 19 \<le> h 0 + 2 ^ 26 * h 1 + 2 ^ 51 * h 2 + 2 ^ 77 * h 3 + 2 ^ 102 * h 4 + 2 ^ 128 * h 5
      + 2 ^ 153 * h 6 + 2 ^ 179 * h 7 + 2 ^ 204 * h 8 + 2 ^ 230 * h 9" unfolding v fe_p_def .
    with le have "4294967277 \<le> h 0 \<and> 1073741760 \<le> h 1 \<and> 536870880 \<le> h 2 \<and> 134217720 \<le> h 3 \<and> 67108860 \<le> h 4
      \<and> 4294967295 \<le> h 5 \<and> 2147483520 \<le> h 6 \<and> 536870880 \<le> h 7 \<and> 268435440 \<le> h 8 \<and> 33554428 \<le> h 9"
      by simp
    with le show "fe_noncanonical (fe_load10 s)" by (simp add: fe_noncanonical_def h_def)
  qed
qed


section \<open>Square roots\<close>

text \<open>If \<open>u / v\<close> is a square then \<^verbatim>\<open>fe_divpowm1\<close> finds a root, up to a factor \<open>i\<close>.\<close>

lemma fq_half_power:
  fixes w :: fq
  shows "w ^ nat ((fe_p - 1) div 2) \<in> {0, 1, - 1}"
proof (cases "w = 0")
  case True
  then show ?thesis by (simp add: fe_p_def power_0_left)
next
  case False
  let ?h = "w ^ nat ((fe_p - 1) div 2)"
  have "?h * ?h = 1" using fq_fermat [OF False] by (simp add: power_add [symmetric] fe_p_def)
  then have "(?h - 1) * (?h + 1) = 0" by (simp add: algebra_simps)
  then show ?thesis by (auto simp: eq_neg_iff_add_eq_0)
qed

lemma sqrt_candidate:
  fixes u v x0 :: fq
  assumes "v * (x0 * x0) = u"
  defines "x \<equiv> u * v ^ 3 * (u * v ^ 7) ^ nat ((fe_p - 5) div 8)"
  shows "x * x * v = u \<or> x * x * v = - u"
proof -
  define w where "w = x0 * v ^ 4"
  define e where "e = nat ((fe_p - 5) div 8)"
  have e: "2 + 4 * e = nat ((fe_p - 1) div 2)" by (simp add: e_def fe_p_def)
  have "u * v ^ 7 = w * w" using assms(1) by (simp add: w_def eval_nat_numeral mult_ac)
  moreover have "u * v ^ 3 = x0 * w" unfolding w_def assms(1) [symmetric] by (simp add: eval_nat_numeral mult_ac)
  ultimately have "x = x0 * w * (w * w) ^ e" unfolding x_def e_def by simp
  then have "x * x * v = v * (x0 * x0) * (w * w * (w * w) ^ e * (w * w) ^ e)" by (simp add: mult_ac)
  also have "w * w * (w * w) ^ e * (w * w) ^ e = w ^ (2 + 4 * e)"
    by (simp add: power_add power_mult power2_eq_square power4_eq_xxxx power_mult_distrib mult_ac)
  finally have x: "x * x * v = u * w ^ nat ((fe_p - 1) div 2)" unfolding e assms(1) .
  show ?thesis
  proof (cases "w = 0")
    case True
    then have "u = 0" using assms(1) by (auto simp: w_def)
    with x show ?thesis by simp
  next
    case False
    then have "w ^ nat ((fe_p - 1) div 2) \<noteq> 0" by simp
    with fq_half_power [of w] x show ?thesis by auto
  qed
qed

lemma ge_root_is:
  assumes u: "fe_of (2 * fe_tight) u U" and v: "fe_of (2 * fe_tight) v V" and X: "fe_of fe_tight X x"
  shows "ge_root u v X = Some (if x * x * V = U then Some X else if x * x * V = - U then fe_mul X fe_sqrtm1 else None)"
proof -
  obtain a where a: "fe_sq X = Some a" "fe_of fe_tight a (x * x)"
    using fe_of_sq [OF X] by (auto simp: fe_bound_simps)
  obtain b where b: "fe_mul a v = Some b" "fe_of fe_tight b (x * x * V)"
    using fe_of_mul [OF a(2) v] by (auto simp: fe_bound_simps)
  obtain c where c: "fe_sub b u = Some c" "fe_of (3 * fe_tight) c (x * x * V - U)"
    using fe_of_sub [OF b(2) u] by (auto simp: fe_bound_simps)
  obtain d where d: "fe_add b u = Some d" "fe_of (3 * fe_tight) d (x * x * V + U)"
    using fe_of_add [OF b(2) u] by (auto simp: fe_bound_simps)
  have nz: "fe_isnonzero c = Some (if x * x * V - U = 0 then 0 else 1)" "fe_isnonzero d = Some (if x * x * V + U = 0 then 0 else 1)"
    using fe_of_isnonzero [OF c(2)] fe_of_isnonzero [OF d(2)] by (simp_all add: fe_bound_simps)
  obtain r where r: "fe_mul X fe_sqrtm1 = Some r"
    using fe_of_mul [OF X fe_of_consts(3)] by (auto simp: fe_bound_simps)
  show ?thesis
    using a(1) b(1) c(1) d(1) nz r by (simp add: ge_root_def eq_neg_iff_add_eq_0)
qed

lemma residue_minus: "a \<noteq> 0 \<Longrightarrow> residue (- a) = fe_p - residue a"
proof -
  assume "a \<noteq> 0"
  then have "residue a \<noteq> 0" by (metis of_int_0 of_int_residue)
  moreover have "residue (- a) = (- residue a) mod fe_p" by (metis of_int_minus of_int_residue residue_of_int)
  ultimately show ?thesis using residue_range [of a] by (simp add: zmod_zminus1_eq_if)
qed

lemma parity_minus: "a \<noteq> 0 \<Longrightarrow> residue (- a) mod 2 = 1 - residue a mod 2"
proof -
  assume "a \<noteq> 0"
  then have "residue (- a) mod 2 = (fe_p - residue a) mod 2" by (simp add: residue_minus)
  also have "fe_p = 2 * (2 ^ 254 - 10) + 1" by (simp add: fe_p_def)
  also have "(2 * k + 1 - r) mod 2 = 1 - r mod 2" for k r :: int by presburger
  finally show ?thesis .
qed

lemma ge_sign_is:
  assumes X: "fe_of fe_tight X x"
  shows "ge_sign s X = Some (if residue x mod 2 = uint (drop_bit 7 (s ! 31)) then Some X else if x = 0 then None else fe_neg X)"
proof -
  obtain r where r: "fe_neg X = Some r" using fe_of_neg [OF X] by (auto simp: fe_bound_simps)
  show ?thesis
    using r fe_of_isnegative [OF X] fe_of_isnonzero [OF X] by (simp add: ge_sign_def fe_bound_simps)
qed


section \<open>Encodings\<close>

definition ed_encode :: "ed_point \<Rightarrow> bytes" where
  "ed_encode g = le_bytes 32 (residue (py g) + 2 ^ 255 * (residue (px g) mod 2))"

lemma ed_encode_length [simp]: "length (ed_encode g) = 32"
  by (simp add: ed_encode_def)

lemma ed_encode_value: "le_value (ed_encode g) = residue (py g) + 2 ^ 255 * (residue (px g) mod 2)"
proof -
  have m: "residue (px g) mod 2 = 0 \<or> residue (px g) mod 2 = 1" by linarith
  then show ?thesis
    using residue_range [of "py g"] by (auto simp: ed_encode_def le_value_le_bytes fe_p_def)
qed

lemma encode_split:
  fixes n y b :: int
  assumes "0 \<le> y" and "y < 2 ^ 255"
  shows "n = y + 2 ^ 255 * b \<longleftrightarrow> n mod 2 ^ 255 = y \<and> n div 2 ^ 255 = b"
proof
  assume "n = y + 2 ^ 255 * b"
  then show "n mod 2 ^ 255 = y \<and> n div 2 ^ 255 = b" using assms by simp
next
  assume "n mod 2 ^ 255 = y \<and> n div 2 ^ 255 = b"
  then show "n = y + 2 ^ 255 * b" using mult_div_mod_eq [of "2 ^ 255" n] by simp
qed

lemma ed_encode_iff:
  assumes "length s = 32"
  shows "s = ed_encode g \<longleftrightarrow> le_value s mod 2 ^ 255 = residue (py g) \<and> le_value s div 2 ^ 255 = residue (px g) mod 2"
proof -
  have y: "0 \<le> residue (py g)" "residue (py g) < 2 ^ 255" using residue_range [of "py g"] by (simp_all add: fe_p_def)
  have "s = ed_encode g \<longleftrightarrow> le_value s = le_value (ed_encode g)"
    using le_value_inj [of s "ed_encode g"] assms by auto
  then show ?thesis unfolding ed_encode_value encode_split [OF y] .
qed

lemma residue_eqI: "residue a = residue b \<Longrightarrow> a = b"
  by (metis of_int_residue)

text \<open>The curve equation solved for \<open>x\<close>: at most two opposite solutions.\<close>

lemma ed_on_solved: "ed_on x y \<longleftrightarrow> x * x * (ed_dd * (y * y) + 1) = y * y - 1"
  unfolding ed_on_def by (simp add: power2_eq_square algebra_simps) (metis add_diff_cancel_left' diff_add_eq)

lemma ed_den_nonzero: "ed_dd * (y * y) + 1 \<noteq> 0"
proof
  assume "ed_dd * (y * y) + 1 = 0"
  with ed_i_sq have "ed_i * ed_i = ed_dd * (y * y)" by algebra
  from ed_dd_nonsquare_ratio [OF this] ed_i_sq show False by simp
qed

lemma ed_on_same_y:
  assumes "ed_on x y" and "ed_on x' y"
  shows "x' = x \<or> x' = - x"
proof -
  have "x' * x' * (ed_dd * (y * y) + 1) = x * x * (ed_dd * (y * y) + 1)" using assms by (simp add: ed_on_solved)
  then have "x' * x' = x * x" using ed_den_nonzero by simp
  then have "(x' - x) * (x' + x) = 0" by (simp add: algebra_simps)
  then show ?thesis by (auto simp: eq_neg_iff_add_eq_0)
qed

lemma ed_encode_inj: "ed_encode g = ed_encode h \<longleftrightarrow> g = h"
proof
  assume e: "ed_encode g = ed_encode h"
  have "py g = py h" and p: "residue (px g) mod 2 = residue (px h) mod 2"
    using ed_encode_iff [of "ed_encode g" g] ed_encode_iff [of "ed_encode g" h] e by (auto intro: residue_eqI)
  moreover have "px h = px g"
  proof (rule ccontr)
    assume n: "px h \<noteq> px g"
    with ed_on_same_y [of "px g" "py g" "px h"] ed_on_point [of g] ed_on_point [of h] \<open>py g = py h\<close>
    have m: "px h = - px g" by simp
    with n have "px g \<noteq> 0" by auto
    from parity_minus [OF this] p m have "residue (px g) mod 2 = 1 - residue (px g) mod 2" by simp
    then show False by presburger
  qed
  ultimately show "g = h" by (simp add: ed_point_eqI)
qed simp


section \<open>Decoding\<close>

lemma top_bit_value:
  assumes "length s = 32"
  shows "uint (drop_bit 7 (s ! 31)) = le_value s div 2 ^ 255"
proof -
  have "le_value s = le_value (take 31 s) + 256 ^ 31 * le_value (drop 31 s)"
    using le_value_append [of "take 31 s" "drop 31 s"] assms by simp
  moreover have "drop 31 s = [s ! 31]" using assms Cons_nth_drop_Suc [of 31 s] by simp
  ultimately have v: "le_value s = le_value (take 31 s) + 256 ^ 31 * uint (s ! 31)" by simp
  have "0 \<le> le_value (take 31 s)" "le_value (take 31 s) < 256 ^ 31" using le_value_upper [of "take 31 s"] assms by simp_all
  then have "le_value s div 256 ^ 31 = uint (s ! 31)" unfolding v by simp
  moreover have "le_value s div 2 ^ 255 = le_value s div 256 ^ 31 div 2 ^ 7"
    by (simp add: zdiv_zmult2_eq [symmetric])
  ultimately show ?thesis by (simp add: drop_bit_eq_div uint_div_distrib)
qed

text \<open>The steps up to the candidate.\<close>

lemma ge_frombytes_steps:
  assumes "length s = 32" and "\<not> fe_noncanonical (fe_load10 s)"
  obtains Y u v X where "fe_of fe_tight Y (of_int (le_value s mod 2 ^ 255))"
    and "fe_of (2 * fe_tight) u (of_int (le_value s mod 2 ^ 255) * of_int (le_value s mod 2 ^ 255) - 1)"
    and "fe_of (2 * fe_tight) v (of_int (le_value s mod 2 ^ 255) * of_int (le_value s mod 2 ^ 255) * ed_dd + 1)"
    and "fe_divpowm1 u v = Some X"
    and "ge_frombytes_vartime s = ge_root u v X \<bind> (\<lambda>root. case root of None \<Rightarrow> Some Not_a_point
      | Some X \<Rightarrow> ge_sign s X \<bind> (\<lambda>signed. case signed of None \<Rightarrow> Some Not_a_point
      | Some X \<Rightarrow> fe_mul X Y \<bind> (\<lambda>T. Some (Point \<lparr>p3_X = X, p3_Y = Y, p3_Z = fe_1, p3_T = T\<rparr>))))"
proof -
  let ?y = "of_int (le_value s mod 2 ^ 255) :: fq"
  obtain h Y where h: "limb_run 64 fe_frombytes_chain (fe_load10 s) = Some h" "fe_store h = Some Y"
    and Y: "fe_of fe_tight Y ?y"
  proof -
    obtain Y where "fe_frombytes s = Some Y" "fe_rep fe_tight Y (le_value s mod 2 ^ 255)"
      using fe_frombytes_rep [OF assms(1)] by blast
    then show ?thesis using that assms(1) fe_of_of_int [of fe_tight Y "le_value s mod 2 ^ 255"]
      by (auto simp: fe_frombytes_def bind_eq_Some_conv)
  qed
  obtain u0 where u0: "fe_sq Y = Some u0" "fe_of fe_tight u0 (?y * ?y)" using fe_of_sq [OF Y] by (auto simp: fe_bound_simps)
  obtain v0 where v0: "fe_mul u0 fe_d = Some v0" "fe_of fe_tight v0 (?y * ?y * ed_dd)"
    using fe_of_mul [OF u0(2) fe_of_consts(4)] by (auto simp: fe_bound_simps)
  obtain u where u: "fe_sub u0 fe_1 = Some u" "fe_of (2 * fe_tight) u (?y * ?y - 1)"
    using fe_of_sub [OF u0(2) fe_of_consts(2)] by (auto simp: fe_bound_simps)
  obtain v where v: "fe_add v0 fe_1 = Some v" "fe_of (2 * fe_tight) v (?y * ?y * ed_dd + 1)"
    using fe_of_add [OF v0(2) fe_of_consts(2)] by (auto simp: fe_bound_simps)
  obtain X where X: "fe_divpowm1 u v = Some X" using fe_of_divpowm1 [OF u(2) _ v(2)] by (auto simp: fe_bound_simps)
  show ?thesis
    by (rule that [OF Y u(2) v(2) X]) (use assms h u0(1) v0(1) u(1) v(1) X in \<open>simp add: ge_frombytes_vartime_def\<close>)
qed


lemma p3_is_affine:
  assumes "ed_on x y" and X: "fe_of fe_tight X x" and Y: "fe_of fe_tight Y y" and T: "fe_of fe_tight T (x * y)"
  shows "p3_is ed_coords \<lparr>p3_X = X, p3_Y = Y, p3_Z = fe_1, p3_T = T\<rparr> (ed_point x y)"
proof -
  have "fe_rep fe_tight T (residue x * residue y)" using T fe_of_of_int [of fe_tight T "residue x * residue y"] by simp
  moreover have "fe_rep fe_tight fe_1 1" using fe_of_consts(2) fe_of_of_int [of fe_tight fe_1 1] by simp
  ultimately have "p3_pt fe_tight \<lparr>p3_X = X, p3_Y = Y, p3_Z = fe_1, p3_T = T\<rparr> (residue x) (residue y) 1"
    using X Y by (simp add: p3_pt_def fe_of_def)
  then show ?thesis using fe_unit_1 assms(1) unfolding p3_is_def by (intro exI [of _ 1]) simp
qed

text \<open>What a candidate with the right sign gives, and that there is one when the bytes encode a point.\<close>

lemma ge_frombytes_is:
  assumes len: "length s = 32"
  shows "(\<exists>P g. ge_frombytes_vartime s = Some (Point P) \<and> p3_is ed_coords P g \<and> s = ed_encode g)
    \<or> (ge_frombytes_vartime s = Some Not_a_point \<and> (\<forall>g. s \<noteq> ed_encode g))"
proof (cases "fe_noncanonical (fe_load10 s)")
  case True
  then have "fe_p \<le> le_value s mod 2 ^ 255" using fe_noncanonical_iff [OF len] by simp
  then have "s \<noteq> ed_encode g" for g using ed_encode_iff [OF len, of g] residue_range [of "py g"] by auto
  then show ?thesis using True len by (simp add: ge_frombytes_vartime_def)
next
  case False
  define n b where "n = le_value s mod 2 ^ 255" and "b = le_value s div 2 ^ 255"
  define y x where "y = (of_int n :: fq)" and "x = (y * y - 1) * (y * y * ed_dd + 1) ^ 3 *
    ((y * y - 1) * (y * y * ed_dd + 1) ^ 7) ^ nat ((fe_p - 5) div 8)"
  have n: "residue y = n" using fe_noncanonical_iff [OF len] False by (simp add: y_def n_def)
  have b: "uint (drop_bit 7 (s ! 31)) = b" by (simp only: b_def top_bit_value [OF len])
  have enc: "s = ed_encode g \<longleftrightarrow> py g = y \<and> residue (px g) mod 2 = b" for g
    using ed_encode_iff [OF len, of g] n by (auto simp: n_def b_def intro: residue_eqI)
  obtain Y u v X where Y: "fe_of fe_tight Y y" and u: "fe_of (2 * fe_tight) u (y * y - 1)"
    and v: "fe_of (2 * fe_tight) v (y * y * ed_dd + 1)" and X: "fe_divpowm1 u v = Some X"
    and run: "ge_frombytes_vartime s = ge_root u v X \<bind> (\<lambda>root. case root of None \<Rightarrow> Some Not_a_point
      | Some X \<Rightarrow> ge_sign s X \<bind> (\<lambda>signed. case signed of None \<Rightarrow> Some Not_a_point
      | Some X \<Rightarrow> fe_mul X Y \<bind> (\<lambda>T. Some (Point \<lparr>p3_X = X, p3_Y = Y, p3_Z = fe_1, p3_T = T\<rparr>))))"
    using ge_frombytes_steps [OF len False] unfolding y_def n_def by blast
  have X': "fe_of fe_tight X x" using fe_of_divpowm1 [OF u _ v] X by (auto simp: fe_bound_simps x_def)
  note solved = ed_on_solved [of _ y, unfolded mult.commute [of ed_dd]]
  have no_root: "\<not> ed_on x0 y" if "x * x * (y * y * ed_dd + 1) \<noteq> y * y - 1" "x * x * (y * y * ed_dd + 1) \<noteq> - (y * y - 1)" for x0
    using sqrt_candidate [of "y * y * ed_dd + 1" x0 "y * y - 1"] that solved [of x0] by (auto simp: x_def mult_ac)
  have signed: ?thesis
    if root: "ge_root u v X = Some (Some Z)" and Z: "fe_of fe_tight Z z" and on: "ed_on z y" for Z z
  proof -
    have finish: ?thesis if sg: "ge_sign s Z = Some (Some Z')" and z': "fe_of fe_tight Z' z'" "ed_on z' y" "residue z' mod 2 = b" for Z' z'
    proof -
      obtain T where T: "fe_mul Z' Y = Some T" "fe_of fe_tight T (z' * y)"
        using fe_of_mul [OF z'(1) Y] by (auto simp: fe_bound_simps)
      have "s = ed_encode (ed_point z' y)" using z'(2,3) enc by simp
      then show ?thesis using run root sg T(1) p3_is_affine [OF z'(2,1) Y T(2)] by auto
    qed
    show ?thesis
    proof (cases "residue z mod 2 = b")
      case True
      then show ?thesis using ge_sign_is [OF Z, of s] b Z on by (intro finish) simp_all
    next
      case odd: False
      show ?thesis
      proof (cases "z = 0")
        case True
        then have "s \<noteq> ed_encode g" for g
          using enc [of g] odd ed_on_same_y [OF on, of "px g"] ed_on_point [of g] by auto
        moreover have "ge_frombytes_vartime s = Some Not_a_point"
          using run root ge_sign_is [OF Z, of s] b odd True by simp
        ultimately show ?thesis by blast
      next
        case False
        obtain Z' where Z': "fe_neg Z = Some Z'" "fe_of fe_tight Z' (- z)" using fe_of_neg [OF Z] by (auto simp: fe_bound_simps)
        have "0 \<le> b" "b < 2"
          using le_value_upper [of s] len by (simp_all add: b_def pos_imp_zdiv_nonneg_iff zdiv_upper)
        then have "residue (- z) mod 2 = b" using parity_minus [OF False] odd by presburger
        then show ?thesis
          using ge_sign_is [OF Z, of s] b odd False Z' on by (intro finish [of Z' "- z"]) (simp_all add: ed_on_def)
      qed
    qed
  qed
  note root = ge_root_is [OF u v X']
  consider "x * x * (y * y * ed_dd + 1) = y * y - 1" | "x * x * (y * y * ed_dd + 1) = - (y * y - 1)" "x * x * (y * y * ed_dd + 1) \<noteq> y * y - 1"
    | "x * x * (y * y * ed_dd + 1) \<noteq> y * y - 1" "x * x * (y * y * ed_dd + 1) \<noteq> - (y * y - 1)" by blast
  then show ?thesis
  proof cases
    case 1
    then show ?thesis using root X' solved [of x] by (intro signed) simp_all
  next
    case 2
    obtain Z where Z: "fe_mul X fe_sqrtm1 = Some Z" "fe_of fe_tight Z (x * ed_i)"
      using fe_of_mul [OF X' fe_of_consts(3)] by (auto simp: fe_bound_simps)
    have "x * ed_i * (x * ed_i) * (y * y * ed_dd + 1) = y * y - 1" using 2(1) ed_i_sq by algebra
    then show ?thesis using root Z 2 solved [of "x * ed_i"] by (intro signed [of Z "x * ed_i"]) simp_all
  next
    case 3
    then have "s \<noteq> ed_encode g" for g using no_root [of "px g"] enc [of g] ed_on_point [of g] by auto
    then show ?thesis using run root 3 by simp
  qed
qed


section \<open>Encoding\<close>

lemma ge_encode_is:
  assumes "fe_rep fe_tight hX (residue (px g) * z)" "fe_rep fe_tight hY (residue (py g) * z)" "fe_rep fe_tight hZ z" and "fe_unit z"
  shows "ge_encode hX hY hZ = Some (ed_encode g)"
proof -
  obtain s where s: "ge_encode hX hY hZ = Some s" "length s = 32"
    "le_value s = residue (py g) mod fe_p + 2 ^ 255 * (residue (px g) mod fe_p mod 2)"
    using ge_encode_bytes [OF assms(1-3) fermat_cong [OF assms(4)]] by blast
  then have "s = ed_encode g" using residue_range [of "px g"] residue_range [of "py g"]
    by (intro le_value_inj) (simp_all add: ed_encode_value)
  with s(1) show ?thesis by simp
qed

lemma ge_tobytes_is: "p2_is ed_coords P g \<Longrightarrow> ge_tobytes P = Some (ed_encode g)"
  by (auto simp: p2_is_def p2_pt_def ge_tobytes_def intro: ge_encode_is)

lemma ge_p3_tobytes_is: "p3_is ed_coords P g \<Longrightarrow> ge_p3_tobytes P = Some (ed_encode g)"
  by (auto simp: p3_is_def p3_pt_def ge_p3_tobytes_def intro: ge_encode_is)

text \<open>Decoding as a partial inverse of the encoding.\<close>

lemma ge_frombytes_encode:
  obtains P where "ge_frombytes_vartime (ed_encode g) = Some (Point P)" and "p3_is ed_coords P g"
  using ge_frombytes_is [of "ed_encode g"] by (auto simp: ed_encode_inj)

lemma ge_frombytes_Point:
  assumes "length s = 32" and "ge_frombytes_vartime s = Some (Point P)"
  obtains g where "p3_is ed_coords P g" and "s = ed_encode g"
  using ge_frombytes_is [OF assms(1)] assms(2) by auto

lemma ge_frombytes_total:
  assumes "length s = 32"
  obtains r where "ge_frombytes_vartime s = Some r"
  using ge_frombytes_is [OF assms] by auto

lemma ge_frombytes_rejects:
  assumes "length s = 32"
  shows "ge_frombytes_vartime s = Some Not_a_point \<longleftrightarrow> (\<forall>g. s \<noteq> ed_encode g)"
  using ge_frombytes_is [OF assms] by (auto elim: ge_frombytes_encode)


section \<open>The promises\<close>

lemma residue_0_1 [simp]: "residue 0 = 0" "residue 1 = 1"
  using residue_of_int [of 0] residue_of_int [of 1] by (simp_all add: fe_p_def)

text \<open>The point of order four, for concrete instances.\<close>

definition ed_order4 :: ed_point where
  "ed_order4 = ed_point ed_i 0"

lemma ed_order4_coords [simp]: "px ed_order4 = ed_i" "py ed_order4 = 0"
  using ed_i_sq by (simp_all add: ed_order4_def ed_on_def power2_eq_square)

text \<open>The number 1 has the root 0 alone, so its sign bit must be clear.\<close>

lemma not_a_point: "\<not> (\<exists>g. le_bytes 32 (1 + 2 ^ 255) = ed_encode g)"
proof -
  have v: "le_value (le_bytes 32 (1 + 2 ^ 255)) = 1 + 2 ^ 255" by (simp add: le_value_le_bytes)
  show "\<not> (\<exists>g. le_bytes 32 (1 + 2 ^ 255) = ed_encode g)"
  proof
    assume "\<exists>g. le_bytes 32 (1 + 2 ^ 255) = ed_encode g"
    then obtain g where g: "le_bytes 32 (1 + 2 ^ 255) = ed_encode g" by blast
    have "residue (py g) = 1" "residue (px g) mod 2 = 1"
      using ed_encode_iff [of "le_bytes 32 (1 + 2 ^ 255)" g] g unfolding v by simp_all
    then have "py g = 1" "px g \<noteq> 0"
      by (metis of_int_1 of_int_residue, metis mod_0 of_int_0 residue_of_int zero_neq_one)
    moreover have "px g = 0 \<or> px g = - 0"
      by (rule ed_on_same_y [of 0 1]) (use ed_on_point [of g] \<open>py g = 1\<close> in \<open>simp_all add: ed_on_def\<close>)
    ultimately show False by simp
  qed
qed

text \<open>
  C21 (ge_frombytes_decides). \<^verbatim>\<open>ge_frombytes_vartime\<close> never overflows a limb and decides whether 32 bytes
  are the encoding of a point of the curve: it returns that point, and rejects all other bytes, among them
  those whose number is not reduced, those without a root, and a zero \<open>x\<close> with the sign bit set.
\<close>

theorem ge_frombytes_decides:
  assumes "length s = 32"
  shows "if \<exists>g. s = ed_encode g then \<exists>P. ge_frombytes_vartime s = Some (Point P) \<and> p3_is ed_coords P (THE g. s = ed_encode g)
    else ge_frombytes_vartime s = Some Not_a_point"
proof (cases "\<exists>g. s = ed_encode g")
  case True
  then obtain g where g: "s = ed_encode g" by blast
  then have "(THE g. s = ed_encode g) = g" by (auto simp: ed_encode_inj)
  then show ?thesis using True g ge_frombytes_encode [of g] by auto
next
  case False
  then show ?thesis using ge_frombytes_rejects [OF assms] by auto
qed

theorem ge_frombytes_decides_witness:
  "ge_frombytes_vartime (le_bytes 32 (1 + 2 ^ 255)) = Some Not_a_point
    \<and> (\<exists>P. ge_frombytes_vartime (le_bytes 32 1) = Some (Point P) \<and> p3_is ed_coords P 0)"
proof -
  have z: "le_bytes 32 1 = ed_encode 0" by (simp add: ed_encode_def)
  show ?thesis
    using not_a_point ge_frombytes_decides [of "le_bytes 32 (1 + 2 ^ 255)"] ge_frombytes_decides [of "le_bytes 32 1"]
    unfolding z by (auto simp: ed_encode_inj)
qed

text \<open>
  C22 (ge_codec_roundtrip). Encoding and decoding are inverse to each other: what
  \<^verbatim>\<open>ge_tobytes\<close> and \<^verbatim>\<open>ge_p3_tobytes\<close> write for a point is read back as that point, and what is read is
  written back byte for byte. So no two byte strings name one point and no two points share an encoding.
\<close>

theorem ge_codec_roundtrip:
  assumes "p3_is ed_coords P g" and "p2_is ed_coords Q g" and "length s = 32" and "ge_frombytes_vartime s = Some (Point R)"
  shows "ge_p3_tobytes P = Some (ed_encode g) \<and> ge_tobytes Q = Some (ed_encode g)
    \<and> (\<exists>P'. ge_frombytes_vartime (ed_encode g) = Some (Point P') \<and> p3_is ed_coords P' g)
    \<and> ge_p3_tobytes R = Some s"
  using ge_p3_tobytes_is [OF assms(1)] ge_tobytes_is [OF assms(2)] ge_frombytes_encode [of g]
    ge_frombytes_Point [OF assms(3,4)] by (metis ge_p3_tobytes_is)

theorem ge_codec_roundtrip_witness:
  "ge_p3_tobytes ge_p3_0 = Some (ed_encode 0) \<and> ge_tobytes ge_p2_0 = Some (ed_encode 0)"
proof -
  obtain P where "ge_frombytes_vartime (ed_encode 0) = Some (Point P)" by (rule ge_frombytes_encode)
  from ge_codec_roundtrip [OF neutral_is(2) [OF ed_group] neutral_is(1) [OF ed_group] ed_encode_length this]
  show ?thesis by blast
qed

end
