(* ===== verification/Scalar_Mult.thy ===== *)
theory Scalar_Mult
  imports Group_Law
begin

text \<open>
  Multiplication of a point by a scalar with radix-16 digits and constant-time table look-ups:
  \<^verbatim>\<open>ge_scalarmult\<close> and \<^verbatim>\<open>ge_scalarmult_p3\<close> of \<^verbatim>\<open>src/src/crypto/crypto-ops.c\<close>. The theorems say that
  for every scalar with \<^verbatim>\<open>a[31] <= 127\<close>, the precondition of the source, the result stands for the
  multiple \<open>a A\<close> in any group of points.
\<close>

unbundle bit_operations_syntax

section \<open>Constant-time selection\<close>

definition equal_c :: "u8 \<Rightarrow> u8 \<Rightarrow> u8" where
  "equal_c b c = (let x = b XOR c; y = (ucast x :: u32) - 1 in ucast (drop_bit 31 y))"

definition negative :: "int \<Rightarrow> u8" where
  "negative b = ucast (drop_bit 63 (word_of_int b :: u64))"

text \<open>\<^verbatim>\<open>unsigned char babs = b - (((-bnegative) & b) << 1);\<close>\<close>

definition babs :: "int \<Rightarrow> u8" where
  "babs b = word_of_int (b - push_bit 1 ((- uint (negative b)) AND b))"

definition ge_cached_cmov :: "ge_cached \<Rightarrow> ge_cached \<Rightarrow> u8 \<Rightarrow> ge_cached option" where
  "ge_cached_cmov t u b = do {
     rp \<leftarrow> fe_cmov (ca_YplusX t) (ca_YplusX u) (ucast b);
     rm \<leftarrow> fe_cmov (ca_YminusX t) (ca_YminusX u) (ucast b);
     rZ \<leftarrow> fe_cmov (ca_Z t) (ca_Z u) (ucast b);
     rT \<leftarrow> fe_cmov (ca_T2d t) (ca_T2d u) (ucast b);
     Some \<lparr>ca_YplusX = rp, ca_YminusX = rm, ca_Z = rZ, ca_T2d = rT\<rparr> }"

text \<open>The eight statements \<^verbatim>\<open>ge_cached_cmov(&cur, &Ai[k], equal(babs, k + 1));\<close>\<close>

fun cached_scan :: "ge_cached list \<Rightarrow> u8 \<Rightarrow> nat list \<Rightarrow> ge_cached \<Rightarrow> ge_cached option" where
  "cached_scan Ai a [] cur = Some cur"
| "cached_scan Ai a (k # ks) cur =
     do { cur \<leftarrow> ge_cached_cmov cur (Ai ! k) (equal_c a (of_nat (k + 1))); cached_scan Ai a ks cur }"

definition cached_select :: "ge_cached list \<Rightarrow> int \<Rightarrow> ge_cached option" where
  "cached_select Ai b = do {
     cur \<leftarrow> cached_scan Ai (babs b) [0, 1, 2, 3, 4, 5, 6, 7] ge_cached_0;
     mp \<leftarrow> fe_copy (ca_YminusX cur);
     mm \<leftarrow> fe_copy (ca_YplusX cur);
     mZ \<leftarrow> fe_copy (ca_Z cur);
     mT \<leftarrow> fe_neg (ca_T2d cur);
     ge_cached_cmov cur \<lparr>ca_YplusX = mp, ca_YminusX = mm, ca_Z = mZ, ca_T2d = mT\<rparr> (negative b) }"


section \<open>Digits and the table of multiples\<close>

text \<open>
  The loop over \<^verbatim>\<open>a[0] \<dots> a[30]\<close>: two digits per byte and the carry into the next byte.
\<close>

fun recode_loop :: "bytes \<Rightarrow> int \<Rightarrow> int list \<times> int" where
  "recode_loop [] carry = ([], carry)"
| "recode_loop (a # as) carry =
     (let c = carry + uint a;
          c2 = (c + 8) div 2 ^ 4;
          c' = (c2 + 8) div 2 ^ 4;
          (es, cf) = recode_loop as c'
      in ((c - c2 * 2 ^ 4) # (c2 - c' * 2 ^ 4) # es, cf))"

definition recode :: "bytes \<Rightarrow> int list" where
  "recode a =
     (let (es, carry) = recode_loop (take 31 a) 0;
          c = carry + uint (a ! 31);
          c2 = (c + 8) div 2 ^ 4
      in es @ [c - c2 * 2 ^ 4, c2])"

text \<open>\<^verbatim>\<open>Ai[0] = A\<close> and then seven times \<^verbatim>\<open>Ai[i + 1] = A + Ai[i]\<close>.\<close>

fun cached_multiples :: "nat \<Rightarrow> ge_p3 \<Rightarrow> ge_cached \<Rightarrow> ge_cached list option" where
  "cached_multiples 0 A c = Some [c]"
| "cached_multiples (Suc n) A c = do {
     t \<leftarrow> ge_add A c;
     u \<leftarrow> ge_p1p1_to_p3 t;
     c' \<leftarrow> ge_p3_to_cached u;
     cs \<leftarrow> cached_multiples n A c';
     Some (c # cs) }"


section \<open>Multiplication\<close>

text \<open>One iteration: four doublings, then the selected multiple is added.\<close>

definition scalarmult_step :: "ge_cached list \<Rightarrow> int \<Rightarrow> ge_p2 \<Rightarrow> ge_p1p1 option" where
  "scalarmult_step Ai b r = do {
     t \<leftarrow> ge_p2_dbl r;
     r \<leftarrow> ge_p1p1_to_p2 t;
     t \<leftarrow> ge_p2_dbl r;
     r \<leftarrow> ge_p1p1_to_p2 t;
     t \<leftarrow> ge_p2_dbl r;
     r \<leftarrow> ge_p1p1_to_p2 t;
     t \<leftarrow> ge_p2_dbl r;
     u \<leftarrow> ge_p1p1_to_p3 t;
     cur \<leftarrow> cached_select Ai b;
     ge_add u cur }"

fun scalarmult_loop :: "ge_cached list \<Rightarrow> int list \<Rightarrow> ge_p2 \<Rightarrow> ge_p2 option" where
  "scalarmult_loop Ai [] r = Some r"
| "scalarmult_loop Ai (b # bs) r =
     do { t \<leftarrow> scalarmult_step Ai b r; r \<leftarrow> ge_p1p1_to_p2 t; scalarmult_loop Ai bs r }"

definition ge_scalarmult :: "bytes \<Rightarrow> ge_p3 \<Rightarrow> ge_p2 option" where
  "ge_scalarmult a A =
     (if length a < 32 then None
      else do { c \<leftarrow> ge_p3_to_cached A;
                Ai \<leftarrow> cached_multiples 7 A c;
                scalarmult_loop Ai (rev (recode a)) ge_p2_0 })"

text \<open>\<^verbatim>\<open>ge_scalarmult_p3\<close> converts to the extended representation in the last iteration.\<close>

definition ge_scalarmult_p3 :: "bytes \<Rightarrow> ge_p3 \<Rightarrow> ge_p3 option" where
  "ge_scalarmult_p3 a A =
     (if length a < 32 then None
      else do { c \<leftarrow> ge_p3_to_cached A;
                Ai \<leftarrow> cached_multiples 7 A c;
                r \<leftarrow> scalarmult_loop Ai (rev (tl (recode a))) ge_p2_0;
                t \<leftarrow> scalarmult_step Ai (hd (recode a)) r;
                ge_p1p1_to_p3 t })"


section \<open>Digits\<close>

text \<open>The number with the signed digits \<open>ds\<close> in base \<open>16\<close>, least significant first.\<close>

fun digits16 :: "int list \<Rightarrow> int" where
  "digits16 [] = 0"
| "digits16 (d # ds) = d + 16 * digits16 ds"

lemma digits16_append: "digits16 (xs @ ys) = digits16 xs + 16 ^ length xs * digits16 ys"
  by (induction xs) (simp_all add: algebra_simps)

lemma digit_range: "- 8 \<le> c - (c + 8) div 2 ^ 4 * 2 ^ 4 \<and> c - (c + 8) div 2 ^ 4 * 2 ^ 4 \<le> (7 :: int)"
  using div_bounds [of "2 ^ 4" "c + 8"] by simp

lemma carry_range:
  fixes x m :: int
  assumes "0 \<le> x" and "x \<le> m"
  shows "0 \<le> (x + 8) div 2 ^ 4" and "(x + 8) div 2 ^ 4 \<le> (m + 8) div 2 ^ 4"
  using assms by (auto intro!: zdiv_mono1 pos_imp_zdiv_nonneg_iff [THEN iffD2])

lemma recode_loop_value:
  "0 \<le> c \<Longrightarrow> c \<le> 1 \<Longrightarrow> case recode_loop as c of (es, cf) \<Rightarrow>
     digits16 es + 256 ^ length as * cf = le_value as + c \<and> length es = 2 * length as
     \<and> 0 \<le> cf \<and> cf \<le> 1 \<and> list_all (\<lambda>d. - 8 \<le> d \<and> d \<le> 8) es"
proof (induction as arbitrary: c)
  case Nil
  then show ?case by simp
next
  case (Cons a as)
  let ?c = "c + uint a" let ?c2 = "(?c + 8) div 2 ^ 4" let ?c' = "(?c2 + 8) div 2 ^ 4"
  obtain es cf where r: "recode_loop as ?c' = (es, cf)" by fastforce
  have "0 \<le> ?c" "?c \<le> 256" using Cons.prems uint_ge_0 [of a] uint_lt2p [of a] by simp_all
  from carry_range [OF this] have "0 \<le> ?c2" "?c2 \<le> 16" by simp_all
  from carry_range [OF this] have "0 \<le> ?c'" "?c' \<le> 1" by simp_all
  from Cons.IH [OF this] r have "digits16 es + 256 ^ length as * cf = le_value as + ?c'"
    "length es = 2 * length as" "0 \<le> cf" "cf \<le> 1" "list_all (\<lambda>d. - 8 \<le> d \<and> d \<le> 8) es" by simp_all
  then show ?case
    using r digit_range [of ?c] digit_range [of ?c2] by (simp add: Let_def algebra_simps)
qed

lemma recode_value:
  assumes "length a = 32" and "uint (a ! 31) \<le> 127"
  shows "digits16 (recode a) = le_value a" and "length (recode a) = 64"
    and "list_all (\<lambda>d. - 8 \<le> d \<and> d \<le> 8) (recode a)"
proof -
  obtain es c where r: "recode_loop (take 31 a) 0 = (es, c)" by fastforce
  have v: "digits16 es + 256 ^ 31 * c = le_value (take 31 a)" "length es = 62" "0 \<le> c" "c \<le> 1"
    "list_all (\<lambda>d. - 8 \<le> d \<and> d \<le> 8) es"
    using recode_loop_value [of 0 "take 31 a"] r assms(1) by simp_all
  let ?c = "c + uint (a ! 31)" let ?c2 = "(?c + 8) div 2 ^ 4"
  have e: "recode a = es @ [?c - ?c2 * 2 ^ 4, ?c2]" using r by (simp add: recode_def Let_def)
  have a: "a = take 31 a @ [a ! 31]" using assms(1) by (simp add: take_Suc_conv_app_nth [symmetric])
  have "le_value a = le_value (take 31 a) + 256 ^ 31 * uint (a ! 31)"
    using assms(1) by (subst a, simp only: le_value_append) simp
  then show "digits16 (recode a) = le_value a"
    unfolding e using v(1,2) assms(1) by (simp add: digits16_append)
  show "length (recode a) = 64" unfolding e using v(2) assms(1) by simp
  have "0 \<le> ?c" "?c \<le> 128" using v(3,4) assms(2) uint_ge_0 [of "a ! 31"] by linarith+
  from carry_range [OF this] have "0 \<le> ?c2" "?c2 \<le> 8" by simp_all
  then show "list_all (\<lambda>d. - 8 \<le> d \<and> d \<le> 8) (recode a)"
    unfolding e using v(5) digit_range [of ?c] by simp
qed



section \<open>Selection\<close>

lemma equal_c_digit:
  assumes "n \<le> 8" and "k < 8"
  shows "equal_c (of_nat n) (of_nat (k + 1)) = (if n = k + 1 then 1 else 0)"
proof -
  have "list_all (\<lambda>n. list_all (\<lambda>k. equal_c (of_nat n) (of_nat (k + 1)) = (if n = k + 1 then 1 else 0)) [0..<8]) [0..<9]"
    by code_simp
  then show ?thesis using assms by (auto simp: list_all_iff)
qed

lemma babs_digit:
  assumes "- 8 \<le> b" and "b \<le> 8"
  shows "babs b = of_nat (nat \<bar>b\<bar>)" and "negative b = (if b < 0 then 1 else 0)"
proof -
  have "list_all (\<lambda>b. babs b = of_nat (nat \<bar>b\<bar>) \<and> negative b = (if b < 0 then 1 else 0)) [- 8..8]"
    by code_simp
  moreover have "b \<in> set [- 8..8]" using assms by (simp only: set_upto atLeastAtMost_iff)
  ultimately show "babs b = of_nat (nat \<bar>b\<bar>)" and "negative b = (if b < 0 then 1 else 0)"
    unfolding list_all_iff by blast+
qed

lemma cached_cmov_select:
  assumes "cached_pt (2 * fe_tight) t x y z" and "cached_pt (2 * fe_tight) u x' y' z'"
  shows "ge_cached_cmov t u 0 = Some t" and "ge_cached_cmov t u 1 = Some u"
proof -
  have b: "2 * (2 * fe_tight) < 2 ^ 31" by (simp add: fe_tight_def)
  note s = fe_cmov_select [OF _ _ b b]
  show "ge_cached_cmov t u 0 = Some t" and "ge_cached_cmov t u 1 = Some u"
    using assms by (simp_all add: ge_cached_cmov_def cached_pt_def fe_rep_def s)
qed

lemma cached_cmov_is:
  assumes "cached_is pt t g" and "cached_is pt u h"
  shows "ge_cached_cmov t u 0 = Some t" and "ge_cached_cmov t u 1 = Some u"
  using assms cached_cmov_select unfolding cached_is_def by blast+

lemma cached_scan_is:
  assumes "\<And>k. k < 8 \<Longrightarrow> cached_is pt (Ai ! k) (h k)" and "cached_is pt cur g" and "n \<le> 8"
    and "set ks \<subseteq> {..<8}" and "distinct ks"
  shows "\<exists>r. cached_scan Ai (of_nat n) ks cur = Some r
    \<and> cached_is pt r (if \<exists>k\<in>set ks. n = k + 1 then h (n - 1) else g)"
  using assms(2,4,5)
proof (induction ks arbitrary: cur g)
  case Nil
  then show ?case by simp
next
  case (Cons k ks)
  have k: "k < 8" using Cons.prems by simp
  have e: "equal_c (of_nat n) (of_nat (k + 1)) = (if n = k + 1 then 1 else 0)"
    by (rule equal_c_digit [OF assms(3) k])
  note m = cached_cmov_is [OF Cons.prems(1) assms(1) [OF k]]
  show ?case
  proof (cases "n = k + 1")
    case True
    then have "\<not> (\<exists>j\<in>set ks. n = j + 1)" using Cons.prems(3) by auto
    with True e m(2) Cons.IH [OF assms(1) [OF k]] Cons.prems show ?thesis by auto
  next
    case False
    with e m(1) Cons.IH [OF Cons.prems(1)] Cons.prems show ?thesis by auto
  qed
qed


text \<open>Mirroring a cached point.\<close>

lemma cached_neg_is:
  assumes "curve_group pt" and "cached_is pt c g"
  shows "\<exists>t. fe_neg (ca_T2d c) = Some t
    \<and> cached_is pt \<lparr>ca_YplusX = ca_YminusX c, ca_YminusX = ca_YplusX c, ca_Z = ca_Z c, ca_T2d = t\<rparr> (- g)"
proof -
  let ?x = "fst (pt g)" and ?y = "snd (pt g)" and ?x' = "fst (pt (- g))" and ?y' = "snd (pt (- g))"
  note cg = curve_groupD [OF assms(1)]
  from assms(2) obtain z where z: "fe_unit z" and c: "cached_pt (2 * fe_tight) c ?x ?y z"
    by (auto simp: cached_is_def)
  then obtain t where t: "fe_neg (ca_T2d c) = Some t" "fe_rep (2 * fe_tight) t (- (2 * ed_d * ?x * ?y * z))"
    using fe_neg_rep [of "2 * fe_tight" "ca_T2d c"] by (auto simp: cached_pt_def fe_tight_def)
  have "cong ((?y - ?x) * z) ((?y' + ?x') * z)" "cong ((?y + ?x) * z) ((?y' - ?x') * z)"
    "cong (- (2 * ed_d * ?x * ?y * z)) (2 * ed_d * ?x' * ?y' * z)"
    using cong_mult [OF cong_add [OF cg(5) cg(4) [of g]] cong_refl [of z]]
      cong_mult [OF cong_diff [OF cg(5) cg(4) [of g]] cong_refl [of z]]
      cong_mult [OF cong_mult [OF cong_refl [of "2 * ed_d"] cong_mult [OF cg(4) cg(5) [of g]]] cong_refl [of z]]
    by (simp_all add: cong_sym mult.assoc)
  with c t(2) have "cached_pt (2 * fe_tight)
      \<lparr>ca_YplusX = ca_YminusX c, ca_YminusX = ca_YplusX c, ca_Z = ca_Z c, ca_T2d = t\<rparr> ?x' ?y' z"
    unfolding cached_pt_def by (auto intro: fe_rep_conv)
  with z t(1) show ?thesis by (auto simp: cached_is_def)
qed

lemma cached_is_copy:
  assumes "cached_is pt c g"
  shows "fe_copy (ca_YplusX c) = Some (ca_YplusX c)" "fe_copy (ca_YminusX c) = Some (ca_YminusX c)"
    "fe_copy (ca_Z c) = Some (ca_Z c)"
  using assms by (auto simp: cached_is_def cached_pt_def fe_copy_rep)

lemma cached_select_is:
  assumes "curve_group pt" and "\<And>k. k < 8 \<Longrightarrow> cached_is pt (Ai ! k) (zmul (int k + 1) g)"
    and "- 8 \<le> b" and "b \<le> 8"
  shows "\<exists>r. cached_select Ai b = Some r \<and> cached_is pt r (zmul b g)"
proof -
  let ?n = "nat \<bar>b\<bar>"
  have "?n \<le> 8" using assms(3,4) by simp
  from cached_scan_is [of pt Ai, OF assms(2) neutral_is(3) [OF assms(1)] this, of "[0, 1, 2, 3, 4, 5, 6, 7]"]
  obtain cur where scan: "cached_scan Ai (of_nat ?n) [0, 1, 2, 3, 4, 5, 6, 7] ge_cached_0 = Some cur"
    and cur: "cached_is pt cur (if \<exists>k\<in>set [0, 1, 2, 3, 4, 5, 6, 7]. ?n = k + 1 then zmul (int (?n - 1) + 1) g else 0)"
    by auto
  have s: "set [0, 1, 2, 3, 4, 5, 6, 7] = {..<8 :: nat}" by (auto simp: less_Suc_eq numeral_nat)
  have "(\<exists>k\<in>{..<8}. n = k + 1) \<longleftrightarrow> n \<noteq> 0" if "n \<le> 8" for n :: nat using that by (cases n) auto
  then have "(\<exists>k\<in>set [0, 1, 2, 3, 4, 5, 6, 7]. ?n = k + 1) \<longleftrightarrow> ?n \<noteq> 0"
    using \<open>?n \<le> 8\<close> unfolding s by blast
  moreover have "?n \<noteq> 0 \<Longrightarrow> int (?n - 1) + 1 = \<bar>b\<bar>" by auto
  ultimately have cur: "cached_is pt cur (zmul \<bar>b\<bar> g)" using cur by (cases "?n = 0") auto
  from cached_neg_is [OF assms(1) cur] obtain t where t: "fe_neg (ca_T2d cur) = Some t"
    and neg: "cached_is pt \<lparr>ca_YplusX = ca_YminusX cur, ca_YminusX = ca_YplusX cur, ca_Z = ca_Z cur, ca_T2d = t\<rparr>
      (- zmul \<bar>b\<bar> g)" by blast
  note mv = cached_cmov_is [OF cur neg]
  show ?thesis
    using scan cur neg t mv cached_is_copy [OF cur] babs_digit [OF assms(3,4)]
    by (cases "b < 0") (auto simp: cached_select_def zmul_minus [symmetric])
qed


section \<open>The table and the loop\<close>

lemma cached_multiples_is:
  assumes "curve_group pt" and "p3_is pt A g" and "cached_is pt c (zmul (int m) g)"
  shows "\<exists>cs. cached_multiples n A c = Some cs \<and> length cs = Suc n
    \<and> (\<forall>k\<le>n. cached_is pt (cs ! k) (zmul (int (m + k)) g))"
  using assms(3)
proof (induction n arbitrary: c m)
  case 0
  then show ?case by simp
next
  case (Suc n)
  from ge_add_is [OF assms(1,2) Suc.prems] obtain t where t: "ge_add A c = Some t"
    "p1p1_is pt t (g + zmul (int m) g)" by blast
  from ge_p1p1_to_p3_is [OF t(2)] obtain u where u: "ge_p1p1_to_p3 t = Some u"
    "p3_is pt u (g + zmul (int m) g)" by blast
  from ge_p3_to_cached_is [OF u(2)] obtain c' where c': "ge_p3_to_cached u = Some c'"
    "cached_is pt c' (zmul (int (Suc m)) g)"
    using zmul_add [of 1 "int m" g] by auto
  from Suc.IH [OF c'(2)] obtain cs where cs: "cached_multiples n A c' = Some cs" "length cs = Suc n"
    "\<forall>k\<le>n. cached_is pt (cs ! k) (zmul (int (Suc m + k)) g)" by blast
  have "cached_is pt ((c # cs) ! k) (zmul (int (m + k)) g)" if "k \<le> Suc n" for k
    using that cs(3) Suc.prems by (cases k) auto
  with t u c' cs show ?case by simp
qed

lemma dbl_step:
  assumes "curve_group pt" and "p2_is pt r g"
    and "\<And>r. p2_is pt r (g + g) \<Longrightarrow> \<exists>q. k r = Some q \<and> P q"
  shows "\<exists>q. (ge_p2_dbl r \<bind> (\<lambda>t. ge_p1p1_to_p2 t \<bind> k)) = Some q \<and> P q"
  using ge_p2_dbl_is [OF assms(1,2)] ge_p1p1_to_p2_is [of pt] assms(3) by fastforce

lemma scalarmult_step_is:
  assumes cg: "curve_group pt" and tab: "\<And>k. k < 8 \<Longrightarrow> cached_is pt (Ai ! k) (zmul (int k + 1) g)"
    and b: "- 8 \<le> b" "b \<le> 8" and r: "p2_is pt r (zmul n g)"
  shows "\<exists>t. scalarmult_step Ai b r = Some t \<and> p1p1_is pt t (zmul (16 * n + b) g)"
proof -
  obtain cur where cur: "cached_select Ai b = Some cur" "cached_is pt cur (zmul b g)"
    using cached_select_is [OF cg tab b] by blast
  have last: "\<exists>t. (do { t \<leftarrow> ge_p2_dbl r; u \<leftarrow> ge_p1p1_to_p3 t; cur \<leftarrow> cached_select Ai b; ge_add u cur }) = Some t
      \<and> p1p1_is pt t (zmul (16 * n + b) g)" if "p2_is pt r (zmul (8 * n) g)" for r
  proof -
    from ge_p2_dbl_is [OF cg that] obtain t where t: "ge_p2_dbl r = Some t" "p1p1_is pt t (zmul (16 * n) g)"
      by (auto simp: zmul_double)
    from ge_p1p1_to_p3_is [OF t(2)] obtain u where u: "ge_p1p1_to_p3 t = Some u" "p3_is pt u (zmul (16 * n) g)"
      by blast
    from ge_add_is [OF cg u(2) cur(2)] show ?thesis using t u cur by (simp add: zmul_add)
  qed
  show ?thesis
    unfolding scalarmult_step_def
    by (rule dbl_step [OF cg r], rule dbl_step [OF cg], assumption, rule dbl_step [OF cg], assumption,
        rule last) (simp add: zmul_double)
qed

lemma scalarmult_loop_append:
  "scalarmult_loop Ai (xs @ ys) r = do { r \<leftarrow> scalarmult_loop Ai xs r; scalarmult_loop Ai ys r }"
  by (induction xs arbitrary: r) (auto split: bind_splits)

lemma scalarmult_loop_is:
  assumes cg: "curve_group pt" and tab: "\<And>k. k < 8 \<Longrightarrow> cached_is pt (Ai ! k) (zmul (int k + 1) g)"
    and "list_all (\<lambda>d. - 8 \<le> d \<and> d \<le> 8) ds" and r: "p2_is pt r 0"
  shows "\<exists>q. scalarmult_loop Ai (rev ds) r = Some q \<and> p2_is pt q (zmul (digits16 ds) g)"
  using assms(3)
proof (induction ds)
  case Nil
  then show ?case using r by simp
next
  case (Cons d ds)
  then obtain q where q: "scalarmult_loop Ai (rev ds) r = Some q" "p2_is pt q (zmul (digits16 ds) g)" by auto
  have d: "- 8 \<le> d" "d \<le> 8" using Cons.prems by simp_all
  from scalarmult_step_is [OF cg tab d q(2)] obtain t where t: "scalarmult_step Ai d q = Some t"
    "p1p1_is pt t (zmul (digits16 (d # ds)) g)" by (auto simp: add.commute)
  from ge_p1p1_to_p2_is [OF t(2)] q t show ?case by (auto simp: scalarmult_loop_append)
qed

lemma scalarmult_table:
  assumes "curve_group pt" and "p3_is pt A g"
  shows "\<exists>c Ai. ge_p3_to_cached A = Some c \<and> cached_multiples 7 A c = Some Ai
    \<and> (\<forall>k<8. cached_is pt (Ai ! k) (zmul (int k + 1) g))"
proof -
  from ge_p3_to_cached_is [OF assms(2)] obtain c where c: "ge_p3_to_cached A = Some c"
    "cached_is pt c (zmul (int 1) g)" by auto
  from cached_multiples_is [OF assms c(2), of 7] c(1) show ?thesis by (auto simp: add.commute)
qed

lemma ge_scalarmult_is:
  assumes "curve_group pt" and "p3_is pt A g" and "length a = 32" and "uint (a ! 31) \<le> 127"
  shows "\<exists>R. ge_scalarmult a A = Some R \<and> p2_is pt R (zmul (le_value a) g)"
proof -
  from scalarmult_table [OF assms(1,2)] obtain c Ai where tab: "ge_p3_to_cached A = Some c"
    "cached_multiples 7 A c = Some Ai" "\<And>k. k < 8 \<Longrightarrow> cached_is pt (Ai ! k) (zmul (int k + 1) g)" by blast
  note e = recode_value [OF assms(3,4)]
  from scalarmult_loop_is [OF assms(1) tab(3) e(3) neutral_is(1) [OF assms(1)]] tab(1,2) assms(3) show ?thesis
    by (simp add: ge_scalarmult_def e(1))
qed

lemma ge_scalarmult_p3_is:
  assumes "curve_group pt" and "p3_is pt A g" and "length a = 32" and "uint (a ! 31) \<le> 127"
  shows "\<exists>R. ge_scalarmult_p3 a A = Some R \<and> p3_is pt R (zmul (le_value a) g)"
proof -
  from scalarmult_table [OF assms(1,2)] obtain c Ai where tab: "ge_p3_to_cached A = Some c"
    "cached_multiples 7 A c = Some Ai" "\<And>k. k < 8 \<Longrightarrow> cached_is pt (Ai ! k) (zmul (int k + 1) g)" by blast
  note e = recode_value [OF assms(3,4)]
  obtain d ds where ds: "recode a = d # ds" using e(2) by (cases "recode a") auto
  have d: "- 8 \<le> d" "d \<le> 8" "list_all (\<lambda>d. - 8 \<le> d \<and> d \<le> 8) ds" using e(3) ds by simp_all
  from scalarmult_loop_is [OF assms(1) tab(3) d(3) neutral_is(1) [OF assms(1)]] obtain r
    where r: "scalarmult_loop Ai (rev ds) ge_p2_0 = Some r" "p2_is pt r (zmul (digits16 ds) g)" by blast
  from scalarmult_step_is [OF assms(1) tab(3) d(1,2) r(2)] obtain t where t: "scalarmult_step Ai d r = Some t"
    "p1p1_is pt t (zmul (le_value a) g)" using e(1) ds by (auto simp: add.commute)
  from ge_p1p1_to_p3_is [OF t(2)] show ?thesis
    using tab(1,2) assms(3) r t ds by (simp add: ge_scalarmult_p3_def)
qed

end
