(* ===== verification/Base_Mult.thy ===== *)
theory Base_Mult
  imports Scalar_Mult
begin

text \<open>
  Multiplication of a fixed point by a scalar with a table of its multiples:
  \<^verbatim>\<open>ge_scalarmult_base\<close> (constant-time look-ups), \<^verbatim>\<open>ge_scalarmult_base_vartime\<close> and
  \<^verbatim>\<open>ge_scalarmult_precomp_vartime\<close> of \<^verbatim>\<open>src/src/crypto/crypto-ops.c\<close>. The table
  (\<^verbatim>\<open>ge_base\<close>, or the caller's) is an argument; \<open>table_of\<close> says what it has to hold, the comment
  \<^verbatim>\<open>base[i][j] = (j+1)*256^i*B\<close> of \<^verbatim>\<open>src/src/crypto/crypto-ops-data.c\<close>.
\<close>

section \<open>Definitions\<close>

definition ge_precomp_cmov :: "ge_precomp \<Rightarrow> ge_precomp \<Rightarrow> u8 \<Rightarrow> ge_precomp option" where
  "ge_precomp_cmov t u b = do {
     rp \<leftarrow> fe_cmov (pc_yplusx t) (pc_yplusx u) (ucast b);
     rm \<leftarrow> fe_cmov (pc_yminusx t) (pc_yminusx u) (ucast b);
     rxy \<leftarrow> fe_cmov (pc_xy2d t) (pc_xy2d u) (ucast b);
     Some \<lparr>pc_yplusx = rp, pc_yminusx = rm, pc_xy2d = rxy\<rparr> }"

fun precomp_scan :: "ge_precomp list \<Rightarrow> u8 \<Rightarrow> nat list \<Rightarrow> ge_precomp \<Rightarrow> ge_precomp option" where
  "precomp_scan row a [] t = Some t"
| "precomp_scan row a (k # ks) t =
     do { t \<leftarrow> ge_precomp_cmov t (row ! k) (equal_c a (of_nat (k + 1))); precomp_scan row a ks t }"

definition select :: "ge_precomp list list \<Rightarrow> nat \<Rightarrow> int \<Rightarrow> ge_precomp option" where
  "select base pos b = do {
     t \<leftarrow> precomp_scan (base ! pos) (babs b) [0, 1, 2, 3, 4, 5, 6, 7] ge_precomp_0;
     mp \<leftarrow> fe_copy (pc_yminusx t);
     mm \<leftarrow> fe_copy (pc_yplusx t);
     mxy \<leftarrow> fe_neg (pc_xy2d t);
     ge_precomp_cmov t \<lparr>pc_yplusx = mp, pc_yminusx = mm, pc_xy2d = mxy\<rparr> (negative b) }"

definition select_vartime :: "ge_precomp list list \<Rightarrow> nat \<Rightarrow> int \<Rightarrow> ge_precomp option" where
  "select_vartime base pos b =
     (if babs b = 0 then Some ge_precomp_0
      else let u = base ! pos ! (unat (babs b) - 1)
           in if negative b = 0
              then do { rp \<leftarrow> fe_copy (pc_yplusx u); rm \<leftarrow> fe_copy (pc_yminusx u); rxy \<leftarrow> fe_copy (pc_xy2d u);
                        Some \<lparr>pc_yplusx = rp, pc_yminusx = rm, pc_xy2d = rxy\<rparr> }
              else do { rp \<leftarrow> fe_copy (pc_yminusx u); rm \<leftarrow> fe_copy (pc_yplusx u); rxy \<leftarrow> fe_neg (pc_xy2d u);
                        Some \<lparr>pc_yplusx = rp, pc_yminusx = rm, pc_xy2d = rxy\<rparr> })"

text \<open>The same body with the caller's table.\<close>

definition select_custom_precomp_vartime :: "ge_precomp list list \<Rightarrow> nat \<Rightarrow> int \<Rightarrow> ge_precomp option" where
  "select_custom_precomp_vartime base_precomp pos b =
     (if babs b = 0 then Some ge_precomp_0
      else let u = base_precomp ! pos ! (unat (babs b) - 1)
           in if negative b = 0
              then do { rp \<leftarrow> fe_copy (pc_yplusx u); rm \<leftarrow> fe_copy (pc_yminusx u); rxy \<leftarrow> fe_copy (pc_xy2d u);
                        Some \<lparr>pc_yplusx = rp, pc_yminusx = rm, pc_xy2d = rxy\<rparr> }
              else do { rp \<leftarrow> fe_copy (pc_yminusx u); rm \<leftarrow> fe_copy (pc_yplusx u); rxy \<leftarrow> fe_neg (pc_xy2d u);
                        Some \<lparr>pc_yplusx = rp, pc_yminusx = rm, pc_xy2d = rxy\<rparr> })"

text \<open>
  The digits: two nibbles per byte, then the loop that propagates the \<^verbatim>\<open>signed char carry\<close>.
\<close>

unbundle bit_operations_syntax

definition nibbles :: "bytes \<Rightarrow> int list" where
  "nibbles a = concat (map (\<lambda>i. [uint (a ! i AND 15), uint (drop_bit 4 (a ! i) AND 15)]) [0..<32])"

fun nibble_carry :: "int list \<Rightarrow> int \<Rightarrow> int list" where
  "nibble_carry [] carry = []"
| "nibble_carry [e] carry = [e + carry]"
| "nibble_carry (e # es) carry =
     (let e = e + carry; carry = (e + 8) div 2 ^ 4 in (e - carry * 2 ^ 4) # nibble_carry es carry)"

text \<open>\<^verbatim>\<open>select(&t, i / 2, e[i]); ge_madd(&r, h, &t); ge_p1p1_to_p3(h, &r);\<close> for the given \<open>i\<close>.\<close>

fun madd_loop :: "(nat \<Rightarrow> int \<Rightarrow> ge_precomp option) \<Rightarrow> int list \<Rightarrow> nat list \<Rightarrow> ge_p3 \<Rightarrow> ge_p3 option" where
  "madd_loop sel e [] h = Some h"
| "madd_loop sel e (i # is) h = do {
     t \<leftarrow> sel (i div 2) (e ! i);
     r \<leftarrow> ge_madd h t;
     h \<leftarrow> ge_p1p1_to_p3 r;
     madd_loop sel e is h }"

definition scalarmult_with :: "(nat \<Rightarrow> int \<Rightarrow> ge_precomp option) \<Rightarrow> bytes \<Rightarrow> ge_p3 option" where
  "scalarmult_with sel a = (if length a < 32 then None else do {
     let e = nibble_carry (nibbles a) 0;
     h \<leftarrow> madd_loop sel e (map (\<lambda>k. 2 * k + 1) [0..<32]) ge_p3_0;
     r \<leftarrow> ge_p3_dbl h;
     s \<leftarrow> ge_p1p1_to_p2 r;
     r \<leftarrow> ge_p2_dbl s;
     s \<leftarrow> ge_p1p1_to_p2 r;
     r \<leftarrow> ge_p2_dbl s;
     s \<leftarrow> ge_p1p1_to_p2 r;
     r \<leftarrow> ge_p2_dbl s;
     h \<leftarrow> ge_p1p1_to_p3 r;
     madd_loop sel e (map (\<lambda>k. 2 * k) [0..<32]) h })"

definition ge_scalarmult_base :: "ge_precomp list list \<Rightarrow> bytes \<Rightarrow> ge_p3 option" where
  "ge_scalarmult_base ge_base a = scalarmult_with (select ge_base) a"

definition ge_scalarmult_base_vartime :: "ge_precomp list list \<Rightarrow> bytes \<Rightarrow> ge_p3 option" where
  "ge_scalarmult_base_vartime ge_base a = scalarmult_with (select_vartime ge_base) a"

definition ge_scalarmult_precomp_vartime :: "ge_precomp list list \<Rightarrow> bytes \<Rightarrow> ge_p3 option" where
  "ge_scalarmult_precomp_vartime base_precomp a = scalarmult_with (select_custom_precomp_vartime base_precomp) a"


section \<open>Digits\<close>

lemma nibbles_byte: "uint (b AND 15) + 16 * uint (drop_bit 4 b AND 15) = uint (b :: u8)"
  "uint (b AND 15) \<le> 15" "uint (drop_bit 4 b AND 15) \<le> 15"
proof -
  have m: "(15 :: u8) = mask 4" by (simp add: mask_eq_exp_minus_1)
  have lo: "uint (b AND 15) = uint b mod 16"
    unfolding m take_bit_eq_mask [symmetric] by (simp only: unsigned_take_bit_eq) (simp add: take_bit_eq_mod)
  have "uint b < 16 * 16" using uint_lt2p [of b] by simp
  then have small: "uint b div 16 < 16" by (rule zdiv_upper) simp
  have "uint (drop_bit 4 b AND 15) = uint b div 16 mod 16"
    unfolding m take_bit_eq_mask [symmetric]
    using small uint_lt2p [of b] uint_ge_0 [of b]
    by (simp only: unsigned_take_bit_eq unsigned_drop_bit_eq) (simp add: take_bit_eq_mod drop_bit_eq_div mod_pos_pos_trivial)
  then have hi: "uint (drop_bit 4 b AND 15) = uint b div 16"
    using small by (simp add: pos_imp_zdiv_nonneg_iff)
  show "uint (b AND 15) + 16 * uint (drop_bit 4 b AND 15) = uint b" unfolding lo hi by simp
  show "uint (b AND 15) \<le> 15" unfolding lo using pos_mod_bound [of 16 "uint b"] by simp
  show "uint (drop_bit 4 b AND 15) \<le> 15" unfolding hi using small by simp
qed

lemma nibbles_value:
  assumes "length a = 32"
  shows "digits16 (nibbles a) = le_value a" "length (nibbles a) = 64"
    "i < 64 \<Longrightarrow> 0 \<le> nibbles a ! i \<and> nibbles a ! i \<le> 15" "nibbles a ! 63 = uint (drop_bit 4 (a ! 31) AND 15)"
proof -
  have *: "digits16 (concat (map (\<lambda>b. [uint (b AND 15), uint (drop_bit 4 b AND 15)]) bs)) = le_value bs" for bs :: bytes
    by (induction bs) (use nibbles_byte(1) in \<open>auto simp: algebra_simps\<close>)
  have n: "nibbles a = concat (map (\<lambda>b. [uint (b AND 15), uint (drop_bit 4 b AND 15)]) a)"
  proof -
    have "map (\<lambda>i. [uint (a ! i AND 15), uint (drop_bit 4 (a ! i) AND 15)]) [0..<32]
        = map (\<lambda>b. [uint (b AND 15), uint (drop_bit 4 b AND 15)]) (map ((!) a) [0..<32])"
      by (simp only: map_map comp_def)
    then show ?thesis using map_nth [of a] assms by (simp only: nibbles_def)
  qed
  show "digits16 (nibbles a) = le_value a" unfolding n by (rule *)
  show len: "length (nibbles a) = 64" unfolding n using assms by (simp add: length_concat comp_def sum_list_triv)
  have "list_all (\<lambda>x. 0 \<le> x \<and> x \<le> 15) (nibbles a)"
    unfolding n by (auto simp: list_all_iff nibbles_byte)
  then show "i < 64 \<Longrightarrow> 0 \<le> nibbles a ! i \<and> nibbles a ! i \<le> 15" using len by (simp add: list_all_length)
  have a: "a = take 31 a @ [a ! 31]" using assms by (simp add: take_Suc_conv_app_nth [symmetric])
  have "nibbles a = concat (map (\<lambda>b. [uint (b AND 15), uint (drop_bit 4 b AND 15)]) (take 31 a))
      @ [uint (a ! 31 AND 15), uint (drop_bit 4 (a ! 31) AND 15)]"
    unfolding n by (subst a) simp
  moreover have "length (concat (map (\<lambda>b. [uint (b AND 15), uint (drop_bit 4 b AND 15)]) (take 31 a))) = 62"
    using assms by (simp add: length_concat comp_def sum_list_triv)
  ultimately show "nibbles a ! 63 = uint (drop_bit 4 (a ! 31) AND 15)" by (simp add: nth_append)
qed

lemma nibble_carry_value:
  "0 \<le> c \<Longrightarrow> c \<le> 1 \<Longrightarrow> (\<And>i. i < length es \<Longrightarrow> 0 \<le> es ! i \<and> es ! i \<le> 15) \<Longrightarrow> es \<noteq> [] \<Longrightarrow> last es \<le> 7 \<Longrightarrow>
   digits16 (nibble_carry es c) = digits16 es + c \<and> length (nibble_carry es c) = length es
   \<and> list_all (\<lambda>d. - 8 \<le> d \<and> d \<le> 8) (nibble_carry es c)"
proof (induction es c rule: nibble_carry.induct)
  case (1 c)
  then show ?case by simp
next
  case (2 e c)
  then have "0 \<le> e \<and> e \<le> 15" by fastforce
  with 2 show ?case by simp
next
  case (3 e e' es c)
  let ?e = "e + c" let ?c = "(?e + 8) div 2 ^ 4"
  have "0 \<le> e \<and> e \<le> 15" using 3(4) [of 0] by simp
  then have "0 \<le> ?e" "?e \<le> 16" using 3 by simp_all
  from carry_range [OF this] have c: "0 \<le> ?c" "?c \<le> 1" by simp_all
  have es: "0 \<le> (e' # es) ! i \<and> (e' # es) ! i \<le> 15" if "i < length (e' # es)" for i
    using 3(4) [of "Suc i"] that by simp
  have "digits16 (nibble_carry (e' # es) ?c) = digits16 (e' # es) + ?c
      \<and> length (nibble_carry (e' # es) ?c) = length (e' # es)
      \<and> list_all (\<lambda>d. - 8 \<le> d \<and> d \<le> 8) (nibble_carry (e' # es) ?c)"
    using 3(6) by (intro 3(1) [OF refl refl c es]) simp_all
  then show ?case using digit_range [of ?e] by (simp add: Let_def algebra_simps)
qed



section \<open>Selection\<close>

definition table_of :: "('g :: ab_group_add \<Rightarrow> int \<times> int) \<Rightarrow> ge_precomp list list \<Rightarrow> 'g \<Rightarrow> bool" where
  "table_of pt base g \<longleftrightarrow> (\<forall>i<32. \<forall>j<8. precomp_is pt (base ! i ! j) (zmul (256 ^ i * (int j + 1)) g))"

lemma precomp_cmov_is:
  assumes "precomp_is pt t g" and "precomp_is pt u h"
  shows "ge_precomp_cmov t u 0 = Some t" and "ge_precomp_cmov t u 1 = Some u"
proof -
  have b: "2 * (2 * fe_tight) < 2 ^ 31" by (simp add: fe_tight_def)
  note s = fe_cmov_select [OF _ _ b b]
  show "ge_precomp_cmov t u 0 = Some t" and "ge_precomp_cmov t u 1 = Some u"
    using assms by (simp_all add: ge_precomp_cmov_def precomp_is_def precomp_pt_def fe_rep_def s)
qed

text \<open>
  The scan returns the row's entry at the digit, or what it started with.
\<close>

lemma precomp_scan_nth:
  assumes "\<And>k. k < 8 \<Longrightarrow> \<exists>h. precomp_is pt (row ! k) h" and "precomp_is pt t g" and "n \<le> 8"
    and "set ks \<subseteq> {..<8}" and "distinct ks"
  shows "precomp_scan row (of_nat n) ks t = Some (if \<exists>k\<in>set ks. n = k + 1 then row ! (n - 1) else t)"
  using assms(2,4,5)
proof (induction ks arbitrary: t g)
  case Nil
  then show ?case by simp
next
  case (Cons k ks)
  have k: "k < 8" using Cons.prems by simp
  then obtain h where h: "precomp_is pt (row ! k) h" using assms(1) by blast
  have e: "equal_c (of_nat n) (of_nat (k + 1)) = (if n = k + 1 then 1 else 0)"
    by (rule equal_c_digit [OF assms(3) k])
  note m = precomp_cmov_is [OF Cons.prems(1) h]
  show ?case
  proof (cases "n = k + 1")
    case True
    then have "\<not> (\<exists>j\<in>set ks. n = j + 1)" using Cons.prems(3) by auto
    with True e m(2) Cons.IH [OF h] Cons.prems show ?thesis by auto
  next
    case False
    with e m(1) Cons.IH [OF Cons.prems(1)] Cons.prems show ?thesis by auto
  qed
qed

lemma precomp_neg_is:
  assumes "curve_group pt" and "precomp_is pt c g"
  shows "\<exists>t. fe_neg (pc_xy2d c) = Some t
    \<and> precomp_is pt \<lparr>pc_yplusx = pc_yminusx c, pc_yminusx = pc_yplusx c, pc_xy2d = t\<rparr> (- g)"
proof -
  let ?x = "fst (pt g)" and ?y = "snd (pt g)" and ?x' = "fst (pt (- g))" and ?y' = "snd (pt (- g))"
  note cg = curve_groupD [OF assms(1)]
  from assms(2) have c: "precomp_pt (2 * fe_tight) c ?x ?y" by (simp add: precomp_is_def)
  then obtain t where t: "fe_neg (pc_xy2d c) = Some t" "fe_rep (2 * fe_tight) t (- (2 * ed_d * ?x * ?y))"
    using fe_neg_rep [of "2 * fe_tight" "pc_xy2d c"] by (auto simp: precomp_pt_def fe_tight_def)
  have "cong (?y - ?x) (?y' + ?x')" "cong (?y + ?x) (?y' - ?x')" "cong (- (2 * ed_d * ?x * ?y)) (2 * ed_d * ?x' * ?y')"
    using cong_add [OF cg(5) cg(4) [of g]] cong_diff [OF cg(5) cg(4) [of g]]
      cong_mult [OF cong_refl [of "2 * ed_d"] cong_mult [OF cg(4) cg(5) [of g]]]
    by (simp_all add: cong_sym mult.assoc)
  with c t(2) have "precomp_pt (2 * fe_tight) \<lparr>pc_yplusx = pc_yminusx c, pc_yminusx = pc_yplusx c, pc_xy2d = t\<rparr> ?x' ?y'"
    unfolding precomp_pt_def by (auto intro: fe_rep_conv)
  with t(1) show ?thesis by (auto simp: precomp_is_def)
qed

lemma precomp_is_copy:
  assumes "precomp_is pt c g"
  shows "fe_copy (pc_yplusx c) = Some (pc_yplusx c)" "fe_copy (pc_yminusx c) = Some (pc_yminusx c)"
    "fe_copy (pc_xy2d c) = Some (pc_xy2d c)"
  using assms by (auto simp: precomp_is_def precomp_pt_def fe_copy_rep)

text \<open>Both selections return the same entry, which stands for the digit's multiple.\<close>

lemma select_is:
  assumes cg: "curve_group pt" and "table_of pt base g" and "pos < 32" and b: "- 8 \<le> b" "b \<le> 8"
  shows "select base pos b = select_vartime base pos b"
    and "\<exists>t. select_vartime base pos b = Some t \<and> precomp_is pt t (zmul (256 ^ pos * b) g)"
proof -
  let ?n = "nat \<bar>b\<bar>"
  define u where "u = (if b = 0 then ge_precomp_0 else base ! pos ! (?n - 1))"
  have n: "?n \<le> 8" using b by simp
  have row: "precomp_is pt (base ! pos ! k) (zmul (256 ^ pos * (int k + 1)) g)" if "k < 8" for k
    using assms(2,3) that by (simp add: table_of_def)
  have s: "set [0, 1, 2, 3, 4, 5, 6, 7] = {..<8 :: nat}" by (auto simp: less_Suc_eq numeral_nat)
  have "(\<exists>k\<in>{..<8}. n = k + 1) \<longleftrightarrow> n \<noteq> 0" if "n \<le> 8" for n :: nat using that by (cases n) auto
  then have ex: "(\<exists>k\<in>set [0, 1, 2, 3, 4, 5, 6, 7]. ?n = k + 1) \<longleftrightarrow> b \<noteq> 0"
    using n unfolding s by simp
  have scan: "precomp_scan (base ! pos) (of_nat ?n) [0, 1, 2, 3, 4, 5, 6, 7] ge_precomp_0 = Some u"
  proof -
    have "\<exists>h. precomp_is pt (base ! pos ! k) h" if "k < 8" for k using row [OF that] by blast
    then have "precomp_scan (base ! pos) (of_nat ?n) [0, 1, 2, 3, 4, 5, 6, 7] ge_precomp_0
        = Some (if \<exists>k\<in>set [0, 1, 2, 3, 4, 5, 6, 7]. ?n = k + 1 then base ! pos ! (?n - 1) else ge_precomp_0)"
      by (rule precomp_scan_nth [OF _ neutral_is(4) [OF cg] n equalityD1 [OF s]]) simp_all
    then show ?thesis unfolding ex u_def by (cases "b = 0") simp_all
  qed
  have u: "precomp_is pt u (zmul (256 ^ pos * \<bar>b\<bar>) g)"
  proof (cases "b = 0")
    case False
    then have "int (?n - 1) + 1 = \<bar>b\<bar>" by linarith
    with row [of "?n - 1"] False n show ?thesis by (simp add: u_def)
  qed (simp add: u_def neutral_is(4) [OF cg])
  from precomp_neg_is [OF cg u] obtain t where t: "fe_neg (pc_xy2d u) = Some t"
    and neg: "precomp_is pt \<lparr>pc_yplusx = pc_yminusx u, pc_yminusx = pc_yplusx u, pc_xy2d = t\<rparr>
      (- zmul (256 ^ pos * \<bar>b\<bar>) g)" by blast
  note bd = babs_digit [OF b] and cp = precomp_is_copy [OF u] and mv = precomp_cmov_is [OF u neg]
  have un: "unat (of_nat ?n :: u8) = ?n" 
  proof -
    have "unat (of_nat m :: u8) = m" if "m \<le> 8" for m using that by (simp add: unat_of_nat)
    then show ?thesis using n by blast
  qed
  have z: "babs b = 0 \<longleftrightarrow> b = 0" 
  proof
    assume "babs b = 0"
    then have "unat (of_nat ?n :: u8) = 0" unfolding bd(1) by (simp only: unat_0)
    then show "b = 0" unfolding un by simp
  qed (use bd(1) in simp)
  let ?r = "if b < 0 then \<lparr>pc_yplusx = pc_yminusx u, pc_yminusx = pc_yplusx u, pc_xy2d = t\<rparr> else u"
  have sel: "select base pos b = Some ?r"
    unfolding select_def bd(1) scan using t cp mv bd(2) by simp
  have var: "select_vartime base pos b = Some ?r"
  proof (cases "b = 0")
    case False
    then have "base ! pos ! (unat (babs b) - 1) = u" unfolding bd(1) un by (simp add: u_def)
    with False z bd(2) t cp show ?thesis by (simp add: select_vartime_def Let_def)
  qed (use z in \<open>simp add: select_vartime_def u_def\<close>)
  from sel var show "select base pos b = select_vartime base pos b" by simp
  have "precomp_is pt ?r (zmul (256 ^ pos * b) g)"
    using u neg by (cases "b < 0") (simp_all add: zmul_minus [symmetric])
  with var show "\<exists>t. select_vartime base pos b = Some t \<and> precomp_is pt t (zmul (256 ^ pos * b) g)" by blast
qed


section \<open>The loops\<close>

lemma digits16_pairs:
  "length e = 2 * n \<Longrightarrow>
   digits16 e = (\<Sum>k\<leftarrow>[0..<n]. 256 ^ k * e ! (2 * k)) + 16 * (\<Sum>k\<leftarrow>[0..<n]. 256 ^ k * e ! (2 * k + 1))"
proof (induction n arbitrary: e)
  case 0
  then show ?case by simp
next
  case (Suc n)
  then obtain x y es where e: "e = x # y # es" and len: "length es = 2 * n"
    by (cases e; cases "tl e") auto
  have "(\<Sum>k\<leftarrow>[0..<Suc n]. 256 ^ k * f k) = f 0 + 256 * (\<Sum>k\<leftarrow>[0..<n]. 256 ^ k * f (Suc k))" for f :: "nat \<Rightarrow> int"
    by (simp add: upt_conv_Cons map_Suc_upt [symmetric] comp_def sum_list_const_mult mult.assoc del: upt_Suc)
  note split = this [of "\<lambda>k. e ! (2 * k)"] this [of "\<lambda>k. e ! (2 * k + 1)"]
  show ?case unfolding split using Suc.IH [OF len] by (simp add: e)
qed

text \<open>What the loops ask of a selection: it returns the multiple of the digit at its position.\<close>

definition selects :: "('g :: ab_group_add \<Rightarrow> int \<times> int) \<Rightarrow> (nat \<Rightarrow> int \<Rightarrow> ge_precomp option) \<Rightarrow> 'g \<Rightarrow> bool" where
  "selects pt sel g \<longleftrightarrow> (\<forall>pos b. pos < 32 \<and> - 8 \<le> b \<and> b \<le> 8 \<longrightarrow>
     (\<exists>t. sel pos b = Some t \<and> precomp_is pt t (zmul (256 ^ pos * b) g)))"

lemma selectsD:
  "selects pt sel g \<Longrightarrow> pos < 32 \<Longrightarrow> - 8 \<le> b \<Longrightarrow> b \<le> 8 \<Longrightarrow>
   \<exists>t. sel pos b = Some t \<and> precomp_is pt t (zmul (256 ^ pos * b) g)"
  by (simp add: selects_def)

lemma table_selects:
  assumes "curve_group pt" and "table_of pt base g"
  shows "selects pt (select base) g" "selects pt (select_vartime base) g"
    "selects pt (select_custom_precomp_vartime base) g"
proof -
  have "select_custom_precomp_vartime base = select_vartime base"
    by (intro ext) (simp add: select_vartime_def select_custom_precomp_vartime_def)
  then show "selects pt (select base) g" "selects pt (select_vartime base) g"
    "selects pt (select_custom_precomp_vartime base) g"
    using select_is [OF assms] by (simp_all add: selects_def)
qed

lemma div_even_odd: "Suc (2 * k) div 2 = k" "2 * k div 2 = (k :: nat)"
  by simp_all

lemma madd_loop_is:
  assumes cg: "curve_group pt"
    and sel: "selects pt sel g"
    and e: "length e = 64" "list_all (\<lambda>d. - 8 \<le> d \<and> d \<le> 8) e"
  shows "p3_is pt h (zmul v g) \<Longrightarrow> list_all (\<lambda>i. i < 64) is \<Longrightarrow>
    \<exists>R. madd_loop sel e is h = Some R \<and> p3_is pt R (zmul (v + (\<Sum>i\<leftarrow>is. 256 ^ (i div 2) * e ! i)) g)"
proof (induction "is" arbitrary: h v)
  case Nil
  then show ?case by simp
next
  case (Cons i "is")
  have i: "i < 64" "i div 2 < 32" using Cons.prems(2) by (simp_all add: less_mult_imp_div_less)
  then have "- 8 \<le> e ! i" "e ! i \<le> 8" using e by (simp_all add: list_all_length)
  from selectsD [OF sel i(2) this] obtain t where t: "sel (i div 2) (e ! i) = Some t"
    "precomp_is pt t (zmul (256 ^ (i div 2) * e ! i) g)" by blast
  from ge_madd_is [OF cg Cons.prems(1) t(2)] obtain r where r: "ge_madd h t = Some r"
    "p1p1_is pt r (zmul (v + 256 ^ (i div 2) * e ! i) g)" by (auto simp: zmul_add)
  from ge_p1p1_to_p3_is [OF r(2)] obtain h' where h': "ge_p1p1_to_p3 r = Some h'"
    "p3_is pt h' (zmul (v + 256 ^ (i div 2) * e ! i) g)" by blast
  from Cons.IH [OF h'(2)] Cons.prems(2) t(1) r(1) h'(1) show ?case by (simp add: add.assoc)
qed

lemma quad_dbl_is:
  assumes cg: "curve_group pt" and h: "p3_is pt h (zmul v g)"
  shows "\<exists>R. (do { r \<leftarrow> ge_p3_dbl h; s \<leftarrow> ge_p1p1_to_p2 r; r \<leftarrow> ge_p2_dbl s; s \<leftarrow> ge_p1p1_to_p2 r;
      r \<leftarrow> ge_p2_dbl s; s \<leftarrow> ge_p1p1_to_p2 r; r \<leftarrow> ge_p2_dbl s; ge_p1p1_to_p3 r }) = Some R
    \<and> p3_is pt R (zmul (16 * v) g)"
proof -
  from ge_p3_dbl_is [OF cg h] obtain r where r: "ge_p3_dbl h = Some r" "p1p1_is pt r (zmul (2 * v) g)"
    by (auto simp: zmul_double)
  have d: "\<exists>s r'. ge_p1p1_to_p2 r = Some s \<and> ge_p2_dbl s = Some r' \<and> p1p1_is pt r' (zmul (2 * w) g)"
    if "p1p1_is pt r (zmul w g)" for r w
    using ge_p1p1_to_p2_is [OF that] ge_p2_dbl_is [OF cg] by (fastforce simp: zmul_double)
  from d [OF r(2)] obtain s1 r1 where 1: "ge_p1p1_to_p2 r = Some s1" "ge_p2_dbl s1 = Some r1"
    "p1p1_is pt r1 (zmul (2 * (2 * v)) g)" by blast
  from d [OF 1(3)] obtain s2 r2 where 2: "ge_p1p1_to_p2 r1 = Some s2" "ge_p2_dbl s2 = Some r2"
    "p1p1_is pt r2 (zmul (2 * (2 * (2 * v))) g)" by blast
  from d [OF 2(3)] obtain s3 r3 where 3: "ge_p1p1_to_p2 r2 = Some s3" "ge_p2_dbl s3 = Some r3"
    "p1p1_is pt r3 (zmul (2 * (2 * (2 * (2 * v)))) g)" by blast
  from ge_p1p1_to_p3_is [OF 3(3)] r(1) 1(1,2) 2(1,2) 3(1,2) show ?thesis by simp
qed

lemma nibble_digits:
  assumes "length a = 32" and "uint (a ! 31) \<le> 127"
  shows "digits16 (nibble_carry (nibbles a) 0) = le_value a" "length (nibble_carry (nibbles a) 0) = 64"
    "list_all (\<lambda>d. - 8 \<le> d \<and> d \<le> 8) (nibble_carry (nibbles a) 0)"
proof -
  note n = nibbles_value [OF assms(1)]
  have ne: "nibbles a \<noteq> []" using n(2) by auto
  have "uint (a ! 31 AND 15) + 16 * uint (drop_bit 4 (a ! 31) AND 15) \<le> 127"
    using nibbles_byte(1) [of "a ! 31"] assms(2) by simp
  then have "uint (drop_bit 4 (a ! 31) AND 15) \<le> 7" using uint_ge_0 [of "a ! 31 AND 15"] by linarith
  then have "last (nibbles a) \<le> 7" using n(2,4) by (simp add: last_conv_nth [OF ne])
  with nibble_carry_value [of 0 "nibbles a"] n ne
  show "digits16 (nibble_carry (nibbles a) 0) = le_value a" "length (nibble_carry (nibbles a) 0) = 64"
    "list_all (\<lambda>d. - 8 \<le> d \<and> d \<le> 8) (nibble_carry (nibbles a) 0)" by simp_all
qed

lemma scalarmult_with_is:
  assumes cg: "curve_group pt"
    and sel: "selects pt sel g"
    and a: "length a = 32" "uint (a ! 31) \<le> 127"
  shows "\<exists>R. scalarmult_with sel a = Some R \<and> p3_is pt R (zmul (le_value a) g)"
proof -
  define e where "e = nibble_carry (nibbles a) 0"
  note e = nibble_digits [OF a, folded e_def]
  let ?o = "map (\<lambda>k. 2 * k + 1) [0..<32]" and ?e = "map (\<lambda>k. 2 * k) [0..<32]"
  have i: "list_all (\<lambda>i. i < 64) ?o" "list_all (\<lambda>i. i < 64) ?e" by (simp_all add: list_all_iff)
  let ?so = "\<Sum>k\<leftarrow>[0..<32]. 256 ^ k * e ! (2 * k + 1)" and ?se = "\<Sum>k\<leftarrow>[0..<32]. 256 ^ k * e ! (2 * k)"
  have s: "(\<Sum>i\<leftarrow>?o. 256 ^ (i div 2) * e ! i) = ?so" "(\<Sum>i\<leftarrow>?e. 256 ^ (i div 2) * e ! i) = ?se"
    by (simp_all only: map_map comp_def) (simp_all only: div_mult_self1_is_m Suc_eq_plus1 [symmetric] zero_less_numeral div_even_odd)
  note loop = madd_loop_is [OF cg sel e(2,3)]
  have "p3_is pt ge_p3_0 (zmul 0 g)" using neutral_is(2) [OF cg] by simp
  from loop [OF this i(1)] obtain h1 where 1: "madd_loop sel e ?o ge_p3_0 = Some h1" "p3_is pt h1 (zmul ?so g)"
    unfolding s by auto
  note 2 = quad_dbl_is [OF cg 1(2)]
  from 2 obtain h2 where 2: "(do { r \<leftarrow> ge_p3_dbl h1; s \<leftarrow> ge_p1p1_to_p2 r; r \<leftarrow> ge_p2_dbl s; s \<leftarrow> ge_p1p1_to_p2 r;
      r \<leftarrow> ge_p2_dbl s; s \<leftarrow> ge_p1p1_to_p2 r; r \<leftarrow> ge_p2_dbl s; ge_p1p1_to_p3 r }) = Some h2"
    "p3_is pt h2 (zmul (16 * ?so) g)" by blast
  have "16 * ?so + ?se = le_value a" using digits16_pairs [of e 32] e(1,2) by simp
  with loop [OF 2(2) i(2)] obtain h3 where 3: "madd_loop sel e ?e h2 = Some h3" "p3_is pt h3 (zmul (le_value a) g)"
    unfolding s by auto
  have "scalarmult_with sel a = Some h3"
    using 1(1) 2(1) 3(1) a(1) unfolding scalarmult_with_def e_def [symmetric] Let_def
    by (simp del: upt_rec_numeral add: bind_eq_Some_conv) blast
  with 3(2) show ?thesis by blast
qed

text \<open>The two selections agree, so the multiplications do, limb for limb.\<close>

lemma madd_loop_cong:
  "(\<And>i. i \<in> set is \<Longrightarrow> sel (i div 2) (e ! i) = sel' (i div 2) (e ! i)) \<Longrightarrow> madd_loop sel e is = madd_loop sel' e is"
proof (induction "is")
  case (Cons i "is")
  then have "madd_loop sel e is = madd_loop sel' e is" "sel (i div 2) (e ! i) = sel' (i div 2) (e ! i)" by simp_all
  then show ?case by (intro ext) simp
qed (simp add: fun_eq_iff)

lemma ge_scalarmult_base_vartime_same:
  assumes "curve_group pt" and "table_of pt base g" and "length a = 32" and "uint (a ! 31) \<le> 127"
  shows "ge_scalarmult_base_vartime base a = ge_scalarmult_base base a"
proof -
  define e where "e = nibble_carry (nibbles a) 0"
  note d = nibble_digits [OF assms(3,4), folded e_def]
  have "select_vartime base (i div 2) (e ! i) = select base (i div 2) (e ! i)" if "i < 64" for i
    using select_is(1) [OF assms(1,2), of "i div 2" "e ! i"] d(2,3) that
    by (simp add: list_all_length less_mult_imp_div_less)
  then have m: "madd_loop (select_vartime base) e is = madd_loop (select base) e is" if "list_all (\<lambda>i. i < 64) is" for "is"
    using that by (intro madd_loop_cong) (simp add: list_all_iff)
  have "madd_loop (select_vartime base) e (map (\<lambda>k. 2 * k + 1) [0..<32]) = madd_loop (select base) e (map (\<lambda>k. 2 * k + 1) [0..<32])"
    "madd_loop (select_vartime base) e (map (\<lambda>k. 2 * k) [0..<32]) = madd_loop (select base) e (map (\<lambda>k. 2 * k) [0..<32])"
    by (rule m, simp add: list_all_iff)+
  then show ?thesis
    unfolding ge_scalarmult_base_def ge_scalarmult_base_vartime_def scalarmult_with_def e_def [symmetric] Let_def
    by (simp only:)
qed

end
