(* ===== verification/Slide.thy ===== *)
theory Slide
  imports Crypto_Bytes
begin

text \<open>
  Signed sliding windows: \<^verbatim>\<open>slide\<close> and \<^verbatim>\<open>slide_v2\<close> of \<^verbatim>\<open>src/src/crypto/crypto-ops.c\<close>. The 256
  bits of a scalar are recoded in place into digits that are zero or odd and at most 15 in absolute value,
  by adding later bits to a digit or by subtracting them and carrying into the rest.
  \<^verbatim>\<open>signed char\<close> digits are \<open>int\<close> values; they stay within \<open>- 15 \<dots> 15\<close>.
\<close>

unbundle bit_operations_syntax

section \<open>Definitions\<close>

definition slide_bits :: "bytes \<Rightarrow> int list" where
  "slide_bits a = map (\<lambda>i. uint (1 AND drop_bit (i mod 8) (a ! (i div 8)))) [0..<256]"

text \<open>The loop that carries, over the indices \<open>ks\<close>; a carry out of the last digit is lost.\<close>

fun slide_carry :: "nat list \<Rightarrow> int list \<Rightarrow> int list" where
  "slide_carry [] r = r"
| "slide_carry (k # ks) r = (if r ! k = 0 then r[k := 1] else slide_carry ks (r[k := 0]))"

text \<open>The loop over the distances \<open>b\<close> from digit \<open>i\<close>.\<close>

fun slide_window :: "nat \<Rightarrow> nat list \<Rightarrow> int list \<Rightarrow> int list" where
  "slide_window i [] r = r"
| "slide_window i (b # bs) r =
     (if r ! (i + b) \<noteq> 0 then
        if r ! i + r ! (i + b) * 2 ^ b \<le> 15 then
          slide_window i bs (r[i := r ! i + r ! (i + b) * 2 ^ b, i + b := 0])
        else if r ! i - r ! (i + b) * 2 ^ b \<ge> - 15 then
          slide_window i bs (slide_carry [i + b..<256] (r[i := r ! i - r ! (i + b) * 2 ^ b]))
        else r
      else slide_window i bs r)"

definition slide_digit :: "nat \<Rightarrow> int list \<Rightarrow> int list" where
  "slide_digit i r = (if r ! i \<noteq> 0 then slide_window i [1..<min 7 (256 - i)] r else r)"

definition slide :: "bytes \<Rightarrow> int list" where
  "slide a = fold slide_digit [0..<256] (slide_bits a)"

text \<open>\<^verbatim>\<open>slide_v2\<close> also returns the index of the last digit that is not zero.\<close>

fun slide_v2_digit :: "nat \<Rightarrow> int list \<times> nat \<Rightarrow> int list \<times> nat" where
  "slide_v2_digit i (r, nzi) =
     (if r ! i \<noteq> 0 then
        let r = slide_window i [1..<min 7 (256 - i)] r in (r, if r ! i \<noteq> 0 then i else nzi)
      else (r, nzi))"

definition slide_v2 :: "bytes \<Rightarrow> int list \<times> nat" where
  "slide_v2 a = fold slide_v2_digit [0..<256] (slide_bits a, 0)"


section \<open>Digits and bits\<close>

text \<open>The number with the signed digits \<open>ds\<close> in base two, least significant first.\<close>

fun digits2 :: "int list \<Rightarrow> int" where
  "digits2 [] = 0"
| "digits2 (d # ds) = d + 2 * digits2 ds"

definition binary :: "int list \<Rightarrow> bool" where
  "binary ds = (\<forall>d \<in> set ds. d = 0 \<or> d = 1)"

lemma binary_simps [simp]: "binary []" "binary (d # ds) \<longleftrightarrow> (d = 0 \<or> d = 1) \<and> binary ds"
  by (auto simp: binary_def)

lemma digits2_append: "digits2 (xs @ ys) = digits2 xs + 2 ^ length xs * digits2 ys"
  by (induction xs) (simp_all add: distrib_left)

lemma binary_range: "binary ds \<Longrightarrow> 0 \<le> digits2 ds \<and> digits2 ds < 2 ^ length ds"
  by (induction ds) auto

lemma digits2_bits: "digits2 (map of_bool bs) = horner_sum of_bool 2 bs"
  by (induction bs) simp_all

lemma byte_bit:
  assumes "i < 8 * length a"
  shows "bit (a ! (i div 8)) (i mod 8) = bit (le_value a) i"
proof -
  have "i div 8 < length a" using assms by (simp add: less_mult_imp_div_less mult.commute)
  then have "a ! (i div 8) = word_of_int (drop_bit (8 * (i div 8)) (le_value a))"
    using le_bytes_le_value [of a] le_bytes_map [of "length a" "le_value a"] by (metis (no_types, lifting) add.left_neutral length_map length_upt minus_nat.diff_0 nth_map nth_upt)
  then show ?thesis by (simp add: bit_simps)
qed

lemma slide_bits_value:
  assumes "length a = 32"
  shows "digits2 (slide_bits a) = le_value a" and "binary (slide_bits a)" and "length (slide_bits a) = 256"
proof -
  have b: "uint (1 AND drop_bit (i mod 8) (a ! (i div 8))) = of_bool (bit (le_value a) i)" if "i < 256" for i
  proof -
    have "uint (1 AND drop_bit (i mod 8) (a ! (i div 8))) = of_bool (bit (a ! (i div 8)) (i mod 8))"
      by (simp add: and_one_eq one_and_eq mod_2_eq_odd bit_iff_odd_drop_bit [symmetric])
    then show ?thesis using byte_bit [of i a] that assms by simp
  qed
  then have e: "slide_bits a = map of_bool (map (bit (le_value a)) [0..<256])"
    by (simp add: slide_bits_def)
  have "le_value a < 2 ^ 256" using le_value_upper [of a] assms by simp
  then have "take_bit 256 (le_value a) = le_value a" by (simp add: take_bit_int_eq_self)
  then show "digits2 (slide_bits a) = le_value a"
    unfolding e digits2_bits by (simp only: horner_sum_bit_eq_take_bit)
  show "binary (slide_bits a)" "length (slide_bits a) = 256" by (auto simp: e binary_def)
qed


section \<open>One digit\<close>

text \<open>Adding one to a binary number; a carry out of the top is lost.\<close>

fun incr :: "int list \<Rightarrow> int list" where
  "incr [] = []"
| "incr (d # ds) = (if d = 0 then 1 # ds else 0 # incr ds)"

lemma incr_length [simp]: "length (incr ds) = length ds"
  by (induction ds) simp_all

lemma incr_binary: "binary ds \<Longrightarrow> binary (incr ds)"
  by (induction ds) auto

lemma incr_value: "binary ds \<Longrightarrow> digits2 ds + 1 < 2 ^ length ds \<Longrightarrow> digits2 (incr ds) = digits2 ds + 1"
  by (induction ds) auto

lemma slide_carry_incr:
  "length pre + length ds = 256 \<Longrightarrow> slide_carry [length pre..<256] (pre @ ds) = pre @ incr ds"
proof (induction ds arbitrary: pre)
  case (Cons d ds)
  have u: "[length pre..<256] = length pre # [Suc (length pre)..<256]" using Cons.prems by (simp add: upt_conv_Cons)
  show ?case
  proof (cases "d = 0")
    case False
    then show ?thesis using Cons.IH [of "pre @ [0]"] Cons.prems by (simp add: u)
  qed (simp add: u)
qed simp

text \<open>From distance five on nothing changes.\<close>

lemma slide_window_far:
  assumes "list_all (\<lambda>b. 5 \<le> b \<and> (r ! (i + b) = 0 \<or> r ! (i + b) = 1)) bs" and "- 15 \<le> r ! i" and "r ! i \<le> 15"
  shows "slide_window i bs r = r"
  using assms
proof (induction bs)
  case (Cons b bs)
  have "(2 :: int) ^ 5 \<le> 2 ^ b" using Cons.prems by (intro power_increasing) simp_all
  then show ?case using Cons by auto
qed simp

text \<open>A near bit is added.\<close>

lemma slide_window_add:
  assumes "r ! i = d" and "r ! (i + b) = y" and "y = 0 \<or> y = 1" and "d + 2 ^ b \<le> 15"
  shows "slide_window i (b # bs) r = slide_window i bs (r[i := d + y * 2 ^ b, i + b := 0])"
proof (cases "y = 0")
  case True
  then have "r[i := d + y * 2 ^ b, i + b := 0] = r" using assms(1,2) by (metis add.right_neutral list_update_id mult_zero_left)
  then show ?thesis using assms True by simp
qed (use assms in auto)

lemma slide_window_add3:
  assumes "binary [y1, y2, y3]"
  shows "slide_window (length pre) [1] (pre @ 1 # y1 # zs) = pre @ (1 + 2 * y1) # 0 # zs"
    and "slide_window (length pre) (1 # 2 # bs) (pre @ 1 # y1 # y2 # zs) = slide_window (length pre) bs (pre @ (1 + 2 * y1 + 4 * y2) # 0 # 0 # zs)"
    and "slide_window (length pre) (1 # 2 # 3 # bs) (pre @ 1 # y1 # y2 # y3 # zs)
      = slide_window (length pre) bs (pre @ (1 + 2 * y1 + 4 * y2 + 8 * y3) # 0 # 0 # 0 # zs)"
proof -
  have 1: "slide_window (length pre) (1 # bs) (pre @ 1 # y1 # zs) = slide_window (length pre) bs (pre @ (1 + 2 * y1) # 0 # zs)" for bs zs
    by (subst slide_window_add [where d = 1 and y = y1]) (use assms in \<open>auto simp: nth_append list_update_append\<close>)
  have 2: "slide_window (length pre) (2 # bs) (pre @ (1 + 2 * y1) # 0 # y2 # zs)
      = slide_window (length pre) bs (pre @ (1 + 2 * y1 + 4 * y2) # 0 # 0 # zs)" for bs zs
    by (subst slide_window_add [where d = "1 + 2 * y1" and y = y2]) (use assms in \<open>auto simp: nth_append list_update_append\<close>)
  have 3: "slide_window (length pre) (3 # bs) (pre @ (1 + 2 * y1 + 4 * y2) # 0 # 0 # y3 # zs)
      = slide_window (length pre) bs (pre @ (1 + 2 * y1 + 4 * y2 + 8 * y3) # 0 # 0 # 0 # zs)" for bs zs
    by (subst slide_window_add [where d = "1 + 2 * y1 + 4 * y2" and y = y3]) (use assms in \<open>auto simp: nth_append list_update_append\<close>)
  show "slide_window (length pre) [1] (pre @ 1 # y1 # zs) = pre @ (1 + 2 * y1) # 0 # zs" by (simp only: 1) simp
  show "slide_window (length pre) (1 # 2 # bs) (pre @ 1 # y1 # y2 # zs) = slide_window (length pre) bs (pre @ (1 + 2 * y1 + 4 * y2) # 0 # 0 # zs)"
    by (simp only: 1 2)
  show "slide_window (length pre) (1 # 2 # 3 # bs) (pre @ 1 # y1 # y2 # y3 # zs)
      = slide_window (length pre) bs (pre @ (1 + 2 * y1 + 4 * y2 + 8 * y3) # 0 # 0 # 0 # zs)"
    by (simp only: 1 2 3)
qed

text \<open>The digit and the rest that the window leaves, for a number with at least four bits after the digit.\<close>

lemma slide_digit_long:
  assumes len: "length pre + 5 + length zs = 256" and b: "binary [y1, y2, y3, y4]" "binary zs"
  defines "w \<equiv> 1 + 2 * y1 + 4 * y2 + 8 * y3"
  shows "slide_digit (length pre) (pre @ 1 # y1 # y2 # y3 # y4 # zs) =
    (if y4 = 0 then pre @ w # 0 # 0 # 0 # 0 # zs else pre @ (w - 16) # 0 # 0 # 0 # 0 # incr zs)"
proof -
  let ?i = "length pre"
  obtain far where u: "[1..<min 7 (256 - ?i)] = [1, 2, 3, 4] @ far"
    and far: "list_all (\<lambda>b. 5 \<le> b \<and> b - 5 < length zs) far"
  proof
    have "[1..<min 7 (256 - ?i)] = [1..<5] @ [5..<min 7 (256 - ?i)]"
      using upt_add_eq_append [of 1 5 "min 7 (256 - ?i) - 5"] len by simp
    then show "[1..<min 7 (256 - ?i)] = [1, 2, 3, 4] @ [5..<min 7 (256 - ?i)]" by (simp add: upt_rec)
    show "list_all (\<lambda>b. 5 \<le> b \<and> b - 5 < length zs) [5..<min 7 (256 - ?i)]" using len by (auto simp: list_all_iff)
  qed
  have w: "1 \<le> w" "w \<le> 15" using b(1) by (auto simp: w_def)
  have stop: "slide_window ?i far (pre @ d # 0 # 0 # 0 # 0 # ds) = pre @ d # 0 # 0 # 0 # 0 # ds"
    if "- 15 \<le> d" "d \<le> 15" "binary ds" "length ds = length zs" for d ds
  proof (rule slide_window_far)
    let ?r = "pre @ d # 0 # 0 # 0 # 0 # ds"
    have "5 \<le> b \<and> (?r ! (?i + b) = 0 \<or> ?r ! (?i + b) = 1)" if b: "b \<in> set far" for b
    proof -
      from b far have "5 \<le> b" "b - 5 < length ds" using \<open>length ds = length zs\<close> by (auto simp: list_all_iff)
      then obtain c where "b = c + 5" "c < length ds" by (metis le_add_diff_inverse2)
      then show ?thesis using \<open>binary ds\<close> nth_mem [of c ds] by (auto simp: nth_append binary_def)
    qed
    then show "list_all (\<lambda>b. 5 \<le> b \<and> (?r ! (?i + b) = 0 \<or> ?r ! (?i + b) = 1)) far" by (simp only: list_all_iff) blast
  qed (use that in simp_all)
  have n: "(pre @ xs) ! (?i + k) = xs ! k" "(pre @ xs)[?i + k := v] = pre @ xs[k := v]" for xs k and v :: int
    by (simp_all add: nth_append list_update_append)
  have n0: "(pre @ x # xs) ! ?i = x" "(pre @ x # xs)[?i := v] = pre @ v # xs" for x xs and v :: int
    by (simp_all add: nth_append)
  have c: "slide_carry [?i + 4..<256] (pre @ d # 0 # 0 # 0 # 1 # zs) = pre @ d # 0 # 0 # 0 # 0 # incr zs" for d
  proof -
    have l: "length (pre @ [d, 0, 0, 0]) = ?i + 4" by simp
    show ?thesis using slide_carry_incr [of "pre @ [d, 0, 0, 0]" "1 # zs", unfolded l] len by simp
  qed
  have three: "slide_window ?i (1 # 2 # 3 # bs) (pre @ 1 # y1 # y2 # y3 # y4 # zs) = slide_window ?i bs (pre @ w # 0 # 0 # 0 # y4 # zs)" for bs
    unfolding w_def by (rule slide_window_add3 (3)) (use b(1) in simp)
  have four: "slide_window ?i (4 # far) (pre @ w # 0 # 0 # 0 # y4 # zs) =
      (if y4 = 0 then pre @ w # 0 # 0 # 0 # 0 # zs else pre @ (w - 16) # 0 # 0 # 0 # 0 # incr zs)"
    using b w stop [OF _ _ b(2) refl, of w] stop [OF _ _ incr_binary [OF b(2)], of "w - 16"] c
    by (auto simp: n n0)
  show ?thesis unfolding slide_digit_def u using three [of "4 # far"] four by (simp add: n0)
qed

text \<open>With fewer than four bits after the digit they are all added.\<close>

lemma slide_digit_short:
  assumes len: "length pre + 1 + length ys = 256" and b: "binary ys" and s: "length ys < 4"
  shows "slide_digit (length pre) (pre @ 1 # ys) = pre @ (1 + 2 * digits2 ys) # replicate (length ys) 0"
proof -
  let ?i = "length pre"
  have n: "(pre @ xs) ! (?i + k) = xs ! k" "(pre @ xs)[?i + k := v] = pre @ xs[k := v]" for xs k and v :: int
    by (simp_all add: nth_append list_update_append)
  have n0: "(pre @ x # xs) ! ?i = x" "(pre @ x # xs)[?i := v] = pre @ v # xs" for x xs and v :: int
    by (simp_all add: nth_append)
  have u: "[1..<min 7 (256 - ?i)] = [1..<Suc (length ys)]"
  proof -
    have "min 7 (256 - ?i) = Suc (length ys)" using len s by simp
    then show ?thesis by (simp only:)
  qed
  have c: "ys = [] \<or> (\<exists>y1. ys = [y1]) \<or> (\<exists>y1 y2. ys = [y1, y2]) \<or> (\<exists>y1 y2 y3. ys = [y1, y2, y3])"
  proof -
    have "length ys = 0 \<or> length ys = Suc 0 \<or> length ys = Suc (Suc 0) \<or> length ys = Suc (Suc (Suc 0))" using s by linarith
    then show ?thesis by (auto simp: length_Suc_conv)
  qed
  have d: "slide_digit ?i (pre @ 1 # ys) = slide_window ?i [1..<Suc (length ys)] (pre @ 1 # ys)"
    unfolding slide_digit_def u n0 by simp
  from c consider "ys = []" | y1 where "ys = [y1]" | y1 y2 where "ys = [y1, y2]" | y1 y2 y3 where "ys = [y1, y2, y3]" by blast
  then show ?thesis
  proof cases
    case 1
    then show ?thesis unfolding d by simp
  next
    case 2
    then have u: "[1..<Suc (length ys)] = [1]" by simp
    show ?thesis unfolding d u unfolding 2 by (subst slide_window_add3 (1) [of y1 0 0]) (use b 2 in simp_all)
  next
    case 3
    then have u: "[1..<Suc (length ys)] = [1, 2]" by (simp add: upt_rec)
    show ?thesis unfolding d u unfolding 3 by (subst slide_window_add3 (2) [of y1 y2 0]) (use b 3 in simp_all)
  next
    case 4
    then have u: "[1..<Suc (length ys)] = [1, 2, 3]" by (simp add: upt_rec)
    show ?thesis unfolding d u unfolding 4 by (subst slide_window_add3 (3)) (use b 4 in simp_all)
  qed
qed


section \<open>The whole recoding\<close>

definition window_digit :: "int \<Rightarrow> bool" where
  "window_digit d \<longleftrightarrow> (d = 0 \<or> odd d) \<and> - 15 \<le> d \<and> d \<le> 15"

lemma carry_room: "1 \<le> w \<Longrightarrow> w + 16 + 32 * z \<le> 16 * P \<Longrightarrow> 2 * (z + 1) \<le> P" for w z P :: int
  by presburger

lemma slide_digit_step:
  assumes len: "length pre + Suc (length ys) = 256" and b: "binary (x # ys)"
    and le: "digits2 (x # ys) \<le> 2 ^ length ys"
  shows "\<exists>d ys'. slide_digit (length pre) (pre @ x # ys) = pre @ d # ys' \<and> binary ys' \<and> length ys' = length ys
    \<and> d + 2 * digits2 ys' = digits2 (x # ys) \<and> window_digit d \<and> 2 * digits2 ys' \<le> 2 ^ length ys"
proof -
  consider "x = 0" | "x = 1" "length ys < 4" | y1 y2 y3 y4 zs where "x = 1" "ys = y1 # y2 # y3 # y4 # zs"
  proof -
    have "\<exists>y1 y2 y3 y4 zs. ys = y1 # y2 # y3 # y4 # zs" if "\<not> length ys < 4"
    proof -
      have "Suc (Suc (Suc (Suc 0))) \<le> length ys" using that by simp
      then show ?thesis by (auto simp: Suc_le_length_iff)
    qed
    then show thesis using b that by (metis binary_simps(2))
  qed
  then show ?thesis
  proof cases
    case 1
    then show ?thesis using b le by (auto simp: slide_digit_def window_digit_def)
  next
    case 2
    have z: "digits2 (replicate n 0) = 0" "binary (replicate n 0)" for n by (induction n) simp_all
    have r: "0 \<le> digits2 ys" "digits2 ys < 2 ^ length ys" using binary_range [of ys] b by simp_all
    have "(2 :: int) ^ length ys \<le> 2 ^ 3" using 2 by (intro power_increasing) simp_all
    then have "window_digit (1 + 2 * digits2 ys)" using r by (simp add: window_digit_def)
    then show ?thesis using slide_digit_short [of pre ys] len b 2 z by auto
  next
    case 3
    have y: "binary [y1, y2, y3, y4]" "binary zs" using b 3 by simp_all
    define w where "w = 1 + 2 * y1 + 4 * y2 + 8 * y3"
    have w: "1 \<le> w" "w \<le> 15" "odd w" "odd (w - 16)" using y(1) by (auto simp: w_def)
    have v: "digits2 (x # ys) = w + 16 * y4 + 32 * digits2 zs" by (simp add: 3 w_def)
    note s = slide_digit_long [OF _ y, of pre, folded w_def]
    have z: "0 \<le> digits2 zs" using binary_range [OF y(2)] by simp
    show ?thesis
    proof (cases "y4 = 0")
      case True
      then show ?thesis using s len 3 v w y z le by (auto simp: window_digit_def)
    next
      case False
      then have y4: "y4 = 1" using y(1) by simp
      have "w + 16 + 32 * digits2 zs \<le> 16 * 2 ^ length zs" using le v y4 by (simp add: 3)
      then have room: "2 * (digits2 zs + 1) \<le> 2 ^ length zs" by (rule carry_room [OF w(1)])
      then have i: "digits2 (incr zs) = digits2 zs + 1" using z by (intro incr_value y) simp
      show ?thesis
        by (intro exI [of _ "w - 16"] exI [of _ "0 # 0 # 0 # 0 # incr zs"])
          (use s len 3 y4 w room i v incr_binary [OF y(2)] in \<open>simp add: window_digit_def\<close>)
    qed
  qed
qed

lemma slide_fold:
  assumes "length pre + length rest = 256" and "binary rest" and "2 * digits2 rest \<le> 2 ^ length rest"
  shows "\<exists>ds. fold slide_digit [length pre..<256] (pre @ rest) = pre @ ds \<and> length ds = length rest
    \<and> digits2 ds = digits2 rest \<and> list_all window_digit ds"
  using assms
proof (induction "length rest" arbitrary: pre rest)
  case (Suc n)
  then obtain x ys where rest: "rest = x # ys" by (cases rest) simp_all
  obtain d ys' where d: "slide_digit (length pre) (pre @ rest) = pre @ d # ys'" "binary ys'" "length ys' = length ys"
    "d + 2 * digits2 ys' = digits2 rest" "window_digit d" "2 * digits2 ys' \<le> 2 ^ length ys"
    using slide_digit_step [of pre ys x] Suc.prems rest by auto
  obtain ds where ds: "fold slide_digit [length (pre @ [d])..<256] ((pre @ [d]) @ ys') = (pre @ [d]) @ ds" "length ds = length ys'"
    "digits2 ds = digits2 ys'" "list_all window_digit ds"
    using Suc.hyps(1) [of ys' "pre @ [d]"] Suc.hyps(2) Suc.prems d rest by auto
  have "[length pre..<256] = length pre # [length (pre @ [d])..<256]" using Suc.prems(1) rest by (simp add: upt_conv_Cons)
  then have "fold slide_digit [length pre..<256] (pre @ rest) = pre @ d # ds" using d(1) ds(1) by simp
  then show ?case using d ds rest by auto
qed simp

lemma slide_v2_digit_eq:
  "slide_v2_digit i (r, n) = (slide_digit i r, if slide_digit i r ! i \<noteq> 0 then i else n)" if "r ! i \<noteq> 0 \<or> slide_digit i r ! i = r ! i"
  using that by (auto simp: slide_digit_def Let_def)

lemma slide_v2_fold:
  assumes "length pre + length rest = 256" and "binary rest" and "2 * digits2 rest \<le> 2 ^ length rest"
  defines "r \<equiv> fold slide_digit [length pre..<256] (pre @ rest)"
  shows "\<exists>nzi. fold slide_v2_digit [length pre..<256] (pre @ rest, n) = (r, nzi)
    \<and> (\<forall>k. nzi < k \<and> length pre \<le> k \<and> k < 256 \<longrightarrow> r ! k = 0) \<and> (nzi = n \<or> length pre \<le> nzi \<and> nzi < 256 \<and> r ! nzi \<noteq> 0)"
  using assms(1-3) unfolding r_def
proof (induction "length rest" arbitrary: pre rest n)
  case (Suc m)
  then obtain x ys where rest: "rest = x # ys" by (cases rest) simp_all
  obtain d ys' where d: "slide_digit (length pre) (pre @ rest) = pre @ d # ys'" "binary ys'" "length ys' = length ys"
    "2 * digits2 ys' \<le> 2 ^ length ys"
    using slide_digit_step [of pre ys x] Suc.prems rest by auto
  let ?pre = "pre @ [d]"
  have len: "length ?pre + length ys' = 256" using Suc.prems d(3) rest by simp
  obtain ds where ds: "fold slide_digit [length ?pre..<256] (?pre @ ys') = ?pre @ ds"
    using slide_fold [OF len d(2)] d by auto
  have u: "[length pre..<256] = length pre # [length ?pre..<256]" using Suc.prems(1) rest by (simp add: upt_conv_Cons)
  let ?n = "if d \<noteq> 0 then length pre else n"
  have "rest ! 0 = x" by (simp add: rest)
  then have one: "slide_v2_digit (length pre) (pre @ rest, n) = (?pre @ ys', ?n)"
    using d(1) rest by (subst slide_v2_digit_eq) (auto simp: slide_digit_def)
  have r: "fold slide_digit [length pre..<256] (pre @ rest) = ?pre @ ds" unfolding u using d(1) ds by simp
  obtain nzi where nzi: "fold slide_v2_digit [length ?pre..<256] (?pre @ ys', ?n) = (?pre @ ds, nzi)"
    "\<forall>k. nzi < k \<and> length ?pre \<le> k \<and> k < 256 \<longrightarrow> (?pre @ ds) ! k = 0"
    "nzi = ?n \<or> length ?pre \<le> nzi \<and> nzi < 256 \<and> (?pre @ ds) ! nzi \<noteq> 0"
    using Suc.hyps(1) [of ys' ?pre ?n] Suc.hyps(2) len d rest unfolding ds by auto
  have dd: "(?pre @ ds) ! length pre = d" by simp
  have "(?pre @ ds) ! k = 0" if "nzi < k" "length pre \<le> k" "k < 256" for k
  proof (cases "k = length pre")
    case True
    then have "nzi = ?n" "nzi < length pre" using nzi(3) that by auto
    then have "d = 0" by (auto split: if_splits)
    then show ?thesis using True dd by simp
  next
    case False
    then show ?thesis using nzi(2) that by simp
  qed
  moreover have "nzi = n \<or> length pre \<le> nzi \<and> nzi < 256 \<and> (?pre @ ds) ! nzi \<noteq> 0"
    using nzi(3) dd len by (cases "d = 0") auto
  ultimately show ?case unfolding r using nzi(1) one unfolding u by auto
qed simp

lemma low_255:
  assumes "length a = 32" and "uint (a ! 31) \<le> 127"
  shows "2 * digits2 (slide_bits a) \<le> 2 ^ length (slide_bits a)"
proof -
  have "le_value (take 31 a) < 256 ^ 31" using le_value_upper [of "take 31 a"] assms(1) by simp
  moreover have "le_value a = le_value (take 31 a) + 256 ^ 31 * uint (a ! 31)"
  proof -
    have a: "a = take 31 a @ [a ! 31]" using assms(1) take_Suc_conv_app_nth [of 31 a] by simp
    show ?thesis by (subst a, subst le_value_append) (simp add: assms(1))
  qed
  ultimately show ?thesis using assms(2) slide_bits_value [OF assms(1)] by simp
qed

text \<open>Every scalar below \<open>2\<^sup>2\<^sup>5\<^sup>5\<close> is the number of its digits.\<close>

lemma slide_value:
  assumes "length a = 32" and "uint (a ! 31) \<le> 127"
  shows "length (slide a) = 256" and "digits2 (slide a) = le_value a" and "list_all window_digit (slide a)"
proof -
  from slide_fold [of "[]" "slide_bits a", OF _ slide_bits_value(2) [OF assms(1)] low_255 [OF assms]]
  obtain ds where "slide a = ds" "length ds = 256" "digits2 ds = le_value a" "list_all window_digit ds"
    using slide_bits_value [OF assms(1)] by (auto simp: slide_def)
  then show "length (slide a) = 256" "digits2 (slide a) = le_value a" "list_all window_digit (slide a)" by simp_all
qed

text \<open>The index of \<open>slide_v2\<close> is that of the last digit, or 0 when there is none.\<close>

lemma slide_v2_value:
  assumes "length a = 32" and "uint (a ! 31) \<le> 127"
  shows "\<exists>nzi. slide_v2 a = (slide a, nzi) \<and> nzi < 256 \<and> (\<forall>k. nzi < k \<and> k < 256 \<longrightarrow> slide a ! k = 0)
    \<and> (nzi = 0 \<or> slide a ! nzi \<noteq> 0)"
  using slide_v2_fold [of "[]" "slide_bits a" 0, OF _ slide_bits_value(2) [OF assms(1)] low_255 [OF assms]]
    slide_bits_value(3) [OF assms(1)]
  by (auto simp: slide_v2_def slide_def)

end
