(* ===== verification/Double_Mult.thy ===== *)
theory Double_Mult
  imports Slide Base_Mult
begin

text \<open>
  Multiplications with sliding windows: \<^verbatim>\<open>ge_dsm_precomp\<close>, the three
  \<^verbatim>\<open>ge_double_scalarmult_*_vartime*\<close> and the two \<^verbatim>\<open>ge_scalarmult_vartime_p3*\<close> functions of
  \<^verbatim>\<open>src/src/crypto/crypto-ops.c\<close>. They share a loop over the digits of one or two scalars, the
  highest first; the table \<^verbatim>\<open>ge_Bi\<close> of odd multiples of the base point is an argument.
\<close>

section \<open>Definitions\<close>

text \<open>The odd multiples \<open>c, c + s2, c + 2 s2, \<dots>\<close>\<close>

fun dsm_odd :: "nat \<Rightarrow> ge_p3 \<Rightarrow> ge_cached \<Rightarrow> ge_cached list option" where
  "dsm_odd 0 s2 c = Some [c]"
| "dsm_odd (Suc n) s2 c = do {
     t \<leftarrow> ge_add s2 c;
     u \<leftarrow> ge_p1p1_to_p3 t;
     c' \<leftarrow> ge_p3_to_cached u;
     cs \<leftarrow> dsm_odd n s2 c';
     Some (c # cs) }"

definition ge_dsm_precomp :: "ge_p3 \<Rightarrow> ge_cached list option" where
  "ge_dsm_precomp s = do {
     c \<leftarrow> ge_p3_to_cached s;
     t \<leftarrow> ge_p3_dbl s;
     s2 \<leftarrow> ge_p1p1_to_p3 t;
     dsm_odd 7 s2 c }"

text \<open>One digit: the multiple of the table is added or subtracted, nothing is done for 0.\<close>

definition dsm_cached :: "ge_cached list \<Rightarrow> int \<Rightarrow> ge_p1p1 \<Rightarrow> ge_p1p1 option" where
  "dsm_cached Ai d t =
     (if d > 0 then do { u \<leftarrow> ge_p1p1_to_p3 t; c \<leftarrow> idx Ai (nat (d div 2)); ge_add u c }
      else if d < 0 then do { u \<leftarrow> ge_p1p1_to_p3 t; c \<leftarrow> idx Ai (nat ((- d) div 2)); ge_sub u c }
      else Some t)"

definition dsm_precomp :: "ge_precomp list \<Rightarrow> int \<Rightarrow> ge_p1p1 \<Rightarrow> ge_p1p1 option" where
  "dsm_precomp Bi d t =
     (if d > 0 then do { u \<leftarrow> ge_p1p1_to_p3 t; c \<leftarrow> idx Bi (nat (d div 2)); ge_madd u c }
      else if d < 0 then do { u \<leftarrow> ge_p1p1_to_p3 t; c \<leftarrow> idx Bi (nat ((- d) div 2)); ge_msub u c }
      else Some t)"

text \<open>
  The loop over the digits, with the body \<open>step\<close> up to its last conversion. The variant with an extended
  result converts to it after the last digit; without any digit it leaves the result as it was.
\<close>

fun dsm_loop :: "('d \<Rightarrow> ge_p1p1 \<Rightarrow> ge_p1p1 option) \<Rightarrow> 'd list \<Rightarrow> ge_p2 \<Rightarrow> ge_p2 option" where
  "dsm_loop step [] r = Some r"
| "dsm_loop step (d # ds) r = do {
     t \<leftarrow> ge_p2_dbl r;
     t \<leftarrow> step d t;
     r \<leftarrow> ge_p1p1_to_p2 t;
     dsm_loop step ds r }"

fun dsm_loop_p3 :: "('d \<Rightarrow> ge_p1p1 \<Rightarrow> ge_p1p1 option) \<Rightarrow> 'd list \<Rightarrow> ge_p2 \<Rightarrow> ge_p3 \<Rightarrow> ge_p3 option" where
  "dsm_loop_p3 step [] r_p2 r = Some r"
| "dsm_loop_p3 step (d # ds) r_p2 r = do {
     t \<leftarrow> ge_p2_dbl r_p2;
     t \<leftarrow> step d t;
     if ds \<noteq> [] then do { r_p2 \<leftarrow> ge_p1p1_to_p2 t; dsm_loop_p3 step ds r_p2 r }
     else ge_p1p1_to_p3 t }"

definition dsm_digits :: "bytes \<Rightarrow> bytes \<Rightarrow> (int \<times> int) list" where
  "dsm_digits a b = dropWhile (\<lambda>(x, y). x = 0 \<and> y = 0) (rev (zip (slide a) (slide b)))"

definition ge_double_scalarmult_base_vartime :: "ge_precomp list \<Rightarrow> bytes \<Rightarrow> ge_p3 \<Rightarrow> bytes \<Rightarrow> ge_p2 option" where
  "ge_double_scalarmult_base_vartime ge_Bi a A b =
     (if length a < 32 \<or> length b < 32 then None
      else do { Ai \<leftarrow> ge_dsm_precomp A;
                dsm_loop (\<lambda>(x, y) t. do { t \<leftarrow> dsm_cached Ai x t; dsm_precomp ge_Bi y t })
                  (dsm_digits a b) ge_p2_0 })"

definition ge_double_scalarmult_base_vartime_p3 ::
  "ge_precomp list \<Rightarrow> ge_p3 \<Rightarrow> bytes \<Rightarrow> ge_p3 \<Rightarrow> bytes \<Rightarrow> ge_p3 option" where
  "ge_double_scalarmult_base_vartime_p3 ge_Bi r a A b =
     (if length a < 32 \<or> length b < 32 then None
      else do { Ai \<leftarrow> ge_dsm_precomp A;
                dsm_loop_p3 (\<lambda>(x, y) t. do { t \<leftarrow> dsm_cached Ai x t; dsm_precomp ge_Bi y t })
                  (dsm_digits a b) ge_p2_0 r })"

definition ge_double_scalarmult_precomp_vartime :: "bytes \<Rightarrow> ge_p3 \<Rightarrow> bytes \<Rightarrow> ge_cached list \<Rightarrow> ge_p2 option" where
  "ge_double_scalarmult_precomp_vartime a A b Bi =
     (if length a < 32 \<or> length b < 32 then None
      else do { Ai \<leftarrow> ge_dsm_precomp A;
                dsm_loop (\<lambda>(x, y) t. do { t \<leftarrow> dsm_cached Ai x t; dsm_cached Bi y t })
                  (dsm_digits a b) ge_p2_0 })"

definition ge_scalarmult_vartime_p3 :: "bytes \<Rightarrow> ge_p3 \<Rightarrow> ge_p3 option" where
  "ge_scalarmult_vartime_p3 a A =
     (if length a < 32 then None
      else do { Ai \<leftarrow> ge_dsm_precomp A;
                dsm_loop_p3 (dsm_cached Ai) (dropWhile (\<lambda>x. x = 0) (rev (slide a))) ge_p2_0 ge_p3_0 })"

definition ge_scalarmult_vartime_p3_v2 :: "bytes \<Rightarrow> ge_p3 \<Rightarrow> ge_p3 option" where
  "ge_scalarmult_vartime_p3_v2 a A =
     (if length a < 32 then None
      else let (aslide, i) = slide_v2 a in
        if i = 0 then Some ge_p3_0
        else do { Ai \<leftarrow> ge_dsm_precomp A;
                  dsm_loop_p3 (dsm_cached Ai) (rev (take (Suc i) aslide)) ge_p2_0 ge_p3_0 })"


section \<open>Digits\<close>

lemma dsm_odd_is:
  assumes "curve_group pt" and "p3_is pt S (zmul 2 g)" and "cached_is pt c (zmul (2 * int m + 1) g)"
  shows "\<exists>cs. dsm_odd n S c = Some cs \<and> length cs = Suc n
    \<and> (\<forall>k\<le>n. cached_is pt (cs ! k) (zmul (2 * int (m + k) + 1) g))"
  using assms(3)
proof (induction n arbitrary: c m)
  case 0
  then show ?case by simp
next
  case (Suc n)
  from ge_add_is [OF assms(1,2) Suc.prems] obtain t where
    t: "ge_add S c = Some t" "p1p1_is pt t (zmul 2 g + zmul (2 * int m + 1) g)" by blast
  from ge_p1p1_to_p3_is [OF t(2)] obtain u where
    u: "ge_p1p1_to_p3 t = Some u" "p3_is pt u (zmul 2 g + zmul (2 * int m + 1) g)" by blast
  have e: "zmul 2 g + zmul (2 * int m + 1) g = zmul (2 * int (Suc m) + 1) g"
    unfolding zmul_add [symmetric] by (simp add: algebra_simps)
  from ge_p3_to_cached_is [OF u(2)] obtain c' where
    c': "ge_p3_to_cached u = Some c'" "cached_is pt c' (zmul (2 * int (Suc m) + 1) g)" unfolding e by blast
  from Suc.IH [OF c'(2)] obtain cs where cs: "dsm_odd n S c' = Some cs" "length cs = Suc n"
    "\<forall>k\<le>n. cached_is pt (cs ! k) (zmul (2 * int (Suc m + k) + 1) g)" by blast
  have "cached_is pt ((c # cs) ! k) (zmul (2 * int (m + k) + 1) g)" if "k \<le> Suc n" for k
    using that cs(3) Suc.prems by (cases k) auto
  then show ?case using t u c' cs by auto
qed

definition odd_cached :: "('g :: ab_group_add \<Rightarrow> int \<times> int) \<Rightarrow> ge_cached list \<Rightarrow> 'g \<Rightarrow> bool" where
  "odd_cached pt Ai g \<longleftrightarrow> length Ai = 8 \<and> (\<forall>k<8. cached_is pt (Ai ! k) (zmul (2 * int k + 1) g))"

definition odd_precomp :: "('g :: ab_group_add \<Rightarrow> int \<times> int) \<Rightarrow> ge_precomp list \<Rightarrow> 'g \<Rightarrow> bool" where
  "odd_precomp pt Bi h \<longleftrightarrow> length Bi = 8 \<and> (\<forall>k<8. precomp_is pt (Bi ! k) (zmul (2 * int k + 1) h))"

lemma ge_dsm_precomp_is:
  assumes "curve_group pt" and "p3_is pt A g"
  shows "\<exists>Ai. ge_dsm_precomp A = Some Ai \<and> odd_cached pt Ai g"
proof -
  from ge_p3_to_cached_is [OF assms(2)] obtain c where c: "ge_p3_to_cached A = Some c" "cached_is pt c g" by blast
  from ge_p3_dbl_is [OF assms] obtain t where t: "ge_p3_dbl A = Some t" "p1p1_is pt t (g + g)" by blast
  from ge_p1p1_to_p3_is [OF t(2)] obtain s where s: "ge_p1p1_to_p3 t = Some s" "p3_is pt s (zmul 2 g)"
    using zmul_double [of 1 g] by auto
  have "cached_is pt c (zmul (2 * int 0 + 1) g)" using c(2) by simp
  from dsm_odd_is [OF assms(1) s(2) this, of 7] obtain cs where cs: "dsm_odd 7 s c = Some cs" "length cs = Suc 7"
    "\<forall>k\<le>7. cached_is pt (cs ! k) (zmul (2 * int (0 + k) + 1) g)" by blast
  then show ?thesis using c t s by (auto simp: ge_dsm_precomp_def odd_cached_def)
qed

lemma odd_half:
  assumes "window_digit d" and "0 < d"
  shows "nat (d div 2) < 8" and "2 * int (nat (d div 2)) + 1 = d"
  using assms by (auto simp: window_digit_def elim!: oddE)

lemma dsm_cached_is:
  assumes cg: "curve_group pt" and tab: "odd_cached pt Ai g" and d: "window_digit d" and t: "p1p1_is pt t k"
  shows "\<exists>r. dsm_cached Ai d t = Some r \<and> p1p1_is pt r (k + zmul d g)"
proof -
  from ge_p1p1_to_p3_is [OF t] obtain u where u: "ge_p1p1_to_p3 t = Some u" "p3_is pt u k" by blast
  have len: "length Ai = 8" using tab by (simp add: odd_cached_def)
  consider "0 < d" | "d < 0" | "d = 0" by linarith
  then show ?thesis
  proof cases
    case 1
    note h = odd_half [OF d 1]
    have "cached_is pt (Ai ! nat (d div 2)) (zmul d g)" using tab h unfolding odd_cached_def by metis
    from ge_add_is [OF cg u(2) this] show ?thesis using 1 u(1) h(1) len by (auto simp: dsm_cached_def)
  next
    case 2
    have d': "window_digit (- d)" using d by (auto simp: window_digit_def)
    note h = odd_half [OF d'] 
    have "cached_is pt (Ai ! nat ((- d) div 2)) (zmul (- d) g)" using tab h 2 unfolding odd_cached_def by (metis neg_0_less_iff_less)
    from ge_sub_is [OF cg u(2) this] show ?thesis using 2 u(1) h(1) len by (auto simp: dsm_cached_def zmul_minus)
  next
    case 3
    then show ?thesis using t by (simp add: dsm_cached_def)
  qed
qed

lemma dsm_precomp_is:
  assumes cg: "curve_group pt" and tab: "odd_precomp pt Bi h" and d: "window_digit d" and t: "p1p1_is pt t k"
  shows "\<exists>r. dsm_precomp Bi d t = Some r \<and> p1p1_is pt r (k + zmul d h)"
proof -
  from ge_p1p1_to_p3_is [OF t] obtain u where u: "ge_p1p1_to_p3 t = Some u" "p3_is pt u k" by blast
  have len: "length Bi = 8" using tab by (simp add: odd_precomp_def)
  consider "0 < d" | "d < 0" | "d = 0" by linarith
  then show ?thesis
  proof cases
    case 1
    note h = odd_half [OF d 1]
    have "precomp_is pt (Bi ! nat (d div 2)) (zmul d h)" using tab h unfolding odd_precomp_def by metis
    from ge_madd_is [OF cg u(2) this] show ?thesis using 1 u(1) h(1) len by (auto simp: dsm_precomp_def)
  next
    case 2
    have d': "window_digit (- d)" using d by (auto simp: window_digit_def)
    note h = odd_half [OF d']
    have "precomp_is pt (Bi ! nat ((- d) div 2)) (zmul (- d) h)" using tab h 2 unfolding odd_precomp_def by (metis neg_0_less_iff_less)
    from ge_msub_is [OF cg u(2) this] show ?thesis using 2 u(1) h(1) len by (auto simp: dsm_precomp_def zmul_minus)
  next
    case 3
    then show ?thesis using t by (simp add: dsm_precomp_def)
  qed
qed


section \<open>The loop\<close>

text \<open>What the loop accumulates: double, then add the multiple of the digit.\<close>

fun dsm_sum :: "('d \<Rightarrow> 'g :: ab_group_add) \<Rightarrow> 'd list \<Rightarrow> 'g \<Rightarrow> 'g" where
  "dsm_sum v [] g = g"
| "dsm_sum v (d # ds) g = dsm_sum v ds (g + g + v d)"

definition digit_law :: "('g :: ab_group_add \<Rightarrow> int \<times> int) \<Rightarrow> ('d \<Rightarrow> ge_p1p1 \<Rightarrow> ge_p1p1 option) \<Rightarrow> ('d \<Rightarrow> 'g) \<Rightarrow> 'd \<Rightarrow> bool" where
  "digit_law pt step v d \<longleftrightarrow> (\<forall>t g. p1p1_is pt t g \<longrightarrow> (\<exists>r. step d t = Some r \<and> p1p1_is pt r (g + v d)))"

lemma dsm_step:
  assumes "curve_group pt" and "digit_law pt step v d" and "p2_is pt r g"
  shows "\<exists>t t'. ge_p2_dbl r = Some t \<and> step d t = Some t' \<and> p1p1_is pt t' (g + g + v d)"
  using ge_p2_dbl_is [OF assms(1,3)] assms(2) by (auto simp: digit_law_def)

lemma dsm_loop_is:
  assumes "curve_group pt" and "\<forall>d \<in> set ds. digit_law pt step v d" and "p2_is pt r g"
  shows "\<exists>r'. dsm_loop step ds r = Some r' \<and> p2_is pt r' (dsm_sum v ds g)"
  using assms(2,3)
proof (induction ds arbitrary: r g)
  case (Cons d ds)
  have law: "digit_law pt step v d" and laws: "\<forall>d \<in> set ds. digit_law pt step v d" using Cons.prems(1) by simp_all
  from dsm_step [OF assms(1) law Cons.prems(2)]
  obtain t t' where t: "ge_p2_dbl r = Some t" "step d t = Some t'" "p1p1_is pt t' (g + g + v d)" by blast
  from ge_p1p1_to_p2_is [OF t(3)] obtain r' where r': "ge_p1p1_to_p2 t' = Some r'" "p2_is pt r' (g + g + v d)" by blast
  then show ?case using Cons.IH [OF laws r'(2)] t(1,2) by simp
qed simp

lemma dsm_loop_p3_is:
  assumes "curve_group pt" and "\<forall>d \<in> set ds. digit_law pt step v d" and "p2_is pt r g" and "ds \<noteq> []"
  shows "\<exists>r'. dsm_loop_p3 step ds r r0 = Some r' \<and> p3_is pt r' (dsm_sum v ds g)"
  using assms(2-)
proof (induction ds arbitrary: r g)
  case (Cons d ds)
  have law: "digit_law pt step v d" and laws: "\<forall>d \<in> set ds. digit_law pt step v d" using Cons.prems(1) by simp_all
  from dsm_step [OF assms(1) law Cons.prems(2)]
  obtain t t' where t: "ge_p2_dbl r = Some t" "step d t = Some t'" "p1p1_is pt t' (g + g + v d)" by blast
  show ?case
  proof (cases "ds = []")
    case True
    then show ?thesis using ge_p1p1_to_p3_is [OF t(3)] t(1,2) by auto
  next
    case False
    from ge_p1p1_to_p2_is [OF t(3)] obtain r' where r': "ge_p1p1_to_p2 t' = Some r'" "p2_is pt r' (g + g + v d)" by blast
    then show ?thesis using Cons.IH [OF laws r'(2) False] t(1,2) False by simp
  qed
qed simp

lemma dsm_sum_append: "dsm_sum v (xs @ ys) g = dsm_sum v ys (dsm_sum v xs g)"
  by (induction xs arbitrary: g) simp_all

lemma dsm_sum_zeros: "(\<And>d. P d \<Longrightarrow> v d = 0) \<Longrightarrow> dsm_sum v (dropWhile P ds) 0 = dsm_sum v ds 0"
  by (induction ds) simp_all

lemma dsm_sum_single: "dsm_sum (\<lambda>d. zmul d g) (rev ds) 0 = zmul (digits2 ds) g"
proof (induction ds)
  case (Cons d ds)
  have "dsm_sum (\<lambda>d. zmul d g) (rev (d # ds)) 0 = zmul (2 * digits2 ds) g + zmul d g"
    by (simp add: dsm_sum_append Cons.IH zmul_double)
  then show ?case by (simp add: zmul_add add.commute)
qed simp

lemma dsm_sum_pairs:
  assumes "length xs = length ys"
  shows "dsm_sum (\<lambda>(x, y). zmul x g + zmul y h) (rev (zip xs ys)) 0 = zmul (digits2 xs) g + zmul (digits2 ys) h"
  using assms
proof (induction xs ys rule: list_induct2)
  case (Cons x xs y ys)
  let ?v = "\<lambda>(x, y). zmul x g + zmul y h"
  have "dsm_sum ?v (rev (zip (x # xs) (y # ys))) 0
      = (zmul (digits2 xs) g + zmul (digits2 ys) h) + (zmul (digits2 xs) g + zmul (digits2 ys) h) + (zmul x g + zmul y h)"
    by (simp add: dsm_sum_append Cons.IH)
  also have "\<dots> = zmul (2 * digits2 xs) g + zmul (2 * digits2 ys) h + (zmul x g + zmul y h)"
  proof -
    have "(zmul (digits2 xs) g + zmul (digits2 ys) h) + (zmul (digits2 xs) g + zmul (digits2 ys) h)
        = (zmul (digits2 xs) g + zmul (digits2 xs) g) + (zmul (digits2 ys) h + zmul (digits2 ys) h)" by (simp add: ac_simps)
    then show ?thesis by (simp only: zmul_double)
  qed
  also have "\<dots> = zmul (digits2 (x # xs)) g + zmul (digits2 (y # ys)) h" by (simp add: zmul_add ac_simps)
  finally show ?case .
qed simp


section \<open>The multiplications\<close>

definition scalar255 :: "bytes \<Rightarrow> bool" where
  "scalar255 a \<longleftrightarrow> length a = 32 \<and> uint (a ! 31) \<le> 127"

lemma scalar255_slide:
  assumes "scalar255 a"
  shows "length a = 32" "length (slide a) = 256" "digits2 (slide a) = le_value a" "\<forall>d \<in> set (slide a). window_digit d"
  using slide_value [of a] assms by (simp_all add: scalar255_def list_all_iff)

lemma dsm_digits_sum:
  assumes "scalar255 a" and "scalar255 b"
  shows "dsm_sum (\<lambda>(x, y). zmul x g + zmul y h) (dsm_digits a b) 0 = zmul (le_value a) g + zmul (le_value b) h"
    and "\<forall>(x, y) \<in> set (dsm_digits a b). window_digit x \<and> window_digit y"
proof -
  note s = scalar255_slide [OF assms(1)] scalar255_slide [OF assms(2)]
  show "dsm_sum (\<lambda>(x, y). zmul x g + zmul y h) (dsm_digits a b) 0 = zmul (le_value a) g + zmul (le_value b) h"
    unfolding dsm_digits_def by (subst dsm_sum_zeros) (use s in \<open>auto simp: dsm_sum_pairs\<close>)
  show "\<forall>(x, y) \<in> set (dsm_digits a b). window_digit x \<and> window_digit y"
  proof (clarify)
    fix x y
    assume "(x, y) \<in> set (dsm_digits a b)"
    then have "(x, y) \<in> set (zip (slide a) (slide b))" by (auto simp: dsm_digits_def dest: set_dropWhileD)
    then show "window_digit x \<and> window_digit y" using s(4,8) by (meson set_zip_leftD set_zip_rightD)
  qed
qed

lemma dsm_digits_empty:
  assumes "scalar255 a" and "scalar255 b"
  shows "dsm_digits a b = [] \<longleftrightarrow> le_value a = 0 \<and> le_value b = 0"
proof -
  note s = scalar255_slide [OF assms(1)] scalar255_slide [OF assms(2)]
  have z: "digits2 ds = 0 \<longleftrightarrow> (\<forall>d \<in> set ds. d = 0)" if "\<forall>d \<in> set ds. window_digit d" for ds
    using that
  proof (induction ds)
    case (Cons d ds)
    have "d = 0 \<or> odd d" using Cons.prems by (simp add: window_digit_def)
    then have "d + 2 * digits2 ds = 0 \<longleftrightarrow> d = 0 \<and> digits2 ds = 0" by presburger
    then show ?case using Cons by simp
  qed simp
  have "dsm_digits a b = [] \<longleftrightarrow> (\<forall>(x, y) \<in> set (zip (slide a) (slide b)). x = 0 \<and> y = 0)"
    by (auto simp: dsm_digits_def)
  also have "\<dots> \<longleftrightarrow> (\<forall>d \<in> set (slide a). d = 0) \<and> (\<forall>d \<in> set (slide b). d = 0)"
    using s(2,6) by (auto simp: set_zip all_set_conv_all_nth)
  finally show ?thesis using z [OF s(4)] z [OF s(8)] s(3,7) by simp
qed

text \<open>The bodies of the loops obey the law of their digits.\<close>

lemma pair_law:
  assumes "\<And>x t k. window_digit x \<Longrightarrow> p1p1_is pt t k \<Longrightarrow> \<exists>r. f x t = Some r \<and> p1p1_is pt r (k + zmul x g)"
    and "\<And>y t k. window_digit y \<Longrightarrow> p1p1_is pt t k \<Longrightarrow> \<exists>r. f' y t = Some r \<and> p1p1_is pt r (k + zmul y h)"
    and "\<forall>(x, y) \<in> set ds. window_digit x \<and> window_digit y"
  shows "\<forall>d \<in> set ds. digit_law pt (\<lambda>(x, y) t. do { t \<leftarrow> f x t; f' y t }) (\<lambda>(x, y). zmul x g + zmul y h) d"
proof (clarify)
  fix x y
  assume "(x, y) \<in> set ds"
  then have d: "window_digit x" "window_digit y" using assms(3) by auto
  show "digit_law pt (\<lambda>(x, y) t. do { t \<leftarrow> f x t; f' y t }) (\<lambda>(x, y). zmul x g + zmul y h) (x, y)"
    unfolding digit_law_def
  proof (intro allI impI)
    fix t k
    assume "p1p1_is pt t k"
    from assms(1) [OF d(1) this] obtain r where r: "f x t = Some r" "p1p1_is pt r (k + zmul x g)" by blast
    from assms(2) [OF d(2) r(2)] show "\<exists>r. (case (x, y) of (x, y) \<Rightarrow> \<lambda>t. do { t \<leftarrow> f x t; f' y t }) t = Some r
        \<and> p1p1_is pt r (k + (case (x, y) of (x, y) \<Rightarrow> zmul x g + zmul y h))"
      using r(1) by (simp add: add.assoc)
  qed
qed

lemma ge_double_scalarmult_precomp_is:
  assumes cg: "curve_group pt" and A: "p3_is pt A g" and C: "odd_cached pt Ci h" and ab: "scalar255 a" "scalar255 b"
  shows "\<exists>R. ge_double_scalarmult_precomp_vartime a A b Ci = Some R \<and> p2_is pt R (zmul (le_value a) g + zmul (le_value b) h)"
proof -
  from ge_dsm_precomp_is [OF cg A] obtain Ai where Ai: "ge_dsm_precomp A = Some Ai" "odd_cached pt Ai g" by blast
  note sum = dsm_digits_sum(1) [OF ab, of g h] and win = dsm_digits_sum(2) [OF ab]
  have len: "\<not> (length a < 32 \<or> length b < 32)" using ab by (simp add: scalar255_def)
  have cl: "\<forall>d \<in> set (dsm_digits a b). digit_law pt (\<lambda>(x, y) t. do { t \<leftarrow> dsm_cached Ai x t; dsm_cached Ci y t })
      (\<lambda>(x, y). zmul x g + zmul y h) d"
    by (rule pair_law [OF dsm_cached_is [OF cg Ai(2)] dsm_cached_is [OF cg C] win])
  show ?thesis
    using dsm_loop_is [OF cg cl neutral_is(1) [OF cg]] len Ai(1) sum by (simp add: ge_double_scalarmult_precomp_vartime_def)
qed

lemma ge_double_scalarmult_is:
  assumes cg: "curve_group pt" and A: "p3_is pt A g" and B: "odd_precomp pt Bi h" and ab: "scalar255 a" "scalar255 b"
  shows "\<exists>R. ge_double_scalarmult_base_vartime Bi a A b = Some R \<and> p2_is pt R (zmul (le_value a) g + zmul (le_value b) h)"
    and "le_value a \<noteq> 0 \<or> le_value b \<noteq> 0 \<Longrightarrow>
      \<exists>R. ge_double_scalarmult_base_vartime_p3 Bi r a A b = Some R \<and> p3_is pt R (zmul (le_value a) g + zmul (le_value b) h)"
    and "le_value a = 0 \<and> le_value b = 0 \<Longrightarrow> ge_double_scalarmult_base_vartime_p3 Bi r a A b = Some r"
proof -
  from ge_dsm_precomp_is [OF cg A] obtain Ai where Ai: "ge_dsm_precomp A = Some Ai" "odd_cached pt Ai g" by blast
  note sum = dsm_digits_sum(1) [OF ab, of g h] and win = dsm_digits_sum(2) [OF ab]
  have len: "\<not> (length a < 32 \<or> length b < 32)" using ab by (simp add: scalar255_def)
  note n = neutral_is(1) [OF cg]
  have bl: "\<forall>d \<in> set (dsm_digits a b). digit_law pt (\<lambda>(x, y) t. do { t \<leftarrow> dsm_cached Ai x t; dsm_precomp Bi y t })
      (\<lambda>(x, y). zmul x g + zmul y h) d"
    by (rule pair_law [OF dsm_cached_is [OF cg Ai(2)] dsm_precomp_is [OF cg B] win])
  show "\<exists>R. ge_double_scalarmult_base_vartime Bi a A b = Some R \<and> p2_is pt R (zmul (le_value a) g + zmul (le_value b) h)"
    using dsm_loop_is [OF cg bl n] len Ai(1) sum by (simp add: ge_double_scalarmult_base_vartime_def)
  show "\<exists>R. ge_double_scalarmult_base_vartime_p3 Bi r a A b = Some R \<and> p3_is pt R (zmul (le_value a) g + zmul (le_value b) h)"
    if "le_value a \<noteq> 0 \<or> le_value b \<noteq> 0"
    using dsm_loop_p3_is [OF cg bl n] dsm_digits_empty [OF ab] that len Ai(1) sum
    by (simp add: ge_double_scalarmult_base_vartime_p3_def)
  show "ge_double_scalarmult_base_vartime_p3 Bi r a A b = Some r" if "le_value a = 0 \<and> le_value b = 0"
    using dsm_digits_empty [OF ab] that len Ai(1) by (simp add: ge_double_scalarmult_base_vartime_p3_def)
qed

lemma single_law:
  assumes "curve_group pt" and "odd_cached pt Ai g" and "\<forall>d \<in> set ds. window_digit d"
  shows "\<forall>d \<in> set ds. digit_law pt (dsm_cached Ai) (\<lambda>d. zmul d g) d"
  using dsm_cached_is [OF assms(1,2)] assms(3) by (auto simp: digit_law_def)

lemma ge_scalarmult_vartime_p3_is:
  assumes cg: "curve_group pt" and A: "p3_is pt A g" and a: "scalar255 a"
  shows "\<exists>R. ge_scalarmult_vartime_p3 a A = Some R \<and> p3_is pt R (zmul (le_value a) g)"
proof -
  from ge_dsm_precomp_is [OF cg A] obtain Ai where Ai: "ge_dsm_precomp A = Some Ai" "odd_cached pt Ai g" by blast
  note s = scalar255_slide [OF a]
  let ?ds = "dropWhile (\<lambda>x. x = 0) (rev (slide a))"
  have sum: "dsm_sum (\<lambda>d. zmul d g) ?ds 0 = zmul (le_value a) g"
    by (subst dsm_sum_zeros) (simp_all add: dsm_sum_single s(3))
  have win: "\<forall>d \<in> set ?ds. window_digit d" using s(4) by (auto dest: set_dropWhileD)
  note n = neutral_is(1) [OF cg]
  show ?thesis
  proof (cases "?ds = []")
    case True
    then have "zmul (le_value a) g = 0" using sum unfolding True by simp
    then have "p3_is pt ge_p3_0 (zmul (le_value a) g)" using neutral_is(2) [OF cg] by simp
    then show ?thesis unfolding ge_scalarmult_vartime_p3_def True using s(1) Ai(1) by simp
  next
    case False
    show ?thesis using dsm_loop_p3_is [OF cg single_law [OF cg Ai(2) win] n False] sum s(1) Ai(1)
      by (simp add: ge_scalarmult_vartime_p3_def)
  qed
qed

text \<open>The second version takes a single digit in position 0 for zero.\<close>

lemma ge_scalarmult_vartime_p3_v2_is:
  assumes cg: "curve_group pt" and A: "p3_is pt A g" and a: "scalar255 a" and big: "\<not> (odd (le_value a) \<and> le_value a < 16)"
  shows "\<exists>R. ge_scalarmult_vartime_p3_v2 a A = Some R \<and> p3_is pt R (zmul (le_value a) g)"
proof -
  from ge_dsm_precomp_is [OF cg A] obtain Ai where Ai: "ge_dsm_precomp A = Some Ai" "odd_cached pt Ai g" by blast
  note s = scalar255_slide [OF a]
  from slide_v2_value [of a] a obtain i where i: "slide_v2 a = (slide a, i)" "i < 256"
    "\<forall>k. i < k \<and> k < 256 \<longrightarrow> slide a ! k = 0" by (auto simp: scalar255_def)
  let ?l = "take (Suc i) (slide a)"
  have z: "drop (Suc i) (slide a) = replicate (256 - Suc i) 0"
    using i s(2) by (intro replicate_eqI [symmetric, THEN sym]) (auto simp: in_set_conv_nth)
  have r0: "digits2 (replicate n 0) = 0" for n by (induction n) simp_all
  have v: "digits2 ?l = le_value a"
  proof -
    have sl: "slide a = ?l @ replicate (256 - Suc i) 0" using z by (metis append_take_drop_id)
    have "digits2 (slide a) = digits2 ?l" by (subst sl) (simp add: digits2_append r0)
    then show ?thesis using s(3) by simp
  qed
  show ?thesis
  proof (cases "i = 0")
    case True
    then have l: "?l = [slide a ! 0]" using s(2) by (cases "slide a") simp_all
    moreover have "window_digit (slide a ! 0)" using s(2,4) by simp
    ultimately have "le_value a \<le> 15" "le_value a = 0 \<or> odd (le_value a)" using v by (simp_all add: window_digit_def)
    then have "le_value a = 0" using big by auto
    then show ?thesis using True i(1) s(1) neutral_is(2) [OF cg] by (simp add: ge_scalarmult_vartime_p3_v2_def)
  next
    case False
    have win: "\<forall>d \<in> set (rev ?l). window_digit d" using s(4) by (auto dest: in_set_takeD)
    have ne: "rev ?l \<noteq> []" using s(2) by auto
    have "dsm_sum (\<lambda>d. zmul d g) (rev ?l) 0 = zmul (le_value a) g" by (simp only: dsm_sum_single v)
    then show ?thesis using dsm_loop_p3_is [OF cg single_law [OF cg Ai(2) win] neutral_is(1) [OF cg] ne] False i(1) s(1) Ai(1)
      by (simp add: ge_scalarmult_vartime_p3_v2_def)
  qed
qed

lemma binary_zero: "binary ds \<Longrightarrow> digits2 ds = 0 \<Longrightarrow> ds = replicate (length ds) 0"
proof (induction ds)
  case (Cons d ds)
  then have "0 \<le> digits2 ds" "0 \<le> d" using binary_range [of ds] by auto
  then have "d = 0" "digits2 ds = 0" using Cons.prems(2) by simp_all
  then show ?case using Cons by simp
qed simp

lemma small_digits:
  assumes a: "scalar255 a" and small: "odd (le_value a)" "le_value a < 16"
  shows "slide a = le_value a # replicate 255 0"
proof -
  have a32: "length a = 32" using a by (simp add: scalar255_def)
  note b = slide_bits_value [OF a32]
  obtain x y1 y2 y3 y4 zs where bits: "slide_bits a = x # y1 # y2 # y3 # y4 # zs" and len: "length zs = 251"
  proof -
    have "Suc (Suc (Suc (Suc (Suc 0)))) \<le> length (slide_bits a)" using b(3) by simp
    then obtain x y1 y2 y3 y4 zs where "slide_bits a = x # y1 # y2 # y3 # y4 # zs" by (auto simp: Suc_le_length_iff)
    then show thesis using b(3) by (intro that) simp_all
  qed
  have y: "binary [y1, y2, y3, y4]" "binary zs" and x: "x = 0 \<or> x = 1" using b(2) bits by simp_all
  define w where "w = 1 + 2 * y1 + 4 * y2 + 8 * y3"
  have v: "le_value a = x + 2 * y1 + 4 * y2 + 8 * y3 + 16 * y4 + 32 * digits2 zs"
    using b(1) by (simp add: bits)
  have z: "0 \<le> digits2 zs" using binary_range [OF y(2)] by simp
  have "x = 1" "y4 = 0" "digits2 zs = 0" using v z small x y(1) by auto
  then have zs: "zs = replicate 251 0" and va: "le_value a = w" using binary_zero [OF y(2)] len v by (simp_all add: w_def)
  have nop: "fold slide_digit is r = r" if "\<forall>i \<in> set is. r ! i = 0" for "is" r
    using that by (induction "is" arbitrary: r) (simp_all add: slide_digit_def)
  have first: "slide_digit 0 (slide_bits a) = w # replicate 255 0"
    using slide_digit_long [of "[]" zs y1 y2 y3 y4, folded w_def] len y \<open>x = 1\<close> \<open>y4 = 0\<close> zs
    by (simp add: bits numeral_eq_Suc)
  have "slide a = fold slide_digit [1..<256] (slide_digit 0 (slide_bits a))"
    unfolding slide_def by (subst upt_conv_Cons) simp_all
  also have "\<dots> = w # replicate 255 0" unfolding first by (rule nop) (auto simp: nth_Cons')
  finally show ?thesis by (simp only: va)
qed

lemma ge_scalarmult_vartime_p3_v2_small:
  assumes a: "scalar255 a" and small: "odd (le_value a)" "le_value a < 16"
  shows "ge_scalarmult_vartime_p3_v2 a A = Some ge_p3_0"
proof -
  from slide_v2_value [of a] a obtain i where i: "slide_v2 a = (slide a, i)" "i < 256" "i = 0 \<or> slide a ! i \<noteq> 0"
    by (auto simp: scalar255_def)
  have "i = 0" using i(2,3) unfolding small_digits [OF assms] by (auto simp: nth_Cons' split: if_splits)
  then show ?thesis using i(1) a by (simp add: ge_scalarmult_vartime_p3_v2_def scalar255_def)
qed

end
