(* ===== verification/Point_Sums.thy ===== *)
theory Point_Sums
  imports Edwards_Group Octal
begin

text \<open>
  Checking sums of points of the curve by the arithmetic of \<open>Octal\<close>. A point is given by the residues of
  \<open>y + x\<close>, \<open>y - x\<close> and \<open>4 x y\<close>; a sum is checked with the second addition law of Edwards curves, which takes
  four products and fails only on zero denominators.
\<close>

section \<open>Residues in the field\<close>

lemma fq_prime: "(of_nat oprime :: fq) = 0"
proof -
  have "(of_int fe_p :: fq) = 0" by (simp add: fq_zero_iff)
  moreover have "fe_p = int oprime" by (simp add: oprime_def fe_p_def)
  ultimately show ?thesis by (metis of_int_of_nat_eq)
qed

lemma fq_two_255: "(2 :: fq) ^ 255 = 19"
proof -
  have "(2 :: fq) ^ 255 = of_nat (oprime + 19)" by (simp add: oprime_def)
  also have "\<dots> = 19" by (simp only: of_nat_add fq_prime) simp
  finally show ?thesis .
qed

lemma fq_fold: "(of_nat (ofold x) :: fq) = of_nat x"
proof -
  have x: "x = olow t85 x + 8 ^ 85 * ohigh t85 x" by (simp add: olow_def ohigh_def t85_def)
  have p: "(of_nat (8 ^ 85) :: fq) = 19"
  proof -
    have "(8 :: nat) ^ 85 = 2 ^ 255" by (simp flip: power_mult [of 2 3 85, simplified])
    then show ?thesis using fq_two_255 by (simp only: of_nat_power of_nat_numeral)
  qed
  have "(of_nat x :: fq) = of_nat (olow t85 x) + of_nat (8 ^ 85) * of_nat (ohigh t85 x)"
    by (subst x) (simp only: of_nat_add of_nat_mult)
  then show ?thesis unfolding p ofold_def by (simp add: o19_def o19a_def oadd_def o0_def algebra_simps)
qed

lemma fq_red: "(of_nat (ored x) :: fq) = of_nat x"
  by (simp only: ored_def fq_fold)

lemma fq_sub:
  assumes "ohigh t86 y = oz"
  shows "(of_nat (osub x y) :: fq) = of_nat x - of_nat y"
proof -
  have y: "y < 8 ^ 86" using assms by (simp add: ohigh_def t86_def oz_def div_eq_0_iff)
  then have "osub x y + y = x + (8 ^ 86 - 1 + 57896044618658097711785492504343953926634992332820282019728792003956564819798)"
    by (simp add: osub_def oadd_def ocompl_def t86_def)
  also have "\<dots> = x + 9 * oprime" by (simp add: oprime_def)
  finally have "(of_nat (osub x y) :: fq) + of_nat y = of_nat x + 9 * of_nat oprime"
    by (metis of_nat_add of_nat_mult of_nat_numeral)
  then show ?thesis by (simp add: fq_prime algebra_simps)
qed

lemma oeq_fq: "oeq x y \<Longrightarrow> (of_nat x :: fq) = of_nat y"
  by (auto simp: oeq_def oadd_def fq_prime)

lemma fq_nonzero: "ononzero x \<Longrightarrow> (of_nat x :: fq) \<noteq> 0"
proof
  assume n: "ononzero x" and "(of_nat x :: fq) = 0"
  then have "fe_p dvd int x" using fq_zero_iff [of "int x"] by simp
  then obtain k where k: "int x = fe_p * k" ..
  have "x < 8 ^ 85" using n by (simp add: ononzero_def ohigh_def t85_def oz_def div_eq_0_iff)
  then have "int x < 2 * fe_p" by (simp add: fe_p_def)
  with k have "k < 2" "0 \<le> k" by (auto simp: fe_p_def zero_le_mult_iff)
  then have "k = 0 \<or> k = 1" by auto
  with k n show False by (auto simp: ononzero_def oz_def oprime_def fe_p_def)
qed

lemma fq_ring:
  "(of_nat (ored x) :: fq) = of_nat x"
  "(of_nat (omul x y) :: fq) = of_nat x * of_nat y"
  "(of_nat (oadd x y) :: fq) = of_nat x + of_nat y"
  by (simp_all only: fq_red omul_def oadd_def of_nat_add of_nat_mult)


section \<open>Sums\<close>

type_synonym triple = "nat \<times> nat \<times> nat"

fun affine :: "triple \<Rightarrow> ed_point \<Rightarrow> bool" where
  "affine (a, b, m) P \<longleftrightarrow> of_nat a = py P + px P \<and> of_nat b = py P - px P \<and> of_nat m = 4 * px P * py P"

definition add_sw :: "nat \<Rightarrow> nat \<Rightarrow> nat \<Rightarrow> nat \<Rightarrow> nat \<Rightarrow> nat \<Rightarrow> nat \<Rightarrow> bool" where
  "add_sw s w m1 m2 m3 x3 y3 \<longleftrightarrow>
     ononzero s \<and> ononzero w
     \<and> oeq (ored (omul x3 s)) (ored (oadd m1 m2)) \<and> oeq (ored (oadd (ored (omul y3 w)) m2)) m1
     \<and> oeq (ored (omul x3 y3)) m3"

definition add_uv :: "nat \<Rightarrow> nat \<Rightarrow> nat \<Rightarrow> nat \<Rightarrow> nat \<Rightarrow> nat \<Rightarrow> nat \<Rightarrow> bool" where
  "add_uv u v m1 m2 m3 x3 y3 \<longleftrightarrow>
     ohigh t86 u = oz \<and> add_sw (ored (oadd u v)) (ored (osub v u)) m1 m2 m3 x3 y3"

fun add_ok :: "triple \<Rightarrow> triple \<Rightarrow> triple \<Rightarrow> bool" where
  "add_ok (a1, b1, m1) (a2, b2, m2) (a3, b3, m3) \<longleftrightarrow>
     ohigh t86 b3 = oz \<and> add_uv (ored (omul b1 a2)) (ored (omul a1 b2)) m1 m2 m3 (osub a3 b3) (oadd a3 b3)"

lemma second_law:
  fixes x1 y1 x2 y2 d :: fq
  assumes "y1\<^sup>2 - x1\<^sup>2 = 1 + d * x1\<^sup>2 * y1\<^sup>2" and "y2\<^sup>2 - x2\<^sup>2 = 1 + d * x2\<^sup>2 * y2\<^sup>2"
  shows "(x1 * y2 + x2 * y1) * (y1 * y2 - x1 * x2) = (x1 * y1 + x2 * y2) * (1 + d * x1 * x2 * y1 * y2)"
    and "(y1 * y2 + x1 * x2) * (x1 * y2 - y1 * x2) = (x1 * y1 - x2 * y2) * (1 - d * x1 * x2 * y1 * y2)"
  using assms by algebra+

lemma plus_second:
  "px (P + Q) * (py P * py Q - px P * px Q) = px P * py P + px Q * py Q"
  "py (P + Q) * (px P * py Q - py P * px Q) = px P * py P - px Q * py Q"
proof -
  note c = second_law [OF ed_on_point [of P, unfolded ed_on_def] ed_on_point [of Q, unfolded ed_on_def]]
  note n = ed_denominators [OF ed_on_point ed_on_point, of P Q]
  have "px (P + Q) * (py P * py Q - px P * px Q) * (1 + ed_dd * px P * px Q * py P * py Q)
      = (px P * py P + px Q * py Q) * (1 + ed_dd * px P * px Q * py P * py Q)"
    using plus_coords_eq(1) [of P Q] c(1) by algebra
  then show "px (P + Q) * (py P * py Q - px P * px Q) = px P * py P + px Q * py Q" using n(1) by simp
  have "py (P + Q) * (px P * py Q - py P * px Q) * (1 - ed_dd * px P * px Q * py P * py Q)
      = (px P * py P - px Q * py Q) * (1 - ed_dd * px P * px Q * py P * py Q)"
    using plus_coords_eq(2) [of P Q] c(2) by algebra
  then show "py (P + Q) * (px P * py Q - py P * px Q) = px P * py P - px Q * py Q" using n(2) by simp
qed

lemma fq_numerals: "(2 :: fq) \<noteq> 0" "(4 :: fq) \<noteq> 0" "(8 :: fq) \<noteq> 0"
proof -
  show two: "(2 :: fq) \<noteq> 0" by (rule fq_two)
  have "(4 :: fq) = 2 * 2" "(8 :: fq) = 2 * 2 * 2" by simp_all
  then show "(4 :: fq) \<noteq> 0" "(8 :: fq) \<noteq> 0" using two by (metis mult_eq_0_iff)+
qed

lemma affineI:
  assumes "of_nat a - of_nat b = 2 * px P" and "of_nat a + of_nat b = 2 * py P" and "of_nat m = 4 * px P * py P"
  shows "affine (a, b, m) P"
proof -
  have "2 * (of_nat a :: fq) = 2 * (py P + px P)" "2 * (of_nat b :: fq) = 2 * (py P - px P)"
    using assms(1,2) by algebra+
  then have "of_nat a = py P + px P" "of_nat b = py P - px P" by (simp_all only: mult_cancel_left fq_numerals(1) simp_thms)
  then show ?thesis using assms(3) by simp
qed

lemma add_ok:
  assumes "affine s P" and "affine t Q" and "add_ok s t r"
  shows "affine r (P + Q)"
proof -
  obtain a1 b1 m1 a2 b2 m2 a3 b3 m3 where [simp]: "s = (a1, b1, m1)" "t = (a2, b2, m2)" "r = (a3, b3, m3)"
    by (metis prod_cases3)
  define D E where "D = py P * py Q - px P * px Q" and "E = px P * py Q - py P * px Q"
  define X Y :: fq where "X = of_nat a3 - of_nat b3" and "Y = of_nat a3 + of_nat b3"
  note c = assms(3) [unfolded \<open>s = _\<close> \<open>t = _\<close> \<open>r = _\<close> add_ok.simps add_uv_def add_sw_def]
  have a: "of_nat a1 = py P + px P" "of_nat b1 = py P - px P" "of_nat m1 = 4 * px P * py P"
    "of_nat a2 = py Q + px Q" "of_nat b2 = py Q - px Q" "of_nat m2 = 4 * px Q * py Q" using assms(1,2) by simp_all
  define u v where "u = ored (omul b1 a2)" and "v = ored (omul a1 b2)"
  have uv: "of_nat u = D + E * - 1" "of_nat v = D + E"
    unfolding u_def v_def fq_red omul_def of_nat_mult a D_def E_def by algebra+
  have h: "ohigh t86 b3 = oz" "ohigh t86 u = oz" using c by (simp_all add: u_def)
  have s: "of_nat (ored (oadd u v)) = 2 * D" "of_nat (ored (osub v u)) = 2 * E"
    unfolding fq_red oadd_def of_nat_add fq_sub [OF h(2)] uv by algebra+
  have nz: "2 * D \<noteq> 0" "2 * E \<noteq> 0" using c fq_nonzero s unfolding u_def v_def by metis+
  have x3: "of_nat (osub a3 b3) = X" "of_nat (oadd a3 b3) = Y"
    by (simp_all add: fq_sub [OF h(1)] oadd_def X_def Y_def)
  have e: "of_nat (ored (omul (osub a3 b3) (ored (oadd u v)))) = X * (2 * D)"
    "of_nat (ored (oadd m1 m2)) = 4 * px P * py P + 4 * px Q * py Q"
    "of_nat (ored (oadd (ored (omul (oadd a3 b3) (ored (osub v u)))) m2)) = Y * (2 * E) + 4 * px Q * py Q"
    "of_nat (ored (omul (osub a3 b3) (oadd a3 b3))) = X * Y"
    by (simp_all only: fq_ring fq_sub [OF h(2)] uv x3(1) a X_def Y_def) algebra+
  have q: "X * (2 * D) = 4 * px P * py P + 4 * px Q * py Q" "Y * (2 * E) + 4 * px Q * py Q = 4 * px P * py P" "X * Y = of_nat m3"
    using c oeq_fq unfolding u_def [symmetric] v_def [symmetric] by (metis e a)+
  have "X * (2 * D) = 2 * px (P + Q) * (2 * D)" "Y * (2 * E) = 2 * py (P + Q) * (2 * E)"
    using q plus_second [of P Q] unfolding D_def E_def by algebra+
  then have "X = 2 * px (P + Q)" "Y = 2 * py (P + Q)" using nz by (simp_all only: mult_cancel_right simp_thms)
  moreover from this q(3) have "of_nat m3 = 4 * px (P + Q) * py (P + Q)" by algebra
  ultimately show ?thesis using affineI [of a3 b3 "P + Q" m3] by (simp only: \<open>r = _\<close> X_def Y_def)
qed

definition dbl_w :: "nat \<Rightarrow> nat \<Rightarrow> nat \<Rightarrow> nat \<Rightarrow> nat \<Rightarrow> nat \<Rightarrow> bool" where
  "dbl_w w y1 m1 m2 x2 y2 \<longleftrightarrow>
     ohigh t86 w = oz \<and> oeq (ored (omul x2 w)) m1
     \<and> oeq (ored (oadd (ored (omul y2 (osub 2 w))) (oadd w w))) (ored (omul y1 y1))
     \<and> oeq (ored (omul x2 y2)) m2"

fun dbl_ok :: "triple \<Rightarrow> triple \<Rightarrow> bool" where
  "dbl_ok (a1, b1, m1) (a2, b2, m2) \<longleftrightarrow>
     ohigh t86 b2 = oz \<and> dbl_w (ored (omul a1 b1)) (oadd a1 b1) m1 m2 (osub a2 b2) (oadd a2 b2)"

lemma dbl_ok:
  assumes "affine s P" and "dbl_ok s r"
  shows "affine r (P + P)"
proof -
  obtain a1 b1 m1 a2 b2 m2 where [simp]: "s = (a1, b1, m1)" "r = (a2, b2, m2)" by (metis prod_cases3)
  define X Y W :: fq where "X = of_nat a2 - of_nat b2" and "Y = of_nat a2 + of_nat b2" and "W = (py P)\<^sup>2 - (px P)\<^sup>2"
  note c = assms(2) [unfolded \<open>s = _\<close> \<open>r = _\<close> dbl_ok.simps dbl_w_def]
  have a: "of_nat a1 = py P + px P" "of_nat b1 = py P - px P" "of_nat m1 = 4 * px P * py P" using assms(1) by simp_all
  define w where "w = ored (omul a1 b1)"
  have w: "of_nat w = W" unfolding w_def fq_red omul_def of_nat_mult a W_def by algebra
  have h: "ohigh t86 b2 = oz" "ohigh t86 w = oz" using c by (simp_all add: w_def)
  have x: "of_nat (osub a2 b2) = X" "of_nat (oadd a2 b2) = Y" "of_nat (osub 2 w) = 2 - W"
    using fq_sub [OF h(2), of 2] by (simp_all add: fq_sub [OF h(1)] oadd_def X_def Y_def w)
  have e: "of_nat (ored (omul (osub a2 b2) w)) = X * W"
    "of_nat (ored (oadd (ored (omul (oadd a2 b2) (osub 2 w))) (oadd w w))) = Y * (2 - W) + 2 * W"
    "of_nat (ored (omul (oadd a1 b1) (oadd a1 b1))) = 4 * (py P)\<^sup>2"
    "of_nat (ored (omul (osub a2 b2) (oadd a2 b2))) = X * Y"
    by (simp_all only: fq_ring x w a X_def Y_def) algebra+
  have q: "X * W = 4 * px P * py P" "Y * (2 - W) + 2 * W = 4 * (py P)\<^sup>2" "X * Y = of_nat m2"
    using c oeq_fq unfolding w_def [symmetric] by (metis e a)+
  note n = ed_denominators [OF ed_on_point ed_on_point, of P P]
  have W: "W = 1 + ed_dd * px P * px P * py P * py P" "2 - W = 1 - ed_dd * px P * px P * py P * py P"
    using ed_on_point [of P] unfolding ed_on_def W_def by algebra+
  have "X * W = 2 * px (P + P) * W" "Y * (2 - W) = 2 * py (P + P) * (2 - W)"
    using q plus_coords_eq [of P P, folded W] unfolding W_def by algebra+
  then have "X = 2 * px (P + P)" "Y = 2 * py (P + P)" using n unfolding W [symmetric] by (simp_all only: mult_cancel_right simp_thms)
  moreover from this q(3) have "of_nat m2 = 4 * px (P + P) * py (P + P)" by algebra
  ultimately show ?thesis using affineI [of a2 b2 "P + P" m2] by (simp only: \<open>r = _\<close> X_def Y_def)
qed


lemmas point_defs = add_sw_def add_uv_def dbl_w_def


section \<open>Entries of the tables\<close>

definition ed_2d :: nat where
  "ed_2d = 16295367250680780974490674513165176452449235426866156013048779062215315747161"

definition xy2d_ok :: "nat \<Rightarrow> nat \<Rightarrow> bool" where
  "xy2d_ok m t \<longleftrightarrow> oeq (ored (omul m ed_2d)) (ored (oadd (oadd t t) (oadd t t)))"

fun limb_number :: "fe \<Rightarrow> int" where
  "limb_number [a, b, c, d, e, f, g, h, i, j] =
     ((((((((j * 67108864 + i) * 33554432 + h) * 67108864 + g) * 33554432 + f) * 67108864 + e) * 33554432 + d) * 67108864 + c)
       * 33554432 + b) * 67108864 + a"

fun limbs_ok :: "fe \<Rightarrow> nat \<Rightarrow> bool" where
  "limbs_ok f a \<longleftrightarrow> length f = 10 \<and> list_all (\<lambda>x. \<bar>x\<bar> \<le> 33554432) f \<and> (limb_number f = int a \<or> limb_number f + fe_p = int a)"

text \<open>The three coordinates of an entry, the last one with its residue.\<close>

fun entries_ok :: "triple list \<Rightarrow> nat list \<Rightarrow> ge_precomp list \<Rightarrow> bool" where
  "entries_ok [] [] [] = True"
| "entries_ok ((a, b, m) # ps) (t # ts) (c # cs) \<longleftrightarrow>
     limbs_ok (pc_yplusx c) a \<and> limbs_ok (pc_yminusx c) b \<and> limbs_ok (pc_xy2d c) t \<and> entries_ok ps ts cs"
| "entries_ok _ _ _ = False"

fun xy2ds_ok :: "triple list \<Rightarrow> nat list \<Rightarrow> bool" where
  "xy2ds_ok [] [] = True"
| "xy2ds_ok ((a, b, m) # ps) (t # ts) \<longleftrightarrow> xy2d_ok m t \<and> xy2ds_ok ps ts"
| "xy2ds_ok _ _ = False"

text \<open>Multiples of a point: \<open>run_ok\<close> adds \<open>g\<close> at every step, \<open>doubles_ok\<close> doubles.\<close>

fun run_ok :: "triple \<Rightarrow> triple list \<Rightarrow> bool" where
  "run_ok g (s # t # ts) \<longleftrightarrow> add_ok s g t \<and> run_ok g (t # ts)"
| "run_ok g _ = True"

fun row_ok :: "triple list \<Rightarrow> bool" where
  "row_ok (g # s # ts) \<longleftrightarrow> dbl_ok g s \<and> run_ok g (s # ts)"
| "row_ok _ = False"

fun doubles_ok :: "triple list \<Rightarrow> bool" where
  "doubles_ok (s # t # ts) \<longleftrightarrow> dbl_ok s t \<and> doubles_ok (t # ts)"
| "doubles_ok _ = True"

lemma limb_rules: "fe_p = 57896044618658097711785492504343953926634992332820282019728792003956564819949"
  "length [a, b, c, d, e, f, g, h, i, j] = 10"
  by (simp_all add: fe_p_def)

lemmas limbs_simps = entries_ok.simps limbs_ok.simps limb_number.simps limb_rules list.pred_inject ge_precomp.simps
  arith_simps rel_simps abs_numeral abs_neg_numeral simp_thms of_nat_numeral prod.case

lemma last_rules: "last (s # t # ts) = last (t # ts)" "last [s] = s"
  by simp_all

lemmas sums_simps = last_rules row_ok.simps run_ok.simps doubles_ok.simps dbl_ok.simps add_ok.simps point_defs
  xy2ds_ok.simps xy2d_ok_def ed_2d_def octal_simps

end
