(* ===== verification/Base_Rows_1.thy ===== *)
theory Base_Rows_1
  imports Point_Sums Base_Data
begin

text \<open>
  Rows 0 to 7 of the table \<open>ge_base\<close>. \<open>row_i\<close> holds the residues of the eight entries, \<open>rest_i\<close> the
  further doublings that lead to the first entry of row \<open>i + 1\<close>.
\<close>

section \<open>Row 0\<close>

definition row_0 :: "triple list" where
  "row_0 =
    [(3533012425803781230144052908719740726127014226477800802100354883158534798213,
      31204614345391077396927242593886631629853981173214368409736920319215404093758,
      13621481547318423844932389008076928480671845218041773847510287306265573947077),
     (40277088815386731178907243282125131086172340233842699037233503275583876657623,
      48718306963831746885583586643117907343561796231867704143509447914497974261160,
      8315873306680556467728949720021550361089603701828333177579989137200884666391),
     (55221577242988382633613921715755988927347615506430221002982523990194636363568,
      19324154932736603031152325029326367275890211278985171650228672434569381466725,
      18636768049439262912846112718494667691362386871051631200531164609680862253179),
     (47066272949236454352011004142637614054391928395550853467619416848609482377631,
      17900364484490481448458662452751610416972167276715128949046668595979264465087,
      4468269183456203331446330614036633750191386180220183945498608283938384792947),
     (18668153700450365046820768141064729913722721519882092422277400263756282706739,
      9630189248235390748103966146409333440210333639383242876188677650069613696698,
      36837606618055379788354102880411274885248357968626847252925238082947197699961),
     (37042802551734379291256774445515883653807489140754236673331271591307945275697,
      25651611989922745009643932709203732449918896997826911000855036222734883196068,
      51019029066376055216031882957419424683320996969113210063313995196444104705883),
     (31711222115254622247534096269438047277815809670749515453120456498656435938239,
      13312953584136576304523025463821328163824699951717010248032899908581467496881,
      31877225379758397792435118480996571992636978243915343036750464554447157572716),
     (4109516327463731527202515788904111257973980123418119937409388067227422244495,
      26488824003848812422096153829220076970185472332004006092782020751874174629081,
      22271822976599869193992823739178161225466157214536443971058941325873970235151)]"

definition rest_0 :: "triple list" where
  "rest_0 =
    [(9150700901396372002955937811386093231723774689136611388824386579046465544694,
      34803470282035254167861749748857734223267880134292052229384783022034440302067,
      32497652638354287321491599043218613637194809399441239455250836941921874505560),
     (56998634480820689224812234692604884713596111604412395994047877857290066665871,
      4701998613811609213925887888520231796251786686876732362708225031217252696899,
      25273462789729838593201014507349189070210615696480493288171428987157881756341),
     (30340318798711838421951331556490767266021685221295035303866716430611579841841,
      24932384703262992566065740342801154389079494960625337105603301029363501065499,
      32687739116039026850564951011011508591509820393610730508939963385508344380851),
     (43664744203255909200148347263385470436435959511557546844847502698877724353667,
      51248953256284332391137700317245717899341492317885220006567182830270196459874,
      55127691445305407875555237286156798955703610245899753146310009982938589047595),
     (49675769929469841299643756429080699203912179602893634429411440103426509216797,
      22091644134232791648583243734511674002691531926567772780440084103746430849374,
      7072196632444220114340489171673450621159634263838457178912141123313469393457)]"

definition xy2d_0 :: "nat list" where
  "xy2d_0 =
    [50237614328228664512531835696112167678046477356841409204013502641986506238568,
     50706672771372854810760959653406682044345679494001682866047262582014706678367,
     40779097241408971452228116607583414735230162954196233009433085899742953658505,
     57721214740011996325100163914057143626378515005646177755397197794928900898569,
     30606639029984443449548711300126286734648431208933888345371544935567354135173,
     7563714261859060042956946782859995083128379099304074101372873478829756795761,
     55464387603073125013932436385527479500842401496857817399907801729203523072930,
     17443172525282717937484496621620514525016940174535744246793836220237314429210]"

lemma row_0_sums: "row_ok row_0"
  by (simp only: row_0_def sums_simps)

lemma row_0_doubles: "doubles_ok (last row_0 # rest_0)"
  by (simp only: row_0_def rest_0_def sums_simps)

lemma row_0_xy2d: "xy2ds_ok row_0 xy2d_0"
  by (simp only: row_0_def xy2d_0_def sums_simps)

lemma row_0_entries: "entries_ok row_0 xy2d_0 ge_base_0"
  by (simp only: row_0_def xy2d_0_def ge_base_0_def limbs_simps)

section \<open>Row 1\<close>

definition row_1 :: "triple list" where
  "row_1 =
    [(49675769929469841299643756429080699203912179602893634429411440103426509216797,
      22091644134232791648583243734511674002691531926567772780440084103746430849374,
      7072196632444220114340489171673450621159634263838457178912141123313469393457),
     (1695480832751736806470951358260895802284212889471435854247599651504136964101,
      17142148106529856694922869544983622252271658267045493178208475775526674259934,
      38285860753580695547747758915909609980374596895037659665914855126944531879201),
     (9490880931876894096932668319949019804409165332690132896406497910068747055056,
      23335382699338269226359667219828068643684120583484233220294663917471172462644,
      13317282700245390767838929869403079729723286703239472001713735164552563732432),
     (2707222199203868836145709957055912590502458828715760684662307503099924835512,
      21643483962844847727343024471782915420451507818628114701949989440605950678466,
      12292939272772399366819902961828727768351557500102467474172268610254164000489),
     (48831348531383933907130205179764543228744024930527514448766671908305600013712,
      14358540954434310882898694754559039830190068064381159596036496222495993605593,
      31859205359683109176542497671984114960871571521215686087613837947906418966002),
     (41216203841756160218906635499671420951049695638934419079611849371989008100,
      28778477417450470147375321795418971812774644074428630426552635281914512364180,
      4746736029345540576278907642914473964612107345946091651215301639361762000037),
     (50430368710646490576743301740051157903125689423910288797644378543230158839442,
      52742972861557722105223870811280754153749356824099611286666865771301641708365,
      25914241509874922957737443859084644389700738882914218603146788174643538860376),
     (29498347462688138458715161325674681839710645445148384319179471375497290862149,
      33021781150873132670815506225769745103240278494304508478691532483591302684228,
      24722282416037401762913574700069741017661076073057289021632720902992747333136)]"

definition rest_1 :: "triple list" where
  "rest_1 =
    [(39233217367744944082743727234989693259911533177309831461716904563803921446866,
      41877302029680014373540696028369248887210931711892764634228302435410547329496,
      17088648421089659586917506797220314703816197464555071879769914263537136058057),
     (4904412209339761180286532618738770454062008006295097537062582753237850945914,
      41239042376942260444617941012969620388890361950357076602629139995446089147819,
      30708156019736774291513038853099495223137858448852450871288066008841091313155),
     (55158454346054694268604020441458183612793129258730060795712830474277845193867,
      48229813147520468874845442934964023824873336539479111945131626172356501781879,
      49642557073738252470624733998840144726086097526819917127918676424678023984140),
     (12770184574188621644851783046033290637998250387524720053955675690325502037083,
      45959164983013416229143330207580281711029926589895765798082217843103463476785,
      56348939581053214695397584757467238486080500027249145585258452921233254703247),
     (4761860081995383609600795983942009904644672294262035659317576151992149381550,
      35604016480507116089823476989913686364420168017036822542463197598154674620094,
      54657446885292519208843755493446390211134123940975981292064234221677070068356)]"

definition xy2d_1 :: "nat list" where
  "xy2d_1 =
    [7587883923075452476895235793006848700987041958420761562786787445930038060231,
     39092322194140124183530118111804326734499060901029609352856299605036289779204,
     9277030085043846615222912495726065469701977420698226486713025760942692366292,
     24975096064402724959459136945448199799538455233488645156483227287997262061277,
     1049707050411921534957972386833815089663860789892059070086747575552388979594,
     8463184920793228453595486650893248346637756996834647739892156222228284693300,
     7149995665734987670238366895605861944828997155623666375862553101944484179461,
     29731677524652946989719868262474777407636952571611570462813419781785179060464]"

lemma row_1_sums: "row_ok row_1"
  by (simp only: row_1_def sums_simps)

lemma row_1_doubles: "doubles_ok (last row_1 # rest_1)"
  by (simp only: row_1_def rest_1_def sums_simps)

lemma row_1_xy2d: "xy2ds_ok row_1 xy2d_1"
  by (simp only: row_1_def xy2d_1_def sums_simps)

lemma row_1_entries: "entries_ok row_1 xy2d_1 ge_base_1"
  by (simp only: row_1_def xy2d_1_def ge_base_1_def limbs_simps)

section \<open>Row 2\<close>

definition row_2 :: "triple list" where
  "row_2 =
    [(4761860081995383609600795983942009904644672294262035659317576151992149381550,
      35604016480507116089823476989913686364420168017036822542463197598154674620094,
      54657446885292519208843755493446390211134123940975981292064234221677070068356),
     (56665923149671157733455181093965188504106072380701525874078160902252442580248,
      8822470504407283375527921120813162279172387267897160044506933546039323252407,
      29000427218075326306575987250742729867473002564071515846288404575149963888482),
     (17894486807759165385839356358745702556649527034131428694780762296890513716589,
      28925012715749832067490827849534775179848575307981009736605089348391034744871,
      27067574652240575405822044327181213424235162582525285487046359882979742930204),
     (632018054704182264523461235644992056550753277482107978637790902707643050680,
      20138930065880261814762966406943879877126916739919908442676910196045111378474,
      9491452248907073519385007026386900408009122362856034326647139514641702512449),
     (32840935255444831908037093508329629735678791979262925040068050308435623327069,
      27987180372783055544920873215766573876800272178407403601583364015352647556090,
      2157602809202120075014532286103876323235712928140187595493339979234478523892),
     (2999490403417113014159364531504992368196615670989943427516267960237417060142,
      38907134819921887210037138442762260623744887575397571298124107934042873909204,
      278696604566391693413377975024235880289500395420878439483306055568637543328),
     (52036471054789422902388672306252647754567781679067029022985652710980125912110,
      1816188432582282092158385592494799436272386012476554000415399487982434897023,
      12360853316059614296363112540507145515004120270221135011077302685299349122000),
     (41485314206758433359588950436298327041031468214467947591337009281138659129642,
      8697249474564671050682546350860356127209938034716058619021576757514253520066,
      14424386283123465271801973135471903543847653156679041275201295409715323141766)]"

definition rest_2 :: "triple list" where
  "rest_2 =
    [(6480549826064741809328337591895651998028096356534587962948998402906599594725,
      419243865549101221419157110606488251204777884130019979821866502075098115851,
      3351653010405726389685992198005944129606538132523200899489966661253615278872),
     (27018923029239457803657209244752977129985739328242490994714711393904947298267,
      19632441190381254804107326885484740810708219443602643718345157432467126378702,
      7008929590777237234667244045115128402779993695569383992713118777416617154137),
     (47749627333136099083567916553369945239553804462831484396119836325094428303541,
      51659565042808725279805218003850710368305926169517330366945025475058608489002,
      5643025435545570145716223191494440569842899624992089104110363312910027810565),
     (22496070466863838813376617589410879623201825320060904330061763859239383415207,
      17351779753683168135768649016284636994486862692623638310352723970068194639084,
      6445236901558398445556515881315547833564849918013520876494576366518275205719),
     (19908757815622469476643400070649213867456594963295691572917330196223816647484,
      10002383354134543615319173578760705254096130629387035707272039930399697129038,
      27824576264641615844977577383318448329033033370176039649303813484162061901538)]"

definition xy2d_2 :: "nat list" where
  "xy2d_2 =
    [28451869976407090222441007966926838613592435081401312415984017477467971029385,
     9295310295501051144387501917124852476766979789947871341847343323854140397280,
     29408927912847625880133125959953938854056264283340444007640737432312093030758,
     40304265145061330935147042133380017187556779260482162648340312732284521572982,
     33453452838064807467045255739161458354140118167006511792159110793946859279087,
     14743666104711798212682538654186047653590362035382494310482546340722686518454,
     41540819367681292918688765034481516167517428244261518965899447353585286694226,
     52492656548263831674072434840291686214571040573112328389160731373998577443518]"

lemma row_2_sums: "row_ok row_2"
  by (simp only: row_2_def sums_simps)

lemma row_2_doubles: "doubles_ok (last row_2 # rest_2)"
  by (simp only: row_2_def rest_2_def sums_simps)

lemma row_2_xy2d: "xy2ds_ok row_2 xy2d_2"
  by (simp only: row_2_def xy2d_2_def sums_simps)

lemma row_2_entries: "entries_ok row_2 xy2d_2 ge_base_2"
  by (simp only: row_2_def xy2d_2_def ge_base_2_def limbs_simps)

section \<open>Row 3\<close>

definition row_3 :: "triple list" where
  "row_3 =
    [(19908757815622469476643400070649213867456594963295691572917330196223816647484,
      10002383354134543615319173578760705254096130629387035707272039930399697129038,
      27824576264641615844977577383318448329033033370176039649303813484162061901538),
     (18654566673107975546820461001026314913723262106326658815737844620093486078280,
      37234712020399886888026814084947098152429387380702275768388060043729742528207,
      18093599193029018363016996728578980612980768258572200998777430357192838253440),
     (21292266773899639162765885952066543898650234952645780674439073344442193145932,
      16579083870680727353386033520581171267639842971105325737333067638129264196745,
      38407780437581007432880222710540360101778931814986732040734924306085154230169),
     (14529135931643235009059942718607623183308152617471375826677540257307869761300,
      36368204856314416158092524166187411731775232455432022740445720966004335384600,
      52279890787526649856704575321055327820179642025778034715295342198050710168920),
     (53873376500980242062881097346423872338635294934984712752345920673640034302439,
      15933117126776433364067236357989566842273729478980288125963251014917502359986,
      52908804686643844261626082510925132204046397780413067174538187309136529590291),
     (12115944105149661845286223033423344305617560020573449952916490574858751931055,
      22203058931140541574480250039773320575923311829529298000707556583500315328710,
      57866571443375175313306055201929213348547377134852693740849005858343683964736),
     (9559817251094150795732022868084880399448067035769623304265369886217051383352,
      32078669566481803808869088092801648404504341067335236812467598446167052945805,
      14602084215148782915266883377393700441033916864923633744410698554766626378138),
     (10123367169530457996004972497097315471651753947097285912671642302321953936529,
      30101926241590681560279225060198940963787248421955126546243664390157111135116,
      19597317593085344401582941421325287260546918318361002659138210419798576024785)]"

definition rest_3 :: "triple list" where
  "rest_3 =
    [(20228105077580605391615089861383477902948651093110614018006228601212829812897,
      50739262438981618138604305768031224265085555730473399623413823829986446560312,
      3474045274113367211564841192992442735605526869800210726295467404769871876607),
     (11885723816838583074018792554219779064684285046928521397444516138233066886525,
      39531560762888920858585255896256030388577182770913576037217881623551806533277,
      51374449878772736661384638516564234907341598612438908950220766486454332926257),
     (55309097900275244595540812102580096223347468140752878775874983984975695891697,
      47208749773804116322606667033397203501950472200820296195288268210573616930236,
      27815047831931601798624253580600305975587870445513578662412756316711197021972),
     (39919050734813992231405536031843928074009219071754640599537776056399933191789,
      45945320156859477738353994360472793303317240314119916523532935872320061970583,
      15298131637716591633232654897974525278448342235506464000061687461216257365495),
     (26402750181698060370662605837227369816500226738882517770271529401842378589672,
      14536364753920307535593082581313058277178823516042719567948075655722022317151,
      48111893690822098266536060574962312066554022104865270140046419317304125535741)]"

definition xy2d_3 :: "nat list" where
  "xy2d_3 =
    [47755065363846189113461404853942085918256976385442763263791031601346691441789,
     41330723346612204007591697729633555703795534604710918079352327372371347444449,
     42687874999959497303917400677323895350315592036002314149581384504830236608320,
     26002208807001360045232049031388277562638901388582737044133601423393690983761,
     23114062882190327792083433786886944815661275959326460784697164400942659547047,
     43938326906397071482133813695476606919629706461319022696422921304556740218984,
     31659145308018313228544054581829354608158326727101474528992418324816259533112,
     13345611359081422550671188517537801669123357355329491823438875338533662558461]"

lemma row_3_sums: "row_ok row_3"
  by (simp only: row_3_def sums_simps)

lemma row_3_doubles: "doubles_ok (last row_3 # rest_3)"
  by (simp only: row_3_def rest_3_def sums_simps)

lemma row_3_xy2d: "xy2ds_ok row_3 xy2d_3"
  by (simp only: row_3_def xy2d_3_def sums_simps)

lemma row_3_entries: "entries_ok row_3 xy2d_3 ge_base_3"
  by (simp only: row_3_def xy2d_3_def ge_base_3_def limbs_simps)

section \<open>Row 4\<close>

definition row_4 :: "triple list" where
  "row_4 =
    [(26402750181698060370662605837227369816500226738882517770271529401842378589672,
      14536364753920307535593082581313058277178823516042719567948075655722022317151,
      48111893690822098266536060574962312066554022104865270140046419317304125535741),
     (28467696867507890724292746544435905536777794472862973450420421961863763129587,
      18192841347164399415773420007164503723511770725855445590967258565898247076534,
      25785624307515532658133364747298652209239815138120511105882099771457827606496),
     (42298413614266399196515206574394975198566680186237647522564656016598307910074,
      5321415568774288868770715459811835718815269845210267330931717237167401836488,
      23658861149197884754219570799857772709663078180451389808848277170271602831263),
     (3365470320945450715896614514591270503450275072817277474781972920728182619851,
      14448335327257628077978515250263916817176784164132607004676324611728461563130,
      12402559396165811182982550476727420963478421302723375643415772403081251484370),
     (46033662239459320965727435667343709442975666211074769788534363586956546898913,
      10436484052971594662308145549073347833298479486482575897889795397644708209308,
      9500715658215232917664644019464410329658831363215280234140131570191570677085),
     (29601126465251282793668150616260546493423977835656345379875485394142634114476,
      9025212182676517368284702369370418221781179132383561143661791413281679669451,
      26589649691645852282744590592253250439477367804829332723082554514450743132265),
     (26445011814755025895447924400454610893969448663033091160751376557968779641814,
      15819250712917858773904021701684408096172704980177711610307540182449790582347,
      55280837355932152842713207819065795913467182198867699315892453906119798440848),
     (27028398033232520320580469357527679628354830339206139789167081517078019527198,
      23151366799918620983856050113677994249423583316114771718497123087495750447743,
      40944108280582097917149805029574339835572576306871796078028954416102449062621)]"

definition rest_4 :: "triple list" where
  "rest_4 =
    [(19238310624339690010350409627550275976108757237013722313670832090412456009909,
      37855451600702306380738652731348760260954121750363421172459211694831619619074,
      12488326871232690515375676521029472224637341276245477875345917259371377588576),
     (22958599478870231972095435491921071321727680888093042925691344798628485557660,
      55915739696162086463960047236349335733189403447425121245282808522811266327585,
      17867471171440986716031613171452254983750545558051341001644903692892010299586),
     (52019434033050880042442439734078393879024747597924613565229610236293041437434,
      50920055369732224919232050349233188227485914693700981097206687687163029446124,
      33638751731264117262146717532273087322007811505374814858893824015345575403827),
     (47093895857636168066134732782191630766523690668151907855819373751482162168301,
      14762704846405861073613058002013227688437453808003631442089919367483943000822,
      54265615265330881616662219368900268169382477848846306052616556786366996229902),
     (34705862686029395793543229889283339680385457474979213676668772792876223329343,
      20754029524796533516681242742417196184550616290110869337973224374832461795957,
      15738513042546087094961862995028988374512901533744592990799329057155620535539)]"

definition xy2d_4 :: "nat list" where
  "xy2d_4 =
    [56465797158513866373978332035777509370095804007883348063296109133608378741330,
     15316304754879040914707034707046046785892042896946314716362418059666109386800,
     26351572478274632803272096092169886056251892261664660360718579306239291810187,
     26210106361301965910432131228838378923743978587960502357418323750851062380029,
     15819465482797544953188739125351003427668507530220952327539962469509556704221,
     36414862789189463146872024259298279138802959820984977952829873894210279132300,
     42347468642669403870055823984642967943449901954771723239850115155671124955254,
     31233451458326180876133059785286504050284765638907405835319358891229712925196]"

lemma row_4_sums: "row_ok row_4"
  by (simp only: row_4_def sums_simps)

lemma row_4_doubles: "doubles_ok (last row_4 # rest_4)"
  by (simp only: row_4_def rest_4_def sums_simps)

lemma row_4_xy2d: "xy2ds_ok row_4 xy2d_4"
  by (simp only: row_4_def xy2d_4_def sums_simps)

lemma row_4_entries: "entries_ok row_4 xy2d_4 ge_base_4"
  by (simp only: row_4_def xy2d_4_def ge_base_4_def limbs_simps)

section \<open>Row 5\<close>

definition row_5 :: "triple list" where
  "row_5 =
    [(34705862686029395793543229889283339680385457474979213676668772792876223329343,
      20754029524796533516681242742417196184550616290110869337973224374832461795957,
      15738513042546087094961862995028988374512901533744592990799329057155620535539),
     (36009789712419855374112854772559493591123975837440351669310306653220573974676,
      40463029596022587936014126353742412695332070680827090156322802329422536583169,
      31017683388836098783471936457687938514230941677358352135280185817976192926286),
     (24233705218555401659772680388583530454908111993850930867959908886831253474451,
      30099681711548461296588576525799433183450639994717850839656743236437016970263,
      19507920925420339934733643497199532380850731656945371663130385298681148244870),
     (39429243937136944535642884581805444190911356924018218931130297705409010476115,
      17452195333612198051149429877945638347915096958689586925529279451924768150547,
      3273871074933231749483040772422011912481237523067424128847992754794648072770),
     (22139292438251605625076722859301800964007957222435554558002810128883414688611,
      53717315190760167188817990295460657531692550333296922061072956335045290483991,
      40059933223737197140009621179818279393764302616772238688629704440196137433517),
     (25633593855455868330364002558987292163182612311691839573301505317039694613440,
      42344858361513750120424994680316276210767350373364243096055721633237400821265,
      36518785758902530039494668297939026156077758703874619462999234893645648833703),
     (7197303069668717867654164208939922837918551330441849310819266561187512049825,
      48470072551670969772677749606703737431509563136765646042950819857809569287385,
      32856224778675073276819653978078382063057912598344129973314712959549099181574),
     (29589533450750376001984240796861080978671849040575421938054590497281682261248,
      6052727791956584223397069501265015684771587914959467171241469951531264674949,
      51459454384707656766318790197725875821369005898065705635307031021942214613719)]"

definition rest_5 :: "triple list" where
  "rest_5 =
    [(36918196726722101448933678860889797205635177955960663745753736684877656398356,
      19792759282461516403059541435426745796444315754794010916384367072719942928773,
      29452517110890381899741345502701865990496503362768237808105730430103833499356),
     (57726455918441732161374379422646745280029098034021934091605343996147553407603,
      43139791409575482953749655001329897935535251830029924309400815164876474272278,
      35586294288003964516085025943574316586184180586793032237313547535842991850565),
     (47063537400376592821060118630994932899449334552213294216292381919649384968588,
      5893944201089945755336144099942436442471735737646293838675905175387005565628,
      36679116080930047947094478132357431681515459768590492708621080302215217731793),
     (44259017990347534984166074681467696190053556812836312064916650787395165441259,
      23885545767277264186013334580522072789574641086479308799797608612291276282014,
      13334524274437672230374146657383359625131357996133832875399435811062306431775),
     (16054440271294318353381208704655348175877898769892958580352827581965250465531,
      57072792372353150577952531993815517704881297633921566672937422958968335766577,
      52647784957673374396372141873420491824011084275598144695954545548690420318337)]"

definition xy2d_5 :: "nat list" where
  "xy2d_5 =
    [56764799645676364864036401965246402271543447376834639606446113568819416342477,
     56450436000505374538761312252002094662147708858587019138230370804286086657896,
     17741815744867511998462949175201843146621031006703264623514952140274138389159,
     57712876388783890193736716361562969424636529491556222079006864269963846037694,
     21291307338170676612483373074212677214844075606903206886197239112893781314693,
     15774062831240277979636735997978495259286662484126110593157434148071545090363,
     34461021269008303324543592731622586425273307636688676317707078966871175369019,
     11354055777719228834625119042412118559188857887219405007123106963572677228208]"

lemma row_5_sums: "row_ok row_5"
  by (simp only: row_5_def sums_simps)

lemma row_5_doubles: "doubles_ok (last row_5 # rest_5)"
  by (simp only: row_5_def rest_5_def sums_simps)

lemma row_5_xy2d: "xy2ds_ok row_5 xy2d_5"
  by (simp only: row_5_def xy2d_5_def sums_simps)

lemma row_5_entries: "entries_ok row_5 xy2d_5 ge_base_5"
  by (simp only: row_5_def xy2d_5_def ge_base_5_def limbs_simps)

section \<open>Row 6\<close>

definition row_6 :: "triple list" where
  "row_6 =
    [(16054440271294318353381208704655348175877898769892958580352827581965250465531,
      57072792372353150577952531993815517704881297633921566672937422958968335766577,
      52647784957673374396372141873420491824011084275598144695954545548690420318337),
     (203406447795982060511516372116230676934930335453944068966288770638097895638,
      935123914697937731723449654313266748314654814750070127100326140262258816541,
      15629102941900340092323956971229271392820321902444622578162709151938024576629),
     (25668015687992809298521180724224010027237092437799803400361923950657722587504,
      11420662466477414785973027538058469640437191912861974541380543608165119107017,
      505857139689528704983317701886267949883504184875164396952260161017332229382),
     (8791573021639612543528238159567669574567997415487593481932831236777702597574,
      53357739748983793805438240115082548974030046944536059859829115284079407289835,
      19747456679064567767028808599920480934615290543995373501201212647849284572517),
     (8833822998178092180632527887564773924271992700500381621899804731781501975167,
      47957729207171637692086985125376174990561478462871315710951611328414165576980,
      16255131830015144046216319648784393727509879856985914190035289003855715012146),
     (48993415663007700749237048161633604115721131490904939913799507178003454642129,
      15434875927075185633090380654430658847058193976041185790081414839016038485160,
      54112969945758335593590763132911621900134114544806409664652166017863210093389),
     (40157286425850196807408494779485384279001577580757640345171514853691663095699,
      46782293523124115825210320507706993423192503217269762812082531904372227808455,
      6908178634930050293850977253360111418867455584588496525113402435684841262800),
     (50782020275197463250196309334234189563131781277421294134305680097524368290948,
      54890251617098705321442997384626652889683858100782309794885725614873360965819,
      26264073344772865303645063075214625420854107016909052767253542423687080205932)]"

definition rest_6 :: "triple list" where
  "rest_6 =
    [(51956654281199107032646883520755456670397495165077329721678721562044747830153,
      51577943930390623687170625002526342739440813934914707538124030955323570748481,
      35121538764971703876498174030645284756388001927543097350832147063350834693934),
     (55114293388014710577873181270176368153397891935701164450115404901685262632356,
      26793374489195845885521166144532151671940485951270675431551017925683726708212,
      26664215088775475671175355955162265489352815383137343167352857870461480114626),
     (21808955024583456816737303744330158092622569902218896451330150923923000550685,
      13672431629770178892865604500844231025015494962039128962368344144847035232979,
      14085369481601760420165848281039185669885135408498934654771735835530888983885),
     (7968477510007827606435445207869657988360779403213970828173573668398676677500,
      42216988583537334385361187201734478591033608839682085754733510060674011191937,
      28915411864002358088584740539282790993142140220243101203001593430627648833556),
     (19570925041999256898631784308054621256670072833025105856440092180243038384648,
      32357735381306869076802593254433151670973730536940797444907481256667225822746,
      37478480011527620686970608002947372113860716128474992713621586373098751135074)]"

definition xy2d_6 :: "nat list" where
  "xy2d_6 =
    [51421699959658133488712029380485152858798520627392651264474919470745381876784,
     34512591192687828692078762904758383885716226253722505484241805032454922705024,
     48142563076882481058310445803135535508945942883909531533138588507465518188399,
     963837964085558230313141714904071164065260392108041312663279840660637990353,
     22364214685946432667192352326584016112375237431246441783348183444104943209208,
     32952840616749654374222602142062733932317057662550465854026400305469768164161,
     12805140924505840564460055678031621322941577155313100465094046911399978635352,
     43367941149677131893312238394479744848216580183077423210284613718909362908083]"

lemma row_6_sums: "row_ok row_6"
  by (simp only: row_6_def sums_simps)

lemma row_6_doubles: "doubles_ok (last row_6 # rest_6)"
  by (simp only: row_6_def rest_6_def sums_simps)

lemma row_6_xy2d: "xy2ds_ok row_6 xy2d_6"
  by (simp only: row_6_def xy2d_6_def sums_simps)

lemma row_6_entries: "entries_ok row_6 xy2d_6 ge_base_6"
  by (simp only: row_6_def xy2d_6_def ge_base_6_def limbs_simps)

section \<open>Row 7\<close>

definition row_7 :: "triple list" where
  "row_7 =
    [(19570925041999256898631784308054621256670072833025105856440092180243038384648,
      32357735381306869076802593254433151670973730536940797444907481256667225822746,
      37478480011527620686970608002947372113860716128474992713621586373098751135074),
     (51039699923380686241926513746538724532401573184627754366394327561548459830545,
      7570250823697305855744828792920571099562660522204038883862807645658199985137,
      46628247034643272693461208273411498886967055225393291401425017124939807369176),
     (17815927084435082210038786096034969663291287715289744676332007673590765956279,
      6128762956563897534774398014169390595416076969443913774251935979979366533203,
      38044622011326972740560546986687463989730234968446421569711818546545196568759),
     (22941413270620039519460909949925599166829577193988009552828790239236170022419,
      20834083520695311253626952769167309003946725336233219162862910833294503308302,
      18412844089044815960116128075960106408544528432115372781453844850225470439656),
     (22605962032561002260906927136646178031493115749982200127214904434001957342516,
      50664813297096328312443921941464385705730385675291923877743585599692826537258,
      48258464221405981355271981659680848481776183383860610741039071700374464258379),
     (5931602209785778873524491340723204292990788197741444928986670236549472869483,
      7205633881201999895518959952678070371222187761568280364026173807974433056707,
      4022864253571619167534353674368749119402166872673356347291389144041780232524),
     (10090155032896329602424533390836796093318855729612379303022474971312290248365,
      8251279068613366320340838094603654322369550742089251065867438106278171974973,
      27842325406059538708471506894082208696595093034761107125625378416651301193188),
     (2393447640331994166250482562132720221537620759442547295034919510984251685524,
      20420990054860851345732385963185922103693551187117402856581670289080268342890,
      13484622411445038570770946367140665505160021585749251801225893479249932739677)]"

definition rest_7 :: "triple list" where
  "rest_7 =
    [(30093125196965367685981526264725504754332396466127285897228009251475038571580,
      9052034251620205706827156185663229978504786077326025551089469078038877155903,
      39488337776829405361285765973596005614345148820948489063582908744691748474464),
     (37269293509374695477101338646535471344399171896611579258055354116231451016863,
      8000984971521348259300721087162075508022068305263762918653175743525410303157,
      5751493425364168993343679914216837339985298758512500501892418415990399637199),
     (12579719060343104455282808057167670779768942604076651371217747838342772269098,
      47702712675269339434589082051757801648304104337832424757743333112946205248406,
      44768169357912442800381964175529319468944242021432492638366526306977394142300),
     (53546903703359431094648424818051869487029327402182101913279052438002554153131,
      49829415220052758663960833463479664041993077134458006921345767835557035854439,
      21980337606641810524246467533252225342404248532825733784186409948963719394232),
     (45811644395853849704390239305739775610481015468619340172495835071193285784853,
      14931608858295102652976015651393727842260237676016930108681592522697191371006,
      4601142675520088688015471552156220714199707789825762191520624384596998365597)]"

definition xy2d_7 :: "nat list" where
  "xy2d_7 =
    [43770426264118918909783461028749446169351069435554305000100345974965960357774,
     44986326881635460017158390896850251516845273638740138404439088669595325866075,
     51003336391242365398603558657762411510986397970791495328314451449094402742697,
     29614353902843101971246659850110438316679250149300710078753997294490125651300,
     16613905014371456579813876934913138822299369177430058796080334504049853735668,
     10256268312951935922943110046076555499668089573571950425525658998874612834015,
     54662823356110993230037175131481438882634210937508843203161327271639600064154,
     8717738338969336533237875646016915266408314034239149575065217019907544612024]"

lemma row_7_sums: "row_ok row_7"
  by (simp only: row_7_def sums_simps)

lemma row_7_doubles: "doubles_ok (last row_7 # rest_7)"
  by (simp only: row_7_def rest_7_def sums_simps)

lemma row_7_xy2d: "xy2ds_ok row_7 xy2d_7"
  by (simp only: row_7_def xy2d_7_def sums_simps)

lemma row_7_entries: "entries_ok row_7 xy2d_7 ge_base_7"
  by (simp only: row_7_def xy2d_7_def ge_base_7_def limbs_simps)

end
