(* ===== verification/Base_Rows_2.thy ===== *)
theory Base_Rows_2
  imports Point_Sums Base_Data
begin

text \<open>
  Rows 8 to 15 of the table \<open>ge_base\<close>. \<open>row_i\<close> holds the residues of the eight entries, \<open>rest_i\<close> the
  further doublings that lead to the first entry of row \<open>i + 1\<close>.
\<close>

section \<open>Row 8\<close>

definition row_8 :: "triple list" where
  "row_8 =
    [(45811644395853849704390239305739775610481015468619340172495835071193285784853,
      14931608858295102652976015651393727842260237676016930108681592522697191371006,
      4601142675520088688015471552156220714199707789825762191520624384596998365597),
     (35915358189563066635996360278622500072546646470003087207407994856299406126981,
      33894862684050342114233873808819603409138190338032291464631185092530026718295,
      21501141294656976270197728486440034748714476198607215560896892221430825045627),
     (46349681177630628852521607017182005268874686088518697986163469152413883962006,
      29013289842396303425316390666151711061552802329659675758056051080325829339592,
      35949142643066360552876047051936628293896553666764366333451898517956985081884),
     (29873764967232160522687534444849036661793439430977505697346661260175076455827,
      46777538541512666443747153081364834330280081720958040402518689303965422572187,
      1026617643160722821595526241551694436279800634162216085873992204978293174777),
     (3112051921836065348644222196114755243488832285733189044398404409075009015402,
      12159861955975290445057844824331012082084888217801685966694141533012363954365,
      34460874897437195558816454090117090527923655530416377153516346080927657725807),
     (3947863919548614691614883534988426276140516709523172715347108123493758323112,
      21689137557940082941822614766396937397624345861441418993573443597081243993436,
      46131430465351217813226693854079699620774540507597736797071742204416452464979),
     (3284982037767310412194076277874445779452028111829110568465838708767073636362,
      24345458866960735118667089020738796993781333307741865338035214722747307458626,
      40611351276687919365900006511720502506410893205997715668950828720789846846785),
     (2380616186269570579948212145036695964692794444412576422026387691350590880129,
      21017020806324619273480530910030301619468351367279950396420111391614104450057,
      11758223668226449587143630047677255233780872764645397033346076585019900688197)]"

definition rest_8 :: "triple list" where
  "rest_8 =
    [(20020780039529006300845947799009066733379107699593845039647896546874224898398,
      32980252754384554140471826446199976879444157450147215177201146178318733946092,
      5850097171850135259066587336623181850987640060386206549108222544556237951546),
     (12404633805603550874724628254851313373558443696608222607569189903119233983682,
      39447725265953999306382624543315991042556680675800157205432771446129763497561,
      9736770286924022470110385302804786715598871661699467121287292509115392652319),
     (52398358348779610509342589685866162170873741105110226567791376330472334500349,
      26973241560935523488720356593300373175214142520019630742708363487218803960237,
      38600357637148831306359175233262974675841358278190911858657100189166149583066),
     (40557425522788986321441778293671640794084726215204064503883067145245730589812,
      26520050914473004359684359514879290922112345566569427120432001634940482719187,
      49422096992440112611417229764980180232888745954862288303314262451849486234527),
     (10409407760910412180907553798087421626730406327956938241765986939166059044043,
      39887044591723563269245854972785290334598921988596658549592209198585228435322,
      19902037776268990261235155868768107615728005801534718142178602527294532619540)]"

definition xy2d_8 :: "nat list" where
  "xy2d_8 =
    [4903261878018343802674235243046271348789391508768465806716633528478782514849,
     5337171852761355920589028320888701925957450149919026217461911623736877192990,
     20472250333581509774243954343111719567176413045587415962736141605494126568386,
     52632938351182299433261527357784499124852258059911510012562841219046775139143,
     40197264120199883452839239970295209559427326057889604337880895971409041463626,
     8152589214379190206072417138974119756096456562044745843320328181919358371194,
     20593036446323379910244930263182484567868539341959810712747763005363902322676,
     33959264462625075688969793363384944666529816572912100876478553330634808107969]"

lemma row_8_sums: "row_ok row_8"
  by (simp only: row_8_def sums_simps)

lemma row_8_doubles: "doubles_ok (last row_8 # rest_8)"
  by (simp only: row_8_def rest_8_def sums_simps)

lemma row_8_xy2d: "xy2ds_ok row_8 xy2d_8"
  by (simp only: row_8_def xy2d_8_def sums_simps)

lemma row_8_entries: "entries_ok row_8 xy2d_8 ge_base_8"
  by (simp only: row_8_def xy2d_8_def ge_base_8_def limbs_simps)

section \<open>Row 9\<close>

definition row_9 :: "triple list" where
  "row_9 =
    [(10409407760910412180907553798087421626730406327956938241765986939166059044043,
      39887044591723563269245854972785290334598921988596658549592209198585228435322,
      19902037776268990261235155868768107615728005801534718142178602527294532619540),
     (40896513243296161671444933807481396907541920985647966475485242644194976950597,
      56237940223155400881454199037093689750714100792574853316124692989145994167367,
      13558501434826282131708604174744118453213355553762018202739140134064271557427),
     (25927521950428956889050219407561855352333046923981562959328821389536591441873,
      31763244584669318230155258503741286674382103648785712009619347735023240823766,
      18106063953169833465513311981967033600537450732345127667102281718213848141113),
     (1252837649804189419187014084342522588421764933639927071679819110106252195058,
      30593873904985471582502319832620565938676124214488861468313021438146302192151,
      49478167628128086002283920850731599176988429275879520651348028524482397503030),
     (21434487603839001687603600532527249023247989379734801099195449168315144687053,
      24025713092435803267851998223780967916793847979032537480487987917896994705322,
      43087383454157256295697515677410375130195486411466643184064286842946462630100),
     (31062498344221899951858847721436214809655846137357588828374314183705499890978,
      46963985862075618670679751905551430263508527377684534659084942250531346278636,
      56644565558822364737631584131415931585528941143902042750315286489653165150153),
     (4287683842256768229631627974241471982366033070632201808148999996804307871777,
      52659858249002268959479197969463203343577009160904130344851852312523521735042,
      41493007009391028977017377166231676655590999091646575690159777777790985475373),
     (50805719941751636072639545819508420116381714755901827263997675351076064057131,
      43864621143673778879720059145761705634008548766967599452868219196731971549962,
      38681863168211589517223944639919706093589033487871424556194233366988249813205)]"

definition rest_9 :: "triple list" where
  "rest_9 =
    [(2713392604461861686723734081934261555305819703129594204603676725602510667418,
      29050895300783521808049570404875149001510403583903130624611990717819265733359,
      22970575113387440262812800840442267917447564971151302745184179196951169365831),
     (26149337995024683493709316671756158759073952828742209801586076066953975534338,
      2279560492307930322974539460671633030905577003235254436334310157346744952968,
      10458175777947278094647821147574749517853735877792850006994827264966382732513),
     (37350604812291711739792023108357612565341869762170544755481144045416640066852,
      45755846414585105445672620688326532201349422910799802274291305585391877538109,
      47960419532884115531071472800968570118831210589056465132329117382466756286400),
     (17530766338798746851383918061560411741631057273203184466619043942756004356822,
      3251282321307115286448521645722997306489322493944037482195857979136664638322,
      8361880835041084297721281875168095538264481907722484038376288279260102386506),
     (12551146795280344786005283425206727374339868304857514563015128521932994467329,
      40997792406406923892931960786496672588770492779968430725449858439819538674675,
      2978516596518695181975730764185168258402829716893649180412841251612234945222)]"

definition xy2d_9 :: "nat list" where
  "xy2d_9 =
    [5502157052269489545361353740562109819339592228676418201671732063968905284836,
     1817463017805287068162815834967074727997328771097404636540050217332800636477,
     53527695826203145207658075886850196286259404332434506926721875858605410720412,
     7859943651990459060147687512188717939358419984506045072069369840509830411845,
     57486446864386749446598818911531311419131633566687342608271230985316832017342,
     38639375242256182530522002156010358970794170815715846655767526627348049450871,
     39573982994301037469386478770832470053802833111648899801836066420775450914212,
     15028014674436903151893920167278240259694525373488402876886035842326107614918]"

lemma row_9_sums: "row_ok row_9"
  by (simp only: row_9_def sums_simps)

lemma row_9_doubles: "doubles_ok (last row_9 # rest_9)"
  by (simp only: row_9_def rest_9_def sums_simps)

lemma row_9_xy2d: "xy2ds_ok row_9 xy2d_9"
  by (simp only: row_9_def xy2d_9_def sums_simps)

lemma row_9_entries: "entries_ok row_9 xy2d_9 ge_base_9"
  by (simp only: row_9_def xy2d_9_def ge_base_9_def limbs_simps)

section \<open>Row 10\<close>

definition row_10 :: "triple list" where
  "row_10 =
    [(12551146795280344786005283425206727374339868304857514563015128521932994467329,
      40997792406406923892931960786496672588770492779968430725449858439819538674675,
      2978516596518695181975730764185168258402829716893649180412841251612234945222),
     (36495074539532668136119300032490930812775115485457478334944836904296518231195,
      28516333418621250166851713081094041765280766791088042954180522440055348656537,
      29233033286594763832649480775494015882945295111772999630176555010576006962167),
     (55642637717615341722022066033283202987750692292429326885794666159006471668107,
      45388308265707171204135539876728540307165058094998853871904211628010648400124,
      37097432474366058256162670824054543173986081430959333964719560775527205802603),
     (49841877707494860773386729403075123583685643066334864294150530675937342915403,
      39722104095206381464614228934810644938615679772415802718864910265527696388205,
      20737434042282882616811725153069061963492371782521850222873587571796317983787),
     (15886768322867106878845972433249188986890743944471261304099714849292101070534,
      32988107716371446779087377870404657813439565920308070991526520112487875878852,
      41047349525650316368717418886861212911711841029536802929808600646427991506764),
     (14002229061428294927642145219672890724189146667978310305245520293898074014277,
      1605125088735393708460004180700736759350428710163310188661303736603845332468,
      28758144227564574071072057031642774155732918437935492610187202884584356489648),
     (14491890080572956642542083072864767624748676961835058370459993626642424846337,
      30681127199258015214961044843666609718360694794592528849130584784068893224911,
      36071004711802532150155909529347252994858962344934993247703770557673193482228),
     (44018790363729709212780562682442065758707333830111016380003737856641658677482,
      33949792137526630374438171331464033499912161404110416057409092333692073741468,
      17112640200229346690883724149593053539900161916940187406020428050151755008193)]"

definition rest_10 :: "triple list" where
  "rest_10 =
    [(35905976425759216951032961192435556430844196618167511537329817914065114522144,
      36398842653090509339062756880536732468749778493576125882477939014127250597385,
      5419364443320936682971537733589576985006281753473672822538036438806118232779),
     (29627051913227713816332507458185230140323706499467651432590251247615080541013,
      21540843015634029490841174471559232856665002667821908647205975174421615849839,
      30146010707455480659832857231838835638473885419498004131350510082612527723235),
     (3768659024341117249491098723584122266706344333981622657919620339066347168351,
      27729876039901811366790817540567895862704159966852391093122791842554353918162,
      44658964596656355441915633986288661079886822380055124905789672814113698483516),
     (18483503046857252429375645563637754951587132532205348576753810508712804608332,
      13324204498244154729700179562847089505007953015145942743907926454844256606482,
      29399129395004766937715135810937378967357882139719390493356114538981828714721),
     (18093175831105203409136265979036664672107261611153947917160847590957287697286,
      38130831442855550483773723253374209757463307039962625227408733545849508278678,
      44021269556628879785232731365772451529344242245953696868716592314069633724194)]"

definition xy2d_10 :: "nat list" where
  "xy2d_10 =
    [33485073730374884379083389779227338234729520923942262865850302142554981360993,
     11367252765177793858233439092973430268388408749841543810608927814731949300709,
     43683283860073365892155668576944614247275322696205766183044395438496958137475,
     24535498564751768623308160965868057934407013164367537539847940370628709232753,
     3441780851394278158737351347696032360737436214194577604671804153004370359238,
     39518910697847951169999680384286526545770905682021645886881699719392915782636,
     2287696475949916164339876772734410735036653014826086398481396827834583431877,
     14444229970904592008261237635174111186370575486154208825027892819311738248598]"

lemma row_10_sums: "row_ok row_10"
  by (simp only: row_10_def sums_simps)

lemma row_10_doubles: "doubles_ok (last row_10 # rest_10)"
  by (simp only: row_10_def rest_10_def sums_simps)

lemma row_10_xy2d: "xy2ds_ok row_10 xy2d_10"
  by (simp only: row_10_def xy2d_10_def sums_simps)

lemma row_10_entries: "entries_ok row_10 xy2d_10 ge_base_10"
  by (simp only: row_10_def xy2d_10_def ge_base_10_def limbs_simps)

section \<open>Row 11\<close>

definition row_11 :: "triple list" where
  "row_11 =
    [(18093175831105203409136265979036664672107261611153947917160847590957287697286,
      38130831442855550483773723253374209757463307039962625227408733545849508278678,
      44021269556628879785232731365772451529344242245953696868716592314069633724194),
     (14443084430956549588659367641273528370353783782740928986766626844634650408487,
      40985872620517089032726712045624733953636406315422604483916597713210708133967,
      36822904780169628936494547173940924668107394787322029492402641370051044108396),
     (32439310879054851416469492634174468287917792823916521075011772673739405104979,
      3547142143128551810973458005220688878164255476686216840087211870774759731378,
      39668821964023820720443072758604854567309938159940962071824911963147707664797),
     (25536325049662909384565043773751922868346237107333085459076934566437964202073,
      12772575158048500349487260263939307723688114546773794200667390317270405981002,
      6047370399931122658931292226760311808304647069745619069865922705418565602478),
     (42316598777827856202847032304408301934376271191935521211009874216487856369907,
      13845158851660443297188331230078931452678314491367257000866835308144591757,
      30343161706607381642532109411384477801441124143086004403584141804150339045881),
     (33174364015509957735297600843593485805310060955272785366466948162357007558855,
      16810439894045052574530032261120828567996149537597899333752995936916903983841,
      52265936499878656502974909667203514409241725170796140689732878838603126448104),
     (46773306435711631794726723866133267286239584300745604814495258885081655529558,
      49719117039379561960727064122715192776237081035466516337350557383074067935231,
      27500099294777621492420566250880490238911805707103511356491066454712171053369),
     (8554300719362861572066305212124797712270304312694761205516806511965169951829,
      8637115891484814864788369266245142551117964664520218485355214828264014235985,
      53487569316966060769840612613997752330090631713661822927445933862859535004536)]"

definition rest_11 :: "triple list" where
  "rest_11 =
    [(32364399508626710899416853671937516916518441965696484319950818283868609368731,
      5040935096316101636470438701185741236436715863683671398107770716543173862999,
      16650479866627559743550722186685945205569659675009680498093300156986995935075),
     (48730502736573766327320742472093931472030717953993328008002161838994460789109,
      37268943610949337775671098878598508810882793289621511950706282659034249070262,
      2522560971912085342990839749636123880388890609482190260151796311613262429624),
     (56297996893969707610871067331604571443081171123708602659922814047193196201398,
      1651466092629576823795517277661286170299574555301276048970089213918242743453,
      46105088641575445161457531075299094968518831732974604488250615785717973167435),
     (16334867078389064885109837060467176931969929372189737577955599726276904395315,
      6451277858413706921351461060238480843995938592018322958137771311960455654875,
      37666898459792074121912709118205240303283424450107179531772236275927639227635),
     (3451681248724956125404306134506119402031398338084969228439151311589237174436,
      45103340189645008687377119205687495755236823628386648868825446224184048796894,
      24652356926621979107043977195246990544875624665357049363642370775129622520938)]"

definition xy2d_11 :: "nat list" where
  "xy2d_11 =
    [51967296633057552634562772832257678922046988695490898018368777076434258790024,
     440388839717671713303548485964269219707467680841327350262128638116755142629,
     12758627915086882806602622111074157520212429102962903284417876229454507334930,
     2773748226581802518971979195469775636656926904151111434408438923009122821402,
     9731513902723286330878632820307511737128355923783456725103354275196697749835,
     3441977141688987893661722805178266288364600850133351133578559918930315896845,
     36758135662363521121267190264335410215601720965794361523525726559512712036787,
     54141300935566969612522165659077718047880846769369646518760922344386421832494]"

lemma row_11_sums: "row_ok row_11"
  by (simp only: row_11_def sums_simps)

lemma row_11_doubles: "doubles_ok (last row_11 # rest_11)"
  by (simp only: row_11_def rest_11_def sums_simps)

lemma row_11_xy2d: "xy2ds_ok row_11 xy2d_11"
  by (simp only: row_11_def xy2d_11_def sums_simps)

lemma row_11_entries: "entries_ok row_11 xy2d_11 ge_base_11"
  by (simp only: row_11_def xy2d_11_def ge_base_11_def limbs_simps)

section \<open>Row 12\<close>

definition row_12 :: "triple list" where
  "row_12 =
    [(3451681248724956125404306134506119402031398338084969228439151311589237174436,
      45103340189645008687377119205687495755236823628386648868825446224184048796894,
      24652356926621979107043977195246990544875624665357049363642370775129622520938),
     (15756801480033533000436438998988043638671649943519845201810543220041725235516,
      53249647316924474924764553206973140789479264795143211720665224465792826909332,
      1024520674271425413695944350429882723800344693349076059873331938355204219874),
     (44440916243623654813196625181418591040528612902186678982718949176108874547385,
      30704408044933336248267902861681307394716900345009394572633209542762833809820,
      313945099477102237619637464381897638220635519384675365520380789512295586513),
     (1657642902410680979185778983970883571334443772437747441707225992473817725874,
      13181841549110855159919512279783325840547157315235750495635063425349232964587,
      23946095635903117966061329899281447685939308952723481413949215631700228498175),
     (1224134340757965131163741168243001488498711245882595056506733627075133248356,
      22785851986130116988131371492606015709462635997931021963575071712110865775035,
      52441343406526555096390513338751876170225526594276597379371506337692637618785),
     (15415763940067026565150376945147767989056188998832090300131269342076864391508,
      20224114555038773758328667742894897656134329851848509005288530948311422448008,
      55229636598968564885099644054121027519191446335846600107420605168203395170867),
     (47226954303977824279015135365200687385856393548721672548066108672547954947468,
      44321242324127141208161485302311265456056358988767397337360352541062405988900,
      25315719631091200822319128023771603735122600992117727834872609111787132222783),
     (7416636603008590397307522481702996285995260977307934364629635910294808658240,
      18644624671334305740764735802732794703876461150661175072230055477676066792953,
      51418917471824129451564790924022114115095226526239451069266887761781938985290)]"

definition rest_12 :: "triple list" where
  "rest_12 =
    [(26135278318867212160009877132759729477683821448533088453593545567162306742068,
      26438595769799614534171280426746668914667059326668886443774027154481945892503,
      23679304008786013174593864221465791000650504154719937536728250263517008675026),
     (42363118222225576852150967470876969773177173716850687553237061623958791951450,
      55954407209457526793690411706780560375786115013801438265594667524299894869181,
      35415082149637092512613604651830263241342781373593701695154743122360039074002),
     (41685755285441343534555699146164460473739804412644429165592581933281107039532,
      12339900863810792922652965807427786040792475232367501540178739227893090482169,
      15148390243357533438773300007386624547191534177504239187315534952116624603095),
     (41936275459278513892028662869335319825667417788472248668580578659898212719895,
      14115791234651454395533986752642788355257831724545871947750268436768458849437,
      53354639784015684100648940332749183751726460185285062728054583946822550543049),
     (17050802196709616403451826406002316478412621982043150101367430519877804608237,
      52203088490620088308042053124240008862847193975950073103887513132592090740924,
      36636193671602944117646614036015878176360673115118140923622120363238179765818)]"

definition xy2d_12 :: "nat list" where
  "xy2d_12 =
    [28297658592470300655303560295180875926238688072306165652922367172486111322056,
     4079321919088451155970934217257812130278932260953966036494325850329458790806,
     39234047837535946933120500347005935939694720814273465479239074552640111285664,
     30620135049508188460763188723509672297382823174620355808252175549280309005855,
     17934878317772159459703251849692635162692781134517689976419273380857793056242,
     55687407906356314834157785956404136077810055735313337975029750174690426216912,
     32028163196612385717047854050109193046872393665088466084927211248292476754042,
     47778366753236297181352475211256767642049858902999256697989242090595700182359]"

lemma row_12_sums: "row_ok row_12"
  by (simp only: row_12_def sums_simps)

lemma row_12_doubles: "doubles_ok (last row_12 # rest_12)"
  by (simp only: row_12_def rest_12_def sums_simps)

lemma row_12_xy2d: "xy2ds_ok row_12 xy2d_12"
  by (simp only: row_12_def xy2d_12_def sums_simps)

lemma row_12_entries: "entries_ok row_12 xy2d_12 ge_base_12"
  by (simp only: row_12_def xy2d_12_def ge_base_12_def limbs_simps)

section \<open>Row 13\<close>

definition row_13 :: "triple list" where
  "row_13 =
    [(17050802196709616403451826406002316478412621982043150101367430519877804608237,
      52203088490620088308042053124240008862847193975950073103887513132592090740924,
      36636193671602944117646614036015878176360673115118140923622120363238179765818),
     (22573647065340699243320992404744280641666553104019618788389057393756430162640,
      43744013194210237770675985085980306992599423881353672810344758870573299126679,
      38387645297618071421028905868522985352462026763941086645312844186237021528923),
     (11913819842656967474321100739231016457069267572181532889836541172524244110418,
      46408704785010430089430157331749708437756204194011099043272805321015644274008,
      40390951984343886287777949956774932845005700130160428166428100459655328152354),
     (36520345722324076610985185928719706425140626294046643152997554760501764542592,
      46574175429131291097669420260105784050079243965530113979009886462375548412345,
      50628865831626166055690600208018912437155937496193206258207314359151910158224),
     (26337098982976705886303777421963936910791435853525942293568639141339123599514,
      6509679330888371759619182018875260324098564977301679400818035329191622349437,
      42959962219540857435359511820169773372831265492942268915247711066287371862940),
     (36457576209297191189783948203546239530121394583105015122929077937334640300952,
      15513775838405879491189371088024770907731279942493584615198249675203423501849,
      31842720063093230345796284609135221907745965672154215920297004294889548623802),
     (39525195698761792489520470432465029528341483267007663756624662941785148166884,
      54297948675728140644472591065005055527219321824171520056214734149289071271947,
      43028803709991467288643020159276196597738698366576494423482035784609479042161),
     (18920913643405533656738045503765165168632395996461679378446089026893528864064,
      7424318006592320563499006472713913822931081011006121230596605644930894388125,
      27741676787034703937949331671825913091391749288025144978741781515771689053047)]"

definition rest_13 :: "triple list" where
  "rest_13 =
    [(55908560528115313337331192079572976987930751259182231978092407972406010699860,
      47349562114064199049455505554885199492921087886151761769310924232981104345321,
      12853722683959906444215119210500590759198429477840869949251574881544040298173),
     (24470320021653743288553553922194293610598963554618716086300327973575442987602,
      48629386808616182719844028849663762289686733341344123443681278045224005122266,
      27719067006172598441730388128591408827955851751755253642926963450065072373947),
     (17657945628621291754587269042775545983098884255332522933504015958020196600278,
      9438494402160282901937930369681759573700187954581341631581855985215670587320,
      26310954262919542310374738608133518436462602844302074219072269574311859972888),
     (38460449615910280820790371532023959880302718778121194725079464555426341357048,
      33007988241098964107613687859081433524086423507854904238311567619436896863889,
      26956277789974972190649070444068393270446152997782182487026274560339919640863),
     (21827233379012888296051888914012613590110693258949725274094908495019489738908,
      18908477589526918172618421073119973060626280661432570456189083598373220046227,
      24957691222737726914227537654498553051076185023956849213846154228929844613786)]"

definition xy2d_13 :: "nat list" where
  "xy2d_13 =
    [9103515523008784562695423184923351107613308450210777404127932226187352893540,
     38812541435861490770655985701028575093438945430707955995503236971241199250255,
     8941153069618605051482433710346069178571866358541160236645708615375484996076,
     13494103053668598903589791877311297549845491731244982658545242321910518243601,
     22411665294546784562718747915031242875366554293809289025569168673557207139879,
     2600689399289121054568854415049079709889840627776391901455100499738077242857,
     43401000024929860870443748577085362889392788972970373030492181978042218786911,
     33788371045053549569082616380973010795613804317075653702296435700278488159184]"

lemma row_13_sums: "row_ok row_13"
  by (simp only: row_13_def sums_simps)

lemma row_13_doubles: "doubles_ok (last row_13 # rest_13)"
  by (simp only: row_13_def rest_13_def sums_simps)

lemma row_13_xy2d: "xy2ds_ok row_13 xy2d_13"
  by (simp only: row_13_def xy2d_13_def sums_simps)

lemma row_13_entries: "entries_ok row_13 xy2d_13 ge_base_13"
  by (simp only: row_13_def xy2d_13_def ge_base_13_def limbs_simps)

section \<open>Row 14\<close>

definition row_14 :: "triple list" where
  "row_14 =
    [(21827233379012888296051888914012613590110693258949725274094908495019489738908,
      18908477589526918172618421073119973060626280661432570456189083598373220046227,
      24957691222737726914227537654498553051076185023956849213846154228929844613786),
     (14613882835283214038878983598955597428045276937450304461079441468633252884835,
      41571788042841202290338899197942030796230516339045080200904489370096453676391,
      20439261466014215628313358098518905175773860525792610927827763323976154631129),
     (16333393865286552695125949192364572239672278970665192931475635378095448925274,
      27950457111479979368672653177142771471214791165378960902697689752654287607157,
      14335991054263104335485662547421707713315832716049963597805565352201779333893),
     (2187942967721426849660112771199354899653686745404319823795125965809448653006,
      6152740787740714108469327111982433578092623466009224837811859025378599434826,
      49759444190365714610724870874520649857697223625893036537195928645739720227943),
     (33736517823584404399059101676279552618085743187793320592784576821012330916427,
      8009202637913380203880192393056395750442146772789628935888199141083504009109,
      33030512728416886418482627209101341810385979706142167866935092076853832066292),
     (21829056582099443415701993421605234994442393375224537601156579477321057897327,
      52462748891825032534667424376636530105351141648077381434967835151012454475140,
      18348661522114217566492296907831359231626950540093112371531117863721238025465),
     (17082138983272588118191470640409033464447116895540887877568373992555044318248,
      44023337580527604937271447510237247950108265703563243046570053015408587094478,
      4454048396403375065282162208892510628824252463045471760045579889901882974344),
     (6963489772333744532097687373421963437749379120843003639248519965226540157465,
      8038965499865764793545706460907184746719002763070799624483284518079640565619,
      27952276740440744694269058271023162748198606220371059456284239973005396450078)]"

definition rest_14 :: "triple list" where
  "rest_14 =
    [(10900974192870607829506680138321804199832223736972419587654320297717013979204,
      29127498398513059995201066728023877036458859343387648328547598024354676306984,
      7403640128290351551532249667650037856164489360480813169033017416694991417779),
     (54196495570350908130021642504342204676574505042192972847049886452688053817045,
      30960394061703469359134176601206492187446853585948505493804462451446073650241,
      52917992194965167782593564651710884685884707859444354329851985842774593926830),
     (11019345097139622798046187073698087066922447256226608826017397481896212846698,
      5820588615245511894029881504402697299026606688306343668786589928163656000629,
      17237088545837022781079772376687717901883948506034963540491392625247432189832),
     (18425506961570116601076841601121607329149390959536277088383869194530120247554,
      24407579601905941680390411050991728340348529633567968510055614570053217688801,
      16181450577971046324891636479366430881493278777376409059130084291958318200685),
     (57395309720386242646754846189974251205032425858971487761196482955580035093129,
      45053854337161548003772049549845281962137326347197926600072792067971101755950,
      29636579879480415282099702447890787666754884196461228558306185807012186275276)]"

definition xy2d_14 :: "nat list" where
  "xy2d_14 =
    [7370826343192777418029371923679714313465827837761390972725748555304402346312,
     16935195247728249836970155018542437983834424979377508745645712351059457585273,
     3735217287627959901146199678544127446235915277288932826044489771200171371690,
     33687252402094524114131595312117657102470687313102135967075104063098932016597,
     35866652425338433390311007382469353678561155750483270407528619149526737158102,
     25609482299276120685120622040653318657146024758977721683247077386224490228801,
     45785415964771744884105106760687734638714290339569160766521324440507169365614,
     34679285908232973181684355241560006158309275789071333826186434730086434201798]"

lemma row_14_sums: "row_ok row_14"
  by (simp only: row_14_def sums_simps)

lemma row_14_doubles: "doubles_ok (last row_14 # rest_14)"
  by (simp only: row_14_def rest_14_def sums_simps)

lemma row_14_xy2d: "xy2ds_ok row_14 xy2d_14"
  by (simp only: row_14_def xy2d_14_def sums_simps)

lemma row_14_entries: "entries_ok row_14 xy2d_14 ge_base_14"
  by (simp only: row_14_def xy2d_14_def ge_base_14_def limbs_simps)

section \<open>Row 15\<close>

definition row_15 :: "triple list" where
  "row_15 =
    [(57395309720386242646754846189974251205032425858971487761196482955580035093129,
      45053854337161548003772049549845281962137326347197926600072792067971101755950,
      29636579879480415282099702447890787666754884196461228558306185807012186275276),
     (2148571138464465300688819913367348205936063895674349956372429816811444650259,
      29053280061195524822332506467203275624462462109616729264371553687702729349736,
      12523536831186096802893593362585330526670308684647239128483589859855316668981),
     (52964629332132736180408281687757844018827908359161337954945758898817828942616,
      7059445699612446505562391998507802533732761751565427394004479804342455745524,
      40882849927755559903553409010544605607572665475820975568732101811594951412242),
     (4068387433292871160387451372177293394052594126080585439076277086677246174896,
      326173228731775980257375525653762139269135242676715556292829149832594345800,
      53863913291457774771355431385651410039065735727691368288437549462679010561486),
     (49030967473513631966479914884452848228230344046822701221766659759411016827593,
      14686752640617727957740574008513279264329522201164121539804021955502855013400,
      8755581166633631642840964901048115637341996809115025238697939038044495782226),
     (13925684291662861052310812785720783368148059580144983717690167495017303733684,
      56121063548777198593588121281692786192340008652686873543863740053941355661421,
      4592138793872742577286320380246073662885771613053764616504191247796916423851),
     (44203098534624853938196033382256519478556333427697914728015344652799840956486,
      16553879936954959225761579614109718073488275212237376681031630490959741312242,
      7614430678126788328861313860171036243243393292503964814382466126473057284185),
     (57345278018653071100864846553753370672565170486688702533568086568295949567446,
      25059924645356220231384415675142722405150668071478679522915757132215578056259,
      13468400833213812296680705840853431009667184830261841475620072637647029573185)]"

definition rest_15 :: "triple list" where
  "rest_15 =
    [(37583486322670922385075650426941623920333460018406542018305976867658902089840,
      27473891086016360242188172993954430383857498731478941302716607143545663554916,
      18255101934628605761769342742284412481089838669078500972767482623161019601001),
     (55114361871029474583791782900429903947017484378419434410898145812375177598775,
      48881569455427526330309077598344390060411467144275677227882526686965354578365,
      7994309954944666525880267858793700400181733548647114855791618479818808342808),
     (2386219325892276317613181682198878642484654272120126591129717828453063674239,
      32171283028294928957618712681864902579454458872470737206281973259095949669668,
      45134674399273583889515582215771610959825646651081267613688742564909177204058),
     (11064828440827513439192054732080206607063733165148357433430908542043450520071,
      42449541200173318588816647462408876714678726888269655963682424126372307544782,
      13094050993930758563056409953430150243835560325532642474767472255720032801887),
     (19598377658861224783845010894811287771959579301160358177487377480285833498274,
      8602625848320914101981327737814350220059964367615824096981864165998591852103,
      10186894468423212868266816172097536454450851824240841401907572069946752290344)]"

definition xy2d_15 :: "nat list" where
  "xy2d_15 =
    [6726892234772834393753964209108218542932778426015019828481907341953122542019,
     24134586818014776065004532849968392597200767138630279372624465358367029091576,
     32459679910422073271814382510984648903123479773226854138102136133628108696626,
     32213443167318959601836596658801760362746564063779367375501241589888255453904,
     52499472668829983167754656142543533925438827919795624378010220503189606138380,
     26625561526081476508188587494874865481552443121799776062503702282797693685915,
     38955782613106806920629358372575433443796841730857271497304067351609179738153,
     49604170177600969842065448714158641061295302784479819895904220888323481284295]"

lemma row_15_sums: "row_ok row_15"
  by (simp only: row_15_def sums_simps)

lemma row_15_doubles: "doubles_ok (last row_15 # rest_15)"
  by (simp only: row_15_def rest_15_def sums_simps)

lemma row_15_xy2d: "xy2ds_ok row_15 xy2d_15"
  by (simp only: row_15_def xy2d_15_def sums_simps)

lemma row_15_entries: "entries_ok row_15 xy2d_15 ge_base_15"
  by (simp only: row_15_def xy2d_15_def ge_base_15_def limbs_simps)

end
