(* ===== verification/Base_Rows_3.thy ===== *)
theory Base_Rows_3
  imports Point_Sums Base_Data
begin

text \<open>
  Rows 16 to 23 of the table \<open>ge_base\<close>. \<open>row_i\<close> holds the residues of the eight entries, \<open>rest_i\<close> the
  further doublings that lead to the first entry of row \<open>i + 1\<close>.
\<close>

section \<open>Row 16\<close>

definition row_16 :: "triple list" where
  "row_16 =
    [(19598377658861224783845010894811287771959579301160358177487377480285833498274,
      8602625848320914101981327737814350220059964367615824096981864165998591852103,
      10186894468423212868266816172097536454450851824240841401907572069946752290344),
     (42358850453650065889635398056826431689538149690374728044470728175627769415630,
      49214616977899862322469880599614825738082489444556174853237268494629968889502,
      33974669781364982593445168249083186604634887147240416654360619790528881201952),
     (48385487438128254996699525927577029456907952722367890843478930305300776799734,
      39559994053825367353652989801205660682483070420505538516279738614821870321256,
      41927082799064518840089490747699963664232365755053750773618353623222269496750),
     (51581966452853900091756646973557346059106653709384595763318103082387283820819,
      20828606023908711315162493421955207907513746372017040415369590152949798104301,
      46175028634404214492202122034006804775097763914534394827607032764790314239968),
     (24617950149360397442640569612647962565786050699669250948481491945834067115758,
      15408707201160997253620404901486325913203048277915352724016600527713494048941,
      25094385319363469313176096277990381293036506197316209453067906182502725048819),
     (23836888780933463639375881011427656528947247674402163887162033332362261991406,
      54830092141338595816423396439963958968410593929160852392345055156201544099584,
      43909385155640362798141675137439931362743229451625708900291044201580153574858),
     (14209414293385567697413008408646601360621030607167664879154622856365570723512,
      4064150610133085560494396707845459774778340093520806344926064787847884071323,
      52672716619770863106229376743236935102648182708498845668982338217091842496416),
     (23664441271309054461296385012238166605233939951462421495851252068162842900024,
      30906604324974005795711787063961077428212762191009810152169842161441877937748,
      10196627593524357602507459018993438538556128697955026444938080033206193272003)]"

definition rest_16 :: "triple list" where
  "rest_16 =
    [(20816729283658675737597874036244755459432213712673199674477249282347378100896,
      2827949606557303530010123966069536093977590432613525199209174913470026768421,
      4950273226402745905795578393009061096342549048759239720811471421987777768558),
     (36511472298295012127396655300198627608903407811442367844317986604725477306880,
      2049459371736403135779843290437168998981580157757276183787500159891340169366,
      3548567888261774708524543770437516315826248459732560171236427661187578782378),
     (18247548468777541579077707199359291630115284164425204758606959352497720204546,
      55853818989352991694607642880542386300394405856725876217546564011271044744392,
      52707090328441444223635761215183041053918663052476196183988854261386408113112),
     (34070137386085787140935864285329930047141558283481057533817158218051891634046,
      3928786710474104009979167246778220749017877503289432662664261553658238913134,
      38349016428164569638143544117467038214768489037720419813617958240937290509528),
     (10775681741488604035403697214091820742439805124403712140159572163661744435310,
      14799944979221577710774748248485147375341892559739800427657996590313161369756,
      33071187545072708203361325165197588899998726223235465438180596511262662876926)]"

definition xy2d_16 :: "nat list" where
  "xy2d_16 =
    [30942559212363234812595554070815474796498884287982536881367675299020161195262,
     40232175707683650301975749701477663824140238404181442186427403402071285441226,
     50714071707794461408227191109614507820614087751067786611292803711762503739528,
     6607322891285225414774486829700593932970115465468887489066060016494261066293,
     29583458512608500016175427767720597889820895734504066602041203471957649820692,
     7899548590076608964101170338851544497815511386649722160626389275225603823308,
     35816950881593546499613928182437259839509838771386966334082232436584874456298,
     7563186585470672587344019619584875020188260150552878434634475363908228644220]"

lemma row_16_sums: "row_ok row_16"
  by (simp only: row_16_def sums_simps)

lemma row_16_doubles: "doubles_ok (last row_16 # rest_16)"
  by (simp only: row_16_def rest_16_def sums_simps)

lemma row_16_xy2d: "xy2ds_ok row_16 xy2d_16"
  by (simp only: row_16_def xy2d_16_def sums_simps)

lemma row_16_entries: "entries_ok row_16 xy2d_16 ge_base_16"
  by (simp only: row_16_def xy2d_16_def ge_base_16_def limbs_simps)

section \<open>Row 17\<close>

definition row_17 :: "triple list" where
  "row_17 =
    [(10775681741488604035403697214091820742439805124403712140159572163661744435310,
      14799944979221577710774748248485147375341892559739800427657996590313161369756,
      33071187545072708203361325165197588899998726223235465438180596511262662876926),
     (14086495495944691721987877187254135613266131758303512973933436376071708289481,
      43364229761334447554611623777519839207882870078247168396951728827878745810579,
      47000856633703023588140885754825357650189814762916359090104943649863512194698),
     (51636974436631039814879923458118776242018549479689664058240925940036997266214,
      1428014412064270226634689325583821539745222681566431360618556812822929969366,
      11660017546444039097857125799608260520702493290484851165836329870796647050620),
     (54643540239291800707379868991755664837711337911073292807358298590720824198480,
      26121154034435831082691886965166653907488193313094523179596822130474102835546,
      11490721408791627162990982518597184274790992301095697724703685437545618814736),
     (56940023937806146681054390487514166414590862845312224011617928491041620363309,
      34983373571539771314380931669861149081390248198685830043275961823644085483548,
      32951503648200370696618859154886864005719053041308853593776306355184868896176),
     (31817511570104381755844765891667953504494002826982102436417080948704408688650,
      43353049911207509238086053162615712068422769787734375745409126080845978148503,
      21737641747663152977304886755796588466367290541160672531935741944521705147280),
     (22373765776914035359932205059658011218205073173322587651938301825050553450901,
      26837238024558679071131742848135021880184579295450908090513515120396646328573,
      43152919792426245329294065061124803493519245500983902205426134110807120503478),
     (16314077194601114594361742772411055410812106372697822932689449144179564659981,
      8264260176966981054240998843237722696269428508230661672246996244383947239295,
      23629248110125263012695283414265161533732957309351776418138493865562430557984)]"

definition rest_17 :: "triple list" where
  "rest_17 =
    [(55989946456375606165439889472714594603251474029621175557852958440037431409651,
      4852155834875781035877814565700700976527240076930227074072174229123474226148,
      1885287180447010702576460135043396014126050389795892261227026047251809483014),
     (15909809889005867367524421217021395611098073719597511194365816539458545952757,
      52519748445570161924676083189383330091158973481611635475076288369743788279268,
      34335905849771372821428430589168779725518075942784757274779052872888967280514),
     (6059527188866542658016599743332346683163647449751212243298345282584149418412,
      4288220273164369139669691076631629742933809433970265176956193674551524398836,
      11872323794986439437564695956797954604663964901698647176034371652006294172481),
     (33490582160136352298205960007176785250765553184288324526103394337424832587710,
      48143600437069407810929624971159813590810271814525586759515201515080337562413,
      36314749454520819400784135417466600837866578595748443706150217160007763925219),
     (17621641827815800103912823399230875117460115893101929584162515517753600019731,
      36316930355158784065118465192872197832316813601736090157251786731574891515358,
      43806658591182833915358713851964824331021118090295824968598697690140829429974)]"

definition xy2d_17 :: "nat list" where
  "xy2d_17 =
    [51622518620151747173210018113341496704968389474850906273730158550846718033514,
     329431519066973326052485291368324852702715668186114841888035544867183855018,
     2659390615314084910803836577785302631183188730821216467100283665817468188985,
     189618779146081364298486992681723579116339694068437570989598979943882595688,
     48472680947372479360615849788833640795315036817203558722250314377888910368459,
     2578134706650352371638213828150473280773292550882571281331803318985484690137,
     36072790460307752326002300129805223955998717096029913656506326020479442080898,
     28732595254281591632880446608024050985319680939406314429508991673896605610932]"

lemma row_17_sums: "row_ok row_17"
  by (simp only: row_17_def sums_simps)

lemma row_17_doubles: "doubles_ok (last row_17 # rest_17)"
  by (simp only: row_17_def rest_17_def sums_simps)

lemma row_17_xy2d: "xy2ds_ok row_17 xy2d_17"
  by (simp only: row_17_def xy2d_17_def sums_simps)

lemma row_17_entries: "entries_ok row_17 xy2d_17 ge_base_17"
  by (simp only: row_17_def xy2d_17_def ge_base_17_def limbs_simps)

section \<open>Row 18\<close>

definition row_18 :: "triple list" where
  "row_18 =
    [(17621641827815800103912823399230875117460115893101929584162515517753600019731,
      36316930355158784065118465192872197832316813601736090157251786731574891515358,
      43806658591182833915358713851964824331021118090295824968598697690140829429974),
     (8525377068490979898449015725507982804658825084183726431934200147424536472285,
      9103913121689731846032762346534360600243839068306074530590088360442613976214,
      55761444944347650356443842015473444890140231382275596991583314114638907195270),
     (43396537265463896345601537369929413680346842101592965372770353422361960146609,
      16105412593087454557317002832301881914536413966129630752002937306096074033489,
      22110296001913035434072535887075368393272821160952061324871325495812579600817),
     (31289081145325177665125145259138199340073876592894473723826986223032487562377,
      1206399543861676383857452661126865043602325141423385267489704971211644656572,
      43396971292814648851772141613426138629307378694319788006777014064677655193202),
     (41212237394235837943003792631322263753125238742948497230106137442419835793170,
      9364966979750943375701483164916018049960755100856153412393552204436980069886,
      50794066536513573974140924326986633645295130279957431583654010062330245355613),
     (13343911710383071650386103251319941486727188160695674062959148776209444546305,
      26422992792196638637491654554993083892056482457292502155594665554943706898006,
      31750830802861759414792823802430314924442645055248240052039623236321864195737),
     (48691041226693943763188068759595903973575067366328048197681173350311052535262,
      23846529213219182708070606117248493046679218648452782178893120376452035316914,
      7287412965960530033679948950829623520920144435459424797555178298551739771233),
     (12755242548635748920811687871744850490098800085655910658205987754758903389941,
      52846306630498159024992125725669005346338337905807305595461816865935549063040,
      4301659627786008034655804965255230855012649161952748745737219864352254331403)]"

definition rest_18 :: "triple list" where
  "rest_18 =
    [(17279665776878985509061503287402832131092299927060323084736802279902406091845,
      3306260197984012910550852117722600455708043411683630074616054469981948222071,
      2810108409770101981898239783043150326459120148499818361542641437435867587693),
     (1603252189693514200902836888633976284020425251894517618753390580396146059671,
      25411064537158601855213970699620911270833333634014082500972018180278739139406,
      16824400886527630365912687018885605058536905702147745970997260124845717784391),
     (20600504367505484203057461901161784472066241766941208779371989666659434493518,
      7098305492863900506006884559307921724217379589603282693945235625946394799753,
      53397975904301056892106450827131161657948676800621277311713651376625509061887),
     (40942007598391606525189171542550556186072591535757963615424431466718506100027,
      4290193919999827367609371556414440590369856465845806411492607867449813086531,
      51177255248557451911617669520293997933939650283556871218031317971161570578924),
     (10508943152576879413245573085453524910451842031255108680837789725635607049744,
      42307125179916894122386605598050472809897112684365215316308456253873185423817,
      26167801329320027920616496621375127301811175861559226693361779961648882294137)]"

definition xy2d_18 :: "nat list" where
  "xy2d_18 =
    [29063890488166339086225619435816982634387574898318310237213124376146794246065,
     12353036812962496203749458240950541846231538319541546286518482396591917848911,
     926396675279109900818416679023818455098468439648703830885427985202124001384,
     34820121145040469786555372294105914336404776683208038497550224771196732864479,
     21528969863190699717435594993368761735923570830509177616243428191717177335590,
     18791391051538340766952513995087921711005254579083189981692107748760441879642,
     51489759902423377004771156771392168733093212917385619860515775336805359498037,
     33887769679449071304122000731747932895922067066338617528858276279596896340609]"

lemma row_18_sums: "row_ok row_18"
  by (simp only: row_18_def sums_simps)

lemma row_18_doubles: "doubles_ok (last row_18 # rest_18)"
  by (simp only: row_18_def rest_18_def sums_simps)

lemma row_18_xy2d: "xy2ds_ok row_18 xy2d_18"
  by (simp only: row_18_def xy2d_18_def sums_simps)

lemma row_18_entries: "entries_ok row_18 xy2d_18 ge_base_18"
  by (simp only: row_18_def xy2d_18_def ge_base_18_def limbs_simps)

section \<open>Row 19\<close>

definition row_19 :: "triple list" where
  "row_19 =
    [(10508943152576879413245573085453524910451842031255108680837789725635607049744,
      42307125179916894122386605598050472809897112684365215316308456253873185423817,
      26167801329320027920616496621375127301811175861559226693361779961648882294137),
     (57546941200806471932675080502384031751366624396347462781894051271145705636691,
      21937837156909469925727462933418638261854673883912212788172496871104710078243,
      25302922912583153529472322327357943325453680579516011375774127075912615279570),
     (31699060218087752520170872798913339890005755134531897327085847947037879322448,
      4781227059573225284604697489163193542871368968607052731842210520136535913395,
      57399119431446906022154215232623114200869627168120246938410275005029661175722),
     (35578474906548604629322190492535986744927873230022271446289473297853740483007,
      38987018648555448538318895726012621102036612715964140705152860371629754901156,
      30360089241516090784107345143347996135405125533857952696652018889650865607987),
     (38264887459368654626694753427724812160935054603868494144716846769297400466309,
      29776478676831618080099704554352984161634370130915696730083799447424658227462,
      14957482439221673279774425155868637721532853160629100620489233428529494360535),
     (34811695555814935709307177925886867804814702667583826475219434717949432849569,
      4048238751973100694543040549903249343723490551325768775838298751506687079079,
      10326119012534586871706193266003096278961115759867971281377469514366195621132),
     (6197932999954580532039155045230697784455161010361363499986261193294234697630,
      46097849124561901146394333879622176990329029736566790489581746741422151256101,
      29582226214364104512221646133337934139507908619839870279162827741622335659276),
     (24794464167259393807969065207870136073961627259981535987797697100423267055967,
      27626836995356306903537599882234822642491401426514411956752653356194767091874,
      13110794530698305771349729142967385496310445148406971886357265288772491362107)]"

definition rest_19 :: "triple list" where
  "rest_19 =
    [(18388968933670730423038532679662466194727041094044865682447630165559128990185,
      31366969531515944374680028337748424705468284538110937420007479319937322716490,
      25207648011272084971935161445504647248022658199446086397083502221366257737895),
     (21926981049716112996977877809627457639611289691445095337165325461747052687645,
      7001130238901181337406480340068232848747667334478599866866138006533212958216,
      37512910648243283903352648697958863989461036990327661570950255022144363752232),
     (39928331414003193465574104541805305912561569898010815477573106249439896683471,
      6928194428071063405693926470819083986924596131671323649974629715273334255241,
      16183533887703213720160205915553322538679906057881642527773699034064747595551),
     (2004007499212568899640847024972257222276518915814652305359330117853481912562,
      13760699813379818001621948699440995358454632119560173289455180029817859405708,
      47233617581209566739224056813248558799783227957906018861387194404253963083174),
     (39617146015435595580198969827343948245008874692757989136124361602289538641745,
      21307243722378927125549305362870788504399158938616244373229681556292363661020,
      7875466747375102745163550867647729051238047986481610699545782246790754502784)]"

definition xy2d_19 :: "nat list" where
  "xy2d_19 =
    [3112833070020348694674632887612813409140462914353524165671334222590222299871,
     22080273457681553520362818646421761855388088385762219204684675724091559084043,
     27043451990373105990692289376759402892308023952083784575741845461279314649134,
     16647296463001095504758888386908190189083714518877676795879265537553158820354,
     33067252800873868663304958355534823714930634271860246709319697323427256736302,
     37565449703027449360245063872371237293824956496362421713059464249556871050173,
     1196018105494822407126248235083421807058786771135907204787169608376078918499,
     21239430982072275512147208968347070657977425329783169869598084393962556441943]"

lemma row_19_sums: "row_ok row_19"
  by (simp only: row_19_def sums_simps)

lemma row_19_doubles: "doubles_ok (last row_19 # rest_19)"
  by (simp only: row_19_def rest_19_def sums_simps)

lemma row_19_xy2d: "xy2ds_ok row_19 xy2d_19"
  by (simp only: row_19_def xy2d_19_def sums_simps)

lemma row_19_entries: "entries_ok row_19 xy2d_19 ge_base_19"
  by (simp only: row_19_def xy2d_19_def ge_base_19_def limbs_simps)

section \<open>Row 20\<close>

definition row_20 :: "triple list" where
  "row_20 =
    [(39617146015435595580198969827343948245008874692757989136124361602289538641745,
      21307243722378927125549305362870788504399158938616244373229681556292363661020,
      7875466747375102745163550867647729051238047986481610699545782246790754502784),
     (1950103029395058791374901457448162556473160291285922570693941381770074035992,
      57428051607873191063471402594153952479320937548407046052682166911936461920707,
      5979578472089814223741734522774648688338937521070533950622579011355147211283),
     (45531098528899205443642466263486352481549181295267350942582034337949275228090,
      4660966385215079150479708479155646403320850887850878158241767050550608991208,
      22570287784183234069149734103806491727814425306379469397929447947506023982634),
     (56273616363811169895530662344694145491338023097971425937846804075699274597425,
      20007420324682690318814040859791879826605720309013055389632876535779089168907,
      11380164240149372650533722143749621389250199183329056932270922187911562354030),
     (1207795283191252966733309153387684899343504126426808149219202638649314854078,
      33156884166496720311355433673744586679809960696141234061471367121633466762949,
      2643237104216202028817503374427112565349335745962245893593122871014724885815),
     (10395290322260315154510620324399316161155797299418139917873352481741976642850,
      4924561404770687355153944551909891931038470188601701810683889216943960152468,
      24792293202734283882074581832769280719236056147814293186785793060993190466321),
     (4897498707819437997725535309933053248277066291355096013609630282993307732004,
      36328251228895320529203832833227659357404617275198982911738604683707972956158,
      6087257882572829376109441698006235263881952649230750358990606153101110160792),
     (35662292902561940479793662881921429256192976036385991077250516415610990213492,
      24112110049888802558853693714399673241547242656397687459145660293202641975714,
      52544509267452510668405730948722283020052132818501007088939236610495611897399)]"

definition rest_20 :: "triple list" where
  "rest_20 =
    [(15669390887261996972541097573251699316363194991460993510930253774376039431216,
      6481441604434674251722151301237027149677047898677253351625433079023270820732,
      11033378704719139160792125479398884976147178985661807098185093523080074875897),
     (2722968881390638976469219772442544614751530397103130960257335824061931079737,
      9417721599045751748513382216692679512054964631246943476749673742477908188722,
      5215129284023062044673007411110228602449901639661028023492946998991461645594),
     (23427663464890778024067346444622556718943200713457476888478104769170624042391,
      44457564966178680015057142836551689365367193763011300229631294647466358217283,
      3142568897367136101369563411889340975841876418192976714865641051133448155138),
     (23578284508170805760193573125312691893812639890759519912979700868185590011016,
      31662223357703339344075706230948549309295719547938186608589445522277417090097,
      32817702883729588243099948943690184377385194549301657210189815474165942385631),
     (6721744453527085447111934514458601763104955671403590650884082188612679037303,
      7643074769017388118650120575960634283958718521128516102447523902472952490045,
      6324732630585347435679213046756149955091363806933501775198706023517840836646)]"

definition xy2d_20 :: "nat list" where
  "xy2d_20 =
    [56885837457941781562472970038992446743422097347317904955514079018245209252097,
     57658419206863557613075436535890848220861111884760370824405969118734898947033,
     3212990973364207555713325006657889930223047391660007398496983246904512817433,
     50366808401555536113478294266225348686978827198878052918429968543898518694239,
     48562611479044161426853652725159758626243728420323964218969603293670881430938,
     28725203191061569053464282894766765877404304894815192989896166063181466569058,
     8360869020015027425398003561102879137274467326237743146577714236995543114909,
     21791538167017312289353922741146715340453011345869436335884971414065166801269]"

lemma row_20_sums: "row_ok row_20"
  by (simp only: row_20_def sums_simps)

lemma row_20_doubles: "doubles_ok (last row_20 # rest_20)"
  by (simp only: row_20_def rest_20_def sums_simps)

lemma row_20_xy2d: "xy2ds_ok row_20 xy2d_20"
  by (simp only: row_20_def xy2d_20_def sums_simps)

lemma row_20_entries: "entries_ok row_20 xy2d_20 ge_base_20"
  by (simp only: row_20_def xy2d_20_def ge_base_20_def limbs_simps)

section \<open>Row 21\<close>

definition row_21 :: "triple list" where
  "row_21 =
    [(6721744453527085447111934514458601763104955671403590650884082188612679037303,
      7643074769017388118650120575960634283958718521128516102447523902472952490045,
      6324732630585347435679213046756149955091363806933501775198706023517840836646),
     (41662329253638110486251795606091136297938735511114799762230848859569486029796,
      15137901443542693398011653243558591517045173726451768439300029096732885221281,
      19405274288977193329686957849002692895438849493451964828099229964949186466320),
     (53104981668191180202166371114071678206861426533639479543903853229868005981059,
      11761632472541594865416346998558488294741790232847285688500300897279474443054,
      42838264181655576727632858426270004716342729232489312939711675293008427151286),
     (40458879235011389872363152144400252764568659003341204771110023210842486375422,
      55050924630306276017148052356245173643488584497842180783889711223240872023320,
      51610982174145277350977816658859251028704794101005419831761000419361493905371),
     (11426081037620647785759144744512284352460943578681056175900607140316442696190,
      22434063337973006777353756659409490564409457910658531447789493465212094853166,
      1878471526832294930376097700797981993428884979979342572085818041382909140772),
     (2427231050845422963311863624404116787241465748655446912296425494685524195642,
      34811981322559136350694038015193209626691445300664122413676275512962180523970,
      28762177345898696018332468102839231194568612201150940629623527154954844899427),
     (37308254602377112564178086147768961703912722633046451374450519101286779225033,
      23180643014899671323745807041200641822410751279184440531481448249927416367767,
      19870725711809624252999770018708504890811067941572696811458487029461105059453),
     (2013895308569455219786734186447753071261274947957555219773771034610945743735,
      16163344805052720135338942660884992597412638362429943416342731939284199154189,
      20365629026943409151659714136044351178218743346803645530206792485094842523890)]"

definition rest_21 :: "triple list" where
  "rest_21 =
    [(39589652964703051311010156079938073430224213513671413038802504024600042758727,
      33092651885666017551082980031645925108353432371575483520112963503106501512510,
      29092498055214790139674351453821736049895233137117304846026363052443295568256),
     (54562577767967502916953760097564354441606670697613794243953460922464355435652,
      4621653946844132742844938987227170627273714099982874117251665840039376566638,
      47606412404828517468922606849012372102615960943367461136709003330556727026100),
     (18238172509766130572838371819374335860088620946317495108545814980343300822932,
      21643524156319915059511342994765532945143539962542425124476409934529155488163,
      4284799756635815326293901201022085423892469466929233445990458994336548864963),
     (52480799574212018296103641750962407459123884676888167027445524858425752156689,
      14208282404154888024012111114010736524516613021305753100424949648820480726467,
      40730500552477242878089623402275132233587911439841612762480584204413581842550),
     (28686246992650082172410758888313846267079339433473395280978156306621982121114,
      24583006952753961532132428873864266174953424306103943960826424495088378267078,
      21683510334054754807868697599662115595137248487252794291785933734933808118643)]"

definition xy2d_21 :: "nat list" where
  "xy2d_21 =
    [31528366601965305289940644562921318141983152131817016527053354114582450966119,
     33877699686697522655569814995013986429629494320631321959507634199066121460623,
     8744414005657438958897482888866077175551864801711842971574132884231088632498,
     35956418472906420762665207596966237239305212222240936591027805564304838588433,
     19015506516880501439135903862158418328409326541021257781129458007097206851986,
     8187903791996321927987248531913643443623411611611455374871484778934619167670,
     48639578438992922634239205911494361817961086114213991466230647161304972478510,
     7320846262937598597095870749481084807870918895448980543581439781302930284037]"

lemma row_21_sums: "row_ok row_21"
  by (simp only: row_21_def sums_simps)

lemma row_21_doubles: "doubles_ok (last row_21 # rest_21)"
  by (simp only: row_21_def rest_21_def sums_simps)

lemma row_21_xy2d: "xy2ds_ok row_21 xy2d_21"
  by (simp only: row_21_def xy2d_21_def sums_simps)

lemma row_21_entries: "entries_ok row_21 xy2d_21 ge_base_21"
  by (simp only: row_21_def xy2d_21_def ge_base_21_def limbs_simps)

section \<open>Row 22\<close>

definition row_22 :: "triple list" where
  "row_22 =
    [(28686246992650082172410758888313846267079339433473395280978156306621982121114,
      24583006952753961532132428873864266174953424306103943960826424495088378267078,
      21683510334054754807868697599662115595137248487252794291785933734933808118643),
     (1694160625113090959590810823691695218321836735006141363714172290281997400731,
      29947488084473661556204448050406543093208355959794391860538451833559719897357,
      14701914414423043411826182962262374070532418016602049505893044351164897369165),
     (44019821848944042459916905979500354368580149563214873242043820579982777479417,
      46330335272491173234029485699633960677692613273760879819245806201540266722723,
      25613184880044103353487247862064102075758046741003073337726930234112695760527),
     (13220546983599788160856200478073169526385104514872350171792087133990157423520,
      5935817531511173174165803414967037509987447884821164118389693854887284314991,
      50472456465748539625520124646793936175044941822903191649953924163166681537973),
     (45163320849985125670456931538050017281882163598934981341553398497937944389468,
      26581424309591561637352452821673656554635899524108780926518715672302543334412,
      32355804932459161155038743044496345753189874234701088787275357350289400684973),
     (27483898260383436270042163876958649678207654878969631367949429486858021294056,
      10291802453832064763549003488656878224950443831067973678333696142425618390550,
      39041842014748661453505313216512681643298581279990009818268856740404454578430),
     (30360040225620604757866874465980393944844782759560419839227580863153179725288,
      38717613655784934236302176067969528980980795432353547254281655621424725294751,
      28606191750269349935584974979731656065676234353764502068295470073122593462842),
     (32935223137074263543818116770509457361243070799404742284314591937726895274694,
      40572964689025552976168500191908054079551996545536247614646104527160179338819,
      6777025011275631264671372424879887215091187362681723002248517006654396957386)]"

definition rest_22 :: "triple list" where
  "rest_22 =
    [(4162636603363898912802506016734676141302414346069497572792082195277430623166,
      29485708941827416286782376064401195135545585102276699998591977987442165037807,
      36109052544281568604512445597040575748369814420865102202444571980272269341921),
     (584785219525950170676989274521865689357439769128629296953187445640918525891,
      12718425858699363827577874084978253374127524126829559947396777360829723782093,
      43470053867196706087608607994023524352196245676321516253617582769922422042026),
     (37882208947317627261499830191132446807833795029824373210256954531113040603046,
      13795079075399559508321400535529164627214519095947643547813099448947406064111,
      5078857993562030216028376605080315867436146125413214199144172376391249644762),
     (13164814998635651238619460631778212018370597159231378721179731891801191967134,
      57733395054077155839536104799605618049007161755081628201792019399522427573739,
      39409696084229481940160418282980508965260473664874234471066795341609421384528),
     (33537300424657346343497423652564013470230734691730347070927077985140983694912,
      20297317707609261493161992904132314944137643379327918200774735958891930484726,
      52227186020741291040621470087466895031568020638141635908021933737819392851563)]"

definition xy2d_22 :: "nat list" where
  "xy2d_22 =
    [55858511759155171035186662451886192650949514401803143616501468276134835673260,
     6553033477511152167753424438103890545918508083454418108807777757757847467509,
     57464547890856002161613913096396805210605492840267624623634432174523788872461,
     1955044669933773787732732485213535922569554500554643807834443986037146076,
     23511138278919726050323991693030356486143254431314050170651964038289377010478,
     44833187017994075685716409543886176837492606910711490533363654731629378572593,
     55642330237818598280585711671966521363396907038111516127466110228513581660953,
     10013174844219775179169969937068145870035890337718686305026375966992628442737]"

lemma row_22_sums: "row_ok row_22"
  by (simp only: row_22_def sums_simps)

lemma row_22_doubles: "doubles_ok (last row_22 # rest_22)"
  by (simp only: row_22_def rest_22_def sums_simps)

lemma row_22_xy2d: "xy2ds_ok row_22 xy2d_22"
  by (simp only: row_22_def xy2d_22_def sums_simps)

lemma row_22_entries: "entries_ok row_22 xy2d_22 ge_base_22"
  by (simp only: row_22_def xy2d_22_def ge_base_22_def limbs_simps)

section \<open>Row 23\<close>

definition row_23 :: "triple list" where
  "row_23 =
    [(33537300424657346343497423652564013470230734691730347070927077985140983694912,
      20297317707609261493161992904132314944137643379327918200774735958891930484726,
      52227186020741291040621470087466895031568020638141635908021933737819392851563),
     (1712445337030991157750534097014308906098184665744088039081870421864274254414,
      39603638549170698688492301341788508415363148355490438531984194300384281893806,
      8756603366782153720829010538701969325237882231408157377271184489447036898575),
     (6381785503443767620144114297211657486204963580799861750583783655814403903947,
      20731757979607750625751812771587060916698562561734502883081447364480315456441,
      36698743930524992150429477966516500868843182186791064601497253306063813919810),
     (39962784801563873441326809151610755355101276033672772352222160399133945815860,
      21829866401582899326193242125877764585288408112776760295925053610517116532974,
      30079170101144037963599541955454374447790589333052993207195309788931321049863),
     (18424601948440839042966911094196533300670884482543893726883298483618397474717,
      28611221637277788454653772058330188072172615061311474707959206031242261678272,
      40109485860542646345896674708404614143410555768528495094042229660624926858931),
     (32359287579726868380064899150465475052024018867236794017832527451254926901633,
      46064498920093964071880903261317636764717015399540532315738724789916366529521,
      21608418506782576872837100164993840026289950086194036314517763235267364856791),
     (14292104184602825567975443623685576079813764450312324439612174950093523125635,
      18531551320512548816870081860661585020434751047451492463329002345415523590677,
      15213638664830312526636038122509238731609099414987165664252052513391137058861),
     (56905756087445646261696198955362503937839188694500188427421064841379433967588,
      47294780869389467885625327381238031010851793283310081785600860046232347313110,
      54822661729716320609044161156610188306052089942382540859016874962953019879587)]"

definition rest_23 :: "triple list" where
  "rest_23 =
    [(14433019317592528827773217842492832521107225826321098069369329761560858171167,
      227672649292312309415764748418086519533207076911048037684098263976604341455,
      44171557069817376247743653392194459536338261542360140166683035638364736821456),
     (3678591536329768490469544774394264647023667859065529436585204355656801411655,
      7825969676466478768104460439023688335146841082429203154866743267161198034783,
      45620381147224850984330245119164495023311717201326264639349531733007568203340),
     (29219774217519919237616767847596595986648303461023267385024025762354624769694,
      4956209539947775781733061279772566262893608593857496887743827680501502625231,
      7493664047117080470670327386120328925986824055457805979214526065282158031831),
     (12701313107394580236461066638023179145754036828323517951659941569561363932896,
      13520382171601208384746513767643911738542836919401653198664014423115357059373,
      35938867319803234842098309745599642979844054443426929937674061552939340307766),
     (56823078171648598085772663355782637872944992260609085364041939753739588737728,
      31692561975737213039201399039902336539078440809090397231934767569424405132710,
      47408357958154872201989649482364363237137599188393086375702657830343222692636)]"

definition xy2d_23 :: "nat list" where
  "xy2d_23 =
    [39410472261615336299743179721829130701240338067283415880137602906932938993002,
     28387347541056969743161731260477599087813211938671199800737975337186595900477,
     52025313583540724832798345327181036305559642798567317494165088512254906501246,
     53525137850540139796087645227339376160151111749935319116901387220348487108962,
     13784576449363378278195014104381103922006818860539015066145184823692661845116,
     10333365403026583134908625158299923462963191469344860545036750155428358443353,
     31450208209894312051557338832913412698032699423359994755491733207238461421526,
     46689654877469149747511236224341221486288066733110499146557079054758722351808]"

lemma row_23_sums: "row_ok row_23"
  by (simp only: row_23_def sums_simps)

lemma row_23_doubles: "doubles_ok (last row_23 # rest_23)"
  by (simp only: row_23_def rest_23_def sums_simps)

lemma row_23_xy2d: "xy2ds_ok row_23 xy2d_23"
  by (simp only: row_23_def xy2d_23_def sums_simps)

lemma row_23_entries: "entries_ok row_23 xy2d_23 ge_base_23"
  by (simp only: row_23_def xy2d_23_def ge_base_23_def limbs_simps)

end
