(* ===== verification/Base_Rows_4.thy ===== *)
theory Base_Rows_4
  imports Point_Sums Base_Data
begin

text \<open>
  Rows 24 to 31 of the table \<open>ge_base\<close>. \<open>row_i\<close> holds the residues of the eight entries, \<open>rest_i\<close> the
  further doublings that lead to the first entry of row \<open>i + 1\<close>.
\<close>

section \<open>Row 24\<close>

definition row_24 :: "triple list" where
  "row_24 =
    [(56823078171648598085772663355782637872944992260609085364041939753739588737728,
      31692561975737213039201399039902336539078440809090397231934767569424405132710,
      47408357958154872201989649482364363237137599188393086375702657830343222692636),
     (30706883267303612086982069757625075162812570108514555548593066835804886025145,
      24611671225731555518716404304158770074578826637453503419459374369294566636817,
      48166966920071229386720888566832532205942157013785168669578215035729032326293),
     (31306949676691746939928803518181906859289485501750847964509039092223836795619,
      39994308360463211255107899046030656039424983606672598251332701451220844734047,
      21214948448255804448333966211630714651516133065100308175464646415048227442469),
     (31065058936047843983835804919410612940940253088491821236342496610802982039069,
      21984521922581157605963368307338063954142486346217685416478027709711412364335,
      50361317191077199920515432345616747669915872343443063092496694753383698071903),
     (9474899081810698791779641326145286407816555213110704800236628957435449014844,
      41639270237107936573823460077409484955911579835488678036929073801724194493293,
      45252770798612682354002703195901046031658233558479208280276363916657373006569),
     (50973574640609410493270269624326149133965166784517079380234151553468008543038,
      54251151608469383813245918170011875098426836063363486162523071230070020448639,
      12940536095743787255843418375944595566389010835369756372207600453857000083828),
     (50452089066095520104533794267964660513765227922463254822592915004194200164648,
      42665858899392646292787237157687354571164889898279163983299792083082980277736,
      23833672903382163670497850066556237073046460853979169513167157519876112626848),
     (13540720272584488710589697896042303772586080970891815907834958510026401261426,
      6647844644545942134100384468303887644593227397097106861932447091175039100860,
      44572622797726624389527252687754029036786245089420153097206919781396892694696)]"

definition rest_24 :: "triple list" where
  "rest_24 =
    [(37082884071409217501735151535403647570992630841419959116788654210139848164120,
      31100210456026919531916348943250374513916212845570508096479695019665124044395,
      25614549391032443169434885127756593763948150179127137316148943748196999055964),
     (43104885622705402498154505883974980259039242488210938263351972323294601588872,
      20426769793430046937181187186233719697257896322123931651835130211853678797137,
      9690099272127065065983893697208825409618860042764910449689009272335678893643),
     (16472312606931799614462687861414478365019134565195084351702505064177113490667,
      1365701217766719994936920451083547902972126480076447240913237261518942286471,
      8106127693061768637508022202446514034363064866913121271017900953550952747282),
     (3620847422797225669537487963319878510813625673143035314029197444558642153340,
      36663129096830406075171095727813040888201913791218274335237952876157861170529,
      57448201429702123904180762251923482578236985442223727333860866830347427279355),
     (21247700065992815554219025084791972986877248808030368464515002979794460272553,
      51458070158873052938259919890280839110256802361532492544262098461645375229869,
      21853729535957697356099581184112489718758825713783811858068621561042048952646)]"

definition xy2d_24 :: "nat list" where
  "xy2d_24 =
    [40876948891942767984726390097468522319926424365298845421691691561821767326326,
     48005060839820422219350859718306492667671510853106247104512417593365407129907,
     6642794321915277456296779679283407466170718400195511780384211460029968578827,
     44703232986687963938518426900629275320554970839714089648200942647377553343470,
     42719203519880930642343549399816822632959339270567464200189499732211610605557,
     6424653190144027037568988275508875558591517109070186392733318684874648923212,
     54302106406547357303566004724086474124806603021109030750806623627592886366874,
     31882976893936029924115801905312023736329528897244197394078603400921910187431]"

lemma row_24_sums: "row_ok row_24"
  by (simp only: row_24_def sums_simps)

lemma row_24_doubles: "doubles_ok (last row_24 # rest_24)"
  by (simp only: row_24_def rest_24_def sums_simps)

lemma row_24_xy2d: "xy2ds_ok row_24 xy2d_24"
  by (simp only: row_24_def xy2d_24_def sums_simps)

lemma row_24_entries: "entries_ok row_24 xy2d_24 ge_base_24"
  by (simp only: row_24_def xy2d_24_def ge_base_24_def limbs_simps)

section \<open>Row 25\<close>

definition row_25 :: "triple list" where
  "row_25 =
    [(21247700065992815554219025084791972986877248808030368464515002979794460272553,
      51458070158873052938259919890280839110256802361532492544262098461645375229869,
      21853729535957697356099581184112489718758825713783811858068621561042048952646),
     (4727200399183100554625069219544402678301919790150400345270606071513326148756,
      20684273387194273275095288836336166692715130933153406691326531018411456472213,
      47327193143521191214567836587639657858516489268553410066323277928944870425193),
     (27139288877387388488808630710767817966639044493186098223684115690414826969358,
      14340157291868914488561363639847898872504938180984180773447225363959479581304,
      12525599345844691977718077589572866061682565335369087363404740324950224358829),
     (52132666637547167612059606246458930914946916187946755358873910926782976364275,
      40893392783672181994993955864395454490492657262714029368364154330164101629252,
      38386616091681406227801636094698143184129174298955764086025654073001133439245),
     (40300888757784454726967334645191496764606686502105499399969986520407466321365,
      1897779212821504040048731397258769059386726268493158179185867729981834910168,
      35926251156751909957408504059794164634999859766912670476711038133858062363361),
     (28700324951400026216476624618567404104039420582600075273284917010363994386925,
      40875867299320575739499745405113333941520935377869317779759344622427569510187,
      55796874147299617248830248281081688623867833971781316922563629302327542659438),
     (6300535672654454770422325643051677889960353963072368068998980741409539548482,
      38300027892569157518295199191178186201732957382419051583950594357662199119620,
      54077346783665102283095057733752033482251007902592904217350881621072932573663),
     (44130962312656193681316736777417037282795875655421779491061849527126280513652,
      20965359650274633551976474322643126036995282809021778071631815437394726169405,
      10542383732108240843121249935579131999198267680425277817779117694136147710553)]"

definition rest_25 :: "triple list" where
  "rest_25 =
    [(38783356964219415375645781364262308018092770963392205222937967533997272217041,
      22678533783332769283518066353569282344909020900274167896713555998620046295535,
      7332252323344487431673868020077797266841908139171060903362777523391319781856),
     (10288109288710099540577935307677531526790485646522926317432048976807234400697,
      4364922251525628581494613500081028063970727019104336939667859836206272383453,
      50113885637096877274414866259643211883049597308516389224942161768618899762504),
     (15727983632476638182451520826513661402533897723074407862301705423650622255106,
      45877133668321431389195312204756837428802659643331086295868502764495316201185,
      2329320707471652080257343224677352463628742428015995121937128341129083927930),
     (28562869187466168498640582431584942987797415593409072045358731303432973060869,
      15091173290662772602690633677319909585428287065061869122681204129258476992966,
      9509561193580720839820667314500352960497613902126300226133822889475216312970),
     (42927283309648938489858440040714108733714273830017326450356950579548469508884,
      54543473575794735146275611790870470923589514710523012658661070160804911695179,
      34177773354890278711731206332856509291379347480461683012432588857317513066218)]"

definition xy2d_25 :: "nat list" where
  "xy2d_25 =
    [40915848133279304249301717065599502159361308619214504379065587951925414753485,
     17457845830353404567873436480192010256891779227682532036347401016005833515468,
     48517599742137450041093183501501060981753535984596613915587181928311436916779,
     27911567646974733787502960539801807308682540257723225617237091100946961079814,
     31624780136283633034036806514856161250450087610830648591343055057965078108846,
     17197665032225666821982391872834330532391780023309656801997159866397444967878,
     44744868611485192051498410007278637425795956451887053792621446445078548271658,
     27979366555347843172891210028180954920071574253202867548349508488418504618458]"

lemma row_25_sums: "row_ok row_25"
  by (simp only: row_25_def sums_simps)

lemma row_25_doubles: "doubles_ok (last row_25 # rest_25)"
  by (simp only: row_25_def rest_25_def sums_simps)

lemma row_25_xy2d: "xy2ds_ok row_25 xy2d_25"
  by (simp only: row_25_def xy2d_25_def sums_simps)

lemma row_25_entries: "entries_ok row_25 xy2d_25 ge_base_25"
  by (simp only: row_25_def xy2d_25_def ge_base_25_def limbs_simps)

section \<open>Row 26\<close>

definition row_26 :: "triple list" where
  "row_26 =
    [(42927283309648938489858440040714108733714273830017326450356950579548469508884,
      54543473575794735146275611790870470923589514710523012658661070160804911695179,
      34177773354890278711731206332856509291379347480461683012432588857317513066218),
     (41223497208033848419677838065353127762584971502159795454133407323907772150751,
      50020101900676584767605944828529012718645719221795967571473307944135551559014,
      3832603082574027040282324412277754257490055848161676264892290300007903276238),
     (12509396436652462850734304928981518587913722775381803276364943955984654496628,
      36365145154820713388192503279178278239575943162090190704238815052357551859394,
      7642006871908804502592959601575854255459530981880229573330125427104034802475),
     (22142604899704274564493137565107887935847164855648284903915253038944228896734,
      25718282572279657306172467384131846661936173384881834709578367936108349819539,
      47553260164292006424388238815735986680679401394296108955333944894899470427467),
     (26394030710894363704846506764748868479164773903680637612434229081238978462887,
      5040735528984104055622739291993998239360060548628583444985034129170628070310,
      7729882040487556812975121516514992443283840761210609931073629662762381659284),
     (497609122720541077663535626491171299566256752024240820390294487373326559896,
      27696846725928346100292996872627861853489389239314041686191784916409845770186,
      23709738488437091537430053127317803705519470476524996365355623119624000544983),
     (1603404343057472017874532240560404368572438936373163700705950411794643390210,
      4253328318477807410696213710145684065573174896446905404711141673935047257623,
      35938758987781945707193267254148311799156026869463122236178979346864349461720),
     (21867695104196080697733564763243153768406733247611235966313301900855056163362,
      4051499577878192203426470412530088199871857769250578212369486028191115351035,
      23339439408870190801587347857146726693429691721931944780581087029299099717106)]"

definition rest_26 :: "triple list" where
  "rest_26 =
    [(43594231771136442136094965816583641298161020489686436999243863276263904089785,
      33051610874198922080982482604453403334859782594328968818476959913458527014793,
      42081039558021659690528220910676091125532378342945385029990340339732981004710),
     (14189163930693848432445340001705335395883947071273862638638669783718072458909,
      30094033088927857442264362537016824592195079176139370639527272730208234435559,
      2402183341487193189799514935678801085334164800030082783748705253959624859349),
     (32921006601579269615287127502588407560473237926026595130655884862625244837801,
      24424008761609483666573175042797410838386815567707576163479997011583271966974,
      17827755400210294304350097679480367158249226482138627948696431213958186739),
     (33962611175564665715001837609414466463402438498159316145003109237055609177953,
      27305339667428645735374322966654452619102130613795864263748104615612890625953,
      23005879220654876222369723703015641450891395678711435614232759665972633415368),
     (26263959931639694400330692169560818463414943264801444284729408953118902675054,
      11376520237691535066834512360590235454557005815820698100179107657140264499670,
      34020224956506064427951641250687979812732670573031132868096294007672538736693)]"

definition xy2d_26 :: "nat list" where
  "xy2d_26 =
    [44242535408942400044811899726948176979324682583551334935470385282389280844430,
     55058017023051886977515417061814399863670353053712165884931273224783298318971,
     26011437033971789840994312202038497473381188691810149464272867595480551561556,
     44859543706953188004016231867177707468255155518402690474177173378492800538432,
     23967220163629243331264287524375510820237068601381225865384421368890396502727,
     39239084774500670421566109690156712270623476497133184862540184170008838018941,
     49920835217155723637763863481759620939975030670870979663655495672598340136952,
     17337405223969274738051270922586557854518333026131383461377122593619769189328]"

lemma row_26_sums: "row_ok row_26"
  by (simp only: row_26_def sums_simps)

lemma row_26_doubles: "doubles_ok (last row_26 # rest_26)"
  by (simp only: row_26_def rest_26_def sums_simps)

lemma row_26_xy2d: "xy2ds_ok row_26 xy2d_26"
  by (simp only: row_26_def xy2d_26_def sums_simps)

lemma row_26_entries: "entries_ok row_26 xy2d_26 ge_base_26"
  by (simp only: row_26_def xy2d_26_def ge_base_26_def limbs_simps)

section \<open>Row 27\<close>

definition row_27 :: "triple list" where
  "row_27 =
    [(26263959931639694400330692169560818463414943264801444284729408953118902675054,
      11376520237691535066834512360590235454557005815820698100179107657140264499670,
      34020224956506064427951641250687979812732670573031132868096294007672538736693),
     (52462859433450377279304003075680259554001360791988052823450924276781907154091,
      53919560228411827161279988237452602262337046300343274771499110607741131528242,
      32918304364252302834972988171515593442347544821804780522919509825833718124505),
     (5185220649248930401414524546452714247704967300251811558062859138239387739474,
      35328032195546397609074148219713731340947959949000737396615983614851573423105,
      53034861973681147752610687618308885415028607564414180538253667449087235737488),
     (37984750708672550294251610404535830751990663490517935121539656900636223591111,
      50769658902216518272938856075288455749140505349779788100746782280510466112914,
      29781439953941773048416912846707617049227866698285459043401006348932253257598),
     (47769557798301669845415602580097420986714841261986634167294855613108707648498,
      37854003817265867416757068891298627659515411515476548373323636381408135629043,
      53001962776238851012618494546193796039502614396924442779719587187179101643835),
     (8449350853170339662707872130099001038359301844942901574750122124586991244487,
      38454833923813752404512302936787525990329183142941591483763444548350424440842,
      7147816416303798924951125021853561700237554926675531517382523565167139717397),
     (56919417046600242121126449027794122978068153732622781145915629228735526587278,
      4183800199849299410528469629396842335672197337065217821458721803468192197420,
      8517093283812697721208465393533087965608985210944180659166738278613167330417),
     (19289319815007635425155986545284122396751003794969577041759571245013752988417,
      38151005382072812000577323401751697714257554454942140857372832969779272160095,
      55540592988439646520559355865651490861684233361928716367147982458516602948965)]"

definition rest_27 :: "triple list" where
  "rest_27 =
    [(27832854809531511662862783602714758429526164500954632379799562133232916579964,
      51418622689808890706635443146519623072625554248459772765825419210408463641599,
      25766671879070056316955916936862606576045911577000998743936024542426172084780),
     (49495772910442849424074451708097707017262194806722126632275873534327354241460,
      4688470781828164278366985277933962825622285795353936395549900233168636985161,
      1381115552724901959100291897792336153539584761278946064851429125529305888017),
     (12474331366584991714999019701053372545799100062343268005147684527042412626600,
      20746308809766386159238458318721613872967392788396486019368163727586869430964,
      850978886137108808797787953344961324924897492333193628915195543679169301363),
     (1354421441581127864437143372844274388062292350084805047329018238299116064940,
      4033167163859822565099887202523422255672122363891288449300509405037201589007,
      10307785150851632016018959191340581465754554543524510473037302101332344267014),
     (43093427748708802199774598181106490987159779608662734295633683643907889137535,
      52276577394374451023636155017949082680533519628966003740504478768891255836379,
      15302475598364472499030803595014017064476929554450018545561495038085148117065)]"

definition xy2d_27 :: "nat list" where
  "xy2d_27 =
    [14307597042713501646668046200743510395990706115675853732554150860048425275040,
     14139051721628448372660963275129009512747902488156684964156544217533077757107,
     55828544507638541219181551800551744769933680022052117146883043052455644533659,
     26031978556643413278587240051852825700538155562951815672356494067716793586773,
     36995921301985786439891494054066489952858323024716310029476019905971047821772,
     43339543180942380796285331513221429336531977804338085104357998028373036433871,
     21417255883148042304838985051358086699444153427917870866542304007921250703401,
     9005621498793332890447087179406878680089447084408584212394265654645192344655]"

lemma row_27_sums: "row_ok row_27"
  by (simp only: row_27_def sums_simps)

lemma row_27_doubles: "doubles_ok (last row_27 # rest_27)"
  by (simp only: row_27_def rest_27_def sums_simps)

lemma row_27_xy2d: "xy2ds_ok row_27 xy2d_27"
  by (simp only: row_27_def xy2d_27_def sums_simps)

lemma row_27_entries: "entries_ok row_27 xy2d_27 ge_base_27"
  by (simp only: row_27_def xy2d_27_def ge_base_27_def limbs_simps)

section \<open>Row 28\<close>

definition row_28 :: "triple list" where
  "row_28 =
    [(43093427748708802199774598181106490987159779608662734295633683643907889137535,
      52276577394374451023636155017949082680533519628966003740504478768891255836379,
      15302475598364472499030803595014017064476929554450018545561495038085148117065),
     (55379165166891391002801168634948617837103912387921734075059042369668847266722,
      14604298395329793422069648663739696515356394340097904983458848806339110571879,
      32692267761657644641893778288212254933978284811783520135606923460022344524067),
     (47856990184934077731373643397949175676765444014860960018656975174260702836880,
      50556203749876367719361882603554600236035067248180112756444222444381366777916,
      42409668974050562160610350664078836759943359796271835729037797696492790865123),
     (26525469702028871289846061322051319525789125275268760461898900188886379603146,
      5940522244661072692307025054626860497059167389255079698353660011465812310434,
      17589455587099801009921804110467451935092894913787747847068410207919966691507),
     (52665095209044849841037730345764387877721281287337463926031519986378804284639,
      31732420123830062900640498955856741609301207163931533847671982270916681636597,
      1433968928787814830942946925167163795519634086163646288462597916304112390027),
     (13123049949298131740545343876642353789576415504732073856061375852567848002269,
      8218733890358328343001268222009301051951906918687280751811119897418418925668,
      10592663881581631159273048824441617873281108339493407640663086143700927259572),
     (48409124191227895692509760394674195021178191234699514179892083731977131094753,
      17278542960834062693233190596151284728509268686917557779107713015587300650939,
      12054779395463848331340209378776258699619986609432468829003494595582877571401),
     (26326790572236203240231316746378233524687756347713771783654367529892553076409,
      49033607061085222021209751921454761872106177629748964146123312308918786929231,
      47591336947071638282436120619989662277923427859168874701610001200065361964685)]"

definition rest_28 :: "triple list" where
  "rest_28 =
    [(49831265648554118747685820721973823458577493163060200746569221726630404071316,
      23077157235356914378873484756453138728644366839534587614646314572727004430125,
      46986651968211890453144625183270599692381128910081195851085936344261698757148),
     (49152655319555372452785886828827469752396599742259064798778741111564452654797,
      52740450865667615695073023517436065028575728038533627196805527444393643652980,
      10560304233128267958827626387955216182217450616110836105506294722070639709864),
     (37303035324417710806228205694856778879414324305008795273875467397309778274898,
      1258535555772718541888056638049710647818343934237270462674396242496019157742,
      46603136521859922496518519795636215847843620540031711059595984687330852511110),
     (30758531348217361450337043610517545298754540113453746274790369766109479450015,
      24910881755874907419326692197349751587204977193176943348392000587523842645596,
      23080389037105320453836750293155914174120749261340194455840235051185469559308),
     (38614399944018774841874619744567688541674234741863684524942943020139982809839,
      48505121165379922461886898336479612765388474887105860416376525215747614379707,
      50301277672442068421942782797677002233220272938941860004362016601204029845711)]"

definition xy2d_28 :: "nat list" where
  "xy2d_28 =
    [20341081566195539391034753703812821369014739445374269939807889454181350372493,
     43453249193817011410931373930160958229055904017451105169076984039841816309577,
     9656559283712887062251995474149678453978663229249368870348243419334073416139,
     23062064159388218856774016897897086266943964208355884298365728972166281758197,
     55763618964994105656921826679221055314485961993690829734697770358144762681116,
     1256310792025770782262986283530086682338457920542325408175071737854414873940,
     13010173273238132530783398967999520288505334155348856316324403139089744962496,
     2517947712778360957896628299203839345276370787967929860587532663552743205576]"

lemma row_28_sums: "row_ok row_28"
  by (simp only: row_28_def sums_simps)

lemma row_28_doubles: "doubles_ok (last row_28 # rest_28)"
  by (simp only: row_28_def rest_28_def sums_simps)

lemma row_28_xy2d: "xy2ds_ok row_28 xy2d_28"
  by (simp only: row_28_def xy2d_28_def sums_simps)

lemma row_28_entries: "entries_ok row_28 xy2d_28 ge_base_28"
  by (simp only: row_28_def xy2d_28_def ge_base_28_def limbs_simps)

section \<open>Row 29\<close>

definition row_29 :: "triple list" where
  "row_29 =
    [(38614399944018774841874619744567688541674234741863684524942943020139982809839,
      48505121165379922461886898336479612765388474887105860416376525215747614379707,
      50301277672442068421942782797677002233220272938941860004362016601204029845711),
     (43853701261912455923441270531967667749246327541842191113839369684855845204765,
      8978440169569010361720241036639066180394506924802001110208426774778240008956,
      56527987703452888755247769648214586627724665541943736504657087195698856990086),
     (54294213388916796992530374254552810828739051565564864269638570695184549243306,
      34806073630696101996150169385600326059105836379914135667729091897641236612322,
      46032127047988490419747453795015648617304302182828446206145526337918455543725),
     (15075614662535212141904284655483705689951225045470290511230792848704538524589,
      114761194111076937557282935473476619384221079884136829997770428786603062652,
      46606831556035536080001397715026369716564533077119381426426152846061033093215),
     (26080731034232011822526749901999204602255621532846992137094608326060772981577,
      28457520584551950046992238424199546819242020349092711371654303657175699541815,
      54521756147082459585185875354790566054827671796996952999339291283763199823870),
     (37745862044049895782454286847811365723044920900743761870695053680390831083644,
      10726362633366381420702820501877890416282929315064193264699355758847117442855,
      2101033346778125994243886123772883702474127779995708693181796330148366926790),
     (20695060191496869961689325035593771209504464515086761176395063989300476512231,
      23088788006841932748828159280857970369560031321096476968753640534429271784556,
      45246017616538463398700634739296595488712986996265019699834965930750814205885),
     (29765637946262021533648645302873607328225430820154026049411436664788251001458,
      23088060584085041354655231701160444991095700435780838465688944575935942003438,
      53235866637557552557798128830801742744074996390512643087315163855879596825722)]"

definition rest_29 :: "triple list" where
  "rest_29 =
    [(6430532214216149554950348023358696084316799088601797015209567690648516583223,
      30322201223122403826127455594300333551541257185699563395547082893827709249240,
      9601589815129633369745766001603232567797084615941654693049111399935643557060),
     (17707678709431441740796312502228947141759712046994646886320995672656167807370,
      42506015023840556909185188466364193940361381177434955063535640630236822343469,
      29261148148858700872269440410266387325282820865822557880330899480056826951585),
     (42310777656441672165026492471518106159156591743132589613336444801957382778138,
      37486352030118086490759872767898519986857419425356506178016422251200379369888,
      6828314170497786429416580650717220363717378754876262666856827210461608077739),
     (39306634100331586063981346355324783787820955619114068241464364989442572759172,
      26711796470308455756864362514543153807575698509175159871339700746320331655254,
      51743599554591065559445681492367605585641688444555782120856247153485684579018),
     (56954426116747471208845910413092754843726869969412228097941105015544087774083,
      20100745599471525771505519435781392866652528483063077894871752101396848604277,
      23083542986657606568413764320280866930587092725209520160692380924750509862857)]"

definition xy2d_29 :: "nat list" where
  "xy2d_29 =
    [46756611381111269285595117329783805397765013400277199111870658363298952756488,
     12676897299130008230975415485725003164787046905247978996990238548386996666570,
     24984413065766868326215800130473076784347895316446967958474063278842702355687,
     44929224410478738818256187266510586835043997540055590037321792616337466033875,
     47159646763591840255519415413727402799550151573416398846145168520961043146574,
     12984045936171181153887267830011690080445551351201482982344119452591031472727,
     27226658486646893447990404737174290799799498568727467513598775619976632562766,
     17506451104136342892451918534064949224666607319505040764636402391005514268810]"

lemma row_29_sums: "row_ok row_29"
  by (simp only: row_29_def sums_simps)

lemma row_29_doubles: "doubles_ok (last row_29 # rest_29)"
  by (simp only: row_29_def rest_29_def sums_simps)

lemma row_29_xy2d: "xy2ds_ok row_29 xy2d_29"
  by (simp only: row_29_def xy2d_29_def sums_simps)

lemma row_29_entries: "entries_ok row_29 xy2d_29 ge_base_29"
  by (simp only: row_29_def xy2d_29_def ge_base_29_def limbs_simps)

section \<open>Row 30\<close>

definition row_30 :: "triple list" where
  "row_30 =
    [(56954426116747471208845910413092754843726869969412228097941105015544087774083,
      20100745599471525771505519435781392866652528483063077894871752101396848604277,
      23083542986657606568413764320280866930587092725209520160692380924750509862857),
     (34688921428216153576382903819757726416501152379195583866036495193216294384377,
      21313914617175234287469935171798401246488657660195938251639937621110080745645,
      37416293351691005416584483097195059473497081493489284624448350620134640256164),
     (52206490616610799556298178050543519085579273256598487987187250099055297478077,
      29549489276967504964693125653529287505312605283055862667647586729061001070019,
      14362610100261341726448445267851372432240015774754365406526825674525866285966),
     (3337101688891106600669488305324680819969825138025526597955892657190859958982,
      9444376760854825604934122530250103102958218766074311211742269006661497575145,
      31460339098080544137680139890012981024272747469108615006841004153677180600234),
     (780557914690116787444133298696161019513901403268166406371943056469165994707,
      14507150295109992162561628684823624133969472422196579919864252453379469000882,
      50772146594015134016500356968140016152097360247341848606774469513843148884605),
     (45294462303626582228033105179240404490570442207096070882998931654256441961547,
      22940062065008949731385608045881753520370685170936577583753907544690979185971,
      37451355805334525329326371299421707641279503121125831420855121323288716055193),
     (16599730249462728452952123794097111628469739479299538052959773798556245041695,
      32414848008025980356338067527284279981814046354727916498505397567355617419377,
      14341627860420673481542756340977215199933248546337421680204341819534402147791),
     (34889682207440803606743122710911767855267486988951914590709120766326586155489,
      6959567538469494491703860220977854996531172481386880753001984494936089967119,
      2689153753324118891609214168806427371468452069951097484591732323726573749760)]"

definition rest_30 :: "triple list" where
  "rest_30 =
    [(9925372191369641625717209887142929829113479974540003484809610544838332465070,
      45081291718892972053610960471043634902162773061177354597816898258512878818962,
      31267575076398552784613194328916417194709297766126253556016919107475203512046),
     (43298818252979884458779503446001170792277737215950639946241576434297071735366,
      32885302492636357337969651944743929671217233735528765023502806038958990179839,
      27188750382337108466055634768790457139521847067988075069185835084900177005270),
     (40908834010304197468160851031127877424448257579320042728715265499429596528118,
      17230079505965457121244686059484871101072114115972065439100393062802893693556,
      21141472617616474111971419836421975696952600316703153928100104257573183228724),
     (43327427631895362924044267775937337724168450822941039679875606992270203484662,
      10501226826826265774465717125561499058927078924957550610636003438377880931444,
      21102708430202317706265152684962985773322918106021319436712051852963850842326),
     (28957309340029271748431691920428163854179429286949309146369562153908901734992,
      7073360405764509554181692928366379897557531597896091766883325686348506217983,
      52108505524653037720044169684562425147047614758696671023318467536721571029093)]"

definition xy2d_30 :: "nat list" where
  "xy2d_30 =
    [4025861974103212779405718742457830808754797054770773929931930887910769225338,
     11593852546398889246681086118401984471575886704721475280978545593087679641162,
     29461440705261793989499475881145339459901973887416494688513085396372631630772,
     48490666376935677934953130718931602271117705438215088670071204751527945601418,
     3928332327358997782712572425611681892994505021420433134554723527714159500585,
     32584849120097026784998207596597014104040345101827618227698103193296908890986,
     38155672227040185217136966072403314679474410517273189621103401178867080493251,
     12692367452386756397255033756096370061093685937634446281512775549040931331897]"

lemma row_30_sums: "row_ok row_30"
  by (simp only: row_30_def sums_simps)

lemma row_30_doubles: "doubles_ok (last row_30 # rest_30)"
  by (simp only: row_30_def rest_30_def sums_simps)

lemma row_30_xy2d: "xy2ds_ok row_30 xy2d_30"
  by (simp only: row_30_def xy2d_30_def sums_simps)

lemma row_30_entries: "entries_ok row_30 xy2d_30 ge_base_30"
  by (simp only: row_30_def xy2d_30_def ge_base_30_def limbs_simps)

section \<open>Row 31\<close>

definition row_31 :: "triple list" where
  "row_31 =
    [(28957309340029271748431691920428163854179429286949309146369562153908901734992,
      7073360405764509554181692928366379897557531597896091766883325686348506217983,
      52108505524653037720044169684562425147047614758696671023318467536721571029093),
     (48997078354922359392953681348738642700250004990005877538629618491609428197780,
      25863513099198247842095054146750661323314161723639565617568184968985048577342,
      8449594073870114232392801991608194504084822173066694758935535499400880054265),
     (48727009449226938798786782949688171079587356038639970941115895502353315471783,
      16889851971435852416984141713087091175334692778851947236202708099625216439926,
      349354591241953041486963196354315272967971206231759557255989543509907476470),
     (8252325882492675836203282574191246563201979127668256093251712409656389428989,
      754573684095139660621925429558239863072517534955476989534620531841848530133,
      53305652562639348981212534216895202354338593600813452264310659378439105969173),
     (47346081243913540532686937362547809179384790966356025094959276718954536714014,
      20281174284192995216245840438498527019079568158961348443436409672132830084000,
      56320151178937409899202384117820909735622148854944493718697755927036958739930),
     (20217629780172396879034743205478874050759786340180573686697435077409046144912,
      50941101305785328810304983486467436306968321449516022551746728672079811077015,
      7393537395293858574956541595789727140970939954955271889807551834913680090884),
     (31175392784226749672522496043786706273328578000764573892236343328409664925881,
      5196942811790121090415547731285154877471734257840202977326874984364850888243,
      2155783393683812750929998623584709126412188852167562510744002281480509923792),
     (11511670115306867382411757023370630910837695842168852896073617749629108581884,
      8010657498417267886809889472040664950122124268998880814255680419116282623022,
      30464141714881812932195841049650501815165360359867353669620048155044866163037)]"

definition rest_31 :: "triple list" where
  "rest_31 =
    [(33277189743094545303882532097907929966119417837421197542108392802026778269367,
      53134630703095029691812158711319936722676724669092750862972130045271134203577,
      34884789441225787534651293550885052246310551488575996943391084308463062339866),
     (28090120048100048398605124938049210595283164015013463570201052772271371382948,
      38430772676882282169835417475706422173491793070590940069745464923091167995809,
      21561697985105949226225595415118128030818401659732316625649387513372604477695),
     (39097314162016990660255057714010476369904684691109364898362995863073181779078,
      34238387385703425688335445545091791060893275129803758953879391826914026502220,
      33158463545693116822651972909798781850846991948684329339364744368545872974520),
     (37769465865260764488641341342657496572877821943635617017522361236405370170074,
      21524189283659296697922248818038271190802922901738131595620300666771256994818,
      3302002464783059699989314449889246503548116645468025923848026230055159029572),
     (9032754135927914315177016811745082997900023602301774812431857322589330235793,
      49104936595367795208550934715440482489378982289242318180349079311408133616697,
      24547133526487284070008382119464277896785380325273977438867266523943034773324)]"

definition xy2d_31 :: "nat list" where
  "xy2d_31 =
    [14350563363428362668753403070446508344335420098325379940543138259171264070384,
     17133998678245817752721391441789166306530241550798022778685672262047609009583,
     38724541401710256678559740569471936530254576790913652461952847290597726107905,
     33572536661375569004921805075754488383867189288021443687547939389622802656662,
     40410227547729570449278558361013843123584963095392248155229714989912163861008,
     51083371696377535553271074166070954184597606090113825130360340447734661982922,
     17700524546259557417286094421919059490082690226425383612740643000279213921603,
     7207970404132647572436087950850948594268869132304907179953143858948358029926]"

lemma row_31_sums: "row_ok row_31"
  by (simp only: row_31_def sums_simps)

lemma row_31_doubles: "doubles_ok (last row_31 # rest_31)"
  by (simp only: row_31_def rest_31_def sums_simps)

lemma row_31_xy2d: "xy2ds_ok row_31 xy2d_31"
  by (simp only: row_31_def xy2d_31_def sums_simps)

lemma row_31_entries: "entries_ok row_31 xy2d_31 ge_base_31"
  by (simp only: row_31_def xy2d_31_def ge_base_31_def limbs_simps)

end
