(* ===== verification/Base_Point.thy ===== *)
theory Base_Point
  imports Scalar Point_Decode Base_Mult Double_Mult Base_Rows_1 Base_Rows_2 Base_Rows_3 Base_Rows_4
begin

text \<open>
  The base point and its tables: \<open>ge_base\<close> and \<open>ge_Bi\<close> hold the multiples of \<open>ed_base\<close> that the
  functions with a fixed base read from them, and \<open>l\<close> times the base point is the neutral element.
\<close>

section \<open>Multiples\<close>

lemma zmul_zmul: "zmul (a * b) g = zmul a (zmul b g)"
proof -
  have n: "zmul (int m * b) g = nmul m (zmul b g)" for m
    by (induction m) (simp_all add: algebra_simps zmul_add)
  obtain m n where a: "a = int m - int n" by (rule int_as_diff)
  have "zmul (a * b) g = nmul m (zmul b g) - nmul n (zmul b g)"
    by (simp add: a left_diff_distrib zmul_sub n)
  then show ?thesis by (simp add: a zmul_diff)
qed

lemma run_affine:
  assumes "affine g P"
  shows "run_ok g (s # ts) \<Longrightarrow> affine s Q \<Longrightarrow> j < Suc (length ts) \<Longrightarrow> affine ((s # ts) ! j) (Q + zmul (int j) P)"
proof (induction ts arbitrary: s Q j)
  case (Cons t ts)
  have t: "affine t (Q + P)" using add_ok [OF Cons.prems(2) assms, of t] Cons.prems(1) by simp
  show ?case
  proof (cases j)
    case (Suc i)
    then show ?thesis using Cons.IH [OF _ t, of i] Cons.prems by (simp add: add.assoc zmul_add)
  qed (use Cons.prems in simp)
qed simp

lemma row_affine:
  assumes "row_ok ps" and "affine (hd ps) P" and "j < length ps"
  shows "affine (ps ! j) (zmul (int j + 1) P)"
proof -
  from assms(1) obtain g s ts where ps: "ps = g # s # ts" and c: "dbl_ok g s" "run_ok g (s # ts)"
    by (cases ps rule: row_ok.cases) auto
  have g: "affine g P" using assms(2) by (simp add: ps)
  have s: "affine s (zmul 2 P)" using dbl_ok [OF g c(1)] zmul_double [of 1 P] by simp
  show ?thesis
  proof (cases j)
    case (Suc i)
    have "affine ((s # ts) ! i) (zmul 2 P + zmul (int i) P)"
      using assms(3) by (intro run_affine [OF g c(2) s]) (simp add: ps Suc)
    then show ?thesis by (simp add: ps Suc add.commute flip: zmul_add)
  qed (simp add: ps g)
qed

lemma doubles_affine: "doubles_ok (s # ts) \<Longrightarrow> affine s (zmul k P) \<Longrightarrow> affine (last (s # ts)) (zmul (2 ^ length ts * k) P)"
proof (induction ts arbitrary: s k)
  case (Cons t ts)
  have "affine t (zmul (2 * k) P)" using dbl_ok [OF Cons.prems(2), of t] Cons.prems(1) by (simp add: zmul_double)
  from Cons.IH [OF _ this] Cons.prems(1) show ?case by (simp add: mult.left_commute mult.assoc)
qed simp

text \<open>Rows linked by doublings: the head of every row is 256 times the one before.\<close>

fun linked :: "triple list list \<Rightarrow> triple list list \<Rightarrow> bool" where
  "linked (r # s # rs) (q # qs) \<longleftrightarrow>
     row_ok r \<and> length r = 8 \<and> doubles_ok (last r # q) \<and> length q = 5 \<and> last q = hd s \<and> linked (s # rs) qs"
| "linked [r] qs \<longleftrightarrow> row_ok r \<and> length r = 8"
| "linked _ _ = False"

lemma linked_heads:
  "linked rs qs \<Longrightarrow> affine (hd (hd rs)) P \<Longrightarrow> i < length rs \<Longrightarrow>
     row_ok (rs ! i) \<and> length (rs ! i) = 8 \<and> affine (hd (rs ! i)) (zmul (256 ^ i) P)"
proof (induction rs qs arbitrary: i P rule: linked.induct)
  case (1 r s rs q qs)
  show ?case
  proof (cases i)
    case (Suc k)
    have r: "length r = 8" "row_ok r" "affine (hd r) P" using 1 by simp_all
    then have ne: "r \<noteq> []" by auto
    have "affine (r ! 7) (zmul 8 P)" using row_affine [OF r(2,3), of 7] r(1) by simp
    then have "affine (last r) (zmul 8 P)" using r(1) ne by (simp add: last_conv_nth)
    from doubles_affine [OF _ this, of q] have "affine (last (last r # q)) (zmul 256 P)" using "1.prems"(1) by simp
    moreover have "q \<noteq> []" using "1.prems"(1) by auto
    ultimately have "affine (hd s) (zmul 256 P)" using "1.prems"(1) by simp
    with "1.IH" [of "zmul 256 P" k] "1.prems" Suc show ?thesis by (simp flip: zmul_zmul add: mult.commute)
  qed (use 1 in simp)
qed (auto simp: less_Suc_eq)


section \<open>Entries\<close>

lemma cong_affine: "of_nat a = (of_int v :: fq) \<Longrightarrow> fe_val f = int a \<or> fe_val f + fe_p = int a \<Longrightarrow> fe_val f mod fe_p = v mod fe_p"
proof -
  assume a: "of_nat a = (of_int v :: fq)" and f: "fe_val f = int a \<or> fe_val f + fe_p = int a"
  from f have "(of_int (fe_val f) :: fq) = of_int (int a)" using fq_zero_iff [of fe_p] by (metis add.right_neutral dvd_refl of_int_add)
  with a show ?thesis by (simp add: cong_iff [symmetric] cong_def)
qed

lemma limbs_rep:
  assumes "limbs_ok f a" and "of_nat a = (of_int v :: fq)"
  shows "fe_rep (2 * fe_tight) f v"
proof -
  have len: "length f = 10" and b: "list_all (\<lambda>x. \<bar>x\<bar> \<le> 33554432) f" using assms(1) by simp_all
  have "\<bar>f ! i\<bar> \<le> 2 * fe_tight * fe_scale i" if "i < 10" for i
  proof -
    have "\<bar>f ! i\<bar> \<le> 33554432" using b that len by (simp add: list_all_length)
    then show ?thesis by (simp add: fe_tight_def fe_scale_def)
  qed
  moreover have "fe_val f = limb_number f"
  proof -
    obtain a b c d e f' g h i j where f: "f = [a, b, c, d, e, f', g, h, i, j]"
      using len by (auto simp: numeral_eq_Suc length_Suc_conv)
    show ?thesis unfolding fe_val_def fe_val_limbs by (simp add: f)
  qed
  moreover have "fe_val f mod fe_p = v mod fe_p"
    by (rule cong_affine [OF assms(2)]) (use assms(1) calculation(2) in simp)
  ultimately show ?thesis using len by (simp add: fe_rep_def fe_bounded_def)
qed

lemma entries_precomp:
  "entries_ok ps ts cs \<Longrightarrow> xy2ds_ok ps ts \<Longrightarrow> j < length ps \<Longrightarrow> affine (ps ! j) P \<Longrightarrow> precomp_is ed_coords (cs ! j) P"
proof (induction ps ts cs arbitrary: j rule: entries_ok.induct)
  case (2 a b m ps t ts c cs)
  show ?case
  proof (cases j)
    case 0
    let ?x = "residue (px P)" and ?y = "residue (py P)"
    have l: "limbs_ok (pc_yplusx c) a" "limbs_ok (pc_yminusx c) b" "limbs_ok (pc_xy2d c) t" and x: "xy2d_ok m t"
      and p: "of_nat a = py P + px P" "of_nat b = py P - px P" "of_nat m = 4 * px P * py P" using 2 0 by simp_all
    have "of_nat m * of_nat ed_2d = 4 * (of_nat t :: fq)"
      using oeq_fq [OF x [unfolded xy2d_ok_def]] unfolding fq_ring by simp
    moreover have d: "(of_nat ed_2d :: fq) = 2 * ed_dd"
    proof -
      have "cong (int ed_2d) (2 * ed_d)"
        unfolding cong_def ed_d_def fe_val_def fe_val_limbs by (simp add: fe_d_def fe_p_def ed_2d_def)
      then show ?thesis by (simp add: cong_iff ed_dd_def)
    qed
    ultimately have "4 * of_nat t = 4 * (2 * ed_dd * px P * py P)" unfolding p by algebra
    then have "of_nat t = 2 * ed_dd * px P * py P" by (simp only: mult_cancel_left fq_numerals simp_thms)
    then show ?thesis
      using 0 l p by (simp add: precomp_is_def precomp_pt_def limbs_rep ed_dd_def del: limbs_ok.simps)
  qed (use 2 in simp)
qed simp_all


section \<open>The base point\<close>

definition base_x :: nat where
  "base_x = 15112221349535400772501151409588531511454012693041857206046113283949847762202"

definition base_y :: nat where
  "base_y = 46316835694926478169428394003475163141307993866256225615783033603165251855960"

definition ed_d_number :: nat where
  "ed_d_number = 37095705934669439343138083508754565189542113879843219016388785533085940283555"

lemma ed_dd_number: "ed_dd = of_nat ed_d_number"
proof -
  have "cong ed_d (int ed_d_number)"
    unfolding cong_def ed_d_def fe_val_def fe_val_limbs by (simp add: fe_d_def fe_p_def ed_d_number_def)
  then show ?thesis by (simp add: cong_iff ed_dd_def)
qed

text \<open>The equation of the curve for given residues.\<close>

definition on_check :: "nat \<Rightarrow> nat \<Rightarrow> nat \<Rightarrow> nat \<Rightarrow> bool" where
  "on_check x y xx yy \<longleftrightarrow>
     oeq (ored (omul x x)) xx \<and> oeq (ored (omul y y)) yy
     \<and> oeq yy (ored (oadd (oadd xx (onum num.One)) (ored (omul (ored (omul xx yy)) ed_d_number))))"

lemma on_equation: "x * x = xx \<Longrightarrow> y * y = yy \<Longrightarrow> yy = xx + 1 + xx * yy * d \<Longrightarrow> y\<^sup>2 - x\<^sup>2 = 1 + d * x\<^sup>2 * (y :: fq)\<^sup>2"
  by (simp add: power2_eq_square algebra_simps)

lemma on_check:
  assumes "on_check x y xx yy"
  shows "ed_on (of_nat x) (of_nat y)"
proof -
  note c = assms [unfolded on_check_def]
  have "of_nat x * of_nat x = (of_nat xx :: fq)" "of_nat y * of_nat y = (of_nat yy :: fq)"
    "of_nat yy = of_nat xx + 1 + of_nat xx * of_nat yy * ed_dd"
    using c [THEN conjunct1, THEN oeq_fq] c [THEN conjunct2, THEN conjunct1, THEN oeq_fq]
      c [THEN conjunct2, THEN conjunct2, THEN oeq_fq] unfolding fq_ring by (simp_all add: ed_dd_number onum_numeral)
  then show ?thesis unfolding ed_on_def by (rule on_equation)
qed

definition ed_base :: ed_point where
  "ed_base = ed_point (of_nat base_x) (of_nat base_y)"

lemma ed_base_coords: "px ed_base = of_nat base_x" "py ed_base = of_nat base_y"
proof -
  have "on_check base_x base_y
    26187595835145689230469591415084376402084551887632582719101735842039498021991
    37053468555941182535542715202780130513046395093004980492626426882532201484768"
    by (simp only: on_check_def base_x_def base_y_def ed_d_number_def octal_simps)
  then have "ed_on (of_nat base_x) (of_nat base_y)" by (rule on_check)
  then show "px ed_base = of_nat base_x" "py ed_base = of_nat base_y" by (simp_all add: ed_base_def)
qed


section \<open>The table \<open>ge_base\<close>\<close>

definition table_rows :: "triple list list" where
  "table_rows = [row_0, row_1, row_2, row_3, row_4, row_5, row_6, row_7, row_8, row_9, row_10, row_11, row_12, row_13, row_14, row_15, row_16, row_17, row_18, row_19, row_20, row_21, row_22, row_23, row_24, row_25, row_26, row_27, row_28, row_29, row_30, row_31]"

definition table_rests :: "triple list list" where
  "table_rests = [rest_0, rest_1, rest_2, rest_3, rest_4, rest_5, rest_6, rest_7, rest_8, rest_9, rest_10, rest_11, rest_12, rest_13, rest_14, rest_15, rest_16, rest_17, rest_18, rest_19, rest_20, rest_21, rest_22, rest_23, rest_24, rest_25, rest_26, rest_27, rest_28, rest_29, rest_30]"

lemmas row_defs = row_0_def row_1_def row_2_def row_3_def row_4_def row_5_def row_6_def row_7_def row_8_def row_9_def row_10_def row_11_def row_12_def row_13_def row_14_def row_15_def row_16_def row_17_def row_18_def row_19_def row_20_def row_21_def row_22_def row_23_def row_24_def row_25_def row_26_def row_27_def row_28_def row_29_def row_30_def row_31_def

lemmas rest_defs = rest_0_def rest_1_def rest_2_def rest_3_def rest_4_def rest_5_def rest_6_def rest_7_def rest_8_def rest_9_def rest_10_def rest_11_def rest_12_def rest_13_def rest_14_def rest_15_def rest_16_def rest_17_def rest_18_def rest_19_def rest_20_def rest_21_def rest_22_def rest_23_def rest_24_def rest_25_def rest_26_def rest_27_def rest_28_def rest_29_def rest_30_def

lemma row_lengths: "length row_0 = 8" "length row_1 = 8" "length row_2 = 8" "length row_3 = 8" "length row_4 = 8" "length row_5 = 8" "length row_6 = 8" "length row_7 = 8" "length row_8 = 8" "length row_9 = 8" "length row_10 = 8" "length row_11 = 8" "length row_12 = 8" "length row_13 = 8" "length row_14 = 8" "length row_15 = 8" "length row_16 = 8" "length row_17 = 8" "length row_18 = 8" "length row_19 = 8" "length row_20 = 8" "length row_21 = 8" "length row_22 = 8" "length row_23 = 8" "length row_24 = 8" "length row_25 = 8" "length row_26 = 8" "length row_27 = 8" "length row_28 = 8" "length row_29 = 8" "length row_30 = 8" "length row_31 = 8"
  by (simp_all add: row_defs)

lemma rest_lengths: "length rest_0 = 5" "length rest_1 = 5" "length rest_2 = 5" "length rest_3 = 5" "length rest_4 = 5" "length rest_5 = 5" "length rest_6 = 5" "length rest_7 = 5" "length rest_8 = 5" "length rest_9 = 5" "length rest_10 = 5" "length rest_11 = 5" "length rest_12 = 5" "length rest_13 = 5" "length rest_14 = 5" "length rest_15 = 5" "length rest_16 = 5" "length rest_17 = 5" "length rest_18 = 5" "length rest_19 = 5" "length rest_20 = 5" "length rest_21 = 5" "length rest_22 = 5" "length rest_23 = 5" "length rest_24 = 5" "length rest_25 = 5" "length rest_26 = 5" "length rest_27 = 5" "length rest_28 = 5" "length rest_29 = 5" "length rest_30 = 5"
  by (simp_all add: rest_defs)

lemma rest_last: "last rest_0 = hd row_1" "last rest_1 = hd row_2" "last rest_2 = hd row_3" "last rest_3 = hd row_4" "last rest_4 = hd row_5" "last rest_5 = hd row_6" "last rest_6 = hd row_7" "last rest_7 = hd row_8" "last rest_8 = hd row_9" "last rest_9 = hd row_10" "last rest_10 = hd row_11" "last rest_11 = hd row_12" "last rest_12 = hd row_13" "last rest_13 = hd row_14" "last rest_14 = hd row_15" "last rest_15 = hd row_16" "last rest_16 = hd row_17" "last rest_17 = hd row_18" "last rest_18 = hd row_19" "last rest_19 = hd row_20" "last rest_20 = hd row_21" "last rest_21 = hd row_22" "last rest_22 = hd row_23" "last rest_23 = hd row_24" "last rest_24 = hd row_25" "last rest_25 = hd row_26" "last rest_26 = hd row_27" "last rest_27 = hd row_28" "last rest_28 = hd row_29" "last rest_29 = hd row_30" "last rest_30 = hd row_31"
  by (simp_all add: row_defs rest_defs)

lemmas row_sums = row_0_sums row_1_sums row_2_sums row_3_sums row_4_sums row_5_sums row_6_sums row_7_sums row_8_sums row_9_sums row_10_sums row_11_sums row_12_sums row_13_sums row_14_sums row_15_sums row_16_sums row_17_sums row_18_sums row_19_sums row_20_sums row_21_sums row_22_sums row_23_sums row_24_sums row_25_sums row_26_sums row_27_sums row_28_sums row_29_sums row_30_sums row_31_sums

lemmas row_doubles = row_0_doubles row_1_doubles row_2_doubles row_3_doubles row_4_doubles row_5_doubles row_6_doubles row_7_doubles row_8_doubles row_9_doubles row_10_doubles row_11_doubles row_12_doubles row_13_doubles row_14_doubles row_15_doubles row_16_doubles row_17_doubles row_18_doubles row_19_doubles row_20_doubles row_21_doubles row_22_doubles row_23_doubles row_24_doubles row_25_doubles row_26_doubles row_27_doubles row_28_doubles row_29_doubles row_30_doubles

lemma table_linked: "linked table_rows table_rests"
  by (simp only: table_rows_def table_rests_def linked.simps row_lengths rest_lengths rest_last row_sums row_doubles simp_thms)

lemma base_affine: "affine (hd row_0) ed_base"
proof -
  have "row_0 = hd row_0 # tl row_0" by (simp add: row_0_def)
  have h: "hd row_0 = (3533012425803781230144052908719740726127014226477800802100354883158534798213,
      31204614345391077396927242593886631629853981173214368409736920319215404093758,
      13621481547318423844932389008076928480671845218041773847510287306265573947077)" by (simp add: row_0_def)
  define m where "m = ored (omul base_x base_y)"
  have c: "oeq (oadd base_y base_x) (fst (hd row_0))" "oeq (ored (osub base_y base_x)) (fst (snd (hd row_0)))" "ohigh t86 base_x = oz"
    "oeq (ored (oadd (oadd m m) (oadd m m))) (snd (snd (hd row_0)))"
    unfolding m_def by (simp_all only: h fst_conv snd_conv base_x_def base_y_def octal_simps)
  note q = c(1,2,4) [THEN oeq_fq, unfolded fq_ring m_def, unfolded fq_sub [OF c(3)]]
  obtain a b n where r: "hd row_0 = (a, b, n)" by (rule prod_cases3)
  show ?thesis using q by (simp add: r ed_base_coords mult.assoc)
qed

lemma table_row:
  assumes "i < 32" and "r = table_rows ! i"
  shows "row_ok r" and "length r = 8" and "affine (hd r) (zmul (256 ^ i) ed_base)"
proof -
  have "hd table_rows = row_0" "length table_rows = 32" by (simp_all add: table_rows_def)
  then show "row_ok r" "length r = 8" "affine (hd r) (zmul (256 ^ i) ed_base)"
    using linked_heads [OF table_linked, of ed_base i] base_affine assms by simp_all
qed

definition table_xy2ds :: "nat list list" where
  "table_xy2ds = [xy2d_0, xy2d_1, xy2d_2, xy2d_3, xy2d_4, xy2d_5, xy2d_6, xy2d_7, xy2d_8, xy2d_9, xy2d_10, xy2d_11, xy2d_12, xy2d_13, xy2d_14, xy2d_15, xy2d_16, xy2d_17, xy2d_18, xy2d_19, xy2d_20, xy2d_21, xy2d_22, xy2d_23, xy2d_24, xy2d_25, xy2d_26, xy2d_27, xy2d_28, xy2d_29, xy2d_30, xy2d_31]"

lemmas row_xy2ds = row_0_xy2d row_1_xy2d row_2_xy2d row_3_xy2d row_4_xy2d row_5_xy2d row_6_xy2d row_7_xy2d row_8_xy2d row_9_xy2d row_10_xy2d row_11_xy2d row_12_xy2d row_13_xy2d row_14_xy2d row_15_xy2d row_16_xy2d row_17_xy2d row_18_xy2d row_19_xy2d row_20_xy2d row_21_xy2d row_22_xy2d row_23_xy2d row_24_xy2d row_25_xy2d row_26_xy2d row_27_xy2d row_28_xy2d row_29_xy2d row_30_xy2d row_31_xy2d

lemmas row_entries = row_0_entries row_1_entries row_2_entries row_3_entries row_4_entries row_5_entries row_6_entries row_7_entries row_8_entries row_9_entries row_10_entries row_11_entries row_12_entries row_13_entries row_14_entries row_15_entries row_16_entries row_17_entries row_18_entries row_19_entries row_20_entries row_21_entries row_22_entries row_23_entries row_24_entries row_25_entries row_26_entries row_27_entries row_28_entries row_29_entries row_30_entries row_31_entries

lemma table_entries:
  "list_all2 (\<lambda>(r, t) c. entries_ok r t c \<and> xy2ds_ok r t) (zip table_rows table_xy2ds) ge_base"
  by (simp only: table_rows_def table_xy2ds_def ge_base_def zip_Cons_Cons zip_Nil list_all2_Cons list_all2_Nil prod.case
      row_xy2ds row_entries simp_thms)

theorem ge_base_table: "table_of ed_coords ge_base ed_base"
  unfolding table_of_def
proof (intro allI impI)
  fix i j :: nat
  assume i: "i < 32" and j: "j < 8"
  let ?r = "table_rows ! i" and ?t = "table_xy2ds ! i"
  have len: "length table_rows = 32" "length table_xy2ds = 32" by (simp_all add: table_rows_def table_xy2ds_def)
  from list_all2_nthD [OF table_entries, of i] have e: "entries_ok ?r ?t (ge_base ! i)" "xy2ds_ok ?r ?t"
    using i len by simp_all
  note r = table_row [OF i refl]
  have "affine (?r ! j) (zmul (int j + 1) (zmul (256 ^ i) ed_base))"
    by (rule row_affine [OF r(1,3)]) (simp add: r(2) j)
  then have a: "affine (?r ! j) (zmul (256 ^ i * (int j + 1)) ed_base)" by (simp only: zmul_zmul [symmetric] mult.commute)
  show "precomp_is ed_coords (ge_base ! i ! j) (zmul (256 ^ i * (int j + 1)) ed_base)"
    by (rule entries_precomp [OF e _ a]) (simp add: r(2) j)
qed


section \<open>The table \<open>ge_Bi\<close>\<close>

definition odd_row :: "triple list" where
  "odd_row =
    [(3533012425803781230144052908719740726127014226477800802100354883158534798213,
      31204614345391077396927242593886631629853981173214368409736920319215404093758,
      13621481547318423844932389008076928480671845218041773847510287306265573947077),
     (55221577242988382633613921715755988927347615506430221002982523990194636363568,
      19324154932736603031152325029326367275890211278985171650228672434569381466725,
      18636768049439262912846112718494667691362386871051631200531164609680862253179),
     (18668153700450365046820768141064729913722721519882092422277400263756282706739,
      9630189248235390748103966146409333440210333639383242876188677650069613696698,
      36837606618055379788354102880411274885248357968626847252925238082947197699961),
     (31711222115254622247534096269438047277815809670749515453120456498656435938239,
      13312953584136576304523025463821328163824699951717010248032899908581467496881,
      31877225379758397792435118480996571992636978243915343036750464554447157572716),
     (23848771936779537706600755363852330642691035199144679981329841599443567665967,
      33358695950361614583925271808519256405884421684945271723330695989338484605028,
      51457551349924515929359488380063524378018853228504564439505168975720266584506),
     (30060548511792857161490863918616842674472112613249574336675186204794201058014,
      11158256924779282454740543163093780811298074430862908234953982287139410690888,
      48670601650607990360978818299842102428197526794109594529602597948155482848118),
     (15972020931028765202356936322618908365444234765594279114894468132403870203757,
      1087550798001203620797136749953957393762725578137024723030949917728262045587,
      2092132526972485615649625918041922724519914776579930983280716564600303697266),
     (44273937366294891980395583359278962421509549251851624370413480066653195594400,
      30626176813774521173184229023175236149481611499753231178919926386272687148811,
      54644605840506020920861136001697349161448231662598257989834097549758199168202)]"

definition odd_xy2d :: "nat list" where
  "odd_xy2d =
    [50237614328228664512531835696112167678046477356841409204013502641986506238568,
     40779097241408971452228116607583414735230162954196233009433085899742953658505,
     30606639029984443449548711300126286734648431208933888345371544935567354135173,
     55464387603073125013932436385527479500842401496857817399907801729203523072930,
     52357765926424945578408752779084598596693712112103136963171288052321514532635,
     27941507066570052986778351271715755022397500567158991111890716087464763623913,
     33237312664213247073394209876351444910698636488186827598268510754927446762360,
     36689249660344293493892821654230283378144754582372867911177117475716794987798]"

lemma odd_row_sums: "run_ok (hd (tl row_0)) odd_row"
  by (simp only: odd_row_def row_0_def list.sel sums_simps)

lemma odd_row_xy2d: "xy2ds_ok odd_row odd_xy2d"
  by (simp only: odd_row_def odd_xy2d_def sums_simps)

lemma odd_row_entries: "entries_ok odd_row odd_xy2d ge_Bi"
  by (simp only: odd_row_def odd_xy2d_def ge_Bi_def limbs_simps)

theorem ge_Bi_table: "odd_precomp ed_coords ge_Bi ed_base"
  unfolding odd_precomp_def
proof (intro conjI allI impI)
  show "length ge_Bi = 8" by (simp add: ge_Bi_def)
  fix k :: nat
  assume k: "k < 8"
  have r0: "hd odd_row = hd row_0" "odd_row = hd odd_row # tl odd_row" "length odd_row = 8" "hd (tl row_0) = row_0 ! 1"
    by (simp_all add: odd_row_def row_0_def)
  have two: "affine (hd (tl row_0)) (zmul 2 ed_base)"
    using row_affine [OF table_row(1), of 0 row_0 ed_base 1] table_row [of 0 row_0] r0(4) by (simp add: table_rows_def)
  have "affine (hd odd_row) ed_base" using base_affine r0(1) by simp
  from run_affine [OF two _ this, of "tl odd_row" k] have "affine (odd_row ! k) (ed_base + zmul (int k) (zmul 2 ed_base))"
    using odd_row_sums r0(2,3) k by simp
  moreover have "ed_base + zmul (int k) (zmul 2 ed_base) = zmul (2 * int k + 1) ed_base"
    by (simp add: zmul_zmul [symmetric] zmul_add add.commute mult.commute)
  ultimately have a: "affine (odd_row ! k) (zmul (2 * int k + 1) ed_base)" by simp
  show "precomp_is ed_coords (ge_Bi ! k) (zmul (2 * int k + 1) ed_base)"
    by (rule entries_precomp [OF odd_row_entries odd_row_xy2d _ a]) (simp add: r0(3) k)
qed


section \<open>The order of the base point\<close>

text \<open>Minus a point, and sums of given points.\<close>

fun negt :: "triple \<Rightarrow> triple" where
  "negt (a, b, m) = (b, a, ored (omul m 57896044618658097711785492504343953926634992332820282019728792003956564819948))"

lemma negt_affine:
  assumes "affine t P"
  shows "affine (negt t) (- P)"
proof -
  obtain a b m where t: "t = (a, b, m)" by (rule prod_cases3)
  have "(of_nat 57896044618658097711785492504343953926634992332820282019728792003956564819948 :: fq) + 1 = 0"
    using fq_prime by (simp add: oprime_def)
  then have "(of_nat 57896044618658097711785492504343953926634992332820282019728792003956564819948 :: fq) = - 1"
    by (simp add: add_eq_0_iff2)
  then show ?thesis using assms by (simp add: t fq_ring del: of_nat_numeral)
qed

fun sum_ok :: "triple list \<Rightarrow> triple list \<Rightarrow> bool" where
  "sum_ok (s # t # ts) (r # rs) \<longleftrightarrow> add_ok s t r \<and> sum_ok (r # ts) rs"
| "sum_ok [s] [] = True"
| "sum_ok _ _ = False"

lemma sum_affine:
  "sum_ok ts rs \<Longrightarrow> list_all2 (\<lambda>t k. affine t (zmul k g)) ts ks \<Longrightarrow> affine (last (hd ts # rs)) (zmul (sum_list ks) g)"
proof (induction ts rs arbitrary: ks rule: sum_ok.induct)
  case (1 s t ts r rs)
  from "1.prems"(2) obtain k l ms where ks: "ks = k # l # ms" "affine s (zmul k g)" "affine t (zmul l g)"
    "list_all2 (\<lambda>t k. affine t (zmul k g)) ts ms" by (auto simp: list_all2_Cons1)
  have "affine r (zmul (k + l) g)" using add_ok [OF ks(2,3), of r] "1.prems"(1) by (simp add: zmul_add)
  with "1.IH" [of "(k + l) # ms"] "1.prems"(1) ks show ?case by (simp add: add.assoc)
qed (auto simp: list_all2_Cons1)

lemma base_items:
  assumes "i < 32" and "r = table_rows ! i"
  shows "affine (hd r) (zmul (256 ^ i * 1) ed_base)" "affine (hd (tl r)) (zmul (256 ^ i * 2) ed_base)" "affine (hd (tl (tl r))) (zmul (256 ^ i * 3) ed_base)" "affine (hd (tl (tl (tl r)))) (zmul (256 ^ i * 4) ed_base)" "affine (hd (tl (tl (tl (tl r))))) (zmul (256 ^ i * 5) ed_base)" "affine (hd (tl (tl (tl (tl (tl r)))))) (zmul (256 ^ i * 6) ed_base)" "affine (hd (tl (tl (tl (tl (tl (tl r))))))) (zmul (256 ^ i * 7) ed_base)" "affine (hd (tl (tl (tl (tl (tl (tl (tl r)))))))) (zmul (256 ^ i * 8) ed_base)"
    and "affine (negt (hd r)) (zmul (256 ^ i * (- 1)) ed_base)" "affine (negt (hd (tl r))) (zmul (256 ^ i * (- 2)) ed_base)" "affine (negt (hd (tl (tl r)))) (zmul (256 ^ i * (- 3)) ed_base)" "affine (negt (hd (tl (tl (tl r))))) (zmul (256 ^ i * (- 4)) ed_base)" "affine (negt (hd (tl (tl (tl (tl r)))))) (zmul (256 ^ i * (- 5)) ed_base)" "affine (negt (hd (tl (tl (tl (tl (tl r))))))) (zmul (256 ^ i * (- 6)) ed_base)" "affine (negt (hd (tl (tl (tl (tl (tl (tl r)))))))) (zmul (256 ^ i * (- 7)) ed_base)" "affine (negt (hd (tl (tl (tl (tl (tl (tl (tl r))))))))) (zmul (256 ^ i * (- 8)) ed_base)"
proof -
  note t = table_row [OF assms]
  obtain a b c d e f g h where r: "r = [a, b, c, d, e, f, g, h]" using t(2) by (auto simp: numeral_eq_Suc length_Suc_conv)
  have "affine (r ! j) (zmul (256 ^ i * (int j + 1)) ed_base)" if "j < 8" for j
    using row_affine [OF t(1,3), of j] that t(2) by (simp add: zmul_zmul [symmetric] mult.commute)
  note q = this [of 0] this [of 1] this [of 2] this [of 3] this [of 4] this [of 5] this [of 6] this [of 7]
  show p: "affine (hd r) (zmul (256 ^ i * 1) ed_base)" "affine (hd (tl r)) (zmul (256 ^ i * 2) ed_base)" "affine (hd (tl (tl r))) (zmul (256 ^ i * 3) ed_base)" "affine (hd (tl (tl (tl r)))) (zmul (256 ^ i * 4) ed_base)" "affine (hd (tl (tl (tl (tl r))))) (zmul (256 ^ i * 5) ed_base)" "affine (hd (tl (tl (tl (tl (tl r)))))) (zmul (256 ^ i * 6) ed_base)" "affine (hd (tl (tl (tl (tl (tl (tl r))))))) (zmul (256 ^ i * 7) ed_base)" "affine (hd (tl (tl (tl (tl (tl (tl (tl r)))))))) (zmul (256 ^ i * 8) ed_base)"
    using q by (simp_all add: r)
  show "affine (negt (hd r)) (zmul (256 ^ i * (- 1)) ed_base)" "affine (negt (hd (tl r))) (zmul (256 ^ i * (- 2)) ed_base)" "affine (negt (hd (tl (tl r)))) (zmul (256 ^ i * (- 3)) ed_base)" "affine (negt (hd (tl (tl (tl r))))) (zmul (256 ^ i * (- 4)) ed_base)" "affine (negt (hd (tl (tl (tl (tl r)))))) (zmul (256 ^ i * (- 5)) ed_base)" "affine (negt (hd (tl (tl (tl (tl (tl r))))))) (zmul (256 ^ i * (- 6)) ed_base)" "affine (negt (hd (tl (tl (tl (tl (tl (tl r)))))))) (zmul (256 ^ i * (- 7)) ed_base)" "affine (negt (hd (tl (tl (tl (tl (tl (tl (tl r))))))))) (zmul (256 ^ i * (- 8)) ed_base)"
    using p [THEN negt_affine] by (simp_all add: zmul_minus)
qed

definition even_sums :: "triple list" where
  "even_sums =
    [(8473053256207828312216661885385859422924129539824333265828125930033315205003,
      50978251951976952343544066056481751435976986775201891835247984095367265348085,
      23046553434728041563142221776920141730444599289142873905360385533227643783863),
     (43656510208451879503350259320293139645515074106940291003958014508725722159797,
      28155229024007879986583052572546871924443806351629643022972943641616673554057,
      54648611778087746375052417884228822102347360220124318315091243275278216931114),
     (57328110286255044473208337113722167895529920696020739617910891713870754190875,
      49756767510169378685268250448602937284915175718186978021748138409906287278244,
      43055975345791694019657143432259960409248290756742180210181853643359624722032),
     (57684489142743619667044547703281074078814932736384497330848800161707757254909,
      18043953875599901805109524354181366016572714403993811920559392073473790390796,
      48860737361324869073604766572787514269663083080690178476667326147885304497552),
     (36581607972881824709611315909370265650577071768907692307222719225844183824165,
      22916865407202806617116458486127218582582823768966419651157647509038817850206,
      3888084634047893060292760025297737939010186484874401005592977967332386853716),
     (41361193739213845480267130831913941237020734283261734162633296145947461937826,
      43365801695482534433132346871408556600109540556753240433295839082725579734972,
      38837002060711139072330391184566653801364760766221749193101374747116845986159),
     (16819842584713369773857382809824502479433883567922209312891464500439948266243,
      337072803399157959178731793484084092135141187035683892739508929118117758042,
      29675104072093969109304560738414856572252297190479331585138353774884364839009),
     (13431946499027451147059849998031793814754527123940271457644933887643554850961,
      12003163119585539669562728366537803167015656047646557367709157254471268995990,
      7561042961238058697093334897389255576830903312957439855679459412265705600373),
     (17359009115145080724723808209009424437667842057323808418246649359333410663059,
      9458932937016752169862565035429682460641974831292459436041994428246949037399,
      42688136254869768818631964241505066703950791315247166421328904703211936636800),
     (6700001096288327945124774708704658957457300726073587262156148865438158170869,
      20167483795519099189383372746672337682780496017322188716543583561944783860462,
      12142624916327134338530860486150928187048978590718619922077723775972516765539),
     (46232262325510047268671694307195961310544010985624601474649943825623797441525,
      33756717353949180681729921274940346825159353227720583205397305061166888833690,
      24836864723362943004239609825060646983276243106216473652321216664510535412667),
     (11088895953149231698412241669414025546086208397391397533903572163911247406930,
      15636394358831094517871275176126929615372767729480120638051478304272299194439,
      38964907065675861923909172181618742279141931984820557172355450013786070491524),
     (15983870506295013916258552716401823411482823057751052368014678560516405177767,
      40488849537747873455640694399345844107707714859249606782895057585624163627878,
      10272609151532767735655171196086585926682507910463382494695101968862458211773),
     (34100007717517174633230994718446286753823694058384836515642546847878504832293,
      57471074680717854487523280570009513340750982586592109305337940227688778396922,
      24895931439306359875898612265219783277370854398275115048897919972440708402070),
     (20319284362180207232131331045059270695198137675544136496522310104237169475690,
      48163417492068879204284905947811655300869131664451481845624994165550001343518,
      14819945002623088486320655265420656221754505093602808551293421600575018633335)]"

definition even_items :: "triple list" where
  "even_items =
    [negt (hd (tl (tl row_0))),
     hd (tl (tl (tl row_1))),
     hd (tl (tl (tl (tl (tl row_2))))),
     negt (hd (tl (tl row_3))),
     negt (hd (tl (tl (tl (tl (tl row_4)))))),
     hd (tl (tl row_5)),
     hd (tl row_6),
     hd (tl (tl (tl (tl (tl (tl (tl row_7))))))),
     hd (tl (tl (tl (tl (tl row_8))))),
     negt (hd (tl (tl row_9))),
     hd (tl (tl (tl (tl (tl (tl (tl row_10))))))),
     hd (tl (tl row_11)),
     negt (hd row_12),
     negt (hd (tl (tl (tl (tl (tl row_13)))))),
     negt (hd row_14),
     hd (tl (tl (tl (tl row_15))))]"

lemma even_check: "sum_ok even_items even_sums"
  by (simp only: even_items_def even_sums_def sum_ok.simps list.sel negt.simps row_defs sums_simps)

definition odd_sums :: "triple list" where
  "odd_sums =
    [(23769934497292281415068266250522778588250675138782825606066635695741658135318,
      2511408422714480769584490509596494832914033984958994768506794335338774122969,
      50760751232580325206103685689054763592054581855527539386422301229157793175741),
     (23254611565599062886139510587948190010283958254216996436599648515530766058433,
      32739744448561158768806472604817856462049450824936739026153714154203473994406,
      25414998794198506492253606512134562161868827621679042215092160280676478071861),
     (57328412721977361350265095278693779573751008664563873289513732429127803561416,
      23513752573035684870248689495247616313452945848925349302576029881992527828706,
      39643367776708927041503542212844308688531570279802233432576231184148461547338),
     (42273407689856938701276356271294635820120416579362207474619734898936195955642,
      18817712211418263836268321905412530548007768814347513530919909910919210143674,
      8641925706158061913583978841256902984539179146554331919153852986399628642520),
     (46732569423180168700360225083517689892642804554676917873028002554444957551840,
      46788238892001171678956642771047324882153300901172708163761666249166080686482,
      24313976858667388100164685067594755236791245609252560542738307482011019779387),
     (45545153275626371251676599726579726086462259730598158532604927674414685335624,
      51610601689831644342174483056112756335015034862407620356590813910273742599353,
      55984994586349481919557287143514357621232742256650799766630292704812875521609),
     (36541158078600177429615475467173320752430049486953701504554798052086288662474,
      22029508826625849066968999295098791949734085648902363355059783801806596421346,
      46272293633752293144542051097736312357893147702313644319067647245896943988943),
     (48325174494376032387393811867583628812181596410299868765999143017363217114910,
      54101191411263427265394131560866375903788585692202870852700579414648009737282,
      39328490838119921141315898263111289147207333936743763731093829044150010455577),
     (33234622995010286635864273551043243738238159568764380607395884937135083847226,
      3654222457736627489644683887040229217095343496433906246177164859789847136063,
      10880770443499937268295365606379341616787774973277824856307508806158810004223),
     (6878523918738096166164748270662437329277800028435436352113603984217811163092,
      57599555766582193046975161951131457197495940331680281835127511012623426309794,
      47300501818005054318089761493032964130038081013864426059409424430391855235970),
     (48383129738198077457807857737011567906739243104851169640058587501838326072453,
      26837249661785917417202669292227186666264829070005850124873406177498416152558,
      43866575198467836153968248825169768951994310415775822472760263272826915746832),
     (6976347486225424313595596696063937587986653281106571242153831337157817326973,
      19525473690377528487467814698658023026438130737238398742165498962540957787847,
      52076740033793223550002890736333523075754330944148208939735134846892416618464),
     (35538024755804777622750613929432020382151701902237999065191269923072382391589,
      54256910426052250404807581642366673871492234098655625266025464046517920878492,
      33864766498482065059023716545257869048348484632155475440355179945473869583144),
     (47899380132590677954194006255918116307049504794346369175150846718975536093129,
      57224835028237826458681609424332457937352243909424371052091113407846111059226,
      23391551389607433835879240356531918477524895880049976540422476256107026709744),
     (11648171493203726864822354016691381365362945441456120521452018197097756790560,
      45057619593937652283909606974990174738167640843023561250426130373336933998819,
      43930607598380224388155749899084792519314663644593423798825239448304982171047)]"

definition odd_items :: "triple list" where
  "odd_items =
    [negt (hd row_0),
     negt (hd (tl (tl row_1))),
     negt (hd row_2),
     hd (tl (tl (tl (tl (tl row_3))))),
     hd (tl row_4),
     hd (tl (tl (tl (tl (tl row_5))))),
     hd row_6,
     hd (tl (tl (tl (tl row_7)))),
     negt (hd (tl (tl row_8))),
     negt (hd (tl (tl (tl (tl (tl row_9)))))),
     negt (hd row_10),
     negt (hd (tl (tl (tl (tl (tl row_11)))))),
     negt (hd (tl row_12)),
     negt (hd (tl row_14)),
     hd row_15,
     hd row_31]"

lemma odd_check: "sum_ok odd_items odd_sums"
  by (simp only: odd_items_def odd_sums_def sum_ok.simps list.sel negt.simps row_defs sums_simps)

definition odd_doubles :: "triple list" where
  "odd_doubles =
    [(22386505650739818456310247368636379979886926545470330245863386559718005724469,
      35585603166358319604241485361598474461073350007508624358214075071773730162779,
      14717010048299888174312888986969766770942767606733731076156079304258743452345),
     (5419633093881277494251247184178985748174647949544415886378771937798635564022,
      15196845673095381756386268963335912874552198363118866647306468000616585989874,
      18108486807095599752053241731618966478661401619809747522461406004211083124131),
     (5721278799400224979350416003246689555663283075288246699604295163992958802586,
      31754924919287283397396132383276967411306022330722502676968221374250029615592,
      38007028702214103634837431331562830570290434561523632436162130059031255095886),
     (48163417492068879204284905947811655300869131664451481845624994165550001343518,
      20319284362180207232131331045059270695198137675544136496522310104237169475690,
      43076099616035009225464837238923297704880487239217473468435370403381546186614)]"

lemma odd_doubles_check: "doubles_ok (last odd_sums # odd_doubles)"
  by (simp only: odd_sums_def odd_doubles_def sums_simps)

lemma even_affine: "affine (last even_sums) (zmul (sum_list [256 ^ 0 * (-3), 256 ^ 1 * 4, 256 ^ 2 * 6, 256 ^ 3 * (-3), 256 ^ 4 * (-6), 256 ^ 5 * 3, 256 ^ 6 * 2, 256 ^ 7 * 8, 256 ^ 8 * 6, 256 ^ 9 * (-3), 256 ^ 10 * 8, 256 ^ 11 * 3, 256 ^ 12 * (-1), 256 ^ 13 * (-6), 256 ^ 14 * (-1), 256 ^ 15 * 5]) ed_base)"
proof -
  have "list_all2 (\<lambda>t k. affine t (zmul k ed_base)) even_items [256 ^ 0 * (-3), 256 ^ 1 * 4, 256 ^ 2 * 6, 256 ^ 3 * (-3), 256 ^ 4 * (-6), 256 ^ 5 * 3, 256 ^ 6 * 2, 256 ^ 7 * 8, 256 ^ 8 * 6, 256 ^ 9 * (-3), 256 ^ 10 * 8, 256 ^ 11 * 3, 256 ^ 12 * (-1), 256 ^ 13 * (-6), 256 ^ 14 * (-1), 256 ^ 15 * 5]"
    unfolding even_items_def by (intro list.rel_intros base_items) (simp_all add: table_rows_def)
  from sum_affine [OF even_check this] show ?thesis by (simp add: even_sums_def)
qed

lemma odd_affine: "affine (last odd_doubles) (zmul (16 * sum_list [256 ^ 0 * (-1), 256 ^ 1 * (-3), 256 ^ 2 * (-1), 256 ^ 3 * 6, 256 ^ 4 * 2, 256 ^ 5 * 6, 256 ^ 6 * 1, 256 ^ 7 * 5, 256 ^ 8 * (-3), 256 ^ 9 * (-6), 256 ^ 10 * (-1), 256 ^ 11 * (-6), 256 ^ 12 * (-2), 256 ^ 14 * (-2), 256 ^ 15 * 1, 256 ^ 31 * 1]) ed_base)"
proof -
  have "list_all2 (\<lambda>t k. affine t (zmul k ed_base)) odd_items [256 ^ 0 * (-1), 256 ^ 1 * (-3), 256 ^ 2 * (-1), 256 ^ 3 * 6, 256 ^ 4 * 2, 256 ^ 5 * 6, 256 ^ 6 * 1, 256 ^ 7 * 5, 256 ^ 8 * (-3), 256 ^ 9 * (-6), 256 ^ 10 * (-1), 256 ^ 11 * (-6), 256 ^ 12 * (-2), 256 ^ 14 * (-2), 256 ^ 15 * 1, 256 ^ 31 * 1]"
    unfolding odd_items_def by (intro list.rel_intros base_items) (simp_all add: table_rows_def)
  from sum_affine [OF odd_check this] have "affine (last odd_sums) (zmul (sum_list [256 ^ 0 * (-1), 256 ^ 1 * (-3), 256 ^ 2 * (-1), 256 ^ 3 * 6, 256 ^ 4 * 2, 256 ^ 5 * 6, 256 ^ 6 * 1, 256 ^ 7 * 5, 256 ^ 8 * (-3), 256 ^ 9 * (-6), 256 ^ 10 * (-1), 256 ^ 11 * (-6), 256 ^ 12 * (-2), 256 ^ 14 * (-2), 256 ^ 15 * 1, 256 ^ 31 * 1]) ed_base)" by (simp add: odd_sums_def)
  from doubles_affine [OF odd_doubles_check this] show ?thesis by (simp add: odd_doubles_def)
qed

theorem base_order: "zmul sc_l ed_base = 0"
proof -
  have s: "sc_l = sum_list [256 ^ 0 * (-3), 256 ^ 1 * 4, 256 ^ 2 * 6, 256 ^ 3 * (-3), 256 ^ 4 * (-6), 256 ^ 5 * 3, 256 ^ 6 * 2, 256 ^ 7 * 8, 256 ^ 8 * 6, 256 ^ 9 * (-3), 256 ^ 10 * 8, 256 ^ 11 * 3, 256 ^ 12 * (-1), 256 ^ 13 * (-6), 256 ^ 14 * (-1), 256 ^ 15 * 5] + 16 * sum_list [256 ^ 0 * (-1), 256 ^ 1 * (-3), 256 ^ 2 * (-1), 256 ^ 3 * 6, 256 ^ 4 * 2, 256 ^ 5 * 6, 256 ^ 6 * 1, 256 ^ 7 * 5, 256 ^ 8 * (-3), 256 ^ 9 * (-6), 256 ^ 10 * (-1), 256 ^ 11 * (-6), 256 ^ 12 * (-2), 256 ^ 14 * (-2), 256 ^ 15 * 1, 256 ^ 31 * 1]" by (simp add: sc_l_def)
  define A B where "A = zmul (sum_list [256 ^ 0 * (-3), 256 ^ 1 * 4, 256 ^ 2 * 6, 256 ^ 3 * (-3), 256 ^ 4 * (-6), 256 ^ 5 * 3, 256 ^ 6 * 2, 256 ^ 7 * 8, 256 ^ 8 * 6, 256 ^ 9 * (-3), 256 ^ 10 * 8, 256 ^ 11 * 3, 256 ^ 12 * (-1), 256 ^ 13 * (-6), 256 ^ 14 * (-1), 256 ^ 15 * 5]) ed_base" and "B = zmul (16 * sum_list [256 ^ 0 * (-1), 256 ^ 1 * (-3), 256 ^ 2 * (-1), 256 ^ 3 * 6, 256 ^ 4 * 2, 256 ^ 5 * 6, 256 ^ 6 * 1, 256 ^ 7 * 5, 256 ^ 8 * (-3), 256 ^ 9 * (-6), 256 ^ 10 * (-1), 256 ^ 11 * (-6), 256 ^ 12 * (-2), 256 ^ 14 * (-2), 256 ^ 15 * 1, 256 ^ 31 * 1]) ed_base"
  obtain a b m n where l: "last even_sums = (a, b, m)" "last odd_doubles = (b, a, n)"
    by (simp add: even_sums_def odd_doubles_def)
  have "py A + px A = py B - px B" "py A - px A = py B + px B"
    using even_affine odd_affine unfolding l A_def [symmetric] B_def [symmetric] by simp_all
  then have "2 * py A = 2 * py B" "2 * px A = 2 * (- px B)" by algebra+
  then have "py A = py B" "px A = - px B" by (simp_all only: mult_cancel_left fq_numerals simp_thms)
  then have "A = - B" by (intro ed_point_eqI) simp_all
  then show ?thesis unfolding s zmul_add A_def [symmetric] B_def [symmetric] by simp
qed

end
