(* ===== verification/Prime_Order.thy ===== *)
theory Prime_Order
  imports Prime_Check
begin

text \<open>
  The order \<open>l = 2\<^sup>2\<^sup>5\<^sup>2 + 27742317777372353535851937790883648493\<close> of the base point is prime.
\<close>

lemma prime_e1: "is_prime 2551"
  by (rule is_prime_trial [where k = 51]) (simp_all add: upt_rec)

section \<open>21 bits\<close>

definition red_e2 :: "nat \<Rightarrow> nat option" where
  "red_e2 = red_any (cut_at 8) 15552735 (cut_at 6) (cut_at 10) 229872882"

interpretation red_e2: reduction red_e2 "1224481"
  unfolding red_e2_def by (rule red_any_reduction) (simp add: cut_at_def)

lemma e2_run0: "is_number (pow_run red_e2 921659 (digits_of 2551) (Some 921659)) 1224482"
  by (simp only: red_e2_def power_simps)

lemma e2_inverse: "is_number (red_e2 (omul 921658 1100631)) 1224482"
  by (simp only: red_e2_def power_simps)

theorem prime_e2: "is_prime 1224481"
proof (rule pocklington_check [OF prime_e1, where R = 480 and g = 921659 and y = 1100631])
  note p0 = red_e2.pow_step [OF e2_run0, of 1, simplified power_one_right, OF refl]
  show "1224482 mod 1224481 = 921659 ^ exponent 1 (digits_of 2551) mod (1224481 :: nat)"
    using p0 .
  show "exponent 1 (digits_of 2551) = 2551" by (simp add: digits_of_numeral)
  show "1224482 mod 1224481 = (921659 - 1) * 1100631 mod (1224481 :: nat)"
    using red_e2.product_step [OF e2_inverse] by simp
qed simp_all


section \<open>51 bits\<close>

definition red_e3 :: "nat \<Rightarrow> nat option" where
  "red_e3 = red_any (cut_at 18) 16756838777303331 (cut_at 16) (cut_at 20) 258054186496744929"

interpretation red_e3: reduction red_e3 "1257559732178653"
  unfolding red_e3_def by (rule red_any_reduction) (simp add: cut_at_def)

lemma e3_run0: "is_number (pow_run red_e3 1252739704402215 (digits_of 1224481) (Some 1252739704402215)) 1257559732178654"
  by (simp only: red_e3_def power_simps)

lemma e3_inverse: "is_number (red_e3 (omul 1252739704402214 790900187493841)) 1257559732178654"
  by (simp only: red_e3_def power_simps)

theorem prime_e3: "is_prime 1257559732178653"
proof (rule pocklington_check [OF prime_e2, where R = 1027014492 and g = 1252739704402215 and y = 790900187493841])
  note p0 = red_e3.pow_step [OF e3_run0, of 1, simplified power_one_right, OF refl]
  show "1257559732178654 mod 1257559732178653 = 1252739704402215 ^ exponent 1 (digits_of 1224481) mod (1257559732178653 :: nat)"
    using p0 .
  show "exponent 1 (digits_of 1224481) = 1224481" by (simp add: digits_of_numeral)
  show "1257559732178654 mod 1257559732178653 = (1252739704402215 - 1) * 790900187493841 mod (1257559732178653 :: nat)"
    using red_e3.product_step [OF e3_inverse] by simp
qed simp_all


section \<open>62 bits\<close>

definition red_e4 :: "nat \<Rightarrow> nat option" where
  "red_e4 = red_any (cut_at 22) 69352820679176275985 (cut_at 20) (cut_at 24) 1227858997890009352050"

interpretation red_e4: reduction red_e4 "4434155615661930479"
  unfolding red_e4_def by (rule red_any_reduction) (simp add: cut_at_def)

lemma e4_run0: "is_number (pow_run red_e4 415787812636281767 (digits_of 1257559732178653) (Some 415787812636281767)) 4434155615661930480"
  by (simp only: red_e4_def power_simps)

lemma e4_inverse: "is_number (red_e4 (omul 415787812636281766 1010501025739283171)) 4434155615661930480"
  by (simp only: red_e4_def power_simps)

theorem prime_e4: "is_prime 4434155615661930479"
proof (rule pocklington_check [OF prime_e3, where R = 3526 and g = 415787812636281767 and y = 1010501025739283171])
  note p0 = red_e4.pow_step [OF e4_run0, of 1, simplified power_one_right, OF refl]
  show "4434155615661930480 mod 4434155615661930479 = 415787812636281767 ^ exponent 1 (digits_of 1257559732178653) mod (4434155615661930479 :: nat)"
    using p0 .
  show "exponent 1 (digits_of 1257559732178653) = 1257559732178653" by (simp add: digits_of_numeral)
  show "4434155615661930480 mod 4434155615661930479 = (415787812636281767 - 1) * 1010501025739283171 mod (4434155615661930479 :: nat)"
    using red_e4.product_step [OF e4_inverse] by simp
qed simp_all


section \<open>88 bits\<close>

definition red_e5 :: "nat \<Rightarrow> nat option" where
  "red_e5 = red_any (cut_at 31) 9731465720327010249934483101 (cut_at 29) (cut_at 33) 570049961237773590374579900502"

interpretation red_e5: reduction red_e5 "172054593956031949258510691"
  unfolding red_e5_def by (rule red_any_reduction) (simp add: cut_at_def)

lemma e5_run0: "is_number (pow_run red_e5 81982237619807054769897707 (digits_of 2217077807830965239) (Some 81982237619807054769897707)) 240685555631029028433507394"
  by (simp only: red_e5_def power_simps)

lemma e5_run1: "is_number (pow_run red_e5 81982237619807054769897707 (digits_of 3) (Some 240685555631029028433507394)) 172054593956031949258510692"
  by (simp only: red_e5_def power_simps)

lemma e5_inverse: "is_number (red_e5 (omul 81982237619807054769897706 154275350521713489305385904)) 172054593956031949258510692"
  by (simp only: red_e5_def power_simps)

theorem prime_e5: "is_prime 172054593956031949258510691"
proof (rule pocklington_check [OF prime_e4, where R = 38802110 and g = 81982237619807054769897707 and y = 154275350521713489305385904])
  note p0 = red_e5.pow_step [OF e5_run0, of 1, simplified power_one_right, OF refl]
  note p1 = red_e5.pow_step [OF e5_run1 p0]
  show "172054593956031949258510692 mod 172054593956031949258510691 = 81982237619807054769897707 ^ exponent (exponent 1 (digits_of 2217077807830965239)) (digits_of 3) mod (172054593956031949258510691 :: nat)"
    using p1 .
  show "exponent (exponent 1 (digits_of 2217077807830965239)) (digits_of 3) = 4434155615661930479" by (simp add: digits_of_numeral)
  show "172054593956031949258510692 mod 172054593956031949258510691 = (81982237619807054769897707 - 1) * 154275350521713489305385904 mod (172054593956031949258510691 :: nat)"
    using red_e5.product_step [OF e5_inverse] by simp
qed simp_all


section \<open>134 bits\<close>

definition red_e6 :: "nat \<Rightarrow> nat option" where
  "red_e6 = red_any (cut_at 46) 328691813421209398019551406541763518054605 (cut_at 44) (cut_at 48) 6145405471521149324790473170910962406892560"

interpretation red_e6: reduction red_e6 "19757330305831588566944191468367130476339"
  unfolding red_e6_def by (rule red_any_reduction) (simp add: cut_at_def)

lemma e6_run0: "is_number (pow_run red_e6 9148758478138211201771971577098600188172 (digits_of 1281906619340419391) (Some 9148758478138211201771971577098600188172)) 19413186630557734259314912838477225489695"
  by (simp only: red_e6_def power_simps)

lemma e6_run1: "is_number (pow_run red_e6 9148758478138211201771971577098600188172 (digits_of 165564771) (Some 19413186630557734259314912838477225489695)) 19757330305831588566944191468367130476340"
  by (simp only: red_e6_def power_simps)

lemma e6_inverse: "is_number (red_e6 (omul 9148758478138211201771971577098600188171 16371654433361644093796961727196399386194)) 19757330305831588566944191468367130476340"
  by (simp only: red_e6_def power_simps)

theorem prime_e6: "is_prime 19757330305831588566944191468367130476339"
proof (rule pocklington_check [OF prime_e5, where R = 114831751082918 and g = 9148758478138211201771971577098600188172 and y = 16371654433361644093796961727196399386194])
  note p0 = red_e6.pow_step [OF e6_run0, of 1, simplified power_one_right, OF refl]
  note p1 = red_e6.pow_step [OF e6_run1 p0]
  show "19757330305831588566944191468367130476340 mod 19757330305831588566944191468367130476339 = 9148758478138211201771971577098600188172 ^ exponent (exponent 1 (digits_of 1281906619340419391)) (digits_of 165564771) mod (19757330305831588566944191468367130476339 :: nat)"
    using p1 .
  show "exponent (exponent 1 (digits_of 1281906619340419391)) (digits_of 165564771) = 172054593956031949258510691" by (simp add: digits_of_numeral)
  show "19757330305831588566944191468367130476340 mod 19757330305831588566944191468367130476339 = (9148758478138211201771971577098600188172 - 1) * 16371654433361644093796961727196399386194 mod (19757330305831588566944191468367130476339 :: nat)"
    using red_e6.product_step [OF e6_inverse] by simp
qed simp_all


section \<open>138 bits\<close>

definition red_e7 :: "nat \<Rightarrow> nat option" where
  "red_e7 = red_any (cut_at 47) 2510990525534685652754746103523905361578805 (cut_at 45) (cut_at 49) 28093282155525254056185020209878685288651603"

interpretation red_e7: reduction red_e7 "276602624281642239937218680557139826668747"
  unfolding red_e7_def by (rule red_any_reduction) (simp add: cut_at_def)

lemma e7_run0: "is_number (pow_run red_e7 16384 (digits_of 1994980540135) (Some 16384)) 40231065550339761575771664234344597570982"
  by (simp only: red_e7_def power_simps)

lemma e7_run1: "is_number (pow_run red_e7 16384 (digits_of 1683498389741) (Some 40231065550339761575771664234344597570982)) 100899841336162144432115819078876183608671"
  by (simp only: red_e7_def power_simps)

lemma e7_run2: "is_number (pow_run red_e7 16384 (digits_of 1673120323657) (Some 100899841336162144432115819078876183608671)) 292609175491055049735458454324084902192228"
  by (simp only: red_e7_def power_simps)

lemma e7_run3: "is_number (pow_run red_e7 16384 (digits_of 16179) (Some 292609175491055049735458454324084902192228)) 276602624281642239937218680557139826668748"
  by (simp only: red_e7_def power_simps)

lemma e7_inverse: "is_number (red_e7 (omul 16383 94074944912245044309966580483695483989395)) 276602624281642239937218680557139826668748"
  by (simp only: red_e7_def power_simps)

theorem prime_e7: "is_prime 276602624281642239937218680557139826668747"
proof (rule pocklington_check [OF prime_e6, where R = 14 and g = 16384 and y = 94074944912245044309966580483695483989395])
  note p0 = red_e7.pow_step [OF e7_run0, of 1, simplified power_one_right, OF refl]
  note p1 = red_e7.pow_step [OF e7_run1 p0]
  note p2 = red_e7.pow_step [OF e7_run2 p1]
  note p3 = red_e7.pow_step [OF e7_run3 p2]
  show "276602624281642239937218680557139826668748 mod 276602624281642239937218680557139826668747 = 16384 ^ exponent (exponent (exponent (exponent 1 (digits_of 1994980540135)) (digits_of 1683498389741)) (digits_of 1673120323657)) (digits_of 16179) mod (276602624281642239937218680557139826668747 :: nat)"
    using p3 .
  show "exponent (exponent (exponent (exponent 1 (digits_of 1994980540135)) (digits_of 1683498389741)) (digits_of 1673120323657)) (digits_of 16179) = 19757330305831588566944191468367130476339" by (simp add: digits_of_numeral)
  show "276602624281642239937218680557139826668748 mod 276602624281642239937218680557139826668747 = (16384 - 1) * 94074944912245044309966580483695483989395 mod (276602624281642239937218680557139826668747 :: nat)"
    using red_e7.product_step [OF e7_inverse] by simp
qed simp_all


section \<open>253 bits\<close>

definition red_l :: "nat \<Rightarrow> nat option" where
  "red_l = red_any (cut_at 86) 455931351371932519480310753471708637172222822303182348551828385093367064308755 (cut_at 84) (cut_at 88) 29642774844752946028434172162224104410323483540787867234018291968834301763596723"

interpretation red_l: reduction red_l "7237005577332262213973186563042994240857116359379907606001950938285454250989"
  unfolding red_l_def by (rule red_any_reduction) (simp add: cut_at_def)

lemma l_run0: "is_number (pow_run red_l 2975531125133123119648879457563281269120703404158613135195788908093573672641 (digits_of 1745607972618) (Some 2975531125133123119648879457563281269120703404158613135195788908093573672641)) 5328262228400811278332535113572013722887469185981759636883888747666703065620"
  by (simp only: red_l_def power_simps)

lemma l_run1: "is_number (pow_run red_l 2975531125133123119648879457563281269120703404158613135195788908093573672641 (digits_of 1747938997967) (Some 5328262228400811278332535113572013722887469185981759636883888747666703065620)) 5926022464772768746530451445181677779226976856919225296387440819281864285959"
  by (simp only: red_l_def power_simps)

lemma l_run2: "is_number (pow_run red_l 2975531125133123119648879457563281269120703404158613135195788908093573672641 (digits_of 2013736097088) (Some 5926022464772768746530451445181677779226976856919225296387440819281864285959)) 5108918096134486241589130197423148228487798467836644482408977036971758488445"
  by (simp only: red_l_def power_simps)

lemma l_run3: "is_number (pow_run red_l 2975531125133123119648879457563281269120703404158613135195788908093573672641 (digits_of 226507) (Some 5108918096134486241589130197423148228487798467836644482408977036971758488445)) 7237005577332262213973186563042994240857116359379907606001950938285454250990"
  by (simp only: red_l_def power_simps)

lemma l_inverse: "is_number (red_l (omul 2975531125133123119648879457563281269120703404158613135195788908093573672640 2233364593245673852815932892735013076939656528578070433728021143254617821614)) 7237005577332262213973186563042994240857116359379907606001950938285454250990"
  by (simp only: red_l_def power_simps)

theorem prime_l: "is_prime 7237005577332262213973186563042994240857116359379907606001950938285454250989"
proof (rule pocklington_check [OF prime_e7, where R = 26163907866482859529727157400808004 and g = 2975531125133123119648879457563281269120703404158613135195788908093573672641 and y = 2233364593245673852815932892735013076939656528578070433728021143254617821614])
  note p0 = red_l.pow_step [OF l_run0, of 1, simplified power_one_right, OF refl]
  note p1 = red_l.pow_step [OF l_run1 p0]
  note p2 = red_l.pow_step [OF l_run2 p1]
  note p3 = red_l.pow_step [OF l_run3 p2]
  show "7237005577332262213973186563042994240857116359379907606001950938285454250990 mod 7237005577332262213973186563042994240857116359379907606001950938285454250989 = 2975531125133123119648879457563281269120703404158613135195788908093573672641 ^ exponent (exponent (exponent (exponent 1 (digits_of 1745607972618)) (digits_of 1747938997967)) (digits_of 2013736097088)) (digits_of 226507) mod (7237005577332262213973186563042994240857116359379907606001950938285454250989 :: nat)"
    using p3 .
  show "exponent (exponent (exponent (exponent 1 (digits_of 1745607972618)) (digits_of 1747938997967)) (digits_of 2013736097088)) (digits_of 226507) = 276602624281642239937218680557139826668747" by (simp add: digits_of_numeral)
  show "7237005577332262213973186563042994240857116359379907606001950938285454250990 mod 7237005577332262213973186563042994240857116359379907606001950938285454250989 = (2975531125133123119648879457563281269120703404158613135195788908093573672641 - 1) * 2233364593245673852815932892735013076939656528578070433728021143254617821614 mod (7237005577332262213973186563042994240857116359379907606001950938285454250989 :: nat)"
    using red_l.product_step [OF l_inverse] by simp
qed simp_all

end
