(* ===== verification/Curve_Order.thy ===== *)
theory Curve_Order
  imports Base_Point Prime_Order
begin

text \<open>
  The group of the curve has \<open>8 l\<close> elements: the multiples of the base point and of a point of order 8 make
  \<open>8 l\<close> of them, and a further point would double their number beyond the \<open>2 p\<close> pairs of a second
  coordinate and a sign. So eight times any point is a multiple of the base point, and \<open>l\<close> times it is zero.
\<close>

section \<open>The order of the base point\<close>

lemma sc_l_prime: "is_prime (nat sc_l)"
  using prime_l by (simp add: sc_l_def)

lemma zmul_zero [simp]: "zmul k 0 = 0"
  using zmul_zmul [of k 0 0] by simp

lemma zmul_dvd: "zmul n g = 0 \<Longrightarrow> n dvd k \<Longrightarrow> zmul k g = 0"
  by (elim dvdE) (simp add: mult.commute [of n] zmul_zmul)

lemma zmul_mod: "zmul n g = 0 \<Longrightarrow> zmul (k mod n) g = zmul k g"
  using zmul_sub [of k "n * (k div n)" g] zmul_dvd [of n g "n * (k div n)"] by (simp add: minus_mult_div_eq_mod)

lemma zmul_add_point: "zmul k (g + h) = zmul k g + zmul k h"
proof -
  have n: "nmul n (g + h) = nmul n g + nmul n h" for n by (induction n) (simp_all add: algebra_simps)
  show ?thesis by (simp add: zmul_def n)
qed

lemma zmul_neg_point: "zmul k (- g) = - zmul k g"
  using zmul_zmul [of k "- 1" g] by (simp add: zmul_minus)

lemma sc_l_coprime_8: "coprime sc_l 8"
proof -
  have m: "sc_l mod 8 = 5" by (simp add: sc_l_def)
  have "gcd 5 (8 :: int) = 1" by (simp add: gcd_non_0_int)
  then have "coprime (sc_l mod 8) 8" unfolding m by (simp add: coprime_iff_gcd_eq_1)
  then show ?thesis by (simp only: coprime_mod_left_iff zero_neq_numeral simp_thms)
qed

lemma ed_base_nonzero: "ed_base \<noteq> 0"
proof
  assume "ed_base = 0"
  then have "(of_nat base_x :: fq) = 0" using ed_base_coords(1) by simp
  moreover have "ononzero (ored base_x)" by (simp only: base_x_def octal_simps)
  ultimately show False using fq_nonzero fq_red by metis
qed

lemma base_order_iff: "zmul k ed_base = 0 \<longleftrightarrow> sc_l dvd k"
proof
  assume z: "zmul k ed_base = 0"
  show "sc_l dvd k"
  proof (rule ccontr)
    assume n: "\<not> sc_l dvd k"
    have l: "int (nat sc_l) = sc_l" by (simp add: sc_l_def)
    have "\<not> nat sc_l dvd nat \<bar>k\<bar>"
    proof
      assume "nat sc_l dvd nat \<bar>k\<bar>"
      then have "int (nat sc_l) dvd int (nat \<bar>k\<bar>)" by (simp only: int_dvd_int_iff)
      then show False using n unfolding l by simp
    qed
    then have "coprime (nat sc_l) (nat \<bar>k\<bar>)" by (rule is_prime_coprime [OF sc_l_prime])
    then have "coprime (int (nat sc_l)) (int (nat \<bar>k\<bar>))" by (simp only: coprime_int_iff)
    then have "coprime sc_l k" unfolding l by simp
    then obtain u v where uv: "u * sc_l + v * k = 1" using bezout_int [of sc_l k] by (auto simp: coprime_iff_gcd_eq_1)
    have "zmul (u * sc_l + v * k) ed_base = 0" by (simp add: zmul_add zmul_zmul base_order z)
    then show False using ed_base_nonzero by (simp add: uv)
  qed
qed (rule zmul_dvd [OF base_order])

lemma base_mod: "zmul (k mod sc_l) ed_base = zmul k ed_base"
  by (rule zmul_mod [OF base_order])


section \<open>A point of order 8\<close>

definition tor_y :: nat where
  "tor_y = 2707385501144840649318225287225658788936804267575313519463743609750303402022"

definition tor8 :: ed_point where
  "tor8 = ed_point (ed_i * of_nat tor_y) (of_nat tor_y)"

lemma tor_equation:
  "x * x = - (y * y) \<Longrightarrow> y * y = s \<Longrightarrow> s * s * d + 2 * s = 1 \<Longrightarrow> y\<^sup>2 - x\<^sup>2 = 1 + d * x\<^sup>2 * (y :: fq)\<^sup>2"
  by algebra

lemma tor_y: "of_nat tor_y * of_nat tor_y * (of_nat tor_y * of_nat tor_y) * ed_dd + 2 * (of_nat tor_y * of_nat tor_y) = (1 :: fq)"
  and tor_y_nonzero: "(of_nat tor_y :: fq) \<noteq> 0"
proof -
  have "oeq (ored (omul tor_y tor_y)) 53699909539325142115343624207863611371097067213659596252119297355370707899025"
    "oeq (ored (oadd (ored (omul (ored (omul 53699909539325142115343624207863611371097067213659596252119297355370707899025 53699909539325142115343624207863611371097067213659596252119297355370707899025)) ed_d_number)) (oadd 53699909539325142115343624207863611371097067213659596252119297355370707899025 53699909539325142115343624207863611371097067213659596252119297355370707899025))) (onum num.One)"
    by (simp_all only: tor_y_def ed_d_number_def octal_simps)
  from this [THEN oeq_fq] have s: "of_nat tor_y * of_nat tor_y = (of_nat 53699909539325142115343624207863611371097067213659596252119297355370707899025 :: fq)"
    "of_nat 53699909539325142115343624207863611371097067213659596252119297355370707899025 * of_nat 53699909539325142115343624207863611371097067213659596252119297355370707899025 * ed_dd + 2 * of_nat 53699909539325142115343624207863611371097067213659596252119297355370707899025 = (1 :: fq)"
    unfolding fq_ring ed_dd_number [symmetric] mult_2 [symmetric] by (simp_all add: onum_numeral del: of_nat_numeral)
  show "of_nat tor_y * of_nat tor_y * (of_nat tor_y * of_nat tor_y) * ed_dd + 2 * (of_nat tor_y * of_nat tor_y) = (1 :: fq)"
    using s(2) by (simp only: s(1))
  then show "(of_nat tor_y :: fq) \<noteq> 0" by auto
qed

lemma tor8_coords: "px tor8 = ed_i * of_nat tor_y" "py tor8 = of_nat tor_y"
proof -
  have "ed_i * of_nat tor_y * (ed_i * of_nat tor_y) = - (of_nat tor_y * of_nat tor_y)"
    using ed_i_sq by (metis minus_mult_left mult.assoc mult.commute mult_1)
  then have "ed_on (ed_i * of_nat tor_y) (of_nat tor_y)"
    unfolding ed_on_def by (rule tor_equation [OF _ refl tor_y])
  then show "px tor8 = ed_i * of_nat tor_y" "py tor8 = of_nat tor_y" by (simp_all add: tor8_def)
qed

lemma tor8_double: "tor8 + tor8 = ed_order4"
proof -
  let ?y = "of_nat tor_y :: fq"
  have d: "1 + ed_dd * px tor8 * px tor8 * py tor8 * py tor8 = 2 * (?y * ?y)"
    using tor_y ed_i_sq unfolding tor8_coords by algebra
  have nz: "2 * (?y * ?y) \<noteq> 0" using tor_y_nonzero fq_numerals(1) by simp
  have "px (tor8 + tor8) * (2 * (?y * ?y)) = ed_i * (2 * (?y * ?y))"
    using plus_coords_eq(1) [of tor8 tor8] unfolding d by (simp add: tor8_coords)
  then have "px (tor8 + tor8) = ed_i" using nz by (simp only: mult_cancel_right simp_thms)
  moreover have "py (tor8 + tor8) = 0"
  proof -
    have "py tor8 * py tor8 + px tor8 * px tor8 = 0" using ed_i_sq unfolding tor8_coords by algebra
    then show ?thesis by (simp add: plus_coords ed_y_def)
  qed
  ultimately show ?thesis by (intro ed_point_eqI) simp_all
qed

lemma tor8_order: "zmul 8 tor8 = 0" "zmul 4 tor8 \<noteq> 0"
proof -
  have two: "zmul 2 tor8 = ed_order4" using tor8_double zmul_double [of 1 tor8] by simp
  have four: "zmul 4 tor8 = ed_order4 + ed_order4" using zmul_double [of 2 tor8] by (simp add: two)
  have e: "px (ed_order4 + ed_order4) = 0" "py (ed_order4 + ed_order4) = - 1"
    using ed_i_sq by (simp_all add: plus_coords ed_x_def ed_y_def)
  show "zmul 4 tor8 \<noteq> 0"
  proof
    assume "zmul 4 tor8 = 0"
    then have "py (ed_order4 + ed_order4) = 1" using four by simp
    then show False using e(2) fq_two(2) by simp
  qed
  have "zmul 8 tor8 = (ed_order4 + ed_order4) + (ed_order4 + ed_order4)" using zmul_double [of 4 tor8] by (simp add: four)
  moreover have "px (ed_order4 + ed_order4 + (ed_order4 + ed_order4)) = 0"
    "py (ed_order4 + ed_order4 + (ed_order4 + ed_order4)) = 1"
    unfolding plus_coords(1,2) [of "ed_order4 + ed_order4" "ed_order4 + ed_order4"] e by (simp_all add: ed_x_def ed_y_def)
  ultimately show "zmul 8 tor8 = 0" by (intro ed_point_eqI) simp_all
qed

lemma tor8_order_iff: "zmul k tor8 = 0 \<longleftrightarrow> 8 dvd k"
proof
  assume z: "zmul k tor8 = 0"
  obtain u v where uv: "u * k + v * 8 = gcd k 8" using bezout_int by blast
  have "zmul (u * k + v * 8) tor8 = 0" by (simp add: zmul_add zmul_zmul z tor8_order)
  then have g: "zmul (gcd k 8) tor8 = 0" by (simp only: uv)
  show "8 dvd k"
  proof (rule ccontr)
    assume "\<not> 8 dvd k"
    then have "gcd k 8 dvd 4"
    proof -
      have "gcd k 8 dvd 8" "gcd k 8 \<noteq> 8" using \<open>\<not> 8 dvd k\<close> by (simp, metis gcd_dvd1)
      moreover have "gcd k 8 \<le> 8" "0 < gcd k 8" using zdvd_imp_le [OF \<open>gcd k 8 dvd 8\<close>] by simp_all
      ultimately have "gcd k 8 \<in> {1, 2, 4}"
      proof -
        define n where "n = gcd k 8"
        have "n = 1 \<or> n = 2 \<or> n = 3 \<or> n = 4 \<or> n = 5 \<or> n = 6 \<or> n = 7"
          using \<open>gcd k 8 \<le> 8\<close> \<open>0 < gcd k 8\<close> \<open>gcd k 8 \<noteq> 8\<close> unfolding n_def [symmetric] by presburger
        moreover have "n dvd 8" by (simp add: n_def)
        ultimately show ?thesis unfolding n_def [symmetric] by auto
      qed
      then show ?thesis by auto
    qed
    from zmul_dvd [OF g this] tor8_order(2) show False by blast
  qed
qed (rule zmul_dvd [OF tor8_order(1)])


section \<open>Counting points\<close>

definition ed_number :: "ed_point \<Rightarrow> int \<times> int" where
  "ed_number P = (residue (py P), residue (px P) mod 2)"

lemma ed_number_inj: "inj ed_number"
proof
  fix P Q
  assume "ed_number P = ed_number Q"
  then have "ed_encode P = ed_encode Q" by (simp add: ed_number_def ed_encode_def)
  then show "P = Q" by (simp add: ed_encode_inj)
qed

lemma ed_point_count: "finite (UNIV :: ed_point set)" "card (UNIV :: ed_point set) \<le> 2 * nat fe_p"
proof -
  let ?R = "{0..<fe_p} \<times> {0..<2 :: int}"
  have sub: "range ed_number \<subseteq> ?R" using residue_range by (auto simp: ed_number_def)
  have fin: "finite ?R" by simp
  show f: "finite (UNIV :: ed_point set)" by (rule finite_imageD [OF finite_subset [OF sub fin] ed_number_inj])
  have "card (UNIV :: ed_point set) = card (range ed_number)" by (rule card_image [OF ed_number_inj, symmetric])
  also have "\<dots> \<le> card ?R" by (rule card_mono [OF fin sub])
  also have "\<dots> = 2 * nat fe_p" by (simp add: card_cartesian_product)
  finally show "card (UNIV :: ed_point set) \<le> 2 * nat fe_p" .
qed

text \<open>The points made of the two generators.\<close>

definition ed_span :: "ed_point set" where
  "ed_span = {zmul i ed_base + zmul j tor8 | i j. True}"

lemma ed_span_diff: "P \<in> ed_span \<Longrightarrow> Q \<in> ed_span \<Longrightarrow> P - Q \<in> ed_span"
proof -
  assume "P \<in> ed_span" "Q \<in> ed_span"
  then obtain i j k m where "P = zmul i ed_base + zmul j tor8" "Q = zmul k ed_base + zmul m tor8" by (auto simp: ed_span_def)
  then have "P - Q = zmul (i - k) ed_base + zmul (j - m) tor8" by (simp add: zmul_sub)
  then show ?thesis by (auto simp: ed_span_def)
qed

lemma ed_span_inj:
  assumes "zmul i ed_base + zmul j tor8 = zmul k ed_base + zmul m tor8"
  shows "sc_l dvd i - k" and "8 dvd j - m"
proof -
  have e: "zmul (i - k) ed_base = - zmul (j - m) tor8" using assms by (simp add: zmul_sub algebra_simps)
  have "zmul (8 * (i - k)) ed_base = - zmul (8 * (j - m)) tor8" by (simp only: zmul_zmul e zmul_neg_point)
  also have "\<dots> = 0" using tor8_order_iff [of "8 * (j - m)"] by simp
  finally have "sc_l dvd 8 * (i - k)" using base_order_iff by blast
  with sc_l_coprime_8 show l: "sc_l dvd i - k" using coprime_dvd_mult_right_iff by blast
  then have "zmul (i - k) ed_base = 0" using base_order_iff by blast
  with e have "zmul (j - m) tor8 = 0" by simp
  then show "8 dvd j - m" using tor8_order_iff by blast
qed

lemma ed_span_card: "card ed_span = 8 * nat sc_l"
proof -
  let ?I = "{0..<sc_l} \<times> {0..<8 :: int}" and ?f = "\<lambda>(i, j). zmul i ed_base + zmul j tor8"
  have "ed_span = ?f ` ?I"
  proof
    show "ed_span \<subseteq> ?f ` ?I"
    proof
      fix P
      assume "P \<in> ed_span"
      then obtain i j where P: "P = zmul i ed_base + zmul j tor8" by (auto simp: ed_span_def)
      have "P = ?f (i mod sc_l, j mod 8)" by (simp add: P base_mod zmul_mod [OF tor8_order(1)])
      moreover have "(i mod sc_l, j mod 8) \<in> ?I" by (simp add: sc_l_def)
      ultimately show "P \<in> ?f ` ?I" by blast
    qed
  qed (auto simp: ed_span_def)
  moreover have "inj_on ?f ?I"
  proof (rule inj_onI)
    fix a b
    assume a: "a \<in> ?I" and b: "b \<in> ?I" and e: "?f a = ?f b"
    have close: "x = y" if "n dvd x - y" "0 \<le> x" "x < n" "0 \<le> y" "y < n" for x y n :: int
      using that by (metis mod_eq_dvd_iff mod_pos_pos_trivial)
    from e have "sc_l dvd fst a - fst b" "8 dvd snd a - snd b" using ed_span_inj by (auto simp: case_prod_beta)
    then show "a = b" using a b close by (auto intro!: prod_eqI)
  qed
  ultimately have "card ed_span = card ?I" using card_image by metis
  then show ?thesis by (simp add: card_cartesian_product)
qed

text \<open>A further point would come with \<open>8 l\<close> others.\<close>

lemma ed_span_all: "P \<in> ed_span"
proof (rule ccontr)
  assume n: "P \<notin> ed_span"
  let ?C = "(\<lambda>Q. P + Q) ` ed_span"
  have "ed_span \<inter> ?C = {}"
  proof -
    have False if "Q \<in> ed_span" "P + Q \<in> ed_span" for Q
      using ed_span_diff [OF that(2,1)] n by simp
    then show ?thesis by auto
  qed
  moreover have "finite ed_span" "finite ?C" by (rule finite_subset [OF subset_UNIV ed_point_count(1)])+
  moreover have "card ?C = card ed_span" by (rule card_image) (simp add: inj_on_def)
  ultimately have "card (ed_span \<union> ?C) = 16 * nat sc_l" by (simp add: card_Un_disjoint ed_span_card)
  moreover have "card (ed_span \<union> ?C) \<le> 2 * nat fe_p"
    using card_mono [OF ed_point_count(1) subset_UNIV] ed_point_count(2) by (rule order_trans)
  ultimately show False by (simp add: sc_l_def fe_p_def)
qed

lemma point_generators: obtains i j where "P = zmul i ed_base + zmul j tor8"
  using ed_span_all [of P] by (auto simp: ed_span_def)

text \<open>Eight times a point is a multiple of the base point.\<close>

lemma cofactor_base: obtains k where "zmul 8 P = zmul k ed_base"
proof -
  obtain i j where P: "P = zmul i ed_base + zmul j tor8" by (rule point_generators)
  have "zmul 8 P = zmul (8 * i) ed_base + zmul (8 * j) tor8"
    unfolding P by (simp add: zmul_zmul zmul_add_point)
  moreover have "zmul (8 * j) tor8 = 0" using tor8_order_iff by simp
  ultimately show thesis using that by simp
qed

text \<open>The points that \<open>l\<close> annihilates are the multiples of the base point.\<close>

lemma prime_subgroup: "zmul sc_l P = 0 \<longleftrightarrow> (\<exists>k. P = zmul k ed_base)"
proof
  assume z: "zmul sc_l P = 0"
  obtain i j where P: "P = zmul i ed_base + zmul j tor8" by (rule point_generators)
  have b: "zmul sc_l (zmul i ed_base) = 0" by (simp add: zmul_zmul [symmetric] base_order_iff)
  have "zmul sc_l P = zmul (sc_l * j) tor8" unfolding P by (simp add: zmul_add_point b zmul_zmul)
  then have "8 dvd sc_l * j" using z tor8_order_iff by simp
  then have "8 dvd j" using sc_l_coprime_8 by (simp add: coprime_dvd_mult_right_iff coprime_commute)
  then have "zmul j tor8 = 0" using tor8_order_iff by blast
  then show "\<exists>k. P = zmul k ed_base" using P by auto
next
  assume "\<exists>k. P = zmul k ed_base"
  then show "zmul sc_l P = 0" by (auto simp: zmul_zmul [symmetric] base_order_iff)
qed

end
