(* ===== verification/Curve_Props.thy ===== *)
theory Curve_Props
  imports Curve_Order
begin

text \<open>
  The promises of the point operations on the group of the curve: no limb overflows, and each function
  returns the sum or the multiple its name says, whatever projective scaling its arguments carry.
\<close>

section \<open>An example point\<close>

definition order4_p3 :: ge_p3 where
  "order4_p3 = \<lparr>p3_X = fe_sqrtm1, p3_Y = fe_0, p3_Z = fe_1, p3_T = fe_0\<rparr>"

lemma order4_p3_is: "p3_is ed_coords order4_p3 ed_order4"
proof -
  have r: "fe_of fe_tight fe_sqrtm1 (px ed_order4)" "fe_of fe_tight fe_0 (py ed_order4)" "fe_of fe_tight fe_1 1"
    using fe_of_consts by simp_all
  then have "p3_pt fe_tight order4_p3 (residue (px ed_order4)) (residue (py ed_order4)) 1"
    by (simp add: p3_pt_def order4_p3_def fe_of_def)
  then show ?thesis unfolding p3_is_def by (auto intro: exI [of _ 1])
qed

lemma scalar255_small: "0 \<le> n \<Longrightarrow> n < 2 ^ 32 \<Longrightarrow> scalar255 (le_bytes 32 n) \<and> le_value (le_bytes 32 n) = n"
proof -
  assume n: "0 \<le> n" "n < 2 ^ 32"
  then have "n div 256 ^ 31 = 0" by (simp add: div_pos_pos_trivial)
  moreover have "n < 256 ^ 32" using n by simp
  ultimately show ?thesis using n by (simp add: scalar255_def le_bytes_nth le_value_le_bytes)
qed


section \<open>Group operations\<close>

text \<open>
  The additions \<^verbatim>\<open>ge_add\<close>, \<^verbatim>\<open>ge_sub\<close>, \<^verbatim>\<open>ge_madd\<close> and
  \<^verbatim>\<open>ge_msub\<close>, the doublings \<^verbatim>\<open>ge_p2_dbl\<close> and \<^verbatim>\<open>ge_p3_dbl\<close> and the multiplications by 8
  \<^verbatim>\<open>ge_mul8\<close> and \<^verbatim>\<open>ge_mul8_p3\<close> never overflow a limb and return sum, difference, double and
  eightfold of the points of the curve their arguments stand for, also for equal, opposite and neutral points.
\<close>

theorem group_operations:
  assumes "p3_is ed_coords P g" and "p2_is ed_coords S g" and "cached_is ed_coords Q h" and "precomp_is ed_coords R k"
  shows "(\<exists>T. ge_add P Q = Some T \<and> p1p1_is ed_coords T (g + h)) \<and> (\<exists>T. ge_sub P Q = Some T \<and> p1p1_is ed_coords T (g - h))
    \<and> (\<exists>T. ge_madd P R = Some T \<and> p1p1_is ed_coords T (g + k)) \<and> (\<exists>T. ge_msub P R = Some T \<and> p1p1_is ed_coords T (g - k))
    \<and> (\<exists>T. ge_p2_dbl S = Some T \<and> p1p1_is ed_coords T (g + g)) \<and> (\<exists>T. ge_p3_dbl P = Some T \<and> p1p1_is ed_coords T (g + g))
    \<and> (\<exists>T. ge_mul8 S = Some T \<and> p1p1_is ed_coords T (zmul 8 g)) \<and> (\<exists>T. ge_mul8_p3 P = Some T \<and> p3_is ed_coords T (zmul 8 g))"
  using ge_add_is [OF ed_group assms(1,3)] ge_sub_is [OF ed_group assms(1,3)] ge_madd_is [OF ed_group assms(1,4)]
    ge_msub_is [OF ed_group assms(1,4)] ge_p2_dbl_is [OF ed_group assms(2)] ge_p3_dbl_is [OF ed_group assms(1)]
    ge_mul8_is [OF ed_group assms(2)] ge_mul8_p3_is [OF ed_group assms(1)] by blast

theorem group_operations_witness:
  "\<exists>T. ge_madd order4_p3 (ge_base ! 0 ! 0) = Some T \<and> p1p1_is ed_coords T (ed_order4 + ed_base)"
proof -
  obtain Q where Q: "cached_is ed_coords Q ed_order4" using ge_p3_to_cached_is [OF order4_p3_is] by blast
  obtain S where S: "p2_is ed_coords S ed_order4" using ge_p3_to_p2_is [OF order4_p3_is] by blast
  have "precomp_is ed_coords (ge_base ! 0 ! 0) ed_base"
    using ge_base_table [unfolded table_of_def, rule_format, of 0 0] by simp
  from group_operations [OF order4_p3_is S Q this] show ?thesis by blast
qed

text \<open>
  C24 (base_tables). Entry \<open>j\<close> of row \<open>i\<close> of the table \<open>ge_base\<close> is \<open>(j + 1) 256\<^sup>i G\<close> and entry \<open>k\<close> of
  \<open>ge_Bi\<close> is \<open>(2 k + 1) G\<close> for one point \<open>G\<close>, whose order is exactly the prime \<open>l\<close> the scalars are reduced by.
  The curve has \<open>8 l\<close> points, and eight times any of them is a multiple of \<open>G\<close>.
\<close>

theorem base_tables:
  "table_of ed_coords ge_base ed_base \<and> odd_precomp ed_coords ge_Bi ed_base
   \<and> is_prime (nat sc_l) \<and> (\<forall>k. zmul k ed_base = 0 \<longleftrightarrow> sc_l dvd k)
   \<and> card (UNIV :: ed_point set) = 8 * nat sc_l \<and> (\<forall>P. \<exists>k. zmul 8 P = zmul k ed_base)"
proof -
  have "ed_span = UNIV" using ed_span_all by blast
  then have "card (UNIV :: ed_point set) = 8 * nat sc_l" using ed_span_card by simp
  moreover have "\<exists>k. zmul 8 P = zmul k ed_base" for P using cofactor_base [of P] by blast
  ultimately show ?thesis using ge_base_table ge_Bi_table sc_l_prime base_order_iff by blast
qed


section \<open>Multiples\<close>

text \<open>
  For every scalar of 255 bits, reduced or not, \<^verbatim>\<open>ge_scalarmult\<close> and
  \<^verbatim>\<open>ge_scalarmult_p3\<close> return its multiple of the point.
\<close>

theorem ge_scalarmult_multiple:
  assumes "p3_is ed_coords A g" and "length a = 32" and "uint (a ! 31) \<le> 127"
  shows "(\<exists>R. ge_scalarmult a A = Some R \<and> p2_is ed_coords R (zmul (le_value a) g))
    \<and> (\<exists>R. ge_scalarmult_p3 a A = Some R \<and> p3_is ed_coords R (zmul (le_value a) g))"
  using ge_scalarmult_is [OF ed_group assms] ge_scalarmult_p3_is [OF ed_group assms] by blast

theorem ge_scalarmult_multiple_witness:
  "\<exists>R. ge_scalarmult_p3 (le_bytes 32 (2 ^ 255 - 1)) order4_p3 = Some R \<and> p3_is ed_coords R (- ed_order4)"
proof -
  have l: "length (le_bytes 32 (2 ^ 255 - 1)) = 32" by simp
  have b: "uint (le_bytes 32 (2 ^ 255 - 1) ! 31) \<le> 127" by (simp add: le_bytes_nth uint_word_of_int)
  have v: "le_value (le_bytes 32 (2 ^ 255 - 1)) = 4 * (2 ^ 253) - 1" by (simp add: le_value_le_bytes)
  have z: "zmul (4 * (2 ^ 253)) ed_order4 = 0"
  proof -
    have "ed_order4 = zmul 2 tor8" using tor8_double zmul_double [of 1 tor8] by simp
    then have "zmul 4 ed_order4 = zmul 8 tor8" using zmul_zmul [of 4 2 tor8] by simp
    then show ?thesis using zmul_dvd [of 4 ed_order4 "4 * 2 ^ 253"] tor8_order(1) by simp
  qed
  have "zmul (4 * (2 ^ 253) - 1) ed_order4 = - ed_order4" by (simp only: zmul_sub z zmul_1 diff_0)
  with ge_scalarmult_multiple [OF order4_p3_is l b, unfolded v] show ?thesis by simp
qed

text \<open>
  With the table \<open>ge_base\<close> the constant-time and the variable-time multiplication
  return the scalar's multiple of the base point, limb for limb the same; with a table of another point
  \<^verbatim>\<open>ge_scalarmult_precomp_vartime\<close> returns the multiple of that one.
\<close>

theorem ge_scalarmult_base_multiple:
  assumes "length a = 32" and "uint (a ! 31) \<le> 127" and "table_of ed_coords base g"
  shows "(\<exists>R. ge_scalarmult_base ge_base a = Some R \<and> p3_is ed_coords R (zmul (le_value a) ed_base))
    \<and> ge_scalarmult_base_vartime ge_base a = ge_scalarmult_base ge_base a
    \<and> (\<exists>R. ge_scalarmult_precomp_vartime base a = Some R \<and> p3_is ed_coords R (zmul (le_value a) g))"
proof -
  have "\<exists>R. ge_scalarmult_base ge_base a = Some R \<and> p3_is ed_coords R (zmul (le_value a) ed_base)"
    unfolding ge_scalarmult_base_def
    by (rule scalarmult_with_is [OF ed_group table_selects(1) [OF ed_group ge_base_table] assms(1,2)])
  moreover have "ge_scalarmult_base_vartime ge_base a = ge_scalarmult_base ge_base a"
    by (rule ge_scalarmult_base_vartime_same [OF ed_group ge_base_table assms(1,2)])
  moreover have "\<exists>R. ge_scalarmult_precomp_vartime base a = Some R \<and> p3_is ed_coords R (zmul (le_value a) g)"
    unfolding ge_scalarmult_precomp_vartime_def
    by (rule scalarmult_with_is [OF ed_group table_selects(3) [OF ed_group assms(3)] assms(1,2)])
  ultimately show ?thesis by blast
qed

theorem ge_scalarmult_base_multiple_witness:
  "\<exists>R. ge_scalarmult_base ge_base (le_bytes 32 1000003) = Some R \<and> p3_is ed_coords R (zmul 1000003 ed_base)"
  using ge_scalarmult_base_multiple [OF _ _ ge_base_table, of "le_bytes 32 1000003"] scalar255_small [of 1000003]
  by (simp add: scalar255_def)

text \<open>
  C26 (ge_double_scalarmult_sum). The functions with two scalars return \<open>a A + b B\<close>: with the table \<open>ge_Bi\<close> for
  the base point, with a table of odd multiples for another \<open>B\<close>. The one
  with an extended result does so unless both scalars are zero: then it leaves its result as it was.
\<close>

theorem ge_double_scalarmult_sum:
  assumes "p3_is ed_coords A g" and "odd_cached ed_coords Ci h" and "scalar255 a" and "scalar255 b"
  shows "(\<exists>R. ge_double_scalarmult_base_vartime ge_Bi a A b = Some R \<and> p2_is ed_coords R (zmul (le_value a) g + zmul (le_value b) ed_base))
    \<and> (\<exists>R. ge_double_scalarmult_precomp_vartime a A b Ci = Some R \<and> p2_is ed_coords R (zmul (le_value a) g + zmul (le_value b) h))
    \<and> (if le_value a = 0 \<and> le_value b = 0 then ge_double_scalarmult_base_vartime_p3 ge_Bi r a A b = Some r
       else \<exists>R. ge_double_scalarmult_base_vartime_p3 ge_Bi r a A b = Some R
         \<and> p3_is ed_coords R (zmul (le_value a) g + zmul (le_value b) ed_base))"
  using ge_double_scalarmult_is [OF ed_group assms(1) ge_Bi_table assms(3,4)]
    ge_double_scalarmult_precomp_is [OF ed_group assms] by auto

theorem ge_double_scalarmult_sum_witness:
  "\<exists>R. ge_double_scalarmult_base_vartime ge_Bi (le_bytes 32 1000003) order4_p3 (le_bytes 32 999) = Some R
    \<and> p2_is ed_coords R (zmul 1000003 ed_order4 + zmul 999 ed_base)"
proof -
  from ge_dsm_precomp_is [OF ed_group order4_p3_is] obtain Ci where "odd_cached ed_coords Ci ed_order4" by blast
  from ge_double_scalarmult_sum [OF order4_p3_is this, of "le_bytes 32 1000003" "le_bytes 32 999"] show ?thesis
    using scalar255_small [of 1000003] scalar255_small [of 999] by simp
qed

text \<open>
  \<^verbatim>\<open>ge_scalarmult_vartime_p3\<close> returns the scalar's multiple.
  \<^verbatim>\<open>ge_scalarmult_vartime_p3_v2\<close> does so except for the odd scalars below 16: there it returns the neutral
  point, because its recoding reports the position of the highest digit, 0, as it does for the scalar 0.
\<close>

theorem ge_scalarmult_vartime_window:
  assumes "p3_is ed_coords A g" and "scalar255 a"
  shows "(\<exists>R. ge_scalarmult_vartime_p3 a A = Some R \<and> p3_is ed_coords R (zmul (le_value a) g))
    \<and> (if odd (le_value a) \<and> le_value a < 16 then ge_scalarmult_vartime_p3_v2 a A = Some ge_p3_0
       else \<exists>R. ge_scalarmult_vartime_p3_v2 a A = Some R \<and> p3_is ed_coords R (zmul (le_value a) g))"
  using ge_scalarmult_vartime_p3_is [OF ed_group assms] ge_scalarmult_vartime_p3_v2_is [OF ed_group assms]
    ge_scalarmult_vartime_p3_v2_small [OF assms(2)] by auto

theorem ge_scalarmult_vartime_window_witness:
  "ge_scalarmult_vartime_p3_v2 (le_bytes 32 3) order4_p3 = Some ge_p3_0"
  using ge_scalarmult_vartime_window [OF order4_p3_is, of "le_bytes 32 3"] scalar255_small [of 3] by simp

end
