(* ===== verification/Inverses.thy ===== *)
theory Inverses
  imports Curve_Order Scalar_Ops
begin

text \<open>
  Inversion. \<^verbatim>\<open>sc_invert\<close> and \<^verbatim>\<open>fe_invert\<close> raise to the powers \<open>l - 2\<close> and \<open>p - 2\<close>; since \<open>l\<close> and
  \<open>p\<close> are primes (\<open>Prime_Order\<close>, \<open>Prime_25519\<close>), these powers are inverses, and zero for zero.
\<close>

lemma fermat_inverse_power:
  assumes "is_prime (nat q)" and "2 \<le> q"
  shows "x ^ nat (q - 2) * x mod q = (if x mod q = 0 then 0 else 1)"
proof (cases "x mod q = 0")
  case True
  then show ?thesis by (metis mod_mult_right_eq mult_zero_right mod_0)
next
  case False
  have "nat (q - 2) + 1 = nat q - 1" using assms(2) by simp
  then have "x ^ nat (q - 2) * x = x ^ (nat q - 1)" by (metis power_add power_one_right)
  moreover have "\<not> int (nat q) dvd x" using False assms(2) by (simp add: dvd_eq_mod_eq_0)
  ultimately show ?thesis using fermat [OF assms(1), of x] False assms(2) by simp
qed

lemma sc_inverse: "x ^ nat (sc_l - 2) mod sc_l * x mod sc_l = (if x mod sc_l = 0 then 0 else 1)"
  using fermat_inverse_power [OF sc_l_prime, of x] by (simp add: sc_l_def mod_simps)

lemma fe_inverse: "x ^ nat (fe_p - 2) * x mod fe_p = (if x mod fe_p = 0 then 0 else 1)"
  using fermat_inverse_power [OF fe_p_prime, of x] by (simp add: fe_p_def)

text \<open>
  \<^verbatim>\<open>sc_invert\<close> returns the canonical inverse modulo the group order of any
  scalar that is not a multiple of it, and zero for a multiple; its chain of 24 multiplications and 14 runs
  of squarings never overflows.
\<close>

theorem sc_invert_inverse:
  assumes "length s = 32"
  shows "\<exists>r. sc_invert s = Some r \<and> length r = 32 \<and> sc_check r = Some 0
    \<and> le_value r * le_value s mod sc_l = (if le_value s mod sc_l = 0 then 0 else 1)"
proof -
  obtain r where r: "sc_invert s = Some r" "length r = 32" "le_value r = le_value s ^ nat (sc_l - 2) mod sc_l"
    using sc_invert_correct [OF assms] by blast
  have "le_value r < sc_l" unfolding r(3) by (simp add: sc_l_def)
  then have "sc_check r = Some 0" using r(2) by (simp add: sc_check_correct)
  with r show ?thesis using sc_inverse [of "le_value s"] by simp
qed

theorem sc_invert_inverse_witness:
  "\<exists>r. sc_invert (le_bytes 32 (sc_l + 2)) = Some r \<and> le_value r * (sc_l + 2) mod sc_l = 1"
  using sc_invert_inverse [of "le_bytes 32 (sc_l + 2)"] by (auto simp: le_value_le_bytes sc_l_def)

text \<open>
  \<^verbatim>\<open>fe_invert\<close> returns a representation of the inverse modulo \<open>p\<close> of any
  element, and of zero for zero, within the bounds that the other functions ask of their arguments.
\<close>

theorem fe_invert_inverse:
  assumes "fe_bounded fe_loose z"
  shows "\<exists>h. fe_invert z = Some h \<and> fe_bounded fe_tight h
    \<and> fe_val h * fe_val z mod fe_p = (if fe_val z mod fe_p = 0 then 0 else 1)"
proof -
  obtain h where h: "fe_invert z = Some h" "fe_rep fe_tight h (fe_val z ^ nat (fe_p - 2))"
    using fe_invert_rep [OF fe_rep_self [OF assms] order.refl] by blast
  have "fe_val h mod fe_p = fe_val z ^ nat (fe_p - 2) mod fe_p" and b: "fe_bounded fe_tight h"
    using h(2) by (simp_all add: fe_rep_def)
  then have "fe_val h * fe_val z mod fe_p = fe_val z ^ nat (fe_p - 2) * fe_val z mod fe_p" by (metis mod_mult_left_eq)
  with h(1) b show ?thesis by (simp add: fe_inverse)
qed

theorem fe_invert_inverse_witness:
  "\<exists>h. fe_invert [2, 0, 0, 0, 0, 0, 0, 0, 0, 0] = Some h \<and> fe_val h * 2 mod fe_p = 1"
proof -
  have "fe_bounded fe_loose [2, 0, 0, 0, 0, 0, 0, 0, 0, 0]" by code_simp
  from fe_invert_inverse [OF this] show ?thesis unfolding fe_val_def fe_val_limbs by (simp add: fe_p_def) blast
qed

end
