(* ===== verification/Keccak.thy ===== *)
theory Keccak
  imports Crypto_Bytes
begin

text \<open>
  The hash function of the system: the permutation \<^verbatim>\<open>keccakf\<close> and the sponge \<^verbatim>\<open>keccak\<close> of
  \<^verbatim>\<open>src/src/crypto/keccak.c\<close> and \<^verbatim>\<open>cn_fast_hash\<close> of \<^verbatim>\<open>src/src/crypto/hash.c\<close>. The in-place loops
  of the source are shown to compute the step mappings of the Keccak specification, and the block
  loop with its padding to absorb the padded message block by block.

  The length arguments of \<^verbatim>\<open>keccak\<close> are \<^verbatim>\<open>int\<close>, those of \<^verbatim>\<open>cn_fast_hash\<close> are \<^verbatim>\<open>size_t\<close>: the casts of
  \<^verbatim>\<open>hash.c\<close> keep the low 32 bits as a signed number. Lanes are read and written as on a little-endian machine.
\<close>

unbundle bit_operations_syntax

section \<open>The permutation\<close>

definition ROTL64 :: "u64 \<Rightarrow> nat \<Rightarrow> u64" where
  "ROTL64 x y = push_bit y x OR drop_bit (64 - y) x"

definition keccakf_rndc :: "u64 list" where
  "keccakf_rndc =
    [0x0000000000000001, 0x0000000000008082, 0x800000000000808a,
     0x8000000080008000, 0x000000000000808b, 0x0000000080000001,
     0x8000000080008081, 0x8000000000008009, 0x000000000000008a,
     0x0000000000000088, 0x0000000080008009, 0x000000008000000a,
     0x000000008000808b, 0x800000000000008b, 0x8000000000008089,
     0x8000000000008003, 0x8000000000008002, 0x8000000000000080,
     0x000000000000800a, 0x800000008000000a, 0x8000000080008081,
     0x8000000000008080, 0x0000000080000001, 0x8000000080008008]"

definition keccakf_rotc :: "nat list" where
  "keccakf_rotc = [1, 3, 6, 10, 15, 21, 28, 36, 45, 55, 2, 14, 27, 41, 56, 8, 25, 43, 62, 18, 39, 61, 20, 44]"

definition keccakf_piln :: "nat list" where
  "keccakf_piln = [10, 7, 11, 17, 18, 3, 5, 16, 8, 21, 24, 4, 15, 23, 19, 13, 12, 2, 20, 14, 22, 9, 6, 1]"

definition keccakf_theta :: "u64 list \<Rightarrow> u64 list" where
  "keccakf_theta st =
     (let bc = map (\<lambda>i. st ! i XOR st ! (i + 5) XOR st ! (i + 10) XOR st ! (i + 15) XOR st ! (i + 20)) [0, 1, 2, 3, 4]
      in fold (\<lambda>i st. let t = bc ! ((i + 4) mod 5) XOR ROTL64 (bc ! ((i + 1) mod 5)) 1
                      in fold (\<lambda>j st. st[j + i := st ! (j + i) XOR t]) [0, 5, 10, 15, 20] st)
           [0, 1, 2, 3, 4] st)"

definition keccakf_rho_pi :: "u64 list \<Rightarrow> u64 list" where
  "keccakf_rho_pi st =
     snd (fold (\<lambda>i (t, st). let j = keccakf_piln ! i; bc0 = st ! j in (bc0, st[j := ROTL64 t (keccakf_rotc ! i)]))
       [0..<24] (st ! 1, st))"

definition keccakf_chi :: "u64 list \<Rightarrow> u64 list" where
  "keccakf_chi st =
     fold (\<lambda>j st. let bc = map (\<lambda>i. st ! (j + i)) [0, 1, 2, 3, 4]
                  in fold (\<lambda>i st. st[j + i := st ! (j + i) XOR (NOT (bc ! ((i + 1) mod 5)) AND bc ! ((i + 2) mod 5))])
                       [0, 1, 2, 3, 4] st)
       [0, 5, 10, 15, 20] st"

definition keccakf_round :: "nat \<Rightarrow> u64 list \<Rightarrow> u64 list" where
  "keccakf_round round st =
     (let st = keccakf_chi (keccakf_rho_pi (keccakf_theta st)) in st[0 := st ! 0 XOR keccakf_rndc ! round])"

definition keccakf :: "u64 list \<Rightarrow> nat \<Rightarrow> u64 list" where
  "keccakf st rounds = fold keccakf_round [0..<rounds] st"


section \<open>The sponge\<close>

definition hash_permutation :: "u64 list \<Rightarrow> u64 list" where
  "hash_permutation state = keccakf state 24"

definition lane :: "bytes \<Rightarrow> nat \<Rightarrow> u64" where
  "lane b i = word_of_int (le_value (take 8 (drop (8 * i) b)))"

definition xor_block :: "nat \<Rightarrow> u64 list \<Rightarrow> bytes \<Rightarrow> u64 list" where
  "xor_block rsizw st b = fold (\<lambda>i st. st[i := st ! i XOR lane b i]) [0..<rsizw] st"

text \<open>
  The loop over full blocks; \<open>rsiz\<close> is positive for the two output lengths in use.
\<close>

function keccak_absorb :: "nat \<Rightarrow> u64 list \<Rightarrow> bytes \<Rightarrow> u64 list \<times> bytes" where
  "keccak_absorb rsiz st inp =
     (if 0 < rsiz \<and> rsiz \<le> length inp
      then keccak_absorb rsiz (keccakf (xor_block (rsiz div 8) st inp) 24) (drop rsiz inp)
      else (st, inp))"
  by pat_completeness auto
termination by (relation "measure (\<lambda>(_, _, inp). length inp)") auto

definition keccak_pad :: "nat \<Rightarrow> bytes \<Rightarrow> bytes" where
  "keccak_pad rsiz inp =
     (let temp = inp @ [1] @ replicate (rsiz - (length inp + 1)) 0
      in temp[rsiz - 1 := temp ! (rsiz - 1) OR 0x80])"

text \<open>
  A negative length runs into a copy of almost \<open>2\<^sup>6\<^sup>4\<close> bytes, and a length above the input reads past its end:
  undefined.
\<close>

definition keccak :: "bytes \<Rightarrow> int \<Rightarrow> nat \<Rightarrow> bytes option" where
  "keccak inp inlen mdlen =
     (if inlen < 0 \<or> int (length inp) < inlen then None
      else
        let rsiz = (if mdlen = 200 then 136 else 200 - 2 * mdlen);
            (st, rest) = keccak_absorb rsiz (replicate 25 0) (take (nat inlen) inp);
            st = keccakf (xor_block (rsiz div 8) st (keccak_pad rsiz rest)) 24
        in Some (take mdlen (concat (map (\<lambda>w. le_bytes 8 (uint w)) st))))"

definition keccak1600 :: "bytes \<Rightarrow> int \<Rightarrow> bytes option" where
  "keccak1600 inp inlen = keccak inp inlen 200"

text \<open>The cast \<^verbatim>\<open>(int)length\<close>.\<close>

definition int_of_size :: "nat \<Rightarrow> int" where
  "int_of_size n = sint (of_nat n :: u32)"

definition hash_process :: "bytes \<Rightarrow> bytes option" where
  "hash_process buf = keccak1600 buf (int_of_size (length buf))"

definition cn_fast_hash_old :: "bytes \<Rightarrow> bytes option" where
  "cn_fast_hash_old data = do { state \<leftarrow> hash_process data; Some (take 32 state) }"

definition cn_fast_hash_call :: "bytes \<Rightarrow> bytes option" where
  "cn_fast_hash_call data = keccak data (int_of_size (length data)) 32"

text \<open>
  The hash as its callers use it, a function of the bytes: what the call returns. Where the call is not defined in C, for a
  length whose low 32 bits are negative, the bytes are zeros, and results about such inputs say nothing of the code.
\<close>

definition cn_fast_hash :: "bytes \<Rightarrow> bytes" where
  "cn_fast_hash data = (case cn_fast_hash_call data of Some hash \<Rightarrow> hash | None \<Rightarrow> replicate 32 0)"


section \<open>The specification\<close>

text \<open>
  The step mappings on a state \<open>A[x, y]\<close> with coordinates modulo five.
\<close>

definition spec_parity :: "(nat \<Rightarrow> nat \<Rightarrow> u64) \<Rightarrow> nat \<Rightarrow> u64" where
  "spec_parity A x = A x 0 XOR A x 1 XOR A x 2 XOR A x 3 XOR A x 4"

definition spec_theta :: "(nat \<Rightarrow> nat \<Rightarrow> u64) \<Rightarrow> nat \<Rightarrow> nat \<Rightarrow> u64" where
  "spec_theta A x y = A x y XOR (spec_parity A ((x + 4) mod 5) XOR word_rotl 1 (spec_parity A ((x + 1) mod 5)))"

text \<open>The rotation offsets are the triangular numbers along the walk \<open>(x, y) \<mapsto> (y, 2 x + 3 y)\<close>.\<close>

fun rho_walk :: "nat \<Rightarrow> nat \<Rightarrow> nat \<Rightarrow> nat \<Rightarrow> nat \<Rightarrow> nat" where
  "rho_walk 0 u v x y = 0"
| "rho_walk (Suc n) u v x y =
     (if (u, v) = (x, y) then let t = 23 - n in (t + 1) * (t + 2) div 2
      else rho_walk n v ((2 * u + 3 * v) mod 5) x y)"

definition rho_offset :: "nat \<Rightarrow> nat \<Rightarrow> nat" where
  "rho_offset x y = rho_walk 24 1 0 x y mod 64"

definition spec_rho :: "(nat \<Rightarrow> nat \<Rightarrow> u64) \<Rightarrow> nat \<Rightarrow> nat \<Rightarrow> u64" where
  "spec_rho A x y = word_rotl (rho_offset x y) (A x y)"

definition spec_pi :: "(nat \<Rightarrow> nat \<Rightarrow> u64) \<Rightarrow> nat \<Rightarrow> nat \<Rightarrow> u64" where
  "spec_pi A x y = A ((x + 3 * y) mod 5) x"

definition spec_chi :: "(nat \<Rightarrow> nat \<Rightarrow> u64) \<Rightarrow> nat \<Rightarrow> nat \<Rightarrow> u64" where
  "spec_chi A x y = A x y XOR (NOT (A ((x + 1) mod 5) y) AND A ((x + 2) mod 5) y)"

definition lanes :: "u64 list \<Rightarrow> nat \<Rightarrow> nat \<Rightarrow> u64" where
  "lanes st x y = st ! (x + 5 * y)"

definition grid :: "(nat \<Rightarrow> nat \<Rightarrow> u64) \<Rightarrow> u64 list" where
  "grid A = map (\<lambda>k. A (k mod 5) (k div 5)) [0..<25]"


section \<open>The loops compute the step mappings\<close>

lemma ROTL64_word_rotl:
  assumes "0 < n" and "n < 64"
  shows "ROTL64 w n = word_rotl n w"
proof (rule bit_word_eqI)
  fix k
  assume "k < LENGTH(64)"
  then have k: "k < 64" by simp
  show "bit (ROTL64 w n) k = bit (word_rotl n w) k"
  proof (cases "k < n")
    case True
    then have "(k + (64 - n)) mod 64 = 64 - n + k" using assms by simp
    with True k assms show ?thesis
      by (simp add: ROTL64_def bit_or_iff bit_push_bit_iff bit_drop_bit_eq bit_word_rotl_iff)
  next
    case False
    then have "(k + (64 - n)) mod 64 = k - n" using assms k by (simp add: mod_if)
    moreover have "\<not> bit w (64 - n + k)" using False assms bit_imp_le_length [of w "64 - n + k"] by auto
    ultimately show ?thesis using False k assms
      by (simp add: ROTL64_def bit_or_iff bit_push_bit_iff bit_drop_bit_eq bit_word_rotl_iff)
  qed
qed

lemma upt_25: "[0..<25] = [0, 1, 2, 3, 4, 5, 6, 7, 8, 9, 10, 11, 12, 13, 14, 15, 16, 17, 18, 19, 20, 21, 22, 23, 24]"
  by (simp add: upt_rec)

lemma list_25:
  assumes "length st = 25"
  obtains a0 a1 a2 a3 a4 a5 a6 a7 a8 a9 a10 a11 a12 a13 a14 a15 a16 a17 a18 a19 a20 a21 a22 a23 a24
  where "st = [a0, a1, a2, a3, a4, a5, a6, a7, a8, a9, a10, a11, a12, a13, a14, a15, a16, a17, a18, a19, a20, a21, a22, a23, a24]"
  using assms by (auto simp: list_of_length)

lemma theta_spec:
  assumes "length st = 25"
  shows "keccakf_theta st = grid (spec_theta (lanes st))"
  using assms
  by (rule list_25)
    (simp add: keccakf_theta_def grid_def spec_theta_def spec_parity_def lanes_def upt_25 ROTL64_word_rotl Let_def)

lemma rho_offset_table:
  assumes "x < 5" and "y < 5"
  shows "rho_offset x y = [0, 1, 62, 28, 27, 36, 44, 6, 55, 20, 3, 10, 43, 25, 39, 41, 45, 15, 21, 8, 18, 2, 61, 56, 14] ! (x + 5 * y)"
proof -
  have "list_all (\<lambda>x. list_all (\<lambda>y. rho_offset x y
      = [0, 1, 62, 28, 27, 36, 44, 6, 55, 20, 3, 10, 43, 25, 39, 41, 45, 15, 21, 8, 18, 2, 61, 56, 14] ! (x + 5 * y)) [0..<5]) [0..<5]"
    by code_simp
  then show ?thesis using assms by (simp add: list_all_iff)
qed

lemma word_rotl_0: "word_rotl 0 w = (w :: u64)"
  by (rule bit_word_eqI) (simp add: bit_word_rotl_iff)

lemma rho_pi_spec:
  assumes "length st = 25"
  shows "keccakf_rho_pi st = grid (spec_pi (spec_rho (lanes st)))"
  using assms
  by (rule list_25)
    (simp add: keccakf_rho_pi_def grid_def spec_pi_def spec_rho_def lanes_def upt_25 upt_rec ROTL64_word_rotl Let_def
      keccakf_piln_def keccakf_rotc_def rho_offset_table word_rotl_0)

lemma chi_spec:
  assumes "length st = 25"
  shows "keccakf_chi st = grid (spec_chi (lanes st))"
  using assms
  by (rule list_25)
    (simp add: keccakf_chi_def grid_def spec_chi_def lanes_def upt_25 Let_def)

lemma grid_length [simp]: "length (grid A) = 25"
  by (simp add: grid_def)

lemma lanes_grid: "x < 5 \<Longrightarrow> y < 5 \<Longrightarrow> lanes (grid A) x y = A x y"
  by (simp add: lanes_def grid_def)

definition spec_round :: "nat \<Rightarrow> (nat \<Rightarrow> nat \<Rightarrow> u64) \<Rightarrow> nat \<Rightarrow> nat \<Rightarrow> u64" where
  "spec_round r A x y = spec_chi (spec_pi (spec_rho (spec_theta A))) x y XOR (if x = 0 \<and> y = 0 then keccakf_rndc ! r else 0)"

lemma grid_eqI: "(\<And>x y. x < 5 \<Longrightarrow> y < 5 \<Longrightarrow> A x y = B x y) \<Longrightarrow> grid A = grid B"
  by (auto simp: grid_def less_mult_imp_div_less)

lemma round_spec:
  assumes "length st = 25"
  shows "keccakf_round r st = grid (spec_round r (lanes st))"
proof -
  let ?A = "spec_theta (lanes st)"
  have "keccakf_theta st = grid ?A" by (rule theta_spec [OF assms])
  moreover have "keccakf_rho_pi (grid ?A) = grid (spec_pi (spec_rho ?A))"
    unfolding rho_pi_spec [OF grid_length] by (rule grid_eqI) (simp add: spec_pi_def spec_rho_def lanes_grid)
  moreover have "keccakf_chi (grid (spec_pi (spec_rho ?A))) = grid (spec_chi (spec_pi (spec_rho ?A)))"
    unfolding chi_spec [OF grid_length] by (rule grid_eqI) (simp add: spec_chi_def lanes_grid)
  ultimately show ?thesis
    by (simp add: keccakf_round_def Let_def grid_def spec_round_def upt_25)
qed

lemma keccakf_length: "length st = 25 \<Longrightarrow> length (keccakf st n) = 25"
  unfolding keccakf_def by (induction n) (simp_all add: round_spec)

lemma keccakf_rounds:
  assumes "length st = 25"
  shows "keccakf st n = grid (fold spec_round [0..<n] (lanes st))"
proof (induction n)
  case 0
  have "st = map ((!) st) [0..<25]" using map_nth [of st] assms by simp
  then show ?case by (simp add: keccakf_def grid_def lanes_def)
next
  case (Suc n)
  have "keccakf st (Suc n) = keccakf_round n (keccakf st n)" by (simp add: keccakf_def)
  also have "\<dots> = grid (spec_round n (lanes (grid (fold spec_round [0..<n] (lanes st)))))"
    unfolding Suc.IH by (rule round_spec) simp
  also have "\<dots> = grid (spec_round n (fold spec_round [0..<n] (lanes st)))"
    by (rule grid_eqI) (simp add: spec_round_def spec_chi_def spec_pi_def spec_rho_def spec_theta_def spec_parity_def lanes_grid)
  finally show ?case by simp
qed



section \<open>The sponge absorbs the padded message\<close>

function chunks :: "nat \<Rightarrow> 'a list \<Rightarrow> 'a list list" where
  "chunks n xs = (if n = 0 \<or> xs = [] then [] else take n xs # chunks n (drop n xs))"
  by pat_completeness auto
termination by (relation "measure (\<lambda>(_, xs). length xs)") auto

declare chunks.simps [simp del] keccak_absorb.simps [simp del]

definition spec_pad :: "nat \<Rightarrow> nat \<Rightarrow> bytes" where
  "spec_pad r n = (let q = r - n mod r in if q = 1 then [0x81] else 1 # replicate (q - 2) 0 @ [0x80])"

definition absorb :: "nat \<Rightarrow> u64 list \<Rightarrow> bytes \<Rightarrow> u64 list" where
  "absorb r st m = fold (\<lambda>b st. keccakf (xor_block (r div 8) st b) 24) (chunks r m) st"

lemma lane_take: "i < r div 8 \<Longrightarrow> lane (take r b) i = lane b i"
proof -
  assume "i < r div 8"
  then have "8 * i + 8 \<le> r" using div_times_less_eq_dividend [of r 8] by linarith
  then show ?thesis by (simp add: lane_def drop_take min_def)
qed

lemma xor_block_take: "xor_block (r div 8) st (take r b) = xor_block (r div 8) st b"
  unfolding xor_block_def by (rule fold_cong) (simp_all add: lane_take)

lemma absorb_blocks:
  assumes "0 < r" and "length rest < r" and "list_all (\<lambda>b. length b = r) bs"
  shows "keccak_absorb r st (concat bs @ rest) = (fold (\<lambda>b st. keccakf (xor_block (r div 8) st b) 24) bs st, rest)"
  using assms(3)
proof (induction bs arbitrary: st)
  case Nil
  then show ?case using assms by (simp add: keccak_absorb.simps)
next
  case (Cons b bs)
  have "keccak_absorb r st (concat (b # bs) @ rest)
      = keccak_absorb r (keccakf (xor_block (r div 8) st (b @ concat bs @ rest)) 24) (concat bs @ rest)"
    using Cons.prems assms(1) by (subst keccak_absorb.simps) simp
  also have "xor_block (r div 8) st (b @ concat bs @ rest) = xor_block (r div 8) st b"
    using xor_block_take [of r st "b @ concat bs @ rest"] Cons.prems by simp
  finally show ?case using Cons by simp
qed

lemma chunks_concat:
  "0 < r \<Longrightarrow> list_all (\<lambda>b. length b = r) bs \<Longrightarrow> chunks r (concat bs) = bs"
  by (induction bs) (auto simp: chunks.simps)

text \<open>Every message is a sequence of full blocks and a shorter rest.\<close>

lemma blocks_of:
  assumes "0 < r"
  obtains bs rest where "m = concat bs @ rest" "list_all (\<lambda>b. length b = r) bs" "length rest < r"
    "length rest = length m mod r"
  using assms
proof (induction "length m" arbitrary: m thesis rule: less_induct)
  case less
  show ?case
  proof (cases "length m < r")
    case True
    then show ?thesis using less.prems(1) [of "[]" m] by simp
  next
    case False
    then have "length (drop r m) < length m" using less.prems(2) by simp
    then obtain bs rest where i: "drop r m = concat bs @ rest" "list_all (\<lambda>b. length b = r) bs" "length rest < r"
      "length rest = length (drop r m) mod r" using less.hyps [of "drop r m"] less.prems(2) by blast
    have "m = concat (take r m # bs) @ rest" using append_take_drop_id [of r m] i(1) by simp
    moreover have "length rest = length m mod r" using i(4) False by (simp add: le_mod_geq)
    ultimately show ?thesis using less.prems(1) [of "take r m # bs" rest] i(2,3) False by simp
  qed
qed

lemma keccak_pad_spec:
  assumes "length rest < r"
  shows "keccak_pad r rest = rest @ spec_pad r (length rest)" and "length (keccak_pad r rest) = r"
proof -
  let ?n = "length rest"
  have q: "?n mod r = ?n" using assms by simp
  show "keccak_pad r rest = rest @ spec_pad r ?n"
  proof (cases "r = ?n + 1")
    case True
    then show ?thesis using q by (simp add: keccak_pad_def spec_pad_def nth_append)
  next
    case False
    obtain k where k: "r = ?n + 2 + k" using False assms by (intro that [of "r - ?n - 2"]) simp
    have "replicate (Suc k) (0 :: u8) = replicate k 0 @ [0]" by (simp add: replicate_append_same)
    then have "rest @ [1] @ replicate (r - (?n + 1)) 0 = (rest @ 1 # replicate k 0) @ [0 :: u8]" using k by simp
    moreover have "r - 1 = length (rest @ 1 # replicate k (0 :: u8))" using k by simp
    ultimately show ?thesis using k q
      by (simp add: keccak_pad_def spec_pad_def Let_def nth_append list_update_append)
  qed
  then show "length (keccak_pad r rest) = r" using assms q by (auto simp: spec_pad_def Let_def)
qed

lemma keccak_absorbs:
  assumes "0 < r" and "r = (if n = 200 then 136 else 200 - 2 * n)" and "0 \<le> k" and "k \<le> int (length data)"
  shows "keccak data k n = Some (take n (concat (map (\<lambda>w. le_bytes 8 (uint w))
    (absorb r (replicate 25 0) (take (nat k) data @ spec_pad r (length (take (nat k) data)))))))"
proof -
  define m where "m = take (nat k) data"
  obtain bs rest where b: "m = concat bs @ rest" "list_all (\<lambda>b. length b = r) bs" "length rest < r"
    "length rest = length m mod r" using blocks_of [OF assms(1)] by blast
  note p = keccak_pad_spec [OF b(3)]
  have "spec_pad r (length m) = spec_pad r (length rest)" using b(3,4) by (simp add: spec_pad_def)
  then have "m @ spec_pad r (length m) = concat (bs @ [keccak_pad r rest])" using b(1) p(1) by simp
  then have c: "chunks r (m @ spec_pad r (length m)) = bs @ [keccak_pad r rest]"
    using chunks_concat [OF assms(1), of "bs @ [keccak_pad r rest]"] b(2) p(2) by simp
  show ?thesis
    unfolding absorb_def m_def [symmetric] c keccak_def assms(2) [symmetric] Let_def
    using absorb_blocks [OF assms(1) b(3,2), folded b(1)] assms(3,4) by simp
qed

subsection \<open>The sponge of the specification\<close>

text \<open>
  The constants of \<open>\<iota>\<close> come from a shift register with the polynomial \<open>x\<^sup>8 + x\<^sup>6 + x\<^sup>5 + x\<^sup>4 + 1\<close>: bit
  \<open>2\<^sup>j - 1\<close> of the constant of round \<open>r\<close> is its output at time \<open>j + 7 r\<close>.
\<close>

fun lfsr :: "u8 \<Rightarrow> nat \<Rightarrow> bool list" where
  "lfsr x 0 = []"
| "lfsr x (Suc n) = bit x 0 # lfsr (push_bit 1 x XOR (if bit x 7 then 0x71 else 0)) n"

definition spec_rc :: "nat \<Rightarrow> u64" where
  "spec_rc r = fold (\<lambda>j c. if lfsr 1 168 ! (j + 7 * r) then c + 2 ^ (2 ^ j - 1) else c) [0..<7] 0"

definition spec_keccak_f :: "u64 list \<Rightarrow> u64 list" where
  "spec_keccak_f st = grid (fold (\<lambda>r A x y. spec_chi (spec_pi (spec_rho (spec_theta A))) x y XOR (if x = 0 \<and> y = 0 then spec_rc r else 0))
     [0..<24] (lanes st))"

definition spec_xor :: "nat \<Rightarrow> u64 list \<Rightarrow> bytes \<Rightarrow> u64 list" where
  "spec_xor r st b =
     map (\<lambda>i. if i < r div 8 then st ! i XOR word_of_int (le_value (take 8 (drop (8 * i) b))) else st ! i) [0..<25]"

definition spec_sponge :: "nat \<Rightarrow> nat \<Rightarrow> bytes \<Rightarrow> bytes" where
  "spec_sponge r n m =
     take n (concat (map (\<lambda>w. le_bytes 8 (uint w))
       (fold (\<lambda>b st. spec_keccak_f (spec_xor r st b)) (chunks r (m @ spec_pad r (length m))) (replicate 25 0))))"

lemma round_constants: "keccakf_rndc = map spec_rc [0..<24]"
proof -
  obtain bs where bs: "bs = lfsr 1 168" by simp
  then have "bs = [True, False, False, False, False, False, False, False, True, False, True, True, False, False, False, True, True, True,
      True, False, True, False, False, False, False, True, True, True, True, True, True, True, True, False, False, True,
      False, False, False, False, True, False, True, False, False, True, True, True, True, True, False, True, False, True,
      False, True, False, True, True, True, False, False, False, False, False, True, True, False, False, False, True, False,
      True, False, True, True, False, False, True, True, False, False, True, False, True, True, True, True, True, True,
      False, True, True, True, True, False, False, True, True, False, True, True, True, False, True, True, True, False,
      False, True, False, True, False, True, False, False, True, False, True, False, False, False, True, False, False, True,
      False, True, True, False, True, False, False, False, True, True, False, False, True, True, True, False, False, True,
      True, True, True, False, False, False, True, True, False, True, True, False, False, False, False, True, False, False,
      False, True, False, True, True, True]" by (simp add: eval_nat_numeral)
  then show ?thesis unfolding spec_rc_def bs [symmetric] by (simp add: keccakf_rndc_def upt_rec)
qed

lemma keccakf_is: "length st = 25 \<Longrightarrow> keccakf st 24 = spec_keccak_f st"
proof -
  assume "length st = 25"
  moreover have "fold spec_round [0..<24] A
      = fold (\<lambda>r A x y. spec_chi (spec_pi (spec_rho (spec_theta A))) x y XOR (if x = 0 \<and> y = 0 then spec_rc r else 0)) [0..<24] A" for A
    by (rule fold_cong) (auto simp: spec_round_def round_constants fun_eq_iff simp del: upt_Suc)
  ultimately show ?thesis by (simp only: keccakf_rounds spec_keccak_f_def)
qed

lemma xor_block_is:
  assumes "length st = 25" and "w \<le> 25"
  shows "xor_block w st b = map (\<lambda>i. if i < w then st ! i XOR lane b i else st ! i) [0..<25]"
  using assms(2)
proof (induction w)
  case 0
  then show ?case using assms(1) map_nth [of st] by (simp add: xor_block_def)
next
  case (Suc w)
  then have "xor_block w st b = map (\<lambda>i. if i < w then st ! i XOR lane b i else st ! i) [0..<25]" by simp
  then show ?case
    using Suc.prems by (auto simp: xor_block_def intro!: nth_equalityI simp: nth_list_update less_Suc_eq simp del: upt_25)
qed

lemma absorb_is:
  assumes "r div 8 \<le> 25"
  shows "absorb r (replicate 25 0) m = fold (\<lambda>b st. spec_keccak_f (spec_xor r st b)) (chunks r m) (replicate 25 0)"
proof -
  have "fold (\<lambda>b st. keccakf (xor_block (r div 8) st b) 24) bs st = fold (\<lambda>b st. spec_keccak_f (spec_xor r st b)) bs st"
    if "length st = 25" for bs and st :: "u64 list"
    using that
  proof (induction bs arbitrary: st)
    case (Cons b bs)
    have x: "xor_block (r div 8) st b = spec_xor r st b"
      using xor_block_is [OF Cons.prems assms] by (simp add: spec_xor_def lane_def)
    moreover have "length (spec_xor r st b) = 25" by (simp add: spec_xor_def)
    moreover have "length (spec_keccak_f st) = 25" for st by (simp add: spec_keccak_f_def)
    ultimately show ?case using Cons.IH [of "spec_keccak_f (spec_xor r st b)"] by (simp add: keccakf_is)
  qed simp
  then show ?thesis by (simp add: absorb_def)
qed

lemma keccak_sponge:
  assumes "0 \<le> k" and "k \<le> int (length data)"
  shows "keccak data k 32 = Some (spec_sponge 136 32 (take (nat k) data))"
    and "keccak data k 200 = Some (spec_sponge 136 200 (take (nat k) data))"
  unfolding spec_sponge_def
  by (subst keccak_absorbs [of 136]; use assms in \<open>simp add: absorb_is\<close>)+

lemma spec_sponge_length: "length (spec_sponge 136 32 m) = 32"
proof -
  have "length (spec_keccak_f st) = 25" for st by (simp add: spec_keccak_f_def)
  then have "length (fold (\<lambda>b st. spec_keccak_f (spec_xor 136 st b)) bs (replicate 25 0)) = 25" for bs
    by (induction bs rule: rev_induct) simp_all
  then show ?thesis by (simp add: spec_sponge_def length_concat comp_def sum_list_triv)
qed

lemma int_of_size_is: "int_of_size n = (if n mod 2 ^ 32 < 2 ^ 31 then int (n mod 2 ^ 32) else int (n mod 2 ^ 32) - 2 ^ 32)"
proof -
  have m: "int n mod 2 ^ 32 = int (n mod 2 ^ 32)" by (simp add: zmod_int)
  have "int_of_size n = (int n + 2 ^ 31) mod 2 ^ 32 - 2 ^ 31"
    by (simp add: int_of_size_def signed_of_nat signed_take_bit_eq_take_bit_shift take_bit_eq_mod)
  also have "(int n + 2 ^ 31) mod 2 ^ 32 = (int (n mod 2 ^ 32) + 2 ^ 31) mod 2 ^ 32"
    unfolding m [symmetric] by (simp add: mod_add_left_eq)
  also have "\<dots> - 2 ^ 31 = (if n mod 2 ^ 32 < 2 ^ 31 then int (n mod 2 ^ 32) else int (n mod 2 ^ 32) - 2 ^ 32)"
  proof (cases "n mod 2 ^ 32 < 2 ^ 31")
    case False
    define k where "k = int (n mod 2 ^ 32)"
    have "n mod 2 ^ 32 < 2 ^ 32" by simp
    then have "int (n mod 2 ^ 32) < int (2 ^ 32)" by (simp only: of_nat_less_iff)
    moreover have "int (2 ^ 31) \<le> int (n mod 2 ^ 32)" using False by (simp only: of_nat_le_iff not_less)
    ultimately have k: "k - 2 ^ 31 < 2 ^ 32" "0 \<le> k - 2 ^ 31" unfolding k_def by simp_all
    have "(k + 2 ^ 31) mod 2 ^ 32 = (k - 2 ^ 31 + 2 ^ 32) mod 2 ^ 32" by (simp add: add.commute)
    also have "\<dots> = k - 2 ^ 31" unfolding mod_add_self2 by (rule mod_pos_pos_trivial [OF k(2,1)])
    finally show ?thesis using False by (simp add: k_def)
  qed simp
  finally show ?thesis .
qed

lemma cn_fast_hash_call_is:
  "cn_fast_hash_call m = (if length m mod 2 ^ 32 < 2 ^ 31 then Some (spec_sponge 136 32 (take (length m mod 2 ^ 32) m)) else None)"
proof (cases "length m mod 2 ^ 32 < 2 ^ 31")
  case True
  then have "int_of_size (length m) = int (length m mod 2 ^ 32)" by (simp only: int_of_size_is) simp
  moreover have "length m mod 2 ^ 32 \<le> length m" by (rule mod_less_eq_dividend)
  ultimately show ?thesis unfolding cn_fast_hash_call_def using True by (simp only: keccak_sponge) simp
next
  case False
  have "length m mod 2 ^ 32 < 2 ^ 32" by simp
  then have "int_of_size (length m) < 0" using False by (simp only: int_of_size_is) simp
  then show ?thesis using False by (simp add: cn_fast_hash_call_def keccak_def)
qed

lemma cn_fast_hash_length [simp]: "length (cn_fast_hash m) = 32"
  by (simp add: cn_fast_hash_def cn_fast_hash_call_is spec_sponge_length)

lemma cn_fast_hash_is: "length m < 2 ^ 31 \<Longrightarrow> cn_fast_hash m = spec_sponge 136 32 m"
  by (simp add: cn_fast_hash_def cn_fast_hash_call_is)


section \<open>Properties\<close>

text \<open>
  C36 (keccakf_spec). The in-place loops of \<^verbatim>\<open>keccakf\<close>, with one temporary lane walking through the
  permutation, compute rounds of the step mappings \<open>\<theta>\<close>, \<open>\<rho>\<close>, \<open>\<pi>\<close>, \<open>\<chi>\<close> and \<open>\<iota>\<close> of the Keccak
  specification, with the rotation offsets of the specification's walk.
\<close>

theorem keccakf_spec:
  assumes "length st = 25"
  shows "keccakf st n = grid (fold spec_round [0..<n] (lanes st))"
  by (rule keccakf_rounds [OF assms])

theorem keccakf_spec_witness:
  "keccakf (replicate 25 0) 24 = grid (fold spec_round [0..<24] (lanes (replicate 25 0)))"
  by (rule keccakf_spec) simp

text \<open>
  C38 (cn_fast_hash_sponge). With the length that the cast to \<^verbatim>\<open>int\<close> leaves, the low 32 bits of the number of bytes,
  \<^verbatim>\<open>cn_fast_hash\<close> is the sponge of Keccak with rate 136 bytes and 32 bytes of output on that many bytes of the input; for inputs
  shorter than \<open>2\<^sup>3\<^sup>1\<close> bytes these are all bytes. Where the cast is negative the call is undefined.
  \<^verbatim>\<open>cn_fast_hash_old\<close>, which keeps the whole state, agrees.
\<close>

theorem cn_fast_hash_sponge:
  "cn_fast_hash_call m = (let n = length m mod 2 ^ 32 in if n < 2 ^ 31 then Some (spec_sponge 136 32 (take n m)) else None)
   \<and> cn_fast_hash_old m = cn_fast_hash_call m
   \<and> cn_fast_hash m = (case cn_fast_hash_call m of Some hash \<Rightarrow> hash | None \<Rightarrow> replicate 32 0)
   \<and> length (cn_fast_hash m) = 32"
proof -
  let ?n = "length m mod 2 ^ 32"
  have "cn_fast_hash_old m = cn_fast_hash_call m"
  proof (cases "?n < 2 ^ 31")
    case True
    then have k: "int_of_size (length m) = int ?n" by (simp only: int_of_size_is) simp
    have "?n \<le> length m" by (rule mod_less_eq_dividend)
    then show ?thesis
      unfolding cn_fast_hash_old_def hash_process_def keccak1600_def cn_fast_hash_call_def k
      by (simp only: keccak_sponge) (simp add: spec_sponge_def)
  next
    case False
    have "?n < 2 ^ 32" by simp
    then have "int_of_size (length m) < 0" using False by (simp only: int_of_size_is) simp
    then show ?thesis
      by (simp add: cn_fast_hash_old_def hash_process_def keccak1600_def cn_fast_hash_call_def keccak_def)
  qed
  then show ?thesis using cn_fast_hash_call_is [of m] cn_fast_hash_length [of m] by (simp only: Let_def cn_fast_hash_def)
qed

end
