(* ===== verification/Hash_To_Point.thy ===== *)
theory Hash_To_Point
  imports Point_Decode Keccak
begin

text \<open>
  Hashing to the curve: \<^verbatim>\<open>ge_fromfe_frombytes_vartime\<close>, \<^verbatim>\<open>ge_bytes_hash_to_ec\<close> and
  \<^verbatim>\<open>ge_bytes_hash_to_ec_32\<close> of \<^verbatim>\<open>src/src/crypto/crypto-ops.c\<close>, with the assertions of a debug build: a
  failed one aborts and is \<open>None\<close>. The map is Elligator 2; it is shown to be total.
\<close>

unbundle bit_operations_syntax

section \<open>Definitions\<close>

definition fe_ma2 :: fe where
  "fe_ma2 = [-12721188, -3529, 0, 0, 0, 0, 0, 0, 0, 0]"

definition fe_ma :: fe where
  "fe_ma = [-486662, 0, 0, 0, 0, 0, 0, 0, 0, 0]"

definition fe_fffb1 :: fe where
  "fe_fffb1 = [-31702527, -2466483, -26106795, -12203692, -12169197, -321052, 14850977, -10296299, -16929438, -407568]"

definition fe_fffb2 :: fe where
  "fe_fffb2 = [8166131, -6741800, -17040804, 3154616, 21461005, 1466302, -30876704, -6368709, 10503587, -13363080]"

definition fe_fffb3 :: fe where
  "fe_fffb3 = [-13620103, 14639558, 4532995, 7679154, 16815101, -15883539, -22863840, -14813421, 13716513, -6477756]"

definition fe_fffb4 :: fe where
  "fe_fffb4 = [-21786234, -12173074, 21573800, 4524538, -4645904, 16204591, 8012863, -8444712, 3212926, 6885324]"

text \<open>The limbs of all 256 bits.\<close>

definition fe_load10_all :: "bytes \<Rightarrow> int list" where
  "fe_load10_all s =
     [sint (load_4 s 0), sint (push_bit 6 (load_3 s 4)), sint (push_bit 5 (load_3 s 7)),
      sint (push_bit 3 (load_3 s 10)), sint (push_bit 2 (load_3 s 13)), sint (load_4 s 16),
      sint (push_bit 7 (load_3 s 20)), sint (push_bit 5 (load_3 s 23)),
      sint (push_bit 4 (load_3 s 26)), sint (push_bit 2 (load_3 s 29))]"

text \<open>The two ends of the selection: \<open>X\<close>, \<open>z\<close> and the wanted sign.\<close>

definition fromfe_positive :: "fe \<Rightarrow> fe \<Rightarrow> fe \<Rightarrow> fe \<Rightarrow> (fe \<times> fe \<times> int) option" where
  "fromfe_positive u v X z = do {
     X \<leftarrow> fe_mul X u;
     z \<leftarrow> fe_mul z v;
     Some (X, z, 0) }"

definition fromfe_negative :: "fe \<Rightarrow> fe \<Rightarrow> fe \<Rightarrow> fe \<Rightarrow> (fe \<times> fe \<times> int) option" where
  "fromfe_negative w x X z = do {
     x \<leftarrow> fe_mul x fe_sqrtm1;
     y \<leftarrow> fe_sub w x;
     nz \<leftarrow> fe_isnonzero y;
     if nz \<noteq> 0 then do {
       y \<leftarrow> fe_add w x;
       nz \<leftarrow> fe_isnonzero y;
       if nz \<noteq> 0 then None
       else do { X \<leftarrow> fe_mul X fe_fffb3; Some (X, z, 1) } }
     else do { X \<leftarrow> fe_mul X fe_fffb4; Some (X, z, 1) } }"

definition fromfe_select :: "fe \<Rightarrow> fe \<Rightarrow> fe \<Rightarrow> fe \<Rightarrow> fe \<Rightarrow> (fe \<times> fe \<times> int) option" where
  "fromfe_select u v w x X = do {
     y \<leftarrow> fe_sq X;
     x \<leftarrow> fe_mul y x;
     y \<leftarrow> fe_sub w x;
     z \<leftarrow> fe_copy fe_ma;
     nz \<leftarrow> fe_isnonzero y;
     if nz \<noteq> 0 then do {
       y \<leftarrow> fe_add w x;
       nz \<leftarrow> fe_isnonzero y;
       if nz \<noteq> 0 then fromfe_negative w x X z
       else do { X \<leftarrow> fe_mul X fe_fffb1; fromfe_positive u v X z } }
     else do { X \<leftarrow> fe_mul X fe_fffb2; fromfe_positive u v X z } }"

definition fromfe_sign :: "int \<Rightarrow> fe \<Rightarrow> fe option" where
  "fromfe_sign sign X = do {
     neg \<leftarrow> fe_isnegative X;
     if neg \<noteq> sign then do {
       nz \<leftarrow> fe_isnonzero X;
       if nz = 0 then None else fe_neg X }
     else Some X }"

text \<open>The check of the curve equation in a debug build.\<close>

definition fromfe_check :: "ge_p2 \<Rightarrow> unit option" where
  "fromfe_check r = do {
     iz \<leftarrow> fe_invert (p2_Z r);
     x \<leftarrow> fe_mul (p2_X r) iz;
     y \<leftarrow> fe_mul (p2_Y r) iz;
     x \<leftarrow> fe_sq x;
     y \<leftarrow> fe_sq y;
     v \<leftarrow> fe_mul x y;
     v \<leftarrow> fe_mul fe_d v;
     v \<leftarrow> fe_add v x;
     v \<leftarrow> fe_sub v y;
     v \<leftarrow> fe_add v fe_1;
     nz \<leftarrow> fe_isnonzero v;
     if nz \<noteq> 0 then None else Some () }"

definition ge_fromfe_frombytes_vartime :: "bytes \<Rightarrow> ge_p2 option" where
  "ge_fromfe_frombytes_vartime s =
     (if length s < 32 then None
      else do {
        h \<leftarrow> limb_run 64 fe_frombytes_chain (fe_load10_all s);
        u \<leftarrow> fe_store h;
        v \<leftarrow> fe_sq2 u;
        w \<leftarrow> fe_add v fe_1;
        x \<leftarrow> fe_sq w;
        y \<leftarrow> fe_mul fe_ma2 v;
        x \<leftarrow> fe_add x y;
        X \<leftarrow> fe_divpowm1 w x;
        (X, z, sign) \<leftarrow> fromfe_select u v w x X;
        X \<leftarrow> fromfe_sign sign X;
        rZ \<leftarrow> fe_add z w;
        rY \<leftarrow> fe_sub z w;
        rX \<leftarrow> fe_mul X rZ;
        fromfe_check \<lparr>p2_X = rX, p2_Y = rY, p2_Z = rZ\<rparr>;
        Some \<lparr>p2_X = rX, p2_Y = rY, p2_Z = rZ\<rparr> })"

definition ge_bytes_hash_to_ec :: "bytes \<Rightarrow> ge_p3 option" where
  "ge_bytes_hash_to_ec data = do {
     point \<leftarrow> ge_fromfe_frombytes_vartime (cn_fast_hash data);
     point2 \<leftarrow> ge_mul8 point;
     ge_p1p1_to_p3 point2 }"

definition ge_bytes_hash_to_ec_32 :: "bytes \<Rightarrow> ge_p3 option" where
  "ge_bytes_hash_to_ec_32 ge_bytes = ge_bytes_hash_to_ec (take 32 ge_bytes)"


section \<open>Loading 256 bits\<close>

lemma le_value_top:
  assumes "length s = 32"
  shows "le_value s = le_value (take 29 s) + 2 ^ 232 * le_value (take 3 (drop 29 s))"
proof -
  have "drop 29 s = take 3 (drop 29 s)" using assms by simp
  then show ?thesis using le_value_append [of "take 29 s" "drop 29 s"] assms by simp
qed

lemma fe_load10_all_value:
  assumes "length s = 32"
  shows "limb_val fe_wt 10 (fe_load10_all s) = le_value s"
proof -
  let ?t = "le_value (take 3 (drop 29 s))" and ?l = "le_value (take 29 s)"
  have top: "fe_load10_all s ! 9 = ?t * 2 ^ 2" "fe_load10 s ! 9 = take_bit 23 ?t * 2 ^ 2"
    using sint_push_load_3(1) [of 29 s 2] sint_load_3_masked [of 29 s] assms by (simp_all add: fe_load10_all_def fe_load10_def)
  have rest: "fe_load10_all s ! 0 = fe_load10 s ! 0" "fe_load10_all s ! 1 = fe_load10 s ! 1" "fe_load10_all s ! 2 = fe_load10 s ! 2" "fe_load10_all s ! 3 = fe_load10 s ! 3" "fe_load10_all s ! 4 = fe_load10 s ! 4"
    "fe_load10_all s ! 5 = fe_load10 s ! 5" "fe_load10_all s ! 6 = fe_load10 s ! 6" "fe_load10_all s ! 7 = fe_load10 s ! 7" "fe_load10_all s ! 8 = fe_load10 s ! 8"
    by (simp_all add: fe_load10_all_def fe_load10_def del: One_nat_def)
  have "limb_val fe_wt 10 (fe_load10_all s) = limb_val fe_wt 10 (fe_load10 s) + 2 ^ 232 * (?t - take_bit 23 ?t)"
    unfolding fe_val_limbs top rest by simp
  also have "\<dots> = (?l + 2 ^ 232 * ?t) mod 2 ^ 255 + 2 ^ 232 * (?t - take_bit 23 ?t)"
    by (simp only: fe_load10_value [OF assms] le_value_top [OF assms])
  also have "(?l + 2 ^ 232 * ?t) mod 2 ^ 255 = ?l + 2 ^ 232 * take_bit 23 ?t"
  proof -
    have l: "0 \<le> ?l" "?l < 2 ^ 232" using le_value_upper [of "take 29 s"] assms by simp_all
    have "(?l + 2 ^ 232 * ?t) mod (2 ^ 232 * 2 ^ 23)
        = 2 ^ 232 * ((?l + 2 ^ 232 * ?t) div 2 ^ 232 mod 2 ^ 23) + (?l + 2 ^ 232 * ?t) mod 2 ^ 232"
      by (rule zmod_zmult2_eq) simp
    also have "(?l + 2 ^ 232 * ?t) div 2 ^ 232 = ?t" using l by simp
    also have "(?l + 2 ^ 232 * ?t) mod 2 ^ 232 = ?l" using l by simp
    finally show ?thesis by (simp add: take_bit_eq_mod)
  qed
  finally show ?thesis using le_value_top [OF assms] by (simp add: algebra_simps)
qed

definition fromfe_bounds :: "interval list" where
  "fromfe_bounds = [(0, 2 ^ 32 - 1), (0, 2 ^ 30 - 1), (0, 2 ^ 29 - 1), (0, 2 ^ 27 - 1), (0, 2 ^ 26 - 1),
    (0, 2 ^ 32 - 1), (0, 2 ^ 31 - 1), (0, 2 ^ 29 - 1), (0, 2 ^ 28 - 1), (0, 2 ^ 26 - 1)]"

lemma fe_load10_all_within:
  assumes "length s = 32"
  shows "within (fe_load10_all s) fromfe_bounds"
proof -
  have l4: "inside (sint (load_4 s k)) (0, 2 ^ 32 - 1)" if "k + 4 \<le> 32" for k
    using sint_load_4 [of k s] that assms by (simp add: inside_def)
  have l3: "inside (sint (push_bit n (load_3 s k))) (0, 2 ^ m - 1)" if "k + 3 \<le> 32" "n \<le> 8" "m = 24 + n" for k n m
    using sint_push_load_3 [of k s n] that assms by (simp add: inside_def)
  show ?thesis
    unfolding fe_load10_all_def fromfe_bounds_def within_Cons by (intro conjI l4 l3 within_Nil) simp_all
qed

lemma fromfe_chain_ok: "fe_chain_ok fe_frombytes_chain fromfe_bounds"
  by code_simp

lemma fromfe_load:
  assumes "length s = 32"
  obtains h u where "limb_run 64 fe_frombytes_chain (fe_load10_all s) = Some h" and "fe_store h = Some u"
    and "fe_of fe_tight u (of_int (le_value s))"
  using fe_chain_correct [OF fromfe_chain_ok fe_load10_all_within [OF assms]] fe_load10_all_value [OF assms]
  by (auto simp: bind_eq_Some_conv fe_of_of_int)


section \<open>Constants\<close>

text \<open>The coefficient of the Montgomery form of the curve.\<close>

definition mont_A :: fq where
  "mont_A = of_int 486662"

definition fq_fffb :: "fe \<Rightarrow> fq" where
  "fq_fffb f = of_int (fe_val f)"

lemma fe_of_data:
  "fe_of fe_tight fe_ma (- mont_A)" "fe_of fe_tight fe_ma2 (- (mont_A * mont_A))"
  "fe_of fe_tight fe_fffb1 (fq_fffb fe_fffb1)" "fe_of fe_tight fe_fffb2 (fq_fffb fe_fffb2)"
  "fe_of fe_tight fe_fffb3 (fq_fffb fe_fffb3)" "fe_of fe_tight fe_fffb4 (fq_fffb fe_fffb4)"
proof -
  have "fe_rep fe_tight fe_ma (- 486662)" "fe_rep fe_tight fe_ma2 (- (486662 * 486662))"
    unfolding fe_rep_def by code_simp+
  then show "fe_of fe_tight fe_ma (- mont_A)" "fe_of fe_tight fe_ma2 (- (mont_A * mont_A))"
    by (auto intro: fe_of_cong simp: mont_A_def)
  have "fe_rep fe_tight fe_fffb1 (fe_val fe_fffb1)" "fe_rep fe_tight fe_fffb2 (fe_val fe_fffb2)"
    "fe_rep fe_tight fe_fffb3 (fe_val fe_fffb3)" "fe_rep fe_tight fe_fffb4 (fe_val fe_fffb4)"
    unfolding fe_rep_def by code_simp+
  then show "fe_of fe_tight fe_fffb1 (fq_fffb fe_fffb1)" "fe_of fe_tight fe_fffb2 (fq_fffb fe_fffb2)"
    "fe_of fe_tight fe_fffb3 (fq_fffb fe_fffb3)" "fe_of fe_tight fe_fffb4 (fq_fffb fe_fffb4)"
    by (auto intro: fe_of_cong simp: fq_fffb_def)
qed

lemma fq_eqI: "x - y = fe_p * k \<Longrightarrow> (of_int x :: fq) = of_int y"
  using cong_iff [of x y] by (simp add: cong_def mod_eq_dvd_iff)

lemma fffb_squares:
  "fq_fffb fe_fffb1 * fq_fffb fe_fffb1 = - 2 * mont_A * (mont_A + 2)"
  "fq_fffb fe_fffb2 * fq_fffb fe_fffb2 = 2 * mont_A * (mont_A + 2)"
  "fq_fffb fe_fffb3 * fq_fffb fe_fffb3 = - ed_i * mont_A * (mont_A + 2)"
  "fq_fffb fe_fffb4 * fq_fffb fe_fffb4 = ed_i * mont_A * (mont_A + 2)"
proof -
  have "of_int (fe_val fe_fffb1 * fe_val fe_fffb1) = (of_int (- 2 * 486662 * (486662 + 2)) :: fq)"
    by (rule fq_eqI [where k = "8541807999629177022622485976777824916889076321483502149449674648148155333"]) (simp add: fe_val_def fe_val_limbs fe_fffb1_def fe_p_def)
  then show "fq_fffb fe_fffb1 * fq_fffb fe_fffb1 = - 2 * mont_A * (mont_A + 2)" by (simp add: fq_fffb_def mont_A_def)
  have "of_int (fe_val fe_fffb2 * fe_val fe_fffb2) = (of_int (2 * 486662 * (486662 + 2)) :: fq)"
    by (rule fq_eqI [where k = "9182527501155079853014997979756392388284717163381950860790556154704119286861"]) (simp add: fe_val_def fe_val_limbs fe_fffb2_def fe_p_def)
  then show "fq_fffb fe_fffb2 * fq_fffb fe_fffb2 = 2 * mont_A * (mont_A + 2)" by (simp add: fq_fffb_def mont_A_def)
  have "of_int (fe_val fe_fffb3 * fe_val fe_fffb3) = (of_int (- fe_val fe_sqrtm1 * 486662 * (486662 + 2)) :: fq)"
    by (rule fq_eqI [where k = "2157735735436890667404237773353690192313663208276088634631419752372585196245"]) (simp add: fe_val_def fe_val_limbs fe_fffb3_def fe_sqrtm1_def fe_p_def)
  then show "fq_fffb fe_fffb3 * fq_fffb fe_fffb3 = - ed_i * mont_A * (mont_A + 2)"
    by (simp add: fq_fffb_def mont_A_def ed_i_def)
  have "of_int (fe_val fe_fffb4 * fe_val fe_fffb4) = (of_int (fe_val fe_sqrtm1 * 486662 * (486662 + 2)) :: fq)"
    by (rule fq_eqI [where k = "2437798919140463847614572459512894914287139911575628546838583162303548524852"]) (simp add: fe_val_def fe_val_limbs fe_fffb4_def fe_sqrtm1_def fe_p_def)
  then show "fq_fffb fe_fffb4 * fq_fffb fe_fffb4 = ed_i * mont_A * (mont_A + 2)"
    by (simp add: fq_fffb_def mont_A_def ed_i_def)
qed

text \<open>\<open>A = 2 (1 - d) / (1 + d)\<close>\<close>

lemma mont_A_eq: "mont_A * (1 + ed_dd) = 2 * (1 - ed_dd)"
proof -
  have "of_int (486662 * (1 + ed_d)) = (of_int (2 * (1 - ed_d)) :: fq)"
    by (rule fq_eqI [where k = "-174844"]) (simp add: ed_d_def fe_val_def fe_val_limbs fe_d_def fe_p_def)
  then show ?thesis by (simp add: mont_A_def ed_dd_def)
qed

lemma mont_A_nonzero: "mont_A \<noteq> 0" "mont_A + 2 \<noteq> 0"
proof -
  show "mont_A \<noteq> 0" unfolding mont_A_def by (rule fq_of_int_nonzero) (simp add: fe_p_def)
  have "(of_int (486662 + 2) :: fq) \<noteq> 0" by (rule fq_of_int_nonzero) (simp add: fe_p_def)
  then show "mont_A + 2 \<noteq> 0" by (simp add: mont_A_def)
qed


section \<open>The map\<close>

text \<open>Minus one half is not a square, and neither is a ratio of squares equal to two.\<close>

lemma elligator_w_nonzero: "2 * (u * u) + 1 \<noteq> (0 :: fq)"
proof
  assume "2 * (u * u) + 1 = 0"
  then have u: "u * u * 2 = - 1" by (simp add: eq_neg_iff_add_eq_0 mult_ac)
  then have "u \<noteq> 0" by auto
  have "(ed_i / u) * (ed_i / u) = 2"
  proof -
    have "(ed_i / u) * (ed_i / u) * (u * u) = - 1" using \<open>u \<noteq> 0\<close> ed_i_sq by simp
    then have "(ed_i / u) * (ed_i / u) * (u * u) = 2 * (u * u)" using u by (simp add: mult_ac)
    then show ?thesis using \<open>u \<noteq> 0\<close> by simp
  qed
  with fq_two_nonsquare show False by blast
qed

lemma two_ratio_nonsquare:
  assumes "a * a = 2 * (b * b)"
  shows "a = 0 \<and> b = (0 :: fq)"
proof (cases "b = 0")
  case False
  then have "(a / b) * (a / b) = 2" using assms by simp
  with fq_two_nonsquare show ?thesis by blast
qed (use assms in simp)

lemma elligator_x_nonzero:
  fixes u :: fq
  defines "v \<equiv> 2 * (u * u)"
  shows "(v + 1) * (v + 1) + - (mont_A * mont_A) * v \<noteq> 0"
proof
  assume "(v + 1) * (v + 1) + - (mont_A * mont_A) * v = 0"
  then have "(v + 1) * (v + 1) = 2 * ((mont_A * u) * (mont_A * u))" by (simp add: v_def algebra_simps)
  from two_ratio_nonsquare [OF this] have "v + 1 = 0" ..
  with elligator_w_nonzero [of u] show False by (simp add: v_def)
qed

text \<open>The candidate root is right up to a fourth root of unity.\<close>

lemma fq_quarter_power:
  fixes a :: fq
  assumes "a \<noteq> 0"
  shows "a ^ nat ((fe_p - 1) div 4) \<in> {1, - 1, ed_i, - ed_i}"
proof -
  define z where "z = a ^ nat ((fe_p - 1) div 4)"
  have "z * z = a ^ nat ((fe_p - 1) div 2)" by (simp add: z_def power_add [symmetric] fe_p_def)
  moreover have "a ^ nat ((fe_p - 1) div 2) \<noteq> 0" using assms by simp
  ultimately have "z * z = 1 \<or> z * z = - 1" using fq_half_power [of a] by auto
  then have "(z - 1) * (z + 1) = 0 \<or> (z - ed_i) * (z + ed_i) = 0" using ed_i_sq by (auto simp: algebra_simps)
  then show ?thesis unfolding z_def [symmetric] by (auto simp: eq_neg_iff_add_eq_0)
qed

lemma fourth_root_candidate:
  fixes w x :: fq
  assumes "w \<noteq> 0" and "x \<noteq> 0"
  defines "r \<equiv> w * x ^ 3 * (w * x ^ 7) ^ nat ((fe_p - 5) div 8)"
  shows "r * r * x \<in> {w, - w, w * ed_i, - (w * ed_i)}"
proof -
  define e where "e = nat ((fe_p - 5) div 8)"
  have e: "Suc (2 * e) = nat ((fe_p - 1) div 4)" by (simp add: e_def fe_p_def)
  have "r * r * x = w * ((w * x ^ 7) * ((w * x ^ 7) ^ e * (w * x ^ 7) ^ e))"
    unfolding r_def e_def [symmetric] by (simp add: eval_nat_numeral mult_ac)
  also have "(w * x ^ 7) * ((w * x ^ 7) ^ e * (w * x ^ 7) ^ e) = (w * x ^ 7) ^ nat ((fe_p - 1) div 4)"
    unfolding e [symmetric] by (simp add: mult_2 power_add)
  finally have "r * r * x = w * (w * x ^ 7) ^ nat ((fe_p - 1) div 4)" .
  then show ?thesis using fq_quarter_power [of "w * x ^ 7"] assms(1,2) by auto
qed


text \<open>
  The affine point of the map: \<open>X\<close> is a root of \<open>m (A + 2) w / x\<close>, where \<open>m\<close> is \<open>A\<close> or \<open>A v\<close>. In both
  cases \<open>x = z\<^sup>2 + w\<^sup>2 + A z w\<close> for \<open>z = - m\<close>.
\<close>

lemma elligator_denominator:
  fixes w x z X :: fq
  assumes "x = z * z + w * w + mont_A * z * w" and "X * X * x = - (mont_A + 2) * z * w"
    and "x \<noteq> 0" and "w \<noteq> 0"
  shows "z + w \<noteq> 0"
proof
  assume "z + w = 0"
  then have z: "z = - w" by (simp add: eq_neg_iff_add_eq_0)
  have "(X * X * (2 - mont_A)) * (w * w) = (mont_A + 2) * (w * w)" using assms(1,2) z by algebra
  then have X: "X * X * (2 - mont_A) = mont_A + 2" using assms(4) by simp
  have "1 + ed_dd \<noteq> 0"
    using ed_dd_nonsquare [of ed_i] ed_i_sq by (metis add_eq_0_iff)
  moreover have "(1 + ed_dd) * (X * X * (2 - mont_A)) = X * X * (4 * ed_dd)" using mont_A_eq by algebra
  moreover have "(1 + ed_dd) * (mont_A + 2) = 4" using mont_A_eq by algebra
  ultimately have "X * X * (4 * ed_dd) = 4" using X by simp
  then have "4 * (X * X * ed_dd) = 4 * 1" by (simp add: mult_ac)
  moreover have "(4 :: fq) \<noteq> 0" using fq_of_int_nonzero [of 4] by (simp add: fe_p_def)
  ultimately have d: "X * X * ed_dd = 1" by (metis mult_left_cancel)
  then have "X \<noteq> 0" by auto
  then have "(1 / X) * (1 / X) = ed_dd" using d by (simp add: field_simps)
  with ed_dd_nonsquare show False by blast
qed

lemma elligator_on_curve:
  fixes w x z X :: fq
  assumes x: "x = z * z + w * w + mont_A * z * w" and X: "X * X * x = - (mont_A + 2) * z * w"
    and nz: "x \<noteq> 0" "w \<noteq> 0"
  shows "ed_on X ((z - w) / (z + w))"
proof -
  have s: "z + w \<noteq> 0" by (rule elligator_denominator [OF assms])
  define y where "y = (z - w) / (z + w)"
  have y: "y * (z + w) = z - w" using s by (simp add: y_def)
  have "x * (z + w) * (z + w) * (1 + ed_dd) * (X * X * (ed_dd * (y * y) + 1) - (y * y - 1)) = 0"
    using x X y mont_A_eq by algebra
  moreover have "1 + ed_dd \<noteq> 0"
    using ed_dd_nonsquare [of ed_i] ed_i_sq by (metis add_eq_0_iff)
  ultimately have "X * X * (ed_dd * (y * y) + 1) = y * y - 1" using nz s by simp
  then show ?thesis by (simp add: ed_on_solved y_def)
qed


section \<open>The code\<close>

lemma fe_of_invert: "fe_of b f a \<Longrightarrow> b \<le> fe_loose \<Longrightarrow> \<exists>h. fe_invert f = Some h \<and> fe_of fe_tight h (inverse a)"
  using fe_invert_rep [of b f "residue a"] by (force simp: fe_of_def inverse_fq_def intro: fe_of_cong [unfolded fe_of_def])

lemma fe_of_copy: "fe_of b f a \<Longrightarrow> fe_copy f = Some f"
  using fe_copy_rep [of b f "residue a"] by (simp add: fe_of_def)

lemma square_times: "r * f * u * (r * f * u) * x = (r * r * x) * (f * f) * (u * u)" for x :: fq
  by (simp add: mult_ac)

text \<open>The fourth root decides the branch; no assertion fails.\<close>

lemma fromfe_select_is:
  assumes u: "fe_of fe_tight fu u" and v: "fe_of fe_tight fv v" and w: "fe_of (fe_tight + 1) fw w"
    and x: "fe_of (2 * fe_tight) fx x" and X: "fe_of fe_tight fX r"
    and root: "r * r * x \<in> {w, - w, w * ed_i, - (w * ed_i)}" and nz: "w \<noteq> 0" "x \<noteq> 0" and uv: "v = 2 * (u * u)"
  obtains R z X' z' sign where "fromfe_select fu fv fw fx fX = Some (R, z, sign)"
    and "fe_of fe_tight R X'" and "fe_of fe_tight z z'"
    and "X' * X' * x = - (mont_A + 2) * z' * w" and "sign = 0 \<and> z' = - (mont_A * v) \<or> sign = 1 \<and> z' = - mont_A"
proof -
  note bounds = fe_bound_simps
  obtain y where y: "fe_sq fX = Some y" "fe_of fe_tight y (r * r)" using fe_of_sq [OF X] by (auto simp: bounds)
  obtain x1 where x1: "fe_mul y fx = Some x1" "fe_of fe_tight x1 (r * r * x)" using fe_of_mul [OF y(2) x] by (auto simp: bounds)
  obtain m where m: "fe_sub fw x1 = Some m" "fe_of (2 * fe_tight + 1) m (w - r * r * x)"
    using fe_of_sub [OF w x1(2)] by (auto simp: bounds)
  obtain p where p: "fe_add fw x1 = Some p" "fe_of (2 * fe_tight + 1) p (w + r * r * x)"
    using fe_of_add [OF w x1(2)] by (auto simp: bounds)
  have zero: "fe_isnonzero m = Some (if w = r * r * x then 0 else 1)" "fe_isnonzero p = Some (if w = - (r * r * x) then 0 else 1)"
    using fe_of_isnonzero [OF m(2)] fe_of_isnonzero [OF p(2)] by (simp_all add: bounds eq_neg_iff_add_eq_0)
  note z = fe_of_data(1) and zc = fe_of_copy [OF fe_of_data(1)]
  have pos: "\<exists>R z. fromfe_select fu fv fw fx fX = Some (R, z, 0) \<and> fe_of fe_tight R (r * f * u) \<and> fe_of fe_tight z (- mont_A * v)"
    if ff: "fe_of fe_tight ff f" and br: "\<And>z. fe_mul fX ff = Some z \<Longrightarrow> fromfe_select fu fv fw fx fX = fromfe_positive fu fv z fe_ma" for ff f
  proof -
    obtain a where a: "fe_mul fX ff = Some a" "fe_of fe_tight a (r * f)" using fe_of_mul [OF X ff] by (auto simp: bounds)
    obtain b where b: "fe_mul a fu = Some b" "fe_of fe_tight b (r * f * u)" using fe_of_mul [OF a(2) u] by (auto simp: bounds)
    obtain c where c: "fe_mul fe_ma fv = Some c" "fe_of fe_tight c (- mont_A * v)" using fe_of_mul [OF z v] by (auto simp: bounds)
    show ?thesis using br [OF a(1)] b c by (simp add: fromfe_positive_def)
  qed
  have w2: "w \<noteq> - w" "w * ed_i \<noteq> w" "w * ed_i \<noteq> - w" "w * ed_i \<noteq> - (w * ed_i)"
  proof -
    have i: "ed_i \<noteq> 1" "ed_i \<noteq> - 1" "ed_i \<noteq> 0" using ed_i_sq fq_two(2) by auto
    show "w \<noteq> - w" using nz(1) fq_two(2) by (metis mult_left_cancel mult_minus1_right mult_1_right)
    show "w * ed_i \<noteq> w" using nz(1) i(1) by simp
    show "w * ed_i \<noteq> - w" using nz(1) i(2) by (metis mult_left_cancel mult_minus1_right)
    show "w * ed_i \<noteq> - (w * ed_i)" using nz(1) i(3) fq_two(2) by (metis mult_left_cancel mult_minus1_right mult_1_right mult_eq_0_iff)
  qed
  have neg: "\<exists>R. fromfe_select fu fv fw fx fX = Some (R, fe_ma, 1) \<and> fe_of fe_tight R (r * fq_fffb ff)"
    if rx: "r * r * x = w * k" and k: "k = ed_i \<and> ff = fe_fffb3 \<or> k = - ed_i \<and> ff = fe_fffb4" for k ff
  proof -
    have "w \<noteq> r * r * x" "w \<noteq> - (r * r * x)"
      unfolding rx using k w2(2,3) by (metis minus_minus mult_minus_right)+
    then have br: "fromfe_select fu fv fw fx fX = fromfe_negative fw x1 fX fe_ma"
      using y(1) x1(1) m(1) p(1) zero zc by (simp add: fromfe_select_def)
    obtain x2 where x2: "fe_mul x1 fe_sqrtm1 = Some x2" "fe_of fe_tight x2 (r * r * x * ed_i)"
      using fe_of_mul [OF x1(2) fe_of_consts(3)] by (auto simp: bounds)
    have val: "r * r * x * ed_i = (if k = ed_i then - w else w)" using rx k ed_i_sq by (auto simp: mult.assoc)
    obtain m' where m': "fe_sub fw x2 = Some m'" "fe_of (2 * fe_tight + 1) m' (w - r * r * x * ed_i)"
      using fe_of_sub [OF w x2(2)] by (auto simp: bounds)
    obtain p' where p': "fe_add fw x2 = Some p'" "fe_of (2 * fe_tight + 1) p' (w + r * r * x * ed_i)"
      using fe_of_add [OF w x2(2)] by (auto simp: bounds)
    have ii: "ed_i \<noteq> - ed_i" using w2(4) by auto
    have zero': "fe_isnonzero m' = Some (if k = ed_i then 1 else 0)" "fe_isnonzero p' = Some (if k = ed_i then 0 else 1)"
      using fe_of_isnonzero [OF m'(2)] fe_of_isnonzero [OF p'(2)] w2(1) nz(1) unfolding val
      by (auto simp: bounds eq_neg_iff_add_eq_0)
    have ff: "fe_of fe_tight ff (fq_fffb ff)" using k fe_of_data(5,6) by auto
    obtain R where R: "fe_mul fX ff = Some R" "fe_of fe_tight R (r * fq_fffb ff)" using fe_of_mul [OF X ff] by (auto simp: bounds)
    show ?thesis using br x2(1) m'(1) p'(1) zero' k ii R by (auto simp: fromfe_negative_def)
  qed
  consider "r * r * x = w" | "r * r * x = - w" | "r * r * x = w * ed_i" | "r * r * x = w * - ed_i" using root by auto
  then show ?thesis
  proof cases
    case 1
    have "\<exists>R z. fromfe_select fu fv fw fx fX = Some (R, z, 0) \<and> fe_of fe_tight R (r * fq_fffb fe_fffb2 * u) \<and> fe_of fe_tight z (- mont_A * v)"
      by (rule pos [OF fe_of_data(4)]) (use y(1) x1(1) m(1) zero zc 1 in \<open>simp add: fromfe_select_def\<close>)
    moreover have "r * fq_fffb fe_fffb2 * u * (r * fq_fffb fe_fffb2 * u) * x = - (mont_A + 2) * - (mont_A * v) * w"
      unfolding square_times [of r _ u x] 1 fffb_squares(2) uv by (simp add: algebra_simps)
    ultimately show ?thesis using that by fastforce
  next
    case 2
    have "\<exists>R z. fromfe_select fu fv fw fx fX = Some (R, z, 0) \<and> fe_of fe_tight R (r * fq_fffb fe_fffb1 * u) \<and> fe_of fe_tight z (- mont_A * v)"
      by (rule pos [OF fe_of_data(3)]) (use y(1) x1(1) m(1) p(1) zero zc 2 w2(1) in \<open>simp add: fromfe_select_def\<close>)
    moreover have "r * fq_fffb fe_fffb1 * u * (r * fq_fffb fe_fffb1 * u) * x = - (mont_A + 2) * - (mont_A * v) * w"
      unfolding square_times [of r _ u x] 2 fffb_squares(1) uv by (simp add: algebra_simps)
    ultimately show ?thesis using that by fastforce
  next
    case 3
    have "r * fq_fffb fe_fffb3 * (r * fq_fffb fe_fffb3) * x = - (mont_A + 2) * - mont_A * w"
      using 3 fffb_squares(3) ed_i_sq by algebra
    then show ?thesis using neg [OF 3, of fe_fffb3] z that by fastforce
  next
    case 4
    have "r * fq_fffb fe_fffb4 * (r * fq_fffb fe_fffb4) * x = - (mont_A + 2) * - mont_A * w"
      using 4 fffb_squares(4) ed_i_sq by algebra
    then show ?thesis using neg [OF 4, of fe_fffb4] z that by fastforce
  qed
qed


lemma fromfe_sign_is:
  assumes X: "fe_of fe_tight X x" and "x = 0 \<longrightarrow> sign = 0" and "sign = 0 \<or> sign = 1"
  obtains X' x' where "fromfe_sign sign X = Some X'" and "fe_of fe_tight X' x'" and "x' = x \<or> x' = - x" and "residue x' mod 2 = sign"
proof (cases "residue x mod 2 = sign")
  case True
  then show ?thesis using that [of X x] X fe_of_isnegative [OF X] by (simp add: fromfe_sign_def fe_bound_simps)
next
  case False
  then have nz: "x \<noteq> 0" using assms(2) by auto
  obtain X' where X': "fe_neg X = Some X'" "fe_of fe_tight X' (- x)" using fe_of_neg [OF X] by (auto simp: fe_bound_simps)
  have "residue (- x) mod 2 = sign" using parity_minus [OF nz] False assms(3) by presburger
  then show ?thesis
    using that [OF _ X'(2)] False nz X'(1) fe_of_isnegative [OF X] fe_of_isnonzero [OF X]
    by (simp add: fromfe_sign_def fe_bound_simps)
qed

lemma fromfe_check_is:
  assumes X: "fe_of fe_tight (p2_X R) (x * z)" and Y: "fe_of (2 * fe_tight + 1) (p2_Y R) (y * z)"
    and Z: "fe_of (2 * fe_tight + 1) (p2_Z R) z" and "z \<noteq> 0" and on: "ed_on x y"
  shows "fromfe_check R = Some ()"
proof -
  note bounds = fe_bound_simps
  obtain i where i: "fe_invert (p2_Z R) = Some i" "fe_of fe_tight i (inverse z)" using fe_of_invert [OF Z] by (auto simp: bounds)
  obtain a where a: "fe_mul (p2_X R) i = Some a" "fe_of fe_tight a x"
    using fe_of_mul [OF X i(2)] assms(4) by (auto simp: bounds mult.assoc)
  obtain b where b: "fe_mul (p2_Y R) i = Some b" "fe_of fe_tight b y"
    using fe_of_mul [OF Y i(2)] assms(4) by (auto simp: bounds mult.assoc)
  obtain a2 where a2: "fe_sq a = Some a2" "fe_of fe_tight a2 (x * x)" using fe_of_sq [OF a(2)] by (auto simp: bounds)
  obtain b2 where b2: "fe_sq b = Some b2" "fe_of fe_tight b2 (y * y)" using fe_of_sq [OF b(2)] by (auto simp: bounds)
  obtain c where c: "fe_mul a2 b2 = Some c" "fe_of fe_tight c (x * x * (y * y))" using fe_of_mul [OF a2(2) b2(2)] by (auto simp: bounds)
  obtain d where d: "fe_mul fe_d c = Some d" "fe_of fe_tight d (ed_dd * (x * x * (y * y)))"
    using fe_of_mul [OF fe_of_consts(4) c(2)] by (auto simp: bounds)
  obtain e where e: "fe_add d a2 = Some e" "fe_of (2 * fe_tight) e (ed_dd * (x * x * (y * y)) + x * x)"
    using fe_of_add [OF d(2) a2(2)] by (auto simp: bounds)
  obtain f where f: "fe_sub e b2 = Some f" "fe_of (3 * fe_tight) f (ed_dd * (x * x * (y * y)) + x * x - y * y)"
    using fe_of_sub [OF e(2) b2(2)] by (auto simp: bounds)
  have one: "fe_of 1 fe_1 1" using fe_rep_consts(2) [OF cong_refl, of 1] fe_of_of_int [of 1 fe_1 1] by simp
  obtain g where g: "fe_add f fe_1 = Some g" "fe_of (3 * fe_tight + 1) g (ed_dd * (x * x * (y * y)) + x * x - y * y + 1)"
    using fe_of_add [OF f(2) one] by (auto simp: bounds)
  have "ed_dd * (x * x * (y * y)) + x * x - y * y + 1 = 0"
    using on unfolding ed_on_def by algebra
  then have "fe_isnonzero g = Some 0" using fe_of_isnonzero [OF g(2)] by (simp add: bounds)
  then show ?thesis
    using i(1) a(1) b(1) a2(1) b2(1) c(1) d(1) e(1) f(1) g(1) by (simp add: fromfe_check_def)
qed

text \<open>A projective point whose \<open>Y\<close> and \<open>Z\<close> are sums, as this function returns it.\<close>

definition p2_wide :: "ge_p2 \<Rightarrow> ed_point \<Rightarrow> bool" where
  "p2_wide R g \<longleftrightarrow> (\<exists>z. z \<noteq> 0 \<and> fe_of fe_tight (p2_X R) (px g * z) \<and> fe_of (2 * fe_tight + 1) (p2_Y R) (py g * z)
     \<and> fe_of (2 * fe_tight + 1) (p2_Z R) z)"

text \<open>Elligator 2 in the coordinates of the code: \<open>m = (1 + y) / (1 - y)\<close> is \<open>- A / w\<close> or \<open>- A v / w\<close>.\<close>

definition elligator :: "fq \<Rightarrow> ed_point \<Rightarrow> bool" where
  "elligator u g \<longleftrightarrow>
     (let v = 2 * (u * u); w = v + 1 in
      (1 + py g) * w = (1 - py g) * - (mont_A * v) \<and> residue (px g) mod 2 = 0
      \<or> (1 + py g) * w = (1 - py g) * - mont_A \<and> residue (px g) mod 2 = 1)"

lemma ge_fromfe_is:
  assumes "length s = 32"
  shows "\<exists>R g. ge_fromfe_frombytes_vartime s = Some R \<and> p2_wide R g \<and> elligator (of_int (le_value s)) g"
proof -
  note bounds = fe_bound_simps
  define u where "u = (of_int (le_value s) :: fq)"
  define v w x where "v = 2 * (u * u)" and "w = v + 1" and "x = w * w + - (mont_A * mont_A) * v"
  obtain h fu where h: "limb_run 64 fe_frombytes_chain (fe_load10_all s) = Some h" "fe_store h = Some fu"
    and fu: "fe_of fe_tight fu u" using fromfe_load [OF assms] unfolding u_def by blast
  have one: "fe_of 1 fe_1 1" using fe_rep_consts(2) [OF cong_refl, of 1] fe_of_of_int [of 1 fe_1 1] by simp
  obtain fv where fv: "fe_sq2 fu = Some fv" "fe_of fe_tight fv v" using fe_of_sq2 [OF fu] by (auto simp: bounds v_def)
  obtain fw where fw: "fe_add fv fe_1 = Some fw" "fe_of (fe_tight + 1) fw w" using fe_of_add [OF fv(2) one] by (auto simp: bounds w_def)
  obtain ww where ww: "fe_sq fw = Some ww" "fe_of fe_tight ww (w * w)" using fe_of_sq [OF fw(2)] by (auto simp: bounds)
  obtain av where av: "fe_mul fe_ma2 fv = Some av" "fe_of fe_tight av (- (mont_A * mont_A) * v)"
    using fe_of_mul [OF fe_of_data(2) fv(2)] by (auto simp: bounds)
  obtain fx where fx: "fe_add ww av = Some fx" "fe_of (2 * fe_tight) fx x"
    using fe_of_add [OF ww(2) av(2)] by (auto simp: bounds x_def)
  define r where "r = w * x ^ 3 * (w * x ^ 7) ^ nat ((fe_p - 5) div 8)"
  obtain fX where fX: "fe_divpowm1 fw fx = Some fX" "fe_of fe_tight fX r"
    using fe_of_divpowm1 [OF fw(2) _ fx(2)] by (auto simp: bounds r_def)
  have nz: "w \<noteq> 0" "x \<noteq> 0"
    using elligator_w_nonzero [of u] elligator_x_nonzero [of u] by (simp_all add: v_def w_def x_def)
  obtain R z X' z' sign where sel: "fromfe_select fu fv fw fx fX = Some (R, z, sign)"
    and R: "fe_of fe_tight R X'" and z: "fe_of fe_tight z z'" and X': "X' * X' * x = - (mont_A + 2) * z' * w"
    and sign: "sign = 0 \<and> z' = - (mont_A * v) \<or> sign = 1 \<and> z' = - mont_A"
    using fromfe_select_is [OF fu fv(2) fw(2) fx(2) fX(2) _ nz v_def] fourth_root_candidate [OF nz] unfolding r_def by metis
  have x: "x = z' * z' + w * w + mont_A * z' * w"
    using sign unfolding x_def w_def by (auto simp: algebra_simps)
  note s = elligator_denominator [OF x X' nz(2,1)] and on = elligator_on_curve [OF x X' nz(2,1)]
  have "X' = 0 \<longrightarrow> sign = 0" using X' sign mont_A_nonzero nz by (auto simp: neg_eq_iff_add_eq_0)
  then obtain S x' where S: "fromfe_sign sign R = Some S" "fe_of fe_tight S x'" "x' = X' \<or> x' = - X'" "residue x' mod 2 = sign"
    using fromfe_sign_is [OF R] sign by blast
  obtain rZ where rZ: "fe_add z fw = Some rZ" "fe_of (2 * fe_tight + 1) rZ (z' + w)" using fe_of_add [OF z fw(2)] by (auto simp: bounds)
  obtain rY where rY: "fe_sub z fw = Some rY" "fe_of (2 * fe_tight + 1) rY (z' - w)" using fe_of_sub [OF z fw(2)] by (auto simp: bounds)
  obtain rX where rX: "fe_mul S rZ = Some rX" "fe_of fe_tight rX (x' * (z' + w))" using fe_of_mul [OF S(2) rZ(2)] by (auto simp: bounds)
  define y' where "y' = (z' - w) / (z' + w)"
  have on': "ed_on x' y'" using S(3) on by (auto simp: y'_def ed_on_def)
  have y': "y' * (z' + w) = z' - w" using s by (simp add: y'_def)
  have chk: "fromfe_check \<lparr>p2_X = rX, p2_Y = rY, p2_Z = rZ\<rparr> = Some ()"
    by (rule fromfe_check_is [OF _ _ _ s on']) (use rX(2) rY(2) rZ(2) y' in simp_all)
  have "ge_fromfe_frombytes_vartime s = Some \<lparr>p2_X = rX, p2_Y = rY, p2_Z = rZ\<rparr>"
    using assms h fv(1) fw(1) ww(1) av(1) fx(1) fX(1) sel S(1) rZ(1) rY(1) rX(1) chk by (simp add: ge_fromfe_frombytes_vartime_def)
  moreover have "p2_wide \<lparr>p2_X = rX, p2_Y = rY, p2_Z = rZ\<rparr> (ed_point x' y')"
    unfolding p2_wide_def using s on' rX(2) rY(2) rZ(2) y' by (intro exI [of _ "z' + w"]) simp
  moreover have "elligator u (ed_point x' y')"
  proof -
    have "(1 + y') * w * (z' + w) = (1 - y') * z' * (z' + w)" using y' by algebra
    then have "(1 + y') * w = (1 - y') * z'" using s by simp
    then show ?thesis using sign S(4) on' unfolding elligator_def Let_def v_def [symmetric] w_def [symmetric] by auto
  qed
  ultimately show ?thesis unfolding u_def by blast
qed


section \<open>The hash to the curve\<close>

lemma p2_wide_dbl:
  assumes "p2_wide P g"
  shows "\<exists>R. ge_p2_dbl P = Some R \<and> p1p1_is ed_coords R (g + g)"
proof -
  note cg = curve_groupD [OF ed_group]
  from assms obtain z where z: "z \<noteq> 0" and P: "fe_of fe_tight (p2_X P) (px g * z)"
    "fe_of (2 * fe_tight + 1) (p2_Y P) (py g * z)" "fe_of (2 * fe_tight + 1) (p2_Z P) z" by (auto simp: p2_wide_def)
  have u: "fe_unit (residue z)" using z by (simp add: fe_unit_iff)
  have r: "fe_rep fe_tight (p2_X P) (residue (px g) * residue z)" "fe_rep (2 * fe_tight + 1) (p2_Y P) (residue (py g) * residue z)"
    "fe_rep (2 * fe_tight + 1) (p2_Z P) (residue z)"
    using P fe_of_of_int [of _ "p2_X P" "residue (px g) * residue z"] fe_of_of_int [of _ "p2_Y P" "residue (py g) * residue z"]
      fe_of_of_int [of _ "p2_Z P" "residue z"] by simp_all
  show ?thesis
    by (rule p1p1_isI, rule ge_p2_dbl_wide [OF r]) (use cg(3) [of g] cg(6) [of g g] cg(7,8) [of g g] u in \<open>auto intro: fe_unit_mult\<close>)
qed

lemma p2_wide_mul8:
  assumes "p2_wide P g"
  shows "\<exists>R. ge_mul8 P = Some R \<and> p1p1_is ed_coords R (zmul 8 g)"
proof -
  have d: "\<exists>r. ge_p2_dbl s = Some r \<and> p1p1_is ed_coords r (zmul (2 * w) g)" if "p2_is ed_coords s (zmul w g)" for s w
    using ge_p2_dbl_is [OF ed_group that] by (simp add: zmul_double)
  from p2_wide_dbl [OF assms] obtain r1 where r1: "ge_p2_dbl P = Some r1" "p1p1_is ed_coords r1 (zmul 2 g)"
    using zmul_double [of 1 g] by auto
  from ge_p1p1_to_p2_is [OF r1(2)] obtain s1 where s1: "ge_p1p1_to_p2 r1 = Some s1" "p2_is ed_coords s1 (zmul 2 g)" by blast
  from d [OF s1(2)] obtain r2 where r2: "ge_p2_dbl s1 = Some r2" "p1p1_is ed_coords r2 (zmul 4 g)" by auto
  from ge_p1p1_to_p2_is [OF r2(2)] obtain s2 where s2: "ge_p1p1_to_p2 r2 = Some s2" "p2_is ed_coords s2 (zmul 4 g)" by blast
  from d [OF s2(2)] r1(1) s1(1) r2(1) s2(1) show ?thesis by (simp add: ge_mul8_def)
qed

lemma ge_bytes_hash_to_ec_is:
  "\<exists>P g. ge_bytes_hash_to_ec data = Some P \<and> p3_is ed_coords P (zmul 8 g) \<and> elligator (of_int (le_value (cn_fast_hash data))) g"
proof -
  obtain R g where R: "ge_fromfe_frombytes_vartime (cn_fast_hash data) = Some R" "p2_wide R g"
    "elligator (of_int (le_value (cn_fast_hash data))) g"
    using ge_fromfe_is [of "cn_fast_hash data"] by auto
  from p2_wide_mul8 [OF R(2)] obtain S where S: "ge_mul8 R = Some S" "p1p1_is ed_coords S (zmul 8 g)" by blast
  from ge_p1p1_to_p3_is [OF S(2)] R S(1) show ?thesis by (auto simp: ge_bytes_hash_to_ec_def)
qed

text \<open>Elligator 2 determines its point: its two branches exclude each other.\<close>

lemma one_ed_dd: "1 + ed_dd \<noteq> 0"
  using ed_dd_nonsquare [of ed_i] ed_i_sq by (metis add_eq_0_iff)

lemma elligator_root:
  fixes X y z w :: fq
  assumes "ed_on X y" and "(1 + y) * w = (1 - y) * z"
  shows "X * X * (z * z + w * w + mont_A * z * w) = - (mont_A + 2) * z * w"
proof -
  have s: "X * X * (ed_dd * (y * y) + 1) = y * y - 1" using assms(1) by (simp add: ed_on_solved)
  have y: "y * (z + w) = z - w" using assms(2) by algebra
  have "X * X * (ed_dd * ((z - w) * (z - w)) + (z + w) * (z + w)) = (z - w) * (z - w) - (z + w) * (z + w)"
    using s y by algebra
  then have "(1 + ed_dd) * (X * X * (z * z + w * w + mont_A * z * w) + (mont_A + 2) * z * w) = 0"
    using mont_A_eq by algebra
  then have "X * X * (z * z + w * w + mont_A * z * w) + (mont_A + 2) * z * w = 0" using one_ed_dd by simp
  then show ?thesis by algebra
qed

lemma elligator_branches:
  fixes u :: fq
  defines "v \<equiv> 2 * (u * u)"
  defines "w \<equiv> v + 1"
  assumes g: "(1 + py g) * w = (1 - py g) * - (mont_A * v)" and h: "(1 + py h) * w = (1 - py h) * - mont_A"
  shows False
proof -
  define x where "x = w * w - mont_A * mont_A * v"
  have nz: "w \<noteq> 0" "x \<noteq> 0" using elligator_w_nonzero [of u] elligator_x_nonzero [of u] by (simp_all add: w_def v_def x_def)
  have X: "px g * px g * x = mont_A * (mont_A + 2) * v * w" "px h * px h * x = mont_A * (mont_A + 2) * w"
    using elligator_root [OF ed_on_point g] elligator_root [OF ed_on_point h] unfolding x_def w_def by algebra+
  then have "x * (px g * px g) = x * (2 * ((u * px h) * (u * px h)))" unfolding v_def by algebra
  then have "px g * px g = 2 * ((u * px h) * (u * px h))" using nz(2) by simp
  from two_ratio_nonsquare [OF this] have "u * px h = 0" ..
  moreover have "px h \<noteq> 0" using X(2) nz mont_A_nonzero by auto
  ultimately have "u = 0" by simp
  then have "px h * px h = mont_A * (mont_A + 2)" using X(2) by (simp add: x_def w_def v_def)
  then have "fq_fffb fe_fffb2 * fq_fffb fe_fffb2 = 2 * (px h * px h)" using fffb_squares(2) by (simp add: mult.assoc)
  from two_ratio_nonsquare [OF this] \<open>px h \<noteq> 0\<close> show False by simp
qed

lemma elligator_same:
  fixes y y' w z :: fq
  assumes "(1 + y) * w = (1 - y) * z" and "(1 + y') * w = (1 - y') * z" and "w \<noteq> 0"
  shows "y = y'"
proof -
  have "(y - y') * (z + w) = 0" using assms(1,2) by algebra
  moreover have "z + w \<noteq> 0"
  proof
    assume "z + w = 0"
    then have "2 * w = 0" using assms(1) by algebra
    with assms(3) fq_two(1) show False by simp
  qed
  ultimately show ?thesis by simp
qed

lemma parity_decides:
  assumes "py g = py h" and "residue (px g) mod 2 = residue (px h) mod 2"
  shows "g = h"
  using ed_encode_inj [of g h] assms by (simp add: ed_encode_def)

lemma elligator_unique:
  assumes "elligator u g" and "elligator u h"
  shows "g = h"
proof -
  define v where "v = 2 * (u * u)"
  define w where "w = v + 1"
  have w: "w \<noteq> 0" using elligator_w_nonzero [of u] by (simp add: w_def v_def)
  have "\<not> ((1 + py g) * w = (1 - py g) * - (mont_A * v) \<and> (1 + py h) * w = (1 - py h) * - mont_A)"
    "\<not> ((1 + py h) * w = (1 - py h) * - (mont_A * v) \<and> (1 + py g) * w = (1 - py g) * - mont_A)"
    using elligator_branches [of g u h] elligator_branches [of h u g] by (auto simp: w_def v_def)
  note cases = assms [unfolded elligator_def Let_def, folded v_def, folded w_def] this
  from cases have p: "residue (px g) mod 2 = residue (px h) mod 2" by (elim disjE conjE) (simp_all (no_asm_simp), blast+)
  from cases have "\<exists>z. (1 + py g) * w = (1 - py g) * z \<and> (1 + py h) * w = (1 - py h) * z" by blast
  then show ?thesis using elligator_same w parity_decides p by blast
qed

definition elligator_point :: "fq \<Rightarrow> ed_point" where
  "elligator_point u = (THE g. elligator u g)"

text \<open>The hash of the sources, \<open>H\<^sub>p(data) = 8 map(cn_fast_hash(data))\<close>.\<close>

definition ed_hash :: "bytes \<Rightarrow> ed_point" where
  "ed_hash data = zmul 8 (elligator_point (of_int (le_value (cn_fast_hash data))))"

lemma elligator_point_eq: "elligator u g \<Longrightarrow> elligator_point u = g"
  unfolding elligator_point_def using elligator_unique by blast

lemma ge_bytes_hash_is:
  obtains P where "ge_bytes_hash_to_ec data = Some P" and "p3_is ed_coords P (ed_hash data)"
  using ge_bytes_hash_to_ec_is [of data] elligator_point_eq by (auto simp: ed_hash_def)

text \<open>
  C23 (hash_to_curve_total). \<^verbatim>\<open>ge_fromfe_frombytes_vartime\<close> returns a point for every 32 bytes: no
  limb overflows, no assertion fails and the curve equation holds. The point is the one of Elligator 2 for the
  256-bit number of the input, and \<^verbatim>\<open>ge_bytes_hash_to_ec\<close> returns eight times that point for the
  digest of its input.
\<close>

theorem hash_to_curve_total:
  assumes "length s = 32"
  shows "(\<exists>R. ge_fromfe_frombytes_vartime s = Some R \<and> p2_wide R (elligator_point (of_int (le_value s))))
    \<and> (\<exists>!g. elligator (of_int (le_value s)) g)
    \<and> (\<exists>P. ge_bytes_hash_to_ec data = Some P \<and> p3_is ed_coords P (ed_hash data))"
proof -
  from ge_fromfe_is [OF assms] obtain R g where "ge_fromfe_frombytes_vartime s = Some R" "p2_wide R g"
    "elligator (of_int (le_value s)) g" by blast
  moreover obtain P where "ge_bytes_hash_to_ec data = Some P" "p3_is ed_coords P (ed_hash data)" by (rule ge_bytes_hash_is)
  ultimately show ?thesis using elligator_unique by (metis elligator_point_eq)
qed

theorem hash_to_curve_total_witness:
  "\<exists>R. ge_fromfe_frombytes_vartime (le_bytes 32 0) = Some R \<and> p2_wide R (zmul 2 ed_order4)"
proof -
  have e: "elligator 0 (zmul 2 ed_order4)"
  proof -
    have "zmul 2 ed_order4 = ed_order4 + ed_order4" using zmul_double [of 1 ed_order4] by simp
    moreover have "px (ed_order4 + ed_order4) = 0" "py (ed_order4 + ed_order4) = - 1"
      using ed_i_sq by (simp_all add: plus_coords ed_x_def ed_y_def)
    ultimately show ?thesis by (simp add: elligator_def)
  qed
  have "le_value (le_bytes 32 0) = 0" by (simp add: le_value_le_bytes)
  then show ?thesis
    using hash_to_curve_total [of "le_bytes 32 0" "[]"] elligator_point_eq [OF e] by simp
qed

end
