(* ===== verification/Varint.thy ===== *)
theory Varint
  imports Crypto_Bytes
begin

text \<open>
  The variable-length integers of \<^verbatim>\<open>src/src/common/varint.h\<close>, for the 64-bit instances of its
  templates: seven bits per byte, least significant first, the top bit set on every byte but the
  last.
\<close>

unbundle bit_operations_syntax

section \<open>Definitions\<close>

definition get_varint_packed_size :: "u64 \<Rightarrow> nat" where
  "get_varint_packed_size v =
     (if v \<le> 127 then 1
      else if v \<le> 16383 then 2
      else if v \<le> 2097151 then 3
      else if v \<le> 268435455 then 4
      else if v \<le> 34359738367 then 5
      else if v \<le> 4398046511103 then 6
      else if v \<le> 562949953421311 then 7
      else 8)"

function write_varint :: "u64 \<Rightarrow> bytes" where
  "write_varint i =
     (if 0x80 \<le> i then ((ucast i AND 0x7f) OR 0x80) # write_varint (drop_bit 7 i) else [ucast i])"
  by pat_completeness auto
termination
proof (relation "measure unat")
  show "wf (measure unat)" by simp
  fix i :: u64
  assume "0x80 \<le> i"
  then have "128 \<le> unat i" by (simp add: word_le_nat_alt)
  moreover have "unat (drop_bit 7 i) = unat i div 128" by (simp only: unat_drop_bit_eq) (simp add: drop_bit_eq_div)
  ultimately show "(drop_bit 7 i, i) \<in> measure unat" by simp
qed

declare write_varint.simps [simp del]

text \<open>
  The reading loop: the pair of the returned value and the variable \<^verbatim>\<open>i\<close>. The number of bytes read
  is returned also when the input ends inside a number; \<open>-1\<close> reports an overflow of \<open>bits\<close> bits
  and \<open>-2\<close> a superfluous zero byte.
\<close>

fun read_varint_loop :: "nat \<Rightarrow> bytes \<Rightarrow> nat \<Rightarrow> int \<Rightarrow> u64 \<Rightarrow> int \<times> u64" where
  "read_varint_loop bits [] shift rd i = (rd, i)"
| "read_varint_loop bits (byte # bs) shift rd i =
     (let rd = rd + 1 in
      if bits \<le> shift + 7 \<and> 2 ^ (bits - shift) \<le> uint byte then (- 1, i)
      else if byte = 0 \<and> shift \<noteq> 0 then (- 2, i)
      else let i = i OR push_bit shift (ucast (byte AND 0x7f))
           in if byte AND 0x80 = 0 then (rd, i) else read_varint_loop bits bs (shift + 7) rd i)"

definition read_varint :: "nat \<Rightarrow> bytes \<Rightarrow> int \<times> u64" where
  "read_varint bits bs = read_varint_loop bits bs 0 0 0"


section \<open>Bytes of seven bits\<close>

lemma low7: "uint (b AND 0x7f) = uint (b :: u8) mod 128"
proof -
  have "(0x7f :: u8) = mask 7" by (simp add: mask_eq_exp_minus_1)
  then show ?thesis by (simp only: take_bit_eq_mask [symmetric] unsigned_take_bit_eq) (simp add: take_bit_eq_mod)
qed

lemma top_clear: "b AND 0x80 = 0 \<longleftrightarrow> uint (b :: u8) < 128"
proof -
  have "list_all (\<lambda>k. (word_of_int k :: u8) AND 0x80 = 0 \<longleftrightarrow> uint (word_of_int k :: u8) < 128) [0..255]"
    by code_simp
  moreover have "uint b \<in> set [0..255]" using uint_ge_0 [of b] uint_lt2p [of b] by simp
  ultimately have "(word_of_int (uint b) :: u8) AND 0x80 = 0 \<longleftrightarrow> uint (word_of_int (uint b) :: u8) < 128"
    unfolding list_all_iff by blast
  then show ?thesis by simp
qed

lemma low7_cont: "uint ((ucast i AND 0x7f) OR (0x80 :: u8)) = uint (i :: u64) mod 128 + 128"
proof -
  have "list_all (\<lambda>k. uint (((word_of_int k :: u8) AND 0x7f) OR 0x80) = k mod 128 + 128) [0..255]"
    by code_simp
  moreover have "uint i mod 256 \<in> set [0..255]" by simp
  ultimately have "uint (((word_of_int (uint i mod 256) :: u8) AND 0x7f) OR 0x80) = uint i mod 256 mod 128 + 128"
    unfolding list_all_iff by blast
  moreover have "(word_of_int (uint i mod 256) :: u8) = ucast i"
    by (rule word_uint_eqI) (simp add: uint_word_of_int unsigned_ucast_eq take_bit_eq_mod)
  ultimately show ?thesis by (simp add: mod_mod_cancel)
qed

lemma uint_u64_u8: "uint (ucast (w :: u64) :: u8) = uint w mod 256"
  by (simp only: unsigned_ucast_eq) (simp add: take_bit_eq_mod)

lemma u64_of_int: "0 \<le> x \<Longrightarrow> x < 2 ^ 64 \<Longrightarrow> uint (word_of_int x :: u64) = x"
  by (simp add: uint_word_of_int)

lemma uint_drop7: "uint (drop_bit 7 (v :: u64)) = uint v div 128"
  by (simp only: uint_nat unat_drop_bit_eq) (simp add: drop_bit_eq_div zdiv_int)

lemma or_push_bit:
  fixes a x :: u64
  assumes "uint a < 2 ^ n" and "2 ^ n * (uint x + 1) \<le> 2 ^ 64"
  shows "uint (a OR push_bit n x) = uint a + 2 ^ n * uint x"
proof -
  have x: "2 ^ n * uint x < 2 ^ 64" "0 \<le> 2 ^ n * uint x" 
  proof -
    have "2 ^ n * uint x < 2 ^ n * (uint x + 1)" by simp
    then show "2 ^ n * uint x < 2 ^ 64" using assms(2) by linarith
  qed simp
  have "uint (push_bit n x) = 2 ^ n * uint x"
    using x by (simp only: unsigned_push_bit_eq) (simp add: push_bit_eq_mult take_bit_eq_mod mult.commute)
  then show ?thesis using int_or_shift [of "uint a" n "uint x"] assms(1) by (simp add: unsigned_or_eq)
qed



section \<open>Reading back what was written\<close>

text \<open>
  The value read so far is \<open>i < 2\<^sup>s\<close>; reading \<open>write_varint v\<close> at shift \<open>s\<close> adds \<open>2\<^sup>s v\<close>.
\<close>

lemma shifted_fits:
  fixes v :: int
  assumes "2 ^ s * v < 2 ^ bits" and "bits \<le> 64" and "s < bits"
  shows "2 ^ s * (v + 1) \<le> 2 ^ 64" and "2 ^ s * (v + 1) \<le> 2 ^ bits"
proof -
  have p: "(2 :: int) ^ bits = 2 ^ s * 2 ^ (bits - s)" using assms(3) by (simp flip: power_add)
  then have "v < 2 ^ (bits - s)" using assms(1) by simp
  then have "2 ^ s * (v + 1) \<le> 2 ^ s * 2 ^ (bits - s)" by simp
  then show "2 ^ s * (v + 1) \<le> 2 ^ bits" unfolding p .
  also have "(2 :: int) ^ bits \<le> 2 ^ 64" using assms(2) by (intro power_increasing) simp_all
  finally show "2 ^ s * (v + 1) \<le> 2 ^ 64" .
qed

lemma read_write_loop:
  assumes "bits \<le> 64"
  shows "2 ^ s * uint v < 2 ^ bits \<Longrightarrow> s < bits \<Longrightarrow> s = 0 \<or> v \<noteq> 0 \<Longrightarrow> uint i < 2 ^ s \<Longrightarrow>
    \<exists>j. read_varint_loop bits (write_varint v @ rest) s rd i = (rd + int (length (write_varint v)), j)
      \<and> uint j = uint i + 2 ^ s * uint v"
proof (induction v arbitrary: s i rd rule: write_varint.induct)
  case (1 v)
  show ?case
  proof (cases "0x80 \<le> v")
    case True
    let ?b = "(ucast v AND 0x7f) OR (0x80 :: u8)" and ?v = "drop_bit 7 v"
    have v: "128 \<le> uint v" using True by (simp add: word_le_def)
    have w: "write_varint v = ?b # write_varint ?v" using True by (simp add: write_varint.simps)
    have b: "uint ?b = uint v mod 128 + 128" by (rule low7_cont)
    have "2 ^ s * 2 ^ 7 \<le> 2 ^ s * uint v" using v by simp
    also note 1(2)
    finally have "(2 :: int) ^ (s + 7) < 2 ^ bits" by (simp only: power_add)
    then have s7: "s + 7 < bits" by simp
    let ?x = "ucast (?b AND 0x7f) :: u64" let ?i = "i OR push_bit s ?x"
    have x: "uint ?x = uint v mod 128" by (simp add: low7 b)
    have "2 ^ s * (uint ?x + 1) \<le> 2 ^ s * 2 ^ 7"
      unfolding x using pos_mod_bound [of 128 "uint v"] by (intro mult_left_mono) simp_all
    also have "\<dots> = (2 :: int) ^ (s + 7)" by (simp add: power_add)
    also have "\<dots> \<le> 2 ^ 64" using s7 assms by (intro power_increasing) simp_all
    finally have i: "uint ?i = uint i + 2 ^ s * (uint v mod 128)" using or_push_bit [OF 1(5), of ?x] x by simp
    have "uint i + 2 ^ s * (uint v mod 128) < 2 ^ s * (uint v mod 128 + 1)" using 1(5) by (simp add: distrib_left)
    also have "\<dots> \<le> 2 ^ s * 2 ^ 7"
      using pos_mod_bound [of 128 "uint v"] by (intro mult_left_mono) simp_all
    finally have i': "uint ?i < 2 ^ (s + 7)" unfolding i by (simp add: power_add)
    have d: "uint v = 128 * (uint v div 128) + uint v mod 128" by simp
    have "2 ^ (s + 7) * uint ?v \<le> 2 ^ s * uint v"
      unfolding uint_drop7 power_add by (subst (2) d) (simp add: distrib_left mult_ac)
    then have "2 ^ (s + 7) * uint ?v < 2 ^ bits" using 1(2) by linarith
    moreover have "?v \<noteq> 0" using v uint_drop7 [of v] by (auto simp: pos_imp_zdiv_pos_iff)
    ultimately obtain j where j: "read_varint_loop bits (write_varint ?v @ rest) (s + 7) (rd + 1) ?i
        = (rd + 1 + int (length (write_varint ?v)), j)" "uint j = uint ?i + 2 ^ (s + 7) * uint ?v"
      using 1(1) [OF True _ s7 _ i'] by blast
    have "2 ^ s * (uint v mod 128) + 2 ^ (s + 7) * (uint v div 128) = 2 ^ s * (128 * (uint v div 128) + uint v mod 128)"
      by (simp only: power_add distrib_left) simp
    then have "uint j = uint i + 2 ^ s * uint v"
      unfolding j(2) i uint_drop7 by (simp only: d [symmetric] add.assoc)
    moreover have "?b \<noteq> 0" "?b AND 0x80 \<noteq> 0" using b top_clear [of ?b] by auto
    ultimately show ?thesis unfolding w using s7 j(1) by (simp add: Let_def add.assoc del: read_varint_loop.simps) (subst read_varint_loop.simps, simp add: Let_def add.assoc)
  next
    case False
    then have v: "uint v < 128" by (simp add: word_le_def)
    have w: "write_varint v = [ucast v]" using False by (simp add: write_varint.simps)
    have b: "uint (ucast v :: u8) = uint v" using v by (simp add: unsigned_ucast_eq take_bit_eq_mod)
    have p: "(2 :: int) ^ bits = 2 ^ s * 2 ^ (bits - s)" using 1(3) by (simp flip: power_add)
    have "uint v < 2 ^ (bits - s)" using 1(2) unfolding p by simp
    moreover have "(ucast v :: u8) AND 0x80 = 0" using top_clear v b by metis
    moreover have "(ucast v :: u8) = 0 \<longrightarrow> v = 0" using b by (metis unsigned_0 uint_0_iff)
    moreover have "uint (ucast ((ucast v :: u8) AND 0x7f) :: u64) = uint v" using v b by (simp add: low7)
    moreover have "uint (i OR push_bit s (ucast ((ucast v :: u8) AND 0x7f))) = uint i + 2 ^ s * uint v"
      using or_push_bit [OF 1(5), of "ucast ((ucast v :: u8) AND 0x7f)"] shifted_fits(1) [OF 1(2) assms 1(3)]
        calculation(4) by simp
    ultimately show ?thesis unfolding w using 1(4) b by (auto simp: Let_def)
  qed
qed



section \<open>What the reader accepts was written\<close>

text \<open>Putting a byte with a set top bit in front of a written number.\<close>

lemma write_varint_cont:
  assumes "128 \<le> uint b" and "v \<noteq> 0" and "128 * (uint v + 1) \<le> 2 ^ 64"
  shows "\<exists>w. write_varint w = b # write_varint v \<and> uint w = uint b mod 128 + 128 * uint v"
proof -
  let ?w = "word_of_int (uint b mod 128 + 128 * uint v) :: u64"
  have m: "0 \<le> uint b mod 128" "uint b mod 128 < 128" by simp_all
  have v: "1 \<le> uint v" using assms(2) uint_ge_0 [of v] by (metis uint_0_iff int_one_le_iff_zero_less order_le_less)
  have "x + 128 * u < 2 ^ 64" if "x < 128" and "128 * (u + 1) \<le> 2 ^ 64" for x u :: int using that by simp
  then have "uint b mod 128 + 128 * uint v < 2 ^ 64" using m(2) assms(3) .
  then have w: "uint ?w = uint b mod 128 + 128 * uint v" using m by (intro u64_of_int) (simp_all only:, simp)
  have "(uint b mod 128 + 128 * uint v) div 128 = uint v" using m by simp
  then have d: "drop_bit 7 ?w = v" by (intro word_uint_eqI) (simp only: uint_drop7 w)
  have "uint ((ucast ?w AND 0x7f) OR (0x80 :: u8)) = uint b mod 128 + 128" unfolding low7_cont w by simp
  also have "\<dots> = uint b" 
    using assms(1) uint_lt2p [of b] mod_pos_pos_trivial [of "uint b - 128" 128] by simp
  finally have b: "(ucast ?w AND 0x7f) OR (0x80 :: u8) = b" by (rule word_uint_eqI)
  have "0x80 \<le> ?w" unfolding word_le_def w using m v by simp
  then have "write_varint ?w = b # write_varint v" by (subst write_varint.simps) (simp only: if_True b d)
  with w show ?thesis by blast
qed

lemma read_loop_canonical:
  assumes "bits \<le> 64"
  shows "read_varint_loop bits bs s rd i = (r, j) \<Longrightarrow> 0 \<le> r \<Longrightarrow> 0 \<le> rd \<Longrightarrow> s < bits \<Longrightarrow> uint i < 2 ^ s \<Longrightarrow>
    list_all (\<lambda>b. 128 \<le> uint b) bs \<or>
    (\<exists>v rest. bs = write_varint v @ rest \<and> r = rd + int (length (write_varint v))
      \<and> uint j = uint i + 2 ^ s * uint v \<and> 2 ^ s * uint v < 2 ^ bits \<and> (s = 0 \<or> v \<noteq> 0))"
proof (induction bs arbitrary: s rd i)
  case Nil
  then show ?case by simp
next
  case (Cons b bs)
  let ?x = "ucast (b AND 0x7f) :: u64" let ?i = "i OR push_bit s ?x"
  have ok: "\<not> (bits \<le> s + 7 \<and> 2 ^ (bits - s) \<le> uint b)" "\<not> (b = 0 \<and> s \<noteq> 0)"
    using Cons.prems(1,2) by (auto simp: Let_def split: if_splits)
  have x: "uint ?x = uint b mod 128" by (simp add: low7)
  have p: "(2 :: int) ^ bits = 2 ^ s * 2 ^ (bits - s)" using Cons.prems(4) by (simp flip: power_add)
  show ?case
  proof (cases "uint b < 128")
    case True
    then have "b AND 0x80 = 0" by (simp add: top_clear)
    then have r: "r = rd + 1" "j = ?i" using Cons.prems(1) ok by (auto simp: Let_def)
    have "uint b < 2 ^ (bits - s)"
    proof (cases "bits \<le> s + 7")
      case False
      then have "(2 :: int) ^ 7 \<le> 2 ^ (bits - s)" by (intro power_increasing) simp_all
      with True show ?thesis by simp
    qed (use ok(1) in simp)
    then have f: "2 ^ s * uint b < 2 ^ bits" unfolding p by simp
    have "uint ?i = uint i + 2 ^ s * uint b"
      using or_push_bit [OF Cons.prems(5), of ?x] shifted_fits(1) [OF f assms Cons.prems(4)] x True by simp
    moreover have "write_varint (ucast b) = [b]"
    proof -
      have "(ucast (ucast b :: u64) :: u8) = b"
        using uint_lt2p [of b] by (intro word_uint_eqI) (simp add: uint_u64_u8)
      then show ?thesis using True by (subst write_varint.simps) (simp add: word_le_def)
    qed
    moreover have "s = 0 \<or> (ucast b :: u64) \<noteq> 0" using ok(2) by (metis uint_u8_u64 uint_0_iff unsigned_0)
    ultimately have "b # bs = write_varint (ucast b) @ bs \<and> r = rd + int (length (write_varint (ucast b)))
      \<and> uint j = uint i + 2 ^ s * uint (ucast b :: u64) \<and> 2 ^ s * uint (ucast b :: u64) < 2 ^ bits \<and> (s = 0 \<or> (ucast b :: u64) \<noteq> 0)"
      using r f by simp
    then show ?thesis by blast
  next
    case False
    then have b: "128 \<le> uint b" by simp
    have s7: "s + 7 < bits"
    proof (rule ccontr)
      assume "\<not> s + 7 < bits"
      then have "(2 :: int) ^ (bits - s) \<le> 2 ^ 7" by (intro power_increasing) simp_all
      with b ok(1) \<open>\<not> s + 7 < bits\<close> show False by simp
    qed
    have "2 ^ s * (uint ?x + 1) \<le> 2 ^ s * 2 ^ 7" unfolding x by (intro mult_left_mono) simp_all
    also have e: "\<dots> = (2 :: int) ^ (s + 7)" by (simp add: power_add)
    also have "\<dots> \<le> 2 ^ 64" using s7 assms by (intro power_increasing) simp_all
    finally have i: "uint ?i = uint i + 2 ^ s * (uint b mod 128)" using or_push_bit [OF Cons.prems(5), of ?x] x by simp
    have "uint i + 2 ^ s * (uint b mod 128) < 2 ^ s * (uint b mod 128 + 1)" using Cons.prems(5) by (simp add: distrib_left)
    also have "\<dots> \<le> 2 ^ s * 2 ^ 7" by (intro mult_left_mono) simp_all
    finally have i': "uint ?i < 2 ^ (s + 7)" unfolding i e .
    have "b AND 0x80 \<noteq> 0" using b top_clear [of b] by simp
    then have "read_varint_loop bits bs (s + 7) (rd + 1) ?i = (r, j)" using Cons.prems(1) ok by (auto simp: Let_def)
    from Cons.IH [OF this Cons.prems(2) _ s7 i'] Cons.prems(3)
    consider "list_all (\<lambda>b. 128 \<le> uint b) bs"
      | v rest where "bs = write_varint v @ rest" "r = rd + 1 + int (length (write_varint v))"
        "uint j = uint ?i + 2 ^ (s + 7) * uint v" "2 ^ (s + 7) * uint v < 2 ^ bits" "v \<noteq> 0" by auto
    then show ?thesis
    proof cases
      case 1
      with b show ?thesis by simp
    next
      case (2 v rest)
      note f = shifted_fits [OF 2(4) assms s7]
      have "128 * (uint v + 1) \<le> 2 ^ (s + 7) * (uint v + 1)"
        using power_increasing [of 7 "s + 7" "2 :: int"] by (intro mult_right_mono) simp_all
      then have "128 * (uint v + 1) \<le> 2 ^ 64" using f(1) by linarith
      from write_varint_cont [OF b 2(5) this] obtain w where w: "write_varint w = b # write_varint v"
        "uint w = uint b mod 128 + 128 * uint v" by blast
      have e2: "2 ^ s * uint w = 2 ^ s * (uint b mod 128) + 2 ^ (s + 7) * uint v"
        unfolding w(2) by (simp only: power_add distrib_left) simp
      have "2 ^ s * (uint b mod 128) < 2 ^ (s + 7)"
        unfolding e [symmetric] by (intro mult_strict_left_mono) simp_all
      then have "2 ^ s * uint w < 2 ^ bits" using f(2) unfolding e2 by (simp add: distrib_left)
      moreover have "w \<noteq> 0" using w(2) 2(5) uint_ge_0 [of v] by (metis uint_0_iff add_nonneg_eq_0_iff mult_eq_0_iff
            pos_mod_sign zero_less_numeral unsigned_0 mult_nonneg_nonneg zero_le_numeral zero_neq_numeral)
      moreover have "uint j = uint i + 2 ^ s * uint w" using 2(3) i e2 by simp
      ultimately have "b # bs = write_varint w @ rest \<and> r = rd + int (length (write_varint w))
        \<and> uint j = uint i + 2 ^ s * uint w \<and> 2 ^ s * uint w < 2 ^ bits \<and> (s = 0 \<or> w \<noteq> 0)"
        using 2(1,2) w(1) by simp
      then show ?thesis by blast
    qed
  qed
qed

lemma read_loop_count: "fst (read_varint_loop bits bs s rd i) \<le> rd + int (length bs) \<or> fst (read_varint_loop bits bs s rd i) < 0"
proof (induction bs arbitrary: s rd i)
  case (Cons b bs)
  from Cons.IH [of "s + 7" "rd + 1" "i OR push_bit s (ucast (b AND 0x7f))"] show ?case by (auto simp: Let_def)
qed simp

lemma read_loop_exhausted:
  "list_all (\<lambda>b. 128 \<le> uint b) bs \<Longrightarrow> fst (read_varint_loop bits bs s rd i) = rd + int (length bs)
     \<or> fst (read_varint_loop bits bs s rd i) < 0"
proof (induction bs arbitrary: s rd i)
  case (Cons b bs)
  then have "b AND 0x80 \<noteq> 0" by (simp add: top_clear)
  with Cons.IH [of "s + 7" "rd + 1" "i OR push_bit s (ucast (b AND 0x7f))"] Cons.prems show ?case by (auto simp: Let_def)
qed simp

lemma read_too_big_loop:
  assumes "bits \<le> 64"
  shows "2 ^ bits \<le> 2 ^ s * uint v \<Longrightarrow> s < bits \<Longrightarrow> s = 0 \<or> v \<noteq> 0 \<Longrightarrow>
    fst (read_varint_loop bits (write_varint v @ rest) s rd i) = - 1"
proof (induction v arbitrary: s i rd rule: write_varint.induct)
  case (1 v)
  have p: "(2 :: int) ^ bits = 2 ^ s * 2 ^ (bits - s)" using 1(3) by (simp flip: power_add)
  then have v: "2 ^ (bits - s) \<le> uint v" using 1(2) by simp
  show ?case
  proof (cases "0x80 \<le> v")
    case True
    let ?b = "(ucast v AND 0x7f) OR (0x80 :: u8)" and ?v = "drop_bit 7 v"
    have w: "write_varint v = ?b # write_varint ?v" using True by (simp add: write_varint.simps)
    have b: "uint ?b = uint v mod 128 + 128" by (rule low7_cont)
    then have nz: "?b \<noteq> 0" "?b AND 0x80 \<noteq> 0" using top_clear [of ?b] by auto
    show ?thesis
    proof (cases "bits \<le> s + 7")
      case True
      then have "(2 :: int) ^ (bits - s) \<le> 2 ^ 7" by (intro power_increasing) simp_all
      then have "(2 :: int) ^ (bits - s) \<le> uint ?b" unfolding b by (simp add: add_increasing)
      with True show ?thesis unfolding w by (simp add: Let_def)
    next
      case False
      have "(2 :: int) ^ (bits - s) = 128 * 2 ^ (bits - (s + 7))"
        using False power_add [of "2 :: int" 7 "bits - (s + 7)"] by simp
      then have "2 ^ (bits - (s + 7)) \<le> uint v div 128" using v zdiv_mono1 [OF v, of 128] by simp
      then have "2 ^ (s + 7) * 2 ^ (bits - (s + 7)) \<le> 2 ^ (s + 7) * uint ?v" unfolding uint_drop7 by simp
      then have "2 ^ bits \<le> 2 ^ (s + 7) * uint ?v" using False by (simp flip: power_add)
      moreover have "?v \<noteq> 0" using True uint_drop7 [of v] by (auto simp: word_le_def pos_imp_zdiv_pos_iff)
      ultimately have "fst (read_varint_loop bits (write_varint ?v @ rest) (s + 7) (rd + 1) (i OR push_bit s (ucast (?b AND 0x7f)))) = - 1"
        using False by (intro 1(1) [OF True]) auto
      with nz False show ?thesis unfolding w by (subst append_Cons, subst read_varint_loop.simps) (simp add: Let_def del: read_varint_loop.simps)
    qed
  next
    case False
    then have small: "uint v < 128" by (simp add: word_le_def)
    then have "(2 :: int) ^ (bits - s) < 2 ^ 7" using v by simp
    then have "bits - s < 7" by (subst (asm) power_strict_increasing_iff) simp_all
    then have "bits \<le> s + 7" by simp
    moreover have "uint (ucast v :: u8) = uint v" using small by (simp add: uint_u64_u8)
    moreover have "write_varint v = [ucast v]" using False by (simp add: write_varint.simps)
    ultimately show ?thesis using v by simp
  qed
qed

lemma write_varint_length: "0 < n \<Longrightarrow> length (write_varint v) \<le> n \<longleftrightarrow> uint v < 128 ^ n"
proof (induction v arbitrary: n rule: write_varint.induct)
  case (1 v)
  obtain m where n: "n = Suc m" using 1(2) by (cases n) auto
  show ?case
  proof (cases "0x80 \<le> v")
    case True
    then have l: "length (write_varint v) = Suc (length (write_varint (drop_bit 7 v)))" by (simp add: write_varint.simps)
    have v: "128 \<le> uint v" using True by (simp add: word_le_def)
    show ?thesis
    proof (cases "m = 0")
      case True
      have "write_varint w \<noteq> []" for w by (simp add: write_varint.simps)
      then show ?thesis using True v by (simp add: l n)
    next
      case False
      have "uint v < 128 * 128 ^ m \<longleftrightarrow> uint v div 128 < 128 ^ m"
        using zdiv_mono1 [of "128 * 128 ^ m" "uint v" 128] div_bounds [of 128 "uint v"] by (auto simp: not_less [symmetric])
      then show ?thesis using 1(1) [OF True, of m] False by (simp add: l n uint_drop7)
    qed
  next
    case False
    then have "uint v < 128" by (simp add: word_le_def)
    also have "(128 :: int) \<le> 128 * 128 ^ m" by simp
    finally show ?thesis using False by (simp add: write_varint.simps n)
  qed
qed


section \<open>Properties\<close>

text \<open>
  Reading back a written number of at most \<open>bits\<close> bits returns the number
  and the count of its bytes, whatever follows; a wider number is refused with \<open>-1\<close>.
\<close>

theorem varint_roundtrip:
  assumes "0 < bits" and "bits \<le> 64"
  shows "(uint v < 2 ^ bits \<longrightarrow> read_varint bits (write_varint v @ rest) = (int (length (write_varint v)), v))
    \<and> (2 ^ bits \<le> uint v \<longrightarrow> fst (read_varint bits (write_varint v @ rest)) = - 1)"
proof (intro conjI impI)
  assume "uint v < 2 ^ bits"
  then obtain j where "read_varint bits (write_varint v @ rest) = (int (length (write_varint v)), j)" "uint j = uint v"
    using read_write_loop [OF assms(2), of 0 v 0 rest 0] assms(1) by (auto simp: read_varint_def)
  then show "read_varint bits (write_varint v @ rest) = (int (length (write_varint v)), v)" using word_uint_eqI by blast
next
  assume "2 ^ bits \<le> uint v"
  then show "fst (read_varint bits (write_varint v @ rest)) = - 1"
    using read_too_big_loop [OF assms(2), of 0 v] assms(1) by (simp add: read_varint_def)
qed

theorem varint_roundtrip_witness:
  "read_varint 64 (write_varint 300 @ [7]) = (int (length (write_varint 300)), 300)
   \<and> fst (read_varint 8 (write_varint 300 @ [7])) = - 1"
  using varint_roundtrip [of 64 300 "[7]"] varint_roundtrip [of 8 300 "[7]"] by simp

text \<open>
  What the reader accepts up to a byte with a clear top bit is exactly what
  the writer writes for the number it returns: no number has two accepted encodings.
\<close>

theorem varint_canonical:
  assumes "0 < bits" and "bits \<le> 64" and "read_varint bits bs = (r, v)" and "0 < r" and "uint (bs ! (nat r - 1)) < 128"
  shows "take (nat r) bs = write_varint v \<and> uint v < 2 ^ bits"
proof -
  have "r \<le> int (length bs)" using read_loop_count [of bits bs 0 0 0] assms(3,4) by (simp add: read_varint_def)
  then have n: "nat r - 1 < length bs" using assms(4) by linarith
  have "\<not> list_all (\<lambda>b. 128 \<le> uint b) bs" using n assms(5) by (auto simp: list_all_length not_le)
  then obtain w rest where "bs = write_varint w @ rest" "r = int (length (write_varint w))" "uint v = uint w" "uint w < 2 ^ bits"
    using read_loop_canonical [OF assms(2), of bs 0 0 0 r v] assms(1,3,4) by (auto simp: read_varint_def)
  then show ?thesis using word_uint_eqI by fastforce
qed

theorem varint_canonical_witness:
  "take (nat 2) [172, 2, 9] = write_varint 300 \<and> uint (300 :: u64) < 2 ^ 64"
proof -
  have r: "read_varint 64 [172, 2, 9] = (2, 300)" by code_simp
  show ?thesis by (rule varint_canonical [OF _ _ r]) simp_all
qed

text \<open>
  \<^verbatim>\<open>get_varint_packed_size\<close> is the number of bytes written, capped at
  eight: it is short by one or two for numbers of \<open>2\<^sup>5\<^sup>6\<close> and more.
\<close>

theorem varint_packed_size: "get_varint_packed_size v = min 8 (length (write_varint v))"
proof -
  let ?l = "length (write_varint v)"
  have n: "?l \<le> 1 \<longleftrightarrow> v \<le> 127" "?l \<le> 2 \<longleftrightarrow> v \<le> 16383" "?l \<le> 3 \<longleftrightarrow> v \<le> 2097151" "?l \<le> 4 \<longleftrightarrow> v \<le> 268435455"
    "?l \<le> 5 \<longleftrightarrow> v \<le> 34359738367" "?l \<le> 6 \<longleftrightarrow> v \<le> 4398046511103" "?l \<le> 7 \<longleftrightarrow> v \<le> 562949953421311"
    by (subst write_varint_length, simp, simp add: word_le_def, linarith)+
  have "1 \<le> ?l" by (subst write_varint.simps) simp
  then show ?thesis unfolding get_varint_packed_size_def n [symmetric] by (auto simp del: One_nat_def)
qed

end
