(* ===== verification/Keys.thy ===== *)
theory Keys
  imports Curve_Order Hash_To_Point Scalar_Ops Varint
begin

text \<open>
  Keys of \<^verbatim>\<open>src/src/crypto/crypto.cpp\<close>: key pairs, the derivation of a shared secret, one-time keys and key
  images. A key, a scalar or an image is its 32 bytes. Results have three layers: \<open>None\<close> is undefined behaviour
  (an overflow, a read past an array), an \<open>outcome\<close> says whether the function returned, threw or aborted, and
  where the C++ function returns \<^verbatim>\<open>bool\<close> with an output parameter, \<open>Returns None\<close> is \<^verbatim>\<open>false\<close>. Random
  bytes are arguments. The flag \<open>debug\<close> is the absence of \<^verbatim>\<open>NDEBUG\<close>: then a failing \<^verbatim>\<open>crypto_assert\<close>
  aborts before it can throw.
\<close>

section \<open>Outcomes\<close>

datatype 'a outcome = Aborts | Throws | Returns 'a

definition outcome_bind :: "'a outcome option \<Rightarrow> ('a \<Rightarrow> 'b outcome option) \<Rightarrow> 'b outcome option" where
  "outcome_bind m f = do {
     r \<leftarrow> m;
     case r of Aborts \<Rightarrow> Some Aborts | Throws \<Rightarrow> Some Throws | Returns x \<Rightarrow> f x }"

definition crypto_assert :: "bool \<Rightarrow> bool \<Rightarrow> 'a outcome option \<Rightarrow> 'a outcome option" where
  "crypto_assert debug expression k = (if expression then k else Some (if debug then Aborts else Throws))"

lemma outcome_bind_Returns [simp]: "outcome_bind (Some (Returns x)) f = f x"
  by (simp add: outcome_bind_def)

lemma crypto_assert_True [simp]: "crypto_assert debug True k = k"
  by (simp add: crypto_assert_def)

lemma crypto_assert_False [simp]: "crypto_assert debug False k = Some (if debug then Aborts else Throws)"
  by (simp add: crypto_assert_def)


section \<open>Key pairs\<close>

definition Z_key :: bytes where
  "Z_key = [0x00, 0x00, 0x00, 0x00, 0x00, 0x00, 0x00, 0x00, 0x00, 0x00, 0x00, 0x00, 0x00, 0x00, 0x00, 0x00, 0x00, 0x00, 0x00, 0x00, 0x00, 0x00, 0x00, 0x00, 0x00, 0x00, 0x00, 0x00, 0x00, 0x00, 0x00, 0x00]"

definition I_key :: bytes where
  "I_key = [0x01, 0x00, 0x00, 0x00, 0x00, 0x00, 0x00, 0x00, 0x00, 0x00, 0x00, 0x00, 0x00, 0x00, 0x00, 0x00, 0x00, 0x00, 0x00, 0x00, 0x00, 0x00, 0x00, 0x00, 0x00, 0x00, 0x00, 0x00, 0x00, 0x00, 0x00, 0x00]"

definition L_key :: bytes where
  "L_key = [0xed, 0xd3, 0xf5, 0x5c, 0x1a, 0x63, 0x12, 0x58, 0xd6, 0x9c, 0xf7, 0xa2, 0xde, 0xf9, 0xde, 0x14, 0x00, 0x00, 0x00, 0x00, 0x00, 0x00, 0x00, 0x00, 0x00, 0x00, 0x00, 0x00, 0x00, 0x00, 0x00, 0x10]"

definition random_scalar_no_lock :: "bytes \<Rightarrow> bytes option" where
  "random_scalar_no_lock tmp = do { tmp \<leftarrow> sc_reduce tmp; Some (take 32 tmp) }"

text \<open>\<^verbatim>\<open>ge_scalarmult_base(&point, &sec); ge_p3_tobytes(&pub, &point);\<close>\<close>

definition base_bytes :: "bytes \<Rightarrow> bytes option" where
  "base_bytes sec = do { point \<leftarrow> ge_scalarmult_base ge_base sec; ge_p3_tobytes point }"

definition keys_from_default :: "bytes \<Rightarrow> nat \<Rightarrow> (bytes \<times> bytes) outcome option" where
  "keys_from_default a_part keys_seed_binary_size =
     (if \<not> 64 \<ge> keys_seed_binary_size then Some Throws
      else if length a_part < keys_seed_binary_size then None
      else do {
        let tmp = take keys_seed_binary_size a_part @ replicate (64 - keys_seed_binary_size) 0;
        let tmp = take 32 tmp @ cn_fast_hash (take 32 tmp);
        tmp \<leftarrow> sc_reduce tmp;
        let sec = take 32 tmp;
        pub \<leftarrow> base_bytes sec;
        Some (Returns (pub, sec)) })"

definition generate_seed_keys :: "bytes \<Rightarrow> nat \<Rightarrow> (bytes \<times> bytes \<times> bytes) outcome option" where
  "generate_seed_keys keys_seed_binary keys_seed_binary_size =
     outcome_bind (keys_from_default keys_seed_binary keys_seed_binary_size)
       (\<lambda>(pub, sec). Some (Returns (pub, sec, keys_seed_binary)))"

definition hash_to_scalar :: "bytes \<Rightarrow> bytes option" where
  "hash_to_scalar data = sc_reduce32 (cn_fast_hash data)"

definition generate_keys :: "bytes \<Rightarrow> (bytes \<times> bytes) option" where
  "generate_keys random = do {
     sec \<leftarrow> random_scalar_no_lock random;
     pub \<leftarrow> base_bytes sec;
     Some (pub, sec) }"

definition dependent_key :: "bytes \<Rightarrow> bytes outcome option" where
  "dependent_key first = do {
     second \<leftarrow> hash_to_scalar first;
     c \<leftarrow> sc_check second;
     Some (if c \<noteq> 0 then Throws else Returns second) }"

definition check_key :: "bytes \<Rightarrow> bool option" where
  "check_key key = do { r \<leftarrow> ge_frombytes_vartime key; Some (r \<noteq> Not_a_point) }"

definition scalarmult_key :: "bytes \<Rightarrow> bytes \<Rightarrow> bytes option" where
  "scalarmult_key P a = do {
     r \<leftarrow> ge_frombytes_vartime P;
     case r of
       Not_a_point \<Rightarrow> Some Z_key
     | Point A \<Rightarrow> do { R \<leftarrow> ge_scalarmult a A; ge_tobytes R } }"

definition validate_key_image :: "bytes \<Rightarrow> bool option" where
  "validate_key_image ki = do { k \<leftarrow> scalarmult_key ki L_key; Some (k = I_key) }"

definition secret_key_to_public_key :: "bytes \<Rightarrow> bytes option option" where
  "secret_key_to_public_key sec = do {
     c \<leftarrow> sc_check sec;
     if c \<noteq> 0 then Some None
     else do { pub \<leftarrow> base_bytes sec; Some (Some pub) } }"


section \<open>Derivations\<close>

definition generate_key_derivation :: "bool \<Rightarrow> bytes \<Rightarrow> bytes \<Rightarrow> bytes option outcome option" where
  "generate_key_derivation debug key1 key2 = do {
     c \<leftarrow> sc_check key2;
     crypto_assert debug (c = 0) (do {
       r \<leftarrow> ge_frombytes_vartime key1;
       case r of
         Not_a_point \<Rightarrow> Some (Returns None)
       | Point point \<Rightarrow> do {
           point2 \<leftarrow> ge_scalarmult key2 point;
           point3 \<leftarrow> ge_mul8 point2;
           point2 \<leftarrow> ge_p1p1_to_p2 point3;
           derivation \<leftarrow> ge_tobytes point2;
           Some (Returns (Some derivation)) } }) }"

definition derivation_to_scalar :: "bool \<Rightarrow> bytes \<Rightarrow> u64 \<Rightarrow> bytes outcome option" where
  "derivation_to_scalar debug derivation output_index =
     (let v = write_varint output_index in
      crypto_assert debug (length v \<le> (8 * 8 + 6) div 7) (do {
        res \<leftarrow> hash_to_scalar (derivation @ v);
        Some (Returns res) }))"

definition derive_public_key :: "bool \<Rightarrow> bytes \<Rightarrow> u64 \<Rightarrow> bytes \<Rightarrow> bytes option outcome option" where
  "derive_public_key debug derivation output_index base = do {
     r \<leftarrow> ge_frombytes_vartime base;
     case r of
       Not_a_point \<Rightarrow> Some (Returns None)
     | Point point1 \<Rightarrow> outcome_bind (derivation_to_scalar debug derivation output_index) (\<lambda>scalar. do {
         point2 \<leftarrow> ge_scalarmult_base ge_base scalar;
         point3 \<leftarrow> ge_p3_to_cached point2;
         point4 \<leftarrow> ge_add point1 point3;
         point5 \<leftarrow> ge_p1p1_to_p2 point4;
         derived_key \<leftarrow> ge_tobytes point5;
         Some (Returns (Some derived_key)) }) }"

definition derive_secret_key :: "bool \<Rightarrow> bytes \<Rightarrow> u64 \<Rightarrow> bytes \<Rightarrow> bytes outcome option" where
  "derive_secret_key debug derivation output_index base = do {
     c \<leftarrow> sc_check base;
     crypto_assert debug (c = 0)
       (outcome_bind (derivation_to_scalar debug derivation output_index) (\<lambda>scalar. do {
         derived_key \<leftarrow> sc_add base scalar;
         Some (Returns derived_key) })) }"


section \<open>Key images\<close>

definition hash_to_ec :: "bytes \<Rightarrow> ge_p3 option" where
  "hash_to_ec key = do {
     point \<leftarrow> ge_fromfe_frombytes_vartime (cn_fast_hash key);
     point2 \<leftarrow> ge_mul8 point;
     ge_p1p1_to_p3 point2 }"

definition generate_key_image :: "bool \<Rightarrow> bytes \<Rightarrow> bytes \<Rightarrow> bytes outcome option" where
  "generate_key_image debug pub sec = do {
     c \<leftarrow> sc_check sec;
     crypto_assert debug (c = 0) (do {
       point \<leftarrow> hash_to_ec pub;
       point2 \<leftarrow> ge_scalarmult sec point;
       image \<leftarrow> ge_tobytes point2;
       Some (Returns image) }) }"


section \<open>Scalars\<close>

definition canonical :: "bytes \<Rightarrow> bool" where
  "canonical s \<longleftrightarrow> length s = 32 \<and> le_value s < sc_l"

lemma canonical_length [simp]: "canonical s \<Longrightarrow> length s = 32"
  by (simp add: canonical_def)

lemma canonical_top: "canonical s \<Longrightarrow> uint (s ! 31) \<le> 127"
proof -
  assume c: "canonical s"
  have "s ! 31 = word_of_int (le_value s div 256 ^ 31)"
    using le_bytes_nth [of 31 32 "le_value s"] c le_bytes_le_value [of s] by (simp add: canonical_def)
  moreover have "0 \<le> le_value s div 256 ^ 31" "le_value s div 256 ^ 31 \<le> 127"
  proof -
    have "le_value s < 128 * 256 ^ 31" using c by (simp add: canonical_def sc_l_def)
    then have "le_value s div 256 ^ 31 < 128" by (simp add: div_less_iff_less_mult)
    then show "le_value s div 256 ^ 31 \<le> 127" "0 \<le> le_value s div 256 ^ 31" by (simp_all add: pos_imp_zdiv_nonneg_iff)
  qed
  ultimately show ?thesis by (simp add: uint_word_of_int)
qed

lemma canonical_scalar255: "canonical s \<Longrightarrow> scalar255 s"
  by (simp add: scalar255_def canonical_top)

lemma canonical_le_bytes: "canonical (le_bytes 32 (k mod sc_l))" "le_value (le_bytes 32 (k mod sc_l)) = k mod sc_l"
proof -
  have "0 \<le> k mod sc_l" "k mod sc_l < sc_l" by (simp_all add: sc_l_def)
  moreover have "sc_l < 256 ^ 32" by (simp add: sc_l_def)
  ultimately show "le_value (le_bytes 32 (k mod sc_l)) = k mod sc_l" by (simp add: le_value_le_bytes)
  then show "canonical (le_bytes 32 (k mod sc_l))" by (simp add: canonical_def sc_l_def)
qed

lemma sc_check_canonical: "length s = 32 \<Longrightarrow> sc_check s = Some (if canonical s then 0 else - 1)"
  by (simp add: sc_check_correct canonical_def)

text \<open>The scalar operations as functions of residues.\<close>

abbreviation sc_bytes :: "int \<Rightarrow> bytes" where
  "sc_bytes k \<equiv> le_bytes 32 (k mod sc_l)"

lemma sc_add_bytes: "length a = 32 \<Longrightarrow> length b = 32 \<Longrightarrow> sc_add a b = Some (sc_bytes (le_value a + le_value b))"
  by (rule le_bytes_eqI, rule sc_add_correct)

lemma sc_sub_bytes: "length a = 32 \<Longrightarrow> length b = 32 \<Longrightarrow> sc_sub a b = Some (sc_bytes (le_value a - le_value b))"
  by (rule le_bytes_eqI, rule sc_sub_correct)

lemma sc_mulsub_bytes:
  "length a = 32 \<Longrightarrow> length b = 32 \<Longrightarrow> length c = 32 \<Longrightarrow> sc_mulsub a b c = Some (sc_bytes (le_value c - le_value a * le_value b))"
  by (rule le_bytes_eqI, rule sc_mulsub_correct)

lemma random_scalar_bytes: "length tmp = 64 \<Longrightarrow> random_scalar_no_lock tmp = Some (sc_bytes (le_value tmp))"
proof -
  assume "length tmp = 64"
  from sc_reduce_correct [OF this] obtain r where r: "sc_reduce tmp = Some r" "length r = 64" "le_value (take 32 r) = le_value tmp mod sc_l" by blast
  have "take 32 r = sc_bytes (le_value tmp)" using le_bytes_le_value [of "take 32 r"] r by simp
  then show ?thesis using r(1) by (simp add: random_scalar_no_lock_def)
qed

definition hash_scalar :: "bytes \<Rightarrow> bytes" where
  "hash_scalar data = sc_bytes (le_value (cn_fast_hash data))"

lemma hash_scalar_canonical [simp]: "canonical (hash_scalar data)" "length (hash_scalar data) = 32"
  by (simp_all add: hash_scalar_def canonical_le_bytes)

lemma hash_to_scalar_bytes: "hash_to_scalar data = Some (hash_scalar data)"
  unfolding hash_to_scalar_def hash_scalar_def by (rule le_bytes_eqI, rule sc_reduce32_correct) simp


section \<open>Points\<close>

text \<open>The public key of a number.\<close>

definition public_of :: "int \<Rightarrow> bytes" where
  "public_of k = ed_encode (zmul k ed_base)"

lemma public_of_length [simp]: "length (public_of k) = 32"
  by (simp add: public_of_def)

lemma public_of_mod: "public_of (k mod sc_l) = public_of k"
  by (simp add: public_of_def base_mod)

lemma public_of_eq: "public_of j = public_of k \<longleftrightarrow> j mod sc_l = k mod sc_l"
proof -
  have "zmul j ed_base = zmul k ed_base \<longleftrightarrow> zmul (j - k) ed_base = 0" by (simp add: zmul_sub)
  then show ?thesis by (simp add: public_of_def ed_encode_inj base_order_iff mod_eq_dvd_iff)
qed

lemma base_mult_is:
  assumes "length s = 32" and "uint (s ! 31) \<le> 127"
  obtains P where "ge_scalarmult_base ge_base s = Some P" and "p3_is ed_coords P (zmul (le_value s) ed_base)"
  using scalarmult_with_is [OF ed_group table_selects(1) [OF ed_group ge_base_table] assms] by (auto simp: ge_scalarmult_base_def)

lemma base_bytes_is: "length s = 32 \<Longrightarrow> uint (s ! 31) \<le> 127 \<Longrightarrow> base_bytes s = Some (public_of (le_value s))"
  by (rule base_mult_is [of s]) (simp_all add: base_bytes_def public_of_def ge_p3_tobytes_is)

lemma base_bytes_canonical: "canonical s \<Longrightarrow> base_bytes s = Some (public_of (le_value s))"
  by (simp add: base_bytes_is canonical_top)

text \<open>The bytes of a multiple.\<close>

lemma scalarmult_bytes:
  assumes "p3_is ed_coords A g" and "length a = 32" and "uint (a ! 31) \<le> 127"
  shows "(do { R \<leftarrow> ge_scalarmult a A; ge_tobytes R }) = Some (ed_encode (zmul (le_value a) g))"
  using ge_scalarmult_is [OF ed_group assms] ge_tobytes_is by fastforce

lemma hash_to_ec_is: obtains P where "hash_to_ec key = Some P" and "p3_is ed_coords P (ed_hash key)"
  using ge_bytes_hash_is [of key] unfolding ge_bytes_hash_to_ec_def hash_to_ec_def .

lemma ed_hash_order: "zmul sc_l (ed_hash data) = 0"
  unfolding prime_subgroup ed_hash_def using cofactor_base by metis

lemma L_key_value: "le_value L_key = sc_l" "length L_key = 32" "uint (L_key ! 31) \<le> 127"
  by (simp_all add: L_key_def sc_l_def)

lemma I_key_encode: "I_key = ed_encode 0"
proof -
  have "le_value I_key = 1" "length I_key = 32" by (simp_all add: I_key_def)
  then have "I_key = le_bytes 32 1" using le_bytes_le_value [of I_key] by metis
  then show ?thesis by (simp add: ed_encode_def)
qed


section \<open>What the functions return\<close>

lemma secret_key_to_public_key_is:
  "length sec = 32 \<Longrightarrow> secret_key_to_public_key sec = Some (if canonical sec then Some (public_of (le_value sec)) else None)"
  by (simp add: secret_key_to_public_key_def sc_check_canonical base_bytes_canonical)

lemma check_key_is: "length key = 32 \<Longrightarrow> check_key key = Some (\<exists>g. key = ed_encode g)"
  using ge_frombytes_is [of key] by (auto simp: check_key_def)

lemma generate_keys_is:
  "length random = 64 \<Longrightarrow> generate_keys random = Some (public_of (le_value random), sc_bytes (le_value random))"
  by (simp add: generate_keys_def random_scalar_bytes base_bytes_canonical canonical_le_bytes public_of_mod)

text \<open>The seed is cut or filled to 32 bytes, and its hash makes the upper half.\<close>

definition seed_number :: "bytes \<Rightarrow> int" where
  "seed_number s = (let t = take 32 (s @ replicate 32 0) in le_value (t @ cn_fast_hash t))"

lemma keys_from_default_is:
  assumes "n \<le> 64" and "n \<le> length a"
  shows "keys_from_default a n = Some (Returns (public_of (seed_number (take n a)), sc_bytes (seed_number (take n a))))"
proof -
  define t where "t = take 32 (take n a @ replicate (64 - n) 0)"
  have t: "t = take 32 (take n a @ replicate 32 0)" "length t = 32" using assms by (simp_all add: t_def min_def take_replicate) arith+
  let ?s = "t @ cn_fast_hash t"
  from sc_reduce_correct [of ?s] t(2) obtain r where r: "sc_reduce ?s = Some r" "length r = 64" "le_value (take 32 r) = le_value ?s mod sc_l"
    by auto
  have "take 32 r = sc_bytes (le_value ?s)" using le_bytes_le_value [of "take 32 r"] r by simp
  moreover have "le_value ?s = seed_number (take n a)" by (simp add: seed_number_def t(1))
  ultimately show ?thesis
    unfolding keys_from_default_def Let_def t_def [symmetric]
    using assms r(1) by (simp add: base_bytes_canonical canonical_le_bytes public_of_mod)
qed

lemma dependent_key_is: "dependent_key first = Some (Returns (hash_scalar first))"
  by (simp add: dependent_key_def hash_to_scalar_bytes sc_check_canonical)

lemma generate_key_derivation_is:
  assumes "canonical k"
  shows "generate_key_derivation debug (ed_encode g) k = Some (Returns (Some (ed_encode (zmul (8 * le_value k) g))))"
proof -
  obtain P where P: "ge_frombytes_vartime (ed_encode g) = Some (Point P)" "p3_is ed_coords P g" by (rule ge_frombytes_encode)
  from ge_scalarmult_is [OF ed_group P(2), of k] assms canonical_top [OF assms] obtain R
    where R: "ge_scalarmult k P = Some R" "p2_is ed_coords R (zmul (le_value k) g)" by auto
  from ge_mul8_is [OF ed_group R(2)] obtain S where S: "ge_mul8 R = Some S" "p1p1_is ed_coords S (zmul 8 (zmul (le_value k) g))" by blast
  from ge_p1p1_to_p2_is [OF S(2)] obtain T where T: "ge_p1p1_to_p2 S = Some T" "p2_is ed_coords T (zmul 8 (zmul (le_value k) g))" by blast
  show ?thesis
    using assms P(1) R(1) S(1) T(1) ge_tobytes_is [OF T(2)]
    by (simp add: generate_key_derivation_def sc_check_canonical zmul_zmul)
qed

lemma generate_key_derivation_bad:
  assumes "length key = 32" and "length k = 32"
  shows "\<not> canonical k \<Longrightarrow> generate_key_derivation debug key k = Some (if debug then Aborts else Throws)"
    and "canonical k \<Longrightarrow> \<forall>g. key \<noteq> ed_encode g \<Longrightarrow> generate_key_derivation debug key k = Some (Returns None)"
  using ge_frombytes_rejects [OF assms(1)] assms(2)
  by (simp_all add: generate_key_derivation_def sc_check_canonical crypto_assert_def)

text \<open>The scalar of a derivation and an index; ten bytes hold every index.\<close>

definition derivation_scalar :: "bytes \<Rightarrow> u64 \<Rightarrow> bytes" where
  "derivation_scalar d i = hash_scalar (d @ write_varint i)"

lemma derivation_scalar_canonical [simp]: "canonical (derivation_scalar d i)" "length (derivation_scalar d i) = 32"
  by (simp_all add: derivation_scalar_def)

lemma derivation_to_scalar_is: "derivation_to_scalar debug d i = Some (Returns (derivation_scalar d i))"
proof -
  have "uint i < 2 ^ 64" using uint_lt2p [of i] by simp
  then have "uint i < 128 ^ 10" by simp
  then have "length (write_varint i) \<le> 10" using write_varint_length [of 10 i] by simp
  then show ?thesis by (simp add: derivation_to_scalar_def hash_to_scalar_bytes derivation_scalar_def)
qed

lemma derive_public_key_is:
  "derive_public_key debug d i (ed_encode g) = Some (Returns (Some (ed_encode (g + zmul (le_value (derivation_scalar d i)) ed_base))))"
proof -
  let ?s = "derivation_scalar d i"
  obtain P where P: "ge_frombytes_vartime (ed_encode g) = Some (Point P)" "p3_is ed_coords P g" by (rule ge_frombytes_encode)
  obtain Q where Q: "ge_scalarmult_base ge_base ?s = Some Q" "p3_is ed_coords Q (zmul (le_value ?s) ed_base)"
    by (rule base_mult_is [of ?s]) (simp_all add: canonical_top)
  from ge_p3_to_cached_is [OF Q(2)] obtain C where C: "ge_p3_to_cached Q = Some C" "cached_is ed_coords C (zmul (le_value ?s) ed_base)" by blast
  from ge_add_is [OF ed_group P(2) C(2)] obtain S where S: "ge_add P C = Some S" "p1p1_is ed_coords S (g + zmul (le_value ?s) ed_base)" by blast
  from ge_p1p1_to_p2_is [OF S(2)] obtain T where T: "ge_p1p1_to_p2 S = Some T" "p2_is ed_coords T (g + zmul (le_value ?s) ed_base)" by blast
  show ?thesis
    using P(1) Q(1) C(1) S(1) T(1) ge_tobytes_is [OF T(2)] by (simp add: derive_public_key_def derivation_to_scalar_is)
qed

lemma derive_public_key_bad: "length base = 32 \<Longrightarrow> \<forall>g. base \<noteq> ed_encode g \<Longrightarrow> derive_public_key debug d i base = Some (Returns None)"
  using ge_frombytes_rejects [of base] by (simp add: derive_public_key_def)

lemma derive_secret_key_is:
  assumes "length base = 32"
  shows "derive_secret_key debug d i base =
    Some (if canonical base then Returns (sc_bytes (le_value base + le_value (derivation_scalar d i))) else if debug then Aborts else Throws)"
  using assms by (simp add: derive_secret_key_def sc_check_canonical derivation_to_scalar_is sc_add_bytes crypto_assert_def)

lemma generate_key_image_is:
  assumes "canonical sec"
  shows "generate_key_image debug pub sec = Some (Returns (ed_encode (zmul (le_value sec) (ed_hash pub))))"
proof -
  obtain P where P: "hash_to_ec pub = Some P" "p3_is ed_coords P (ed_hash pub)" by (rule hash_to_ec_is)
  show ?thesis
    using assms P(1) scalarmult_bytes [OF P(2), of sec] canonical_top [OF assms]
    by (auto simp add: generate_key_image_def sc_check_canonical split: bind_splits)
qed

lemma scalarmult_key_is:
  assumes "length P = 32" and "length a = 32" and "uint (a ! 31) \<le> 127"
  shows "P = ed_encode g \<Longrightarrow> scalarmult_key P a = Some (ed_encode (zmul (le_value a) g))"
    and "\<forall>g. P \<noteq> ed_encode g \<Longrightarrow> scalarmult_key P a = Some Z_key"
proof -
  assume p: "P = ed_encode g"
  obtain A where A: "ge_frombytes_vartime P = Some (Point A)" "p3_is ed_coords A g" unfolding p by (rule ge_frombytes_encode)
  show "scalarmult_key P a = Some (ed_encode (zmul (le_value a) g))"
    using A(1) scalarmult_bytes [OF A(2) assms(2,3)] by (simp add: scalarmult_key_def)
next
  assume "\<forall>g. P \<noteq> ed_encode g"
  then show "scalarmult_key P a = Some Z_key" using ge_frombytes_rejects [OF assms(1)] by (simp add: scalarmult_key_def)
qed

lemma validate_key_image_is:
  assumes "length ki = 32"
  shows "validate_key_image ki = Some (\<exists>k. ki = public_of k)"
proof (cases "\<exists>g. ki = ed_encode g")
  case True
  then obtain g where g: "ki = ed_encode g" by blast
  have "scalarmult_key ki L_key = Some (ed_encode (zmul sc_l g))"
    using scalarmult_key_is(1) [OF assms L_key_value(2,3) g] by (simp add: L_key_value(1))
  moreover have "zmul sc_l g = 0 \<longleftrightarrow> (\<exists>k. ki = public_of k)" by (simp add: prime_subgroup g public_of_def ed_encode_inj)
  ultimately show ?thesis by (simp add: validate_key_image_def I_key_encode ed_encode_inj)
next
  case False
  then have "scalarmult_key ki L_key = Some Z_key" using scalarmult_key_is(2) [OF assms L_key_value(2,3)] by blast
  moreover have "Z_key \<noteq> I_key" by (simp add: Z_key_def I_key_def)
  ultimately show ?thesis using False by (auto simp: validate_key_image_def public_of_def)
qed


section \<open>Promises\<close>

text \<open>
  For any 64 random bytes \<^verbatim>\<open>generate_keys\<close> returns a reduced secret key and the encoding
  of its multiple of the base point, which \<^verbatim>\<open>secret_key_to_public_key\<close> returns for it again and
  \<^verbatim>\<open>check_key\<close> accepts. \<^verbatim>\<open>keys_from_default\<close> does the same for a seed of at most 64 bytes, of which only the
  first 32 count, and throws for a longer one.
\<close>

theorem key_pairs_match:
  assumes "length random = 64" and "n \<le> length seed"
  shows "\<exists>pub sec. generate_keys random = Some (pub, sec) \<and> canonical sec \<and> pub = public_of (le_value sec)
      \<and> secret_key_to_public_key sec = Some (Some pub) \<and> check_key pub = Some True
      \<and> (if n \<le> 64 then \<exists>pub sec. keys_from_default seed n = Some (Returns (pub, sec)) \<and> canonical sec
          \<and> secret_key_to_public_key sec = Some (Some pub) \<and> keys_from_default (take 32 seed) (min n 32) = Some (Returns (pub, sec))
        else keys_from_default seed n = Some Throws)"
proof -
  have pair: "secret_key_to_public_key (sc_bytes k) = Some (Some (public_of k))" for k
    by (simp add: secret_key_to_public_key_is canonical_le_bytes public_of_mod)
  have "check_key (public_of k) = Some True" for k by (simp add: check_key_is public_of_def) blast
  moreover have "keys_from_default (take 32 seed) (min n 32) = keys_from_default seed n" if "n \<le> 64"
  proof -
    have "seed_number (take n s) = seed_number (take 32 (take n s))" for s by (simp add: seed_number_def min_def)
    moreover have "take (min n 32) (take 32 seed) = take 32 (take n seed)" by (simp add: min_def)
    ultimately show ?thesis
      using that assms(2) keys_from_default_is [of "min n 32" "take 32 seed"] keys_from_default_is [of n seed] by simp
  qed
  ultimately show ?thesis
    using keys_from_default_is [of n seed] assms pair
    by (auto simp: generate_keys_is canonical_le_bytes public_of_mod keys_from_default_def [of _ "n"])
qed

theorem key_pairs_match_witness:
  "\<exists>pub sec. generate_keys (replicate 64 1) = Some (pub, sec) \<and> check_key pub = Some True
    \<and> keys_from_default (replicate 65 1) 65 = Some Throws"
  using key_pairs_match [of "replicate 64 1" 65 "replicate 65 1"] by auto

text \<open>
  C18 (one_time_keys_match). Sender and recipient derive the same secret from each other's public key, and for every
  output index the one-time public key that the sender derives from it and the recipient's spend key is the
  public key of the one-time secret key that the recipient derives.
\<close>

theorem one_time_keys_match:
  assumes "canonical r" and "canonical a" and "canonical b"
  shows "\<exists>D P x. generate_key_derivation debug (public_of (le_value a)) r = Some (Returns (Some D))
      \<and> generate_key_derivation debug (public_of (le_value r)) a = Some (Returns (Some D))
      \<and> derive_public_key debug D i (public_of (le_value b)) = Some (Returns (Some P))
      \<and> derive_secret_key debug D i b = Some (Returns x)
      \<and> canonical x \<and> secret_key_to_public_key x = Some (Some P)"
proof -
  let ?D = "ed_encode (zmul (8 * le_value r) (zmul (le_value a) ed_base))"
  let ?s = "le_value (derivation_scalar ?D i)"
  have "zmul (8 * le_value a) (zmul (le_value r) ed_base) = zmul (8 * le_value r) (zmul (le_value a) ed_base)"
    by (simp add: zmul_zmul [symmetric] mult.commute mult.left_commute)
  moreover have "zmul (le_value b) ed_base + zmul ?s ed_base = zmul (le_value b + ?s) ed_base" by (simp add: zmul_add)
  ultimately show ?thesis
    using assms by (simp add: public_of_def [of "le_value a"] public_of_def [of "le_value b"] public_of_def [of "le_value r"]
      generate_key_derivation_is derive_public_key_is derive_secret_key_is secret_key_to_public_key_is canonical_le_bytes public_of_mod)
      (simp add: public_of_def)
qed

theorem one_time_keys_match_witness:
  "\<exists>D P x. generate_key_derivation True (public_of 7) (le_bytes 32 5) = Some (Returns (Some D))
      \<and> derive_public_key True D 3 (public_of 9) = Some (Returns (Some P))
      \<and> derive_secret_key True D 3 (le_bytes 32 9) = Some (Returns x) \<and> secret_key_to_public_key x = Some (Some P)"
proof -
  have c: "canonical (le_bytes 32 5)" "canonical (le_bytes 32 7)" "canonical (le_bytes 32 9)"
    by (simp_all add: canonical_def le_value_le_bytes sc_l_def)
  have v: "le_value (le_bytes 32 7) = 7" "le_value (le_bytes 32 9) = 9" by (simp_all add: le_value_le_bytes)
  from one_time_keys_match [OF c, of True 3, unfolded v] show ?thesis by blast
qed

text \<open>
  C20 (key_image_valid). The image of a key pair is the secret key's multiple of the point hashed from the public key,
  and \<^verbatim>\<open>validate_key_image\<close> accepts it. It accepts 32 bytes exactly if they encode a multiple of the base
  point, so no point with a component of small order passes.
\<close>

theorem key_image_valid:
  assumes "canonical sec" and "length ki = 32"
  shows "generate_key_image debug pub sec = Some (Returns (ed_encode (zmul (le_value sec) (ed_hash pub))))
    \<and> validate_key_image (ed_encode (zmul (le_value sec) (ed_hash pub))) = Some True
    \<and> validate_key_image ki = Some (\<exists>k. ki = public_of k)"
proof -
  obtain k where k: "ed_hash pub = zmul k ed_base" unfolding ed_hash_def by (rule cofactor_base)
  have "ed_encode (zmul (le_value sec) (ed_hash pub)) = public_of (le_value sec * k)"
    by (simp add: k public_of_def zmul_zmul)
  then have "validate_key_image (ed_encode (zmul (le_value sec) (ed_hash pub))) = Some True"
    using validate_key_image_is [of "public_of (le_value sec * k)"] by auto
  then show ?thesis using generate_key_image_is [OF assms(1)] validate_key_image_is [OF assms(2)] by simp
qed

theorem key_image_valid_witness: "validate_key_image (ed_encode ed_order4) = Some False"
proof -
  have "canonical (le_bytes 32 1)" by (simp add: canonical_def le_value_le_bytes sc_l_def)
  from key_image_valid [OF this ed_encode_length]
  have v: "validate_key_image (ed_encode ed_order4) = Some (\<exists>k. ed_encode ed_order4 = public_of k)" by blast
  have "zmul sc_l ed_order4 \<noteq> 0"
  proof -
    have "ed_order4 = zmul 2 tor8" using tor8_double zmul_double [of 1 tor8] by simp
    then have "zmul sc_l ed_order4 = zmul (sc_l * 2) tor8" by (simp add: zmul_zmul)
    moreover have "\<not> 8 dvd sc_l * 2" by (simp add: sc_l_def)
    ultimately show ?thesis using tor8_order_iff by simp
  qed
  then have "\<not> (\<exists>k. ed_encode ed_order4 = public_of k)" by (simp add: prime_subgroup public_of_def ed_encode_inj)
  then show ?thesis using v by simp
qed

text \<open>
  With a secret key that is not reduced the functions throw, or abort in a debug build,
  and \<^verbatim>\<open>secret_key_to_public_key\<close> returns \<^verbatim>\<open>false\<close>; with a public key that is not the encoding of a point
  they return \<^verbatim>\<open>false\<close>.
\<close>

theorem key_functions_reject:
  assumes "length sec = 32" and "\<not> canonical sec" and "length key = 32" and "\<forall>g. key \<noteq> ed_encode g" and "canonical k"
  shows "generate_key_derivation debug pub sec = Some (if debug then Aborts else Throws)
    \<and> derive_secret_key debug d i sec = Some (if debug then Aborts else Throws)
    \<and> generate_key_image debug pub sec = Some (if debug then Aborts else Throws)
    \<and> secret_key_to_public_key sec = Some None
    \<and> generate_key_derivation debug key k = Some (Returns None)
    \<and> derive_public_key debug d i key = Some (Returns None) \<and> check_key key = Some False"
  using assms generate_key_derivation_bad(2) [OF assms(3), of k]
  by (simp add: generate_key_derivation_def [of debug pub sec] derive_secret_key_is generate_key_image_def sc_check_canonical
      secret_key_to_public_key_is derive_public_key_bad check_key_is)

theorem key_functions_reject_witness:
  "generate_key_derivation True (le_bytes 32 1) (le_bytes 32 sc_l) = Some Aborts \<and> check_key (le_bytes 32 (1 + 2 ^ 255)) = Some False"
proof -
  have "canonical (le_bytes 32 1)" "\<not> canonical (le_bytes 32 sc_l)"
    by (simp_all add: canonical_def le_value_le_bytes sc_l_def)
  moreover have "\<forall>g. le_bytes 32 (1 + 2 ^ 255) \<noteq> ed_encode g" using not_a_point by blast
  ultimately show ?thesis using key_functions_reject [of "le_bytes 32 sc_l" "le_bytes 32 (1 + 2 ^ 255)" "le_bytes 32 1"] by simp
qed

end
