(* ===== verification/Signatures.thy ===== *)
theory Signatures
  imports Keys
begin

text \<open>
  The signatures of \<^verbatim>\<open>src/src/crypto/crypto.cpp\<close>: a Schnorr signature over a hash and a ring signature that
  shows a key image. Results are layered as in \<open>Keys\<close>. The random scalars of the ring signature come from a
  sequence of draws of 64 bytes; the structures \<^verbatim>\<open>s_comm\<close> and \<^verbatim>\<open>rs_comm\<close> are the bytes of their
  members in order.
\<close>

section \<open>A signature\<close>

record signature =
  sig_c :: bytes
  sig_r :: bytes

definition s_comm :: "bytes \<Rightarrow> bytes \<Rightarrow> bytes \<Rightarrow> bytes" where
  "s_comm h key comm = h @ key @ comm"

definition generate_signature :: "bool \<Rightarrow> bytes \<Rightarrow> bytes \<Rightarrow> bytes \<Rightarrow> bytes \<Rightarrow> signature outcome option" where
  "generate_signature debug random prefix_hash pub sec =
     (let sign = do {
        k \<leftarrow> random_scalar_no_lock random;
        comm \<leftarrow> base_bytes k;
        c \<leftarrow> hash_to_scalar (s_comm prefix_hash pub comm);
        r \<leftarrow> sc_mulsub c sec k;
        Some (Returns \<lparr>sig_c = c, sig_r = r\<rparr>) }
      in if debug then do {
           c \<leftarrow> sc_check sec;
           crypto_assert debug (c = 0) (do { t2 \<leftarrow> base_bytes sec; crypto_assert debug (pub = t2) sign }) }
         else sign)"

definition check_signature :: "bytes \<Rightarrow> bytes \<Rightarrow> signature \<Rightarrow> bool option" where
  "check_signature prefix_hash pub sig = do {
     p \<leftarrow> ge_frombytes_vartime pub;
     case p of
       Not_a_point \<Rightarrow> Some False
     | Point tmp3 \<Rightarrow> do {
         cc \<leftarrow> sc_check (sig_c sig);
         if cc \<noteq> 0 then Some False
         else do {
           cr \<leftarrow> sc_check (sig_r sig);
           if cr \<noteq> 0 then Some False
           else do {
             tmp2 \<leftarrow> ge_double_scalarmult_base_vartime ge_Bi (sig_c sig) tmp3 (sig_r sig);
             comm \<leftarrow> ge_tobytes tmp2;
             c \<leftarrow> hash_to_scalar (s_comm prefix_hash pub comm);
             c \<leftarrow> sc_sub c (sig_c sig);
             nz \<leftarrow> sc_isnonzero c;
             Some (nz = 0) } } } }"


section \<open>A ring signature\<close>

text \<open>The two commitments of one member, computed alike by the signer and the verifier.\<close>

definition ring_comm :: "ge_cached list \<Rightarrow> bytes \<Rightarrow> ge_p3 \<Rightarrow> signature \<Rightarrow> (bytes \<times> bytes) option" where
  "ring_comm image_pre pub tmp3 sig = do {
     tmp2 \<leftarrow> ge_double_scalarmult_base_vartime ge_Bi (sig_c sig) tmp3 (sig_r sig);
     a \<leftarrow> ge_tobytes tmp2;
     tmp3 \<leftarrow> hash_to_ec pub;
     tmp2 \<leftarrow> ge_double_scalarmult_precomp_vartime (sig_r sig) tmp3 (sig_c sig) image_pre;
     b \<leftarrow> ge_tobytes tmp2;
     Some (a, b) }"

definition rs_comm :: "bytes \<Rightarrow> (bytes \<times> bytes) list \<Rightarrow> bytes" where
  "rs_comm h ab = h @ concat (map (\<lambda>(a, b). a @ b) ab)"

record ring_state =
  rs_sum :: bytes
  rs_k :: bytes
  rs_ab :: "(bytes \<times> bytes) list"
  rs_sig :: "signature list"
  rs_draws :: nat

fun ring_sign_loop :: "(nat \<Rightarrow> bytes) \<Rightarrow> ge_cached list \<Rightarrow> nat \<Rightarrow> bytes list \<Rightarrow> nat \<Rightarrow> ring_state \<Rightarrow> ring_state outcome option" where
  "ring_sign_loop draw image_pre sec_index [] i st = Some (Returns st)"
| "ring_sign_loop draw image_pre sec_index (pub # pubs) i st =
     (if i = sec_index then do {
        k \<leftarrow> random_scalar_no_lock (draw (rs_draws st));
        a \<leftarrow> base_bytes k;
        tmp3 \<leftarrow> hash_to_ec pub;
        tmp2 \<leftarrow> ge_scalarmult k tmp3;
        b \<leftarrow> ge_tobytes tmp2;
        ring_sign_loop draw image_pre sec_index pubs (i + 1)
          (st\<lparr>rs_k := k, rs_ab := rs_ab st @ [(a, b)], rs_draws := rs_draws st + 1\<rparr>) }
      else do {
        c \<leftarrow> random_scalar_no_lock (draw (rs_draws st));
        r \<leftarrow> random_scalar_no_lock (draw (rs_draws st + 1));
        p \<leftarrow> ge_frombytes_vartime pub;
        case p of
          Not_a_point \<Rightarrow> Some Aborts
        | Point tmp3 \<Rightarrow> do {
            (a, b) \<leftarrow> ring_comm image_pre pub tmp3 \<lparr>sig_c = c, sig_r = r\<rparr>;
            csum \<leftarrow> sc_add (rs_sum st) c;
            ring_sign_loop draw image_pre sec_index pubs (i + 1)
              (st\<lparr>rs_sum := csum, rs_ab := rs_ab st @ [(a, b)], rs_sig := (rs_sig st)[i := \<lparr>sig_c = c, sig_r = r\<rparr>],
                 rs_draws := rs_draws st + 2\<rparr>) } })"

fun assert_keys :: "bool \<Rightarrow> bytes list \<Rightarrow> 'a outcome option \<Rightarrow> 'a outcome option" where
  "assert_keys debug [] k = k"
| "assert_keys debug (pub # pubs) k = do { ok \<leftarrow> check_key pub; crypto_assert debug ok (assert_keys debug pubs k) }"

definition generate_ring_signature ::
  "bool \<Rightarrow> (nat \<Rightarrow> bytes) \<Rightarrow> bytes \<Rightarrow> bytes \<Rightarrow> bytes list \<Rightarrow> bytes \<Rightarrow> nat \<Rightarrow> signature list \<Rightarrow> signature list outcome option" where
  "generate_ring_signature debug draw prefix_hash img pubs sec sec_index sig =
     crypto_assert debug (sec_index < length pubs)
       (let sign = if length sig < length pubs then None else do {
          p \<leftarrow> ge_frombytes_vartime img;
          case p of
            Not_a_point \<Rightarrow> Some Aborts
          | Point image_unp \<Rightarrow> do {
              image_pre \<leftarrow> ge_dsm_precomp image_unp;
              outcome_bind
                (ring_sign_loop draw image_pre sec_index pubs 0
                  \<lparr>rs_sum = sc_0, rs_k = [], rs_ab = [], rs_sig = sig, rs_draws = 0\<rparr>)
                (\<lambda>st. do {
                  h \<leftarrow> hash_to_scalar (rs_comm prefix_hash (rs_ab st));
                  c \<leftarrow> sc_sub h (rs_sum st);
                  r \<leftarrow> sc_mulsub c sec (rs_k st);
                  Some (Returns ((rs_sig st)[sec_index := \<lparr>sig_c = c, sig_r = r\<rparr>])) }) } }
        in if debug then do {
             c \<leftarrow> sc_check sec;
             crypto_assert debug (c = 0) (do {
               t2 \<leftarrow> base_bytes sec;
               crypto_assert debug (pubs ! sec_index = t2)
                 (outcome_bind (generate_key_image debug (pubs ! sec_index) sec) (\<lambda>t3.
                   crypto_assert debug (img = t3) (assert_keys debug pubs sign))) }) }
           else sign)"

fun ring_check_loop ::
  "ge_cached list \<Rightarrow> bytes list \<Rightarrow> signature list \<Rightarrow> bytes \<Rightarrow> (bytes \<times> bytes) list \<Rightarrow> (bytes \<times> (bytes \<times> bytes) list) option option" where
  "ring_check_loop image_pre (pub # pubs) (sig # sigs) csum ab = do {
     cc \<leftarrow> sc_check (sig_c sig);
     if cc \<noteq> 0 then Some None
     else do {
       cr \<leftarrow> sc_check (sig_r sig);
       if cr \<noteq> 0 then Some None
       else do {
         p \<leftarrow> ge_frombytes_vartime pub;
         case p of
           Not_a_point \<Rightarrow> Some None
         | Point tmp3 \<Rightarrow> do {
             (a, b) \<leftarrow> ring_comm image_pre pub tmp3 sig;
             csum \<leftarrow> sc_add csum (sig_c sig);
             ring_check_loop image_pre pubs sigs csum (ab @ [(a, b)]) } } } }"
| "ring_check_loop image_pre [] sigs csum ab = Some (Some (csum, ab))"
| "ring_check_loop image_pre (pub # pubs) [] csum ab = None"

definition check_ring_signature :: "bool \<Rightarrow> bytes \<Rightarrow> bytes \<Rightarrow> bytes list \<Rightarrow> signature list \<Rightarrow> bool outcome option" where
  "check_ring_signature debug prefix_hash img pubs sig =
     (let check = do {
        p \<leftarrow> ge_frombytes_vartime img;
        case p of
          Not_a_point \<Rightarrow> Some (Returns False)
        | Point image_unp \<Rightarrow> do {
            image_pre \<leftarrow> ge_dsm_precomp image_unp;
            l \<leftarrow> ring_check_loop image_pre pubs sig sc_0 [];
            case l of
              None \<Rightarrow> Some (Returns False)
            | Some (csum, ab) \<Rightarrow> do {
                h \<leftarrow> hash_to_scalar (rs_comm prefix_hash ab);
                h \<leftarrow> sc_sub h csum;
                nz \<leftarrow> sc_isnonzero h;
                Some (Returns (nz = 0)) } } }
      in if debug then assert_keys debug pubs check else check)"


section \<open>Commitments\<close>

definition ring_a :: "ed_point \<Rightarrow> signature \<Rightarrow> bytes" where
  "ring_a g sig = ed_encode (zmul (le_value (sig_c sig)) g + zmul (le_value (sig_r sig)) ed_base)"

definition ring_b :: "ed_point \<Rightarrow> bytes \<Rightarrow> signature \<Rightarrow> bytes" where
  "ring_b I pub sig = ed_encode (zmul (le_value (sig_r sig)) (ed_hash pub) + zmul (le_value (sig_c sig)) I)"

definition sig_canonical :: "signature \<Rightarrow> bool" where
  "sig_canonical sig \<longleftrightarrow> canonical (sig_c sig) \<and> canonical (sig_r sig)"

lemma ring_a_is:
  assumes "p3_is ed_coords P g" and "sig_canonical sig"
  obtains R where "ge_double_scalarmult_base_vartime ge_Bi (sig_c sig) P (sig_r sig) = Some R" and "ge_tobytes R = Some (ring_a g sig)"
  using ge_double_scalarmult_is(1) [OF ed_group assms(1) ge_Bi_table] assms(2) ge_tobytes_is that
  unfolding sig_canonical_def ring_a_def by (meson canonical_scalar255)

lemma ring_comm_is:
  assumes "p3_is ed_coords P g" and "odd_cached ed_coords Ci I" and "sig_canonical sig"
  shows "ring_comm Ci pub P sig = Some (ring_a g sig, ring_b I pub sig)"
proof -
  obtain R where R: "ge_double_scalarmult_base_vartime ge_Bi (sig_c sig) P (sig_r sig) = Some R" "ge_tobytes R = Some (ring_a g sig)"
    by (rule ring_a_is [OF assms(1,3)])
  obtain H where H: "hash_to_ec pub = Some H" "p3_is ed_coords H (ed_hash pub)" by (rule hash_to_ec_is)
  from ge_double_scalarmult_precomp_is [OF ed_group H(2) assms(2), of "sig_r sig" "sig_c sig"] assms(3)
  obtain S where S: "ge_double_scalarmult_precomp_vartime (sig_r sig) H (sig_c sig) Ci = Some S"
    "p2_is ed_coords S (zmul (le_value (sig_r sig)) (ed_hash pub) + zmul (le_value (sig_c sig)) I)"
    by (auto simp: sig_canonical_def canonical_scalar255)
  show ?thesis using R H(1) S(1) ge_tobytes_is [OF S(2)] by (simp add: ring_comm_def ring_b_def)
qed

text \<open>The equation behind both signatures: a response answers a challenge.\<close>

lemma schnorr_identity:
  assumes "zmul sc_l h = 0"
  shows "zmul ((k - c * x) mod sc_l) h + zmul c (zmul x h) = zmul k h"
  by (simp add: zmul_mod [OF assms] zmul_sub zmul_zmul)


section \<open>The plain signature\<close>

lemma check_signature_is:
  assumes "length pub = 32" and "length (sig_c sig) = 32" and "length (sig_r sig) = 32"
  shows "check_signature h pub sig = Some (sig_canonical sig
    \<and> (\<exists>g. pub = ed_encode g \<and> sig_c sig = hash_scalar (s_comm h pub (ring_a g sig))))"
proof (cases "\<exists>g. pub = ed_encode g")
  case True
  then obtain g where g: "pub = ed_encode g" by blast
  obtain P where P: "ge_frombytes_vartime pub = Some (Point P)" "p3_is ed_coords P g" unfolding g by (rule ge_frombytes_encode)
  note chk = sc_check_canonical [OF assms(2)] sc_check_canonical [OF assms(3)]
  show ?thesis
  proof (cases "sig_canonical sig")
    case True
    obtain R where R: "ge_double_scalarmult_base_vartime ge_Bi (sig_c sig) P (sig_r sig) = Some R" "ge_tobytes R = Some (ring_a g sig)"
      by (rule ring_a_is [OF P(2) True])
    let ?c = "hash_scalar (s_comm h pub (ring_a g sig))"
    have z: "(le_value ?c - le_value (sig_c sig)) mod sc_l = 0 \<longleftrightarrow> sig_c sig = ?c"
    proof -
      have c: "0 \<le> le_value ?c" "le_value ?c < sc_l" "0 \<le> le_value (sig_c sig)" "le_value (sig_c sig) < sc_l"
        using True hash_scalar_canonical(1) [of "s_comm h pub (ring_a g sig)"] by (simp_all add: sig_canonical_def canonical_def)
      have "(le_value ?c - le_value (sig_c sig)) mod sc_l = 0 \<longleftrightarrow> le_value ?c mod sc_l = le_value (sig_c sig) mod sc_l"
        by (simp add: mod_eq_dvd_iff mod_eq_0_iff_dvd)
      also have "\<dots> \<longleftrightarrow> le_value ?c = le_value (sig_c sig)" using c by (simp add: mod_pos_pos_trivial)
      also have "\<dots> \<longleftrightarrow> sig_c sig = ?c" using le_value_inj [of ?c "sig_c sig"] assms(2) by auto
      finally show ?thesis .
    qed
    have "check_signature h pub sig = Some (sig_c sig = ?c)"
      using P(1) chk True R
      by (simp add: check_signature_def sig_canonical_def hash_to_scalar_bytes sc_sub_bytes assms(2)
          sc_isnonzero_correct canonical_le_bytes z)
    then show ?thesis using True by (auto simp: g ed_encode_inj)
  next
    case False
    then show ?thesis using P(1) chk by (auto simp: check_signature_def sig_canonical_def)
  qed
next
  case False
  then have "ge_frombytes_vartime pub = Some Not_a_point" using ge_frombytes_rejects [OF assms(1)] by blast
  then show ?thesis using False by (auto simp: check_signature_def)
qed

lemma generate_signature_is:
  fixes h :: bytes
  assumes "length random = 64" and "canonical sec" and "pub = public_of (le_value sec)"
  defines "c \<equiv> hash_scalar (s_comm h pub (public_of (le_value random)))"
  shows "generate_signature debug random h pub sec =
    Some (Returns \<lparr>sig_c = c, sig_r = sc_bytes (le_value random - le_value c * le_value sec)\<rparr>)"
proof -
  have "(le_value random mod sc_l - le_value c * le_value sec) mod sc_l = (le_value random - le_value c * le_value sec) mod sc_l"
    by (simp add: mod_diff_left_eq)
  then show ?thesis
    using assms(1-3) by (simp add: generate_signature_def random_scalar_bytes base_bytes_canonical canonical_le_bytes public_of_mod
      hash_to_scalar_bytes sc_mulsub_bytes sc_check_canonical c_def Let_def)
qed


section \<open>The ring signature\<close>

lemma assert_keys_ok: "\<forall>pub \<in> set pubs. \<exists>g. pub = ed_encode g \<Longrightarrow> assert_keys debug pubs k = k"
proof (induction pubs)
  case (Cons pub pubs)
  then have "length pub = 32" "\<exists>g. pub = ed_encode g" by auto
  then show ?case using Cons by (simp add: check_key_is)
qed simp

text \<open>What one member adds to the loop of the verifier, and the whole loop.\<close>

lemma ring_check_loop_is:
  assumes "odd_cached ed_coords Ci I"
  shows "length sigs = length gs \<Longrightarrow> canonical s \<Longrightarrow>
     \<forall>sg \<in> set sigs. length (sig_c sg) = 32 \<and> length (sig_r sg) = 32 \<Longrightarrow>
     ring_check_loop Ci (map ed_encode gs) sigs s ab =
       Some (if \<forall>sg \<in> set sigs. sig_canonical sg
         then Some (sc_bytes (le_value s + (\<Sum>sg\<leftarrow>sigs. le_value (sig_c sg))),
                    ab @ map2 (\<lambda>g sg. (ring_a g sg, ring_b I (ed_encode g) sg)) gs sigs)
         else None)"
proof (induction gs arbitrary: sigs s ab)
  case Nil
  have "s = sc_bytes (le_value s)" using Nil.prems(2) le_bytes_le_value [of s] by (simp add: canonical_def)
  then show ?case using Nil.prems(1) by simp
next
  case (Cons g gs)
  then obtain sg rest where sigs: "sigs = sg # rest" by (cases sigs) auto
  obtain P where P: "ge_frombytes_vartime (ed_encode g) = Some (Point P)" "p3_is ed_coords P g" by (rule ge_frombytes_encode)
  have len: "length (sig_c sg) = 32" "length (sig_r sg) = 32" using Cons.prems(3) by (simp_all add: sigs)
  note chk = sc_check_canonical [OF len(1)] sc_check_canonical [OF len(2)]
  show ?case
  proof (cases "sig_canonical sg")
    case True
    let ?s = "sc_bytes (le_value s + le_value (sig_c sg))"
    have ih: "ring_check_loop Ci (map ed_encode gs) rest ?s ab' =
       Some (if \<forall>sg \<in> set rest. sig_canonical sg
         then Some (sc_bytes (le_value ?s + (\<Sum>sg\<leftarrow>rest. le_value (sig_c sg))),
                    ab' @ map2 (\<lambda>g sg. (ring_a g sg, ring_b I (ed_encode g) sg)) gs rest)
         else None)" for ab'
      by (rule Cons.IH) (use Cons.prems in \<open>simp_all add: sigs canonical_le_bytes\<close>)
    have m: "(le_value ?s + t) mod sc_l = (le_value s + (le_value (sig_c sg) + t)) mod sc_l" for t
      by (simp add: canonical_le_bytes mod_add_left_eq add.assoc)
    show ?thesis
      using P(1) chk True Cons.prems(2) len ih
      by (simp add: sigs ring_comm_is [OF P(2) assms True] sig_canonical_def sc_add_bytes m)
  next
    case False
    then show ?thesis using P(1) chk by (auto simp: sigs sig_canonical_def)
  qed
qed

definition ring_commitments :: "ed_point \<Rightarrow> ed_point list \<Rightarrow> signature list \<Rightarrow> (bytes \<times> bytes) list" where
  "ring_commitments I gs sigs = map2 (\<lambda>g sg. (ring_a g sg, ring_b I (ed_encode g) sg)) gs sigs"

lemma canonical_sc_0: "canonical sc_0" "le_value sc_0 = 0"
proof -
  have "le_value (replicate n 0) = 0" for n by (induction n) simp_all
  then show "canonical sc_0" "le_value sc_0 = 0" by (simp_all add: sc_0_def canonical_def sc_l_def)
qed

lemma sc_difference_zero: "(x mod sc_l - y mod sc_l) mod sc_l = 0 \<longleftrightarrow> x mod sc_l = y mod sc_l"
  by (simp add: mod_diff_eq mod_eq_dvd_iff mod_eq_0_iff_dvd)

lemma check_ring_signature_is:
  assumes "length sigs = length gs" and "\<forall>sg \<in> set sigs. length (sig_c sg) = 32 \<and> length (sig_r sg) = 32"
  shows "check_ring_signature debug h (ed_encode I) (map ed_encode gs) sigs = Some (Returns
     ((\<forall>sg \<in> set sigs. sig_canonical sg)
      \<and> le_value (cn_fast_hash (rs_comm h (ring_commitments I gs sigs))) mod sc_l = (\<Sum>sg\<leftarrow>sigs. le_value (sig_c sg)) mod sc_l))"
proof -
  obtain P where P: "ge_frombytes_vartime (ed_encode I) = Some (Point P)" "p3_is ed_coords P I" by (rule ge_frombytes_encode)
  from ge_dsm_precomp_is [OF ed_group P(2)] obtain Ci where Ci: "ge_dsm_precomp P = Some Ci" "odd_cached ed_coords Ci I" by blast
  note loop = ring_check_loop_is [OF Ci(2) assms(1) canonical_sc_0(1) assms(2), of "[]", folded ring_commitments_def]
  have k: "assert_keys d (map ed_encode gs) m = m" for d and m :: "bool outcome option" by (rule assert_keys_ok) auto
  show ?thesis
    using P(1) Ci(1) loop
    by (cases "\<forall>sg \<in> set sigs. sig_canonical sg")
      (simp_all add: check_ring_signature_def k hash_to_scalar_bytes sc_sub_bytes sc_isnonzero_correct
        canonical_le_bytes canonical_sc_0(2) hash_scalar_def sc_difference_zero Let_def)
qed

text \<open>The loop of the signer: its own entry holds commitments to \<open>k\<close>, the others are as the verifier computes them.\<close>

definition ring_entry :: "nat \<Rightarrow> ed_point \<Rightarrow> bytes \<Rightarrow> signature list \<Rightarrow> nat \<Rightarrow> ed_point \<Rightarrow> bytes \<times> bytes" where
  "ring_entry s I k sigs j g =
     (if j = s then (public_of (le_value k), ed_encode (zmul (le_value k) (ed_hash (ed_encode g))))
      else (ring_a g (sigs ! j), ring_b I (ed_encode g) (sigs ! j)))"

definition ring_signed :: "nat \<Rightarrow> ed_point \<Rightarrow> ed_point list \<Rightarrow> nat \<Rightarrow> ring_state \<Rightarrow> ring_state \<Rightarrow> bool" where
  "ring_signed s I gs i st st' \<longleftrightarrow>
     length (rs_sig st') = length (rs_sig st) \<and> (\<forall>j<i. rs_sig st' ! j = rs_sig st ! j)
     \<and> (if i \<le> s \<and> s < i + length gs then canonical (rs_k st') else rs_k st' = rs_k st)
     \<and> (\<forall>j<length gs. i + j \<noteq> s \<longrightarrow> sig_canonical (rs_sig st' ! (i + j)))
     \<and> rs_ab st' = rs_ab st @ map (\<lambda>j. ring_entry s I (rs_k st') (rs_sig st') (i + j) (gs ! j)) [0..<length gs]
     \<and> rs_sum st' = sc_bytes (le_value (rs_sum st)
         + (\<Sum>j\<leftarrow>[0..<length gs]. if i + j = s then 0 else le_value (sig_c (rs_sig st' ! (i + j)))))"

lemma map_index_Cons: "map (\<lambda>j. f (i + j) ((g # gs) ! j)) [0..<length (g # gs)] = f i g # map (\<lambda>j. f (i + 1 + j) (gs ! j)) [0..<length gs]"
  by (simp add: map_upt_Suc del: upt_Suc)

lemma sum_index_Cons: "(\<Sum>j\<leftarrow>[0..<length (g # gs)]. f (i + j)) = f i + (\<Sum>j\<leftarrow>[0..<length gs]. f (i + 1 + j))"
  by (simp add: map_upt_Suc del: upt_Suc)

lemma ring_signed_Cons:
  assumes "ring_signed s I gs (i + 1) st1 st'" and "length (rs_sig st1) = length (rs_sig st)" and "\<forall>j<i. rs_sig st1 ! j = rs_sig st ! j"
    and k: "if i = s then canonical (rs_k st1) else rs_k st1 = rs_k st"
    and c: "i \<noteq> s \<Longrightarrow> sig_canonical (rs_sig st1 ! i)"
    and ab: "rs_ab st1 = rs_ab st @ [ring_entry s I (rs_k st1) (rs_sig st1) i g]"
    and sum: "le_value (rs_sum st1) mod sc_l = (le_value (rs_sum st) + (if i = s then 0 else le_value (sig_c (rs_sig st1 ! i)))) mod sc_l"
  shows "ring_signed s I (g # gs) i st st'"
proof -
  let ?z = "\<lambda>j. if j = s then 0 else le_value (sig_c (rs_sig st' ! j))"
  from assms(1) have q: "length (rs_sig st') = length (rs_sig st1)" "\<forall>j<i + 1. rs_sig st' ! j = rs_sig st1 ! j"
    "if i + 1 \<le> s \<and> s < i + 1 + length gs then canonical (rs_k st') else rs_k st' = rs_k st1"
    "\<forall>j<length gs. i + 1 + j \<noteq> s \<longrightarrow> sig_canonical (rs_sig st' ! (i + 1 + j))"
    "rs_ab st' = rs_ab st1 @ map (\<lambda>j. ring_entry s I (rs_k st') (rs_sig st') (i + 1 + j) (gs ! j)) [0..<length gs]"
    "rs_sum st' = sc_bytes (le_value (rs_sum st1) + (\<Sum>j\<leftarrow>[0..<length gs]. ?z (i + 1 + j)))"
    unfolding ring_signed_def by blast+
  have e: "ring_entry s I (rs_k st1) (rs_sig st1) i g = ring_entry s I (rs_k st') (rs_sig st') i g"
    using q(2,3) by (auto simp: ring_entry_def)
  have "sig_canonical (rs_sig st' ! (i + j))" if "j < length (g # gs)" "i + j \<noteq> s" for j
    using q(2,4) c that by (cases j) auto
  moreover have "rs_ab st' = rs_ab st @ map (\<lambda>j. ring_entry s I (rs_k st') (rs_sig st') (i + j) ((g # gs) ! j)) [0..<length (g # gs)]"
    unfolding map_index_Cons [where f = "ring_entry s I (rs_k st') (rs_sig st')"] by (simp add: q(5) ab e)
  moreover have "rs_sum st' = sc_bytes (le_value (rs_sum st) + (\<Sum>j\<leftarrow>[0..<length (g # gs)]. ?z (i + j)))"
  proof -
    have "(le_value (rs_sum st1) + t) mod sc_l = (le_value (rs_sum st) + (?z i + t)) mod sc_l" for t
      using sum q(2) by (metis (no_types, lifting) add.assoc less_add_one mod_add_left_eq)
    then show ?thesis unfolding sum_index_Cons [where f = ?z] q(6) by simp
  qed
  moreover have "if i \<le> s \<and> s < i + length (g # gs) then canonical (rs_k st') else rs_k st' = rs_k st"
    using q(3) k by (auto split: if_splits)
  ultimately show ?thesis using q(1,2) assms(2,3) unfolding ring_signed_def by auto
qed

lemma ring_sign_loop_is:
  assumes tab: "odd_cached ed_coords Ci I" and draws: "\<And>m. length (draw m) = 64"
  shows "i + length gs \<le> length (rs_sig st) \<Longrightarrow> canonical (rs_sum st) \<Longrightarrow>
    \<exists>st'. ring_sign_loop draw Ci s (map ed_encode gs) i st = Some (Returns st') \<and> ring_signed s I gs i st st'"
proof (induction gs arbitrary: i st)
  case Nil
  have "rs_sum st = sc_bytes (le_value (rs_sum st))"
    using Nil.prems(2) le_bytes_le_value [of "rs_sum st"] by (simp add: canonical_def)
  then show ?case by (auto simp: ring_signed_def)
next
  case (Cons g gs)
  show ?case
  proof (cases "i = s")
    case True
    let ?k = "sc_bytes (le_value (draw (rs_draws st)))"
    obtain H where H: "hash_to_ec (ed_encode g) = Some H" "p3_is ed_coords H (ed_hash (ed_encode g))" by (rule hash_to_ec_is)
    let ?b = "ed_encode (zmul (le_value ?k) (ed_hash (ed_encode g)))"
    have "(do { R \<leftarrow> ge_scalarmult ?k H; ge_tobytes R }) = Some ?b"
      by (rule scalarmult_bytes [OF H(2)]) (simp_all add: canonical_top canonical_le_bytes)
    then obtain R where R: "ge_scalarmult ?k H = Some R" "ge_tobytes R = Some ?b" by (auto split: bind_splits)
    let ?st = "st\<lparr>rs_k := ?k, rs_ab := rs_ab st @ [(public_of (le_value ?k), ?b)], rs_draws := rs_draws st + 1\<rparr>"
    from Cons.IH [of "i + 1" ?st] Cons.prems obtain st'
      where st': "ring_sign_loop draw Ci s (map ed_encode gs) (i + 1) ?st = Some (Returns st')" "ring_signed s I gs (i + 1) ?st st'"
      by auto
    have "ring_sign_loop draw Ci s (map ed_encode (g # gs)) i st = Some (Returns st')"
      using True st'(1) H(1) R by (simp add: random_scalar_bytes draws base_bytes_canonical canonical_le_bytes)
    moreover have "ring_signed s I (g # gs) i st st'"
      by (rule ring_signed_Cons [OF st'(2)]) (simp_all add: True ring_entry_def canonical_le_bytes)
    ultimately show ?thesis by blast
  next
    case False
    let ?c = "sc_bytes (le_value (draw (rs_draws st)))" and ?r = "sc_bytes (le_value (draw (rs_draws st + 1)))"
    let ?sg = "\<lparr>sig_c = ?c, sig_r = ?r\<rparr>" and ?sum = "sc_bytes (le_value (rs_sum st) + le_value (sc_bytes (le_value (draw (rs_draws st)))))"
    obtain P where P: "ge_frombytes_vartime (ed_encode g) = Some (Point P)" "p3_is ed_coords P g" by (rule ge_frombytes_encode)
    have cn: "sig_canonical ?sg" by (simp add: sig_canonical_def canonical_le_bytes)
    let ?st = "st\<lparr>rs_sum := ?sum, rs_ab := rs_ab st @ [(ring_a g ?sg, ring_b I (ed_encode g) ?sg)], rs_sig := (rs_sig st)[i := ?sg],
                 rs_draws := rs_draws st + 2\<rparr>"
    from Cons.IH [of "i + 1" ?st] Cons.prems obtain st'
      where st': "ring_sign_loop draw Ci s (map ed_encode gs) (i + 1) ?st = Some (Returns st')" "ring_signed s I gs (i + 1) ?st st'"
      by (auto simp: canonical_le_bytes)
    have "ring_sign_loop draw Ci s (map ed_encode (g # gs)) i st = Some (Returns st')"
      using False st'(1) P(1) Cons.prems(2) ring_comm_is [OF P(2) tab cn, of "ed_encode g"]
      by (simp add: random_scalar_bytes draws sc_add_bytes)
    moreover have "ring_signed s I (g # gs) i st st'"
    proof -
      have "i < length (rs_sig st)" using Cons.prems(1) by simp
      then show ?thesis
        by (intro ring_signed_Cons [OF st'(2)]) (simp_all add: False ring_entry_def cn [simplified] canonical_le_bytes)
    qed
    ultimately show ?thesis by blast
  qed
qed


section \<open>Promises\<close>

text \<open>
  \<^verbatim>\<open>check_signature\<close> accepts exactly if both scalars are reduced, the key
  is the encoding of a point \<open>P\<close>, and the challenge \<open>c\<close> is the hash of the message, the key and the point
  \<open>c P + r G\<close>.
\<close>

theorem check_signature_decides:
  assumes "length pub = 32" and "length (sig_c sig) = 32" and "length (sig_r sig) = 32"
  shows "check_signature h pub sig = Some (canonical (sig_c sig) \<and> canonical (sig_r sig)
    \<and> (\<exists>P. pub = ed_encode P \<and> sig_c sig = hash_scalar (s_comm h pub
          (ed_encode (zmul (le_value (sig_c sig)) P + zmul (le_value (sig_r sig)) ed_base)))))"
  using check_signature_is [OF assms] by (simp add: sig_canonical_def ring_a_def)

theorem check_signature_decides_witness:
  "check_signature (replicate 32 7) (ed_encode 0) \<lparr>sig_c = le_bytes 32 sc_l, sig_r = le_bytes 32 0\<rparr> = Some False"
proof -
  have "\<not> canonical (le_bytes 32 sc_l)" by (simp add: canonical_def le_value_le_bytes sc_l_def)
  then show ?thesis using check_signature_decides [of "ed_encode 0" "\<lparr>sig_c = le_bytes 32 sc_l, sig_r = le_bytes 32 0\<rparr>" "replicate 32 7"] by simp
qed

text \<open>
  C9 (signature_complete). A signature made with a key pair is accepted for that key, whatever the message and
  the random bytes, in debug and release builds.
\<close>

theorem signature_complete:
  assumes "length random = 64" and "canonical sec"
  shows "\<exists>sig. generate_signature debug random h (public_of (le_value sec)) sec = Some (Returns sig)
    \<and> check_signature h (public_of (le_value sec)) sig = Some True"
proof -
  let ?pub = "public_of (le_value sec)"
  let ?c = "hash_scalar (s_comm h ?pub (public_of (le_value random)))"
  let ?sig = "\<lparr>sig_c = ?c, sig_r = sc_bytes (le_value random - le_value ?c * le_value sec)\<rparr>"
  have "zmul (le_value ?c) (zmul (le_value sec) ed_base) + zmul (le_value (sig_r ?sig)) ed_base = zmul (le_value random) ed_base"
    using schnorr_identity [OF base_order, of "le_value random" "le_value ?c" "le_value sec"]
    by (simp add: canonical_le_bytes add.commute)
  then have a: "ring_a (zmul (le_value sec) ed_base) ?sig = public_of (le_value random)"
    by (simp add: ring_a_def public_of_def)
  have "check_signature h ?pub ?sig = Some True"
    using check_signature_is [of ?pub ?sig h] a
    by (auto simp: sig_canonical_def canonical_le_bytes public_of_def [of "le_value sec"])
  then show ?thesis using generate_signature_is [OF assms refl, of debug h] by simp
qed

theorem signature_complete_witness:
  "\<exists>sig. generate_signature True (replicate 64 7) (replicate 32 1) (public_of 5) (le_bytes 32 5) = Some (Returns sig)
    \<and> check_signature (replicate 32 1) (public_of 5) sig = Some True"
proof -
  have c: "canonical (le_bytes 32 5)" and v: "le_value (le_bytes 32 5) = 5"
    by (simp_all add: canonical_def le_value_le_bytes sc_l_def)
  from signature_complete [of "replicate 64 7" "le_bytes 32 5" True "replicate 32 1", unfolded v] c show ?thesis by simp
qed

text \<open>
  C19 (ring_signature_decides). For decodable keys and image \<^verbatim>\<open>check_ring_signature\<close> accepts exactly if all
  scalars are reduced and the challenges add up, modulo \<open>l\<close>, to the hash of the message and of the commitments
  \<open>c\<^sub>i P\<^sub>i + r\<^sub>i G\<close> and \<open>r\<^sub>i H\<^sub>p(P\<^sub>i) + c\<^sub>i I\<close>.
\<close>

theorem ring_signature_decides:
  assumes "length sigs = length gs" and "\<forall>sg \<in> set sigs. length (sig_c sg) = 32 \<and> length (sig_r sg) = 32"
  shows "check_ring_signature debug h (ed_encode I) (map ed_encode gs) sigs = Some (Returns
     ((\<forall>sg \<in> set sigs. canonical (sig_c sg) \<and> canonical (sig_r sg))
      \<and> le_value (cn_fast_hash (rs_comm h (map2 (\<lambda>g sg.
            (ed_encode (zmul (le_value (sig_c sg)) g + zmul (le_value (sig_r sg)) ed_base),
             ed_encode (zmul (le_value (sig_r sg)) (ed_hash (ed_encode g)) + zmul (le_value (sig_c sg)) I))) gs sigs))) mod sc_l
        = (\<Sum>sg\<leftarrow>sigs. le_value (sig_c sg)) mod sc_l))"
  using check_ring_signature_is [OF assms]
  by (simp add: sig_canonical_def ring_commitments_def ring_a_def ring_b_def)

theorem ring_signature_decides_witness:
  "check_ring_signature True (replicate 32 7) (ed_encode 0) [ed_encode 0] [\<lparr>sig_c = le_bytes 32 sc_l, sig_r = le_bytes 32 0\<rparr>] = Some (Returns False)"
proof -
  have "\<not> canonical (le_bytes 32 sc_l)" by (simp add: canonical_def le_value_le_bytes sc_l_def)
  then show ?thesis
    using ring_signature_decides [of "[\<lparr>sig_c = le_bytes 32 sc_l, sig_r = le_bytes 32 0\<rparr>]" "[0]" True "replicate 32 7" 0] by simp
qed

text \<open>
  C1 (ring_signature_complete). A ring signature made with one of the secret keys, for its key image, is accepted
  for the ring, whatever the message, the random bytes, the other members and the position of the signer, in debug
  and release builds.
\<close>

theorem ring_signature_complete:
  assumes "\<And>m. length (draw m) = 64" and "canonical sec" and "s < length gs" and "gs ! s = zmul (le_value sec) ed_base"
    and "length sigs = length gs"
  shows "\<exists>img sigs'. generate_key_image debug (ed_encode (gs ! s)) sec = Some (Returns img)
    \<and> generate_ring_signature debug draw h img (map ed_encode gs) sec s sigs = Some (Returns sigs')
    \<and> check_ring_signature debug h img (map ed_encode gs) sigs' = Some (Returns True)"
proof -
  let ?x = "le_value sec" and ?H = "ed_hash (ed_encode (gs ! s))"
  let ?I = "zmul ?x ?H"
  have img: "generate_key_image d (ed_encode (gs ! s)) sec = Some (Returns (ed_encode ?I))" for d
    by (rule generate_key_image_is [OF assms(2)])
  obtain P where P: "ge_frombytes_vartime (ed_encode ?I) = Some (Point P)" "p3_is ed_coords P ?I" by (rule ge_frombytes_encode)
  from ge_dsm_precomp_is [OF ed_group P(2)] obtain Ci where Ci: "ge_dsm_precomp P = Some Ci" "odd_cached ed_coords Ci ?I" by blast
  let ?st = "\<lparr>rs_sum = sc_0, rs_k = [], rs_ab = [], rs_sig = sigs, rs_draws = 0\<rparr>"
  from ring_sign_loop_is [where draw = draw and i = 0 and gs = gs and st = ?st and s = s, OF Ci(2) assms(1)] assms(5) canonical_sc_0 obtain st
    where st: "ring_sign_loop draw Ci s (map ed_encode gs) 0 ?st = Some (Returns st)" "ring_signed s ?I gs 0 ?st st" by auto
  define c where "c = sc_bytes (le_value (cn_fast_hash (rs_comm h (rs_ab st))) - le_value (rs_sum st))"
  define r where "r = sc_bytes (le_value (rs_k st) - le_value c * ?x)"
  define sigs' where "sigs' = (rs_sig st)[s := \<lparr>sig_c = c, sig_r = r\<rparr>]"
  let ?n = "length gs" and ?z = "\<lambda>j. if j = s then 0 else le_value (sig_c (rs_sig st ! j))"
  from st(2) assms(3,5) have q: "length (rs_sig st) = ?n" "canonical (rs_k st)"
    "\<forall>j<?n. j \<noteq> s \<longrightarrow> sig_canonical (rs_sig st ! j)"
    "rs_ab st = map (\<lambda>j. ring_entry s ?I (rs_k st) (rs_sig st) j (gs ! j)) [0..<?n]"
    "rs_sum st = sc_bytes (\<Sum>j\<leftarrow>[0..<?n]. ?z j)"
    by (simp_all add: ring_signed_def canonical_sc_0 cong: if_cong)
  have nth: "sigs' ! s = \<lparr>sig_c = c, sig_r = r\<rparr>" "j \<noteq> s \<Longrightarrow> sigs' ! j = rs_sig st ! j" for j
    using assms(3) q(1) by (simp_all add: sigs'_def)
  have len: "length sigs' = ?n" by (simp add: sigs'_def q(1))
  have "sig_canonical (sigs' ! j)" if "j < ?n" for j
    using that q(3) nth by (cases "j = s") (simp_all add: sig_canonical_def c_def r_def canonical_le_bytes)
  then have cn: "\<forall>sg \<in> set sigs'. sig_canonical sg" using len by (auto simp: in_set_conv_nth)
  have com: "ring_commitments ?I gs sigs' = rs_ab st"
  proof (rule nth_equalityI)
    show "length (ring_commitments ?I gs sigs') = length (rs_ab st)" by (simp add: ring_commitments_def q(4) len)
    fix j
    assume "j < length (ring_commitments ?I gs sigs')"
    then have j: "j < ?n" by (simp add: ring_commitments_def len)
    have eq: "zmul (le_value c) (zmul ?x h) + zmul (le_value r) h = zmul (le_value (rs_k st)) h" if "zmul sc_l h = 0" for h
      using schnorr_identity [OF that, of "le_value (rs_k st)" "le_value c" ?x] by (simp add: r_def canonical_le_bytes add.commute)
    show "ring_commitments ?I gs sigs' ! j = rs_ab st ! j"
    proof (cases "j = s")
      case True
      then show ?thesis
        using j eq [OF base_order] eq [OF ed_hash_order, of "ed_encode (gs ! s)"] assms(4)
        by (simp add: ring_commitments_def q(4) len nth(1) ring_entry_def ring_a_def ring_b_def public_of_def add.commute)
    next
      case False
      then show ?thesis using j by (simp add: ring_commitments_def q(4) len nth(2) ring_entry_def)
    qed
  qed
  have sum: "(\<Sum>sg\<leftarrow>sigs'. le_value (sig_c sg)) = le_value c + (\<Sum>j\<leftarrow>[0..<?n]. ?z j)"
  proof -
    have "(\<Sum>sg\<leftarrow>sigs'. le_value (sig_c sg)) = (\<Sum>j = 0..<?n. le_value (sig_c (sigs' ! j)))"
      by (simp add: sum_list_sum_nth len)
    also have "\<dots> = le_value c + (\<Sum>j \<in> {0..<?n} - {s}. le_value (sig_c (sigs' ! j)))"
      using assms(3) nth(1) by (subst sum.remove [of _ s]) simp_all
    also have "(\<Sum>j \<in> {0..<?n} - {s}. le_value (sig_c (sigs' ! j))) = (\<Sum>j \<in> {0..<?n} - {s}. ?z j)"
      by (rule sum.cong) (simp_all add: nth(2))
    also have "\<dots> = (\<Sum>j = 0..<?n. ?z j)" using assms(3) by (simp add: sum.remove [of _ s])
    finally show ?thesis by (simp add: interv_sum_list_conv_sum_set_nat)
  qed
  let ?h = "le_value (cn_fast_hash (rs_comm h (rs_ab st)))"
  have "(le_value c + (\<Sum>j\<leftarrow>[0..<?n]. ?z j)) mod sc_l = ?h mod sc_l"
  proof -
    have "le_value (rs_sum st) = (\<Sum>j\<leftarrow>[0..<?n]. ?z j) mod sc_l" unfolding q(5) by (rule canonical_le_bytes)
    then have "le_value c = (?h - (\<Sum>j\<leftarrow>[0..<?n]. ?z j)) mod sc_l" by (simp add: c_def canonical_le_bytes mod_diff_right_eq)
    then show ?thesis by (simp add: mod_add_left_eq)
  qed
  then have chk: "check_ring_signature debug h (ed_encode ?I) (map ed_encode gs) sigs' = Some (Returns True)"
    using check_ring_signature_is [OF len] cn by (simp add: com sum sig_canonical_def)
  have pub: "ed_encode (gs ! s) = public_of ?x" by (simp add: assms(4) public_of_def)
  have c_eq: "sc_sub (hash_scalar (rs_comm h (rs_ab st))) (rs_sum st) = Some c" "sc_mulsub c sec (rs_k st) = Some r"
    using q(2,5) assms(2)
    by (simp_all add: sc_sub_bytes sc_mulsub_bytes c_def r_def hash_scalar_def canonical_le_bytes mod_diff_left_eq)
  have keys: "assert_keys d (map ed_encode gs) m = m" for d and m :: "signature list outcome option"
    by (rule assert_keys_ok) auto
  have "generate_ring_signature debug draw h (ed_encode ?I) (map ed_encode gs) sec s sigs = Some (Returns sigs')"
    using assms(2,3,5) P(1) Ci(1) st(1) c_eq img pub
    by (simp add: generate_ring_signature_def Let_def sc_check_canonical base_bytes_canonical keys hash_to_scalar_bytes sigs'_def)
  then show ?thesis using img chk by blast
qed

theorem ring_signature_complete_witness:
  "\<exists>img sigs'. generate_ring_signature True (\<lambda>m. replicate 64 7) [] img [public_of 9, public_of 5] (le_bytes 32 5) 1
      [\<lparr>sig_c = [], sig_r = []\<rparr>, \<lparr>sig_c = [], sig_r = []\<rparr>] = Some (Returns sigs')
    \<and> check_ring_signature True [] img [public_of 9, public_of 5] sigs' = Some (Returns True)"
proof -
  have c: "canonical (le_bytes 32 5)" and v: "le_value (le_bytes 32 5) = 5"
    by (simp_all add: canonical_def le_value_le_bytes sc_l_def)
  show ?thesis
    using ring_signature_complete [of "\<lambda>m. replicate 64 7" "le_bytes 32 5" 1 "[zmul 9 ed_base, zmul 5 ed_base]"
        "[\<lparr>sig_c = [], sig_r = []\<rparr>, \<lparr>sig_c = [], sig_r = []\<rparr>]" True "[]"] c v
    by (auto simp: public_of_def)
qed

end
