(* ===== verification/Sugar.thy ===== *)
theory Sugar
  imports Signatures Inverses
begin

text \<open>
  The classes of \<^verbatim>\<open>src/src/crypto/crypto-sugar.h\<close> over the functions of \<^verbatim>\<open>crypto-ops.c\<close>: scalars of 32
  bytes (\<^verbatim>\<open>scalar_t\<close>), points in extended coordinates (\<^verbatim>\<open>point_t\<close>, \<^verbatim>\<open>point_g_t\<close>,
  \<^verbatim>\<open>point_pc_t\<close>), and the collector of hashed items (\<^verbatim>\<open>hash_helper_t\<close>). The arithmetic operators
  of \<^verbatim>\<open>scalar_t\<close> are \<open>sc_add\<close>, \<open>sc_sub\<close>, \<open>sc_mul\<close>, \<open>sc_muladd\<close> and \<open>sc_mulsub\<close> themselves.
\<close>

unbundle bit_operations_syntax

section \<open>Scalars\<close>

definition scalar_t :: "u64 \<Rightarrow> u64 \<Rightarrow> u64 \<Rightarrow> u64 \<Rightarrow> bytes" where
  "scalar_t a0 a1 a2 a3 = le_bytes 8 (uint a0) @ le_bytes 8 (uint a1) @ le_bytes 8 (uint a2) @ le_bytes 8 (uint a3)"

definition scalar_of_hash :: "bytes \<Rightarrow> bytes option" where
  "scalar_of_hash hash = sc_reduce32 hash"

definition scalar_of_uint :: "u64 \<Rightarrow> bytes" where
  "scalar_of_uint v = scalar_t v 0 0 0"

definition is_reduced :: "bytes \<Rightarrow> bool option" where
  "is_reduced s = do { c \<leftarrow> sc_check s; Some (c = 0) }"

definition scalar_is_zero :: "bytes \<Rightarrow> bool option" where
  "scalar_is_zero s = do { nz \<leftarrow> sc_isnonzero s; Some (nz = 0) }"

definition scalar_minus :: "bytes \<Rightarrow> bytes option" where
  "scalar_minus s = sc_sub (replicate 32 0) s"

definition scalar_div :: "bytes \<Rightarrow> bytes \<Rightarrow> bytes option" where
  "scalar_div s v = do { r \<leftarrow> sc_invert v; sc_mul s r }"

definition c_scalar_L :: bytes where
  "c_scalar_L = scalar_t 0x5812631a5cf5d3ed 0x14def9dea2f79cd6 0x0 0x1000000000000000"

definition c_scalar_1div8 :: bytes where
  "c_scalar_1div8 = scalar_t 0x6106e529e2dc2f79 0x07d39db37d1cdad0 0x0 0x0600000000000000"


section \<open>Points\<close>

text \<open>The constructor from a public key or key image throws if the bytes encode no point.\<close>

definition point_t :: "bytes \<Rightarrow> ge_p3 outcome option" where
  "point_t pk = do {
     r \<leftarrow> ge_frombytes_vartime pk;
     Some (case r of Not_a_point \<Rightarrow> Throws | Point P \<Rightarrow> Returns P) }"

definition point_is_zero :: "ge_p3 \<Rightarrow> bool option" where
  "point_is_zero P = do {
     x \<leftarrow> fe_isnonzero (p3_X P);
     if x \<noteq> 0 then Some False
     else do {
       z \<leftarrow> fe_isnonzero (p3_Z P);
       if z = 0 then Some False
       else do {
         t \<leftarrow> fe_isnonzero (p3_T P);
         if t \<noteq> 0 then Some False
         else do {
           y_minus_z \<leftarrow> fe_sub (p3_Y P) (p3_Z P);
           nz \<leftarrow> fe_isnonzero y_minus_z;
           Some (nz = 0) } } } }"

definition point_add :: "ge_p3 \<Rightarrow> ge_p3 \<Rightarrow> ge_p3 option" where
  "point_add lhs rhs = do {
     rhs_c \<leftarrow> ge_p3_to_cached rhs;
     t \<leftarrow> ge_add lhs rhs_c;
     ge_p1p1_to_p3 t }"

definition point_sub :: "ge_p3 \<Rightarrow> ge_p3 \<Rightarrow> ge_p3 option" where
  "point_sub lhs rhs = do {
     rhs_c \<leftarrow> ge_p3_to_cached rhs;
     t \<leftarrow> ge_sub lhs rhs_c;
     ge_p1p1_to_p3 t }"

definition point_minus :: "ge_p3 \<Rightarrow> ge_p3 option" where
  "point_minus P = do {
     y \<leftarrow> fe_sub fe_0 (p3_Y P);
     z \<leftarrow> fe_sub fe_0 (p3_Z P);
     Some (P\<lparr>p3_Y := y, p3_Z := z\<rparr>) }"

definition point_mul :: "bytes \<Rightarrow> ge_p3 \<Rightarrow> ge_p3 option" where
  "point_mul lhs rhs = ge_scalarmult_vartime_p3 lhs rhs"

definition point_div :: "ge_p3 \<Rightarrow> bytes \<Rightarrow> ge_p3 option" where
  "point_div lhs rhs = do { reciprocal \<leftarrow> sc_invert rhs; ge_scalarmult_vartime_p3 reciprocal lhs }"

definition is_in_main_subgroup :: "ge_p3 \<Rightarrow> bool option" where
  "is_in_main_subgroup P = do { Q \<leftarrow> point_mul c_scalar_L P; point_is_zero Q }"

definition point_eq :: "ge_p3 \<Rightarrow> ge_p3 \<Rightarrow> bool option" where
  "point_eq lhs rhs = do { d \<leftarrow> point_sub lhs rhs; point_is_zero d }"

fun mul_pow_2_loop :: "nat \<Rightarrow> ge_p2 \<Rightarrow> ge_p2 option" where
  "mul_pow_2_loop 0 p2 = Some p2"
| "mul_pow_2_loop (Suc n) p2 = do {
     p1 \<leftarrow> ge_p2_dbl p2;
     p2 \<leftarrow> ge_p1p1_to_p2 p1;
     mul_pow_2_loop n p2 }"

definition modify_mul_pow_2 :: "ge_p3 \<Rightarrow> nat \<Rightarrow> ge_p3 option" where
  "modify_mul_pow_2 P pow =
     (if pow > 0 then do {
        p2 \<leftarrow> ge_p3_to_p2 P;
        p2 \<leftarrow> mul_pow_2_loop (pow - 1) p2;
        p1 \<leftarrow> ge_p2_dbl p2;
        ge_p1p1_to_p3 p1 }
      else Some P)"

text \<open>
  \<^verbatim>\<open>a * this + b * G\<close> into a result that is not initialised: without any digit the callee leaves it as it
  was, and reading it is undefined.
\<close>

definition mul_plus_G :: "ge_p3 \<Rightarrow> bytes \<Rightarrow> bytes \<Rightarrow> ge_p3 option" where
  "mul_plus_G P a b =
     (if length a = 32 \<and> length b = 32 \<and> dsm_digits a b = [] then None
      else ge_double_scalarmult_base_vartime_p3 ge_Bi ge_p3_0 a P b)"

definition point_g_mul :: "bytes \<Rightarrow> ge_p3 option" where
  "point_g_mul lhs = ge_scalarmult_base_vartime ge_base lhs"

definition point_g_div :: "bytes \<Rightarrow> ge_p3 option" where
  "point_g_div rhs = do { reciprocal \<leftarrow> sc_invert rhs; ge_scalarmult_base_vartime ge_base reciprocal }"

record point_pc_t =
  pc_p3 :: ge_p3
  pc_data :: "ge_precomp list list"

definition point_pc_mul :: "bytes \<Rightarrow> point_pc_t \<Rightarrow> ge_p3 option" where
  "point_pc_mul lhs self = ge_scalarmult_precomp_vartime (pc_data self) lhs"

definition point_pc_div :: "point_pc_t \<Rightarrow> bytes \<Rightarrow> ge_p3 option" where
  "point_pc_div self rhs = do { reciprocal \<leftarrow> sc_invert rhs; ge_scalarmult_precomp_vartime (pc_data self) reciprocal }"

definition pub_key_mul8 :: "bytes \<Rightarrow> bytes option option" where
  "pub_key_mul8 pk_1div8 = do {
     r \<leftarrow> ge_frombytes_vartime pk_1div8;
     case r of
       Not_a_point \<Rightarrow> Some None
     | Point p \<Rightarrow> do { p \<leftarrow> ge_mul8_p3 p; result \<leftarrow> ge_p3_tobytes p; Some (Some result) } }"


text \<open>The table of a point (\<^verbatim>\<open>construct_precomp_data\<close> of \<^verbatim>\<open>crypto-sugar.cpp\<close>), row by row.\<close>

fun precomp_row :: "nat \<Rightarrow> ge_p3 \<Rightarrow> ge_p3 \<Rightarrow> ge_precomp list option" where
  "precomp_row 0 A B = do { c \<leftarrow> ge_p3_to_precomp B; Some [c] }"
| "precomp_row (Suc n) A B = do {
     c \<leftarrow> ge_p3_to_precomp B;
     B \<leftarrow> point_add B A;
     cs \<leftarrow> precomp_row n A B;
     Some (c # cs) }"

fun precomp_rows :: "nat \<Rightarrow> ge_p3 \<Rightarrow> ge_precomp list list option" where
  "precomp_rows 0 A = do { row \<leftarrow> precomp_row 7 A A; Some [row] }"
| "precomp_rows (Suc n) A = do {
     row \<leftarrow> precomp_row 7 A A;
     A \<leftarrow> modify_mul_pow_2 A 8;
     rows \<leftarrow> precomp_rows n A;
     Some (row # rows) }"

definition construct_precomp_data :: "ge_p3 \<Rightarrow> ge_precomp list list option" where
  "construct_precomp_data point = precomp_rows 31 point"


section \<open>Hashes of items\<close>

definition calc_hash_no_reduce :: "bytes list \<Rightarrow> bytes" where
  "calc_hash_no_reduce m_elements = cn_fast_hash (concat m_elements)"

definition calc_hash :: "bytes list \<Rightarrow> bytes option" where
  "calc_hash m_elements = scalar_of_hash (cn_fast_hash (concat m_elements))"

definition hp :: "bytes \<Rightarrow> ge_p3 option" where
  "hp p = ge_bytes_hash_to_ec_32 p"

text \<open>A string of 31 characters with its terminator.\<close>

definition chars32 :: "string \<Rightarrow> bytes" where
  "chars32 str = map of_char str @ [0]"


section \<open>Scalars as numbers\<close>

lemma le_value_le_bytes_word: "le_value (le_bytes 8 (uint (a :: u64))) = uint a"
  using uint_lt2p [of a] by (simp add: le_value_le_bytes)

lemma scalar_t_length [simp]: "length (scalar_t a0 a1 a2 a3) = 32"
  by (simp add: scalar_t_def)

lemma scalar_t_value:
  "le_value (scalar_t a0 a1 a2 a3) = uint a0 + 2 ^ 64 * uint a1 + 2 ^ 128 * uint a2 + 2 ^ 192 * uint a3"
  by (simp add: scalar_t_def le_value_append le_value_le_bytes_word algebra_simps)

lemma c_scalar_L_value: "length c_scalar_L = 32" "le_value c_scalar_L = sc_l"
  by (simp_all add: c_scalar_L_def scalar_t_value sc_l_def)

lemma c_scalar_1div8_value: "canonical c_scalar_1div8" "8 * le_value c_scalar_1div8 mod sc_l = 1"
  by (simp_all add: canonical_def c_scalar_1div8_def scalar_t_value sc_l_def)

lemma scalar_of_uint_value: "canonical (scalar_of_uint v)" "le_value (scalar_of_uint v) = uint v"
  using uint_lt2p [of v] by (simp_all add: canonical_def scalar_of_uint_def scalar_t_value sc_l_def)

lemma scalar_of_hash_bytes: "length h = 32 \<Longrightarrow> scalar_of_hash h = Some (sc_bytes (le_value h))"
  unfolding scalar_of_hash_def by (rule le_bytes_eqI, rule sc_reduce32_correct)

lemma sc_mul_bytes: "length a = 32 \<Longrightarrow> length b = 32 \<Longrightarrow> sc_mul a b = Some (sc_bytes (le_value a * le_value b))"
  by (rule le_bytes_eqI, rule sc_mul_correct)

lemma sc_muladd_bytes:
  "length a = 32 \<Longrightarrow> length b = 32 \<Longrightarrow> length c = 32 \<Longrightarrow> sc_muladd a b c = Some (sc_bytes (le_value a * le_value b + le_value c))"
  by (rule le_bytes_eqI, rule sc_muladd_correct)

lemma is_reduced_is: "length s = 32 \<Longrightarrow> is_reduced s = Some (canonical s)"
  by (simp add: is_reduced_def sc_check_canonical)

lemma scalar_is_zero_is: "length s = 32 \<Longrightarrow> scalar_is_zero s = Some (le_value s = 0)"
  by (simp add: scalar_is_zero_def sc_isnonzero_correct)

lemma scalar_minus_bytes: "length s = 32 \<Longrightarrow> scalar_minus s = Some (sc_bytes (- le_value s))"
  using sc_sub_bytes [of "replicate 32 0" s] canonical_sc_0 by (simp add: scalar_minus_def sc_0_def)

lemma sc_invert_bytes: "length s = 32 \<Longrightarrow> sc_invert s = Some (sc_bytes (le_value s ^ nat (sc_l - 2)))"
  by (rule le_bytes_eqI, rule sc_invert_correct)

lemma scalar_div_bytes:
  "length s = 32 \<Longrightarrow> length v = 32 \<Longrightarrow> scalar_div s v = Some (sc_bytes (le_value s * le_value v ^ nat (sc_l - 2)))"
  by (simp add: scalar_div_def sc_invert_bytes sc_mul_bytes canonical_le_bytes mod_mult_right_eq)

lemma calc_hash_bytes: "calc_hash items = Some (hash_scalar (concat items))"
  by (simp add: calc_hash_def scalar_of_hash_bytes hash_scalar_def)


section \<open>Points as group elements\<close>

abbreviation pt_is :: "ge_p3 \<Rightarrow> ed_point \<Rightarrow> bool" where
  "pt_is P g \<equiv> p3_is ed_coords P g"

lemma pt_is_limbs:
  assumes "pt_is P g"
  obtains z where "z \<noteq> 0" and "fe_of fe_tight (p3_X P) (px g * z)" and "fe_of fe_tight (p3_Y P) (py g * z)"
    and "fe_of fe_tight (p3_Z P) z" and "fe_of fe_tight (p3_T P) (px g * py g * z)"
proof -
  from assms obtain z where z: "fe_unit z" "p3_pt fe_tight P (residue (px g)) (residue (py g)) z" by (auto simp: p3_is_def)
  show ?thesis
    by (rule that [of "of_int z"]) (use z in \<open>auto simp: p3_pt_def fe_unit_iff intro!: fe_of_cong\<close>)
qed

lemma pt_isI:
  assumes "z \<noteq> 0" and "fe_of fe_tight (p3_X P) (px g * z)" and "fe_of fe_tight (p3_Y P) (py g * z)"
    and "fe_of fe_tight (p3_Z P) z" and "fe_of fe_tight (p3_T P) (px g * py g * z)"
  shows "pt_is P g"
proof -
  have r: "fe_rep fe_tight f x" if "fe_of fe_tight f (of_int x)" for f x using that by (simp add: fe_of_of_int)
  have "p3_pt fe_tight P (residue (px g)) (residue (py g)) (residue z)"
    unfolding p3_pt_def by (intro conjI r) (use assms in simp_all)
  moreover have "fe_unit (residue z)" using assms(1) by (simp add: fe_unit_iff)
  ultimately show ?thesis by (auto simp: p3_is_def)
qed

lemma ed_point_zero_iff: "g = 0 \<longleftrightarrow> px g = 0 \<and> py g = 1"
  by (auto intro: ed_point_eqI)

lemma point_is_zero_is:
  assumes "pt_is P g"
  shows "point_is_zero P = Some (g = 0)"
proof -
  obtain z where z: "z \<noteq> 0" "fe_of fe_tight (p3_X P) (px g * z)" "fe_of fe_tight (p3_Y P) (py g * z)"
    "fe_of fe_tight (p3_Z P) z" "fe_of fe_tight (p3_T P) (px g * py g * z)" by (rule pt_is_limbs [OF assms])
  from fe_of_sub [OF z(3,4)] obtain d where d: "fe_sub (p3_Y P) (p3_Z P) = Some d" "fe_of (2 * fe_tight) d (py g * z - z)"
    by (auto simp: fe_bound_simps)
  have "py g * z - z = 0 \<longleftrightarrow> py g = 1" using z(1) by (metis eq_iff_diff_eq_0 mult_cancel_right1)
  moreover have "fe_isnonzero (p3_T P) = Some 0" if "px g = 0" using fe_of_isnonzero [OF z(5)] that by (simp add: fe_bound_simps)
  ultimately show ?thesis
    using fe_of_isnonzero [OF z(2)] fe_of_isnonzero [OF z(4)] fe_of_isnonzero [OF d(2)] d(1) z(1)
    by (auto simp: point_is_zero_def ed_point_zero_iff fe_bound_simps)
qed


lemma point_add_is:
  assumes "pt_is P g" and "pt_is Q h"
  shows "\<exists>R. point_add P Q = Some R \<and> pt_is R (g + h)"
proof -
  from ge_p3_to_cached_is [OF assms(2)] obtain C where C: "ge_p3_to_cached Q = Some C" "cached_is ed_coords C h" by blast
  from ge_add_is [OF ed_group assms(1) C(2)] obtain T where T: "ge_add P C = Some T" "p1p1_is ed_coords T (g + h)" by blast
  from ge_p1p1_to_p3_is [OF T(2)] show ?thesis by (auto simp: point_add_def C(1) T(1))
qed

lemma point_sub_is:
  assumes "pt_is P g" and "pt_is Q h"
  shows "\<exists>R. point_sub P Q = Some R \<and> pt_is R (g - h)"
proof -
  from ge_p3_to_cached_is [OF assms(2)] obtain C where C: "ge_p3_to_cached Q = Some C" "cached_is ed_coords C h" by blast
  from ge_sub_is [OF ed_group assms(1) C(2)] obtain T where T: "ge_sub P C = Some T" "p1p1_is ed_coords T (g - h)" by blast
  from ge_p1p1_to_p3_is [OF T(2)] show ?thesis by (auto simp: point_sub_def C(1) T(1))
qed

lemma point_minus_is:
  assumes "pt_is P g"
  shows "\<exists>R. point_minus P = Some R \<and> pt_is R (- g)"
proof -
  obtain z where z: "z \<noteq> 0" "fe_of fe_tight (p3_X P) (px g * z)" "fe_of fe_tight (p3_Y P) (py g * z)"
    "fe_of fe_tight (p3_Z P) z" "fe_of fe_tight (p3_T P) (px g * py g * z)" by (rule pt_is_limbs [OF assms])
  have 0: "fe_of 0 fe_0 0" using fe_rep_0 by (rule fe_of_cong) simp
  from fe_of_sub [OF 0 z(3)] obtain y where y: "fe_sub fe_0 (p3_Y P) = Some y" "fe_of fe_tight y (py g * (- z))"
    by (auto simp: fe_bound_simps)
  from fe_of_sub [OF 0 z(4)] obtain w where w: "fe_sub fe_0 (p3_Z P) = Some w" "fe_of fe_tight w (- z)"
    by (auto simp: fe_bound_simps)
  have "pt_is (P\<lparr>p3_Y := y, p3_Z := w\<rparr>) (- g)" by (rule pt_isI [of "- z"]) (use z y w in simp_all)
  then show ?thesis by (simp add: point_minus_def y(1) w(1))
qed

lemma point_mul_is: "scalar255 a \<Longrightarrow> pt_is P g \<Longrightarrow> \<exists>R. point_mul a P = Some R \<and> pt_is R (zmul (le_value a) g)"
  unfolding point_mul_def by (rule ge_scalarmult_vartime_p3_is [OF ed_group])

lemma point_mul8_is: "pt_is P g \<Longrightarrow> \<exists>R. ge_mul8_p3 P = Some R \<and> pt_is R (zmul 8 g)"
  by (rule ge_mul8_p3_is [OF ed_group])

lemma point_g_mul_is: "scalar255 a \<Longrightarrow> \<exists>R. point_g_mul a = Some R \<and> pt_is R (zmul (le_value a) ed_base)"
  using ge_scalarmult_base_vartime_same [OF ed_group ge_base_table, of a] base_mult_is [of a]
  unfolding point_g_mul_def scalar255_def by metis

lemma point_pc_mul_is:
  assumes "scalar255 a" and "table_of ed_coords (pc_data X) g"
  shows "\<exists>R. point_pc_mul a X = Some R \<and> pt_is R (zmul (le_value a) g)"
  using assms(1) unfolding point_pc_mul_def ge_scalarmult_precomp_vartime_def scalar255_def
  by (auto intro: scalarmult_with_is [OF ed_group table_selects(3) [OF ed_group assms(2)]])

lemma hp_is: "length p = 32 \<Longrightarrow> \<exists>R. hp p = Some R \<and> pt_is R (ed_hash p)"
  unfolding hp_def ge_bytes_hash_to_ec_32_def by (rule ge_bytes_hash_is [of p]) simp

lemma mul_plus_G_is:
  assumes "pt_is P g" and "scalar255 a" and "scalar255 b"
  shows "le_value a \<noteq> 0 \<or> le_value b \<noteq> 0 \<Longrightarrow> \<exists>R. mul_plus_G P a b = Some R \<and> pt_is R (zmul (le_value a) g + zmul (le_value b) ed_base)"
    and "le_value a = 0 \<Longrightarrow> le_value b = 0 \<Longrightarrow> mul_plus_G P a b = None"
  using ge_double_scalarmult_is [OF ed_group assms(1) ge_Bi_table assms(2,3)] assms(2,3)
    dsm_digits_empty [OF assms(2,3)]
  by (auto simp: mul_plus_G_def scalar255_def)

lemma point_t_encode: "\<exists>P. point_t (ed_encode g) = Some (Returns P) \<and> pt_is P g"
  by (rule ge_frombytes_encode [of g]) (simp add: point_t_def)

lemma point_t_throws: "length pk = 32 \<Longrightarrow> \<forall>g. pk \<noteq> ed_encode g \<Longrightarrow> point_t pk = Some Throws"
  using ge_frombytes_rejects [of pk] by (simp add: point_t_def)

lemma is_in_main_subgroup_is: "pt_is P g \<Longrightarrow> is_in_main_subgroup P = Some (\<exists>k. g = zmul k ed_base)"
proof -
  assume P: "pt_is P g"
  have "scalar255 c_scalar_L"
    by (simp add: scalar255_def c_scalar_L_def scalar_t_def nth_append le_bytes_nth)
  from point_mul_is [OF this P] obtain R where "point_mul c_scalar_L P = Some R" "pt_is R (zmul sc_l g)"
    by (auto simp: c_scalar_L_value)
  then show ?thesis by (simp add: is_in_main_subgroup_def point_is_zero_is prime_subgroup)
qed

lemma point_eq_is: "pt_is P g \<Longrightarrow> pt_is Q h \<Longrightarrow> point_eq P Q = Some (g = h)"
  using point_sub_is [of P g Q h] by (auto simp: point_eq_def point_is_zero_is)



section \<open>Rules for straight-line code\<close>

text \<open>
  A sequence of point operations that ends in bytes is evaluated by these rules: each one runs the first
  operation and hands its result on as a point that stands for a known group element.
\<close>

lemma bind_is:
  assumes "\<exists>R. m = Some R \<and> Q R" and "\<And>R. Q R \<Longrightarrow> f R = y"
  shows "(do { R \<leftarrow> m; f R }) = y"
  using assms by auto

lemma outcome_bind_is:
  assumes "\<exists>R. m = Some (Returns R) \<and> Q R" and "\<And>R. Q R \<Longrightarrow> f R = y"
  shows "outcome_bind m f = y"
  using assms by auto

lemmas point_add_bind = bind_is [OF point_add_is]
lemmas point_sub_bind = bind_is [OF point_sub_is]
lemmas point_minus_bind = bind_is [OF point_minus_is]
lemmas point_mul_bind = bind_is [OF point_mul_is]
lemmas point_mul8_bind = bind_is [OF point_mul8_is]
lemmas point_g_mul_bind = bind_is [OF point_g_mul_is]
lemmas point_pc_mul_bind = bind_is [OF point_pc_mul_is]
lemmas hp_bind = bind_is [OF hp_is]
lemmas mul_plus_G_bind = bind_is [OF mul_plus_G_is(1)]
lemmas point_t_bind = outcome_bind_is [OF point_t_encode]

lemmas point_rules = point_add_bind point_sub_bind point_minus_bind point_mul_bind point_mul8_bind point_g_mul_bind
  point_pc_mul_bind hp_bind mul_plus_G_bind point_t_bind

lemmas scalar_rules = sc_add_bytes sc_sub_bytes sc_mul_bytes sc_muladd_bytes sc_mulsub_bytes calc_hash_bytes
  canonical_le_bytes canonical_scalar255 scalar_of_hash_bytes random_scalar_bytes

lemma tobytes_Some: "pt_is P g \<Longrightarrow> ge_p3_tobytes P = Some (ed_encode g)"
  by (rule ge_p3_tobytes_is)

end
