(* ===== verification/Schnorr.thy ===== *)
theory Schnorr
  imports Sugar
begin

text \<open>
  The Schnorr-like proofs of \<^verbatim>\<open>src/src/crypto/zarcanum.h\<close>: one secret with respect to \<open>G\<close> or \<open>X\<close>, two
  secrets with one challenge, and three secrets of which two are for one point. The generator \<open>X\<close> with its
  table is an argument. Verifiers are \<^verbatim>\<open>noexcept\<close> and turn an exception into \<^verbatim>\<open>false\<close>. The flag
  \<open>debug\<close> is the absence of \<^verbatim>\<open>NDEBUG\<close>.
\<close>

section \<open>Definitions\<close>

text \<open>\<^verbatim>\<open>try { ... } catch(...) { return false; }\<close>\<close>

definition catch_false :: "bool outcome option \<Rightarrow> bool outcome option" where
  "catch_false m = do { r \<leftarrow> m; Some (case r of Throws \<Rightarrow> Returns False | _ \<Rightarrow> r) }"

record generic_schnorr_sig =
  gs_c :: bytes
  gs_y :: bytes

text \<open>The generator is the function that multiplies it by a scalar.\<close>

definition generate_schnorr_sig_custom_generator ::
  "bool \<Rightarrow> bytes \<Rightarrow> bytes \<Rightarrow> ge_p3 \<Rightarrow> bytes \<Rightarrow> (bytes \<Rightarrow> ge_p3 option) \<Rightarrow> generic_schnorr_sig option option" where
  "generate_schnorr_sig_custom_generator debug random m A secret_a g_point_g = do {
     ok \<leftarrow> (if debug then do { B \<leftarrow> g_point_g secret_a; point_eq A B } else Some True);
     if \<not> ok then Some None
     else do {
       r \<leftarrow> random_scalar_no_lock random;
       R \<leftarrow> g_point_g r;
       a \<leftarrow> ge_p3_tobytes A;
       b \<leftarrow> ge_p3_tobytes R;
       c \<leftarrow> calc_hash [m, a, b];
       y \<leftarrow> sc_mulsub c secret_a r;
       Some (Some \<lparr>gs_c = c, gs_y = y\<rparr>) } }"

definition generate_schnorr_sig_secret :: "bool \<Rightarrow> bytes \<Rightarrow> bytes \<Rightarrow> bytes \<Rightarrow> generic_schnorr_sig option option" where
  "generate_schnorr_sig_secret debug random m secret_a = do {
     red \<leftarrow> is_reduced secret_a;
     if \<not> red then Some None
     else do {
       A \<leftarrow> point_g_mul secret_a;
       generate_schnorr_sig_custom_generator debug random m A secret_a point_g_mul } }"

definition verify_schnorr_sig_G :: "bytes \<Rightarrow> bytes \<Rightarrow> generic_schnorr_sig \<Rightarrow> bool outcome option" where
  "verify_schnorr_sig_G m A sig = catch_false (do {
     rc \<leftarrow> is_reduced (gs_c sig);
     ry \<leftarrow> is_reduced (gs_y sig);
     if \<not> rc \<or> \<not> ry then Some (Returns False)
     else outcome_bind (point_t A) (\<lambda>P. do {
       R \<leftarrow> mul_plus_G P (gs_c sig) (gs_y sig);
       b \<leftarrow> ge_p3_tobytes R;
       c \<leftarrow> calc_hash [m, A, b];
       Some (Returns (gs_c sig = c)) }) })"

definition verify_schnorr_sig_X :: "point_pc_t \<Rightarrow> bytes \<Rightarrow> bytes \<Rightarrow> generic_schnorr_sig \<Rightarrow> bool outcome option" where
  "verify_schnorr_sig_X X m A sig = catch_false (do {
     rc \<leftarrow> is_reduced (gs_c sig);
     ry \<leftarrow> is_reduced (gs_y sig);
     if \<not> rc \<or> \<not> ry then Some (Returns False)
     else do {
       yX \<leftarrow> point_pc_mul (gs_y sig) X;
       outcome_bind (point_t A) (\<lambda>P. do {
         cA \<leftarrow> point_mul (gs_c sig) P;
         R \<leftarrow> point_add yX cA;
         b \<leftarrow> ge_p3_tobytes R;
         c \<leftarrow> calc_hash [m, A, b];
         Some (Returns (gs_c sig = c)) }) } })"

record generic_double_schnorr_sig =
  ds_c :: bytes
  ds_y0 :: bytes
  ds_y1 :: bytes

text \<open>The two instances differ in the generator of the first secret.\<close>

definition generate_double_schnorr_sig ::
  "(bytes \<Rightarrow> ge_p3 option) \<Rightarrow> bool \<Rightarrow> bytes \<Rightarrow> bytes \<Rightarrow> bytes \<Rightarrow> ge_p3 \<Rightarrow> bytes \<Rightarrow> ge_p3 \<Rightarrow> bytes \<Rightarrow> generic_double_schnorr_sig option option" where
  "generate_double_schnorr_sig gen0 debug random0 random1 m A secret_a B secret_b = do {
     ok \<leftarrow> (if debug then do {
              A' \<leftarrow> gen0 secret_a;
              eqA \<leftarrow> point_eq A A';
              if \<not> eqA then Some False
              else do { B' \<leftarrow> point_g_mul secret_b; point_eq B B' } }
            else Some True);
     if \<not> ok then Some None
     else do {
       r0 \<leftarrow> random_scalar_no_lock random0;
       r1 \<leftarrow> random_scalar_no_lock random1;
       R0 \<leftarrow> gen0 r0;
       R1 \<leftarrow> point_g_mul r1;
       a \<leftarrow> ge_p3_tobytes A;
       b \<leftarrow> ge_p3_tobytes B;
       a' \<leftarrow> ge_p3_tobytes R0;
       b' \<leftarrow> ge_p3_tobytes R1;
       c \<leftarrow> calc_hash [m, a, b, a', b'];
       y0 \<leftarrow> sc_mulsub c secret_a r0;
       y1 \<leftarrow> sc_mulsub c secret_b r1;
       Some (Some \<lparr>ds_c = c, ds_y0 = y0, ds_y1 = y1\<rparr>) } }"

definition verify_double_schnorr_sig_GG :: "bytes \<Rightarrow> ge_p3 \<Rightarrow> bytes \<Rightarrow> generic_double_schnorr_sig \<Rightarrow> bool outcome option" where
  "verify_double_schnorr_sig_GG m A B sig = catch_false (do {
     rc \<leftarrow> is_reduced (ds_c sig);
     r0 \<leftarrow> is_reduced (ds_y0 sig);
     r1 \<leftarrow> is_reduced (ds_y1 sig);
     if \<not> rc \<or> \<not> r0 \<or> \<not> r1 then Some (Returns False)
     else do {
       a \<leftarrow> ge_p3_tobytes A;
       R0 \<leftarrow> mul_plus_G A (ds_c sig) (ds_y0 sig);
       a' \<leftarrow> ge_p3_tobytes R0;
       outcome_bind (point_t B) (\<lambda>P. do {
         R1 \<leftarrow> mul_plus_G P (ds_c sig) (ds_y1 sig);
         b' \<leftarrow> ge_p3_tobytes R1;
         c \<leftarrow> calc_hash [m, a, B, a', b'];
         Some (Returns (ds_c sig = c)) }) } })"

definition verify_double_schnorr_sig_XG ::
  "point_pc_t \<Rightarrow> bytes \<Rightarrow> ge_p3 \<Rightarrow> bytes \<Rightarrow> generic_double_schnorr_sig \<Rightarrow> bool outcome option" where
  "verify_double_schnorr_sig_XG X m A B sig = catch_false (do {
     rc \<leftarrow> is_reduced (ds_c sig);
     r0 \<leftarrow> is_reduced (ds_y0 sig);
     r1 \<leftarrow> is_reduced (ds_y1 sig);
     if \<not> rc \<or> \<not> r0 \<or> \<not> r1 then Some (Returns False)
     else do {
       a \<leftarrow> ge_p3_tobytes A;
       yX \<leftarrow> point_pc_mul (ds_y0 sig) X;
       cA \<leftarrow> point_mul (ds_c sig) A;
       R0 \<leftarrow> point_add yX cA;
       a' \<leftarrow> ge_p3_tobytes R0;
       outcome_bind (point_t B) (\<lambda>P. do {
         R1 \<leftarrow> mul_plus_G P (ds_c sig) (ds_y1 sig);
         b' \<leftarrow> ge_p3_tobytes R1;
         c \<leftarrow> calc_hash [m, a, B, a', b'];
         Some (Returns (ds_c sig = c)) }) } })"


section \<open>Generators\<close>

text \<open>
  A generator of prime order: a function that multiplies one point. What a proof with it returns is proved once.
\<close>

locale generator =
  fixes gmul :: "bytes \<Rightarrow> ge_p3 option" and g :: ed_point
  assumes order: "zmul sc_l g = 0"
    and mult: "scalar255 a \<Longrightarrow> \<exists>R. gmul a = Some R \<and> pt_is R (zmul (le_value a) g)"
begin

lemmas gmul_bind = bind_is [OF mult]

lemma mod_order: "zmul (k mod sc_l) g = zmul k g"
  by (rule zmul_mod [OF order])

lemma schnorr_is:
  fixes m :: bytes
  assumes "length random = 64" and "canonical a" and A: "pt_is A (zmul (le_value a) g)"
  defines "c \<equiv> hash_scalar (m @ ed_encode (zmul (le_value a) g) @ ed_encode (zmul (le_value random) g))"
  shows "generate_schnorr_sig_custom_generator debug random m A a gmul
    = Some (Some \<lparr>gs_c = c, gs_y = sc_bytes (le_value random - le_value c * le_value a)\<rparr>)"
proof -
  have ok: "(if debug then do { B \<leftarrow> gmul a; point_eq A B } else Some True) = Some True"
    using mult [OF canonical_scalar255 [OF assms(2)]] point_eq_is [OF A] by auto
  have m: "(le_value random mod sc_l - t) mod sc_l = (le_value random - t) mod sc_l" for t by (simp add: mod_diff_left_eq)
  show ?thesis
    unfolding generate_schnorr_sig_custom_generator_def ok bind.bind_lunit
    using assms(1,2) by (simp add: random_scalar_bytes)
      (rule gmul_bind, simp_all add: scalar_rules tobytes_Some tobytes_Some [OF A] mod_order c_def m)
qed

lemma double_is:
  fixes m :: bytes
  assumes "length random0 = 64" and "length random1 = 64" and "canonical a" and "canonical b"
    and A: "pt_is A (zmul (le_value a) g)" and B: "pt_is B (zmul (le_value b) ed_base)"
  defines "c \<equiv> hash_scalar (m @ ed_encode (zmul (le_value a) g) @ public_of (le_value b)
    @ ed_encode (zmul (le_value random0) g) @ public_of (le_value random1))"
  shows "generate_double_schnorr_sig gmul debug random0 random1 m A a B b
    = Some (Some \<lparr>ds_c = c, ds_y0 = sc_bytes (le_value random0 - le_value c * le_value a),
        ds_y1 = sc_bytes (le_value random1 - le_value c * le_value b)\<rparr>)"
proof -
  obtain A' B' where "gmul a = Some A'" "pt_is A' (zmul (le_value a) g)" "point_g_mul b = Some B'" "pt_is B' (zmul (le_value b) ed_base)"
    using mult [OF canonical_scalar255 [OF assms(3)]] point_g_mul_is [OF canonical_scalar255 [OF assms(4)]] by blast
  then have ok: "(if debug then do { A' \<leftarrow> gmul a; eqA \<leftarrow> point_eq A A';
      if \<not> eqA then Some False else do { B' \<leftarrow> point_g_mul b; point_eq B B' } } else Some True) = Some True"
    using point_eq_is [OF A] point_eq_is [OF B] by simp
  obtain R0 where R0: "gmul (sc_bytes (le_value random0)) = Some R0" "pt_is R0 (zmul (le_value random0) g)"
    using mult [OF canonical_scalar255 [OF canonical_le_bytes(1)]] by (metis canonical_le_bytes(2) mod_order)
  obtain R1 where R1: "point_g_mul (sc_bytes (le_value random1)) = Some R1" "pt_is R1 (zmul (le_value random1) ed_base)"
    using point_g_mul_is [OF canonical_scalar255 [OF canonical_le_bytes(1)]] by (metis canonical_le_bytes(2) base_mod)
  have m: "(k mod sc_l - t) mod sc_l = (k - t) mod sc_l" for k t by (simp add: mod_diff_left_eq)
  show ?thesis
    unfolding generate_double_schnorr_sig_def ok bind.bind_lunit
    using assms(1-4) R0(1) R1(1)
    by (simp add: scalar_rules tobytes_Some [OF A] tobytes_Some [OF B] tobytes_Some [OF R0(2)] tobytes_Some [OF R1(2)]
      c_def public_of_def m)
qed

lemma response:
  fixes c :: int
  shows "zmul ((k - c * x) mod sc_l) g + zmul c (zmul x g) = zmul k g"
  by (rule schnorr_identity [OF order])

end

interpretation gen_G: generator point_g_mul ed_base
  by unfold_locales (simp_all add: base_order point_g_mul_is)

lemma generator_pc:
  "table_of ed_coords (pc_data X) g \<Longrightarrow> zmul sc_l g = 0 \<Longrightarrow> generator (\<lambda>a. point_pc_mul a X) g"
  by unfold_locales (simp_all add: point_pc_mul_is)


section \<open>What the verifiers decide\<close>

lemma catch_false_Returns: "m = Some (Returns b) \<Longrightarrow> catch_false m = Some (Returns b)"
  by (simp add: catch_false_def)

lemma catch_false_Throws: "m = Some Throws \<Longrightarrow> catch_false m = Some (Returns False)"
  by (simp add: catch_false_def)

definition schnorr_accepts :: "ed_point \<Rightarrow> bytes \<Rightarrow> bytes \<Rightarrow> generic_schnorr_sig \<Rightarrow> bool" where
  "schnorr_accepts g m A sig \<longleftrightarrow> canonical (gs_c sig) \<and> canonical (gs_y sig)
     \<and> (\<exists>P. A = ed_encode P
       \<and> gs_c sig = hash_scalar (m @ A @ ed_encode (zmul (le_value (gs_c sig)) P + zmul (le_value (gs_y sig)) g)))"

text \<open>Bytes that are the encoding of a point, and others, for which the constructor throws.\<close>

lemma encoding_cases:
  assumes "length A = 32"
  obtains (point) P where "A = ed_encode P" | (throws) "\<forall>P. A \<noteq> ed_encode P" "point_t A = Some Throws"
  using point_t_throws [OF assms] by blast

lemma outcome_bind_Throws: "m = Some Throws \<Longrightarrow> outcome_bind m f = Some Throws"
  by (simp add: outcome_bind_def)

lemma verify_schnorr_sig_G_is:
  assumes "length A = 32" and "length (gs_c sig) = 32" and "length (gs_y sig) = 32"
    and "le_value (gs_c sig) \<noteq> 0 \<or> le_value (gs_y sig) \<noteq> 0"
  shows "verify_schnorr_sig_G m A sig = Some (Returns (schnorr_accepts ed_base m A sig))"
proof (cases "canonical (gs_c sig) \<and> canonical (gs_y sig)")
  case True
  note red = True assms(2-4)
  from assms(1) show ?thesis
  proof (cases rule: encoding_cases)
    case (point P)
    have "verify_schnorr_sig_G m A sig = Some (Returns (gs_c sig
        = hash_scalar (m @ A @ ed_encode (zmul (le_value (gs_c sig)) P + zmul (le_value (gs_y sig)) ed_base))))"
      unfolding verify_schnorr_sig_G_def point
      by (rule catch_false_Returns, simp add: is_reduced_is red, rule point_rules, rule point_rules, assumption)
        (use red in \<open>auto simp: scalar_rules tobytes_Some\<close>)
    then show ?thesis using True by (simp add: schnorr_accepts_def point ed_encode_inj)
  next
    case throws
    then show ?thesis
      using True by (auto simp: verify_schnorr_sig_G_def is_reduced_is red schnorr_accepts_def outcome_bind_Throws intro: catch_false_Throws)
  qed
next
  case False
  then show ?thesis using assms by (auto simp: verify_schnorr_sig_G_def is_reduced_is schnorr_accepts_def intro: catch_false_Returns)
qed

lemma verify_schnorr_sig_X_is:
  assumes "length A = 32" and "length (gs_c sig) = 32" and "length (gs_y sig) = 32" and X: "table_of ed_coords (pc_data X) g"
  shows "verify_schnorr_sig_X X m A sig = Some (Returns (schnorr_accepts g m A sig))"
proof (cases "canonical (gs_c sig) \<and> canonical (gs_y sig)")
  case True
  note red = True assms(2,3)
  obtain Y where Y: "point_pc_mul (gs_y sig) X = Some Y" "pt_is Y (zmul (le_value (gs_y sig)) g)"
    using point_pc_mul_is [OF _ X] True canonical_scalar255 by blast
  from assms(1) show ?thesis
  proof (cases rule: encoding_cases)
    case (point P)
    have "verify_schnorr_sig_X X m A sig = Some (Returns (gs_c sig
        = hash_scalar (m @ A @ ed_encode (zmul (le_value (gs_y sig)) g + zmul (le_value (gs_c sig)) P))))"
      unfolding verify_schnorr_sig_X_def point
      by (rule catch_false_Returns, simp add: is_reduced_is red Y(1), rule point_rules,
          rule point_mul_bind [OF canonical_scalar255], simp add: red, assumption, rule point_add_bind [OF Y(2)], assumption)
        (simp add: scalar_rules tobytes_Some)
    then show ?thesis using True by (simp add: schnorr_accepts_def point ed_encode_inj add.commute)
  next
    case throws
    then show ?thesis
      using True Y(1) by (auto simp: verify_schnorr_sig_X_def is_reduced_is red schnorr_accepts_def outcome_bind_Throws intro: catch_false_Throws)
  qed
next
  case False
  then show ?thesis using assms by (auto simp: verify_schnorr_sig_X_def is_reduced_is schnorr_accepts_def intro: catch_false_Returns)
qed

definition double_accepts :: "ed_point \<Rightarrow> bytes \<Rightarrow> ed_point \<Rightarrow> bytes \<Rightarrow> generic_double_schnorr_sig \<Rightarrow> bool" where
  "double_accepts g m a B sig \<longleftrightarrow> canonical (ds_c sig) \<and> canonical (ds_y0 sig) \<and> canonical (ds_y1 sig)
     \<and> (\<exists>P. B = ed_encode P
       \<and> ds_c sig = hash_scalar (m @ ed_encode a @ B @ ed_encode (zmul (le_value (ds_y0 sig)) g + zmul (le_value (ds_c sig)) a)
           @ ed_encode (zmul (le_value (ds_c sig)) P + zmul (le_value (ds_y1 sig)) ed_base)))"

lemma verify_double_schnorr_sig_XG_is:
  assumes "length B = 32" and "length (ds_c sig) = 32" and "length (ds_y0 sig) = 32" and "length (ds_y1 sig) = 32"
    and A: "pt_is A a" and X: "table_of ed_coords (pc_data X) g"
    and nz: "le_value (ds_c sig) \<noteq> 0 \<or> le_value (ds_y1 sig) \<noteq> 0"
  shows "verify_double_schnorr_sig_XG X m A B sig = Some (Returns (double_accepts g m a B sig))"
proof (cases "canonical (ds_c sig) \<and> canonical (ds_y0 sig) \<and> canonical (ds_y1 sig)")
  case True
  note red = True assms(2-4)
  obtain Y where Y: "point_pc_mul (ds_y0 sig) X = Some Y" "pt_is Y (zmul (le_value (ds_y0 sig)) g)"
    using point_pc_mul_is [OF _ X] True canonical_scalar255 by blast
  obtain Q where Q: "point_mul (ds_c sig) A = Some Q" "pt_is Q (zmul (le_value (ds_c sig)) a)"
    using point_mul_is [OF _ A] True canonical_scalar255 by blast
  obtain R where R: "point_add Y Q = Some R" "pt_is R (zmul (le_value (ds_y0 sig)) g + zmul (le_value (ds_c sig)) a)"
    using point_add_is [OF Y(2) Q(2)] by blast
  note run = is_reduced_is red Y(1) Q(1) R(1) tobytes_Some [OF A] tobytes_Some [OF R(2)]
  from assms(1) show ?thesis
  proof (cases rule: encoding_cases)
    case (point P)
    have "verify_double_schnorr_sig_XG X m A B sig = Some (Returns (ds_c sig
        = hash_scalar (m @ ed_encode a @ B @ ed_encode (zmul (le_value (ds_y0 sig)) g + zmul (le_value (ds_c sig)) a)
           @ ed_encode (zmul (le_value (ds_c sig)) P + zmul (le_value (ds_y1 sig)) ed_base))))"
      unfolding verify_double_schnorr_sig_XG_def point
      by (rule catch_false_Returns, simp add: run, rule point_rules, rule point_rules, assumption)
        (use red nz in \<open>auto simp: scalar_rules tobytes_Some\<close>)
    then show ?thesis using True by (simp add: double_accepts_def point ed_encode_inj)
  next
    case throws
    then show ?thesis
      using True by (auto simp: verify_double_schnorr_sig_XG_def run double_accepts_def outcome_bind_Throws intro: catch_false_Throws)
  qed
next
  case False
  then show ?thesis using assms(2-4)
    by (auto simp: verify_double_schnorr_sig_XG_def is_reduced_is double_accepts_def intro: catch_false_Returns)
qed

lemma verify_double_schnorr_sig_GG_is:
  assumes "length B = 32" and "length (ds_c sig) = 32" and "length (ds_y0 sig) = 32" and "length (ds_y1 sig) = 32"
    and A: "pt_is A a"
    and nz: "le_value (ds_c sig) \<noteq> 0 \<or> le_value (ds_y0 sig) \<noteq> 0 \<and> le_value (ds_y1 sig) \<noteq> 0"
  shows "verify_double_schnorr_sig_GG m A B sig = Some (Returns (double_accepts ed_base m a B sig))"
proof (cases "canonical (ds_c sig) \<and> canonical (ds_y0 sig) \<and> canonical (ds_y1 sig)")
  case True
  note red = True assms(2-4)
  obtain R where R: "mul_plus_G A (ds_c sig) (ds_y0 sig) = Some R" "pt_is R (zmul (le_value (ds_y0 sig)) ed_base + zmul (le_value (ds_c sig)) a)"
    using mul_plus_G_is(1) [OF A, of "ds_c sig" "ds_y0 sig"] True canonical_scalar255 nz by (auto simp: add.commute)
  note run = is_reduced_is red R(1) tobytes_Some [OF A] tobytes_Some [OF R(2)]
  from assms(1) show ?thesis
  proof (cases rule: encoding_cases)
    case (point P)
    have "verify_double_schnorr_sig_GG m A B sig = Some (Returns (ds_c sig
        = hash_scalar (m @ ed_encode a @ B @ ed_encode (zmul (le_value (ds_y0 sig)) ed_base + zmul (le_value (ds_c sig)) a)
           @ ed_encode (zmul (le_value (ds_c sig)) P + zmul (le_value (ds_y1 sig)) ed_base))))"
      unfolding verify_double_schnorr_sig_GG_def point
      by (rule catch_false_Returns, simp add: run, rule point_rules, rule point_rules, assumption)
        (use red nz in \<open>auto simp: scalar_rules tobytes_Some\<close>)
    then show ?thesis using True by (simp add: double_accepts_def point ed_encode_inj)
  next
    case throws
    then show ?thesis
      using True by (auto simp: verify_double_schnorr_sig_GG_def run double_accepts_def outcome_bind_Throws intro: catch_false_Throws)
  qed
next
  case False
  then show ?thesis using assms(2-4)
    by (auto simp: verify_double_schnorr_sig_GG_def is_reduced_is double_accepts_def intro: catch_false_Returns)
qed


section \<open>Promises\<close>

text \<open>
  C10 (schnorr_decides). \<^verbatim>\<open>verify_schnorr_sig\<close> accepts exactly if both scalars are reduced, the key is the
  encoding of a point \<open>P\<close>, and the challenge \<open>c\<close> is the hash of the message, the key and \<open>c P + y G\<close>
  (\<open>c P + y X\<close> for the other generator); a key that is no point is rejected, with no exception. For \<open>G\<close>
  this needs one of the scalars to be other than zero: for two zeros the function reads a point that was never written.
\<close>

theorem schnorr_decides:
  assumes "length A = 32" and "length (gs_c sig) = 32" and "length (gs_y sig) = 32" and "table_of ed_coords (pc_data X) g"
  shows "verify_schnorr_sig_X X m A sig = Some (Returns (schnorr_accepts g m A sig))
    \<and> (if le_value (gs_c sig) = 0 \<and> le_value (gs_y sig) = 0 then (\<exists>P. A = ed_encode P) \<longrightarrow> verify_schnorr_sig_G m A sig = None
       else verify_schnorr_sig_G m A sig = Some (Returns (schnorr_accepts ed_base m A sig)))"
proof -
  have "verify_schnorr_sig_G m A sig = None"
    if z: "le_value (gs_c sig) = 0" "le_value (gs_y sig) = 0" and A: "A = ed_encode P" for P
  proof -
    have c: "canonical (gs_c sig)" "canonical (gs_y sig)" using z assms(2,3) by (simp_all add: canonical_def sc_l_def)
    obtain Q where Q: "point_t A = Some (Returns Q)" "pt_is Q P" using point_t_encode [of P] A by blast
    show ?thesis
      using c Q(1) mul_plus_G_is(2) [OF Q(2) canonical_scalar255 canonical_scalar255, OF c z]
      by (simp add: verify_schnorr_sig_G_def is_reduced_is catch_false_def)
  qed
  then show ?thesis
    using verify_schnorr_sig_X_is [OF assms(1-4)] verify_schnorr_sig_G_is [OF assms(1-3)] by auto
qed

theorem schnorr_decides_witness:
  "verify_schnorr_sig_G (replicate 32 1) (ed_encode 0) \<lparr>gs_c = sc_0, gs_y = sc_0\<rparr> = None"
proof -
  have "table_of ed_coords (pc_data \<lparr>pc_p3 = ge_p3_0, pc_data = ge_base\<rparr>) ed_base" by (simp add: ge_base_table)
  from schnorr_decides [OF _ _ _ this, of "ed_encode 0" "\<lparr>gs_c = sc_0, gs_y = sc_0\<rparr>" "replicate 32 1"] show ?thesis
    using canonical_sc_0(2) canonical_length [OF canonical_sc_0(1)] by simp blast
qed

lemma schnorr_accepts_response:
  assumes "zmul sc_l g = 0" and "A = ed_encode (zmul x g)"
    and "c = hash_scalar (m @ A @ ed_encode (zmul k g))"
  shows "schnorr_accepts g m A \<lparr>gs_c = c, gs_y = sc_bytes (k - le_value c * x)\<rparr>"
proof -
  have "zmul (le_value c) (zmul x g) + zmul ((k - le_value c * x) mod sc_l) g = zmul k g"
    using schnorr_identity [OF assms(1)] by (simp add: add.commute)
  then show ?thesis using assms(2,3) by (auto simp: schnorr_accepts_def canonical_le_bytes)
qed

text \<open>
  C8 (schnorr_complete). A proof made with the secret of a key is accepted for the key, for either generator, whatever the message and
  the random bytes; for \<open>G\<close> unless both of its scalars are zero.
\<close>

theorem schnorr_complete:
  assumes "length random = 64" and "canonical a" and "pt_is A (zmul (le_value a) ed_base)" and "pt_is B (zmul (le_value a) g)"
    and "table_of ed_coords (pc_data X) g" and "zmul sc_l g = 0"
  shows "(\<exists>sig. generate_schnorr_sig_custom_generator debug random m A a point_g_mul = Some (Some sig)
        \<and> (le_value (gs_c sig) = 0 \<and> le_value (gs_y sig) = 0
           \<or> verify_schnorr_sig_G m (public_of (le_value a)) sig = Some (Returns True)))
    \<and> (\<exists>sig. generate_schnorr_sig_custom_generator debug random m B a (\<lambda>s. point_pc_mul s X) = Some (Some sig)
        \<and> verify_schnorr_sig_X X m (ed_encode (zmul (le_value a) g)) sig = Some (Returns True))"
proof
  define c where "c = hash_scalar (m @ public_of (le_value a) @ ed_encode (zmul (le_value random) ed_base))"
  define sig where "sig = \<lparr>gs_c = c, gs_y = sc_bytes (le_value random - le_value c * le_value a)\<rparr>"
  have "schnorr_accepts ed_base m (public_of (le_value a)) sig"
    unfolding sig_def by (rule schnorr_accepts_response [OF base_order public_of_def c_def])
  moreover have "length (gs_c sig) = 32" "length (gs_y sig) = 32" by (simp_all add: sig_def c_def)
  ultimately have "le_value (gs_c sig) = 0 \<and> le_value (gs_y sig) = 0
      \<or> verify_schnorr_sig_G m (public_of (le_value a)) sig = Some (Returns True)"
    using verify_schnorr_sig_G_is [of "public_of (le_value a)" sig m] by auto
  then show "\<exists>sig. generate_schnorr_sig_custom_generator debug random m A a point_g_mul = Some (Some sig)
      \<and> (le_value (gs_c sig) = 0 \<and> le_value (gs_y sig) = 0
         \<or> verify_schnorr_sig_G m (public_of (le_value a)) sig = Some (Returns True))"
    using gen_G.schnorr_is [OF assms(1-3), of debug m] unfolding sig_def c_def public_of_def by blast
next
  show "\<exists>sig. generate_schnorr_sig_custom_generator debug random m B a (\<lambda>s. point_pc_mul s X) = Some (Some sig)
        \<and> verify_schnorr_sig_X X m (ed_encode (zmul (le_value a) g)) sig = Some (Returns True)"
    using generator.schnorr_is [OF generator_pc [OF assms(5,6)] assms(1,2,4), of debug m]
      verify_schnorr_sig_X_is [OF _ _ _ assms(5)] schnorr_accepts_response [OF assms(6) refl refl] by (auto simp: schnorr_accepts_def)
qed

lemma ed_base_p3: obtains P where "pt_is P (zmul k ed_base)"
  using point_g_mul_is [of "sc_bytes k"] by (metis base_mod canonical_le_bytes canonical_scalar255)

theorem schnorr_complete_witness:
  "\<exists>A sig. generate_schnorr_sig_custom_generator True (replicate 64 7) (replicate 32 1) A (le_bytes 32 5)
      (\<lambda>s. point_pc_mul s \<lparr>pc_p3 = ge_p3_0, pc_data = ge_base\<rparr>) = Some (Some sig)
    \<and> verify_schnorr_sig_X \<lparr>pc_p3 = ge_p3_0, pc_data = ge_base\<rparr> (replicate 32 1) (public_of 5) sig = Some (Returns True)"
proof -
  have c: "canonical (le_bytes 32 5)" "le_value (le_bytes 32 5) = 5" by (simp_all add: canonical_def le_value_le_bytes sc_l_def)
  obtain A where A: "pt_is A (zmul (le_value (le_bytes 32 5)) ed_base)" by (rule ed_base_p3)
  have "table_of ed_coords (pc_data \<lparr>pc_p3 = ge_p3_0, pc_data = ge_base\<rparr>) ed_base" by (simp add: ge_base_table)
  from schnorr_complete [OF _ c(1) A A this base_order, of "replicate 64 7" True "replicate 32 1"] show ?thesis
    unfolding c(2) by (auto simp: public_of_def)
qed

text \<open>
  C11 (double_schnorr_complete). A proof with two secrets, as the balance of a transaction is proved with, is accepted for its two
  points, with \<open>X\<close> and \<open>G\<close> or with \<open>G\<close> twice, unless the challenge is zero together with a response to it.
\<close>

theorem double_schnorr_complete:
  assumes "length random0 = 64" and "length random1 = 64" and "canonical a" and "canonical b"
    and A: "pt_is A (zmul (le_value a) g)" and A': "pt_is A' (zmul (le_value a) ed_base)" and B: "pt_is B (zmul (le_value b) ed_base)"
    and X: "table_of ed_coords (pc_data X) g" "zmul sc_l g = 0"
  shows "(\<exists>sig. generate_double_schnorr_sig (\<lambda>s. point_pc_mul s X) debug random0 random1 m A a B b = Some (Some sig)
        \<and> (le_value (ds_c sig) = 0 \<and> le_value (ds_y1 sig) = 0
           \<or> verify_double_schnorr_sig_XG X m A (public_of (le_value b)) sig = Some (Returns True)))
    \<and> (\<exists>sig. generate_double_schnorr_sig point_g_mul debug random0 random1 m A' a B b = Some (Some sig)
        \<and> (le_value (ds_c sig) = 0 \<and> (le_value (ds_y0 sig) = 0 \<or> le_value (ds_y1 sig) = 0)
           \<or> verify_double_schnorr_sig_GG m A' (public_of (le_value b)) sig = Some (Returns True)))"
proof -
  let ?c = "\<lambda>h. hash_scalar (m @ ed_encode (zmul (le_value a) h) @ public_of (le_value b)
    @ ed_encode (zmul (le_value random0) h) @ public_of (le_value random1))"
  let ?sig = "\<lambda>h. \<lparr>ds_c = ?c h, ds_y0 = sc_bytes (le_value random0 - le_value (?c h) * le_value a),
        ds_y1 = sc_bytes (le_value random1 - le_value (?c h) * le_value b)\<rparr>"
  define sig where "sig = ?sig"
  have acc: "double_accepts h m (zmul (le_value a) h) (public_of (le_value b)) (sig h)"
    and len: "length (ds_c (sig h)) = 32" "length (ds_y0 (sig h)) = 32" "length (ds_y1 (sig h)) = 32"
    if "zmul sc_l h = 0" for h
  proof -
    have "zmul ((le_value random0 - le_value (?c h) * le_value a) mod sc_l) h + zmul (le_value (?c h)) (zmul (le_value a) h) = zmul (le_value random0) h"
      "zmul (le_value (?c h)) (zmul (le_value b) ed_base) + zmul ((le_value random1 - le_value (?c h) * le_value b) mod sc_l) ed_base = zmul (le_value random1) ed_base"
      using schnorr_identity [OF that] schnorr_identity [OF base_order] by (simp_all add: add.commute)
    then show "double_accepts h m (zmul (le_value a) h) (public_of (le_value b)) (sig h)"
      "length (ds_c (sig h)) = 32" "length (ds_y0 (sig h)) = 32" "length (ds_y1 (sig h)) = 32"
      by (auto simp: sig_def double_accepts_def canonical_le_bytes public_of_def)
  qed
  have gen: "generate_double_schnorr_sig (\<lambda>s. point_pc_mul s X) debug random0 random1 m A a B b = Some (Some (sig g))"
    "generate_double_schnorr_sig point_g_mul debug random0 random1 m A' a B b = Some (Some (sig ed_base))"
    unfolding sig_def using generator.double_is [OF generator_pc [OF X] assms(1-4) A B] gen_G.double_is [OF assms(1-4) A' B] by blast+
  show ?thesis
    using gen verify_double_schnorr_sig_XG_is [OF public_of_length len [OF X(2)] A X(1), of m "le_value b"] acc [OF X(2)]
      verify_double_schnorr_sig_GG_is [OF public_of_length len [OF base_order] A', of m "le_value b"] acc [OF base_order]
    by auto
qed

theorem double_schnorr_complete_witness:
  "\<exists>A sig. generate_double_schnorr_sig (\<lambda>s. point_pc_mul s \<lparr>pc_p3 = ge_p3_0, pc_data = ge_base\<rparr>) True
      (replicate 64 7) (replicate 64 9) (replicate 32 1) A (le_bytes 32 5) A (le_bytes 32 5) = Some (Some sig)
    \<and> (le_value (ds_c sig) = 0 \<and> le_value (ds_y1 sig) = 0
       \<or> verify_double_schnorr_sig_XG \<lparr>pc_p3 = ge_p3_0, pc_data = ge_base\<rparr> (replicate 32 1) A (public_of 5) sig = Some (Returns True))"
proof -
  have c: "canonical (le_bytes 32 5)" "le_value (le_bytes 32 5) = 5" by (simp_all add: canonical_def le_value_le_bytes sc_l_def)
  obtain A where A: "pt_is A (zmul (le_value (le_bytes 32 5)) ed_base)" by (rule ed_base_p3)
  have X: "table_of ed_coords (pc_data \<lparr>pc_p3 = ge_p3_0, pc_data = ge_base\<rparr>) ed_base" by (simp add: ge_base_table)
  have l: "length (replicate 64 7 :: bytes) = 64" "length (replicate 64 9 :: bytes) = 64" by simp_all
  from double_schnorr_complete [OF l c(1) c(1) A A A X base_order, of True "replicate 32 1"] show ?thesis
    unfolding c(2) by blast
qed

end
