(* ===== verification/Clsag.thy ===== *)
theory Clsag
  imports Schnorr
begin

text \<open>
  The ring signatures of confidential transactions, \<^verbatim>\<open>src/src/crypto/clsag.cpp\<close>: a chain of challenges
  around the ring, shared by all variants, and the variant with two layers over \<open>G\<close> (\<^verbatim>\<open>CLSAG_GG\<close>).
  Random bytes come from a sequence of draws. A result \<open>Throws\<close> is the exception of a failed
  \<^verbatim>\<open>CRYPTO_CHECK_AND_THROW_MES\<close> or of a key that encodes no point.
\<close>

section \<open>The ring of challenges\<close>

text \<open>The verifier's loop, with its body as \<open>step\<close>, over the indices it visits.\<close>

fun clsag_chain :: "(nat \<Rightarrow> bytes \<Rightarrow> bytes option) \<Rightarrow> nat list \<Rightarrow> bytes \<Rightarrow> bytes option" where
  "clsag_chain step [] c_prev = Some c_prev"
| "clsag_chain step (i # idxs) c_prev = do { c_prev \<leftarrow> step i c_prev; clsag_chain step idxs c_prev }"

text \<open>The signer's loop, which notes the challenge it has at index 0.\<close>

fun clsag_walk :: "(nat \<Rightarrow> bytes \<Rightarrow> bytes option) \<Rightarrow> nat list \<Rightarrow> bytes \<Rightarrow> bytes \<Rightarrow> (bytes \<times> bytes) option" where
  "clsag_walk step [] c_prev c_0 = Some (c_prev, c_0)"
| "clsag_walk step (i # idxs) c_prev c_0 =
     (let c_0 = (if i = 0 then c_prev else c_0) in
      do { c_prev \<leftarrow> step i c_prev; clsag_walk step idxs c_prev c_0 })"

text \<open>The indices after \<open>secret_index\<close>, cyclically, without it.\<close>

definition ring_indices :: "nat \<Rightarrow> nat \<Rightarrow> nat list" where
  "ring_indices ring_size secret_index = map (\<lambda>j. (secret_index + 1 + j) mod ring_size) [0..<ring_size - 1]"

definition make_random_vec :: "(nat \<Rightarrow> bytes) \<Rightarrow> nat \<Rightarrow> bytes list option" where
  "make_random_vec draw n = those (map (\<lambda>i. random_scalar_no_lock (draw i)) [0..<n])"

lemma ring_indices_split:
  assumes "s < n"
  shows "ring_indices n s = [s + 1..<n] @ [0..<s]"
proof (rule nth_equalityI)
  fix i assume i: "i < length (ring_indices n s)"
  show "ring_indices n s ! i = ([s + 1..<n] @ [0..<s]) ! i"
  proof (cases "s + 1 + i < n")
    case True
    then have "i < n - Suc s" by simp
    then show ?thesis using True i by (simp add: ring_indices_def nth_append)
  next
    case False
    then have "(s + 1 + i) mod n = s + 1 + i - n" using i assms by (simp add: ring_indices_def mod_if)
    moreover have "\<not> i < n - (s + 1)" "i - (n - (s + 1)) = s + 1 + i - n" using False assms by simp_all
    ultimately show ?thesis using i assms by (simp add: ring_indices_def nth_append)
  qed
qed (use assms in \<open>simp add: ring_indices_def\<close>)

lemma clsag_chain_is:
  assumes "\<And>i c. i \<in> set idxs \<Longrightarrow> scalar255 c \<Longrightarrow> step i c = Some (next_c i c) \<and> scalar255 (next_c i c)"
  shows "scalar255 c \<Longrightarrow> clsag_chain step idxs c = Some (fold next_c idxs c) \<and> scalar255 (fold next_c idxs c)"
  using assms by (induction idxs arbitrary: c) auto

lemma clsag_walk_is:
  assumes "\<And>i c. i \<in> set idxs \<Longrightarrow> scalar255 c \<Longrightarrow> step i c = Some (next_c i c) \<and> scalar255 (next_c i c)"
  shows "scalar255 c \<Longrightarrow> 0 \<notin> set idxs \<Longrightarrow> clsag_walk step idxs c z = Some (fold next_c idxs c, z)"
    and "scalar255 c \<Longrightarrow> 0 \<notin> set idxs \<Longrightarrow> clsag_walk step (idxs @ js) c z = clsag_walk step js (fold next_c idxs c) z"
  using assms by (induction idxs arbitrary: c) (auto simp: Let_def)

lemma fold_ring_cong: "(\<And>i c. i \<in> set idxs \<Longrightarrow> f i c = g i c) \<Longrightarrow> fold f idxs c = fold g idxs c"
  by (rule fold_cong) auto

text \<open>
  The signer starts behind its own index, and its last challenge closes the ring if the response makes
  its own step lead back to the start.
\<close>

lemma clsag_ring_closes:
  assumes s: "s < n" and c: "scalar255 c1"
    and step: "\<And>i c. i < n \<Longrightarrow> i \<noteq> s \<Longrightarrow> scalar255 c \<Longrightarrow> step i c = Some (next_c i c) \<and> scalar255 (next_c i c)"
  obtains c_s c_0 where "clsag_walk step (ring_indices n s) c1 z = Some (c_s, if s = 0 then z else c_0)" and "scalar255 c_s"
    and "s = 0 \<Longrightarrow> c_0 = c_s" and "scalar255 c_0"
    and "\<And>next'. (\<And>i c. i < n \<Longrightarrow> i \<noteq> s \<Longrightarrow> next' i c = next_c i c) \<Longrightarrow> next' s c_s = c1 \<Longrightarrow> fold next' [0..<n] c_0 = c_0"
proof -
  define c_0 where "c_0 = fold next_c [s + 1..<n] c1"
  define c_s where "c_s = fold next_c [0..<s] c_0"
  have up: "step i c = Some (next_c i c) \<and> scalar255 (next_c i c)" if "i \<in> set [s + 1..<n]" "scalar255 c" for i c
    using step [of i c] that by simp
  have lo: "step i c = Some (next_c i c) \<and> scalar255 (next_c i c)" if "i \<in> set [0..<s]" "scalar255 c" for i c
    using step [of i c] that s by simp
  have c0: "scalar255 c_0" unfolding c_0_def using clsag_chain_is [of "[s + 1..<n]" step next_c c1] up c by blast
  have cs: "scalar255 c_s" unfolding c_s_def using clsag_chain_is [of "[0..<s]" step next_c c_0] lo c0 by blast
  have "clsag_walk step (ring_indices n s) c1 z = clsag_walk step [0..<s] c_0 z"
    unfolding ring_indices_split [OF s] c_0_def by (rule clsag_walk_is(2)) (use up c in auto)
  also have "\<dots> = Some (c_s, if s = 0 then z else c_0)"
  proof (cases s)
    case (Suc t)
    have "[0..<s] = 0 # [1..<s]" unfolding Suc by (simp add: upt_conv_Cons)
    moreover have "clsag_walk step [1..<s] (next_c 0 c_0) c_0 = Some (fold next_c [1..<s] (next_c 0 c_0), c_0)"
      by (rule clsag_walk_is(1)) (use lo c0 Suc in auto)
    moreover have "step 0 c_0 = Some (next_c 0 c_0)" using lo [of 0 c_0] c0 Suc by auto
    ultimately show ?thesis using Suc by (simp add: c_s_def)
  qed (simp add: c_s_def)
  finally have w: "clsag_walk step (ring_indices n s) c1 z = Some (c_s, if s = 0 then z else c_0)" .
  have close: "fold next' [0..<n] c_0 = c_0"
    if n: "\<And>i c. i < n \<Longrightarrow> i \<noteq> s \<Longrightarrow> next' i c = next_c i c" "next' s c_s = c1" for next'
  proof -
    have "[0..<n] = [0..<s] @ s # [s + 1..<n]"
      by (metis Suc_eq_plus1 upt_add_eq_append upt_conv_Cons s less_imp_add_positive le0)
    moreover have "fold next' [0..<s] c_0 = c_s" unfolding c_s_def by (rule fold_ring_cong) (use n(1) s in auto)
    moreover have "fold next' [s + 1..<n] c1 = c_0" unfolding c_0_def by (rule fold_ring_cong) (use n(1) in auto)
    ultimately show ?thesis using n(2) by simp
  qed
  show ?thesis by (rule that [OF w cs _ c0 close]) (simp_all add: c_s_def)
qed


section \<open>Commitments\<close>

text \<open>
  The two points hashed for one ring member and one generator:
  \<^verbatim>\<open>r * G + c_prev * W\<close> and \<^verbatim>\<open>r * hp(stealth_address) + c_prev * W_key_image\<close>.
\<close>

definition clsag_commit :: "(bytes \<Rightarrow> ge_p3 option) \<Rightarrow> bytes \<Rightarrow> bytes \<Rightarrow> ge_p3 \<Rightarrow> bytes \<Rightarrow> ge_p3 \<Rightarrow> (bytes \<times> bytes) option" where
  "clsag_commit gmul r c_prev W stealth_address W_key_image = do {
     rG \<leftarrow> gmul r;
     cW \<leftarrow> point_mul c_prev W;
     a \<leftarrow> point_add rG cW;
     a \<leftarrow> ge_p3_tobytes a;
     h \<leftarrow> hp stealth_address;
     rh \<leftarrow> point_mul r h;
     cK \<leftarrow> point_mul c_prev W_key_image;
     b \<leftarrow> point_add rh cK;
     b \<leftarrow> ge_p3_tobytes b;
     Some (a, b) }"

text \<open>The signer's own entry: \<^verbatim>\<open>alpha * G\<close> and \<^verbatim>\<open>alpha * ki_base\<close>.\<close>

definition clsag_initial :: "(bytes \<Rightarrow> ge_p3 option) \<Rightarrow> bytes \<Rightarrow> ge_p3 \<Rightarrow> (bytes \<times> bytes) option" where
  "clsag_initial gmul alpha ki_base = do {
     a \<leftarrow> gmul alpha;
     a \<leftarrow> ge_p3_tobytes a;
     b \<leftarrow> point_mul alpha ki_base;
     b \<leftarrow> ge_p3_tobytes b;
     Some (a, b) }"

definition commit_of :: "ed_point \<Rightarrow> bytes \<Rightarrow> bytes \<Rightarrow> ed_point \<Rightarrow> ed_point \<Rightarrow> ed_point \<Rightarrow> bytes \<times> bytes" where
  "commit_of g r c W H K =
     (ed_encode (zmul (le_value r) g + zmul (le_value c) W), ed_encode (zmul (le_value r) H + zmul (le_value c) K))"

lemma clsag_commit_is:
  assumes "generator gmul g" and "scalar255 r" and "scalar255 c" and "pt_is W w" and "pt_is K k" and "length sa = 32"
  shows "clsag_commit gmul r c W sa K = Some (commit_of g r c w (ed_hash sa) k)"
  unfolding clsag_commit_def commit_of_def
  by (rule bind_is [OF generator.mult [OF assms(1,2)]], rule point_mul_bind [OF assms(3,4)], rule point_add_bind, assumption, assumption,
      simp add: tobytes_Some, rule hp_bind [OF assms(6)], rule point_mul_bind [OF assms(2)], assumption,
      rule point_mul_bind [OF assms(3,5)], rule point_add_bind, assumption, assumption, simp add: tobytes_Some)

lemma clsag_initial_is:
  assumes "generator gmul g" and "scalar255 alpha" and "pt_is H h"
  shows "clsag_initial gmul alpha H = Some (ed_encode (zmul (le_value alpha) g), ed_encode (zmul (le_value alpha) h))"
  unfolding clsag_initial_def
  by (rule bind_is [OF generator.mult [OF assms(1,2)]], simp add: tobytes_Some, rule point_mul_bind [OF assms(2,3)])
    (simp add: tobytes_Some)

text \<open>A response to the challenge \<open>c\<close> with the aggregate secret \<open>x\<close> restores the initial commitment.\<close>

lemma commit_response:
  assumes "zmul sc_l g = 0" and "zmul sc_l H = 0"
  shows "commit_of g (sc_bytes (le_value alpha - le_value c * x)) c (zmul x g) H (zmul x H)
    = (ed_encode (zmul (le_value alpha) g), ed_encode (zmul (le_value alpha) H))"
  using schnorr_identity [OF assms(1)] schnorr_identity [OF assms(2)] by (simp add: commit_of_def canonical_le_bytes)

lemma make_random_vec_is:
  assumes "\<And>i. length (draw i) = 64"
  shows "make_random_vec draw n = Some (map (\<lambda>i. sc_bytes (le_value (draw i))) [0..<n])"
  unfolding make_random_vec_def by (rule those_map_Some) (simp add: random_scalar_bytes assms)

lemma eighth: "zmul sc_l h = 0 \<Longrightarrow> zmul 8 (zmul (le_value c_scalar_1div8) h) = h"
  by (metis c_scalar_1div8_value(2) zmul_mod zmul_zmul zmul_1)


section \<open>CLSAG\_GG\<close>

record CLSAG_GG_input_ref =
  stealth_address :: bytes
  amount_commitment :: bytes

record CLSAG_GG_signature =
  gg_c :: bytes
  gg_r :: "bytes list"
  gg_K1 :: bytes

definition CRYPTO_HDS_CLSAG_GG_LAYER_0 :: bytes where
  "CRYPTO_HDS_CLSAG_GG_LAYER_0 = chars32 ''ZANO_HDS_CLSAG_GG_LAYER_ZERO___''"

definition CRYPTO_HDS_CLSAG_GG_LAYER_1 :: bytes where
  "CRYPTO_HDS_CLSAG_GG_LAYER_1 = chars32 ''ZANO_HDS_CLSAG_GG_LAYER_ONE____''"

definition CRYPTO_HDS_CLSAG_GG_CHALLENGE :: bytes where
  "CRYPTO_HDS_CLSAG_GG_CHALLENGE = chars32 ''ZANO_HDS_CLSAG_GG_CHALLENGE____''"

text \<open>The message is converted to a scalar when it is added, and so reduced.\<close>

definition CLSAG_GG_input_hash :: "bytes \<Rightarrow> CLSAG_GG_input_ref list \<Rightarrow> bytes \<Rightarrow> bytes \<Rightarrow> bytes \<Rightarrow> bytes option" where
  "CLSAG_GG_input_hash m ring pseudo_out_amount_commitment ki K1 = do {
     ms \<leftarrow> scalar_of_hash m;
     Some (calc_hash_no_reduce ([ms] @ concat (map (\<lambda>e. [stealth_address e, amount_commitment e]) ring)
       @ [pseudo_out_amount_commitment, ki, K1])) }"

fun CLSAG_GG_pub_keys :: "bytes \<Rightarrow> bytes \<Rightarrow> ge_p3 \<Rightarrow> CLSAG_GG_input_ref list \<Rightarrow> ge_p3 list outcome option" where
  "CLSAG_GG_pub_keys agg_coeff_0 agg_coeff_1 po [] = Some (Returns [])"
| "CLSAG_GG_pub_keys agg_coeff_0 agg_coeff_1 po (e # ring) =
     outcome_bind (point_t (stealth_address e)) (\<lambda>P. outcome_bind (point_t (amount_commitment e)) (\<lambda>A. do {
       aP \<leftarrow> point_mul agg_coeff_0 P;
       A \<leftarrow> ge_mul8_p3 A;
       d \<leftarrow> point_sub A po;
       ad \<leftarrow> point_mul agg_coeff_1 d;
       W \<leftarrow> point_add aP ad;
       outcome_bind (CLSAG_GG_pub_keys agg_coeff_0 agg_coeff_1 po ring) (\<lambda>Ws. Some (Returns (W # Ws))) }))"

definition CLSAG_GG_step ::
  "bytes \<Rightarrow> CLSAG_GG_input_ref list \<Rightarrow> ge_p3 list \<Rightarrow> ge_p3 \<Rightarrow> bytes list \<Rightarrow> nat \<Rightarrow> bytes \<Rightarrow> bytes option" where
  "CLSAG_GG_step input_hash ring W_pub_keys W_key_image r i c_prev = do {
     e \<leftarrow> idx ring i;
     W \<leftarrow> idx W_pub_keys i;
     ri \<leftarrow> idx r i;
     (a, b) \<leftarrow> clsag_commit point_g_mul ri c_prev W (stealth_address e) W_key_image;
     calc_hash [CRYPTO_HDS_CLSAG_GG_CHALLENGE, input_hash, a, b] }"

definition generate_CLSAG_GG ::
  "(nat \<Rightarrow> bytes) \<Rightarrow> bytes \<Rightarrow> CLSAG_GG_input_ref list \<Rightarrow> ge_p3 \<Rightarrow> bytes \<Rightarrow> bytes \<Rightarrow> bytes \<Rightarrow> nat \<Rightarrow> CLSAG_GG_signature outcome option" where
  "generate_CLSAG_GG draw m ring pseudo_out_amount_commitment ki secret_x secret_f secret_index =
     (let ring_size = length ring in
      if \<not> ring_size > 0 then Some Throws
      else if \<not> secret_index < ring_size then Some Throws
      else do {
        ki_base \<leftarrow> hp (stealth_address (ring ! secret_index));
        key_image \<leftarrow> point_mul secret_x ki_base;
        outcome_bind (point_t ki) (\<lambda>kip. do {
          same \<leftarrow> point_eq key_image kip;
          if \<not> same then Some Throws
          else do {
            f8 \<leftarrow> sc_mul c_scalar_1div8 secret_f;
            K1_div8 \<leftarrow> point_mul f8 ki_base;
            sig_K1 \<leftarrow> ge_p3_tobytes K1_div8;
            K1 \<leftarrow> ge_mul8_p3 K1_div8;
            po8 \<leftarrow> point_mul c_scalar_1div8 pseudo_out_amount_commitment;
            po \<leftarrow> ge_p3_tobytes po8;
            input_hash \<leftarrow> CLSAG_GG_input_hash m ring po ki sig_K1;
            agg_coeff_0 \<leftarrow> calc_hash [CRYPTO_HDS_CLSAG_GG_LAYER_0, input_hash];
            agg_coeff_1 \<leftarrow> calc_hash [CRYPTO_HDS_CLSAG_GG_LAYER_1, input_hash];
            outcome_bind (CLSAG_GG_pub_keys agg_coeff_0 agg_coeff_1 pseudo_out_amount_commitment ring) (\<lambda>W_pub_keys. do {
              ax \<leftarrow> sc_mul agg_coeff_0 secret_x;
              af \<leftarrow> sc_mul agg_coeff_1 secret_f;
              w_sec_key \<leftarrow> sc_add ax af;
              aK \<leftarrow> point_mul agg_coeff_0 key_image;
              aK1 \<leftarrow> point_mul agg_coeff_1 K1;
              W_key_image \<leftarrow> point_add aK aK1;
              alpha \<leftarrow> random_scalar_no_lock (draw 0);
              (a, b) \<leftarrow> clsag_initial point_g_mul alpha ki_base;
              c_prev \<leftarrow> calc_hash [CRYPTO_HDS_CLSAG_GG_CHALLENGE, input_hash, a, b];
              r \<leftarrow> make_random_vec (\<lambda>i. draw (1 + i)) ring_size;
              (c_prev, c) \<leftarrow> clsag_walk (CLSAG_GG_step input_hash ring W_pub_keys W_key_image r)
                (ring_indices ring_size secret_index) c_prev [];
              cw \<leftarrow> sc_mul c_prev w_sec_key;
              rs \<leftarrow> sc_sub alpha cw;
              Some (Returns \<lparr>gg_c = (if secret_index = 0 then c_prev else c), gg_r = r[secret_index := rs], gg_K1 = sig_K1\<rparr>) }) } }) })"

definition verify_CLSAG_GG ::
  "bytes \<Rightarrow> CLSAG_GG_input_ref list \<Rightarrow> bytes \<Rightarrow> bytes \<Rightarrow> CLSAG_GG_signature \<Rightarrow> bool outcome option" where
  "verify_CLSAG_GG m ring pseudo_out_amount_commitment ki sig =
     (let ring_size = length ring in
      if \<not> ring_size > 0 then Some Throws
      else if ring_size \<noteq> length (gg_r sig) then Some Throws
      else outcome_bind (point_t ki) (\<lambda>key_image. do {
        main \<leftarrow> is_in_main_subgroup key_image;
        if \<not> main then Some Throws
        else outcome_bind (point_t pseudo_out_amount_commitment) (\<lambda>po. do {
          po \<leftarrow> ge_mul8_p3 po;
          input_hash \<leftarrow> CLSAG_GG_input_hash m ring pseudo_out_amount_commitment ki (gg_K1 sig);
          agg_coeff_0 \<leftarrow> calc_hash [CRYPTO_HDS_CLSAG_GG_LAYER_0, input_hash];
          agg_coeff_1 \<leftarrow> calc_hash [CRYPTO_HDS_CLSAG_GG_LAYER_1, input_hash];
          outcome_bind (CLSAG_GG_pub_keys agg_coeff_0 agg_coeff_1 po ring) (\<lambda>W_pub_keys.
            outcome_bind (point_t (gg_K1 sig)) (\<lambda>K1. do {
              aK \<leftarrow> point_mul agg_coeff_0 key_image;
              K1 \<leftarrow> ge_mul8_p3 K1;
              aK1 \<leftarrow> point_mul agg_coeff_1 K1;
              W_key_image \<leftarrow> point_add aK aK1;
              c_prev \<leftarrow> clsag_chain (CLSAG_GG_step input_hash ring W_pub_keys W_key_image (gg_r sig)) [0..<ring_size] (gg_c sig);
              Some (Returns (c_prev = gg_c sig)) })) }) }))"


section \<open>CLSAG\_GG on the group\<close>

text \<open>A member of the ring as its two points, the second one an eighth of the commitment.\<close>

definition gg_ref :: "ed_point \<times> ed_point \<Rightarrow> CLSAG_GG_input_ref" where
  "gg_ref = (\<lambda>(P, A). \<lparr>stealth_address = ed_encode P, amount_commitment = ed_encode A\<rparr>)"

definition gg_hash :: "bytes \<Rightarrow> (ed_point \<times> ed_point) list \<Rightarrow> ed_point \<Rightarrow> ed_point \<Rightarrow> ed_point \<Rightarrow> bytes" where
  "gg_hash m pts B I K1 = cn_fast_hash (sc_bytes (le_value m) @ concat (map (\<lambda>(P, A). ed_encode P @ ed_encode A) pts)
     @ ed_encode B @ ed_encode I @ ed_encode K1)"

definition agg_coeff :: "bytes \<Rightarrow> bytes \<Rightarrow> int" where
  "agg_coeff layer h = le_value (hash_scalar (layer @ h))"

definition gg_key :: "int \<Rightarrow> int \<Rightarrow> ed_point \<Rightarrow> ed_point \<times> ed_point \<Rightarrow> ed_point" where
  "gg_key a0 a1 B = (\<lambda>(P, A). zmul a0 P + zmul a1 (zmul 8 A - B))"

definition gg_challenge :: "bytes \<Rightarrow> bytes \<times> bytes \<Rightarrow> bytes" where
  "gg_challenge h = (\<lambda>(a, b). hash_scalar (CRYPTO_HDS_CLSAG_GG_CHALLENGE @ h @ a @ b))"

text \<open>One step around the ring, for the hash \<open>h\<close> and the aggregates of keys \<open>W\<close> and key images \<open>K\<close>.\<close>

definition gg_next :: "bytes \<Rightarrow> (ed_point \<times> ed_point) list \<Rightarrow> (ed_point \<times> ed_point \<Rightarrow> ed_point) \<Rightarrow> ed_point \<Rightarrow> bytes list \<Rightarrow> nat \<Rightarrow> bytes \<Rightarrow> bytes" where
  "gg_next h pts W K r i c = gg_challenge h (commit_of ed_base (r ! i) c (W (pts ! i)) (ed_hash (ed_encode (fst (pts ! i)))) K)"

definition gg_accepts :: "bytes \<Rightarrow> (ed_point \<times> ed_point) list \<Rightarrow> ed_point \<Rightarrow> ed_point \<Rightarrow> ed_point \<Rightarrow> CLSAG_GG_signature \<Rightarrow> bool" where
  "gg_accepts m pts B I K1 sig \<longleftrightarrow>
     (let h = gg_hash m pts B I K1;
          a0 = agg_coeff CRYPTO_HDS_CLSAG_GG_LAYER_0 h;
          a1 = agg_coeff CRYPTO_HDS_CLSAG_GG_LAYER_1 h
      in fold (gg_next h pts (gg_key a0 a1 (zmul 8 B)) (zmul a0 I + zmul a1 (zmul 8 K1)) (gg_r sig)) [0..<length pts] (gg_c sig) = gg_c sig)"

lemma gg_challenge_canonical [simp]: "canonical (gg_challenge h ab)"
  by (cases ab) (simp add: gg_challenge_def)

lemma concat_concat: "concat (concat xss) = concat (map concat xss)"
  by (induction xss) simp_all

lemma gg_input_hash_is:
  "length m = 32 \<Longrightarrow> CLSAG_GG_input_hash m (map gg_ref pts) (ed_encode B) (ed_encode I) (ed_encode K1) = Some (gg_hash m pts B I K1)"
  by (simp add: CLSAG_GG_input_hash_def scalar_of_hash_bytes calc_hash_no_reduce_def gg_hash_def gg_ref_def comp_def case_prod_unfold
      concat_concat)

lemma gg_pub_keys_is:
  assumes "canonical a0" and "canonical a1" and po: "pt_is po B"
  shows "\<exists>Ws. CLSAG_GG_pub_keys a0 a1 po (map gg_ref pts) = Some (Returns Ws) \<and> list_all2 pt_is Ws (map (gg_key (le_value a0) (le_value a1) B) pts)"
proof (induction pts)
  case (Cons p pts)
  then obtain Ws where Ws: "CLSAG_GG_pub_keys a0 a1 po (map gg_ref pts) = Some (Returns Ws)"
    "list_all2 pt_is Ws (map (gg_key (le_value a0) (le_value a1) B) pts)" by blast
  obtain g h where p: "p = (g, h)" by (cases p)
  obtain P where P: "point_t (ed_encode g) = Some (Returns P)" "pt_is P g" using point_t_encode by blast
  obtain A where A: "point_t (ed_encode h) = Some (Returns A)" "pt_is A h" using point_t_encode by blast
  obtain aP where aP: "point_mul a0 P = Some aP" "pt_is aP (zmul (le_value a0) g)"
    using point_mul_is [OF canonical_scalar255 [OF assms(1)] P(2)] by blast
  obtain A8 where A8: "ge_mul8_p3 A = Some A8" "pt_is A8 (zmul 8 h)" using point_mul8_is [OF A(2)] by blast
  obtain d where d: "point_sub A8 po = Some d" "pt_is d (zmul 8 h - B)" using point_sub_is [OF A8(2) po] by blast
  obtain ad where ad: "point_mul a1 d = Some ad" "pt_is ad (zmul (le_value a1) (zmul 8 h - B))"
    using point_mul_is [OF canonical_scalar255 [OF assms(2)] d(2)] by blast
  obtain W where W: "point_add aP ad = Some W" "pt_is W (gg_key (le_value a0) (le_value a1) B p)"
    using point_add_is [OF aP(2) ad(2)] by (auto simp: gg_key_def p)
  show ?case using P(1) A(1) aP(1) A8(1) d(1) ad(1) W Ws by (simp add: p gg_ref_def)
qed simp

lemma gg_step_is:
  assumes Ws: "list_all2 pt_is Ws (map W pts)" and K: "pt_is KI K" and i: "i < length pts" "length r = length pts"
    and r: "scalar255 (r ! i)" and c: "scalar255 c"
  shows "CLSAG_GG_step h (map gg_ref pts) Ws KI r i c = Some (gg_next h pts W K r i c) \<and> scalar255 (gg_next h pts W K r i c)"
proof -
  have w: "pt_is (Ws ! i) (W (pts ! i))" and l: "length Ws = length pts"
    using Ws i(1) by (auto simp: list_all2_conv_all_nth)
  have e: "stealth_address (gg_ref (pts ! i)) = ed_encode (fst (pts ! i))" by (simp add: gg_ref_def case_prod_beta)
  have "clsag_commit point_g_mul (r ! i) c (Ws ! i) (ed_encode (fst (pts ! i))) KI
      = Some (commit_of ed_base (r ! i) c (W (pts ! i)) (ed_hash (ed_encode (fst (pts ! i)))) K)"
    by (rule clsag_commit_is [OF gen_G.generator_axioms r c w K]) simp
  then show ?thesis
    using i l by (simp add: CLSAG_GG_step_def e idx_Some gg_next_def gg_challenge_def calc_hash_bytes case_prod_beta canonical_scalar255)
qed

lemma agg_coeff_is: "calc_hash [layer, h] = Some (hash_scalar (layer @ h))" "le_value (hash_scalar (layer @ h)) = agg_coeff layer h"
  by (simp_all add: calc_hash_bytes agg_coeff_def)

lemma verify_CLSAG_GG_is:
  assumes "length m = 32" and "pts \<noteq> []" and "length (gg_r sig) = length pts"
    and "\<forall>r \<in> set (gg_r sig). scalar255 r" and "scalar255 (gg_c sig)" and K1: "gg_K1 sig = ed_encode K1"
  shows "verify_CLSAG_GG m (map gg_ref pts) (ed_encode B) (ed_encode I) sig =
    Some (if \<exists>k. I = zmul k ed_base then Returns (gg_accepts m pts B I K1 sig) else Throws)"
proof -
  obtain KI where KI: "point_t (ed_encode I) = Some (Returns KI)" "pt_is KI I" using point_t_encode by blast
  show ?thesis
  proof (cases "\<exists>k. I = zmul k ed_base")
    case False
    then show ?thesis using KI(1) assms(2,3) by (simp add: verify_CLSAG_GG_def is_in_main_subgroup_is [OF KI(2)])
  next
    case True
    define h where "h = gg_hash m pts B I K1"
    define a0 where "a0 = hash_scalar (CRYPTO_HDS_CLSAG_GG_LAYER_0 @ h)"
    define a1 where "a1 = hash_scalar (CRYPTO_HDS_CLSAG_GG_LAYER_1 @ h)"
    have a: "canonical a0" "canonical a1" by (simp_all add: a0_def a1_def)
    have v: "agg_coeff CRYPTO_HDS_CLSAG_GG_LAYER_0 h = le_value a0" "agg_coeff CRYPTO_HDS_CLSAG_GG_LAYER_1 h = le_value a1"
      by (simp_all add: a0_def a1_def agg_coeff_def)
    obtain po where po: "point_t (ed_encode B) = Some (Returns po)" "pt_is po B" using point_t_encode by blast
    obtain po8 where po8: "ge_mul8_p3 po = Some po8" "pt_is po8 (zmul 8 B)" using point_mul8_is [OF po(2)] by blast
    obtain Ws where Ws: "CLSAG_GG_pub_keys a0 a1 po8 (map gg_ref pts) = Some (Returns Ws)"
      "list_all2 pt_is Ws (map (gg_key (le_value a0) (le_value a1) (zmul 8 B)) pts)" using gg_pub_keys_is [OF a po8(2)] by blast
    obtain L where L: "point_t (ed_encode K1) = Some (Returns L)" "pt_is L K1" using point_t_encode by blast
    obtain L8 where L8: "ge_mul8_p3 L = Some L8" "pt_is L8 (zmul 8 K1)" using point_mul8_is [OF L(2)] by blast
    obtain x where x: "point_mul a0 KI = Some x" "pt_is x (zmul (le_value a0) I)"
      using point_mul_is [OF canonical_scalar255 [OF a(1)] KI(2)] by blast
    obtain y where y: "point_mul a1 L8 = Some y" "pt_is y (zmul (le_value a1) (zmul 8 K1))"
      using point_mul_is [OF canonical_scalar255 [OF a(2)] L8(2)] by blast
    obtain K where K: "point_add x y = Some K" "pt_is K (zmul (le_value a0) I + zmul (le_value a1) (zmul 8 K1))"
      using point_add_is [OF x(2) y(2)] by blast
    let ?next = "gg_next h pts (gg_key (le_value a0) (le_value a1) (zmul 8 B)) (zmul (le_value a0) I + zmul (le_value a1) (zmul 8 K1)) (gg_r sig)"
    have "CLSAG_GG_step h (map gg_ref pts) Ws K (gg_r sig) i c = Some (?next i c) \<and> scalar255 (?next i c)"
      if "i \<in> set [0..<length pts]" "scalar255 c" for i c
      by (rule gg_step_is [OF Ws(2) K(2)]) (use that assms(3,4) in auto)
    then have ch: "clsag_chain (CLSAG_GG_step h (map gg_ref pts) Ws K (gg_r sig)) [0..<length pts] (gg_c sig)
        = Some (fold ?next [0..<length pts] (gg_c sig))" using clsag_chain_is assms(5) by blast
    show ?thesis
      using assms(2,3) KI(1) True po(1) po8(1) Ws(1) L(1) L8(1) x(1) y(1) K(1) ch
      by (simp add: verify_CLSAG_GG_def is_in_main_subgroup_is [OF KI(2)] gg_input_hash_is [OF assms(1)] K1 h_def [symmetric]
          agg_coeff_is(1) a0_def [symmetric] a1_def [symmetric] gg_accepts_def v Let_def)
  qed
qed

text \<open>The equations of the signer's ring: the aggregate secret opens the aggregate key and key image.\<close>

lemma gg_key_secret:
  "P = zmul x ed_base \<Longrightarrow> zmul 8 A - PO = zmul f ed_base \<Longrightarrow> gg_key a0 a1 PO (P, A) = zmul ((a0 * x + a1 * f) mod sc_l) ed_base"
  by (simp add: gg_key_def zmul_mod [OF base_order] zmul_zmul zmul_add)

lemma eighth_mod: "zmul sc_l h = 0 \<Longrightarrow> zmul 8 (zmul (le_value c_scalar_1div8 * f mod sc_l) h) = zmul f h"
proof -
  assume h: "zmul sc_l h = 0"
  have "zmul sc_l (zmul f h) = zmul f (zmul sc_l h)" by (metis zmul_zmul mult.commute)
  then have "zmul sc_l (zmul f h) = 0" by (simp add: h)
  from eighth [OF this] show ?thesis by (metis h zmul_mod zmul_zmul)
qed

lemma generate_CLSAG_GG_is:
  assumes draws: "\<And>i. length (draw i) = 64" and m: "length m = 32" and x: "canonical x" and f: "canonical f"
    and s: "s < length pts" "pts ! s = (zmul (le_value x) ed_base, A)"
    and PO: "pt_is po PO" "zmul sc_l PO = 0" and bal: "zmul 8 A - PO = zmul (le_value f) ed_base"
    and I: "I = zmul (le_value x) (ed_hash (ed_encode (fst (pts ! s))))"
  obtains sig K1 where "generate_CLSAG_GG draw m (map gg_ref pts) po (ed_encode I) x f s = Some (Returns sig)"
    and "length (gg_r sig) = length pts" and "\<forall>r \<in> set (gg_r sig). scalar255 r" and "scalar255 (gg_c sig)" and "gg_K1 sig = ed_encode K1"
    and "gg_accepts m pts (zmul (le_value c_scalar_1div8) PO) I K1 sig"
proof -
  define n where "n = length pts"
  define H where "H = ed_hash (ed_encode (fst (pts ! s)))"
  define B where "B = zmul (le_value c_scalar_1div8) PO"
  define K1 where "K1 = zmul (le_value c_scalar_1div8 * le_value f mod sc_l) H"
  define h where "h = gg_hash m pts B I K1"
  define a0 where "a0 = hash_scalar (CRYPTO_HDS_CLSAG_GG_LAYER_0 @ h)"
  define a1 where "a1 = hash_scalar (CRYPTO_HDS_CLSAG_GG_LAYER_1 @ h)"
  define w where "w = (le_value a0 * le_value x + le_value a1 * le_value f) mod sc_l"
  define alpha where "alpha = sc_bytes (le_value (draw 0))"
  define r where "r = map (\<lambda>i. sc_bytes (le_value (draw (1 + i)))) [0..<n]"
  define c1 where "c1 = gg_challenge h (ed_encode (zmul (le_value alpha) ed_base), ed_encode (zmul (le_value alpha) H))"
  have ord: "zmul sc_l H = 0" unfolding H_def by (rule ed_hash_order)
  have a: "canonical a0" "canonical a1" by (simp_all add: a0_def a1_def)
  have v: "agg_coeff CRYPTO_HDS_CLSAG_GG_LAYER_0 h = le_value a0" "agg_coeff CRYPTO_HDS_CLSAG_GG_LAYER_1 h = le_value a1"
    by (simp_all add: a0_def a1_def agg_coeff_def)
  have al: "canonical alpha" unfolding alpha_def by (rule canonical_le_bytes)
  have PO8: "zmul 8 B = PO" unfolding B_def by (rule eighth [OF PO(2)])
  have K18: "zmul 8 K1 = zmul (le_value f) H" unfolding K1_def by (rule eighth_mod [OF ord])
  let ?K = "zmul (le_value a0) I + zmul (le_value a1) (zmul 8 K1)"
  let ?W = "gg_key (le_value a0) (le_value a1) PO"
  have K: "?K = zmul w H"
    by (simp add: I H_def [symmetric] K18 w_def zmul_mod [OF ord] zmul_zmul zmul_add)
  have W: "?W (pts ! s) = zmul w ed_base" unfolding s(2) w_def by (rule gg_key_secret [OF refl bal])
  obtain hb where hb: "hp (ed_encode (fst (pts ! s))) = Some hb" "pt_is hb H"
    using hp_is [of "ed_encode (fst (pts ! s))"] by (auto simp: H_def)
  obtain ki where ki: "point_mul x hb = Some ki" "pt_is ki I"
    using point_mul_is [OF canonical_scalar255 [OF x] hb(2)] by (auto simp: I H_def)
  obtain ip where ip: "point_t (ed_encode I) = Some (Returns ip)" "pt_is ip I" using point_t_encode by blast
  have f8: "sc_mul c_scalar_1div8 f = Some (sc_bytes (le_value c_scalar_1div8 * le_value f))"
    using f c_scalar_1div8_value(1) by (simp add: sc_mul_bytes canonical_def)
  obtain k1 where k1: "point_mul (sc_bytes (le_value c_scalar_1div8 * le_value f)) hb = Some k1" "pt_is k1 K1"
    using point_mul_is [OF canonical_scalar255 hb(2), of "sc_bytes (le_value c_scalar_1div8 * le_value f)"]
    by (auto simp: K1_def canonical_le_bytes)
  obtain k18 where k18: "ge_mul8_p3 k1 = Some k18" "pt_is k18 (zmul 8 K1)" using point_mul8_is [OF k1(2)] by blast
  obtain b where b: "point_mul c_scalar_1div8 po = Some b" "pt_is b B"
    using point_mul_is [OF canonical_scalar255 [OF c_scalar_1div8_value(1)] PO(1)] by (auto simp: B_def)
  obtain Ws where Ws: "CLSAG_GG_pub_keys a0 a1 po (map gg_ref pts) = Some (Returns Ws)" "list_all2 pt_is Ws (map ?W pts)"
    using gg_pub_keys_is [OF a PO(1)] by blast
  obtain y where y: "point_mul a0 ki = Some y" "pt_is y (zmul (le_value a0) I)"
    using point_mul_is [OF canonical_scalar255 [OF a(1)] ki(2)] by blast
  obtain z where z: "point_mul a1 k18 = Some z" "pt_is z (zmul (le_value a1) (zmul 8 K1))"
    using point_mul_is [OF canonical_scalar255 [OF a(2)] k18(2)] by blast
  obtain KI where KI: "point_add y z = Some KI" "pt_is KI ?K" using point_add_is [OF y(2) z(2)] by blast
  have secret: "sc_mul a0 x = Some (sc_bytes (le_value a0 * le_value x))" "sc_mul a1 f = Some (sc_bytes (le_value a1 * le_value f))"
    "sc_add (sc_bytes (le_value a0 * le_value x)) (sc_bytes (le_value a1 * le_value f)) = Some (sc_bytes w)"
    using a x f by (simp_all add: sc_mul_bytes sc_add_bytes canonical_def w_def canonical_le_bytes mod_simps)
  let ?next = "gg_next h pts ?W ?K r"
  have r: "length r = length pts" "\<forall>r' \<in> set r. canonical r'" by (auto simp: r_def n_def canonical_le_bytes)
  have step: "CLSAG_GG_step h (map gg_ref pts) Ws KI r i c = Some (?next i c) \<and> scalar255 (?next i c)"
    if "i < length pts" "scalar255 c" for i c
    by (rule gg_step_is [OF Ws(2) KI(2) that(1) r(1) _ that(2)]) (use r that in \<open>auto intro: canonical_scalar255\<close>)
  obtain c_s c_0 where walk: "clsag_walk (CLSAG_GG_step h (map gg_ref pts) Ws KI r) (ring_indices n s) c1 [] = Some (c_s, if s = 0 then [] else c_0)"
    and cs: "scalar255 c_s" "scalar255 c_0" and c0: "s = 0 \<Longrightarrow> c_0 = c_s"
    and close: "\<And>next'. (\<And>i c. i < n \<Longrightarrow> i \<noteq> s \<Longrightarrow> next' i c = ?next i c) \<Longrightarrow> next' s c_s = c1 \<Longrightarrow> fold next' [0..<n] c_0 = c_0"
    by (rule clsag_ring_closes [of s n c1 "CLSAG_GG_step h (map gg_ref pts) Ws KI r" ?next "[]"])
      (use s(1) step in \<open>auto simp: n_def c1_def canonical_scalar255\<close>)
  define rs where "rs = sc_bytes (le_value alpha - le_value c_s * w)"
  have rsp: "sc_mul c_s (sc_bytes w) = Some (sc_bytes (le_value c_s * w))" "sc_sub alpha (sc_bytes (le_value c_s * w)) = Some rs"
    using cs al by (simp_all add: sc_mul_bytes sc_sub_bytes canonical_def scalar255_def canonical_le_bytes rs_def mod_simps)
  define sig where "sig = \<lparr>gg_c = c_0, gg_r = r[s := rs], gg_K1 = ed_encode K1\<rparr>"
  have own: "gg_next h pts ?W ?K (gg_r sig) s c_s = c1"
    using commit_response [OF base_order ord, of alpha c_s w] s(1) r(1)
    by (simp add: gg_next_def sig_def W K rs_def c1_def flip: H_def)
  have "fold (gg_next h pts ?W ?K (gg_r sig)) [0..<n] c_0 = c_0"
    by (rule close) (use own in \<open>auto simp: gg_next_def sig_def\<close>)
  then have acc: "gg_accepts m pts B I K1 sig"
    by (simp add: gg_accepts_def Let_def flip: h_def) (simp add: v PO8 sig_def n_def)
  have vec: "make_random_vec (\<lambda>i. draw (Suc i)) n = Some r"
    using make_random_vec_is [of "\<lambda>i. draw (Suc i)" n] draws by (simp add: r_def)
  have ini: "clsag_initial point_g_mul alpha hb = Some (ed_encode (zmul (le_value alpha) ed_base), ed_encode (zmul (le_value alpha) H))"
    by (rule clsag_initial_is [OF gen_G.generator_axioms canonical_scalar255 [OF al] hb(2)])
  have ne: "pts \<noteq> []" using s(1) by auto
  have sa: "stealth_address (map gg_ref pts ! s) = ed_encode (fst (pts ! s))" using s(1) by (simp add: gg_ref_def case_prod_beta)
  have gen: "generate_CLSAG_GG draw m (map gg_ref pts) po (ed_encode I) x f s = Some (Returns sig)"
    using s(1) ne hb(1) ki(1) ip(1) f8 k1(1) k18(1) b(1) Ws(1) y(1) z(1) KI(1) secret ini walk rsp c0 sa vec
    by (simp add: generate_CLSAG_GG_def point_eq_is [OF ki(2) ip(2)] tobytes_Some [OF k1(2)] tobytes_Some [OF b(2)]
        gg_input_hash_is [OF m] random_scalar_bytes draws calc_hash_bytes gg_challenge_def c1_def n_def sig_def Let_def
        flip: h_def a0_def a1_def alpha_def)
  show ?thesis
    by (rule that [OF gen])
    (use s(1) r cs in \<open>auto simp: sig_def rs_def B_def [symmetric] acc [unfolded sig_def rs_def] canonical_scalar255 canonical_le_bytes dest!: set_update_subset_insert [THEN subsetD]\<close>)
qed

section \<open>What CLSAG\_GG guarantees\<close>

lemma hash_multiple: "\<exists>k. zmul x (ed_hash p) = zmul k ed_base"
  unfolding prime_subgroup [symmetric] by (metis ed_hash_order zmul_zero zmul_zmul mult.commute)

text \<open>
  The verifier of a spending signature refuses an empty ring, a wrong number of
  responses and a key image outside the main subgroup; otherwise it accepts exactly if the chain of
  challenges through all members returns to the challenge of the signature.
\<close>

theorem clsag_gg_decides:
  assumes "length m = 32" and "\<forall>r \<in> set (gg_r sig). scalar255 r" and "scalar255 (gg_c sig)" and "gg_K1 sig = ed_encode K1"
  shows "verify_CLSAG_GG m (map gg_ref pts) (ed_encode B) (ed_encode I) sig =
    Some (if pts \<noteq> [] \<and> length (gg_r sig) = length pts \<and> (\<exists>k. I = zmul k ed_base)
          then Returns (gg_accepts m pts B I K1 sig) else Throws)"
proof (cases "pts \<noteq> [] \<and> length (gg_r sig) = length pts")
  case True
  then show ?thesis using verify_CLSAG_GG_is [OF assms(1) _ _ assms(2-4)] by simp
next
  case False
  then consider "pts = []" | "length pts \<noteq> length (gg_r sig)" by auto
  then show ?thesis using False by cases (auto simp: verify_CLSAG_GG_def Let_def)
qed

theorem clsag_gg_decides_witness:
  "verify_CLSAG_GG (replicate 32 1) (map gg_ref [(ed_base, ed_base)]) (ed_encode ed_base) (ed_encode ed_base)
     \<lparr>gg_c = le_bytes 32 5, gg_r = [le_bytes 32 3], gg_K1 = ed_encode ed_base\<rparr> =
   Some (Returns (gg_accepts (replicate 32 1) [(ed_base, ed_base)] ed_base ed_base ed_base
     \<lparr>gg_c = le_bytes 32 5, gg_r = [le_bytes 32 3], gg_K1 = ed_encode ed_base\<rparr>))"
proof -
  have "canonical (le_bytes 32 5)" "canonical (le_bytes 32 3)" by (simp_all add: canonical_def le_value_le_bytes sc_l_def)
  moreover have "\<exists>k. ed_base = zmul k ed_base" by (rule exI [of _ 1]) simp
  ultimately show ?thesis
    using clsag_gg_decides [of "replicate 32 1" "\<lparr>gg_c = le_bytes 32 5, gg_r = [le_bytes 32 3], gg_K1 = ed_encode ed_base\<rparr>"
      ed_base "[(ed_base, ed_base)]" ed_base ed_base] by (simp add: canonical_scalar255)
qed

text \<open>
  C7 (clsag_gg_complete). A spending signature made with the secret of one member's key and the
  difference of its commitment to the pseudo output is accepted, for any ring around it, any position
  in the ring, any message and any random bytes.
\<close>

theorem clsag_gg_complete:
  assumes "\<And>i. length (draw i) = 64" and "length m = 32" and "canonical x" and "canonical f"
    and "s < length pts" and "pts ! s = (zmul (le_value x) ed_base, A)" and "pt_is po PO" and "zmul sc_l PO = 0"
    and "zmul 8 A - PO = zmul (le_value f) ed_base" and "I = zmul (le_value x) (ed_hash (ed_encode (fst (pts ! s))))"
  shows "\<exists>sig. generate_CLSAG_GG draw m (map gg_ref pts) po (ed_encode I) x f s = Some (Returns sig)
    \<and> verify_CLSAG_GG m (map gg_ref pts) (ed_encode (zmul (le_value c_scalar_1div8) PO)) (ed_encode I) sig = Some (Returns True)"
proof -
  have k: "\<exists>k. I = zmul k ed_base" using hash_multiple assms(10) by simp
  have ne: "pts \<noteq> []" using assms(5) by auto
  show ?thesis
    by (rule generate_CLSAG_GG_is [where draw = draw, OF assms]) (use verify_CLSAG_GG_is [OF assms(2) ne] k in auto)
qed

theorem clsag_gg_complete_witness:
  "\<exists>po sig. generate_CLSAG_GG (\<lambda>i. replicate 64 7) (replicate 32 1) (map gg_ref [(zmul 7 ed_base, ed_base), (zmul 5 ed_base, ed_base)]) po
        (ed_encode (zmul 5 (ed_hash (ed_encode (zmul 5 ed_base))))) (le_bytes 32 5) (le_bytes 32 3) 1 = Some (Returns sig)
    \<and> verify_CLSAG_GG (replicate 32 1) (map gg_ref [(zmul 7 ed_base, ed_base), (zmul 5 ed_base, ed_base)])
        (ed_encode (zmul (le_value c_scalar_1div8) (zmul 5 ed_base))) (ed_encode (zmul 5 (ed_hash (ed_encode (zmul 5 ed_base))))) sig
      = Some (Returns True)"
proof -
  have c: "canonical (le_bytes 32 5)" "le_value (le_bytes 32 5) = 5" "canonical (le_bytes 32 3)" "le_value (le_bytes 32 3) = 3"
    by (simp_all add: canonical_def le_value_le_bytes sc_l_def)
  obtain po where po: "pt_is po (zmul 5 ed_base)" by (rule ed_base_p3)
  have o: "zmul sc_l (zmul 5 ed_base) = 0" unfolding prime_subgroup by blast
  have b: "zmul 8 ed_base - zmul 5 ed_base = zmul 3 ed_base" by (simp flip: zmul_sub)
  show ?thesis
    using clsag_gg_complete [OF _ _ c(1,3) _ _ po o, where A = ed_base and s = 1 and m = "replicate 32 1" and draw = "\<lambda>i. replicate 64 7"
      and pts = "[(zmul 7 ed_base, ed_base), (zmul 5 ed_base, ed_base)]" and I = "zmul 5 (ed_hash (ed_encode (zmul 5 ed_base)))"]
    by (auto simp: c b)
qed

end
