(* ===== verification/Clsag_X.thy ===== *)
theory Clsag_X
  imports Clsag
begin

text \<open>
  What the ring signatures with a second generator \<open>X\<close> share (\<^verbatim>\<open>CLSAG_GGX\<close> and \<^verbatim>\<open>CLSAG_GGXXG\<close> of
  \<^verbatim>\<open>src/src/crypto/clsag.cpp\<close>): the loop around the ring with its two responses per member, the signer's end,
  and the checks made only where \<^verbatim>\<open>NDEBUG\<close> is not defined (\<open>debug\<close>). \<open>X\<close> is \<^verbatim>\<open>c_point_X\<close> with its table.
\<close>

section \<open>Operations\<close>

definition debug_check :: "bool \<Rightarrow> bool outcome option \<Rightarrow> 'a outcome option \<Rightarrow> 'a outcome option" where
  "debug_check debug c k = (if debug then outcome_bind c (\<lambda>b. if b then k else Some Throws) else k)"

text \<open>\<^verbatim>\<open>secret * G == W\<close>, for a generator and for a point.\<close>

definition opens :: "(bytes \<Rightarrow> ge_p3 option) \<Rightarrow> bytes \<Rightarrow> ge_p3 \<Rightarrow> bool outcome option" where
  "opens gmul secret W = do {
     L \<leftarrow> gmul secret;
     b \<leftarrow> point_eq L W;
     Some (Returns b) }"

text \<open>\<^verbatim>\<open>secret * G == 8 * point_t(commitment) - pseudo_out\<close>\<close>

definition opens_difference :: "(bytes \<Rightarrow> ge_p3 option) \<Rightarrow> bytes \<Rightarrow> bytes \<Rightarrow> ge_p3 \<Rightarrow> bool outcome option" where
  "opens_difference gmul secret commitment pseudo_out = outcome_bind (point_t commitment) (\<lambda>A. do {
     A8 \<leftarrow> point_mul (scalar_of_uint 8) A;
     d \<leftarrow> point_sub A8 pseudo_out;
     opens gmul secret d })"

text \<open>An auxiliary key image, as it is published and as it is used.\<close>

definition aux_image :: "bytes \<Rightarrow> ge_p3 \<Rightarrow> (bytes \<times> ge_p3) option" where
  "aux_image secret ki_base = do {
     s \<leftarrow> sc_mul c_scalar_1div8 secret;
     K_div8 \<leftarrow> point_mul s ki_base;
     sig_K \<leftarrow> ge_p3_tobytes K_div8;
     K \<leftarrow> ge_mul8_p3 K_div8;
     Some (sig_K, K) }"

definition point_t_mul8 :: "bytes \<Rightarrow> ge_p3 outcome option" where
  "point_t_mul8 pk = outcome_bind (point_t pk) (\<lambda>P. do { P \<leftarrow> ge_mul8_p3 P; Some (Returns P) })"

text \<open>The loops that convert the members of the ring.\<close>

fun outcome_map :: "('a \<Rightarrow> 'b outcome option) \<Rightarrow> 'a list \<Rightarrow> 'b list outcome option" where
  "outcome_map f [] = Some (Returns [])"
| "outcome_map f (x # xs) = outcome_bind (f x) (\<lambda>y. outcome_bind (outcome_map f xs) (\<lambda>ys. Some (Returns (y # ys))))"

definition clsag_input_hash :: "bytes \<Rightarrow> bytes list \<Rightarrow> bytes option" where
  "clsag_input_hash m items = do { ms \<leftarrow> scalar_of_hash m; Some (calc_hash_no_reduce (ms # items)) }"

definition clsag_x_step ::
  "point_pc_t \<Rightarrow> bytes \<Rightarrow> bytes \<Rightarrow> bytes list \<Rightarrow> ge_p3 list \<Rightarrow> ge_p3 list \<Rightarrow> ge_p3 \<Rightarrow> ge_p3 \<Rightarrow> bytes list \<Rightarrow> bytes list \<Rightarrow>
   nat \<Rightarrow> bytes \<Rightarrow> bytes option" where
  "clsag_x_step X challenge input_hash addresses W_pub_keys_g W_pub_keys_x W_key_image_g W_key_image_x r_g r_x i c_prev = do {
     sa \<leftarrow> idx addresses i;
     Wg \<leftarrow> idx W_pub_keys_g i;
     Wx \<leftarrow> idx W_pub_keys_x i;
     rg \<leftarrow> idx r_g i;
     rx \<leftarrow> idx r_x i;
     (a, b) \<leftarrow> clsag_commit point_g_mul rg c_prev Wg sa W_key_image_g;
     (a', b') \<leftarrow> clsag_commit (\<lambda>s. point_pc_mul s X) rx c_prev Wx sa W_key_image_x;
     calc_hash [challenge, input_hash, a, b, a', b'] }"

text \<open>The signer's end: commitments, the walk around the ring and the two responses of its own member.\<close>

definition clsag_x_sign ::
  "point_pc_t \<Rightarrow> (nat \<Rightarrow> bytes) \<Rightarrow> bytes \<Rightarrow> bytes \<Rightarrow> bytes list \<Rightarrow> ge_p3 list \<Rightarrow> ge_p3 list \<Rightarrow> ge_p3 \<Rightarrow> ge_p3 \<Rightarrow> bytes \<Rightarrow> bytes \<Rightarrow>
   ge_p3 \<Rightarrow> nat \<Rightarrow> (bytes \<times> bytes list \<times> bytes list) option" where
  "clsag_x_sign X draw challenge input_hash addresses W_pub_keys_g W_pub_keys_x W_key_image_g W_key_image_x w_sec_key_g w_sec_key_x
      ki_base secret_index =
     (let ring_size = length addresses in do {
        alpha_g \<leftarrow> random_scalar_no_lock (draw 0);
        alpha_x \<leftarrow> random_scalar_no_lock (draw 1);
        (a, b) \<leftarrow> clsag_initial point_g_mul alpha_g ki_base;
        (a', b') \<leftarrow> clsag_initial (\<lambda>s. point_pc_mul s X) alpha_x ki_base;
        c_prev \<leftarrow> calc_hash [challenge, input_hash, a, b, a', b'];
        r_g \<leftarrow> make_random_vec (\<lambda>i. draw (2 + i)) ring_size;
        r_x \<leftarrow> make_random_vec (\<lambda>i. draw (2 + ring_size + i)) ring_size;
        (c_prev, c) \<leftarrow> clsag_walk
          (clsag_x_step X challenge input_hash addresses W_pub_keys_g W_pub_keys_x W_key_image_g W_key_image_x r_g r_x)
          (ring_indices ring_size secret_index) c_prev [];
        g \<leftarrow> sc_mul c_prev w_sec_key_g;
        g \<leftarrow> sc_sub alpha_g g;
        x \<leftarrow> sc_mul c_prev w_sec_key_x;
        x \<leftarrow> sc_sub alpha_x x;
        Some (if secret_index = 0 then c_prev else c, r_g[secret_index := g], r_x[secret_index := x]) })"


section \<open>On the group\<close>

definition x_next ::
  "ed_point \<Rightarrow> bytes \<Rightarrow> bytes \<Rightarrow> ed_point list \<Rightarrow> ed_point list \<Rightarrow> ed_point list \<Rightarrow> ed_point \<Rightarrow> ed_point \<Rightarrow> bytes list \<Rightarrow> bytes list \<Rightarrow>
   nat \<Rightarrow> bytes \<Rightarrow> bytes" where
  "x_next g challenge h Ps Wg Wx Kg Kx r_g r_x i c =
     (let (a, b) = commit_of ed_base (r_g ! i) c (Wg ! i) (ed_hash (ed_encode (Ps ! i))) Kg;
          (a', b') = commit_of g (r_x ! i) c (Wx ! i) (ed_hash (ed_encode (Ps ! i))) Kx
      in hash_scalar (challenge @ h @ a @ b @ a' @ b'))"

lemma x_next_canonical [simp]: "canonical (x_next g challenge h Ps Wg Wx Kg Kx r_g r_x i c)"
  by (simp add: x_next_def case_prod_beta Let_def)

lemma outcome_map_is:
  assumes "\<And>x. x \<in> set xs \<Longrightarrow> \<exists>y. f (e x) = Some (Returns y) \<and> R y x"
  shows "\<exists>ys. outcome_map f (map e xs) = Some (Returns ys) \<and> list_all2 R ys xs"
  using assms
proof (induction xs)
  case (Cons x xs)
  then obtain y ys where "f (e x) = Some (Returns y)" "R y x" "outcome_map f (map e xs) = Some (Returns ys)" "list_all2 R ys xs"
    by (meson list.set_intros)
  then show ?case by simp
qed simp

lemma debug_check_True: "c = Some (Returns True) \<Longrightarrow> debug_check debug c k = k"
  by (simp add: debug_check_def)

lemma point_t_mul8_is: "\<exists>P. point_t_mul8 (ed_encode g) = Some (Returns P) \<and> pt_is P (zmul 8 g)"
  using point_t_encode [of g] point_mul8_is by (fastforce simp: point_t_mul8_def)

lemma aux_image_is:
  assumes "canonical s" and "pt_is B H" and "zmul sc_l H = 0"
  shows "\<exists>K. aux_image s B = Some (ed_encode (zmul (le_value c_scalar_1div8 * le_value s mod sc_l) H), K) \<and> pt_is K (zmul (le_value s) H)"
proof -
  let ?s = "sc_bytes (le_value c_scalar_1div8 * le_value s)"
  obtain K where K: "point_mul ?s B = Some K" "pt_is K (zmul (le_value c_scalar_1div8 * le_value s mod sc_l) H)"
    using point_mul_is [OF canonical_scalar255 [OF canonical_le_bytes(1)] assms(2)] by (auto simp: canonical_le_bytes)
  have "sc_mul c_scalar_1div8 s = Some ?s" using assms(1) c_scalar_1div8_value(1) by (simp add: sc_mul_bytes canonical_def)
  then show ?thesis
    using K(1) point_mul8_is [OF K(2)] eighth_mod [OF assms(3)] by (auto simp: aux_image_def tobytes_Some [OF K(2)])
qed

lemma opens_is:
  assumes "generator gmul g" and "canonical s" and "pt_is W (zmul (le_value s) g)"
  shows "opens gmul s W = Some (Returns True)"
proof -
  obtain L where L: "gmul s = Some L" "pt_is L (zmul (le_value s) g)"
    using generator.mult [OF assms(1) canonical_scalar255 [OF assms(2)]] by blast
  then show ?thesis by (simp add: opens_def point_eq_is [OF L(2) assms(3)])
qed

text \<open>A point whose order divides \<open>l\<close> is a generator in the sense of the locale, multiplied as any point is.\<close>

lemma generator_point: "pt_is P g \<Longrightarrow> zmul sc_l g = 0 \<Longrightarrow> generator (\<lambda>a. point_mul a P) g"
  by unfold_locales (simp_all add: point_mul_is)

lemma opens_difference_is:
  assumes "generator gmul g" and "canonical s" and "pt_is po PO" and "zmul 8 A - PO = zmul (le_value s) g"
  shows "opens_difference gmul s (ed_encode A) po = Some (Returns True)"
proof -
  have e: "le_value (scalar_of_uint 8) = 8" by (simp add: scalar_of_uint_value)
  show ?thesis
    unfolding opens_difference_def
    by (rule point_t_bind, rule point_mul_bind [OF canonical_scalar255 [OF scalar_of_uint_value(1)]], assumption,
        rule point_sub_bind [OF _ assms(3)], assumption, rule opens_is [OF assms(1,2)]) (simp add: e assms(4))
qed

lemma clsag_input_hash_is:
  "length m = 32 \<Longrightarrow> clsag_input_hash m items = Some (cn_fast_hash (sc_bytes (le_value m) @ concat items))"
  by (simp add: clsag_input_hash_def scalar_of_hash_bytes calc_hash_no_reduce_def)

lemma x_step_is:
  assumes X: "table_of ed_coords (pc_data X) g" "zmul sc_l g = 0"
    and W: "list_all2 pt_is Wg wg" "list_all2 pt_is Wx wx" "length wg = length Ps" "length wx = length Ps"
    and K: "pt_is Kg kg" "pt_is Kx kx" and i: "i < length Ps"
    and r: "length r_g = length Ps" "length r_x = length Ps" "scalar255 (r_g ! i)" "scalar255 (r_x ! i)" and c: "scalar255 c"
  shows "clsag_x_step X challenge h (map ed_encode Ps) Wg Wx Kg Kx r_g r_x i c = Some (x_next g challenge h Ps wg wx kg kx r_g r_x i c)
    \<and> scalar255 (x_next g challenge h Ps wg wx kg kx r_g r_x i c)"
proof -
  have w: "pt_is (Wg ! i) (wg ! i)" "pt_is (Wx ! i) (wx ! i)" and l: "length Wg = length Ps" "length Wx = length Ps"
    using W i by (auto simp: list_all2_conv_all_nth)
  have "clsag_commit point_g_mul (r_g ! i) c (Wg ! i) (ed_encode (Ps ! i)) Kg
      = Some (commit_of ed_base (r_g ! i) c (wg ! i) (ed_hash (ed_encode (Ps ! i))) kg)"
    by (rule clsag_commit_is [OF gen_G.generator_axioms r(3) c w(1) K(1)]) simp
  moreover have "clsag_commit (\<lambda>s. point_pc_mul s X) (r_x ! i) c (Wx ! i) (ed_encode (Ps ! i)) Kx
      = Some (commit_of g (r_x ! i) c (wx ! i) (ed_hash (ed_encode (Ps ! i))) kx)"
    by (rule clsag_commit_is [OF generator_pc [OF X] r(4) c w(2) K(2)]) simp
  ultimately show ?thesis
    using i l r by (simp add: clsag_x_step_def idx_Some x_next_def calc_hash_bytes case_prod_beta Let_def canonical_scalar255)
qed

lemma x_chain_is:
  assumes "table_of ed_coords (pc_data X) g" "zmul sc_l g = 0"
    and "list_all2 pt_is Wg wg" "list_all2 pt_is Wx wx" "length wg = length Ps" "length wx = length Ps"
    and "pt_is Kg kg" "pt_is Kx kx"
    and r: "length r_g = length Ps" "length r_x = length Ps" "\<forall>r \<in> set r_g \<union> set r_x. scalar255 r" and c: "scalar255 c"
  shows "clsag_chain (clsag_x_step X challenge h (map ed_encode Ps) Wg Wx Kg Kx r_g r_x) [0..<length Ps] c
    = Some (fold (x_next g challenge h Ps wg wx kg kx r_g r_x) [0..<length Ps] c)"
proof -
  have "clsag_x_step X challenge h (map ed_encode Ps) Wg Wx Kg Kx r_g r_x i c = Some (x_next g challenge h Ps wg wx kg kx r_g r_x i c)
    \<and> scalar255 (x_next g challenge h Ps wg wx kg kx r_g r_x i c)" if "i \<in> set [0..<length Ps]" "scalar255 c" for i c
    by (rule x_step_is [OF assms(1-8)]) (use that r in auto)
  then show ?thesis using clsag_chain_is c by blast
qed

text \<open>
  The signer's end closes the ring, when its secrets open the aggregate keys of its own member and the
  aggregate key images.
\<close>

lemma x_sign_is:
  assumes draws: "\<And>i. length (draw i) = 64"
    and X: "table_of ed_coords (pc_data X) g" "zmul sc_l g = 0"
    and W: "list_all2 pt_is Wg wg" "list_all2 pt_is Wx wx" "length wg = length Ps" "length wx = length Ps"
    and K: "pt_is Kg (zmul (le_value sg) H)" "pt_is Kx (zmul (le_value sx) H)"
    and B: "pt_is B H" and H: "H = ed_hash (ed_encode (Ps ! s))" and s: "s < length Ps"
    and own: "wg ! s = zmul (le_value sg) ed_base" "wx ! s = zmul (le_value sx) g" and sec: "canonical sg" "canonical sx"
  obtains c r_g r_x where "clsag_x_sign X draw challenge h (map ed_encode Ps) Wg Wx Kg Kx sg sx B s = Some (c, r_g, r_x)"
    and "length r_g = length Ps" and "length r_x = length Ps" and "\<forall>r \<in> set r_g \<union> set r_x. scalar255 r" and "scalar255 c"
    and "fold (x_next g challenge h Ps wg wx (zmul (le_value sg) H) (zmul (le_value sx) H) r_g r_x) [0..<length Ps] c = c"
proof -
  define n where "n = length Ps"
  define ag where "ag = sc_bytes (le_value (draw 0))"
  define ax where "ax = sc_bytes (le_value (draw 1))"
  define r where "r = map (\<lambda>i. sc_bytes (le_value (draw (2 + i)))) [0..<n]"
  define q where "q = map (\<lambda>i. sc_bytes (le_value (draw (2 + n + i)))) [0..<n]"
  have al: "canonical ag" "canonical ax" by (simp_all add: ag_def ax_def canonical_le_bytes)
  have ord: "zmul sc_l H = 0" unfolding H by (rule ed_hash_order)
  define c1 where "c1 = hash_scalar (challenge @ h @ ed_encode (zmul (le_value ag) ed_base) @ ed_encode (zmul (le_value ag) H)
    @ ed_encode (zmul (le_value ax) g) @ ed_encode (zmul (le_value ax) H))"
  let ?next = "x_next g challenge h Ps wg wx (zmul (le_value sg) H) (zmul (le_value sx) H)"
  let ?step = "clsag_x_step X challenge h (map ed_encode Ps) Wg Wx Kg Kx r q"
  have rq: "length r = length Ps" "length q = length Ps" "\<forall>r' \<in> set r \<union> set q. scalar255 r'"
    by (auto simp: r_def q_def n_def canonical_le_bytes canonical_scalar255)
  have step: "?step i c = Some (?next r q i c) \<and> scalar255 (?next r q i c)" if "i < length Ps" "scalar255 c" for i c
    by (rule x_step_is [OF X W K that(1)]) (use rq that in auto)
  obtain c_s c_0 where walk: "clsag_walk ?step (ring_indices n s) c1 [] = Some (c_s, if s = 0 then [] else c_0)"
    and cs: "scalar255 c_s" "scalar255 c_0" and c0: "s = 0 \<Longrightarrow> c_0 = c_s"
    and close: "\<And>next'. (\<And>i c. i < n \<Longrightarrow> i \<noteq> s \<Longrightarrow> next' i c = ?next r q i c) \<Longrightarrow> next' s c_s = c1 \<Longrightarrow> fold next' [0..<n] c_0 = c_0"
    by (rule clsag_ring_closes [of s n c1 ?step "?next r q" "[]"])
      (use s step in \<open>auto simp: n_def c1_def canonical_scalar255\<close>)
  define rg where "rg = sc_bytes (le_value ag - le_value c_s * le_value sg)"
  define rx where "rx = sc_bytes (le_value ax - le_value c_s * le_value sx)"
  have rsp: "sc_mul c_s sg = Some (sc_bytes (le_value c_s * le_value sg))" "sc_sub ag (sc_bytes (le_value c_s * le_value sg)) = Some rg"
    "sc_mul c_s sx = Some (sc_bytes (le_value c_s * le_value sx))" "sc_sub ax (sc_bytes (le_value c_s * le_value sx)) = Some rx"
    using cs al sec by (simp_all add: sc_mul_bytes sc_sub_bytes canonical_def scalar255_def canonical_le_bytes rg_def rx_def mod_simps)
  have own: "?next (r[s := rg]) (q[s := rx]) s c_s = c1"
    using commit_response [OF base_order ord, of ag c_s "le_value sg"] commit_response [OF X(2) ord, of ax c_s "le_value sx"] s rq own
    by (simp add: x_next_def c1_def rg_def rx_def flip: H)
  have fin: "fold (?next (r[s := rg]) (q[s := rx])) [0..<length Ps] c_0 = c_0"
    unfolding n_def [symmetric] by (rule close) (use own in \<open>auto simp: x_next_def\<close>)
  have vec: "make_random_vec (\<lambda>i. draw (2 + i)) n = Some r" "make_random_vec (\<lambda>i. draw (2 + n + i)) n = Some q"
    unfolding r_def q_def by (rule make_random_vec_is, rule draws)+
  have ini: "clsag_initial point_g_mul ag B = Some (ed_encode (zmul (le_value ag) ed_base), ed_encode (zmul (le_value ag) H))"
    "clsag_initial (\<lambda>s. point_pc_mul s X) ax B = Some (ed_encode (zmul (le_value ax) g), ed_encode (zmul (le_value ax) H))"
    by (rule clsag_initial_is [OF gen_G.generator_axioms canonical_scalar255 [OF al(1)] B],
        rule clsag_initial_is [OF generator_pc [OF X] canonical_scalar255 [OF al(2)] B])
  have rnd: "random_scalar_no_lock (draw 0) = Some ag" "random_scalar_no_lock (draw 1) = Some ax"
    by (simp_all add: random_scalar_bytes draws ag_def ax_def)
  have ch: "calc_hash [challenge, h, ed_encode (zmul (le_value ag) ed_base), ed_encode (zmul (le_value ag) H),
      ed_encode (zmul (le_value ax) g), ed_encode (zmul (le_value ax) H)] = Some c1" by (simp add: calc_hash_bytes c1_def)
  have gen: "clsag_x_sign X draw challenge h (map ed_encode Ps) Wg Wx Kg Kx sg sx B s = Some (c_0, r[s := rg], q[s := rx])"
    unfolding clsag_x_sign_def Let_def length_map n_def [symmetric] rnd bind.bind_lunit ini case_prod_conv ch vec walk rsp
    using c0 by simp
  have sc: "\<forall>r' \<in> set (r[s := rg]) \<union> set (q[s := rx]). scalar255 r'"
    using rq(3) set_update_subset_insert [of r s rg] set_update_subset_insert [of q s rx]
    by (auto simp: rg_def rx_def canonical_le_bytes canonical_scalar255)
  show ?thesis by (rule that [OF gen _ _ sc cs(2) fin]) (simp_all add: rq)
qed

end
