(* ===== verification/Clsag_GGX.thy ===== *)
theory Clsag_GGX
  imports Clsag_X
begin

text \<open>
  The signature that spends an output with a hidden amount and a hidden asset: two layers over \<open>G\<close> and one over
  \<open>X\<close> (\<^verbatim>\<open>generate_CLSAG_GGX\<close> and \<^verbatim>\<open>verify_CLSAG_GGX\<close> of \<^verbatim>\<open>src/src/crypto/clsag.cpp\<close>).
\<close>

section \<open>Operations\<close>

record CLSAG_GGX_input_ref = CLSAG_GG_input_ref +
  blinded_asset_id :: bytes

record CLSAG_GGX_signature =
  ggx_c :: bytes
  ggx_r_g :: "bytes list"
  ggx_r_x :: "bytes list"
  ggx_K1 :: bytes
  ggx_K2 :: bytes

definition CRYPTO_HDS_CLSAG_GGX_LAYER_0 :: bytes where
  "CRYPTO_HDS_CLSAG_GGX_LAYER_0 = chars32 ''ZANO_HDS_CLSAG_GGX_LAYER_ZERO__''"

definition CRYPTO_HDS_CLSAG_GGX_LAYER_1 :: bytes where
  "CRYPTO_HDS_CLSAG_GGX_LAYER_1 = chars32 ''ZANO_HDS_CLSAG_GGX_LAYER_ONE___''"

definition CRYPTO_HDS_CLSAG_GGX_LAYER_2 :: bytes where
  "CRYPTO_HDS_CLSAG_GGX_LAYER_2 = chars32 ''ZANO_HDS_CLSAG_GGX_LAYER_TWO___''"

definition CRYPTO_HDS_CLSAG_GGX_CHALLENGE :: bytes where
  "CRYPTO_HDS_CLSAG_GGX_CHALLENGE = chars32 ''ZANO_HDS_CLSAG_GGX_CHALLENGE___''"

definition CLSAG_GGX_input_hash ::
  "bytes \<Rightarrow> CLSAG_GGX_input_ref list \<Rightarrow> bytes \<Rightarrow> bytes \<Rightarrow> bytes \<Rightarrow> bytes \<Rightarrow> bytes \<Rightarrow> bytes option" where
  "CLSAG_GGX_input_hash m ring pseudo_out_amount_commitment pseudo_out_blinded_asset_id ki K1 K2 =
     clsag_input_hash m (concat (map (\<lambda>e. [stealth_address e, amount_commitment e, blinded_asset_id e]) ring)
       @ [pseudo_out_amount_commitment, pseudo_out_blinded_asset_id, ki, K1, K2])"

text \<open>The aggregate keys of one member: what the three loops over the ring make of it.\<close>

definition CLSAG_GGX_keys ::
  "bytes \<Rightarrow> bytes \<Rightarrow> bytes \<Rightarrow> ge_p3 \<Rightarrow> ge_p3 \<Rightarrow> CLSAG_GGX_input_ref \<Rightarrow> (ge_p3 \<times> ge_p3) outcome option" where
  "CLSAG_GGX_keys agg_coeff_0 agg_coeff_1 agg_coeff_2 po pa e =
     outcome_bind (point_t_mul8 (amount_commitment e)) (\<lambda>A.
     outcome_bind (point_t_mul8 (blinded_asset_id e)) (\<lambda>Q.
     outcome_bind (point_t (stealth_address e)) (\<lambda>P. do {
       aP \<leftarrow> point_mul agg_coeff_0 P;
       d \<leftarrow> point_sub A po;
       ad \<leftarrow> point_mul agg_coeff_1 d;
       W_g \<leftarrow> point_add aP ad;
       d \<leftarrow> point_sub Q pa;
       W_x \<leftarrow> point_mul agg_coeff_2 d;
       Some (Returns (W_g, W_x)) })))"

definition generate_CLSAG_GGX ::
  "point_pc_t \<Rightarrow> bool \<Rightarrow> (nat \<Rightarrow> bytes) \<Rightarrow> bytes \<Rightarrow> CLSAG_GGX_input_ref list \<Rightarrow> ge_p3 \<Rightarrow> ge_p3 \<Rightarrow> bytes \<Rightarrow> bytes \<Rightarrow> bytes \<Rightarrow> bytes \<Rightarrow> nat \<Rightarrow>
   CLSAG_GGX_signature outcome option" where
  "generate_CLSAG_GGX X debug draw m ring po pa ki secret_0_xp secret_1_f secret_2_t secret_index =
     (let ring_size = length ring in
      if \<not> ring_size > 0 then Some Throws
      else if \<not> secret_index < ring_size then Some Throws
      else let own = ring ! secret_index in do {
        ki_base \<leftarrow> hp (stealth_address own);
        key_image \<leftarrow> point_mul secret_0_xp ki_base;
        debug_check debug (outcome_bind (point_t ki) (\<lambda>p. do { b \<leftarrow> point_eq key_image p; Some (Returns b) })) (
        debug_check debug (do { P \<leftarrow> point_g_mul secret_0_xp; P \<leftarrow> ge_p3_tobytes P; Some (Returns (P = stealth_address own)) }) (
        debug_check debug (opens_difference point_g_mul secret_1_f (amount_commitment own) po) (
        debug_check debug (opens_difference (\<lambda>s. point_pc_mul s X) secret_2_t (blinded_asset_id own) pa) (do {
          (sig_K1, K1) \<leftarrow> aux_image secret_1_f ki_base;
          (sig_K2, K2) \<leftarrow> aux_image secret_2_t ki_base;
          po8 \<leftarrow> point_mul c_scalar_1div8 po;
          po_bytes \<leftarrow> ge_p3_tobytes po8;
          pa8 \<leftarrow> point_mul c_scalar_1div8 pa;
          pa_bytes \<leftarrow> ge_p3_tobytes pa8;
          input_hash \<leftarrow> CLSAG_GGX_input_hash m ring po_bytes pa_bytes ki sig_K1 sig_K2;
          agg_coeff_0 \<leftarrow> calc_hash [CRYPTO_HDS_CLSAG_GGX_LAYER_0, input_hash];
          agg_coeff_1 \<leftarrow> calc_hash [CRYPTO_HDS_CLSAG_GGX_LAYER_1, input_hash];
          agg_coeff_2 \<leftarrow> calc_hash [CRYPTO_HDS_CLSAG_GGX_LAYER_2, input_hash];
          outcome_bind (outcome_map (CLSAG_GGX_keys agg_coeff_0 agg_coeff_1 agg_coeff_2 po pa) ring) (\<lambda>W_pub_keys. do {
            ax \<leftarrow> sc_mul agg_coeff_0 secret_0_xp;
            af \<leftarrow> sc_mul agg_coeff_1 secret_1_f;
            w_sec_key_g \<leftarrow> sc_add ax af;
            w_sec_key_x \<leftarrow> sc_mul agg_coeff_2 secret_2_t;
            aK \<leftarrow> point_mul agg_coeff_0 key_image;
            aK1 \<leftarrow> point_mul agg_coeff_1 K1;
            W_key_image_g \<leftarrow> point_add aK aK1;
            W_key_image_x \<leftarrow> point_mul agg_coeff_2 K2;
            (W_g, W_x) \<leftarrow> idx W_pub_keys secret_index;
            debug_check debug (opens point_g_mul w_sec_key_g W_g) (
            debug_check debug (opens (\<lambda>s. point_mul s ki_base) w_sec_key_g W_key_image_g) (
            debug_check debug (opens (\<lambda>s. point_pc_mul s X) w_sec_key_x W_x) (
            debug_check debug (opens (\<lambda>s. point_mul s ki_base) w_sec_key_x W_key_image_x) (do {
              (c, r_g, r_x) \<leftarrow> clsag_x_sign X draw CRYPTO_HDS_CLSAG_GGX_CHALLENGE input_hash (map stealth_address ring)
                (map fst W_pub_keys) (map snd W_pub_keys) W_key_image_g W_key_image_x w_sec_key_g w_sec_key_x ki_base secret_index;
              Some (Returns \<lparr>ggx_c = c, ggx_r_g = r_g, ggx_r_x = r_x, ggx_K1 = sig_K1, ggx_K2 = sig_K2\<rparr>) })))) }) })))) })"

definition verify_CLSAG_GGX ::
  "point_pc_t \<Rightarrow> bytes \<Rightarrow> CLSAG_GGX_input_ref list \<Rightarrow> bytes \<Rightarrow> bytes \<Rightarrow> bytes \<Rightarrow> CLSAG_GGX_signature \<Rightarrow> bool outcome option" where
  "verify_CLSAG_GGX X m ring pseudo_out_amount_commitment pseudo_out_blinded_asset_id ki sig =
     (let ring_size = length ring in
      if \<not> ring_size > 0 then Some Throws
      else if ring_size \<noteq> length (ggx_r_g sig) then Some Throws
      else if ring_size \<noteq> length (ggx_r_x sig) then Some Throws
      else outcome_bind (point_t ki) (\<lambda>key_image. do {
        main \<leftarrow> is_in_main_subgroup key_image;
        if \<not> main then Some Throws
        else
          outcome_bind (point_t_mul8 pseudo_out_amount_commitment) (\<lambda>po.
          outcome_bind (point_t_mul8 pseudo_out_blinded_asset_id) (\<lambda>pa. do {
            input_hash \<leftarrow> CLSAG_GGX_input_hash m ring pseudo_out_amount_commitment pseudo_out_blinded_asset_id ki (ggx_K1 sig) (ggx_K2 sig);
            agg_coeff_0 \<leftarrow> calc_hash [CRYPTO_HDS_CLSAG_GGX_LAYER_0, input_hash];
            agg_coeff_1 \<leftarrow> calc_hash [CRYPTO_HDS_CLSAG_GGX_LAYER_1, input_hash];
            agg_coeff_2 \<leftarrow> calc_hash [CRYPTO_HDS_CLSAG_GGX_LAYER_2, input_hash];
            outcome_bind (outcome_map (CLSAG_GGX_keys agg_coeff_0 agg_coeff_1 agg_coeff_2 po pa) ring) (\<lambda>W_pub_keys.
            outcome_bind (point_t_mul8 (ggx_K1 sig)) (\<lambda>K1. do {
              aK \<leftarrow> point_mul agg_coeff_0 key_image;
              aK1 \<leftarrow> point_mul agg_coeff_1 K1;
              W_key_image_g \<leftarrow> point_add aK aK1;
              outcome_bind (point_t_mul8 (ggx_K2 sig)) (\<lambda>K2. do {
                W_key_image_x \<leftarrow> point_mul agg_coeff_2 K2;
                c_prev \<leftarrow> clsag_chain (clsag_x_step X CRYPTO_HDS_CLSAG_GGX_CHALLENGE input_hash (map stealth_address ring)
                  (map fst W_pub_keys) (map snd W_pub_keys) W_key_image_g W_key_image_x (ggx_r_g sig) (ggx_r_x sig)) [0..<ring_size] (ggx_c sig);
                Some (Returns (c_prev = ggx_c sig)) }) })) })) }))"


section \<open>On the group\<close>

text \<open>A member of the ring as its points: the address, an eighth of the commitment and of the asset's point.\<close>

type_synonym ggx_member = "ed_point \<times> ed_point \<times> ed_point"

definition ggx_ref :: "ggx_member \<Rightarrow> CLSAG_GGX_input_ref" where
  "ggx_ref = (\<lambda>(P, A, Q). \<lparr>stealth_address = ed_encode P, amount_commitment = ed_encode A, blinded_asset_id = ed_encode Q\<rparr>)"

definition ggx_hash :: "bytes \<Rightarrow> ggx_member list \<Rightarrow> ed_point \<Rightarrow> ed_point \<Rightarrow> ed_point \<Rightarrow> ed_point \<Rightarrow> ed_point \<Rightarrow> bytes" where
  "ggx_hash m pts B T I K1 K2 = cn_fast_hash (sc_bytes (le_value m) @ concat (map (\<lambda>(P, A, Q). ed_encode P @ ed_encode A @ ed_encode Q) pts)
     @ ed_encode B @ ed_encode T @ ed_encode I @ ed_encode K1 @ ed_encode K2)"

definition ggx_key :: "int \<Rightarrow> int \<Rightarrow> int \<Rightarrow> ed_point \<Rightarrow> ed_point \<Rightarrow> ggx_member \<Rightarrow> ed_point \<times> ed_point" where
  "ggx_key a0 a1 a2 B T = (\<lambda>(P, A, Q). (zmul a0 P + zmul a1 (zmul 8 A - B), zmul a2 (zmul 8 Q - T)))"

definition ggx_accepts ::
  "ed_point \<Rightarrow> bytes \<Rightarrow> ggx_member list \<Rightarrow> ed_point \<Rightarrow> ed_point \<Rightarrow> ed_point \<Rightarrow> ed_point \<Rightarrow> ed_point \<Rightarrow> CLSAG_GGX_signature \<Rightarrow> bool" where
  "ggx_accepts g m pts B T I K1 K2 sig \<longleftrightarrow>
     (let h = ggx_hash m pts B T I K1 K2;
          a0 = agg_coeff CRYPTO_HDS_CLSAG_GGX_LAYER_0 h;
          a1 = agg_coeff CRYPTO_HDS_CLSAG_GGX_LAYER_1 h;
          a2 = agg_coeff CRYPTO_HDS_CLSAG_GGX_LAYER_2 h;
          W = map (ggx_key a0 a1 a2 (zmul 8 B) (zmul 8 T)) pts
      in fold (x_next g CRYPTO_HDS_CLSAG_GGX_CHALLENGE h (map fst pts) (map fst W) (map snd W)
           (zmul a0 I + zmul a1 (zmul 8 K1)) (zmul a2 (zmul 8 K2)) (ggx_r_g sig) (ggx_r_x sig)) [0..<length pts] (ggx_c sig) = ggx_c sig)"

lemma ggx_input_hash_is:
  "length m = 32 \<Longrightarrow> CLSAG_GGX_input_hash m (map ggx_ref pts) (ed_encode B) (ed_encode T) (ed_encode I) (ed_encode K1) (ed_encode K2)
    = Some (ggx_hash m pts B T I K1 K2)"
  by (simp add: CLSAG_GGX_input_hash_def clsag_input_hash_is ggx_hash_def ggx_ref_def comp_def case_prod_unfold concat_concat)

lemma ggx_addresses: "map stealth_address (map ggx_ref pts) = map ed_encode (map fst pts)"
  by (simp add: ggx_ref_def comp_def case_prod_unfold)

lemma ggx_keys_is:
  assumes "canonical a0" and "canonical a1" and "canonical a2" and "pt_is po B" and "pt_is pa T"
  shows "\<exists>W. CLSAG_GGX_keys a0 a1 a2 po pa (ggx_ref p) = Some (Returns W)
    \<and> pt_is (fst W) (fst (ggx_key (le_value a0) (le_value a1) (le_value a2) B T p))
    \<and> pt_is (snd W) (snd (ggx_key (le_value a0) (le_value a1) (le_value a2) B T p))"
proof -
  obtain P A Q where p: "p = (P, A, Q)" by (cases p)
  obtain P' where P': "point_t (ed_encode P) = Some (Returns P')" "pt_is P' P" using point_t_encode by blast
  obtain A' where A': "point_t_mul8 (ed_encode A) = Some (Returns A')" "pt_is A' (zmul 8 A)" using point_t_mul8_is by blast
  obtain Q' where Q': "point_t_mul8 (ed_encode Q) = Some (Returns Q')" "pt_is Q' (zmul 8 Q)" using point_t_mul8_is by blast
  obtain x where x: "point_mul a0 P' = Some x" "pt_is x (zmul (le_value a0) P)"
    using point_mul_is [OF canonical_scalar255 [OF assms(1)] P'(2)] by blast
  obtain d where d: "point_sub A' po = Some d" "pt_is d (zmul 8 A - B)" using point_sub_is [OF A'(2) assms(4)] by blast
  obtain y where y: "point_mul a1 d = Some y" "pt_is y (zmul (le_value a1) (zmul 8 A - B))"
    using point_mul_is [OF canonical_scalar255 [OF assms(2)] d(2)] by blast
  obtain w where w: "point_add x y = Some w" "pt_is w (zmul (le_value a0) P + zmul (le_value a1) (zmul 8 A - B))"
    using point_add_is [OF x(2) y(2)] by blast
  obtain e where e: "point_sub Q' pa = Some e" "pt_is e (zmul 8 Q - T)" using point_sub_is [OF Q'(2) assms(5)] by blast
  obtain v where v: "point_mul a2 e = Some v" "pt_is v (zmul (le_value a2) (zmul 8 Q - T))"
    using point_mul_is [OF canonical_scalar255 [OF assms(3)] e(2)] by blast
  show ?thesis
    using P'(1) A'(1) Q'(1) x(1) d(1) y(1) w e(1) v by (simp add: CLSAG_GGX_keys_def ggx_ref_def p ggx_key_def)
qed

lemma ggx_all_keys_is:
  fixes pts :: "ggx_member list"
  assumes "canonical a0" and "canonical a1" and "canonical a2" and "pt_is po B" and "pt_is pa T"
  defines "W \<equiv> map (ggx_key (le_value a0) (le_value a1) (le_value a2) B T) pts"
  obtains Ws where "outcome_map (CLSAG_GGX_keys a0 a1 a2 po pa) (map ggx_ref pts) = Some (Returns Ws)"
    and "list_all2 pt_is (map fst Ws) (map fst W)" and "list_all2 pt_is (map snd Ws) (map snd W)"
  using outcome_map_is [of pts "CLSAG_GGX_keys a0 a1 a2 po pa" ggx_ref, OF ggx_keys_is [OF assms(1-5)]]
  by (auto simp: W_def list_all2_map1 list_all2_map2 elim!: list_all2_mono intro: that)

lemma verify_CLSAG_GGX_is:
  assumes X: "table_of ed_coords (pc_data X) g" "zmul sc_l g = 0"
    and "length m = 32" and "pts \<noteq> []" and r: "length (ggx_r_g sig) = length pts" "length (ggx_r_x sig) = length pts"
    and "\<forall>r \<in> set (ggx_r_g sig) \<union> set (ggx_r_x sig). scalar255 r" and "scalar255 (ggx_c sig)"
    and K: "ggx_K1 sig = ed_encode K1" "ggx_K2 sig = ed_encode K2"
  shows "verify_CLSAG_GGX X m (map ggx_ref pts) (ed_encode B) (ed_encode T) (ed_encode I) sig =
    Some (if \<exists>k. I = zmul k ed_base then Returns (ggx_accepts g m pts B T I K1 K2 sig) else Throws)"
proof -
  obtain KI where KI: "point_t (ed_encode I) = Some (Returns KI)" "pt_is KI I" using point_t_encode by blast
  show ?thesis
  proof (cases "\<exists>k. I = zmul k ed_base")
    case False
    then show ?thesis using KI(1) assms(4) r by (simp add: verify_CLSAG_GGX_def is_in_main_subgroup_is [OF KI(2)])
  next
    case True
    define h where "h = ggx_hash m pts B T I K1 K2"
    define a0 where "a0 = hash_scalar (CRYPTO_HDS_CLSAG_GGX_LAYER_0 @ h)"
    define a1 where "a1 = hash_scalar (CRYPTO_HDS_CLSAG_GGX_LAYER_1 @ h)"
    define a2 where "a2 = hash_scalar (CRYPTO_HDS_CLSAG_GGX_LAYER_2 @ h)"
    have a: "canonical a0" "canonical a1" "canonical a2" by (simp_all add: a0_def a1_def a2_def)
    have v: "agg_coeff CRYPTO_HDS_CLSAG_GGX_LAYER_0 h = le_value a0" "agg_coeff CRYPTO_HDS_CLSAG_GGX_LAYER_1 h = le_value a1"
      "agg_coeff CRYPTO_HDS_CLSAG_GGX_LAYER_2 h = le_value a2"
      by (simp_all add: a0_def a1_def a2_def agg_coeff_def)
    let ?W = "map (ggx_key (le_value a0) (le_value a1) (le_value a2) (zmul 8 B) (zmul 8 T)) pts"
    obtain po where po: "point_t_mul8 (ed_encode B) = Some (Returns po)" "pt_is po (zmul 8 B)" using point_t_mul8_is by blast
    obtain pa where pa: "point_t_mul8 (ed_encode T) = Some (Returns pa)" "pt_is pa (zmul 8 T)" using point_t_mul8_is by blast
    obtain Ws where Ws: "outcome_map (CLSAG_GGX_keys a0 a1 a2 po pa) (map ggx_ref pts) = Some (Returns Ws)"
      "list_all2 pt_is (map fst Ws) (map fst ?W)" "list_all2 pt_is (map snd Ws) (map snd ?W)"
      by (rule ggx_all_keys_is [OF a po(2) pa(2)])
    obtain L1 where L1: "point_t_mul8 (ed_encode K1) = Some (Returns L1)" "pt_is L1 (zmul 8 K1)" using point_t_mul8_is by blast
    obtain L2 where L2: "point_t_mul8 (ed_encode K2) = Some (Returns L2)" "pt_is L2 (zmul 8 K2)" using point_t_mul8_is by blast
    obtain x where x: "point_mul a0 KI = Some x" "pt_is x (zmul (le_value a0) I)"
      using point_mul_is [OF canonical_scalar255 [OF a(1)] KI(2)] by blast
    obtain y where y: "point_mul a1 L1 = Some y" "pt_is y (zmul (le_value a1) (zmul 8 K1))"
      using point_mul_is [OF canonical_scalar255 [OF a(2)] L1(2)] by blast
    obtain Kg where Kg: "point_add x y = Some Kg" "pt_is Kg (zmul (le_value a0) I + zmul (le_value a1) (zmul 8 K1))"
      using point_add_is [OF x(2) y(2)] by blast
    obtain Kx where Kx: "point_mul a2 L2 = Some Kx" "pt_is Kx (zmul (le_value a2) (zmul 8 K2))"
      using point_mul_is [OF canonical_scalar255 [OF a(3)] L2(2)] by blast
    note ch = x_chain_is [OF X Ws(2,3) _ _ Kg(2) Kx(2), of "map fst pts" "ggx_r_g sig" "ggx_r_x sig" "ggx_c sig"
      CRYPTO_HDS_CLSAG_GGX_CHALLENGE h, unfolded length_map, OF refl refl r assms(7,8), folded ggx_addresses]
    show ?thesis
      using True assms(4) r by (simp add: verify_CLSAG_GGX_def KI(1) is_in_main_subgroup_is [OF KI(2)] po(1) pa(1)
          ggx_input_hash_is [OF assms(3)] K h_def [symmetric] agg_coeff_is(1) a0_def [symmetric] a1_def [symmetric] a2_def [symmetric]
          Ws(1) L1(1) L2(1) x(1) y(1) Kg(1) Kx(1) ch del: map_map) (simp add: ggx_accepts_def Let_def h_def [symmetric] v)
  qed
qed

lemma generate_CLSAG_GGX_is:
  assumes draws: "\<And>i. length (draw i) = 64" and X: "table_of ed_coords (pc_data X) g" "zmul sc_l g = 0"
    and m: "length m = 32" and x: "canonical x" and f: "canonical f" and t: "canonical t"
    and s: "s < length pts" "pts ! s = (zmul (le_value x) ed_base, A, Q)"
    and PO: "pt_is po PO" "zmul sc_l PO = 0" and PT: "pt_is pa PT" "zmul sc_l PT = 0"
    and bal: "zmul 8 A - PO = zmul (le_value f) ed_base" and ast: "zmul 8 Q - PT = zmul (le_value t) g"
    and I: "I = zmul (le_value x) (ed_hash (ed_encode (fst (pts ! s))))"
  obtains sig K1 K2 where "generate_CLSAG_GGX X debug draw m (map ggx_ref pts) po pa (ed_encode I) x f t s = Some (Returns sig)"
    and "length (ggx_r_g sig) = length pts" and "length (ggx_r_x sig) = length pts"
    and "\<forall>r \<in> set (ggx_r_g sig) \<union> set (ggx_r_x sig). scalar255 r" and "scalar255 (ggx_c sig)"
    and "ggx_K1 sig = ed_encode K1" and "ggx_K2 sig = ed_encode K2"
    and "ggx_accepts g m pts (zmul (le_value c_scalar_1div8) PO) (zmul (le_value c_scalar_1div8) PT) I K1 K2 sig"
proof -
  define H where "H = ed_hash (ed_encode (fst (pts ! s)))"
  define B where "B = zmul (le_value c_scalar_1div8) PO"
  define T where "T = zmul (le_value c_scalar_1div8) PT"
  define K1 where "K1 = zmul (le_value c_scalar_1div8 * le_value f mod sc_l) H"
  define K2 where "K2 = zmul (le_value c_scalar_1div8 * le_value t mod sc_l) H"
  define h where "h = ggx_hash m pts B T I K1 K2"
  define a0 where "a0 = hash_scalar (CRYPTO_HDS_CLSAG_GGX_LAYER_0 @ h)"
  define a1 where "a1 = hash_scalar (CRYPTO_HDS_CLSAG_GGX_LAYER_1 @ h)"
  define a2 where "a2 = hash_scalar (CRYPTO_HDS_CLSAG_GGX_LAYER_2 @ h)"
  define wg where "wg = sc_bytes (le_value a0 * le_value x + le_value a1 * le_value f)"
  define wx where "wx = sc_bytes (le_value a2 * le_value t)"
  have ord: "zmul sc_l H = 0" unfolding H_def by (rule ed_hash_order)
  have a: "canonical a0" "canonical a1" "canonical a2" by (simp_all add: a0_def a1_def a2_def)
  have v: "agg_coeff CRYPTO_HDS_CLSAG_GGX_LAYER_0 h = le_value a0" "agg_coeff CRYPTO_HDS_CLSAG_GGX_LAYER_1 h = le_value a1"
    "agg_coeff CRYPTO_HDS_CLSAG_GGX_LAYER_2 h = le_value a2"
    by (simp_all add: a0_def a1_def a2_def agg_coeff_def)
  have w: "canonical wg" "canonical wx" "le_value wg = (le_value a0 * le_value x + le_value a1 * le_value f) mod sc_l"
    "le_value wx = (le_value a2 * le_value t) mod sc_l" by (simp_all add: wg_def wx_def canonical_le_bytes)
  have P8: "zmul 8 B = PO" "zmul 8 T = PT" unfolding B_def T_def by (rule eighth [OF PO(2)], rule eighth [OF PT(2)])
  have K8: "zmul 8 K1 = zmul (le_value f) H" "zmul 8 K2 = zmul (le_value t) H" unfolding K1_def K2_def by (rule eighth_mod [OF ord])+
  let ?W = "map (ggx_key (le_value a0) (le_value a1) (le_value a2) PO PT) pts"
  have Kg: "zmul (le_value a0) I + zmul (le_value a1) (zmul (le_value f) H) = zmul (le_value wg) H"
    by (simp add: I H_def [symmetric] w zmul_mod [OF ord] zmul_zmul zmul_add)
  have Kx: "zmul (le_value a2) (zmul (le_value t) H) = zmul (le_value wx) H" by (simp add: w zmul_mod [OF ord] zmul_zmul)
  have own: "map fst ?W ! s = zmul (le_value wg) ed_base" "map snd ?W ! s = zmul (le_value wx) g"
    using s by (simp_all add: ggx_key_def w bal ast zmul_mod [OF base_order] zmul_mod [OF X(2)] zmul_zmul zmul_add)
  have sa: "stealth_address (ggx_ref (pts ! s)) = ed_encode (fst (pts ! s))" and ac: "amount_commitment (ggx_ref (pts ! s)) = ed_encode A"
    and ba: "blinded_asset_id (ggx_ref (pts ! s)) = ed_encode Q" using s by (simp_all add: ggx_ref_def)
  obtain hb where hb: "hp (ed_encode (fst (pts ! s))) = Some hb" "pt_is hb H"
    using hp_is [of "ed_encode (fst (pts ! s))"] by (auto simp: H_def)
  obtain ki where ki: "point_mul x hb = Some ki" "pt_is ki I"
    using point_mul_is [OF canonical_scalar255 [OF x] hb(2)] by (auto simp: I H_def)
  obtain ip where ip: "point_t (ed_encode I) = Some (Returns ip)" "pt_is ip I" using point_t_encode by blast
  obtain P where P: "point_g_mul x = Some P" "pt_is P (fst (pts ! s))"
    using point_g_mul_is [OF canonical_scalar255 [OF x]] s(2) by auto
  note o = opens_difference_is [OF gen_G.generator_axioms f PO(1) bal] opens_difference_is [OF generator_pc [OF X] t PT(1) ast]
  obtain L1 where L1: "aux_image f hb = Some (ed_encode K1, L1)" "pt_is L1 (zmul (le_value f) H)"
    using aux_image_is [OF f hb(2) ord] by (auto simp: K1_def)
  obtain L2 where L2: "aux_image t hb = Some (ed_encode K2, L2)" "pt_is L2 (zmul (le_value t) H)"
    using aux_image_is [OF t hb(2) ord] by (auto simp: K2_def)
  obtain b where b: "point_mul c_scalar_1div8 po = Some b" "pt_is b B"
    using point_mul_is [OF canonical_scalar255 [OF c_scalar_1div8_value(1)] PO(1)] by (auto simp: B_def)
  obtain b' where b': "point_mul c_scalar_1div8 pa = Some b'" "pt_is b' T"
    using point_mul_is [OF canonical_scalar255 [OF c_scalar_1div8_value(1)] PT(1)] by (auto simp: T_def)
  obtain Ws where Ws: "outcome_map (CLSAG_GGX_keys a0 a1 a2 po pa) (map ggx_ref pts) = Some (Returns Ws)"
    "list_all2 pt_is (map fst Ws) (map fst ?W)" "list_all2 pt_is (map snd Ws) (map snd ?W)"
    by (rule ggx_all_keys_is [OF a PO(1) PT(1)])
  have secret: "sc_mul a0 x = Some (sc_bytes (le_value a0 * le_value x))" "sc_mul a1 f = Some (sc_bytes (le_value a1 * le_value f))"
    "sc_add (sc_bytes (le_value a0 * le_value x)) (sc_bytes (le_value a1 * le_value f)) = Some wg" "sc_mul a2 t = Some wx"
    using a x f t by (simp_all add: sc_mul_bytes sc_add_bytes canonical_def wg_def wx_def canonical_le_bytes mod_simps)
  obtain y where y: "point_mul a0 ki = Some y" "pt_is y (zmul (le_value a0) I)"
    using point_mul_is [OF canonical_scalar255 [OF a(1)] ki(2)] by blast
  obtain z where z: "point_mul a1 L1 = Some z" "pt_is z (zmul (le_value a1) (zmul (le_value f) H))"
    using point_mul_is [OF canonical_scalar255 [OF a(2)] L1(2)] by blast
  obtain KG where KG: "point_add y z = Some KG" "pt_is KG (zmul (le_value wg) H)" using point_add_is [OF y(2) z(2)] unfolding Kg by blast
  obtain KX where KX: "point_mul a2 L2 = Some KX" "pt_is KX (zmul (le_value wx) H)"
    using point_mul_is [OF canonical_scalar255 [OF a(3)] L2(2)] unfolding Kx by blast
  have l: "length Ws = length pts" using list_all2_lengthD [OF Ws(2)] by simp
  obtain Wg Wx where own': "Ws ! s = (Wg, Wx)" by (cases "Ws ! s")
  have "pt_is Wg (zmul (le_value wg) ed_base)" "pt_is Wx (zmul (le_value wx) g)"
    using list_all2_nthD2 [OF Ws(2), of s] list_all2_nthD2 [OF Ws(3), of s] s(1) l own' own by simp_all
  note o' = opens_is [OF gen_G.generator_axioms w(1) this(1)] opens_is [OF generator_pc [OF X] w(2) this(2)]
    opens_is [OF generator_point [OF hb(2) ord] w(1) KG(2)] opens_is [OF generator_point [OF hb(2) ord] w(2) KX(2)]
  obtain c r_g r_x where sign: "clsag_x_sign X draw CRYPTO_HDS_CLSAG_GGX_CHALLENGE h (map ed_encode (map fst pts)) (map fst Ws) (map snd Ws)
      KG KX wg wx hb s = Some (c, r_g, r_x)" and r: "length r_g = length pts" "length r_x = length pts"
    "\<forall>r \<in> set r_g \<union> set r_x. scalar255 r" "scalar255 c"
    and fin: "fold (x_next g CRYPTO_HDS_CLSAG_GGX_CHALLENGE h (map fst pts) (map fst ?W) (map snd ?W) (zmul (le_value wg) H) (zmul (le_value wx) H) r_g r_x)
      [0..<length pts] c = c"
    by (rule x_sign_is [where draw = draw and Ps = "map fst pts" and s = s and challenge = CRYPTO_HDS_CLSAG_GGX_CHALLENGE and h = h,
        OF draws X Ws(2,3) _ _ KG(2) KX(2) hb(2)])
      (use s own w in \<open>simp_all add: H_def\<close>)
  define sig where "sig = \<lparr>ggx_c = c, ggx_r_g = r_g, ggx_r_x = r_x, ggx_K1 = ed_encode K1, ggx_K2 = ed_encode K2\<rparr>"
  have acc: "ggx_accepts g m pts B T I K1 K2 sig"
    using fin by (simp add: ggx_accepts_def Let_def v P8 K8 Kg Kx sig_def flip: h_def)
  have ne: "pts \<noteq> []" using s(1) by auto
  have gen: "generate_CLSAG_GGX X debug draw m (map ggx_ref pts) po pa (ed_encode I) x f t s = Some (Returns sig)"
    using s(1) ne l by (simp add: generate_CLSAG_GGX_def Let_def sa ac ba hb(1) ki(1) ip(1) P(1) tobytes_Some [OF P(2)] point_eq_is [OF ki(2) ip(2)]
        o debug_check_True L1(1) L2(1) b(1) b'(1) tobytes_Some [OF b(2)] tobytes_Some [OF b'(2)] ggx_input_hash_is [OF m] h_def [symmetric]
        agg_coeff_is(1) a0_def [symmetric] a1_def [symmetric] a2_def [symmetric] Ws(1) secret y(1) z(1) KG(1) KX(1) idx_Some own' o'
        ggx_addresses sign sig_def del: map_map)
  show ?thesis
    by (rule that [OF gen]) (use acc r in \<open>simp_all add: sig_def B_def T_def\<close>)
qed


section \<open>Strings that are no points\<close>

lemma point_t_cases:
  assumes "length k = 32"
  obtains g P where "k = ed_encode g" "point_t k = Some (Returns P)" "pt_is P g"
  | "\<forall>g. k \<noteq> ed_encode g" "point_t k = Some Throws"
proof (cases "\<exists>g. k = ed_encode g")
  case True
  then show ?thesis using that(1) point_t_encode by blast
next
  case False
  then show ?thesis using that(2) ge_frombytes_rejects [OF assms] by (simp add: point_t_def)
qed

lemma point_t_mul8_cases:
  assumes "length k = 32"
  obtains g P where "k = ed_encode g" "point_t_mul8 k = Some (Returns P)" "pt_is P (zmul 8 g)"
  | "\<forall>g. k \<noteq> ed_encode g" "point_t_mul8 k = Some Throws"
proof (rule point_t_cases [OF assms])
  fix g P
  assume k: "k = ed_encode g"
  then show thesis using that(1) point_t_mul8_is [of g] by blast
next
  assume n: "\<forall>g. k \<noteq> ed_encode g" "point_t k = Some Throws"
  then show thesis using that(2) by (simp add: point_t_mul8_def outcome_bind_def)
qed

lemma outcome_map_throws:
  assumes "\<And>x. x \<in> set xs \<Longrightarrow> f x = Some Throws \<or> (\<exists>y. f x = Some (Returns y))" and "x \<in> set xs" and "f x = Some Throws"
  shows "outcome_map f xs = Some Throws"
  using assms
proof (induction xs)
  case (Cons a xs)
  consider "f a = Some Throws" | y where "f a = Some (Returns y)" using Cons.prems(1) [of a] by auto
  then show ?case
  proof cases
    case 2
    then have "x \<in> set xs" using Cons.prems(2,3) by auto
    then have "outcome_map f xs = Some Throws" using Cons by simp
    then show ?thesis using 2 by (simp add: outcome_bind_def)
  qed (simp add: outcome_bind_def)
qed simp

definition ref_strings :: "CLSAG_GGX_input_ref \<Rightarrow> bytes list" where
  "ref_strings e = [stealth_address e, amount_commitment e, blinded_asset_id e]"

lemma ggx_ref_cases:
  assumes "\<forall>k \<in> set (ref_strings e). length k = 32" and "canonical a0" and "canonical a1" and "canonical a2" and "pt_is po B" and "pt_is pa T"
  shows "(\<exists>p. e = ggx_ref p) \<and> (\<exists>W. CLSAG_GGX_keys a0 a1 a2 po pa e = Some (Returns W))
    \<or> (\<forall>p. e \<noteq> ggx_ref p) \<and> CLSAG_GGX_keys a0 a1 a2 po pa e = Some Throws"
proof (cases "\<exists>p. e = ggx_ref p")
  case True
  then show ?thesis using ggx_keys_is [OF assms(2-6)] by blast
next
  case False
  have l: "length (stealth_address e) = 32" "length (amount_commitment e) = 32" "length (blinded_asset_id e) = 32"
    using assms(1) by (simp_all add: ref_strings_def)
  have "CLSAG_GGX_keys a0 a1 a2 po pa e = Some Throws"
  proof (rule point_t_mul8_cases [OF l(2)])
    fix A P
    assume A: "amount_commitment e = ed_encode A" "point_t_mul8 (amount_commitment e) = Some (Returns P)"
    show ?thesis
    proof (rule point_t_mul8_cases [OF l(3)])
      fix Q P'
      assume Q: "blinded_asset_id e = ed_encode Q" "point_t_mul8 (blinded_asset_id e) = Some (Returns P')"
      have "stealth_address e \<noteq> ed_encode S" for S
      proof
        assume "stealth_address e = ed_encode S"
        then have "e = ggx_ref (S, A, Q)" using A(1) Q(1) by (cases e) (simp add: ggx_ref_def)
        then show False using False by blast
      qed
      then have "point_t (stealth_address e) = Some Throws" using point_t_cases [OF l(1)] by metis
      then show ?thesis using A(2) Q(2) by (simp add: CLSAG_GGX_keys_def outcome_bind_def)
    next
      assume "point_t_mul8 (blinded_asset_id e) = Some Throws"
      then show ?thesis using A(2) by (simp add: CLSAG_GGX_keys_def outcome_bind_def)
    qed
  next
    assume "point_t_mul8 (amount_commitment e) = Some Throws"
    then show ?thesis by (simp add: CLSAG_GGX_keys_def outcome_bind_def)
  qed
  then show ?thesis using False by blast
qed

text \<open>The points behind all strings that the verifier decodes.\<close>

definition ggx_points ::
  "CLSAG_GGX_input_ref list \<Rightarrow> bytes \<Rightarrow> bytes \<Rightarrow> bytes \<Rightarrow> CLSAG_GGX_signature \<Rightarrow>
   ggx_member list \<Rightarrow> ed_point \<Rightarrow> ed_point \<Rightarrow> ed_point \<Rightarrow> ed_point \<Rightarrow> ed_point \<Rightarrow> bool" where
  "ggx_points ring commitment asset ki sig pts B T I K1 K2 \<longleftrightarrow>
     ring = map ggx_ref pts \<and> commitment = ed_encode B \<and> asset = ed_encode T \<and> ki = ed_encode I
     \<and> ggx_K1 sig = ed_encode K1 \<and> ggx_K2 sig = ed_encode K2"

lemma ggx_ref_inj: "ggx_ref p = ggx_ref q \<Longrightarrow> p = q"
  by (cases p; cases q) (auto simp: ggx_ref_def ed_encode_inj)

lemma ggx_points_unique:
  "ggx_points ring c a ki sig pts B T I K1 K2 \<Longrightarrow> ggx_points ring c a ki sig pts' B' T' I' K1' K2'
    \<Longrightarrow> pts' = pts \<and> B' = B \<and> T' = T \<and> I' = I \<and> K1' = K1 \<and> K2' = K2"
  by (auto simp: ggx_points_def ed_encode_inj inj_map_eq_map [OF injI [OF ggx_ref_inj]])

lemma verify_CLSAG_GGX_throws:
  assumes m: "length m = 32" and ring: "\<forall>e \<in> set ring. \<forall>k \<in> set (ref_strings e). length k = 32"
    and l: "length commitment = 32" "length asset = 32" "length ki = 32" "length (ggx_K1 sig) = 32" "length (ggx_K2 sig) = 32"
    and none: "\<nexists>pts B T I K1 K2. ggx_points ring commitment asset ki sig pts B T I K1 K2"
  shows "verify_CLSAG_GGX X m ring commitment asset ki sig = Some Throws"
proof -
  note V = verify_CLSAG_GGX_def outcome_bind_def Let_def
  show ?thesis
  proof (rule point_t_cases [OF l(3)])
    fix I KI
    assume I: "ki = ed_encode I" "point_t ki = Some (Returns KI)" "pt_is KI I"
    show ?thesis
    proof (rule point_t_mul8_cases [OF l(1)]; rule point_t_mul8_cases [OF l(2)])
      fix B po T pa
      assume B: "commitment = ed_encode B" "point_t_mul8 commitment = Some (Returns po)" "pt_is po (zmul 8 B)"
      assume T: "asset = ed_encode T" "point_t_mul8 asset = Some (Returns pa)" "pt_is pa (zmul 8 T)"
      define h where "h = cn_fast_hash (sc_bytes (le_value m) @ concat (concat (map (\<lambda>e. [stealth_address e, amount_commitment e, blinded_asset_id e]) ring)
        @ [commitment, asset, ki, ggx_K1 sig, ggx_K2 sig]))"
      have ih: "CLSAG_GGX_input_hash m ring commitment asset ki (ggx_K1 sig) (ggx_K2 sig) = Some h"
        by (simp add: CLSAG_GGX_input_hash_def clsag_input_hash_is [OF m] h_def)
      define a0 where "a0 = hash_scalar (CRYPTO_HDS_CLSAG_GGX_LAYER_0 @ h)"
      define a1 where "a1 = hash_scalar (CRYPTO_HDS_CLSAG_GGX_LAYER_1 @ h)"
      define a2 where "a2 = hash_scalar (CRYPTO_HDS_CLSAG_GGX_LAYER_2 @ h)"
      have a: "canonical a0" "canonical a1" "canonical a2" by (simp_all add: a0_def a1_def a2_def)
      note H = ih agg_coeff_is(1) [of _ h, folded a0_def a1_def a2_def] agg_coeff_is(1) a0_def [symmetric] a1_def [symmetric] a2_def [symmetric]
      note c = ggx_ref_cases [OF _ a B(3) T(3)]
      show ?thesis
      proof (cases "\<exists>pts. ring = map ggx_ref pts")
        case True
        then obtain pts where pts: "ring = map ggx_ref pts" by blast
        obtain Ws where Ws: "outcome_map (CLSAG_GGX_keys a0 a1 a2 po pa) ring = Some (Returns Ws)"
          using ggx_all_keys_is [OF a B(3) T(3), of pts] pts by metis
        obtain x where x: "point_mul a0 KI = Some x" "pt_is x (zmul (le_value a0) I)"
          using point_mul_is [OF canonical_scalar255 [OF a(1)] I(3)] by blast
        show ?thesis
        proof (rule point_t_mul8_cases [OF l(4)])
          fix K1 L1
          assume K1: "ggx_K1 sig = ed_encode K1" "point_t_mul8 (ggx_K1 sig) = Some (Returns L1)" "pt_is L1 (zmul 8 K1)"
          then have "\<forall>g. ggx_K2 sig \<noteq> ed_encode g" using none pts B(1) T(1) I(1) unfolding ggx_points_def by blast
          then have "point_t_mul8 (ggx_K2 sig) = Some Throws" using point_t_mul8_cases [OF l(5)] by metis
          moreover obtain y where y: "point_mul a1 L1 = Some y" "pt_is y (zmul (le_value a1) (zmul 8 K1))"
            using point_mul_is [OF canonical_scalar255 [OF a(2)] K1(3)] by blast
          moreover obtain z where "point_add x y = Some z" using point_add_is [OF x(2) y(2)] by blast
          ultimately show ?thesis
            by (simp add: V I(2) is_in_main_subgroup_is [OF I(3)] B(2) T(2) H Ws K1(2) x(1))
        next
          assume "point_t_mul8 (ggx_K1 sig) = Some Throws"
          then show ?thesis by (simp add: V I(2) is_in_main_subgroup_is [OF I(3)] B(2) T(2) H Ws)
        qed
      next
        case False
        then obtain e where e: "e \<in> set ring" "\<forall>p. e \<noteq> ggx_ref p" by (metis ex_map_conv)
        have "outcome_map (CLSAG_GGX_keys a0 a1 a2 po pa) ring = Some Throws"
          by (rule outcome_map_throws [OF _ e(1)]) (use c ring e in blast)+
        then show ?thesis by (simp add: V I(2) is_in_main_subgroup_is [OF I(3)] B(2) T(2) H)
      qed
    qed (simp_all add: V I(2) is_in_main_subgroup_is [OF I(3)])
  next
    assume "point_t ki = Some Throws"
    then show ?thesis by (simp add: V)
  qed
qed


section \<open>What CLSAG\_GGX guarantees\<close>

text \<open>
  C3 (clsag_ggx_decides). The verifier of a signature that spends an output with a hidden asset, for any strings of 32 bytes as keys and image:
  it throws for an empty ring, a wrong number of responses of either kind, a key image outside the main subgroup, and if any of the
  strings that it decodes is no point: keys of the ring, pseudo outputs, key image, \<open>K1\<close> or \<open>K2\<close>. Otherwise it accepts exactly
  if the chain of challenges, over \<open>G\<close> and \<open>X\<close>, returns to the challenge of the signature. The scalars of the signature are below
  \<open>2\<^sup>2\<^sup>5\<^sup>5\<close>, as the multiplications need.
\<close>

theorem clsag_ggx_decides:
  assumes "table_of ed_coords (pc_data X) g" and "zmul sc_l g = 0" and "length m = 32"
    and "\<forall>r \<in> set (ggx_r_g sig) \<union> set (ggx_r_x sig). scalar255 r" and "scalar255 (ggx_c sig)"
    and "\<forall>e \<in> set ring. \<forall>k \<in> set (ref_strings e). length k = 32"
    and "length commitment = 32" and "length asset = 32" and "length ki = 32" and "length (ggx_K1 sig) = 32" and "length (ggx_K2 sig) = 32"
  shows "verify_CLSAG_GGX X m ring commitment asset ki sig =
    Some (if ring \<noteq> [] \<and> length (ggx_r_g sig) = length ring \<and> length (ggx_r_x sig) = length ring
            \<and> (\<exists>pts B T k K1 K2. ggx_points ring commitment asset ki sig pts B T (zmul k ed_base) K1 K2)
          then Returns (\<exists>pts B T I K1 K2. ggx_points ring commitment asset ki sig pts B T I K1 K2 \<and> ggx_accepts g m pts B T I K1 K2 sig)
          else Throws)"
proof (cases "\<exists>pts B T I K1 K2. ggx_points ring commitment asset ki sig pts B T I K1 K2")
  case False
  then show ?thesis using verify_CLSAG_GGX_throws [OF assms(3,6-11), of X] by simp
next
  case True
  then obtain pts B T I K1 K2 where p: "ggx_points ring commitment asset ki sig pts B T I K1 K2" by blast
  note u = ggx_points_unique [OF p]
  have s: "ring = map ggx_ref pts" "commitment = ed_encode B" "asset = ed_encode T" "ki = ed_encode I" "ggx_K1 sig = ed_encode K1" "ggx_K2 sig = ed_encode K2"
    using p by (simp_all add: ggx_points_def)
  have acc: "(\<exists>pts B T I K1 K2. ggx_points ring commitment asset ki sig pts B T I K1 K2 \<and> ggx_accepts g m pts B T I K1 K2 sig)
      \<longleftrightarrow> ggx_accepts g m pts B T I K1 K2 sig" using p u by metis
  have sub: "(\<exists>pts B T k K1 K2. ggx_points ring commitment asset ki sig pts B T (zmul k ed_base) K1 K2) \<longleftrightarrow> (\<exists>k. I = zmul k ed_base)"
    using p u by metis
  show ?thesis
  proof (cases "pts \<noteq> [] \<and> length (ggx_r_g sig) = length pts \<and> length (ggx_r_x sig) = length pts")
    case True
    then have v: "verify_CLSAG_GGX X m ring commitment asset ki sig
        = Some (if \<exists>k. I = zmul k ed_base then Returns (ggx_accepts g m pts B T I K1 K2 sig) else Throws)"
      unfolding s(1-4) using verify_CLSAG_GGX_is [OF assms(1-3) _ _ _ assms(4,5) s(5,6)] by blast
    have "length ring = length pts" "ring \<noteq> []" using True s(1) by auto
    then show ?thesis unfolding v acc sub using True by simp
  next
    case False
    then consider "pts = []" | "length pts \<noteq> length (ggx_r_g sig)" | "length pts \<noteq> length (ggx_r_x sig)" by auto
    then show ?thesis using False s(1) by cases (auto simp: verify_CLSAG_GGX_def Let_def)
  qed
qed

text \<open>The witness has a key of the ring that is no point.\<close>

theorem clsag_ggx_decides_witness:
  "verify_CLSAG_GGX \<lparr>pc_p3 = ge_p3_0, pc_data = ge_base\<rparr> (replicate 32 1)
     [\<lparr>stealth_address = le_bytes 32 (1 + 2 ^ 255), amount_commitment = ed_encode ed_base, blinded_asset_id = ed_encode ed_base\<rparr>]
     (ed_encode ed_base) (ed_encode ed_base) (ed_encode ed_base)
     \<lparr>ggx_c = le_bytes 32 5, ggx_r_g = [le_bytes 32 5], ggx_r_x = [le_bytes 32 5], ggx_K1 = ed_encode ed_base, ggx_K2 = ed_encode ed_base\<rparr>
   = Some Throws"
proof -
  let ?ring = "[\<lparr>stealth_address = le_bytes 32 (1 + 2 ^ 255), amount_commitment = ed_encode ed_base, blinded_asset_id = ed_encode ed_base\<rparr>]"
  let ?sig = "\<lparr>ggx_c = le_bytes 32 5, ggx_r_g = [le_bytes 32 5], ggx_r_x = [le_bytes 32 5], ggx_K1 = ed_encode ed_base, ggx_K2 = ed_encode ed_base\<rparr>"
  have "canonical (le_bytes 32 5)" by (simp add: canonical_def le_value_le_bytes sc_l_def)
  then have "\<forall>r \<in> set (ggx_r_g ?sig) \<union> set (ggx_r_x ?sig). scalar255 r" "scalar255 (ggx_c ?sig)" by (simp_all add: canonical_scalar255)
  moreover have "table_of ed_coords (pc_data \<lparr>pc_p3 = ge_p3_0, pc_data = ge_base\<rparr>) ed_base" by (simp add: ge_base_table)
  moreover have "\<not> ggx_points ?ring c a ki ?sig pts B T I K1 K2" for c a ki pts B T I K1 K2
    using not_a_point by (cases pts) (auto simp: ggx_points_def ggx_ref_def)
  moreover have "\<forall>e \<in> set ?ring. \<forall>k \<in> set (ref_strings e). length k = 32" by (simp add: ref_strings_def)
  ultimately show ?thesis
    using clsag_ggx_decides [OF _ base_order, of "\<lparr>pc_p3 = ge_p3_0, pc_data = ge_base\<rparr>" "replicate 32 1" ?sig ?ring
      "ed_encode ed_base" "ed_encode ed_base" "ed_encode ed_base"] by simp
qed

text \<open>
  C2 (clsag_ggx_complete). A signature made with the secret of one member's key, the difference of its commitment and the
  difference of its blinded asset to the pseudo output is accepted, with and without the checks of a debug build,
  for any ring around it, any position, message and random bytes.
\<close>

theorem clsag_ggx_complete:
  assumes "\<And>i. length (draw i) = 64" and "table_of ed_coords (pc_data X) g" and "zmul sc_l g = 0"
    and "length m = 32" and "canonical x" and "canonical f" and "canonical t"
    and "s < length pts" and "pts ! s = (zmul (le_value x) ed_base, A, Q)"
    and "pt_is po PO" and "zmul sc_l PO = 0" and "pt_is pa PT" and "zmul sc_l PT = 0"
    and "zmul 8 A - PO = zmul (le_value f) ed_base" and "zmul 8 Q - PT = zmul (le_value t) g"
    and "I = zmul (le_value x) (ed_hash (ed_encode (fst (pts ! s))))"
  shows "\<exists>sig. generate_CLSAG_GGX X debug draw m (map ggx_ref pts) po pa (ed_encode I) x f t s = Some (Returns sig)
    \<and> verify_CLSAG_GGX X m (map ggx_ref pts) (ed_encode (zmul (le_value c_scalar_1div8) PO))
        (ed_encode (zmul (le_value c_scalar_1div8) PT)) (ed_encode I) sig = Some (Returns True)"
proof -
  have k: "\<exists>k. I = zmul k ed_base" using hash_multiple assms(16) by simp
  have ne: "pts \<noteq> []" using assms(8) by auto
  show ?thesis
    by (rule generate_CLSAG_GGX_is [where draw = draw and debug = debug, OF assms])
      (use verify_CLSAG_GGX_is [OF assms(2-4) ne] k in auto)
qed

theorem clsag_ggx_complete_witness:
  "\<exists>po sig. generate_CLSAG_GGX \<lparr>pc_p3 = ge_p3_0, pc_data = ge_base\<rparr> True (\<lambda>i. replicate 64 7) (replicate 32 1)
        (map ggx_ref [(zmul 7 ed_base, ed_base, ed_base), (zmul 5 ed_base, ed_base, ed_base)]) po po
        (ed_encode (zmul 5 (ed_hash (ed_encode (zmul 5 ed_base))))) (le_bytes 32 5) (le_bytes 32 3) (le_bytes 32 3) 1 = Some (Returns sig)
    \<and> verify_CLSAG_GGX \<lparr>pc_p3 = ge_p3_0, pc_data = ge_base\<rparr> (replicate 32 1)
        (map ggx_ref [(zmul 7 ed_base, ed_base, ed_base), (zmul 5 ed_base, ed_base, ed_base)])
        (ed_encode (zmul (le_value c_scalar_1div8) (zmul 5 ed_base))) (ed_encode (zmul (le_value c_scalar_1div8) (zmul 5 ed_base)))
        (ed_encode (zmul 5 (ed_hash (ed_encode (zmul 5 ed_base))))) sig = Some (Returns True)"
proof -
  have c: "canonical (le_bytes 32 5)" "le_value (le_bytes 32 5) = 5" "canonical (le_bytes 32 3)" "le_value (le_bytes 32 3) = 3"
    by (simp_all add: canonical_def le_value_le_bytes sc_l_def)
  have X: "table_of ed_coords (pc_data \<lparr>pc_p3 = ge_p3_0, pc_data = ge_base\<rparr>) ed_base" by (simp add: ge_base_table)
  obtain po where po: "pt_is po (zmul 5 ed_base)" by (rule ed_base_p3)
  have o: "zmul sc_l (zmul 5 ed_base) = 0" unfolding prime_subgroup by blast
  have b: "zmul 8 ed_base - zmul 5 ed_base = zmul 3 ed_base" by (simp flip: zmul_sub)
  show ?thesis
    using clsag_ggx_complete [OF _ X base_order _ c(1,3,3) _ _ po o po o, where A = ed_base and Q = ed_base and s = 1 and m = "replicate 32 1"
      and draw = "\<lambda>i. replicate 64 7" and debug = True and pts = "[(zmul 7 ed_base, ed_base, ed_base), (zmul 5 ed_base, ed_base, ed_base)]"
      and I = "zmul 5 (ed_hash (ed_encode (zmul 5 ed_base)))"]
    by (auto simp: c b)
qed

end
