(* ===== verification/Clsag_GGXXG.thy ===== *)
theory Clsag_GGXXG
  imports Clsag_GGX
begin

text \<open>
  The signature of a hidden stake, with five layers: three over \<open>G\<close> and two over \<open>X\<close>
  (\<^verbatim>\<open>generate_CLSAG_GGXXG\<close> and \<^verbatim>\<open>verify_CLSAG_GGXXG\<close> of \<^verbatim>\<open>src/src/crypto/clsag.cpp\<close>). Beside the
  key, the amount and the asset it proves the difference of an extended commitment to the member's commitment and
  concealing point.
\<close>

section \<open>Operations\<close>

record CLSAG_GGXXG_input_ref = CLSAG_GGX_input_ref +
  concealing_point :: bytes

record CLSAG_GGXXG_signature =
  ggxxg_c :: bytes
  ggxxg_r_g :: "bytes list"
  ggxxg_r_x :: "bytes list"
  ggxxg_K1 :: bytes
  ggxxg_K2 :: bytes
  ggxxg_K3 :: bytes
  ggxxg_K4 :: bytes

definition CRYPTO_HDS_CLSAG_GGXXG_LAYER_0 :: bytes where
  "CRYPTO_HDS_CLSAG_GGXXG_LAYER_0 = chars32 ''ZANO_HDS_CLSAG_GGXXG_LAYER_ZERO''"

definition CRYPTO_HDS_CLSAG_GGXXG_LAYER_1 :: bytes where
  "CRYPTO_HDS_CLSAG_GGXXG_LAYER_1 = chars32 ''ZANO_HDS_CLSAG_GGXXG_LAYER_ONE_''"

definition CRYPTO_HDS_CLSAG_GGXXG_LAYER_2 :: bytes where
  "CRYPTO_HDS_CLSAG_GGXXG_LAYER_2 = chars32 ''ZANO_HDS_CLSAG_GGXXG_LAYER_TWO_''"

definition CRYPTO_HDS_CLSAG_GGXXG_LAYER_3 :: bytes where
  "CRYPTO_HDS_CLSAG_GGXXG_LAYER_3 = chars32 ''ZANO_HDS_CLSAG_GGXXG_LAYER_3___''"

definition CRYPTO_HDS_CLSAG_GGXXG_LAYER_4 :: bytes where
  "CRYPTO_HDS_CLSAG_GGXXG_LAYER_4 = chars32 ''ZANO_HDS_CLSAG_GGXXG_LAYER_FOUR''"

definition CRYPTO_HDS_CLSAG_GGXXG_CHALLENGE :: bytes where
  "CRYPTO_HDS_CLSAG_GGXXG_CHALLENGE = chars32 ''ZANO_HDS_CLSAG_GGXXG_CHALLENGE_''"

text \<open>The four auxiliary key images are a list, in the order of their numbers.\<close>

definition CLSAG_GGXXG_input_hash ::
  "bytes \<Rightarrow> CLSAG_GGXXG_input_ref list \<Rightarrow> bytes \<Rightarrow> bytes \<Rightarrow> bytes \<Rightarrow> bytes \<Rightarrow> bytes list \<Rightarrow> bytes option" where
  "CLSAG_GGXXG_input_hash m ring pseudo_out_amount_commitment pseudo_out_blinded_asset_id extended_amount_commitment ki Ks =
     clsag_input_hash m (concat (map (\<lambda>e. [stealth_address e, amount_commitment e, blinded_asset_id e, concealing_point e]) ring)
       @ [pseudo_out_amount_commitment, pseudo_out_blinded_asset_id, extended_amount_commitment, ki] @ Ks)"

text \<open>The aggregate keys of one member: what the three loops over the ring make of it.\<close>

definition CLSAG_GGXXG_keys ::
  "bytes \<Rightarrow> bytes \<Rightarrow> bytes \<Rightarrow> bytes \<Rightarrow> bytes \<Rightarrow> ge_p3 \<Rightarrow> ge_p3 \<Rightarrow> ge_p3 \<Rightarrow> CLSAG_GGXXG_input_ref \<Rightarrow> (ge_p3 \<times> ge_p3) outcome option" where
  "CLSAG_GGXXG_keys agg_coeff_0 agg_coeff_1 agg_coeff_2 agg_coeff_3 agg_coeff_4 po pa ex e =
     outcome_bind (point_t_mul8 (amount_commitment e)) (\<lambda>A.
     outcome_bind (point_t_mul8 (blinded_asset_id e)) (\<lambda>P.
     outcome_bind (point_t_mul8 (concealing_point e)) (\<lambda>Q.
     outcome_bind (point_t (stealth_address e)) (\<lambda>S. do {
       aS \<leftarrow> point_mul agg_coeff_0 S;
       d \<leftarrow> point_sub A po;
       ad \<leftarrow> point_mul agg_coeff_1 d;
       s \<leftarrow> point_add aS ad;
       aQ \<leftarrow> point_mul agg_coeff_4 Q;
       W_g \<leftarrow> point_add s aQ;
       d \<leftarrow> point_sub P pa;
       ad \<leftarrow> point_mul agg_coeff_2 d;
       d' \<leftarrow> point_sub ex A;
       d' \<leftarrow> point_sub d' Q;
       ad' \<leftarrow> point_mul agg_coeff_3 d';
       W_x \<leftarrow> point_add ad ad';
       Some (Returns (W_g, W_x)) }))))"

text \<open>\<^verbatim>\<open>secret_3_x * X == extended_amount_commitment - 8 * amount_commitment - 8 * concealing_point\<close>, and the secret of the concealing point.\<close>

definition opens_extended :: "(bytes \<Rightarrow> ge_p3 option) \<Rightarrow> bytes \<Rightarrow> ge_p3 \<Rightarrow> bytes \<Rightarrow> bytes \<Rightarrow> bool outcome option" where
  "opens_extended gmul secret ex commitment concealing = outcome_bind (point_t commitment) (\<lambda>A. do {
     A8 \<leftarrow> point_mul (scalar_of_uint 8) A;
     d \<leftarrow> point_sub ex A8;
     outcome_bind (point_t concealing) (\<lambda>Q. do {
       Q8 \<leftarrow> point_mul (scalar_of_uint 8) Q;
       d \<leftarrow> point_sub d Q8;
       opens gmul secret d }) })"

definition opens_concealing :: "bytes \<Rightarrow> bytes \<Rightarrow> bool outcome option" where
  "opens_concealing secret concealing = outcome_bind (point_t concealing) (\<lambda>Q. do {
     Q8 \<leftarrow> point_mul (scalar_of_uint 8) Q;
     opens point_g_mul secret Q8 })"

definition generate_CLSAG_GGXXG ::
  "point_pc_t \<Rightarrow> bool \<Rightarrow> (nat \<Rightarrow> bytes) \<Rightarrow> bytes \<Rightarrow> CLSAG_GGXXG_input_ref list \<Rightarrow> ge_p3 \<Rightarrow> ge_p3 \<Rightarrow> ge_p3 \<Rightarrow> bytes \<Rightarrow>
   bytes \<Rightarrow> bytes \<Rightarrow> bytes \<Rightarrow> bytes \<Rightarrow> bytes \<Rightarrow> nat \<Rightarrow> CLSAG_GGXXG_signature outcome option" where
  "generate_CLSAG_GGXXG X debug draw m ring po pa ex ki secret_0_xp secret_1_f secret_2_t secret_3_x secret_4_q secret_index =
     (let ring_size = length ring in
      if \<not> ring_size > 0 then Some Throws
      else if \<not> secret_index < ring_size then Some Throws
      else let own = ring ! secret_index in do {
        ki_base \<leftarrow> hp (stealth_address own);
        key_image \<leftarrow> point_mul secret_0_xp ki_base;
        debug_check debug (outcome_bind (point_t ki) (\<lambda>p. do { b \<leftarrow> point_eq key_image p; Some (Returns b) })) (
        debug_check debug (do { P \<leftarrow> point_g_mul secret_0_xp; P \<leftarrow> ge_p3_tobytes P; Some (Returns (P = stealth_address own)) }) (
        debug_check debug (opens_difference point_g_mul secret_1_f (amount_commitment own) po) (
        debug_check debug (opens_difference (\<lambda>s. point_pc_mul s X) secret_2_t (blinded_asset_id own) pa) (
        debug_check debug (opens_extended (\<lambda>s. point_pc_mul s X) secret_3_x ex (amount_commitment own) (concealing_point own)) (
        debug_check debug (opens_concealing secret_4_q (concealing_point own)) (do {
          (sig_K1, K1) \<leftarrow> aux_image secret_1_f ki_base;
          (sig_K2, K2) \<leftarrow> aux_image secret_2_t ki_base;
          (sig_K3, K3) \<leftarrow> aux_image secret_3_x ki_base;
          (sig_K4, K4) \<leftarrow> aux_image secret_4_q ki_base;
          po8 \<leftarrow> point_mul c_scalar_1div8 po;
          po_bytes \<leftarrow> ge_p3_tobytes po8;
          pa8 \<leftarrow> point_mul c_scalar_1div8 pa;
          pa_bytes \<leftarrow> ge_p3_tobytes pa8;
          ex8 \<leftarrow> point_mul c_scalar_1div8 ex;
          ex_bytes \<leftarrow> ge_p3_tobytes ex8;
          input_hash \<leftarrow> CLSAG_GGXXG_input_hash m ring po_bytes pa_bytes ex_bytes ki [sig_K1, sig_K2, sig_K3, sig_K4];
          agg_coeff_0 \<leftarrow> calc_hash [CRYPTO_HDS_CLSAG_GGXXG_LAYER_0, input_hash];
          agg_coeff_1 \<leftarrow> calc_hash [CRYPTO_HDS_CLSAG_GGXXG_LAYER_1, input_hash];
          agg_coeff_2 \<leftarrow> calc_hash [CRYPTO_HDS_CLSAG_GGXXG_LAYER_2, input_hash];
          agg_coeff_3 \<leftarrow> calc_hash [CRYPTO_HDS_CLSAG_GGXXG_LAYER_3, input_hash];
          agg_coeff_4 \<leftarrow> calc_hash [CRYPTO_HDS_CLSAG_GGXXG_LAYER_4, input_hash];
          outcome_bind (outcome_map (CLSAG_GGXXG_keys agg_coeff_0 agg_coeff_1 agg_coeff_2 agg_coeff_3 agg_coeff_4 po pa ex) ring) (\<lambda>W_pub_keys. do {
            a0 \<leftarrow> sc_mul agg_coeff_0 secret_0_xp;
            a1 \<leftarrow> sc_mul agg_coeff_1 secret_1_f;
            a01 \<leftarrow> sc_add a0 a1;
            a4 \<leftarrow> sc_mul agg_coeff_4 secret_4_q;
            w_sec_key_g \<leftarrow> sc_add a01 a4;
            a2 \<leftarrow> sc_mul agg_coeff_2 secret_2_t;
            a3 \<leftarrow> sc_mul agg_coeff_3 secret_3_x;
            w_sec_key_x \<leftarrow> sc_add a2 a3;
            aK \<leftarrow> point_mul agg_coeff_0 key_image;
            aK1 \<leftarrow> point_mul agg_coeff_1 K1;
            aKK1 \<leftarrow> point_add aK aK1;
            aK4 \<leftarrow> point_mul agg_coeff_4 K4;
            W_key_image_g \<leftarrow> point_add aKK1 aK4;
            aK2 \<leftarrow> point_mul agg_coeff_2 K2;
            aK3 \<leftarrow> point_mul agg_coeff_3 K3;
            W_key_image_x \<leftarrow> point_add aK2 aK3;
            (W_g, W_x) \<leftarrow> idx W_pub_keys secret_index;
            debug_check debug (opens point_g_mul w_sec_key_g W_g) (
            debug_check debug (opens (\<lambda>s. point_mul s ki_base) w_sec_key_g W_key_image_g) (
            debug_check debug (opens (\<lambda>s. point_pc_mul s X) w_sec_key_x W_x) (
            debug_check debug (opens (\<lambda>s. point_mul s ki_base) w_sec_key_x W_key_image_x) (do {
              (c, r_g, r_x) \<leftarrow> clsag_x_sign X draw CRYPTO_HDS_CLSAG_GGXXG_CHALLENGE input_hash (map stealth_address ring)
                (map fst W_pub_keys) (map snd W_pub_keys) W_key_image_g W_key_image_x w_sec_key_g w_sec_key_x ki_base secret_index;
              Some (Returns \<lparr>ggxxg_c = c, ggxxg_r_g = r_g, ggxxg_r_x = r_x,
                ggxxg_K1 = sig_K1, ggxxg_K2 = sig_K2, ggxxg_K3 = sig_K3, ggxxg_K4 = sig_K4\<rparr>) })))) }) })))))) })"

definition verify_CLSAG_GGXXG ::
  "point_pc_t \<Rightarrow> bytes \<Rightarrow> CLSAG_GGXXG_input_ref list \<Rightarrow> bytes \<Rightarrow> bytes \<Rightarrow> bytes \<Rightarrow> bytes \<Rightarrow> CLSAG_GGXXG_signature \<Rightarrow> bool outcome option" where
  "verify_CLSAG_GGXXG X m ring pseudo_out_amount_commitment pseudo_out_blinded_asset_id extended_amount_commitment ki sig =
     (let ring_size = length ring in
      if \<not> ring_size > 0 then Some Throws
      else if ring_size \<noteq> length (ggxxg_r_g sig) then Some Throws
      else if ring_size \<noteq> length (ggxxg_r_x sig) then Some Throws
      else outcome_bind (point_t ki) (\<lambda>key_image. do {
        main \<leftarrow> is_in_main_subgroup key_image;
        if \<not> main then Some Throws
        else
          outcome_bind (point_t_mul8 pseudo_out_amount_commitment) (\<lambda>po.
          outcome_bind (point_t_mul8 pseudo_out_blinded_asset_id) (\<lambda>pa.
          outcome_bind (point_t_mul8 extended_amount_commitment) (\<lambda>ex. do {
            input_hash \<leftarrow> CLSAG_GGXXG_input_hash m ring pseudo_out_amount_commitment pseudo_out_blinded_asset_id
              extended_amount_commitment ki [ggxxg_K1 sig, ggxxg_K2 sig, ggxxg_K3 sig, ggxxg_K4 sig];
            agg_coeff_0 \<leftarrow> calc_hash [CRYPTO_HDS_CLSAG_GGXXG_LAYER_0, input_hash];
            agg_coeff_1 \<leftarrow> calc_hash [CRYPTO_HDS_CLSAG_GGXXG_LAYER_1, input_hash];
            agg_coeff_2 \<leftarrow> calc_hash [CRYPTO_HDS_CLSAG_GGXXG_LAYER_2, input_hash];
            agg_coeff_3 \<leftarrow> calc_hash [CRYPTO_HDS_CLSAG_GGXXG_LAYER_3, input_hash];
            agg_coeff_4 \<leftarrow> calc_hash [CRYPTO_HDS_CLSAG_GGXXG_LAYER_4, input_hash];
            outcome_bind (outcome_map (CLSAG_GGXXG_keys agg_coeff_0 agg_coeff_1 agg_coeff_2 agg_coeff_3 agg_coeff_4 po pa ex) ring) (\<lambda>W_pub_keys.
            outcome_bind (point_t_mul8 (ggxxg_K1 sig)) (\<lambda>K1.
            outcome_bind (point_t_mul8 (ggxxg_K4 sig)) (\<lambda>K4. do {
              aK \<leftarrow> point_mul agg_coeff_0 key_image;
              aK1 \<leftarrow> point_mul agg_coeff_1 K1;
              aKK1 \<leftarrow> point_add aK aK1;
              aK4 \<leftarrow> point_mul agg_coeff_4 K4;
              W_key_image_g \<leftarrow> point_add aKK1 aK4;
              outcome_bind (point_t_mul8 (ggxxg_K2 sig)) (\<lambda>K2.
              outcome_bind (point_t_mul8 (ggxxg_K3 sig)) (\<lambda>K3. do {
                aK2 \<leftarrow> point_mul agg_coeff_2 K2;
                aK3 \<leftarrow> point_mul agg_coeff_3 K3;
                W_key_image_x \<leftarrow> point_add aK2 aK3;
                c_prev \<leftarrow> clsag_chain (clsag_x_step X CRYPTO_HDS_CLSAG_GGXXG_CHALLENGE input_hash (map stealth_address ring)
                  (map fst W_pub_keys) (map snd W_pub_keys) W_key_image_g W_key_image_x (ggxxg_r_g sig) (ggxxg_r_x sig)) [0..<ring_size] (ggxxg_c sig);
                Some (Returns (c_prev = ggxxg_c sig)) })) }))) }))) }))"


section \<open>On the group\<close>

text \<open>A member of the ring: its address, and an eighth of its commitment, asset and concealing point.\<close>

type_synonym ggxxg_member = "ed_point \<times> ed_point \<times> ed_point \<times> ed_point"

definition ggxxg_ref :: "ggxxg_member \<Rightarrow> CLSAG_GGXXG_input_ref" where
  "ggxxg_ref = (\<lambda>(P, A, T, Q). \<lparr>stealth_address = ed_encode P, amount_commitment = ed_encode A,
     blinded_asset_id = ed_encode T, concealing_point = ed_encode Q\<rparr>)"

definition ggxxg_hash ::
  "bytes \<Rightarrow> ggxxg_member list \<Rightarrow> ed_point \<Rightarrow> ed_point \<Rightarrow> ed_point \<Rightarrow> ed_point \<Rightarrow> bytes list \<Rightarrow> bytes" where
  "ggxxg_hash m pts B T E I Ks = cn_fast_hash (sc_bytes (le_value m)
     @ concat (map (\<lambda>(P, A, T, Q). ed_encode P @ ed_encode A @ ed_encode T @ ed_encode Q) pts)
     @ ed_encode B @ ed_encode T @ ed_encode E @ ed_encode I @ concat Ks)"

definition ggxxg_scalar :: "bytes \<Rightarrow> nat \<Rightarrow> bytes" where
  "ggxxg_scalar h i = hash_scalar ([CRYPTO_HDS_CLSAG_GGXXG_LAYER_0, CRYPTO_HDS_CLSAG_GGXXG_LAYER_1, CRYPTO_HDS_CLSAG_GGXXG_LAYER_2,
     CRYPTO_HDS_CLSAG_GGXXG_LAYER_3, CRYPTO_HDS_CLSAG_GGXXG_LAYER_4] ! i @ h)"

definition ggxxg_key :: "(nat \<Rightarrow> int) \<Rightarrow> ed_point \<Rightarrow> ed_point \<Rightarrow> ed_point \<Rightarrow> ggxxg_member \<Rightarrow> ed_point \<times> ed_point" where
  "ggxxg_key a B T E = (\<lambda>(P, A, T', Q). (zmul (a 0) P + zmul (a 1) (zmul 8 A - B) + zmul (a 4) (zmul 8 Q),
     zmul (a 2) (zmul 8 T' - T) + zmul (a 3) (E - zmul 8 A - zmul 8 Q)))"

text \<open>The aggregates of the key images of the layers over \<open>G\<close> and of those over \<open>X\<close>.\<close>

definition ggxxg_image :: "(nat \<Rightarrow> int) \<Rightarrow> ed_point \<Rightarrow> ed_point \<Rightarrow> ed_point \<Rightarrow> ed_point \<Rightarrow> ed_point \<Rightarrow> ed_point \<times> ed_point" where
  "ggxxg_image a I K1 K2 K3 K4 = (zmul (a 0) I + zmul (a 1) K1 + zmul (a 4) K4, zmul (a 2) K2 + zmul (a 3) K3)"

definition ggxxg_accepts ::
  "ed_point \<Rightarrow> bytes \<Rightarrow> ggxxg_member list \<Rightarrow> ed_point \<Rightarrow> ed_point \<Rightarrow> ed_point \<Rightarrow> ed_point \<Rightarrow>
   ed_point \<Rightarrow> ed_point \<Rightarrow> ed_point \<Rightarrow> ed_point \<Rightarrow> CLSAG_GGXXG_signature \<Rightarrow> bool" where
  "ggxxg_accepts g m pts B T E I K1 K2 K3 K4 sig \<longleftrightarrow>
     (let h = ggxxg_hash m pts B T E I [ed_encode K1, ed_encode K2, ed_encode K3, ed_encode K4];
          a = (\<lambda>i. le_value (ggxxg_scalar h i));
          W = map (ggxxg_key a (zmul 8 B) (zmul 8 T) (zmul 8 E)) pts;
          K = ggxxg_image a I (zmul 8 K1) (zmul 8 K2) (zmul 8 K3) (zmul 8 K4)
      in fold (x_next g CRYPTO_HDS_CLSAG_GGXXG_CHALLENGE h (map fst pts) (map fst W) (map snd W) (fst K) (snd K)
           (ggxxg_r_g sig) (ggxxg_r_x sig)) [0..<length pts] (ggxxg_c sig) = ggxxg_c sig)"

lemma ggxxg_scalars:
  "calc_hash [CRYPTO_HDS_CLSAG_GGXXG_LAYER_0, h] = Some (ggxxg_scalar h 0)" "calc_hash [CRYPTO_HDS_CLSAG_GGXXG_LAYER_1, h] = Some (ggxxg_scalar h 1)"
  "calc_hash [CRYPTO_HDS_CLSAG_GGXXG_LAYER_2, h] = Some (ggxxg_scalar h 2)" "calc_hash [CRYPTO_HDS_CLSAG_GGXXG_LAYER_3, h] = Some (ggxxg_scalar h 3)"
  "calc_hash [CRYPTO_HDS_CLSAG_GGXXG_LAYER_4, h] = Some (ggxxg_scalar h 4)"
  by (simp_all add: calc_hash_bytes ggxxg_scalar_def)

lemma ggxxg_scalar_canonical [simp]: "canonical (ggxxg_scalar h i)"
  by (simp add: ggxxg_scalar_def)

lemma ggxxg_input_hash_is:
  "length m = 32 \<Longrightarrow> CLSAG_GGXXG_input_hash m (map ggxxg_ref pts) (ed_encode B) (ed_encode T) (ed_encode E) (ed_encode I) Ks
    = Some (ggxxg_hash m pts B T E I Ks)"
  by (simp add: CLSAG_GGXXG_input_hash_def clsag_input_hash_is ggxxg_hash_def ggxxg_ref_def comp_def case_prod_unfold concat_concat)

lemma ggxxg_addresses: "map stealth_address (map ggxxg_ref pts) = map ed_encode (map fst pts)"
  by (simp add: ggxxg_ref_def comp_def case_prod_unfold)

text \<open>A sum of two multiples, as every aggregate is built.\<close>

lemma point_lin_is:
  assumes "canonical a" and "canonical b" and "pt_is P g" and "pt_is Q h"
  obtains x y R where "point_mul a P = Some x" and "point_mul b Q = Some y" and "point_add x y = Some R"
    and "pt_is R (zmul (le_value a) g + zmul (le_value b) h)"
  using point_mul_is [OF canonical_scalar255 [OF assms(1)] assms(3)] point_mul_is [OF canonical_scalar255 [OF assms(2)] assms(4)] point_add_is
  by metis

lemma point_lin3_is:
  assumes "canonical a" and "canonical b" and "canonical c" and "pt_is P g" and "pt_is Q h" and "pt_is S k"
  obtains x y R z W where "point_mul a P = Some x" and "point_mul b Q = Some y" and "point_add x y = Some R"
    and "point_mul c S = Some z" and "point_add R z = Some W"
    and "pt_is W (zmul (le_value a) g + zmul (le_value b) h + zmul (le_value c) k)"
  by (rule point_lin_is [OF assms(1,2,4,5)]) (metis that point_mul_is [OF canonical_scalar255 [OF assms(3)] assms(6)] point_add_is)

lemma ggxxg_keys_is:
  assumes a: "\<And>i. canonical (a i)" and po: "pt_is po B" "pt_is pa T" "pt_is ex E"
  shows "\<exists>W. CLSAG_GGXXG_keys (a 0) (a 1) (a 2) (a 3) (a 4) po pa ex (ggxxg_ref p) = Some (Returns W)
    \<and> pt_is (fst W) (fst (ggxxg_key (\<lambda>i. le_value (a i)) B T E p)) \<and> pt_is (snd W) (snd (ggxxg_key (\<lambda>i. le_value (a i)) B T E p))"
proof -
  obtain S A P Q where p: "p = (S, A, P, Q)" by (cases p)
  obtain S' where S': "point_t (ed_encode S) = Some (Returns S')" "pt_is S' S" using point_t_encode by blast
  obtain A' where A': "point_t_mul8 (ed_encode A) = Some (Returns A')" "pt_is A' (zmul 8 A)" using point_t_mul8_is by blast
  obtain P' where P': "point_t_mul8 (ed_encode P) = Some (Returns P')" "pt_is P' (zmul 8 P)" using point_t_mul8_is by blast
  obtain Q' where Q': "point_t_mul8 (ed_encode Q) = Some (Returns Q')" "pt_is Q' (zmul 8 Q)" using point_t_mul8_is by blast
  obtain d where d: "point_sub A' po = Some d" "pt_is d (zmul 8 A - B)" using point_sub_is [OF A'(2) po(1)] by blast
  obtain e where e: "point_sub P' pa = Some e" "pt_is e (zmul 8 P - T)" using point_sub_is [OF P'(2) po(2)] by blast
  obtain f where f: "point_sub ex A' = Some f" "pt_is f (E - zmul 8 A)" using point_sub_is [OF po(3) A'(2)] by blast
  obtain k where k: "point_sub f Q' = Some k" "pt_is k (E - zmul 8 A - zmul 8 Q)" using point_sub_is [OF f(2) Q'(2)] by blast
  show ?thesis
    by (rule point_lin3_is [OF a [of 0] a [of 1] a [of 4] S'(2) d(2) Q'(2)], rule point_lin_is [OF a [of 2] a [of 3] e(2) k(2)])
      (use S'(1) A'(1) P'(1) Q'(1) d(1) e(1) f(1) k(1) in \<open>simp add: CLSAG_GGXXG_keys_def ggxxg_ref_def p ggxxg_key_def del: One_nat_def\<close>)
qed

lemma ggxxg_all_keys_is:
  fixes pts :: "ggxxg_member list"
  assumes "\<And>i. canonical (a i)" and "pt_is po B" "pt_is pa T" "pt_is ex E"
  defines "W \<equiv> map (ggxxg_key (\<lambda>i. le_value (a i)) B T E) pts"
  obtains Ws where "outcome_map (CLSAG_GGXXG_keys (a 0) (a 1) (a 2) (a 3) (a 4) po pa ex) (map ggxxg_ref pts) = Some (Returns Ws)"
    and "list_all2 pt_is (map fst Ws) (map fst W)" and "list_all2 pt_is (map snd Ws) (map snd W)"
  using outcome_map_is [of pts "CLSAG_GGXXG_keys (a 0) (a 1) (a 2) (a 3) (a 4) po pa ex" ggxxg_ref, OF ggxxg_keys_is [where a = a, OF assms(1-4)]]
  by (auto simp: W_def list_all2_map1 list_all2_map2 elim!: list_all2_mono intro: that)

lemma verify_CLSAG_GGXXG_is:
  assumes X: "table_of ed_coords (pc_data X) g" "zmul sc_l g = 0"
    and "length m = 32" and "pts \<noteq> []" and r: "length (ggxxg_r_g sig) = length pts" "length (ggxxg_r_x sig) = length pts"
    and "\<forall>r \<in> set (ggxxg_r_g sig) \<union> set (ggxxg_r_x sig). scalar255 r" and "scalar255 (ggxxg_c sig)"
    and K: "ggxxg_K1 sig = ed_encode K1" "ggxxg_K2 sig = ed_encode K2" "ggxxg_K3 sig = ed_encode K3" "ggxxg_K4 sig = ed_encode K4"
  shows "verify_CLSAG_GGXXG X m (map ggxxg_ref pts) (ed_encode B) (ed_encode T) (ed_encode E) (ed_encode I) sig =
    Some (if \<exists>k. I = zmul k ed_base then Returns (ggxxg_accepts g m pts B T E I K1 K2 K3 K4 sig) else Throws)"
proof -
  obtain KI where KI: "point_t (ed_encode I) = Some (Returns KI)" "pt_is KI I" using point_t_encode by blast
  show ?thesis
  proof (cases "\<exists>k. I = zmul k ed_base")
    case False
    then show ?thesis using KI(1) assms(4) r by (simp add: verify_CLSAG_GGXXG_def is_in_main_subgroup_is [OF KI(2)])
  next
    case True
    define h where "h = ggxxg_hash m pts B T E I [ed_encode K1, ed_encode K2, ed_encode K3, ed_encode K4]"
    let ?a = "ggxxg_scalar h"
    let ?W = "map (ggxxg_key (\<lambda>i. le_value (?a i)) (zmul 8 B) (zmul 8 T) (zmul 8 E)) pts"
    let ?K = "ggxxg_image (\<lambda>i. le_value (?a i)) I (zmul 8 K1) (zmul 8 K2) (zmul 8 K3) (zmul 8 K4)"
    note enc = point_t_mul8_is
    obtain po where po: "point_t_mul8 (ed_encode B) = Some (Returns po)" "pt_is po (zmul 8 B)" using enc by blast
    obtain pa where pa: "point_t_mul8 (ed_encode T) = Some (Returns pa)" "pt_is pa (zmul 8 T)" using enc by blast
    obtain ex where ex: "point_t_mul8 (ed_encode E) = Some (Returns ex)" "pt_is ex (zmul 8 E)" using enc by blast
    obtain Ws where Ws: "outcome_map (CLSAG_GGXXG_keys (?a 0) (?a 1) (?a 2) (?a 3) (?a 4) po pa ex) (map ggxxg_ref pts) = Some (Returns Ws)"
      "list_all2 pt_is (map fst Ws) (map fst ?W)" "list_all2 pt_is (map snd Ws) (map snd ?W)"
      by (rule ggxxg_all_keys_is [where a = ?a, OF ggxxg_scalar_canonical po(2) pa(2) ex(2)])
    obtain L1 where L1: "point_t_mul8 (ed_encode K1) = Some (Returns L1)" "pt_is L1 (zmul 8 K1)" using enc by blast
    obtain L2 where L2: "point_t_mul8 (ed_encode K2) = Some (Returns L2)" "pt_is L2 (zmul 8 K2)" using enc by blast
    obtain L3 where L3: "point_t_mul8 (ed_encode K3) = Some (Returns L3)" "pt_is L3 (zmul 8 K3)" using enc by blast
    obtain L4 where L4: "point_t_mul8 (ed_encode K4) = Some (Returns L4)" "pt_is L4 (zmul 8 K4)" using enc by blast
    obtain x y xy z Kg where g: "point_mul (?a 0) KI = Some x" "point_mul (?a 1) L1 = Some y" "point_add x y = Some xy"
      "point_mul (?a 4) L4 = Some z" "point_add xy z = Some Kg" and Kg: "pt_is Kg (fst ?K)"
      by (rule point_lin3_is [OF ggxxg_scalar_canonical ggxxg_scalar_canonical ggxxg_scalar_canonical KI(2) L1(2) L4(2)])
        (auto simp: ggxxg_image_def)
    obtain x' y' Kx where x: "point_mul (?a 2) L2 = Some x'" "point_mul (?a 3) L3 = Some y'" "point_add x' y' = Some Kx" and Kx: "pt_is Kx (snd ?K)"
      by (rule point_lin_is [OF ggxxg_scalar_canonical ggxxg_scalar_canonical L2(2) L3(2)]) (auto simp: ggxxg_image_def)
    note ch = x_chain_is [OF X Ws(2,3) _ _ Kg Kx, of "map fst pts" "ggxxg_r_g sig" "ggxxg_r_x sig" "ggxxg_c sig"
      CRYPTO_HDS_CLSAG_GGXXG_CHALLENGE h, unfolded length_map, OF refl refl r assms(7,8), folded ggxxg_addresses]
    show ?thesis
      using True assms(4) r by (simp add: verify_CLSAG_GGXXG_def KI(1) is_in_main_subgroup_is [OF KI(2)] po(1) pa(1) ex(1)
          ggxxg_input_hash_is [OF assms(3)] K h_def [symmetric] ggxxg_scalars g x
          Ws(1) L1(1) L2(1) L3(1) L4(1) ch del: map_map One_nat_def) (simp add: ggxxg_accepts_def Let_def h_def [symmetric])
  qed
qed

text \<open>What the checks of a debug build find, when the secrets are right.\<close>

lemma opens_extended_is:
  assumes "generator gmul g" and "canonical s" and "pt_is ex E" and "E - zmul 8 A - zmul 8 Q = zmul (le_value s) g"
  shows "opens_extended gmul s ex (ed_encode A) (ed_encode Q) = Some (Returns True)"
proof -
  have e: "le_value (scalar_of_uint 8) = 8" by (simp add: scalar_of_uint_value)
  show ?thesis
    unfolding opens_extended_def
    by (rule point_t_bind, rule point_mul_bind [OF canonical_scalar255 [OF scalar_of_uint_value(1)]], assumption,
        rule point_sub_bind [OF assms(3)], assumption, rule point_t_bind,
        rule point_mul_bind [OF canonical_scalar255 [OF scalar_of_uint_value(1)]], assumption,
        rule point_sub_bind, assumption, assumption, rule opens_is [OF assms(1,2)]) (simp add: e assms(4))
qed

lemma opens_concealing_is:
  assumes "canonical s" and "zmul 8 Q = zmul (le_value s) ed_base"
  shows "opens_concealing s (ed_encode Q) = Some (Returns True)"
proof -
  have e: "le_value (scalar_of_uint 8) = 8" by (simp add: scalar_of_uint_value)
  show ?thesis
    unfolding opens_concealing_def
    by (rule point_t_bind, rule point_mul_bind [OF canonical_scalar255 [OF scalar_of_uint_value(1)]], assumption,
        rule opens_is [OF gen_G.generator_axioms assms(1)]) (simp add: e assms(2))
qed

text \<open>The aggregate secrets, as scalars and on the group.\<close>

definition ggxxg_secret_g :: "(nat \<Rightarrow> bytes) \<Rightarrow> bytes \<Rightarrow> bytes \<Rightarrow> bytes \<Rightarrow> bytes" where
  "ggxxg_secret_g a x f q = sc_bytes (le_value (a 0) * le_value x + le_value (a 1) * le_value f + le_value (a 4) * le_value q)"

definition ggxxg_secret_x :: "(nat \<Rightarrow> bytes) \<Rightarrow> bytes \<Rightarrow> bytes \<Rightarrow> bytes" where
  "ggxxg_secret_x a t y = sc_bytes (le_value (a 2) * le_value t + le_value (a 3) * le_value y)"

lemma ggxxg_secret_canonical [simp]: "canonical (ggxxg_secret_g a x f q)" "canonical (ggxxg_secret_x a t y)"
  by (simp_all add: ggxxg_secret_g_def ggxxg_secret_x_def canonical_le_bytes)

lemma ggxxg_secret_is:
  assumes "\<And>i. canonical (a i)" and "canonical x" and "canonical f" and "canonical q" and "canonical t" and "canonical y"
  obtains k0 k1 k01 k4 k2 k3 where "sc_mul (a 0) x = Some k0" and "sc_mul (a 1) f = Some k1" and "sc_add k0 k1 = Some k01"
    and "sc_mul (a 4) q = Some k4" and "sc_add k01 k4 = Some (ggxxg_secret_g a x f q)"
    and "sc_mul (a 2) t = Some k2" and "sc_mul (a 3) y = Some k3" and "sc_add k2 k3 = Some (ggxxg_secret_x a t y)"
proof -
  have len: "length (a i) = 32" "length x = 32" "length f = 32" "length q = 32" "length t = 32" "length y = 32" for i
    using assms by (simp_all add: canonical_def)
  show ?thesis
    by (rule that [OF sc_mul_bytes sc_mul_bytes sc_add_bytes sc_mul_bytes _ sc_mul_bytes sc_mul_bytes])
      (simp_all add: len sc_add_bytes canonical_le_bytes ggxxg_secret_g_def ggxxg_secret_x_def mod_simps)
qed

lemma ggxxg_own_key:
  assumes "P = zmul (le_value x) ed_base" and "zmul 8 A - PO = zmul (le_value f) ed_base" and "zmul 8 Q = zmul (le_value q) ed_base"
    and "zmul 8 T - PT = zmul (le_value t) g" and "PE - zmul 8 A - zmul 8 Q = zmul (le_value y) g" and "zmul sc_l g = 0"
  shows "ggxxg_key (\<lambda>i. le_value (a i)) PO PT PE (P, A, T, Q)
    = (zmul (le_value (ggxxg_secret_g a x f q)) ed_base, zmul (le_value (ggxxg_secret_x a t y)) g)"
  by (simp add: ggxxg_key_def assms(1,2,4) assms(5) [unfolded assms(3)] assms(3) ggxxg_secret_g_def ggxxg_secret_x_def canonical_le_bytes
      zmul_mod [OF base_order] zmul_mod [OF assms(6)] zmul_zmul zmul_add)

lemma ggxxg_own_image:
  assumes "zmul sc_l H = 0"
  shows "ggxxg_image (\<lambda>i. le_value (a i)) (zmul (le_value x) H) (zmul (le_value f) H) (zmul (le_value t) H) (zmul (le_value y) H) (zmul (le_value q) H)
    = (zmul (le_value (ggxxg_secret_g a x f q)) H, zmul (le_value (ggxxg_secret_x a t y)) H)"
  by (simp add: ggxxg_image_def ggxxg_secret_g_def ggxxg_secret_x_def canonical_le_bytes zmul_mod [OF assms] zmul_zmul zmul_add)

lemma ggxxg_image_is:
  assumes a: "\<And>i. canonical (a i)" and K: "pt_is I i" "pt_is L1 k1" "pt_is L2 k2" "pt_is L3 k3" "pt_is L4 k4"
  obtains x y xy z Kg x' y' Kx where "point_mul (a 0) I = Some x" and "point_mul (a 1) L1 = Some y" and "point_add x y = Some xy"
    and "point_mul (a 4) L4 = Some z" and "point_add xy z = Some Kg" and "pt_is Kg (fst (ggxxg_image (\<lambda>i. le_value (a i)) i k1 k2 k3 k4))"
    and "point_mul (a 2) L2 = Some x'" and "point_mul (a 3) L3 = Some y'" and "point_add x' y' = Some Kx"
    and "pt_is Kx (snd (ggxxg_image (\<lambda>i. le_value (a i)) i k1 k2 k3 k4))"
  by (rule point_lin3_is [OF a [of 0] a [of 1] a [of 4] K(1,2,5)], rule point_lin_is [OF a [of 2] a [of 3] K(3,4)])
    (rule that, auto simp: ggxxg_image_def)

lemma generate_CLSAG_GGXXG_is:
  assumes draws: "\<And>i. length (draw i) = 64" and X: "table_of ed_coords (pc_data X) g" "zmul sc_l g = 0" and m: "length m = 32"
    and sec: "canonical x" "canonical f" "canonical t" "canonical y" "canonical q"
    and s: "s < length pts" "pts ! s = (zmul (le_value x) ed_base, A, T, Q)"
    and PO: "pt_is po PO" "zmul sc_l PO = 0" and PT: "pt_is pa PT" "zmul sc_l PT = 0" and PE: "pt_is ex PE" "zmul sc_l PE = 0"
    and bal: "zmul 8 A - PO = zmul (le_value f) ed_base" "zmul 8 Q = zmul (le_value q) ed_base"
    and ast: "zmul 8 T - PT = zmul (le_value t) g" "PE - zmul 8 A - zmul 8 Q = zmul (le_value y) g"
    and I: "I = zmul (le_value x) (ed_hash (ed_encode (fst (pts ! s))))"
  obtains sig K1 K2 K3 K4 where
      "generate_CLSAG_GGXXG X debug draw m (map ggxxg_ref pts) po pa ex (ed_encode I) x f t y q s = Some (Returns sig)"
    and "length (ggxxg_r_g sig) = length pts" and "length (ggxxg_r_x sig) = length pts"
    and "\<forall>r \<in> set (ggxxg_r_g sig) \<union> set (ggxxg_r_x sig). scalar255 r" and "scalar255 (ggxxg_c sig)"
    and "ggxxg_K1 sig = ed_encode K1" and "ggxxg_K2 sig = ed_encode K2" and "ggxxg_K3 sig = ed_encode K3" and "ggxxg_K4 sig = ed_encode K4"
    and "ggxxg_accepts g m pts (zmul (le_value c_scalar_1div8) PO) (zmul (le_value c_scalar_1div8) PT) (zmul (le_value c_scalar_1div8) PE) I K1 K2 K3 K4 sig"
proof -
  define H where "H = ed_hash (ed_encode (fst (pts ! s)))"
  define e :: "ed_point \<Rightarrow> ed_point" where "e = zmul (le_value c_scalar_1div8)"
  define K where "K = (\<lambda>k. zmul (le_value c_scalar_1div8 * le_value k mod sc_l) H)"
  define h where "h = ggxxg_hash m pts (e PO) (e PT) (e PE) I [ed_encode (K f), ed_encode (K t), ed_encode (K y), ed_encode (K q)]"
  let ?a = "ggxxg_scalar h"
  define wg where "wg = ggxxg_secret_g ?a x f q"
  define wx where "wx = ggxxg_secret_x ?a t y"
  have w: "canonical wg" "canonical wx" by (simp_all add: wg_def wx_def)
  have ord: "zmul sc_l H = 0" unfolding H_def by (rule ed_hash_order)
  have e8: "zmul 8 (e PO) = PO" "zmul 8 (e PT) = PT" "zmul 8 (e PE) = PE" unfolding e_def using eighth PO(2) PT(2) PE(2) by blast+
  have K8: "zmul 8 (K k) = zmul (le_value k) H" for k unfolding K_def by (rule eighth_mod [OF ord])
  let ?W = "map (ggxxg_key (\<lambda>i. le_value (?a i)) PO PT PE) pts"
  have own: "ggxxg_key (\<lambda>i. le_value (?a i)) PO PT PE (pts ! s) = (zmul (le_value wg) ed_base, zmul (le_value wx) g)"
    unfolding s(2) wg_def wx_def by (rule ggxxg_own_key [OF refl bal ast X(2)])
  have IH: "I = zmul (le_value x) H" by (simp add: I H_def)
  note img = ggxxg_own_image [OF ord, of ?a x f t y q, folded IH wg_def wx_def]
  have sa: "stealth_address (ggxxg_ref (pts ! s)) = ed_encode (fst (pts ! s))" "amount_commitment (ggxxg_ref (pts ! s)) = ed_encode A"
    "blinded_asset_id (ggxxg_ref (pts ! s)) = ed_encode T" "concealing_point (ggxxg_ref (pts ! s)) = ed_encode Q"
    using s by (simp_all add: ggxxg_ref_def)
  obtain hb where hb: "hp (ed_encode (fst (pts ! s))) = Some hb" "pt_is hb H"
    using hp_is [of "ed_encode (fst (pts ! s))"] by (auto simp: H_def)
  obtain ki where ki: "point_mul x hb = Some ki" "pt_is ki I" using point_mul_is [OF canonical_scalar255 [OF sec(1)] hb(2)] by (auto simp: IH)
  obtain ip where ip: "point_t (ed_encode I) = Some (Returns ip)" "pt_is ip I" using point_t_encode by blast
  obtain P where P: "point_g_mul x = Some P" "pt_is P (fst (pts ! s))" using point_g_mul_is [OF canonical_scalar255 [OF sec(1)]] s(2) by auto
  note o = opens_difference_is [OF gen_G.generator_axioms sec(2) PO(1) bal(1)] opens_difference_is [OF generator_pc [OF X] sec(3) PT(1) ast(1)]
    opens_extended_is [OF generator_pc [OF X] sec(4) PE(1) ast(2)] opens_concealing_is [OF sec(5) bal(2)]
  have aux: "\<exists>L. aux_image k hb = Some (ed_encode (K k), L) \<and> pt_is L (zmul (le_value k) H)" if "canonical k" for k
    unfolding K_def by (rule aux_image_is [OF that hb(2) ord])
  obtain L1 where L1: "aux_image f hb = Some (ed_encode (K f), L1)" "pt_is L1 (zmul (le_value f) H)" using aux [OF sec(2)] by blast
  obtain L2 where L2: "aux_image t hb = Some (ed_encode (K t), L2)" "pt_is L2 (zmul (le_value t) H)" using aux [OF sec(3)] by blast
  obtain L3 where L3: "aux_image y hb = Some (ed_encode (K y), L3)" "pt_is L3 (zmul (le_value y) H)" using aux [OF sec(4)] by blast
  obtain L4 where L4: "aux_image q hb = Some (ed_encode (K q), L4)" "pt_is L4 (zmul (le_value q) H)" using aux [OF sec(5)] by blast
  have div8: "\<exists>b. point_mul c_scalar_1div8 R = Some b \<and> ge_p3_tobytes b = Some (ed_encode (e r))" if "pt_is R r" for R r
    using point_mul_is [OF canonical_scalar255 [OF c_scalar_1div8_value(1)] that] by (auto simp: e_def intro: tobytes_Some)
  obtain b1 b2 b3 where b: "point_mul c_scalar_1div8 po = Some b1" "ge_p3_tobytes b1 = Some (ed_encode (e PO))"
    "point_mul c_scalar_1div8 pa = Some b2" "ge_p3_tobytes b2 = Some (ed_encode (e PT))"
    "point_mul c_scalar_1div8 ex = Some b3" "ge_p3_tobytes b3 = Some (ed_encode (e PE))"
    using div8 [OF PO(1)] div8 [OF PT(1)] div8 [OF PE(1)] by blast
  obtain Ws where Ws: "outcome_map (CLSAG_GGXXG_keys (?a 0) (?a 1) (?a 2) (?a 3) (?a 4) po pa ex) (map ggxxg_ref pts) = Some (Returns Ws)"
    "list_all2 pt_is (map fst Ws) (map fst ?W)" "list_all2 pt_is (map snd Ws) (map snd ?W)"
    by (rule ggxxg_all_keys_is [where a = ?a, OF ggxxg_scalar_canonical PO(1) PT(1) PE(1)])
  obtain k0 k1 k01 k4 k2 k3 where secret: "sc_mul (?a 0) x = Some k0" "sc_mul (?a 1) f = Some k1" "sc_add k0 k1 = Some k01"
    "sc_mul (?a 4) q = Some k4" "sc_add k01 k4 = Some wg" "sc_mul (?a 2) t = Some k2" "sc_mul (?a 3) y = Some k3" "sc_add k2 k3 = Some wx"
    unfolding wg_def wx_def by (rule ggxxg_secret_is [where a = ?a, OF ggxxg_scalar_canonical sec(1,2,5,3,4)])
  obtain j0 j1 j01 j4 KG j2 j3 KX where mul: "point_mul (?a 0) ki = Some j0" "point_mul (?a 1) L1 = Some j1" "point_add j0 j1 = Some j01"
    "point_mul (?a 4) L4 = Some j4" "point_add j01 j4 = Some KG" "point_mul (?a 2) L2 = Some j2" "point_mul (?a 3) L3 = Some j3" "point_add j2 j3 = Some KX"
    and KG: "pt_is KG (zmul (le_value wg) H)" and KX: "pt_is KX (zmul (le_value wx) H)"
    by (rule ggxxg_image_is [where a = ?a, OF ggxxg_scalar_canonical ki(2) L1(2) L2(2) L3(2) L4(2)]) (simp add: img)
  have l: "length Ws = length pts" using list_all2_lengthD [OF Ws(2)] by simp
  obtain Wg Wx where own': "Ws ! s = (Wg, Wx)" by (cases "Ws ! s")
  have "pt_is Wg (zmul (le_value wg) ed_base)" "pt_is Wx (zmul (le_value wx) g)"
    using list_all2_nthD2 [OF Ws(2), of s] list_all2_nthD2 [OF Ws(3), of s] s(1) l own' own by simp_all
  note o' = opens_is [OF gen_G.generator_axioms w(1) this(1)] opens_is [OF generator_pc [OF X] w(2) this(2)]
    opens_is [OF generator_point [OF hb(2) ord] w(1) KG] opens_is [OF generator_point [OF hb(2) ord] w(2) KX]
  obtain c r_g r_x where sign: "clsag_x_sign X draw CRYPTO_HDS_CLSAG_GGXXG_CHALLENGE h (map ed_encode (map fst pts)) (map fst Ws) (map snd Ws)
      KG KX wg wx hb s = Some (c, r_g, r_x)" and r: "length r_g = length pts" "length r_x = length pts"
    "\<forall>r \<in> set r_g \<union> set r_x. scalar255 r" "scalar255 c"
    and fin: "fold (x_next g CRYPTO_HDS_CLSAG_GGXXG_CHALLENGE h (map fst pts) (map fst ?W) (map snd ?W) (zmul (le_value wg) H) (zmul (le_value wx) H) r_g r_x)
      [0..<length pts] c = c"
    by (rule x_sign_is [where draw = draw and Ps = "map fst pts" and s = s and challenge = CRYPTO_HDS_CLSAG_GGXXG_CHALLENGE and h = h,
        OF draws X Ws(2,3) _ _ KG KX hb(2)])
      (use s own w in \<open>simp_all add: H_def\<close>)
  define sig where "sig = \<lparr>ggxxg_c = c, ggxxg_r_g = r_g, ggxxg_r_x = r_x, ggxxg_K1 = ed_encode (K f), ggxxg_K2 = ed_encode (K t),
    ggxxg_K3 = ed_encode (K y), ggxxg_K4 = ed_encode (K q)\<rparr>"
  have acc: "ggxxg_accepts g m pts (e PO) (e PT) (e PE) I (K f) (K t) (K y) (K q) sig"
    using fin by (simp add: ggxxg_accepts_def Let_def e8 K8 img sig_def flip: h_def)
  have ne: "pts \<noteq> []" using s(1) by auto
  have gen: "generate_CLSAG_GGXXG X debug draw m (map ggxxg_ref pts) po pa ex (ed_encode I) x f t y q s = Some (Returns sig)"
    using s(1) ne l by (simp add: generate_CLSAG_GGXXG_def Let_def sa hb(1) ki(1) ip(1) P(1) tobytes_Some [OF P(2)] point_eq_is [OF ki(2) ip(2)]
        o debug_check_True L1(1) L2(1) L3(1) L4(1) b ggxxg_input_hash_is [OF m] h_def [symmetric] ggxxg_scalars Ws(1) secret mul idx_Some own' o'
        ggxxg_addresses sign sig_def del: map_map One_nat_def)
  show ?thesis
    by (rule that [OF gen]) (use acc r in \<open>simp_all add: sig_def e_def\<close>)
qed


section \<open>What CLSAG\_GGXXG guarantees\<close>

text \<open>
  The verifier of the signature of a hidden stake refuses an empty ring, a wrong number of
  responses of either kind and a key image outside the main subgroup; otherwise it accepts exactly if the chain of
  challenges returns to the challenge of the signature.
\<close>

theorem clsag_ggxxg_decides:
  assumes "table_of ed_coords (pc_data X) g" and "zmul sc_l g = 0" and "length m = 32"
    and "\<forall>r \<in> set (ggxxg_r_g sig) \<union> set (ggxxg_r_x sig). scalar255 r" and "scalar255 (ggxxg_c sig)"
    and "ggxxg_K1 sig = ed_encode K1" and "ggxxg_K2 sig = ed_encode K2" and "ggxxg_K3 sig = ed_encode K3" and "ggxxg_K4 sig = ed_encode K4"
  shows "verify_CLSAG_GGXXG X m (map ggxxg_ref pts) (ed_encode B) (ed_encode T) (ed_encode E) (ed_encode I) sig =
    Some (if pts \<noteq> [] \<and> length (ggxxg_r_g sig) = length pts \<and> length (ggxxg_r_x sig) = length pts \<and> (\<exists>k. I = zmul k ed_base)
          then Returns (ggxxg_accepts g m pts B T E I K1 K2 K3 K4 sig) else Throws)"
proof (cases "pts \<noteq> [] \<and> length (ggxxg_r_g sig) = length pts \<and> length (ggxxg_r_x sig) = length pts")
  case True
  then show ?thesis using verify_CLSAG_GGXXG_is [OF assms(1-3) _ _ _ assms(4-9)] by simp
next
  case False
  then consider "pts = []" | "length pts \<noteq> length (ggxxg_r_g sig)" | "length pts \<noteq> length (ggxxg_r_x sig)" by auto
  then show ?thesis using False by cases (auto simp: verify_CLSAG_GGXXG_def Let_def)
qed

theorem clsag_ggxxg_decides_witness:
  "verify_CLSAG_GGXXG \<lparr>pc_p3 = ge_p3_0, pc_data = ge_base\<rparr> (replicate 32 1) (map ggxxg_ref [])
     (ed_encode ed_base) (ed_encode ed_base) (ed_encode ed_base) (ed_encode ed_base)
     \<lparr>ggxxg_c = le_bytes 32 5, ggxxg_r_g = [], ggxxg_r_x = [le_bytes 32 5], ggxxg_K1 = ed_encode ed_base, ggxxg_K2 = ed_encode ed_base,
       ggxxg_K3 = ed_encode ed_base, ggxxg_K4 = ed_encode ed_base\<rparr> = Some Throws"
proof -
  have "canonical (le_bytes 32 5)" by (simp add: canonical_def le_value_le_bytes sc_l_def)
  moreover have "table_of ed_coords (pc_data \<lparr>pc_p3 = ge_p3_0, pc_data = ge_base\<rparr>) ed_base" by (simp add: ge_base_table)
  ultimately show ?thesis
    using clsag_ggxxg_decides [OF _ base_order, of "\<lparr>pc_p3 = ge_p3_0, pc_data = ge_base\<rparr>" "replicate 32 1"
      "\<lparr>ggxxg_c = le_bytes 32 5, ggxxg_r_g = [], ggxxg_r_x = [le_bytes 32 5], ggxxg_K1 = ed_encode ed_base, ggxxg_K2 = ed_encode ed_base,
       ggxxg_K3 = ed_encode ed_base, ggxxg_K4 = ed_encode ed_base\<rparr>"
      ed_base ed_base ed_base ed_base "[]" ed_base ed_base ed_base ed_base] by (simp add: canonical_scalar255)
qed

text \<open>
  C6 (clsag_ggxxg_complete). A signature made with the secrets of one member's key and concealing point and of the
  differences of its commitment, asset and extended commitment is accepted, with and without the checks of a debug build,
  for any ring around it, any position, message and random bytes.
\<close>

theorem clsag_ggxxg_complete:
  assumes "\<And>i. length (draw i) = 64" and "table_of ed_coords (pc_data X) g" and "zmul sc_l g = 0" and "length m = 32"
    and "canonical x" and "canonical f" and "canonical t" and "canonical y" and "canonical q"
    and "s < length pts" and "pts ! s = (zmul (le_value x) ed_base, A, T, Q)"
    and "pt_is po PO" and "zmul sc_l PO = 0" and "pt_is pa PT" and "zmul sc_l PT = 0" and "pt_is ex PE" and "zmul sc_l PE = 0"
    and "zmul 8 A - PO = zmul (le_value f) ed_base" and "zmul 8 Q = zmul (le_value q) ed_base"
    and "zmul 8 T - PT = zmul (le_value t) g" and "PE - zmul 8 A - zmul 8 Q = zmul (le_value y) g"
    and "I = zmul (le_value x) (ed_hash (ed_encode (fst (pts ! s))))"
  shows "\<exists>sig. generate_CLSAG_GGXXG X debug draw m (map ggxxg_ref pts) po pa ex (ed_encode I) x f t y q s = Some (Returns sig)
    \<and> verify_CLSAG_GGXXG X m (map ggxxg_ref pts) (ed_encode (zmul (le_value c_scalar_1div8) PO))
        (ed_encode (zmul (le_value c_scalar_1div8) PT)) (ed_encode (zmul (le_value c_scalar_1div8) PE)) (ed_encode I) sig = Some (Returns True)"
proof -
  have k: "\<exists>k. I = zmul k ed_base" using hash_multiple assms(22) by simp
  have ne: "pts \<noteq> []" using assms(10) by auto
  show ?thesis
    by (rule generate_CLSAG_GGXXG_is [where draw = draw and debug = debug, OF assms])
      (use verify_CLSAG_GGXXG_is [OF assms(2-4) ne] k in auto)
qed

theorem clsag_ggxxg_complete_witness:
  "\<exists>po ex sig. generate_CLSAG_GGXXG \<lparr>pc_p3 = ge_p3_0, pc_data = ge_base\<rparr> True (\<lambda>i. replicate 64 7) (replicate 32 1)
        (map ggxxg_ref [(zmul 5 ed_base, ed_base, ed_base, zmul 2 ed_base)]) po po ex
        (ed_encode (zmul 5 (ed_hash (ed_encode (zmul 5 ed_base))))) (le_bytes 32 5) (le_bytes 32 3) (le_bytes 32 3) (le_bytes 32 3) (le_bytes 32 16) 0
      = Some (Returns sig)
    \<and> verify_CLSAG_GGXXG \<lparr>pc_p3 = ge_p3_0, pc_data = ge_base\<rparr> (replicate 32 1) (map ggxxg_ref [(zmul 5 ed_base, ed_base, ed_base, zmul 2 ed_base)])
        (ed_encode (zmul (le_value c_scalar_1div8) (zmul 5 ed_base))) (ed_encode (zmul (le_value c_scalar_1div8) (zmul 5 ed_base)))
        (ed_encode (zmul (le_value c_scalar_1div8) (zmul 27 ed_base)))
        (ed_encode (zmul 5 (ed_hash (ed_encode (zmul 5 ed_base))))) sig = Some (Returns True)"
proof -
  have c: "canonical (le_bytes 32 5)" "le_value (le_bytes 32 5) = 5" "canonical (le_bytes 32 3)" "le_value (le_bytes 32 3) = 3"
    "canonical (le_bytes 32 16)" "le_value (le_bytes 32 16) = 16"
    by (simp_all add: canonical_def le_value_le_bytes sc_l_def)
  have X: "table_of ed_coords (pc_data \<lparr>pc_p3 = ge_p3_0, pc_data = ge_base\<rparr>) ed_base" by (simp add: ge_base_table)
  obtain po ex where po: "pt_is po (zmul 5 ed_base)" and ex: "pt_is ex (zmul 27 ed_base)" using ed_base_p3 by metis
  have o: "zmul sc_l (zmul k ed_base) = 0" for k unfolding prime_subgroup by blast
  have b: "zmul 8 ed_base - zmul 5 ed_base = zmul 3 ed_base" "zmul 8 (zmul 2 ed_base) = zmul 16 ed_base"
    "zmul 27 ed_base - zmul 8 ed_base - zmul 16 ed_base = zmul 3 ed_base"
    by (simp_all flip: zmul_sub zmul_zmul)
  show ?thesis
    using clsag_ggxxg_complete [OF _ X base_order _ c(1,3,3,3,5) _ _ po o po o ex o, where A = ed_base and T = ed_base and Q = "zmul 2 ed_base"
      and s = 0 and m = "replicate 32 1" and draw = "\<lambda>i. replicate 64 7" and debug = True
      and pts = "[(zmul 5 ed_base, ed_base, ed_base, zmul 2 ed_base)]" and I = "zmul 5 (ed_hash (ed_encode (zmul 5 ed_base)))"]
    by (auto simp: c b)
qed

end
