(* ===== verification/Precomp.thy ===== *)
theory Precomp
  imports Sugar
begin

text \<open>
  Tables of multiples, as \<^verbatim>\<open>construct_precomp_data\<close> of \<^verbatim>\<open>src/src/crypto/crypto-sugar.cpp\<close> builds them:
  for every point they are what the multiplication by a table needs.
\<close>

lemma ge_p3_to_precomp_is:
  assumes "pt_is P g"
  shows "\<exists>c. ge_p3_to_precomp P = Some c \<and> precomp_is ed_coords c g"
proof -
  obtain z where z: "fe_unit z" and P: "p3_pt fe_tight P (fst (ed_coords g)) (snd (ed_coords g)) z"
    using assms by (auto simp: p3_is_def)
  define x where "x = fst (ed_coords g)"
  define y where "y = snd (ed_coords g)"
  have rep: "fe_rep fe_tight (p3_X P) (x * z)" "fe_rep fe_tight (p3_Y P) (y * z)" "fe_rep fe_tight (p3_Z P) z"
    using P by (simp_all add: p3_pt_def x_def y_def)
  have tl: "fe_tight \<le> fe_loose" by (simp add: fe_bound_simps)
  let ?i = "z ^ nat (fe_p - 2)"
  have inv: "cong (z ^ nat (fe_p - 1)) 1" by (rule fermat_cong [OF z])
  obtain r where r: "fe_invert (p3_Z P) = Some r" "fe_rep fe_tight r ?i" using fe_invert_rep [OF rep(3) tl] by blast
  obtain a where a: "fe_mul (p3_X P) r = Some a" "fe_rep fe_tight a (x * z * ?i)" using fe_mul_rep [OF rep(1) tl r(2) tl] by blast
  obtain b where b: "fe_mul (p3_Y P) r = Some b" "fe_rep fe_tight b (y * z * ?i)" using fe_mul_rep [OF rep(2) tl r(2) tl] by blast
  have xy: "fe_rep fe_tight a x" "fe_rep fe_tight b y"
    using fe_rep_conv [OF a(2) order.refl fermat_inverse [OF inv]] fe_rep_conv [OF b(2) order.refl fermat_inverse [OF inv]] by simp_all
  have two: "2 * (fe_tight + fe_tight) < 2 ^ 31" by (simp add: fe_tight_def)
  obtain rm where rm: "fe_sub b a = Some rm" "fe_rep (fe_tight + fe_tight) rm (y - x)" using fe_sub_rep [OF xy(2,1) two] by blast
  obtain rp where rp: "fe_add b a = Some rp" "fe_rep (fe_tight + fe_tight) rp (y + x)" using fe_add_rep [OF xy(2,1) two] by blast
  obtain m where m: "fe_mul a b = Some m" "fe_rep fe_tight m (x * y)" using fe_mul_rep [OF xy(1) tl xy(2) tl] by blast
  obtain n where n: "fe_mul m fe_d2 = Some n" "fe_rep fe_tight n (x * y * (2 * ed_d))" using fe_mul_rep [OF m(2) tl ed_d_value(2) tl] by blast
  have "fe_rep (2 * fe_tight) n (2 * ed_d * x * y)" by (rule fe_rep_eq [OF n(2)]) (simp_all add: fe_tight_def mult_ac)
  then show ?thesis
    using r(1) a(1) b(1) rm rp m(1) n(1) by (simp add: ge_p3_to_precomp_def precomp_is_def precomp_pt_def x_def y_def)
qed

lemma mul_pow_2_loop_is: "p2_is ed_coords p g \<Longrightarrow> \<exists>r. mul_pow_2_loop n p = Some r \<and> p2_is ed_coords r (zmul (2 ^ n) g)"
proof (induction n arbitrary: p g)
  case (Suc n)
  from ge_p2_dbl_is [OF ed_group Suc.prems] obtain p1 where p1: "ge_p2_dbl p = Some p1" "p1p1_is ed_coords p1 (g + g)" by blast
  from ge_p1p1_to_p2_is [OF p1(2)] obtain p2 where p2: "ge_p1p1_to_p2 p1 = Some p2" "p2_is ed_coords p2 (g + g)" by blast
  have "zmul (2 ^ n) (g + g) = zmul (2 ^ Suc n) g"
    using zmul_zmul [of "2 ^ n" 2 g] zmul_double [of 1 g] by (simp add: mult.commute)
  with Suc.IH [OF p2(2)] show ?case by (simp add: p1(1) p2(1))
qed simp

lemma modify_mul_pow_2_is:
  assumes "pt_is P g"
  shows "\<exists>R. modify_mul_pow_2 P n = Some R \<and> pt_is R (zmul (2 ^ n) g)"
proof (cases n)
  case (Suc m)
  obtain p where p: "ge_p3_to_p2 P = Some p" "p2_is ed_coords p g" using ge_p3_to_p2_is [OF assms] by blast
  obtain q where q: "mul_pow_2_loop m p = Some q" "p2_is ed_coords q (zmul (2 ^ m) g)" using mul_pow_2_loop_is [OF p(2)] by blast
  obtain r where r: "ge_p2_dbl q = Some r" "p1p1_is ed_coords r (zmul (2 ^ m) g + zmul (2 ^ m) g)" using ge_p2_dbl_is [OF ed_group q(2)] by blast
  obtain R where "ge_p1p1_to_p3 r = Some R" "pt_is R (zmul (2 ^ m) g + zmul (2 ^ m) g)" using ge_p1p1_to_p3_is [OF r(2)] by blast
  then show ?thesis by (simp add: Suc modify_mul_pow_2_def p(1) q(1) r(1) zmul_double)
qed (simp add: modify_mul_pow_2_def assms)

lemma precomp_row_is:
  assumes "pt_is A g" and "pt_is B (zmul k g)"
  shows "\<exists>row. precomp_row n A B = Some row \<and> length row = Suc n \<and> (\<forall>j \<le> n. precomp_is ed_coords (row ! j) (zmul (k + int j) g))"
  using assms(2)
proof (induction n arbitrary: B k)
  case 0
  then show ?case using ge_p3_to_precomp_is [OF 0] by auto
next
  case (Suc n)
  obtain c where c: "ge_p3_to_precomp B = Some c" "precomp_is ed_coords c (zmul k g)" using ge_p3_to_precomp_is [OF Suc.prems] by blast
  obtain C where C: "point_add B A = Some C" "pt_is C (zmul (k + 1) g)" using point_add_is [OF Suc.prems assms(1)] by (auto simp: zmul_add)
  obtain row where row: "precomp_row n A C = Some row" "length row = Suc n"
    "\<forall>j \<le> n. precomp_is ed_coords (row ! j) (zmul (k + 1 + int j) g)" using Suc.IH [OF C(2)] by blast
  have "precomp_is ed_coords ((c # row) ! j) (zmul (k + int j) g)" if "j \<le> Suc n" for j
    using that c(2) row(3) by (cases j) (auto simp: add.assoc)
  with c(1) C(1) row(1,2) show ?case by auto
qed

lemma precomp_rows_is:
  assumes "pt_is A (zmul k g)"
  shows "\<exists>rows. precomp_rows n A = Some rows \<and> length rows = Suc n
    \<and> (\<forall>i \<le> n. length (rows ! i) = 8 \<and> (\<forall>j < 8. precomp_is ed_coords (rows ! i ! j) (zmul (256 ^ i * (int j + 1) * k) g)))"
  using assms
proof (induction n arbitrary: A k)
  case (0 A k)
  then obtain row where "precomp_row 7 A A = Some row" "length row = Suc 7"
    "\<forall>j \<le> 7. precomp_is ed_coords (row ! j) (zmul (1 + int j) (zmul k g))" using precomp_row_is [OF 0, of A 1 7] by auto
  then show ?case by (auto simp: less_Suc_eq_le add.commute zmul_zmul [symmetric] eval_nat_numeral)
next
  case (Suc n A k)
  from precomp_row_is [OF Suc.prems, of A 1 7] Suc.prems obtain row where row: "precomp_row 7 A A = Some row" "length row = Suc 7"
    "\<forall>j \<le> 7. precomp_is ed_coords (row ! j) (zmul (1 + int j) (zmul k g))" by auto
  obtain B where B: "modify_mul_pow_2 A 8 = Some B" "pt_is B (zmul (256 * k) g)"
    using modify_mul_pow_2_is [OF Suc.prems, of 8] by (auto simp: zmul_zmul)
  obtain rows where rows: "precomp_rows n B = Some rows" "length rows = Suc n"
    "\<forall>i \<le> n. length (rows ! i) = 8 \<and> (\<forall>j < 8. precomp_is ed_coords (rows ! i ! j) (zmul (256 ^ i * (int j + 1) * (256 * k)) g))"
    using Suc.IH [OF B(2)] by blast
  have "length ((row # rows) ! i) = 8 \<and> (\<forall>j < 8. precomp_is ed_coords ((row # rows) ! i ! j) (zmul (256 ^ i * (int j + 1) * k) g))"
    if "i \<le> Suc n" for i
  proof (cases i)
    case 0
    then show ?thesis using row by (auto simp: less_Suc_eq_le add.commute zmul_zmul [symmetric])
  next
    case (Suc m)
    then show ?thesis using that rows(3) by (simp add: mult_ac)
  qed
  with row(1) B(1) rows(1,2) show ?case by auto
qed

text \<open>
  C25 (precomp_table). The table that \<^verbatim>\<open>construct_precomp_data\<close> computes for a point makes the multiplication by the table
  the multiplication by the point, for every scalar below \<open>2\<^sup>2\<^sup>5\<^sup>5\<close>.
\<close>

theorem precomp_table:
  assumes "pt_is P g"
  shows "\<exists>t. construct_precomp_data P = Some t \<and> table_of ed_coords t g
    \<and> (\<forall>a. scalar255 a \<longrightarrow> (\<exists>R. point_pc_mul a \<lparr>pc_p3 = P, pc_data = t\<rparr> = Some R \<and> pt_is R (zmul (le_value a) g)))"
proof -
  have "pt_is P (zmul 1 g)" using assms by simp
  from precomp_rows_is [OF this, of 31] obtain t where t: "construct_precomp_data P = Some t"
    "\<forall>i \<le> 31. length (t ! i) = 8 \<and> (\<forall>j < 8. precomp_is ed_coords (t ! i ! j) (zmul (256 ^ i * (int j + 1) * 1) g))"
    unfolding construct_precomp_data_def by blast
  then have "table_of ed_coords t g" by (simp add: table_of_def)
  then show ?thesis using t(1) by (auto intro: point_pc_mul_is)
qed

theorem precomp_table_witness:
  "\<exists>P t R. construct_precomp_data P = Some t \<and> point_pc_mul (le_bytes 32 5) \<lparr>pc_p3 = P, pc_data = t\<rparr> = Some R \<and> ge_p3_tobytes R = Some (public_of 5)"
proof -
  obtain P where P: "pt_is P ed_base" using point_t_encode by blast
  have c: "scalar255 (le_bytes 32 5)" "le_value (le_bytes 32 5) = 5"
    by (simp_all add: canonical_scalar255 canonical_def le_value_le_bytes sc_l_def)
  from precomp_table [OF P] c obtain t R where "construct_precomp_data P = Some t"
    "point_pc_mul (le_bytes 32 5) \<lparr>pc_p3 = P, pc_data = t\<rparr> = Some R" "pt_is R (zmul 5 ed_base)" by metis
  then show ?thesis using tobytes_Some by (metis public_of_def)
qed

end
