(* ===== verification/Eddsa.thy ===== *)
theory Eddsa
  imports Schnorr
begin

text \<open>
  Ed25519 signatures, \<^verbatim>\<open>src/src/crypto/eddsa_signature.cpp\<close>. The hash \<^verbatim>\<open>sha512\<close> is a library's: a parameter
  that may fail. A result \<open>Some None\<close> or \<open>Some False\<close> is the return value false, \<open>debug\<close> that \<^verbatim>\<open>NDEBUG\<close> is not defined.
\<close>

unbundle bit_operations_syntax

section \<open>Operations\<close>

text \<open>The pruning of an expanded key.\<close>

definition eddsa_prune :: "bytes \<Rightarrow> bytes" where
  "eddsa_prune sk =
     (let sk = sk[0 := sk ! 0 AND 248];
          sk = sk[31 := sk ! 31 AND 63]
      in sk[31 := sk ! 31 OR 64])"

definition eddsa_seed_to_keys :: "(bytes \<Rightarrow> bytes option) \<Rightarrow> bytes \<Rightarrow> (bytes \<times> bytes \<times> bytes) option option" where
  "eddsa_seed_to_keys sha seed =
     (case sha seed of
        None \<Rightarrow> Some None
      | Some h64 \<Rightarrow>
          let sk = eddsa_prune (take 32 h64); prefix = drop 32 h64 in do {
            P \<leftarrow> point_g_mul sk;
            pk \<leftarrow> ge_p3_tobytes P;
            Some (Some (sk, pk, prefix)) })"

text \<open>\<^verbatim>\<open>sc_reduce(h64.data)\<close> and the copy of its first 32 bytes.\<close>

definition reduce_hash64 :: "bytes \<Rightarrow> bytes option" where
  "reduce_hash64 h64 = do { h64 \<leftarrow> sc_reduce h64; Some (take 32 h64) }"

definition generate_eddsa_signature ::
  "(bytes \<Rightarrow> bytes option) \<Rightarrow> bool \<Rightarrow> bytes \<Rightarrow> bytes \<Rightarrow> bytes \<Rightarrow> bytes \<Rightarrow> bytes option option" where
  "generate_eddsa_signature sha debug m prefix sec_key pub_key =
     (case sha (prefix @ m) of
        None \<Rightarrow> Some None
      | Some h64 \<Rightarrow> do {
          r \<leftarrow> reduce_hash64 h64;
          R \<leftarrow> point_g_mul r;
          R_pk \<leftarrow> ge_p3_tobytes R;
          ok \<leftarrow> (if debug then do { p \<leftarrow> point_g_mul sec_key; pk \<leftarrow> ge_p3_tobytes p; Some (pk = pub_key) } else Some True);
          if \<not> ok then Some None
          else case sha (R_pk @ pub_key @ m) of
            None \<Rightarrow> Some None
          | Some h64 \<Rightarrow> do {
              h \<leftarrow> reduce_hash64 h64;
              s \<leftarrow> sc_muladd h sec_key r;
              Some (Some (R_pk @ s)) } })"

definition verify_eddsa_signature :: "(bytes \<Rightarrow> bytes option) \<Rightarrow> bytes \<Rightarrow> bytes \<Rightarrow> bytes \<Rightarrow> bool option" where
  "verify_eddsa_signature sha m pub_key sig = do {
     P \<leftarrow> ge_frombytes_vartime pub_key;
     case P of
       Not_a_point \<Rightarrow> Some False
     | Point P \<Rightarrow>
         let R_pk = take 32 sig; s = drop 32 sig in do {
         red \<leftarrow> is_reduced s;
         if \<not> red then Some False
         else do {
           R_p \<leftarrow> ge_frombytes_vartime R_pk;
           case R_p of
             Not_a_point \<Rightarrow> Some False
           | Point R_p \<Rightarrow>
               (case sha (R_pk @ pub_key @ m) of
                  None \<Rightarrow> Some False
                | Some h64 \<Rightarrow> do {
                    h \<leftarrow> reduce_hash64 h64;
                    hP \<leftarrow> point_mul h P;
                    l \<leftarrow> point_add R_p hP;
                    r \<leftarrow> point_g_mul s;
                    point_eq l r }) } } }"


section \<open>On the group\<close>

lemma reduce_hash64_bytes: "length h = 64 \<Longrightarrow> reduce_hash64 h = Some (sc_bytes (le_value h))"
  using random_scalar_bytes by (simp add: reduce_hash64_def random_scalar_no_lock_def)

lemma pruned_top: "uint (b AND (63 :: u8) OR 64) \<le> 127"
proof -
  have "uint b AND 63 < (2 :: int) ^ 7" using AND_upper2 [of 63 "uint b"] by simp
  then have "(uint b AND 63) OR 64 < (2 :: int) ^ 7" by (intro OR_upper) simp_all
  then show ?thesis by (simp add: unsigned_or_eq unsigned_and_eq)
qed

lemma eddsa_prune_scalar255: "length sk = 32 \<Longrightarrow> scalar255 (eddsa_prune sk)"
  by (simp add: eddsa_prune_def scalar255_def Let_def pruned_top)

text \<open>What the verifier checks, on the group, for a key, a commitment and a response.\<close>

definition eddsa_accepts :: "(bytes \<Rightarrow> bytes option) \<Rightarrow> bytes \<Rightarrow> ed_point \<Rightarrow> ed_point \<Rightarrow> int \<Rightarrow> bool" where
  "eddsa_accepts sha m P R s \<longleftrightarrow>
     (\<exists>h64. sha (ed_encode R @ ed_encode P @ m) = Some h64 \<and> R + zmul (le_value h64 mod sc_l) P = zmul s ed_base)"

lemma verify_eddsa_points:
  assumes "length s = 32" and "canonical s" and "\<forall>d h. sha d = Some h \<longrightarrow> length h = 64"
  shows "verify_eddsa_signature sha m (ed_encode P) (ed_encode R @ s) = Some (eddsa_accepts sha m P R (le_value s))"
proof -
  obtain p where p: "ge_frombytes_vartime (ed_encode P) = Some (Point p)" "pt_is p P" by (rule ge_frombytes_encode)
  obtain q where q: "ge_frombytes_vartime (ed_encode R) = Some (Point q)" "pt_is q R" by (rule ge_frombytes_encode)
  show ?thesis
  proof (cases "sha (ed_encode R @ ed_encode P @ m)")
    case None
    then show ?thesis using assms(1,2) by (simp add: verify_eddsa_signature_def p(1) q(1) is_reduced_is eddsa_accepts_def Let_def)
  next
    case (Some h)
    have l: "length h = 64" using assms(3) Some by blast
    obtain x where x: "point_mul (sc_bytes (le_value h)) p = Some x" "pt_is x (zmul (le_value h mod sc_l) P)"
      using point_mul_is [OF canonical_scalar255 [OF canonical_le_bytes(1)] p(2)] by (auto simp: canonical_le_bytes)
    obtain y where y: "point_add q x = Some y" "pt_is y (R + zmul (le_value h mod sc_l) P)" using point_add_is [OF q(2) x(2)] by blast
    obtain z where z: "point_g_mul s = Some z" "pt_is z (zmul (le_value s) ed_base)"
      using point_g_mul_is [OF canonical_scalar255 [OF assms(2)]] by blast
    show ?thesis
      using assms(1,2) x(1) y(1) z(1)
      by (simp add: verify_eddsa_signature_def p(1) q(1) is_reduced_is Some reduce_hash64_bytes [OF l] point_eq_is [OF y(2) z(2)]
          eddsa_accepts_def Let_def)
  qed
qed


section \<open>What the signatures guarantee\<close>

text \<open>
  C17 (eddsa_decides). A signature is accepted exactly if it is the encoding of a point \<open>R\<close> followed by a canonical scalar \<open>s\<close>,
  the key encodes a point \<open>P\<close> and \<open>R + h P = s G\<close> for the reduced hash \<open>h\<close> of \<open>R\<close>, \<open>P\<close> and the message, without clearing
  the cofactor; it is rejected, and nothing else happens, for all other bytes and when the hash fails. The order of the key is not
  looked at: a key \<open>P\<close> of small order is accepted whenever the equation holds, although the comment in the verifier says that such a key is
  rejected. (The test vector that is to show this has lost the first digit of its message and fails the equation for that reason.)
\<close>

theorem eddsa_decides:
  assumes "length pub_key = 32" and "length sig = 64" and "\<forall>d h. sha d = Some h \<longrightarrow> length h = 64"
  shows "verify_eddsa_signature sha m pub_key sig =
    Some (\<exists>P R. pub_key = ed_encode P \<and> take 32 sig = ed_encode R \<and> canonical (drop 32 sig)
      \<and> eddsa_accepts sha m P R (le_value (drop 32 sig)))"
proof -
  have l: "length (take 32 sig) = 32" "length (drop 32 sig) = 32" using assms(2) by simp_all
  consider (key) "\<forall>P. pub_key \<noteq> ed_encode P" | (scalar) P where "pub_key = ed_encode P" "\<not> canonical (drop 32 sig)"
    | (commitment) P where "pub_key = ed_encode P" "canonical (drop 32 sig)" "\<forall>R. take 32 sig \<noteq> ed_encode R"
    | (all) P R where "pub_key = ed_encode P" "canonical (drop 32 sig)" "take 32 sig = ed_encode R" by blast
  then show ?thesis
  proof cases
    case key
    then show ?thesis using ge_frombytes_rejects [OF assms(1)] by (simp add: verify_eddsa_signature_def)
  next
    case (scalar P)
    obtain p where "ge_frombytes_vartime (ed_encode P) = Some (Point p)" by (rule ge_frombytes_encode)
    then show ?thesis using scalar assms(2) by (simp add: verify_eddsa_signature_def is_reduced_is l Let_def)
  next
    case (commitment P)
    obtain p where "ge_frombytes_vartime (ed_encode P) = Some (Point p)" by (rule ge_frombytes_encode)
    then show ?thesis using commitment assms(2) ge_frombytes_rejects [OF l(1)] by (simp add: verify_eddsa_signature_def is_reduced_is l Let_def)
  next
    case (all P R)
    have "sig = ed_encode R @ drop 32 sig" by (metis all(3) append_take_drop_id)
    then have "verify_eddsa_signature sha m pub_key sig = Some (eddsa_accepts sha m P R (le_value (drop 32 sig)))"
      using verify_eddsa_points [where sha = sha and m = m and P = P and R = R, OF l(2) all(2) assms(3)] all(1) by metis
    then show ?thesis using all by (auto simp: ed_encode_inj)
  qed
qed

text \<open>The witness has the key of order 1, the neutral point.\<close>

theorem eddsa_decides_witness:
  "verify_eddsa_signature (\<lambda>d. Some (replicate 64 1)) [] (ed_encode 0) (ed_encode (zmul 5 ed_base) @ le_bytes 32 5) = Some True"
proof -
  have "canonical (le_bytes 32 5)" "le_value (le_bytes 32 5) = 5" by (simp_all add: canonical_def le_value_le_bytes sc_l_def)
  then have "\<exists>P R. ed_encode 0 = ed_encode P \<and> ed_encode (zmul 5 ed_base) = ed_encode R \<and> canonical (le_bytes 32 5)
      \<and> eddsa_accepts (\<lambda>d. Some (replicate 64 1)) [] P R (le_value (le_bytes 32 5))"
    by (intro exI [of _ 0] exI [of _ "zmul 5 ed_base"]) (simp add: eddsa_accepts_def)
  then show ?thesis
    using eddsa_decides [of "ed_encode 0" "ed_encode (zmul 5 ed_base) @ le_bytes 32 5" "\<lambda>d. Some (replicate 64 1)" "[]"] by simp
qed

text \<open>
  C16 (eddsa_complete). What a seed expands to signs every message, in debug builds too, and the signature is accepted for the
  public key of the seed; the expanded key is not reduced before it is used.
\<close>

theorem eddsa_complete:
  assumes "\<forall>d. \<exists>h. sha d = Some h \<and> length h = 64"
  shows "\<exists>sk pk prefix sig. eddsa_seed_to_keys sha seed = Some (Some (sk, pk, prefix))
    \<and> generate_eddsa_signature sha debug m prefix sk pk = Some (Some sig)
    \<and> length sig = 64 \<and> verify_eddsa_signature sha m pk sig = Some True"
proof -
  obtain e where e: "sha seed = Some e" "length e = 64" using assms by blast
  define sk where "sk = eddsa_prune (take 32 e)"
  define prefix where "prefix = drop 32 e"
  have sk: "scalar255 sk" "length sk = 32" using eddsa_prune_scalar255 [of "take 32 e"] e(2) by (simp_all add: sk_def scalar255_def)
  obtain P where P: "point_g_mul sk = Some P" "pt_is P (zmul (le_value sk) ed_base)" using point_g_mul_is [OF sk(1)] by blast
  have keys: "eddsa_seed_to_keys sha seed = Some (Some (sk, public_of (le_value sk), prefix))"
    using P(1) by (simp add: eddsa_seed_to_keys_def e(1) Let_def sk_def [symmetric] prefix_def [symmetric] tobytes_Some [OF P(2)] public_of_def)
  obtain n where n: "sha (prefix @ m) = Some n" "length n = 64" using assms by blast
  define r where "r = sc_bytes (le_value n)"
  have r: "canonical r" "length r = 32" by (simp_all add: r_def canonical_le_bytes)
  obtain R where R: "point_g_mul r = Some R" "pt_is R (zmul (le_value r) ed_base)" using point_g_mul_is [OF canonical_scalar255 [OF r(1)]] by blast
  obtain h where h: "sha (public_of (le_value r) @ public_of (le_value sk) @ m) = Some h" "length h = 64" using assms by blast
  define s where "s = sc_bytes (le_value (sc_bytes (le_value h)) * le_value sk + le_value r)"
  have gen: "generate_eddsa_signature sha debug m prefix sk (public_of (le_value sk)) = Some (Some (public_of (le_value r) @ s))"
    using R(1) P(1) h(1) sk(2) r(2)
    by (simp add: generate_eddsa_signature_def n(1) reduce_hash64_bytes [OF n(2)] r_def [symmetric] tobytes_Some [OF R(2)]
        tobytes_Some [OF P(2)] public_of_def reduce_hash64_bytes [OF h(2)] sc_muladd_bytes s_def)
  have s: "length s = 32" "canonical s" "le_value s = ((le_value h mod sc_l) * le_value sk + le_value r) mod sc_l"
    by (simp_all add: s_def canonical_le_bytes)
  have "eddsa_accepts sha m (zmul (le_value sk) ed_base) (zmul (le_value r) ed_base) (le_value s)"
    using h(1) by (simp add: eddsa_accepts_def public_of_def s(3) base_mod zmul_add zmul_zmul add.commute)
  then have "verify_eddsa_signature sha m (public_of (le_value sk)) (public_of (le_value r) @ s) = Some True"
    using verify_eddsa_points [OF s(1,2), of sha m "zmul (le_value sk) ed_base" "zmul (le_value r) ed_base"] assms
    by (metis option.sel public_of_def)
  with keys gen s(1) show ?thesis by (auto simp: public_of_def)
qed

theorem eddsa_complete_witness:
  "\<exists>sk pk prefix sig. eddsa_seed_to_keys (\<lambda>d. Some (replicate 64 1)) (replicate 32 2) = Some (Some (sk, pk, prefix))
    \<and> generate_eddsa_signature (\<lambda>d. Some (replicate 64 1)) True [1, 2, 3] prefix sk pk = Some (Some sig)
    \<and> verify_eddsa_signature (\<lambda>d. Some (replicate 64 1)) [1, 2, 3] pk sig = Some True"
  using eddsa_complete [of "\<lambda>d. Some (replicate 64 1)" "replicate 32 2" True "[1, 2, 3]"] by auto

end
