(* ===== verification/Scalar_Words.thy ===== *)
theory Scalar_Words
  imports Sugar Inverses
begin

text \<open>
  Scalars as four words of 64 bits, \<^verbatim>\<open>src/src/crypto/crypto-sugar.h\<close>: comparison, ranges of bits, and the
  inversion of a whole vector with one inversion.
\<close>

unbundle bit_operations_syntax

section \<open>Operations\<close>

definition scalar_word :: "bytes \<Rightarrow> nat \<Rightarrow> u64" where
  "scalar_word s i = word_of_int (le_value (take 8 (drop (8 * i) s)))"

definition scalar_less :: "bytes \<Rightarrow> bytes \<Rightarrow> bool" where
  "scalar_less a b =
     (if scalar_word a 3 < scalar_word b 3 then True
      else if scalar_word a 3 > scalar_word b 3 then False
      else if scalar_word a 2 < scalar_word b 2 then True
      else if scalar_word a 2 > scalar_word b 2 then False
      else if scalar_word a 1 < scalar_word b 1 then True
      else if scalar_word a 1 > scalar_word b 1 then False
      else if scalar_word a 0 < scalar_word b 0 then True
      else if scalar_word a 0 > scalar_word b 0 then False
      else False)"

definition get_bits :: "bytes \<Rightarrow> u8 \<Rightarrow> u8 \<Rightarrow> u64" where
  "get_bits s bit_index_first bits_count =
     (if bits_count = 0 \<or> bits_count > 64 then 0
      else
        let first = unat bit_index_first;
            bits_count_m_1 = unat bits_count - 1;
            last = first + bits_count_m_1;
            last = (if last > 255 then 255 else last);
            result = drop_bit (first mod 64) (scalar_word s (first div 64));
            result = (if bits_count_m_1 > last mod 64
                      then result OR push_bit (bits_count_m_1 - last mod 64) (scalar_word s (last div 64)) else result);
            result_mask = push_bit 1 (push_bit bits_count_m_1 1 - 1) OR 1
        in result AND result_mask)"

text \<open>The running products of \<^verbatim>\<open>scalar_vec_t::invert\<close>, each without the element itself.\<close>

fun invert_muls :: "bytes \<Rightarrow> bytes list \<Rightarrow> bytes list option" where
  "invert_muls m [] = Some []"
| "invert_muls m [x] = Some [m]"
| "invert_muls m (x # y # xs) = do {
     m' \<leftarrow> sc_mul x m;
     ms \<leftarrow> invert_muls m' (y # xs);
     Some (m # ms) }"

fun invert_store :: "bytes \<Rightarrow> bytes list \<Rightarrow> bytes list \<Rightarrow> bytes list option" where
  "invert_store i (m # ms) (r # rs) = do {
     x \<leftarrow> sc_mul m i;
     x \<leftarrow> sc_mul x r;
     xs \<leftarrow> invert_store i ms rs;
     Some (x # xs) }"
| "invert_store i ms rs = Some []"

definition vec_invert :: "bytes list \<Rightarrow> bytes list option" where
  "vec_invert xs =
     (if length xs < 2 then those (map sc_invert xs)
      else do {
        muls \<leftarrow> invert_muls (scalar_of_uint 1) xs;
        muls_rev \<leftarrow> invert_muls (scalar_of_uint 1) (rev xs);
        p \<leftarrow> sc_mul (last muls) (last xs);
        i \<leftarrow> sc_invert p;
        invert_store i muls (rev muls_rev) })"


section \<open>Values\<close>

lemma scalar_word_uint: "uint (scalar_word s i) = le_value (take 8 (drop (8 * i) s))" if "length s = 32" "i < 4"
proof -
  have "le_value (take 8 (drop (8 * i) s)) < 256 ^ length (take 8 (drop (8 * i) s))" by (rule le_value_upper)
  then show ?thesis using that by (simp add: scalar_word_def uint_word_of_int)
qed

lemma le_value_drop8:
  assumes "k + 8 \<le> length s"
  shows "le_value (drop k s) = le_value (take 8 (drop k s)) + 2 ^ 64 * le_value (drop (k + 8) s)"
proof -
  have "drop k s = take 8 (drop k s) @ drop (k + 8) s" by (metis append_take_drop_id drop_drop add.commute)
  moreover have "le_value (take 8 (drop k s) @ drop (k + 8) s) = le_value (take 8 (drop k s)) + 2 ^ 64 * le_value (drop (k + 8) s)"
    unfolding le_value_append using assms by simp
  ultimately show ?thesis by simp
qed

lemma scalar_words:
  assumes "length s = 32"
  shows "le_value s = uint (scalar_word s 0) + 2 ^ 64 * (uint (scalar_word s 1) + 2 ^ 64 * (uint (scalar_word s 2) + 2 ^ 64 * uint (scalar_word s 3)))"
proof -
  have e: "le_value (drop (8 * i) s) = uint (scalar_word s i) + 2 ^ 64 * le_value (drop (8 * i + 8) s)" if "i < 4" for i
    using le_value_drop8 [of "8 * i" s] that assms unfolding scalar_word_uint [OF assms that] by simp
  have "le_value (drop 0 s) = uint (scalar_word s 0) + 2 ^ 64 * le_value (drop 8 s)" using e [of 0] by (simp only: mult_0_right add_0 zero_less_numeral)
  moreover have "le_value (drop 8 s) = uint (scalar_word s 1) + 2 ^ 64 * le_value (drop 16 s)" using e [of 1] by simp
  moreover have "le_value (drop 16 s) = uint (scalar_word s 2) + 2 ^ 64 * le_value (drop 24 s)" using e [of 2] by simp
  moreover have "le_value (drop 24 s) = uint (scalar_word s 3) + 2 ^ 64 * le_value (drop 32 s)" using e [of 3] by simp
  moreover have "le_value (drop 32 s) = 0" using assms by simp
  ultimately show ?thesis by (simp only: drop_0 mult_zero_right add_0_right)
qed

lemma less_by_digit:
  fixes a b x y :: int
  assumes "0 \<le> x" and "x < 2 ^ 64" and "0 \<le> y" and "y < 2 ^ 64"
  shows "x + 2 ^ 64 * a < y + 2 ^ 64 * b \<longleftrightarrow> a < b \<or> (a = b \<and> x < y)"
  using assms by (cases a b rule: linorder_cases) simp_all

lemma same_by_digit:
  fixes a b x y :: int
  assumes "0 \<le> x" and "x < 2 ^ 64" and "0 \<le> y" and "y < 2 ^ 64"
  shows "x + 2 ^ 64 * a = y + 2 ^ 64 * b \<longleftrightarrow> a = b \<and> x = y"
  using assms by (cases a b rule: linorder_cases) simp_all

lemma scalar_less_is:
  assumes "length a = 32" and "length b = 32"
  shows "scalar_less a b \<longleftrightarrow> le_value a < le_value b"
proof -
  have w: "0 \<le> uint (w :: u64)" "uint w < 2 ^ 64" for w using uint_lt2p [of w] by simp_all
  have "scalar_less a b \<longleftrightarrow> scalar_word a 3 < scalar_word b 3 \<or> (scalar_word a 3 = scalar_word b 3
    \<and> (scalar_word a 2 < scalar_word b 2 \<or> (scalar_word a 2 = scalar_word b 2
    \<and> (scalar_word a 1 < scalar_word b 1 \<or> (scalar_word a 1 = scalar_word b 1 \<and> scalar_word a 0 < scalar_word b 0)))))"
    unfolding scalar_less_def by (simp add: linorder_neq_iff)
  then show ?thesis
    unfolding scalar_words [OF assms(1)] scalar_words [OF assms(2)] less_by_digit [OF w w] same_by_digit [OF w w]
    by (simp add: word_less_def word_uint_eq_iff) blast
qed


section \<open>Bits\<close>

lemma digit_concat: "uint (w :: u64) + 2 ^ 64 * r = concat_bit 64 (uint w) r"
  by (simp add: concat_bit_eq push_bit_eq_mult take_bit_int_eq_self uint_lt2p [of w, simplified])

lemma bit_scalar:
  assumes "length s = 32"
  shows "bit (le_value s) m \<longleftrightarrow> m < 256 \<and> bit (scalar_word s (m div 64)) (m mod 64)"
proof -
  define k j where "k = m div 64" and "j = m mod 64"
  have m: "m = 64 * k + j" "j < 64" by (simp_all add: k_def j_def)
  have kj: "m div 64 = k" "m mod 64 = j" by (simp_all add: k_def j_def)
  consider "k = 0 \<or> k = 1 \<or> k = 2 \<or> k = 3" | "4 \<le> k" by arith
  then show ?thesis
  proof cases
    case 1
    then show ?thesis
      unfolding scalar_words [OF assms] digit_concat bit_concat_bit_iff kj
      using m by (elim disjE) (simp_all add: bit_uint_iff)
  next
    case 2
    have "take_bit 256 (le_value s) = le_value s"
      using le_value_upper [of s] assms by (intro take_bit_int_eq_self) simp_all
    then have "\<not> bit (le_value s) m" using 2 m bit_take_bit_iff [of 256 "le_value s" m] by simp
    then show ?thesis using 2 m by simp
  qed
qed

lemma bits_mask: "bit (push_bit 1 (push_bit c 1 - 1) OR 1 :: u64) n \<longleftrightarrow> n < 64 \<and> n \<le> c" if "c < 64"
proof -
  have "push_bit c 1 - 1 = (mask c :: u64)" by (simp add: mask_eq_exp_minus_1 push_bit_eq_mult)
  then have "bit (push_bit 1 (push_bit c 1 - 1) OR 1 :: u64) n \<longleftrightarrow> (1 \<le> n \<and> n < 64 \<and> n - 1 < min 64 c) \<or> n = 0"
    by (simp only: bit_or_iff bit_push_bit_iff bit_mask_iff bit_1_iff) (use that in auto)
  then show ?thesis using that by auto
qed

lemma word_step:
  shows "a + k < 64 \<Longrightarrow> (64 * w + a + k) div 64 = w" and "a + k < 64 \<Longrightarrow> (64 * w + a + k) mod 64 = a + (k :: nat)"
    and "64 \<le> a + k \<Longrightarrow> a + k < 128 \<Longrightarrow> (64 * w + a + k) div 64 = w + 1"
    and "64 \<le> a + k \<Longrightarrow> a + k < 128 \<Longrightarrow> (64 * w + a + k) mod 64 = a + k - 64"
proof -
  show "(64 * w + a + k) div 64 = w" "(64 * w + a + k) mod 64 = a + k" if "a + k < 64" using that unfolding add.assoc by simp_all
  have e: "64 * w + a + k = 64 * (w + 1) + (a + k - 64)" if "64 \<le> a + k" using that by simp
  show "(64 * w + a + k) div 64 = w + 1" "(64 * w + a + k) mod 64 = a + k - 64" if "64 \<le> a + k" "a + k < 128"
  proof -
    have "a + k - 64 < 64" using that by simp
    then show "(64 * w + a + k) div 64 = w + 1" "(64 * w + a + k) mod 64 = a + k - 64"
      unfolding e [OF that(1)] by (simp_all del: mult_Suc_right distrib_left_numeral add_mult_distrib2 One_nat_def)
  qed
qed

text \<open>The range of bits, past the end of the scalar too.\<close>

lemma get_bits_value:
  assumes "length s = 32" and "1 \<le> bits_count" and "bits_count \<le> 64"
  shows "uint (get_bits s bit_index_first bits_count) = le_value s div 2 ^ unat bit_index_first mod 2 ^ unat bits_count"
proof -
  define f c where "f = unat bit_index_first" and "c = unat bits_count - 1"
  have f: "f < 256" using unsigned_less [of bit_index_first, where ?'a = nat] by (simp add: f_def)
  have c: "unat bits_count = Suc c" "c < 64" using assms(2,3) by (simp_all add: c_def word_le_nat_alt)
  have z: "\<not> (bits_count = 0 \<or> bits_count > 64)" using assms(2,3) by auto
  define w a where "w = f div 64" and "a = f mod 64"
  have fa: "f = 64 * w + a" "a < 64" "w < 4" using f by (simp_all add: w_def a_def)
  define l where "l = (if f + c > 255 then 255 else f + c)"
  define r where "r = drop_bit a (scalar_word s w)"
  define r' where "r' = (if c > l mod 64 then r OR push_bit (c - l mod 64) (scalar_word s (l div 64)) else r)"
  have bits: "get_bits s bit_index_first bits_count = r' AND (push_bit 1 (push_bit c 1 - 1) OR 1)"
    unfolding get_bits_def Let_def f_def [symmetric] c(1) diff_Suc_1 l_def [symmetric] w_def [symmetric] a_def [symmetric] r_def [symmetric] r'_def
    using z by simp
  note dm = word_step(1,2) [where w = w and a = a, folded fa(1)] and dm' = word_step(3,4) [where w = w and a = a, folded fa(1)]
  have word: "bit r' n \<longleftrightarrow> bit (le_value s) (f + n)" if n: "n \<le> c" for n
  proof -
    consider (inside) "a + c < 64" | (clamped) "64 \<le> a + c" "w = 3" | (crossing) "64 \<le> a + c" "w < 3" using fa(3) by linarith
    then show ?thesis
    proof cases
      case inside
      then have "f + c \<le> 255" "l mod 64 = a + c" "f + n < 256" "a + n < 64" using fa n dm(2) [of c] by (auto simp: l_def)
      then show ?thesis using dm [of n] by (simp add: r'_def r_def bit_drop_bit_eq bit_scalar [OF assms(1)])
    next
      case clamped
      then have "l = 255" using fa by (auto simp: l_def)
      moreover have "f + n < 256 \<longleftrightarrow> a + n < 64" using fa clamped by auto
      moreover have "bit (scalar_word s 3) (a + n) \<Longrightarrow> a + n < 64" using bit_imp_le_length [of "scalar_word s 3" "a + n"] by simp
      moreover have "a + n < 64 \<Longrightarrow> (f + n) div 64 = 3 \<and> (f + n) mod 64 = a + n" using dm [of n] clamped by auto
      ultimately show ?thesis using clamped c(2) by (auto simp: r'_def r_def bit_drop_bit_eq bit_scalar [OF assms(1)])
    next
      case crossing
      then have "l = f + c" using fa c(2) by (auto simp: l_def)
      then have l: "l mod 64 = a + c - 64" "l div 64 = w + 1" using dm' [of c] crossing fa(2) c(2) by auto
      have "a + c - 64 < c" using fa(2) crossing(1) c(2) by simp
      then have "r' = r OR push_bit (64 - a) (scalar_word s (w + 1))" using l fa(2) crossing(1) by (simp add: r'_def)
      then have r': "bit r' n \<longleftrightarrow> bit (scalar_word s w) (a + n) \<or> (64 - a \<le> n \<and> bit (scalar_word s (w + 1)) (n - (64 - a)))"
        using n c(2) by (simp add: r_def bit_or_iff bit_drop_bit_eq bit_push_bit_iff)
      show ?thesis
      proof (cases "a + n < 64")
        case True
        moreover have "\<not> 64 - a \<le> n" using True fa(2) by simp
        ultimately show ?thesis using dm [OF True] fa crossing(2) by (simp add: r' bit_scalar [OF assms(1)])
      next
        case False
        have "\<not> bit (scalar_word s w) (a + n)" using False by (simp add: impossible_bit)
        moreover have "f + n < 256" using fa crossing(2) n c(2) by auto
        moreover have "n - (64 - a) = a + n - 64" "64 - a \<le> n" using False fa(2) by simp_all
        ultimately show ?thesis using False dm' [of n] n fa(2) c(2) by (simp add: r' bit_scalar [OF assms(1)])
      qed
    qed
  qed
  have "uint (get_bits s bit_index_first bits_count) = take_bit (Suc c) (drop_bit f (le_value s))"
  proof (rule bit_eqI)
    fix n
    show "bit (uint (get_bits s bit_index_first bits_count)) n \<longleftrightarrow> bit (take_bit (Suc c) (drop_bit f (le_value s))) n"
      using c(2) word [of n] unfolding bits bit_uint_iff bit_take_bit_iff bit_drop_bit_eq bit_and_iff bits_mask [OF c(2)] by auto
  qed
  then show ?thesis by (simp add: take_bit_eq_mod drop_bit_eq_div c(1) f_def)
qed


section \<open>Inversion of a vector\<close>

definition lprod :: "bytes list \<Rightarrow> int" where
  "lprod xs = prod_list (map le_value xs)"

lemma lprod_simps: "lprod [] = 1" "lprod (x # xs) = le_value x * lprod xs" "lprod (xs @ ys) = lprod xs * lprod ys" "lprod (rev xs) = lprod xs"
proof -
  show app: "lprod (xs @ ys) = lprod xs * lprod ys" for xs ys by (simp add: lprod_def)
  show "lprod [] = 1" "lprod (x # xs) = le_value x * lprod xs" by (simp_all add: lprod_def)
  then show "lprod (rev xs) = lprod xs" by (induction xs) (simp_all add: app lprod_def)
qed

lemma invert_muls_is:
  assumes "\<forall>x \<in> set xs. length x = 32" and "length m = 32"
  shows "\<exists>ms. invert_muls m xs = Some ms \<and> length ms = length xs
    \<and> (\<forall>i < length xs. length (ms ! i) = 32 \<and> le_value (ms ! i) mod sc_l = le_value m * lprod (take i xs) mod sc_l)"
  using assms
proof (induction m xs rule: invert_muls.induct)
  case (3 m x y xs)
  define m' where "m' = sc_bytes (le_value x * le_value m)"
  have m': "sc_mul x m = Some m'" "length m' = 32" using "3.prems" by (simp_all add: sc_mul_bytes m'_def)
  obtain ms where ms: "invert_muls m' (y # xs) = Some ms" "length ms = length (y # xs)"
    "\<forall>i < length (y # xs). length (ms ! i) = 32 \<and> le_value (ms ! i) mod sc_l = le_value m' * lprod (take i (y # xs)) mod sc_l"
    using "3.IH" [OF m'(1)] "3.prems" m'(2) by auto
  have "length ((m # ms) ! i) = 32 \<and> le_value ((m # ms) ! i) mod sc_l = le_value m * lprod (take i (x # y # xs)) mod sc_l"
    if "i < length (x # y # xs)" for i
  proof (cases i)
    case (Suc j)
    then have "length (ms ! j) = 32" "le_value (ms ! j) mod sc_l = le_value m' * lprod (take j (y # xs)) mod sc_l" using that ms(3) by simp_all
    moreover have "le_value m' * lprod (take j (y # xs)) mod sc_l = le_value m * lprod (take i (x # y # xs)) mod sc_l"
      unfolding Suc m'_def canonical_le_bytes take_Suc_Cons lprod_simps mod_mult_left_eq by (simp only: mult_ac)
    ultimately show ?thesis by (simp add: Suc)
  qed (use "3.prems" in \<open>simp add: lprod_simps\<close>)
  then show ?case using m'(1) ms(1,2) by auto
qed (auto simp: lprod_simps)

lemma invert_store_is:
  assumes "length ms = length rs" and "\<forall>x \<in> set ms \<union> set rs. length x = 32" and "length i = 32"
  shows "invert_store i ms rs = Some (map2 (\<lambda>m r. sc_bytes (le_value m * le_value i * le_value r)) ms rs)"
  using assms
  by (induction ms rs rule: list_induct2) (simp_all add: sc_mul_bytes canonical_le_bytes mod_mult_left_eq)

lemma lprod_zero: "x \<in> set xs \<Longrightarrow> le_value x mod sc_l = 0 \<Longrightarrow> lprod xs mod sc_l = 0"
  by (induction xs) (auto simp: lprod_simps mod_eq_0_iff_dvd)

lemma sc_l_dvd_mult: "sc_l dvd a * b \<longleftrightarrow> sc_l dvd a \<or> sc_l dvd b"
proof -
  have d: "sc_l dvd c \<longleftrightarrow> nat sc_l dvd nat \<bar>c\<bar>" for c by (simp add: nat_abs_dvd_iff [symmetric] nat_dvd_iff sc_l_def)
  show ?thesis using is_prime_dvd_mult [OF sc_l_prime, of "nat \<bar>a\<bar>" "nat \<bar>b\<bar>"] unfolding d abs_mult nat_mult_distrib [OF abs_ge_zero] by auto
qed

lemma lprod_nonzero: "\<forall>x \<in> set xs. le_value x mod sc_l \<noteq> 0 \<Longrightarrow> lprod xs mod sc_l \<noteq> 0"
proof (induction xs)
  case Nil
  then show ?case by (simp add: lprod_simps sc_l_def)
next
  case (Cons x xs)
  then show ?case unfolding lprod_simps mod_eq_0_iff_dvd sc_l_dvd_mult by simp
qed

lemma sc_invert_bytes': "length s = 32 \<Longrightarrow> sc_invert s = Some (sc_bytes (le_value s ^ nat (sc_l - 2)))"
  by (rule le_bytes_eqI, rule sc_invert_correct)

lemma inverse_unique:
  fixes u v x :: int
  assumes "u * x mod sc_l = 1" and "v * x mod sc_l = 1"
  shows "u mod sc_l = v mod sc_l"
proof -
  have "u * (v * x mod sc_l) mod sc_l = v * (u * x mod sc_l) mod sc_l" by (simp add: mod_simps mult_ac)
  then show ?thesis by (simp add: assms)
qed

text \<open>One inversion is enough, but a vector with a zero becomes zero everywhere.\<close>

lemma vec_invert_is:
  assumes "\<forall>x \<in> set xs. length x = 32"
  shows "vec_invert xs = Some (map (\<lambda>x. if length xs < 2 \<or> (\<forall>y \<in> set xs. le_value y mod sc_l \<noteq> 0)
    then sc_bytes (le_value x ^ nat (sc_l - 2)) else sc_bytes 0) xs)"
proof (cases "length xs < 2")
  case True
  then consider "xs = []" | x where "xs = [x]" by (cases xs) auto
  then show ?thesis using assms by cases (simp_all add: vec_invert_def sc_invert_bytes')
next
  case False
  have one: "length (scalar_of_uint 1) = 32" "le_value (scalar_of_uint 1) = 1" by (simp_all add: scalar_of_uint_def scalar_t_value)
  obtain ms where ms: "invert_muls (scalar_of_uint 1) xs = Some ms" "length ms = length xs"
    "\<forall>i < length xs. length (ms ! i) = 32 \<and> le_value (ms ! i) mod sc_l = lprod (take i xs) mod sc_l"
    using invert_muls_is [OF assms one(1)] by (auto simp: one)
  obtain rs where rs: "invert_muls (scalar_of_uint 1) (rev xs) = Some rs" "length rs = length xs"
    "\<forall>i < length xs. length (rs ! i) = 32 \<and> le_value (rs ! i) mod sc_l = lprod (take i (rev xs)) mod sc_l"
    using invert_muls_is [of "rev xs", OF _ one(1)] assms by (auto simp: one)
  have lens: "\<forall>x \<in> set ms \<union> set (rev rs). length x = 32" using ms rs by (auto simp: in_set_conv_nth)
  have ne: "xs \<noteq> []" "ms \<noteq> []" using False ms(2) by auto
  have last: "length (last ms) = 32" "le_value (last ms) mod sc_l = lprod (butlast xs) mod sc_l" "length (last xs) = 32"
    using ms ne assms by (simp_all add: last_conv_nth butlast_conv_take)
  define p where "p = sc_bytes (le_value (last ms) * le_value (last xs))"
  have p: "sc_mul (last ms) (last xs) = Some p" "length p = 32" using last by (simp_all add: p_def sc_mul_bytes)
  have "lprod xs = lprod (butlast xs) * le_value (last xs)" using ne by (metis append_butlast_last_id lprod_simps(1-3) mult.right_neutral)
  moreover have "le_value p mod sc_l = le_value (last ms) mod sc_l * le_value (last xs) mod sc_l" by (simp add: p_def canonical_le_bytes mod_simps)
  ultimately have pv: "le_value p mod sc_l = lprod xs mod sc_l" by (simp add: last(2) mod_simps)
  define i where "i = sc_bytes (le_value p ^ nat (sc_l - 2))"
  have i: "sc_invert p = Some i" "length i = 32" "le_value i = le_value p ^ nat (sc_l - 2) mod sc_l"
    using p(2) by (simp_all add: i_def sc_invert_bytes' canonical_le_bytes)
  have run: "vec_invert xs = Some (map2 (\<lambda>m r. sc_bytes (le_value m * le_value i * le_value r)) ms (rev rs))"
    using False ms(2) rs(2) lens i(2) by (simp add: vec_invert_def ms(1) rs(1) p(1) i(1) invert_store_is)
  have prod: "lprod xs = lprod (take k xs) * le_value (xs ! k) * lprod (drop (Suc k) xs)" if "k < length xs" for k
    by (subst id_take_nth_drop [OF that]) (simp add: lprod_simps mult.assoc)
  have rk: "le_value (rev rs ! k) mod sc_l = lprod (drop (Suc k) xs) mod sc_l" if "k < length xs" for k
    using rs that lprod_simps(4) [of "drop (Suc k) xs"] by (simp add: rev_nth rev_drop [symmetric])
  have val: "le_value (ms ! k) * le_value i * le_value (rev rs ! k) mod sc_l
    = lprod (take k xs) * le_value i * lprod (drop (Suc k) xs) mod sc_l" if "k < length xs" for k
    using rk [OF that] ms(3) that by (intro mod_mult_cong) simp_all
  have "le_value (ms ! k) * le_value i * le_value (rev rs ! k) mod sc_l
    = (if \<forall>y \<in> set xs. le_value y mod sc_l \<noteq> 0 then le_value (xs ! k) ^ nat (sc_l - 2) else 0) mod sc_l" if k: "k < length xs" for k
  proof (cases "\<forall>y \<in> set xs. le_value y mod sc_l \<noteq> 0")
    case True
    then have "le_value (xs ! k) ^ nat (sc_l - 2) * le_value (xs ! k) mod sc_l = 1"
      using sc_inverse [of "le_value (xs ! k)"] k by (simp add: mod_simps)
    moreover have "lprod (take k xs) * le_value i * lprod (drop (Suc k) xs) * le_value (xs ! k) mod sc_l = 1"
    proof -
      have "le_value i * le_value p mod sc_l = 1" using sc_inverse [of "le_value p"] lprod_nonzero [OF True] by (simp add: i(3) pv)
      then have "le_value i * lprod xs mod sc_l = 1" by (metis pv mod_mult_right_eq)
      then show ?thesis unfolding prod [OF k] by (simp add: mult_ac)
    qed
    ultimately have "lprod (take k xs) * le_value i * lprod (drop (Suc k) xs) mod sc_l = le_value (xs ! k) ^ nat (sc_l - 2) mod sc_l"
      by (rule inverse_unique [rotated])
    then show ?thesis unfolding val [OF k] using True by simp
  next
    case F: False
    then have "le_value p mod sc_l = 0" using lprod_zero pv by auto
    then have "sc_l dvd le_value p ^ nat (sc_l - 2)" by (intro dvd_trans [OF _ dvd_power]) (simp_all add: mod_eq_0_iff_dvd sc_l_def)
    then have "le_value i = 0" by (simp add: i(3) mod_eq_0_iff_dvd)
    then show ?thesis using F by auto
  qed
  then show ?thesis
    unfolding run using False ms(2) rs(2)
    by (intro arg_cong [where f = Some] nth_equalityI) (simp_all add: mod_mod_trivial)
qed

text \<open>
  C28 (vec_invert_value). The inversion of a vector of scalars, with running products and one inversion, gives what the inversion of
  each element gives, if none of them is zero modulo the group order. If one is, every element becomes zero, except in a
  vector of one element.
\<close>

theorem vec_invert_value:
  assumes "\<forall>x \<in> set xs. length x = 32"
  shows "vec_invert xs =
    (if length xs < 2 \<or> (\<forall>x \<in> set xs. le_value x mod sc_l \<noteq> 0) then those (map sc_invert xs)
     else Some (replicate (length xs) (le_bytes 32 0)))"
proof -
  have "those (map sc_invert xs) = Some (map (\<lambda>x. sc_bytes (le_value x ^ nat (sc_l - 2))) xs)"
    using assms by (induction xs) (simp_all add: sc_invert_bytes')
  moreover have "sc_bytes 0 = le_bytes 32 0" by simp
  ultimately show ?thesis
    unfolding vec_invert_is [OF assms] by (cases "length xs < 2 \<or> (\<forall>y \<in> set xs. le_value y mod sc_l \<noteq> 0)") (simp_all only: if_True if_False map_replicate_const)
qed

theorem vec_invert_value_witness:
  "vec_invert [le_bytes 32 2, le_bytes 32 0] = Some [le_bytes 32 0, le_bytes 32 0]"
  using vec_invert_value [of "[le_bytes 32 2, le_bytes 32 0]"] by (simp add: le_value_le_bytes)

end
