(* ===== verification/Pos_Inequality.thy ===== *)
theory Pos_Inequality
  imports Scalar_Words
begin

text \<open>
  Proof of stake with hidden amounts, \<^verbatim>\<open>src/src/crypto/zarcanum.cpp\<close>: the inequality that a miner tests, the
  number \<open>d\<close> that a proof states and the range that a verifier accepts for it. The wide integers are
  Boost's, words here; division by zero is their exception.
\<close>

section \<open>Operations\<close>

definition c_zarcanum_z_coeff_mp :: "256 word" where
  "c_zarcanum_z_coeff_mp = 2 ^ 64"

definition as_uint256 :: "bytes \<Rightarrow> 256 word" where
  "as_uint256 s = word_of_int (le_value s)"

text \<open>The constructor of a scalar from a wide integer copies 256 bits and reduces them.\<close>

definition scalar_of_mp :: "256 word \<Rightarrow> bytes option" where
  "scalar_of_mp v = sc_reduce32 (le_bytes 32 (uint v))"

definition zarcanum_precalculate_l_div_z_D :: "128 word \<Rightarrow> 256 word outcome" where
  "zarcanum_precalculate_l_div_z_D pos_difficulty =
     (let zD = c_zarcanum_z_coeff_mp * ucast pos_difficulty in
      if zD = 0 then Throws else Returns (as_uint256 c_scalar_L div zD))"

definition zarcanum_precalculate_z_l_div_z_D :: "128 word \<Rightarrow> 256 word outcome" where
  "zarcanum_precalculate_z_l_div_z_D pos_difficulty =
     (let zD = c_zarcanum_z_coeff_mp * ucast pos_difficulty in
      if zD = 0 then Throws else Returns (c_zarcanum_z_coeff_mp * (as_uint256 c_scalar_L div zD)))"

text \<open>The result is true or false, with the two sides.\<close>

definition zarcanum_check_main_pos_inequality ::
  "bytes \<Rightarrow> bytes \<Rightarrow> bytes \<Rightarrow> bytes \<Rightarrow> 256 word \<Rightarrow> u64 \<Rightarrow> (bool \<times> 256 word \<times> 512 word) option" where
  "zarcanum_check_main_pos_inequality kernel_hash blinding_mask secret_q last_pow_block_id_hashed z_l_div_z_D stake_amount = do {
     h \<leftarrow> scalar_of_hash kernel_hash;
     s \<leftarrow> sc_add blinding_mask secret_q;
     s \<leftarrow> sc_add s last_pow_block_id_hashed;
     lhs_s \<leftarrow> sc_mul h s;
     let lhs = as_uint256 lhs_s;
     let rhs = (ucast z_l_div_z_D :: 512 word) * ucast stake_amount;
     Some (ucast lhs < rhs, lhs, rhs) }"

text \<open>The number \<open>d\<close> of a proof, from the left-hand side of the inequality (\<^verbatim>\<open>zarcanum_generate_proof\<close>).\<close>

definition zarcanum_proof_d :: "bytes \<Rightarrow> bytes \<Rightarrow> bytes \<Rightarrow> bytes \<Rightarrow> u64 \<Rightarrow> bytes outcome option" where
  "zarcanum_proof_d kernel_hash blinding_mask secret_q last_pow_block_id_hashed stake_amount = do {
     h \<leftarrow> scalar_of_hash kernel_hash;
     f_plus_q \<leftarrow> sc_add blinding_mask secret_q;
     f_plus_q_plus_fp \<leftarrow> sc_add f_plus_q last_pow_block_id_hashed;
     lhs \<leftarrow> sc_mul h f_plus_q_plus_fp;
     let za = c_zarcanum_z_coeff_mp * ucast stake_amount;
     if za = 0 then Some Throws
     else do {
       d \<leftarrow> scalar_of_mp (as_uint256 lhs div za + 1);
       Some (Returns d) } }"

text \<open>The first check of \<^verbatim>\<open>zarcanum_verify_proof\<close>; the exception of the division is caught there, with the result false.\<close>

definition zarcanum_check_d :: "128 word \<Rightarrow> bytes \<Rightarrow> bool option" where
  "zarcanum_check_d pos_difficulty d =
     (case zarcanum_precalculate_l_div_z_D pos_difficulty of
        Returns v \<Rightarrow> do {
          l_div_z_D \<leftarrow> scalar_of_mp v;
          z \<leftarrow> scalar_is_zero d;
          Some (\<not> z \<and> scalar_less d l_div_z_D) }
      | _ \<Rightarrow> Some False)"


section \<open>Values\<close>

lemma scalar_of_mp_is: "scalar_of_mp v = Some (sc_bytes (uint v))"
proof -
  have "uint v < 256 ^ 32" using uint_lt2p [of v] by simp
  then have "le_value (le_bytes 32 (uint v)) = uint v" by (simp add: le_value_le_bytes)
  then show ?thesis using scalar_of_hash_bytes [of "le_bytes 32 (uint v)"] by (simp add: scalar_of_mp_def scalar_of_hash_def)
qed

lemma as_uint256_value:
  assumes "length s = 32"
  shows "uint (as_uint256 s) = le_value s"
  using le_value_upper [of s] assms by (simp add: as_uint256_def uint_word_of_int)

text \<open>The products of Boost's integers never wrap.\<close>

lemma z_product:
  fixes v :: "128 word"
  shows "uint (c_zarcanum_z_coeff_mp * ucast v) = 2 ^ 64 * uint v"
proof -
  have "uint v < 2 ^ 128" using uint_lt2p [of v] by simp
  then show ?thesis by (simp add: c_zarcanum_z_coeff_mp_def uint_word_ariths unsigned_ucast_eq take_bit_eq_mod)
qed

lemma div_less_int:
  fixes t z k :: int
  assumes "0 < z"
  shows "t div z < k \<longleftrightarrow> t < k * z"
proof -
  have "k \<le> t div z \<longleftrightarrow> k * z \<le> t"
  proof
    assume "k \<le> t div z"
    then have "k * z \<le> t div z * z" using assms by simp
    then show "k * z \<le> t" using minus_mod_eq_div_mult [of t z] pos_mod_sign [OF assms, of t] by linarith
  next
    assume "k * z \<le> t"
    then have "k * z div z \<le> t div z" using assms by (rule zdiv_mono1)
    then show "k \<le> t div z" using assms by simp
  qed
  then show ?thesis by linarith
qed

lemma word_pos: "w \<noteq> 0 \<Longrightarrow> 1 \<le> uint w"
  using uint_0_iff [of w] uint_ge_0 [of w] by linarith

lemma zD_nonzero: "D \<noteq> 0 \<Longrightarrow> c_zarcanum_z_coeff_mp * ucast (D :: 128 word) \<noteq> 0"
  using z_product [of D] by (metis mult_eq_0_iff power_eq_0_iff unsigned_0 uint_0_iff zero_neq_numeral)

lemma div_coeff_bounds:
  assumes "1 \<le> n" and "0 \<le> t" and "t \<le> sc_l"
  shows "0 \<le> t div (2 ^ 64 * n)" and "t div (2 ^ 64 * n) < 2 ^ 189"
proof -
  have "t div (2 ^ 64 * n) \<le> t div 2 ^ 64" by (rule zdiv_mono2) (use assms in simp_all)
  also have "\<dots> \<le> sc_l div 2 ^ 64" by (rule zdiv_mono1) (use assms in simp_all)
  also have "\<dots> < 2 ^ 189" by (simp add: sc_l_def)
  finally show "t div (2 ^ 64 * n) < 2 ^ 189" .
  show "0 \<le> t div (2 ^ 64 * n)" using assms by (simp add: div_int_pos_iff)
qed

lemma l_div_z_D_value:
  assumes "D \<noteq> 0"
  shows "\<exists>v. zarcanum_precalculate_l_div_z_D D = Returns v \<and> uint v = sc_l div (2 ^ 64 * uint D)"
  using zD_nonzero [OF assms] z_product [of D] c_scalar_L_value
  by (simp add: zarcanum_precalculate_l_div_z_D_def uint_div as_uint256_value)

lemma z_l_div_z_D_value:
  assumes "D \<noteq> 0"
  shows "\<exists>v. zarcanum_precalculate_z_l_div_z_D D = Returns v \<and> uint v = 2 ^ 64 * (sc_l div (2 ^ 64 * uint D))"
proof -
  let ?q = "as_uint256 c_scalar_L div (c_zarcanum_z_coeff_mp * ucast D)"
  have q: "uint ?q = sc_l div (2 ^ 64 * uint D)" using z_product [of D] c_scalar_L_value by (simp add: uint_div as_uint256_value)
  have "2 ^ 64 * uint ?q < 2 ^ 256" using div_coeff_bounds(2) [OF word_pos [OF assms], of sc_l] by (simp add: q sc_l_def)
  then have "uint (c_zarcanum_z_coeff_mp * ?q) = 2 ^ 64 * uint ?q" by (simp add: uint_mult_lem [THEN iffD1] uint_word_ariths c_zarcanum_z_coeff_mp_def)
  then show ?thesis using zD_nonzero [OF assms] q by (simp add: zarcanum_precalculate_z_l_div_z_D_def Let_def)
qed

section \<open>The range of the number in a proof\<close>

text \<open>
  C27 (pos_proof_range). For every difficulty and stake that are not zero, the inequality that a miner tests holds exactly if the
  number \<open>d\<close> that its proof states is at most \<open>l div (z D)\<close>. The verifier, though, asks for a smaller one: of the stakes that
  satisfy the inequality it refuses those whose \<open>d\<close> is the bound itself.
\<close>

theorem pos_proof_range:
  assumes "length kernel_hash = 32" and "length f = 32" and "length q = 32" and "length f' = 32" and "D \<noteq> 0" and "a \<noteq> 0"
  shows "\<exists>v ok lhs rhs d. zarcanum_precalculate_z_l_div_z_D D = Returns v
    \<and> zarcanum_check_main_pos_inequality kernel_hash f q f' v a = Some (ok, lhs, rhs)
    \<and> zarcanum_proof_d kernel_hash f q f' a = Some (Returns d) \<and> canonical d
    \<and> le_value d = le_value kernel_hash * (le_value f + le_value q + le_value f') mod sc_l div (2 ^ 64 * uint a) + 1
    \<and> (ok \<longleftrightarrow> le_value d \<le> sc_l div (2 ^ 64 * uint D))
    \<and> zarcanum_check_d D d = Some (le_value d < sc_l div (2 ^ 64 * uint D))"
proof -
  define L where "L = sc_l div (2 ^ 64 * uint D)"
  have sc_l_pos: "0 < sc_l" by (simp add: sc_l_def)
  define t where "t = sc_bytes (le_value (sc_bytes (le_value kernel_hash)) * le_value (sc_bytes (le_value (sc_bytes (le_value f + le_value q)) + le_value f')))"
  have t: "length t = 32" "0 \<le> le_value t" "le_value t < sc_l" by (simp_all add: t_def canonical_le_bytes sc_l_pos)
  have ops: "scalar_of_hash kernel_hash = Some (sc_bytes (le_value kernel_hash))" "sc_add f q = Some (sc_bytes (le_value f + le_value q))"
    "sc_add (sc_bytes (le_value f + le_value q)) f' = Some (sc_bytes (le_value (sc_bytes (le_value f + le_value q)) + le_value f'))"
    "sc_mul (sc_bytes (le_value kernel_hash)) (sc_bytes (le_value (sc_bytes (le_value f + le_value q)) + le_value f')) = Some t"
    using assms by (simp_all add: scalar_of_hash_bytes sc_add_bytes sc_mul_bytes t_def)
  obtain v where v: "zarcanum_precalculate_z_l_div_z_D D = Returns v" "uint v = 2 ^ 64 * L" using z_l_div_z_D_value [OF assms(5)] by (auto simp: L_def)
  obtain u where u: "zarcanum_precalculate_l_div_z_D D = Returns u" "uint u = L" using l_div_z_D_value [OF assms(5)] by (auto simp: L_def)
  have a: "1 \<le> uint a" "uint a < 2 ^ 64" using word_pos [OF assms(6)] uint_lt2p [of a] by simp_all
  have L: "0 \<le> L" "L < 2 ^ 189" using div_coeff_bounds [OF word_pos [OF assms(5)], of sc_l] sc_l_pos by (simp_all add: L_def)
  define za where "za = c_zarcanum_z_coeff_mp * (ucast a :: 256 word)"
  have za: "uint za = 2 ^ 64 * uint a" using a by (simp add: za_def c_zarcanum_z_coeff_mp_def uint_word_ariths unsigned_ucast_eq take_bit_eq_mod)
  define k where "k = le_value t div uint za + 1"
  have k: "1 \<le> k" "k \<le> 2 ^ 189" using div_coeff_bounds [OF a(1) t(2)] t(3) by (simp_all add: k_def za)
  have small: "(2 :: int) ^ 189 < sc_l" by (simp add: sc_l_def)
  have km: "k mod sc_l = k" "L mod sc_l = L" using k L small by simp_all
  define d where "d = sc_bytes k"
  have d: "canonical d" "length d = 32" "le_value d = k" using canonical_le_bytes [of k] km by (simp_all add: d_def)
  have wide: "uint (as_uint256 t div za + 1) = k"
    using k by (simp add: uint_word_ariths uint_div as_uint256_value [OF t(1)] k_def)
  have pd: "zarcanum_proof_d kernel_hash f q f' a = Some (Returns d)"
    using a by (simp add: zarcanum_proof_d_def ops za_def [symmetric] scalar_of_mp_is wide d_def word_uint_eq_iff [of za] za)
  have cd: "zarcanum_check_d D d = Some (k < L)"
    using k L small by (simp add: zarcanum_check_d_def u scalar_of_mp_is scalar_is_zero_is [OF d(2)] scalar_less_is [OF d(2)] d(3) canonical_le_bytes(2) [of L, unfolded km(2)] km(2))
  have rhs: "uint ((ucast v :: 512 word) * ucast a) = 2 ^ 64 * L * uint a"
  proof -
    have "2 ^ 64 * L * uint a < 2 ^ 64 * 2 ^ 189 * 2 ^ 64" by (rule mult_strict_mono) (use L a in simp_all)
    moreover have "0 \<le> 2 ^ 64 * L * uint a" using L(1) a by simp
    moreover have "uint v < 2 ^ 253" using v(2) L by simp
    ultimately show ?thesis using a by (simp add: uint_word_ariths unsigned_ucast_eq take_bit_eq_mod v(2) mod_mult_left_eq)
  qed
  have lhs: "uint (ucast (as_uint256 t) :: 512 word) = le_value t"
    using t(2,3) small by (simp add: unsigned_ucast_eq take_bit_eq_mod as_uint256_value [OF t(1)] sc_l_def)
  have "le_value t < 2 ^ 64 * L * uint a \<longleftrightarrow> k \<le> L"
    using div_less_int [of "uint za" "le_value t" L] a by (auto simp: k_def za mult_ac)
  then have "zarcanum_check_main_pos_inequality kernel_hash f q f' v a
      = Some (k \<le> L, as_uint256 t, ucast v * ucast a)"
    by (simp add: zarcanum_check_main_pos_inequality_def ops word_less_def lhs rhs)
  moreover have "le_value t = le_value kernel_hash * (le_value f + le_value q + le_value f') mod sc_l"
    by (simp add: t_def canonical_le_bytes mod_simps)
  ultimately show ?thesis using v(1) pd cd d by (auto simp: L_def k_def za)
qed

theorem pos_proof_range_witness:
  "\<exists>v lhs rhs d. zarcanum_precalculate_z_l_div_z_D (- 1) = Returns v
    \<and> zarcanum_check_main_pos_inequality (le_bytes 32 1) (le_bytes 32 (2 ^ 64 * (sc_l div (2 ^ 64 * (2 ^ 128 - 1)) - 1))) (le_bytes 32 0) (le_bytes 32 0) v 1
        = Some (True, lhs, rhs)
    \<and> zarcanum_proof_d (le_bytes 32 1) (le_bytes 32 (2 ^ 64 * (sc_l div (2 ^ 64 * (2 ^ 128 - 1)) - 1))) (le_bytes 32 0) (le_bytes 32 0) 1 = Some (Returns d)
    \<and> zarcanum_check_d (- 1) d = Some False"
proof -
  have D: "(- 1 :: 128 word) \<noteq> 0" "uint (- 1 :: 128 word) = 2 ^ 128 - 1" by (simp_all add: unsigned_minus_1_eq_mask mask_eq_exp_minus_1)
  have f: "le_value (le_bytes 32 (2 ^ 64 * (sc_l div (2 ^ 64 * (2 ^ 128 - 1)) - 1))) = 2 ^ 64 * (sc_l div (2 ^ 64 * (2 ^ 128 - 1)) - 1)"
    by (simp add: le_value_le_bytes sc_l_def)
  have o: "le_value (le_bytes 32 1) = 1" "le_value (le_bytes 32 0) = 0" by (simp_all add: le_value_le_bytes)
  have e: "1 * (2 ^ 64 * (sc_l div (2 ^ 64 * (2 ^ 128 - 1)) - 1) + 0 + 0) mod sc_l div (2 ^ 64 * uint (1 :: u64)) + 1 = sc_l div (2 ^ 64 * (2 ^ 128 - 1))"
    by (simp add: sc_l_def)
  from pos_proof_range [of "le_bytes 32 1" "le_bytes 32 (2 ^ 64 * (sc_l div (2 ^ 64 * (2 ^ 128 - 1)) - 1))" "le_bytes 32 0" "le_bytes 32 0" "- 1" 1]
  show ?thesis unfolding f o e D(2) by auto
qed

end
