(* ===== verification/Tx_Data.thy ===== *)
theory Tx_Data
  imports Keys
begin

text \<open>
  Transactions, \<^verbatim>\<open>src/src/currency_core/currency_basic.h\<close>: inputs, outputs, references and the
  containers of payload, signatures and proofs.
\<close>

section \<open>The types of the elements of transactions\<close>

datatype item_type =
    T_tx_service_attachment | T_tx_comment | T_tx_payer_old | T_tx_receiver_old | T_tx_payer | T_tx_receiver
  | T_tx_derivation_hint | T_string | T_tx_crypto_checksum | T_etc_tx_time | T_etc_tx_details_unlock_time
  | T_etc_tx_details_unlock_time2 | T_etc_tx_details_expiration_time | T_etc_tx_details_flags | T_public_key
  | T_extra_attachment_info | T_extra_alias_entry_old | T_extra_user_data | T_extra_padding | T_etc_tx_flags16_t
  | T_extra_alias_entry | T_zarcanum_tx_data_v1 | T_asset_descriptor_operation | T_gateway_address_descriptor_operation
  | T_etc_coinbase_block_cumulative_size
  | T_txin_gen | T_txin_to_key | T_txin_multisig | T_txin_zc_input | T_txin_gateway
  | T_tx_out_bare | T_tx_out_zarcanum | T_tx_out_gateway
  | T_NLSAG_sig | T_void_sig | T_ZC_sig | T_zarcanum_sig | T_gateway_sig
  | T_zc_asset_surjection_proof | T_zc_outs_range_proof | T_zc_balance_proof | T_zc_gw_balance_proof
  | T_asset_operation_proof | T_asset_operation_ownership_proof | T_asset_operation_ownership_proof_eth
  | T_gateway_address_ownership_proof

text \<open>
  An element of the payload, of the signatures or of the proofs is a \<^verbatim>\<open>boost::variant\<close>: a type, the number
  of the types that wrap one (\<^verbatim>\<open>etc_tx_details_flags::v\<close> for example), and the rest of its content.
\<close>

datatype item = Item (item_type: item_type) (item_v: u64) (item_body: bytes)

section \<open>Inputs and outputs\<close>

datatype txout_ref_v = Ref_index u64 | Ref_by_id bytes u32

datatype txin_etc_details_v = Signed_parts u32 u32 | Etc_attachment_info u64 bytes u64

datatype txin_v =
    Txin_gen (gen_height: u64)
  | Txin_to_key (amount: u64) (key_offsets: "txout_ref_v list") (k_image: bytes) (etc_details: "txin_etc_details_v list")
  | Txin_multisig (amount: u64) (multisig_out_id: bytes) (sigs_count: u32) (etc_details: "txin_etc_details_v list")
  | Txin_gateway (gw_version: u8) (gateway_addr: bytes) (asset_id: bytes) (amount: u64)
  | Txin_zc_input (key_offsets: "txout_ref_v list") (k_image: bytes) (etc_details: "txin_etc_details_v list")

datatype txout_target_v = Txout_to_key bytes u8 | Txout_multisig u32 "bytes list"

datatype tx_out_v =
    Tx_out_bare (out_amount: u64) (target: txout_target_v)
  | Tx_out_zarcanum (stealth_address: bytes) (concealing_point: bytes) (amount_commitment: bytes) (blinded_asset_id: bytes)
      (encrypted_amount: u64) (encrypted_payment_id: u64) (mix_attr: u8) (out_version: u8)
  | Tx_out_gateway (out_version: u8) (out_gateway_addr: bytes) (out_asset_id: bytes) (out_amount: u64) (payment_id: u64)

record transaction =
  version :: u64
  hardfork_id :: u8
  vin :: "txin_v list"
  extra :: "item list"
  vout :: "tx_out_v list"
  attachment :: "item list"
  signatures :: "item list"
  proofs :: "item list"

fun txin_type :: "txin_v \<Rightarrow> item_type" where
  "txin_type (Txin_gen _) = T_txin_gen"
| "txin_type (Txin_to_key _ _ _ _) = T_txin_to_key"
| "txin_type (Txin_multisig _ _ _ _) = T_txin_multisig"
| "txin_type (Txin_gateway _ _ _ _) = T_txin_gateway"
| "txin_type (Txin_zc_input _ _ _) = T_txin_zc_input"

fun tx_out_type :: "tx_out_v \<Rightarrow> item_type" where
  "tx_out_type (Tx_out_bare _ _) = T_tx_out_bare"
| "tx_out_type (Tx_out_zarcanum _ _ _ _ _ _ _ _) = T_tx_out_zarcanum"
| "tx_out_type (Tx_out_gateway _ _ _ _ _) = T_tx_out_gateway"

section \<open>Constants\<close>

definition TRANSACTION_VERSION_PRE_HF4 :: u64 where "TRANSACTION_VERSION_PRE_HF4 = 1"
definition TRANSACTION_VERSION_POST_HF4 :: u64 where "TRANSACTION_VERSION_POST_HF4 = 2"
definition TRANSACTION_VERSION_POST_HF5 :: u64 where "TRANSACTION_VERSION_POST_HF5 = 3"
definition CURRENCY_TX_MAX_ALLOWED_INPUTS :: nat where "CURRENCY_TX_MAX_ALLOWED_INPUTS = 256"
definition CURRENCY_TX_MAX_ALLOWED_OUTS :: nat where "CURRENCY_TX_MAX_ALLOWED_OUTS = 32"
definition CURRENCY_TX_MAX_ALLOWED_OUTS_PRE_HF4 :: nat where "CURRENCY_TX_MAX_ALLOWED_OUTS_PRE_HF4 = 2000"
definition CURRENCY_MAX_TRANSACTION_BLOB_SIZE :: u64 where "CURRENCY_MAX_TRANSACTION_BLOB_SIZE = 125000 - 1100 * 2"
definition TX_FLAG_SIGNATURE_MODE_SEPARATE :: u64 where "TX_FLAG_SIGNATURE_MODE_SEPARATE = 1"

definition native_coin_asset_id_1div8 :: bytes where
  "native_coin_asset_id_1div8 =
     [0x74, 0xc3, 0x2d, 0x3e, 0xaa, 0xfa, 0xfc, 0x62, 0x3b, 0xf4, 0x83, 0xe8, 0x58, 0xd4, 0x2e, 0x8b,
      0xf4, 0xec, 0x7d, 0xf0, 0x64, 0xad, 0xa2, 0xe3, 0x49, 0x34, 0x46, 0x9c, 0xff, 0x6b, 0x62, 0x68]"

text \<open>The number of the first element of a type, 0 if there is none (\<^verbatim>\<open>get_tx_x_detail\<close>).\<close>

definition get_tx_x_detail :: "item_type \<Rightarrow> transaction \<Rightarrow> u64" where
  "get_tx_x_detail t tx = (case find (\<lambda>e. item_type e = t) (extra tx) of Some e \<Rightarrow> item_v e | None \<Rightarrow> 0)"

definition get_tx_flags :: "transaction \<Rightarrow> u64" where
  "get_tx_flags tx = get_tx_x_detail T_etc_tx_details_flags tx"

definition is_coinbase :: "transaction \<Rightarrow> bool" where
  "is_coinbase tx = (if vin tx = [] \<or> length (vin tx) > 2 then False else if txin_type (vin tx ! 0) \<noteq> T_txin_gen then False else True)"

definition is_pos_miner_tx :: "transaction \<Rightarrow> bool" where
  "is_pos_miner_tx tx =
     (length (vin tx) = 2 \<and> txin_type (vin tx ! 0) = T_txin_gen
      \<and> (txin_type (vin tx ! 1) = T_txin_to_key \<or> txin_type (vin tx ! 1) = T_txin_zc_input))"

end
