(* ===== verification/Hard_Forks.thy ===== *)
theory Hard_Forks
  imports Tx_Data
begin

text \<open>
  Hard forks: from which heights they are active and which elements of transactions each of them allows,
  \<^verbatim>\<open>src/src/currency_core/core_runtime_config.h\<close> and \<^verbatim>\<open>hardfork_specific_terms.h\<close>. The heights are those of the
  main network.
\<close>

unbundle bit_operations_syntax

section \<open>Heights\<close>

definition ZANO_HARDFORKS_TOTAL :: nat where "ZANO_HARDFORKS_TOTAL = 8"
definition CURRENCY_MAX_BLOCK_NUMBER :: u64 where "CURRENCY_MAX_BLOCK_NUMBER = 500000000"

record hard_forks_descriptor =
  m_height_the_hardfork_n_active_after :: "u64 list"

definition new_hard_forks :: hard_forks_descriptor where
  "new_hard_forks = \<lparr>m_height_the_hardfork_n_active_after = replicate ZANO_HARDFORKS_TOTAL CURRENCY_MAX_BLOCK_NUMBER\<rparr>"

fun set_previous :: "nat \<Rightarrow> u64 \<Rightarrow> u64 list \<Rightarrow> u64 list" where
  "set_previous 0 h m = m"
| "set_previous (Suc hid) h m =
     set_previous hid h (if m ! hid = CURRENCY_MAX_BLOCK_NUMBER then m[hid := h] else m)"

definition set_hardfork_height :: "nat \<Rightarrow> u64 \<Rightarrow> hard_forks_descriptor \<Rightarrow> hard_forks_descriptor outcome" where
  "set_hardfork_height hf_id height_the_hardfork_is_active_after d =
     (if \<not> hf_id < ZANO_HARDFORKS_TOTAL then Throws
      else
        let m = (m_height_the_hardfork_n_active_after d)[hf_id := height_the_hardfork_is_active_after]
        in Returns \<lparr>m_height_the_hardfork_n_active_after = set_previous hf_id height_the_hardfork_is_active_after m\<rparr>)"

definition is_hardfork_active_for_height :: "nat \<Rightarrow> u64 \<Rightarrow> hard_forks_descriptor \<Rightarrow> bool outcome" where
  "is_hardfork_active_for_height hf_id h d =
     (if hf_id = 0 then Returns True
      else if \<not> hf_id < ZANO_HARDFORKS_TOTAL then Throws
      else Returns (h > m_height_the_hardfork_n_active_after d ! hf_id))"

definition get_height_the_hardfork_active_after :: "nat \<Rightarrow> hard_forks_descriptor \<Rightarrow> u64 outcome" where
  "get_height_the_hardfork_active_after hf_id d =
     (if \<not> hf_id < ZANO_HARDFORKS_TOTAL then Throws else Returns (m_height_the_hardfork_n_active_after d ! hf_id))"

fun recent_loop :: "nat \<Rightarrow> u64 \<Rightarrow> hard_forks_descriptor \<Rightarrow> nat outcome" where
  "recent_loop 0 h d = Returns 0"
| "recent_loop (Suc n) h d =
     (case is_hardfork_active_for_height (Suc n) h d of
        Returns active \<Rightarrow> if active then Returns (Suc n) else recent_loop n h d
      | _ \<Rightarrow> Throws)"

definition get_the_most_recent_hardfork_id_for_height :: "u64 \<Rightarrow> hard_forks_descriptor \<Rightarrow> nat outcome" where
  "get_the_most_recent_hardfork_id_for_height h d = recent_loop (ZANO_HARDFORKS_TOTAL - 1) h d"

definition BLOCK_MAJOR_VERSION_INITIAL :: u8 where "BLOCK_MAJOR_VERSION_INITIAL = 0"
definition HF1_BLOCK_MAJOR_VERSION :: u8 where "HF1_BLOCK_MAJOR_VERSION = 1"
definition HF3_BLOCK_MAJOR_VERSION :: u8 where "HF3_BLOCK_MAJOR_VERSION = 2"
definition CURRENT_BLOCK_MAJOR_VERSION :: u8 where "CURRENT_BLOCK_MAJOR_VERSION = 3"

definition get_block_major_version_by_height :: "u64 \<Rightarrow> hard_forks_descriptor \<Rightarrow> u8 outcome" where
  "get_block_major_version_by_height h d =
     (case is_hardfork_active_for_height 1 h d of Returns a1 \<Rightarrow>
        if \<not> a1 then Returns BLOCK_MAJOR_VERSION_INITIAL
        else (case is_hardfork_active_for_height 3 h d of Returns a3 \<Rightarrow>
          if \<not> a3 then Returns HF1_BLOCK_MAJOR_VERSION
          else (case is_hardfork_active_for_height 4 h d of Returns a4 \<Rightarrow>
            if \<not> a4 then Returns HF3_BLOCK_MAJOR_VERSION
            else Returns CURRENT_BLOCK_MAJOR_VERSION
          | _ \<Rightarrow> Throws)
        | _ \<Rightarrow> Throws)
      | _ \<Rightarrow> Throws)"

section \<open>The main network\<close>

text \<open>The heights and, from the fifth hard fork on, the least versions of the program; the other entries are zero.\<close>

definition main_network_heights :: "(nat \<times> u64) list" where
  "main_network_heights =
     [(1, 194624), (2, 999999), (3, 1082577), (4, 2555000), (5, 3076400), (6, 3833000), (7, 3833000)]"

fun set_heights :: "(nat \<times> u64) list \<Rightarrow> hard_forks_descriptor \<Rightarrow> hard_forks_descriptor outcome" where
  "set_heights [] d = Returns d"
| "set_heights ((i, h) # hs) d = (case set_hardfork_height i h d of Returns d \<Rightarrow> set_heights hs d | _ \<Rightarrow> Throws)"

definition min_build_numbers_for_hard_forks :: "int list" where
  "min_build_numbers_for_hard_forks = [0, 0, 0, 0, 0, 382, 501, 600]"

definition get_min_allowed_build_version_for_height :: "u64 \<Rightarrow> hard_forks_descriptor \<Rightarrow> int outcome option" where
  "get_min_allowed_build_version_for_height upcoming_block_height d =
     outcome_bind (Some (get_the_most_recent_hardfork_id_for_height upcoming_block_height d)) (\<lambda>hid. do {
       v \<leftarrow> idx min_build_numbers_for_hard_forks hid;
       Some (Returns v) })"

definition CURRENCY_PRE_HARDFORK_TX_FREEZE_PERIOD :: u64 where "CURRENCY_PRE_HARDFORK_TX_FREEZE_PERIOD = 60"

text \<open>
  \<^verbatim>\<open>blockchain_storage::is_pre_hardfork_tx_freeze_period_active\<close>, of the number of blocks.
\<close>

definition is_pre_hardfork_tx_freeze_period_active :: "u64 \<Rightarrow> u64 \<Rightarrow> hard_forks_descriptor \<Rightarrow> bool outcome option" where
  "is_pre_hardfork_tx_freeze_period_active pre_hardfork_tx_freeze_period next_block_height d =
     outcome_bind (Some (is_hardfork_active_for_height 5 next_block_height d)) (\<lambda>active.
       if \<not> active then Some (Returns False)
       else outcome_bind (Some (get_the_most_recent_hardfork_id_for_height next_block_height d)) (\<lambda>current_hardfork_id.
         let next_hardfork_id = current_hardfork_id + 1 in
         if next_hardfork_id \<ge> ZANO_HARDFORKS_TOTAL then Some (Returns False)
         else do {
           next_hf_height_active_after \<leftarrow> idx (m_height_the_hardfork_n_active_after d) next_hardfork_id;
           Some (Returns (next_block_height + pre_hardfork_tx_freeze_period > next_hf_height_active_after)) }))"

section \<open>Terms\<close>

datatype allowance = no | one | many

definition c_input :: u8 where "c_input = 1"
definition c_output :: u8 where "c_output = 2"
definition c_extra :: u8 where "c_extra = 4"
definition c_attach :: u8 where "c_attach = 8"
definition c_signtr :: u8 where "c_signtr = 16"
definition c_proofs :: u8 where "c_proofs = 32"

text \<open>What each hard fork allows of a type, and the containers in which the type may stand.\<close>

fun hf_terms :: "item_type \<Rightarrow> allowance list \<times> u8" where
  "hf_terms T_tx_service_attachment = ([many, many, many, many, many, many, many, many, many], c_extra OR c_attach)"
| "hf_terms T_tx_comment = ([one, one, one, one, one, one, one, one, one], c_extra)"
| "hf_terms T_tx_payer_old = ([one, one, one, one, one, one, no, no, no], c_extra OR c_attach)"
| "hf_terms T_tx_receiver_old = ([one, one, one, one, one, one, no, no, no], c_extra OR c_attach)"
| "hf_terms T_tx_payer = ([no, no, one, one, one, one, no, no, no], c_extra OR c_attach)"
| "hf_terms T_tx_receiver = ([no, no, one, one, one, one, no, no, no], c_extra OR c_attach)"
| "hf_terms T_tx_derivation_hint = ([many, many, many, many, many, many, many, many, many], c_extra)"
| "hf_terms T_string = ([many, many, many, many, many, many, many, many, many], c_extra OR c_attach)"
| "hf_terms T_tx_crypto_checksum = ([many, many, many, many, many, many, many, many, many], c_extra OR c_attach)"
| "hf_terms T_etc_tx_time = ([one, one, one, one, one, one, one, one, one], c_extra)"
| "hf_terms T_etc_tx_details_unlock_time = ([one, one, one, one, one, one, no, no, no], c_extra)"
| "hf_terms T_etc_tx_details_unlock_time2 = ([no, one, one, one, one, one, no, no, no], c_extra)"
| "hf_terms T_etc_tx_details_expiration_time = ([one, one, one, one, one, one, one, one, one], c_extra)"
| "hf_terms T_etc_tx_details_flags = ([one, one, one, one, one, one, one, one, one], c_extra)"
| "hf_terms T_public_key = ([one, one, one, one, one, one, one, one, one], c_extra)"
| "hf_terms T_extra_attachment_info = ([one, one, one, one, one, one, one, one, one], c_extra)"
| "hf_terms T_extra_alias_entry_old = ([one, one, no, no, no, no, no, no, no], c_extra)"
| "hf_terms T_extra_user_data = ([one, one, one, one, one, one, one, one, one], c_extra)"
| "hf_terms T_extra_padding = ([one, one, one, one, one, one, one, one, one], c_extra)"
| "hf_terms T_etc_tx_flags16_t = ([one, one, one, one, one, one, one, one, one], c_extra)"
| "hf_terms T_extra_alias_entry = ([no, no, one, one, one, one, one, one, one], c_extra)"
| "hf_terms T_zarcanum_tx_data_v1 = ([no, no, no, no, one, one, one, one, one], c_extra)"
| "hf_terms T_asset_descriptor_operation = ([no, no, no, no, one, one, one, one, one], c_extra)"
| "hf_terms T_gateway_address_descriptor_operation = ([no, no, no, no, no, no, one, no, no], c_extra)"
| "hf_terms T_etc_coinbase_block_cumulative_size = ([no, no, no, no, no, no, one, one, one], c_extra)"
| "hf_terms T_txin_gen = ([one, one, one, one, one, one, one, one, one], c_input)"
| "hf_terms T_txin_to_key = ([many, many, many, many, many, many, many, many, many], c_input)"
| "hf_terms T_txin_multisig = ([many, many, many, many, many, many, many, many, many], c_input)"
| "hf_terms T_txin_zc_input = ([no, no, no, no, many, many, many, many, many], c_input)"
| "hf_terms T_txin_gateway = ([no, no, no, no, no, no, many, no, no], c_input)"
| "hf_terms T_tx_out_bare = ([many, many, many, many, no, no, no, no, no], c_output)"
| "hf_terms T_tx_out_zarcanum = ([no, no, no, no, many, many, many, many, many], c_output)"
| "hf_terms T_tx_out_gateway = ([no, no, no, no, no, no, many, no, no], c_output)"
| "hf_terms T_NLSAG_sig = ([many, many, many, many, many, many, many, many, many], c_signtr)"
| "hf_terms T_void_sig = ([no, no, no, no, many, many, many, many, many], c_signtr)"
| "hf_terms T_ZC_sig = ([no, no, no, no, many, many, many, many, many], c_signtr)"
| "hf_terms T_zarcanum_sig = ([no, no, no, no, many, many, many, many, many], c_signtr)"
| "hf_terms T_gateway_sig = ([no, no, no, no, no, no, many, no, no], c_signtr)"
| "hf_terms T_zc_asset_surjection_proof = ([no, no, no, no, many, many, many, many, many], c_proofs)"
| "hf_terms T_zc_outs_range_proof = ([no, no, no, no, many, many, many, many, many], c_proofs)"
| "hf_terms T_zc_balance_proof = ([no, no, no, no, one, one, one, one, one], c_proofs)"
| "hf_terms T_zc_gw_balance_proof = ([no, no, no, no, no, no, one, no, no], c_proofs)"
| "hf_terms T_asset_operation_proof = ([no, no, no, no, one, one, one, one, one], c_proofs)"
| "hf_terms T_asset_operation_ownership_proof = ([no, no, no, no, one, one, one, one, one], c_proofs)"
| "hf_terms T_asset_operation_ownership_proof_eth = ([no, no, no, no, one, one, one, one, one], c_proofs)"
| "hf_terms T_gateway_address_ownership_proof = ([no, no, no, no, no, no, one, no, no], c_proofs)"

text \<open>The visitor counts the elements of each type over all containers.\<close>

definition proxy_visitor :: "nat \<Rightarrow> u8 \<Rightarrow> item_type \<Rightarrow> (item_type \<Rightarrow> nat) \<Rightarrow> (bool \<times> (item_type \<Rightarrow> nat)) outcome" where
  "proxy_visitor current_hard_fork_id container_type t counts =
     (case hf_terms t of (hf, container_mask) \<Rightarrow>
        if container_type AND container_mask = 0 then Returns (False, counts)
        else
          let counts = counts(t := counts t + 1); type_count = counts t in
          if \<not> length hf > current_hard_fork_id then Throws
          else case hf ! current_hard_fork_id of
                 no \<Rightarrow> Returns (False, counts)
               | one \<Rightarrow> if type_count > 1 then Returns (False, counts) else Returns (True, counts)
               | many \<Rightarrow> Returns (True, counts))"

fun visit_elements :: "nat \<Rightarrow> (u8 \<times> item_type) list \<Rightarrow> (item_type \<Rightarrow> nat) \<Rightarrow> bool outcome" where
  "visit_elements hf [] counts = Returns True"
| "visit_elements hf ((c, t) # es) counts =
     (case proxy_visitor hf c t counts of
        Returns (ok, counts) \<Rightarrow> if \<not> ok then Returns False else visit_elements hf es counts
      | _ \<Rightarrow> Throws)"

text \<open>The loops over the containers, one after the other.\<close>

definition tx_elements :: "transaction \<Rightarrow> (u8 \<times> item_type) list" where
  "tx_elements tx =
     map (\<lambda>el. (c_extra, item_type el)) (extra tx) @ map (\<lambda>el. (c_attach, item_type el)) (attachment tx)
     @ map (\<lambda>el. (c_input, txin_type el)) (vin tx) @ map (\<lambda>el. (c_output, tx_out_type el)) (vout tx)
     @ map (\<lambda>el. (c_proofs, item_type el)) (proofs tx) @ map (\<lambda>el. (c_signtr, item_type el)) (signatures tx)"

definition validate_tx_for_hardfork_specific_terms_types_HF6 :: "transaction \<Rightarrow> nat \<Rightarrow> bool outcome" where
  "validate_tx_for_hardfork_specific_terms_types_HF6 tx current_hard_fork_id =
     visit_elements current_hard_fork_id (tx_elements tx) (\<lambda>_. 0)"


section \<open>Heights in order\<close>

text \<open>The heights never decrease, and entries that are not set yet come last.\<close>

definition heights_ordered :: "nat \<Rightarrow> u64 \<Rightarrow> hard_forks_descriptor \<Rightarrow> bool" where
  "heights_ordered n h d \<longleftrightarrow> (let m = m_height_the_hardfork_n_active_after d in
     length m = ZANO_HARDFORKS_TOTAL \<and> sorted m \<and> n \<le> ZANO_HARDFORKS_TOTAL
     \<and> (\<forall>i < n. m ! i \<le> h \<or> m ! i = CURRENCY_MAX_BLOCK_NUMBER) \<and> (\<forall>i < ZANO_HARDFORKS_TOTAL. n \<le> i \<longrightarrow> m ! i = CURRENCY_MAX_BLOCK_NUMBER))"

lemma set_previous_is:
  assumes "k \<le> length m"
  shows "set_previous k h m = map (\<lambda>i. if i < k \<and> m ! i = CURRENCY_MAX_BLOCK_NUMBER then h else m ! i) [0..<length m]"
  using assms
proof (induction k h m rule: set_previous.induct)
  case (1 h m)
  then show ?case by (simp add: map_nth)
next
  case (2 k h m)
  define m2 where "m2 = (if m ! k = CURRENCY_MAX_BLOCK_NUMBER then m[k := h] else m)"
  have len: "length m2 = length m" by (simp add: m2_def)
  have nth: "m2 ! i = (if i = k \<and> m ! i = CURRENCY_MAX_BLOCK_NUMBER then h else m ! i)" if "i < length m" for i
    using that by (cases "i = k") (auto simp: m2_def nth_list_update)
  have "set_previous (Suc k) h m = map (\<lambda>i. if i < k \<and> m2 ! i = CURRENCY_MAX_BLOCK_NUMBER then h else m2 ! i) [0..<length m]"
    using 2(1) [folded m2_def] 2(2) unfolding set_previous.simps m2_def [symmetric] len by simp
  also have "\<dots> = map (\<lambda>i. if i < Suc k \<and> m ! i = CURRENCY_MAX_BLOCK_NUMBER then h else m ! i) [0..<length m]"
    using nth by (intro map_cong) auto
  finally show ?case .
qed

lemma set_ordered:
  assumes "heights_ordered n h0 d" and "n \<le> i" and "i < ZANO_HARDFORKS_TOTAL" and "h0 \<le> h" and "h \<le> CURRENCY_MAX_BLOCK_NUMBER"
  shows "\<exists>d'. set_hardfork_height i h d = Returns d' \<and> heights_ordered (Suc i) h d'"
proof -
  let ?m = "m_height_the_hardfork_n_active_after d"
  have m: "length ?m = ZANO_HARDFORKS_TOTAL" "sorted ?m" "\<forall>i < n. ?m ! i \<le> h0 \<or> ?m ! i = CURRENCY_MAX_BLOCK_NUMBER"
    "\<forall>i < ZANO_HARDFORKS_TOTAL. n \<le> i \<longrightarrow> ?m ! i = CURRENCY_MAX_BLOCK_NUMBER"
    using assms(1) by (simp_all add: heights_ordered_def Let_def)
  define m' where "m' = set_previous i h (?m[i := h])"
  have m': "m' = map (\<lambda>j. if j < i \<and> ?m ! j = CURRENCY_MAX_BLOCK_NUMBER then h else if j = i then h else ?m ! j) [0..<ZANO_HARDFORKS_TOTAL]"
    unfolding m'_def using assms(3) m(1) by (subst set_previous_is) (auto simp: nth_list_update)
  have low: "?m ! j \<le> h \<or> ?m ! j = CURRENCY_MAX_BLOCK_NUMBER" if "j < ZANO_HARDFORKS_TOTAL" for j
    using m(3,4) that assms(4) by (cases "j < n") (auto intro: order_trans)
  have high: "?m ! j = CURRENCY_MAX_BLOCK_NUMBER" if "i \<le> j" "j < ZANO_HARDFORKS_TOTAL" for j
    using m(4) that assms(2) by simp
  have "sorted m'"
    unfolding sorted_iff_nth_mono
  proof (intro allI impI)
    fix a b
    assume ab: "a \<le> b" "b < length m'"
    then have b: "b < ZANO_HARDFORKS_TOTAL" by (simp add: m')
    have ge: "?m ! a \<le> ?m ! b" using m(1,2) ab(1) b by (simp add: sorted_iff_nth_mono)
    have f: "m' ! j = (if j < i \<and> ?m ! j = CURRENCY_MAX_BLOCK_NUMBER then h else if j = i then h else ?m ! j)" if "j \<le> b" for j
      using that b by (simp add: m')
    have top: "m' ! a \<le> CURRENCY_MAX_BLOCK_NUMBER" using low [of a] ab b assms(5) f [of a] by (auto intro: order_trans)
    have a_le: "m' ! a \<le> h" if "a \<le> i" using low [of a] ab b f [of a] that by auto
    consider "i < b" | "b = i" | "b < i" "?m ! b = CURRENCY_MAX_BLOCK_NUMBER" | "b < i" "?m ! b \<noteq> CURRENCY_MAX_BLOCK_NUMBER" by linarith
    then show "m' ! a \<le> m' ! b"
    proof cases
      case 1
      then show ?thesis using top high [of b] b f [of b] by simp
    next
      case 4
      then have "?m ! b \<le> h" using low [OF b] by simp
      then have "?m ! a \<noteq> CURRENCY_MAX_BLOCK_NUMBER" using ge 4 assms(5) by (metis order_antisym order_trans)
      then show ?thesis using 4 ge f [of a] f [of b] ab(1) by simp
    qed (use a_le ab(1) f [of b] in simp_all)
  qed
  moreover have "\<forall>j < Suc i. m' ! j \<le> h \<or> m' ! j = CURRENCY_MAX_BLOCK_NUMBER"
  proof (intro allI impI)
    fix j
    assume j: "j < Suc i"
    then have "j < ZANO_HARDFORKS_TOTAL" using assms(3) by simp
    then show "m' ! j \<le> h \<or> m' ! j = CURRENCY_MAX_BLOCK_NUMBER" using low [of j] j by (auto simp: m')
  qed
  moreover have "\<forall>j < ZANO_HARDFORKS_TOTAL. Suc i \<le> j \<longrightarrow> m' ! j = CURRENCY_MAX_BLOCK_NUMBER"
    unfolding m' using high by auto
  moreover have "length m' = ZANO_HARDFORKS_TOTAL" by (simp add: m')
  ultimately show ?thesis using assms(3) by (simp add: set_hardfork_height_def heights_ordered_def m'_def Let_def)
qed

fun ascending :: "nat \<Rightarrow> u64 \<Rightarrow> (nat \<times> u64) list \<Rightarrow> bool" where
  "ascending n h0 [] = True"
| "ascending n h0 ((i, h) # hs) = (n \<le> i \<and> i < ZANO_HARDFORKS_TOTAL \<and> h0 \<le> h \<and> h \<le> CURRENCY_MAX_BLOCK_NUMBER \<and> ascending (Suc i) h hs)"

lemma set_heights_ordered:
  assumes "heights_ordered n h0 d" and "ascending n h0 hs"
  shows "\<exists>d' n' h'. set_heights hs d = Returns d' \<and> heights_ordered n' h' d'"
  using assms
proof (induction n h0 hs arbitrary: d rule: ascending.induct)
  case (2 n h0 i h hs)
  obtain d1 where "set_hardfork_height i h d = Returns d1" "heights_ordered (Suc i) h d1" using set_ordered [OF 2(2)] 2(3) by auto
  then show ?case using 2(1) 2(3) by auto
qed auto

lemma new_ordered: "heights_ordered 0 0 new_hard_forks"
  by (simp add: heights_ordered_def new_hard_forks_def sorted_replicate)

lemma recent_loop_is:
  assumes "heights_ordered n0 h0 d" and "n < ZANO_HARDFORKS_TOTAL"
  shows "\<exists>k \<le> n. recent_loop n h d = Returns k
    \<and> (\<forall>i \<le> n. is_hardfork_active_for_height i h d = Returns (i \<le> k))"
  using assms(2)
proof (induction n)
  case 0
  then show ?case by (simp add: is_hardfork_active_for_height_def)
next
  case (Suc n)
  let ?m = "m_height_the_hardfork_n_active_after d"
  have s: "sorted ?m" "length ?m = ZANO_HARDFORKS_TOTAL" using assms(1) by (simp_all add: heights_ordered_def Let_def)
  have act: "is_hardfork_active_for_height i h d = Returns (i = 0 \<or> ?m ! i < h)" if "i \<le> Suc n" for i
    using that Suc.prems by (simp add: is_hardfork_active_for_height_def)
  show ?case
  proof (cases "?m ! Suc n < h")
    case True
    have "?m ! i \<le> ?m ! Suc n" if "i \<le> Suc n" for i using s Suc.prems that by (simp add: sorted_iff_nth_mono)
    then have "is_hardfork_active_for_height i h d = Returns True" if "i \<le> Suc n" for i
      using act [OF that] True that le_less_trans by auto
    then show ?thesis by (intro exI [of _ "Suc n"]) simp
  next
    case False
    obtain k where k: "k \<le> n" "recent_loop n h d = Returns k" "\<forall>i \<le> n. is_hardfork_active_for_height i h d = Returns (i \<le> k)"
      using Suc by auto
    have "is_hardfork_active_for_height (Suc n) h d = Returns False" using act [of "Suc n"] False by simp
    then show ?thesis using k by (intro exI [of _ k]) (auto simp: le_Suc_eq)
  qed
qed


section \<open>The visitor\<close>

definition element_allowed :: "nat \<Rightarrow> (item_type \<Rightarrow> nat) \<Rightarrow> u8 \<times> item_type \<Rightarrow> bool" where
  "element_allowed hf occurs e = (case e of (c, t) \<Rightarrow>
     c AND snd (hf_terms t) \<noteq> 0 \<and> fst (hf_terms t) ! hf \<noteq> no \<and> (fst (hf_terms t) ! hf = one \<longrightarrow> occurs t \<le> 1))"

lemma hf_terms_length: "length (fst (hf_terms t)) = 9"
  by (cases t) simp_all

lemma visit_elements_is:
  assumes "hf < 9"
  shows "visit_elements hf es counts = Returns (\<forall>e \<in> set es. element_allowed hf (\<lambda>t. counts t + count_list (map snd es) t) e)"
proof (induction es arbitrary: counts)
  case (Cons e es)
  obtain c t where e: "e = (c, t)" by fastforce
  obtain terms mask where tm: "hf_terms t = (terms, mask)" by fastforce
  have len: "hf < length terms" using hf_terms_length [of t] tm assms by simp
  define counts' where "counts' = counts(t := counts t + 1)"
  define T where "T = (\<lambda>u. counts u + count_list (map snd (e # es)) u)"
  have "(\<lambda>u. counts' u + count_list (map snd es) u) = T" by (auto simp: e T_def counts'_def)
  then have IH: "visit_elements hf es counts' = Returns (\<forall>x \<in> set es. element_allowed hf T x)" using Cons.IH [of counts'] by simp
  have Tt: "T t = counts t + 1 + count_list (map snd es) t" by (simp add: T_def e)
  have allowed: "element_allowed hf T (c', t) \<longleftrightarrow> c' AND mask \<noteq> 0 \<and> terms ! hf \<noteq> no \<and> (terms ! hf = one \<longrightarrow> T t \<le> 1)" for c'
    by (simp add: element_allowed_def tm)
  have step: "proxy_visitor hf c t counts =
      (if c AND mask = 0 then Returns (False, counts) else
       case terms ! hf of no \<Rightarrow> Returns (False, counts') | one \<Rightarrow> Returns (counts t = 0, counts') | many \<Rightarrow> Returns (True, counts'))"
    using len by (simp add: proxy_visitor_def tm counts'_def Let_def split: allowance.split)
  have goal: "visit_elements hf (e # es) counts = Returns (element_allowed hf T e \<and> (\<forall>x \<in> set es. element_allowed hf T x))"
  proof (cases "c AND mask = 0")
    case False
    show ?thesis
    proof (cases "terms ! hf")
      case one
      show ?thesis
      proof (cases "counts t = 0")
        case True
        have "element_allowed hf T e" if all: "\<forall>x \<in> set es. element_allowed hf T x"
        proof (cases "t \<in> snd ` set es")
          case True
          then obtain c' where "(c', t) \<in> set es" by auto
          then have "T t \<le> 1" using all one allowed by blast
          then show ?thesis using False one by (simp add: e allowed)
        next
          case no_more: False
          then have "count_list (map snd es) t = 0" by (simp add: count_list_0_iff)
          then show ?thesis using True False one by (simp add: e allowed Tt)
        qed
        then show ?thesis using step False one True IH by (auto simp: e)
      qed (use step False one Tt in \<open>simp add: e allowed\<close>)
    qed (use step False IH in \<open>simp_all add: e allowed\<close>)
  qed (use step in \<open>simp add: e allowed\<close>)
  then show ?case by (simp only: T_def list.set ball_simps)
qed simp


section \<open>Properties\<close>

text \<open>
  C13 (hard_forks_consistent). If the heights of the hard forks are set in ascending order and do not decrease, as for the main network, the
  two ways of asking agree for every block: a hard fork is active exactly if its number is at most the one of the most recent
  active hard fork, and the major version of the block follows from that number.
\<close>

theorem hard_forks_consistent:
  assumes "ascending 0 0 hs"
  shows "\<exists>d k. set_heights hs new_hard_forks = Returns d
    \<and> get_the_most_recent_hardfork_id_for_height h d = Returns k \<and> k < ZANO_HARDFORKS_TOTAL
    \<and> (\<forall>i < ZANO_HARDFORKS_TOTAL. is_hardfork_active_for_height i h d = Returns (i \<le> k))
    \<and> get_block_major_version_by_height h d = Returns (if k < 1 then 0 else if k < 3 then 1 else if k < 4 then 2 else 3)"
proof -
  obtain d n h' where d: "set_heights hs new_hard_forks = Returns d" "heights_ordered n h' d"
    using set_heights_ordered [OF new_ordered assms] by blast
  obtain k where k: "k \<le> 7" "recent_loop 7 h d = Returns k" "\<forall>i \<le> 7. is_hardfork_active_for_height i h d = Returns (i \<le> k)"
    using recent_loop_is [OF d(2), of 7 h] by (auto simp: ZANO_HARDFORKS_TOTAL_def)
  have "get_the_most_recent_hardfork_id_for_height h d = Returns k"
    using k(2) by (simp add: get_the_most_recent_hardfork_id_for_height_def ZANO_HARDFORKS_TOTAL_def)
  moreover have "get_block_major_version_by_height h d = Returns (if k < 1 then 0 else if k < 3 then 1 else if k < 4 then 2 else 3)"
  proof -
    have a: "is_hardfork_active_for_height 1 h d = Returns (1 \<le> k)" "is_hardfork_active_for_height 3 h d = Returns (3 \<le> k)"
      "is_hardfork_active_for_height 4 h d = Returns (4 \<le> k)" using k(3) by simp_all
    show ?thesis unfolding get_block_major_version_by_height_def a outcome.case BLOCK_MAJOR_VERSION_INITIAL_def HF1_BLOCK_MAJOR_VERSION_def
        HF3_BLOCK_MAJOR_VERSION_def CURRENT_BLOCK_MAJOR_VERSION_def by (simp add: not_le)
  qed
  moreover have "\<forall>i < ZANO_HARDFORKS_TOTAL. is_hardfork_active_for_height i h d = Returns (i \<le> k)"
    using k(3) by (simp add: ZANO_HARDFORKS_TOTAL_def)
  moreover have "k < ZANO_HARDFORKS_TOTAL" using k(1) by (simp add: ZANO_HARDFORKS_TOTAL_def)
  ultimately show ?thesis using d(1) by blast
qed

theorem hard_forks_consistent_witness:
  "\<exists>d k. set_heights main_network_heights new_hard_forks = Returns d
    \<and> get_the_most_recent_hardfork_id_for_height 3833001 d = Returns k"
proof -
  have "ascending 0 0 main_network_heights"
    by (simp add: main_network_heights_def ZANO_HARDFORKS_TOTAL_def CURRENCY_MAX_BLOCK_NUMBER_def)
  from hard_forks_consistent [OF this, of 3833001] show ?thesis by blast
qed

text \<open>
  C12 (hf_terms_decides). For each hard fork the check of the types of a transaction accepts exactly if every element of its six containers
  stands in a container for its type, the hard fork allows the type, and a type that it allows once occurs once in the whole
  transaction; the visitor does not throw.
\<close>

theorem hf_terms_decides:
  assumes "hf < 9"
  shows "validate_tx_for_hardfork_specific_terms_types_HF6 tx hf =
    Returns (\<forall>(c, t) \<in> set (tx_elements tx).
      c AND snd (hf_terms t) \<noteq> 0 \<and> fst (hf_terms t) ! hf \<noteq> no
      \<and> (fst (hf_terms t) ! hf = one \<longrightarrow> length (filter (\<lambda>e. snd e = t) (tx_elements tx)) \<le> 1))"
proof -
  have "count_list (map snd es) t = length (filter (\<lambda>e. snd e = t) es)" for es :: "(u8 \<times> item_type) list" and t
    by (induction es) auto
  then show ?thesis
    by (simp add: validate_tx_for_hardfork_specific_terms_types_HF6_def visit_elements_is [OF assms] element_allowed_def)
qed

theorem hf_terms_decides_witness:
  "validate_tx_for_hardfork_specific_terms_types_HF6
     \<lparr>version = 4, hardfork_id = 7, vin = [Txin_gateway 0 [] [] 1], extra = [], vout = [], attachment = [], signatures = [], proofs = []\<rparr> 7
   = Returns False"
  using hf_terms_decides [of 7 "\<lparr>version = 4, hardfork_id = 7, vin = [Txin_gateway 0 [] [] 1], extra = [], vout = [], attachment = [], signatures = [], proofs = []\<rparr>"]
  by (simp add: tx_elements_def)

end
