(* ===== verification/Tx_Semantic.thy ===== *)
theory Tx_Semantic
  imports Hard_Forks
begin

text \<open>
  The checks of a transaction that need no chain, \<^verbatim>\<open>src/src/currency_core/tx_semantic_validation.cpp\<close> with the functions
  it calls in \<^verbatim>\<open>currency_format_utils.cpp\<close>, and the order of inputs.
\<close>

section \<open>Sizes, types and keys\<close>

definition check_inputs_and_outputs_size :: "transaction \<Rightarrow> bool" where
  "check_inputs_and_outputs_size tx =
     (if \<not> length (vin tx) \<noteq> 0 then False
      else if \<not> (version tx < TRANSACTION_VERSION_POST_HF5 \<or> length (vin tx) \<le> CURRENCY_TX_MAX_ALLOWED_INPUTS) then False
      else
        let tx_max_allowed_outs =
          (if version tx \<ge> TRANSACTION_VERSION_POST_HF4 then CURRENCY_TX_MAX_ALLOWED_OUTS else CURRENCY_TX_MAX_ALLOWED_OUTS_PRE_HF4)
        in if \<not> length (vout tx) \<le> tx_max_allowed_outs then False else True)"

fun input_types_supported :: "txin_v list \<Rightarrow> bool" where
  "input_types_supported [] = True"
| "input_types_supported (i # is) =
     (if \<not> (txin_type i = T_txin_to_key \<or> txin_type i = T_txin_multisig \<or> txin_type i = T_txin_zc_input \<or> txin_type i = T_txin_gateway)
      then False else input_types_supported is)"

definition check_inputs_types_supported :: "transaction \<Rightarrow> bool" where
  "check_inputs_types_supported tx = input_types_supported (vin tx)"

definition is_ref_by_id :: "txout_ref_v \<Rightarrow> bool" where
  "is_ref_by_id r = (case r of Ref_by_id _ _ \<Rightarrow> True | Ref_index _ \<Rightarrow> False)"

definition additional_inputs_types_validations :: "transaction \<Rightarrow> bool" where
  "additional_inputs_types_validations tx =
     list_all (\<lambda>i. if hardfork_id tx > 4 \<and> (txin_type i = T_txin_to_key \<or> txin_type i = T_txin_zc_input)
                    then list_all (\<lambda>r. \<not> is_ref_by_id r) (key_offsets i) else True) (vin tx)"

text \<open>The check of a key is the decompression of a point, so it has an outer option.\<close>

definition and_then :: "bool outcome option \<Rightarrow> bool outcome option \<Rightarrow> bool outcome option" where
  "and_then m k = outcome_bind m (\<lambda>b. if b then k else Some (Returns False))"

definition key_ok :: "bytes \<Rightarrow> bool outcome option" where
  "key_ok k = do { b \<leftarrow> check_key k; Some (Returns b) }"

fun check_out :: "tx_out_v \<Rightarrow> bool outcome option" where
  "check_out (Tx_out_bare am t) =
     (if \<not> 0 < am then Some (Returns False)
      else case t of
             Txout_to_key key _ \<Rightarrow> key_ok key
           | Txout_multisig minimum_sigs keys \<Rightarrow>
               if \<not> (length keys > 0 \<and> minimum_sigs > 0 \<and> unat minimum_sigs \<le> length keys)
               then Some (Returns False) else Some (Returns True))"
| "check_out (Tx_out_zarcanum stealth concealing commitment blinded _ _ _ _) =
     and_then (key_ok stealth) (and_then (key_ok concealing) (and_then (key_ok commitment) (key_ok blinded)))"
| "check_out (Tx_out_gateway _ _ _ _ _) = Some (Returns True)"

fun check_outs :: "tx_out_v list \<Rightarrow> bool outcome option" where
  "check_outs [] = Some (Returns True)"
| "check_outs (out # outs) = and_then (check_out out) (check_outs outs)"

definition check_outs_valid :: "transaction \<Rightarrow> bool outcome option" where
  "check_outs_valid tx = check_outs (vout tx)"

section \<open>Amounts\<close>

text \<open>\<^verbatim>\<open>None\<close> is an input of another type.\<close>

fun bare_input_amount :: "txin_v \<Rightarrow> u64 option" where
  "bare_input_amount (Txin_to_key am _ _ _) = Some am"
| "bare_input_amount (Txin_multisig am _ _ _) = Some am"
| "bare_input_amount (Txin_zc_input _ _ _) = Some 0"
| "bare_input_amount (Txin_gateway _ _ asset am) = Some (if asset = native_coin_asset_id_1div8 then am else 0)"
| "bare_input_amount (Txin_gen _) = None"

fun inputs_overflow_loop :: "u64 \<Rightarrow> txin_v list \<Rightarrow> bool" where
  "inputs_overflow_loop money [] = True"
| "inputs_overflow_loop money (i # is) =
     (case bare_input_amount i of None \<Rightarrow> False
      | Some this_amount \<Rightarrow> if money > this_amount + money then False else inputs_overflow_loop (money + this_amount) is)"

definition check_bare_inputs_overflow :: "transaction \<Rightarrow> bool" where
  "check_bare_inputs_overflow tx = inputs_overflow_loop 0 (vin tx)"

fun bare_output_amount :: "tx_out_v \<Rightarrow> u64" where
  "bare_output_amount (Tx_out_bare am _) = am"
| "bare_output_amount (Tx_out_gateway _ _ asset am _) = (if asset = native_coin_asset_id_1div8 then am else 0)"
| "bare_output_amount (Tx_out_zarcanum _ _ _ _ _ _ _ _) = 0"

fun outs_overflow_loop :: "u64 \<Rightarrow> tx_out_v list \<Rightarrow> bool" where
  "outs_overflow_loop money [] = True"
| "outs_overflow_loop money (out # outs) =
     (let this_amount = bare_output_amount out in
      if money > this_amount + money then False else outs_overflow_loop (money + this_amount) outs)"

definition check_bare_outs_overflow :: "transaction \<Rightarrow> bool" where
  "check_bare_outs_overflow tx = outs_overflow_loop 0 (vout tx)"

definition check_bare_money_overflow :: "transaction \<Rightarrow> bool" where
  "check_bare_money_overflow tx = (check_bare_inputs_overflow tx \<and> check_bare_outs_overflow tx)"

fun get_amount_from_variant :: "txin_v \<Rightarrow> u64" where
  "get_amount_from_variant (Txin_to_key am _ _ _) = am"
| "get_amount_from_variant (Txin_multisig am _ _ _) = am"
| "get_amount_from_variant (Txin_gateway _ _ _ am) = am"
| "get_amount_from_variant (Txin_zc_input _ _ _) = 0"
| "get_amount_from_variant (Txin_gen _) = 0"

definition get_inputs_money_amount :: "transaction \<Rightarrow> u64" where
  "get_inputs_money_amount tx = fold (\<lambda>i money. money + get_amount_from_variant i) (vin tx) 0"

text \<open>\<^verbatim>\<open>get_outs_money_amount\<close> without keys: only open amounts count.\<close>

fun open_amount :: "tx_out_v \<Rightarrow> u64" where
  "open_amount (Tx_out_bare am _) = am"
| "open_amount _ = 0"

definition get_outs_money_amount :: "transaction \<Rightarrow> u64" where
  "get_outs_money_amount tx = fold (\<lambda>out outputs_amount. outputs_amount + open_amount out) (vout tx) 0"

definition check_tx_bare_balance :: "transaction \<Rightarrow> u64 \<Rightarrow> bool" where
  "check_tx_bare_balance tx additional_inputs_amount_and_fees_for_mining_tx =
     (if \<not> version tx \<le> TRANSACTION_VERSION_PRE_HF4 then False
      else
        let bare_outputs_sum = get_outs_money_amount tx; bare_inputs_sum = get_inputs_money_amount tx in
        if additional_inputs_amount_and_fees_for_mining_tx = 0
        then if \<not> bare_inputs_sum \<ge> bare_outputs_sum then False else True
        else if \<not> bare_inputs_sum + additional_inputs_amount_and_fees_for_mining_tx = bare_outputs_sum then False else True)"

section \<open>Key images and payload\<close>

fun keyimages_diff_loop :: "bytes set \<Rightarrow> bytes set \<Rightarrow> txin_v list \<Rightarrow> bool" where
  "keyimages_diff_loop key_images multisig_out_ids [] = True"
| "keyimages_diff_loop key_images multisig_out_ids (i # is) =
     (case i of
        Txin_zc_input _ ki _ \<Rightarrow> if ki \<in> key_images then False else keyimages_diff_loop (insert ki key_images) multisig_out_ids is
      | Txin_to_key _ _ ki _ \<Rightarrow> if ki \<in> key_images then False else keyimages_diff_loop (insert ki key_images) multisig_out_ids is
      | Txin_multisig _ m _ _ \<Rightarrow> if m \<in> multisig_out_ids then False else keyimages_diff_loop key_images (insert m multisig_out_ids) is
      | _ \<Rightarrow> keyimages_diff_loop key_images multisig_out_ids is)"

definition check_tx_inputs_keyimages_diff :: "transaction \<Rightarrow> bool" where
  "check_tx_inputs_keyimages_diff tx = keyimages_diff_loop {} {} (vin tx)"

record tx_extra_handler =
  was_padding :: bool
  was_pubkey :: bool
  was_attachment :: bool
  was_userdata :: bool
  was_alias :: bool
  was_asset :: bool
  was_gateway :: bool

definition new_extra_handler :: tx_extra_handler where
  "new_extra_handler = \<lparr>was_padding = False, was_pubkey = False, was_attachment = False, was_userdata = False,
     was_alias = False, was_asset = False, was_gateway = False\<rparr>"

definition tx_extra_visit :: "item_type \<Rightarrow> tx_extra_handler \<Rightarrow> tx_extra_handler option" where
  "tx_extra_visit t h =
     (case t of
        T_public_key \<Rightarrow> if was_pubkey h then None else Some (h\<lparr>was_pubkey := True\<rparr>)
      | T_extra_attachment_info \<Rightarrow> if was_attachment h then None else Some (h\<lparr>was_attachment := True\<rparr>)
      | T_extra_alias_entry \<Rightarrow> if was_alias h then None else Some (h\<lparr>was_alias := True\<rparr>)
      | T_extra_alias_entry_old \<Rightarrow> if was_alias h then None else Some (h\<lparr>was_alias := True\<rparr>)
      | T_asset_descriptor_operation \<Rightarrow> if was_asset h then None else Some (h\<lparr>was_asset := True\<rparr>)
      | T_gateway_address_descriptor_operation \<Rightarrow> if was_gateway h then None else Some (h\<lparr>was_gateway := True\<rparr>)
      | T_extra_user_data \<Rightarrow> if was_userdata h then None else Some (h\<lparr>was_userdata := True\<rparr>)
      | T_extra_padding \<Rightarrow> if was_padding h then None else Some (h\<lparr>was_padding := True\<rparr>)
      | _ \<Rightarrow> Some h)"

fun tx_extra_loop :: "item list \<Rightarrow> tx_extra_handler \<Rightarrow> bool" where
  "tx_extra_loop [] h = True"
| "tx_extra_loop (e # es) h = (case tx_extra_visit (item_type e) h of None \<Rightarrow> False | Some h \<Rightarrow> tx_extra_loop es h)"

definition check_tx_extra :: "transaction \<Rightarrow> bool" where
  "check_tx_extra tx = tx_extra_loop (extra tx) new_extra_handler"

section \<open>All checks\<close>

definition check_that :: "bool \<Rightarrow> bool outcome option" where
  "check_that b = Some (Returns b)"

definition validate_tx_semantic :: "transaction \<Rightarrow> u64 \<Rightarrow> bool outcome option" where
  "validate_tx_semantic tx tx_blob_size =
     (if tx_blob_size \<ge> CURRENCY_MAX_TRANSACTION_BLOB_SIZE then Some (Returns False)
      else if \<not> check_inputs_and_outputs_size tx then Some (Returns False)
      else and_then
        (if hardfork_id tx \<ge> 6
         then Some (validate_tx_for_hardfork_specific_terms_types_HF6 tx (unat (hardfork_id tx)))
         else check_that (check_inputs_types_supported tx))
        (and_then (check_that (additional_inputs_types_validations tx))
        (and_then (check_outs_valid tx)
        (and_then (check_that (check_bare_money_overflow tx))
        (and_then (check_that (check_tx_inputs_keyimages_diff tx))
        (and_then (check_that (check_tx_extra tx))
        (if version tx \<le> TRANSACTION_VERSION_PRE_HF4 then check_that (check_tx_bare_balance tx 0)
         else check_that True)))))))"

section \<open>The order of inputs\<close>

text \<open>The comparison of \<^verbatim>\<open>memcmp\<close>, and the tags of the types.\<close>

fun memcmp_less :: "bytes \<Rightarrow> bytes \<Rightarrow> bool" where
  "memcmp_less (x # xs) (y # ys) = (if x < y then True else if x > y then False else memcmp_less xs ys)"
| "memcmp_less _ _ = False"

fun txin_tag :: "txin_v \<Rightarrow> nat" where
  "txin_tag (Txin_gen _) = 0"
| "txin_tag (Txin_to_key _ _ _ _) = 1"
| "txin_tag (Txin_multisig _ _ _ _) = 2"
| "txin_tag (Txin_zc_input _ _ _) = 37"
| "txin_tag (Txin_gateway _ _ _ _) = 65"

fun less_txin_v :: "txin_v \<Rightarrow> txin_v \<Rightarrow> bool" where
  "less_txin_v (Txin_gateway _ a _ _) (Txin_gateway _ b _ _) = memcmp_less a b"
| "less_txin_v (Txin_multisig _ a _ _) (Txin_multisig _ b _ _) = memcmp_less a b"
| "less_txin_v (Txin_gen a) (Txin_gen b) = (a < b)"
| "less_txin_v (Txin_to_key _ _ a _) (Txin_to_key _ _ b _) = memcmp_less a b"
| "less_txin_v (Txin_zc_input _ a _) (Txin_zc_input _ b _) = memcmp_less a b"
| "less_txin_v left right = (txin_tag left < txin_tag right)"

fun sorting_loop :: "txin_v list \<Rightarrow> bool" where
  "sorting_loop (a # b # is) = (if less_txin_v b a then False else sorting_loop (b # is))"
| "sorting_loop _ = True"

definition validate_inputs_sorting :: "transaction \<Rightarrow> bool" where
  "validate_inputs_sorting tx =
     (if get_tx_flags tx AND TX_FLAG_SIGNATURE_MODE_SEPARATE \<noteq> 0 then True else sorting_loop (vin tx))"


section \<open>Amounts do not overflow\<close>

lemma inputs_overflow_is:
  "inputs_overflow_loop money is \<longleftrightarrow> (\<forall>i \<in> set is. bare_input_amount i \<noteq> None)
    \<and> uint money + (\<Sum>i\<leftarrow>is. uint (the (bare_input_amount i))) < 2 ^ 64"
proof (induction "is" arbitrary: money)
  case Nil
  then show ?case using uint_lt2p [of money] by simp
next
  case (Cons i "is")
  show ?case
  proof (cases "bare_input_amount i")
    case (Some am)
    have nn: "0 \<le> (\<Sum>i\<leftarrow>is. uint (the (bare_input_amount i)))" by (intro sum_list_nonneg) auto
    show ?thesis
    proof (cases "uint money + uint am < 2 ^ 64")
      case True
      then have "uint (money + am) = uint money + uint am" by (simp add: uint_add_lem [THEN iffD1])
      then have "\<not> money > am + money" by (simp add: word_less_def add.commute)
      then show ?thesis using Some Cons [of "money + am"] \<open>uint (money + am) = _\<close> by (simp add: add.assoc)
    next
      case False
      then have "uint (am + money) = uint am + uint money - 2 ^ 64"
        by (simp add: uint_plus_if' add.commute)
      then have "money > am + money" using uint_lt2p [of am] by (simp add: word_less_def)
      then show ?thesis using Some False nn by simp
    qed
  qed simp
qed

lemma outs_overflow_is:
  "outs_overflow_loop money outs \<longleftrightarrow> uint money + (\<Sum>out\<leftarrow>outs. uint (bare_output_amount out)) < 2 ^ 64"
proof (induction outs arbitrary: money)
  case Nil
  then show ?case using uint_lt2p [of money] by simp
next
  case (Cons out outs)
  let ?am = "bare_output_amount out"
  have nn: "0 \<le> (\<Sum>out\<leftarrow>outs. uint (bare_output_amount out))" by (intro sum_list_nonneg) auto
  show ?case
  proof (cases "uint money + uint ?am < 2 ^ 64")
    case True
    then have u: "uint (money + ?am) = uint money + uint ?am" by (simp add: uint_add_lem [THEN iffD1])
    then have "\<not> money > ?am + money" by (simp add: word_less_def add.commute)
    then show ?thesis using Cons [of "money + ?am"] u by (simp add: Let_def add.assoc)
  next
    case False
    then have "uint (?am + money) = uint ?am + uint money - 2 ^ 64"
      by (simp add: uint_plus_if' add.commute)
    then have "money > ?am + money" using uint_lt2p [of ?am] by (simp add: word_less_def)
    then show ?thesis using False nn by (simp add: Let_def)
  qed
qed

lemma fold_sum:
  fixes f :: "'a \<Rightarrow> u64"
  assumes "uint money + (\<Sum>x\<leftarrow>xs. uint (f x)) < 2 ^ 64"
  shows "uint (fold (\<lambda>x money. money + f x) xs money) = uint money + (\<Sum>x\<leftarrow>xs. uint (f x))"
  using assms
proof (induction xs arbitrary: money)
  case (Cons x xs)
  have "0 \<le> (\<Sum>x\<leftarrow>xs. uint (f x))" by (intro sum_list_nonneg) auto
  then have "uint (money + f x) = uint money + uint (f x)" using Cons.prems by (simp add: uint_add_lem [THEN iffD1])
  then show ?case using Cons.IH [of "money + f x"] Cons.prems by simp
qed simp

section \<open>Key images and payload\<close>

definition spent_key_images :: "txin_v list \<Rightarrow> bytes list" where
  "spent_key_images is = map k_image (filter (\<lambda>i. txin_type i = T_txin_to_key \<or> txin_type i = T_txin_zc_input) is)"

definition spent_multisig_ids :: "txin_v list \<Rightarrow> bytes list" where
  "spent_multisig_ids is = map multisig_out_id (filter (\<lambda>i. txin_type i = T_txin_multisig) is)"

lemma keyimages_diff_is:
  "keyimages_diff_loop ki ms is \<longleftrightarrow> distinct (spent_key_images is) \<and> set (spent_key_images is) \<inter> ki = {}
    \<and> distinct (spent_multisig_ids is) \<and> set (spent_multisig_ids is) \<inter> ms = {}"
proof (induction "is" arbitrary: ki ms)
  case (Cons i "is")
  then show ?case by (cases i) (auto simp: spent_key_images_def spent_multisig_ids_def)
qed (simp add: spent_key_images_def spent_multisig_ids_def)

text \<open>The types of which the payload may hold one element only; both versions of an alias count as one.\<close>

fun extra_slot :: "item_type \<Rightarrow> item_type option" where
  "extra_slot T_public_key = Some T_public_key"
| "extra_slot T_extra_attachment_info = Some T_extra_attachment_info"
| "extra_slot T_extra_alias_entry = Some T_extra_alias_entry"
| "extra_slot T_extra_alias_entry_old = Some T_extra_alias_entry"
| "extra_slot T_asset_descriptor_operation = Some T_asset_descriptor_operation"
| "extra_slot T_gateway_address_descriptor_operation = Some T_gateway_address_descriptor_operation"
| "extra_slot T_extra_user_data = Some T_extra_user_data"
| "extra_slot T_extra_padding = Some T_extra_padding"
| "extra_slot _ = None"

definition extra_slots :: "item list \<Rightarrow> item_type list" where
  "extra_slots es = List.map_filter (\<lambda>e. extra_slot (item_type e)) es"

definition was_seen :: "tx_extra_handler \<Rightarrow> item_type set" where
  "was_seen h = {t. (t = T_public_key \<and> was_pubkey h) \<or> (t = T_extra_attachment_info \<and> was_attachment h) \<or> (t = T_extra_alias_entry \<and> was_alias h)
     \<or> (t = T_asset_descriptor_operation \<and> was_asset h) \<or> (t = T_gateway_address_descriptor_operation \<and> was_gateway h)
     \<or> (t = T_extra_user_data \<and> was_userdata h) \<or> (t = T_extra_padding \<and> was_padding h)}"

lemma tx_extra_visit_is:
  "case extra_slot t of
      None \<Rightarrow> tx_extra_visit t h = Some h
    | Some s \<Rightarrow> (if s \<in> was_seen h then tx_extra_visit t h = None
        else \<exists>h'. tx_extra_visit t h = Some h' \<and> was_seen h' = insert s (was_seen h))"
  by (cases t) (auto simp: tx_extra_visit_def was_seen_def)

lemma extra_slots_simps:
  "extra_slots [] = []"
  "extra_slots (e # es) = (case extra_slot (item_type e) of None \<Rightarrow> extra_slots es | Some s \<Rightarrow> s # extra_slots es)"
  by (simp_all add: extra_slots_def map_filter_simps split: option.split)

lemma tx_extra_loop_is:
  "tx_extra_loop es h \<longleftrightarrow> distinct (extra_slots es) \<and> set (extra_slots es) \<inter> was_seen h = {}"
proof (induction es arbitrary: h)
  case (Cons e es)
  show ?case
  proof (cases "extra_slot (item_type e)")
    case None
    then show ?thesis using tx_extra_visit_is [of "item_type e" h] Cons by (simp add: extra_slots_simps)
  next
    case (Some s)
    show ?thesis
    proof (cases "s \<in> was_seen h")
      case True
      then show ?thesis using tx_extra_visit_is [of "item_type e" h] Some by (simp add: extra_slots_simps)
    next
      case False
      then obtain h' where h': "tx_extra_visit (item_type e) h = Some h'" "was_seen h' = insert s (was_seen h)"
        using tx_extra_visit_is [of "item_type e" h] Some by auto
      then show ?thesis using Cons [of h'] Some False by (auto simp: extra_slots_simps)
    qed
  qed
qed (simp add: extra_slots_simps)

section \<open>Outputs\<close>

definition decodable :: "bytes \<Rightarrow> bool" where
  "decodable key \<longleftrightarrow> (\<exists>g. key = ed_encode g)"

fun out_keys :: "tx_out_v \<Rightarrow> bytes list" where
  "out_keys (Tx_out_bare _ (Txout_to_key key _)) = [key]"
| "out_keys (Tx_out_zarcanum stealth concealing commitment blinded _ _ _ _) = [stealth, concealing, commitment, blinded]"
| "out_keys _ = []"

fun out_ok :: "tx_out_v \<Rightarrow> bool" where
  "out_ok (Tx_out_bare am (Txout_to_key key _)) \<longleftrightarrow> 0 < am \<and> decodable key"
| "out_ok (Tx_out_bare am (Txout_multisig minimum_sigs keys)) \<longleftrightarrow> 0 < am \<and> 0 < minimum_sigs \<and> unat minimum_sigs \<le> length keys"
| "out_ok (Tx_out_zarcanum stealth concealing commitment blinded _ _ _ _) \<longleftrightarrow>
     decodable stealth \<and> decodable concealing \<and> decodable commitment \<and> decodable blinded"
| "out_ok (Tx_out_gateway _ _ _ _ _) \<longleftrightarrow> True"

lemma and_then_Returns [simp]: "and_then (Some (Returns a)) k = (if a then k else Some (Returns False))"
  by (simp add: and_then_def)

lemma key_ok_is: "length key = 32 \<Longrightarrow> key_ok key = Some (Returns (decodable key))"
  by (simp add: key_ok_def check_key_is decodable_def)

lemma check_out_is: "\<forall>key \<in> set (out_keys out). length key = 32 \<Longrightarrow> check_out out = Some (Returns (out_ok out))"
proof (cases out)
  case (Tx_out_bare am t)
  assume "\<forall>key \<in> set (out_keys out). length key = 32"
  moreover have "0 < m \<and> unat m \<le> n \<Longrightarrow> 0 < n" for m :: u32 and n by (metis unat_gt_0 gr_zeroI le_zero_eq less_irrefl)
  ultimately show ?thesis using Tx_out_bare by (cases t) (auto simp: key_ok_is)
qed (auto simp: key_ok_is)

lemma check_outs_is:
  "\<forall>out \<in> set outs. \<forall>key \<in> set (out_keys out). length key = 32 \<Longrightarrow> check_outs outs = Some (Returns (\<forall>out \<in> set outs. out_ok out))"
  by (induction outs) (simp_all add: check_out_is)

section \<open>The order\<close>

definition bytes_rank :: "bytes \<Rightarrow> int" where
  "bytes_rank xs = le_value (rev xs)"

lemma memcmp_less_is: "length xs = length ys \<Longrightarrow> memcmp_less xs ys \<longleftrightarrow> bytes_rank xs < bytes_rank ys"
proof (induction xs ys rule: memcmp_less.induct)
  case (1 x xs y ys)
  have rank: "bytes_rank (z # zs) = le_value (rev zs) + 256 ^ length zs * uint z" for z zs by (simp add: bytes_rank_def le_value_append)
  have b: "0 \<le> le_value (rev zs)" "le_value (rev zs) < 256 ^ length zs" for zs using le_value_upper [of "rev zs"] by simp_all
  have less: "bytes_rank (z # zs) < bytes_rank (w # ws)" if "z < w" "length zs = length ws" for z w zs ws
  proof -
    have "256 ^ length ws * (uint z + 1) \<le> 256 ^ length ws * uint w"
      using that(1) by (intro mult_left_mono) (simp_all add: word_less_def)
    then have "256 ^ length ws * uint z + 256 ^ length ws \<le> 256 ^ length ws * uint w" by (simp add: algebra_simps)
    moreover have "le_value (rev zs) < 256 ^ length ws" "0 \<le> le_value (rev ws)" using b [of zs] b [of ws] that(2) by simp_all
    ultimately show ?thesis unfolding rank that(2) by linarith
  qed
  consider "x < y" | "y < x" | "x = y" by (rule linorder_cases)
  then show ?case
  proof cases
    case 1
    then show ?thesis using less [OF 1, of xs ys] "1.prems" by simp
  next
    case 2
    then show ?thesis using less [OF 2, of ys xs] "1.prems" by simp
  next
    case 3
    then show ?thesis using "1.IH" "1.prems" by (simp add: rank, simp add: bytes_rank_def)
  qed
qed (simp_all add: bytes_rank_def)

text \<open>A number for each input: its tag, then the bytes or the height that the comparison reads.\<close>

fun txin_key :: "txin_v \<Rightarrow> bytes" where
  "txin_key (Txin_to_key _ _ ki _) = ki"
| "txin_key (Txin_zc_input _ ki _) = ki"
| "txin_key (Txin_multisig _ m _ _) = m"
| "txin_key (Txin_gateway _ a _ _) = a"
| "txin_key (Txin_gen h) = rev (le_bytes 32 (uint h))"

definition txin_rank :: "txin_v \<Rightarrow> int" where
  "txin_rank i = 256 ^ 32 * int (txin_tag i) + bytes_rank (txin_key i)"

lemma less_txin_is:
  assumes "length (txin_key a) = 32" and "length (txin_key b) = 32"
  shows "less_txin_v a b \<longleftrightarrow> txin_rank a < txin_rank b"
proof -
  have b: "0 \<le> bytes_rank (txin_key a)" "bytes_rank (txin_key a) < 256 ^ 32" "0 \<le> bytes_rank (txin_key b)" "bytes_rank (txin_key b) < 256 ^ 32"
    using le_value_upper [of "rev (txin_key a)"] le_value_upper [of "rev (txin_key b)"] assms by (simp_all add: bytes_rank_def)
  have g: "bytes_rank (rev (le_bytes 32 (uint h))) = uint h" for h :: u64
    using uint_lt2p [of h] by (simp add: bytes_rank_def le_value_le_bytes)
  show ?thesis
    using assms b
    by (cases a; cases b) (simp_all add: txin_rank_def memcmp_less_is g word_less_def)
qed

lemma sorting_loop_is:
  assumes "\<forall>i \<in> set is. length (txin_key i) = 32"
  shows "sorting_loop is \<longleftrightarrow> sorted (map txin_rank is)"
  using assms
  by (induction "is" rule: sorting_loop.induct) (auto simp: less_txin_is not_less intro: order_trans)

section \<open>Properties\<close>

lemma and_then_conj: "and_then (Some (Returns a)) (Some (Returns b)) = Some (Returns (a \<and> b))"
  by simp

lemma checks_conj: "(if \<not> a then Some (Returns False) else if \<not> b then Some (Returns False) else Some (Returns c)) = Some (Returns (a \<and> b \<and> c))"
  by simp

definition tx_conditions :: "transaction \<Rightarrow> u64 \<Rightarrow> bool" where
  "tx_conditions tx tx_blob_size \<longleftrightarrow>
     tx_blob_size < 122800
     \<and> vin tx \<noteq> [] \<and> (3 \<le> version tx \<longrightarrow> length (vin tx) \<le> 256)
     \<and> length (vout tx) \<le> (if 2 \<le> version tx then 32 else 2000)
     \<and> (if 6 \<le> hardfork_id tx
        then validate_tx_for_hardfork_specific_terms_types_HF6 tx (unat (hardfork_id tx)) = Returns True
        else \<forall>i \<in> set (vin tx). txin_type i \<noteq> T_txin_gen)
     \<and> (4 < hardfork_id tx \<longrightarrow> (\<forall>i \<in> set (vin tx). txin_type i = T_txin_to_key \<or> txin_type i = T_txin_zc_input
          \<longrightarrow> (\<forall>r \<in> set (key_offsets i). \<not> is_ref_by_id r)))
     \<and> (\<forall>out \<in> set (vout tx). out_ok out)
     \<and> (\<forall>i \<in> set (vin tx). bare_input_amount i \<noteq> None)
     \<and> (\<Sum>i\<leftarrow>vin tx. uint (the (bare_input_amount i))) < 2 ^ 64
     \<and> (\<Sum>out\<leftarrow>vout tx. uint (bare_output_amount out)) < 2 ^ 64
     \<and> distinct (spent_key_images (vin tx)) \<and> distinct (spent_multisig_ids (vin tx))
     \<and> distinct (extra_slots (extra tx))
     \<and> (version tx \<le> 1 \<longrightarrow> get_outs_money_amount tx \<le> get_inputs_money_amount tx)"

lemma tx_semantic_is:
  assumes "\<forall>out \<in> set (vout tx). \<forall>key \<in> set (out_keys out). length key = 32" and "hardfork_id tx < 9"
  shows "validate_tx_semantic tx tx_blob_size = Some (Returns (tx_conditions tx tx_blob_size))"
proof -
  have types: "check_inputs_types_supported tx \<longleftrightarrow> (\<forall>i \<in> set (vin tx). txin_type i \<noteq> T_txin_gen)"
  proof -
    have "input_types_supported is \<longleftrightarrow> (\<forall>i \<in> set is. txin_type i \<noteq> T_txin_gen)" for "is"
    proof (induction "is")
      case (Cons i "is")
      then show ?case by (cases i) simp_all
    qed simp
    then show ?thesis by (simp add: check_inputs_types_supported_def)
  qed
  have hf: "unat (hardfork_id tx) < 9" using assms(2) by (simp add: word_less_nat_alt)
  have terms: "\<exists>b. validate_tx_for_hardfork_specific_terms_types_HF6 tx (unat (hardfork_id tx)) = Returns b"
    by (simp add: validate_tx_for_hardfork_specific_terms_types_HF6_def visit_elements_is [OF hf])
  then obtain t where t: "validate_tx_for_hardfork_specific_terms_types_HF6 tx (unat (hardfork_id tx)) = Returns t" by blast
  have refs: "additional_inputs_types_validations tx \<longleftrightarrow> (4 < hardfork_id tx \<longrightarrow> (\<forall>i \<in> set (vin tx). txin_type i = T_txin_to_key \<or> txin_type i = T_txin_zc_input
      \<longrightarrow> (\<forall>r \<in> set (key_offsets i). \<not> is_ref_by_id r)))"
    by (auto simp: additional_inputs_types_validations_def list_all_iff)
  have outs: "check_outs_valid tx = Some (Returns (\<forall>out \<in> set (vout tx). out_ok out))"
    by (simp add: check_outs_valid_def check_outs_is [OF assms(1)])
  have money: "check_bare_money_overflow tx \<longleftrightarrow> (\<forall>i \<in> set (vin tx). bare_input_amount i \<noteq> None)
      \<and> (\<Sum>i\<leftarrow>vin tx. uint (the (bare_input_amount i))) < 2 ^ 64 \<and> (\<Sum>out\<leftarrow>vout tx. uint (bare_output_amount out)) < 2 ^ 64"
    by (simp add: check_bare_money_overflow_def check_bare_inputs_overflow_def check_bare_outs_overflow_def inputs_overflow_is outs_overflow_is)
  have images: "check_tx_inputs_keyimages_diff tx \<longleftrightarrow> distinct (spent_key_images (vin tx)) \<and> distinct (spent_multisig_ids (vin tx))"
    by (simp add: check_tx_inputs_keyimages_diff_def keyimages_diff_is)
  have payload: "check_tx_extra tx \<longleftrightarrow> distinct (extra_slots (extra tx))"
    by (simp add: check_tx_extra_def tx_extra_loop_is was_seen_def new_extra_handler_def)
  have sizes: "check_inputs_and_outputs_size tx \<longleftrightarrow> vin tx \<noteq> [] \<and> (3 \<le> version tx \<longrightarrow> length (vin tx) \<le> 256)
      \<and> length (vout tx) \<le> (if 2 \<le> version tx then 32 else 2000)"
    by (auto simp: check_inputs_and_outputs_size_def Let_def TRANSACTION_VERSION_POST_HF5_def TRANSACTION_VERSION_POST_HF4_def
        CURRENCY_TX_MAX_ALLOWED_INPUTS_def CURRENCY_TX_MAX_ALLOWED_OUTS_def CURRENCY_TX_MAX_ALLOWED_OUTS_PRE_HF4_def not_le)
  have balance: "check_tx_bare_balance tx 0 \<longleftrightarrow> get_outs_money_amount tx \<le> get_inputs_money_amount tx" if "version tx \<le> 1"
    using that by (simp add: check_tx_bare_balance_def TRANSACTION_VERSION_PRE_HF4_def Let_def)
  have last: "(if version tx \<le> TRANSACTION_VERSION_PRE_HF4 then check_that (check_tx_bare_balance tx 0) else check_that True)
      = Some (Returns (version tx \<le> 1 \<longrightarrow> get_outs_money_amount tx \<le> get_inputs_money_amount tx))"
    using balance by (simp add: check_that_def TRANSACTION_VERSION_PRE_HF4_def)
  have first: "(if 6 \<le> hardfork_id tx then Some (validate_tx_for_hardfork_specific_terms_types_HF6 tx (unat (hardfork_id tx)))
      else check_that (check_inputs_types_supported tx))
      = Some (Returns (if 6 \<le> hardfork_id tx then validate_tx_for_hardfork_specific_terms_types_HF6 tx (unat (hardfork_id tx)) = Returns True
        else \<forall>i \<in> set (vin tx). txin_type i \<noteq> T_txin_gen))"
    using types by (simp add: t check_that_def)
  have size: "(tx_blob_size \<ge> CURRENCY_MAX_TRANSACTION_BLOB_SIZE) = (\<not> tx_blob_size < 122800)"
    by (simp add: CURRENCY_MAX_TRANSACTION_BLOB_SIZE_def not_less)
  show ?thesis
    unfolding validate_tx_semantic_def first last size outs
    unfolding check_that_def and_then_conj checks_conj sizes refs money images payload tx_conditions_def
    by (simp only: conj_assoc)
qed

text \<open>
  C5 (tx_semantic_decides). The checks that need no chain return for every transaction whose keys have 32 bytes and whose hard fork has
  terms, and accept exactly under these conditions: the sizes are within their limits, the types are allowed, references by identifier are gone
  after the fourth hard fork, every key is the encoding of a point, amounts are positive and add up without overflow on both sides,
  no input is a coinbase one, key images and multisignature outputs are spent once, the payload has no double entry,
  and with open amounts the inputs cover the outputs.
\<close>

theorem tx_semantic_decides:
  assumes "\<forall>out \<in> set (vout tx). \<forall>key \<in> set (out_keys out). length key = 32" and "hardfork_id tx < 9"
  shows "validate_tx_semantic tx tx_blob_size = Some (Returns
    (tx_blob_size < 122800
     \<and> vin tx \<noteq> [] \<and> (3 \<le> version tx \<longrightarrow> length (vin tx) \<le> 256)
     \<and> length (vout tx) \<le> (if 2 \<le> version tx then 32 else 2000)
     \<and> (if 6 \<le> hardfork_id tx
        then validate_tx_for_hardfork_specific_terms_types_HF6 tx (unat (hardfork_id tx)) = Returns True
        else \<forall>i \<in> set (vin tx). txin_type i \<noteq> T_txin_gen)
     \<and> (4 < hardfork_id tx \<longrightarrow> (\<forall>i \<in> set (vin tx). txin_type i = T_txin_to_key \<or> txin_type i = T_txin_zc_input
          \<longrightarrow> (\<forall>r \<in> set (key_offsets i). \<not> is_ref_by_id r)))
     \<and> (\<forall>out \<in> set (vout tx). out_ok out)
     \<and> (\<forall>i \<in> set (vin tx). bare_input_amount i \<noteq> None)
     \<and> (\<Sum>i\<leftarrow>vin tx. uint (the (bare_input_amount i))) < 2 ^ 64
     \<and> (\<Sum>out\<leftarrow>vout tx. uint (bare_output_amount out)) < 2 ^ 64
     \<and> distinct (spent_key_images (vin tx)) \<and> distinct (spent_multisig_ids (vin tx))
     \<and> distinct (extra_slots (extra tx))
     \<and> (version tx \<le> 1 \<longrightarrow> get_outs_money_amount tx \<le> get_inputs_money_amount tx)))"
  using tx_semantic_is [OF assms] unfolding tx_conditions_def .

theorem tx_semantic_decides_witness:
  "validate_tx_semantic \<lparr>version = 1, hardfork_id = 0, vin = [Txin_to_key 7 [] [1] [], Txin_zc_input [] [1] []], extra = [], vout = [], attachment = [], signatures = [], proofs = []\<rparr> 100
   = Some (Returns False)"
  using tx_semantic_decides [of "\<lparr>version = 1, hardfork_id = 0, vin = [Txin_to_key 7 [] [1] [], Txin_zc_input [] [1] []], extra = [], vout = [], attachment = [], signatures = [], proofs = []\<rparr>" 100]
  by (simp add: spent_key_images_def)

text \<open>Transactions that pass have a hard fork with terms.\<close>

lemma terms_of_hard_fork:
  assumes "visit_elements hf es counts = Returns True" and "es \<noteq> []"
  shows "hf < 9"
proof (rule ccontr)
  assume "\<not> hf < 9"
  obtain c t es' where es: "es = (c, t) # es'" using assms(2) by (metis list.exhaust surj_pair)
  obtain terms mask where tm: "hf_terms t = (terms, mask)" by fastforce
  have "\<not> hf < length terms" using hf_terms_length [of t] tm \<open>\<not> hf < 9\<close> by simp
  then show False using assms(1) by (auto simp: es proxy_visitor_def tm Let_def split: if_splits)
qed

lemma and_then_True: "and_then m k = Some (Returns True) \<longleftrightarrow> m = Some (Returns True) \<and> k = Some (Returns True)"
  by (cases m rule: option.exhaust) (auto simp: and_then_def outcome_bind_def split: outcome.splits if_splits option.splits)

lemma passing_hard_fork:
  assumes "validate_tx_semantic tx tx_blob_size = Some (Returns True)"
  shows "hardfork_id tx < 9"
proof (cases "6 \<le> hardfork_id tx")
  case True
  then have v: "validate_tx_for_hardfork_specific_terms_types_HF6 tx (unat (hardfork_id tx)) = Returns True" "check_inputs_and_outputs_size tx"
    using assms by (auto simp: validate_tx_semantic_def and_then_True split: if_splits)
  then have "vin tx \<noteq> []" by (auto simp: check_inputs_and_outputs_size_def split: if_splits)
  then have "unat (hardfork_id tx) < 9"
    using v(1) terms_of_hard_fork [of "unat (hardfork_id tx)" "tx_elements tx"]
    by (simp add: validate_tx_for_hardfork_specific_terms_types_HF6_def tx_elements_def)
  then show ?thesis by (simp add: word_less_nat_alt)
next
  case False
  then show ?thesis by (simp add: word_less_nat_alt word_le_nat_alt)
qed

text \<open>
  What gateways contribute: the inputs of other assets, which the balance of the source counts as coins, and the outputs of
  the native coin, which it does not count.
\<close>

fun foreign_gateway_amount :: "txin_v \<Rightarrow> u64" where
  "foreign_gateway_amount (Txin_gateway _ _ asset am) = (if asset = native_coin_asset_id_1div8 then 0 else am)"
| "foreign_gateway_amount _ = 0"

fun native_gateway_amount :: "tx_out_v \<Rightarrow> u64" where
  "native_gateway_amount (Tx_out_gateway _ _ asset am _) = (if asset = native_coin_asset_id_1div8 then am else 0)"
| "native_gateway_amount _ = 0"

definition gateway_excess :: "transaction \<Rightarrow> int" where
  "gateway_excess tx = (\<Sum>i\<leftarrow>vin tx. uint (foreign_gateway_amount i)) + (\<Sum>out\<leftarrow>vout tx. uint (native_gateway_amount out))"

lemma fold_sum_mod:
  fixes f :: "'a \<Rightarrow> u64"
  shows "uint (fold (\<lambda>x money. money + f x) xs money) = (uint money + (\<Sum>x\<leftarrow>xs. uint (f x))) mod 2 ^ 64"
proof (induction xs arbitrary: money)
  case Nil
  then show ?case using uint_lt2p [of money] by simp
next
  case (Cons x xs)
  then show ?case by (simp add: uint_word_ariths mod_add_left_eq add.assoc)
qed

text \<open>
  C4 (tx_no_inflation). How far a transaction with open amounts that passes these checks can create coins, gateways included: the native coins of its
  outputs, as numbers and not modulo \<open>2\<^sup>6\<^sup>4\<close>, exceed those of its inputs by at most what its gateways contribute,
  their inputs of other assets and their native outputs. Without gateways it creates no coins. Both sums are below \<open>2\<^sup>6\<^sup>4\<close>, every bare
  output is positive, and no key image and no multisignature output is spent twice. (With gateways the bound is reached, so coins can be
  created, as the transaction \<open>gateway_tx\<close> below does.)
\<close>

theorem tx_no_inflation:
  assumes "validate_tx_semantic tx tx_blob_size = Some (Returns True)" and "version tx \<le> 1"
    and "\<forall>out \<in> set (vout tx). \<forall>key \<in> set (out_keys out). length key = 32"
  shows "(\<Sum>out\<leftarrow>vout tx. uint (bare_output_amount out)) \<le> (\<Sum>i\<leftarrow>vin tx. uint (the (bare_input_amount i))) + gateway_excess tx
    \<and> ((\<forall>i \<in> set (vin tx). txin_type i \<noteq> T_txin_gateway) \<and> (\<forall>out \<in> set (vout tx). tx_out_type out \<noteq> T_tx_out_gateway)
        \<longrightarrow> (\<Sum>out\<leftarrow>vout tx. uint (bare_output_amount out)) \<le> (\<Sum>i\<leftarrow>vin tx. uint (the (bare_input_amount i))))
    \<and> (\<Sum>i\<leftarrow>vin tx. uint (the (bare_input_amount i))) < 2 ^ 64 \<and> (\<Sum>out\<leftarrow>vout tx. uint (bare_output_amount out)) < 2 ^ 64
    \<and> (\<forall>out \<in> set (vout tx). tx_out_type out = T_tx_out_bare \<longrightarrow> 0 < open_amount out)
    \<and> distinct (spent_key_images (vin tx)) \<and> distinct (spent_multisig_ids (vin tx))"
proof -
  have "tx_conditions tx tx_blob_size" using tx_semantic_is [OF assms(3) passing_hard_fork [OF assms(1)], of tx_blob_size] assms(1) by simp
  then have d: "\<forall>out \<in> set (vout tx). out_ok out" "\<forall>i \<in> set (vin tx). bare_input_amount i \<noteq> None"
    "(\<Sum>i\<leftarrow>vin tx. uint (the (bare_input_amount i))) < 2 ^ 64" "(\<Sum>out\<leftarrow>vout tx. uint (bare_output_amount out)) < 2 ^ 64"
    "distinct (spent_key_images (vin tx))" "distinct (spent_multisig_ids (vin tx))"
    "version tx \<le> 1 \<longrightarrow> get_outs_money_amount tx \<le> get_inputs_money_amount tx"
    unfolding tx_conditions_def by blast+
  let ?in = "\<Sum>i\<leftarrow>vin tx. uint (the (bare_input_amount i))" and ?out = "\<Sum>out\<leftarrow>vout tx. uint (bare_output_amount out)"
  let ?open = "\<Sum>out\<leftarrow>vout tx. uint (open_amount out)" and ?all = "\<Sum>i\<leftarrow>vin tx. uint (get_amount_from_variant i)"
  have "uint (get_amount_from_variant i) = uint (the (bare_input_amount i)) + uint (foreign_gateway_amount i)" if "i \<in> set (vin tx)" for i
    using d(2) that by (cases i) auto
  then have "map (\<lambda>i. uint (get_amount_from_variant i)) (vin tx)
      = map (\<lambda>i. uint (the (bare_input_amount i)) + uint (foreign_gateway_amount i)) (vin tx)" by simp
  then have all: "?all = ?in + (\<Sum>i\<leftarrow>vin tx. uint (foreign_gateway_amount i))" by (simp only: sum_list_addf)
  have o: "uint (bare_output_amount out) = uint (open_amount out) + uint (native_gateway_amount out)" for out by (cases out) auto
  have outs: "?out = ?open + (\<Sum>out\<leftarrow>vout tx. uint (native_gateway_amount out))" unfolding o by (simp only: sum_list_addf)
  have nn: "0 \<le> (\<Sum>out\<leftarrow>vout tx. uint (native_gateway_amount out))" "0 \<le> ?all" by (intro sum_list_nonneg, auto)+
  have "uint (get_outs_money_amount tx) = ?open"
    unfolding get_outs_money_amount_def using outs d(4) nn(1) by (subst fold_sum) simp_all
  moreover have "uint (get_inputs_money_amount tx) = ?all mod 2 ^ 64"
    unfolding get_inputs_money_amount_def by (simp add: fold_sum_mod)
  moreover have "uint (get_outs_money_amount tx) \<le> uint (get_inputs_money_amount tx)" using d(7) assms(2) by (simp add: word_le_def)
  moreover have "?all mod 2 ^ 64 \<le> ?all" using nn(2) by (intro zmod_le_nonneg_dividend)
  ultimately have main: "?out \<le> ?in + gateway_excess tx" using all outs by (simp add: gateway_excess_def)
  have none: "gateway_excess tx = 0"
    if "(\<forall>i \<in> set (vin tx). txin_type i \<noteq> T_txin_gateway) \<and> (\<forall>out \<in> set (vout tx). tx_out_type out \<noteq> T_tx_out_gateway)"
  proof -
    have "foreign_gateway_amount i = 0" if "txin_type i \<noteq> T_txin_gateway" for i using that by (cases i) auto
    moreover have "native_gateway_amount out = 0" if "tx_out_type out \<noteq> T_tx_out_gateway" for out using that by (cases out) auto
    ultimately have e: "map (\<lambda>i. uint (foreign_gateway_amount i)) (vin tx) = map (\<lambda>_. 0) (vin tx)"
      "map (\<lambda>out. uint (native_gateway_amount out)) (vout tx) = map (\<lambda>_. 0) (vout tx)" using that by simp_all
    show ?thesis unfolding gateway_excess_def e by simp
  qed
  have "0 < open_amount out" if out: "out \<in> set (vout tx)" "tx_out_type out = T_tx_out_bare" for out
  proof (cases out)
    case (Tx_out_bare am t)
    then show ?thesis using d(1) out(1) by (cases t) auto
  qed (use out(2) in simp_all)
  moreover have "?out \<le> ?in" if "(\<forall>i \<in> set (vin tx). txin_type i \<noteq> T_txin_gateway) \<and> (\<forall>out \<in> set (vout tx). tx_out_type out \<noteq> T_tx_out_gateway)"
    using main none [OF that] by linarith
  ultimately show ?thesis using main d(3-6) by blast
qed

definition sample_tx :: transaction where
  "sample_tx = \<lparr>version = 1, hardfork_id = 0, vin = [Txin_to_key 7 [] [1] []], extra = [], vout = [Tx_out_bare 3 (Txout_multisig 1 [[]]), Tx_out_bare 4 (Txout_multisig 1 [[]])],
    attachment = [], signatures = [], proofs = []\<rparr>"

text \<open>Five units of another asset go in, five coins come out.\<close>

definition gateway_tx :: transaction where
  "gateway_tx = \<lparr>version = 1, hardfork_id = 0, vin = [Txin_gateway 0 [] [1] 5], extra = [], vout = [Tx_out_bare 5 (Txout_multisig 1 [[]])],
    attachment = [], signatures = [], proofs = []\<rparr>"

lemma sample_txs_pass:
  "validate_tx_semantic sample_tx 100 = Some (Returns True)" "validate_tx_semantic gateway_tx 100 = Some (Returns True)"
  by (subst tx_semantic_is, simp_all add: sample_tx_def gateway_tx_def tx_conditions_def spent_key_images_def spent_multisig_ids_def
      extra_slots_simps get_outs_money_amount_def get_inputs_money_amount_def native_coin_asset_id_1div8_def)+

theorem tx_no_inflation_witness:
  "validate_tx_semantic sample_tx 100 = Some (Returns True)
    \<and> (\<Sum>out\<leftarrow>vout sample_tx. uint (bare_output_amount out)) \<le> (\<Sum>i\<leftarrow>vin sample_tx. uint (the (bare_input_amount i)))
    \<and> validate_tx_semantic gateway_tx 100 = Some (Returns True)
    \<and> (\<Sum>out\<leftarrow>vout gateway_tx. uint (bare_output_amount out)) = 5 \<and> (\<Sum>i\<leftarrow>vin gateway_tx. uint (the (bare_input_amount i))) = 0
    \<and> 5 \<le> gateway_excess gateway_tx"
proof -
  have s: "version sample_tx \<le> 1" "\<forall>out \<in> set (vout sample_tx). \<forall>key \<in> set (out_keys out). length key = 32"
    "\<forall>i \<in> set (vin sample_tx). txin_type i \<noteq> T_txin_gateway" "\<forall>out \<in> set (vout sample_tx). tx_out_type out \<noteq> T_tx_out_gateway"
    by (simp_all add: sample_tx_def)
  have g: "version gateway_tx \<le> 1" "\<forall>out \<in> set (vout gateway_tx). \<forall>key \<in> set (out_keys out). length key = 32"
    "(\<Sum>out\<leftarrow>vout gateway_tx. uint (bare_output_amount out)) = 5" "(\<Sum>i\<leftarrow>vin gateway_tx. uint (the (bare_input_amount i))) = 0"
    by (simp_all add: gateway_tx_def native_coin_asset_id_1div8_def)
  show ?thesis
    using tx_no_inflation [OF sample_txs_pass(1) s(1,2)] s(3,4) tx_no_inflation [OF sample_txs_pass(2) g(1,2)] g(3,4) sample_txs_pass by simp
qed

text \<open>
  C32 (inputs_sorted). For inputs whose keys have 32 bytes the comparison of neighbours accepts exactly if no input is less than an earlier one:
  the order is total up to equal keys.
\<close>

theorem inputs_sorted:
  assumes "\<forall>i \<in> set (vin tx). length (txin_key i) = 32"
  shows "validate_inputs_sorting tx \<longleftrightarrow>
    get_tx_flags tx AND TX_FLAG_SIGNATURE_MODE_SEPARATE \<noteq> 0 \<or> sorted_wrt (\<lambda>a b. \<not> less_txin_v b a) (vin tx)"
proof -
  have "sorted_wrt (\<lambda>a b. \<not> less_txin_v b a) (vin tx) \<longleftrightarrow> sorted_wrt (\<lambda>a b. txin_rank a \<le> txin_rank b) (vin tx)"
    using assms by (intro iffI; elim sorted_wrt_mono_rel [rotated]) (auto simp: less_txin_is not_less)
  then show ?thesis using sorting_loop_is [OF assms] by (auto simp: validate_inputs_sorting_def sorted_wrt_map)
qed

theorem inputs_sorted_witness:
  "\<not> validate_inputs_sorting \<lparr>version = 1, hardfork_id = 0, vin = [Txin_to_key 7 [] (replicate 32 2) [], Txin_to_key 7 [] (replicate 32 1) []],
    extra = [], vout = [], attachment = [], signatures = [], proofs = []\<rparr>"
proof -
  let ?tx = "\<lparr>version = 1, hardfork_id = 0, vin = [Txin_to_key 7 [] (replicate 32 2) [], Txin_to_key 7 [] (replicate 32 1) []],
    extra = [], vout = [], attachment = [], signatures = [], proofs = []\<rparr>"
  have r: "replicate 32 x = x # replicate 31 x" for x :: u8 by (simp add: eval_nat_numeral)
  have "less_txin_v (Txin_to_key 7 [] (replicate 32 1) []) (Txin_to_key 7 [] (replicate 32 2) [])" unfolding r by simp
  then show ?thesis using inputs_sorted [of ?tx] by (simp add: get_tx_flags_def get_tx_x_detail_def)
qed

end
