(* ===== verification/String_Tools.thy ===== *)
theory String_Tools
  imports Prelude
begin

text \<open>
  Hexadecimal text: \<^verbatim>\<open>buff_to_hex_nodelimer\<close>, \<^verbatim>\<open>parse_hexstr_to_binbuff\<close> and
  \<^verbatim>\<open>parse_tpod_from_hex_string\<close> of \<^verbatim>\<open>src/contrib/epee/include/string_tools.h\<close>, with the
  \<^verbatim>\<open>strtoul\<close> of the C library they call on strings of at most two characters.
  Text is a list of bytes (\<^verbatim>\<open>char\<close> codes).
\<close>

section \<open>Definitions\<close>

text \<open>Lower-case digits of a byte, two characters wide.\<close>

definition hex_char :: "int \<Rightarrow> u8" where
  "hex_char d = word_of_int (if d < 10 then 48 + d else 87 + d)"

definition hex_byte :: "u8 \<Rightarrow> bytes" where
  "hex_byte b = [hex_char (uint b div 16), hex_char (uint b mod 16)]"

definition buff_to_hex_nodelimer :: "bytes \<Rightarrow> bytes" where
  "buff_to_hex_nodelimer s = concat (map hex_byte s)"

definition hex_digit :: "u8 \<Rightarrow> int option" where
  "hex_digit c = (let v = uint c in
     if 48 \<le> v \<and> v \<le> 57 then Some (v - 48)
     else if 97 \<le> v \<and> v \<le> 102 then Some (v - 87)
     else if 65 \<le> v \<and> v \<le> 70 then Some (v - 55)
     else None)"

text \<open>
  \<^verbatim>\<open>strtoul(str, &endptr, 16)\<close> on a string of at most two characters before its terminator:
  leading white space, one sign, the prefix \<^verbatim>\<open>0x\<close> (which needs a digit after it, so that two
  characters never hold one), digits. The result is the number and the count of characters
  consumed, which is 0 when there is no number. A minus sign negates the unsigned long.
\<close>

definition c_space :: "u8 \<Rightarrow> bool" where
  "c_space c = (uint c = 32 \<or> (9 \<le> uint c \<and> uint c \<le> 13))"

fun hex_digits :: "bytes \<Rightarrow> int \<Rightarrow> nat \<Rightarrow> int \<times> nat" where
  "hex_digits [] acc n = (acc, n)"
| "hex_digits (c # cs) acc n =
     (case hex_digit c of None \<Rightarrow> (acc, n) | Some d \<Rightarrow> hex_digits cs (16 * acc + d) (Suc n))"

definition strtoul16 :: "bytes \<Rightarrow> u64 \<times> nat" where
  "strtoul16 str =
     (let spaces = length (takeWhile c_space str); body = dropWhile c_space str;
          signed = (body \<noteq> [] \<and> (uint (hd body) = 43 \<or> uint (hd body) = 45));
          minus = (body \<noteq> [] \<and> uint (hd body) = 45);
          (v, n) = hex_digits (if signed then tl body else body) 0 0 in
      if n = 0 then (0, 0)
      else (word_of_int (if minus then - v else v), spaces + (if signed then 1 else 0) + n))"

text \<open>
  One round of the loop: at most two characters are copied; \<open>v\<close> is a signed \<^verbatim>\<open>long\<close>. A zero byte
  in the text ends what \<^verbatim>\<open>strtoul\<close> sees.
\<close>

definition hex_pair :: "bytes \<Rightarrow> u8 option" where
  "hex_pair byte_str =
     (let (r, consumed) = strtoul16 (takeWhile (\<lambda>c. c \<noteq> 0) byte_str); v = sint r in
      if v < 0 \<or> 0xFF < v \<or> consumed \<noteq> length byte_str then None else Some (word_of_int v))"

fun hex_loop :: "bytes \<Rightarrow> bytes option" where
  "hex_loop [] = Some []"
| "hex_loop [c] = (case hex_pair [c] of None \<Rightarrow> None | Some b \<Rightarrow> Some [b])"
| "hex_loop (c # d # s) =
     (case hex_pair [c, d] of None \<Rightarrow> None
      | Some b \<Rightarrow> (case hex_loop s of None \<Rightarrow> None | Some bs \<Rightarrow> Some (b # bs)))"

definition parse_hexstr_to_binbuff :: "bytes \<Rightarrow> bytes option" where
  "parse_hexstr_to_binbuff s = hex_loop s"

definition parse_tpod_from_hex_string :: "nat \<Rightarrow> bytes \<Rightarrow> bytes option" where
  "parse_tpod_from_hex_string pod_size str_hash =
     (case parse_hexstr_to_binbuff str_hash of None \<Rightarrow> None
      | Some buf \<Rightarrow> if length buf \<noteq> pod_size then None else Some buf)"


section \<open>Round trip\<close>

lemma hex_char_digit:
  assumes "0 \<le> d" and "d < 16"
  shows "hex_digit (hex_char d) = Some d" and "\<not> c_space (hex_char d)" and "hex_char d \<noteq> 0"
    and "uint (hex_char d) \<noteq> 43" and "uint (hex_char d) \<noteq> 45"
proof -
  have u: "uint (hex_char d) = (if d < 10 then 48 + d else 87 + d)"
    using assms by (simp add: hex_char_def uint_word_of_int)
  show "hex_digit (hex_char d) = Some d" using assms by (simp add: hex_digit_def Let_def u)
  show "\<not> c_space (hex_char d)" "uint (hex_char d) \<noteq> 43" "uint (hex_char d) \<noteq> 45"
    using assms by (simp_all add: c_space_def u)
  have "uint (hex_char d) \<noteq> 0" using assms by (simp add: u)
  then show "hex_char d \<noteq> 0" by auto
qed

lemma sint_byte: "0 \<le> x \<Longrightarrow> x < 256 \<Longrightarrow> sint (word_of_int x :: u64) = x"
  by (simp add: signed_of_int signed_take_bit_int_eq_self)

lemma hex_pair_byte: "hex_pair (hex_byte b) = Some b"
proof -
  have r: "0 \<le> uint b" "uint b < 256" using uint_lt2p [of b] by simp_all
  have d: "0 \<le> uint b div 16" "uint b div 16 < 16" "0 \<le> uint b mod 16" "uint b mod 16 < 16"
    using r by (simp_all add: pos_imp_zdiv_nonneg_iff)
  note h = hex_char_digit [OF d(1,2)] hex_char_digit [OF d(3,4)]
  have "strtoul16 (hex_byte b) = (word_of_int (uint b), 2)"
    by (simp add: strtoul16_def hex_byte_def h)
  moreover have "sint (word_of_int (uint b) :: u64) = uint b" using r by (rule sint_byte)
  ultimately show ?thesis using r h by (simp add: hex_pair_def hex_byte_def)
qed

lemma hex_loop_bytes: "hex_loop (concat (map hex_byte s)) = Some s"
proof (induction s)
  case (Cons b s)
  have "hex_loop (concat (map hex_byte (b # s))) = (case hex_pair (hex_byte b) of None \<Rightarrow> None
      | Some b \<Rightarrow> (case hex_loop (concat (map hex_byte s)) of None \<Rightarrow> None | Some bs \<Rightarrow> Some (b # bs)))"
    by (simp add: hex_byte_def)
  then show ?case by (simp add: hex_pair_byte Cons.IH)
qed simp

lemma parse_tpod_hex: "length h = n \<Longrightarrow> parse_tpod_from_hex_string n (buff_to_hex_nodelimer h) = Some h"
  by (simp add: parse_tpod_from_hex_string_def parse_hexstr_to_binbuff_def buff_to_hex_nodelimer_def hex_loop_bytes)

lemma parse_tpod_length: "parse_tpod_from_hex_string n s = Some h \<Longrightarrow> length h = n"
  by (auto simp: parse_tpod_from_hex_string_def split: option.splits if_splits)


section \<open>Properties\<close>

text \<open>
  Printing bytes in hexadecimal and parsing the text gives the bytes
  back, and reading a value of fixed size accepts the text exactly when the size fits.
\<close>

theorem hex_roundtrip:
  "parse_hexstr_to_binbuff (buff_to_hex_nodelimer s) = Some s
    \<and> parse_tpod_from_hex_string n (buff_to_hex_nodelimer s) = (if length s = n then Some s else None)"
  by (simp add: parse_tpod_from_hex_string_def parse_hexstr_to_binbuff_def buff_to_hex_nodelimer_def hex_loop_bytes)

end
