(* ===== verification/Checkpoints.thy ===== *)
theory Checkpoints
  imports String_Tools
begin

text \<open>
  The checkpoints that pin blocks of the main chain:
  \<^verbatim>\<open>src/src/currency_core/checkpoints.cpp\<close> and \<^verbatim>\<open>checkpoints.h\<close>. The
  \<^verbatim>\<open>std::map\<close> of heights to hashes is the list of its entries in the order of iteration.
\<close>

section \<open>Definitions\<close>

record checkpoints =
  m_points :: "(u64 \<times> bytes) list"

definition no_checkpoints :: checkpoints where
  "no_checkpoints = \<lparr>m_points = []\<rparr>"

text \<open>\<^verbatim>\<open>m[k] = v\<close>, and the entries from \<^verbatim>\<open>lower_bound(k)\<close> on.\<close>

fun map_set :: "u64 \<Rightarrow> 'v \<Rightarrow> (u64 \<times> 'v) list \<Rightarrow> (u64 \<times> 'v) list" where
  "map_set k v [] = [(k, v)]"
| "map_set k v ((k', v') # m) =
     (if k < k' then (k, v) # (k', v') # m
      else if k = k' then (k, v) # m
      else (k', v') # map_set k v m)"

definition lower_bound :: "u64 \<Rightarrow> (u64 \<times> 'v) list \<Rightarrow> (u64 \<times> 'v) list" where
  "lower_bound k m = dropWhile (\<lambda>(k', _). k' < k) m"

definition add_checkpoint :: "u64 \<Rightarrow> bytes \<Rightarrow> checkpoints \<Rightarrow> bool \<times> checkpoints" where
  "add_checkpoint height hash_str st =
     (case parse_tpod_from_hex_string 32 hash_str of None \<Rightarrow> (False, st)
      | Some h \<Rightarrow>
        if map_of (m_points st) height \<noteq> None then (False, st)
        else (True, st\<lparr>m_points := map_set height h (m_points st)\<rparr>))"

definition is_in_checkpoint_zone :: "u64 \<Rightarrow> checkpoints \<Rightarrow> bool" where
  "is_in_checkpoint_zone height st = (m_points st \<noteq> [] \<and> height \<le> fst (last (m_points st)))"

definition is_height_passed_zone :: "u64 \<Rightarrow> u64 \<Rightarrow> checkpoints \<Rightarrow> bool" where
  "is_height_passed_zone height blockchain_last_block_height st =
     (if height > blockchain_last_block_height then False
      else case lower_bound height (m_points st) of
             [] \<Rightarrow> False
           | (k, _) # _ \<Rightarrow> if k \<le> blockchain_last_block_height then True else False)"

definition get_top_checkpoint_height :: "checkpoints \<Rightarrow> u64" where
  "get_top_checkpoint_height st = (if m_points st = [] then 0 else fst (last (m_points st)))"

definition check_block :: "u64 \<Rightarrow> bytes \<Rightarrow> checkpoints \<Rightarrow> bool" where
  "check_block height h st =
     (case map_of (m_points st) height of None \<Rightarrow> True | Some h' \<Rightarrow> if h' = h then True else False)"

text \<open>The entry before the bound is the last of those that the search skips.\<close>

definition get_checkpoint_before_height :: "u64 \<Rightarrow> checkpoints \<Rightarrow> u64" where
  "get_checkpoint_before_height height st =
     (let top_cp = get_top_checkpoint_height st in
      if height > top_cp then top_cp
      else
        let it = lower_bound height (m_points st) in
        if it = [] \<or> it = m_points st then 0
        else fst (m_points st ! (length (m_points st) - length it - 1)))"


section \<open>The ordered map\<close>

definition heights :: "checkpoints \<Rightarrow> u64 set" where
  "heights st = fst ` set (m_points st)"

definition checkpoints_ok :: "checkpoints \<Rightarrow> bool" where
  "checkpoints_ok st = (sorted_wrt (<) (map fst (m_points st)) \<and> (\<forall>(_, h) \<in> set (m_points st). length h = 32))"

lemma map_set_keys: "fst ` set (map_set k v m) = insert k (fst ` set m)"
  by (induction m rule: map_set.induct) auto

lemma map_set_sorted: "sorted_wrt (<) (map fst m) \<Longrightarrow> sorted_wrt (<) (map fst (map_set k v m))"
proof (induction m rule: map_set.induct)
  case (2 k v k' v' m)
  have "\<forall>y \<in> set (map fst (map_set k v m)). k' < y" if "k' < k" "\<forall>x \<in> fst ` set m. k' < x"
    using that map_set_keys [of k v m] by auto
  then show ?case using 2 by (auto simp: not_less)
qed simp

lemma map_set_lookup: "sorted_wrt (<) (map fst m) \<Longrightarrow> map_of (map_set k v m) = (map_of m)(k \<mapsto> v)"
proof (induction m rule: map_set.induct)
  case (2 k v k' v' m)
  then show ?case by (auto simp: fun_eq_iff)
qed (simp add: fun_eq_iff)

lemma map_set_values: "set (map_set k v m) \<subseteq> insert (k, v) (set m)"
  by (induction m rule: map_set.induct) auto

lemma heights_dom: "heights st = dom (map_of (m_points st))"
  by (simp add: heights_def dom_map_of_conv_image_fst)

lemma last_key:
  fixes m :: "(u64 \<times> 'v) list"
  assumes "sorted_wrt (<) (map fst m)" and "m \<noteq> []" and "k \<in> fst ` set m"
  shows "k \<le> fst (last m)"
  using assms
proof (induction m)
  case (Cons p m)
  then show ?case using last_in_set [of m] by (cases "m = []") (auto dest: less_imp_le)
qed simp

lemma lower_bound_split:
  assumes "sorted_wrt (<) (map fst m)"
  obtains pre where "m = pre @ lower_bound k m" and "\<forall>k' \<in> fst ` set pre. k' < k"
    and "\<forall>k' \<in> fst ` set (lower_bound k m). k \<le> k'"
proof
  let ?pre = "takeWhile (\<lambda>(k', _). k' < k) m"
  show "m = ?pre @ lower_bound k m" by (simp add: lower_bound_def)
  show "\<forall>k' \<in> fst ` set ?pre. k' < k" by (auto dest: set_takeWhileD)
  show "\<forall>k' \<in> fst ` set (lower_bound k m). k \<le> k'"
    using assms by (induction m) (auto simp: lower_bound_def not_less)
qed


section \<open>What the operations do\<close>

lemma add_checkpoint_ok:
  assumes "checkpoints_ok st" and "add_checkpoint height s st = (r, st')"
  shows "checkpoints_ok st'"
  using assms map_set_values [of height _ "m_points st"] parse_tpod_length [of 32 s]
  by (fastforce simp: add_checkpoint_def checkpoints_ok_def map_set_sorted split: option.splits if_splits)

lemma zone_heights:
  assumes "checkpoints_ok st"
  shows "is_in_checkpoint_zone h st \<longleftrightarrow> (\<exists>k \<in> heights st. h \<le> k)"
proof -
  have s: "sorted_wrt (<) (map fst (m_points st))" using assms by (simp add: checkpoints_ok_def)
  show ?thesis
    unfolding is_in_checkpoint_zone_def heights_def
    using last_key [OF s] last_in_set [of "m_points st"] order_trans by fastforce
qed

lemma passed_heights:
  assumes "checkpoints_ok st"
  shows "is_height_passed_zone h b st \<longleftrightarrow> (\<exists>k \<in> heights st. h \<le> k \<and> k \<le> b)"
proof -
  have s: "sorted_wrt (<) (map fst (m_points st))" using assms by (simp add: checkpoints_ok_def)
  obtain pre where m: "m_points st = pre @ lower_bound h (m_points st)" and pre: "\<forall>k \<in> fst ` set pre. k < h"
    and post: "\<forall>k \<in> fst ` set (lower_bound h (m_points st)). h \<le> k"
    by (rule lower_bound_split [OF s])
  let ?l = "lower_bound h (m_points st)"
  have heights: "heights st = fst ` set pre \<union> fst ` set ?l" unfolding heights_def by (subst m) auto
  have sl: "sorted_wrt (<) (map fst ?l)" using s by (subst (asm) m) (simp add: sorted_wrt_append)
  have ex: "(\<exists>k \<in> heights st. h \<le> k \<and> k \<le> b) \<longleftrightarrow> (\<exists>k \<in> fst ` set ?l. k \<le> b)"
    unfolding heights using pre post by (auto simp: not_le [symmetric])
  have hd: "?l = (k, v) # l \<Longrightarrow> (\<exists>k \<in> fst ` set ?l. k \<le> b) \<longleftrightarrow> k \<le> b" for k v l
    using sl by (auto dest: less_imp_le intro: order_trans)
  show ?thesis
  proof (cases ?l)
    case Nil
    then show ?thesis unfolding ex by (simp add: is_height_passed_zone_def)
  next
    case (Cons p l)
    obtain k v where p: "p = (k, v)" by fastforce
    have "h \<le> k" using post Cons p by simp
    then have "k \<le> b \<Longrightarrow> \<not> b < h" by (metis leD le_less_trans)
    then show ?thesis unfolding ex hd [OF Cons [unfolded p]] using Cons p by (auto simp: is_height_passed_zone_def)
  qed
qed

lemma before_heights:
  assumes "checkpoints_ok st"
  shows "get_checkpoint_before_height h st =
    (if \<exists>k \<in> heights st. k < h then Max {k \<in> heights st. k < h} else 0)"
proof -
  have s: "sorted_wrt (<) (map fst (m_points st))" using assms by (simp add: checkpoints_ok_def)
  obtain pre where m: "m_points st = pre @ lower_bound h (m_points st)" and pre: "\<forall>k \<in> fst ` set pre. k < h"
    and post: "\<forall>k \<in> fst ` set (lower_bound h (m_points st)). h \<le> k"
    by (rule lower_bound_split [OF s])
  let ?l = "lower_bound h (m_points st)"
  have below: "{k \<in> heights st. k < h} = fst ` set pre"
    unfolding heights_def using pre post by (subst m) (auto simp: not_le [symmetric])
  then have ex: "(\<exists>k \<in> heights st. k < h) \<longleftrightarrow> pre \<noteq> []"
    by (metis (mono_tags, lifting) Collect_empty_eq image_is_empty set_empty)
  have sp: "sorted_wrt (<) (map fst pre)" using s by (subst (asm) m) (simp add: sorted_wrt_append)
  have max: "Max (fst ` set pre) = fst (last pre)" if "pre \<noteq> []"
    using that last_key [OF sp that] last_in_set [OF that] by (intro Max_eqI) auto
  have len: "length (m_points st) = length pre + length ?l" by (subst m) simp
  show ?thesis
  proof (cases "?l = []")
    case True
    then have mp: "m_points st = pre" using m by simp
    show ?thesis
    proof (cases "pre = []")
      case True
      then show ?thesis unfolding ex using mp
        by (simp add: get_checkpoint_before_height_def get_top_checkpoint_height_def lower_bound_def)
    next
      case False
      then have "fst (last pre) < h" using pre last_in_set by blast
      then show ?thesis unfolding ex below using False mp max
        by (simp add: get_checkpoint_before_height_def get_top_checkpoint_height_def)
    qed
  next
    case False
    then have ne: "m_points st \<noteq> []" and last: "last (m_points st) = last ?l" using m by (auto, metis last_appendR)
    have "h \<le> fst (last ?l)" using post last_in_set [OF False] by simp
    then have top: "\<not> h > get_top_checkpoint_height st" using ne last by (simp add: get_top_checkpoint_height_def not_less)
    show ?thesis
    proof (cases "pre = []")
      case True
      then show ?thesis unfolding ex using m top False by (simp add: get_checkpoint_before_height_def Let_def)
    next
      case pre: False
      then have "m_points st \<noteq> ?l" using len by (metis add_cancel_left_left length_0_conv)
      moreover have "m_points st ! (length (m_points st) - length ?l - 1) = last pre"
        unfolding len using pre by (subst m) (simp add: nth_append last_conv_nth)
      ultimately show ?thesis unfolding ex below using pre top False max
        by (auto simp: get_checkpoint_before_height_def Let_def)
    qed
  qed
qed


section \<open>Histories\<close>

text \<open>The states that calls of \<^verbatim>\<open>add_checkpoint\<close> reach from the empty object.\<close>

inductive cp_reachable :: "checkpoints \<Rightarrow> bool" where
  init: "cp_reachable no_checkpoints"
| add: "cp_reachable st \<Longrightarrow> cp_reachable (snd (add_checkpoint height s st))"

lemma reachable_ok: "cp_reachable st \<Longrightarrow> checkpoints_ok st"
proof (induction rule: cp_reachable.induct)
  case init
  then show ?case by (simp add: checkpoints_ok_def no_checkpoints_def)
next
  case (add st height s)
  then show ?case using add_checkpoint_ok [of st height s] by (metis prod.collapse)
qed


section \<open>Properties\<close>

text \<open>
  In every state that calls of \<^verbatim>\<open>add_checkpoint\<close> reach, the
  queries answer by the set of heights: a height is in the zone when a checkpoint is at or above it,
  is passed when a checkpoint lies between it and the last block, and the checkpoint before a height
  is the greatest one strictly below it, or 0.
\<close>

theorem checkpoint_queries:
  assumes "cp_reachable st"
  shows "(is_in_checkpoint_zone h st \<longleftrightarrow> (\<exists>k \<in> heights st. h \<le> k))
    \<and> (is_height_passed_zone h b st \<longleftrightarrow> (\<exists>k \<in> heights st. h \<le> k \<and> k \<le> b))
    \<and> get_checkpoint_before_height h st =
        (if \<exists>k \<in> heights st. k < h then Max {k \<in> heights st. k < h} else 0)"
  using reachable_ok [OF assms] zone_heights passed_heights before_heights by blast

theorem checkpoint_queries_witness:
  "get_checkpoint_before_height 15
     (snd (add_checkpoint 15 (replicate 64 97) (snd (add_checkpoint 11 (replicate 64 48) no_checkpoints)))) = 11"
proof -
  let ?st = "snd (add_checkpoint 15 (replicate 64 97) (snd (add_checkpoint 11 (replicate 64 48) no_checkpoints)))"
  have r: "cp_reachable ?st" by (intro cp_reachable.intros)
  have "parse_tpod_from_hex_string 32 (replicate 64 97) = Some (replicate 32 170)"
    "parse_tpod_from_hex_string 32 (replicate 64 48) = Some (replicate 32 0)" by code_simp+
  then have "heights ?st = {11, 15}" by (simp add: add_checkpoint_def heights_def no_checkpoints_def)
  moreover have "{k. (k = 11 \<or> k = 15) \<and> k < (15 :: u64)} = {11}" by auto
  ultimately show ?thesis using checkpoint_queries [OF r, of 15 0] by simp
qed

text \<open>
  \<^verbatim>\<open>add_checkpoint\<close> implements the insertion of a new key into
  a partial function: it succeeds exactly when the text is a hash of 32 bytes and the height is free,
  a failure changes nothing, and success changes what \<^verbatim>\<open>check_block\<close> accepts at that height only,
  to that hash; so a checkpoint once set is never replaced.
\<close>

theorem add_checkpoint_refines:
  assumes "cp_reachable st" and "add_checkpoint height s st = (r, st')"
  shows "(r \<longleftrightarrow> (\<exists>h. parse_tpod_from_hex_string 32 s = Some h) \<and> height \<notin> heights st)
    \<and> map_of (m_points st') =
        (if r then (map_of (m_points st))(height \<mapsto> the (parse_tpod_from_hex_string 32 s)) else map_of (m_points st))
    \<and> (\<forall>k x. check_block k x st' \<longleftrightarrow>
        (if r \<and> k = height then parse_tpod_from_hex_string 32 s = Some x else check_block k x st))"
proof -
  have s: "sorted_wrt (<) (map fst (m_points st))" using reachable_ok [OF assms(1)] by (simp add: checkpoints_ok_def)
  have m: "map_of (m_points st') =
      (if r then (map_of (m_points st))(height \<mapsto> the (parse_tpod_from_hex_string 32 s)) else map_of (m_points st))"
    using assms(2) by (auto simp: add_checkpoint_def map_set_lookup [OF s] split: option.splits if_splits)
  have r: "r \<longleftrightarrow> (\<exists>h. parse_tpod_from_hex_string 32 s = Some h) \<and> height \<notin> heights st"
    using assms(2) by (auto simp: add_checkpoint_def heights_dom split: option.splits if_splits)
  then show ?thesis using m by (auto simp: check_block_def)
qed

theorem add_checkpoint_refines_witness:
  "\<not> check_block 11 (replicate 32 0) (snd (add_checkpoint 11 (replicate 64 97) no_checkpoints))"
proof -
  have p: "parse_tpod_from_hex_string 32 (replicate 64 97) = Some (replicate 32 170)" by code_simp
  obtain r st' where a: "add_checkpoint 11 (replicate 64 97) no_checkpoints = (r, st')" by fastforce
  have "replicate 32 (170 :: u8) \<noteq> replicate 32 0" by code_simp
  then show ?thesis
    using add_checkpoint_refines [OF cp_reachable.init a] p a by (simp add: heights_def no_checkpoints_def)
qed

end
