(* ===== verification/Chain_Shortener.thy ===== *)
theory Chain_Shortener
  imports Checkpoints Keys
begin

text \<open>
  The wallet's memory of the chain, \<^verbatim>\<open>src/src/currency_core/block_chain_shortener.cpp\<close> and
  \<^verbatim>\<open>block_chain_shortener.h\<close>: the identifiers of the last 20 blocks, and of every 10th, 100th and 1000th block
  before, at most 144 of each. As in \<open>Checkpoints\<close>, a \<^verbatim>\<open>std::map\<close> is the list of its
  entries in the order of iteration.
\<close>

section \<open>State\<close>

type_synonym block_map = "(u64 \<times> bytes) list"

record block_chain_shortener =
  m_local_bc_size :: u64
  m_genesis :: bytes
  m_last_20_blocks :: block_map
  m_last_144_blocks_every_10 :: block_map
  m_last_144_blocks_every_100 :: block_map
  m_last_144_blocks_every_1000 :: block_map

text \<open>The default of the genesis, \<^verbatim>\<open>gdefault_genesis\<close>, is an argument.\<close>

definition new_shortener :: "bytes \<Rightarrow> block_chain_shortener" where
  "new_shortener gdefault_genesis =
     \<lparr>m_local_bc_size = 1, m_genesis = gdefault_genesis, m_last_20_blocks = [], m_last_144_blocks_every_10 = [],
      m_last_144_blocks_every_100 = [], m_last_144_blocks_every_1000 = []\<rparr>"

definition SHORTENER_EVERYBLOCK_SIZE :: nat where "SHORTENER_EVERYBLOCK_SIZE = 20"
definition SHORTENER_EVERY_10_BLOCKS_SIZE :: nat where "SHORTENER_EVERY_10_BLOCKS_SIZE = 144"
definition SHORTENER_EVERY_100_BLOCKS_SIZE :: nat where "SHORTENER_EVERY_100_BLOCKS_SIZE = 144"
definition SHORTENER_EVERY_1000_BLOCKS_SIZE :: nat where "SHORTENER_EVERY_1000_BLOCKS_SIZE = 144"

section \<open>Operations\<close>

definition shortener_clear :: "block_chain_shortener \<Rightarrow> block_chain_shortener" where
  "shortener_clear st =
     st\<lparr>m_local_bc_size := 1, m_last_20_blocks := [], m_last_144_blocks_every_10 := [],
        m_last_144_blocks_every_100 := [], m_last_144_blocks_every_1000 := []\<rparr>"

definition get_blockchain_current_size :: "block_chain_shortener \<Rightarrow> u64" where
  "get_blockchain_current_size st = m_local_bc_size st"

definition get_top_block_height :: "block_chain_shortener \<Rightarrow> u64" where
  "get_top_block_height st = m_local_bc_size st - 1"

definition get_top_block_id :: "block_chain_shortener \<Rightarrow> bytes" where
  "get_top_block_id st = (if m_last_20_blocks st \<noteq> [] then snd (last (m_last_20_blocks st)) else replicate 32 0)"

definition set_genesis :: "bytes \<Rightarrow> block_chain_shortener \<Rightarrow> block_chain_shortener" where
  "set_genesis bid st = st\<lparr>m_genesis := bid, m_local_bc_size := 1\<rparr>"

function clean_map_from_items_above :: "block_map \<Rightarrow> u64 \<Rightarrow> block_map" where
  "clean_map_from_items_above m height =
     (if m \<noteq> [] \<and> fst (last m) \<ge> height then clean_map_from_items_above (butlast m) height else m)"
  by auto
termination by (relation "measure (\<lambda>(m, _). length m)") auto

declare clean_map_from_items_above.simps [simp del]

definition detach :: "u64 \<Rightarrow> block_chain_shortener \<Rightarrow> block_chain_shortener" where
  "detach including_height st =
     st\<lparr>m_last_20_blocks := clean_map_from_items_above (m_last_20_blocks st) including_height,
        m_last_144_blocks_every_10 := clean_map_from_items_above (m_last_144_blocks_every_10 st) including_height,
        m_last_144_blocks_every_100 := clean_map_from_items_above (m_last_144_blocks_every_100 st) including_height,
        m_last_144_blocks_every_1000 := clean_map_from_items_above (m_last_144_blocks_every_1000 st) including_height,
        m_local_bc_size := including_height\<rparr>"

text \<open>\<^verbatim>\<open>m[height] = bid\<close>, and the first entry goes if there are too many.\<close>

definition map_insert :: "nat \<Rightarrow> u64 \<Rightarrow> bytes \<Rightarrow> block_map \<Rightarrow> block_map" where
  "map_insert limit height bid m =
     (let m = map_set height bid m in if length m > limit then tl m else m)"

text \<open>One of the three coarser maps, with its self-check.\<close>

definition push_every :: "u64 \<Rightarrow> nat \<Rightarrow> bytes \<Rightarrow> u64 \<Rightarrow> block_map \<Rightarrow> block_map outcome" where
  "push_every d limit bid height m =
     (if height mod d = 0 then
        if m \<noteq> [] \<and> fst (last m) + d \<noteq> height then Throws
        else Returns (map_insert limit height bid m)
      else Returns m)"

text \<open>An exception leaves the changes made so far.\<close>

definition push_new_block_id :: "bytes \<Rightarrow> u64 \<Rightarrow> block_chain_shortener \<Rightarrow> unit outcome \<times> block_chain_shortener" where
  "push_new_block_id bid height st =
     (let st = (if height < m_local_bc_size st then detach height st else st) in
      if height = 0 then (Returns (), st\<lparr>m_genesis := bid, m_local_bc_size := 1\<rparr>)
      else if m_local_bc_size st \<noteq> 1 \<and> get_blockchain_current_size st \<noteq> height then (Throws, st)
      else
        let st = st\<lparr>m_local_bc_size := height + 1,
                    m_last_20_blocks := map_insert SHORTENER_EVERYBLOCK_SIZE height bid (m_last_20_blocks st)\<rparr> in
        case push_every 10 SHORTENER_EVERY_10_BLOCKS_SIZE bid height (m_last_144_blocks_every_10 st) of
          Returns m \<Rightarrow>
            (let st = st\<lparr>m_last_144_blocks_every_10 := m\<rparr> in
             case push_every 100 SHORTENER_EVERY_100_BLOCKS_SIZE bid height (m_last_144_blocks_every_100 st) of
               Returns m \<Rightarrow>
                 (let st = st\<lparr>m_last_144_blocks_every_100 := m\<rparr> in
                  case push_every 1000 SHORTENER_EVERY_1000_BLOCKS_SIZE bid height (m_last_144_blocks_every_1000 st) of
                    Returns m \<Rightarrow> (Returns (), st\<lparr>m_last_144_blocks_every_1000 := m\<rparr>)
                  | _ \<Rightarrow> (Throws, st))
             | _ \<Rightarrow> (Throws, st))
        | _ \<Rightarrow> (Throws, st))"

definition from_first :: "u64 \<Rightarrow> block_map \<Rightarrow> bool" where
  "from_first i m = (m \<noteq> [] \<and> i \<ge> fst (hd m))"

definition find_multiple :: "u64 \<Rightarrow> u64 \<Rightarrow> block_map \<Rightarrow> (u64 \<times> bytes) option outcome" where
  "find_multiple devider i m =
     (let i = i - i mod devider in
      case map_of m i of None \<Rightarrow> Throws | Some bid \<Rightarrow> Returns (Some (i, bid)))"

definition lookup_item_around :: "u64 \<Rightarrow> block_chain_shortener \<Rightarrow> (u64 \<times> bytes) option outcome" where
  "lookup_item_around i st =
     (if from_first i (m_last_20_blocks st) then find_multiple 1 i (m_last_20_blocks st)
      else if from_first i (m_last_144_blocks_every_10 st) then find_multiple 10 i (m_last_144_blocks_every_10 st)
      else if from_first i (m_last_144_blocks_every_100 st) then find_multiple 100 i (m_last_144_blocks_every_100 st)
      else if from_first i (m_last_144_blocks_every_1000 st) then find_multiple 1000 i (m_last_144_blocks_every_1000 st)
      else Returns None)"

text \<open>The loop goes back by growing distances; its result is \<open>None\<close> if it never ends.\<close>

partial_function (option) short_history_loop ::
  "block_chain_shortener \<Rightarrow> u64 \<Rightarrow> u64 \<Rightarrow> u64 \<Rightarrow> bytes list \<Rightarrow> bytes list outcome option" where
  "short_history_loop st sz current_back_offset current_offset_distance ids =
     (if current_back_offset < sz then
        let get_item_around = sz - current_back_offset in
        case lookup_item_around get_item_around st of
          Returns (Some item) \<Rightarrow>
            (let current_back_offset = sz - fst item;
                 ids = ids @ [snd item];
                 current_offset_distance = current_offset_distance * 2
             in short_history_loop st sz (current_back_offset + current_offset_distance) current_offset_distance ids)
        | Returns None \<Rightarrow> Some (Returns ids)
        | _ \<Rightarrow> Some Throws
      else Some (Returns ids))"

definition get_short_chain_history :: "block_chain_shortener \<Rightarrow> bytes list outcome option" where
  "get_short_chain_history st =
     (let sz = get_blockchain_current_size st in
      if sz = 0 then Some (Returns [])
      else
        let recent = take 10 (rev (m_last_20_blocks st));
            ids = map snd recent;
            i = (if recent = [] then 0 else fst (last recent));
            count = length recent;
            current_back_offset = of_nat (length ids) + 1
        in if \<not> (current_back_offset = sz - i + 1 \<or> count = 0) then Some Throws
           else outcome_bind (short_history_loop st sz current_back_offset 1 ids) (\<lambda>ids.
             Some (Returns (ids @ [m_genesis st]))))"

text \<open>The result: whether the block was found, whether it matched, and whether everything has to be read again.\<close>

definition check_if_block_matched :: "u64 \<Rightarrow> bytes \<Rightarrow> bool \<Rightarrow> block_chain_shortener \<Rightarrow> (bool \<times> bool \<times> bool) outcome" where
  "check_if_block_matched i bid full_reset_needed st =
     (if i = 0 then
        if m_local_bc_size st > 0 then
          if bid = m_genesis st then Returns (True, True, full_reset_needed) else Returns (True, False, True)
        else Returns (False, False, True)
      else if from_first i (m_last_20_blocks st) then
        if \<not> fst (last (m_last_20_blocks st)) \<ge> i then Throws
        else case map_of (m_last_20_blocks st) i of None \<Rightarrow> Throws
             | Some bid' \<Rightarrow> Returns (True, bid = bid', full_reset_needed)
      else case lookup_item_around i st of
             Returns None \<Rightarrow> Returns (False, False, True)
           | Returns (Some result) \<Rightarrow>
               if fst result = i then Returns (True, snd result = bid, full_reset_needed)
               else Returns (False, False, full_reset_needed)
           | _ \<Rightarrow> Throws)"


section \<open>The chain that it stands for\<close>

text \<open>
  The specification remembers every block that was pushed and not detached. Its steps are partial: a push is the
  next height or the first one after a start, nothing is detached above the top, and the genesis
  changes only while there are no blocks, which is what the wallet checks before its calls.
\<close>

record chain_view =
  view_size :: u64
  view_genesis :: bytes
  view_ids :: "u64 \<Rightarrow> bytes option"

definition new_view :: "bytes \<Rightarrow> chain_view" where
  "new_view g = \<lparr>view_size = 1, view_genesis = g, view_ids = (\<lambda>_. None)\<rparr>"

datatype chain_call = Push_id bytes u64 | Detach_from u64 | Clear_all | Change_genesis bytes

definition view_detach :: "u64 \<Rightarrow> chain_view \<Rightarrow> chain_view" where
  "view_detach h v = v\<lparr>view_size := h, view_ids := (\<lambda>k. if k < h then view_ids v k else None)\<rparr>"

definition view_push :: "bytes \<Rightarrow> u64 \<Rightarrow> chain_view \<Rightarrow> chain_view option" where
  "view_push bid h v =
     (if h = 0 then Some \<lparr>view_size = 1, view_genesis = bid, view_ids = (\<lambda>_. None)\<rparr>
      else if h \<le> view_size v \<or> view_size v = 1
      then Some \<lparr>view_size = h + 1, view_genesis = view_genesis v, view_ids = (view_ids (view_detach h v))(h \<mapsto> bid)\<rparr>
      else None)"

fun view_call :: "chain_call \<Rightarrow> chain_view \<Rightarrow> chain_view option" where
  "view_call (Push_id bid h) v = view_push bid h v"
| "view_call (Detach_from h) v = (if h \<le> view_size v then Some (view_detach h v) else None)"
| "view_call Clear_all v = Some (new_view (view_genesis v))"
| "view_call (Change_genesis g) v = (if view_size v \<le> 1 then Some (v\<lparr>view_genesis := g, view_size := 1\<rparr>) else None)"

fun view_calls :: "chain_call list \<Rightarrow> chain_view \<Rightarrow> chain_view option" where
  "view_calls [] v = Some v"
| "view_calls (c # cs) v = do { v \<leftarrow> view_call c v; view_calls cs v }"

fun shortener_call :: "chain_call \<Rightarrow> block_chain_shortener \<Rightarrow> unit outcome \<times> block_chain_shortener" where
  "shortener_call (Push_id bid h) st = push_new_block_id bid h st"
| "shortener_call (Detach_from h) st = (Returns (), detach h st)"
| "shortener_call Clear_all st = (Returns (), shortener_clear st)"
| "shortener_call (Change_genesis g) st = (Returns (), set_genesis g st)"

fun shortener_calls :: "chain_call list \<Rightarrow> block_chain_shortener \<Rightarrow> unit outcome \<times> block_chain_shortener" where
  "shortener_calls [] st = (Returns (), st)"
| "shortener_calls (c # cs) st =
     (case shortener_call c st of (Returns _, st) \<Rightarrow> shortener_calls cs st | (r, st) \<Rightarrow> (r, st))"

definition low_heights :: "chain_call list \<Rightarrow> bool" where
  "low_heights cs = (\<forall>c \<in> set cs. case c of Push_id _ h \<Rightarrow> h < 2 ^ 62 | _ \<Rightarrow> True)"

text \<open>A map holds the identifiers at the multiples of its distance, from some height on.\<close>

definition level :: "u64 \<Rightarrow> nat \<Rightarrow> (u64 \<Rightarrow> bytes option) \<Rightarrow> block_map \<Rightarrow> bool" where
  "level d limit ids m \<longleftrightarrow> sorted_wrt (<) (map fst m) \<and> length m \<le> limit
     \<and> (\<exists>lo. map_of m = (\<lambda>k. if lo \<le> k \<and> k mod d = 0 then ids k else None))"

definition view_ok :: "chain_view \<Rightarrow> bool" where
  "view_ok v \<longleftrightarrow> view_size v \<le> 2 ^ 62 \<and> (\<exists>b. 0 < b \<and> (\<forall>k. view_ids v k \<noteq> None \<longleftrightarrow> b \<le> k \<and> k < view_size v))"

definition represents :: "block_chain_shortener \<Rightarrow> chain_view \<Rightarrow> bool" where
  "represents st v \<longleftrightarrow> view_ok v \<and> m_local_bc_size st = view_size v \<and> m_genesis st = view_genesis v
     \<and> level 1 SHORTENER_EVERYBLOCK_SIZE (view_ids v) (m_last_20_blocks st)
     \<and> level 10 SHORTENER_EVERY_10_BLOCKS_SIZE (view_ids v) (m_last_144_blocks_every_10 st)
     \<and> level 100 SHORTENER_EVERY_100_BLOCKS_SIZE (view_ids v) (m_last_144_blocks_every_100 st)
     \<and> level 1000 SHORTENER_EVERY_1000_BLOCKS_SIZE (view_ids v) (m_last_144_blocks_every_1000 st)"


section \<open>Multiples\<close>

lemma unat_plus: "unat a + unat b < 2 ^ 64 \<Longrightarrow> unat (a + b :: u64) = unat a + unat b"
  by (simp add: unat_word_ariths)

lemma next_multiple:
  fixes t h d :: u64
  assumes "t < h" and "t mod d = 0" and "h mod d = 0" and "0 < d"
  shows "t + d \<le> h" and "t < t + d" and "(t + d) mod d = 0"
proof -
  have m: "unat t mod unat d = 0" "unat h mod unat d = 0" "unat t < unat h" "0 < unat d"
    using assms by (simp_all add: unat_mod [symmetric] word_less_nat_alt unat_gt_0)
  then obtain q r where qr: "unat t = unat d * q" "unat h = unat d * r" by (auto elim!: dvdE simp: mod_eq_0_iff_dvd)
  then have "q < r" using m(3) by simp
  then have "unat d * (q + 1) \<le> unat d * r" by (intro mult_left_mono) simp_all
  then have le: "unat t + unat d \<le> unat h" using qr by simp
  then have u: "unat (t + d) = unat t + unat d" using unsigned_less [of h, where ?'a = nat] by (intro unat_plus) simp
  show "t + d \<le> h" "t < t + d" using u le m(4) by (simp_all add: word_le_nat_alt word_less_nat_alt)
  show "(t + d) mod d = 0" using u m(1) by (simp add: word_unat_eq_iff unat_mod)
qed

lemma floor_multiple:
  fixes f i d :: u64
  assumes "0 < d"
  shows "i - i mod d \<le> i" and "(i - i mod d) mod d = 0" and "f mod d = 0 \<Longrightarrow> f \<le> i \<Longrightarrow> f \<le> i - i mod d"
proof -
  have d: "0 < unat d" using assms by (simp add: unat_gt_0)
  have u: "unat (i - i mod d) = unat i - unat i mod unat d"
    by (subst unat_sub) (simp_all add: unat_mod word_le_nat_alt)
  show "i - i mod d \<le> i" by (simp add: word_le_nat_alt u)
  have "unat (i - i mod d) mod unat d = 0" by (subst u) (simp add: minus_mod_eq_mult_div)
  then show "(i - i mod d) mod d = 0" by (simp only: word_unat_eq_iff unat_mod unsigned_0)
  show "f \<le> i - i mod d" if "f mod d = 0" "f \<le> i"
  proof -
    have "unat f mod unat d = 0" using that(1) by (simp add: unat_mod [symmetric])
    then have "unat f = unat f div unat d * unat d" by auto
    also have "\<dots> \<le> unat i div unat d * unat d" using that(2) by (intro mult_right_mono div_le_mono) (simp_all add: word_le_nat_alt)
    also have "\<dots> = unat (i - i mod d)" by (subst u) (simp add: minus_mod_eq_div_mult)
    finally show ?thesis by (simp only: word_le_nat_alt)
  qed
qed


section \<open>One map\<close>

lemma map_of_below: "map_of (filter (\<lambda>p. fst p < h) m) = (\<lambda>k. if k < h then map_of m k else None)"
  by (induction m) (auto simp: fun_eq_iff)

lemma clean_is:
  assumes "sorted_wrt (<) (map fst m)"
  shows "clean_map_from_items_above m h = filter (\<lambda>p. fst p < h) m"
  using assms
proof (induction m rule: rev_induct)
  case Nil
  then show ?case by (subst clean_map_from_items_above.simps) simp
next
  case (snoc p m)
  show ?case
  proof (cases "fst p \<ge> h")
    case True
    then show ?thesis using snoc by (subst clean_map_from_items_above.simps) (simp add: sorted_wrt_append)
  next
    case False
    then have "filter (\<lambda>p. fst p < h) m = m" using snoc.prems by (auto simp: sorted_wrt_append filter_id_conv)
    then show ?thesis using False by (subst clean_map_from_items_above.simps) simp
  qed
qed

lemma level_detach:
  assumes "level d limit ids m"
  shows "level d limit (\<lambda>k. if k < h then ids k else None) (clean_map_from_items_above m h)"
proof -
  from assms obtain lo where s: "sorted_wrt (<) (map fst m)" "length m \<le> limit"
    and m: "map_of m = (\<lambda>k. if lo \<le> k \<and> k mod d = 0 then ids k else None)" by (auto simp: level_def)
  have "sorted_wrt (<) (map fst (filter (\<lambda>p. fst p < h) m))" using s(1) by (simp add: sorted_wrt_map sorted_wrt_filter)
  moreover have "length (filter (\<lambda>p. fst p < h) m) \<le> limit" using s(2) length_filter_le [of _ m] order_trans by blast
  ultimately show ?thesis unfolding level_def clean_is [OF s(1)] map_of_below m by (intro conjI exI [of _ lo]) (auto simp: fun_eq_iff)
qed

lemma level_empty: "level d limit (\<lambda>_. None) m \<longleftrightarrow> m = []"
proof
  assume "level d limit (\<lambda>_. None) m"
  then have "map_of m = (\<lambda>_. None)" by (auto simp: level_def)
  then show "m = []" by (cases m) (auto simp: fun_eq_iff split: if_splits)
qed (auto simp: level_def)

lemma level_skip: "level d limit ids m \<Longrightarrow> h mod d \<noteq> 0 \<Longrightarrow> level d limit (ids(h \<mapsto> x)) m"
  by (fastforce simp: level_def fun_eq_iff)

lemma map_set_append: "\<forall>k' \<in> fst ` set m. k' < k \<Longrightarrow> map_set k v m = m @ [(k, v)]"
  by (induction m) (auto simp: not_less)

lemma level_keys:
  assumes "level d limit ids m" and "k \<in> fst ` set m"
  shows "ids k \<noteq> None" and "k mod d = 0" and "map_of m k = ids k"
proof -
  from assms(1) obtain lo where m: "map_of m = (\<lambda>k. if lo \<le> k \<and> k mod d = 0 then ids k else None)" by (auto simp: level_def)
  have "map_of m k \<noteq> None" using assms(2) by (simp add: map_of_eq_None_iff)
  then show "ids k \<noteq> None" "k mod d = 0" "map_of m k = ids k" unfolding m by (auto split: if_splits)
qed

lemma level_push:
  assumes "level d limit ids m" and "0 < limit" and "\<forall>k. ids k \<noteq> None \<longrightarrow> k < h" and "h mod d = 0"
  shows "level d limit (ids(h \<mapsto> x)) (map_insert limit h x m)"
proof -
  from assms(1) obtain lo where s: "sorted_wrt (<) (map fst m)" "length m \<le> limit"
    and m: "map_of m = (\<lambda>k. if lo \<le> k \<and> k mod d = 0 then ids k else None)" by (auto simp: level_def)
  have below: "\<forall>k \<in> fst ` set m. k < h" using level_keys(1) [OF assms(1)] assms(3) by blast
  note app = map_set_append [OF below, of x]
  have sa: "sorted_wrt (<) (map fst (m @ [(h, x)]))" using s(1) below by (auto simp: sorted_wrt_append)
  define lo' where "lo' = (if m = [] then h else lo)"
  have lo': "lo' \<le> h"
  proof (cases m)
    case (Cons p m')
    then have k: "fst p \<in> fst ` set m" by simp
    then have "map_of m (fst p) \<noteq> None" by (simp add: map_of_eq_None_iff)
    then have "lo \<le> fst p" unfolding m by (auto split: if_splits)
    then show ?thesis using below k Cons by (auto simp: lo'_def)
  qed (simp add: lo'_def)
  have ma: "map_of (m @ [(h, x)]) = (\<lambda>k. if lo' \<le> k \<and> k mod d = 0 then (ids(h \<mapsto> x)) k else None)"
  proof
    fix k
    have "map_of (m @ [(h, x)]) = (map_of m)(h \<mapsto> x)" using map_set_lookup [OF s(1), of h x] app by simp
    then have e: "map_of (m @ [(h, x)]) k = (if k = h then Some x else map_of m k)" by simp
    show "map_of (m @ [(h, x)]) k = (if lo' \<le> k \<and> k mod d = 0 then (ids(h \<mapsto> x)) k else None)"
    proof (cases "k = h")
      case True
      then show ?thesis unfolding e using lo' assms(4) by simp
    next
      case False
      then show ?thesis
      proof (cases "m = []")
        case True
        have "ids k = None" if "h \<le> k" using assms(3) that by (metis leD not_None_eq)
        then show ?thesis unfolding e using True False by (auto simp: lo'_def)
      next
        case ne: False
        then show ?thesis unfolding e m using False by (auto simp: lo'_def)
      qed
    qed
  qed
  show ?thesis
  proof (cases "length (m @ [(h, x)]) > limit")
    case False
    then show ?thesis using sa ma by (auto simp: level_def map_insert_def app Let_def)
  next
    case True
    then have ne: "m \<noteq> []" using s(2) assms(2) by auto
    then obtain p m' where p: "m = p # m'" by (cases m) auto
    obtain f y where fy: "p = (f, y)" by fastforce
    have f: "f < k" if "k \<in> fst ` set (m' @ [(h, x)])" for k using sa that unfolding p fy by auto
    have fh: "f < h" using f [of h] by simp
    have f1: "f < k \<longleftrightarrow> f + 1 \<le> k" for k
    proof -
      have "unat (f + 1) = unat f + 1"
        using fh unsigned_less [of h, where ?'a = nat] by (subst unat_plus) (simp_all add: word_less_nat_alt)
      then show ?thesis by (simp add: word_less_nat_alt word_le_nat_alt Suc_le_eq)
    qed
    have lof: "lo' \<le> f"
    proof -
      have "map_of m f \<noteq> None" by (simp add: p fy)
      then show ?thesis unfolding m using ne by (auto simp: lo'_def split: if_splits)
    qed
    have tl: "map_of (m' @ [(h, x)]) k = (if k \<le> f then None else map_of (m @ [(h, x)]) k)" for k
    proof (cases "k \<le> f")
      case True
      then have "k \<notin> fst ` set (m' @ [(h, x)])" using f by (metis leD)
      then have "map_of (m' @ [(h, x)]) k = None" by (simp only: map_of_eq_None_iff not_False_eq_True)
      then show ?thesis using True by simp
    next
      case False
      then show ?thesis by (auto simp: p fy)
    qed
    have "map_of (m' @ [(h, x)]) = (\<lambda>k. if f + 1 \<le> k \<and> k mod d = 0 then (ids(h \<mapsto> x)) k else None)"
    proof
      fix k
      show "map_of (m' @ [(h, x)]) k = (if f + 1 \<le> k \<and> k mod d = 0 then (ids(h \<mapsto> x)) k else None)"
        unfolding tl ma f1 [symmetric] using lof by (auto simp: not_le)
    qed
    moreover have "sorted_wrt (<) (map fst (m' @ [(h, x)]))" using sa by (simp add: p)
    moreover have "length (m' @ [(h, x)]) \<le> limit" using s(2) by (simp add: p)
    moreover have "map_insert limit h x m = m' @ [(h, x)]" using True by (simp only: map_insert_def app Let_def if_True) (simp add: p)
    ultimately show ?thesis unfolding level_def by (intro conjI exI [of _ "f + 1"]) simp_all
  qed
qed

text \<open>The self-check of a push: the last entry is one distance below.\<close>

definition contiguous :: "(u64 \<Rightarrow> bytes option) \<Rightarrow> u64 \<Rightarrow> bool" where
  "contiguous ids n \<longleftrightarrow> (\<exists>b. 0 < b \<and> (\<forall>k. ids k \<noteq> None \<longleftrightarrow> b \<le> k \<and> k < n))"

lemma level_check:
  assumes "level d limit ids m" and "contiguous ids h" and "h mod d = 0" and "0 < d" and "m \<noteq> []"
  shows "fst (last m) + d = h"
proof (rule ccontr)
  assume ne: "fst (last m) + d \<noteq> h"
  from assms(1) obtain lo where s: "sorted_wrt (<) (map fst m)"
    and m: "map_of m = (\<lambda>k. if lo \<le> k \<and> k mod d = 0 then ids k else None)" by (auto simp: level_def)
  from assms(2) obtain b where b: "\<And>k. ids k \<noteq> None \<longleftrightarrow> b \<le> k \<and> k < h" by (auto simp: contiguous_def)
  let ?t = "fst (last m)"
  have k: "?t \<in> fst ` set m" using assms(5) by simp
  then have "map_of m ?t \<noteq> None" by (simp add: map_of_eq_None_iff)
  then have t: "lo \<le> ?t" "?t mod d = 0" "b \<le> ?t" "?t < h" using b unfolding m by (auto split: if_splits)
  note n = next_multiple [OF t(4,2) assms(3,4)]
  have "b \<le> ?t + d" "?t + d < h" "lo \<le> ?t + d" using n ne t by auto
  then have "map_of m (?t + d) \<noteq> None" using b n(3) unfolding m by simp
  then have "?t + d \<in> fst ` set m" by (simp add: map_of_eq_None_iff)
  then have "?t + d \<le> ?t" by (rule last_key [OF s assms(5)])
  then show False using n(2) by simp
qed

lemma level_lookup:
  assumes "level d limit ids m" and "contiguous ids n" and "0 < d" and "i < n" and "from_first i m"
  obtains j x where "find_multiple d i m = Returns (Some (j, x))" and "ids j = Some x" and "j = i - i mod d" and "j \<le> i"
proof -
  from assms(1) obtain lo where m: "map_of m = (\<lambda>k. if lo \<le> k \<and> k mod d = 0 then ids k else None)" by (auto simp: level_def)
  from assms(2) obtain b where b: "\<And>k. ids k \<noteq> None \<longleftrightarrow> b \<le> k \<and> k < n" by (auto simp: contiguous_def)
  let ?f = "fst (hd m)" and ?j = "i - i mod d"
  have f: "?f \<in> fst ` set m" "?f \<le> i" using assms(5) by (simp_all add: from_first_def)
  then have "map_of m ?f \<noteq> None" by (simp add: map_of_eq_None_iff)
  then have f': "lo \<le> ?f" "?f mod d = 0" "b \<le> ?f" using b unfolding m by (auto split: if_splits)
  note j = floor_multiple(1,2) [OF assms(3), of i] floor_multiple(3) [OF assms(3) f'(2) f(2)]
  have "b \<le> ?j" "?j < n" "lo \<le> ?j" using j f' assms(4) by auto
  then obtain x where x: "ids ?j = Some x" using b [of ?j] by auto
  have "map_of m ?j = Some x" unfolding m using x \<open>lo \<le> ?j\<close> j(2) by simp
  then have "find_multiple d i m = Returns (Some (?j, x))" by (simp add: find_multiple_def Let_def)
  then show ?thesis using that x j(1) by blast
qed

text \<open>The finest map has every height from its first one to the top.\<close>

lemma level_1_keys:
  assumes "level 1 limit ids m" and "contiguous ids n" and "m \<noteq> []"
  shows "map (unat \<circ> fst) m = [unat (fst (hd m))..<unat n]"
proof -
  from assms(1) obtain lo where s: "sorted_wrt (<) (map fst m)"
    and m: "map_of m = (\<lambda>k. if lo \<le> k then ids k else None)" by (auto simp: level_def)
  from assms(2) obtain b where b: "\<And>k. ids k \<noteq> None \<longleftrightarrow> b \<le> k \<and> k < n" by (auto simp: contiguous_def)
  have key: "k \<in> fst ` set m \<longleftrightarrow> lo \<le> k \<and> b \<le> k \<and> k < n" for k
    using b [of k] map_of_eq_None_iff [of m k] unfolding m by (auto split: if_splits)
  let ?f = "fst (hd m)"
  have f: "?f \<in> fst ` set m" using assms(3) by simp
  have least: "?f \<le> k" if "k \<in> fst ` set m" for k
    using that s assms(3) by (cases m) (auto dest: less_imp_le)
  have keys: "k \<in> fst ` set m \<longleftrightarrow> ?f \<le> k \<and> k < n" for k
    using key f least by (meson order_trans)
  have "set (map (unat \<circ> fst) m) = {unat ?f..<unat n}"
  proof -
    have "x \<in> unat ` (fst ` set m) \<longleftrightarrow> unat ?f \<le> x \<and> x < unat n" for x
    proof
      assume "x \<in> unat ` (fst ` set m)"
      then show "unat ?f \<le> x \<and> x < unat n" using keys by (auto simp: word_le_nat_alt word_less_nat_alt)
    next
      assume x: "unat ?f \<le> x \<and> x < unat n"
      then have "unat (of_nat x :: u64) = x" using unsigned_less [of n, where ?'a = nat] by (simp add: unat_of_nat)
      moreover from this have "of_nat x \<in> fst ` set m" using x by (simp add: keys word_le_nat_alt word_less_nat_alt)
      ultimately show "x \<in> unat ` (fst ` set m)" by (metis image_eqI)
    qed
    then show ?thesis by (simp only: set_map image_comp [symmetric] set_eq_iff atLeastLessThan_iff) simp
  qed
  moreover have "sorted_wrt (<) (map (unat \<circ> fst) m)" using s by (simp add: sorted_wrt_map word_less_nat_alt)
  ultimately show ?thesis
    by (intro sorted_distinct_set_unique) (simp_all add: strict_sorted_iff)
qed


section \<open>The simulation\<close>

lemma view_ok_contiguous: "view_ok v \<longleftrightarrow> view_size v \<le> 2 ^ 62 \<and> contiguous (view_ids v) (view_size v)"
  by (simp add: view_ok_def contiguous_def)

lemma represents_new: "represents (new_shortener g) (new_view g)"
  by (auto simp: represents_def new_shortener_def new_view_def view_ok_def level_empty intro: exI [of _ 1])

lemma contiguous_detach: "contiguous ids n \<Longrightarrow> h \<le> n \<Longrightarrow> contiguous (\<lambda>k. if k < h then ids k else None) h"
  unfolding contiguous_def by (elim exE conjE, rule exI, rule conjI) auto

lemma represents_detach:
  assumes "represents st v" and "h \<le> view_size v"
  shows "represents (detach h st) (view_detach h v)"
  using assms contiguous_detach [of "view_ids v" "view_size v" h]
  by (auto simp: represents_def view_ok_contiguous detach_def view_detach_def level_detach)

lemma represents_empty:
  assumes "represents st v" and "view_size v \<le> 1"
  shows "view_ids v = (\<lambda>_. None)"
proof -
  obtain b where b: "0 < b" "\<And>k. view_ids v k \<noteq> None \<longleftrightarrow> b \<le> k \<and> k < view_size v" using assms(1) by (auto simp: represents_def view_ok_def)
  have "view_ids v k = None" for k
  proof (rule ccontr)
    assume "view_ids v k \<noteq> None"
    then have "b \<le> k" "k < view_size v" using b(2) by blast+
    then have "unat b \<le> unat k" "unat k < 1" using assms(2) by (simp_all add: word_le_nat_alt word_less_nat_alt)
    then show False using b(1) by (simp add: word_less_nat_alt)
  qed
  then show ?thesis by blast
qed

lemma level_call:
  assumes "level d limit ids m" and "contiguous ids h" and "0 < d" and "0 < limit"
  shows "\<exists>m'. push_every d limit x h m = Returns m' \<and> level d limit (ids(h \<mapsto> x)) m'"
proof -
  have top: "\<forall>k. ids k \<noteq> None \<longrightarrow> k < h" using assms(2) by (auto simp: contiguous_def)
  show ?thesis
  proof (cases "h mod d = 0")
    case True
    then have "\<not> (m \<noteq> [] \<and> fst (last m) + d \<noteq> h)" using level_check [OF assms(1,2) True assms(3)] by blast
    then show ?thesis using level_push [OF assms(1,4) top True] True by (simp only: push_every_def simp_thms if_True if_False) blast
  next
    case False
    then show ?thesis using level_skip [OF assms(1) False] by (simp only: push_every_def if_False) blast
  qed
qed

lemma contiguous_push:
  assumes "contiguous ids n" and "n \<noteq> h \<Longrightarrow> ids = (\<lambda>_. None)" and "0 < h" and "h < 2 ^ 62"
  shows "contiguous (ids(h \<mapsto> x)) (h + 1)"
proof -
  obtain b where b: "0 < b" "\<And>k. ids k \<noteq> None \<longleftrightarrow> b \<le> k \<and> k < n" using assms(1) by (auto simp: contiguous_def)
  have "unat h < 2 ^ 62" using assms(4) by (simp add: word_less_nat_alt)
  then have "unat (h + 1) = unat h + 1" by (subst unat_plus) simp_all
  then have less: "k < h + 1 \<longleftrightarrow> k < h \<or> k = h" for k by (auto simp: word_less_nat_alt word_unat_eq_iff)
  show ?thesis
  proof (cases "n = h \<and> b \<le> h")
    case True
    then show ?thesis unfolding contiguous_def using b by (intro exI [of _ b]) (auto simp: less)
  next
    case False
    then have "ids k = None" for k using assms(2) b(2) [of k] by (cases "n = h") (use leD le_less_trans in \<open>fastforce simp: not_le\<close>)+
    then show ?thesis unfolding contiguous_def using assms(3) by (intro exI [of _ h]) (auto simp: less)
  qed
qed

lemma push_refines:
  assumes "represents st v" and "h < 2 ^ 62"
  shows "case view_push x h v of
      None \<Rightarrow> push_new_block_id x h st = (Throws, st)
    | Some v' \<Rightarrow> \<exists>st'. push_new_block_id x h st = (Returns (), st') \<and> represents st' v'"
proof -
  define st1 v1 where "st1 = (if h < m_local_bc_size st then detach h st else st)"
    and "v1 = (if h < view_size v then view_detach h v else v)"
  have r1: "represents st1 v1"
    using assms(1) represents_detach [OF assms(1), of h] by (auto simp: st1_def v1_def represents_def)
  have size: "m_local_bc_size st1 = view_size v1" using r1 by (simp add: represents_def)
  consider "h = 0" | "h \<noteq> 0" "\<not> (h \<le> view_size v \<or> view_size v = 1)" | "h \<noteq> 0" "h \<le> view_size v \<or> view_size v = 1" by blast
  then show ?thesis
  proof cases
    case 1
    then have "view_size v1 \<le> 1" using word_neq_0_conv [of "view_size v"] by (cases "view_size v = 0") (simp_all add: v1_def view_detach_def)
    then have "view_ids v1 = (\<lambda>_. None)" using represents_empty [OF r1] by blast
    then have "represents (st1\<lparr>m_genesis := x, m_local_bc_size := 1\<rparr>) \<lparr>view_size = 1, view_genesis = x, view_ids = (\<lambda>_. None)\<rparr>"
      using r1 by (auto simp: represents_def level_empty view_ok_def intro: exI [of _ 1])
    then show ?thesis unfolding view_push_def push_new_block_id_def st1_def [symmetric] using 1 by simp
  next
    case 2
    then have "st1 = st" "m_local_bc_size st \<noteq> 1" "m_local_bc_size st \<noteq> h"
      using assms(1) by (auto simp: st1_def represents_def)
    then show ?thesis using 2 by (simp add: view_push_def push_new_block_id_def st1_def [symmetric] get_blockchain_current_size_def)
  next
    case 3
    then have n: "view_size v1 = 1 \<or> view_size v1 = h" by (auto simp: v1_def view_detach_def)
    have c: "contiguous (view_ids v1) (view_size v1)" using r1 by (simp add: represents_def view_ok_contiguous)
    have e: "view_size v1 \<noteq> h \<Longrightarrow> view_ids v1 = (\<lambda>_. None)" using represents_empty [OF r1] n by simp
    have h: "0 < h" using 3(1) by (simp add: word_neq_0_conv)
    have ch: "contiguous (view_ids v1) h"
      using c e h by (cases "view_size v1 = h") (auto simp: contiguous_def intro!: exI [of _ h])
    have top: "\<forall>k. view_ids v1 k \<noteq> None \<longrightarrow> k < h" using ch by (auto simp: contiguous_def)
    have l: "level 1 20 (view_ids v1) (m_last_20_blocks st1)" "level 10 144 (view_ids v1) (m_last_144_blocks_every_10 st1)"
      "level 100 144 (view_ids v1) (m_last_144_blocks_every_100 st1)" "level 1000 144 (view_ids v1) (m_last_144_blocks_every_1000 st1)"
      using r1 by (simp_all add: represents_def SHORTENER_EVERYBLOCK_SIZE_def SHORTENER_EVERY_10_BLOCKS_SIZE_def SHORTENER_EVERY_100_BLOCKS_SIZE_def SHORTENER_EVERY_1000_BLOCKS_SIZE_def)
    let ?ids = "(view_ids v1)(h \<mapsto> x)"
    have m1: "level 1 20 ?ids (map_insert 20 h x (m_last_20_blocks st1))" by (rule level_push [OF l(1) _ top]) simp_all
    obtain m2 where m2: "push_every 10 144 x h (m_last_144_blocks_every_10 st1) = Returns m2" "level 10 144 ?ids m2" using level_call [OF l(2) ch] by auto
    obtain m3 where m3: "push_every 100 144 x h (m_last_144_blocks_every_100 st1) = Returns m3" "level 100 144 ?ids m3" using level_call [OF l(3) ch] by auto
    obtain m4 where m4: "push_every 1000 144 x h (m_last_144_blocks_every_1000 st1) = Returns m4" "level 1000 144 ?ids m4" using level_call [OF l(4) ch] by auto
    have "h + 1 \<le> 2 ^ 62" using inc_le [OF assms(2)] by simp
    then have ok: "view_ok \<lparr>view_size = h + 1, view_genesis = view_genesis v1, view_ids = ?ids\<rparr>"
      using contiguous_push [OF c e h assms(2)] by (simp add: view_ok_contiguous)
    have vv: "view_push x h v = Some \<lparr>view_size = h + 1, view_genesis = view_genesis v1, view_ids = ?ids\<rparr>"
    proof -
      have "view_ids (view_detach h v) = view_ids v1"
      proof (cases "h < view_size v")
        case False
        obtain b where b: "\<And>k. view_ids v k \<noteq> None \<longleftrightarrow> b \<le> k \<and> k < view_size v" using assms(1) by (auto simp: represents_def view_ok_def)
        have "view_ids v k = None" if "\<not> k < h" for k using b [of k] that False by (meson leI le_less_trans not_less)
        then show ?thesis using False by (auto simp: v1_def view_detach_def fun_eq_iff)
      qed (simp add: v1_def)
      moreover have "view_genesis v1 = view_genesis v" by (simp add: v1_def view_detach_def)
      ultimately show ?thesis using 3 by (simp add: view_push_def)
    qed
    define st' where "st' = st1\<lparr>m_local_bc_size := h + 1, m_last_20_blocks := map_insert 20 h x (m_last_20_blocks st1),
      m_last_144_blocks_every_10 := m2, m_last_144_blocks_every_100 := m3, m_last_144_blocks_every_1000 := m4\<rparr>"
    have "m_genesis st1 = view_genesis v1" using r1 by (simp add: represents_def)
    then have "represents st' \<lparr>view_size = h + 1, view_genesis = view_genesis v1, view_ids = ?ids\<rparr>"
      using ok m1 m2(2) m3(2) m4(2) by (simp add: represents_def st'_def SHORTENER_EVERYBLOCK_SIZE_def SHORTENER_EVERY_10_BLOCKS_SIZE_def
          SHORTENER_EVERY_100_BLOCKS_SIZE_def SHORTENER_EVERY_1000_BLOCKS_SIZE_def del: fun_upd_apply)
    moreover have "push_new_block_id x h st = (Returns (), st')"
    proof -
      have c: "(m_local_bc_size st1 \<noteq> 1 \<and> get_blockchain_current_size st1 \<noteq> h) = False" using n size by (auto simp: get_blockchain_current_size_def)
      have h0: "(h = 0) = False" using 3(1) by simp
      show ?thesis unfolding push_new_block_id_def st1_def [symmetric] Let_def c h0 if_False
          SHORTENER_EVERYBLOCK_SIZE_def SHORTENER_EVERY_10_BLOCKS_SIZE_def SHORTENER_EVERY_100_BLOCKS_SIZE_def SHORTENER_EVERY_1000_BLOCKS_SIZE_def
        by (simp add: m2(1) m3(1) m4(1) st'_def)
    qed
    ultimately show ?thesis unfolding vv by simp
  qed
qed

lemma call_refines:
  assumes "represents st v" and "view_call c v = Some v'" and "low_heights [c]"
  shows "\<exists>st'. shortener_call c st = (Returns (), st') \<and> represents st' v'"
proof (cases c)
  case (Push_id x h)
  then show ?thesis using push_refines [OF assms(1), of h x] assms(2,3) by (simp add: low_heights_def)
next
  case (Detach_from h)
  then show ?thesis using represents_detach [OF assms(1), of h] assms(2) by (auto split: if_splits)
next
  case Clear_all
  then show ?thesis using assms(1,2)
    by (auto simp: represents_def shortener_clear_def new_view_def view_ok_def level_empty intro: exI [of _ 1])
next
  case (Change_genesis g)
  then have v: "view_size v \<le> 1" "v' = v\<lparr>view_genesis := g, view_size := 1\<rparr>" using assms(2) by (auto split: if_splits)
  then show ?thesis using assms(1) represents_empty [OF assms(1) v(1)] Change_genesis
    by (auto simp: represents_def set_genesis_def view_ok_def intro: exI [of _ 1])
qed

lemma calls_refine:
  assumes "represents st v" and "view_calls cs v = Some v'" and "low_heights cs"
  shows "\<exists>st'. shortener_calls cs st = (Returns (), st') \<and> represents st' v'"
  using assms
proof (induction cs arbitrary: st v)
  case (Cons c cs)
  then obtain w where w: "view_call c v = Some w" "view_calls cs w = Some v'" by (auto split: Option.bind_splits)
  obtain st1 where "shortener_call c st = (Returns (), st1)" "represents st1 w"
    using call_refines [OF Cons.prems(1) w(1)] Cons.prems(3) by (auto simp: low_heights_def)
  then show ?case using Cons.IH [of st1 w] w(2) Cons.prems(3) by (simp add: low_heights_def)
qed simp

section \<open>Queries\<close>

text \<open>A lookup below the top never fails its self-check; it finds a block at or below the height, or has forgotten all of them.\<close>

lemma lookup_finds:
  assumes "represents st v" and "i < view_size v"
  shows "lookup_item_around i st = Returns None
    \<or> (\<exists>j x. lookup_item_around i st = Returns (Some (j, x)) \<and> view_ids v j = Some x \<and> j \<le> i)"
proof -
  have c: "contiguous (view_ids v) (view_size v)" using assms(1) by (simp add: represents_def view_ok_contiguous)
  have f: "\<exists>j x. find_multiple d i m = Returns (Some (j, x)) \<and> view_ids v j = Some x \<and> j \<le> i"
    if "level d limit (view_ids v) m" "from_first i m" "0 < d" for d limit m
    using level_lookup [OF that(1) c that(3) assms(2) that(2)] by metis
  have l: "level 1 SHORTENER_EVERYBLOCK_SIZE (view_ids v) (m_last_20_blocks st)"
    "level 10 SHORTENER_EVERY_10_BLOCKS_SIZE (view_ids v) (m_last_144_blocks_every_10 st)"
    "level 100 SHORTENER_EVERY_100_BLOCKS_SIZE (view_ids v) (m_last_144_blocks_every_100 st)"
    "level 1000 SHORTENER_EVERY_1000_BLOCKS_SIZE (view_ids v) (m_last_144_blocks_every_1000 st)"
    using assms(1) by (simp_all add: represents_def)
  show ?thesis unfolding lookup_item_around_def using f [OF l(1)] f [OF l(2)] f [OF l(3)] f [OF l(4)] by simp
qed

lemma last_20_lookup:
  assumes "represents st v" and "i < view_size v" and "from_first i (m_last_20_blocks st)"
  shows "map_of (m_last_20_blocks st) i = view_ids v i" and "view_ids v i \<noteq> None" and "i \<le> fst (last (m_last_20_blocks st))"
proof -
  let ?m = "m_last_20_blocks st"
  have l: "level 1 SHORTENER_EVERYBLOCK_SIZE (view_ids v) ?m" and c: "contiguous (view_ids v) (view_size v)"
    using assms(1) by (simp_all add: represents_def view_ok_contiguous)
  obtain j x where "find_multiple 1 i ?m = Returns (Some (j, x))" "view_ids v j = Some x" "j = i - i mod 1"
    by (rule level_lookup [OF l c _ assms(2,3)]) simp_all
  then have j: "find_multiple 1 i ?m = Returns (Some (i, x))" "view_ids v i = Some x" by simp_all
  then have "map_of ?m i = Some x" by (simp add: find_multiple_def split: option.splits)
  then show "map_of ?m i = view_ids v i" "view_ids v i \<noteq> None" using j(2) by simp_all
  have "i \<in> fst ` set ?m" using \<open>map_of ?m i = Some x\<close> by (metis map_of_eq_None_iff option.distinct(1))
  then show "i \<le> fst (last ?m)" using l assms(3) by (intro last_key) (auto simp: level_def from_first_def)
qed

lemma represents_positive: "represents st v \<Longrightarrow> view_ids v k \<noteq> None \<Longrightarrow> 0 < k"
  by (auto simp: represents_def view_ok_def intro: less_le_trans)

text \<open>The heights that the state still remembers, in one of its maps.\<close>

definition remembered :: "block_chain_shortener \<Rightarrow> u64 set" where
  "remembered st = fst ` (set (m_last_20_blocks st) \<union> set (m_last_144_blocks_every_10 st)
     \<union> set (m_last_144_blocks_every_100 st) \<union> set (m_last_144_blocks_every_1000 st))"

lemma remembered_known: "represents st v \<Longrightarrow> k \<in> remembered st \<Longrightarrow> view_ids v k \<noteq> None"
proof -
  have l: "k \<in> fst ` set m \<Longrightarrow> ids k \<noteq> None" if "level d limit ids m" for d limit ids m
    using that map_of_eq_None_iff [of m k] by (fastforce simp: level_def split: if_splits)
  assume "represents st v" and "k \<in> remembered st"
  then show ?thesis using l unfolding represents_def remembered_def image_Un by blast
qed

text \<open>A block that was just pushed is remembered.\<close>

lemma map_insert_nonempty: "0 < limit \<Longrightarrow> map_insert limit h bid m \<noteq> []"
proof -
  assume "0 < limit"
  moreover have "map_set h bid m \<noteq> []" by (cases m) (auto split: if_splits)
  ultimately show ?thesis by (cases "map_set h bid m") (auto simp: map_insert_def Let_def)
qed

lemma push_nonempty: "push_new_block_id bid h st = (Returns (), st') \<Longrightarrow> h \<noteq> 0 \<Longrightarrow> m_last_20_blocks st' \<noteq> []"
  unfolding push_new_block_id_def Let_def
  by (auto simp: map_insert_nonempty SHORTENER_EVERYBLOCK_SIZE_def split: if_splits outcome.splits)

lemma top_remembered:
  assumes "represents st v" and "m_last_20_blocks st \<noteq> []"
  shows "view_size v - 1 \<in> remembered st"
proof -
  let ?m = "m_last_20_blocks st" and ?n = "view_size v"
  have l: "level 1 SHORTENER_EVERYBLOCK_SIZE (view_ids v) ?m" "contiguous (view_ids v) ?n"
    using assms(1) by (simp_all add: represents_def view_ok_contiguous)
  note k = level_1_keys [OF l assms(2)]
  then have lt: "unat (fst (hd ?m)) < unat ?n" using assms(2) by (metis Nil_is_map_conv not_less upt_conv_Nil)
  then have "unat ?n - 1 \<in> set (map (unat \<circ> fst) ?m)" unfolding k by auto
  moreover have "unat ?n - 1 = unat (?n - 1)"
  proof -
    have "1 \<le> ?n" using lt by (simp add: word_le_nat_alt)
    then show ?thesis by (simp add: unat_sub)
  qed
  ultimately have "?n - 1 \<in> fst ` set ?m" by (force simp: word_unat_eq_iff [symmetric])
  then show ?thesis by (auto simp: remembered_def)
qed

lemma calls_append:
  "shortener_calls (cs @ [c]) st = (case shortener_calls cs st of (Returns _, st) \<Rightarrow> shortener_call c st | (r, st) \<Rightarrow> (r, st))"
proof (induction cs arbitrary: st)
  case Nil
  then show ?case by (auto split: prod.split outcome.split)
next
  case (Cons a cs)
  then show ?case by (auto split: prod.split outcome.split)
qed

lemma view_calls_append: "view_calls (cs @ [c]) v = do { v \<leftarrow> view_calls cs v; view_call c v }"
  by (induction cs arbitrary: v) (auto split: bind_splits)

lemma pushed_remembered:
  assumes "shortener_calls cs s = (Returns (), st)" and "view_calls cs w = Some v" and "represents st v"
    and "cs \<noteq> []" and "last cs = Push_id b h" and "h \<noteq> 0"
  shows "h \<in> remembered st"
proof -
  have cs: "cs = butlast cs @ [Push_id b h]" using assms(4,5) by (metis append_butlast_last_id)
  obtain s' where "push_new_block_id b h s' = (Returns (), st)"
    using assms(1) by (subst (asm) cs) (auto simp: calls_append split: prod.splits outcome.splits)
  then have "m_last_20_blocks st \<noteq> []" using assms(6) by (rule push_nonempty)
  moreover obtain v' where "view_push b h v' = Some v"
    using assms(2) by (subst (asm) cs) (auto simp: view_calls_append split: bind_splits)
  then have "view_size v = h + 1" using assms(6) by (auto simp: view_push_def split: if_splits)
  ultimately show ?thesis using top_remembered [OF assms(3)] by simp
qed

lemma not_from_first:
  assumes "level d limit ids m" and "\<not> from_first i m"
  shows "\<forall>k \<in> fst ` set m. i < k"
proof
  fix k
  assume k: "k \<in> fst ` set m"
  then have ne: "m \<noteq> []" by auto
  moreover have "sorted_wrt (<) (map fst m)" using assms(1) by (simp add: level_def)
  then have "fst (hd m) \<le> k" using k ne by (cases m) (auto dest: less_imp_le)
  moreover have "i < fst (hd m)" using assms(2) ne by (simp add: from_first_def not_le)
  ultimately show "i < k" by simp
qed

lemma level_multiple: "level d limit ids m \<Longrightarrow> k \<in> fst ` set m \<Longrightarrow> k mod d = 0"
proof -
  assume "level d limit ids m" and k: "k \<in> fst ` set m"
  then obtain lo where "map_of m = (\<lambda>k. if lo \<le> k \<and> k mod d = 0 then ids k else None)" by (auto simp: level_def)
  moreover have "map_of m k \<noteq> None" using k by (simp add: map_of_eq_None_iff)
  ultimately show ?thesis by (auto split: if_splits)
qed

lemma multiple_trans:
  fixes i d e :: u64
  assumes "i mod e = 0" and "unat d dvd unat e"
  shows "i mod d = 0"
proof -
  have "unat e dvd unat i" using arg_cong [OF assms(1), of unat] by (simp add: unat_mod mod_eq_0_iff_dvd)
  then have "unat d dvd unat i" using assms(2) by (rule dvd_trans [rotated])
  then show ?thesis by (simp add: word_unat_eq_iff unat_mod mod_eq_0_iff_dvd)
qed

text \<open>A lookup in the map of a level, and whether that level holds the height itself.\<close>

lemma level_holds:
  assumes "level d limit ids m" and "contiguous ids n" and "0 < d" and "i < n" and "from_first i m"
  shows "i - i mod d \<in> fst ` set m \<and> i - i mod d \<le> i \<and> find_multiple d i m = Returns (Some (i - i mod d, the (ids (i - i mod d))))"
proof -
  obtain x where f: "find_multiple d i m = Returns (Some (i - i mod d, x))" "ids (i - i mod d) = Some x" "i - i mod d \<le> i"
    using level_lookup [OF assms] by metis
  then have "map_of m (i - i mod d) = Some x" by (simp add: find_multiple_def Let_def split: option.splits)
  then have k: "i - i mod d \<in> fst ` set m" by (metis map_of_eq_None_iff option.distinct(1))
  then show ?thesis using f by auto
qed

lemma lookup_is:
  assumes "represents st v" and "i < view_size v"
  shows "(lookup_item_around i st = Returns None \<and> (\<forall>k \<in> remembered st. i < k))
    \<or> (\<exists>j. lookup_item_around i st = Returns (Some (j, the (view_ids v j))) \<and> j \<in> remembered st \<and> j \<le> i \<and> (i \<in> remembered st \<longleftrightarrow> j = i))"
proof -
  let ?a = "m_last_20_blocks st" and ?b = "m_last_144_blocks_every_10 st" and ?c = "m_last_144_blocks_every_100 st"
    and ?d = "m_last_144_blocks_every_1000 st"
  have c: "contiguous (view_ids v) (view_size v)" using assms(1) by (simp add: represents_def view_ok_contiguous)
  have l: "level 1 SHORTENER_EVERYBLOCK_SIZE (view_ids v) ?a" "level 10 SHORTENER_EVERY_10_BLOCKS_SIZE (view_ids v) ?b"
    "level 100 SHORTENER_EVERY_100_BLOCKS_SIZE (view_ids v) ?c" "level 1000 SHORTENER_EVERY_1000_BLOCKS_SIZE (view_ids v) ?d"
    using assms(1) by (simp_all add: represents_def)
  note h = level_holds [OF l(1) c _ assms(2)] level_holds [OF l(2) c _ assms(2)] level_holds [OF l(3) c _ assms(2)] level_holds [OF l(4) c _ assms(2)]
  note n = not_from_first [OF l(1)] not_from_first [OF l(2)] not_from_first [OF l(3)] not_from_first [OF l(4)]
  have m: "i mod 10 = 0" if "i \<in> fst ` set ?b \<or> i \<in> fst ` set ?c \<or> i \<in> fst ` set ?d"
    using that
  proof (elim disjE)
    assume "i \<in> fst ` set ?c"
    then show ?thesis by (intro multiple_trans [OF level_multiple [OF l(3)]]) simp_all
  next
    assume "i \<in> fst ` set ?d"
    then show ?thesis by (intro multiple_trans [OF level_multiple [OF l(4)]]) simp_all
  qed (rule level_multiple [OF l(2)])
  have m': "i mod 100 = 0" if "i \<in> fst ` set ?c \<or> i \<in> fst ` set ?d"
    using that
  proof (elim disjE)
    assume "i \<in> fst ` set ?d"
    then show ?thesis by (intro multiple_trans [OF level_multiple [OF l(4)]]) simp_all
  qed (rule level_multiple [OF l(3)])
  have R: "k \<in> remembered st \<longleftrightarrow> k \<in> fst ` set ?a \<or> k \<in> fst ` set ?b \<or> k \<in> fst ` set ?c \<or> k \<in> fst ` set ?d" for k
    by (simp only: remembered_def image_Un Un_iff disj_assoc)
  have z: "i - x = i \<longleftrightarrow> x = 0" for x by simp
  have f: "i \<notin> K" if "\<forall>k \<in> K. i < k" for K using that by blast
  consider (a) "from_first i ?a" | (b) "\<not> from_first i ?a" "from_first i ?b"
    | (c) "\<not> from_first i ?a" "\<not> from_first i ?b" "from_first i ?c"
    | (d) "\<not> from_first i ?a" "\<not> from_first i ?b" "\<not> from_first i ?c" "from_first i ?d"
    | (none) "\<not> from_first i ?a" "\<not> from_first i ?b" "\<not> from_first i ?c" "\<not> from_first i ?d" by blast
  then show ?thesis
  proof cases
    case a
    then show ?thesis using h(1) [OF _ a] unfolding lookup_item_around_def R by simp
  next
    case b
    have k: "i mod 10 = 0 \<Longrightarrow> i \<in> fst ` set ?b" using h(2) [OF _ b(2)] by simp
    have "i \<in> remembered st \<longleftrightarrow> i - i mod 10 = i" unfolding R z using k f [OF n(1) [OF b(1)]] m by metis
    then show ?thesis using h(2) [OF _ b(2)] b unfolding lookup_item_around_def R by simp
  next
    case c
    have k: "i mod 100 = 0 \<Longrightarrow> i \<in> fst ` set ?c" using h(3) [OF _ c(3)] by simp
    have "i \<in> remembered st \<longleftrightarrow> i - i mod 100 = i"
      unfolding R z using k f [OF n(1) [OF c(1)]] f [OF n(2) [OF c(2)]] m' by metis
    then show ?thesis using h(3) [OF _ c(3)] c unfolding lookup_item_around_def R by simp
  next
    case d
    have k: "i mod 1000 = 0 \<Longrightarrow> i \<in> fst ` set ?d" using h(4) [OF _ d(4)] by simp
    have "i \<in> remembered st \<longleftrightarrow> i - i mod 1000 = i"
      unfolding R z using k f [OF n(1) [OF d(1)]] f [OF n(2) [OF d(2)]] f [OF n(3) [OF d(3)]] level_multiple [OF l(4), of i] by metis
    then show ?thesis using h(4) [OF _ d(4)] d unfolding lookup_item_around_def R by simp
  next
    case none
    have "i < k" if "k \<in> remembered st" for k
      using that n(1) [OF none(1)] n(2) [OF none(2)] n(3) [OF none(3)] n(4) [OF none(4)] unfolding R by metis
    then show ?thesis using none unfolding lookup_item_around_def by simp
  qed
qed

lemma match_is:
  assumes "represents st v" and "i < view_size v"
  shows "check_if_block_matched i bid reset st = Returns
    (if i = 0 then (if bid = view_genesis v then (True, True, reset) else (True, False, True))
     else if i \<in> remembered st then (True, view_ids v i = Some bid, reset)
     else (False, False, reset \<or> (\<forall>k \<in> remembered st. i < k)))"
proof (cases "i = 0")
  case True
  then show ?thesis using assms by (auto simp: check_if_block_matched_def represents_def)
next
  case False
  show ?thesis
  proof (cases "from_first i (m_last_20_blocks st)")
    case True
    obtain y where y: "map_of (m_last_20_blocks st) i = Some y" "view_ids v i = Some y" using last_20_lookup(1,2) [OF assms True] by auto
    have "i \<in> fst ` set (m_last_20_blocks st)" using y(1) by (metis map_of_eq_None_iff option.distinct(1))
    then have "i \<in> remembered st" by (auto simp: remembered_def)
    moreover have "check_if_block_matched i bid reset st = Returns (True, bid = y, reset)"
      using False True y last_20_lookup(3) [OF assms True] by (simp add: check_if_block_matched_def)
    ultimately show ?thesis using y(2) False by auto
  next
    case nf: False
    consider "lookup_item_around i st = Returns None" "\<forall>k \<in> remembered st. i < k"
      | j where "lookup_item_around i st = Returns (Some (j, the (view_ids v j)))" "j \<in> remembered st" "j \<le> i" "i \<in> remembered st \<longleftrightarrow> j = i"
      using lookup_is [OF assms] by blast
    then show ?thesis
    proof cases
      case 1
      then show ?thesis using False nf by (auto simp: check_if_block_matched_def)
    next
      case 2
      show ?thesis
      proof (cases "j = i")
        case True
        then obtain x where "view_ids v i = Some x" using remembered_known [OF assms(1)] 2(2) by blast
        then show ?thesis using 2 True False nf by (auto simp: check_if_block_matched_def)
      next
        case ne: False
        then show ?thesis using 2 False nf by (auto simp: check_if_block_matched_def not_less)
      qed
    qed
  qed
qed


section \<open>The history\<close>

lemma short_history_is:
  assumes "represents st v" and "0 < dist" and "dist \<le> off"
  shows "\<exists>hs. short_history_loop st (view_size v) off dist ids = Some (Returns (ids @ map (\<lambda>h. the (view_ids v h)) hs))
    \<and> sorted_wrt (>) hs \<and> (\<forall>h \<in> set hs. view_ids v h \<noteq> None \<and> unat h + unat off \<le> unat (view_size v))
    \<and> (hs \<noteq> [] \<longrightarrow> unat off + unat dist * (2 ^ length hs - 2) < unat (view_size v))"
  using assms(2,3)
proof (induction "unat (view_size v) - unat off" arbitrary: off dist ids rule: less_induct)
  case less
  have n: "unat (view_size v) \<le> 2 ^ 62" using assms(1) by (simp add: represents_def view_ok_def word_le_nat_alt)
  show ?case
  proof (cases "off < view_size v")
    case False
    then show ?thesis by (subst short_history_loop.simps) (auto intro: exI [of _ "[]"])
  next
    case True
    have off: "unat off < unat (view_size v)" "0 < unat dist" "unat dist \<le> unat off"
      using True less.prems by (simp_all add: word_less_nat_alt word_le_nat_alt)
    let ?i = "view_size v - off"
    have i: "unat ?i = unat (view_size v) - unat off" using True by (subst unat_sub) simp_all
    have "?i < view_size v" using off i by (simp add: word_less_nat_alt)
    from lookup_finds [OF assms(1) this] show ?thesis
    proof (elim disjE exE conjE)
      assume "lookup_item_around ?i st = Returns None"
      then show ?thesis using True by (subst short_history_loop.simps) (auto simp: Let_def intro: exI [of _ "[]"])
    next
      fix j x
      assume j: "lookup_item_around ?i st = Returns (Some (j, x))" "view_ids v j = Some x" "j \<le> ?i"
      have j0: "0 < unat j" using represents_positive [OF assms(1), of j] j(2) by (simp add: word_less_nat_alt)
      have ji: "unat j + unat off \<le> unat (view_size v)" using j(3) i off(1) by (simp add: word_le_nat_alt)
      let ?d = "dist * 2" and ?o = "view_size v - j + dist * 2"
      have d: "unat ?d = 2 * unat dist" using off n by (simp add: unat_word_ariths)
      have "unat (view_size v - j) = unat (view_size v) - unat j" using ji by (subst unat_sub) (simp_all add: word_le_nat_alt)
      then have o: "unat ?o = unat (view_size v) - unat j + 2 * unat dist" using off n d by (subst unat_plus) simp_all
      have step: "unat (view_size v) - unat ?o < unat (view_size v) - unat off" using o off ji by simp
      have pre: "0 < ?d" "?d \<le> ?o" using off o d n ji by (simp_all add: word_less_nat_alt word_le_nat_alt)
      obtain hs where hs: "short_history_loop st (view_size v) ?o ?d (ids @ [x]) = Some (Returns ((ids @ [x]) @ map (\<lambda>h. the (view_ids v h)) hs))"
        "sorted_wrt (>) hs" "\<forall>h \<in> set hs. view_ids v h \<noteq> None \<and> unat h + unat ?o \<le> unat (view_size v)"
        "hs \<noteq> [] \<longrightarrow> unat ?o + unat ?d * (2 ^ length hs - 2) < unat (view_size v)"
        using less.hyps [OF step pre, of "ids @ [x]"] by blast
      have "short_history_loop st (view_size v) off dist ids = short_history_loop st (view_size v) ?o ?d (ids @ [x])"
        using True j(1) by (subst short_history_loop.simps) (simp add: Let_def)
      moreover have "\<forall>h \<in> set hs. h < j \<and> unat h + unat off \<le> unat (view_size v)"
        using hs(3) o off ji by (auto simp: word_less_nat_alt)
      moreover have "unat off + unat dist * (2 ^ length (j # hs) - 2) < unat (view_size v)"
      proof (cases "hs = []")
        case False
        then have p: "2 \<le> (2 :: nat) ^ length hs" by (cases hs) simp_all
        have "unat off + unat dist * (2 * 2 ^ length hs - 2) \<le> unat ?o + 2 * unat dist * (2 ^ length hs - 2)"
          using o ji p by (simp add: diff_mult_distrib2 algebra_simps)
        then show ?thesis using hs(4) False d by simp
      qed (use off in simp)
      ultimately show ?thesis using hs(1,2,3) j(2) ji by (intro exI [of _ "j # hs"]) (auto simp del: short_history_loop.simps)
    qed
  qed
qed

lemma recent_keys:
  assumes "represents st v" and "k < length (m_last_20_blocks st)"
  shows "unat (fst (rev (m_last_20_blocks st) ! k)) = unat (view_size v) - 1 - k" and "k < unat (view_size v)"
    and "view_ids v (fst (rev (m_last_20_blocks st) ! k)) = Some (snd (rev (m_last_20_blocks st) ! k))"
proof -
  let ?m = "m_last_20_blocks st" and ?n = "view_size v"
  have l: "level 1 SHORTENER_EVERYBLOCK_SIZE (view_ids v) ?m" and c: "contiguous (view_ids v) ?n"
    using assms(1) by (simp_all add: represents_def view_ok_contiguous)
  have ne: "?m \<noteq> []" using assms(2) by auto
  have keys: "map (unat \<circ> fst) ?m = [unat (fst (hd ?m))..<unat ?n]" by (rule level_1_keys [OF l c ne])
  from arg_cong [OF keys, of length] have len: "length ?m = unat ?n - unat (fst (hd ?m))" by simp
  let ?j = "length ?m - 1 - k"
  have r: "rev ?m ! k = ?m ! ?j" using assms(2) by (simp add: rev_nth)
  have "unat (fst (?m ! ?j)) = map (unat \<circ> fst) ?m ! ?j" using assms(2) by simp
  also have "\<dots> = unat (fst (hd ?m)) + ?j" unfolding keys using assms(2) len by (subst nth_upt) simp_all
  finally show "unat (fst (rev ?m ! k)) = unat ?n - 1 - k" unfolding r using len assms(2) by simp
  show "k < unat ?n" using len assms(2) by simp
  let ?p = "rev ?m ! k"
  have p: "?p \<in> set ?m" using assms(2) nth_mem [of k "rev ?m"] by simp
  have "sorted_wrt (<) (map fst ?m)" using l by (simp add: level_def)
  then have "distinct (map fst ?m)" by (simp add: strict_sorted_iff)
  then have "map_of ?m (fst ?p) = Some (snd ?p)" using p by (simp add: map_of_eq_Some_iff)
  then show "view_ids v (fst ?p) = Some (snd ?p)" using level_keys(3) [OF l, of "fst ?p"] p by simp
qed

lemma history_is:
  assumes "represents st v" and "view_size v \<noteq> 0"
  shows "\<exists>hs. get_short_chain_history st = Some (Returns (map (\<lambda>h. the (view_ids v h)) hs @ [view_genesis v]))
    \<and> sorted_wrt (>) hs \<and> (\<forall>h \<in> set hs. view_ids v h \<noteq> None) \<and> length hs \<le> 72
    \<and> (\<forall>k < min 10 (length (m_last_20_blocks st)). k < length hs \<and> hs ! k = view_size v - 1 - of_nat k)"
proof -
  let ?m = "m_last_20_blocks st" and ?n = "view_size v"
  define recent where "recent = take 10 (rev ?m)"
  define count where "count = length recent"
  have count: "count \<le> 10" "count = min 10 (length ?m)" by (auto simp: count_def recent_def)
  have n: "unat ?n \<le> 2 ^ 62" "0 < unat ?n" using assms by (simp_all add: represents_def view_ok_def word_le_nat_alt unat_gt_0)
  have key: "unat (fst (recent ! k)) = unat ?n - 1 - k" "k < unat ?n" "view_ids v (fst (recent ! k)) = Some (snd (recent ! k))" if "k < count" for k
    using recent_keys [OF assms(1), of k] that by (simp_all add: count_def recent_def)
  have cn: "count \<le> unat ?n" using key(2) [of "count - 1"] by (cases count) auto
  have c1: "unat (of_nat count + 1 :: u64) = count + 1" using count(1) by (subst unat_plus) (simp_all add: unat_of_nat)
  define i where "i = (if recent = [] then 0 else fst (last recent))"
  have i: "of_nat count + 1 = ?n - i + 1 \<or> count = 0"
  proof (cases "count = 0")
    case False
    then have "i = fst (recent ! (count - 1))" by (auto simp: i_def count_def last_conv_nth)
    then have "unat i = unat ?n - count" using key(1) [of "count - 1"] False by simp
    then have "unat (?n - i) = count" using cn by (subst unat_sub) (simp_all add: word_le_nat_alt)
    then have "?n - i = of_nat count" using count(1) by (simp add: word_unat_eq_iff unat_of_nat)
    then show ?thesis by simp
  qed simp
  obtain hs where hs: "short_history_loop st ?n (of_nat count + 1) 1 (map snd recent) = Some (Returns (map snd recent @ map (\<lambda>h. the (view_ids v h)) hs))"
    "sorted_wrt (>) hs" "\<forall>h \<in> set hs. view_ids v h \<noteq> None \<and> unat h + unat (of_nat count + 1 :: u64) \<le> unat ?n"
    "hs \<noteq> [] \<longrightarrow> unat (of_nat count + 1 :: u64) + unat (1 :: u64) * (2 ^ length hs - 2) < unat ?n"
    using short_history_is [OF assms(1), of 1 "of_nat count + 1" "map snd recent"] c1 by (auto simp: word_le_nat_alt)
  define all where "all = map fst recent @ hs"
  have ids: "map snd recent = map (\<lambda>h. the (view_ids v h)) (map fst recent)"
    using key(3) by (intro nth_equalityI) (simp_all add: count_def)
  have "get_short_chain_history st = Some (Returns (map (\<lambda>h. the (view_ids v h)) all @ [view_genesis v]))"
  proof -
    have sz: "get_blockchain_current_size st = ?n" "m_genesis st = view_genesis v" using assms(1) by (simp_all add: get_blockchain_current_size_def represents_def)
    show ?thesis unfolding get_short_chain_history_def sz Let_def recent_def [symmetric] i_def [symmetric] length_map count_def [symmetric]
      using assms(2) i hs(1) by (simp add: all_def ids [simplified] del: not_less)
  qed
  moreover have "sorted_wrt (>) all"
  proof -
    have "sorted_wrt (>) (map fst recent)"
      unfolding sorted_wrt_iff_nth_less
    proof (intro allI impI)
      fix i j
      assume "i < j" and "j < length (map fst recent)"
      then show "map fst recent ! j < map fst recent ! i"
        using key(1) [of i] key(1) [of j] key(2) [of j] by (simp add: count_def word_less_nat_alt)
    qed
    moreover have "h < fst p" if p: "p \<in> set recent" and h: "h \<in> set hs" for p h
    proof -
      obtain k where "k < count" "p = recent ! k" using p unfolding in_set_conv_nth count_def by metis
      then show ?thesis using key(1) [of k] hs(3) h c1 by (auto simp: word_less_nat_alt)
    qed
    ultimately show ?thesis using hs(2) by (auto simp: all_def sorted_wrt_append)
  qed
  moreover have "\<forall>h \<in> set all. view_ids v h \<noteq> None"
  proof -
    have "view_ids v (fst p) \<noteq> None" if p: "p \<in> set recent" for p
      using p key(3) unfolding in_set_conv_nth count_def by (metis option.distinct(1))
    then show ?thesis using hs(3) by (auto simp: all_def)
  qed
  moreover have "length all \<le> 72"
  proof (cases "hs = []")
    case False
    then have "2 ^ length hs - 2 < (2 :: nat) ^ 62" using hs(4) n(1) by simp
    then have "(2 :: nat) ^ length hs < 2 ^ 63" by simp
    then have "length hs < 63" by (simp only: power_strict_increasing_iff one_less_numeral_iff semiring_norm)
    then show ?thesis using count(1) by (simp add: all_def count_def [symmetric])
  qed (use count(1) in \<open>simp add: all_def count_def [symmetric]\<close>)
  moreover have "k < length all \<and> all ! k = ?n - 1 - of_nat k" if "k < min 10 (length ?m)" for k
  proof -
    have k: "k < count" using that count(2) by simp
    have "unat (?n - 1 - of_nat k) = unat ?n - 1 - k"
    proof -
      have one: "unat (?n - 1) = unat ?n - 1" using n(2) by (subst unat_sub) (simp_all add: word_le_nat_alt)
      have "unat (of_nat k :: u64) = k" using k count(1) by (simp add: unat_of_nat)
      then show ?thesis using one key(2) [OF k] by (subst unat_sub) (simp_all add: word_le_nat_alt)
    qed
    then have "fst (recent ! k) = ?n - 1 - of_nat k" using key(1) [OF k] by (simp add: word_unat_eq_iff)
    then show ?thesis using k by (simp add: all_def nth_append count_def)
  qed
  ultimately show ?thesis by blast
qed


section \<open>Properties\<close>

text \<open>
  C14 (shortener_refines). Any sequence of pushes, detachments, resets and changes of the genesis that the specification allows,
  which remembers the identifiers of all blocks, runs without a failed self-check, and the four maps then hold the
  identifiers at the multiples of their distances from some height on. A push at a height that the specification
  refuses throws and changes nothing.
\<close>

theorem shortener_refines:
  assumes "view_calls cs (new_view g) = Some v" and "low_heights cs"
  shows "\<exists>st. shortener_calls cs (new_shortener g) = (Returns (), st) \<and> represents st v
    \<and> (\<forall>bid h. h < 2 ^ 62 \<and> view_push bid h v = None \<longrightarrow> push_new_block_id bid h st = (Throws, st))"
proof -
  obtain st where st: "shortener_calls cs (new_shortener g) = (Returns (), st)" "represents st v"
    using calls_refine [OF represents_new assms] by blast
  have "push_new_block_id bid h st = (Throws, st)" if "h < 2 ^ 62" "view_push bid h v = None" for bid h
    using push_refines [OF st(2) that(1), of bid] that(2) by simp
  then show ?thesis using st by blast
qed

theorem shortener_refines_witness:
  "\<exists>st. shortener_calls [Push_id [1] 5, Push_id [2] 6, Push_id [3] 6] (new_shortener [0]) = (Returns (), st)
    \<and> push_new_block_id [4] 9 st = (Throws, st)"
proof -
  let ?cs = "[Push_id [1] 5, Push_id [2] 6, Push_id [3] 6]"
  obtain v where v: "view_calls ?cs (new_view [0]) = Some v" "view_size v = 7"
    by (simp add: view_push_def new_view_def view_detach_def)
  show ?thesis using shortener_refines [OF v(1)] v(2) by (auto simp: low_heights_def view_push_def)
qed

text \<open>
  C15 (shortener_history). In every such state with a genesis the history that the wallet sends to a node is
  computed, the loop ends and no self-check fails: identifiers of blocks of the chain by decreasing height, the top ones
  first without a gap, at most 72 of them, and then the genesis.
\<close>

theorem shortener_history:
  assumes "view_calls cs (new_view g) = Some v" and "low_heights cs" and "view_size v \<noteq> 0"
  shows "\<exists>st hs. shortener_calls cs (new_shortener g) = (Returns (), st)
    \<and> get_short_chain_history st = Some (Returns (map (\<lambda>h. the (view_ids v h)) hs @ [view_genesis v]))
    \<and> sorted_wrt (>) hs \<and> (\<forall>h \<in> set hs. view_ids v h \<noteq> None) \<and> length hs \<le> 72
    \<and> (\<forall>k < min 10 (length (m_last_20_blocks st)). k < length hs \<and> hs ! k = view_size v - 1 - of_nat k)"
proof -
  obtain st where "shortener_calls cs (new_shortener g) = (Returns (), st)" "represents st v"
    using calls_refine [OF represents_new assms(1,2)] by blast
  then show ?thesis using history_is [of st v] assms(3) by blast
qed

theorem shortener_history_witness:
  "\<exists>st hs. shortener_calls [Push_id [1] 5, Push_id [2] 6] (new_shortener [0]) = (Returns (), st)
    \<and> get_short_chain_history st = Some (Returns (hs @ [[0]]))"
proof -
  let ?cs = "[Push_id [1] 5, Push_id [2] 6]"
  obtain v where v: "view_calls ?cs (new_view [0]) = Some v" "view_size v = 7" "view_genesis v = [0]"
    by (simp add: view_push_def new_view_def view_detach_def)
  show ?thesis using shortener_history [OF v(1)] v(2,3) by (auto simp: low_heights_def)
qed

text \<open>
  C31 (shortener_match). In every such state the comparison with a block below the top fails no self-check, and its three answers are
  these: the genesis is always found, any other block exactly if its height is one of those that the
  maps remember, all of which are heights of the chain, and the last one pushed is among them; a found block matches exactly if it is the one of the chain; and everything has to be read again
  if the genesis differs or no height up to the one asked for is remembered, otherwise the flag is left as it was.
\<close>

theorem shortener_match:
  assumes "view_calls cs (new_view g) = Some v" and "low_heights cs" and "i < view_size v"
  shows "\<exists>st. shortener_calls cs (new_shortener g) = (Returns (), st)
    \<and> (\<forall>k \<in> remembered st. view_ids v k \<noteq> None)
    \<and> (\<forall>b h. cs \<noteq> [] \<and> last cs = Push_id b h \<and> h \<noteq> 0 \<longrightarrow> h \<in> remembered st)
    \<and> check_if_block_matched i bid reset st = Returns
        (if i = 0 then (if bid = view_genesis v then (True, True, reset) else (True, False, True))
         else if i \<in> remembered st then (True, view_ids v i = Some bid, reset)
         else (False, False, reset \<or> (\<forall>k \<in> remembered st. i < k)))"
proof -
  obtain st where st: "shortener_calls cs (new_shortener g) = (Returns (), st)" "represents st v"
    using calls_refine [OF represents_new assms(1,2)] by blast
  show ?thesis
    using st(1) remembered_known [OF st(2)] match_is [OF st(2) assms(3)] pushed_remembered [OF st(1) assms(1) st(2)] by blast
qed

theorem shortener_match_witness:
  "\<exists>st. shortener_calls [Push_id [1] 5, Push_id [2] 6] (new_shortener [0]) = (Returns (), st)
    \<and> check_if_block_matched 5 [1] False st = Returns (True, True, False)
    \<and> check_if_block_matched 5 [2] False st = Returns (True, False, False)
    \<and> check_if_block_matched 3 [2] False st = Returns (False, False, True)"
proof -
  let ?cs = "[Push_id [1] 5, Push_id [2] 6]"
  obtain v where v: "view_calls ?cs (new_view [0]) = Some v" "view_size v = 7" "view_ids v 5 = Some [1]"
    by (simp add: view_push_def new_view_def view_detach_def)
  obtain st where st: "shortener_calls ?cs (new_shortener [0]) = (Returns (), st)" "remembered st = {5, 6}"
    by (simp add: push_new_block_id_def new_shortener_def Let_def map_insert_def push_every_def detach_def
        get_blockchain_current_size_def SHORTENER_EVERYBLOCK_SIZE_def remembered_def)
  have l: "low_heights ?cs" "5 < view_size v" "3 < view_size v" by (simp_all add: low_heights_def v(2))
  show ?thesis
    using shortener_match [OF v(1) l(1,2), of "[1]" False] shortener_match [OF v(1) l(1,2), of "[2]" False]
      shortener_match [OF v(1) l(1,3), of "[2]" False] st v(3) by simp
qed

end
