(* ===== verification/Base58.thy ===== *)
theory Base58
  imports Varint Keccak
begin

text \<open>
  The text encoding of addresses in \<^verbatim>\<open>src/src/common/base58.cpp\<close>: blocks of eight bytes become
  eleven letters, the last block of \<open>k\<close> bytes becomes \<open>encoded_block_sizes[k]\<close> letters, and an
  address carries a varint tag and four bytes of \<^verbatim>\<open>cn_fast_hash\<close>. A string is a list of bytes.

  The results are \<open>Ok\<close>, the \<^verbatim>\<open>false\<close> of the decoding functions, the exception of an assertion, and
  \<open>Wild\<close> for a write outside the buffer, which the source does not guard against.
\<close>

unbundle bit_operations_syntax

section \<open>Definitions\<close>

datatype 'a b58 = Ok 'a | Rejected | Throw | Wild

fun b58_bind :: "'a b58 \<Rightarrow> ('a \<Rightarrow> 'b b58) \<Rightarrow> 'b b58" where
  "b58_bind (Ok x) f = f x"
| "b58_bind Rejected f = Rejected"
| "b58_bind Throw f = Throw"
| "b58_bind Wild f = Wild"

fun b58_all :: "'a b58 list \<Rightarrow> 'a list b58" where
  "b58_all [] = Ok []"
| "b58_all (x # xs) = b58_bind x (\<lambda>y. b58_bind (b58_all xs) (\<lambda>ys. Ok (y # ys)))"

definition alphabet :: bytes where
  "alphabet = map of_char ''123456789ABCDEFGHJKLMNPQRSTUVWXYZabcdefghijkmnopqrstuvwxyz''"

definition encoded_block_sizes :: "nat list" where
  "encoded_block_sizes = [0, 2, 3, 5, 6, 7, 9, 10, 11]"

text \<open>The tables that the constructors of \<^verbatim>\<open>reverse_alphabet\<close> and \<^verbatim>\<open>decoded_block_sizes\<close> fill.\<close>

definition reverse_alphabet_data :: "int list" where
  "reverse_alphabet_data =
     fold (\<lambda>i m. m[nat (uint (alphabet ! i) - uint (alphabet ! 0)) := int i]) [0..<58]
       (replicate (nat (uint (alphabet ! 57) - uint (alphabet ! 0) + 1)) (- 1))"

definition reverse_alphabet :: "u8 \<Rightarrow> int" where
  "reverse_alphabet letter =
     (let idx = (word_of_int (sint letter - sint (alphabet ! 0)) :: u64)
      in if unat idx < length reverse_alphabet_data then reverse_alphabet_data ! unat idx else - 1)"

definition decoded_block_sizes_data :: "int list" where
  "decoded_block_sizes_data = fold (\<lambda>i m. m[encoded_block_sizes ! i := int i]) [0..<9] (replicate 12 (- 1))"

definition decoded_block_sizes :: "nat \<Rightarrow> int b58" where
  "decoded_block_sizes n = (if \<not> n \<le> 11 then Throw else Ok (decoded_block_sizes_data ! n))"

definition uint_8be_to_64 :: "bytes \<Rightarrow> u64 b58" where
  "uint_8be_to_64 data =
     (if \<not> (1 \<le> length data \<and> length data \<le> 8) then Throw
      else Ok (fold (\<lambda>b res. push_bit 8 res OR ucast b) data 0))"

definition SWAP64 :: "u64 \<Rightarrow> u64" where
  "SWAP64 x =
     push_bit 56 (x AND 0x00000000000000ff) OR push_bit 40 (x AND 0x000000000000ff00) OR
     push_bit 24 (x AND 0x0000000000ff0000) OR push_bit 8 (x AND 0x00000000ff000000) OR
     drop_bit 8 (x AND 0x000000ff00000000) OR drop_bit 24 (x AND 0x0000ff0000000000) OR
     drop_bit 40 (x AND 0x00ff000000000000) OR drop_bit 56 (x AND 0xff00000000000000)"

definition uint_64_to_8be :: "u64 \<Rightarrow> nat \<Rightarrow> bytes b58" where
  "uint_64_to_8be num sz =
     (if \<not> (1 \<le> sz \<and> sz \<le> 8) then Throw
      else Ok (take sz (drop (8 - sz) (le_bytes 8 (uint (SWAP64 num))))))"

text \<open>The loop that writes letters from position \<open>i\<close> downwards.\<close>

function encode_loop :: "u64 \<Rightarrow> int \<Rightarrow> bytes \<Rightarrow> bytes b58" where
  "encode_loop num i res =
     (if 0 < num
      then if i < 0 \<or> int (length res) \<le> i then Wild
           else encode_loop (num div 58) (i - 1) (res[nat i := alphabet ! unat (num mod 58)])
      else Ok res)"
  by pat_completeness auto
termination
proof (relation "measure (\<lambda>(num, _). unat num)")
  show "wf (measure (\<lambda>(num :: u64, _ :: int \<times> bytes). unat num))" by simp
  fix num :: u64 and i :: int and res :: bytes
  assume "0 < num"
  then have "0 < unat num" by (simp add: word_less_nat_alt)
  then show "((num div 58, i - 1, res[nat i := alphabet ! unat (num mod 58)]), num, i, res) \<in> measure (\<lambda>(num, _). unat num)"
    by (simp add: unat_div)
qed

declare encode_loop.simps [simp del]

text \<open>The buffer of a block is filled with \<^verbatim>\<open>alphabet[0]\<close> by the caller.\<close>

definition encode_block :: "bytes \<Rightarrow> bytes b58" where
  "encode_block block =
     (let sz = length block in
      if \<not> (1 \<le> sz \<and> sz \<le> 8) then Throw
      else b58_bind (uint_8be_to_64 block) (\<lambda>num.
             encode_loop num (int (encoded_block_sizes ! sz) - 1) (replicate (encoded_block_sizes ! sz) (alphabet ! 0))))"

text \<open>
  The loop over the letters from the last one to the first one; \<^verbatim>\<open>tmp\<close> is a 128-bit number.
\<close>

fun decode_loop :: "bytes \<Rightarrow> u64 \<Rightarrow> u64 \<Rightarrow> u64 b58" where
  "decode_loop [] res_num order = Ok res_num"
| "decode_loop (c # cs) res_num order =
     (let digit = reverse_alphabet c in
      if digit < 0 then Rejected
      else let tmp = uint res_num + uint order * digit in
           if tmp < uint res_num \<or> 2 ^ 64 - 1 < tmp then Rejected
           else decode_loop cs (word_of_int tmp) (order * 58))"

definition decode_block :: "bytes \<Rightarrow> bytes b58" where
  "decode_block block =
     (let sz = length block in
      if \<not> (1 \<le> sz \<and> sz \<le> 11) then Throw
      else b58_bind (decoded_block_sizes sz) (\<lambda>res_size.
        if res_size \<le> 0 then Rejected
        else b58_bind (decode_loop (rev block) 0 1) (\<lambda>res_num.
          if res_size < 8 \<and> push_bit (nat (8 * res_size)) 1 \<le> res_num then Rejected
          else uint_64_to_8be res_num (nat res_size))))"

definition encode :: "bytes \<Rightarrow> bytes b58" where
  "encode data =
     (if data = [] then Ok []
      else let full_block_count = length data div 8; last_block_size = length data mod 8 in
        b58_bind (b58_all (map (\<lambda>i. encode_block (take 8 (drop (i * 8) data))) [0..<full_block_count])) (\<lambda>full.
        b58_bind (if 0 < last_block_size then encode_block (take last_block_size (drop (full_block_count * 8) data)) else Ok [])
          (\<lambda>last. Ok (concat full @ last))))"

definition decode :: "bytes \<Rightarrow> bytes b58" where
  "decode enc =
     (if enc = [] then Ok []
      else let full_block_count = length enc div 11; last_block_size = length enc mod 11 in
        b58_bind (decoded_block_sizes last_block_size) (\<lambda>last_block_decoded_size.
        if last_block_decoded_size < 0 then Rejected
        else b58_bind (b58_all (map (\<lambda>i. decode_block (take 11 (drop (i * 11) enc))) [0..<full_block_count])) (\<lambda>full.
        b58_bind (if 0 < last_block_size then decode_block (take last_block_size (drop (full_block_count * 11) enc)) else Ok [])
          (\<lambda>last. Ok (concat full @ last)))))"

definition encode_addr :: "u64 \<Rightarrow> bytes \<Rightarrow> bytes b58" where
  "encode_addr tag data =
     (let buf = write_varint tag @ data in encode (buf @ take 4 (cn_fast_hash buf)))"

definition decode_addr :: "bytes \<Rightarrow> (u64 \<times> bytes) b58" where
  "decode_addr addr = b58_bind (decode addr) (\<lambda>addr_data.
     if length addr_data \<le> 4 then Rejected
     else let checksum = drop (length addr_data - 4) addr_data;
              addr_data = take (length addr_data - 4) addr_data in
          if take 4 (cn_fast_hash addr_data) \<noteq> checksum then Rejected
          else let (rd, tag) = read_varint 64 addr_data in
               if rd \<le> 0 then Rejected else Ok (tag, drop (nat rd) addr_data))"



section \<open>Tables\<close>

lemma byte_cases: "list_all P (map word_of_int [0..255]) \<Longrightarrow> P (b :: u8)"
proof -
  assume "list_all P (map word_of_int [0..255])"
  moreover have "b = word_of_int (uint b)" "uint b \<in> set [0..255]"
    using uint_ge_0 [of b] uint_lt2p [of b] by simp_all
  then have "b \<in> set (map word_of_int [0..255])" by (simp only: set_map) blast
  ultimately show "P b" unfolding list_all_iff by blast
qed

lemma alphabet_code [code]: "alphabet = [49, 50, 51, 52, 53, 54, 55, 56, 57, 65, 66, 67, 68, 69, 70, 71, 72, 74, 75, 76, 77, 78, 80, 81, 82, 83, 84, 85, 86, 87, 88, 89, 90, 97, 98, 99, 100, 101, 102, 103, 104, 105, 106, 107, 109, 110, 111, 112, 113, 114, 115, 116, 117, 118, 119, 120, 121, 122]"
  by code_simp

lemma reverse_alphabet_data_code [code]:
  "reverse_alphabet_data = [0, 1, 2, 3, 4, 5, 6, 7, 8, - 1, - 1, - 1, - 1, - 1, - 1, - 1, 9, 10, 11, 12, 13, 14, 15, 16, - 1, 17, 18, 19, 20, 21, - 1, 22, 23, 24, 25, 26, 27, 28, 29, 30, 31, 32, - 1, - 1, - 1, - 1, - 1, - 1, 33, 34, 35, 36, 37, 38, 39, 40, 41, 42, 43, - 1, 44, 45, 46, 47, 48, 49, 50, 51, 52, 53, 54, 55, 56, 57]"
  by code_simp

lemma alphabet_length [simp]: "length alphabet = 58"
  by (simp add: alphabet_def)

lemma reverse_alphabet_eq:
  "reverse_alphabet c = (if 49 \<le> uint c \<and> uint c \<le> 122 then reverse_alphabet_data ! nat (uint c - 49) else - 1)"
proof -
  have len: "length reverse_alphabet_data = 74" by (simp add: reverse_alphabet_data_code)
  have a0: "sint (alphabet ! 0) = 49" by code_simp
  have c: "0 \<le> uint c" "uint c < 256" using uint_ge_0 [of c] uint_lt2p [of c] by simp_all
  have s: "sint c = (if uint c < 128 then uint c else uint c - 256)"
  proof -
    have "sint c = (uint c + 128) mod 256 - 128"
      by (simp only: sint_uint signed_take_bit_eq_take_bit_shift) (simp add: take_bit_eq_mod)
    moreover have "(uint c + 128) mod 256 = uint c - 128" if "\<not> uint c < 128"
      using that c by (intro int_mod_pos_eq [of _ _ 1]) simp_all
    ultimately show ?thesis using c by simp
  qed
  show ?thesis
  proof (cases "49 \<le> uint c \<and> uint c < 128")
    case True
    then have "uint (word_of_int (uint c - 49) :: u64) = uint c - 49" by (intro u64_of_int) simp_all
    then have "unat (word_of_int (uint c - 49) :: u64) = nat (uint c - 49)" by (simp only: unat_eq_nat_uint)
    with True s show ?thesis unfolding reverse_alphabet_def a0 Let_def len by (auto simp: nat_less_iff)
  next
    case False
    let ?d = "sint c - 49"
    have "?d < 0" "- 256 \<le> ?d" using False s c by (auto split: if_splits)
    then have "?d mod 2 ^ 64 = ?d + 2 ^ 64" by (intro int_mod_pos_eq [of _ _ "- 1"]) simp_all
    moreover have "uint (word_of_int x :: u64) = x mod 2 ^ 64" for x by (simp add: uint_word_of_int)
    ultimately have "uint (word_of_int ?d :: u64) = ?d + 2 ^ 64" by (simp only:)
    then have "unat (word_of_int ?d :: u64) = nat (?d + 2 ^ 64)" by (simp only: unat_eq_nat_uint)
    then have "\<not> unat (word_of_int ?d :: u64) < 74" using \<open>- 256 \<le> ?d\<close> by (simp add: nat_less_iff)
    with False show ?thesis unfolding reverse_alphabet_def a0 Let_def len by auto
  qed
qed

lemma reverse_alphabet_table:
  "list_all (\<lambda>k. uint (alphabet ! k) \<in> {49..122} \<and> reverse_alphabet_data ! nat (uint (alphabet ! k) - 49) = int k) [0..<58]"
  "list_all (\<lambda>k. reverse_alphabet_data ! k < 58 \<and>
     (0 \<le> reverse_alphabet_data ! k \<longrightarrow> uint (alphabet ! nat (reverse_alphabet_data ! k)) = int k + 49)) [0..<74]"
  by code_simp+

lemma reverse_alphabet_nth:
  assumes "k < 58"
  shows "reverse_alphabet (alphabet ! k) = int k"
  using reverse_alphabet_table(1) assms unfolding list_all_iff by (simp add: reverse_alphabet_eq)

lemma reverse_alphabet_range:
  "reverse_alphabet c < 58" "0 \<le> reverse_alphabet c \<Longrightarrow> alphabet ! nat (reverse_alphabet c) = c"
proof -
  have t: "reverse_alphabet_data ! k < 58 \<and>
     (0 \<le> reverse_alphabet_data ! k \<longrightarrow> uint (alphabet ! nat (reverse_alphabet_data ! k)) = int k + 49)" if "k < 74" for k
    using reverse_alphabet_table(2) that unfolding list_all_iff by simp
  show "reverse_alphabet c < 58" using t [of "nat (uint c - 49)"] by (auto simp: reverse_alphabet_eq nat_less_iff)
  show "alphabet ! nat (reverse_alphabet c) = c" if "0 \<le> reverse_alphabet c"
    using that t [of "nat (uint c - 49)"] by (intro word_uint_eqI) (auto simp: reverse_alphabet_eq nat_less_iff split: if_splits)
qed

lemma block_size_tables:
  "k \<le> 8 \<Longrightarrow> decoded_block_sizes (encoded_block_sizes ! k) = Ok (int k)"
  "n \<le> 11 \<Longrightarrow> decoded_block_sizes n = Ok (decoded_block_sizes_data ! n)"
  "n \<le> 11 \<Longrightarrow> 0 \<le> decoded_block_sizes_data ! n \<Longrightarrow> decoded_block_sizes_data ! n \<le> 8
    \<and> encoded_block_sizes ! nat (decoded_block_sizes_data ! n) = n"
proof -
  have "list_all (\<lambda>k. decoded_block_sizes (encoded_block_sizes ! k) = Ok (int k)) [0..<9]" by code_simp
  then show "k \<le> 8 \<Longrightarrow> decoded_block_sizes (encoded_block_sizes ! k) = Ok (int k)" unfolding list_all_iff by simp
  have "list_all (\<lambda>n. 0 \<le> decoded_block_sizes_data ! n \<longrightarrow> decoded_block_sizes_data ! n \<le> 8
    \<and> encoded_block_sizes ! nat (decoded_block_sizes_data ! n) = n) [0..<12]" by code_simp
  then show "n \<le> 11 \<Longrightarrow> 0 \<le> decoded_block_sizes_data ! n \<Longrightarrow> decoded_block_sizes_data ! n \<le> 8
    \<and> encoded_block_sizes ! nat (decoded_block_sizes_data ! n) = n" unfolding list_all_iff by simp
qed (simp add: decoded_block_sizes_def)

text \<open>A block of \<open>k\<close> bytes fits its letters.\<close>

lemma block_sizes_cases: "1 \<le> k \<Longrightarrow> k \<le> 8 \<Longrightarrow> k = 1 \<or> k = 2 \<or> k = 3 \<or> k = 4 \<or> k = 5 \<or> k = 6 \<or> k = 7 \<or> k = (8 :: nat)"
  by linarith

lemma block_fits:
  assumes "1 \<le> k" and "k \<le> 8"
  shows "(256 :: int) ^ k \<le> 58 ^ (encoded_block_sizes ! k)"
    and "1 \<le> encoded_block_sizes ! k \<and> encoded_block_sizes ! k \<le> 11"
  using block_sizes_cases [OF assms] by (elim disjE; simp add: encoded_block_sizes_def)+


section \<open>Digits in base 58\<close>

text \<open>\<open>n\<close> digits of \<open>v\<close>, most significant first, and the number of a list of digits.\<close>

fun digits58 :: "nat \<Rightarrow> int \<Rightarrow> int list" where
  "digits58 0 v = []"
| "digits58 (Suc n) v = digits58 n (v div 58) @ [v mod 58]"

fun value58 :: "int list \<Rightarrow> int" where
  "value58 [] = 0"
| "value58 (d # ds) = d + 58 * value58 ds"

lemma digits58_length [simp]: "length (digits58 n v) = n"
  by (induction n arbitrary: v) auto

lemma digits58_0: "digits58 n 0 = replicate n 0"
  by (induction n) (simp_all add: replicate_append_same)

lemma digits58_range: "d \<in> set (digits58 n v) \<Longrightarrow> 0 \<le> d \<and> d < 58"
  by (induction n arbitrary: v) auto

lemma value58_digits58: "0 \<le> v \<Longrightarrow> v < 58 ^ n \<Longrightarrow> value58 (rev (digits58 n v)) = v"
proof (induction n arbitrary: v)
  case (Suc n)
  have "v div 58 < 58 ^ n" using Suc.prems div_bounds [of 58 v] by simp
  then show ?case using Suc.IH [of "v div 58"] Suc.prems by (simp add: pos_imp_zdiv_nonneg_iff)
qed simp

lemma digits58_value58:
  "list_all (\<lambda>d. 0 \<le> d \<and> d < 58) ds \<Longrightarrow> digits58 (length ds) (value58 ds) = rev ds"
  by (induction ds) auto

lemma value58_bound: "list_all (\<lambda>d. 0 \<le> d \<and> d < 58) ds \<Longrightarrow> 0 \<le> value58 ds \<and> value58 ds < 58 ^ length ds"
  by (induction ds) auto

definition letters :: "int list \<Rightarrow> bytes" where
  "letters ds = map (\<lambda>d. alphabet ! nat d) ds"

lemma encode_loop_digits:
  "uint num < 58 ^ n \<Longrightarrow> n \<le> length res \<Longrightarrow> take n res = replicate n (alphabet ! 0) \<Longrightarrow>
   encode_loop num (int n - 1) res = Ok (letters (digits58 n (uint num)) @ drop n res)"
proof (induction n arbitrary: num res)
  case 0
  then have "uint num < 1" by simp
  then have "uint num = 0" using uint_ge_0 [of num] by linarith
  then have "num = 0" by (simp add: uint_0_iff)
  then show ?case by (simp add: encode_loop.simps letters_def)
next
  case (Suc n)
  show ?case
  proof (cases "num = 0")
    case True
    have "res = take (Suc n) res @ drop (Suc n) res" by simp
    then show ?thesis using True Suc.prems(3)
      by (simp add: encode_loop.simps digits58_0 letters_def flip: replicate_append_same)
  next
    case False
    let ?c = "alphabet ! unat (num mod 58)" and ?res = "res[n := alphabet ! unat (num mod 58)]"
    have d: "uint (num div 58) = uint num div 58" "uint (num mod 58) = uint num mod 58"
      by (simp_all add: uint_div_distrib uint_mod_distrib)
    have "uint num div 58 < 58 ^ n" using Suc.prems(1) div_bounds [of 58 "uint num"] by simp
    moreover have "take n res = take n (take (Suc n) res)" by simp
    then have "take n ?res = replicate n (alphabet ! 0)" unfolding Suc.prems(3) by (simp del: replicate_Suc)
    ultimately have "encode_loop (num div 58) (int n - 1) ?res = Ok (letters (digits58 n (uint num div 58)) @ drop n ?res)"
      using Suc.IH [of "num div 58" ?res] Suc.prems(2) d(1) by simp
    moreover have "drop n ?res = ?c # drop (Suc n) res"
      using Suc.prems(2) by (simp add: drop_update_swap flip: Cons_nth_drop_Suc)
    moreover have "0 < num" using False by (simp add: word_neq_0_conv)
    ultimately show ?thesis
      using Suc.prems(2) d(2) by (subst encode_loop.simps) (simp add: letters_def unat_eq_nat_uint)
  qed
qed

lemma decode_loop_digits:
  fixes r order :: u64
  assumes "length cs + k \<le> 11" and "cs \<noteq> [] \<Longrightarrow> uint order = 58 ^ k"
  shows "decode_loop cs r order =
    (if list_all (\<lambda>d. 0 \<le> d) (map reverse_alphabet cs) \<and> uint r + 58 ^ k * value58 (map reverse_alphabet cs) < 2 ^ 64
     then Ok (word_of_int (uint r + 58 ^ k * value58 (map reverse_alphabet cs))) else Rejected)"
  using assms
proof (induction cs arbitrary: k r order)
  case Nil
  then show ?case using uint_lt2p [of r] by simp
next
  case (Cons c cs)
  let ?d = "reverse_alphabet c" and ?ds = "map reverse_alphabet cs"
  let ?tmp = "uint r + 58 ^ k * ?d"
  have o: "uint order = 58 ^ k" using Cons.prems by simp
  show ?case
  proof (cases "0 \<le> ?d \<and> ?tmp < 2 ^ 64")
    case True
    have t: "0 \<le> ?tmp" using True uint_ge_0 [of r] by simp
    then have u: "uint (word_of_int ?tmp :: u64) = ?tmp" using True by (intro u64_of_int) simp_all
    have "uint (order * 58) = 58 ^ (k + 1)" if "cs \<noteq> []"
    proof -
      have "k + 1 \<le> 10" using Cons.prems(1) that by (cases cs) auto
      then have "(58 :: int) ^ (k + 1) \<le> 58 ^ 10" by (intro power_increasing) simp_all
      then have "uint order * 58 < 2 ^ 64" unfolding o by simp
      then show ?thesis using o by (simp add: uint_word_arith_bintrs take_bit_eq_mod)
    qed
    then have ih: "decode_loop cs (word_of_int ?tmp) (order * 58) =
      (if list_all (\<lambda>d. 0 \<le> d) ?ds \<and> ?tmp + 58 ^ (k + 1) * value58 ?ds < 2 ^ 64
       then Ok (word_of_int (?tmp + 58 ^ (k + 1) * value58 ?ds)) else Rejected)"
      using Cons.IH [of "k + 1" "order * 58" "word_of_int ?tmp"] Cons.prems(1) u by simp
    have e: "?tmp + 58 ^ (k + 1) * value58 ?ds = uint r + 58 ^ k * value58 (map reverse_alphabet (c # cs))"
      by (simp add: algebra_simps)
    have "decode_loop (c # cs) r order = decode_loop cs (word_of_int ?tmp) (order * 58)"
      using True o by (simp add: Let_def not_less mult_less_0_iff)
    then show ?thesis unfolding ih e using True by simp
  next
    case False
    have "decode_loop (c # cs) r order = Rejected" using False o by (auto simp: Let_def not_less)
    moreover have "2 ^ 64 \<le> uint r + 58 ^ k * value58 (?d # ?ds)" if "0 \<le> ?d" "list_all (\<lambda>d. 0 \<le> d) ?ds"
    proof -
      have "0 \<le> value58 ds" if "list_all (\<lambda>d. 0 \<le> d) ds" for ds using that by (induction ds) auto
      then have "58 ^ k * ?d \<le> 58 ^ k * value58 (?d # ?ds)" using that by (intro mult_left_mono) simp_all
      with False that(1) show ?thesis by linarith
    qed
    ultimately show ?thesis by auto
  qed
qed


section \<open>Big-endian blocks\<close>

lemma be_fold:
  "length bs \<le> 8 \<Longrightarrow> uint (fold (\<lambda>b res. push_bit 8 res OR ucast b) bs (0 :: u64)) = le_value (rev bs)"
proof (induction bs rule: rev_induct)
  case (snoc b bs)
  let ?f = "fold (\<lambda>b res. push_bit 8 res OR ucast b) bs (0 :: u64)"
  have f: "uint ?f = le_value (rev bs)" using snoc by simp
  have "le_value (rev bs) + 1 \<le> 256 ^ length bs" using le_value_upper [of "rev bs"] by simp
  also have "(256 :: int) ^ length bs \<le> 256 ^ 7" using snoc.prems by (intro power_increasing) simp_all
  finally have "2 ^ 8 * (uint ?f + 1) \<le> 2 ^ 64" using f by simp
  moreover have "uint (ucast b :: u64) < 2 ^ 8" using uint_lt2p [of b] by simp
  ultimately have "uint (ucast b OR push_bit 8 ?f) = uint b + 256 * uint ?f" using or_push_bit [of "ucast b" 8 ?f] by simp
  then show ?case using f by (simp add: or.commute)
qed simp

lemma byte_drop: "(word_of_int (uint (w :: u64) div 256 ^ k) :: u8) = ucast (drop_bit (8 * k) w)"
proof (rule bit_word_eqI)
  fix n assume n: "n < LENGTH(8)"
  have "bit (uint w div 256 ^ k) n = bit (drop_bit (8 * k) (uint w)) n" by (simp only: pow256 drop_bit_eq_div)
  then show "bit (word_of_int (uint w div 256 ^ k) :: u8) n = bit (ucast (drop_bit (8 * k) w) :: u8) n"
    using n bit_imp_le_length [of w "8 * k + n"]
    by (auto simp: bit_word_of_int_iff bit_ucast_iff bit_drop_bit_eq bit_uint_iff)
qed

text \<open>Swapping moves byte \<open>7 - k\<close> to place \<open>k\<close>.\<close>

lemma swap_masks:
  "(0x00000000000000ff :: u64) = mask 8" "(0x000000000000ff00 :: u64) = push_bit 8 (mask 8)"
  "(0x0000000000ff0000 :: u64) = push_bit 16 (mask 8)" "(0x00000000ff000000 :: u64) = push_bit 24 (mask 8)"
  "(0x000000ff00000000 :: u64) = push_bit 32 (mask 8)" "(0x0000ff0000000000 :: u64) = push_bit 40 (mask 8)"
  "(0x00ff000000000000 :: u64) = push_bit 48 (mask 8)" "(0xff00000000000000 :: u64) = push_bit 56 (mask 8)"
  by (simp_all add: mask_eq_exp_minus_1 push_bit_eq_mult)

lemma SWAP64_bit:
  assumes "q < 8" and "r < 8"
  shows "bit (SWAP64 x) (8 * q + r) \<longleftrightarrow> bit x (8 * (7 - q) + r)"
proof -
  have "q = 0 \<or> q = 1 \<or> q = 2 \<or> q = 3 \<or> q = 4 \<or> q = 5 \<or> q = 6 \<or> q = 7" using assms(1) by linarith
  then show ?thesis using assms(2) unfolding SWAP64_def swap_masks
    by (elim disjE) (simp_all add: bit_simps)
qed

lemma SWAP64_bytes: "le_bytes 8 (uint (SWAP64 x)) = rev (le_bytes 8 (uint x))"
proof (rule nth_equalityI)
  fix k assume "k < length (le_bytes 8 (uint (SWAP64 x)))"
  then have k: "k < 8" by simp
  have "ucast (drop_bit (8 * k) (SWAP64 x)) = (ucast (drop_bit (8 * (7 - k)) x) :: u8)"
  proof (rule bit_word_eqI)
    fix n assume "n < LENGTH(8)"
    then show "bit (ucast (drop_bit (8 * k) (SWAP64 x)) :: u8) n = bit (ucast (drop_bit (8 * (7 - k)) x) :: u8) n"
      using k by (simp add: bit_ucast_iff bit_drop_bit_eq SWAP64_bit)
  qed
  then show "le_bytes 8 (uint (SWAP64 x)) ! k = rev (le_bytes 8 (uint x)) ! k"
    using k by (simp add: le_bytes_nth rev_nth byte_drop)
qed simp

lemma take_le_bytes: "m \<le> n \<Longrightarrow> take m (le_bytes n v) = le_bytes m v"
  by (rule nth_equalityI) (simp_all add: le_bytes_nth)

lemma uint_64_to_8be_bytes:
  assumes "1 \<le> n" and "n \<le> 8"
  shows "uint_64_to_8be num n = Ok (rev (le_bytes n (uint num)))"
proof -
  have "take n (drop (8 - n) (rev (le_bytes 8 (uint num)))) = rev (take n (le_bytes 8 (uint num)))"
    using assms by (simp add: rev_take)
  then show ?thesis using assms by (simp add: uint_64_to_8be_def SWAP64_bytes take_le_bytes)
qed



section \<open>Blocks\<close>

lemma letters_reverse: "list_all (\<lambda>d. 0 \<le> d \<and> d < 58) ds \<Longrightarrow> map reverse_alphabet (letters ds) = ds"
  by (induction ds) (auto simp: letters_def reverse_alphabet_nth nat_less_iff)

lemma letters_of_reverse: "list_all (\<lambda>d. 0 \<le> d) (map reverse_alphabet cs) \<Longrightarrow> letters (map reverse_alphabet cs) = cs"
  by (induction cs) (auto simp: letters_def reverse_alphabet_range)

lemma digits58_all: "list_all (\<lambda>d. 0 \<le> d \<and> d < 58) (digits58 n v)"
  using digits58_range by (auto simp: list_all_iff)

definition be_value :: "bytes \<Rightarrow> int" where
  "be_value b = le_value (rev b)"

lemma be_value_bound: "0 \<le> be_value b" "be_value b < 256 ^ length b"
  using le_value_upper [of "rev b"] by (simp_all add: be_value_def)

lemma encode_block_digits:
  assumes "1 \<le> length b" and "length b \<le> 8"
  shows "encode_block b = Ok (letters (digits58 (encoded_block_sizes ! length b) (be_value b)))"
proof -
  let ?m = "encoded_block_sizes ! length b"
  let ?num = "fold (\<lambda>b res. push_bit 8 res OR ucast b) b (0 :: u64)"
  have n: "uint ?num = be_value b" using be_fold [OF assms(2)] by (simp add: be_value_def)
  then have "uint ?num < 58 ^ ?m" using be_value_bound(2) [of b] block_fits(1) [OF assms] by linarith
  then have "encode_loop ?num (int ?m - 1) (replicate ?m (alphabet ! 0)) = Ok (letters (digits58 ?m (be_value b)))"
    using encode_loop_digits [of ?num ?m "replicate ?m (alphabet ! 0)"] n by simp
  then show ?thesis using assms by (simp add: encode_block_def Let_def uint_8be_to_64_def)
qed

lemma full_width: "(256 :: int) ^ 8 = 2 ^ 64"
  by simp

lemma decode_block_value:
  assumes "1 \<le> k" and "k \<le> 8" and "length e = encoded_block_sizes ! k"
  shows "decode_block e =
    (let ds = map reverse_alphabet (rev e); v = value58 ds in
     if list_all (\<lambda>d. 0 \<le> d) ds \<and> v < 256 ^ k then Ok (rev (le_bytes k v)) else Rejected)"
proof -
  define v where "v = value58 (map reverse_alphabet (rev e))"
  note m = block_fits(2) [OF assms(1,2), folded assms(3)]
  have size: "decoded_block_sizes (length e) = Ok (int k)" using block_size_tables(1) [OF assms(2)] assms(3) by simp
  have loop: "decode_loop (rev e) 0 1 = (if list_all (\<lambda>d. 0 \<le> d) (map reverse_alphabet (rev e)) \<and> v < 2 ^ 64
      then Ok (word_of_int v) else Rejected)"
    using decode_loop_digits [of "rev e" 0 1 0] m by (simp add: v_def)
  have "(256 :: int) ^ k \<le> 256 ^ 8" using assms(2) by (intro power_increasing) simp_all
  then have w: "v < 256 ^ k \<Longrightarrow> v < 2 ^ 64" by simp
  show ?thesis
  proof (cases "list_all (\<lambda>d. 0 \<le> d) (map reverse_alphabet (rev e)) \<and> v < 2 ^ 64")
    case True
    then have "list_all (\<lambda>d. 0 \<le> d \<and> d < 58) (map reverse_alphabet (rev e))"
      using reverse_alphabet_range(1) by (auto simp: list_all_iff)
    then have "0 \<le> v" using value58_bound unfolding v_def by blast
    then have u: "uint (word_of_int v :: u64) = v" using True by (intro u64_of_int) simp_all
    have p: "push_bit (8 * k) 1 \<le> (word_of_int v :: u64) \<longleftrightarrow> 256 ^ k \<le> v" if "k < 8"
    proof -
      have "(2 :: int) ^ (8 * k) < 2 ^ 64" using that by (intro power_strict_increasing) simp_all
      then have "uint (word_of_int (2 ^ (8 * k)) :: u64) = 2 ^ (8 * k)" by (intro u64_of_int) simp_all
      then have "uint (push_bit (8 * k) 1 :: u64) = 256 ^ k" by (simp add: push_bit_eq_mult pow256)
      then show ?thesis by (simp only: word_le_def u)
    qed
    have "v < 256 ^ 8" using True by simp
    then have "(int k < 8 \<and> push_bit (nat (8 * int k)) 1 \<le> (word_of_int v :: u64)) \<longleftrightarrow> \<not> v < 256 ^ k"
      using p assms(2) by (cases "k = 8") (auto simp: nat_mult_distrib)
    then show ?thesis
      using True size loop m assms(1,2) u uint_64_to_8be_bytes [OF assms(1,2), of "word_of_int v"]
      by (simp add: decode_block_def Let_def v_def [symmetric] del: map_eq_conv)
  next
    case False
    then have "decode_block e = Rejected" using size loop m assms(1) by (auto simp: decode_block_def Let_def)
    then show ?thesis using False w unfolding Let_def v_def [symmetric] by auto
  qed
qed

lemma decode_encode_block:
  assumes "1 \<le> length b" and "length b \<le> 8"
  shows "\<exists>e. encode_block b = Ok e \<and> length e = encoded_block_sizes ! length b \<and> decode_block e = Ok b"
proof -
  let ?m = "encoded_block_sizes ! length b"
  let ?e = "letters (digits58 ?m (be_value b))"
  have l: "length ?e = ?m" by (simp add: letters_def)
  have b: "0 \<le> be_value b" "be_value b < 58 ^ ?m"
    using be_value_bound [of b] block_fits(1) [OF assms] by linarith+
  have r: "map reverse_alphabet (rev ?e) = rev (digits58 ?m (be_value b))"
    by (simp only: rev_map [symmetric] letters_reverse [OF digits58_all])
  have "list_all (\<lambda>d. 0 \<le> d) (rev (digits58 ?m (be_value b)))" using digits58_range by (auto simp: list_all_iff)
  moreover have "le_bytes (length b) (be_value b) = rev b"
    using le_bytes_le_value [of "rev b"] by (simp add: be_value_def)
  ultimately have "decode_block ?e = Ok b"
    unfolding decode_block_value [OF assms l] r using be_value_bound(2) [of b] value58_digits58 [OF b] by simp
  with encode_block_digits [OF assms] l show ?thesis by blast
qed

lemma encode_decode_block:
  assumes "1 \<le> length e" and "length e \<le> 11" and "decode_block e = Ok b"
  shows "encode_block b = Ok e \<and> 1 \<le> length b \<and> length b \<le> 8 \<and> encoded_block_sizes ! length b = length e"
proof -
  let ?d = "decoded_block_sizes_data ! length e"
  have "0 < ?d" using assms block_size_tables(2) [OF assms(2)] by (auto simp: decode_block_def Let_def split: if_splits)
  with block_size_tables(3) [OF assms(2)] obtain k where k: "1 \<le> k" "k \<le> 8" "length e = encoded_block_sizes ! k"
    by (metis nat_le_iff of_nat_numeral zero_less_nat_eq Suc_leI One_nat_def less_imp_le)
  let ?ds = "map reverse_alphabet (rev e)"
  have ok: "list_all (\<lambda>d. 0 \<le> d) ?ds" "value58 ?ds < 256 ^ k" "b = rev (le_bytes k (value58 ?ds))"
    using assms(3) unfolding decode_block_value [OF k] by (auto simp: Let_def split: if_splits)
  have a: "list_all (\<lambda>d. 0 \<le> d \<and> d < 58) ?ds" using ok(1) reverse_alphabet_range(1) by (auto simp: list_all_iff)
  have len: "length b = k" using ok(3) by simp
  have v: "be_value b = value58 ?ds"
    using ok(2,3) value58_bound [OF a] by (simp add: be_value_def le_value_le_bytes)
  have "digits58 (encoded_block_sizes ! k) (be_value b) = map reverse_alphabet e"
    using digits58_value58 [OF a] v k(3) by (simp add: rev_map)
  then have "letters (digits58 (encoded_block_sizes ! k) (be_value b)) = e"
    using letters_of_reverse [of e] ok(1) by (simp add: list_all_iff)
  then show ?thesis using encode_block_digits [of b] k len by simp
qed



section \<open>Strings of blocks\<close>

lemma b58_bind_Ok: "b58_bind x f = Ok y \<longleftrightarrow> (\<exists>z. x = Ok z \<and> f z = Ok y)"
  by (cases x) auto

lemma b58_all_Ok: "b58_all xs = Ok ys \<longleftrightarrow> xs = map Ok ys"
  by (induction xs arbitrary: ys) (auto simp: b58_bind_Ok Cons_eq_map_conv)

lemma blocks_length: "list_all (\<lambda>b. length b = n) bs \<Longrightarrow> length (concat bs) = length bs * n"
  by (induction bs) auto

lemma blocks_slices:
  assumes "list_all (\<lambda>b. length b = n) bs"
  shows "map (\<lambda>i. take n (drop (i * n) (concat bs @ rest))) [0..<length bs] = bs"
    and "drop (length bs * n) (concat bs @ rest) = rest"
proof -
  show "drop (length bs * n) (concat bs @ rest) = rest" using blocks_length [OF assms] by simp
  show "map (\<lambda>i. take n (drop (i * n) (concat bs @ rest))) [0..<length bs] = bs"
  proof (rule nth_equalityI)
    fix i assume "i < length (map (\<lambda>i. take n (drop (i * n) (concat bs @ rest))) [0..<length bs])"
    then have i: "i < length bs" by simp
    have bs: "bs = take i bs @ bs ! i # drop (Suc i) bs" using i by (simp add: id_take_nth_drop)
    have "list_all (\<lambda>b. length b = n) (take i bs)" using assms by (auto simp: list_all_iff dest: in_set_takeD)
    then have "length (concat (take i bs)) = i * n" using blocks_length i by fastforce
    moreover have "concat bs = concat (take i bs) @ bs ! i @ concat (drop (Suc i) bs)" by (subst bs) simp
    moreover have "length (bs ! i) = n" using assms i by (simp add: list_all_length)
    ultimately show "map (\<lambda>i. take n (drop (i * n) (concat bs @ rest))) [0..<length bs] ! i = bs ! i" using i by simp
  qed simp
qed

lemma split_blocks:
  assumes "0 < n"
  obtains bs rest where "xs = concat bs @ rest" "list_all (\<lambda>b. length b = n) bs" "length rest < n"
    "length xs div n = length bs" "length xs mod n = length rest"
proof -
  obtain bs rest where b: "xs = concat bs @ rest" "list_all (\<lambda>b. length b = n) bs" "length rest < n"
    using blocks_of [OF assms] by metis
  then have "length xs = length bs * n + length rest" using blocks_length by simp
  then have "length xs div n = length bs" "length xs mod n = length rest" using b(3) by simp_all
  with b that show ?thesis by blast
qed

text \<open>Both directions, block by block.\<close>

lemma encode_concat:
  assumes "list_all (\<lambda>b. length b = 8) bs" and "length rest < 8" and "bs \<noteq> [] \<or> rest \<noteq> []"
  shows "encode (concat bs @ rest) =
    b58_bind (b58_all (map encode_block bs)) (\<lambda>full. b58_bind (if rest = [] then Ok [] else encode_block rest)
      (\<lambda>last. Ok (concat full @ last)))"
proof -
  note s = blocks_slices [OF assms(1), where rest = rest] blocks_length [OF assms(1)]
  have l: "length (concat bs @ rest) div 8 = length bs" "length (concat bs @ rest) mod 8 = length rest"
    using s(3) assms(2) by simp_all
  have ne: "concat bs @ rest \<noteq> []" using assms by (cases bs) auto
  have m: "map (\<lambda>i. encode_block (take 8 (drop (i * 8) (concat bs @ rest)))) [0..<length bs] = map encode_block bs"
    using arg_cong [OF s(1), of "map encode_block"] by (simp add: comp_def)
  have r: "take (length rest) (drop (length bs * 8) (concat bs @ rest)) = rest" using s(2) by simp
  show ?thesis unfolding encode_def if_not_P [OF ne] Let_def l m r by (cases "rest = []") simp_all
qed

lemma decode_concat:
  assumes "list_all (\<lambda>b. length b = 11) bs" and "length rest < 11" and "bs \<noteq> [] \<or> rest \<noteq> []"
  shows "decode (concat bs @ rest) =
    (if decoded_block_sizes_data ! length rest < 0 then Rejected else
     b58_bind (b58_all (map decode_block bs)) (\<lambda>full. b58_bind (if rest = [] then Ok [] else decode_block rest)
      (\<lambda>last. Ok (concat full @ last))))"
proof -
  note s = blocks_slices [OF assms(1), where rest = rest] blocks_length [OF assms(1)]
  have l: "length (concat bs @ rest) div 11 = length bs" "length (concat bs @ rest) mod 11 = length rest"
    using s(3) assms(2) by simp_all
  have ne: "concat bs @ rest \<noteq> []" using assms by (cases bs) auto
  have m: "map (\<lambda>i. decode_block (take 11 (drop (i * 11) (concat bs @ rest)))) [0..<length bs] = map decode_block bs"
    using arg_cong [OF s(1), of "map decode_block"] by (simp add: comp_def)
  have r: "take (length rest) (drop (length bs * 11) (concat bs @ rest)) = rest" using s(2) by simp
  have d: "decoded_block_sizes (length rest) = Ok (decoded_block_sizes_data ! length rest)"
    using block_size_tables(2) [of "length rest"] assms(2) by simp
  show ?thesis unfolding decode_def if_not_P [OF ne] Let_def l m r d by (cases "rest = []") simp_all
qed

lemma decode_encode:
  "\<exists>e. encode d = Ok e \<and> decode e = Ok d"
proof (cases "d = []")
  case True
  then show ?thesis by (simp add: encode_def decode_def)
next
  case False
  obtain bs rest where b: "d = concat bs @ rest" "list_all (\<lambda>b. length b = 8) bs" "length rest < 8"
    using blocks_of [of 8 d] by (metis zero_less_numeral)
  have ne: "bs \<noteq> [] \<or> rest \<noteq> []" using False b(1) by auto
  have "\<forall>b\<in>set bs. \<exists>e. encode_block b = Ok e \<and> length e = 11 \<and> decode_block e = Ok b"
  proof
    fix x assume "x \<in> set bs"
    then have "length x = 8" using b(2) by (simp add: list_all_iff)
    then show "\<exists>e. encode_block x = Ok e \<and> length e = 11 \<and> decode_block e = Ok x"
      using decode_encode_block [of x] by (simp add: encoded_block_sizes_def)
  qed
  then obtain E where E: "encode_block b = Ok (E b)" "length (E b) = 11" "decode_block (E b) = Ok b" if "b \<in> set bs" for b
    by metis
  have full: "b58_all (map encode_block bs) = Ok (map E bs)" "b58_all (map decode_block (map E bs)) = Ok bs"
    using E by (simp_all add: b58_all_Ok)
  obtain r where r: "(if rest = [] then Ok [] else encode_block rest) = Ok r" "length r = encoded_block_sizes ! length rest"
    "(if r = [] then Ok [] else decode_block r) = Ok rest" "length r < 11"
  proof (cases "rest = []")
    case True
    then show thesis using that [of "[]"] by (simp add: encoded_block_sizes_def)
  next
    case False
    then have "1 \<le> length rest" "length rest \<le> 8" using b(3) by (cases rest; simp)+
    from decode_encode_block [OF this] obtain e where e: "encode_block rest = Ok e"
      "length e = encoded_block_sizes ! length rest" "decode_block e = Ok rest" by blast
    have "encoded_block_sizes ! length rest < 11"
      using block_sizes_cases [OF \<open>1 \<le> length rest\<close> \<open>length rest \<le> 8\<close>] b(3) by (auto simp: encoded_block_sizes_def)
    moreover have "e \<noteq> []" using e(3) by (auto simp: decode_block_def)
    ultimately show thesis using that [of e] e False by simp
  qed
  have "encode d = Ok (concat (map E bs) @ r)" unfolding b(1) encode_concat [OF b(2,3) ne] using full(1) r(1) by simp
  moreover have "decode (concat (map E bs) @ r) = Ok d"
  proof -
    have l: "list_all (\<lambda>b. length b = 11) (map E bs)" using E(2) by (simp add: list_all_iff)
    have "map E bs \<noteq> [] \<or> r \<noteq> []" using ne r(1) r(3) by (cases "rest = []") auto
    moreover have "decoded_block_sizes_data ! length r = int (length rest)"
      using block_size_tables(1) [of "length rest"] block_size_tables(2) [of "length r"] r(2,4) b(3) by simp
    ultimately show ?thesis using decode_concat [OF l r(4)] full(2) r(3) b(1) by simp
  qed
  ultimately show ?thesis by blast
qed

lemma encode_decode:
  assumes "decode e = Ok d"
  shows "encode d = Ok e"
proof (cases "e = []")
  case True
  then show ?thesis using assms by (simp add: encode_def decode_def)
next
  case False
  obtain cs rest where c: "e = concat cs @ rest" "list_all (\<lambda>b. length b = 11) cs" "length rest < 11"
    using blocks_of [of 11 e] by (metis zero_less_numeral)
  have ne: "cs \<noteq> [] \<or> rest \<noteq> []" using False c(1) by auto
  from assms [unfolded c(1) decode_concat [OF c(2,3) ne]] obtain bs r where
    d: "map decode_block cs = map Ok bs" "(if rest = [] then Ok [] else decode_block rest) = Ok r" "d = concat bs @ r"
    "0 \<le> decoded_block_sizes_data ! length rest"
    by (auto simp: b58_bind_Ok b58_all_Ok split: if_splits)
  have len: "length cs = length bs" using arg_cong [OF d(1), of length] by simp
  have full: "encode_block (bs ! i) = Ok (cs ! i) \<and> length (bs ! i) = 8" if "i < length cs" for i
  proof -
    have l: "length (cs ! i) = 11" using c(2) that by (simp add: list_all_length)
    have "decode_block (cs ! i) = Ok (bs ! i)" using arg_cong [OF d(1), of "\<lambda>xs. xs ! i"] that len by simp
    from encode_decode_block [OF _ _ this] l
    have *: "encode_block (bs ! i) = Ok (cs ! i)" "1 \<le> length (bs ! i)" "length (bs ! i) \<le> 8"
      "encoded_block_sizes ! length (bs ! i) = 11" by simp_all
    show ?thesis using block_sizes_cases [OF *(2,3)] *(1,4) by (auto simp: encoded_block_sizes_def)
  qed
  have b8: "list_all (\<lambda>b. length b = 8) bs" using full len by (simp add: list_all_length)
  have e8: "b58_all (map encode_block bs) = Ok cs"
    unfolding b58_all_Ok using full len by (intro nth_equalityI) simp_all
  have r: "length r < 8 \<and> (if r = [] then Ok [] else encode_block r) = Ok rest"
  proof (cases "rest = []")
    case True
    then show ?thesis using d(2) by simp
  next
    case False
    then have "decode_block rest = Ok r" "1 \<le> length rest" using d(2) by (cases rest; simp)+
    from encode_decode_block [OF this(2) _ this(1)] c(3)
    have *: "encode_block r = Ok rest" "1 \<le> length r" "length r \<le> 8" "encoded_block_sizes ! length r = length rest" by simp_all
    have "length r \<noteq> 8" using *(4) c(3) by (auto simp: encoded_block_sizes_def)
    then show ?thesis using * by auto
  qed
  have "bs \<noteq> [] \<or> r \<noteq> []" using ne len r by (cases "r = []") auto
  then show ?thesis unfolding d(3) using encode_concat [OF b8, of r] r e8 c(1) by simp
qed

lemma decode_block_total:
  assumes "1 \<le> length e" and "length e \<le> 11"
  shows "decode_block e = Rejected \<or> (\<exists>d. decode_block e = Ok d)"
proof (cases "0 < decoded_block_sizes_data ! length e")
  case True
  let ?k = "nat (decoded_block_sizes_data ! length e)"
  have "1 \<le> ?k" "?k \<le> 8" "length e = encoded_block_sizes ! ?k"
    using block_size_tables(3) [OF assms(2)] True by auto
  from decode_block_value [OF this] show ?thesis by (simp add: Let_def)
next
  case False
  then show ?thesis using assms block_size_tables(2) [OF assms(2)] by (simp add: decode_block_def Let_def)
qed

lemma b58_all_total: "list_all (\<lambda>x. x = Rejected \<or> (\<exists>d. x = Ok d)) xs \<Longrightarrow> b58_all xs = Rejected \<or> (\<exists>d. b58_all xs = Ok d)"
  by (induction xs) auto

lemma decode_total: "decode e = Rejected \<or> (\<exists>d. decode e = Ok d)"
proof (cases "e = []")
  case True
  then show ?thesis by (simp add: decode_def)
next
  case False
  obtain cs rest where c: "e = concat cs @ rest" "list_all (\<lambda>b. length b = 11) cs" "length rest < 11"
    using blocks_of [of 11 e] by (metis zero_less_numeral)
  have ne: "cs \<noteq> [] \<or> rest \<noteq> []" using False c(1) by auto
  have "list_all (\<lambda>x. x = Rejected \<or> (\<exists>d. x = Ok d)) (map decode_block cs)"
    using c(2) decode_block_total by (auto simp: list_all_iff)
  from b58_all_total [OF this] have full: "b58_all (map decode_block cs) = Rejected \<or> (\<exists>d. b58_all (map decode_block cs) = Ok d)" .
  have "rest \<noteq> [] \<Longrightarrow> decode_block rest = Rejected \<or> (\<exists>d. decode_block rest = Ok d)"
    using decode_block_total [of rest] c(3) by (cases rest) auto
  then show ?thesis unfolding c(1) decode_concat [OF c(2,3) ne] using full by (cases "rest = []") auto
qed

lemma read_written: "read_varint 64 (write_varint v @ rest) = (int (length (write_varint v)), v)"
proof -
  obtain j where "read_varint 64 (write_varint v @ rest) = (int (length (write_varint v)), j)" "uint j = uint v"
    using read_write_loop [of 64 0 v 0 rest 0] uint_lt2p [of v] by (auto simp: read_varint_def)
  then show ?thesis using word_uint_eqI by blast
qed


section \<open>Properties\<close>

text \<open>
  Encoding never throws and never writes outside a block, and decoding the
  result gives the data back, for data of any length.
\<close>

theorem base58_roundtrip: "\<exists>e. encode d = Ok e \<and> decode e = Ok d"
  by (rule decode_encode)

text \<open>
  C33 (base58_canonical). Decoding accepts only what encoding produces: overlong digits, numbers too
  large for a block and impossible lengths are refused, so no data has two texts.
\<close>

theorem base58_canonical:
  assumes "decode e = Ok d"
  shows "encode d = Ok e"
  using assms by (rule encode_decode)

theorem base58_canonical_witness: "encode [0, 1] = Ok [49, 49, 50]"
proof -
  have "decode [49, 49, 50] = Ok [0, 1]" by code_simp
  then show ?thesis by (rule base58_canonical)
qed

text \<open>
  Decoding an arbitrary string returns data or refuses; none of its
  assertions can fail.
\<close>

theorem base58_decode_total: "decode e = Rejected \<or> (\<exists>d. decode e = Ok d)"
  by (rule decode_total)

text \<open>
  C39 (address_roundtrip). An encoded address decodes to its tag and data; an address that decodes to
  a tag and non-empty data is the encoding of them, so its checksum is the one of the payload.
\<close>

theorem address_roundtrip:
  "(\<exists>e. encode_addr tag data = Ok e \<and> decode_addr e = Ok (tag, data))
   \<and> (decode_addr a = Ok (t, d) \<longrightarrow> d \<noteq> [] \<longrightarrow> encode_addr t d = Ok a)"
proof (intro conjI impI)
  let ?buf = "write_varint tag @ data"
  from decode_encode obtain e where e: "encode (?buf @ take 4 (cn_fast_hash ?buf)) = Ok e"
    "decode e = Ok (?buf @ take 4 (cn_fast_hash ?buf))" by blast
  have ne: "write_varint tag \<noteq> []" by (simp add: write_varint.simps)
  have l: "length (take 4 (cn_fast_hash ?buf)) = 4" by simp
  have "decode_addr e = Ok (tag, data)"
    unfolding decode_addr_def e(2) using read_written [of tag data] ne by (simp add: Let_def)
  with e(1) show "\<exists>e. encode_addr tag data = Ok e \<and> decode_addr e = Ok (tag, data)"
    by (simp add: encode_addr_def Let_def)
next
  assume a: "decode_addr a = Ok (t, d)" and d: "d \<noteq> []"
  then obtain x where x: "decode a = Ok x" by (auto simp: decode_addr_def b58_bind_Ok)
  let ?buf = "take (length x - 4) x"
  obtain r where r: "4 < length x" "take 4 (cn_fast_hash ?buf) = drop (length x - 4) x" "read_varint 64 ?buf = (r, t)"
    "0 < r" "d = drop (nat r) ?buf"
    using a x by (auto simp: decode_addr_def b58_bind_Ok Let_def not_le split: if_splits prod.splits)
  have "read_varint_loop 64 ?buf 0 0 0 = (r, t)" using r(3) by (simp add: read_varint_def)
  from read_loop_canonical [OF _ this] r(4)
  consider "list_all (\<lambda>b. 128 \<le> uint b) ?buf"
    | v rest where "?buf = write_varint v @ rest" "r = int (length (write_varint v))" "uint t = uint v" by auto
  then have "?buf = write_varint t @ d"
  proof cases
    case 1
    from read_loop_exhausted [OF 1, of 64 0 0 0] have "r = int (length ?buf)" using r(3,4) by (simp add: read_varint_def)
    then show ?thesis using r(5) d by simp
  next
    case (2 v rest)
    then have "t = v" using word_uint_eqI by blast
    with 2 r(5) show ?thesis by simp
  qed
  then have "x = (write_varint t @ d) @ take 4 (cn_fast_hash (write_varint t @ d))"
    using append_take_drop_id [of "length x - 4" x] r(2) by simp
  with encode_decode [OF x] show "encode_addr t d = Ok a" by (simp add: encode_addr_def Let_def)
qed

theorem address_roundtrip_witness:
  "\<exists>e. decode_addr e = Ok (197, [5, 6]) \<and> encode_addr 197 [5, 6] = Ok e"
proof -
  obtain e where "decode_addr e = Ok (197, [5, 6])" using address_roundtrip [of 197 "[5, 6]"] by blast
  moreover from this have "encode_addr 197 [5, 6] = Ok e" using address_roundtrip by blast
  ultimately show ?thesis by blast
qed

end
