(* ===== verification/Tree_Hash.thy ===== *)
theory Tree_Hash
  imports Keccak
begin

text \<open>
  The root of the transaction tree, \<^verbatim>\<open>tree_hash\<close> of \<^verbatim>\<open>src/src/crypto/tree-hash.c\<close>. The hash of two
  nodes is an argument of the loops, \<^verbatim>\<open>cn_fast_hash\<close> of their concatenation in the function itself.
  The theorems show that the loops on one array compute the root of the tree whose left part
  consists of leaves one level higher, as in the description of the algorithm.
\<close>

unbundle bit_operations_syntax

section \<open>Definitions\<close>

text \<open>
  \<^verbatim>\<open>for (i = 1; i < 8 * sizeof(size_t); i <<= 1) cnt |= cnt >> i; cnt &= ~(cnt >> 1);\<close>
\<close>

definition tree_hash_cnt :: "u64 \<Rightarrow> u64" where
  "tree_hash_cnt count =
     (let cnt = fold (\<lambda>i cnt. cnt OR drop_bit i cnt) [1, 2, 4, 8, 16, 32] (count - 1)
      in cnt AND NOT (drop_bit 1 cnt))"

text \<open>
  The inner loops: \<^verbatim>\<open>ints[j] = H(src[i], src[i + 1])\<close> for the given numbers of steps. In the first
  one the source is \<^verbatim>\<open>hashes\<close>, in the others it is the array \<^verbatim>\<open>ints\<close> itself.
\<close>

fun hash_leaves :: "('h \<Rightarrow> 'h \<Rightarrow> 'h) \<Rightarrow> 'h list \<Rightarrow> nat \<Rightarrow> nat \<Rightarrow> nat \<Rightarrow> 'h list \<Rightarrow> 'h list" where
  "hash_leaves H hashes 0 i j ints = ints"
| "hash_leaves H hashes (Suc n) i j ints =
     hash_leaves H hashes n (i + 2) (j + 1) (ints[j := H (hashes ! i) (hashes ! (i + 1))])"

fun hash_level :: "('h \<Rightarrow> 'h \<Rightarrow> 'h) \<Rightarrow> nat \<Rightarrow> nat \<Rightarrow> nat \<Rightarrow> 'h list \<Rightarrow> 'h list" where
  "hash_level H 0 i j ints = ints"
| "hash_level H (Suc n) i j ints = hash_level H n (i + 2) (j + 1) (ints[j := H (ints ! i) (ints ! (i + 1))])"

function hash_levels :: "('h \<Rightarrow> 'h \<Rightarrow> 'h) \<Rightarrow> nat \<Rightarrow> 'h list \<Rightarrow> 'h list" where
  "hash_levels H cnt ints =
     (if 2 < cnt then hash_levels H (cnt div 2) (hash_level H (cnt div 2) 0 0 ints) else ints)"
  by pat_completeness auto
termination by (relation "measure (\<lambda>(_, cnt, _). cnt)") auto

declare hash_levels.simps [simp del]

text \<open>
  The whole function; \<open>alloc\<close> says whether \<^verbatim>\<open>malloc\<close> succeeds, \<open>zero\<close> is the null hash, and the
  fresh array is filled with \<open>zero\<close>. \<open>None\<close> is a failed \<^verbatim>\<open>assert\<close>.
\<close>

definition tree_root :: "('h \<Rightarrow> 'h \<Rightarrow> 'h) \<Rightarrow> 'h \<Rightarrow> bool \<Rightarrow> 'h list \<Rightarrow> 'h option" where
  "tree_root H zero alloc hashes =
     (let count = length hashes in
      if count = 0 then None
      else if count = 1 then Some (hashes ! 0)
      else if count = 2 then Some (H (hashes ! 0) (hashes ! 1))
      else if \<not> alloc then Some zero
      else let cnt = unat (tree_hash_cnt (of_nat count));
               n = 2 * cnt - count;
               ints = take n hashes @ replicate (cnt - n) zero;
               ints = hash_leaves H hashes (cnt - n) n n ints
           in if n + 2 * (cnt - n) \<noteq> count then None
              else let ints = hash_levels H cnt ints in Some (H (ints ! 0) (ints ! 1)))"

definition tree_hash :: "bool \<Rightarrow> bytes list \<Rightarrow> bytes option" where
  "tree_hash alloc hashes = tree_root (\<lambda>x y. cn_fast_hash (x @ y)) (replicate 32 0) alloc hashes"


section \<open>The specification\<close>

text \<open>
  A full binary tree over a list of a power of two of nodes, and the list of such nodes: with
  \<open>c\<close> the largest power of two below the number of leaves, the last leaves are joined in pairs.
\<close>

fun pairs :: "('h \<Rightarrow> 'h \<Rightarrow> 'h) \<Rightarrow> 'h list \<Rightarrow> 'h list" where
  "pairs H (x # y # zs) = H x y # pairs H zs"
| "pairs H zs = []"

fun full_root :: "('h \<Rightarrow> 'h \<Rightarrow> 'h) \<Rightarrow> nat \<Rightarrow> 'h list \<Rightarrow> 'h" where
  "full_root H 0 xs = xs ! 0"
| "full_root H (Suc d) xs = H (full_root H d (take (2 ^ d) xs)) (full_root H d (drop (2 ^ d) xs))"

definition spec_root :: "('h \<Rightarrow> 'h \<Rightarrow> 'h) \<Rightarrow> nat \<Rightarrow> 'h list \<Rightarrow> 'h" where
  "spec_root H d hashes =
     (let n = 2 * 2 ^ d - length hashes in full_root H d (take n hashes @ pairs H (drop n hashes)))"



section \<open>The power of two\<close>

text \<open>Each smearing step doubles the window of bits that are collected.\<close>

definition window :: "u64 \<Rightarrow> nat \<Rightarrow> nat \<Rightarrow> bool" where
  "window x i n \<longleftrightarrow> (\<exists>m. n \<le> m \<and> m < n + i \<and> bit x m)"

lemma smear_step:
  assumes "\<And>n. bit y n \<longleftrightarrow> window x i n" and "j = 2 * i"
  shows "bit (y OR drop_bit i y) n \<longleftrightarrow> window x j n"
proof -
  have "window x j n \<longleftrightarrow> window x i n \<or> window x i (i + n)"
  proof
    assume "window x j n"
    then obtain m where m: "n \<le> m" "m < n + 2 * i" "bit x m" using assms(2) by (auto simp: window_def)
    then show "window x i n \<or> window x i (i + n)" unfolding window_def by (cases "m < n + i") auto
  next
    assume "window x i n \<or> window x i (i + n)"
    then obtain m where "n \<le> m" "m < n + 2 * i" "bit x m" 
    proof (elim disjE)
      assume "window x i (i + n)"
      then obtain m where "i + n \<le> m" "m < i + n + i" "bit x m" unfolding window_def by blast
      then show thesis by (intro that [of m]) simp_all
    qed (auto simp: window_def intro: that)
    then show "window x j n" unfolding window_def assms(2) by blast
  qed
  then show ?thesis by (simp add: bit_or_iff bit_drop_bit_eq assms(1))
qed

lemma smear_bits:
  "bit (fold (\<lambda>i cnt. cnt OR drop_bit i cnt) [1, 2, 4, 8, 16, 32] (x :: u64)) n \<longleftrightarrow> (\<exists>m\<ge>n. bit x m)"
proof -
  have "bit x n \<longleftrightarrow> window x 1 n" for n by (auto simp: window_def le_less_Suc_eq)
  then have 1: "bit (x OR drop_bit 1 x) n \<longleftrightarrow> window x 2 n" for n by (rule smear_step) simp
  note 2 = smear_step [OF 1, of 4, simplified] note 4 = smear_step [OF 2, of 8, simplified]
  note 8 = smear_step [OF 4, of 16, simplified] note 16 = smear_step [OF 8, of 32, simplified]
  note 32 = smear_step [OF 16, of 64 n, simplified]
  have "bit x m \<Longrightarrow> m < n + 64" for m using bit_imp_le_length [of x m] by simp
  then have "window x 64 n \<longleftrightarrow> (\<exists>m\<ge>n. bit x m)" by (auto simp: window_def)
  with 32 show ?thesis by simp
qed

lemma tree_hash_cnt_power:
  assumes "2 ^ k \<le> unat (count - 1)" and "unat (count - 1) < 2 ^ Suc k"
  shows "unat (tree_hash_cnt count) = 2 ^ k"
proof -
  let ?x = "count - 1"
  have "unat ?x < 2 ^ 64" using unsigned_less [where ?'b = 64 and w = ?x] by simp
  then have "(2 :: nat) ^ k < 2 ^ 64" using assms(1) by linarith
  then have k: "k < 64" by (subst (asm) power_strict_increasing_iff) simp_all
  have bits: "bit ?x m = odd (unat ?x div 2 ^ m)" for m
  proof -
    have "bit ?x m = bit (unat ?x) m" by (simp add: bit_unsigned_iff)
    then show ?thesis by (simp only: bit_iff_odd)
  qed
  have "unat ?x div 2 ^ k = 1" using assms by (intro div_nat_eqI) simp_all
  then have top: "bit ?x k" by (simp add: bits)
  have above: "\<not> bit ?x m" if "k < m" for m
  proof -
    have "(2 :: nat) ^ Suc k \<le> 2 ^ m" using that by (intro power_increasing) simp_all
    then have "unat ?x < 2 ^ m" using assms(2) by linarith
    then show ?thesis by (simp add: bits)
  qed
  have "tree_hash_cnt count = 2 ^ k"
  proof (rule bit_word_eqI)
    fix n assume n: "n < LENGTH(64)"
    have "bit (tree_hash_cnt count) n \<longleftrightarrow> (\<exists>m\<ge>n. bit ?x m) \<and> \<not> (\<exists>m\<ge>1 + n. bit ?x m)"
      using n by (simp only: tree_hash_cnt_def Let_def bit_and_iff bit_not_iff bit_drop_bit_eq comp_def smear_bits)
        (simp add: possible_bit_def)
    also have "\<dots> \<longleftrightarrow> n = k"
      using top above by (metis add.commute less_eq_Suc_le nat_less_le not_less plus_1_eq_Suc)
    finally show "bit (tree_hash_cnt count) n = bit (2 ^ k :: u64) n"
      using n k by (auto simp: bit_exp_iff possible_bit_def)
  qed
  then have "tree_hash_cnt count = word_of_nat (2 ^ k)" by simp
  then show ?thesis using \<open>(2 :: nat) ^ k < 2 ^ 64\<close> by (simp only: unat_of_nat) (simp add: take_bit_eq_mod)
qed



section \<open>The loops\<close>

lemma pairs_length: "length (pairs H xs) = length xs div 2"
  by (induction H xs rule: pairs.induct) auto

lemma pairs_append: "even (length xs) \<Longrightarrow> pairs H (xs @ ys) = pairs H xs @ pairs H ys"
  by (induction H xs rule: pairs.induct) auto

lemma take_2_Suc: "i + 2 \<le> length xs \<Longrightarrow> take (2 * Suc k) (drop i xs) = xs ! i # xs ! (i + 1) # take (2 * k) (drop (i + 2) xs)"
  by (simp add: Cons_nth_drop_Suc [symmetric])

lemma take_update_snoc: "j < length xs \<Longrightarrow> take (Suc j) (xs[j := x]) = take j xs @ [x]"
  by (simp add: take_Suc_conv_app_nth)

lemma hash_leaves_pairs:
  "i + 2 * k \<le> length hs \<Longrightarrow> j + k \<le> length ints \<Longrightarrow>
   hash_leaves H hs k i j ints = take j ints @ pairs H (take (2 * k) (drop i hs)) @ drop (j + k) ints"
proof (induction k arbitrary: i j ints)
  case (Suc k)
  then show ?case using take_2_Suc [of i hs k] by (simp add: take_update_snoc)
qed simp

lemma hash_level_pairs:
  "i + 2 * k \<le> length ints \<Longrightarrow> j \<le> i \<Longrightarrow>
   hash_level H k i j ints = take j ints @ pairs H (take (2 * k) (drop i ints)) @ drop (j + k) ints"
proof (induction k arbitrary: i j ints)
  case (Suc k)
  then show ?case using take_2_Suc [of i ints k] by (simp add: take_update_snoc)
qed simp

lemma full_root_pairs:
  "length xs = 2 ^ Suc d \<Longrightarrow> full_root H (Suc d) xs = full_root H d (pairs H xs)"
proof (induction d arbitrary: xs)
  case 0
  then obtain x y where "xs = [x, y]" by (auto simp: numeral_2_eq_2 length_Suc_conv)
  then show ?case by simp
next
  case (Suc d)
  let ?l = "take (2 ^ Suc d) xs" and ?r = "drop (2 ^ Suc d) xs"
  have len: "length ?l = 2 ^ Suc d" "length ?r = 2 ^ Suc d" using Suc.prems by simp_all
  have p: "pairs H xs = pairs H ?l @ pairs H ?r"
    using pairs_append [of ?l H ?r] len(1) by (simp only: append_take_drop_id) simp
  have "length (pairs H ?l) = 2 ^ d" using len(1) by (simp add: pairs_length)
  then have "take (2 ^ d) (pairs H xs) = pairs H ?l" "drop (2 ^ d) (pairs H xs) = pairs H ?r" by (simp_all add: p)
  then show ?case using Suc.IH [OF len(1)] Suc.IH [OF len(2)] by simp
qed

lemma hash_levels_root:
  "2 ^ Suc d \<le> length ints \<Longrightarrow>
   (let r = hash_levels H (2 ^ Suc d) ints in H (r ! 0) (r ! 1)) = full_root H (Suc d) (take (2 ^ Suc d) ints)"
proof (induction d arbitrary: ints)
  case 0
  then show ?case by (simp add: hash_levels.simps)
next
  case (Suc d)
  let ?m = "(2 :: nat) ^ Suc d" and ?xs = "take (2 ^ Suc (Suc d)) ints"
  let ?l = "hash_level H ?m 0 0 ints"
  have l: "?l = pairs H ?xs @ drop ?m ints" using hash_level_pairs [of 0 ?m ints 0 H] Suc.prems by simp
  have len: "length ?xs = 2 ^ Suc (Suc d)" using Suc.prems by simp
  then have p: "length (pairs H ?xs) = ?m" by (simp add: pairs_length)
  have "1 \<le> (2 :: nat) ^ d" by simp
  then have "2 < 2 * (2 * (2 :: nat) ^ d)" by linarith
  then have "2 < (2 :: nat) ^ Suc (Suc d)" by (simp only: power_Suc)
  then have "hash_levels H (2 ^ Suc (Suc d)) ints = hash_levels H ?m ?l" by (subst hash_levels.simps) simp
  moreover have "?m \<le> length ?l" using l p by simp
  moreover have "take ?m ?l = pairs H ?xs" using l p by simp
  ultimately show ?case using Suc.IH [of ?l] full_root_pairs [OF len, of H] by (simp only:)
qed



section \<open>The root\<close>

lemma power_below:
  assumes "2 \<le> (n :: nat)"
  obtains d where "2 ^ d < n" "n \<le> 2 ^ Suc d"
  using assms
proof (induction n arbitrary: thesis rule: nat_induct_at_least)
  case base
  then show ?case using base [of 0] by simp
next
  case (Suc n)
  then obtain d where d: "2 ^ d < n" "n \<le> 2 ^ Suc d" by blast
  show ?case
  proof (cases "n = 2 ^ Suc d")
    case True
    then show ?thesis using Suc.prems [of "Suc d"] by simp
  next
    case False
    then show ?thesis using Suc.prems [of d] d by simp
  qed
qed

lemma tree_root_spec:
  assumes "2 ^ d < length hashes" and "length hashes \<le> 2 ^ Suc d" and "length hashes < 2 ^ 64"
  shows "tree_root H zero True hashes = Some (spec_root H d hashes)"
proof (cases "length hashes = 2")
  case True
  then obtain x y where xy: "hashes = [x, y]" by (auto simp: numeral_2_eq_2 length_Suc_conv)
  have "d = 0" using assms(1) True by (cases d) auto
  then show ?thesis by (simp add: xy tree_root_def spec_root_def)
next
  case False
  let ?n = "length hashes" let ?k = "2 * 2 ^ d - ?n"
  have "1 \<le> (2 :: nat) ^ d" by simp
  then have n: "3 \<le> ?n" using assms(1) False by linarith
  obtain e where d: "d = Suc e" using n assms(2) by (cases d) auto
  have "unat (of_nat ?n - 1 :: u64) = ?n - 1"
  proof -
    have "(of_nat ?n - 1 :: u64) = of_nat (?n - 1)" using n by (simp add: of_nat_diff)
    then show ?thesis using assms(3) by (simp add: unat_of_nat take_bit_eq_mod)
  qed
  then have cnt: "unat (tree_hash_cnt (of_nat ?n)) = 2 ^ d" using assms(1,2) by (intro tree_hash_cnt_power) simp_all
  have k: "?k \<le> 2 ^ d" "?k + 2 * (2 ^ d - ?k) = ?n" using assms(1,2) by simp_all
  let ?ints = "take ?k hashes @ replicate (2 ^ d - ?k) zero"
  have kn: "?k \<le> ?n" using k by simp
  have "hash_leaves H hashes (2 ^ d - ?k) ?k ?k ?ints = take ?k hashes @ pairs H (drop ?k hashes)"
    using hash_leaves_pairs [of ?k "2 ^ d - ?k" hashes ?k ?ints H] k kn by simp
  moreover have "length (take ?k hashes @ pairs H (drop ?k hashes)) = 2 ^ d"
    using k kn by (simp add: pairs_length)
  then have "(let r = hash_levels H (2 ^ d) (take ?k hashes @ pairs H (drop ?k hashes)) in H (r ! 0) (r ! 1))
      = full_root H d (take ?k hashes @ pairs H (drop ?k hashes))"
    unfolding d using hash_levels_root [of e _ H] by (metis order_refl take_all)
  ultimately show ?thesis
    using n k(2) False unfolding tree_root_def cnt spec_root_def Let_def by auto
qed



section \<open>Binding\<close>

text \<open>
  If the hash has no collision on nodes of \<open>S\<close>, a root determines the leaves below it.
\<close>

lemma full_root_inj:
  assumes cl: "\<And>x y. x \<in> S \<Longrightarrow> y \<in> S \<Longrightarrow> H x y \<in> S"
    and inj: "\<And>x y x' y'. x \<in> S \<Longrightarrow> y \<in> S \<Longrightarrow> x' \<in> S \<Longrightarrow> y' \<in> S \<Longrightarrow> H x y = H x' y' \<Longrightarrow> x = x' \<and> y = y'"
  shows "length xs = 2 ^ d \<Longrightarrow> length ys = 2 ^ d \<Longrightarrow> set xs \<subseteq> S \<Longrightarrow> set ys \<subseteq> S \<Longrightarrow>
    full_root H d xs \<in> S \<and> (full_root H d xs = full_root H d ys \<longrightarrow> xs = ys)"
proof (induction d arbitrary: xs ys)
  case 0
  then show ?case by (auto simp: length_Suc_conv)
next
  case (Suc d)
  let ?l = "take (2 ^ d)" and ?r = "drop (2 ^ d)"
  have len: "length (?l xs) = 2 ^ d" "length (?l ys) = 2 ^ d" "length (?r xs) = 2 ^ d" "length (?r ys) = 2 ^ d"
    using Suc.prems by simp_all
  have S: "set (?l xs) \<subseteq> S" "set (?l ys) \<subseteq> S" "set (?r xs) \<subseteq> S" "set (?r ys) \<subseteq> S"
    using Suc.prems by (meson order_trans set_take_subset set_drop_subset)+
  note l = Suc.IH [OF len(1,2) S(1,2)] and r = Suc.IH [OF len(3,4) S(3,4)]
  note l' = Suc.IH [OF len(2,1) S(2,1)] and r' = Suc.IH [OF len(4,3) S(4,3)]
  show ?case
  proof (intro conjI impI)
    show "full_root H (Suc d) xs \<in> S" using l r cl by simp
    assume "full_root H (Suc d) xs = full_root H (Suc d) ys"
    then have "?l xs = ?l ys" "?r xs = ?r ys" using inj l r l' r' by (metis full_root.simps(2))+
    then show "xs = ys" by (metis append_take_drop_id)
  qed
qed

lemma pairs_inj:
  assumes inj: "\<And>x y x' y'. x \<in> S \<Longrightarrow> y \<in> S \<Longrightarrow> x' \<in> S \<Longrightarrow> y' \<in> S \<Longrightarrow> H x y = H x' y' \<Longrightarrow> x = x' \<and> y = y'"
  shows "length xs = length ys \<Longrightarrow> even (length xs) \<Longrightarrow> set xs \<subseteq> S \<Longrightarrow> set ys \<subseteq> S \<Longrightarrow> pairs H xs = pairs H ys \<Longrightarrow> xs = ys"
proof (induction xs arbitrary: ys rule: induct_list012)
  case (3 x y zs)
  then obtain x' y' zs' where "ys = x' # y' # zs'" by (metis length_Suc_conv length_Cons)
  with 3 inj [of x y x' y'] show ?case by auto
qed auto

lemma pairs_closed:
  "(\<And>x y. x \<in> S \<Longrightarrow> y \<in> S \<Longrightarrow> H x y \<in> S) \<Longrightarrow> set xs \<subseteq> S \<Longrightarrow> set (pairs H xs) \<subseteq> S"
  by (induction H xs rule: pairs.induct) auto

lemma spec_root_inj:
  assumes cl: "\<And>x y. x \<in> S \<Longrightarrow> y \<in> S \<Longrightarrow> H x y \<in> S"
    and inj: "\<And>x y x' y'. x \<in> S \<Longrightarrow> y \<in> S \<Longrightarrow> x' \<in> S \<Longrightarrow> y' \<in> S \<Longrightarrow> H x y = H x' y' \<Longrightarrow> x = x' \<and> y = y'"
    and d: "2 ^ d < length xs" "length xs \<le> 2 ^ Suc d" and len: "length xs = length ys"
    and S: "set xs \<subseteq> S" "set ys \<subseteq> S" and eq: "spec_root H d xs = spec_root H d ys"
  shows "xs = ys"
proof -
  let ?k = "2 * 2 ^ d - length xs"
  have k: "?k \<le> length xs" "length xs - ?k = 2 * (2 ^ d - ?k)" "?k \<le> 2 ^ d" using d by simp_all
  let ?f = "\<lambda>zs. take ?k zs @ pairs H (drop ?k zs)"
  have l: "length (?f xs) = 2 ^ d" "length (?f ys) = 2 ^ d" using k len by (simp_all add: pairs_length)
  have s: "set (?f xs) \<subseteq> S" "set (?f ys) \<subseteq> S"
  proof -
    have "set (pairs H (drop ?k zs)) \<subseteq> S" if "set zs \<subseteq> S" for zs
    proof (rule pairs_closed)
      show "set (drop ?k zs) \<subseteq> S" by (rule order_trans [OF set_drop_subset that])
    qed (rule cl)
    moreover have "set (take ?k zs) \<subseteq> S" if "set zs \<subseteq> S" for zs by (rule order_trans [OF set_take_subset that])
    ultimately show "set (?f xs) \<subseteq> S" "set (?f ys) \<subseteq> S" using S by simp_all
  qed
  have "full_root H d (?f xs) \<in> S \<and> (full_root H d (?f xs) = full_root H d (?f ys) \<longrightarrow> ?f xs = ?f ys)"
  proof (rule full_root_inj [where S = S])
    fix x y x' y'
    show "x \<in> S \<Longrightarrow> y \<in> S \<Longrightarrow> H x y \<in> S" by (rule cl)
    show "x \<in> S \<Longrightarrow> y \<in> S \<Longrightarrow> x' \<in> S \<Longrightarrow> y' \<in> S \<Longrightarrow> H x y = H x' y' \<Longrightarrow> x = x' \<and> y = y'" by (rule inj)
  qed (rule l s)+
  then have "?f xs = ?f ys" using eq len by (simp add: spec_root_def Let_def)
  then have t: "take ?k xs = take ?k ys" and p: "pairs H (drop ?k xs) = pairs H (drop ?k ys)"
    using k len by (simp_all add: append_eq_append_conv)
  have ds: "set (drop ?k xs) \<subseteq> S" "set (drop ?k ys) \<subseteq> S" using S by (auto dest: in_set_dropD)
  have "drop ?k xs = drop ?k ys"
  proof (rule pairs_inj [where S = S and H = H])
    fix x y x' y'
    show "x \<in> S \<Longrightarrow> y \<in> S \<Longrightarrow> x' \<in> S \<Longrightarrow> y' \<in> S \<Longrightarrow> H x y = H x' y' \<Longrightarrow> x = x' \<and> y = y'" by (rule inj)
    show "length (drop ?k xs) = length (drop ?k ys)" "even (length (drop ?k xs))" using k len by simp_all
  qed (rule p ds)+
  with t show ?thesis by (metis append_take_drop_id)
qed


section \<open>Properties\<close>

text \<open>
  C37 (tree_hash_root). For two or more leaves, \<^verbatim>\<open>tree_hash\<close> returns the root of the tree in which the
  last leaves are joined in pairs so that a full tree of depth \<open>d\<close> remains, where \<open>2\<^sup>d\<close> is the
  largest power of two below the number of leaves; its assertions hold. One leaf is its own root,
  no leaf fails the first assertion, and a failed allocation gives the null hash.
\<close>

theorem tree_hash_root:
  assumes "length hashes < 2 ^ 64"
  shows "(2 \<le> length hashes \<longrightarrow> (\<exists>d. 2 ^ d < length hashes \<and> length hashes \<le> 2 ^ Suc d
      \<and> tree_hash True hashes = Some (spec_root (\<lambda>x y. cn_fast_hash (x @ y)) d hashes)))
    \<and> tree_hash a [x] = Some x \<and> tree_hash a [] = None
    \<and> (3 \<le> length hashes \<longrightarrow> tree_hash False hashes = Some (replicate 32 0))"
proof (intro conjI impI)
  assume "2 \<le> length hashes"
  then obtain d where "2 ^ d < length hashes" "length hashes \<le> 2 ^ Suc d" by (rule power_below)
  with tree_root_spec [OF this assms] show "\<exists>d. 2 ^ d < length hashes \<and> length hashes \<le> 2 ^ Suc d
      \<and> tree_hash True hashes = Some (spec_root (\<lambda>x y. cn_fast_hash (x @ y)) d hashes)"
    unfolding tree_hash_def by blast
qed (auto simp: tree_hash_def tree_root_def Let_def)

theorem tree_hash_root_witness:
  "\<exists>d. 2 ^ d < (3 :: nat) \<and> 3 \<le> (2 :: nat) ^ Suc d
    \<and> tree_hash True [[1], [2], [3]] = Some (spec_root (\<lambda>x y. cn_fast_hash (x @ y)) d [[1], [2], [3]])"
  using tree_hash_root [of "[[1], [2], [3]]"] by (simp add: numeral_3_eq_3)

text \<open>
  Two different lists of as many 32-byte hashes with the same root exhibit a
  collision of \<^verbatim>\<open>cn_fast_hash\<close> on 64 bytes.
\<close>

theorem tree_hash_binding:
  assumes "length xs = length ys" and "xs \<noteq> []" and "length xs < 2 ^ 64" and "tree_hash True xs = tree_hash True ys"
    and "list_all (\<lambda>h. length h = 32) (xs @ ys)"
  shows "xs = ys \<or> (\<exists>a b. length a = 64 \<and> length b = 64 \<and> a \<noteq> b \<and> cn_fast_hash a = cn_fast_hash b)"
proof (cases "length xs = 1")
  case True
  then show ?thesis using assms(1,4) by (auto simp: length_Suc_conv tree_hash_def tree_root_def)
next
  case False
  let ?H = "\<lambda>x y. cn_fast_hash (x @ y)" and ?S = "{h :: bytes. length h = 32}"
  have "2 \<le> length xs" using False assms(2) by (cases xs) (auto simp: Suc_le_eq)
  then obtain d where d: "2 ^ d < length xs" "length xs \<le> 2 ^ Suc d" by (rule power_below)
  have eq: "spec_root ?H d xs = spec_root ?H d ys"
    using assms(4) tree_root_spec [OF d assms(3)] tree_root_spec [of d ys] d assms(1,3) by (simp add: tree_hash_def)
  have S: "set xs \<subseteq> ?S" "set ys \<subseteq> ?S" using assms(5) by (auto simp: list_all_iff)
  show ?thesis
  proof (rule disjCI)
    assume n: "\<not> (\<exists>a b. length a = 64 \<and> length b = 64 \<and> a \<noteq> b \<and> cn_fast_hash a = cn_fast_hash b)"
    show "xs = ys"
    proof (rule spec_root_inj [of ?S ?H, OF _ _ d assms(1) S eq])
      fix x y x' y' :: bytes
      assume h: "x \<in> ?S" "y \<in> ?S" "x' \<in> ?S" "y' \<in> ?S" and c: "?H x y = ?H x' y'"
      then have "length (x @ y) = 64" "length (x' @ y') = 64" by simp_all
      with n c have "x @ y = x' @ y'" by blast
      with h show "x = x' \<and> y = y'" by simp
    qed simp
  qed
qed

theorem tree_hash_binding_witness:
  "[replicate 32 1, replicate 32 2] = [replicate 32 (1 :: u8), replicate 32 2]
    \<or> (\<exists>a b. length a = 64 \<and> length b = 64 \<and> a \<noteq> b \<and> cn_fast_hash a = cn_fast_hash b)"
  by (rule tree_hash_binding) simp_all

end
