(* ===== verification/Int_Util.thy ===== *)
theory Int_Util
  imports Prelude
begin

text \<open>
  Multiplication and division of 128-bit numbers held in two 64-bit words, from
  \<^verbatim>\<open>src/src/common/int-util.h\<close>. A result that the source returns through a pointer is a
  component of the returned tuple; a division by zero is \<open>None\<close>.
\<close>

unbundle bit_operations_syntax

section \<open>Definitions\<close>

definition hi_dword :: "u64 \<Rightarrow> u64" where
  "hi_dword val = drop_bit 32 val"

definition lo_dword :: "u64 \<Rightarrow> u64" where
  "lo_dword val = val AND 0xFFFFFFFF"

text \<open>The low and the high word of the product; a failed \<^verbatim>\<open>assert\<close> is \<open>None\<close>.\<close>

definition mul128_manually :: "u64 \<Rightarrow> u64 \<Rightarrow> (u64 \<times> u64) option" where
  "mul128_manually multiplier multiplicand =
     (let a = hi_dword multiplier; b = lo_dword multiplier; c = hi_dword multiplicand; d = lo_dword multiplicand;
          ac = a * c; ad = a * d; bc = b * c; bd = b * d;
          adbc = ad + bc;
          adbc_carry = (if adbc < ad then 1 else 0);
          product_lo = bd + push_bit 32 adbc;
          product_lo_carry = (if product_lo < bd then 1 else 0);
          product_hi = ac + drop_bit 32 adbc + push_bit 32 adbc_carry + product_lo_carry
      in if ac \<le> product_hi then Some (product_lo, product_hi) else None)"

text \<open>The quotient and the new remainder.\<close>

definition div_with_reminder :: "u64 \<Rightarrow> u32 \<Rightarrow> u32 \<Rightarrow> (u64 \<times> u32) option" where
  "div_with_reminder dividend divisor remainder =
     (if divisor = 0 then None
      else let dividend = dividend OR push_bit 32 (ucast remainder)
           in Some (dividend div ucast divisor, ucast (dividend mod ucast divisor)))"

text \<open>The high and the low word of the quotient and the remainder.\<close>

definition div128_32_manually :: "u64 \<Rightarrow> u64 \<Rightarrow> u32 \<Rightarrow> (u64 \<times> u64 \<times> u32) option" where
  "div128_32_manually dividend_hi dividend_lo divisor = do {
     (q3, r3) \<leftarrow> div_with_reminder (hi_dword dividend_hi) divisor 0;
     (q2, r2) \<leftarrow> div_with_reminder (lo_dword dividend_hi) divisor r3;
     (q1, r1) \<leftarrow> div_with_reminder (hi_dword dividend_lo) divisor r2;
     (q0, r0) \<leftarrow> div_with_reminder (lo_dword dividend_lo) divisor r1;
     Some (push_bit 32 q3 OR q2, push_bit 32 q1 OR q0, r0) }"

definition mul128 :: "u64 \<Rightarrow> u64 \<Rightarrow> (u64 \<times> u64) option" where
  "mul128 multiplier multiplicand = mul128_manually multiplier multiplicand"

definition div128_32 :: "u64 \<Rightarrow> u64 \<Rightarrow> u32 \<Rightarrow> (u64 \<times> u64 \<times> u32) option" where
  "div128_32 dividend_hi dividend_lo divisor = div128_32_manually dividend_hi dividend_lo divisor"


section \<open>Words as numbers\<close>

lemma u64_range: "0 \<le> uint (x :: u64)" "uint (x :: u64) < 2 ^ 64"
  using uint_ge_0 [of x] uint_lt2p [of x] by simp_all

lemma u32_range: "0 \<le> uint (x :: u32)" "uint (x :: u32) < 2 ^ 32"
  using uint_ge_0 [of x] uint_lt2p [of x] by simp_all

lemma u64_add: "uint (x + y :: u64) = (uint x + uint y) mod 2 ^ 64"
  by (simp add: uint_word_ariths)

lemma u64_mult: "uint (x * y :: u64) = uint x * uint y mod 2 ^ 64"
  by (simp add: uint_word_ariths)

lemma u64_push: "uint (push_bit n x :: u64) = uint x * 2 ^ n mod 2 ^ 64"
  by (simp only: unsigned_push_bit_eq) (simp add: push_bit_eq_mult take_bit_eq_mod)

lemma u64_drop: "uint (drop_bit n x :: u64) = uint x div 2 ^ n"
  by (simp only: uint_nat unat_drop_bit_eq) (simp add: drop_bit_eq_div zdiv_int)

lemma u32_u64: "uint (ucast (x :: u32) :: u64) = uint x"
  by (simp add: uint_up_ucast is_up)

lemma dwords:
  "uint (hi_dword x) = uint x div 2 ^ 32" "uint (lo_dword x) = uint x mod 2 ^ 32"
  "0 \<le> uint (hi_dword x)" "uint (hi_dword x) < 2 ^ 32" "0 \<le> uint (lo_dword x)" "uint (lo_dword x) < 2 ^ 32"
  "uint x = 2 ^ 32 * uint (hi_dword x) + uint (lo_dword x)"
proof -
  show h: "uint (hi_dword x) = uint x div 2 ^ 32" by (simp only: hi_dword_def u64_drop)
  have "(0xFFFFFFFF :: u64) = mask 32" by (simp add: mask_eq_exp_minus_1)
  then show l: "uint (lo_dword x) = uint x mod 2 ^ 32"
    by (simp only: lo_dword_def take_bit_eq_mask [symmetric] unsigned_take_bit_eq) (simp add: take_bit_eq_mod)
  show "0 \<le> uint (hi_dword x)" "0 \<le> uint (lo_dword x)" by (rule uint_ge_0)+
  show "uint (lo_dword x) < 2 ^ 32" unfolding l by simp
  show "uint (hi_dword x) < 2 ^ 32" unfolding h using u64_range(2) [of x] div_bounds(1) [of "2 ^ 32" "uint x"] by simp
  show "uint x = 2 ^ 32 * uint (hi_dword x) + uint (lo_dword x)" unfolding h l by simp
qed


section \<open>Multiplication\<close>

text \<open>The comparison with a summand detects the carry.\<close>

lemma carry_add:
  fixes x y :: u64
  shows "uint x + uint y = 2 ^ 64 * (if x + y < x then 1 else 0) + uint (x + y)"
proof -
  have c: "x + y < x \<longleftrightarrow> uint (x + y) < uint x" by (rule word_less_def)
  show ?thesis
  proof (cases "uint x + uint y < 2 ^ 64")
    case True
    then have "uint (x + y) = uint x + uint y" using u64_range [of x] u64_range [of y] by (simp add: u64_add)
    then show ?thesis using u64_range(1) [of y] by (simp add: c)
  next
    case False
    have "uint (x + y) = uint x + uint y - 2 ^ 64"
      unfolding u64_add using False u64_range [of x] u64_range [of y] by (intro int_mod_pos_eq [of _ _ 1]) simp_all
    then show ?thesis using u64_range(2) [of y] by (simp add: c)
  qed
qed

lemma mul128_value:
  "\<exists>lo hi. mul128 x y = Some (lo, hi) \<and> 2 ^ 64 * uint hi + uint lo = uint x * uint y"
proof -
  define a where "a = uint (hi_dword x)" define b where "b = uint (lo_dword x)"
  define c where "c = uint (hi_dword y)" define d where "d = uint (lo_dword y)"
  note r = dwords(3-6) [of x, folded a_def b_def] dwords(3-6) [of y, folded c_def d_def]
  have x: "uint x = 2 ^ 32 * a + b" and y: "uint y = 2 ^ 32 * c + d" using dwords(7) unfolding a_def b_def c_def d_def by blast+
  have p: "0 \<le> u * v \<and> u * v \<le> (2 ^ 32 - 1) * (2 ^ 32 - 1)" if "0 \<le> u" "u < 2 ^ 32" "0 \<le> v" "v < 2 ^ 32" for u v :: int
    using that mult_mono [of u "2 ^ 32 - 1" v "2 ^ 32 - 1"] by simp
  let ?ac = "hi_dword x * hi_dword y" let ?ad = "hi_dword x * lo_dword y"
  let ?bc = "lo_dword x * hi_dword y" let ?bd = "lo_dword x * lo_dword y"
  have ac: "uint ?ac = a * c" and ad: "uint ?ad = a * d" and bc: "uint ?bc = b * c" and bd: "uint ?bd = b * d"
    using p [of a c] p [of a d] p [of b c] p [of b d] r by (simp_all add: u64_mult a_def b_def c_def d_def)
  define adbc where "adbc = ?ad + ?bc"
  define k1 :: u64 where "k1 = (if adbc < ?ad then 1 else 0)"
  have 1: "a * d + b * c = 2 ^ 64 * uint k1 + uint adbc"
    using carry_add [of ?ad ?bc] ad bc unfolding adbc_def k1_def by simp
  define lo where "lo = ?bd + push_bit 32 adbc"
  define k2 :: u64 where "k2 = (if lo < ?bd then 1 else 0)"
  have 2: "b * d + uint (push_bit 32 adbc) = 2 ^ 64 * uint k2 + uint lo"
    using carry_add [of ?bd "push_bit 32 adbc"] bd unfolding lo_def k2_def by simp
  have sh: "uint (push_bit 32 adbc) = 2 ^ 32 * (uint adbc mod 2 ^ 32)"
  proof -
    have "uint adbc * 2 ^ 32 mod 2 ^ 64 = uint adbc * 2 ^ 32 mod (2 ^ 32 * 2 ^ 32)" by simp
    also have "\<dots> = 2 ^ 32 * (uint adbc mod 2 ^ 32)" by (subst mult.commute [of "uint adbc"]) (rule mod_mult_mult1)
    finally show ?thesis by (simp only: u64_push)
  qed
  have dr: "uint (drop_bit 32 adbc) = uint adbc div 2 ^ 32" by (rule u64_drop)
  have k: "0 \<le> uint k1" "uint k1 \<le> 1" "0 \<le> uint k2" "uint k2 \<le> 1" by (simp_all add: k1_def k2_def)
  then have k1s: "uint (push_bit 32 k1) = 2 ^ 32 * uint k1" by (auto simp: u64_push k1_def)
  have split: "uint adbc = 2 ^ 32 * (uint adbc div 2 ^ 32) + uint adbc mod 2 ^ 32" by simp
  let ?hi = "a * c + uint adbc div 2 ^ 32 + 2 ^ 32 * uint k1 + uint k2"
  have prod: "2 ^ 64 * ?hi + uint lo = uint x * uint y"
  proof -
    have "uint x * uint y = 2 ^ 64 * (a * c) + 2 ^ 32 * (a * d + b * c) + b * d"
      unfolding x y by (simp add: algebra_simps)
    also have "\<dots> = 2 ^ 64 * ?hi + uint lo"
    proof -
      have "2 ^ 32 * (a * d + b * c) = 2 ^ 96 * uint k1 + 2 ^ 64 * (uint adbc div 2 ^ 32) + 2 ^ 32 * (uint adbc mod 2 ^ 32)"
        unfolding 1 by (subst split) (simp only: distrib_left, simp)
      moreover have "b * d = 2 ^ 64 * uint k2 + uint lo - 2 ^ 32 * (uint adbc mod 2 ^ 32)" using 2 sh by simp
      ultimately show ?thesis by (simp add: algebra_simps)
    qed
    finally show ?thesis ..
  qed
  have "0 \<le> ?hi" using p [of a c] r k u64_range(1) [of adbc] by (simp add: pos_imp_zdiv_nonneg_iff)
  moreover have "?hi < 2 ^ 64"
  proof -
    have "uint x * uint y \<le> (2 ^ 64 - 1) * (2 ^ 64 - 1)"
      using u64_range [of x] u64_range [of y] by (intro mult_mono) simp_all
    moreover have "H < 2 ^ 64" if "2 ^ 64 * H + l = q" "0 \<le> l" "q \<le> (2 ^ 64 - 1) * (2 ^ 64 - 1)" for H l q :: int
      using that by simp
    ultimately show ?thesis using prod u64_range(1) [of lo] by blast
  qed
  moreover define hi where "hi = ?ac + drop_bit 32 adbc + push_bit 32 k1 + k2"
  ultimately have hi: "uint hi = ?hi"
    unfolding hi_def by (simp only: u64_add dr k1s ac mod_add_left_eq) simp
  have "?ac \<le> hi" unfolding word_le_def hi ac using k u64_range(1) [of adbc] by (simp add: pos_imp_zdiv_nonneg_iff)
  then have "mul128 x y = Some (lo, hi)"
    by (simp add: mul128_def mul128_manually_def Let_def adbc_def [symmetric] k1_def [symmetric] lo_def [symmetric]
        k2_def [symmetric] hi_def [symmetric])
  with prod hi show ?thesis by auto
qed



section \<open>Long division\<close>

lemma div_with_reminder_value:
  assumes "divisor \<noteq> 0" and "uint dividend < 2 ^ 32" and "uint rem < uint divisor"
  shows "\<exists>q r. div_with_reminder dividend divisor rem = Some (q, r)
    \<and> 2 ^ 32 * uint rem + uint dividend = uint divisor * uint q + uint r \<and> uint r < uint divisor \<and> uint q < 2 ^ 32"
proof -
  let ?d = "dividend OR push_bit 32 (ucast rem)" and ?v = "ucast divisor :: u64"
  have "uint (push_bit 32 (ucast rem) :: u64) = 2 ^ 32 * uint rem"
    using u32_range [of rem] by (simp add: u64_push u32_u64)
  then have "uint ?d = uint dividend OR 2 ^ 32 * uint rem" by (simp add: unsigned_or_eq)
  also have "\<dots> = uint dividend + 2 ^ 32 * uint rem"
  proof -
    have "take_bit 32 (uint dividend) AND push_bit 32 (uint rem) = 0" by (auto simp: bit_eq_iff bit_simps)
    moreover have "take_bit 32 (uint dividend) = uint dividend" using assms(2) u64_range(1) by (simp add: take_bit_int_eq_self)
    ultimately have "uint dividend AND push_bit 32 (uint rem) = 0" by simp
    then have "uint dividend OR push_bit 32 (uint rem) = uint dividend + push_bit 32 (uint rem)" by (simp add: disjunctive_add_eq_or)
    then show ?thesis by (simp add: push_bit_eq_mult mult.commute)
  qed
  finally have d: "uint ?d = 2 ^ 32 * uint rem + uint dividend" by simp
  let ?q = "?d div ?v" and ?r = "ucast (?d mod ?v) :: u32"
  have pos: "0 < uint divisor" using assms(3) u32_range(1) [of rem] by linarith
  have q: "uint ?q = uint ?d div uint divisor" by (simp add: uint_div_distrib u32_u64)
  have m: "uint (?d mod ?v) = uint ?d mod uint divisor" by (simp add: uint_mod_distrib u32_u64)
  have lt: "uint ?d mod uint divisor < uint divisor" "0 \<le> uint ?d mod uint divisor" using pos by simp_all
  have "uint (?d mod ?v) < 2 ^ 32" unfolding m using lt(1) u32_range(2) [of divisor] by linarith
  then have r: "uint ?r = uint ?d mod uint divisor"
    using m lt(2) by (simp only: unsigned_ucast_eq) (simp add: take_bit_eq_mod mod_pos_pos_trivial)
  have "uint ?d < uint divisor * 2 ^ 32"
  proof -
    have "2 ^ 32 * (uint rem + 1) \<le> 2 ^ 32 * uint divisor" using assms(3) by (intro mult_left_mono) simp_all
    then show ?thesis unfolding d using assms(2) by (simp add: distrib_left)
  qed
  then have "uint ?q < 2 ^ 32"
    unfolding q using div_bounds(1) [OF pos, of "uint ?d"] pos by (smt (verit) mult_le_cancel_left_pos)
  moreover have "2 ^ 32 * uint rem + uint dividend = uint divisor * uint ?q + uint ?r" unfolding q r d [symmetric] by simp
  ultimately show ?thesis using assms(1) r lt(1) by (auto simp: div_with_reminder_def Let_def)
qed

lemma join_dwords:
  fixes x y :: u64
  assumes "uint x < 2 ^ 32" and "uint y < 2 ^ 32"
  shows "uint (push_bit 32 x OR y) = 2 ^ 32 * uint x + uint y"
proof -
  have "uint (push_bit 32 x) = push_bit 32 (uint x)"
    using assms(1) u64_range(1) [of x] by (simp only: u64_push) (simp add: push_bit_eq_mult)
  moreover have "push_bit 32 (uint x) AND take_bit 32 (uint y) = 0" by (auto simp: bit_eq_iff bit_simps)
  moreover have "take_bit 32 (uint y) = uint y" using assms(2) u64_range(1) by (simp add: take_bit_int_eq_self)
  ultimately have "push_bit 32 (uint x) OR uint y = push_bit 32 (uint x) + uint y" by (simp add: disjunctive_add_eq_or)
  then show ?thesis using \<open>uint (push_bit 32 x) = _\<close> by (simp add: unsigned_or_eq push_bit_eq_mult)
qed

lemma div128_32_value:
  assumes "divisor \<noteq> 0"
  shows "\<exists>qh ql r. div128_32 hi lo divisor = Some (qh, ql, r) \<and> uint r < uint divisor
    \<and> 2 ^ 64 * uint hi + uint lo = uint divisor * (2 ^ 64 * uint qh + uint ql) + uint r"
proof -
  note w = dwords
  have "uint (0 :: u32) < uint divisor" 
    using assms u32_range(1) [of divisor] uint_0_iff [of divisor] by (simp add: order_less_le)
  from div_with_reminder_value [OF assms w(4) [of hi] this] obtain q3 r3 where
    3: "div_with_reminder (hi_dword hi) divisor 0 = Some (q3, r3)" "uint (hi_dword hi) = uint divisor * uint q3 + uint r3"
      "uint r3 < uint divisor" "uint q3 < 2 ^ 32" by auto
  from div_with_reminder_value [OF assms w(6) [of hi] 3(3)] obtain q2 r2 where
    2: "div_with_reminder (lo_dword hi) divisor r3 = Some (q2, r2)"
      "2 ^ 32 * uint r3 + uint (lo_dword hi) = uint divisor * uint q2 + uint r2" "uint r2 < uint divisor" "uint q2 < 2 ^ 32" by blast
  from div_with_reminder_value [OF assms w(4) [of lo] 2(3)] obtain q1 r1 where
    1: "div_with_reminder (hi_dword lo) divisor r2 = Some (q1, r1)"
      "2 ^ 32 * uint r2 + uint (hi_dword lo) = uint divisor * uint q1 + uint r1" "uint r1 < uint divisor" "uint q1 < 2 ^ 32" by blast
  from div_with_reminder_value [OF assms w(6) [of lo] 1(3)] obtain q0 r0 where
    0: "div_with_reminder (lo_dword lo) divisor r1 = Some (q0, r0)"
      "2 ^ 32 * uint r1 + uint (lo_dword lo) = uint divisor * uint q0 + uint r0" "uint r0 < uint divisor" "uint q0 < 2 ^ 32" by blast
  have "2 ^ 64 * uint hi + uint lo
      = uint divisor * (2 ^ 64 * (2 ^ 32 * uint q3 + uint q2) + (2 ^ 32 * uint q1 + uint q0)) + uint r0"
    unfolding w(7) [of hi] w(7) [of lo] using 3(2) 2(2) 1(2) 0(2) by (simp add: algebra_simps)
  then show ?thesis
    using 3(1) 2(1) 1(1) 0(1,3) join_dwords [OF 3(4) 2(4)] join_dwords [OF 1(4) 0(4)]
    by (simp add: div128_32_def div128_32_manually_def)
qed


section \<open>Properties\<close>

text \<open>
  The 64 by 64 bit product built from 32-bit halves is exact and never fails its
  assertion, and the long division of a 128-bit number by a non-zero 32-bit one gives quotient and
  remainder; dividing a product by one of its factors therefore gives the other one back.
\<close>

theorem int128_exact:
  assumes "d \<noteq> 0"
  shows "\<exists>lo hi qh ql. mul128 a b = Some (lo, hi) \<and> 2 ^ 64 * uint hi + uint lo = uint a * uint b
    \<and> div128_32 hi lo d = Some (qh, ql, word_of_int (uint a * uint b mod uint d))
    \<and> 2 ^ 64 * uint qh + uint ql = uint a * uint b div uint d"
proof -
  obtain lo hi where m: "mul128 a b = Some (lo, hi)" "2 ^ 64 * uint hi + uint lo = uint a * uint b"
    using mul128_value by blast
  obtain qh ql r where d: "div128_32 hi lo d = Some (qh, ql, r)" "uint r < uint d"
    "2 ^ 64 * uint hi + uint lo = uint d * (2 ^ 64 * uint qh + uint ql) + uint r"
    using div128_32_value [OF assms] by blast
  note e = d(3) [unfolded m(2)]
  have "uint r = uint a * uint b mod uint d" "2 ^ 64 * uint qh + uint ql = uint a * uint b div uint d"
    using int_mod_pos_eq [OF e u32_range(1) d(2)] int_div_pos_eq [OF e u32_range(1) d(2)] by simp_all
  then show ?thesis using m d(1) by (metis word_of_int_uint)
qed

theorem int128_exact_witness:
  "\<exists>lo hi qh ql. mul128 (2 ^ 63) 6 = Some (lo, hi) \<and> 2 ^ 64 * uint hi + uint lo = uint (2 ^ 63 :: u64) * uint (6 :: u64)
    \<and> div128_32 hi lo 6 = Some (qh, ql, word_of_int (uint (2 ^ 63 :: u64) * uint (6 :: u64) mod uint (6 :: u32)))
    \<and> 2 ^ 64 * uint qh + uint ql = uint (2 ^ 63 :: u64) * uint (6 :: u64) div uint (6 :: u32)"
  by (rule int128_exact) simp

end
