(* ===== verification/Block_Reward.thy ===== *)
theory Block_Reward
  imports Int_Util
begin

text \<open>
  The reward of a block and its reduction for blocks larger than the median of the recent ones:
  \<^verbatim>\<open>get_base_block_reward\<close> and the two versions of \<^verbatim>\<open>get_block_reward\<close> in
  \<^verbatim>\<open>src/src/currency_core/currency_format_utils.cpp\<close>, with the constants of
  \<^verbatim>\<open>src/src/currency_core/currency_config.h\<close>. Sizes are 64-bit (\<^verbatim>\<open>size_t\<close>).
\<close>

section \<open>Definitions\<close>

definition PREMINE_AMOUNT :: u64 where
  "PREMINE_AMOUNT = 17517203000000000000"

definition CURRENCY_BLOCK_REWARD :: u64 where
  "CURRENCY_BLOCK_REWARD = 1000000000000"

definition CURRENCY_BLOCK_GRANTED_FULL_REWARD_ZONE :: u64 where
  "CURRENCY_BLOCK_GRANTED_FULL_REWARD_ZONE = 125000"

definition get_base_block_reward :: "u64 \<Rightarrow> u64" where
  "get_base_block_reward height = (if height = 0 then PREMINE_AMOUNT else CURRENCY_BLOCK_REWARD)"

text \<open>
  The outcomes of the version that returns a \<^verbatim>\<open>bool\<close>: a reward, the \<^verbatim>\<open>false\<close> of a block that is too
  big, the \<^verbatim>\<open>false\<close> of one of the two final checks, and a failed assertion or division by zero.
\<close>

datatype reward_result = Reward u64 | Too_big | Check_failed | Crash

definition block_reward :: "u64 \<Rightarrow> u64 \<Rightarrow> u64 \<Rightarrow> reward_result" where
  "block_reward median_size current_block_size height =
     (let base_reward = get_base_block_reward height;
          median_size = (if median_size < CURRENCY_BLOCK_GRANTED_FULL_REWARD_ZONE
                         then CURRENCY_BLOCK_GRANTED_FULL_REWARD_ZONE else median_size) in
      if current_block_size \<le> median_size \<or> height = 0 then Reward base_reward
      else if 2 * median_size < current_block_size then Too_big
      else let multiplicand = (2 * median_size - current_block_size) * current_block_size in
        case mul128 base_reward multiplicand of None \<Rightarrow> Crash | Some (product_lo, product_hi) \<Rightarrow>
        case div128_32 product_hi product_lo (ucast median_size) of None \<Rightarrow> Crash | Some (reward_hi, reward_lo, _) \<Rightarrow>
        case div128_32 reward_hi reward_lo (ucast median_size) of None \<Rightarrow> Crash | Some (reward_hi, reward_lo, _) \<Rightarrow>
        if reward_hi \<noteq> 0 then Check_failed
        else if \<not> reward_lo < base_reward then Check_failed
        else Reward reward_lo)"

text \<open>The version with three arguments starts from a reward of zero.\<close>

definition get_block_reward :: "u64 \<Rightarrow> u64 \<Rightarrow> u64 \<Rightarrow> u64" where
  "get_block_reward height median_block_size current_block_size =
     (case block_reward median_block_size current_block_size height of Reward r \<Rightarrow> r | _ \<Rightarrow> 0)"


section \<open>The penalty\<close>

text \<open>The median after the granted zone, and the reward for a size between it and its double.\<close>

definition soft_median :: "u64 \<Rightarrow> int" where
  "soft_median median = max 125000 (uint median)"

definition penalised :: "int \<Rightarrow> int \<Rightarrow> int" where
  "penalised m s = 10 ^ 12 * ((2 * m - s) * s) div (m * m)"

lemma penalty_square: "(2 * m - s) * s = m * m - (s - m) * (s - m)" for m s :: int
  by (simp add: algebra_simps)

lemma penalised_less:
  fixes m s :: int
  assumes "m < s" and "s \<le> 2 * m"
  shows "0 \<le> penalised m s" and "penalised m s < 10 ^ 12"
proof -
  have m: "0 < m" using assms by simp
  then have mm: "0 < m * m" by simp
  have p: "0 \<le> (2 * m - s) * s" using assms m by simp
  show "0 \<le> penalised m s" using p mm by (simp add: penalised_def pos_imp_zdiv_nonneg_iff)
  have "0 < (s - m) * (s - m)" using assms(1) by simp
  then have "(2 * m - s) * s < m * m" unfolding penalty_square by simp
  then have "10 ^ 12 * ((2 * m - s) * s) < m * m * 10 ^ 12" by simp
  then show "penalised m s < 10 ^ 12"
    unfolding penalised_def using mm div_bounds(1) [OF mm, of "10 ^ 12 * ((2 * m - s) * s)"]
    by (meson mult_less_cancel_left_pos order_le_less_trans)
qed

lemma penalised_antimono:
  fixes m s t :: int
  assumes "m \<le> s" and "s \<le> t" and "0 < m"
  shows "penalised m t \<le> penalised m s"
proof -
  have "(s - m) * (s - m) \<le> (t - m) * (t - m)" using assms by (intro mult_mono) simp_all
  then have "(2 * m - t) * t \<le> (2 * m - s) * s" unfolding penalty_square by simp
  then have "10 ^ 12 * ((2 * m - t) * t) \<le> 10 ^ 12 * ((2 * m - s) * s)" by (intro mult_left_mono) simp_all
  then show ?thesis unfolding penalised_def using assms(3) by (intro zdiv_mono1) simp_all
qed

lemma div_div_exact:
  fixes p m q q' r r' :: int
  assumes "p = m * q + r" "0 \<le> r" "r < m" and "q = m * q' + r'" "0 \<le> r'" "r' < m"
  shows "q' = p div (m * m)"
proof -
  have "p div m = q" using assms(1-3) by (simp add: div_add1_eq)
  moreover have "q div m = q'" using assms(4-6) by (simp add: div_add1_eq)
  moreover have "p div (m * m) = p div m div m" using assms(2,3) by (intro zdiv_zmult2_eq) simp
  ultimately show ?thesis by simp
qed

lemma small_high_word: "2 ^ 64 * h + l = p \<Longrightarrow> p < 10 ^ 12 \<Longrightarrow> 0 \<le> h \<Longrightarrow> 0 \<le> l \<Longrightarrow> h = 0" for h l p :: int
  by simp

lemma block_reward_penalty:
  assumes m: "m = soft_median median" "m < 2 ^ 32" and s: "m < uint s" "uint s \<le> 2 * m" and h: "height \<noteq> 0"
  shows "\<exists>r. block_reward median s height = Reward r \<and> uint r = penalised m (uint s)"
proof -
  define med :: u64 where "med = (if median < CURRENCY_BLOCK_GRANTED_FULL_REWARD_ZONE then CURRENCY_BLOCK_GRANTED_FULL_REWARD_ZONE else median)"
  have med: "uint med = m"
    by (simp add: med_def m(1) soft_median_def CURRENCY_BLOCK_GRANTED_FULL_REWARD_ZONE_def word_less_def)
  have m0: "125000 \<le> m" by (simp add: m(1) soft_median_def)
  let ?base = "get_base_block_reward height"
  have base: "uint ?base = 10 ^ 12" using h by (simp add: get_base_block_reward_def CURRENCY_BLOCK_REWARD_def)
  have two: "uint (2 * med) = 2 * m" using m(2) m0 by (simp add: u64_mult med)
  have sub: "uint (2 * med - s) = 2 * m - uint s"
    using s two by (simp add: uint_sub_if')
  let ?k = "(2 * med - s) * s"
  have "(2 * m - uint s) * uint s \<le> m * m" unfolding penalty_square by simp
  also have "m * m < 2 ^ 32 * 2 ^ 32" using m(2) m0 by (intro mult_strict_mono) simp_all
  finally have "(2 * m - uint s) * uint s < 2 ^ 64" by simp
  moreover have "0 \<le> (2 * m - uint s) * uint s" using s u64_range(1) [of s] by simp
  ultimately have k: "uint ?k = (2 * m - uint s) * uint s" by (simp add: u64_mult sub)
  obtain lo hi where mul: "mul128 ?base ?k = Some (lo, hi)" "2 ^ 64 * uint hi + uint lo = 10 ^ 12 * ((2 * m - uint s) * uint s)"
    using mul128_value [of ?base ?k] base k by auto
  let ?d = "ucast med :: u32"
  have d: "uint ?d = m" using m(2) m0 med by (simp only: unsigned_ucast_eq) (simp add: take_bit_eq_mod)
  then have d0: "?d \<noteq> 0" using m0 by auto
  obtain qh ql r where 1: "div128_32 hi lo ?d = Some (qh, ql, r)" "uint r < m"
    "2 ^ 64 * uint hi + uint lo = m * (2 ^ 64 * uint qh + uint ql) + uint r"
    using div128_32_value [OF d0, of hi lo] d by auto
  obtain ph pl t where 2: "div128_32 qh ql ?d = Some (ph, pl, t)" "uint t < m"
    "2 ^ 64 * uint qh + uint ql = m * (2 ^ 64 * uint ph + uint pl) + uint t"
    using div128_32_value [OF d0, of qh ql] d by auto
  have res: "2 ^ 64 * uint ph + uint pl = penalised m (uint s)"
    unfolding penalised_def mul(2) [symmetric]
    by (rule div_div_exact [OF 1(3) _ 1(2) 2(3) _ 2(2)]) (rule u32_range)+
  note b = penalised_less [OF s]
  have "uint ph = 0" by (rule small_high_word [OF res b(2)]) (rule u64_range)+
  then have ph: "ph = 0" and pl: "uint pl = penalised m (uint s)" using res by (simp_all add: uint_0_iff)
  have "pl < ?base" using pl b(2) base by (simp add: word_less_def)
  moreover have "\<not> s \<le> med" "\<not> 2 * med < s" using s med two by (simp_all add: word_le_def word_less_def)
  ultimately have "block_reward median s height = Reward pl"
    using h mul(1) 1(1) 2(1) ph unfolding block_reward_def Let_def med_def [symmetric] by simp
  with pl show ?thesis by blast
qed

lemma block_reward_cases:
  assumes m: "m = soft_median median" "m < 2 ^ 32" and h: "height \<noteq> 0"
  shows "uint s \<le> m \<Longrightarrow> block_reward median s height = Reward CURRENCY_BLOCK_REWARD"
    and "2 * m < uint s \<Longrightarrow> block_reward median s height = Too_big"
proof -
  define med :: u64 where "med = (if median < CURRENCY_BLOCK_GRANTED_FULL_REWARD_ZONE then CURRENCY_BLOCK_GRANTED_FULL_REWARD_ZONE else median)"
  have med: "uint med = m"
    by (simp add: med_def m(1) soft_median_def CURRENCY_BLOCK_GRANTED_FULL_REWARD_ZONE_def word_less_def)
  have m0: "125000 \<le> m" by (simp add: m(1) soft_median_def)
  have two: "uint (2 * med) = 2 * m" using m(2) m0 by (simp add: u64_mult med)
  show "uint s \<le> m \<Longrightarrow> block_reward median s height = Reward CURRENCY_BLOCK_REWARD"
    using h med by (simp add: block_reward_def Let_def med_def [symmetric] word_le_def get_base_block_reward_def)
  assume "2 * m < uint s"
  then have "\<not> s \<le> med" "2 * med < s" using med two m0 by (simp_all add: word_le_def word_less_def)
  then show "block_reward median s height = Too_big"
    using h unfolding block_reward_def Let_def med_def [symmetric] by simp
qed

text \<open>The reward as a function of the numbers: what the two versions promise.\<close>

definition reward_spec :: "int \<Rightarrow> int \<Rightarrow> int" where
  "reward_spec m s = (if s \<le> m then 10 ^ 12 else if s \<le> 2 * m then penalised m s else 0)"

lemma get_block_reward_spec:
  assumes "soft_median median < 2 ^ 32" and "height \<noteq> 0"
  shows "uint (get_block_reward height median s) = reward_spec (soft_median median) (uint s)"
proof -
  let ?m = "soft_median median"
  note c = block_reward_cases [OF refl assms, of s]
  have "0 < ?m" by (simp add: soft_median_def)
  then consider "uint s \<le> ?m" | "?m < uint s" "uint s \<le> 2 * ?m" | "2 * ?m < uint s" "?m < uint s"
    by linarith
  then show ?thesis
  proof cases
    case 1
    then show ?thesis using c(1) by (simp add: get_block_reward_def reward_spec_def CURRENCY_BLOCK_REWARD_def)
  next
    case 2
    then show ?thesis using block_reward_penalty [OF refl assms(1) 2 assms(2)]
      by (auto simp: get_block_reward_def reward_spec_def)
  next
    case 3
    then show ?thesis using c(2) by (simp add: get_block_reward_def reward_spec_def)
  qed
qed

lemma reward_spec_antimono:
  assumes "0 < m" and "s \<le> t"
  shows "reward_spec m t \<le> reward_spec m s"
proof -
  have "penalised m t \<le> penalised m s" if "m < s" using that assms by (intro penalised_antimono) simp_all
  moreover have "penalised m t < 10 ^ 12" "0 \<le> penalised m t" if "m < t" "t \<le> 2 * m"
    using penalised_less [OF that] by simp_all
  moreover have "0 \<le> penalised m s" if "m < s" "s \<le> 2 * m" using penalised_less [OF that] by simp
  ultimately show ?thesis using assms by (auto simp: reward_spec_def not_le)
qed


section \<open>Properties\<close>

text \<open>
  C40 (block_reward_formula). For a block after the genesis and a median that fits 32 bits, the penalised
  reward is computed exactly: a block no larger than the median (raised to the granted zone) earns the base
  reward, one larger than twice the median is refused, and one in between earns the base reward times
  (2m - s) s / m^2, rounded down once although the code divides twice; no assertion fails.
\<close>

theorem block_reward_formula:
  assumes "soft_median median < 2 ^ 32" and "height \<noteq> 0"
  shows "block_reward median s height =
    (if uint s \<le> soft_median median then Reward CURRENCY_BLOCK_REWARD
     else if 2 * soft_median median < uint s then Too_big
     else Reward (word_of_int (10 ^ 12 * ((2 * soft_median median - uint s) * uint s)
                               div (soft_median median * soft_median median))))"
proof -
  let ?m = "soft_median median"
  have "\<exists>r. block_reward median s height = Reward r \<and> uint r = penalised ?m (uint s)"
    if "?m < uint s" "uint s \<le> 2 * ?m" by (rule block_reward_penalty [OF refl assms(1) that assms(2)])
  then have "block_reward median s height = Reward (word_of_int (penalised ?m (uint s)))"
    if "?m < uint s" "uint s \<le> 2 * ?m" using that by (metis word_of_int_uint)
  then show ?thesis using block_reward_cases [OF refl assms, of s] unfolding penalised_def by auto
qed

theorem block_reward_formula_witness:
  "block_reward 100000 187500 7 = Reward 750000000000"
  using block_reward_formula [of 100000 7 187500] by (simp add: soft_median_def)

text \<open>
  Enlarging a block never increases the reward that
  \<^verbatim>\<open>get_block_reward\<close> grants, and the reward is never more than the base reward.
\<close>

theorem get_block_reward_antimono:
  assumes "soft_median median < 2 ^ 32" and "height \<noteq> 0" and "s \<le> t"
  shows "get_block_reward height median t \<le> get_block_reward height median s
    \<and> get_block_reward height median s \<le> get_base_block_reward height"
proof -
  let ?m = "soft_median median"
  have m: "0 < ?m" by (simp add: soft_median_def)
  have "reward_spec ?m (uint s) \<le> 10 ^ 12"
    using penalised_less(2) [of ?m "uint s"] by (auto simp: reward_spec_def)
  then show ?thesis
    using reward_spec_antimono [OF m, of "uint s" "uint t"] assms
    by (simp add: word_le_def get_block_reward_spec get_base_block_reward_def CURRENCY_BLOCK_REWARD_def)
qed

theorem get_block_reward_antimono_witness:
  "get_block_reward 7 100000 187501 \<le> get_block_reward 7 100000 187500
    \<and> get_block_reward 7 100000 187500 \<le> get_base_block_reward 7"
  by (rule get_block_reward_antimono) (simp_all add: soft_median_def word_le_def)

end
