(* ===== verification/Difficulty.thy ===== *)
theory Difficulty
  imports Int_Util Crypto_Bytes "HOL-Library.Multiset"
begin

text \<open>
  Proof-of-work difficulty: \<^verbatim>\<open>src/src/currency_core/difficulty.cpp\<close> with the constants of
  \<^verbatim>\<open>src/src/currency_core/currency_config.h\<close>. The fixed-width unsigned integers of
  Boost.Multiprecision (\<^verbatim>\<open>uint128_t\<close>, \<^verbatim>\<open>uint256_t\<close>, \<^verbatim>\<open>uint512_t\<close>,
  whose unchecked arithmetic is documented to be modulo the width) are words of these widths;
  sizes and indices are 64-bit words (\<^verbatim>\<open>size_t\<close>). Division by zero throws.
\<close>

type_synonym u128 = "128 word"
type_synonym u256 = "256 word"
type_synonym u512 = "512 word"

section \<open>Definitions\<close>

subsection \<open>The proof-of-work test\<close>

definition mul :: "u64 \<Rightarrow> u64 \<Rightarrow> u64 \<times> u64" where
  "mul a b = (let res = (ucast a :: u128) * ucast b in
     (ucast (res AND 0xffffffffffffffff), ucast (drop_bit 64 res)))"

definition cadd :: "u64 \<Rightarrow> u64 \<Rightarrow> bool" where
  "cadd a b = (a + b < a)"

definition cadc :: "u64 \<Rightarrow> u64 \<Rightarrow> bool \<Rightarrow> bool" where
  "cadc a b c = (a + b < a \<or> (c \<and> a + b = - 1))"

definition max64bit :: u128 where
  "max64bit = 2 ^ 64 - 1"

definition max128bit :: u256 where
  "max128bit = 2 ^ 128 - 1"

definition max256bit :: u512 where
  "max256bit = 2 ^ 256 - 1"

text \<open>Word \<open>i\<close> of the reversed hash, read as the little-endian number that \<^verbatim>\<open>swap64le\<close> gives.\<close>

definition hash_word :: "bytes \<Rightarrow> nat \<Rightarrow> u64" where
  "hash_word h i = word_of_int (le_value (take 8 (drop (8 * i) h)))"

definition check_hash :: "bytes \<Rightarrow> u128 \<Rightarrow> bool" where
  "check_hash hash1 difficulty =
     (let h = rev hash1 in
      if difficulty < max64bit then
        let dl = ucast difficulty;
            (top, high) = mul (hash_word h 3) dl in
        if high \<noteq> 0 then False
        else
          let (low, cur) = mul (hash_word h 0) dl;
              (low, high) = mul (hash_word h 1) dl;
              carry = cadd cur low;
              cur = high;
              (low, high) = mul (hash_word h 2) dl;
              carry = cadc cur low carry;
              carry = cadc high top carry in
          \<not> carry
      else if hash_word h 3 > 0 then False
      else
        let hashVal = fold (\<lambda>i hashVal. push_bit 64 hashVal OR ucast (hash_word h (3 - i))) [0..<4] (0 :: u512) in
        hashVal * ucast difficulty \<le> max256bit)"

subsection \<open>The largest hash a difficulty admits\<close>

definition difficulty_to_boundary :: "u128 \<Rightarrow> u64 option" where
  "difficulty_to_boundary difficulty =
     (if difficulty = 0 then None
      else let nominal_hash = (- 1 :: u256) div ucast difficulty in Some (ucast (drop_bit 192 nominal_hash)))"

definition difficulty_to_boundary_long :: "u128 \<Rightarrow> bytes option" where
  "difficulty_to_boundary_long difficulty =
     (if difficulty = 0 then None
      else let nominal_hash = (- 1 :: u256) div ucast difficulty in
        Some (fst (fold (\<lambda>i (result, nominal_hash).
                (result @ le_bytes 8 (uint (ucast nominal_hash :: u64)), drop_bit 64 nominal_hash))
              [0..<4] ([], nominal_hash))))"

subsection \<open>Retargeting\<close>

definition DIFFICULTY_WINDOW :: u64 where
  "DIFFICULTY_WINDOW = 720"

definition DIFFICULTY_CUT :: u64 where
  "DIFFICULTY_CUT = 60"

text \<open>A call returns, throws, or has undefined behaviour (an index out of range).\<close>

datatype 'a retarget = Returns 'a | Throws | Undefined

definition get_cut_location_from_len :: "u64 \<Rightarrow> u64 \<Rightarrow> u64 \<Rightarrow> u64 \<Rightarrow> u64 \<times> u64" where
  "get_cut_location_from_len len WINDOW CUT_OLD CUT_LAST =
     (if len \<le> WINDOW then (0, len)
      else let cut_begin = WINDOW - CUT_LAST + 1 in
        (cut_begin, cut_begin + (WINDOW - (CUT_OLD + CUT_LAST))))"

definition get_adjustment_zone :: "u64 \<Rightarrow> u64 \<Rightarrow> u64 \<Rightarrow> u64 \<Rightarrow> (u64 \<times> u64) retarget" where
  "get_adjustment_zone len WINDOW CUT_OLD CUT_LAST =
     (let (cut_begin, cut_end) =
        (if len \<le> WINDOW - (CUT_OLD + CUT_LAST) then (0, len)
         else let cut_begin = CUT_LAST;
                  cut_end = cut_begin + (WINDOW - (CUT_OLD + CUT_LAST)) in
              (cut_begin, if cut_end > len then len else cut_end)) in
      if cut_begin + 2 \<le> cut_end \<and> cut_end \<le> len then Returns (cut_begin, cut_end) else Throws)"

definition get_adjustment_for_zone ::
  "u64 list \<Rightarrow> u128 list \<Rightarrow> u64 \<Rightarrow> u64 \<Rightarrow> u64 \<Rightarrow> u64 \<Rightarrow> u128 retarget" where
  "get_adjustment_for_zone timestamps_sorted cumulative_difficulties target_seconds WINDOW CUT_OLD CUT_LAST =
     (case get_adjustment_zone (of_nat (length timestamps_sorted)) WINDOW CUT_OLD CUT_LAST of
        Throws \<Rightarrow> Throws
      | Undefined \<Rightarrow> Undefined
      | Returns (cut_begin, cut_end) \<Rightarrow>
        (case (idx timestamps_sorted (unat cut_begin), idx timestamps_sorted (unat (cut_end - 1)),
               idx cumulative_difficulties (unat cut_begin), idx cumulative_difficulties (unat (cut_end - 1))) of
           (Some t, Some t', Some c, Some c') \<Rightarrow>
             let time_span = t - t';
                 time_span = (if time_span = 0 then 1 else time_span);
                 total_work = c - c';
                 res = ((ucast total_work :: u256) * ucast target_seconds + ucast time_span - 1) div ucast time_span in
             if res > max128bit then Returns 0 else Returns (ucast res)
         | _ \<Rightarrow> Undefined))"

text \<open>\<^verbatim>\<open>vector::resize\<close>: cut, or filled with zeros.\<close>

definition resize :: "nat \<Rightarrow> 'a::zero list \<Rightarrow> 'a list" where
  "resize n xs = take n xs @ replicate (n - length xs) 0"

definition trim_window :: "u64 list \<Rightarrow> u128 list \<Rightarrow> u64 list \<times> u128 list" where
  "trim_window timestamps cumulative_difficulties =
     (if length timestamps > unat DIFFICULTY_WINDOW
      then (resize (unat DIFFICULTY_WINDOW) timestamps, resize (unat DIFFICULTY_WINDOW) cumulative_difficulties)
      else (timestamps, cumulative_difficulties))"

text \<open>
  Both versions take the vectors by reference: the result carries the new difficulty and the
  vectors as they are left, cut to the window and sorted, the latest time first.
\<close>

definition next_difficulty_1 ::
  "u64 list \<Rightarrow> u128 list \<Rightarrow> u64 \<Rightarrow> u128 \<Rightarrow> (u128 \<times> u64 list \<times> u128 list) retarget" where
  "next_difficulty_1 timestamps cumulative_difficulties target_seconds difficulty_starter =
     (let (timestamps, cumulative_difficulties) = trim_window timestamps cumulative_difficulties in
      if length timestamps \<noteq> length cumulative_difficulties then Returns (0, timestamps, cumulative_difficulties)
      else if length timestamps \<le> 1 then Returns (difficulty_starter, timestamps, cumulative_difficulties)
      else if length timestamps > unat DIFFICULTY_WINDOW then Returns (0, timestamps, cumulative_difficulties)
      else
        let timestamps = rev (sort timestamps);
            zone = get_adjustment_for_zone timestamps cumulative_difficulties target_seconds in
        (case zone DIFFICULTY_WINDOW (DIFFICULTY_CUT div 2) (DIFFICULTY_CUT div 2) of
           Throws \<Rightarrow> Throws | Undefined \<Rightarrow> Undefined
         | Returns dif_slow \<Rightarrow>
        (case zone (DIFFICULTY_WINDOW div 3) (DIFFICULTY_CUT div 8) (DIFFICULTY_CUT div 12) of
           Throws \<Rightarrow> Throws | Undefined \<Rightarrow> Undefined
         | Returns dif_medium \<Rightarrow>
        (case zone (DIFFICULTY_WINDOW div 18) (DIFFICULTY_CUT div 10) 2 of
           Throws \<Rightarrow> Throws | Undefined \<Rightarrow> Undefined
         | Returns dif_fast \<Rightarrow>
           let (summ, devider) = (dif_slow, 1 :: u64);
               (summ, devider) = (if dif_medium \<noteq> 0 then (summ + dif_medium, devider + 1) else (summ, devider));
               (summ, devider) = (if dif_fast \<noteq> 0 then (summ + dif_fast, devider + 1) else (summ, devider)) in
           Returns (summ div ucast devider, timestamps, cumulative_difficulties)))))"

definition next_difficulty_2 ::
  "u64 list \<Rightarrow> u128 list \<Rightarrow> u64 \<Rightarrow> u128 \<Rightarrow> (u128 \<times> u64 list \<times> u128 list) retarget" where
  "next_difficulty_2 timestamps cumulative_difficulties target_seconds difficulty_starter =
     (let (timestamps, cumulative_difficulties) = trim_window timestamps cumulative_difficulties in
      if length timestamps \<noteq> length cumulative_difficulties then Returns (0, timestamps, cumulative_difficulties)
      else if length timestamps \<le> 1 then Returns (difficulty_starter, timestamps, cumulative_difficulties)
      else if length timestamps > unat DIFFICULTY_WINDOW then Returns (0, timestamps, cumulative_difficulties)
      else
        let timestamps = rev (sort timestamps);
            zone = get_adjustment_for_zone timestamps cumulative_difficulties target_seconds in
        (case zone DIFFICULTY_WINDOW (DIFFICULTY_CUT div 2) (DIFFICULTY_CUT div 2) of
           Throws \<Rightarrow> Throws | Undefined \<Rightarrow> Undefined
         | Returns dif_slow \<Rightarrow>
        (case zone (DIFFICULTY_WINDOW div 3) (DIFFICULTY_CUT div 8) (DIFFICULTY_CUT div 12) of
           Throws \<Rightarrow> Throws | Undefined \<Rightarrow> Undefined
         | Returns dif_medium \<Rightarrow>
           let (summ, devider) = (dif_slow, 1 :: u64);
               (summ, devider) = (if dif_medium \<noteq> 0 then (summ + dif_medium, devider + 1) else (summ, devider)) in
           Returns (summ div ucast devider, timestamps, cumulative_difficulties))))"


section \<open>Width changes\<close>

lemma widen:
  "uint (ucast (x :: u64) :: u128) = uint x" "uint (ucast (x :: u64) :: u256) = uint x"
  "uint (ucast (x :: u64) :: u512) = uint x" "uint (ucast (y :: u128) :: u256) = uint y"
  "uint (ucast (y :: u128) :: u512) = uint y"
  by (simp_all add: uint_up_ucast is_up)

lemma u128_range: "0 \<le> uint (x :: u128)" "uint (x :: u128) < 2 ^ 128"
  using uint_lt2p [of x] by simp_all

lemma uint_narrow:
  fixes x :: "'a::len word"
  assumes "uint x < 2 ^ LENGTH('b::len)"
  shows "uint (ucast x :: 'b word) = uint x"
  using assms by (simp add: unsigned_ucast_eq take_bit_int_eq_self)

lemma uint_drop: "uint (drop_bit n x :: 'a::len word) = uint x div 2 ^ n"
  by (simp only: uint_nat unat_drop_bit_eq) (simp add: drop_bit_eq_div zdiv_int)

lemma uint_mult_small:
  fixes x y :: "'a::len word"
  assumes "uint x * uint y < 2 ^ LENGTH('a)"
  shows "uint (x * y) = uint x * uint y"
  using assms by (simp add: uint_word_ariths)


section \<open>The proof-of-work test decides a product\<close>

lemma mul_value:
  assumes "mul a b = (lo, hi)"
  shows "uint a * uint b = 2 ^ 64 * uint hi + uint lo"
proof -
  let ?p = "ucast a * ucast b :: u128"
  have eq: "lo = ucast (take_bit 64 ?p)" "hi = ucast (drop_bit 64 ?p)"
    using assms by (auto simp: mul_def Let_def take_bit_eq_mask mask_eq_exp_minus_1)
  have le: "uint a * uint b \<le> (2 ^ 64 - 1) * (2 ^ 64 - 1)"
    using u64_range [of a] u64_range [of b] by (intro mult_mono) simp_all
  then have p: "uint ?p = uint a * uint b" by (subst uint_mult_small) (simp_all add: widen)
  have "uint lo = uint a * uint b mod 2 ^ 64"
    unfolding eq(1) by (simp only: unsigned_ucast_eq unsigned_take_bit_eq p) (simp add: take_bit_eq_mod)
  moreover have "uint hi = uint a * uint b div 2 ^ 64"
    unfolding eq(2) using le by (subst uint_narrow) (simp_all add: uint_drop p zdiv_upper)
  ultimately show ?thesis by simp
qed

lemma cadd_carry: "cadd a b \<longleftrightarrow> 2 ^ 64 \<le> uint a + uint b"
  using carry_add [of a b] u64_range [of "a + b"] by (simp add: cadd_def split: if_splits)

lemma cadc_carry: "cadc a b c \<longleftrightarrow> 2 ^ 64 \<le> uint a + uint b + of_bool c"
proof -
  have "a + b = - 1 \<longleftrightarrow> uint (a + b) = 2 ^ 64 - 1" by (simp add: word_uint_eq_iff uint_word_ariths)
  then show ?thesis
    using carry_add [of a b] u64_range [of "a + b"] by (cases c) (auto simp: cadc_def split: if_splits)
qed

lemma le_value_word:
  assumes "length h = n + 8"
  shows "le_value h = uint (hash_word h 0) + 2 ^ 64 * le_value (drop 8 h)"
proof -
  have "le_value (take 8 h) < 2 ^ 64" using le_value_upper [of "take 8 h"] assms by simp
  then have "uint (hash_word h 0) = le_value (take 8 h)" by (simp add: hash_word_def uint_word_of_int)
  moreover have "le_value h = le_value (take 8 h) + 256 ^ 8 * le_value (drop 8 h)"
    using le_value_append [of "take 8 h" "drop 8 h"] assms by simp
  ultimately show ?thesis by simp
qed

lemma hash_word_drop: "hash_word (drop 8 h) i = hash_word h (Suc i)"
  by (simp add: hash_word_def add.commute)

lemma product_carries:
  fixes l0 c0 l1 h1 l2 h2 l3 :: int
  assumes "0 \<le> l0" "l0 < 2 ^ 64" "0 \<le> c0 + l1" "0 \<le> h1 + l2" "0 \<le> h2 + l3"
    and "c0 + l1 < 2 ^ 65" "h1 + l2 < 2 ^ 65 - 1" 
  shows "l0 + 2 ^ 64 * (c0 + l1) + 2 ^ 128 * (h1 + l2) + 2 ^ 192 * (h2 + l3) < 2 ^ 256 \<longleftrightarrow>
    \<not> 2 ^ 64 \<le> h2 + l3 + of_bool (2 ^ 64 \<le> h1 + l2 + of_bool (2 ^ 64 \<le> c0 + l1))"
  using assms by (auto simp: of_bool_def)

text \<open>The number a hash stands for, most significant byte first.\<close>

definition hash_number :: "bytes \<Rightarrow> int" where
  "hash_number h = le_value (rev h)"

lemma hash_number_range: "length h = 32 \<Longrightarrow> hash_number h < 2 ^ 256" "0 \<le> hash_number h"
  using le_value_upper [of "rev h"] by (simp_all add: hash_number_def)

lemma hash_number_words:
  assumes "length h = 32"
  shows "hash_number h = uint (hash_word (rev h) 0) + 2 ^ 64 * uint (hash_word (rev h) 1)
    + 2 ^ 128 * uint (hash_word (rev h) 2) + 2 ^ 192 * uint (hash_word (rev h) 3)"
proof -
  have "le_value h = uint (hash_word h 0) + 2 ^ 64 * (uint (hash_word h 1) + 2 ^ 64 *
      (uint (hash_word h 2) + 2 ^ 64 * (uint (hash_word h 3) + 2 ^ 64 * le_value (drop 32 h))))"
    if "length h = 32" for h
    using that le_value_word [of h 24] le_value_word [of "drop 8 h" 16] le_value_word [of "drop 16 h" 8]
      le_value_word [of "drop 24 h" 0] hash_word_drop [of h] hash_word_drop [of "drop 8 h"] hash_word_drop [of "drop 16 h"]
    by (simp add: numeral_2_eq_2 numeral_3_eq_3)
  from this [of "rev h"] assms show ?thesis by (simp add: hash_number_def)
qed

lemma high_part:
  fixes a b c d t :: int
  assumes "1 \<le> t" "0 \<le> a" "0 \<le> b" "0 \<le> c" "0 \<le> d"
  shows "\<not> a + 2 ^ 64 * b + 2 ^ 128 * c + 2 ^ 192 * d + 2 ^ 256 * t < 2 ^ 256"
  using assms by simp

lemma uint_minus_one: "uint x = 2 ^ 64 - 1 \<longleftrightarrow> x = - 1" for x :: u64
  by (simp add: word_uint_eq_iff uint_word_ariths)

lemma check_hash_small:
  assumes len: "length h = 32" and d: "d < max64bit"
  shows "check_hash h d \<longleftrightarrow> hash_number h * uint d < 2 ^ 256"
proof -
  let ?w = "hash_word (rev h)"
  define dl :: u64 where "dl = ucast d"
  have "uint d < 2 ^ 64" using d by (simp add: word_less_def max64bit_def)
  then have dl: "uint dl = uint d" unfolding dl_def by (intro uint_narrow) simp
  obtain top high where m3: "mul (?w 3) dl = (top, high)" by fastforce
  obtain l0 c0 where m0: "mul (?w 0) dl = (l0, c0)" by fastforce
  obtain l1 h1 where m1: "mul (?w 1) dl = (l1, h1)" by fastforce
  obtain l2 h2 where m2: "mul (?w 2) dl = (l2, h2)" by fastforce
  note v = mul_value [OF m0] mul_value [OF m1] mul_value [OF m2] mul_value [OF m3]
  note r = u64_range [of l0] u64_range [of c0] u64_range [of l1] u64_range [of h1] u64_range [of l2] u64_range [of h2]
    u64_range [of top] u64_range [of high]
  have H: "hash_number h * uint d = uint l0 + 2 ^ 64 * (uint c0 + uint l1) + 2 ^ 128 * (uint h1 + uint l2)
      + 2 ^ 192 * (uint h2 + uint top) + 2 ^ 256 * uint high"
    unfolding hash_number_words [OF len] distrib_right mult.assoc dl [symmetric] v
    by (simp add: algebra_simps)
  have c: "check_hash h d \<longleftrightarrow> high = 0 \<and> \<not> cadc h2 top (cadc h1 l2 (cadd c0 l1))"
    using d by (simp add: check_hash_def Let_def dl_def [symmetric] m0 m1 [unfolded One_nat_def] m2 m3)
  show ?thesis
  proof (cases "high = 0")
    case True
    have "h1 \<noteq> - 1"
    proof
      assume "h1 = - 1"
      then have "uint h1 = 2 ^ 64 - 1" by (simp only: uint_minus_one)
      moreover have "uint (?w 1) * uint dl \<le> (2 ^ 64 - 1) * (2 ^ 64 - 1)"
        using u64_range [of "?w 1"] u64_range [of dl] by (intro mult_mono) simp_all
      ultimately show False using v(2) r by simp
    qed
    then have "uint h1 \<noteq> 2 ^ 64 - 1" by (metis uint_minus_one)
    then have "uint h1 + uint l2 < 2 ^ 65 - 1" using r(8,10) by simp
    then have "hash_number h * uint d < 2 ^ 256 \<longleftrightarrow> \<not> 2 ^ 64 \<le> uint h2 + uint top
        + of_bool (2 ^ 64 \<le> uint h1 + uint l2 + of_bool (2 ^ 64 \<le> uint c0 + uint l1))"
      unfolding H True using r by (subst product_carries [symmetric]) simp_all
    then show ?thesis unfolding c cadd_carry cadc_carry using True by simp
  next
    case False
    then have "1 \<le> uint high" using r(15) uint_0_iff [of high] by linarith
    then show ?thesis unfolding c H using False high_part [of "uint high" "uint l0" "uint c0 + uint l1" "uint h1 + uint l2" "uint h2 + uint top"]
      by (simp only: r add_nonneg_nonneg) simp
  qed
qed

lemma le_pred: "x \<le> 115792089237316195423570985008687907853269984665640564039457584007913129639935
    \<longleftrightarrow> x < 115792089237316195423570985008687907853269984665640564039457584007913129639936" for x :: int
  by linarith

lemma join_words:
  fixes x y :: "'a::len word"
  assumes "2 ^ n * uint x < 2 ^ LENGTH('a)" and "uint y < 2 ^ n"
  shows "uint (push_bit n x OR y) = 2 ^ n * uint x + uint y"
proof -
  have "uint (push_bit n x) = 2 ^ n * uint x"
  proof -
    have "uint (push_bit n x) = take_bit LENGTH('a) (push_bit n (uint x))" by (rule unsigned_push_bit_eq)
    also have "push_bit n (uint x) = 2 ^ n * uint x" by (simp add: push_bit_eq_mult mult.commute)
    finally show ?thesis using assms(1) by (simp only: take_bit_int_eq_self uint_ge_0 zero_le_power zero_le_numeral mult_nonneg_nonneg)
  qed
  then show ?thesis
    using assms(2) by (simp only: unsigned_or_eq or.commute [of _ "uint y"]) (simp add: int_or_shift)
qed

lemma top_word:
  fixes a b c d :: int
  assumes "0 \<le> a" "a < 2 ^ 64" "0 \<le> b" "b < 2 ^ 64" "0 \<le> c" "c < 2 ^ 64" "0 \<le> d"
  shows "a + 2 ^ 64 * b + 2 ^ 128 * c + 2 ^ 192 * d < 2 ^ 192 \<longleftrightarrow> \<not> 0 < d"
  using assms by (cases "0 < d") simp_all

lemma check_hash_large:
  assumes len: "length h = 32" and d: "\<not> d < max64bit"
  shows "check_hash h d \<longleftrightarrow> hash_number h < 2 ^ 192 \<and> hash_number h * uint d < 2 ^ 256"
proof -
  let ?w = "hash_word (rev h)"
  note r = u64_range [of "?w 0"] u64_range [of "?w 1"] u64_range [of "?w 2"] u64_range [of "?w 3"]
  note H = hash_number_words [OF len]
  define v1 :: u512 where "v1 = push_bit 64 0 OR ucast (?w 3)"
  define v2 where "v2 = push_bit 64 v1 OR ucast (?w 2)"
  define v3 where "v3 = push_bit 64 v2 OR ucast (?w 1)"
  define v4 where "v4 = push_bit 64 v3 OR ucast (?w 0)"
  have 1: "uint v1 = uint (?w 3)" by (simp add: v1_def widen)
  have 2: "uint v2 = 2 ^ 64 * uint (?w 3) + uint (?w 2)"
    unfolding v2_def using r by (subst join_words) (simp_all add: 1 widen)
  have 3: "uint v3 = 2 ^ 64 * (2 ^ 64 * uint (?w 3) + uint (?w 2)) + uint (?w 1)"
    unfolding v3_def using r by (subst join_words) (simp_all add: 2 widen)
  have 4: "uint v4 = hash_number h"
    unfolding v4_def H using r by (subst join_words) (simp_all add: 3 widen)
  have top: "\<not> ?w 3 > 0 \<longleftrightarrow> hash_number h < 2 ^ 192"
    unfolding H using r by (subst top_word) (simp_all add: word_less_def)
  have "hash_number h * uint d \<le> 2 ^ 256 * 2 ^ 128"
    using hash_number_range [of h] len u128_range [of d] by (intro mult_mono) simp_all
  then have "uint (v4 * ucast d) = hash_number h * uint d"
    by (subst uint_mult_small) (simp_all add: 4 widen)
  then have "v4 * ucast d \<le> max256bit \<longleftrightarrow> hash_number h * uint d < 2 ^ 256"
    by (simp add: word_le_def max256bit_def le_pred)
  moreover have "check_hash h d \<longleftrightarrow> \<not> ?w 3 > 0 \<and> v4 * ucast d \<le> max256bit"
    using d by (simp add: check_hash_def Let_def v1_def v2_def v3_def v4_def upt_rec)
  ultimately show ?thesis using top by simp
qed

lemma check_hash_number:
  assumes "length h = 32" and "d \<noteq> max64bit"
  shows "check_hash h d \<longleftrightarrow> hash_number h * uint d < 2 ^ 256"
proof (cases "d < max64bit")
  case True
  then show ?thesis by (rule check_hash_small [OF assms(1)])
next
  case False
  then have "2 ^ 64 \<le> uint d" using assms(2) by (simp add: word_less_def max64bit_def word_uint_eq_iff)
  then have "hash_number h * 2 ^ 64 \<le> hash_number h * uint d"
    using hash_number_range(2) by (intro mult_left_mono) simp_all
  then have "hash_number h * uint d < 2 ^ 256 \<Longrightarrow> hash_number h < 2 ^ 192" by simp
  then show ?thesis using check_hash_large [OF assms(1) False] by blast
qed


section \<open>The boundary\<close>

lemma le_bytes_append: "le_bytes (m + n) v = le_bytes m v @ le_bytes n (v div 256 ^ m)"
  by (induction m arbitrary: v) (simp_all add: zdiv_zmult2_eq)

lemma le_bytes_cong8: "v mod 2 ^ 64 = w mod 2 ^ 64 \<Longrightarrow> le_bytes 8 v = le_bytes 8 w"
  using le_bytes_le_value [of "le_bytes 8 v"] le_bytes_le_value [of "le_bytes 8 w"]
  by (simp add: le_value_le_bytes)

definition max_hash :: "u128 \<Rightarrow> int" where
  "max_hash d = (2 ^ 256 - 1) div uint d"

lemma le_div_iff: "0 < d \<Longrightarrow> x \<le> n div d \<longleftrightarrow> x * d \<le> n" for x n d :: int
proof
  assume "0 < d" "x \<le> n div d"
  then have "d * x \<le> d * (n div d)" by simp
  also have "\<dots> \<le> n" by (rule div_bounds(1) [OF \<open>0 < d\<close>])
  finally show "x * d \<le> n" by (simp add: mult.commute)
next
  assume "0 < d" "x * d \<le> n"
  then show "x \<le> n div d" using zdiv_mono1 [of "x * d" n d] by simp
qed

lemma max_hash_range:
  assumes "d \<noteq> 0"
  shows "0 \<le> max_hash d" and "max_hash d < 2 ^ 256"
proof -
  have d: "0 < uint d" using assms u128_range(1) [of d] uint_0_iff [of d] by linarith
  show "0 \<le> max_hash d" unfolding max_hash_def using d by (simp add: pos_imp_zdiv_nonneg_iff)
  have "max_hash d \<le> 2 ^ 256 - 1" unfolding max_hash_def
    using d zdiv_mono2 [of "2 ^ 256 - 1" 1 "uint d"] by simp
  then show "max_hash d < 2 ^ 256" by simp
qed

lemma nominal_hash:
  assumes "d \<noteq> 0"
  shows "uint ((- 1 :: u256) div ucast d) = max_hash d"
proof -
  have "uint (- 1 :: u256) = 2 ^ 256 - 1" by (simp add: unsigned_minus_1_eq_mask mask_eq_exp_minus_1)
  then show ?thesis by (simp only: uint_div_distrib widen max_hash_def)
qed

lemma uint_low64: "uint (ucast x :: u64) = uint x mod 2 ^ 64" for x :: u256
  by (simp add: unsigned_ucast_eq take_bit_eq_mod)

lemma boundary_long_bytes:
  assumes "d \<noteq> 0"
  shows "difficulty_to_boundary_long d = Some (le_bytes 32 (max_hash d))"
proof -
  let ?N = "max_hash d"
  define x0 where "x0 = (- 1 :: u256) div ucast d"
  have x0: "uint x0 = ?N" unfolding x0_def by (rule nominal_hash [OF assms])
  have w: "le_bytes 8 (uint (ucast x :: u64)) = le_bytes 8 (uint x)" for x :: u256
    by (rule le_bytes_cong8) (simp add: uint_low64)
  have "difficulty_to_boundary_long d = Some (le_bytes 8 (uint x0) @ le_bytes 8 (uint x0 div 2 ^ 64)
      @ le_bytes 8 (uint x0 div 2 ^ 64 div 2 ^ 64) @ le_bytes 8 (uint x0 div 2 ^ 64 div 2 ^ 64 div 2 ^ 64))"
    using assms by (simp add: difficulty_to_boundary_long_def x0_def [symmetric] upt_rec w uint_drop [of 64, simplified] del: drop_bit_drop_bit)
  also have "\<dots> = Some (le_bytes 32 (uint x0))"
    using le_bytes_append [of 8 24 "uint x0"] le_bytes_append [of 8 16 "uint x0 div 2 ^ 64"]
      le_bytes_append [of 8 8 "uint x0 div 2 ^ 64 div 2 ^ 64"] by simp
  finally show ?thesis by (simp add: x0)
qed


section \<open>Retargeting\<close>

definition zone_begin :: "nat \<Rightarrow> nat \<Rightarrow> nat \<Rightarrow> nat \<Rightarrow> nat" where
  "zone_begin n w old recent = (if n \<le> w - (old + recent) then 0 else recent)"

definition zone_end :: "nat \<Rightarrow> nat \<Rightarrow> nat \<Rightarrow> nat \<Rightarrow> nat" where
  "zone_end n w old recent = (if n \<le> w - (old + recent) then n else min n (w - old))"

lemma zone_bounds:
  assumes "old + 2 * recent + 2 \<le> w" and "2 \<le> n"
  shows "zone_begin n w old recent + 2 \<le> zone_end n w old recent" and "zone_end n w old recent \<le> n"
  using assms by (auto simp: zone_begin_def zone_end_def)

lemma of_nat_u64_le: "m < 2 ^ 32 \<Longrightarrow> n < 2 ^ 32 \<Longrightarrow> (of_nat m :: u64) \<le> of_nat n \<longleftrightarrow> m \<le> n"
  by (simp add: word_le_nat_alt unat_of_nat)

lemma get_adjustment_zone_nat:
  assumes w: "old + 2 * recent + 2 \<le> w" "w < 2 ^ 31" and n: "2 \<le> n" "n < 2 ^ 31"
  shows "get_adjustment_zone (of_nat n) (of_nat w) (of_nat old) (of_nat recent) =
    Returns (of_nat (zone_begin n w old recent), of_nat (zone_end n w old recent))"
proof -
  have d: "(of_nat w :: u64) - (of_nat old + of_nat recent) = of_nat (w - (old + recent))"
    using w(1) by (simp add: of_nat_diff)
  have e: "(of_nat recent :: u64) + of_nat (w - (old + recent)) = of_nat (w - old)"
    using w(1) by (simp only: of_nat_add [symmetric]) simp
  note le = of_nat_u64_le
  show ?thesis
  proof (cases "n \<le> w - (old + recent)")
    case True
    have "(of_nat 2 :: u64) \<le> of_nat n" "(of_nat n :: u64) \<le> of_nat (w - (old + recent))"
      using True w n by (subst le; simp)+
    then show ?thesis using True
      by (simp add: get_adjustment_zone_def Let_def d zone_begin_def zone_end_def)
  next
    case False
    have z: "recent + 2 \<le> min n (w - old)" "min n (w - old) \<le> n" using zone_bounds [OF w(1) n(1)] False
      by (simp_all add: zone_begin_def zone_end_def)
    have A: "(if (of_nat (w - old) :: u64) > of_nat n then of_nat n else of_nat (w - old)) = (of_nat (min n (w - old)) :: u64)"
    proof -
      have "(of_nat (w - old) :: u64) \<le> of_nat n \<longleftrightarrow> w - old \<le> n" using w n by (intro le) simp_all
      then show ?thesis by (simp only: not_le [symmetric] min_def) auto
    qed
    have "(of_nat (recent + 2) :: u64) \<le> of_nat (min n (w - old))" using z w n by (subst le) simp_all
    moreover have "(of_nat recent :: u64) + 2 = of_nat (recent + 2)" by simp
    ultimately have B: "(of_nat recent :: u64) + 2 \<le> of_nat (min n (w - old))" by (simp only:)
    have C: "(of_nat (min n (w - old)) :: u64) \<le> of_nat n" using z w n by (subst le) simp_all
    have D: "\<not> (of_nat n :: u64) \<le> of_nat (w - (old + recent))" using False w n by (subst le) simp_all
    show ?thesis
      by (simp only: get_adjustment_zone_def Let_def d e A B C D False if_False if_True prod.case simp_thms
          zone_begin_def zone_end_def)
  qed
qed

text \<open>The adjustment is the work of the zone per second, rounded up, times the target.\<close>

definition zone_value :: "u64 \<Rightarrow> u128 \<Rightarrow> u64 \<Rightarrow> u128" where
  "zone_value span work target =
     (let s = (if span = 0 then 1 else uint span); r = (uint work * uint target + s - 1) div s in
      if r < 2 ^ 128 then word_of_int r else 0)"

lemma one_le_uint: "x \<noteq> 0 \<Longrightarrow> 1 \<le> uint x" for x :: u64
  using u64_range(1) [of x] uint_0_iff [of x] by linarith

lemma zone_no_wrap:
  fixes p s :: int
  assumes "0 \<le> p" "p \<le> 2 ^ 128 * 2 ^ 64" "1 \<le> s" "s < 2 ^ 64"
  shows "(p + s - 1) mod 2 ^ 256 = p + s - 1"
  using assms by (intro mod_pos_pos_trivial) simp_all

lemma get_adjustment_for_zone_value:
  assumes w: "old + 2 * recent + 2 \<le> w" "w < 2 ^ 31" and n: "2 \<le> length ts" "length ts < 2 ^ 31" "length cs = length ts"
  defines "b \<equiv> zone_begin (length ts) w old recent" and "e \<equiv> zone_end (length ts) w old recent"
  shows "get_adjustment_for_zone ts cs target (of_nat w) (of_nat old) (of_nat recent) =
    Returns (zone_value (ts ! b - ts ! (e - 1)) (cs ! b - cs ! (e - 1)) target)"
proof -
  note z = zone_bounds [OF w(1) n(1), folded b_def e_def]
  have u: "unat (of_nat b :: u64) = b" "unat (of_nat e - 1 :: u64) = e - 1"
  proof -
    show "unat (of_nat b :: u64) = b" using z n by (simp add: unat_of_nat)
    have "(of_nat e - 1 :: u64) = of_nat (e - 1)" using z by (simp add: of_nat_diff)
    moreover have "unat (of_nat (e - 1) :: u64) = e - 1" using z n(2) by (subst unat_of_nat) simp
    ultimately show "unat (of_nat e - 1 :: u64) = e - 1" by (simp only:)
  qed
  define span where "span = ts ! b - ts ! (e - 1)"
  define s where "s = (if span = 0 then 1 else span)"
  define work where "work = cs ! b - cs ! (e - 1)"
  define res where "res = ((ucast work :: u256) * ucast target + ucast s - 1) div ucast s"
  have s1: "1 \<le> uint s" by (simp add: s_def one_le_uint)
  have "uint work * uint target \<le> 2 ^ 128 * 2 ^ 64"
    using u128_range [of work] u64_range [of target] by (intro mult_mono) simp_all
  then have "uint ((ucast work :: u256) * ucast target + ucast s - 1) = uint work * uint target + uint s - 1"
    using s1 u64_range [of s] zone_no_wrap [of "uint work * uint target" "uint s"] u128_range(1) u64_range(1)
    by (simp add: uint_word_ariths widen)
  then have r: "uint res = (uint work * uint target + uint s - 1) div uint s"
    by (simp add: res_def uint_div_distrib widen)
  have s: "uint s = (if span = 0 then 1 else uint span)" by (simp add: s_def)
  have "get_adjustment_for_zone ts cs target (of_nat w) (of_nat old) (of_nat recent) =
      (if res > max128bit then Returns 0 else Returns (ucast res))"
    unfolding get_adjustment_for_zone_def get_adjustment_zone_nat [OF w n(1,2)] b_def [symmetric] e_def [symmetric]
    using z n(3) by (simp add: u Let_def span_def work_def res_def s_def)
  also have "\<dots> = Returns (zone_value span work target)"
  proof (cases "uint res < 2 ^ 128")
    case True
    then have "\<not> res > max128bit" by (simp add: word_less_def max128bit_def)
    moreover have "(ucast res :: u128) = word_of_int (uint res)" by (rule ucast_eq)
    ultimately show ?thesis using True unfolding zone_value_def Let_def s [symmetric] r [symmetric] by simp
  next
    case False
    then have "res > max128bit" by (simp add: word_less_def max128bit_def)
    then show ?thesis using False by (simp add: zone_value_def Let_def r s [symmetric])
  qed
  finally show ?thesis by (simp add: span_def work_def)
qed


definition zone :: "u64 list \<Rightarrow> u128 list \<Rightarrow> u64 \<Rightarrow> nat \<Rightarrow> nat \<Rightarrow> nat \<Rightarrow> u128" where
  "zone ts cs target w old recent =
     (let b = zone_begin (length ts) w old recent; e = zone_end (length ts) w old recent in
      zone_value (ts ! b - ts ! (e - 1)) (cs ! b - cs ! (e - 1)) target)"

lemma zones:
  assumes "2 \<le> length ts" "length ts \<le> 720" "length cs = length ts"
  shows "get_adjustment_for_zone ts cs target DIFFICULTY_WINDOW (DIFFICULTY_CUT div 2) (DIFFICULTY_CUT div 2)
      = Returns (zone ts cs target 720 30 30)"
    and "get_adjustment_for_zone ts cs target (DIFFICULTY_WINDOW div 3) (DIFFICULTY_CUT div 8) (DIFFICULTY_CUT div 12)
      = Returns (zone ts cs target 240 7 5)"
    and "get_adjustment_for_zone ts cs target (DIFFICULTY_WINDOW div 18) (DIFFICULTY_CUT div 10) 2
      = Returns (zone ts cs target 40 6 2)"
proof -
  have c: "DIFFICULTY_WINDOW = of_nat 720" "DIFFICULTY_CUT div 2 = of_nat 30" "DIFFICULTY_WINDOW div 3 = of_nat 240"
    "DIFFICULTY_CUT div 8 = of_nat 7" "DIFFICULTY_CUT div 12 = of_nat 5" "DIFFICULTY_WINDOW div 18 = of_nat 40"
    "DIFFICULTY_CUT div 10 = of_nat 6"
    by (simp_all add: DIFFICULTY_WINDOW_def DIFFICULTY_CUT_def)
  have two: "(2 :: u64) = of_nat 2" by simp
  note v = get_adjustment_for_zone_value [where ts = ts and cs = cs and target = target, folded zone_def [unfolded Let_def]]
  show "get_adjustment_for_zone ts cs target DIFFICULTY_WINDOW (DIFFICULTY_CUT div 2) (DIFFICULTY_CUT div 2)
      = Returns (zone ts cs target 720 30 30)" unfolding c by (rule v) (use assms in simp_all)
  show "get_adjustment_for_zone ts cs target (DIFFICULTY_WINDOW div 3) (DIFFICULTY_CUT div 8) (DIFFICULTY_CUT div 12)
      = Returns (zone ts cs target 240 7 5)" unfolding c(2-) by (rule v) (use assms in simp_all)
  show "get_adjustment_for_zone ts cs target (DIFFICULTY_WINDOW div 18) (DIFFICULTY_CUT div 10) 2
      = Returns (zone ts cs target 40 6 2)" unfolding c(2-) two by (rule v) (use assms in simp_all)
qed

lemma window: "unat DIFFICULTY_WINDOW = 720"
  by (simp add: DIFFICULTY_WINDOW_def)

lemma trim_window_length: "trim_window ts cs = (ts', cs') \<Longrightarrow> length ts' \<le> 720"
  by (auto simp: trim_window_def resize_def window split: if_splits)

text \<open>The mean of the adjustments, a later one counting only when it is not zero.\<close>

fun mean_nonzero :: "u128 \<Rightarrow> u128 list \<Rightarrow> u64 \<Rightarrow> u128" where
  "mean_nonzero summ [] devider = summ div ucast devider"
| "mean_nonzero summ (x # xs) devider =
     (if x \<noteq> 0 then mean_nonzero (summ + x) xs (devider + 1) else mean_nonzero summ xs devider)"

lemma next_difficulty_value:
  assumes "trim_window ts cs = (ts', cs')" and "length cs' = length ts'" and "2 \<le> length ts'"
  defines "tss \<equiv> rev (sort ts')"
  shows "next_difficulty_1 ts cs target starter = Returns (mean_nonzero (zone tss cs' target 720 30 30)
      [zone tss cs' target 240 7 5, zone tss cs' target 40 6 2] 1, tss, cs')"
    and "next_difficulty_2 ts cs target starter = Returns (mean_nonzero (zone tss cs' target 720 30 30)
      [zone tss cs' target 240 7 5] 1, tss, cs')"
proof -
  have len: "2 \<le> length tss" "length tss \<le> 720" "length cs' = length tss" "length ts' \<le> 720"
    using trim_window_length [OF assms(1)] assms(2,3) by (simp_all add: tss_def)
  note z = zones [OF len(1-3)]
  show "next_difficulty_1 ts cs target starter = Returns (mean_nonzero (zone tss cs' target 720 30 30)
      [zone tss cs' target 240 7 5, zone tss cs' target 40 6 2] 1, tss, cs')"
    using assms(2,3) len(4) unfolding next_difficulty_1_def assms(1) Let_def prod.case tss_def [symmetric] z window
    by simp
  show "next_difficulty_2 ts cs target starter = Returns (mean_nonzero (zone tss cs' target 720 30 30)
      [zone tss cs' target 240 7 5] 1, tss, cs')"
    using assms(2,3) len(4) unfolding next_difficulty_2_def assms(1) Let_def prod.case tss_def [symmetric] z window
    by simp
qed

subsection \<open>Evenly spaced blocks\<close>

definition steady :: "'a::ring_1 \<Rightarrow> 'a \<Rightarrow> nat \<Rightarrow> 'a list" where
  "steady x0 step n = map (\<lambda>i. x0 - of_nat i * step) [0..<n]"

lemma steady_length [simp]: "length (steady x0 step n) = n"
  by (simp add: steady_def)

lemma steady_diff: "b < n \<Longrightarrow> e < n \<Longrightarrow> b \<le> e \<Longrightarrow> steady x0 step n ! b - steady x0 step n ! e = of_nat (e - b) * step"
  by (simp add: steady_def of_nat_diff algebra_simps)

lemma uint_of_nat_mult:
  fixes x :: "'a::len word"
  assumes "int k * uint x < 2 ^ LENGTH('a)"
  shows "uint (of_nat k * x) = int k * uint x"
proof (cases "x = 0")
  case False
  then have "1 \<le> uint x" using uint_ge_0 [of x] uint_0_iff [of x] by linarith
  then have "int k * 1 \<le> int k * uint x" by (intro mult_left_mono) simp_all
  then have "int k < 2 ^ LENGTH('a)" using assms by linarith
  then have "uint (of_nat k :: 'a word) = int k" by (simp add: unsigned_of_nat take_bit_nat_eq_self take_bit_int_eq_self of_nat_less_iff)
  then show ?thesis using assms by (subst uint_mult_small) simp_all
qed simp

lemma zone_value_steady:
  fixes T :: u64 and D :: u128
  assumes T: "T \<noteq> 0" and k: "0 < k" "int k * uint T < 2 ^ 64" "int k * uint D < 2 ^ 128"
  shows "zone_value (of_nat k * T) (of_nat k * D) T = D"
proof -
  have s: "uint (of_nat k * T) = int k * uint T" and w: "uint (of_nat k * D) = int k * uint D"
    using k by (simp_all add: uint_of_nat_mult)
  have p: "0 < int k * uint T" using k(1) one_le_uint [OF T] by simp
  then have "of_nat k * T \<noteq> 0" using s by (metis order_less_irrefl unsigned_0)
  moreover have "(int k * uint D * uint T + int k * uint T - 1) div (int k * uint T) = uint D"
  proof (rule int_div_pos_eq)
    show "int k * uint D * uint T + int k * uint T - 1 = int k * uint T * uint D + (int k * uint T - 1)"
      by (simp add: mult_ac)
  qed (use p in simp_all)
  ultimately show ?thesis using u128_range [of D] by (simp add: zone_value_def Let_def s w)
qed

lemma zone_steady:
  fixes T :: u64 and D :: u128
  assumes n: "2 \<le> n" "n \<le> 720" and T: "T \<noteq> 0" "720 * uint T < 2 ^ 64" and D: "720 * uint D < 2 ^ 128"
    and w: "old + 2 * recent + 2 \<le> w"
  shows "zone (steady t0 T n) (steady c0 D n) T w old recent = D"
proof -
  define b where "b = zone_begin n w old recent"
  define e where "e = zone_end n w old recent"
  note z = zone_bounds [OF w n(1), folded b_def e_def]
  have k: "0 < e - 1 - b" "int (e - 1 - b) \<le> 720" using z n by simp_all
  have m: "int (e - 1 - b) * uint x \<le> 720 * uint x" for x :: "'a::len word" using k(2) by (intro mult_right_mono) simp_all
  have "zone (steady t0 T n) (steady c0 D n) T w old recent = zone_value (of_nat (e - 1 - b) * T) (of_nat (e - 1 - b) * D) T"
    using z by (simp add: zone_def Let_def b_def [symmetric] e_def [symmetric] steady_diff)
  also have "\<dots> = D"
    by (rule zone_value_steady [OF T(1) k(1) order_le_less_trans [OF m T(2)] order_le_less_trans [OF m D]])
  finally show ?thesis .
qed

lemma steady_sorted:
  assumes "int n * uint T \<le> uint t0"
  shows "sorted (rev (steady t0 T n :: u64 list))"
proof -
  have "int i * uint T \<le> int j * uint T" if "i \<le> j" for i j using that by (intro mult_right_mono) simp_all
  note mono = this
  have v: "uint (t0 - of_nat i * T) = uint t0 - int i * uint T" if "i \<le> n" for i
  proof -
    have le: "int i * uint T \<le> uint t0" using mono [OF that] assms by linarith
    then have "int i * uint T < 2 ^ 64" using u64_range(2) [of t0] by linarith
    then have "uint (of_nat i * T) = int i * uint T" by (simp add: uint_of_nat_mult)
    with le show ?thesis by (simp add: uint_sub_if')
  qed
  have "sorted_wrt (\<ge>) (steady t0 T n)"
    unfolding steady_def sorted_wrt_map
    by (rule sorted_wrt_mono_rel [OF _ sorted_wrt_upt]) (auto simp: word_le_def v mono)
  then show ?thesis by (simp add: sorted_wrt_rev)
qed

lemma mean_same:
  fixes D :: u128
  assumes "3 * uint D < 2 ^ 128"
  shows "mean_nonzero D [D] 1 = D" and "mean_nonzero D [D, D] 1 = D"
proof -
  have two: "uint (2 * D) = 2 * uint D" using assms u128_range [of D] by (subst uint_mult_small) simp_all
  have three: "uint (3 * D) = 3 * uint D" using assms by (subst uint_mult_small) simp_all
  show "mean_nonzero D [D] 1 = D"
    by (cases "D = 0") (simp_all add: word_uint_eq_iff uint_div_distrib two)
  show "mean_nonzero D [D, D] 1 = D"
    by (cases "D = 0") (simp_all add: word_uint_eq_iff uint_div_distrib three)
qed


section \<open>Properties\<close>

text \<open>
  C35 (check_hash_decides). The test of a proof of work, with its carries between 64-bit words below
  \<open>2\<^sup>6\<^sup>4 - 1\<close> and its wide product above, accepts exactly the hashes whose number, read
  with the most significant byte first, times the difficulty stays below \<open>2\<^sup>2\<^sup>5\<^sup>6\<close>. For the one
  difficulty \<open>2\<^sup>6\<^sup>4 - 1\<close> the test of the top word makes it stricter: the number must be below
  \<open>2\<^sup>1\<^sup>9\<^sup>2\<close>.
\<close>

theorem check_hash_decides:
  assumes "length h = 32"
  shows "check_hash h d \<longleftrightarrow>
    (if d = 2 ^ 64 - 1 then le_value (rev h) < 2 ^ 192 else le_value (rev h) * uint d < 2 ^ 256)"
proof (cases "d = max64bit")
  case True
  then have "uint d = 2 ^ 64 - 1" by (simp add: max64bit_def)
  then have "hash_number h < 2 ^ 192 \<Longrightarrow> hash_number h * uint d < 2 ^ 256"
    using hash_number_range(2) [of h] by simp
  then have "check_hash h d \<longleftrightarrow> hash_number h < 2 ^ 192"
    using check_hash_large [OF assms, of d] True by auto
  then show ?thesis using True by (simp add: max64bit_def hash_number_def)
next
  case False
  then show ?thesis using check_hash_number [OF assms False] by (simp add: max64bit_def hash_number_def)
qed

theorem check_hash_decides_witness:
  "check_hash (replicate 3 0 @ replicate 29 1) 200 \<longleftrightarrow>
    (if (200 :: u128) = 2 ^ 64 - 1 then le_value (rev (replicate 3 0 @ replicate 29 1)) < 2 ^ 192
     else le_value (rev (replicate 3 0 @ replicate 29 1)) * uint (200 :: u128) < 2 ^ 256)"
  by (rule check_hash_decides) simp

text \<open>
  For every difficulty but 0 and \<open>2\<^sup>6\<^sup>4 - 1\<close> the 32-byte boundary
  is the largest number of a hash that passes the test, written least significant byte first,
  and the short boundary handed to miners is its top word.
\<close>

theorem boundary_agrees:
  assumes "d \<noteq> 0" and "d \<noteq> 2 ^ 64 - 1"
  shows "\<exists>b w. difficulty_to_boundary_long d = Some b \<and> length b = 32
    \<and> (\<forall>h. length h = 32 \<longrightarrow> (check_hash h d \<longleftrightarrow> le_value (rev h) \<le> le_value b))
    \<and> difficulty_to_boundary d = Some w \<and> uint w = le_value (drop 24 b)"
proof -
  let ?N = "max_hash d"
  note N = max_hash_range [OF assms(1)]
  have d: "0 < uint d" using assms(1) u128_range(1) [of d] uint_0_iff [of d] by linarith
  have b: "le_value (le_bytes 32 ?N) = ?N" using N by (simp add: le_value_le_bytes)
  have "check_hash h d \<longleftrightarrow> le_value (rev h) \<le> ?N" if "length h = 32" for h
    using check_hash_number [OF that, of d] assms(2) le_div_iff [OF d, of "le_value (rev h)" "2 ^ 256 - 1"]
    by (simp add: max64bit_def hash_number_def max_hash_def le_pred)
  moreover have "uint (ucast (drop_bit 192 ((- 1 :: u256) div ucast d)) :: u64) = ?N div 2 ^ 192"
    using N by (subst uint_narrow) (simp_all add: uint_drop nominal_hash [OF assms(1)] zdiv_upper)
  moreover have "le_value (drop 24 (le_bytes 32 ?N)) = ?N div 2 ^ 192"
  proof -
    have "le_value (take 8 (drop 24 (le_bytes 32 ?N))) = ?N div 256 ^ 24 mod 256 ^ 8"
      by (subst le_value_slice) (simp_all add: b)
    then show ?thesis using N by (simp add: zdiv_upper pos_imp_zdiv_nonneg_iff)
  qed
  ultimately show ?thesis
    using boundary_long_bytes [OF assms(1)] b assms(1) by (simp add: difficulty_to_boundary_def)
qed

theorem boundary_agrees_witness:
  "\<exists>b w. difficulty_to_boundary_long 1000 = Some b \<and> length b = 32
    \<and> (\<forall>h. length h = 32 \<longrightarrow> (check_hash h 1000 \<longleftrightarrow> le_value (rev h) \<le> le_value b))
    \<and> difficulty_to_boundary 1000 = Some w \<and> uint w = le_value (drop 24 b)"
  by (rule boundary_agrees) simp_all

text \<open>
  Retargeting never throws and never reads outside its vectors, on any
  vectors of any lengths; and the vectors it leaves have at most 720 entries.
\<close>

theorem next_difficulty_total:
  "\<exists>d1 d2 ts' cs'. next_difficulty_1 ts cs target starter = Returns (d1, ts', cs')
    \<and> next_difficulty_2 ts cs target starter = Returns (d2, ts', cs') \<and> length ts' \<le> 720"
proof -
  obtain ts' cs' where w: "trim_window ts cs = (ts', cs')" by fastforce
  note l = trim_window_length [OF w]
  show ?thesis
  proof (cases "length cs' = length ts' \<and> 2 \<le> length ts'")
    case True
    then show ?thesis using next_difficulty_value [OF w] l by simp
  next
    case False
    then show ?thesis using l by (auto simp: next_difficulty_1_def next_difficulty_2_def w window)
  qed
qed

text \<open>
  The retargeting is a fixed point of a steady chain: when the
  blocks of the window come exactly at the target interval, with timestamps in any order, and each one
  added the same difficulty \<open>D\<close> to the cumulative difficulty, then the next difficulty is \<open>D\<close>, in
  both versions, whatever the number of blocks from 2 on.
\<close>

theorem next_difficulty_steady:
  fixes T :: u64 and D :: u128
  assumes n: "2 \<le> length ts" "length cs = length ts"
    and ts: "mset (take 720 ts) = mset (steady t0 T (min 720 (length ts)))"
    and cs: "take 720 cs = steady c0 D (min 720 (length ts))"
    and T: "T \<noteq> 0" "720 * uint T \<le> uint t0" and D: "720 * uint D < 2 ^ 128"
  shows "\<exists>ts' cs'. next_difficulty_1 ts cs T starter = Returns (D, ts', cs')
    \<and> next_difficulty_2 ts cs T starter = Returns (D, ts', cs')"
proof -
  let ?n = "min 720 (length ts)"
  have tr: "trim_window ts cs = (take 720 ts, steady c0 D ?n)"
    using n(2) cs by (auto simp: trim_window_def resize_def window min_def)
  have "int ?n * uint T \<le> 720 * uint T" by (intro mult_right_mono) simp_all
  then have "sorted (rev (steady t0 T ?n))" using T(2) by (intro steady_sorted) linarith
  then have "sort (take 720 ts) = rev (steady t0 T ?n)" using ts by (intro properties_for_sort) simp_all
  then have s: "rev (sort (take 720 ts)) = steady t0 T ?n" by simp
  have T': "720 * uint T < 2 ^ 64" using T(2) u64_range(2) [of t0] by linarith
  have z: "zone (steady t0 T ?n) (steady c0 D ?n) T w old recent = D" if "old + 2 * recent + 2 \<le> w" for w old recent
    using n(1) by (intro zone_steady [OF _ _ T(1) T' D]) (use that in simp_all)
  have "3 * uint D < 2 ^ 128" using D u128_range(1) [of D] by simp
  note m = mean_same [OF this]
  have l: "length (steady c0 D ?n) = length (take 720 ts)" "2 \<le> length (take 720 ts)" using n(1) by simp_all
  note v = next_difficulty_value [OF tr l, unfolded s, of T starter]
  have "next_difficulty_1 ts cs T starter = Returns (D, steady t0 T ?n, steady c0 D ?n)"
    "next_difficulty_2 ts cs T starter = Returns (D, steady t0 T ?n, steady c0 D ?n)"
    unfolding v by (simp_all add: z m del: mean_nonzero.simps min_def)
  then show ?thesis by blast
qed

theorem next_difficulty_steady_witness:
  "\<exists>ts' cs'. next_difficulty_1 [1000120, 1000000, 1000240] [30, 20, 10] 120 1 = Returns (10, ts', cs')
    \<and> next_difficulty_2 [1000120, 1000000, 1000240] [30, 20, 10] 120 1 = Returns (10, ts', cs')"
  by (rule next_difficulty_steady [where ?t0.0 = 1000240 and ?c0.0 = 30]) (simp_all add: steady_def upt_rec)

end
