(* ===== verification/Peerlist.thy ===== *)
theory Peerlist
  imports Prelude "HOL-Library.Multiset"
begin

text \<open>
  The list of known peers: \<^verbatim>\<open>src/src/p2p/net_peerlist.h\<close>, the entries of
  \<^verbatim>\<open>p2p_protocol_defs.h\<close> and the classes of addresses of
  \<^verbatim>\<open>src/contrib/epee/include/net/local_ip.h\<close>.

  A container \<^verbatim>\<open>peers_indexed\<close> is the list of its entries in the order of its index
  \<^verbatim>\<open>by_time\<close>; the index \<^verbatim>\<open>by_addr\<close> is used for searching only. Where Boost.MultiIndex puts
  a new entry among entries of equal time is its own business: insertion and replacement are parameters
  of the model, and the locale \<open>time_index\<close> states what their documentation promises. The shuffle of
  the standard library is a parameter too. The clock is an argument.
\<close>

unbundle bit_operations_syntax

section \<open>Definitions\<close>

subsection \<open>Classes of addresses\<close>

text \<open>The first number of the dotted form is the lowest byte.\<close>

definition is_ip_local :: "u32 \<Rightarrow> bool" where
  "is_ip_local ip =
     (if ip OR 0xffffff00 = 0xffffff0a then True
      else if ip OR 0xffff0000 = 0xffffa8c0 then True
      else if ip OR 0xffffff00 = 0xffffffac \<and>
              (let second_num = push_bit 8 ip AND 0xff000000 in second_num \<ge> 16 \<and> second_num \<le> 31) then True
      else False)"

definition is_ip_loopback :: "u32 \<Rightarrow> bool" where
  "is_ip_loopback ip = (if ip OR 0xffffff00 = 0xffffff7f then True else False)"

subsection \<open>State\<close>

record net_address =
  ip :: u32
  port :: u32

record peerlist_entry =
  adr :: net_address
  peer_id :: u64
  last_seen :: int

type_synonym peers_indexed = "peerlist_entry list"

record peerlist_manager =
  m_allow_local_ip :: bool
  m_peers_gray :: peers_indexed
  m_peers_white :: peers_indexed

definition P2P_LOCAL_WHITE_PEERLIST_LIMIT :: nat where
  "P2P_LOCAL_WHITE_PEERLIST_LIMIT = 1000"

definition P2P_LOCAL_GRAY_PEERLIST_LIMIT :: nat where
  "P2P_LOCAL_GRAY_PEERLIST_LIMIT = 5000"

text \<open>The operations of the container that depend on the library: insertion and replacement.\<close>

record index_ops =
  ix_insert :: "peerlist_entry \<Rightarrow> peers_indexed \<Rightarrow> peers_indexed"
  ix_replace :: "peerlist_entry \<Rightarrow> peerlist_entry \<Rightarrow> peers_indexed \<Rightarrow> peers_indexed"

definition find_addr :: "net_address \<Rightarrow> peers_indexed \<Rightarrow> peerlist_entry option" where
  "find_addr a l = find (\<lambda>e. adr e = a) l"

subsection \<open>Operations\<close>

definition peers_init :: "bool \<Rightarrow> int \<Rightarrow> peerlist_manager \<Rightarrow> peerlist_manager" where
  "peers_init allow_local_ip now st =
     (let st = st\<lparr>m_allow_local_ip := allow_local_ip\<rparr>;
          st = (if list_ex (\<lambda>v1. last_seen v1 > now) (m_peers_white st) then st\<lparr>m_peers_white := []\<rparr> else st);
          st = (if list_ex (\<lambda>v1. last_seen v1 > now) (m_peers_gray st) then st\<lparr>m_peers_gray := []\<rparr> else st) in
      st)"

fun trim_peers :: "nat \<Rightarrow> peers_indexed \<Rightarrow> peers_indexed" where
  "trim_peers limit [] = []"
| "trim_peers limit (e # l) = (if length (e # l) > limit then trim_peers limit l else e # l)"

definition trim_white_peerlist :: "peerlist_manager \<Rightarrow> peerlist_manager" where
  "trim_white_peerlist st = st\<lparr>m_peers_white := trim_peers P2P_LOCAL_WHITE_PEERLIST_LIMIT (m_peers_white st)\<rparr>"

definition trim_gray_peerlist :: "peerlist_manager \<Rightarrow> peerlist_manager" where
  "trim_gray_peerlist st = st\<lparr>m_peers_gray := trim_peers P2P_LOCAL_GRAY_PEERLIST_LIMIT (m_peers_gray st)\<rparr>"

definition is_ip_allowed :: "peerlist_manager \<Rightarrow> u32 \<Rightarrow> bool" where
  "is_ip_allowed st a =
     (if is_ip_loopback a then False
      else if \<not> m_allow_local_ip st \<and> is_ip_local a then False
      else True)"

definition append_with_peer_white :: "index_ops \<Rightarrow> peerlist_entry \<Rightarrow> peerlist_manager \<Rightarrow> peerlist_manager" where
  "append_with_peer_white ops ple st =
     (if \<not> is_ip_allowed st (ip (adr ple)) then st
      else
        let st = (case find_addr (adr ple) (m_peers_white st) of
                    None \<Rightarrow> trim_white_peerlist (st\<lparr>m_peers_white := ix_insert ops ple (m_peers_white st)\<rparr>)
                  | Some e \<Rightarrow> st\<lparr>m_peers_white := ix_replace ops e ple (m_peers_white st)\<rparr>) in
        (case find_addr (adr ple) (m_peers_gray st) of
           None \<Rightarrow> st
         | Some e \<Rightarrow> st\<lparr>m_peers_gray := remove1 e (m_peers_gray st)\<rparr>))"

definition append_with_peer_gray :: "index_ops \<Rightarrow> peerlist_entry \<Rightarrow> peerlist_manager \<Rightarrow> peerlist_manager" where
  "append_with_peer_gray ops ple st =
     (if \<not> is_ip_allowed st (ip (adr ple)) then st
      else if find_addr (adr ple) (m_peers_white st) \<noteq> None then st
      else (case find_addr (adr ple) (m_peers_gray st) of
              None \<Rightarrow> trim_gray_peerlist (st\<lparr>m_peers_gray := ix_insert ops ple (m_peers_gray st)\<rparr>)
            | Some e \<Rightarrow> st\<lparr>m_peers_gray := ix_replace ops e ple (m_peers_gray st)\<rparr>))"

definition set_peer_just_seen :: "index_ops \<Rightarrow> int \<Rightarrow> u64 \<Rightarrow> net_address \<Rightarrow> peerlist_manager \<Rightarrow> peerlist_manager" where
  "set_peer_just_seen ops now peer addr st =
     append_with_peer_white ops \<lparr>adr = addr, peer_id = peer, last_seen = now\<rparr> st"

definition merge_peerlist :: "index_ops \<Rightarrow> peerlist_entry list \<Rightarrow> peerlist_manager \<Rightarrow> peerlist_manager" where
  "merge_peerlist ops outer_bs st = trim_gray_peerlist (fold (append_with_peer_gray ops) outer_bs st)"

definition remove_peers_by_ip_from_all :: "u32 \<Rightarrow> peerlist_manager \<Rightarrow> peerlist_manager" where
  "remove_peers_by_ip_from_all a st =
     st\<lparr>m_peers_white := filter (\<lambda>e. ip (adr e) \<noteq> a) (m_peers_white st),
        m_peers_gray := filter (\<lambda>e. ip (adr e) \<noteq> a) (m_peers_gray st)\<rparr>"

subsection \<open>Queries\<close>

definition get_white_peer_by_index :: "peerlist_manager \<Rightarrow> nat \<Rightarrow> peerlist_entry option" where
  "get_white_peer_by_index st i =
     (if i \<ge> length (m_peers_white st) then None
      else Some (m_peers_white st ! (length (m_peers_white st) - 1 - i)))"

definition get_gray_peer_by_index :: "peerlist_manager \<Rightarrow> nat \<Rightarrow> peerlist_entry option" where
  "get_gray_peer_by_index st i =
     (if i \<ge> length (m_peers_gray st) then None
      else Some (m_peers_gray st ! (length (m_peers_gray st) - 1 - i)))"

definition get_peerlist_full :: "peerlist_manager \<Rightarrow> peerlist_entry list \<times> peerlist_entry list \<Rightarrow> peerlist_entry list \<times> peerlist_entry list" where
  "get_peerlist_full st acc = (case acc of (pl_gray, pl_white) \<Rightarrow>
     (pl_gray @ rev (m_peers_gray st), pl_white @ rev (m_peers_white st)))"

text \<open>The loop of \<^verbatim>\<open>get_peerlist_head\<close>: entries never seen are skipped, and the counter counts the others.\<close>

fun pick_peers :: "u32 \<Rightarrow> u32 \<Rightarrow> peerlist_entry list \<Rightarrow> peerlist_entry list \<Rightarrow> peerlist_entry list" where
  "pick_peers pick_depth cnt [] bs_head = bs_head"
| "pick_peers pick_depth cnt (vl # vs) bs_head =
     (if last_seen vl = 0 then pick_peers pick_depth cnt vs bs_head
      else if cnt \<ge> pick_depth then bs_head
      else pick_peers pick_depth (cnt + 1) vs (bs_head @ [vl]))"

definition get_peerlist_head ::
  "(peerlist_entry list \<Rightarrow> peerlist_entry list) \<Rightarrow> peerlist_manager \<Rightarrow> bool \<Rightarrow> u32 \<Rightarrow> peerlist_entry list \<Rightarrow> peerlist_entry list" where
  "get_peerlist_head shuffle st anonymize depth bs_head =
     (let pick_depth = (if anonymize then depth + depth div 5 else depth);
          bs_head = pick_peers pick_depth 0 (rev (m_peers_white st)) bs_head in
      if anonymize then
        let bs_head = shuffle bs_head;
            bs_head = (if length bs_head > unat depth then take (unat depth) bs_head else bs_head) in
        map (\<lambda>e. e\<lparr>last_seen := 0\<rparr>) bs_head
      else bs_head)"


section \<open>The contract of the container\<close>

definition by_time :: "peers_indexed \<Rightarrow> bool" where
  "by_time l = sorted (map last_seen l)"

locale time_index =
  fixes ops :: index_ops
  assumes insert_mset: "by_time l \<Longrightarrow> mset (ix_insert ops e l) = add_mset e (mset l)"
    and insert_sorted: "by_time l \<Longrightarrow> by_time (ix_insert ops e l)"
    and replace_mset: "by_time l \<Longrightarrow> old \<in> set l \<Longrightarrow> mset (ix_replace ops old e l) = add_mset e (mset l - {#old#})"
    and replace_sorted: "by_time l \<Longrightarrow> old \<in> set l \<Longrightarrow> by_time (ix_replace ops old e l)"

text \<open>An instance: after the entries that are not later.\<close>

fun insert_upper :: "peerlist_entry \<Rightarrow> peers_indexed \<Rightarrow> peers_indexed" where
  "insert_upper e [] = [e]"
| "insert_upper e (x # l) = (if last_seen e < last_seen x then e # x # l else x # insert_upper e l)"

definition replace_upper :: "peerlist_entry \<Rightarrow> peerlist_entry \<Rightarrow> peers_indexed \<Rightarrow> peers_indexed" where
  "replace_upper old e l = insert_upper e (remove1 old l)"

definition upper_ops :: index_ops where
  "upper_ops = \<lparr>ix_insert = insert_upper, ix_replace = replace_upper\<rparr>"

lemma insert_upper_mset: "mset (insert_upper e l) = add_mset e (mset l)"
  by (induction l) auto

lemma insert_upper_sorted: "by_time l \<Longrightarrow> by_time (insert_upper e l)"
proof (induction l)
  case (Cons x l)
  have "set (insert_upper e l) = insert e (set l)"
    using insert_upper_mset [of e l] by (metis set_mset_add_mset_insert set_mset_mset)
  with Cons show ?case by (auto simp: by_time_def)
qed (simp add: by_time_def)

lemma remove1_sorted: "by_time l \<Longrightarrow> by_time (remove1 x l)"
  by (induction l) (auto simp: by_time_def dest: notin_set_remove1 split: if_splits intro: set_remove1_subset [THEN subsetD])

interpretation upper: time_index upper_ops
  by unfold_locales
    (simp_all add: upper_ops_def replace_upper_def insert_upper_mset insert_upper_sorted remove1_sorted)


section \<open>The invariant\<close>

text \<open>
  Permission for local addresses belongs to the manager, not to the lists that it stores: a start may withdraw what
  an earlier one gave. So the invariant speaks of the addresses that some start allowed.
\<close>

definition allowed_by :: "bool \<Rightarrow> u32 \<Rightarrow> bool" where
  "allowed_by local a = (\<not> is_ip_loopback a \<and> (is_ip_local a \<longrightarrow> local))"

definition list_ok :: "bool \<Rightarrow> peers_indexed \<Rightarrow> bool" where
  "list_ok local l = (by_time l \<and> distinct (map adr l) \<and> (\<forall>e \<in> set l. allowed_by local (ip (adr e))))"

definition peers_ok :: "bool \<Rightarrow> peerlist_manager \<Rightarrow> bool" where
  "peers_ok local st = (list_ok local (m_peers_white st) \<and> list_ok local (m_peers_gray st)
     \<and> adr ` set (m_peers_white st) \<inter> adr ` set (m_peers_gray st) = {}
     \<and> length (m_peers_white st) \<le> P2P_LOCAL_WHITE_PEERLIST_LIMIT
     \<and> length (m_peers_gray st) \<le> P2P_LOCAL_GRAY_PEERLIST_LIMIT
     \<and> (m_allow_local_ip st \<longrightarrow> local))"

lemma is_ip_allowed_is: "is_ip_allowed st = allowed_by (m_allow_local_ip st)"
  by (rule ext) (auto simp: is_ip_allowed_def allowed_by_def)

lemma allowed_by_mono: "allowed_by b a \<Longrightarrow> (b \<longrightarrow> c) \<Longrightarrow> allowed_by c a"
  by (auto simp: allowed_by_def)

lemma peers_ok_allowed: "peers_ok local st \<Longrightarrow> is_ip_allowed st a \<Longrightarrow> allowed_by local a"
  by (auto simp: peers_ok_def is_ip_allowed_is intro: allowed_by_mono)

lemma list_ok_mono: "list_ok b l \<Longrightarrow> (b \<longrightarrow> c) \<Longrightarrow> list_ok c l"
  by (auto simp: list_ok_def intro: allowed_by_mono)

lemma list_ok_part:
  assumes "list_ok b l" and "mset w \<subseteq># mset l" and "by_time w"
  shows "list_ok b w"
proof -
  obtain M where "mset l = mset w + M" using assms(2) by (auto simp: subset_mset.le_iff_add)
  moreover obtain v where "mset v = M" using ex_mset by blast
  ultimately have m: "mset (map adr l) = mset (map adr (w @ v))" by simp
  then have "distinct (map adr w)"
    using assms(1) mset_eq_imp_distinct_iff [OF m] by (simp add: list_ok_def)
  moreover have "set w \<subseteq> set l" using set_mset_mono [OF assms(2)] by simp
  ultimately show ?thesis using assms(1,3) by (auto simp: list_ok_def)
qed

lemma trim_peers_drop: "trim_peers n l = drop (length l - n) l"
  by (induction l) (auto simp: Suc_diff_le not_less)

lemma trim_list_ok: "list_ok b l \<Longrightarrow> list_ok b (trim_peers n l)"
  unfolding trim_peers_drop list_ok_def by_time_def
  by (auto simp: drop_map [symmetric] sorted_wrt_drop distinct_drop dest: in_set_dropD)

lemma trim_length: "length (trim_peers n l) \<le> n" and trim_subset: "set (trim_peers n l) \<subseteq> set l"
  by (auto simp: trim_peers_drop dest: in_set_dropD)

lemma find_addr_Some: "find_addr a l = Some e \<Longrightarrow> e \<in> set l \<and> adr e = a"
  by (auto simp: find_addr_def find_Some_iff in_set_conv_nth)

lemma find_addr_None: "find_addr a l = None \<longleftrightarrow> a \<notin> adr ` set l"
  by (auto simp: find_addr_def find_None_iff)

lemma remove1_list_ok: "list_ok b l \<Longrightarrow> list_ok b (remove1 e l)"
  unfolding list_ok_def using remove1_sorted [of l e] set_remove1_subset [of e l]
  by (auto simp: distinct_map distinct_remove1 intro: inj_on_subset)

lemma remove1_addr:
  assumes "distinct (map adr l)" and "e \<in> set l"
  shows "adr ` set (remove1 e l) = adr ` set l - {adr e}"
  using assms by (auto simp: distinct_map inj_on_def)

lemma disjoint_move: "A \<subseteq> insert x B \<Longrightarrow> C = D - {x} \<Longrightarrow> B \<inter> D = {} \<Longrightarrow> A \<inter> C = {}"
  by blast

lemma disjoint_new: "x \<notin> A \<Longrightarrow> A \<inter> B = {} \<Longrightarrow> C \<subseteq> insert x B \<Longrightarrow> A \<inter> C = {}"
  by blast

context time_index
begin

lemma insert_set: "by_time l \<Longrightarrow> set (ix_insert ops e l) = insert e (set l)"
  using insert_mset [of l e] by (metis set_mset_add_mset_insert set_mset_mset)

lemma insert_ok:
  assumes "list_ok b l" and "allowed_by b (ip (adr e))" and "adr e \<notin> adr ` set l"
  shows "list_ok b (ix_insert ops e l)"
proof -
  have l: "by_time l" using assms(1) by (simp add: list_ok_def)
  have m: "mset (map adr (ix_insert ops e l)) = mset (map adr (e # l))" using insert_mset [OF l, of e] by simp
  have "distinct (map adr (ix_insert ops e l))"
    using assms(1,3) by (simp only: mset_eq_imp_distinct_iff [OF m]) (simp add: list_ok_def)
  then show ?thesis using assms insert_sorted [OF l] by (simp add: list_ok_def insert_set [OF l])
qed

lemma replace_ok:
  assumes "list_ok b l" and "old \<in> set l" and "adr old = adr e"
  shows "list_ok b (ix_replace ops old e l)" and "adr ` set (ix_replace ops old e l) = adr ` set l"
    and "length (ix_replace ops old e l) = length l" and "e \<in> set (ix_replace ops old e l)"
proof -
  have l: "by_time l" using assms(1) by (simp add: list_ok_def)
  have m: "mset (ix_replace ops old e l) = add_mset e (mset l - {#old#})" by (rule replace_mset [OF l assms(2)])
  obtain R where "mset l = add_mset old R" using multi_member_split [of old "mset l"] assms(2) by auto
  then have "mset (map adr (ix_replace ops old e l)) = mset (map adr l)" using m assms(3) by simp
  note m' = this
  have a: "distinct (map adr (ix_replace ops old e l))"
    using assms(1) mset_eq_imp_distinct_iff [OF m'] by (simp add: list_ok_def)
  have "set (map adr (ix_replace ops old e l)) = set (map adr l)"
    "length (map adr (ix_replace ops old e l)) = length (map adr l)"
    by (rule mset_eq_setD [OF m'], rule mset_eq_length [OF m'])
  then show "adr ` set (ix_replace ops old e l) = adr ` set l" "length (ix_replace ops old e l) = length l" by simp_all
  have s: "set (ix_replace ops old e l) \<subseteq> insert e (set l)"
    using arg_cong [OF m, of set_mset] by (auto dest: in_diffD)
  show "e \<in> set (ix_replace ops old e l)" using arg_cong [OF m, of set_mset] by auto
  show "list_ok b (ix_replace ops old e l)"
  proof -
    have "allowed_by b (ip (adr x))" if "x \<in> set (ix_replace ops old e l)" for x
    proof (cases "x = e")
      case True
      then show ?thesis using assms by (metis list_ok_def)
    next
      case False
      then show ?thesis using s that assms(1) unfolding list_ok_def by blast
    qed
    then show ?thesis using a replace_sorted [OF l assms(2)] by (simp add: list_ok_def)
  qed
qed

lemma append_white_ok:
  assumes "peers_ok b st"
  shows "peers_ok b (append_with_peer_white ops e st)"
proof (cases "is_ip_allowed st (ip (adr e))")
  case False
  then show ?thesis using assms by (simp add: append_with_peer_white_def)
next
  case True
  let ?w = "m_peers_white st" and ?g = "m_peers_gray st"
  define w where "w = (case find_addr (adr e) ?w of
      None \<Rightarrow> trim_peers P2P_LOCAL_WHITE_PEERLIST_LIMIT (ix_insert ops e ?w) | Some x \<Rightarrow> ix_replace ops x e ?w)"
  define g where "g = (case find_addr (adr e) ?g of None \<Rightarrow> ?g | Some x \<Rightarrow> remove1 x ?g)"
  have eq: "append_with_peer_white ops e st = st\<lparr>m_peers_white := w, m_peers_gray := g\<rparr>"
    using True by (cases "find_addr (adr e) ?w"; cases "find_addr (adr e) ?g")
      (simp_all add: append_with_peer_white_def trim_white_peerlist_def w_def g_def)
  have ok: "list_ok b ?w" "list_ok b ?g" using assms by (simp_all add: peers_ok_def)
  have W: "list_ok b w \<and> length w \<le> P2P_LOCAL_WHITE_PEERLIST_LIMIT \<and> adr ` set w \<subseteq> insert (adr e) (adr ` set ?w)"
  proof (cases "find_addr (adr e) ?w")
    case None
    then have w: "w = trim_peers P2P_LOCAL_WHITE_PEERLIST_LIMIT (ix_insert ops e ?w)" by (simp add: w_def)
    have "adr ` set w \<subseteq> adr ` set (ix_insert ops e ?w)" unfolding w using trim_subset by blast
    moreover have "set (ix_insert ops e ?w) = insert e (set ?w)" using ok(1) by (intro insert_set) (simp add: list_ok_def)
    ultimately have "adr ` set w \<subseteq> insert (adr e) (adr ` set ?w)" by simp
    moreover have "list_ok b w"
      unfolding w by (rule trim_list_ok [OF insert_ok [OF ok(1) peers_ok_allowed [OF assms True]]]) (use None find_addr_None in blast)
    ultimately show ?thesis using trim_length w by simp
  next
    case (Some x)
    then have w: "w = ix_replace ops x e ?w" by (simp add: w_def)
    from find_addr_Some [OF Some] have "x \<in> set ?w" "adr x = adr e" by auto
    from replace_ok [OF ok(1) this] show ?thesis using assms by (auto simp: peers_ok_def w)
  qed
  have G: "list_ok b g \<and> length g \<le> P2P_LOCAL_GRAY_PEERLIST_LIMIT \<and> adr ` set g = adr ` set ?g - {adr e}"
  proof (cases "find_addr (adr e) ?g")
    case None
    then have "g = ?g" "adr e \<notin> adr ` set ?g" by (simp add: g_def, simp add: find_addr_None)
    then show ?thesis using assms by (simp add: peers_ok_def)
  next
    case (Some x)
    then have g: "g = remove1 x ?g" and x: "x \<in> set ?g" "adr x = adr e" using find_addr_Some [OF Some] by (simp_all add: g_def)
    have "distinct (map adr ?g)" using ok(2) by (simp add: list_ok_def)
    then have "adr ` set g = adr ` set ?g - {adr e}" unfolding g using remove1_addr [of ?g x] x by simp
    moreover have "length g \<le> length ?g" by (simp add: g length_remove1)
    ultimately show ?thesis using assms remove1_list_ok [OF ok(2)] g by (simp add: peers_ok_def)
  qed
  have "adr ` set ?w \<inter> adr ` set ?g = {}" using assms by (simp add: peers_ok_def)
  with W G have "adr ` set w \<inter> adr ` set g = {}" by (metis disjoint_move)
  then show ?thesis unfolding eq using W G assms by (simp add: peers_ok_def)
qed

lemma append_gray_ok:
  assumes "peers_ok b st"
  shows "peers_ok b (append_with_peer_gray ops e st)"
proof (cases "is_ip_allowed st (ip (adr e)) \<and> find_addr (adr e) (m_peers_white st) = None")
  case False
  then show ?thesis using assms by (auto simp: append_with_peer_gray_def)
next
  case True
  let ?w = "m_peers_white st" and ?g = "m_peers_gray st"
  have ok: "list_ok b ?g" "by_time ?g" using assms by (simp_all add: peers_ok_def list_ok_def)
  show ?thesis
  proof (cases "find_addr (adr e) ?g")
    case None
    let ?g' = "trim_peers P2P_LOCAL_GRAY_PEERLIST_LIMIT (ix_insert ops e ?g)"
    have "append_with_peer_gray ops e st = st\<lparr>m_peers_gray := ?g'\<rparr>"
      using True None by (simp add: append_with_peer_gray_def trim_gray_peerlist_def)
    moreover have "list_ok b ?g'"
    proof (rule trim_list_ok [OF insert_ok [OF ok(1)]])
      show "allowed_by b (ip (adr e))" using True peers_ok_allowed [OF assms] by simp
      show "adr e \<notin> adr ` set ?g" using None by (simp add: find_addr_None)
    qed
    moreover have "adr ` set ?w \<inter> adr ` set ?g' = {}"
    proof -
      have "adr e \<notin> adr ` set ?w" using True by (simp add: find_addr_None)
      moreover have "adr ` set ?w \<inter> adr ` set ?g = {}" using assms by (simp add: peers_ok_def)
      moreover have "adr ` set ?g' \<subseteq> insert (adr e) (adr ` set ?g)"
        using image_mono [OF trim_subset, of adr _ "ix_insert ops e ?g"] by (simp add: insert_set [OF ok(2)])
      ultimately show ?thesis by (rule disjoint_new)
    qed
    ultimately show ?thesis using assms trim_length by (simp add: peers_ok_def)
  next
    case (Some x)
    from find_addr_Some [OF Some] have x: "x \<in> set ?g" "adr x = adr e" by auto
    show ?thesis using True Some replace_ok [OF ok(1) x] assms by (auto simp: append_with_peer_gray_def peers_ok_def)
  qed
qed

lemma merge_ok: "peers_ok b st \<Longrightarrow> peers_ok b (merge_peerlist ops es st)"
proof -
  have t: "peers_ok b st \<Longrightarrow> peers_ok b (trim_gray_peerlist st)" for st
    using trim_list_ok trim_length trim_subset [of _ "m_peers_gray st"] by (fastforce simp: peers_ok_def trim_gray_peerlist_def)
  have "peers_ok b st \<Longrightarrow> peers_ok b (fold (append_with_peer_gray ops) es st)"
    by (induction es arbitrary: st) (simp_all add: append_gray_ok)
  then show "peers_ok b st \<Longrightarrow> peers_ok b (merge_peerlist ops es st)" by (simp add: merge_peerlist_def t)
qed

lemma white_keeps:
  assumes ok: "peers_ok b st" and allowed: "is_ip_allowed st (ip (adr e))"
    and room: "length (m_peers_white st) < P2P_LOCAL_WHITE_PEERLIST_LIMIT
      \<or> (\<exists>x \<in> set (m_peers_white st). adr x = adr e \<or> last_seen x < last_seen e)"
  shows "e \<in> set (m_peers_white (append_with_peer_white ops e st))"
proof -
  let ?w = "m_peers_white st"
  have w: "list_ok b ?w" "by_time ?w" "length ?w \<le> P2P_LOCAL_WHITE_PEERLIST_LIMIT"
    using ok by (simp_all add: peers_ok_def list_ok_def)
  show ?thesis
  proof (cases "find_addr (adr e) ?w")
    case (Some x)
    from find_addr_Some [OF Some] have x: "x \<in> set ?w" "adr x = adr e" by auto
    show ?thesis using allowed Some replace_ok(4) [OF w(1) x] 
      by (cases "find_addr (adr e) (m_peers_gray st)") (simp_all add: append_with_peer_white_def)
  next
    case None
    let ?l = "ix_insert ops e ?w" and ?n = P2P_LOCAL_WHITE_PEERLIST_LIMIT
    have new: "m_peers_white (append_with_peer_white ops e st) = drop (length ?l - ?n) ?l"
      using allowed None by (cases "find_addr (adr e) (m_peers_gray st)")
        (simp_all add: append_with_peer_white_def trim_white_peerlist_def trim_peers_drop)
    have len: "length ?l = Suc (length ?w)" using mset_eq_length [of ?l "e # ?w"] insert_mset [OF w(2)] by simp
    have mem: "e \<in> set ?l" and all: "set ?l = insert e (set ?w)" using insert_set [OF w(2)] by simp_all
    show ?thesis
    proof (cases "length ?w < ?n")
      case True
      then show ?thesis using mem unfolding new len by simp
    next
      case False
      then have one: "length ?l - ?n = 1" using len w(3) by simp
      obtain x where x: "x \<in> set ?w" "last_seen x < last_seen e" using room False None by (metis find_addr_None image_eqI)
      obtain y l' where l: "?l = y # l'" using len by (cases ?l) auto
      have "last_seen y \<le> last_seen x"
        using insert_sorted [OF w(2), of e] x(1) all unfolding l by_time_def by auto
      then have "y \<noteq> e" using x(2) by auto
      then have "e \<in> set (drop 1 ?l)" using mem unfolding l by simp
      then show ?thesis unfolding new one .
    qed
  qed
qed

end


section \<open>Histories\<close>

text \<open>
  What happens to the lists over the life of a node. Each run starts with what the file of the last one still gives
  of its lists, nothing if there is no file or if it is two weeks old, in a manager that does not allow
  local addresses, and \<^verbatim>\<open>init\<close> follows (\<^verbatim>\<open>init_config\<close> and \<^verbatim>\<open>init\<close> of \<^verbatim>\<open>net_node.inl\<close>). The second argument says whether
  some start allowed local addresses. A file that another program wrote is not covered.
\<close>

definition peers_start :: "bool \<Rightarrow> int \<Rightarrow> peers_indexed \<Rightarrow> peers_indexed \<Rightarrow> peerlist_manager" where
  "peers_start allow now gray white = peers_init allow now \<lparr>m_allow_local_ip = False, m_peers_gray = gray, m_peers_white = white\<rparr>"

inductive peers_reachable :: "index_ops \<Rightarrow> bool \<Rightarrow> peerlist_manager \<Rightarrow> bool" for ops where
  start: "peers_reachable ops allow (peers_start allow now [] [])"
| restart: "peers_reachable ops local st \<Longrightarrow> mset gray \<subseteq># mset (m_peers_gray st) \<Longrightarrow> by_time gray
    \<Longrightarrow> mset white \<subseteq># mset (m_peers_white st) \<Longrightarrow> by_time white
    \<Longrightarrow> peers_reachable ops (local \<or> allow) (peers_start allow now gray white)"
| init: "peers_reachable ops local st \<Longrightarrow> peers_reachable ops (local \<or> allow) (peers_init allow now st)"
| white: "peers_reachable ops local st \<Longrightarrow> peers_reachable ops local (append_with_peer_white ops e st)"
| gray: "peers_reachable ops local st \<Longrightarrow> peers_reachable ops local (append_with_peer_gray ops e st)"
| seen: "peers_reachable ops local st \<Longrightarrow> peers_reachable ops local (set_peer_just_seen ops now peer addr st)"
| merge: "peers_reachable ops local st \<Longrightarrow> peers_reachable ops local (merge_peerlist ops es st)"
| remove: "peers_reachable ops local st \<Longrightarrow> peers_reachable ops local (remove_peers_by_ip_from_all a st)"
| trim_white: "peers_reachable ops local st \<Longrightarrow> peers_reachable ops local (trim_white_peerlist st)"
| trim_gray: "peers_reachable ops local st \<Longrightarrow> peers_reachable ops local (trim_gray_peerlist st)"

lemma part_ok:
  assumes ok: "peers_ok b st" and bc: "b \<longrightarrow> c"
    and w: "mset w \<subseteq># mset (m_peers_white st)" "by_time w" and g: "mset g \<subseteq># mset (m_peers_gray st)" "by_time g"
  shows "peers_ok (c \<or> allow) \<lparr>m_allow_local_ip = allow, m_peers_gray = g, m_peers_white = w\<rparr>"
proof -
  have l: "list_ok b w" "list_ok b g" using ok list_ok_part w g by (auto simp: peers_ok_def)
  have s: "set w \<subseteq> set (m_peers_white st)" "set g \<subseteq> set (m_peers_gray st)" using set_mset_mono [OF w(1)] set_mset_mono [OF g(1)] by simp_all
  have n: "length w \<le> length (m_peers_white st)" "length g \<le> length (m_peers_gray st)"
    using size_mset_mono [OF w(1)] size_mset_mono [OF g(1)] by simp_all
  have "adr ` set w \<inter> adr ` set g = {}" using ok s unfolding peers_ok_def by blast
  then show ?thesis using ok l n bc by (auto simp: peers_ok_def intro: list_ok_mono)
qed

lemma peers_init_cases:
  obtains w g where "peers_init allow now st = \<lparr>m_allow_local_ip = allow, m_peers_gray = g, m_peers_white = w\<rparr>"
    and "w = m_peers_white st \<or> w = []" and "g = m_peers_gray st \<or> g = []"
  by (cases st; cases "list_ex (\<lambda>v1. last_seen v1 > now) (m_peers_white st)"; cases "list_ex (\<lambda>v1. last_seen v1 > now) (m_peers_gray st)")
    (auto simp: peers_init_def)

lemma init_ok:
  assumes "peers_ok b st"
  shows "peers_ok (b \<or> allow) (peers_init allow now st)"
proof (rule peers_init_cases [of allow now st])
  fix w g
  assume i: "peers_init allow now st = \<lparr>m_allow_local_ip = allow, m_peers_gray = g, m_peers_white = w\<rparr>"
    "w = m_peers_white st \<or> w = []" "g = m_peers_gray st \<or> g = []"
  have "by_time (m_peers_white st)" "by_time (m_peers_gray st)" using assms by (simp_all add: peers_ok_def list_ok_def)
  then have "by_time w" "by_time g" using i(2,3) by (auto simp: by_time_def)
  then show ?thesis unfolding i(1) using i(2,3) by (intro part_ok [OF assms]) auto
qed

lemma filter_part: "by_time l \<Longrightarrow> by_time (filter P l)"
  by (simp add: by_time_def sorted_filter)

lemma remove_ok: "peers_ok b st \<Longrightarrow> peers_ok b (remove_peers_by_ip_from_all a st)"
  using part_ok [of b st b "filter (\<lambda>e. ip (adr e) \<noteq> a) (m_peers_white st)" "filter (\<lambda>e. ip (adr e) \<noteq> a) (m_peers_gray st)" "m_allow_local_ip st"]
  by (auto simp: remove_peers_by_ip_from_all_def peers_ok_def list_ok_def filter_part mset_filter multiset_filter_subset)

lemma trim_white_ok: "peers_ok b st \<Longrightarrow> peers_ok b (trim_white_peerlist st)"
  and trim_gray_ok: "peers_ok b st \<Longrightarrow> peers_ok b (trim_gray_peerlist st)"
  using trim_list_ok trim_length trim_subset [of _ "m_peers_white st"] trim_subset [of _ "m_peers_gray st"]
  by (fastforce simp: peers_ok_def trim_white_peerlist_def trim_gray_peerlist_def)+

lemma reachable_peers_ok:
  assumes "time_index ops" and "peers_reachable ops local st"
  shows "peers_ok local st"
  using assms(2)
proof (induction rule: peers_reachable.induct)
  case (start allow now)
  then show ?case by (simp add: peers_start_def peers_init_def peers_ok_def list_ok_def by_time_def)
next
  case (restart local st gray white allow now)
  have "peers_ok local \<lparr>m_allow_local_ip = False, m_peers_gray = gray, m_peers_white = white\<rparr>"
    using part_ok [OF restart.IH _ restart.hyps(4,5,2,3), of local False] by simp
  then show ?case unfolding peers_start_def by (rule init_ok)
qed (simp_all add: set_peer_just_seen_def init_ok remove_ok trim_white_ok trim_gray_ok time_index.append_white_ok [OF assms(1)]
    time_index.append_gray_ok [OF assms(1)] time_index.merge_ok [OF assms(1)])


section \<open>Queries\<close>

lemma pick_peers_take:
  "pick_peers d cnt vs bs = bs @ take (unat d - unat cnt) (filter (\<lambda>e. last_seen e \<noteq> 0) vs)"
proof (induction vs arbitrary: cnt bs)
  case (Cons v vs)
  show ?case
  proof (cases "cnt < d")
    case True
    then have "unat cnt + 1 < 2 ^ 32" using unsigned_less [of d, where 'a = nat] by (simp add: word_less_nat_alt)
    then have "unat (cnt + 1) = Suc (unat cnt)" by (simp add: unat_word_ariths)
    moreover have "unat d - unat cnt = Suc (unat d - Suc (unat cnt))" using True by (simp add: word_less_nat_alt)
    ultimately show ?thesis using Cons True by (simp add: not_le [THEN iffD2])
  next
    case False
    then show ?thesis using Cons by (simp add: word_le_nat_alt not_less)
  qed
qed simp

definition seen_recent :: "peerlist_manager \<Rightarrow> peerlist_entry list" where
  "seen_recent st = filter (\<lambda>e. last_seen e \<noteq> 0) (rev (m_peers_white st))"


section \<open>Addresses\<close>

lemma or_not_mask: "x OR NOT m = c OR NOT m \<longleftrightarrow> x AND m = c AND m" for x m c :: "'a::len word"
  by (auto simp: bit_eq_iff bit_simps)

lemma second_num_never: "\<not> (16 \<le> push_bit 8 x AND 0xff000000 \<and> push_bit 8 x AND 0xff000000 \<le> (31 :: u32))"
proof
  let ?s = "push_bit 8 x AND 0xff000000 :: u32"
  assume a: "16 \<le> ?s \<and> ?s \<le> 31"
  have "take_bit 24 ?s = push_bit 8 x AND take_bit 24 0xff000000" by (simp add: take_bit_and ac_simps)
  also have "take_bit 24 (0xff000000 :: u32) = 0" by simp
  finally have "take_bit 24 ?s = 0" by simp
  moreover have "take_bit 24 ?s = ?s"
  proof -
    have "unat ?s \<le> 31" using a by (simp add: word_le_nat_alt)
    then have "take_bit 24 (unat ?s) = unat ?s" by (intro take_bit_nat_eq_self) simp
    then show ?thesis by (metis unsigned_take_bit_eq word_unat_eq_iff)
  qed
  ultimately show False using a by simp
qed


section \<open>Properties\<close>

text \<open>
  C34 (peers_invariant). Whatever the sequence of calls and restarts, and wherever the container
  puts entries of equal time: both lists are sorted by time and hold an address once, no address is in
  both, the lists stay within 1000 and 5000 entries, no loopback address is in either, and a local address only if some
  start allowed local ones. So every entry is allowed by the manager unless it forbids local addresses now and a start
  before allowed them: \<^verbatim>\<open>init\<close> does not look at the addresses of the lists that it takes over.
\<close>

theorem peers_invariant:
  assumes "time_index ops" and "peers_reachable ops local st"
  shows "by_time (m_peers_white st) \<and> by_time (m_peers_gray st)
    \<and> distinct (map adr (m_peers_white st @ m_peers_gray st))
    \<and> length (m_peers_white st) \<le> 1000 \<and> length (m_peers_gray st) \<le> 5000
    \<and> (\<forall>e \<in> set (m_peers_white st) \<union> set (m_peers_gray st). \<not> is_ip_loopback (ip (adr e)) \<and> (is_ip_local (ip (adr e)) \<longrightarrow> local))
    \<and> (local = m_allow_local_ip st \<longrightarrow> (\<forall>e \<in> set (m_peers_white st) \<union> set (m_peers_gray st). is_ip_allowed st (ip (adr e))))"
proof -
  have ok: "peers_ok local st" by (rule reachable_peers_ok [OF assms])
  then have a: "\<forall>e \<in> set (m_peers_white st) \<union> set (m_peers_gray st). allowed_by local (ip (adr e))"
    by (auto simp: peers_ok_def list_ok_def)
  then have "local = m_allow_local_ip st \<longrightarrow> (\<forall>e \<in> set (m_peers_white st) \<union> set (m_peers_gray st). is_ip_allowed st (ip (adr e)))"
    unfolding is_ip_allowed_is by auto
  with ok a show ?thesis
    by (simp add: peers_ok_def list_ok_def allowed_by_def P2P_LOCAL_WHITE_PEERLIST_LIMIT_def P2P_LOCAL_GRAY_PEERLIST_LIMIT_def)
qed

text \<open>The witness is a node that was started with local addresses and is restarted without: the address 10.0.0.1 stays.\<close>

theorem peers_invariant_witness:
  "let st = peers_start False 9 [] (m_peers_white (set_peer_just_seen upper_ops 9 2 \<lparr>ip = 0x0100000a, port = 1\<rparr> (peers_start True 9 [] [])))
   in distinct (map adr (m_peers_white st @ m_peers_gray st)) \<and> length (m_peers_white st) \<le> 1000
     \<and> (\<exists>e \<in> set (m_peers_white st). \<not> is_ip_allowed st (ip (adr e)))"
proof -
  let ?s = "set_peer_just_seen upper_ops 9 2 \<lparr>ip = 0x0100000a, port = 1\<rparr> (peers_start True 9 [] [])"
  let ?st = "peers_start False 9 [] (m_peers_white ?s)"
  have w: "m_peers_white ?s = [\<lparr>adr = \<lparr>ip = 0x0100000a, port = 1\<rparr>, peer_id = 2, last_seen = 9\<rparr>]"
    by (simp add: set_peer_just_seen_def append_with_peer_white_def peers_start_def peers_init_def find_addr_def trim_white_peerlist_def
        P2P_LOCAL_WHITE_PEERLIST_LIMIT_def upper_ops_def is_ip_allowed_def is_ip_loopback_def is_ip_local_def Let_def)
  have "peers_reachable upper_ops True ?s" by (intro peers_reachable.intros)
  from peers_reachable.restart [OF this, of "[]" "m_peers_white ?s" False 9]
  have r: "peers_reachable upper_ops True ?st" by (simp add: w by_time_def)
  have "m_peers_white ?st = m_peers_white ?s" "m_allow_local_ip ?st = False" unfolding w by (simp_all add: peers_start_def peers_init_def)
  then have "\<exists>e \<in> set (m_peers_white ?st). \<not> is_ip_allowed ?st (ip (adr e))"
    by (simp add: w is_ip_allowed_def is_ip_loopback_def is_ip_local_def)
  then show ?thesis using peers_invariant [OF upper.time_index_axioms r] by (simp add: Let_def)
qed

text \<open>
  A peer reported as just seen at an allowed address is in the white list
  afterwards, with its new id and time, and not in the gray one, when the white list is not full, or
  holds the address, or holds an entry older than now. (A full list whose entries are all at least as
  new may lose the new entry to the trimming.)
\<close>

theorem peer_just_seen_kept:
  assumes "time_index ops" and "peers_reachable ops local st" and "is_ip_allowed st (ip addr)"
    and "length (m_peers_white st) < 1000 \<or> (\<exists>x \<in> set (m_peers_white st). adr x = addr \<or> last_seen x < now)"
  shows "\<lparr>adr = addr, peer_id = peer, last_seen = now\<rparr> \<in> set (m_peers_white (set_peer_just_seen ops now peer addr st))
    \<and> addr \<notin> adr ` set (m_peers_gray (set_peer_just_seen ops now peer addr st))"
proof -
  let ?e = "\<lparr>adr = addr, peer_id = peer, last_seen = now\<rparr>" and ?st = "set_peer_just_seen ops now peer addr st"
  note ok = reachable_peers_ok [OF assms(1,2)]
  have w: "?e \<in> set (m_peers_white ?st)"
    unfolding set_peer_just_seen_def
    by (rule time_index.white_keeps [OF assms(1) ok]) (use assms(3,4) in \<open>simp_all add: P2P_LOCAL_WHITE_PEERLIST_LIMIT_def\<close>)
  then have "adr ?e \<in> adr ` set (m_peers_white ?st)" by (rule imageI)
  moreover have "peers_ok local ?st" unfolding set_peer_just_seen_def by (rule time_index.append_white_ok [OF assms(1) ok])
  ultimately have "addr \<notin> adr ` set (m_peers_gray ?st)" unfolding peers_ok_def by auto
  with w show ?thesis by simp
qed

theorem peer_just_seen_kept_witness:
  "\<lparr>adr = \<lparr>ip = 8, port = 1\<rparr>, peer_id = 2, last_seen = 9\<rparr>
     \<in> set (m_peers_white (set_peer_just_seen upper_ops 9 2 \<lparr>ip = 8, port = 1\<rparr> (peers_start False 9 [] [])))
   \<and> \<lparr>ip = 8, port = 1\<rparr> \<notin> adr ` set (m_peers_gray (set_peer_just_seen upper_ops 9 2 \<lparr>ip = 8, port = 1\<rparr> (peers_start False 9 [] [])))"
  by (rule peer_just_seen_kept [OF upper.time_index_axioms peers_reachable.start])
    (simp_all add: peers_start_def peers_init_def is_ip_allowed_def is_ip_loopback_def is_ip_local_def)

text \<open>
  What a handshake tells other peers: the plain head is the \<open>depth\<close> latest
  white entries that were ever seen; the anonymised head has at most \<open>depth\<close> entries with distinct
  addresses, each one of the white entries ever seen, and every time in it is zero, whatever permutation
  the shuffle applies.
\<close>

theorem peerlist_head_shares:
  assumes "time_index ops" and "peers_reachable ops local st" and "\<And>l. mset (shuffle l) = mset l"
  shows "get_peerlist_head shuffle st False depth [] = take (unat depth) (seen_recent st)
    \<and> length (get_peerlist_head shuffle st True depth []) \<le> unat depth
    \<and> distinct (map adr (get_peerlist_head shuffle st True depth []))
    \<and> (\<forall>e \<in> set (get_peerlist_head shuffle st True depth []).
        last_seen e = 0 \<and> (\<exists>x \<in> set (m_peers_white st). last_seen x \<noteq> 0 \<and> e = x\<lparr>last_seen := 0\<rparr>))"
proof -
  define picked where "picked = take (unat (depth + depth div 5)) (seen_recent st)"
  let ?s = "take (unat depth) (shuffle picked)"
  have head: "get_peerlist_head shuffle st True depth [] = map (\<lambda>e. e\<lparr>last_seen := 0\<rparr>) ?s"
    by (simp add: get_peerlist_head_def pick_peers_take picked_def seen_recent_def Let_def)
  have p: "set (shuffle picked) = set picked" "distinct (map adr (shuffle picked)) = distinct (map adr picked)"
    using mset_eq_setD [OF assms(3)] mset_eq_imp_distinct_iff [of "map adr (shuffle picked)" "map adr picked"] assms(3) by simp_all
  have sub: "set picked \<subseteq> set (seen_recent st)" unfolding picked_def by (rule set_take_subset)
  have "distinct (map adr (m_peers_white st))" using reachable_peers_ok [OF assms(1,2)] by (simp add: peers_ok_def list_ok_def)
  then have "distinct (map adr (seen_recent st))" unfolding seen_recent_def
    by (simp add: distinct_map inj_on_def)
  then have "distinct (map adr picked)" unfolding picked_def by (simp add: take_map [symmetric])
  then have "distinct (map adr ?s)" unfolding p(2) [symmetric] by (simp add: take_map [symmetric])
  then have "distinct (map adr (map (\<lambda>e. e\<lparr>last_seen := 0\<rparr>) ?s))" by (simp add: comp_def)
  moreover have "\<forall>e \<in> set ?s. e \<in> set (m_peers_white st) \<and> last_seen e \<noteq> 0"
    using p(1) sub by (fastforce simp: seen_recent_def dest: in_set_takeD)
  moreover have "get_peerlist_head shuffle st False depth [] = take (unat depth) (seen_recent st)"
    by (simp add: get_peerlist_head_def pick_peers_take seen_recent_def)
  ultimately show ?thesis unfolding head by (auto simp del: map_map)
qed

theorem peerlist_head_shares_witness:
  "length (get_peerlist_head rev (set_peer_just_seen upper_ops 9 2 \<lparr>ip = 8, port = 1\<rparr> (peers_start False 9 [] [])) True 0 []) \<le> unat (0 :: u32)"
  using peerlist_head_shares [OF upper.time_index_axioms peers_reachable.seen [OF peers_reachable.start], of rev 9 2 "\<lparr>ip = 8, port = 1\<rparr>" False 9 0]
  by simp

text \<open>
  Which addresses count as local: those whose first number is 10 and
  those that begin with 192.168. The third range of the comment in the source, 172.16 to 172.31, is
  never recognised: the comparison reads the second number from the wrong bits.
\<close>

theorem local_addresses:
  "is_ip_local a \<longleftrightarrow> a AND 0xff = 10 \<or> a AND 0xffff = 0xa8c0"
proof -
  have m: "(0xffffff00 :: u32) = NOT 0xff" "(0xffff0000 :: u32) = NOT 0xffff" by simp_all
  have c: "(0xffffff0a :: u32) = 10 OR NOT 0xff" "(0xffffa8c0 :: u32) = 0xa8c0 OR NOT 0xffff" by simp_all
  have "a OR 0xffffff00 = 0xffffff0a \<longleftrightarrow> a AND 0xff = 10" unfolding m c or_not_mask by simp
  moreover have "a OR 0xffff0000 = 0xffffa8c0 \<longleftrightarrow> a AND 0xffff = 0xa8c0" unfolding m c or_not_mask by simp
  ultimately show ?thesis using second_num_never [of a] by (auto simp: is_ip_local_def Let_def)
qed

end
