(* ===== verification/Spec2Isabelle.thy ===== *)
theory Spec2Isabelle
  imports Scalar_Ops Curve_Props Inverses Signatures Clsag_GGXXG Precomp Eddsa Pos_Inequality Tx_Semantic Chain_Shortener Base58 Tree_Hash Block_Reward Difficulty Checkpoints Peerlist
begin

text \<open>
  \<^bold>\<open>Zano, a verification library.\<close> Zano is a cryptonote currency with proof of work and proof of
  stake. A node keeps a chain of blocks (\<^verbatim>\<open>currency_core\<close>), exchanges blocks, transactions
  and addresses of peers with other nodes (\<^verbatim>\<open>p2p\<close>, \<^verbatim>\<open>currency_protocol\<close>), and checks
  signatures and proofs over the curve of Ed25519 (\<^verbatim>\<open>crypto\<close>); wallets, servers and tools are built
  around it; paths are below \<^verbatim>\<open>src/src\<close>. This development models the parts on which the validity of blocks,
  transactions and addresses rests, bottom-up: arithmetic, the curve, hashing, signatures, encodings,
  consensus rules that are functions of numbers, and components with state.

  \<^bold>\<open>Conventions\<close> (\<open>Prelude\<close>). Unsigned integers are words of their width. Signed integers are \<open>int\<close>
  values checked by \<open>cint\<close>: an overflow, undefined in C, is \<open>None\<close>, so a theorem \<open>f x = Some y\<close>
  also says that nothing overflowed; the one left shift that leaves its type is modelled in both readings (\<open>Field_Bytes\<close>). Byte arrays and strings are lists of bytes; \<open>le_value\<close> is the
  number an array stands for. Functions that can fail have their failures in layers: the outer \<open>option\<close> is
  behaviour that C does not define (overflow, an access outside an array, an uninitialised result),
  \<open>outcome\<close> (\<open>Aborts\<close>, \<open>Throws\<close>, \<open>Returns\<close>) is what the caller sees, and the value returned is the one of
  the source. Encodings of addresses and the block reward have result types of their own (\<open>b58\<close>, \<open>reward_result\<close>).
  State is a record that operations take and return. Sizes are \<^verbatim>\<open>size_t\<close> of 64 bits, memory is little-endian.
  Random bytes are arguments, one string for each draw; the argument \<open>debug\<close> stands for a build without
  \<^verbatim>\<open>NDEBUG\<close>; SHA-512 and the tables of generators other than \<open>G\<close> are arguments.

  \<^bold>\<open>Theories and sources.\<close> Arithmetic and the curve (\<^verbatim>\<open>crypto/crypto-ops.c\<close>, \<^verbatim>\<open>crypto/crypto-ops-data.c\<close>).

  \<^item> \<open>Limbs\<close>, \<open>Crypto_Bytes\<close>, \<open>Power_Chain\<close>: what the straight-line arithmetic has in common. Carry
    chains are lists of statements with a checked execution, a sound interval analysis, and the locale
    \<open>limb_system\<close>, whose laws on weights make a chain keep the value modulo the modulus; it is interpreted
    for the scalars and for the field. The locale \<open>power_chain\<close> carries an addition chain through checked
    multiplications; it is interpreted for \<^verbatim>\<open>sc_invert\<close>, \<^verbatim>\<open>fe_invert\<close> and \<^verbatim>\<open>fe_divpowm1\<close>.
  \<^item> \<open>Scalar\<close>, \<open>Scalar_Ops\<close>: the functions \<^verbatim>\<open>sc_*\<close>. For all arguments they return the canonical
    residue modulo the group order, without overflow; \<^verbatim>\<open>sc_check\<close> decides canonical form.
  \<^item> \<open>Field\<close>, \<open>Field_Ops\<close>, \<open>Field_Bytes\<close>: the functions \<^verbatim>\<open>fe_*\<close>. Within the bounds on
    limbs that the comments of the source state, no operation overflows, the result meets the stated bounds
    and has the right residue; encoding is canonical.
  \<^item> \<open>Octal\<close>, \<open>Primality\<close>, \<open>Prime_Check\<close>, \<open>Prime_25519\<close>, \<open>Prime_Order\<close>: the numbers \<open>p\<close> and \<open>l\<close> are prime, by
    Pocklington's criterion over certificates whose powers are computed on octal digits. \<open>Inverses\<close>: so the
    inversions invert. \<open>Prime_Field\<close>: the residues modulo \<open>p\<close> as a type with field operations.
  \<^item> \<open>Edwards_Group\<close>: the points of the curve are a commutative group under the Edwards addition, whose
    denominators never vanish, and \<open>Curve_Order\<close>: the base point has order \<open>l\<close>, every point \<open>8 l\<close>.
    Nothing about the curve is assumed.
  \<^item> \<open>Group\<close>, \<open>Group_Law\<close>, \<open>Point_Sums\<close>, \<open>Scalar_Mult\<close>, \<open>Base_Mult\<close>, \<open>Slide\<close>, \<open>Double_Mult\<close>: the functions \<^verbatim>\<open>ge_*\<close> that
    add, double, convert and multiply, constant-time, by tables, and by sliding windows.
    \<open>Point_Decode\<close>: decompression, and \<open>Hash_To_Point\<close>: the Elligator map and the hash to the curve.
  \<^item> \<open>Base_Data\<close>, \<open>Base_Rows_1\<close> to \<open>Base_Rows_4\<close>, \<open>Base_Point\<close>: the tables of multiples of the base point, number by number as in
    the source, and the proof that each entry is the multiple that its index says. \<open>Curve_Props\<close>: the
    properties of the functions above over these tables.

  Signatures and proofs (\<^verbatim>\<open>crypto\<close>).

  \<^item> \<open>Keys\<close>, \<open>Signatures\<close> (\<^verbatim>\<open>crypto.cpp\<close>): key pairs, derivations, one-time keys, key images, signatures
    and ring signatures: what is made with the right secret is accepted, and the exact condition of acceptance.
  \<^item> \<open>Sugar\<close>, \<open>Scalar_Words\<close> (\<^verbatim>\<open>crypto-sugar.h\<close>): scalars, points and transcripts in C++; comparison, ranges of
    bits and the inversion of vectors. \<open>Precomp\<close> (\<^verbatim>\<open>crypto-sugar.cpp\<close>): the table computed for another
    generator satisfies \<open>table_of\<close>, the hypothesis that the theories below make on tables.
  \<^item> \<open>Schnorr\<close> (\<^verbatim>\<open>zarcanum.h\<close>): proofs of one and of two secrets. \<open>Clsag\<close>, \<open>Clsag_X\<close>, \<open>Clsag_GGX\<close>, \<open>Clsag_GGXXG\<close>
    (\<^verbatim>\<open>clsag.cpp\<close>): the ring signatures that spend outputs with open amounts, with hidden amounts, and
    hidden stakes; the walk around the ring and its closing are proved once, in the locale of \<open>Clsag\<close>.
    \<open>Eddsa\<close> (\<^verbatim>\<open>eddsa_signature.cpp\<close>). \<open>Pos_Inequality\<close> (\<^verbatim>\<open>zarcanum.cpp\<close>): the inequality of proof of
    stake between miner, proof and verifier.
  \<^item> \<open>Keccak\<close> (\<^verbatim>\<open>keccak.c\<close>, \<^verbatim>\<open>hash.c\<close>): the in-place permutation equals the step mappings of the specification, and
    the hash is the sponge over the padded message, on the bytes that the cast of the length to \<^verbatim>\<open>int\<close> leaves. \<open>Tree_Hash\<close> (\<^verbatim>\<open>tree-hash.c\<close>): the root of the tree, and that it
    binds its leaves.

  Encodings, consensus rules, components with state.

  \<^item> \<open>Varint\<close> (\<^verbatim>\<open>common/varint.h\<close>), \<open>Base58\<close> (\<^verbatim>\<open>common/base58.cpp\<close>), \<open>String_Tools\<close>
    (\<^verbatim>\<open>contrib/epee/include/string_tools.h\<close>): encodings with round trips, uniqueness of accepted texts, and totality.
  \<^item> \<open>Int_Util\<close> (\<^verbatim>\<open>common/int-util.h\<close>), \<open>Block_Reward\<close> (\<^verbatim>\<open>get_block_reward\<close> of
    \<^verbatim>\<open>currency_core/currency_format_utils.cpp\<close>): 128-bit products and quotients from halves, and
    the penalty for large blocks as an exact formula for medians below \<open>2\<^sup>3\<^sup>2\<close>.
  \<^item> \<open>Difficulty\<close> (\<^verbatim>\<open>currency_core/difficulty.cpp\<close>): the proof-of-work test by carries equals a
    comparison of numbers, agrees with the boundary given to miners; retargeting is total and keeps a steady
    chain steady.
  \<^item> \<open>Checkpoints\<close> (\<^verbatim>\<open>currency_core/checkpoints.cpp\<close>): a state machine whose reachable states
    keep an ordered map, and queries that answer by the set of heights.
  \<^item> \<open>Peerlist\<close> (\<^verbatim>\<open>p2p/net_peerlist.h\<close>, \<^verbatim>\<open>contrib/epee/include/net/local_ip.h\<close>): the white and
    gray lists under every operation of the manager and under restarts from the stored lists. The locale \<open>time_index\<close> is the contract of the container
    of Boost.MultiIndex; the invariant is proved inside it and the locale is interpreted on insertion
    at the upper bound.
  \<^item> \<open>Tx_Data\<close>, \<open>Tx_Semantic\<close> (\<^verbatim>\<open>currency_core/currency_basic.h\<close>, \<^verbatim>\<open>currency_core/tx_semantic_validation.cpp\<close>,
    \<^verbatim>\<open>currency_format_utils.cpp\<close>): transactions, and the checks of a transaction that need no chain, decided exactly; how far open amounts
    can create coins, gateways included; the order of inputs.
  \<^item> \<open>Hard_Forks\<close> (\<^verbatim>\<open>currency_core/core_runtime_config.h\<close>, \<^verbatim>\<open>hardfork_specific_terms.h\<close>): the heights of the hard forks, and the
    types that each allows in a transaction.
  \<^item> \<open>Chain_Shortener\<close> (\<^verbatim>\<open>currency_core/block_chain_shortener.cpp\<close>): the wallet's memory of the chain, in simulation with a
    specification that remembers every block; its history and its comparison with blocks of a node.

  \<^bold>\<open>Interaction.\<close> Points use the field, scalar multiplication uses both; keys and signatures use points,
  scalars and the hash; the proofs in C++ use keys, points and transcripts; addresses use varints and the
  hash; the tree uses the hash; the reward uses the 128-bit helpers; checkpoints use hexadecimal text;
  the checks of transactions use the check of keys and the terms of the hard forks.

  \<^bold>\<open>Bounds and loops.\<close> There is no fuel: loops are structural or terminating recursions, and
  the functions are total. The one exception is the loop of \<open>get_short_chain_history\<close>, a \<open>partial_function\<close> whose
  end is proved for the states that the wallet reaches with heights below \<open>2\<^sup>6\<^sup>2\<close>. Callers of the hash take it as a function of the bytes
  (\<open>cn_fast_hash\<close>), which C defines for lengths whose low 32 bits are below \<open>2\<^sup>3\<^sup>1\<close>; results about longer transcripts, of rings with
  tens of millions of members, say nothing of the code. Scalars of signatures are below \<open>2\<^sup>2\<^sup>5\<^sup>5\<close> where the verifier does not check that they are reduced,
  since the multiplications need it. The tables and the certificates of primality take
  most of the time of the check.

  \<^bold>\<open>Not modelled.\<close> Range proofs and the other parts of the proofs of assets (\<^verbatim>\<open>range_proof_bpp.h\<close>,
  \<^verbatim>\<open>range_proof_bppe.h\<close>, \<^verbatim>\<open>one_out_of_many_proofs.cpp\<close>, \<^verbatim>\<open>msm.h\<close>, the rest of \<^verbatim>\<open>zarcanum.cpp\<close>) and the linear composition
  proof of \<^verbatim>\<open>zarcanum.h\<close>, marked there as not to be used; that no other than the owner of a secret can sign is an
  assumption on the curve and the hash and not a theorem. The ciphers, SHA-512 and the random generator, which are
  reference implementations; signatures for Ethereum, which call a library; block and transaction storage, which is
  written against a database; construction of transactions and their checks against the chain; the transaction pool, wallet, servers, miners and user interfaces;
  serialization templates and vendored libraries. Exceptions of the memory allocator are modelled only where the
  source handles them (\<^verbatim>\<open>tree_hash\<close>); locks are not modelled, an operation is one step.
\<close>

end
